(* ===== verification/Prelude.thy ===== *)
theory Prelude
  imports Main "HOL-Library.Word"
begin

unbundle bit_operations_syntax

text \<open>
  Shared vocabulary of the development: the kernel's machine integers, the faults a
  C++ expression can raise (an array access out of bounds, a division by zero, a null
  dereference) as values of a sum type, the loops \<^verbatim>\<open>for (i = 0; i < N; i++)\<close> over a
  table as recursive functions, and the generic lemmas on words, lists and tables that
  the components use.
\<close>

type_synonym u8 = "8 word"
type_synonym u16 = "16 word"
type_synonym u32 = "32 word"

text \<open>Strings of the kernel are byte lists without their terminating zero byte.\<close>

type_synonym bytes = "u8 list"

datatype fault = OutOfBounds | DivideError | NullDeref

named_theorems wordarith "unsigned readings of word operations"

section \<open>Results with faults\<close>

definition bindE :: "'e + 'a \<Rightarrow> ('a \<Rightarrow> 'e + 'b) \<Rightarrow> 'e + 'b" where
  "bindE r f = (case r of Inl e \<Rightarrow> Inl e | Inr x \<Rightarrow> f x)"

lemma bindE_simps [simp]:
  "bindE (Inl e) f = Inl e"
  "bindE (Inr x) f = f x"
  by (simp_all add: bindE_def)

lemma bindE_Inr_iff: "bindE r f = Inr y \<longleftrightarrow> (\<exists>x. r = Inr x \<and> f x = Inr y)"
  by (cases r) auto

lemma bindE_split: "P (bindE r f) \<longleftrightarrow> (\<forall>e. r = Inl e \<longrightarrow> P (Inl e)) \<and> (\<forall>x. r = Inr x \<longrightarrow> P (f x))"
  by (cases r) auto

text \<open>A counted loop whose body may fault: \<^verbatim>\<open>for (x : xs) s = f(x, s)\<close>.\<close>

fun foldE :: "('x \<Rightarrow> 's \<Rightarrow> 'e + 's) \<Rightarrow> 'x list \<Rightarrow> 's \<Rightarrow> 'e + 's" where
  "foldE f [] s = Inr s"
| "foldE f (x # xs) s = bindE (f x s) (foldE f xs)"

lemma foldE_append: "foldE f (xs @ ys) s = bindE (foldE f xs s) (foldE f ys)"
  by (induction xs arbitrary: s) (auto simp: bindE_def split: sum.splits)

text \<open>An invariant rule for counted loops: the state after \<open>i\<close> rounds satisfies \<open>I i\<close>.\<close>

lemma foldE_upt_inv:
  assumes "I lo s" and "lo \<le> hi"
    and "\<And>i s. lo \<le> i \<Longrightarrow> i < hi \<Longrightarrow> I i s \<Longrightarrow> \<exists>s'. f i s = Inr s' \<and> I (Suc i) s'"
  shows "\<exists>s'. foldE f [lo..<hi] s = Inr s' \<and> I hi s'"
  using assms(2,3)
proof (induction hi rule: dec_induct)
  case base
  with assms(1) show ?case by simp
next
  case (step n)
  then obtain s' where "foldE f [lo..<n] s = Inr s'" "I n s'" by fastforce
  moreover obtain s'' where "f n s' = Inr s''" "I (Suc n) s''"
    using step calculation by blast
  ultimately show ?case using step.hyps by (auto simp: foldE_append)
qed

section \<open>Searching a table\<close>

text \<open>
  \<^verbatim>\<open>for (int i = 0; i < N; i++) if (P(tab[i])) return i;\<close> with the result \<open>None\<close>
  when the loop falls through.
\<close>

fun find_idx :: "('a \<Rightarrow> bool) \<Rightarrow> 'a list \<Rightarrow> nat option" where
  "find_idx P [] = None"
| "find_idx P (x # xs) = (if P x then Some 0 else map_option Suc (find_idx P xs))"

lemma find_idx_None_iff: "find_idx P xs = None \<longleftrightarrow> (\<forall>x \<in> set xs. \<not> P x)"
  by (induction xs) auto

lemma find_idx_SomeD:
  "find_idx P xs = Some i \<Longrightarrow> i < length xs \<and> P (xs ! i) \<and> (\<forall>j < i. \<not> P (xs ! j))"
proof (induction xs arbitrary: i)
  case Nil
  then show ?case by simp
next
  case (Cons x xs)
  show ?case
  proof (cases "P x")
    case True
    with Cons.prems show ?thesis by auto
  next
    case False
    with Cons.prems obtain k where k: "find_idx P xs = Some k" "i = Suc k" by auto
    with Cons.IH [OF k(1)] False show ?thesis by (auto simp: nth_Cons split: nat.splits)
  qed
qed

lemma find_idx_Some_iff:
  "find_idx P xs = Some i \<longleftrightarrow> i < length xs \<and> P (xs ! i) \<and> (\<forall>j < i. \<not> P (xs ! j))"
proof
  assume "find_idx P xs = Some i"
  then show "i < length xs \<and> P (xs ! i) \<and> (\<forall>j < i. \<not> P (xs ! j))" by (rule find_idx_SomeD)
next
  assume r: "i < length xs \<and> P (xs ! i) \<and> (\<forall>j < i. \<not> P (xs ! j))"
  then have "find_idx P xs \<noteq> None" by (auto simp: find_idx_None_iff intro: nth_mem)
  then obtain k where k: "find_idx P xs = Some k" by blast
  with find_idx_SomeD [OF k] r have "k = i" by (metis linorder_neqE_nat)
  with k show "find_idx P xs = Some i" by simp
qed

lemma find_idx_lt: "find_idx P xs = Some i \<Longrightarrow> i < length xs"
  by (simp add: find_idx_Some_iff)

lemma find_idx_cong: "xs = ys \<Longrightarrow> (\<And>x. x \<in> set ys \<Longrightarrow> P x = Q x) \<Longrightarrow> find_idx P xs = find_idx Q ys"
  by (induction ys arbitrary: xs) auto

section \<open>Arrays\<close>

text \<open>\<^verbatim>\<open>kmemcpy(arr, bs, n)\<close> into an array: the first \<open>n\<close> cells change, the rest stay.\<close>

definition copy_into :: "'a list \<Rightarrow> 'a list \<Rightarrow> 'a list" where
  "copy_into old new = new @ drop (length new) old"

lemma length_copy_into [simp]:
  "length new \<le> length old \<Longrightarrow> length (copy_into old new) = length old"
  by (simp add: copy_into_def)

lemma take_copy_into [simp]: "take (length new) (copy_into old new) = new"
  by (simp add: copy_into_def)

lemma all_set_update:
  "\<forall>x \<in> set xs. P x \<Longrightarrow> P y \<Longrightarrow> \<forall>x \<in> set (xs[i := y]). P x"
  using set_update_subset_insert [of xs i y] by blast

text \<open>Loops that copy or store through an address function.\<close>

lemma fold_nested: "fold (\<lambda>r. fold (f r) cs) rs m = fold (\<lambda>(r, c). f r c) (concat (map (\<lambda>r. map (Pair r) cs) rs)) m"
  by (induction rs arbitrary: m) (simp_all add: fold_map comp_def)

lemma fold_copy:
  fixes m :: "'b \<Rightarrow> 'c"
  assumes "inj_on f (set xs)" "f ` set xs \<inter> g ` set xs = {}"
  shows "(i \<in> set xs \<longrightarrow> fold (\<lambda>i m. m(f i := m (g i))) xs m (f i) = m (g i)) \<and>
    (a \<notin> f ` set xs \<longrightarrow> fold (\<lambda>i m. m(f i := m (g i))) xs m a = m a)"
  using assms
proof (induction xs arbitrary: m i a)
  case (Cons x xs)
  have IH: "i \<in> set xs \<Longrightarrow> fold (\<lambda>i m. m(f i := m (g i))) xs m (f i) = m (g i)"
    "a \<notin> f ` set xs \<Longrightarrow> fold (\<lambda>i m. m(f i := m (g i))) xs m a = m a"
    for m :: "'b \<Rightarrow> 'c" and i a
  proof -
    have "inj_on f (set xs)" "f ` set xs \<inter> g ` set xs = {}" using Cons.prems by (auto simp: inj_on_def)
    note IH = Cons.IH [OF this, of i m a]
    show "i \<in> set xs \<Longrightarrow> fold (\<lambda>i m. m(f i := m (g i))) xs m (f i) = m (g i)"
      "a \<notin> f ` set xs \<Longrightarrow> fold (\<lambda>i m. m(f i := m (g i))) xs m a = m a" using IH by blast+
  qed
  have "g i \<noteq> f x" if "i \<in> set (x # xs)" for i
  proof
    assume "g i = f x"
    then have "f x \<in> g ` set (x # xs)" using that by (metis imageI)
    then show False using Cons.prems(2) by auto
  qed
  moreover have "f x \<in> f ` set xs \<Longrightarrow> x \<in> set xs" using Cons.prems(1) by (auto simp: inj_on_def)
  ultimately have g: "i \<in> set xs \<Longrightarrow> g i \<noteq> f x" "f x \<in> f ` set xs \<Longrightarrow> x \<in> set xs" for i by auto
  show ?case
  proof (intro conjI impI)
    assume "i \<in> set (x # xs)"
    moreover have "f x \<notin> f ` set xs" if "x \<notin> set xs" using that g by blast
    ultimately show "fold (\<lambda>i m. m(f i := m (g i))) (x # xs) m (f i) = m (g i)"
      using g(1) [of i] IH by (cases "i \<in> set xs") auto
  next
    assume "a \<notin> f ` set (x # xs)"
    then show "fold (\<lambda>i m. m(f i := m (g i))) (x # xs) m a = m a" by (simp add: IH)
  qed
qed simp

lemma fold_write: "fold (\<lambda>i m. m(f i := c)) xs m a = (if a \<in> f ` set xs then c else m a)"
  by (induction xs arbitrary: m) auto

section \<open>Words\<close>

lemma unat_plus_one [wordarith]:
  "unat (w :: 'a::len word) + 1 < 2 ^ LENGTH('a) \<Longrightarrow> unat (w + 1) = unat w + 1"
  by (simp add: unat_word_ariths)

lemma unat_plus_if [wordarith]:
  "unat (a :: 'a::len word) + unat b < 2 ^ LENGTH('a) \<Longrightarrow> unat (a + b) = unat a + unat b"
  by (simp add: unat_word_ariths)

lemma unat_minus_le [wordarith]:
  "(b :: 'a::len word) \<le> a \<Longrightarrow> unat (a - b) = unat a - unat b"
  by (simp add: unat_sub)

lemma unat_mult_lt [wordarith]:
  "unat (a :: 'a::len word) * unat b < 2 ^ LENGTH('a) \<Longrightarrow> unat (a * b) = unat a * unat b"
  by (simp add: unat_word_ariths)

lemma unat_of_nat_lt [wordarith]:
  "n < 2 ^ LENGTH('a) \<Longrightarrow> unat (of_nat n :: 'a::len word) = n"
  by (simp add: unat_of_nat take_bit_nat_eq_self)

lemma unat_of_nat32: "n < 2 ^ 32 \<Longrightarrow> unat (of_nat n :: u32) = n"
  by (rule unat_of_nat_lt) simp

lemma of_nat_inj32: "i < 2 ^ 32 \<Longrightarrow> j < 2 ^ 32 \<Longrightarrow> (of_nat i :: u32) = of_nat j \<longleftrightarrow> i = j"
  by (simp add: word_unat_eq_iff unat_of_nat_lt)

lemma sint_of_nat32:
  assumes "n < 2 ^ 31"
  shows "sint (of_nat n :: u32) = int n"
proof -
  have "uint (of_nat n :: u32) = int n"
    using assms by (simp add: uint_nat unat_of_nat32)
  then show ?thesis using assms by (simp add: sint_uint signed_take_bit_int_eq_self)
qed

lemma sint_small32: "unat (w :: u32) < 2 ^ 31 \<Longrightarrow> sint w = int (unat w)"
  using sint_of_nat32 [of "unat w"] by simp

text \<open>Distinct offsets below \<open>2 ^ 32\<close> are distinct addresses.\<close>

lemma addr_ne: "i < n \<Longrightarrow> j < n \<Longrightarrow> n \<le> 2 ^ 32 \<Longrightarrow> i \<noteq> j \<Longrightarrow> p + (of_nat i :: u32) \<noteq> p + of_nat j"
  using of_nat_inj32 [of i j] by auto

lemma of_nat_Suc_ne0:
  assumes "Suc n \<le> 2 ^ 32" "k < n"
  shows "(of_nat (Suc k) :: u32) \<noteq> 0"
proof -
  have "unat (of_nat (Suc k) :: u32) = Suc k"
    by (rule unat_of_nat_lt) (use assms in simp)
  then show ?thesis by (metis unat_0 nat.distinct(1))
qed

lemma addr_suc_ne:
  assumes "Suc n \<le> 2 ^ 32" "k < n"
  shows "p \<noteq> (p + 1) + (of_nat k :: u32)"
proof -
  have "(p + 1) + (of_nat k :: u32) - p = of_nat (Suc k)" by simp
  moreover have "p - p = (0 :: u32)" by simp
  ultimately show ?thesis using of_nat_Suc_ne0 [OF assms] by metis
qed

lemma addr_pred_ne:
  assumes "Suc n \<le> 2 ^ 32" "k < n"
  shows "p \<noteq> p - (of_nat (Suc k) :: u32)"
proof -
  have "p - (p - (of_nat (Suc k) :: u32)) = of_nat (Suc k)" by simp
  moreover have "p - p = (0 :: u32)" by simp
  ultimately show ?thesis using of_nat_Suc_ne0 [OF assms] by metis
qed

lemma unat_lt32: "unat (w :: u32) < 4294967296"
  using unsigned_less [of w] by simp

lemma unat_lt16: "unat (w :: u16) < 65536"
  using unsigned_less [of w] by simp

text \<open>Widening keeps the value.\<close>

lemma unat_widen:
  assumes "LENGTH('a::len) \<le> LENGTH('b::len)"
  shows "unat (ucast (w :: 'a word) :: 'b word) = unat w"
proof -
  have "unat w < 2 ^ LENGTH('b)"
    by (rule less_le_trans [OF unsigned_less power_increasing [OF assms]]) simp
  then show ?thesis by (simp add: unsigned_ucast_eq take_bit_nat_eq_self)
qed

lemma unat_ucast_up [simp]:
  "unat (ucast (a :: u8) :: u16) = unat a"
  "unat (ucast (a :: u8) :: u32) = unat a"
  "unat (ucast (b :: u16) :: u32) = unat b"
  by (simp_all add: unat_widen)

text \<open>Masks: \<^verbatim>\<open>x & (2^n - 1)\<close> is a remainder, \<^verbatim>\<open>x & ~(2^n - 1)\<close> rounds down.\<close>

lemma and_not_mask: "(x :: 'a::len word) AND NOT (mask n) = push_bit n (drop_bit n x)"
  by (rule bit_word_eqI) (auto simp: bit_simps)

lemma unat_and_not_mask:
  "n < LENGTH('a) \<Longrightarrow> unat ((x :: 'a::len word) AND NOT (mask n)) = unat x div 2 ^ n * 2 ^ n"
proof -
  assume n: "n < LENGTH('a)"
  have "unat x < 2 ^ LENGTH('a)" by (rule unsigned_less)
  then have le: "unat x div 2 ^ n * 2 ^ n < 2 ^ LENGTH('a)"
    using div_times_less_eq_dividend [of "unat x" "2 ^ n"] by linarith
  have "unat (push_bit n (drop_bit n x)) = take_bit LENGTH('a) (unat x div 2 ^ n * 2 ^ n)"
    by (simp only: unsigned_push_bit_eq unat_drop_bit_eq) (simp add: push_bit_eq_mult drop_bit_eq_div)
  with le show ?thesis by (simp add: and_not_mask take_bit_nat_eq_self)
qed

lemma unat_and_mask: "unat ((x :: 'a::len word) AND mask n) = unat x mod 2 ^ n"
  by (simp flip: take_bit_eq_mask add: unsigned_take_bit_eq) (simp add: take_bit_eq_mod)

lemma mask_numerals:
  "(7 :: u32) = mask 3" "(15 :: u32) = mask 4" "(0xFFF :: u32) = mask 12" "(0x3FF :: u32) = mask 10"
  by (simp_all add: mask_eq_exp_minus_1)

lemma word_eq_unat: "a = b \<longleftrightarrow> unat a = unat (b :: 'a::len word)"
  by (simp add: word_unat_eq_iff)

section \<open>Machine integers in memory\<close>

text \<open>Loads and stores of 16-bit and 32-bit integers in bytes, least significant byte first.\<close>

definition get32 :: "bytes \<Rightarrow> nat \<Rightarrow> u32" where
  "get32 b i = ucast (b ! i) OR push_bit 8 (ucast (b ! (i + 1))) OR push_bit 16 (ucast (b ! (i + 2)))
     OR push_bit 24 (ucast (b ! (i + 3)))"

definition get16 :: "bytes \<Rightarrow> nat \<Rightarrow> u16" where
  "get16 b i = ucast (b ! i) OR push_bit 8 (ucast (b ! (i + 1)))"

definition bytes16 :: "u16 \<Rightarrow> bytes" where
  "bytes16 w = [ucast w, ucast (drop_bit 8 w)]"

definition bytes32 :: "u32 \<Rightarrow> bytes" where
  "bytes32 w = [ucast w, ucast (drop_bit 8 w), ucast (drop_bit 16 w), ucast (drop_bit 24 w)]"

lemma get32_bit:
  "bit (get32 b i) n \<longleftrightarrow> n < 32 \<and> bit (b ! (i + n div 8)) (n mod 8)"
proof (cases "n < 32")
  case True
  then consider "n < 8" | "8 \<le> n" "n < 16" | "16 \<le> n" "n < 24" | "24 \<le> n" "n < 32" by linarith
  then show ?thesis
  proof cases
    case 1
    then show ?thesis by (simp add: get32_def bit_simps)
  next
    case 2
    then have "n div 8 = 1" "n mod 8 = n - 8" by presburger+
    with 2 show ?thesis by (auto simp: get32_def bit_simps dest: bit_imp_le_length)
  next
    case 3
    then have "n div 8 = 2" "n mod 8 = n - 16" by presburger+
    with 3 show ?thesis by (auto simp: get32_def bit_simps dest: bit_imp_le_length)
  next
    case 4
    then have "n div 8 = 3" "n mod 8 = n - 24" by presburger+
    with 4 show ?thesis by (auto simp: get32_def bit_simps dest: bit_imp_le_length)
  qed
next
  case False
  then show ?thesis by (auto dest: bit_imp_le_length)
qed

lemma length_bytes [simp]: "length (bytes16 h) = 2" "length (bytes32 w) = 4"
  by (simp_all add: bytes16_def bytes32_def)

end
