(* ===== verification/Ring.thy ===== *)
theory Ring
  imports Prelude
begin

text \<open>
  Circular buffers. The kernel keeps many: the network packet queue, the pipe buffers,
  the keyboard buffer, the UDP listener queues and the TCP receive buffers. This theory
  holds what they share: the list a ring stands for, how writing the next cell and
  moving the read position change that list, and the copy loops
  \<^verbatim>\<open>buf[pos] = x; pos = (pos + 1) % N\<close> of the pipes and of TCP.
\<close>

text \<open>The \<open>n\<close> elements of the ring of size \<open>N\<close> that start at position \<open>pos\<close>.\<close>

definition ring_items :: "nat \<Rightarrow> 'a list \<Rightarrow> nat \<Rightarrow> nat \<Rightarrow> 'a list" where
  "ring_items N buf pos n = map (\<lambda>i. buf ! ((pos + i) mod N)) [0..<n]"

text \<open>The number of elements between the tail (read) and the head (write) position.\<close>

definition ring_count :: "nat \<Rightarrow> nat \<Rightarrow> nat \<Rightarrow> nat" where
  "ring_count N tail head = (head + N - tail) mod N"

lemma ring_items_0 [simp]: "ring_items N buf pos 0 = []"
  by (simp add: ring_items_def)

lemma length_ring_items [simp]: "length (ring_items N buf pos n) = n"
  by (simp add: ring_items_def)

lemma ring_items_Suc:
  "ring_items N buf pos (Suc n) = ring_items N buf pos n @ [buf ! ((pos + n) mod N)]"
  by (simp add: ring_items_def)

lemma ring_items_Cons:
  assumes "pos < N"
  shows "ring_items N buf pos (Suc n) = buf ! pos # ring_items N buf ((pos + 1) mod N) n"
proof -
  have "[0..<Suc n] = 0 # map Suc [0..<n]"
    by (metis map_Suc_upt upt_conv_Cons zero_less_Suc)
  moreover have "((pos + 1) mod N + i) mod N = (pos + Suc i) mod N" for i
    by (simp add: mod_add_left_eq)
  ultimately show ?thesis
    using assms by (simp add: ring_items_def o_def mod_Suc_eq mod_add_left_eq del: upt_Suc)
qed

lemma ring_index_inj:
  assumes "i < N" "j < N" "(pos + i) mod N = (pos + j) mod (N::nat)"
  shows "i = j"
proof -
  have "(int pos + int i) mod int N = (int pos + int j) mod int N"
    using assms(3) by (metis of_nat_add zmod_int)
  then have "int N dvd int i - int j"
    by (simp add: mod_eq_dvd_iff)
  then have "int i mod int N = int j mod int N"
    by (simp add: mod_eq_dvd_iff)
  with assms(1,2) show ?thesis by simp
qed

text \<open>Writing the cell after the last element adds it at the end, if the ring is not full.\<close>

lemma ring_items_write:
  assumes "n < N" "N \<le> length buf" "j = (pos + n) mod N"
  shows "ring_items N (buf[j := x]) pos (Suc n) = ring_items N buf pos n @ [x]"
proof -
  have "j < length buf" using assms by (metis less_le_trans mod_less_divisor not_less0 neq0_conv)
  moreover have "j \<noteq> (pos + i) mod N" if "i < n" for i
    using ring_index_inj [of i N n pos] assms that by auto
  ultimately show ?thesis
    using assms(3) by (auto simp: ring_items_Suc ring_items_def nth_list_update)
qed

lemma ring_count_bound: "0 < N \<Longrightarrow> ring_count N tail head < N"
  by (simp add: ring_count_def)

lemma ring_count_head:
  assumes "tail < N" "head < N"
  shows "(tail + ring_count N tail head) mod N = head"
proof -
  have "(tail + ring_count N tail head) mod N = (tail + (head + N - tail)) mod N"
    by (simp add: ring_count_def mod_add_right_eq)
  with assms show ?thesis by simp
qed

lemma ring_count_0_iff: "tail < N \<Longrightarrow> head < N \<Longrightarrow> ring_count N tail head = 0 \<longleftrightarrow> head = tail"
  using ring_count_head [of tail N head] by (auto simp: ring_count_def)

lemma ring_count_eqI:
  assumes "tail < N" "n < N" "(tail + n) mod N = head"
  shows "ring_count N tail head = n"
proof -
  have "head < N" using assms by (metis mod_less_divisor not_less0 neq0_conv)
  with ring_count_head [OF assms(1) this] assms ring_count_bound [of N tail head]
    ring_index_inj [of "ring_count N tail head" N n tail]
  show ?thesis by auto
qed

lemma ring_count_push:
  assumes "tail < N" "head < N" "(head + 1) mod N \<noteq> tail"
  shows "ring_count N tail ((head + 1) mod N) = Suc (ring_count N tail head)"
    and "Suc (ring_count N tail head) < N"
proof -
  let ?n = "ring_count N tail head"
  have nxt: "(tail + Suc ?n) mod N = (head + 1) mod N"
    using ring_count_head [OF assms(1,2)] by (metis add_Suc_right mod_Suc_eq Suc_eq_plus1)
  have "?n < N" using assms by (simp add: ring_count_bound)
  moreover have "Suc ?n \<noteq> N" using nxt assms(1,3) by (metis mod_add_self2 mod_less)
  ultimately show lt: "Suc ?n < N" by simp
  show "ring_count N tail ((head + 1) mod N) = Suc ?n"
    by (rule ring_count_eqI [OF assms(1) lt nxt])
qed

lemma ring_count_full:
  assumes "tail < N" "head < N" "(head + 1) mod N = tail"
  shows "ring_count N tail head = N - 1"
proof (rule ring_count_eqI [OF assms(1)])
  show "N - 1 < N" using assms by simp
  show "(tail + (N - 1)) mod N = head"
    using assms by (cases "head + 1 = N") (auto simp: mod_if)
qed

lemma ring_count_pop:
  assumes "tail < N" "head < N" "ring_count N tail head = Suc n"
  shows "ring_count N ((tail + 1) mod N) head = n"
proof (rule ring_count_eqI)
  show "(tail + 1) mod N < N" using assms by simp
  show "n < N" using assms ring_count_bound [of N tail head] by simp
  show "((tail + 1) mod N + n) mod N = head"
    using ring_count_head [OF assms(1,2)] assms(3) by (simp add: mod_add_left_eq)
qed

section \<open>The copy loops of pipes and TCP\<close>

text \<open>
  \<^verbatim>\<open>for (i = 0; i < n; i++) { buf[pos] = src[i]; pos = (pos + 1) % N; }\<close>, with the
  position after the loop.
\<close>

fun ring_put :: "nat \<Rightarrow> 'a list \<Rightarrow> nat \<Rightarrow> 'a list \<Rightarrow> 'a list \<times> nat" where
  "ring_put N buf pos [] = (buf, pos)"
| "ring_put N buf pos (x # xs) = ring_put N (buf[pos := x]) ((pos + 1) mod N) xs"

text \<open>\<^verbatim>\<open>for (i = 0; i < n; i++) { dst[i] = buf[pos]; pos = (pos + 1) % N; }\<close>.\<close>

fun ring_get :: "nat \<Rightarrow> 'a list \<Rightarrow> nat \<Rightarrow> nat \<Rightarrow> 'a list \<times> nat" where
  "ring_get N buf pos 0 = ([], pos)"
| "ring_get N buf pos (Suc n) =
     (let (xs, pos') = ring_get N buf ((pos + 1) mod N) n in (buf ! pos # xs, pos'))"

lemma ring_put_spec:
  assumes "n + length xs \<le> N" "length buf = N" "(pos + n) mod N = wpos" "0 < N"
    and "ring_put N buf wpos xs = (buf', wpos')"
  shows "ring_items N buf' pos (n + length xs) = ring_items N buf pos n @ xs
    \<and> wpos' = (pos + n + length xs) mod N \<and> length buf' = N"
  using assms
proof (induction xs arbitrary: n buf wpos)
  case Nil
  then show ?case by simp
next
  case (Cons x xs)
  have w: "ring_items N (buf[wpos := x]) pos (Suc n) = ring_items N buf pos n @ [x]"
    using Cons.prems by (intro ring_items_write) auto
  have "(pos + Suc n) mod N = (wpos + 1) mod N"
    using Cons.prems(3) by (metis add_Suc_right mod_Suc_eq Suc_eq_plus1)
  with Cons.IH [of "Suc n" "buf[wpos := x]" "(wpos + 1) mod N"] Cons.prems w
  show ?case by simp
qed

lemma ring_get_spec:
  assumes "pos < N" "n \<le> m" "ring_get N buf pos n = (xs, pos')"
  shows "xs = take n (ring_items N buf pos m) \<and> pos' = (pos + n) mod N
    \<and> ring_items N buf pos' (m - n) = drop n (ring_items N buf pos m)"
  using assms
proof (induction n arbitrary: pos m xs)
  case 0
  then show ?case by simp
next
  case (Suc n)
  then obtain k where k: "m = Suc k" "n \<le> k" by (cases m) auto
  obtain ys where ys: "ring_get N buf ((pos + 1) mod N) n = (ys, pos')" "xs = buf ! pos # ys"
    using Suc.prems by (auto simp: Let_def split: prod.splits)
  have "((pos + 1) mod N + n) mod N = (pos + Suc n) mod N"
    by (simp add: mod_add_left_eq)
  with Suc.IH [OF _ k(2) ys(1)] Suc.prems(1) k ys(2) ring_items_Cons [OF Suc.prems(1), of buf k]
  show ?case by auto
qed

end
