(* ===== verification/Interfaces.thy ===== *)
theory Interfaces
  imports Prelude
begin

text \<open>
  The contracts that several components of the kernel share, as locales: a bounded FIFO
  queue (packet queue, keyboard buffer, UDP listeners), a keyed table with lookup and
  store (environment variables, ARP cache, DNS cache), and a page-frame allocator (what
  paging relies on). Each locale's client lemmas are proved once; each is interpreted on
  the code's own operations in the theory of the component that provides them.
\<close>

section \<open>Bounded FIFO queues\<close>

datatype 'a qop = Push 'a | Pop

text \<open>
  A client's run: the operations in order, with the elements the queue accepted and the
  elements it delivered.
\<close>

fun run_queue ::
  "('q \<Rightarrow> 'a \<Rightarrow> 'q \<times> bool) \<Rightarrow> ('q \<Rightarrow> 'q \<times> 'a option) \<Rightarrow> 'q \<Rightarrow> 'a qop list
    \<Rightarrow> 'q \<times> 'a list \<times> 'a list" where
  "run_queue push pop q [] = (q, [], [])"
| "run_queue push pop q (Push x # ops) =
     (let (q1, ok) = push q x; (q2, acc, out) = run_queue push pop q1 ops
      in (q2, if ok then x # acc else acc, out))"
| "run_queue push pop q (Pop # ops) =
     (let (q1, r) = pop q; (q2, acc, out) = run_queue push pop q1 ops
      in (q2, acc, case r of None \<Rightarrow> out | Some x \<Rightarrow> x # out))"

definition pushes_valid :: "('a \<Rightarrow> bool) \<Rightarrow> 'a qop list \<Rightarrow> bool" where
  "pushes_valid valid ops = (\<forall>x. Push x \<in> set ops \<longrightarrow> valid x)"

lemma pushes_valid_simps [simp]:
  "pushes_valid v []"
  "pushes_valid v (Push x # ops) \<longleftrightarrow> v x \<and> pushes_valid v ops"
  "pushes_valid v (Pop # ops) \<longleftrightarrow> pushes_valid v ops"
  by (auto simp: pushes_valid_def)

locale fifo =
  fixes items :: "'q \<Rightarrow> 'a list"
    and inv :: "'q \<Rightarrow> bool"
    and valid :: "'a \<Rightarrow> bool"
    and cap :: nat
    and push :: "'q \<Rightarrow> 'a \<Rightarrow> 'q \<times> bool"
    and pop :: "'q \<Rightarrow> 'q \<times> 'a option"
  assumes push_room: "inv q \<Longrightarrow> valid x \<Longrightarrow> length (items q) < cap \<Longrightarrow>
      \<exists>q'. push q x = (q', True) \<and> inv q' \<and> items q' = items q @ [x]"
    and push_full: "inv q \<Longrightarrow> valid x \<Longrightarrow> \<not> length (items q) < cap \<Longrightarrow> push q x = (q, False)"
    and pop_empty: "inv q \<Longrightarrow> items q = [] \<Longrightarrow> pop q = (q, None)"
    and pop_item: "inv q \<Longrightarrow> items q = x # xs \<Longrightarrow>
      \<exists>q'. pop q = (q', Some x) \<and> inv q' \<and> items q' = xs"
    and bounded: "inv q \<Longrightarrow> length (items q) \<le> cap"
begin

lemma push_cases:
  assumes "inv q" "valid x" "push q x = (q', ok)"
  shows "inv q' \<and> (if ok then items q' = items q @ [x] else q' = q \<and> length (items q) = cap)"
  using push_room [OF assms(1,2)] push_full [OF assms(1,2)] bounded [OF assms(1)] assms(1,3)
  by (cases "length (items q) < cap") auto

lemma pop_cases:
  assumes "inv q" "pop q = (q', r)"
  shows "inv q' \<and> items q = (case r of None \<Rightarrow> [] | Some x \<Rightarrow> [x]) @ items q'"
  using pop_empty [OF assms(1)] pop_item [OF assms(1)] assms
  by (cases "items q") auto

lemma run_fifo:
  assumes "inv q" "pushes_valid valid ops" "run_queue push pop q ops = (q', acc, out)"
  shows "inv q' \<and> out @ items q' = items q @ acc"
  using assms
proof (induction ops arbitrary: q acc out)
  case Nil
  then show ?case by simp
next
  case (Cons op ops)
  show ?case
  proof (cases op)
    case (Push x)
    obtain q1 ok where p: "push q x = (q1, ok)" by fastforce
    obtain acc1 where r: "run_queue push pop q1 ops = (q', acc1, out)"
      and acc: "acc = (if ok then x # acc1 else acc1)"
      using Cons.prems Push p by (auto split: prod.splits)
    from push_cases [OF Cons.prems(1) _ p] Cons.prems(2) Push Cons.IH [OF _ _ r] acc
    show ?thesis by (auto split: if_splits)
  next
    case Pop
    obtain q1 r where p: "pop q = (q1, r)" by fastforce
    obtain out1 where r1: "run_queue push pop q1 ops = (q', acc, out1)"
      and out: "out = (case r of None \<Rightarrow> out1 | Some x \<Rightarrow> x # out1)"
      using Cons.prems Pop p by (auto split: prod.splits)
    from pop_cases [OF Cons.prems(1) p] Cons.prems(2) Pop Cons.IH [OF _ _ r1] out
    show ?thesis by (auto split: option.splits)
  qed
qed

end

section \<open>Keyed tables\<close>

text \<open>
  A cache may forget: after a store, the key it stored is found with its value, and a
  lookup of any other key finds the value it found before or nothing.
\<close>

locale cache =
  fixes inv :: "'t \<Rightarrow> bool"
    and valid :: "'k \<Rightarrow> bool"
    and lookup :: "'t \<Rightarrow> 'k \<Rightarrow> 'v option"
    and store :: "'k \<Rightarrow> 'v \<Rightarrow> 't \<Rightarrow> 't"
  assumes store_inv: "inv t \<Longrightarrow> valid k \<Longrightarrow> inv (store k v t)"
    and store_hit: "inv t \<Longrightarrow> valid k \<Longrightarrow> lookup (store k v t) k = Some v"
    and store_other: "inv t \<Longrightarrow> valid k \<Longrightarrow> valid k' \<Longrightarrow> k' \<noteq> k \<Longrightarrow>
      lookup (store k v t) k' = lookup t k' \<or> lookup (store k v t) k' = None"
begin

lemma stores_inv:
  "inv t \<Longrightarrow> (\<forall>(k, v) \<in> set kvs. valid k) \<Longrightarrow> inv (fold (\<lambda>(k, v). store k v) kvs t)"
  by (induction kvs arbitrary: t) (auto intro: store_inv)

text \<open>Whatever a run of stores did, an answer is the last value stored under its key.\<close>

lemma stores_sound:
  assumes "inv t" "valid k" "\<forall>(k, v) \<in> set kvs. valid k"
    and "lookup (fold (\<lambda>(k, v). store k v) kvs t) k = Some v"
  shows "map_of (rev kvs) k = Some v \<or> (map_of (rev kvs) k = None \<and> lookup t k = Some v)"
  using assms
proof (induction kvs arbitrary: t)
  case Nil
  then show ?case by simp
next
  case (Cons kv kvs)
  obtain k1 v1 where kv: "kv = (k1, v1)" by fastforce
  have k1: "valid k1" using Cons.prems(3) kv by simp
  have "inv (store k1 v1 t)" using Cons.prems(1) k1 by (rule store_inv)
  from Cons.IH [OF this Cons.prems(2)] Cons.prems(3,4) kv
  have "map_of (rev kvs) k = Some v
    \<or> (map_of (rev kvs) k = None \<and> lookup (store k1 v1 t) k = Some v)" by simp
  moreover have "lookup (store k1 v1 t) k = Some v \<Longrightarrow>
      (if k = k1 then v = v1 else lookup t k = Some v)"
    using store_hit [OF Cons.prems(1) k1, of v1] store_other [OF Cons.prems(1) k1 Cons.prems(2), of v1]
    by (auto split: if_splits)
  ultimately show ?case
    using kv by (auto simp: map_add_Some_iff map_add_def split: if_splits option.splits)
qed

end

text \<open>A table that forgets nothing: other keys keep their values.\<close>

locale keyed_store = cache +
  assumes store_keep: "inv t \<Longrightarrow> valid k \<Longrightarrow> valid k' \<Longrightarrow> k' \<noteq> k \<Longrightarrow>
    lookup (store k v t) k' = lookup t k'"
begin

lemma stores_complete:
  assumes "inv t" "valid k" "\<forall>(k, v) \<in> set kvs. valid k"
  shows "lookup (fold (\<lambda>(k, v). store k v) kvs t) k
    = (case map_of (rev kvs) k of None \<Rightarrow> lookup t k | Some v \<Rightarrow> Some v)"
  using assms
proof (induction kvs arbitrary: t)
  case Nil
  then show ?case by simp
next
  case (Cons kv kvs)
  obtain k1 v1 where kv: "kv = (k1, v1)" by fastforce
  have k1: "valid k1" using Cons.prems(3) kv by simp
  have "lookup (store k1 v1 t) k = (if k = k1 then Some v1 else lookup t k)"
    using store_hit [OF Cons.prems(1) k1] store_keep [OF Cons.prems(1) k1 Cons.prems(2)] by simp
  with Cons.IH [OF store_inv [OF Cons.prems(1) k1, of v1] Cons.prems(2)] Cons.prems(3) kv
  show ?case by (auto simp: map_add_def split: option.splits)
qed

end

section \<open>Page frames\<close>

text \<open>
  What paging relies on: an allocation that does not return the null address returns a
  page-aligned frame that was not in use, and from then on the frame is in use.
\<close>

fun alloc_n :: "('a \<Rightarrow> 'a \<times> u32) \<Rightarrow> nat \<Rightarrow> 'a \<Rightarrow> 'a \<times> u32 list" where
  "alloc_n alloc 0 a = (a, [])"
| "alloc_n alloc (Suc n) a = (let (a1, p) = alloc a; (a2, ps) = alloc_n alloc n a1 in (a2, p # ps))"

locale frame_allocator =
  fixes ainv :: "'a \<Rightarrow> bool"
    and frames :: "'a \<Rightarrow> u32 set"
    and alloc :: "'a \<Rightarrow> 'a \<times> u32"
  assumes alloc_some: "ainv a \<Longrightarrow> alloc a = (a', p) \<Longrightarrow> p \<noteq> 0 \<Longrightarrow>
      ainv a' \<and> p \<notin> frames a \<and> frames a' = insert p (frames a) \<and> unat p mod 4096 = 0"
    and alloc_none: "ainv a \<Longrightarrow> alloc a = (a', 0) \<Longrightarrow> a' = a"
begin

lemma alloc_inv: "ainv a \<Longrightarrow> alloc a = (a', p) \<Longrightarrow> ainv a' \<and> frames a \<subseteq> frames a'"
  using alloc_some [of a a' p] alloc_none [of a a'] by (cases "p = 0") auto

lemma alloc_n_distinct:
  assumes "ainv a" "alloc_n alloc n a = (a', ps)" "0 \<notin> set ps"
  shows "ainv a' \<and> length ps = n \<and> distinct ps \<and> set ps \<inter> frames a = {} \<and> frames a' = frames a \<union> set ps"
  using assms
proof (induction n arbitrary: a ps)
  case 0
  then show ?case by simp
next
  case (Suc n)
  obtain a1 p where p: "alloc a = (a1, p)" by fastforce
  obtain qs where qs: "alloc_n alloc n a1 = (a', qs)" "ps = p # qs"
    using Suc.prems(2) p by (auto split: prod.splits)
  from alloc_some [OF Suc.prems(1) p] Suc.prems(3) qs
  have a1: "ainv a1" "p \<notin> frames a" "frames a1 = insert p (frames a)" by auto
  from Suc.IH [OF a1(1) qs(1)] a1 qs(2) Suc.prems(3) show ?case by auto
qed

end

end
