(* ===== verification/NetQueue.thy ===== *)
theory NetQueue
  imports Ring Interfaces
begin

text \<open>
  The queue between the network card's interrupt handler and the polling loop
  (\<^verbatim>\<open>kernel/net_queue.h\<close>, \<^verbatim>\<open>kernel/net_queue.cpp\<close>). The slots are arrays, \<open>netq_items\<close> is
  the list of packets the queue stands for. The producer's and the consumer's memory
  accesses are also given as separate steps, and the queue is shown to stay a FIFO
  under every interleaving of one producer and one consumer.
\<close>

definition NET_QUEUE_DEPTH :: nat where "NET_QUEUE_DEPTH = 32"
definition NET_QUEUE_PKT_MAX :: nat where "NET_QUEUE_PKT_MAX = 1536"

record netpacket =
  pdata :: bytes
  plen :: u16

record netqueue =
  slots :: "netpacket list"
  qhead :: u32
  qtail :: u32

definition netq_init :: "netqueue \<Rightarrow> netqueue" where
  "netq_init q = q\<lparr>qhead := 0, qtail := 0\<rparr>"

text \<open>\<^verbatim>\<open>(i + 1) % (NET_QUEUE_DEPTH - 1)\<close>.\<close>

definition netq_next :: "u32 \<Rightarrow> u32" where
  "netq_next i = (i + 1) mod (of_nat NET_QUEUE_DEPTH - 1)"

text \<open>The slot written by \<^verbatim>\<open>kmemcpy(slot.data, data, len); slot.len = len;\<close>.\<close>

definition fill_slot :: "bytes \<Rightarrow> u16 \<Rightarrow> netpacket \<Rightarrow> netpacket" where
  "fill_slot data len p = p\<lparr>pdata := copy_into (pdata p) (take (unat len) data), plen := len\<rparr>"

definition netq_enqueue :: "netqueue \<Rightarrow> bytes \<Rightarrow> u16 \<Rightarrow> netqueue \<times> bool" where
  "netq_enqueue q data len =
     (if len = 0 \<or> unat len > NET_QUEUE_PKT_MAX then (q, False)
      else
        let head = qhead q; next = netq_next head in
        if next = qtail q then (q, False)
        else (q\<lparr>slots := (slots q)[unat head := fill_slot data len (slots q ! unat head)],
                qhead := next\<rparr>, True))"

text \<open>
  Dequeue writes the caller's packet \<open>out\<close>: the length, and that many bytes of its data
  array.
\<close>

definition read_slot :: "netpacket \<Rightarrow> netpacket \<Rightarrow> netpacket" where
  "read_slot p out = out\<lparr>plen := plen p, pdata := copy_into (pdata out) (take (unat (plen p)) (pdata p))\<rparr>"

definition netq_dequeue :: "netqueue \<Rightarrow> netpacket \<Rightarrow> netqueue \<times> netpacket \<times> bool" where
  "netq_dequeue q out =
     (if qhead q = qtail q then (q, out, False)
      else
        let tail = qtail q in
        (q\<lparr>qtail := netq_next tail\<rparr>, read_slot (slots q ! unat tail) out, True))"

definition netq_empty :: "netqueue \<Rightarrow> bool" where
  "netq_empty q = (qhead q = qtail q)"

section \<open>The list of packets\<close>

definition packet_bytes :: "netpacket \<Rightarrow> bytes" where
  "packet_bytes p = take (unat (plen p)) (pdata p)"

definition netq_count :: "netqueue \<Rightarrow> nat" where
  "netq_count q = ring_count 31 (unat (qtail q)) (unat (qhead q))"

definition netq_items :: "netqueue \<Rightarrow> bytes list" where
  "netq_items q = map packet_bytes (ring_items 31 (slots q) (unat (qtail q)) (netq_count q))"

definition netq_inv :: "netqueue \<Rightarrow> bool" where
  "netq_inv q \<longleftrightarrow> length (slots q) = NET_QUEUE_DEPTH
     \<and> (\<forall>p \<in> set (slots q). length (pdata p) = NET_QUEUE_PKT_MAX)
     \<and> unat (qhead q) < 31 \<and> unat (qtail q) < 31"

definition packet_ok :: "bytes \<Rightarrow> bool" where
  "packet_ok bs \<longleftrightarrow> 0 < length bs \<and> length bs \<le> NET_QUEUE_PKT_MAX"

lemma unat_netq_next: "unat i < 31 \<Longrightarrow> unat (netq_next i) = (unat i + 1) mod 31"
  by (simp add: netq_next_def NET_QUEUE_DEPTH_def unat_mod_distrib unat_plus_one)

lemma netq_next_lt: "unat (netq_next i) < 31"
  by (simp add: netq_next_def NET_QUEUE_DEPTH_def unat_mod_distrib)

lemma netq_count_lt: "netq_count q < 31"
  by (simp add: netq_count_def ring_count_bound)

lemma packet_bytes_fill:
  "length data = unat len \<Longrightarrow> packet_bytes (fill_slot data len p) = data"
  by (simp add: packet_bytes_def fill_slot_def copy_into_def)

lemma packet_bytes_read:
  "unat (plen p) \<le> length (pdata p) \<Longrightarrow> packet_bytes (read_slot p out) = packet_bytes p"
  by (simp add: packet_bytes_def read_slot_def copy_into_def)

lemma unat_of_length:
  assumes "packet_ok bs"
  shows "unat (of_nat (length bs) :: u16) = length bs"
  using assms by (intro unat_of_nat_lt) (simp add: packet_ok_def NET_QUEUE_PKT_MAX_def)

lemma slot_write_inv:
  "netq_inv q \<Longrightarrow> packet_ok bs \<Longrightarrow>
   netq_inv (q\<lparr>slots := (slots q)[i := fill_slot bs (of_nat (length bs)) (slots q ! i)]\<rparr>)"
  by (cases "i < length (slots q)")
     (auto simp: netq_inv_def fill_slot_def unat_of_length packet_ok_def list_update_beyond
       dest!: subsetD [OF set_update_subset_insert])

lemma netq_items_publish:
  assumes inv: "netq_inv q" and ok: "packet_ok bs" and room: "netq_next (qhead q) \<noteq> qtail q"
    and slot: "packet_bytes (slots q ! unat (qhead q)) = bs"
  shows "netq_items (q\<lparr>qhead := netq_next (qhead q)\<rparr>) = netq_items q @ [bs]"
proof -
  have b: "unat (qtail q) < 31" "unat (qhead q) < 31" using inv by (auto simp: netq_inv_def)
  have ne: "(unat (qhead q) + 1) mod 31 \<noteq> unat (qtail q)"
    using room unat_netq_next [OF b(2)] by (auto simp: word_eq_unat)
  show ?thesis
    using ring_count_push [OF b ne] ring_count_head [OF b] slot unat_netq_next [OF b(2)]
    by (simp add: netq_items_def netq_count_def ring_items_Suc)
qed

lemma netq_items_write:
  assumes inv: "netq_inv q" and room: "netq_next (qhead q) \<noteq> qtail q"
  shows "netq_items (q\<lparr>slots := (slots q)[unat (qhead q) := p]\<rparr>) = netq_items q"
proof -
  have b: "unat (qtail q) < 31" "unat (qhead q) < 31" "length (slots q) = 32"
    using inv by (auto simp: netq_inv_def NET_QUEUE_DEPTH_def)
  let ?n = "ring_count 31 (unat (qtail q)) (unat (qhead q))"
  have "ring_items 31 ((slots q)[unat (qhead q) := p]) (unat (qtail q)) (Suc ?n)
      = ring_items 31 (slots q) (unat (qtail q)) ?n @ [p]"
    using ring_items_write [of ?n 31 "slots q" "unat (qhead q)" "unat (qtail q)" p]
      ring_count_head [OF b(1,2)] b(3) ring_count_bound [of 31] by simp
  then show ?thesis by (simp add: netq_items_def netq_count_def ring_items_Suc)
qed

lemma netq_items_pop:
  assumes inv: "netq_inv q" and ne: "qhead q \<noteq> qtail q"
  shows "netq_items q = packet_bytes (slots q ! unat (qtail q))
    # netq_items (q\<lparr>qtail := netq_next (qtail q)\<rparr>)"
proof -
  have b: "unat (qtail q) < 31" "unat (qhead q) < 31" using inv by (auto simp: netq_inv_def)
  have "ring_count 31 (unat (qtail q)) (unat (qhead q)) \<noteq> 0"
    using ring_count_0_iff [OF b] ne by (auto simp: word_eq_unat)
  then obtain n where n: "ring_count 31 (unat (qtail q)) (unat (qhead q)) = Suc n"
    using not0_implies_Suc by blast
  show ?thesis
    using ring_items_Cons [OF b(1), of "slots q" n] ring_count_pop [OF b n] n
      unat_netq_next [OF b(1)]
    by (simp add: netq_items_def netq_count_def)
qed

lemma netq_room_iff:
  assumes "netq_inv q"
  shows "netq_next (qhead q) \<noteq> qtail q \<longleftrightarrow> length (netq_items q) < 30"
proof -
  have b: "unat (qtail q) < 31" "unat (qhead q) < 31" using assms by (auto simp: netq_inv_def)
  have e: "netq_next (qhead q) = qtail q \<longleftrightarrow> (unat (qhead q) + 1) mod 31 = unat (qtail q)"
    using unat_netq_next [OF b(2)] by (auto simp: word_eq_unat)
  show ?thesis
    using ring_count_push(2) [OF b] ring_count_full [OF b] e
    by (auto simp: netq_items_def netq_count_def)
qed

lemma netq_advance_inv:
  "netq_inv q \<Longrightarrow> netq_inv (q\<lparr>qhead := netq_next i\<rparr>)"
  "netq_inv q \<Longrightarrow> netq_inv (q\<lparr>qtail := netq_next i\<rparr>)"
  by (simp_all add: netq_inv_def netq_next_lt)

section \<open>The queue as a FIFO\<close>

definition netq_push :: "netqueue \<Rightarrow> bytes \<Rightarrow> netqueue \<times> bool" where
  "netq_push q bs = netq_enqueue q bs (of_nat (length bs))"

definition netq_pop :: "netpacket \<Rightarrow> netqueue \<Rightarrow> netqueue \<times> bytes option" where
  "netq_pop out q = (case netq_dequeue q out of (q', out', ok) \<Rightarrow>
     (q', if ok then Some (packet_bytes out') else None))"

definition netq_wf :: "netqueue \<Rightarrow> bool" where
  "netq_wf q \<longleftrightarrow> netq_inv q \<and> (\<forall>p \<in> set (slots q). unat (plen p) \<le> length (pdata p))"

lemma netq_push_room:
  assumes "netq_inv q" "packet_ok bs" "length (netq_items q) < 30"
  shows "\<exists>q'. netq_push q bs = (q', True) \<and> netq_inv q' \<and> netq_items q' = netq_items q @ [bs]
    \<and> slots q' = (slots q)[unat (qhead q) := fill_slot bs (of_nat (length bs)) (slots q ! unat (qhead q))]"
proof -
  let ?q1 = "q\<lparr>slots := (slots q)[unat (qhead q) :=
    fill_slot bs (of_nat (length bs)) (slots q ! unat (qhead q))]\<rparr>"
  have room: "netq_next (qhead q) \<noteq> qtail q" using netq_room_iff assms by blast
  have len: "unat (of_nat (length bs) :: u16) = length bs" by (rule unat_of_length [OF assms(2)])
  have nz: "(of_nat (length bs) :: u16) \<noteq> 0" "length bs \<le> NET_QUEUE_PKT_MAX"
    using len assms(2) by (auto simp: packet_ok_def)
  have i1: "netq_inv ?q1" by (rule slot_write_inv [OF assms(1,2)])
  have "unat (qhead q) < length (slots q)"
    using assms(1) by (simp add: netq_inv_def NET_QUEUE_DEPTH_def)
  then have "packet_bytes (slots ?q1 ! unat (qhead ?q1)) = bs"
    by (simp add: packet_bytes_fill len)
  from netq_items_publish [OF i1 assms(2) _ this] room netq_items_write [OF assms(1) room]
  have "netq_items (?q1\<lparr>qhead := netq_next (qhead q)\<rparr>) = netq_items q @ [bs]" by simp
  moreover have "netq_push q bs = (?q1\<lparr>qhead := netq_next (qhead q)\<rparr>, True)"
    using room nz len by (simp add: netq_push_def netq_enqueue_def Let_def)
  ultimately show ?thesis using netq_advance_inv(1) [OF i1] by simp
qed

lemma fill_slot_wf:
  assumes "packet_ok bs" "length (pdata p) = NET_QUEUE_PKT_MAX"
  shows "unat (plen (fill_slot bs (of_nat (length bs)) p))
    \<le> length (pdata (fill_slot bs (of_nat (length bs)) p))"
  using assms unat_of_length [OF assms(1)] by (simp add: fill_slot_def packet_ok_def)

lemma netq_push_wf:
  assumes "netq_wf q" "packet_ok bs" "length (netq_items q) < 30"
  shows "\<exists>q'. netq_push q bs = (q', True) \<and> netq_wf q' \<and> netq_items q' = netq_items q @ [bs]"
proof -
  have inv: "netq_inv q" using assms(1) by (simp add: netq_wf_def)
  have i: "unat (qhead q) < length (slots q)"
    using inv by (simp add: netq_inv_def NET_QUEUE_DEPTH_def)
  have "length (pdata (slots q ! unat (qhead q))) = NET_QUEUE_PKT_MAX"
    using inv i by (simp add: netq_inv_def)
  from fill_slot_wf [OF assms(2) this] netq_push_room [OF inv assms(2,3)] assms(1)
  show ?thesis
    by (fastforce simp: netq_wf_def dest!: subsetD [OF set_update_subset_insert])
qed

lemma netq_push_full:
  assumes "netq_wf q" "packet_ok bs" "\<not> length (netq_items q) < 30"
  shows "netq_push q bs = (q, False)"
  using assms netq_room_iff [of q]
  by (auto simp: netq_wf_def netq_push_def netq_enqueue_def Let_def)

lemma netq_pop_wf:
  assumes wf: "netq_wf q" and it: "netq_items q = x # xs"
  shows "\<exists>q'. netq_pop out q = (q', Some x) \<and> netq_wf q' \<and> netq_items q' = xs"
proof -
  have inv: "netq_inv q" using wf by (simp add: netq_wf_def)
  have ne: "qhead q \<noteq> qtail q"
    using it by (auto simp: netq_items_def netq_count_def ring_count_def)
  have "slots q ! unat (qtail q) \<in> set (slots q)"
    using inv by (simp add: netq_inv_def NET_QUEUE_DEPTH_def)
  then have "packet_bytes (read_slot (slots q ! unat (qtail q)) out)
      = packet_bytes (slots q ! unat (qtail q))"
    using wf by (simp add: netq_wf_def packet_bytes_read)
  with ne netq_items_pop [OF inv ne] it netq_advance_inv(2) [OF inv] wf
  show ?thesis by (simp add: netq_pop_def netq_dequeue_def netq_wf_def Let_def)
qed

interpretation nq: fifo netq_items netq_wf packet_ok 30 netq_push "netq_pop out" for out
proof unfold_locales
  fix q :: netqueue and out
  assume wf: "netq_wf q"
  then have inv: "netq_inv q" by (simp add: netq_wf_def)
  show "length (netq_items q) \<le> 30"
    using netq_count_lt [of q] by (simp add: netq_items_def)
  show "netq_pop out q = (q, None)" if "netq_items q = []"
  proof -
    have "qhead q = qtail q" using netq_items_pop [OF inv] that by auto
    then show ?thesis by (simp add: netq_pop_def netq_dequeue_def)
  qed
qed (simp_all add: netq_push_wf netq_push_full netq_pop_wf)

section \<open>One producer, one consumer, any interleaving\<close>

text \<open>
  The interrupt handler runs \<^verbatim>\<open>netq_enqueue\<close> while the main loop may be inside
  \<^verbatim>\<open>netq_dequeue\<close>. A step is one access to the shared queue: the producer's test for
  room, its copy of the data, its write of the length, and the store of the new head
  after the barrier; the consumer's test, its read of the length, its copy, and the
  store of the new tail. \<open>accepted\<close> and \<open>delivered\<close> record what was published and what
  the consumer got.
\<close>

datatype producer = PIdle | PChecked bytes | PData bytes | PCopied bytes
datatype consumer = CIdle | CChecked | CLen u16 | CCopied bytes

record spsc =
  ring :: netqueue
  prod :: producer
  cons :: consumer
  accepted :: "bytes list"
  delivered :: "bytes list"

definition head_slot :: "netqueue \<Rightarrow> netpacket" where
  "head_slot q = slots q ! unat (qhead q)"

definition tail_slot :: "netqueue \<Rightarrow> netpacket" where
  "tail_slot q = slots q ! unat (qtail q)"

definition set_head_slot :: "netpacket \<Rightarrow> netqueue \<Rightarrow> netqueue" where
  "set_head_slot p q = q\<lparr>slots := (slots q)[unat (qhead q) := p]\<rparr>"

inductive spsc_step :: "spsc \<Rightarrow> spsc \<Rightarrow> bool" where
  p_check: "prod s = PIdle \<Longrightarrow> packet_ok bs \<Longrightarrow> netq_next (qhead (ring s)) \<noteq> qtail (ring s) \<Longrightarrow>
     spsc_step s (s\<lparr>prod := PChecked bs\<rparr>)"
| p_data: "prod s = PChecked bs \<Longrightarrow>
     spsc_step s (s\<lparr>ring := set_head_slot ((head_slot (ring s))
        \<lparr>pdata := copy_into (pdata (head_slot (ring s))) bs\<rparr>) (ring s), prod := PData bs\<rparr>)"
| p_len: "prod s = PData bs \<Longrightarrow>
     spsc_step s (s\<lparr>ring := set_head_slot ((head_slot (ring s))\<lparr>plen := of_nat (length bs)\<rparr>) (ring s),
        prod := PCopied bs\<rparr>)"
| p_publish: "prod s = PCopied bs \<Longrightarrow>
     spsc_step s (s\<lparr>ring := (ring s)\<lparr>qhead := netq_next (qhead (ring s))\<rparr>, prod := PIdle,
        accepted := accepted s @ [bs]\<rparr>)"
| c_check: "cons s = CIdle \<Longrightarrow> qhead (ring s) \<noteq> qtail (ring s) \<Longrightarrow>
     spsc_step s (s\<lparr>cons := CChecked\<rparr>)"
| c_len: "cons s = CChecked \<Longrightarrow> spsc_step s (s\<lparr>cons := CLen (plen (tail_slot (ring s)))\<rparr>)"
| c_data: "cons s = CLen n \<Longrightarrow>
     spsc_step s (s\<lparr>cons := CCopied (take (unat n) (pdata (tail_slot (ring s))))\<rparr>)"
| c_publish: "cons s = CCopied out \<Longrightarrow>
     spsc_step s (s\<lparr>ring := (ring s)\<lparr>qtail := netq_next (qtail (ring s))\<rparr>, cons := CIdle,
        delivered := delivered s @ [out]\<rparr>)"

definition spsc_start :: "netqueue \<Rightarrow> spsc" where
  "spsc_start q = \<lparr>ring = netq_init q, prod = PIdle, cons = CIdle, accepted = [], delivered = []\<rparr>"

inductive spsc_reach :: "netqueue \<Rightarrow> spsc \<Rightarrow> bool" for q where
  init: "spsc_reach q (spsc_start q)"
| step: "spsc_reach q s \<Longrightarrow> spsc_step s t \<Longrightarrow> spsc_reach q t"

text \<open>What the producer's and the consumer's program counters say of the queue.\<close>

fun producer_ok :: "netqueue \<Rightarrow> producer \<Rightarrow> bool" where
  "producer_ok q PIdle = True"
| "producer_ok q (PChecked bs) = (packet_ok bs \<and> length (netq_items q) < 30)"
| "producer_ok q (PData bs) = (packet_ok bs \<and> length (netq_items q) < 30
     \<and> take (length bs) (pdata (head_slot q)) = bs)"
| "producer_ok q (PCopied bs) = (packet_ok bs \<and> length (netq_items q) < 30
     \<and> packet_bytes (head_slot q) = bs)"

fun consumer_ok :: "netqueue \<Rightarrow> consumer \<Rightarrow> bool" where
  "consumer_ok q CIdle = True"
| "consumer_ok q CChecked = (netq_items q \<noteq> [])"
| "consumer_ok q (CLen n) = (netq_items q \<noteq> [] \<and> n = plen (tail_slot q))"
| "consumer_ok q (CCopied out) = (netq_items q \<noteq> [] \<and> out = hd (netq_items q))"

definition spsc_inv :: "spsc \<Rightarrow> bool" where
  "spsc_inv s \<longleftrightarrow> netq_inv (ring s) \<and> accepted s = delivered s @ netq_items (ring s)
     \<and> producer_ok (ring s) (prod s) \<and> consumer_ok (ring s) (cons s)"

lemma netq_items_Nil_iff:
  assumes "netq_inv q"
  shows "netq_items q = [] \<longleftrightarrow> qhead q = qtail q"
  using netq_items_pop [OF assms]
  by (cases "qhead q = qtail q") (auto simp: netq_items_def netq_count_def ring_count_def)

lemma hd_netq_items:
  assumes "netq_inv q" "netq_items q \<noteq> []"
  shows "hd (netq_items q) = packet_bytes (tail_slot q)"
  using netq_items_pop [OF assms(1)] assms netq_items_Nil_iff [OF assms(1)]
  by (simp add: tail_slot_def)

lemma set_head_slot_simps [simp]:
  "qhead (set_head_slot p q) = qhead q"
  "qtail (set_head_slot p q) = qtail q"
  by (simp_all add: set_head_slot_def)

lemma set_head_slot_inv:
  "netq_inv q \<Longrightarrow> length (pdata p) = NET_QUEUE_PKT_MAX \<Longrightarrow> netq_inv (set_head_slot p q)"
  by (auto simp: netq_inv_def set_head_slot_def dest!: subsetD [OF set_update_subset_insert])

lemma head_slot_set: "netq_inv q \<Longrightarrow> head_slot (set_head_slot p q) = p"
  by (simp add: head_slot_def set_head_slot_def netq_inv_def NET_QUEUE_DEPTH_def)

lemma netq_items_set_head:
  "netq_inv q \<Longrightarrow> length (netq_items q) < 30 \<Longrightarrow> netq_items (set_head_slot p q) = netq_items q"
  using netq_items_write [of q p] netq_room_iff [of q] by (simp add: set_head_slot_def)

lemma consumer_ok_set_head:
  assumes "netq_inv q" "length (netq_items q) < 30" "consumer_ok q c"
  shows "consumer_ok (set_head_slot p q) c"
proof -
  have "tail_slot (set_head_slot p q) = tail_slot q" if "netq_items q \<noteq> []"
    using that netq_items_Nil_iff [OF assms(1)]
    by (simp add: tail_slot_def set_head_slot_def word_eq_unat)
  with assms netq_items_set_head [OF assms(1,2)] show ?thesis by (cases c) auto
qed

lemma head_slot_inv: "netq_inv q \<Longrightarrow> length (pdata (head_slot q)) = NET_QUEUE_PKT_MAX"
  by (simp add: netq_inv_def head_slot_def NET_QUEUE_DEPTH_def)

lemma spsc_write_inv:
  assumes inv: "spsc_inv s" and room: "length (netq_items (ring s)) < 30"
    and len: "length (pdata p) = NET_QUEUE_PKT_MAX"
    and ok: "producer_ok (set_head_slot p (ring s)) pc"
  shows "spsc_inv (s\<lparr>ring := set_head_slot p (ring s), prod := pc\<rparr>)"
  using assms netq_items_set_head [OF _ room] set_head_slot_inv [OF _ len]
    consumer_ok_set_head [OF _ room]
  by (simp add: spsc_inv_def)

lemma spsc_publish_head_inv:
  assumes inv: "spsc_inv s" and pc: "prod s = PCopied bs"
  shows "spsc_inv (s\<lparr>ring := (ring s)\<lparr>qhead := netq_next (qhead (ring s))\<rparr>, prod := PIdle,
    accepted := accepted s @ [bs]\<rparr>)"
proof -
  let ?q = "ring s"
  have q: "netq_inv ?q" and ok: "packet_ok bs" and room: "length (netq_items ?q) < 30"
    and slot: "packet_bytes (slots ?q ! unat (qhead ?q)) = bs"
    using inv pc by (auto simp: spsc_inv_def head_slot_def)
  have it: "netq_items (?q\<lparr>qhead := netq_next (qhead ?q)\<rparr>) = netq_items ?q @ [bs]"
    using netq_items_publish [OF q ok _ slot] netq_room_iff [OF q] room by simp
  have "consumer_ok (?q\<lparr>qhead := netq_next (qhead ?q)\<rparr>) (cons s)"
    using inv it by (cases "cons s") (auto simp: spsc_inv_def tail_slot_def)
  with inv it netq_advance_inv(1) [OF q] show ?thesis by (simp add: spsc_inv_def)
qed

lemma spsc_publish_tail_inv:
  assumes inv: "spsc_inv s" and pc: "cons s = CCopied out"
  shows "spsc_inv (s\<lparr>ring := (ring s)\<lparr>qtail := netq_next (qtail (ring s))\<rparr>, cons := CIdle,
    delivered := delivered s @ [out]\<rparr>)"
proof -
  let ?q = "ring s"
  have q: "netq_inv ?q" and ne: "netq_items ?q \<noteq> []" and out: "out = hd (netq_items ?q)"
    using inv pc by (auto simp: spsc_inv_def)
  have it: "netq_items ?q = out # netq_items (?q\<lparr>qtail := netq_next (qtail ?q)\<rparr>)"
    using netq_items_pop [OF q] ne out netq_items_Nil_iff [OF q] by simp
  have "producer_ok (?q\<lparr>qtail := netq_next (qtail ?q)\<rparr>) (prod s)"
    using inv it by (cases "prod s") (auto simp: spsc_inv_def head_slot_def)
  with inv it netq_advance_inv(2) [OF q] show ?thesis by (simp add: spsc_inv_def)
qed

lemma spsc_step_inv: "spsc_step s t \<Longrightarrow> spsc_inv s \<Longrightarrow> spsc_inv t"
proof (induction rule: spsc_step.induct)
  case (p_check s bs)
  then show ?case using netq_room_iff [of "ring s"] by (simp add: spsc_inv_def)
next
  case (p_data s bs)
  then have "packet_ok bs" "length (netq_items (ring s)) < 30" "netq_inv (ring s)"
    by (auto simp: spsc_inv_def)
  with p_data show ?case
    by (intro spsc_write_inv)
       (auto simp: head_slot_inv head_slot_set netq_items_set_head packet_ok_def copy_into_def)
next
  case (p_len s bs)
  then have "packet_ok bs" "length (netq_items (ring s)) < 30" "netq_inv (ring s)"
    "take (length bs) (pdata (head_slot (ring s))) = bs"
    by (auto simp: spsc_inv_def)
  with p_len show ?case
    by (intro spsc_write_inv)
       (auto simp: head_slot_inv head_slot_set netq_items_set_head packet_bytes_def unat_of_length)
next
  case (p_publish s bs)
  then show ?case by (intro spsc_publish_head_inv)
next
  case (c_check s)
  then show ?case using netq_items_Nil_iff [of "ring s"] by (simp add: spsc_inv_def)
next
  case (c_len s)
  then show ?case by (simp add: spsc_inv_def)
next
  case (c_data s n)
  then show ?case using hd_netq_items [of "ring s"]
    by (auto simp: spsc_inv_def packet_bytes_def)
next
  case (c_publish s out)
  then show ?case by (intro spsc_publish_tail_inv)
qed

lemma spsc_start_inv: "netq_inv (netq_init q) \<Longrightarrow> spsc_inv (spsc_start q)"
  by (simp add: spsc_inv_def spsc_start_def netq_items_def netq_count_def ring_count_def netq_init_def)

lemma spsc_reach_inv: "spsc_reach q s \<Longrightarrow> netq_inv (netq_init q) \<Longrightarrow> spsc_inv s"
  by (induction rule: spsc_reach.induct) (auto intro: spsc_start_inv spsc_step_inv)

text \<open>The producer's four steps, run without interference, are \<open>netq_enqueue\<close>.\<close>

lemma producer_steps_enqueue:
  assumes "netq_inv q" "packet_ok bs" "netq_next (qhead q) \<noteq> qtail q"
  shows "fst (netq_enqueue q bs (of_nat (length bs)))
    = (let q1 = set_head_slot ((head_slot q)\<lparr>pdata := copy_into (pdata (head_slot q)) bs\<rparr>) q;
           q2 = set_head_slot ((head_slot q1)\<lparr>plen := of_nat (length bs)\<rparr>) q1
       in q2\<lparr>qhead := netq_next (qhead q2)\<rparr>)"
proof -
  have len: "unat (of_nat (length bs) :: u16) = length bs" by (rule unat_of_length [OF assms(2)])
  then have nz: "(of_nat (length bs) :: u16) \<noteq> 0" "length bs \<le> NET_QUEUE_PKT_MAX"
    using assms(2) by (auto simp: packet_ok_def)
  have "unat (qhead q) < length (slots q)"
    using assms(1) by (simp add: netq_inv_def NET_QUEUE_DEPTH_def)
  then show ?thesis
    using assms nz len
    by (simp add: netq_enqueue_def Let_def set_head_slot_def head_slot_def fill_slot_def)
qed

section \<open>Properties\<close>

definition blank_packet :: netpacket where
  "blank_packet = \<lparr>pdata = replicate NET_QUEUE_PKT_MAX 0, plen = 0\<rparr>"

definition blank_queue :: netqueue where
  "blank_queue = netq_init \<lparr>slots = replicate NET_QUEUE_DEPTH blank_packet, qhead = 0, qtail = 0\<rparr>"

lemma blank_queue_wf: "netq_wf blank_queue"
  by (simp add: netq_wf_def netq_inv_def blank_queue_def blank_packet_def netq_init_def)

lemma blank_queue_items: "netq_items blank_queue = []"
  by (simp add: netq_items_def netq_count_def ring_count_def blank_queue_def netq_init_def)

lemma packet_ok_short: "bs \<noteq> [] \<Longrightarrow> length bs \<le> 1536 \<Longrightarrow> packet_ok bs"
  by (simp add: packet_ok_def NET_QUEUE_PKT_MAX_def)

text \<open>
  C24: the packet queue is a FIFO. Over any sequence of enqueues and dequeues, with the
  caller's packet \<open>out\<close> holding anything, the packets delivered followed by those still
  queued are the packets queued at the start followed by those accepted, byte for byte
  and in order; at most 30 packets are ever queued.
\<close>

theorem netq_fifo:
  assumes "netq_wf q" "pushes_valid packet_ok ops"
    and "run_queue netq_push (netq_pop out) q ops = (q', acc, got)"
  shows "netq_wf q' \<and> got @ netq_items q' = netq_items q @ acc \<and> length (netq_items q') \<le> 30"
  using nq.run_fifo [OF assms] nq.bounded by blast

theorem netq_fifo_witness:
  "\<exists>q' acc got. run_queue netq_push (netq_pop blank_packet) blank_queue
     [Push [1, 2, 3], Push [4], Pop, Pop] = (q', acc, got) \<and> got @ netq_items q' = acc"
proof -
  obtain q' acc got where r: "run_queue netq_push (netq_pop blank_packet) blank_queue
     [Push [1, 2, 3], Push [4], Pop, Pop] = (q', acc, got)"
    by (cases "run_queue netq_push (netq_pop blank_packet) blank_queue
     [Push [1, 2, 3], Push [4], Pop, Pop]")
  from netq_fifo [OF blank_queue_wf _ r] r show ?thesis
    by (simp add: blank_queue_items packet_ok_short)
qed

text \<open>
  C5: the queue is safe between the interrupt handler and the main loop. In every state
  reachable by interleaving the single producer's and the single consumer's memory
  accesses, what was delivered followed by what is queued is what was accepted: no packet
  is lost, duplicated, reordered or seen half written.
\<close>

theorem spsc_fifo:
  assumes "spsc_reach q s" "netq_inv (netq_init q)"
  shows "accepted s = delivered s @ netq_items (ring s) \<and> length (netq_items (ring s)) \<le> 30"
  using spsc_reach_inv [OF assms] netq_count_lt [of "ring s"]
  by (simp add: spsc_inv_def netq_items_def)

theorem spsc_fifo_witness:
  "\<exists>s. spsc_reach blank_queue s \<and> prod s = PChecked [7] \<and> accepted s = delivered s @ netq_items (ring s)"
proof -
  let ?s = "spsc_start blank_queue"
  have "spsc_reach blank_queue (?s\<lparr>prod := PChecked [7]\<rparr>)"
    by (rule spsc_reach.step [OF spsc_reach.init spsc_step.p_check])
       (simp_all add: spsc_start_def packet_ok_short netq_init_def netq_next_def NET_QUEUE_DEPTH_def)
  with spsc_fifo [OF this] blank_queue_wf show ?thesis
    by (intro exI [of _ "?s\<lparr>prod := PChecked [7]\<rparr>"])
       (simp add: netq_wf_def netq_inv_def netq_init_def blank_queue_def)
qed

end
