(* ===== verification/KString.thy ===== *)
theory KString
  imports Prelude
begin

text \<open>
  The kernel's string and memory routines (\<^verbatim>\<open>kernel/kstring.cpp\<close>) over an explicit
  byte store: a function from 32-bit addresses to bytes, so that overlapping arguments
  alias as they do in the machine. Pointers wrap around at \<open>2 ^ 32\<close> as the 32-bit
  target's do. A scan that may run past every byte without finding its terminator is a
  partial function, with \<open>None\<close> for a call that never returns. The list functions at the
  end (\<open>str_cmp\<close>, \<open>atoi_str\<close>, \<dots>) are what the routines compute on terminated strings.
\<close>

type_synonym mem = "u32 \<Rightarrow> u8"

section \<open>Memory blocks\<close>

text \<open>\<^verbatim>\<open>while (n--) *p++ = val;\<close>\<close>

fun memset_loop :: "nat \<Rightarrow> u32 \<Rightarrow> u8 \<Rightarrow> mem \<Rightarrow> mem" where
  "memset_loop 0 p val m = m"
| "memset_loop (Suc n) p val m = memset_loop n (p + 1) val (m(p := val))"

definition kmemset :: "mem \<Rightarrow> u32 \<Rightarrow> u8 \<Rightarrow> u32 \<Rightarrow> mem \<times> u32" where
  "kmemset m dst val n = (memset_loop (unat n) dst val m, dst)"

text \<open>\<^verbatim>\<open>while (n--) *d++ = *s++;\<close>, and \<^verbatim>\<open>while (n--) *--d = *--s;\<close>.\<close>

fun copy_up :: "nat \<Rightarrow> u32 \<Rightarrow> u32 \<Rightarrow> mem \<Rightarrow> mem" where
  "copy_up 0 d s m = m"
| "copy_up (Suc n) d s m = copy_up n (d + 1) (s + 1) (m(d := m s))"

fun copy_down :: "nat \<Rightarrow> u32 \<Rightarrow> u32 \<Rightarrow> mem \<Rightarrow> mem" where
  "copy_down 0 d s m = m"
| "copy_down (Suc n) d s m = copy_down n (d - 1) (s - 1) (m(d - 1 := m (s - 1)))"

definition kmemcpy :: "mem \<Rightarrow> u32 \<Rightarrow> u32 \<Rightarrow> u32 \<Rightarrow> mem \<times> u32" where
  "kmemcpy m dst src n = (copy_up (unat n) dst src m, dst)"

definition kmemmove :: "mem \<Rightarrow> u32 \<Rightarrow> u32 \<Rightarrow> u32 \<Rightarrow> mem \<times> u32" where
  "kmemmove m dst src n =
     (if dst < src then (copy_up (unat n) dst src m, dst)
      else (copy_down (unat n) (dst + n) (src + n) m, dst))"

fun memcmp_loop :: "nat \<Rightarrow> u32 \<Rightarrow> u32 \<Rightarrow> mem \<Rightarrow> int" where
  "memcmp_loop 0 p q m = 0"
| "memcmp_loop (Suc n) p q m =
     (if m p \<noteq> m q then uint (m p) - uint (m q) else memcmp_loop n (p + 1) (q + 1) m)"

definition kmemcmp :: "mem \<Rightarrow> u32 \<Rightarrow> u32 \<Rightarrow> u32 \<Rightarrow> int" where
  "kmemcmp m a b n = memcmp_loop (unat n) a b m"

section \<open>Strings\<close>

partial_function (option) strlen_loop :: "mem \<Rightarrow> u32 \<Rightarrow> u32 \<Rightarrow> u32 option" where
  "strlen_loop m s n = (if m s = 0 then Some n else strlen_loop m (s + 1) (n + 1))"

definition kstrlen :: "mem \<Rightarrow> u32 \<Rightarrow> u32 option" where
  "kstrlen m s = strlen_loop m s 0"

partial_function (option) kstrcmp :: "mem \<Rightarrow> u32 \<Rightarrow> u32 \<Rightarrow> int option" where
  "kstrcmp m a b =
     (if m a \<noteq> 0 \<and> m a = m b then kstrcmp m (a + 1) (b + 1)
      else Some (uint (m a) - uint (m b)))"

fun strncmp_loop :: "nat \<Rightarrow> mem \<Rightarrow> u32 \<Rightarrow> u32 \<Rightarrow> int" where
  "strncmp_loop 0 m a b = 0"
| "strncmp_loop (Suc n) m a b =
     (if m a \<noteq> 0 \<and> m a = m b then strncmp_loop n m (a + 1) (b + 1)
      else uint (m a) - uint (m b))"

definition kstrncmp :: "mem \<Rightarrow> u32 \<Rightarrow> u32 \<Rightarrow> u32 \<Rightarrow> int" where
  "kstrncmp m a b n = strncmp_loop (unat n) m a b"

text \<open>\<^verbatim>\<open>while ((*dst++ = *src++));\<close>\<close>

partial_function (option) strcpy_loop :: "mem \<Rightarrow> u32 \<Rightarrow> u32 \<Rightarrow> mem option" where
  "strcpy_loop m dst src =
     (if m src = 0 then Some (m(dst := 0))
      else strcpy_loop (m(dst := m src)) (dst + 1) (src + 1))"

definition kstrcpy :: "mem \<Rightarrow> u32 \<Rightarrow> u32 \<Rightarrow> (mem \<times> u32) option" where
  "kstrcpy m dst src = map_option (\<lambda>m'. (m', dst)) (strcpy_loop m dst src)"

text \<open>
  \<^verbatim>\<open>while (n && (*dst++ = *src++)) n--;\<close> leaves \<open>n\<close> undecremented for the terminator it
  copied; the second loop then fills \<open>n\<close> more bytes.
\<close>

fun strncpy_loop :: "nat \<Rightarrow> mem \<Rightarrow> u32 \<Rightarrow> u32 \<Rightarrow> mem \<times> u32 \<times> nat" where
  "strncpy_loop 0 m dst src = (m, dst, 0)"
| "strncpy_loop (Suc n) m dst src =
     (if m src = 0 then (m(dst := 0), dst + 1, Suc n)
      else strncpy_loop n (m(dst := m src)) (dst + 1) (src + 1))"

definition kstrncpy :: "mem \<Rightarrow> u32 \<Rightarrow> u32 \<Rightarrow> u32 \<Rightarrow> mem \<times> u32" where
  "kstrncpy m dst src n = (case strncpy_loop (unat n) m dst src of (m1, d, k) \<Rightarrow>
     (memset_loop k d 0 m1, dst))"

partial_function (option) str_end :: "mem \<Rightarrow> u32 \<Rightarrow> u32 option" where
  "str_end m p = (if m p = 0 then Some p else str_end m (p + 1))"

definition kstrcat :: "mem \<Rightarrow> u32 \<Rightarrow> u32 \<Rightarrow> (mem \<times> u32) option" where
  "kstrcat m dst src = (case str_end m dst of None \<Rightarrow> None | Some d \<Rightarrow>
     map_option (\<lambda>m'. (m', dst)) (strcpy_loop m d src))"

text \<open>The null pointer a search returns is the inner \<open>None\<close>.\<close>

partial_function (option) kstrchr :: "mem \<Rightarrow> u32 \<Rightarrow> u8 \<Rightarrow> u32 option option" where
  "kstrchr m s c =
     (if m s = 0 then Some None else if m s = c then Some (Some s) else kstrchr m (s + 1) c)"

partial_function (option) match_here :: "mem \<Rightarrow> u32 \<Rightarrow> u32 \<Rightarrow> bool option" where
  "match_here m hp np =
     (if m hp \<noteq> 0 \<and> m np \<noteq> 0 \<and> m hp = m np then match_here m (hp + 1) (np + 1)
      else Some (m np = 0))"

partial_function (option) strstr_loop :: "mem \<Rightarrow> u32 \<Rightarrow> u32 \<Rightarrow> u32 option option" where
  "strstr_loop m h n =
     (if m h = 0 then Some None
      else (case match_here m h n of None \<Rightarrow> None
        | Some ok \<Rightarrow> if ok then Some (Some h) else strstr_loop m (h + 1) n))"

definition kstrstr :: "mem \<Rightarrow> u32 \<Rightarrow> u32 \<Rightarrow> u32 option option" where
  "kstrstr m h n = (if m n = 0 then Some (Some h) else strstr_loop m h n)"

section \<open>Numbers\<close>

definition HEX :: bytes where
  "HEX = [48, 49, 50, 51, 52, 53, 54, 55, 56, 57, 65, 66, 67, 68, 69, 70]"

text \<open>\<^verbatim>\<open>while (n > 0) { tmp[len++] = HEX[n % base]; n /= base; }\<close>: the digits, least first.\<close>

function uitoa_tmp :: "u32 \<Rightarrow> u32 \<Rightarrow> bytes" where
  "uitoa_tmp n base =
     (if n = 0 \<or> base < 2 then [] else HEX ! unat (n mod base) # uitoa_tmp (n div base) base)"
  by pat_completeness auto
termination
proof (relation "measure (\<lambda>(n, base). unat n)", simp, clarsimp simp: not_less)
  fix n base :: u32
  assume "2 \<le> base" "n \<noteq> 0"
  then have "2 \<le> unat base" "0 < unat n"
    by (auto simp: word_le_nat_alt unat_gt_0)
  then show "unat (n div base) < unat n" by (simp add: unat_div)
qed

declare uitoa_tmp.simps [simp del]

fun write_bytes :: "mem \<Rightarrow> u32 \<Rightarrow> bytes \<Rightarrow> mem" where
  "write_bytes m p [] = m"
| "write_bytes m p (b # bs) = write_bytes (m(p := b)) (p + 1) bs"

text \<open>\<^verbatim>\<open>buf[i] = tmp[len-1-i]\<close> for every \<open>i\<close>, then the terminator.\<close>

definition kuitoa :: "mem \<Rightarrow> u32 \<Rightarrow> u32 \<Rightarrow> int \<Rightarrow> mem" where
  "kuitoa m n buf base =
     (if base < 2 \<or> 16 < base then write_bytes m buf [63, 0]
      else if n = 0 then write_bytes m buf [48, 0]
      else write_bytes m buf (rev (uitoa_tmp n (word_of_int base)) @ [0]))"

definition kitoa :: "mem \<Rightarrow> u32 \<Rightarrow> u32 \<Rightarrow> int \<Rightarrow> mem" where
  "kitoa m n buf base =
     (if sint n < 0 \<and> base = 10 then kuitoa (m(buf := 45)) (- n) (buf + 1) base
      else kuitoa m n buf base)"

definition is_digit :: "u8 \<Rightarrow> bool" where
  "is_digit c \<longleftrightarrow> 48 \<le> sint c \<and> sint c \<le> 57"

text \<open>The accumulator is kept at 32 bits, as the target's \<^verbatim>\<open>int32_t\<close> arithmetic wraps.\<close>

partial_function (option) atoi_loop :: "mem \<Rightarrow> u32 \<Rightarrow> u32 \<Rightarrow> u32 option" where
  "atoi_loop m s r =
     (if is_digit (m s) then atoi_loop m (s + 1) (r * 10 + (ucast (m s) - 48)) else Some r)"

definition katoi :: "mem \<Rightarrow> u32 \<Rightarrow> u32 option" where
  "katoi m s =
     (if m s = 45 then map_option uminus (atoi_loop m (s + 1) 0) else atoi_loop m s 0)"

section \<open>Terminated strings in the store\<close>

text \<open>The bytes \<open>bs\<close> lie at address \<open>p\<close>; the string \<open>s\<close> lies there with its terminator.\<close>

fun bytes_at :: "mem \<Rightarrow> u32 \<Rightarrow> bytes \<Rightarrow> bool" where
  "bytes_at m p [] = True"
| "bytes_at m p (b # bs) = (m p = b \<and> bytes_at m (p + 1) bs)"

definition cstr_at :: "mem \<Rightarrow> u32 \<Rightarrow> bytes \<Rightarrow> bool" where
  "cstr_at m p s \<longleftrightarrow> 0 \<notin> set s \<and> bytes_at m p (s @ [0])"

lemma cstr_at_simps [simp]:
  "cstr_at m p [] \<longleftrightarrow> m p = 0"
  "cstr_at m p (c # s) \<longleftrightarrow> c \<noteq> 0 \<and> m p = c \<and> cstr_at m (p + 1) s"
  by (auto simp: cstr_at_def)

text \<open>What the comparison computes on strings, as lists.\<close>

fun str_cmp :: "bytes \<Rightarrow> bytes \<Rightarrow> int" where
  "str_cmp [] [] = 0"
| "str_cmp (a # as) [] = uint a"
| "str_cmp [] (b # bs) = - uint b"
| "str_cmp (a # as) (b # bs) = (if a = b then str_cmp as bs else uint a - uint b)"

lemma cstr_at_upd_other:
  "(\<forall>j \<le> length s. q \<noteq> p + of_nat j) \<Longrightarrow> cstr_at (m(q := v)) p s = cstr_at m p s"
proof (induction s arbitrary: p)
  case (Cons c s)
  have "\<forall>j \<le> length s. q \<noteq> (p + 1) + of_nat j"
  proof (intro allI impI)
    fix j assume "j \<le> length s"
    with Cons.prems [rule_format, of "Suc j"] show "q \<noteq> (p + 1) + of_nat j"
      by (simp add: add.assoc)
  qed
  from Cons.IH [OF this] Cons.prems [rule_format, of 0] show ?case by simp
qed simp

lemma str_cmp_0_iff:
  "0 \<notin> set a \<Longrightarrow> 0 \<notin> set b \<Longrightarrow> str_cmp a b = 0 \<longleftrightarrow> a = b"
  by (induction a b rule: str_cmp.induct) (auto simp: uint_0_iff dest: word_uint_eqI)

lemma strlen_loop_cstr: "cstr_at m p s \<Longrightarrow> strlen_loop m p n = Some (n + of_nat (length s))"
proof (induction s arbitrary: p n)
  case Nil
  then show ?case by (simp add: strlen_loop.simps)
next
  case (Cons c s)
  then have "strlen_loop m (p + 1) (n + 1) = Some (n + 1 + of_nat (length s))" by simp
  with Cons.prems show ?case by (simp add: strlen_loop.simps [of m p] algebra_simps)
qed

lemma kstrlen_cstr: "cstr_at m p s \<Longrightarrow> kstrlen m p = Some (of_nat (length s))"
  by (simp add: kstrlen_def strlen_loop_cstr)

lemma kstrcmp_cstr:
  "cstr_at m p s \<Longrightarrow> cstr_at m q t \<Longrightarrow> kstrcmp m p q = Some (str_cmp s t)"
proof (induction s t arbitrary: p q rule: str_cmp.induct)
  case (4 a as b bs)
  then show ?case by (auto simp: kstrcmp.simps [of m p])
qed (auto simp: kstrcmp.simps)

lemma str_end_cstr: "cstr_at m p s \<Longrightarrow> str_end m p = Some (p + of_nat (length s))"
proof (induction s arbitrary: p)
  case Nil
  then show ?case by (simp add: str_end.simps)
next
  case (Cons c s)
  then have "str_end m (p + 1) = Some (p + 1 + of_nat (length s))" by simp
  with Cons.prems show ?case by (simp add: str_end.simps [of m p] algebra_simps)
qed

lemma kstrchr_cstr:
  "cstr_at m p s \<Longrightarrow> c \<noteq> 0 \<Longrightarrow>
   kstrchr m p c = Some (map_option (\<lambda>i. p + of_nat i) (find_idx (\<lambda>x. x = c) s))"
proof (induction s arbitrary: p)
  case Nil
  then show ?case by (simp add: kstrchr.simps)
next
  case (Cons x s)
  then show ?case
    by (cases "find_idx (\<lambda>x. x = c) s") (simp_all add: kstrchr.simps [of m p] algebra_simps)
qed

section \<open>Block copies\<close>

lemma copy_up_frame: "(\<forall>i < n. q \<noteq> d + of_nat i) \<Longrightarrow> copy_up n d s m q = m q"
proof (induction n arbitrary: d s m)
  case (Suc n)
  then have "\<forall>i < n. q \<noteq> (d + 1) + of_nat i" by (auto simp: algebra_simps dest: spec [of _ "Suc _"])
  then have "copy_up n (d + 1) (s + 1) (m(d := m s)) q = (m(d := m s)) q" by (rule Suc.IH)
  moreover have "q \<noteq> d" using spec [OF Suc.prems, of 0] by simp
  ultimately show ?case by simp
qed simp

lemma copy_down_frame: "(\<forall>i < n. q \<noteq> d - of_nat (Suc i)) \<Longrightarrow> copy_down n d s m q = m q"
proof (induction n arbitrary: d s m)
  case (Suc n)
  then have "\<forall>i < n. q \<noteq> (d - 1) - of_nat (Suc i)"
    by (auto simp: algebra_simps dest: spec [of _ "Suc _"])
  then have "copy_down n (d - 1) (s - 1) (m(d - 1 := m (s - 1))) q = (m(d - 1 := m (s - 1))) q"
    by (rule Suc.IH)
  moreover have "q \<noteq> d - 1" using spec [OF Suc.prems, of 0] by simp
  ultimately show ?case by simp
qed simp

text \<open>
  Copying upwards is right when no write hits a byte that is still to be read, and so is
  copying downwards.
\<close>

lemma copy_up_spec:
  assumes "n \<le> 2 ^ 32" "\<forall>i < n. \<forall>j < n. i < j \<longrightarrow> d + of_nat i \<noteq> s + of_nat j" "i < n"
  shows "copy_up n d s m (d + of_nat i) = m (s + of_nat i)"
  using assms
proof (induction n arbitrary: d s m i)
  case (Suc n)
  have ov: "\<forall>i < n. \<forall>j < n. i < j \<longrightarrow> (d + 1) + of_nat i \<noteq> (s + 1) + of_nat j"
  proof (intro allI impI)
    fix i j assume "i < n" "j < n" "i < j"
    with Suc.prems(2) have "d + of_nat (Suc i) \<noteq> s + of_nat (Suc j)" by (meson Suc_mono)
    then show "(d + 1) + of_nat i \<noteq> (s + 1) + of_nat j" by (simp add: algebra_simps)
  qed
  show ?case
  proof (cases i)
    case 0
    have "\<forall>k < n. d \<noteq> (d + 1) + of_nat k"
      using addr_suc_ne [OF Suc.prems(1)] by blast
    then have "copy_up n (d + 1) (s + 1) (m(d := m s)) d = (m(d := m s)) d" by (rule copy_up_frame)
    then show ?thesis using 0 by simp
  next
    case (Suc k)
    then have k: "k < n" using Suc.prems by simp
    have "copy_up n (d + 1) (s + 1) (m(d := m s)) ((d + 1) + of_nat k)
        = (m(d := m s)) ((s + 1) + of_nat k)"
      using Suc.IH [OF _ ov k] Suc.prems(1) by simp
    moreover have "d \<noteq> s + of_nat (Suc k)"
      using Suc.prems(2) [rule_format, of 0 "Suc k"] k by simp
    ultimately show ?thesis using Suc by (simp add: algebra_simps)
  qed
qed simp

lemma copy_down_spec:
  assumes "n \<le> 2 ^ 32"
    and "\<forall>i < n. \<forall>j < n. i < j \<longrightarrow> d - of_nat (Suc i) \<noteq> s - of_nat (Suc j)" "i < n"
  shows "copy_down n d s m (d - of_nat (Suc i)) = m (s - of_nat (Suc i))"
  using assms
proof (induction n arbitrary: d s m i)
  case (Suc n)
  have ov: "\<forall>i < n. \<forall>j < n. i < j \<longrightarrow> (d - 1) - of_nat (Suc i) \<noteq> (s - 1) - of_nat (Suc j)"
  proof (intro allI impI)
    fix i j assume "i < n" "j < n" "i < j"
    with Suc.prems(2) have "d - of_nat (Suc (Suc i)) \<noteq> s - of_nat (Suc (Suc j))"
      by (meson Suc_mono)
    then show "(d - 1) - of_nat (Suc i) \<noteq> (s - 1) - of_nat (Suc j)" by (simp add: algebra_simps)
  qed
  show ?case
  proof (cases i)
    case 0
    have "\<forall>k < n. d - 1 \<noteq> (d - 1) - of_nat (Suc k)"
      using addr_pred_ne [OF Suc.prems(1)] by blast
    then have "copy_down n (d - 1) (s - 1) (m(d - 1 := m (s - 1))) (d - 1) = m (s - 1)"
      by (subst copy_down_frame) simp_all
    then show ?thesis using 0 by simp
  next
    case (Suc k)
    then have k: "k < n" using Suc.prems by simp
    have "copy_down n (d - 1) (s - 1) (m(d - 1 := m (s - 1))) ((d - 1) - of_nat (Suc k))
        = (m(d - 1 := m (s - 1))) ((s - 1) - of_nat (Suc k))"
      using Suc.IH [OF _ ov k] Suc.prems(1) by simp
    moreover have "d - of_nat (Suc 0) \<noteq> s - of_nat (Suc (Suc k))"
      using Suc.prems(2) [rule_format, of 0 "Suc k"] k by simp
    ultimately show ?thesis using Suc by (simp add: algebra_simps)
  qed
qed simp

text \<open>A block of \<open>n\<close> bytes at \<open>p\<close> that does not wrap around the address space.\<close>

definition block_ok :: "u32 \<Rightarrow> u32 \<Rightarrow> bool" where
  "block_ok p n \<longleftrightarrow> unat p + unat n \<le> 2 ^ 32"

lemma unat_block: "block_ok p n \<Longrightarrow> i < unat n \<Longrightarrow> unat (p + of_nat i) = unat p + i"
  by (simp add: block_ok_def unat_plus_if unat_of_nat_lt)

lemma down_addr:
  assumes "i < unat n"
  shows "p + n - of_nat (Suc i) = p + (of_nat (unat n - Suc i) :: u32)"
proof -
  have "of_nat (unat n - Suc i) = n - (of_nat (Suc i) :: u32)"
    using assms by (simp add: of_nat_diff)
  then show ?thesis by simp
qed

lemma down_addr_rev:
  assumes "i < unat n"
  shows "p + (of_nat i :: u32) = p + n - of_nat (Suc (unat n - Suc i))"
  using down_addr [of "unat n - Suc i" n p] assms by simp

lemma kmemmove_bytes:
  assumes "block_ok dst n" "block_ok src n" "i < unat n"
  shows "fst (kmemmove m dst src n) (dst + of_nat i) = m (src + of_nat i)"
proof (cases "dst < src")
  case True
  have "\<forall>i < unat n. \<forall>j < unat n. i < j \<longrightarrow> dst + of_nat i \<noteq> src + of_nat j"
    using True assms(1,2) unat_block by (fastforce simp: word_less_nat_alt word_eq_unat)
  with True assms(3) unat_lt32 [of n] show ?thesis
    by (simp add: kmemmove_def copy_up_spec)
next
  case False
  let ?d = "dst + n" and ?s = "src + n" and ?k = "unat n - Suc i"
  have "\<forall>i < unat n. \<forall>j < unat n. i < j \<longrightarrow> ?d - of_nat (Suc i) \<noteq> ?s - of_nat (Suc j)"
  proof (intro allI impI)
    fix i j assume ij: "i < unat n" "j < unat n" "i < j"
    have "unat (dst + of_nat (unat n - Suc i)) = unat dst + (unat n - Suc i)"
      by (rule unat_block [OF assms(1)]) (use ij in simp)
    moreover have "unat (src + of_nat (unat n - Suc j)) = unat src + (unat n - Suc j)"
      by (rule unat_block [OF assms(2)]) (use ij in simp)
    moreover note False
    ultimately show "?d - of_nat (Suc i) \<noteq> ?s - of_nat (Suc j)"
      unfolding down_addr [OF ij(1)] down_addr [OF ij(2)] word_eq_unat word_less_nat_alt
      using ij by linarith
  qed
  then have "copy_down (unat n) ?d ?s m (?d - of_nat (Suc ?k)) = m (?s - of_nat (Suc ?k))"
    using assms(3) unat_lt32 [of n] by (intro copy_down_spec) simp_all
  with False show ?thesis
    by (simp only: kmemmove_def if_False fst_conv down_addr_rev [OF assms(3)])
qed

lemma kmemmove_frame:
  assumes "\<forall>i < unat n. q \<noteq> dst + of_nat i"
  shows "fst (kmemmove m dst src n) q = m q"
proof (cases "dst < src")
  case True
  with assms show ?thesis by (simp add: kmemmove_def copy_up_frame)
next
  case False
  have "q \<noteq> dst + n - of_nat (Suc i)" if "i < unat n" for i
    unfolding down_addr [OF that] by (rule assms [rule_format]) (use that in linarith)
  with False show ?thesis by (simp add: kmemmove_def copy_down_frame del: of_nat_Suc)
qed

section \<open>Bytes written to a buffer\<close>

lemma write_bytes_frame:
  "(\<forall>i < length bs. q \<noteq> p + of_nat i) \<Longrightarrow> write_bytes m p bs q = m q"
proof (induction bs arbitrary: m p)
  case (Cons b bs)
  have "\<forall>i < length bs. q \<noteq> (p + 1) + of_nat i"
    using Cons.prems by (auto simp: add.assoc dest: spec [of _ "Suc _"])
  then have "write_bytes (m(p := b)) (p + 1) bs q = (m(p := b)) q" by (rule Cons.IH)
  moreover have "q \<noteq> p" using spec [OF Cons.prems, of 0] by simp
  ultimately show ?case by simp
qed simp

lemma bytes_at_write: "length bs \<le> 2 ^ 32 \<Longrightarrow> bytes_at (write_bytes m p bs) p bs"
proof (induction bs arbitrary: m p)
  case (Cons b bs)
  have "\<forall>i < length bs. p \<noteq> (p + 1) + of_nat i"
    using Cons.prems addr_suc_ne by auto
  then have "write_bytes (m(p := b)) (p + 1) bs p = (m(p := b)) p" by (rule write_bytes_frame)
  moreover have "bytes_at (write_bytes (m(p := b)) (p + 1) bs) (p + 1) bs"
    by (rule Cons.IH) (use Cons.prems in simp)
  ultimately show ?case by simp
qed simp

lemma bytes_at_nth: "bytes_at m p bs \<Longrightarrow> i < length bs \<Longrightarrow> m (p + of_nat i) = bs ! i"
proof (induction bs arbitrary: p i)
  case (Cons b bs)
  show ?case
  proof (cases i)
    case 0
    with Cons.prems show ?thesis by simp
  next
    case (Suc k)
    with Cons.IH [of "p + 1" k] Cons.prems show ?thesis by (simp add: add.assoc)
  qed
qed simp

lemma memset_loop_write: "memset_loop n p v m = write_bytes m p (replicate n v)"
  by (induction n arbitrary: p m) auto

text \<open>The copy loop of \<^verbatim>\<open>kstrncpy\<close> writes the terminator and then \<open>n - length s\<close> zeros.\<close>

lemma write_bytes_append:
  "write_bytes m p (as @ bs) = write_bytes (write_bytes m p as) (p + of_nat (length as)) bs"
  by (induction as arbitrary: m p) (auto simp: algebra_simps)

lemma strncpy_loop_cstr:
  assumes "cstr_at m src s" "length s < n" "n \<le> 2 ^ 31"
    and "\<forall>i < length s. \<forall>j \<le> length s. dst + of_nat i \<noteq> src + of_nat j"
  shows "strncpy_loop n m dst src
    = (write_bytes m dst (s @ [0]), dst + of_nat (Suc (length s)), n - length s)"
  using assms
proof (induction s arbitrary: m n dst src)
  case Nil
  then show ?case by (cases n) auto
next
  case (Cons c s)
  obtain k where n: "n = Suc k" using Cons.prems(2) by (cases n) auto
  have fr: "\<forall>j \<le> length s. dst \<noteq> (src + 1) + of_nat j"
  proof (intro allI impI)
    fix j assume "j \<le> length s"
    with Cons.prems(4) [rule_format, of 0 "Suc j"] show "dst \<noteq> (src + 1) + of_nat j"
      by (simp add: add.assoc)
  qed
  have at: "cstr_at (m(dst := c)) (src + 1) s"
    using Cons.prems(1) fr by (simp add: cstr_at_upd_other)
  have ov: "\<forall>i < length s. \<forall>j \<le> length s. (dst + 1) + of_nat i \<noteq> (src + 1) + of_nat j"
  proof (intro allI impI)
    fix i j assume "i < length s" "j \<le> length s"
    with Cons.prems(4) [rule_format, of "Suc i" "Suc j"]
    show "(dst + 1) + of_nat i \<noteq> (src + 1) + of_nat j" by (simp add: algebra_simps)
  qed
  have "strncpy_loop k (m(dst := c)) (dst + 1) (src + 1)
      = (write_bytes (m(dst := c)) (dst + 1) (s @ [0]), dst + 1 + of_nat (Suc (length s)), k - length s)"
    by (rule Cons.IH [OF at _ _ ov]) (use Cons.prems n in simp_all)
  then show ?case using Cons.prems(1) n by (simp add: algebra_simps)
qed

end
