(* ===== verification/KNumber.thy ===== *)
theory KNumber
  imports KString
begin

text \<open>
  Printing and reading numbers (\<^verbatim>\<open>kuitoa\<close>, \<^verbatim>\<open>kitoa\<close>, \<^verbatim>\<open>katoi\<close> of
  \<^verbatim>\<open>kernel/kstring.cpp\<close>): the digits that are written, how many there are, and that
  reading back what was printed gives the number. The theory ends with the properties of
  the string routines.
\<close>

text \<open>The value of a digit string in a base, most significant digit first.\<close>

definition hex_val :: "u8 \<Rightarrow> u32" where
  "hex_val c = (if c \<le> 57 then ucast c - 48 else ucast c - 55)"

definition digits_val :: "u32 \<Rightarrow> bytes \<Rightarrow> u32" where
  "digits_val base ds = foldl (\<lambda>r c. r * base + hex_val c) 0 ds"

lemma digits_val_snoc [simp]: "digits_val base (ds @ [d]) = digits_val base ds * base + hex_val d"
  by (simp add: digits_val_def)

lemma HEX_cases:
  "k < 16 \<Longrightarrow> k \<in> {0, 1, 2, 3, 4, 5, 6, 7, 8, 9, 10, 11, 12, 13, 14, 15 :: nat}"
  by (simp add: numeral_eq_Suc less_Suc_eq)

lemma hex_val_HEX: "k < 16 \<Longrightarrow> hex_val (HEX ! k) = of_nat k"
  using HEX_cases [of k] by (auto simp: hex_val_def HEX_def)

lemma HEX_digit: "k < 10 \<Longrightarrow> is_digit (HEX ! k) \<and> ucast (HEX ! k) - 48 = (of_nat k :: u32)"
  using HEX_cases [of k] by (auto simp: is_digit_def HEX_def)

lemma uitoa_tmp_0 [simp]: "uitoa_tmp 0 base = []"
  by (simp add: uitoa_tmp.simps)

lemma uitoa_tmp_step:
  "n \<noteq> 0 \<Longrightarrow> 2 \<le> base \<Longrightarrow>
   uitoa_tmp n base = HEX ! unat (n mod base) # uitoa_tmp (n div base) base"
  by (subst uitoa_tmp.simps) auto

lemma digits_val_uitoa:
  assumes "2 \<le> base" "base \<le> 16"
  shows "digits_val base (rev (uitoa_tmp n base)) = n"
  using assms
proof (induction n base rule: uitoa_tmp.induct)
  case (1 n base)
  show ?case
  proof (cases "n = 0")
    case True
    then show ?thesis by (simp add: digits_val_def)
  next
    case False
    have b: "2 \<le> unat base" "unat base \<le> 16" using "1.prems" by (auto simp: word_le_nat_alt)
    have "unat (n mod base) < 16" using b by (simp add: unat_mod_distrib less_le_trans [OF mod_less_divisor])
    then have "hex_val (HEX ! unat (n mod base)) = n mod base" by (simp add: hex_val_HEX)
    moreover have "digits_val base (rev (uitoa_tmp (n div base) base)) = n div base"
      using "1.IH" False "1.prems" by auto
    ultimately show ?thesis using False "1.prems" by (simp add: uitoa_tmp_step div_mult_mod_eq)
  qed
qed

text \<open>The digits of a number below \<open>base ^ k\<close> fit in \<open>k\<close> cells.\<close>

lemma length_uitoa_tmp:
  assumes "2 \<le> base" "unat n < unat base ^ k"
  shows "length (uitoa_tmp n base) \<le> k"
  using assms(2)
proof (induction k arbitrary: n)
  case 0
  then show ?case by (simp add: unat_eq_0)
next
  case (Suc k)
  show ?case
  proof (cases "n = 0")
    case False
    have "unat (n div base) < unat base ^ k"
      using Suc.prems by (simp add: unat_div less_mult_imp_div_less mult.commute)
    with Suc.IH False assms(1) show ?thesis by (simp add: uitoa_tmp_step)
  qed simp
qed

lemma uitoa_tmp_len32: "2 \<le> base \<Longrightarrow> length (uitoa_tmp n base) \<le> 32"
proof (rule length_uitoa_tmp)
  assume "2 \<le> base"
  then have "2 \<le> unat base" by (simp add: word_le_nat_alt)
  then have "(2::nat) ^ 32 \<le> unat base ^ 32" by (rule power_mono) simp
  then show "unat n < unat base ^ 32" using unat_lt32 [of n] by simp
qed

lemma uitoa_tmp_len10: "length (uitoa_tmp n 10) \<le> 10"
  using unat_lt32 [of n] by (intro length_uitoa_tmp) simp_all

lemma uitoa_tmp_digits: "\<forall>d \<in> set (uitoa_tmp n 10). is_digit d"
proof (induction n "10 :: u32" rule: uitoa_tmp.induct)
  case (1 n)
  have "unat (n mod 10) < 10" by (simp add: unat_mod_distrib)
  then show ?case
    using "1" HEX_digit by (cases "n = 0") (auto simp: uitoa_tmp_step)
qed

section \<open>Reading digits\<close>

definition atoi_step :: "u32 \<Rightarrow> u8 \<Rightarrow> u32" where
  "atoi_step r c = r * 10 + (ucast c - 48)"

lemma foldl_atoi_uitoa: "foldl atoi_step 0 (rev (uitoa_tmp n 10)) = n"
proof (induction n "10 :: u32" rule: uitoa_tmp.induct)
  case (1 n)
  have "unat (n mod 10) < 10" by (simp add: unat_mod_distrib)
  then have "ucast (HEX ! unat (n mod 10)) - 48 = n mod 10" using HEX_digit by simp
  with "1" show ?case by (cases "n = 0") (simp_all add: uitoa_tmp_step atoi_step_def div_mult_mod_eq)
qed

lemma atoi_loop_digits:
  assumes "\<forall>d \<in> set ds. is_digit d" "\<not> is_digit x" "bytes_at m p (ds @ [x])"
  shows "atoi_loop m p r = Some (foldl atoi_step r ds)"
  using assms
proof (induction ds arbitrary: p r)
  case Nil
  then show ?case by (simp add: atoi_loop.simps)
next
  case (Cons d ds)
  then have "atoi_loop m (p + 1) (atoi_step r d) = Some (foldl atoi_step (atoi_step r d) ds)"
    by simp
  with Cons.prems show ?case by (simp add: atoi_loop.simps [of m p] flip: atoi_step_def)
qed

text \<open>The decimal digits of \<open>n\<close>, as \<^verbatim>\<open>kuitoa\<close> leaves them in the buffer.\<close>

definition udec :: "u32 \<Rightarrow> bytes" where
  "udec n = (if n = 0 then [48] else rev (uitoa_tmp n 10))"

lemma udec_digits: "\<forall>d \<in> set (udec n). is_digit d"
  using uitoa_tmp_digits by (auto simp: udec_def is_digit_def)

lemma udec_value: "foldl atoi_step 0 (udec n) = n"
  using foldl_atoi_uitoa by (simp add: udec_def atoi_step_def)

lemma length_udec: "length (udec n) \<le> 10"
  using uitoa_tmp_len10 by (simp add: udec_def)

lemma udec_nonempty: "udec n \<noteq> []"
  by (simp add: udec_def uitoa_tmp_step)

lemma kuitoa_dec: "kuitoa m n buf 10 = write_bytes m buf (udec n @ [0])"
  by (simp add: kuitoa_def udec_def)

lemma digit_not_minus: "is_digit d \<Longrightarrow> d \<noteq> 45"
  by (auto simp: is_digit_def)

lemma not_digit_nul [simp]: "\<not> is_digit 0"
  by (simp add: is_digit_def)

lemma udec_bytes_at: "bytes_at (write_bytes m p (udec n @ [0])) p (udec n @ [0])"
  using length_udec [of n] by (intro bytes_at_write) simp

lemma atoi_udec: "atoi_loop (write_bytes m p (udec n @ [0])) p 0 = Some n"
  using atoi_loop_digits [OF udec_digits not_digit_nul udec_bytes_at] by (simp add: udec_value)

lemma katoi_kuitoa: "katoi (kuitoa m n buf 10) buf = Some n"
proof -
  let ?m = "write_bytes m buf (udec n @ [0])"
  obtain d ds where d: "udec n = d # ds" using udec_nonempty by (cases "udec n") auto
  then have "?m buf = d" using udec_bytes_at [of m buf n] by simp
  moreover have "d \<noteq> 45" using udec_digits [of n] d digit_not_minus by simp
  ultimately have "katoi ?m buf = atoi_loop ?m buf 0" by (simp add: katoi_def)
  then show ?thesis by (simp add: kuitoa_dec atoi_udec)
qed

lemma katoi_minus:
  "m buf = 45 \<Longrightarrow> katoi (write_bytes m (buf + 1) (udec n @ [0])) buf = Some (- n)"
proof -
  assume minus: "m buf = 45"
  let ?w = "write_bytes m (buf + 1) (udec n @ [0])"
  have "?w buf = m buf"
    by (rule write_bytes_frame) (use length_udec [of n] addr_suc_ne [of 11] in auto)
  with minus show ?thesis by (simp add: katoi_def atoi_udec)
qed

lemma katoi_kitoa: "katoi (kitoa m n buf 10) buf = Some n"
proof (cases "sint n < 0")
  case True
  then have "kitoa m n buf 10 = write_bytes (m(buf := 45)) (buf + 1) (udec (- n) @ [0])"
    by (simp add: kitoa_def kuitoa_dec)
  with katoi_minus [of "m(buf := 45)" buf "- n"] show ?thesis by simp
next
  case False
  then show ?thesis by (simp add: kitoa_def katoi_kuitoa)
qed

section \<open>Properties\<close>

text \<open>
  C35: reading back with \<^verbatim>\<open>katoi\<close> what \<^verbatim>\<open>kitoa\<close> printed in base 10 gives the number
  again, for every 32-bit value, the most negative one included, and every buffer address.
\<close>

theorem kitoa_katoi_roundtrip: "katoi (kitoa m n buf 10) buf = Some n"
  by (rule katoi_kitoa)

text \<open>
  C9: in every base that \<^verbatim>\<open>kuitoa\<close> accepts, the buffer receives at most 33 bytes (so the
  34-byte local array and a 34-byte buffer suffice), they are the digits of the number in
  that base followed by the terminator, and no other byte of memory changes.
\<close>

theorem kuitoa_digits:
  assumes "2 \<le> base" "base \<le> 16" "n \<noteq> 0"
  shows "\<exists>ds. length ds \<le> 32 \<and> digits_val (word_of_int base) ds = n
    \<and> bytes_at (kuitoa m n buf base) buf (ds @ [0])
    \<and> (\<forall>q. (\<forall>i \<le> length ds. q \<noteq> buf + of_nat i) \<longrightarrow> kuitoa m n buf base q = m q)"
proof (intro exI conjI)
  let ?b = "word_of_int base :: u32" and ?ds = "rev (uitoa_tmp n (word_of_int base))"
  have "uint ?b = base" using assms by (simp add: uint_word_of_int_eq take_bit_int_eq_self)
  then have b: "2 \<le> ?b" "?b \<le> 16" using assms by (simp_all add: word_le_def)
  have w: "kuitoa m n buf base = write_bytes m buf (?ds @ [0])"
    using assms by (simp add: kuitoa_def)
  show len: "length ?ds \<le> 32" using uitoa_tmp_len32 [OF b(1)] by simp
  show "digits_val ?b ?ds = n" using b by (rule digits_val_uitoa)
  show "bytes_at (kuitoa m n buf base) buf (?ds @ [0])"
    unfolding w using len by (intro bytes_at_write) simp
  show "\<forall>q. (\<forall>i \<le> length ?ds. q \<noteq> buf + of_nat i) \<longrightarrow> kuitoa m n buf base q = m q"
    unfolding w by (auto intro!: write_bytes_frame simp: less_Suc_eq_le)
qed

theorem kuitoa_digits_witness:
  "\<exists>ds. length ds \<le> 32 \<and> digits_val 16 ds = 48879
    \<and> bytes_at (kuitoa (\<lambda>_. 0) 48879 4096 16) 4096 (ds @ [0])"
  using kuitoa_digits [of 16 48879 "\<lambda>_. 0" 4096] by auto

text \<open>
  C31: \<^verbatim>\<open>kmemmove\<close> copies the source block as it was before the call, however the two
  blocks overlap, and changes no byte outside the destination block.
\<close>

theorem kmemmove_correct:
  assumes "block_ok dst n" "block_ok src n"
  shows "(\<forall>i < unat n. fst (kmemmove m dst src n) (dst + of_nat i) = m (src + of_nat i))
    \<and> (\<forall>q. (\<forall>i < unat n. q \<noteq> dst + of_nat i) \<longrightarrow> fst (kmemmove m dst src n) q = m q)"
  using kmemmove_bytes [OF assms] kmemmove_frame by blast

theorem kmemmove_correct_witness:
  "fst (kmemmove (\<lambda>a. ucast a) 104 100 8) 109 = 105"
proof -
  have "block_ok 104 8" "block_ok 100 8" by (simp_all add: block_ok_def)
  from kmemmove_correct [OF this, of "\<lambda>a. ucast a"]
  have "fst (kmemmove (\<lambda>a. ucast a) 104 100 8) (104 + of_nat 5) = ucast (100 + of_nat 5 :: u32)"
    by (elim conjE allE [of _ 5]) simp
  then show ?thesis by simp
qed

text \<open>
  C11: \<^verbatim>\<open>kstrcmp\<close> returns on terminated strings, and returns zero exactly when they are
  equal.
\<close>

theorem kstrcmp_decides_equality:
  assumes "cstr_at m p s" "cstr_at m q t"
  shows "\<exists>r. kstrcmp m p q = Some r \<and> (r = 0 \<longleftrightarrow> s = t)"
  using kstrcmp_cstr [OF assms] str_cmp_0_iff [of s t] assms by (simp add: cstr_at_def)

theorem kstrcmp_decides_equality_witness:
  "\<exists>r. kstrcmp (write_bytes (\<lambda>_. 0) 64 [108, 115]) 64 64 = Some r \<and> r = 0"
  using kstrcmp_decides_equality [of "write_bytes (\<lambda>_. 0) 64 [108, 115]" 64 "[108, 115]" 64 "[108, 115]"]
  by simp

text \<open>
  C12: \<^verbatim>\<open>kstrncpy\<close> of a string shorter than its bound writes one byte past the bound: the
  byte at \<open>dst + n\<close> becomes zero whatever it held (the terminator is copied without being
  counted, and \<open>n - length s\<close> more zeros follow).
\<close>

theorem kstrncpy_writes_past_bound:
  assumes "cstr_at m src s" "length s < unat n" "unat n \<le> 2 ^ 31"
    and "\<forall>i < length s. \<forall>j \<le> length s. dst + of_nat i \<noteq> src + of_nat j"
  shows "fst (kstrncpy m dst src n) = write_bytes m dst (s @ replicate (unat n + 1 - length s) 0)
    \<and> fst (kstrncpy m dst src n) (dst + n) = 0"
proof -
  let ?k = "unat n - length s"
  let ?bs = "s @ replicate (unat n + 1 - length s) 0"
  have r: "replicate (unat n + 1 - length s) (0::u8) = 0 # replicate ?k 0"
    using assms(2) by (metis Suc_diff_le Suc_eq_plus1 less_imp_le replicate_Suc)
  have "fst (kstrncpy m dst src n) = write_bytes m dst (s @ 0 # replicate ?k 0)"
    using strncpy_loop_cstr [OF assms] write_bytes_append [of m dst "s @ [0]" "replicate ?k 0"]
    by (simp add: kstrncpy_def memset_loop_write)
  then have w: "fst (kstrncpy m dst src n) = write_bytes m dst ?bs" by (simp only: r)
  have "length ?bs = unat n + 1" using assms(2) by simp
  then have "bytes_at (write_bytes m dst ?bs) dst ?bs"
    using assms(3) by (intro bytes_at_write) simp
  moreover have "?bs ! unat n = 0" using assms(2) by (simp add: nth_append)
  ultimately have "write_bytes m dst ?bs (dst + of_nat (unat n)) = 0"
    using assms(2) by (metis bytes_at_nth \<open>length ?bs = unat n + 1\<close> less_add_one)
  with w show ?thesis by simp
qed

theorem kstrncpy_writes_past_bound_witness:
  "((\<lambda>_. 7)(100 := 0)) (204 :: u32) = (7 :: u8)
   \<and> fst (kstrncpy ((\<lambda>_. 7)(100 := 0)) 200 100 4) 204 = 0"
proof -
  have "cstr_at ((\<lambda>_. 7)(100 := 0)) 100 []" by simp
  from conjunct2 [OF kstrncpy_writes_past_bound [OF this, of 4 200]] show ?thesis by simp
qed

end
