(* ===== verification/Heap.thy ===== *)
theory Heap
  imports KString
begin

unbundle bit_operations_syntax

text \<open>
  The kernel heap (\<^verbatim>\<open>kernel/heap.h\<close>, \<^verbatim>\<open>kernel/heap.cpp\<close>): a first-fit allocator over a
  doubly linked list of block headers laid out contiguously in memory. The headers live
  in a store from addresses to \<open>block\<close> records (\<open>hblk\<close>), the payload bytes in a byte
  store (\<open>hmem\<close>); they are two views of one memory, which the layout invariant keeps
  apart: every header lies outside every payload. A walk along \<^verbatim>\<open>next\<close> pointers is a
  partial function (\<open>None\<close>: it never ends).

  The abstract heap is the list of its blocks in address order, each a size and whether
  it is free; \<open>heap_rep\<close> relates the two, and the refinement lemmas say what
  \<open>kmalloc\<close> and \<open>kfree\<close> do to the list.
\<close>

record block =
  bsize :: u32
  bfree :: bool
  bnext :: u32
  bprev :: u32
  bmagic :: u32

record heap =
  hblk :: "u32 \<Rightarrow> block"
  hmem :: mem
  heap_head :: u32
  heap_start :: u32
  heap_sz :: u32
  used_bytes :: u32

definition HEAP_MAGIC :: u32 where "HEAP_MAGIC = 0xABCD1234"
definition MIN_SPLIT :: u32 where "MIN_SPLIT = 16"

text \<open>\<^verbatim>\<open>sizeof(Block)\<close> on the 32-bit target: five words, the flag padded to four bytes.\<close>

definition SIZEOF_BLOCK :: u32 where "SIZEOF_BLOCK = 20"

definition heap_init :: "heap \<Rightarrow> u32 \<Rightarrow> u32 \<Rightarrow> heap" where
  "heap_init h start req = h\<lparr>
     heap_start := start, heap_sz := req, used_bytes := 0, heap_head := start,
     hblk := (hblk h)(start := \<lparr>bsize = req - SIZEOF_BLOCK, bfree = True, bnext = 0,
       bprev = 0, bmagic = HEAP_MAGIC\<rparr>)\<rparr>"

partial_function (option) find_free_loop :: "(u32 \<Rightarrow> block) \<Rightarrow> u32 \<Rightarrow> u32 \<Rightarrow> u32 option" where
  "find_free_loop m b req =
     (if b = 0 then Some 0
      else if bfree (m b) \<and> bsize (m b) \<ge> req \<and> bmagic (m b) = HEAP_MAGIC then Some b
      else find_free_loop m (bnext (m b)) req)"

definition find_free :: "heap \<Rightarrow> u32 \<Rightarrow> u32 option" where
  "find_free h req = find_free_loop (hblk h) (heap_head h) req"

definition try_split :: "(u32 \<Rightarrow> block) \<Rightarrow> u32 \<Rightarrow> u32 \<Rightarrow> (u32 \<Rightarrow> block)" where
  "try_split m b req =
     (if bsize (m b) < req + SIZEOF_BLOCK + MIN_SPLIT then m
      else
        let nb = b + SIZEOF_BLOCK + req;
            m1 = m(nb := \<lparr>bsize = bsize (m b) - req - SIZEOF_BLOCK, bfree = True,
              bnext = bnext (m b), bprev = b, bmagic = HEAP_MAGIC\<rparr>);
            m2 = (if bnext (m1 b) \<noteq> 0
                  then m1(bnext (m1 b) := (m1 (bnext (m1 b)))\<lparr>bprev := nb\<rparr>) else m1)
        in m2(b := (m2 b)\<lparr>bnext := nb, bsize := req\<rparr>))"

text \<open>The two halves of \<^verbatim>\<open>try_merge\<close>: with the following block, then with the preceding one.\<close>

definition merge_next :: "(u32 \<Rightarrow> block) \<Rightarrow> u32 \<Rightarrow> (u32 \<Rightarrow> block)" where
  "merge_next m b =
     (let n = bnext (m b) in
      if n \<noteq> 0 \<and> bfree (m n) \<and> bmagic (m n) = HEAP_MAGIC then
        let m1 = m(b := (m b)\<lparr>bsize := bsize (m b) + (SIZEOF_BLOCK + bsize (m n)),
                   bnext := bnext (m n)\<rparr>)
        in if bnext (m1 b) \<noteq> 0
           then m1(bnext (m1 b) := (m1 (bnext (m1 b)))\<lparr>bprev := b\<rparr>) else m1
      else m)"

definition merge_prev :: "(u32 \<Rightarrow> block) \<Rightarrow> u32 \<Rightarrow> (u32 \<Rightarrow> block)" where
  "merge_prev m b =
     (let p = bprev (m b) in
      if p \<noteq> 0 \<and> bfree (m p) \<and> bmagic (m p) = HEAP_MAGIC then
        let m1 = m(p := (m p)\<lparr>bsize := bsize (m p) + (SIZEOF_BLOCK + bsize (m b)),
                   bnext := bnext (m b)\<rparr>)
        in if bnext (m1 b) \<noteq> 0
           then m1(bnext (m1 b) := (m1 (bnext (m1 b)))\<lparr>bprev := bprev (m1 b)\<rparr>) else m1
      else m)"

definition try_merge :: "(u32 \<Rightarrow> block) \<Rightarrow> u32 \<Rightarrow> (u32 \<Rightarrow> block)" where
  "try_merge m b = merge_prev (merge_next m b) b"

definition round8 :: "u32 \<Rightarrow> u32" where
  "round8 req = (req + 7) AND NOT 7"

text \<open>The result pointer is 0 (\<^verbatim>\<open>nullptr\<close>) when no block fits; \<open>None\<close> when the search never ends.\<close>

definition kmalloc :: "heap \<Rightarrow> u32 \<Rightarrow> (heap \<times> u32) option" where
  "kmalloc h req =
     (if req = 0 then Some (h, 0)
      else
        let sz = round8 req in
        (case find_free h sz of
           None \<Rightarrow> None
         | Some b \<Rightarrow>
             if b = 0 then Some (h, 0)
             else
               let m1 = try_split (hblk h) b sz;
                   m2 = m1(b := (m1 b)\<lparr>bfree := False\<rparr>)
               in Some (h\<lparr>hblk := m2, used_bytes := used_bytes h + bsize (m2 b)\<rparr>,
                        b + SIZEOF_BLOCK)))"

definition kmalloc_aligned :: "heap \<Rightarrow> u32 \<Rightarrow> u32 \<Rightarrow> (heap \<times> u32) option" where
  "kmalloc_aligned h req align =
     (case kmalloc h (req + align) of
        None \<Rightarrow> None
      | Some (h', raw) \<Rightarrow>
          if raw = 0 then Some (h', 0)
          else Some (h', (raw + align - 1) AND NOT (align - 1)))"

definition kfree :: "heap \<Rightarrow> u32 \<Rightarrow> heap" where
  "kfree h ptr =
     (if ptr = 0 then h
      else
        let b = ptr - SIZEOF_BLOCK in
        if bmagic (hblk h b) \<noteq> HEAP_MAGIC \<or> bfree (hblk h b) then h
        else
          let m1 = (hblk h)(b := (hblk h b)\<lparr>bfree := True\<rparr>);
              used = (if used_bytes h \<ge> bsize (m1 b) then used_bytes h - bsize (m1 b)
                      else used_bytes h)
          in h\<lparr>hblk := try_merge m1 b, used_bytes := used\<rparr>)"

definition krealloc :: "heap \<Rightarrow> u32 \<Rightarrow> u32 \<Rightarrow> (heap \<times> u32) option" where
  "krealloc h ptr new_size =
     (if ptr = 0 then kmalloc h new_size
      else if new_size = 0 then Some (kfree h ptr, 0)
      else
        let b = ptr - SIZEOF_BLOCK in
        if bmagic (hblk h b) \<noteq> HEAP_MAGIC then Some (h, 0)
        else
          let sz = round8 new_size in
          if bsize (hblk h b) \<ge> sz then Some (h, ptr)
          else
            (case kmalloc h sz of
               None \<Rightarrow> None
             | Some (h1, newptr) \<Rightarrow>
                 if newptr = 0 then Some (h1, 0)
                 else
                   let h2 = h1\<lparr>hmem := fst (kmemcpy (hmem h1) newptr ptr (bsize (hblk h1 b)))\<rparr>
                   in Some (kfree h2 ptr, newptr)))"

definition heap_used :: "heap \<Rightarrow> u32" where "heap_used h = used_bytes h"
definition heap_total :: "heap \<Rightarrow> u32" where "heap_total h = heap_sz h"

partial_function (option) heap_free_loop :: "(u32 \<Rightarrow> block) \<Rightarrow> u32 \<Rightarrow> u32 \<Rightarrow> u32 option" where
  "heap_free_loop m b f =
     (if b = 0 then Some f
      else heap_free_loop m (bnext (m b)) (if bfree (m b) then f + bsize (m b) else f))"

definition heap_free :: "heap \<Rightarrow> u32 option" where
  "heap_free h = heap_free_loop (hblk h) (heap_head h) 0"

section \<open>The abstract heap\<close>

type_synonym chunk = "nat \<times> bool"

text \<open>The bytes a list of blocks spans, headers included, and the bytes in use.\<close>

fun span :: "chunk list \<Rightarrow> nat" where
  "span [] = 0"
| "span ((s, f) # cs) = 20 + s + span cs"

fun used_of :: "chunk list \<Rightarrow> nat" where
  "used_of [] = 0"
| "used_of ((s, f) # cs) = (if f then 0 else s) + used_of cs"

fun free_of :: "chunk list \<Rightarrow> nat" where
  "free_of [] = 0"
| "free_of ((s, f) # cs) = (if f then s else 0) + free_of cs"

text \<open>The address of the last block, or \<open>p\<close> for an empty list.\<close>

fun last_addr :: "nat \<Rightarrow> nat \<Rightarrow> chunk list \<Rightarrow> nat" where
  "last_addr p a [] = p"
| "last_addr p a ((s, f) # cs) = last_addr a (a + 20 + s) cs"

definition header :: "nat \<Rightarrow> bool \<Rightarrow> u32 \<Rightarrow> nat \<Rightarrow> block" where
  "header s f nxt p = \<lparr>bsize = of_nat s, bfree = f, bnext = nxt, bprev = of_nat p, bmagic = HEAP_MAGIC\<rparr>"

text \<open>
  The blocks lie one after the other from address \<open>a\<close>; the first one's \<^verbatim>\<open>prev\<close> is \<open>p\<close>,
  the last one's \<^verbatim>\<open>next\<close> is \<open>e\<close>.
\<close>

fun chain :: "(u32 \<Rightarrow> block) \<Rightarrow> nat \<Rightarrow> nat \<Rightarrow> chunk list \<Rightarrow> u32 \<Rightarrow> bool" where
  "chain m p a [] e = True"
| "chain m p a ((s, f) # cs) e \<longleftrightarrow>
     m (of_nat a) = header s f (if cs = [] then e else of_nat (a + 20 + s)) p
     \<and> chain m a (a + 20 + s) cs e"

definition heap_rep :: "heap \<Rightarrow> chunk list \<Rightarrow> bool" where
  "heap_rep h cs \<longleftrightarrow> cs \<noteq> [] \<and> heap_head h = heap_start h \<and> heap_start h \<noteq> 0
     \<and> unat (heap_start h) + span cs < 2 ^ 32 \<and> span cs \<le> 2 ^ 31
     \<and> unat (heap_sz h) = span cs \<and> unat (used_bytes h) = used_of cs
     \<and> chain (hblk h) 0 (unat (heap_start h)) cs 0"

definition fits :: "nat \<Rightarrow> chunk \<Rightarrow> bool" where
  "fits n c \<longleftrightarrow> snd c \<and> n \<le> fst c"

definition a_split :: "nat \<Rightarrow> nat \<Rightarrow> chunk list" where
  "a_split n s = (if s < n + 36 then [(s, False)] else [(n, False), (s - n - 20, True)])"

fun a_merge_next :: "nat \<Rightarrow> chunk list \<Rightarrow> chunk list" where
  "a_merge_next s ((t, True) # ys) = (s + 20 + t, True) # ys"
| "a_merge_next s ys = (s, True) # ys"

fun a_merge_prev :: "chunk list \<Rightarrow> chunk list \<Rightarrow> chunk list" where
  "a_merge_prev ((t, True) # rxs) ((s, f) # ys) = rev rxs @ (t + 20 + s, True) # ys"
| "a_merge_prev rxs ys = rev rxs @ ys"

definition a_free :: "chunk list \<Rightarrow> nat \<Rightarrow> chunk list \<Rightarrow> chunk list" where
  "a_free xs s ys = a_merge_prev (rev xs) (a_merge_next s ys)"

lemma span_append [simp]: "span (xs @ ys) = span xs + span ys"
  by (induction xs rule: span.induct) auto

lemma used_of_append [simp]: "used_of (xs @ ys) = used_of xs + used_of ys"
  by (induction xs rule: span.induct) auto

lemma free_of_append [simp]: "free_of (xs @ ys) = free_of xs + free_of ys"
  by (induction xs rule: span.induct) auto

lemma span_parts: "span cs = used_of cs + free_of cs + 20 * length cs"
  by (induction cs rule: span.induct) auto

lemma last_addr_append [simp]:
  "last_addr p a (xs @ ys) = last_addr (last_addr p a xs) (a + span xs) ys"
  by (induction p a xs rule: last_addr.induct) (auto simp: add.assoc)

lemma last_addr_bounds: "xs \<noteq> [] \<Longrightarrow> a \<le> last_addr p a xs \<and> last_addr p a xs + 20 \<le> a + span xs"
proof (induction p a xs rule: last_addr.induct)
  case (2 p a s f cs)
  then show ?case by (cases cs) auto
qed simp

lemma chain_append:
  "ys \<noteq> [] \<Longrightarrow> chain m p a (xs @ ys) e \<longleftrightarrow>
   chain m p a xs (of_nat (a + span xs)) \<and> chain m (last_addr p a xs) (a + span xs) ys e"
  by (induction p a xs rule: last_addr.induct) (auto simp: add.assoc)

lemma chain_frame:
  assumes "\<forall>x. a \<le> x \<and> x < a + span cs \<longrightarrow> m' (of_nat x) = m (of_nat x)"
  shows "chain m' p a cs e = chain m p a cs e"
  using assms
proof (induction p a cs rule: last_addr.induct)
  case (2 p a s f cs)
  then have "chain m' a (a + 20 + s) cs e = chain m a (a + 20 + s) cs e" by simp
  with 2 show ?case by simp
qed simp

text \<open>Only the first block of a list records the address of its predecessor.\<close>

lemma chain_prev_frame:
  assumes "chain m p a (c # cs) e" "a + span (c # cs) \<le> 2 ^ 32"
    and "m' (of_nat a) = (m (of_nat a))\<lparr>bprev := of_nat p'\<rparr>"
    and "\<forall>x. a < x \<and> x < a + span (c # cs) \<longrightarrow> m' (of_nat x) = m (of_nat x)"
  shows "chain m' p' a (c # cs) e"
proof -
  obtain s f where c: "c = (s, f)" by fastforce
  have "chain m' a (a + 20 + s) cs e = chain m a (a + 20 + s) cs e"
    by (rule chain_frame) (use assms(4) c in auto)
  with assms(1,3) c show ?thesis by (simp add: header_def)
qed

text \<open>Replacing the blocks \<open>mid\<close> in the middle by others that span the same bytes.\<close>

lemma chain_splice:
  assumes ch: "chain m p a (xs @ mid @ ys) e"
    and ne: "mid \<noteq> []" "mid' \<noteq> []" and sp: "span mid' = span mid"
    and bnd: "a + span (xs @ mid @ ys) \<le> 2 ^ 32"
    and out: "\<And>x. x < 2 ^ 32 \<Longrightarrow> x < a + span xs \<or> a + span xs + span mid \<le> x \<Longrightarrow>
      m' (of_nat x) = (if ys \<noteq> [] \<and> x = a + span xs + span mid
        then (m (of_nat x))\<lparr>bprev := of_nat (last_addr (last_addr p a xs) (a + span xs) mid')\<rparr>
        else m (of_nat x))"
    and mid: "chain m' (last_addr p a xs) (a + span xs) mid'
      (if ys = [] then e else of_nat (a + span xs + span mid))"
  shows "chain m' p a (xs @ mid' @ ys) e"
proof -
  have m0: "mid @ ys \<noteq> []" "mid' @ ys \<noteq> []" using ne by auto
  have pos: "0 < span mid" using ne(1) by (cases mid) auto
  have "chain m p a xs (of_nat (a + span xs))"
    using ch chain_append [OF m0(1)] by blast
  moreover have "chain m' p a xs (of_nat (a + span xs)) = chain m p a xs (of_nat (a + span xs))"
    using out bnd pos by (intro chain_frame) auto
  ultimately have c1: "chain m' p a xs (of_nat (a + span xs))" by simp
  have c2: "chain m' (last_addr p a xs) (a + span xs) (mid' @ ys) e"
  proof (cases ys)
    case Nil
    with mid show ?thesis by simp
  next
    case (Cons c ys')
    let ?b = "a + span xs + span mid"
    have y0: "ys \<noteq> []" using Cons by simp
    have "chain m (last_addr p a xs) (a + span xs) (mid @ ys) e"
      using ch chain_append [OF m0(1)] by blast
    then have "chain m (last_addr (last_addr p a xs) (a + span xs) mid) ?b (c # ys') e"
      using chain_append [OF y0] Cons by blast
    then have "chain m' (last_addr (last_addr p a xs) (a + span xs) mid') ?b (c # ys') e"
    proof (rule chain_prev_frame)
      show "?b + span (c # ys') \<le> 2 ^ 32" using bnd Cons by simp
      have lt: "?b < 2 ^ 32" using bnd Cons by (cases c) auto
      show "m' (of_nat ?b) = (m (of_nat ?b))\<lparr>bprev :=
          of_nat (last_addr (last_addr p a xs) (a + span xs) mid')\<rparr>"
        using out [OF lt] Cons by simp
      show "\<forall>x. ?b < x \<and> x < ?b + span (c # ys') \<longrightarrow> m' (of_nat x) = m (of_nat x)"
        using out bnd Cons by auto
    qed
    with mid Cons sp chain_append [of "c # ys'" m' "last_addr p a xs" "a + span xs" mid' e]
    show ?thesis by (simp add: add.assoc)
  qed
  show ?thesis using c1 c2 chain_append [OF m0(2)] by blast
qed

end
