(* ===== verification/HeapRefine.thy ===== *)
theory HeapRefine
  imports Heap
begin

unbundle bit_operations_syntax

text \<open>
  The heap's operations refine operations on the list of blocks: \<open>kmalloc\<close> takes the
  first free block that is large enough and splits it, \<open>kfree\<close> marks a block free and
  merges it with its free neighbours.
\<close>

section \<open>Searching\<close>

lemma of_nat_ge_iff: "s < 2 ^ 32 \<Longrightarrow> (of_nat s :: u32) \<ge> n \<longleftrightarrow> unat n \<le> s"
  by (simp add: word_le_nat_alt unat_of_nat_lt)

lemma of_nat_0_iff32: "a < 2 ^ 32 \<Longrightarrow> (of_nat a :: u32) = 0 \<longleftrightarrow> a = 0"
  using of_nat_inj32 [of a 0] by simp

lemma find_free_loop_chain:
  assumes "chain m p a cs 0" "0 < a" "a + span cs \<le> 2 ^ 32"
  shows "find_free_loop m (if cs = [] then 0 else of_nat a) n
    = Some (case find_idx (fits (unat n)) cs of None \<Rightarrow> 0
        | Some i \<Rightarrow> of_nat (a + span (take i cs)))"
  using assms
proof (induction p a cs rule: last_addr.induct)
  case (1 p a)
  then show ?case by (simp add: find_free_loop.simps)
next
  case (2 p a s f cs)
  let ?e = "if cs = [] then 0 else of_nat (a + 20 + s) :: u32"
  have hd: "m (of_nat a) = header s f ?e p" using "2.prems"(1) by simp
  have lt: "a < 2 ^ 32" "s < 2 ^ 32" using "2.prems"(3) by auto
  have nz: "(of_nat a :: u32) \<noteq> 0" using lt "2.prems"(2) of_nat_0_iff32 by blast
  have IH: "find_free_loop m ?e n = Some (case find_idx (fits (unat n)) cs of None \<Rightarrow> 0
      | Some i \<Rightarrow> of_nat (a + 20 + s + span (take i cs)))"
    by (rule "2.IH") (use "2.prems" in auto)
  have fit: "bfree (m (of_nat a)) \<and> bsize (m (of_nat a)) \<ge> n \<and> bmagic (m (of_nat a)) = HEAP_MAGIC
      \<longleftrightarrow> fits (unat n) (s, f)"
    using lt by (simp add: hd header_def fits_def of_nat_ge_iff)
  show ?case
  proof (cases "fits (unat n) (s, f)")
    case True
    then show ?thesis using fit nz by (simp add: find_free_loop.simps)
  next
    case False
    then have "find_free_loop m (of_nat a) n = find_free_loop m ?e n"
      using fit nz by (subst find_free_loop.simps) (simp only: if_False hd header_def block.simps)
    then show ?thesis using False IH
      by (cases "find_idx (fits (unat n)) cs") (simp_all add: add.assoc del: find_idx_None_iff)
  qed
qed

section \<open>Splitting\<close>

lemma chain_head_prev: "chain m p a (c # cs) e \<Longrightarrow> (m (of_nat a))\<lparr>bprev := of_nat p\<rparr> = m (of_nat a)"
  by (cases c) (simp add: header_def)

lemma chain_mid:
  assumes "chain m p a (xs @ (s, f) # ys) e"
  shows "m (of_nat (a + span xs))
      = header s f (if ys = [] then e else of_nat (a + span xs + 20 + s)) (last_addr p a xs)"
    and "chain m (a + span xs) (a + span xs + 20 + s) ys e"
  using assms by (simp_all add: chain_append)

lemma span_a_split [simp]: "n \<le> s \<Longrightarrow> span (a_split n s) = 20 + s"
  by (auto simp: a_split_def)

lemma a_split_ne [simp]: "a_split n s \<noteq> []"
  by (simp add: a_split_def)

lemma set_free_chain:
  assumes ch: "chain m p a (xs @ (s, f) # ys) 0"
    and bnd: "a + span (xs @ (s, f) # ys) \<le> 2 ^ 32"
    and b: "b = of_nat (a + span xs)"
  shows "chain (m(b := (m b)\<lparr>bfree := g\<rparr>)) p a (xs @ [(s, g)] @ ys) 0"
proof (rule chain_splice [where mid = "[(s, f)]" and m = m])
  show "chain m p a (xs @ [(s, f)] @ ys) 0" using ch by simp
  show "a + span (xs @ [(s, f)] @ ys) \<le> 2 ^ 32" using bnd by simp
  fix x :: nat
  assume x: "x < 2 ^ 32" "x < a + span xs \<or> a + span xs + span [(s, f)] \<le> x"
  then have "of_nat x \<noteq> b" using b of_nat_inj32 [of x "a + span xs"] bnd by auto
  moreover have "(m (of_nat x))\<lparr>bprev := of_nat (a + span xs)\<rparr> = m (of_nat x)"
    if "ys \<noteq> []" "x = a + span xs + span [(s, f)]"
    using chain_mid(2) [OF ch] that chain_head_prev [of m "a + span xs"]
    by (cases ys) (auto simp: add.assoc)
  ultimately show "(m(b := (m b)\<lparr>bfree := g\<rparr>)) (of_nat x)
    = (if ys \<noteq> [] \<and> x = a + span xs + span [(s, f)]
       then (m (of_nat x))\<lparr>bprev := of_nat (last_addr (last_addr p a xs) (a + span xs) [(s, g)])\<rparr>
       else m (of_nat x))"
    by auto
next
  show "chain (m(b := (m b)\<lparr>bfree := g\<rparr>)) (last_addr p a xs) (a + span xs) [(s, g)]
    (if ys = [] then 0 else of_nat (a + span xs + span [(s, f)]))"
    using chain_mid(1) [OF ch] b by (auto simp: header_def add.assoc)
qed simp_all

lemma try_split_eq:
  assumes "\<not> bsize (m b) < n + SIZEOF_BLOCK + MIN_SPLIT" "b + SIZEOF_BLOCK + n = nb" "nb \<noteq> b"
    and "bnext (m b) = e" "e \<noteq> 0 \<Longrightarrow> e \<noteq> b \<and> e \<noteq> nb"
  shows "try_split m b n =
    (let m1 = m(nb := \<lparr>bsize = bsize (m b) - n - SIZEOF_BLOCK, bfree = True, bnext = e,
           bprev = b, bmagic = HEAP_MAGIC\<rparr>);
         m2 = (if e = 0 then m1 else m1(e := (m e)\<lparr>bprev := nb\<rparr>))
     in m2(b := (m b)\<lparr>bnext := nb, bsize := n\<rparr>))"
  using assms by (auto simp: try_split_def Let_def)

lemma split_chain:
  assumes ch: "chain m p a (xs @ (s, True) # ys) 0"
    and bnd: "a + span (xs @ (s, True) # ys) \<le> 2 ^ 32"
    and b: "b = of_nat (a + span xs)" and n: "n + 36 \<le> s" and sp: "span [(s, True)] \<le> 2 ^ 31"
  defines "m2 \<equiv> try_split m b (of_nat n)"
  shows "chain (m2(b := (m2 b)\<lparr>bfree := False\<rparr>)) p a (xs @ [(n, False), (s - n - 20, True)] @ ys) 0"
proof (rule chain_splice [where mid = "[(s, True)]" and m = m])
  let ?A = "a + span xs" and ?Y = "a + span xs + 20 + s"
  let ?nb = "of_nat (?A + 20 + n) :: u32"
  let ?e = "if ys = [] then 0 else of_nat ?Y :: u32"
  show "chain m p a (xs @ [(s, True)] @ ys) 0" using ch by simp
  show "a + span (xs @ [(s, True)] @ ys) \<le> 2 ^ 32" using bnd by simp
  have mb: "m b = header s True ?e (last_addr p a xs)" using chain_mid(1) [OF ch] b by simp
  have lt: "?Y + span ys \<le> 2 ^ 32" "s < 2 ^ 32" "?Y \<le> 2 ^ 32" using bnd by auto
  have ys: "ys \<noteq> [] \<Longrightarrow> ?Y < 2 ^ 32" using lt by (cases ys) auto
  have e0: "?e = 0 \<longleftrightarrow> ys = []" using ys of_nat_0_iff32 [of ?Y] by auto
  have nbA: "?nb \<noteq> b" using b n lt of_nat_inj32 [of "?A + 20 + n" ?A] by auto
  have nbY: "ys \<noteq> [] \<Longrightarrow> ?nb \<noteq> of_nat ?Y" using n ys of_nat_inj32 [of "?A + 20 + n" ?Y] by auto
  have YA: "ys \<noteq> [] \<Longrightarrow> of_nat ?Y \<noteq> b" using b ys of_nat_inj32 [of ?Y ?A] by auto
  have un: "unat (of_nat n :: u32) = n" "unat (of_nat n + 36 :: u32) = n + 36"
    using n sp unat_of_nat32 [of n] unat_of_nat32 [of "n + 36"] by simp_all
  have "\<not> bsize (m b) < of_nat n + SIZEOF_BLOCK + MIN_SPLIT"
    using un n lt by (simp add: mb header_def SIZEOF_BLOCK_def MIN_SPLIT_def word_less_nat_alt unat_of_nat_lt add.assoc)
  moreover have nb: "b + SIZEOF_BLOCK + of_nat n = ?nb" by (simp add: b SIZEOF_BLOCK_def)
  moreover have sz: "bsize (m b) - of_nat n - SIZEOF_BLOCK = of_nat (s - n - 20)"
    using n by (simp add: mb header_def SIZEOF_BLOCK_def of_nat_diff)
  ultimately have "m2 = (let m1 = m(?nb := \<lparr>bsize = of_nat (s - n - 20), bfree = True, bnext = ?e,
           bprev = b, bmagic = HEAP_MAGIC\<rparr>);
         m2 = (if ?e = 0 then m1 else m1(?e := (m ?e)\<lparr>bprev := ?nb\<rparr>))
     in m2(b := (m b)\<lparr>bnext := ?nb, bsize := of_nat n\<rparr>))"
    unfolding m2_def sz [symmetric]
    by (intro try_split_eq) (use nbA nbY YA in \<open>auto simp: mb header_def\<close>)
  then have m2: "m2 = (let m1 = m(?nb := header (s - n - 20) True ?e ?A);
      m' = (if ys = [] then m1 else m1(of_nat ?Y := (m (of_nat ?Y))\<lparr>bprev := ?nb\<rparr>))
      in m'(b := (m b)\<lparr>bnext := ?nb, bsize := of_nat n\<rparr>))"
    unfolding e0 header_def b by (cases "ys = []") (simp_all only: if_True if_False refl simp_thms)
  {
    fix x :: nat
    assume x: "x < 2 ^ 32" "x < ?A \<or> ?A + span [(s, True)] \<le> x"
    have "of_nat x \<noteq> b" "of_nat x \<noteq> ?nb"
      using b x n lt of_nat_inj32 [of x ?A] of_nat_inj32 [of x "?A + 20 + n"] by auto
    moreover have "ys \<noteq> [] \<Longrightarrow> of_nat x = (of_nat ?Y :: u32) \<longleftrightarrow> x = ?Y"
      using ys x of_nat_inj32 by blast
    ultimately show "(m2(b := (m2 b)\<lparr>bfree := False\<rparr>)) (of_nat x)
      = (if ys \<noteq> [] \<and> x = ?A + span [(s, True)]
         then (m (of_nat x))\<lparr>bprev := of_nat (last_addr (last_addr p a xs) ?A [(n, False), (s - n - 20, True)])\<rparr>
         else m (of_nat x))"
      by (auto simp: m2 Let_def add.assoc)
  }
  have "m2 b = header n True ?nb (last_addr p a xs)" by (simp add: m2 Let_def mb header_def)
  moreover have "m2 ?nb = header (s - n - 20) True ?e ?A"
    using nbA nbY by (auto simp: m2 Let_def)
  ultimately show "chain (m2(b := (m2 b)\<lparr>bfree := False\<rparr>)) (last_addr p a xs) ?A
      [(n, False), (s - n - 20, True)] (if ys = [] then 0 else of_nat (?A + span [(s, True)]))"
    using nbA b n by (auto simp: header_def add.assoc)
  show "span [(n, False), (s - n - 20, True)] = span [(s, True)]" using n by simp
qed simp_all

lemma try_split_chain:
  assumes ch: "chain m p a (xs @ (s, True) # ys) 0"
    and bnd: "a + span (xs @ (s, True) # ys) \<le> 2 ^ 32"
    and b: "b = of_nat (a + span xs)" and n: "n \<le> s" and sp: "span [(s, True)] \<le> 2 ^ 31"
  defines "m2 \<equiv> try_split m b (of_nat n)"
  shows "chain (m2(b := (m2 b)\<lparr>bfree := False\<rparr>)) p a (xs @ a_split n s @ ys) 0"
    and "bsize (m2 b) = of_nat (fst (hd (a_split n s)))"
proof -
  have mb: "bsize (m b) = of_nat s" using chain_mid(1) [OF ch] b by (simp add: header_def)
  have un: "unat (of_nat n + 36 :: u32) = n + 36" "unat (of_nat s :: u32) = s"
    using n sp unat_of_nat32 [of "n + 36"] unat_of_nat32 [of s] by simp_all
  have small: "bsize (m b) < of_nat n + SIZEOF_BLOCK + MIN_SPLIT \<longleftrightarrow> s < n + 36"
    using un by (simp add: mb SIZEOF_BLOCK_def MIN_SPLIT_def word_less_nat_alt add.assoc)
  show "chain (m2(b := (m2 b)\<lparr>bfree := False\<rparr>)) p a (xs @ a_split n s @ ys) 0"
  proof (cases "s < n + 36")
    case True
    then have "m2 = m" using small by (simp add: m2_def try_split_def)
    with True set_free_chain [OF ch bnd b] show ?thesis by (simp add: a_split_def)
  next
    case False
    with split_chain [OF ch bnd b _ sp, of n] show ?thesis by (simp add: m2_def a_split_def)
  qed
  show "bsize (m2 b) = of_nat (fst (hd (a_split n s)))"
    using small mb by (auto simp: m2_def try_split_def a_split_def Let_def)
qed

section \<open>Allocation\<close>

lemma unat_round8: "unat n + 7 < 2 ^ 32 \<Longrightarrow> unat (round8 n) = (unat n + 7) div 8 * 8"
  using unat_and_not_mask [of 3 "n + 7"]
  by (simp add: round8_def unat_plus_if mask_numerals(1) [symmetric])

lemma span_take_nth: "i < length cs \<Longrightarrow> span cs = span (take i cs) + 20 + fst (cs ! i) + span (drop (Suc i) cs)"
  by (metis add.assoc append_take_drop_id Cons_nth_drop_Suc prod.collapse span.simps(2) span_append)

lemma used_of_take_nth:
  "i < length cs \<Longrightarrow> used_of cs = used_of (take i cs) + (if snd (cs ! i) then 0 else fst (cs ! i))
     + used_of (drop (Suc i) cs)"
  by (metis add.assoc append_take_drop_id Cons_nth_drop_Suc prod.collapse used_of.simps(2) used_of_append)

text \<open>The effect on the list of blocks: first fit, then split.\<close>

definition a_malloc :: "nat \<Rightarrow> chunk list \<Rightarrow> (chunk list \<times> nat) option" where
  "a_malloc n cs = (case find_idx (fits n) cs of None \<Rightarrow> None
     | Some i \<Rightarrow> Some (take i cs @ a_split n (fst (cs ! i)) @ drop (Suc i) cs, span (take i cs) + 20))"

lemma heap_rep_find:
  assumes "heap_rep h cs"
  shows "find_free h n = Some (case find_idx (fits (unat n)) cs of None \<Rightarrow> 0
    | Some i \<Rightarrow> of_nat (unat (heap_start h) + span (take i cs)))"
proof -
  have "0 < unat (heap_start h)" "cs \<noteq> []" using assms by (auto simp: heap_rep_def unat_gt_0)
  with find_free_loop_chain [of "hblk h" 0 "unat (heap_start h)" cs n] assms
  show ?thesis by (simp add: heap_rep_def find_free_def)
qed

lemma kmalloc_fail:
  assumes "heap_rep h cs" "n \<noteq> 0" "a_malloc (unat (round8 n)) cs = None"
  shows "kmalloc h n = Some (h, 0)"
  using assms heap_rep_find [OF assms(1), of "round8 n"]
  by (simp add: kmalloc_def a_malloc_def Let_def del: find_idx_None_iff split: option.splits)

lemma used_a_split: "n \<le> s \<Longrightarrow> used_of (a_split n s) = fst (hd (a_split n s))"
  by (simp add: a_split_def)

lemma kmalloc_refines:
  assumes rep: "heap_rep h cs" and n: "n \<noteq> 0"
    and ok: "a_malloc (unat (round8 n)) cs = Some (cs', off)"
  shows "\<exists>h'. kmalloc h n = Some (h', heap_start h + of_nat off) \<and> heap_rep h' cs'
    \<and> heap_start h' = heap_start h \<and> hmem h' = hmem h"
proof -
  let ?n = "unat (round8 n)" and ?a = "unat (heap_start h)"
  obtain i where i: "find_idx (fits ?n) cs = Some i"
    and cs': "cs' = take i cs @ a_split ?n (fst (cs ! i)) @ drop (Suc i) cs"
    and off: "off = span (take i cs) + 20"
    using ok by (auto simp: a_malloc_def split: option.splits)
  define xs ys s where "xs = take i cs" and "ys = drop (Suc i) cs" and "s = fst (cs ! i)"
  have il: "i < length cs" and fit: "fits ?n (cs ! i)" using find_idx_SomeD [OF i] by auto
  then have cs: "cs = xs @ (s, True) # ys" and le: "?n \<le> s"
    using id_take_nth_drop [OF il] unfolding xs_def ys_def s_def fits_def
    by (cases "cs ! i"; simp)+
  have bnd: "?a + span cs \<le> 2 ^ 32" "span cs \<le> 2 ^ 31" "0 < ?a"
    using rep by (auto simp: heap_rep_def unat_gt_0)
  define b where "b = (of_nat (?a + span xs) :: u32)"
  have b0: "b \<noteq> 0" using bnd cs of_nat_0_iff32 [of "?a + span xs"] by (simp add: b_def)
  have find: "find_free h (round8 n) = Some b"
    using heap_rep_find [OF rep, of "round8 n"] i by (simp add: b_def xs_def)
  have ch: "chain (hblk h) 0 ?a (xs @ (s, True) # ys) 0" using rep cs by (simp add: heap_rep_def)
  have sp: "span [(s, True)] \<le> 2 ^ 31" using bnd cs by simp
  define m1 where "m1 = try_split (hblk h) b (round8 n)"
  have ch1: "chain (m1(b := (m1 b)\<lparr>bfree := False\<rparr>)) 0 ?a (xs @ a_split ?n s @ ys) 0"
    and sz: "bsize (m1 b) = of_nat (fst (hd (a_split ?n s)))"
    using try_split_chain [OF ch _ b_def le sp] bnd cs by (simp_all add: m1_def)
  let ?h' = "h\<lparr>hblk := m1(b := (m1 b)\<lparr>bfree := False\<rparr>), used_bytes := used_bytes h + bsize (m1 b)\<rparr>"
  have "fst (hd (a_split ?n s)) \<le> s" using le by (auto simp: a_split_def)
  then have szle: "unat (bsize (m1 b)) = fst (hd (a_split ?n s))" "fst (hd (a_split ?n s)) \<le> s"
    using sz sp by (auto simp: unat_of_nat32)
  have "used_of cs + s \<le> span cs" using cs span_parts [of xs] span_parts [of ys] by simp
  then have us: "unat (used_bytes h + bsize (m1 b)) = used_of (xs @ a_split ?n s @ ys)"
    using rep szle bnd cs le by (simp add: heap_rep_def unat_plus_if used_a_split)
  have "heap_rep ?h' (xs @ a_split ?n s @ ys)"
    using rep ch1 us le bnd cs by (simp add: heap_rep_def)
  moreover have "kmalloc h n = Some (?h', b + 20)"
    using n b0 find by (simp add: kmalloc_def Let_def SIZEOF_BLOCK_def m1_def)
  moreover have "b + 20 = heap_start h + of_nat off" by (simp add: b_def off xs_def)
  ultimately show ?thesis by (auto simp: cs' xs_def ys_def s_def)
qed

section \<open>Freeing\<close>

lemma merge_next_eq:
  assumes "bnext (m b) = n" "n \<noteq> b" "bfree (m n)" "bmagic (m n) = HEAP_MAGIC" "n \<noteq> 0"
    and "bnext (m n) = e" "e \<noteq> 0 \<Longrightarrow> e \<noteq> b"
  shows "merge_next m b =
    (let m1 = m(b := (m b)\<lparr>bsize := bsize (m b) + (SIZEOF_BLOCK + bsize (m n)), bnext := e\<rparr>)
     in if e = 0 then m1 else m1(e := (m e)\<lparr>bprev := b\<rparr>))"
  using assms by (auto simp: merge_next_def Let_def)

lemma merge_prev_eq:
  assumes "bprev (m b) = p" "p \<noteq> b" "bfree (m p)" "bmagic (m p) = HEAP_MAGIC" "p \<noteq> 0"
    and "bnext (m b) = e" "e \<noteq> 0 \<Longrightarrow> e \<noteq> b \<and> e \<noteq> p"
  shows "merge_prev m b =
    (let m1 = m(p := (m p)\<lparr>bsize := bsize (m p) + (SIZEOF_BLOCK + bsize (m b)), bnext := e\<rparr>)
     in if e = 0 then m1 else m1(e := (m e)\<lparr>bprev := p\<rparr>))"
  using assms by (auto simp: merge_prev_def Let_def)

text \<open>Two adjacent blocks become one: the list effect of either merge.\<close>

lemma join_chain:
  assumes ch: "chain m p a (xs @ (s, f) # (t, g) # ys) 0"
    and bnd: "a + span (xs @ (s, f) # (t, g) # ys) \<le> 2 ^ 32"
    and b: "b = of_nat (a + span xs)"
    and e: "e = (if ys = [] then 0 else of_nat (a + span xs + 20 + s + 20 + t))"
  defines "m1 \<equiv> m(b := (m b)\<lparr>bsize := of_nat s + (SIZEOF_BLOCK + of_nat t), bnext := e\<rparr>)"
  shows "chain (if e = 0 then m1 else m1(e := (m e)\<lparr>bprev := b\<rparr>)) p a (xs @ [(s + 20 + t, f)] @ ys) 0"
proof (rule chain_splice [where mid = "[(s, f), (t, g)]" and m = m])
  let ?A = "a + span xs" and ?Y = "a + span xs + 20 + s + 20 + t"
  let ?m' = "if e = 0 then m1 else m1(e := (m e)\<lparr>bprev := b\<rparr>)"
  show "chain m p a (xs @ [(s, f), (t, g)] @ ys) 0" using ch by simp
  show "a + span (xs @ [(s, f), (t, g)] @ ys) \<le> 2 ^ 32" using bnd by simp
  have ys: "ys \<noteq> [] \<Longrightarrow> ?Y < 2 ^ 32" using bnd by (cases ys) auto
  have e0: "e = 0 \<longleftrightarrow> ys = []" using e ys of_nat_0_iff32 [of ?Y] by auto
  {
    fix x :: nat
    assume x: "x < 2 ^ 32" "x < ?A \<or> ?A + span [(s, f), (t, g)] \<le> x"
    have "of_nat x \<noteq> b" using b x bnd of_nat_inj32 [of x ?A] by auto
    moreover have "ys \<noteq> [] \<Longrightarrow> of_nat x = e \<longleftrightarrow> x = ?Y"
      using e ys x of_nat_inj32 [of x ?Y] by simp
    ultimately show "?m' (of_nat x)
      = (if ys \<noteq> [] \<and> x = ?A + span [(s, f), (t, g)]
         then (m (of_nat x))\<lparr>bprev := of_nat (last_addr (last_addr p a xs) ?A [(s + 20 + t, f)])\<rparr>
         else m (of_nat x))"
      using e0 b by (auto simp: m1_def add.assoc)
  }
  have mb: "m b = header s f (of_nat (?A + 20 + s)) (last_addr p a xs)"
    using chain_mid(1) [OF ch] b by simp
  have "e \<noteq> 0 \<Longrightarrow> e \<noteq> b" using e e0 b ys of_nat_inj32 [of ?Y ?A] bnd by auto
  then have "?m' b = m1 b" by auto
  then have "?m' b = header (s + 20 + t) f e (last_addr p a xs)"
    by (simp add: m1_def mb header_def SIZEOF_BLOCK_def algebra_simps)
  then show "chain ?m' (last_addr p a xs) ?A [(s + 20 + t, f)]
      (if ys = [] then 0 else of_nat (?A + span [(s, f), (t, g)]))"
    using b e by (simp add: add.assoc)
qed simp_all

lemma merge_next_chain:
  assumes ch: "chain m p a (xs @ (s, True) # ys) 0" and a: "0 < a"
    and bnd: "a + span (xs @ (s, True) # ys) \<le> 2 ^ 32"
    and b: "b = of_nat (a + span xs)"
  shows "chain (merge_next m b) p a (xs @ a_merge_next s ys) 0"
proof (cases ys)
  case Nil
  then have "bnext (m b) = 0" using chain_mid(1) [OF ch] b by (simp add: header_def)
  then show ?thesis using ch Nil by (simp add: merge_next_def Let_def)
next
  case (Cons c zs)
  obtain t g where c: "c = (t, g)" by fastforce
  define n where "n = (of_nat (a + span xs + 20 + s) :: u32)"
  define e where "e = (if zs = [] then 0 else of_nat (a + span xs + 20 + s + 20 + t) :: u32)"
  have mn: "m n = header t g e (a + span xs)" and mb: "m b = header s True n (last_addr p a xs)"
    using chain_mid [OF ch] Cons c b by (simp_all add: n_def e_def)
  show ?thesis
  proof (cases g)
    case False
    then show ?thesis using ch Cons c mn mb by (simp add: merge_next_def Let_def header_def)
  next
    case True
    have zs: "zs \<noteq> [] \<Longrightarrow> a + span xs + 20 + s + 20 + t < 2 ^ 32"
      using bnd Cons c by (cases zs) auto
    have "n \<noteq> b" "n \<noteq> 0"
      using b bnd Cons c a of_nat_inj32 [of "a + span xs + 20 + s" "a + span xs"]
        of_nat_0_iff32 [of "a + span xs + 20 + s"] by (auto simp: n_def)
    moreover have "e \<noteq> 0 \<Longrightarrow> e \<noteq> b"
      using zs b bnd of_nat_inj32 [of "a + span xs + 20 + s + 20 + t" "a + span xs"]
      by (auto simp: e_def split: if_splits)
    ultimately have mg: "merge_next m b =
      (let m1 = m(b := (m b)\<lparr>bsize := of_nat s + (SIZEOF_BLOCK + of_nat t), bnext := e\<rparr>)
       in if e = 0 then m1 else m1(e := (m e)\<lparr>bprev := b\<rparr>))"
      using merge_next_eq [of m b n e] mn mb True by (simp add: header_def)
    have ch': "chain m p a (xs @ (s, True) # (t, True) # zs) 0"
      and bnd': "a + span (xs @ (s, True) # (t, True) # zs) \<le> 2 ^ 32"
      using ch bnd Cons c True by simp_all
    have "chain (merge_next m b) p a (xs @ [(s + 20 + t, True)] @ zs) 0"
      unfolding mg Let_def by (rule join_chain [OF ch' bnd' b e_def])
    then show ?thesis using Cons c True by simp
  qed
qed

lemma merge_prev_chain:
  assumes ch: "chain m 0 a (xs @ (s, True) # ys) 0" and a: "0 < a"
    and bnd: "a + span (xs @ (s, True) # ys) \<le> 2 ^ 32"
    and b: "b = of_nat (a + span xs)"
  shows "chain (merge_prev m b) 0 a (a_merge_prev (rev xs) ((s, True) # ys)) 0"
proof (cases "rev xs")
  case Nil
  then have "bprev (m b) = 0" using chain_mid(1) [OF ch] b by (simp add: header_def)
  then show ?thesis using ch Nil by (simp add: merge_prev_def Let_def)
next
  case (Cons c rxs)
  obtain t g where c: "c = (t, g)" by fastforce
  define zs where "zs = rev rxs"
  have xs: "xs = zs @ [(t, g)]" using Cons c by (simp add: zs_def rev_swap)
  have ch': "chain m 0 a (zs @ (t, g) # (s, True) # ys) 0" using ch xs by simp
  define p where "p = (of_nat (a + span zs) :: u32)"
  define e where "e = (if ys = [] then 0 else of_nat (a + span zs + 20 + t + 20 + s) :: u32)"
  have mp: "m p = header t g b (last_addr 0 a zs)" and mb: "m b = header s True e (a + span zs)"
    using chain_mid(1) [OF ch'] chain_mid(1) [OF ch] xs b
    by (simp_all add: p_def e_def add.assoc)
  show ?thesis
  proof (cases g)
    case False
    then show ?thesis using ch Cons c mp mb by (simp add: merge_prev_def Let_def header_def p_def)
  next
    case True
    have ys: "ys \<noteq> [] \<Longrightarrow> a + span zs + 20 + t + 20 + s < 2 ^ 32"
      using bnd xs by (cases ys) auto
    have "p \<noteq> b" "p \<noteq> 0"
      using b bnd xs a of_nat_inj32 [of "a + span zs" "a + span xs"]
        of_nat_0_iff32 [of "a + span zs"] by (auto simp: p_def)
    moreover have "e \<noteq> 0 \<Longrightarrow> e \<noteq> b \<and> e \<noteq> p"
      using ys b bnd xs of_nat_inj32 [of "a + span zs + 20 + t + 20 + s" "a + span zs"]
        of_nat_inj32 [of "a + span zs + 20 + t + 20 + s" "a + span xs"]
      by (auto simp: e_def p_def split: if_splits)
    ultimately have mg: "merge_prev m b =
      (let m1 = m(p := (m p)\<lparr>bsize := of_nat t + (SIZEOF_BLOCK + of_nat s), bnext := e\<rparr>)
       in if e = 0 then m1 else m1(e := (m e)\<lparr>bprev := p\<rparr>))"
      using merge_prev_eq [of m b p e] mp mb True by (simp add: header_def p_def)
    have ch2: "chain m 0 a (zs @ (t, True) # (s, True) # ys) 0"
      and bnd': "a + span (zs @ (t, True) # (s, True) # ys) \<le> 2 ^ 32"
      using ch' bnd xs True by simp_all
    have "chain (merge_prev m b) 0 a (zs @ [(t + 20 + s, True)] @ ys) 0"
      unfolding mg Let_def by (rule join_chain [OF ch2 bnd' p_def e_def])
    then show ?thesis using Cons c True by (simp add: zs_def)
  qed
qed

lemma a_merge_next_cases:
  obtains s1 ys1 where "a_merge_next s ys = (s1, True) # ys1"
    "span ((s1, True) # ys1) = 20 + s + span ys" "used_of ys1 = used_of ys"
  by (cases "(s, ys)" rule: a_merge_next.cases) auto

lemma a_merge_prev_sums:
  "span (a_merge_prev rxs ((s, True) # ys)) = span rxs + 20 + s + span ys"
  "used_of (a_merge_prev rxs ((s, True) # ys)) = used_of rxs + used_of ys"
proof -
  have r: "span (rev zs) = span zs" "used_of (rev zs) = used_of zs" for zs :: "chunk list"
    by (induction zs rule: span.induct) auto
  show "span (a_merge_prev rxs ((s, True) # ys)) = span rxs + 20 + s + span ys"
    "used_of (a_merge_prev rxs ((s, True) # ys)) = used_of rxs + used_of ys"
    by (cases "(rxs, (s, True) # ys)" rule: a_merge_prev.cases; simp add: r)+
qed

lemma span_rev [simp]: "span (rev xs) = span xs" "used_of (rev xs) = used_of xs"
  by (induction xs rule: span.induct) auto

lemma a_free_sums:
  "span (a_free xs s ys) = span (xs @ (s, False) # ys)"
  "used_of (a_free xs s ys) + s = used_of (xs @ (s, False) # ys)"
proof -
  obtain s1 ys1 where m: "a_merge_next s ys = (s1, True) # ys1"
    "span ((s1, True) # ys1) = 20 + s + span ys" "used_of ys1 = used_of ys"
    by (rule a_merge_next_cases)
  then show "span (a_free xs s ys) = span (xs @ (s, False) # ys)"
    "used_of (a_free xs s ys) + s = used_of (xs @ (s, False) # ys)"
    by (simp_all add: a_free_def a_merge_prev_sums)
qed

lemma a_free_ne [simp]: "a_free xs s ys \<noteq> []"
  by (cases "(rev xs, a_merge_next s ys)" rule: a_merge_prev.cases;
      cases "(s, ys)" rule: a_merge_next.cases; simp add: a_free_def)

lemma kfree_refines:
  assumes rep: "heap_rep h (xs @ (s, False) # ys)"
    and ptr: "ptr = heap_start h + of_nat (span xs + 20)"
  shows "heap_rep (kfree h ptr) (a_free xs s ys)" and "heap_start (kfree h ptr) = heap_start h"
    and "hmem (kfree h ptr) = hmem h"
proof -
  let ?a = "unat (heap_start h)" and ?cs = "xs @ (s, False) # ys"
  define b where "b = (of_nat (?a + span xs) :: u32)"
  have bnd: "?a + span ?cs \<le> 2 ^ 32" "0 < ?a" "span ?cs \<le> 2 ^ 31"
    using rep by (auto simp: heap_rep_def unat_gt_0)
  have ch: "chain (hblk h) 0 ?a ?cs 0" using rep by (simp add: heap_rep_def)
  have mb: "bmagic (hblk h b) = HEAP_MAGIC" "\<not> bfree (hblk h b)" "bsize (hblk h b) = of_nat s"
    using chain_mid(1) [OF ch] by (simp_all add: b_def header_def)
  have pb: "ptr - SIZEOF_BLOCK = b" by (simp add: ptr b_def SIZEOF_BLOCK_def)
  have pt: "ptr = of_nat (?a + span xs + 20)" by (simp add: ptr)
  have "?a + span xs + 20 < 2 ^ 32" using rep by (simp add: heap_rep_def)
  then have p0: "ptr \<noteq> 0" by (simp only: pt of_nat_0_iff32)
  define m1 where "m1 = (hblk h)(b := (hblk h b)\<lparr>bfree := True\<rparr>)"
  have c1: "chain m1 0 ?a (xs @ (s, True) # ys) 0"
    using set_free_chain [OF ch bnd(1) b_def, of True] by (simp add: m1_def)
  obtain s1 ys1 where mn: "a_merge_next s ys = (s1, True) # ys1"
    and sp1: "span ((s1, True) # ys1) = 20 + s + span ys"
    by (rule a_merge_next_cases)
  have c2: "chain (merge_next m1 b) 0 ?a (xs @ (s1, True) # ys1) 0"
    using merge_next_chain [OF c1 bnd(2) _ b_def] bnd mn by simp
  have c3: "chain (try_merge m1 b) 0 ?a (a_free xs s ys) 0"
    using merge_prev_chain [OF c2 bnd(2) _ b_def] bnd sp1 by (simp add: try_merge_def a_free_def mn)
  have us: "used_of ?cs = used_of (a_free xs s ys) + s" using a_free_sums(2) by simp
  have "unat (used_bytes h) = used_of ?cs" using rep by (simp add: heap_rep_def)
  moreover have us32: "unat (of_nat s :: u32) = s" using bnd by (intro unat_of_nat32) simp
  ultimately have le: "of_nat s \<le> used_bytes h" and
    sub: "unat (used_bytes h - of_nat s) = used_of (a_free xs s ys)"
    using us by (simp_all add: word_le_nat_alt unat_minus_le)
  have "m1 b = (hblk h b)\<lparr>bfree := True\<rparr>" by (simp add: m1_def)
  then have k: "kfree h ptr = h\<lparr>hblk := try_merge m1 b, used_bytes := used_bytes h - of_nat s\<rparr>"
    using p0 mb le by (simp add: kfree_def Let_def pb m1_def)
  show "heap_rep (kfree h ptr) (a_free xs s ys)"
    using rep c3 sub a_free_sums(1) [of xs s ys] by (simp add: k heap_rep_def)
  show "heap_start (kfree h ptr) = heap_start h" "hmem (kfree h ptr) = hmem h"
    by (simp_all add: k)
qed

end
