(* ===== verification/HeapProps.thy ===== *)
theory HeapProps
  imports HeapRefine
begin

unbundle bit_operations_syntax

text \<open>
  What the heap promises its clients: blocks that are in use are disjoint and inside the
  heap, an allocation adds one block of at least the requested size and moves no other,
  a free removes exactly its block, freeing what was just allocated restores the list of
  blocks, and the byte counters add up. The theory also shows where the size arithmetic
  wraps.
\<close>

text \<open>The payloads in use, as pairs of their first address and their size.\<close>

fun used_blocks :: "nat \<Rightarrow> chunk list \<Rightarrow> (nat \<times> nat) list" where
  "used_blocks a [] = []"
| "used_blocks a ((s, f) # cs) = (if f then [] else [(a + 20, s)]) @ used_blocks (a + 20 + s) cs"

lemma used_blocks_append [simp]:
  "used_blocks a (xs @ ys) = used_blocks a xs @ used_blocks (a + span xs) ys"
  by (induction a xs rule: used_blocks.induct) (auto simp: add.assoc)

lemma used_blocks_bounds:
  "(q, l) \<in> set (used_blocks a cs) \<Longrightarrow> a + 20 \<le> q \<and> q + l \<le> a + span cs"
  by (induction a cs rule: used_blocks.induct) (fastforce split: if_splits)+

text \<open>No two adjacent blocks are both free.\<close>

fun coalesced :: "chunk list \<Rightarrow> bool" where
  "coalesced ((s, f) # (t, g) # cs) \<longleftrightarrow> \<not> (f \<and> g) \<and> coalesced ((t, g) # cs)"
| "coalesced cs = True"

lemma coalesced_Cons:
  "coalesced (c # cs) \<longleftrightarrow> coalesced cs \<and> (cs = [] \<or> \<not> (snd c \<and> snd (hd cs)))"
  by (cases "c # cs" rule: coalesced.cases) auto

lemma coalesced_append:
  "coalesced (xs @ ys) \<longleftrightarrow> coalesced xs \<and> coalesced ys
     \<and> (xs = [] \<or> ys = [] \<or> \<not> (snd (last xs) \<and> snd (hd ys)))"
  by (induction xs) (auto simp: coalesced_Cons)

lemma a_merge_prev_no:
  "xs = [] \<or> \<not> snd (last xs) \<Longrightarrow> a_merge_prev (rev xs) ys = xs @ ys"
  by (cases xs rule: rev_cases; cases "(rev xs, ys)" rule: a_merge_prev.cases) auto

lemma a_merge_next_coalesced:
  assumes "coalesced ys"
  obtains s1 ys1 where "a_merge_next s ys = (s1, True) # ys1" "coalesced ((s1, True) # ys1)"
  using assms
  by (cases "(s, ys)" rule: a_merge_next.cases) (auto simp: coalesced_Cons split: if_splits)

lemma a_free_coalesced:
  assumes "coalesced (xs @ (s, False) # ys)"
  shows "coalesced (a_free xs s ys)"
proof -
  have "coalesced ys" "coalesced xs" using assms by (auto simp: coalesced_append coalesced_Cons)
  from a_merge_next_coalesced [OF this(1), of s] obtain s1 ys1
    where m: "a_merge_next s ys = (s1, True) # ys1" "coalesced ((s1, True) # ys1)" .
  show ?thesis
  proof (cases "xs = [] \<or> \<not> snd (last xs)")
    case True
    with m \<open>coalesced xs\<close> show ?thesis
      by (auto simp: a_free_def a_merge_prev_no coalesced_append)
  next
    case False
    then obtain zs t where xs: "xs = zs @ [(t, True)]"
      by (cases xs rule: rev_cases) auto
    with m \<open>coalesced xs\<close> show ?thesis
      by (auto simp: a_free_def coalesced_append coalesced_Cons)
  qed
qed

lemma a_malloc_decomp:
  assumes "a_malloc n cs = Some (cs', off)"
  obtains xs s ys where "cs = xs @ (s, True) # ys" "n \<le> s" "cs' = xs @ a_split n s @ ys"
    "off = span xs + 20" "\<forall>c \<in> set xs. \<not> fits n c"
proof -
  obtain i where i: "find_idx (fits n) cs = Some i"
    and cs': "cs' = take i cs @ a_split n (fst (cs ! i)) @ drop (Suc i) cs"
    and off: "off = span (take i cs) + 20"
    using assms by (auto simp: a_malloc_def split: option.splits)
  note f = find_idx_SomeD [OF i]
  have "\<forall>c \<in> set (take i cs). \<not> fits n c"
  proof
    fix c assume "c \<in> set (take i cs)"
    then obtain j where "j < i" "c = cs ! j" by (auto simp: in_set_conv_nth)
    with f show "\<not> fits n c" by blast
  qed
  moreover have "cs ! i = (fst (cs ! i), True)" "n \<le> fst (cs ! i)"
    using f by (auto simp: fits_def prod_eq_iff)
  ultimately show ?thesis using that id_take_nth_drop [of i cs] f cs' off by metis
qed

lemma a_split_hd: "a_split n s = (fst (hd (a_split n s)), False) # tl (a_split n s)"
  by (simp add: a_split_def)

lemma a_malloc_coalesced:
  assumes "coalesced cs" "a_malloc n cs = Some (cs', off)"
  shows "coalesced cs'"
proof -
  obtain xs s ys where d: "cs = xs @ (s, True) # ys" "cs' = xs @ a_split n s @ ys"
    using a_malloc_decomp [OF assms(2)] by metis
  with assms(1) show ?thesis by (auto simp: coalesced_append coalesced_Cons a_split_def)
qed

lemma a_free_malloc:
  assumes "coalesced cs" "a_malloc n cs = Some (cs', off)"
  obtains xs s ys where "cs' = xs @ (s, False) # ys" "off = span xs + 20" "n \<le> s" "a_free xs s ys = cs"
proof -
  obtain xs s ys where d: "cs = xs @ (s, True) # ys" "n \<le> s" "cs' = xs @ a_split n s @ ys"
    "off = span xs + 20"
    using a_malloc_decomp [OF assms(2)] by metis
  have nx: "xs = [] \<or> \<not> snd (last xs)" and ny: "ys = [] \<or> \<not> snd (hd ys)"
    using assms(1) d(1) by (auto simp: coalesced_append coalesced_Cons)
  show ?thesis
  proof (cases "s < n + 36")
    case True
    have "a_merge_next s ys = (s, True) # ys"
      using ny by (cases "(s, ys)" rule: a_merge_next.cases) auto
    then have "a_free xs s ys = cs" using nx d(1) by (simp add: a_free_def a_merge_prev_no)
    with True d that show ?thesis by (simp add: a_split_def)
  next
    case False
    have "a_free xs n ((s - n - 20, True) # ys) = cs"
      using nx d(1) False by (simp add: a_free_def a_merge_prev_no)
    with False d that show ?thesis by (simp add: a_split_def)
  qed
qed

lemma heap_free_loop_chain:
  assumes "chain m p a cs 0" "0 < a" "a + span cs \<le> 2 ^ 32" "unat f + free_of cs < 2 ^ 32"
  shows "heap_free_loop m (if cs = [] then 0 else of_nat a) f = Some (f + of_nat (free_of cs))"
  using assms
proof (induction p a cs arbitrary: f rule: last_addr.induct)
  case (1 p a)
  then show ?case by (simp add: heap_free_loop.simps)
next
  case (2 p a s g cs)
  let ?e = "if cs = [] then 0 else of_nat (a + 20 + s) :: u32"
  have hd: "m (of_nat a) = header s g ?e p" using "2.prems"(1) by simp
  have nz: "(of_nat a :: u32) \<noteq> 0" using "2.prems"(2,3) of_nat_0_iff32 [of a] by simp
  have s: "unat (of_nat s :: u32) = s" using "2.prems"(3) by (intro unat_of_nat32) simp
  have IH: "heap_free_loop m ?e (if g then f + of_nat s else f)
      = Some ((if g then f + of_nat s else f) + of_nat (free_of cs))"
    by (rule "2.IH") (use "2.prems" s in \<open>auto simp: unat_plus_if\<close>)
  have "heap_free_loop m (of_nat a) f = heap_free_loop m ?e (if g then f + of_nat s else f)"
    using nz by (subst heap_free_loop.simps) (simp only: hd header_def block.simps if_False)
  with IH show ?case by simp
qed

lemma heap_rep_sums: "heap_rep h cs \<Longrightarrow> unat (heap_sz h) = unat (heap_used h) + free_of cs + 20 * length cs"
  using span_parts [of cs] by (simp add: heap_rep_def heap_used_def)

lemma heap_free_rep:
  assumes "heap_rep h cs"
  shows "heap_free h = Some (of_nat (free_of cs))"
proof -
  have "0 < unat (heap_start h)" "cs \<noteq> []" "free_of cs < 2 ^ 32"
    using assms span_parts [of cs] by (auto simp: heap_rep_def unat_gt_0)
  with heap_free_loop_chain [of "hblk h" 0 "unat (heap_start h)" cs 0] assms
  show ?thesis by (simp add: heap_rep_def heap_free_def)
qed

lemma heap_init_rep:
  assumes "start \<noteq> 0" "20 \<le> unat sz" "unat start + unat sz < 2 ^ 32" "unat sz \<le> 2 ^ 31"
  shows "heap_rep (heap_init h start sz) [(unat sz - 20, True)]"
  using assms
  by (simp add: heap_rep_def heap_init_def header_def SIZEOF_BLOCK_def of_nat_diff)

lemma round8_ge: "unat n + 7 < 2 ^ 32 \<Longrightarrow> unat n \<le> unat (round8 n)"
  using unat_round8 [of n] div_mult_mod_eq [of "unat n + 7" 8] mod_less_divisor [of 8 "unat n + 7"] by linarith

text \<open>The payload added by an allocation: everything else in use keeps its place.\<close>

lemma a_malloc_blocks:
  assumes "a_malloc n cs = Some (cs', off)"
  shows "\<exists>k \<ge> n. set (used_blocks a cs') = insert (a + off, k) (set (used_blocks a cs))
    \<and> (\<forall>(q, l) \<in> set (used_blocks a cs). q + l + 20 \<le> a + off \<or> a + off + k + 20 \<le> q)
    \<and> off + k \<le> span cs \<and> 20 \<le> off"
proof -
  obtain xs s ys where d: "cs = xs @ (s, True) # ys" "n \<le> s" "cs' = xs @ a_split n s @ ys"
    "off = span xs + 20"
    using a_malloc_decomp [OF assms] by metis
  let ?k = "if s < n + 36 then s else n"
  have "used_blocks (a + span xs) (a_split n s) = [(a + off, ?k)]"
    using d by (simp add: a_split_def)
  moreover have "span (a_split n s) = 20 + s" using d by (simp add: a_split_def)
  ultimately have "set (used_blocks a cs') = insert (a + off, ?k) (set (used_blocks a cs))"
    using d by (simp add: add.assoc)
  moreover have "\<forall>(q, l) \<in> set (used_blocks a cs). q + l + 20 \<le> a + off \<or> a + off + ?k + 20 \<le> q"
  proof (rule ballI, clarify)
    fix q l
    assume "(q, l) \<in> set (used_blocks a cs)" "\<not> a + off + ?k + 20 \<le> q"
    then show "q + l + 20 \<le> a + off"
      using d used_blocks_bounds [of q l a xs] used_blocks_bounds [of q l "a + span xs + 20 + s" ys]
      by (auto split: if_splits)
  qed
  moreover have "off + ?k \<le> span cs" "20 \<le> off" "n \<le> ?k" using d by auto
  ultimately show ?thesis by blast
qed

lemma used_block_decomp:
  "(q, k) \<in> set (used_blocks a cs) \<Longrightarrow> \<exists>xs ys. cs = xs @ (k, False) # ys \<and> q = a + span xs + 20"
proof (induction a cs rule: used_blocks.induct)
  case (2 a s f cs)
  show ?case
  proof (cases "\<not> f \<and> (q, k) = (a + 20, s)")
    case True
    then show ?thesis by (intro exI [of _ "[]"] exI [of _ cs]) simp
  next
    case False
    with 2 obtain xs ys where "cs = xs @ (k, False) # ys" "q = a + 20 + s + span xs + 20"
      by (auto split: if_splits)
    then show ?thesis by (intro exI [of _ "(s, f) # xs"] exI [of _ ys]) simp
  qed
qed simp

lemma used_blocks_merge_next:
  "used_blocks a (a_merge_next s ys) = used_blocks (a + 20 + s) ys"
  by (cases "(s, ys)" rule: a_merge_next.cases) (auto simp: ac_simps)

lemma span_merge_next: "span (a_merge_next s ys) = 20 + s + span ys"
  by (cases "(s, ys)" rule: a_merge_next.cases) auto

lemma used_blocks_a_free:
  assumes "cs = xs @ (k, False) # ys"
  shows "set (used_blocks a (a_free xs k ys)) = set (used_blocks a cs) - {(a + span xs + 20, k)}"
proof -
  let ?q = "a + span xs + 20"
  obtain s1 ys1 where m: "a_merge_next k ys = (s1, True) # ys1"
    by (cases "(k, ys)" rule: a_merge_next.cases) auto
  have eq: "used_blocks (b + 20 + s1) ys1 = used_blocks (b + 20 + k) ys" for b
    using used_blocks_merge_next [of b k ys] m by simp
  have eq': "used_blocks (b + (20 + s1)) ys1 = used_blocks (b + (20 + k)) ys" for b
    using eq [of b] by (simp add: add.assoc)
  have free: "used_blocks a (a_free xs k ys) = used_blocks a xs @ used_blocks (?q + k) ys"
  proof (cases "xs = [] \<or> \<not> snd (last xs)")
    case True
    with m eq [of "a + span xs"] show ?thesis by (simp add: a_free_def a_merge_prev_no)
  next
    case False
    then obtain zs t where xs: "xs = zs @ [(t, True)]"
      by (cases xs rule: rev_cases) auto
    with m eq [of "a + span zs + 20 + t"] show ?thesis by (simp add: a_free_def ac_simps)
  qed
  have "(?q, k) \<notin> set (used_blocks a xs)" "(?q, k) \<notin> set (used_blocks (?q + k) ys)"
    using used_blocks_bounds [of ?q k a xs] used_blocks_bounds [of ?q k "?q + k" ys] by auto
  with free assms show ?thesis by auto
qed

lemma kmalloc_block:
  assumes rep: "heap_rep h cs" and co: "coalesced cs" and n: "n \<noteq> 0" "unat n + 7 < 2 ^ 32"
  shows "(\<forall>c \<in> set cs. \<not> fits (unat (round8 n)) c) \<and> kmalloc h n = Some (h, 0)
    \<or> (\<exists>h' p k cs'. kmalloc h n = Some (h', p) \<and> p \<noteq> 0 \<and> heap_rep h' cs' \<and> coalesced cs'
        \<and> unat n \<le> k \<and> unat (heap_start h) + 20 \<le> unat p
        \<and> unat p + k \<le> unat (heap_start h) + unat (heap_sz h)
        \<and> set (used_blocks (unat (heap_start h)) cs')
            = insert (unat p, k) (set (used_blocks (unat (heap_start h)) cs))
        \<and> (\<forall>(q, l) \<in> set (used_blocks (unat (heap_start h)) cs).
             q + l + 20 \<le> unat p \<or> unat p + k + 20 \<le> q))"
proof (cases "a_malloc (unat (round8 n)) cs")
  case None
  then have "\<forall>c \<in> set cs. \<not> fits (unat (round8 n)) c"
    by (simp add: a_malloc_def find_idx_None_iff split: option.splits)
  with kmalloc_fail [OF rep n(1) None] show ?thesis by blast
next
  case (Some r)
  obtain cs' off where r: "a_malloc (unat (round8 n)) cs = Some (cs', off)" using Some by (cases r) auto
  obtain h' where h': "kmalloc h n = Some (h', heap_start h + of_nat off)" "heap_rep h' cs'"
    using kmalloc_refines [OF rep n(1) r] by blast
  obtain k where k: "unat (round8 n) \<le> k" "off + k \<le> span cs" "20 \<le> off"
    "set (used_blocks (unat (heap_start h)) cs')
       = insert (unat (heap_start h) + off, k) (set (used_blocks (unat (heap_start h)) cs))"
    "\<forall>(q, l) \<in> set (used_blocks (unat (heap_start h)) cs).
       q + l + 20 \<le> unat (heap_start h) + off \<or> unat (heap_start h) + off + k + 20 \<le> q"
    using a_malloc_blocks [OF r, of "unat (heap_start h)"] by blast
  have bnd: "unat (heap_start h) + span cs < 2 ^ 32" "unat (heap_sz h) = span cs"
    using rep by (auto simp: heap_rep_def)
  then have p: "unat (heap_start h + of_nat off) = unat (heap_start h) + off"
    using k(2) by (simp add: unat_plus_if unat_of_nat32)
  then have "heap_start h + of_nat off \<noteq> 0" using k(3) by (auto simp: word_eq_unat)
  with h' k p bnd round8_ge [OF n(2)] a_malloc_coalesced [OF co r] show ?thesis
    by (intro disjI2 exI [of _ h'] exI [of _ "heap_start h + of_nat off"] exI [of _ k] exI [of _ cs'])
       simp
qed

section \<open>Properties\<close>


text \<open>A heap of 4096 bytes at address 65536, used by the witnesses below.\<close>

definition demo_heap :: heap where
  "demo_heap = heap_init \<lparr>hblk = (\<lambda>_. \<lparr>bsize = 0, bfree = False, bnext = 0, bprev = 0, bmagic = 0\<rparr>),
     hmem = (\<lambda>_. 0), heap_head = 0, heap_start = 0, heap_sz = 0, used_bytes = 0\<rparr> 65536 4096"

lemma demo_heap_rep: "heap_rep demo_heap [(4076, True)]"
  using heap_init_rep [of 65536 4096] by (simp add: demo_heap_def)

lemma round8_100: "unat (round8 100) = 104"
  by (simp add: unat_round8)


text \<open>
  C11: \<^verbatim>\<open>kfree\<close> of a payload in use removes exactly that payload: the heap stays well
  formed and coalesced, and every other payload in use keeps its address and size.
\<close>

theorem kfree_correct:
  assumes rep: "heap_rep h cs" and co: "coalesced cs"
    and p: "(unat p, k) \<in> set (used_blocks (unat (heap_start h)) cs)"
  shows "\<exists>cs'. heap_rep (kfree h p) cs' \<and> coalesced cs'
    \<and> set (used_blocks (unat (heap_start h)) cs')
        = set (used_blocks (unat (heap_start h)) cs) - {(unat p, k)}"
proof -
  obtain xs ys where d: "cs = xs @ (k, False) # ys" and off: "unat p = unat (heap_start h) + span xs + 20"
    using used_block_decomp [OF p] by blast
  have "p = heap_start h + of_nat (span xs + 20)"
    using off unat_lt32 [of p] by (simp add: word_eq_unat unat_plus_if unat_of_nat32)
  from kfree_refines(1) [OF rep [unfolded d] this] a_free_coalesced [OF co [unfolded d]]
    used_blocks_a_free [OF d, of "unat (heap_start h)"] off d
  show ?thesis by (intro exI [of _ "a_free xs k ys"]) simp
qed

text \<open>The demonstration heap after one allocation of 104 bytes.\<close>

lemma demo_used:
  "\<exists>h'. kmalloc demo_heap 100 = Some (h', 65556) \<and> heap_rep h' [(104, False), (3952, True)]
    \<and> heap_start h' = 65536"
proof -
  have "a_malloc (unat (round8 100)) [(4076, True)] = Some ([(104, False), (3952, True)], 20)"
    by (simp add: a_malloc_def round8_100 fits_def a_split_def)
  from kmalloc_refines [OF demo_heap_rep _ this] show ?thesis
    by (auto simp: demo_heap_def heap_init_def)
qed

theorem kfree_correct_witness:
  "\<exists>h' cs'. kmalloc demo_heap 100 = Some (h', 65556) \<and> heap_rep (kfree h' 65556) cs'
    \<and> used_blocks 65536 cs' = []"
proof -
  obtain h' where h: "kmalloc demo_heap 100 = Some (h', 65556)"
    "heap_rep h' [(104, False), (3952, True)]" "heap_start h' = 65536"
    using demo_used by blast
  from kfree_correct [OF h(2), of 65556 104] h show ?thesis by auto
qed

lemma kfree_undoes_kmalloc:
  assumes "heap_rep h cs" "coalesced cs" "n \<noteq> 0" "kmalloc h n = Some (h', p)" "p \<noteq> 0"
  shows "heap_rep (kfree h' p) cs"
proof (cases "a_malloc (unat (round8 n)) cs")
  case None
  with kmalloc_fail assms show ?thesis by fastforce
next
  case (Some r)
  then obtain cs' off where r: "a_malloc (unat (round8 n)) cs = Some (cs', off)" by (cases r) auto
  then have h': "heap_rep h' cs'" "heap_start h' = heap_start h" "p = heap_start h + of_nat off"
    using kmalloc_refines [OF assms(1,3) r] assms(4) by auto
  obtain xs s ys where d: "cs' = xs @ (s, False) # ys" "off = span xs + 20" "a_free xs s ys = cs"
    by (rule a_free_malloc [OF assms(2) r])
  from kfree_refines(1) [OF h'(1) [unfolded d(1)], of p] h' d show ?thesis by simp
qed

text \<open>
  Freeing what was just allocated restores the list of blocks: no fragmentation and no
  leak, also when the allocation split a block.
\<close>

theorem kmalloc_kfree_restores:
  assumes "heap_rep h cs" "coalesced cs" "n \<noteq> 0" "kmalloc h n = Some (h', p)" "p \<noteq> 0"
  shows "heap_rep (kfree h' p) cs"
  using kfree_undoes_kmalloc [OF assms] .

theorem kmalloc_kfree_restores_witness:
  "\<exists>h'. kmalloc demo_heap 100 = Some (h', 65556) \<and> heap_rep (kfree h' 65556) [(4076, True)]"
proof -
  obtain h' where h: "kmalloc demo_heap 100 = Some (h', 65556)" using demo_used by blast
  from kmalloc_kfree_restores [OF demo_heap_rep _ _ h] h show ?thesis by simp
qed

text \<open>
  The counters add up: used bytes, free bytes and the headers are the whole heap.
\<close>

theorem heap_accounting:
  assumes "heap_rep h cs"
  shows "\<exists>f. heap_free h = Some f
    \<and> unat (heap_used h) + unat f + 20 * length cs = unat (heap_total h)"
proof -
  have "free_of cs < 2 ^ 32"
    using assms span_parts [of cs] by (simp add: heap_rep_def)
  with heap_free_rep [OF assms] heap_rep_sums [OF assms] show ?thesis
    by (simp add: unat_of_nat32 heap_total_def)
qed

theorem heap_accounting_witness:
  "\<exists>f. heap_free demo_heap = Some f \<and> unat (heap_used demo_heap) + unat f + 20 = 4096"
  using heap_accounting [OF demo_heap_rep] by (simp add: demo_heap_def heap_init_def heap_total_def)

text \<open>
  C23: a request of more than \<open>2 ^ 32 - 8\<close> bytes rounds up to zero, so \<^verbatim>\<open>kmalloc\<close> returns
  the first free block, however small, instead of the null pointer.
\<close>

theorem kmalloc_huge_request_succeeds:
  assumes "heap_rep h cs" "2 ^ 32 \<le> unat n + 7" "\<exists>c \<in> set cs. snd c"
  shows "round8 n = 0 \<and> (\<exists>h' p. kmalloc h n = Some (h', p) \<and> p \<noteq> 0)"
proof -
  have "(unat n + 7) mod 2 ^ 32 = unat n + 7 - 2 ^ 32"
    using assms(2) unat_lt32 [of n] by (simp add: mod_if)
  then have "unat (n + 7) < 8" using unat_lt32 [of n] by (simp add: unat_word_ariths)
  then have r: "round8 n = 0"
    using unat_and_not_mask [of 3 "n + 7"]
    by (simp add: round8_def mask_numerals(1) [symmetric] unat_eq_0)
  have n0: "n \<noteq> 0" using assms(2) by auto
  have "find_idx (fits 0) cs \<noteq> None" using assms(3) by (auto simp: fits_def find_idx_None_iff)
  then obtain i where "find_idx (fits 0) cs = Some i" by blast
  then obtain cs' off where a: "a_malloc (unat (round8 n)) cs = Some (cs', off)"
    using r by (simp add: a_malloc_def)
  have "off \<le> span cs" "20 \<le> off" using a_malloc_blocks [OF a, of 0] by auto
  then have "unat (heap_start h + of_nat off) = unat (heap_start h) + off"
    using assms(1) by (simp add: heap_rep_def unat_plus_if unat_of_nat32)
  then have "heap_start h + of_nat off \<noteq> 0" using \<open>20 \<le> off\<close> by (auto simp: word_eq_unat)
  with kmalloc_refines [OF assms(1) n0 a] r show ?thesis by blast
qed

theorem kmalloc_huge_request_succeeds_witness:
  "\<exists>h' p. kmalloc demo_heap 0xFFFFFFFF = Some (h', p) \<and> p \<noteq> 0"
  using kmalloc_huge_request_succeeds [OF demo_heap_rep, where n = "0xFFFFFFFF"] by simp

end
