(* ===== verification/EnvVars.thy ===== *)
theory EnvVars
  imports KString Interfaces
begin

text \<open>
  Environment variables (\<^verbatim>\<open>kernel/env_vars.h\<close>, \<^verbatim>\<open>kernel/env_vars.cpp\<close>): a table of
  pointers to the key and the value, over the byte store of \<open>KString\<close>. As long as the
  strings the pointers name stay as they are, the table is a keyed store; the last
  section shows what happens when the caller reuses the buffer the pointers name.
\<close>

definition ENV_VAR_MAX :: nat where "ENV_VAR_MAX = 32"

record env_var =
  ekey :: u32
  evalue :: u32

record env =
  env_vars :: "env_var list"
  env_count :: u32

section \<open>Operations\<close>

text \<open>
  \<^verbatim>\<open>for (i = 0; i < env_count; i++) if (kstrcmp(env_vars[i].key, key) == 0)\<close>: the index the
  loop stops at, \<open>Some None\<close> when it falls through, \<open>None\<close> when a comparison never ends.
\<close>

fun env_find :: "mem \<Rightarrow> u32 \<Rightarrow> env_var list \<Rightarrow> nat option option" where
  "env_find m key [] = Some None"
| "env_find m key (v # vs) = (case kstrcmp m (ekey v) key of
     None \<Rightarrow> None
   | Some r \<Rightarrow> if r = 0 then Some (Some 0) else map_option (map_option Suc) (env_find m key vs))"

definition env_entries :: "env \<Rightarrow> env_var list" where
  "env_entries e = take (unat (env_count e)) (env_vars e)"

definition env_get :: "mem \<Rightarrow> u32 \<Rightarrow> env \<Rightarrow> u32 option" where
  "env_get m key e = (case env_find m key (env_entries e) of
     None \<Rightarrow> None
   | Some (Some i) \<Rightarrow> Some (evalue (env_vars e ! i))
   | Some None \<Rightarrow> Some 0)"

text \<open>No test keeps \<^verbatim>\<open>env_count\<close> inside the table.\<close>

definition env_set :: "mem \<Rightarrow> u32 \<Rightarrow> u32 \<Rightarrow> env \<Rightarrow> (fault + env) option" where
  "env_set m key value e = (case env_find m key (env_entries e) of
     None \<Rightarrow> None
   | Some (Some i) \<Rightarrow>
       Some (Inr (e\<lparr>env_vars := (env_vars e)[i := (env_vars e ! i)\<lparr>evalue := value\<rparr>]\<rparr>))
   | Some None \<Rightarrow>
       if unat (env_count e) \<ge> ENV_VAR_MAX then Some (Inl OutOfBounds)
       else Some (Inr (e\<lparr>env_vars := (env_vars e)[unat (env_count e) := \<lparr>ekey = key, evalue = value\<rparr>],
                        env_count := env_count e + 1\<rparr>)))"

definition env_unset :: "mem \<Rightarrow> u32 \<Rightarrow> env \<Rightarrow> env option" where
  "env_unset m key e = (case env_find m key (env_entries e) of
     None \<Rightarrow> None
   | Some (Some i) \<Rightarrow> Some (e\<lparr>env_vars := (env_vars e)[i := (env_vars e ! i)\<lparr>evalue := 0\<rparr>]\<rparr>)
   | Some None \<Rightarrow> Some e)"

section \<open>The names in the table\<close>

definition env_names :: "mem \<Rightarrow> env \<Rightarrow> bytes list \<Rightarrow> bool" where
  "env_names m e ks \<longleftrightarrow> length (env_vars e) = ENV_VAR_MAX \<and> unat (env_count e) = length ks
     \<and> length ks \<le> ENV_VAR_MAX \<and> distinct ks
     \<and> list_all2 (\<lambda>v k. cstr_at m (ekey v) k) (env_entries e) ks"

lemma cstr_no_zero: "cstr_at m p s \<Longrightarrow> 0 \<notin> set s"
  by (simp add: cstr_at_def)

lemma env_find_names:
  assumes "list_all2 (\<lambda>v k. cstr_at m (ekey v) k) vs ks" "cstr_at m p s"
  shows "env_find m p vs = Some (find_idx (\<lambda>k. k = s) ks)"
  using assms(1)
proof (induction rule: list_all2_induct)
  case Nil
  then show ?case by simp
next
  case (Cons v vs k ks)
  have "str_cmp k s = 0 \<longleftrightarrow> k = s"
    using Cons.hyps(1) assms(2) by (intro str_cmp_0_iff) (auto dest: cstr_no_zero)
  with Cons kstrcmp_cstr [OF Cons.hyps(1) assms(2)] show ?case by auto
qed

lemma env_names_find:
  "env_names m e ks \<Longrightarrow> cstr_at m p s \<Longrightarrow> env_find m p (env_entries e) = Some (find_idx (\<lambda>k. k = s) ks)"
  by (rule env_find_names) (simp add: env_names_def)

lemma env_entries_update:
  "i < unat (env_count e) \<Longrightarrow> env_entries (e\<lparr>env_vars := (env_vars e)[i := v]\<rparr>) = (env_entries e)[i := v]"
  by (simp add: env_entries_def take_update_swap)

lemma env_entries_nth: "i < unat (env_count e) \<Longrightarrow> env_entries e ! i = env_vars e ! i"
  by (simp add: env_entries_def)

lemma env_names_update:
  assumes "env_names m e ks" "i < length ks" "ekey v = ekey (env_vars e ! i)"
  shows "env_names m (e\<lparr>env_vars := (env_vars e)[i := v]\<rparr>) ks"
proof -
  have "i < unat (env_count e)" using assms by (simp add: env_names_def)
  with assms env_entries_update [OF this] env_entries_nth [OF this] show ?thesis
    by (auto simp: env_names_def list_all2_conv_all_nth nth_list_update)
qed

definition env_push :: "u32 \<Rightarrow> u32 \<Rightarrow> env \<Rightarrow> env" where
  "env_push p value e = e\<lparr>env_vars := (env_vars e)[unat (env_count e) := \<lparr>ekey = p, evalue = value\<rparr>],
     env_count := env_count e + 1\<rparr>"

lemma env_push_entries:
  assumes "unat (env_count e) < length (env_vars e)" "length (env_vars e) = ENV_VAR_MAX"
  shows "env_entries (env_push p v e) = env_entries e @ [\<lparr>ekey = p, evalue = v\<rparr>]"
    "unat (env_count (env_push p v e)) = unat (env_count e) + 1"
proof -
  show c: "unat (env_count (env_push p v e)) = unat (env_count e) + 1"
    using assms by (simp add: env_push_def unat_plus_one ENV_VAR_MAX_def)
  show "env_entries (env_push p v e) = env_entries e @ [\<lparr>ekey = p, evalue = v\<rparr>]"
    using c assms by (simp add: env_entries_def env_push_def take_Suc_conv_app_nth)
qed

lemma env_push_names:
  assumes "env_names m e ks" "cstr_at m p k" "k \<notin> set ks" "length ks < ENV_VAR_MAX"
  shows "env_names m (env_push p v e) (ks @ [k])"
proof -
  have "unat (env_count e) < length (env_vars e)" "length (env_vars e) = ENV_VAR_MAX"
    using assms by (auto simp: env_names_def)
  from env_push_entries [OF this] assms show ?thesis
    by (auto simp: env_names_def env_push_def intro!: list_all2_appendI)
qed

lemma env_set_names:
  assumes "env_names m e ks" "cstr_at m p k"
  shows "env_set m p v e = Some (case find_idx (\<lambda>x. x = k) ks of
      Some i \<Rightarrow> Inr (e\<lparr>env_vars := (env_vars e)[i := (env_vars e ! i)\<lparr>evalue := v\<rparr>]\<rparr>)
    | None \<Rightarrow> if length ks = ENV_VAR_MAX then Inl OutOfBounds else Inr (env_push p v e))"
  using env_names_find [OF assms] assms(1)
  by (auto simp: env_set_def env_push_def env_names_def split: option.splits)

lemma env_get_names:
  assumes "env_names m e ks" "cstr_at m p k"
  shows "env_get m p e = Some (case find_idx (\<lambda>x. x = k) ks of
      Some i \<Rightarrow> evalue (env_vars e ! i) | None \<Rightarrow> 0)"
  using env_names_find [OF assms] by (auto simp: env_get_def split: option.splits)

lemma find_eq_Some: "distinct ks \<Longrightarrow> i < length ks \<Longrightarrow> find_idx (\<lambda>x. x = ks ! i) ks = Some i"
  by (auto simp: find_idx_Some_iff nth_eq_iff_index_eq)

lemma find_eq_append:
  "find_idx (\<lambda>x. x = k) (ks @ [j]) = (case find_idx (\<lambda>x. x = k) ks of
     Some i \<Rightarrow> Some i | None \<Rightarrow> if j = k then Some (length ks) else None)"
  by (induction ks) (auto split: option.splits)

text \<open>What one \<^verbatim>\<open>env_set\<close> does to every lookup.\<close>

lemma env_set_get:
  assumes names: "env_names m e ks" and p: "cstr_at m p k" and q: "cstr_at m q j"
    and room: "k \<in> set ks \<or> length ks < ENV_VAR_MAX"
  shows "\<exists>e' ks'. env_set m p v e = Some (Inr e') \<and> env_names m e' ks' \<and> set ks' = insert k (set ks)
    \<and> env_get m q e' = (if j = k then Some v else env_get m q e)"
proof (cases "find_idx (\<lambda>x. x = k) ks")
  case (Some i)
  then have i: "i < length ks" "ks ! i = k" by (auto dest: find_idx_SomeD)
  let ?e = "e\<lparr>env_vars := (env_vars e)[i := (env_vars e ! i)\<lparr>evalue := v\<rparr>]\<rparr>"
  have n: "env_names m ?e ks" using names i by (intro env_names_update) auto
  have len: "length ks \<le> length (env_vars e)" using names by (simp add: env_names_def)
  have "env_get m q ?e = (if j = k then Some v else env_get m q e)"
  proof (cases "find_idx (\<lambda>x. x = j) ks")
    case None
    with i have "j \<noteq> k" by (auto simp: find_idx_None_iff)
    then show ?thesis
      by (simp add: env_get_names [OF n q, unfolded None] env_get_names [OF names q, unfolded None])
  next
    case (Some l)
    then have l: "l < length ks" "ks ! l = j" by (auto dest: find_idx_SomeD)
    have "l = i \<longleftrightarrow> j = k" using l i names by (auto simp: env_names_def nth_eq_iff_index_eq)
    with Some l len show ?thesis
      by (auto simp: env_get_names [OF n q] env_get_names [OF names q])
  qed
  moreover have "insert k (set ks) = set ks" using i by auto
  ultimately show ?thesis using n Some env_set_names [OF names p, of v]
    by (intro exI [of _ ?e] exI [of _ ks]) simp
next
  case None
  then have k: "k \<notin> set ks" by (auto simp: find_idx_None_iff)
  with room have lt: "length ks < ENV_VAR_MAX" by simp
  have n: "env_names m (env_push p v e) (ks @ [k])" by (rule env_push_names [OF names p k lt])
  have c: "unat (env_count e) = length ks" "length ks < length (env_vars e)"
    using names lt by (auto simp: env_names_def)
  have "env_get m q (env_push p v e) = (if j = k then Some v else env_get m q e)"
  proof (cases "find_idx (\<lambda>x. x = j) ks")
    case (Some l)
    then have "l < length ks" "j \<in> set ks" by (auto dest: find_idx_SomeD)
    with Some c k show ?thesis unfolding env_get_names [OF n q] env_get_names [OF names q]
      by (auto simp: env_get_names [OF n q] env_get_names [OF names q] find_eq_append env_push_def)
  qed (unfold env_get_names [OF n q] env_get_names [OF names q], use c in \<open>auto simp: env_get_names [OF n q] env_get_names [OF names q] find_eq_append env_push_def\<close>)
  with n None lt env_set_names [OF names p, of v] show ?thesis
    by (intro exI [of _ "env_push p v e"] exI [of _ "ks @ [k]"]) auto
qed

section \<open>The table as a keyed store\<close>

text \<open>
  The client's keys are a set \<open>K\<close> of at most 32 strings, each at an address \<open>ptr k\<close> that
  keeps holding it.
\<close>

definition env_ok :: "mem \<Rightarrow> (bytes \<Rightarrow> u32) \<Rightarrow> bytes set \<Rightarrow> env \<Rightarrow> bool" where
  "env_ok m ptr K e \<longleftrightarrow> finite K \<and> card K \<le> ENV_VAR_MAX \<and> (\<forall>k \<in> K. cstr_at m (ptr k) k)
     \<and> (\<exists>ks. env_names m e ks \<and> set ks \<subseteq> K)"

definition env_store :: "mem \<Rightarrow> (bytes \<Rightarrow> u32) \<Rightarrow> bytes \<Rightarrow> u32 \<Rightarrow> env \<Rightarrow> env" where
  "env_store m ptr k v e = (case env_set m (ptr k) v e of Some (Inr e') \<Rightarrow> e' | _ \<Rightarrow> e)"

definition env_lookup :: "mem \<Rightarrow> (bytes \<Rightarrow> u32) \<Rightarrow> env \<Rightarrow> bytes \<Rightarrow> u32 option" where
  "env_lookup m ptr e k = env_get m (ptr k) e"

lemma env_ok_room:
  assumes "env_ok m ptr K e" "env_names m e ks" "set ks \<subseteq> K" "k \<in> K"
  shows "k \<in> set ks \<or> length ks < ENV_VAR_MAX"
proof (cases "k \<in> set ks")
  case False
  have "length ks = card (set ks)" using assms(2) by (simp add: env_names_def distinct_card)
  also have "\<dots> < card K"
    using assms False by (intro psubset_card_mono) (auto simp: env_ok_def)
  finally show ?thesis using assms(1) by (simp add: env_ok_def)
qed simp

lemma env_store_step:
  assumes "env_ok m ptr K e" "k \<in> K" "j \<in> K"
  shows "env_set m (ptr k) v e = Some (Inr (env_store m ptr k v e)) \<and> env_ok m ptr K (env_store m ptr k v e)
    \<and> env_lookup m ptr (env_store m ptr k v e) j = (if j = k then Some v else env_lookup m ptr e j)"
proof -
  obtain ks where ks: "env_names m e ks" "set ks \<subseteq> K" using assms(1) by (auto simp: env_ok_def)
  have "cstr_at m (ptr k) k" "cstr_at m (ptr j) j" using assms by (auto simp: env_ok_def)
  from env_set_get [OF ks(1) this env_ok_room [OF assms(1) ks assms(2)], of v]
  obtain e' ks' where e': "env_set m (ptr k) v e = Some (Inr e')" "env_names m e' ks'"
    "set ks' = insert k (set ks)" "env_get m (ptr j) e' = (if j = k then Some v else env_get m (ptr j) e)"
    by blast
  from e'(2,3) ks(2) assms(1,2) have "env_ok m ptr K e'"
    unfolding env_ok_def by (intro conjI exI [of _ ks']) auto
  with e' show ?thesis by (simp add: env_store_def env_lookup_def)
qed

interpretation ev: keyed_store "env_ok m ptr K" "\<lambda>k. k \<in> K" "env_lookup m ptr" "env_store m ptr" for m ptr K
proof unfold_locales
  fix t :: env and k k' :: bytes and v
  assume t: "env_ok m ptr K t" and k: "k \<in> K"
  show "env_ok m ptr K (env_store m ptr k v t)" "env_lookup m ptr (env_store m ptr k v t) k = Some v"
    using env_store_step [OF t k k] by auto
  assume "k' \<in> K" "k' \<noteq> k"
  with env_store_step [OF t k, of k'] show
    "env_lookup m ptr (env_store m ptr k v t) k' = env_lookup m ptr t k' \<or>
     env_lookup m ptr (env_store m ptr k v t) k' = None"
    "env_lookup m ptr (env_store m ptr k v t) k' = env_lookup m ptr t k'" by auto
qed

section \<open>Properties\<close>

definition env_empty :: env where
  "env_empty = \<lparr>env_vars = replicate ENV_VAR_MAX \<lparr>ekey = 0, evalue = 0\<rparr>, env_count = 0\<rparr>"

lemma env_empty_names: "env_names m env_empty []"
  by (simp add: env_names_def env_empty_def env_entries_def)

text \<open>
  C30: with at most 32 distinct keys whose strings stay in place, any run of \<^verbatim>\<open>env_set\<close> calls
  succeeds, and afterwards \<^verbatim>\<open>env_get\<close> of a key returns the value last set for it, or what it
  returned before when the run did not set it.
\<close>

theorem env_last_set_wins:
  assumes "env_ok m ptr K e" "k \<in> K" "\<forall>(k, v) \<in> set kvs. k \<in> K"
  shows "env_get m (ptr k) (fold (\<lambda>(k, v). env_store m ptr k v) kvs e)
    = (case map_of (rev kvs) k of None \<Rightarrow> env_get m (ptr k) e | Some v \<Rightarrow> Some v)"
  using ev.stores_complete [OF assms] by (simp add: env_lookup_def split: option.splits)

definition env_demo_mem :: mem where
  "env_demo_mem = (\<lambda>_. 0)(100 := 65, 200 := 66)"

theorem env_last_set_wins_witness:
  "env_get env_demo_mem 100 (fold (\<lambda>(k, v). env_store env_demo_mem (\<lambda>k. if k = [65] then 100 else 200) k v)
     [([65], 7), ([66], 8), ([65], 9)] env_empty) = Some 9"
proof -
  let ?ptr = "\<lambda>k :: bytes. if k = [65] then 100 else 200 :: u32"
  have "env_ok env_demo_mem ?ptr {[65], [66]} env_empty"
    using env_empty_names [of env_demo_mem]
    by (auto simp: env_ok_def ENV_VAR_MAX_def env_demo_mem_def intro!: exI [of _ "[]"])
  from env_last_set_wins [OF this, of "[65]" "[([65], 7), ([66], 8), ([65], 9)]"] show ?thesis by simp
qed

text \<open>
  C24: the shell passes pointers into one argument buffer, so two variables set by two
  commands have the same key pointer. After the second \<^verbatim>\<open>env_set\<close> the table has one entry, it
  answers to the second name, and the first variable is gone.
\<close>

theorem env_set_reused_buffer:
  assumes "cstr_at m1 p a" "cstr_at m2 p b" "cstr_at m2 q a" "a \<noteq> b"
  shows "\<exists>e1 e2. env_set m1 p v1 env_empty = Some (Inr e1) \<and> env_set m2 p v2 e1 = Some (Inr e2)
    \<and> env_count e2 = 1 \<and> env_get m2 p e2 = Some v2 \<and> env_get m2 q e2 = Some 0"
proof -
  let ?e = "env_push p v1 env_empty"
  have s1: "env_set m1 p v1 env_empty = Some (Inr ?e)"
    using env_set_names [OF env_empty_names assms(1)] by (simp add: ENV_VAR_MAX_def)
  have n: "env_names m2 ?e [b]"
    using env_push_names [OF env_empty_names assms(2)] by (simp add: ENV_VAR_MAX_def)
  have c: "env_count ?e = 1" by (simp add: env_push_def env_empty_def)
  have l: "env_vars ?e \<noteq> []" using n by (auto simp: env_names_def ENV_VAR_MAX_def)
  let ?e2 = "?e\<lparr>env_vars := (env_vars ?e)[0 := (env_vars ?e ! 0)\<lparr>evalue := v2\<rparr>]\<rparr>"
  have s2: "env_set m2 p v2 ?e = Some (Inr ?e2)" using env_set_names [OF n assms(2)] by simp
  have n2: "env_names m2 ?e2 [b]" using n by (intro env_names_update) auto
  have "env_get m2 p ?e2 = Some v2" using env_get_names [OF n2 assms(2)] l by simp
  moreover have "env_get m2 q ?e2 = Some 0" using env_get_names [OF n2 assms(3)] assms(4) by simp
  ultimately show ?thesis using s1 s2 c by auto
qed

theorem env_set_reused_buffer_witness:
  "\<exists>e1 e2. env_set env_demo_mem 100 1 env_empty = Some (Inr e1)
    \<and> env_set (env_demo_mem(100 := 66, 200 := 65)) 100 2 e1 = Some (Inr e2) \<and> env_count e2 = 1
    \<and> env_get (env_demo_mem(100 := 66, 200 := 65)) 200 e2 = Some 0"
  using env_set_reused_buffer [of env_demo_mem 100 "[65]" "env_demo_mem(100 := 66, 200 := 65)" "[66]" 200 1 2]
  by (auto simp: env_demo_mem_def)

text \<open>
  Nothing bounds the table: setting a 33rd name writes past the array.
\<close>

theorem env_set_overflow:
  assumes "env_names m e ks" "length ks = 32" "cstr_at m p k" "k \<notin> set ks"
  shows "env_set m p v e = Some (Inl OutOfBounds)"
  using assms env_set_names [OF assms(1,3), of v]
  by (auto simp: ENV_VAR_MAX_def split: option.splits dest: find_idx_SomeD)

theorem env_set_overflow_witness:
  "\<exists>m e. env_set m 0 5 e = Some (Inl OutOfBounds)"
proof -
  let ?k = "\<lambda>n. replicate n 1 :: bytes"
  let ?m = "\<lambda>a :: u32. if a < 40 then 1 else 0 :: u8"
  let ?e = "\<lparr>env_vars = map (\<lambda>i. \<lparr>ekey = of_nat (40 - i), evalue = 0\<rparr>) [0..<32], env_count = 32\<rparr> :: env"
  have c: "n \<le> 40 \<Longrightarrow> cstr_at ?m (of_nat (40 - n)) (?k n)" for n
  proof (induction n)
    case (Suc n)
    have "of_nat (40 - Suc n) + 1 = (of_nat (40 - n) :: u32)"
      using Suc.prems by (metis Suc_diff_Suc Suc_le_lessD add.commute of_nat_Suc)
    moreover have "(of_nat (40 - Suc n) :: u32) < 40"
      by (simp add: word_less_nat_alt unat_of_nat32)
    ultimately show ?case using Suc by simp
  qed simp
  have "env_names ?m ?e (map ?k [0..<32])"
    using c by (auto simp: env_names_def ENV_VAR_MAX_def env_entries_def list_all2_conv_all_nth
      distinct_map inj_on_def)
  moreover have "?k 40 \<notin> set (map ?k [0..<32])" by (auto dest: arg_cong [of _ _ length])
  ultimately have "env_set ?m 0 5 ?e = Some (Inl OutOfBounds)"
    using env_set_overflow [of ?m ?e "map ?k [0..<32]" 0 "?k 40"] c [of 40] by simp
  then show ?thesis by blast
qed

end
