(* ===== verification/Pipe.thy ===== *)
theory Pipe
  imports Ring
begin

text \<open>
  Pipes (\<^verbatim>\<open>kernel/pipe.h\<close>, \<^verbatim>\<open>kernel/pipe.cpp\<close>): eight byte rings with a count. A call waits by
  yielding to the scheduler; what the other processes do to the table of pipes during the
  \<open>t\<close>-th yield is the argument \<open>y t\<close> of the waiting operations. The section between
  \<^verbatim>\<open>cli\<close> and \<^verbatim>\<open>sti\<close> is one step of the transition system at the end.
\<close>

definition PIPE_BUF_SIZE :: nat where "PIPE_BUF_SIZE = 1024"
definition PIPE_MAX :: nat where "PIPE_MAX = 8"

record pipe =
  pbuf :: bytes
  read_pos :: u32
  write_pos :: u32
  pcount :: u32
  pused :: bool
  write_closed :: bool

section \<open>Operations\<close>

definition pipe_init_all :: "pipe list \<Rightarrow> pipe list" where
  "pipe_init_all ps = map (\<lambda>p. p\<lparr>pused := False, read_pos := 0, write_pos := 0, pcount := 0,
     write_closed := False\<rparr>) ps"

definition pipe_create :: "pipe list \<Rightarrow> pipe list \<times> int" where
  "pipe_create ps = (case find_idx (\<lambda>p. \<not> pused p) ps of
     Some i \<Rightarrow> (ps[i := (ps ! i)\<lparr>pused := True, read_pos := 0, write_pos := 0, pcount := 0,
                          write_closed := False\<rparr>], int i)
   | None \<Rightarrow> (ps, -1))"

definition pipe_destroy :: "int \<Rightarrow> pipe list \<Rightarrow> pipe list" where
  "pipe_destroy i ps = (if i < 0 \<or> i \<ge> int PIPE_MAX then ps
     else ps[nat i := (ps ! nat i)\<lparr>pused := False\<rparr>])"

definition pipe_valid :: "int \<Rightarrow> pipe list \<Rightarrow> bool" where
  "pipe_valid i ps \<longleftrightarrow> \<not> (i < 0 \<or> i \<ge> int PIPE_MAX \<or> \<not> pused (ps ! nat i))"

definition pipe_close_write :: "int \<Rightarrow> pipe list \<Rightarrow> pipe list" where
  "pipe_close_write i ps = (if pipe_valid i ps
     then ps[nat i := (ps ! nat i)\<lparr>write_closed := True\<rparr>] else ps)"

definition pipe_empty :: "int \<Rightarrow> pipe list \<Rightarrow> bool" where
  "pipe_empty i ps = (if \<not> pipe_valid i ps then True else pcount (ps ! nat i) = 0)"

text \<open>The section of \<^verbatim>\<open>pipe_write\<close> with interrupts off: as much of \<open>bs\<close> as there is room for.\<close>

definition pipe_put :: "bytes \<Rightarrow> pipe \<Rightarrow> pipe \<times> nat" where
  "pipe_put bs p =
     (let space = of_nat PIPE_BUF_SIZE - pcount p;
          chunk = (if of_nat (length bs) > space then space else of_nat (length bs) :: u32);
          (buf', pos') = ring_put PIPE_BUF_SIZE (pbuf p) (unat (write_pos p)) (take (unat chunk) bs)
      in (p\<lparr>pbuf := buf', write_pos := of_nat pos', pcount := pcount p + chunk\<rparr>, unat chunk))"

partial_function (option) pipe_write_loop ::
  "(nat \<Rightarrow> pipe list \<Rightarrow> pipe list) \<Rightarrow> nat \<Rightarrow> nat \<Rightarrow> bytes \<Rightarrow> nat \<Rightarrow> pipe list \<Rightarrow> (pipe list \<times> nat) option" where
  "pipe_write_loop y t i bs written ps =
     (if written < length bs then
        if unat (pcount (ps ! i)) \<ge> PIPE_BUF_SIZE then pipe_write_loop y (Suc t) i bs written (y t ps)
        else case pipe_put (drop written bs) (ps ! i) of
          (p, n) \<Rightarrow> pipe_write_loop y t i bs (written + n) (ps[i := p])
      else Some (ps, written))"

definition pipe_write :: "(nat \<Rightarrow> pipe list \<Rightarrow> pipe list) \<Rightarrow> int \<Rightarrow> bytes \<Rightarrow> pipe list \<Rightarrow> (pipe list \<times> int) option" where
  "pipe_write y i bs ps = (if \<not> pipe_valid i ps then Some (ps, -1)
     else map_option (\<lambda>(ps', n). (ps', int n)) (pipe_write_loop y 0 (nat i) bs 0 ps))"

text \<open>The section of \<^verbatim>\<open>pipe_read\<close> and \<^verbatim>\<open>pipe_read_nb\<close> with interrupts off.\<close>

definition pipe_take :: "u32 \<Rightarrow> pipe \<Rightarrow> pipe \<times> bytes" where
  "pipe_take n p =
     (let avail = (if pcount p < n then pcount p else n);
          (xs, pos') = ring_get PIPE_BUF_SIZE (pbuf p) (unat (read_pos p)) (unat avail)
      in (p\<lparr>read_pos := of_nat pos', pcount := pcount p - avail\<rparr>, xs))"

text \<open>The result is the bytes copied to the caller's buffer and the number returned.\<close>

definition pipe_read_nb :: "int \<Rightarrow> u32 \<Rightarrow> pipe list \<Rightarrow> pipe list \<times> bytes \<times> int" where
  "pipe_read_nb i n ps = (if \<not> pipe_valid i ps then (ps, [], -1)
     else if pcount (ps ! nat i) = 0 then (ps, [], 0)
     else case pipe_take n (ps ! nat i) of (p, xs) \<Rightarrow> (ps[nat i := p], xs, int (length xs)))"

partial_function (option) pipe_wait ::
  "(nat \<Rightarrow> pipe list \<Rightarrow> pipe list) \<Rightarrow> nat \<Rightarrow> nat \<Rightarrow> pipe list \<Rightarrow> pipe list option" where
  "pipe_wait y t i ps = (if pcount (ps ! i) = 0 \<and> \<not> write_closed (ps ! i)
     then pipe_wait y (Suc t) i (y t ps) else Some ps)"

definition pipe_read :: "(nat \<Rightarrow> pipe list \<Rightarrow> pipe list) \<Rightarrow> int \<Rightarrow> u32 \<Rightarrow> pipe list
    \<Rightarrow> (pipe list \<times> bytes \<times> int) option" where
  "pipe_read y i n ps = (if \<not> pipe_valid i ps then Some (ps, [], -1)
     else case pipe_wait y 0 (nat i) ps of
       None \<Rightarrow> None
     | Some ps' \<Rightarrow> if pcount (ps' ! nat i) = 0 then Some (ps', [], 0)
         else case pipe_take n (ps' ! nat i) of
           (p, xs) \<Rightarrow> Some (ps'[nat i := p], xs, int (length xs)))"

section \<open>The bytes in a pipe\<close>

definition pipe_bytes :: "pipe \<Rightarrow> bytes" where
  "pipe_bytes p = ring_items PIPE_BUF_SIZE (pbuf p) (unat (read_pos p)) (unat (pcount p))"

definition pipe_inv :: "pipe \<Rightarrow> bool" where
  "pipe_inv p \<longleftrightarrow> length (pbuf p) = PIPE_BUF_SIZE \<and> unat (read_pos p) < PIPE_BUF_SIZE
     \<and> unat (pcount p) \<le> PIPE_BUF_SIZE
     \<and> unat (write_pos p) = (unat (read_pos p) + unat (pcount p)) mod PIPE_BUF_SIZE"

definition pipes_inv :: "pipe list \<Rightarrow> bool" where
  "pipes_inv ps \<longleftrightarrow> length ps = PIPE_MAX \<and> (\<forall>p \<in> set ps. pused p \<longrightarrow> pipe_inv p)"

lemma pipe_put_spec:
  assumes "pipe_inv p" "length bs < 2 ^ 32" "pipe_put bs p = (p', n)"
  shows "pipe_inv p' \<and> n = min (PIPE_BUF_SIZE - unat (pcount p)) (length bs)
    \<and> pipe_bytes p' = pipe_bytes p @ take n bs \<and> unat (pcount p') = unat (pcount p) + n
    \<and> write_closed p' = write_closed p \<and> pused p' = pused p"
proof -
  let ?space = "of_nat PIPE_BUF_SIZE - pcount p"
  let ?chunk = "if of_nat (length bs) > ?space then ?space else of_nat (length bs) :: u32"
  have le: "pcount p \<le> of_nat PIPE_BUF_SIZE"
    using assms(1) by (simp add: pipe_inv_def PIPE_BUF_SIZE_def word_le_nat_alt)
  have sp: "unat ?space = PIPE_BUF_SIZE - unat (pcount p)"
    using unat_minus_le [OF le] by (simp add: PIPE_BUF_SIZE_def)
  have ch: "unat ?chunk = min (PIPE_BUF_SIZE - unat (pcount p)) (length bs)"
    using sp assms(2) by (auto simp: word_less_nat_alt unat_of_nat32)
  obtain buf' pos' where rp: "ring_put PIPE_BUF_SIZE (pbuf p) (unat (write_pos p)) (take (unat ?chunk) bs) = (buf', pos')"
    by fastforce
  have p': "p' = p\<lparr>pbuf := buf', write_pos := of_nat pos', pcount := pcount p + ?chunk\<rparr>" "n = unat ?chunk"
    using assms(3) rp by (auto simp: pipe_put_def Let_def)
  have len: "length (take (unat ?chunk) bs) = unat ?chunk" using ch by simp
  have sum: "unat (pcount p) + unat ?chunk \<le> PIPE_BUF_SIZE"
    using ch assms(1) by (auto simp: pipe_inv_def)
  have spec: "ring_items PIPE_BUF_SIZE buf' (unat (read_pos p)) (unat (pcount p) + unat ?chunk)
      = ring_items PIPE_BUF_SIZE (pbuf p) (unat (read_pos p)) (unat (pcount p)) @ take (unat ?chunk) bs
    \<and> pos' = (unat (read_pos p) + unat (pcount p) + unat ?chunk) mod PIPE_BUF_SIZE \<and> length buf' = PIPE_BUF_SIZE"
    using ring_put_spec [of "unat (pcount p)" "take (unat ?chunk) bs" PIPE_BUF_SIZE "pbuf p" "unat (read_pos p)"
      "unat (write_pos p)" buf' pos'] assms(1) sum rp len
    by (simp add: pipe_inv_def PIPE_BUF_SIZE_def)
  have cnt: "unat (pcount p + ?chunk) = unat (pcount p) + unat ?chunk"
    using sum by (intro unat_plus_if) (simp add: PIPE_BUF_SIZE_def)
  have "pos' < PIPE_BUF_SIZE" using spec by (simp add: PIPE_BUF_SIZE_def)
  then have pos: "unat (of_nat pos' :: u32) = pos'" by (intro unat_of_nat32) (simp add: PIPE_BUF_SIZE_def)
  have "pipe_inv p'" "pipe_bytes p' = pipe_bytes p @ take n bs" "unat (pcount p') = unat (pcount p) + n"
    "write_closed p' = write_closed p" "pused p' = pused p"
    unfolding p' pipe_inv_def pipe_bytes_def using spec cnt pos sum assms(1)
    by (simp_all add: pipe_inv_def ac_simps)
  with p'(2) ch show ?thesis by simp
qed

lemma pipe_take_spec:
  assumes "pipe_inv p" "pipe_take n p = (p', xs)"
  shows "pipe_inv p' \<and> pipe_bytes p = xs @ pipe_bytes p' \<and> length xs = min (unat (pcount p)) (unat n)
    \<and> unat (pcount p') = unat (pcount p) - length xs \<and> write_closed p' = write_closed p \<and> pused p' = pused p"
proof -
  let ?a = "if pcount p < n then pcount p else n"
  obtain pos' where rg: "ring_get PIPE_BUF_SIZE (pbuf p) (unat (read_pos p)) (unat ?a) = (xs, pos')"
    and p': "p' = p\<lparr>read_pos := of_nat pos', pcount := pcount p - ?a\<rparr>"
    using assms(2) by (auto simp: pipe_take_def Let_def split: prod.splits)
  have le: "?a \<le> pcount p" by auto
  have a: "unat ?a = min (unat (pcount p)) (unat n)" by (auto simp: word_less_nat_alt)
  have cnt: "unat (pcount p - ?a) = unat (pcount p) - unat ?a" by (rule unat_minus_le [OF le])
  have spec: "xs = take (unat ?a) (pipe_bytes p) \<and> pos' = (unat (read_pos p) + unat ?a) mod PIPE_BUF_SIZE
    \<and> ring_items PIPE_BUF_SIZE (pbuf p) pos' (unat (pcount p) - unat ?a) = drop (unat ?a) (pipe_bytes p)"
    using ring_get_spec [OF _ _ rg, of "unat (pcount p)"] assms(1) a by (auto simp: pipe_inv_def pipe_bytes_def)
  have "pos' < PIPE_BUF_SIZE" using spec by (simp add: PIPE_BUF_SIZE_def)
  then have pos: "unat (of_nat pos' :: u32) = pos'" by (intro unat_of_nat32) (simp add: PIPE_BUF_SIZE_def)
  have len: "length xs = unat ?a" using spec a by (simp add: pipe_bytes_def)
  have "(pos' + (unat (pcount p) - unat ?a)) mod PIPE_BUF_SIZE
      = (unat (read_pos p) + unat ?a + (unat (pcount p) - unat ?a)) mod PIPE_BUF_SIZE"
    using spec by (metis mod_add_left_eq)
  also have "\<dots> = unat (write_pos p)" using assms(1) a by (simp add: pipe_inv_def)
  finally have "(pos' + (unat (pcount p) - unat ?a)) mod PIPE_BUF_SIZE = unat (write_pos p)" .
  then have "pipe_inv p'"
    unfolding p' pipe_inv_def using assms(1) pos cnt \<open>pos' < PIPE_BUF_SIZE\<close> by (auto simp: pipe_inv_def)
  moreover have "pipe_bytes p' = drop (unat ?a) (pipe_bytes p)"
    unfolding p' pipe_bytes_def using spec [THEN conjunct2, THEN conjunct2] pos cnt
    by (cases "pcount p < n") (simp_all add: pipe_bytes_def)
  then have "pipe_bytes p = xs @ pipe_bytes p'" using spec by simp
  ultimately show ?thesis using len a cnt p' by simp
qed

lemma length_pipe_bytes [simp]: "length (pipe_bytes p) = unat (pcount p)"
  by (simp add: pipe_bytes_def)

section \<open>A writing call\<close>

text \<open>
  The environment is fair to the writer of pipe \<open>i\<close>: whenever the writer yields on a full
  pipe, the pipe is well formed and has room when the call runs again.
\<close>

definition drained :: "(nat \<Rightarrow> pipe list \<Rightarrow> pipe list) \<Rightarrow> nat \<Rightarrow> bool" where
  "drained y i \<longleftrightarrow> (\<forall>t ps. i < length ps \<longrightarrow> pipe_inv (ps ! i) \<longrightarrow>
     i < length (y t ps) \<and> pipe_inv (y t ps ! i) \<and> unat (pcount (y t ps ! i)) < PIPE_BUF_SIZE)"

lemma pipe_write_loop_returns:
  assumes "drained y i" "length bs < 2 ^ 32" "i < length ps" "pipe_inv (ps ! i)" "written \<le> length bs"
  shows "\<exists>ps'. pipe_write_loop y t i bs written ps = Some (ps', length bs)"
  using assms(3-)
proof (induction "length bs - written" arbitrary: t ps written rule: less_induct)
  case less
  have put: "\<exists>ps'. pipe_write_loop y t i bs written ps = Some (ps', length bs)"
    if lt: "written < length bs" and room: "unat (pcount (ps ! i)) < PIPE_BUF_SIZE"
      and ps: "i < length ps" "pipe_inv (ps ! i)" for t ps
  proof -
    obtain p n where pn: "pipe_put (drop written bs) (ps ! i) = (p, n)" by fastforce
    have sp: "pipe_inv p" "n = min (PIPE_BUF_SIZE - unat (pcount (ps ! i))) (length bs - written)"
      using pipe_put_spec [OF ps(2) _ pn] assms(2) by auto
    have n: "0 < n" "written + n \<le> length bs" using sp(2) lt room by auto
    have "\<exists>ps'. pipe_write_loop y t i bs (written + n) (ps[i := p]) = Some (ps', length bs)"
      by (rule less.hyps) (use n ps sp(1) in auto)
    with lt room pn show ?thesis by (simp add: pipe_write_loop.simps [of y t i bs written ps])
  qed
  show ?case
  proof (cases "written < length bs \<and> \<not> unat (pcount (ps ! i)) < PIPE_BUF_SIZE")
    case True
    from assms(1) less.prems have "i < length (y t ps)" "pipe_inv (y t ps ! i)"
      "unat (pcount (y t ps ! i)) < PIPE_BUF_SIZE" by (auto simp: drained_def)
    with put [of "y t ps" "Suc t"] True show ?thesis
      by (simp add: pipe_write_loop.simps [of y t i bs written ps])
  next
    case False
    then consider "\<not> written < length bs"
      | "written < length bs" "unat (pcount (ps ! i)) < PIPE_BUF_SIZE" by blast
    then show ?thesis
    proof cases
      case 1
      with less.prems show ?thesis by (simp add: pipe_write_loop.simps)
    next
      case 2
      with put less.prems show ?thesis by blast
    qed
  qed
qed

section \<open>One writer and one reader\<close>

text \<open>
  The steps of a process that writes to the pipe and one that reads from it: a step is a
  section with interrupts off. \<open>todo\<close> is what the writer's current call has left.
\<close>

record pipe_sys =
  pp :: pipe
  todo :: bytes
  sent :: bytes
  rcvd :: bytes

inductive pipe_step :: "pipe_sys \<Rightarrow> pipe_sys \<Rightarrow> bool" where
  w_call: "todo s = [] \<Longrightarrow> length bs < 2 ^ 32 \<Longrightarrow> pipe_step s (s\<lparr>todo := bs\<rparr>)"
| w_put: "todo s \<noteq> [] \<Longrightarrow> unat (pcount (pp s)) < PIPE_BUF_SIZE \<Longrightarrow> pipe_put (todo s) (pp s) = (p, n) \<Longrightarrow>
    pipe_step s (s\<lparr>pp := p, todo := drop n (todo s), sent := sent s @ take n (todo s)\<rparr>)"
| r_take: "pcount (pp s) \<noteq> 0 \<Longrightarrow> pipe_take n (pp s) = (p, xs) \<Longrightarrow>
    pipe_step s (s\<lparr>pp := p, rcvd := rcvd s @ xs\<rparr>)"

definition pipe_start :: "pipe \<Rightarrow> pipe_sys" where
  "pipe_start p = \<lparr>pp = p, todo = [], sent = [], rcvd = []\<rparr>"

definition pipe_sys_inv :: "pipe_sys \<Rightarrow> bool" where
  "pipe_sys_inv s \<longleftrightarrow> pipe_inv (pp s) \<and> sent s = rcvd s @ pipe_bytes (pp s) \<and> length (todo s) < 2 ^ 32"

lemma pipe_step_inv: "pipe_step s t \<Longrightarrow> pipe_sys_inv s \<Longrightarrow> pipe_sys_inv t"
proof (induction rule: pipe_step.induct)
  case (w_call s bs)
  then show ?case by (simp add: pipe_sys_inv_def)
next
  case (w_put s p n)
  then show ?case using pipe_put_spec [of "pp s" "todo s" p n] by (auto simp: pipe_sys_inv_def)
next
  case (r_take s n p xs)
  then show ?case using pipe_take_spec [of "pp s" n p xs] by (simp add: pipe_sys_inv_def)
qed

lemma pipe_reach_inv: "pipe_step\<^sup>*\<^sup>* s t \<Longrightarrow> pipe_sys_inv s \<Longrightarrow> pipe_sys_inv t"
  by (induction rule: rtranclp_induct) (auto intro: pipe_step_inv)

lemma pipe_start_inv: "pipe_inv p \<Longrightarrow> pcount p = 0 \<Longrightarrow> pipe_sys_inv (pipe_start p)"
  by (simp add: pipe_sys_inv_def pipe_start_def pipe_bytes_def)

lemma pipe_drain_step:
  assumes "pipe_sys_inv s"
  shows "\<exists>t. pipe_step\<^sup>*\<^sup>* s t \<and> pipe_bytes (pp t) = [] \<and> todo t = todo s"
proof (cases "pcount (pp s) = 0")
  case True
  then show ?thesis by (intro exI [of _ s]) (simp add: pipe_bytes_def)
next
  case False
  obtain p xs where t: "pipe_take (of_nat PIPE_BUF_SIZE) (pp s) = (p, xs)" by fastforce
  have "pipe_inv (pp s)" using assms by (simp add: pipe_sys_inv_def)
  from pipe_take_spec [OF this t] \<open>pipe_inv (pp s)\<close>
  have "unat (pcount p) = 0" by (simp add: pipe_inv_def PIPE_BUF_SIZE_def)
  then have "pipe_bytes p = []" by (simp add: pipe_bytes_def)
  with r_take [OF False t] show ?thesis
    by (intro exI [of _ "s\<lparr>pp := p, rcvd := rcvd s @ xs\<rparr>"]) auto
qed

lemma pipe_drains_inv:
  "pipe_sys_inv s \<Longrightarrow> \<exists>t. pipe_step\<^sup>*\<^sup>* s t \<and> todo t = [] \<and> pipe_bytes (pp t) = []"
proof (induction "length (todo s)" arbitrary: s rule: less_induct)
  case less
  obtain t where t: "pipe_step\<^sup>*\<^sup>* s t" "pipe_bytes (pp t) = []" "todo t = todo s"
    using pipe_drain_step [OF less.prems] by blast
  show ?case
  proof (cases "todo s = []")
    case True
    with t show ?thesis by auto
  next
    case False
    have inv: "pipe_sys_inv t" by (rule pipe_reach_inv [OF t(1) less.prems])
    have "length (pipe_bytes (pp t)) = 0" using t(2) by simp
    then have c: "unat (pcount (pp t)) < PIPE_BUF_SIZE" by (simp add: PIPE_BUF_SIZE_def)
    obtain p n where pn: "pipe_put (todo t) (pp t) = (p, n)" by fastforce
    let ?u = "t\<lparr>pp := p, todo := drop n (todo t), sent := sent t @ take n (todo t)\<rparr>"
    have st: "pipe_step t ?u" using False t(3) c pn by (intro w_put) auto
    have "0 < n" using pipe_put_spec [of "pp t" "todo t" p n] inv pn c False t(3)
      by (simp add: pipe_sys_inv_def)
    then have "length (todo ?u) < length (todo s)" using False t(3) by (cases "todo s") auto
    from less.hyps [OF this pipe_step_inv [OF st inv]] st t(1) show ?thesis
      by (meson converse_rtranclp_into_rtranclp rtranclp_trans)
  qed
qed

section \<open>Properties\<close>

definition demo_pipe :: pipe where
  "demo_pipe = \<lparr>pbuf = replicate PIPE_BUF_SIZE 0, read_pos = 0, write_pos = 0, pcount = 0,
     pused = True, write_closed = False\<rparr>"

lemma demo_pipe_inv: "pipe_inv demo_pipe" "pcount demo_pipe = 0"
  by (simp_all add: pipe_inv_def demo_pipe_def PIPE_BUF_SIZE_def)

text \<open>
  C17: a pipe loses, duplicates and reorders nothing. In every state a writer and a reader
  reach, whatever the sizes and the interleaving of their calls, the bytes sent are the
  bytes received followed by the bytes in the ring; and from every such state they can go on to
  a state where the writer's call is finished and the reader has received every byte.
\<close>

theorem pipe_fifo:
  assumes "pipe_inv p" "pcount p = 0" "pipe_step\<^sup>*\<^sup>* (pipe_start p) s"
  shows "sent s = rcvd s @ pipe_bytes (pp s) \<and> length (pipe_bytes (pp s)) \<le> PIPE_BUF_SIZE
    \<and> (\<exists>t. pipe_step\<^sup>*\<^sup>* s t \<and> todo t = [] \<and> rcvd t = sent t)"
proof -
  have inv: "pipe_sys_inv s" by (rule pipe_reach_inv [OF assms(3) pipe_start_inv [OF assms(1,2)]])
  obtain t where t: "pipe_step\<^sup>*\<^sup>* s t" "todo t = []" "pipe_bytes (pp t) = []"
    using pipe_drains_inv [OF inv] by blast
  with pipe_reach_inv [OF t(1) inv] inv show ?thesis
    by (auto simp: pipe_sys_inv_def pipe_inv_def)
qed

theorem pipe_fifo_witness:
  "\<exists>t. pipe_step\<^sup>*\<^sup>* ((pipe_start demo_pipe)\<lparr>todo := [1, 2, 3]\<rparr>) t \<and> rcvd t = sent t \<and> todo t = []"
proof -
  have "pipe_step\<^sup>*\<^sup>* (pipe_start demo_pipe) ((pipe_start demo_pipe)\<lparr>todo := [1, 2, 3]\<rparr>)"
    by (intro r_into_rtranclp w_call) (simp_all add: pipe_start_def)
  from pipe_fifo [OF demo_pipe_inv this] show ?thesis by blast
qed

text \<open>
  C30: a \<^verbatim>\<open>pipe_write\<close> of any length returns, with the whole length written, provided the
  other processes make room whenever it yields on a full pipe.
\<close>

theorem pipe_write_returns:
  assumes "pipe_valid i ps" "pipes_inv ps" "length bs < 2 ^ 32" "drained y (nat i)"
  shows "\<exists>ps'. pipe_write y i bs ps = Some (ps', int (length bs))"
proof -
  have "nat i < length ps" "pipe_inv (ps ! nat i)"
    using assms(1,2) by (auto simp: pipe_valid_def pipes_inv_def)
  from pipe_write_loop_returns [OF assms(4,3) this, of 0 0] assms(1) show ?thesis
    by (auto simp: pipe_write_def)
qed

theorem pipe_write_returns_witness:
  "\<exists>ps'. pipe_write (\<lambda>t ps. replicate PIPE_MAX demo_pipe) 2 (replicate 5000 7) (replicate PIPE_MAX demo_pipe)
     = Some (ps', 5000)"
  using pipe_write_returns [of 2 "replicate PIPE_MAX demo_pipe" "replicate 5000 7" "\<lambda>t ps. replicate PIPE_MAX demo_pipe"]
    demo_pipe_inv
  by (simp add: pipe_valid_def pipes_inv_def PIPE_MAX_def drained_def PIPE_BUF_SIZE_def demo_pipe_def)

end
