(* ===== verification/Keyboard.thy ===== *)
theory Keyboard
  imports Ring Interfaces "HOL-Library.Char_ord"
begin

text \<open>
  The keyboard (\<^verbatim>\<open>kernel/keyboard.cpp\<close>): the boot-protocol reports of the USB keyboard are
  turned into characters, which wait in a ring of 256 cells. A report holds a modifier
  byte and six key codes.
\<close>

text \<open>The code's character constants, as bytes.\<close>

definition chars :: "string \<Rightarrow> bytes" where
  "chars s = map of_char s"

definition HID_MAP :: bytes where
  "HID_MAP = [0, 0, 0, 0] @ chars ''abcdefghijklmnopqrstuvwxyz'' @ chars ''1234567890''
     @ [10, 27, 8, 9, 32] @ chars ''-=[]'' @ [92, 0, 59, 39] @ [96] @ chars '',./'' @ [0]
     @ replicate 12 0 @ replicate 13 0 @ [0] @ chars ''/*-+'' @ [10] @ chars ''1234567890.''
     @ replicate 156 0"

definition HID_SHIFT_MAP :: bytes where
  "HID_SHIFT_MAP = [0, 0, 0, 0] @ chars ''ABCDEFGHIJKLMNOPQRSTUVWXYZ'' @ chars ''!@#$%^&*()''
     @ [10, 27, 8, 9, 32] @ chars ''_+{}|'' @ [0, 58, 34] @ chars ''~<>?'' @ [0]
     @ replicate 12 0 @ replicate 13 0 @ [0] @ chars ''/*-+'' @ [10] @ chars ''1234567890.''
     @ replicate 156 0"

definition MOD_SHIFT :: u8 where "MOD_SHIFT = push_bit 1 1 OR push_bit 5 1"

definition KBD_BUF_SIZE :: nat where "KBD_BUF_SIZE = 256"

record key_state =
  modifier :: u8
  keycodes :: "u8 list"

text \<open>
  \<open>user_cb\<close> says whether a callback is installed, \<open>cb_log\<close> collects the characters it was
  called with.
\<close>

record kbd =
  kbuf :: bytes
  buf_head :: nat
  buf_tail :: nat
  caps :: bool
  user_cb :: bool
  prev_keys :: "u8 list"
  cb_log :: bytes

definition buf_push :: "u8 \<Rightarrow> kbd \<Rightarrow> kbd" where
  "buf_push c s = (let next = (buf_head s + 1) mod KBD_BUF_SIZE in
     if next \<noteq> buf_tail s then s\<lparr>kbuf := (kbuf s)[buf_head s := c], buf_head := next\<rparr> else s)"

text \<open>The first loop of \<^verbatim>\<open>on_keyboard\<close>: Caps Lock toggles when it was not down before.\<close>

definition caps_step :: "u8 \<Rightarrow> kbd \<Rightarrow> kbd" where
  "caps_step kc s = (if kc \<noteq> 0x39 then s
     else if 0x39 \<in> set (prev_keys s) then s
     else s\<lparr>caps := \<not> caps s\<rparr>)"

definition key_char :: "bool \<Rightarrow> bool \<Rightarrow> u8 \<Rightarrow> u8" where
  "key_char shift cap kc =
     (let c = (if shift then HID_SHIFT_MAP ! unat kc else HID_MAP ! unat kc) in
      if cap then
        if 97 \<le> c \<and> c \<le> 122 then c - 32
        else if 65 \<le> c \<and> c \<le> 90 \<and> \<not> shift then c + 32
        else c
      else c)"

definition key_step :: "bool \<Rightarrow> u8 \<Rightarrow> kbd \<Rightarrow> kbd" where
  "key_step shift kc s =
     (if kc = 0 \<or> kc = 1 then s
      else if kc \<in> set (prev_keys s) then s
      else let c = key_char shift (caps s) kc in
        if c = 0 then s
        else let s1 = buf_push c s in
          if user_cb s1 then s1\<lparr>cb_log := cb_log s1 @ [c]\<rparr> else s1)"

definition on_keyboard :: "key_state \<Rightarrow> kbd \<Rightarrow> kbd" where
  "on_keyboard ks s =
     (let shift = (modifier ks AND MOD_SHIFT \<noteq> 0);
          s1 = fold caps_step (keycodes ks) s;
          s2 = fold (key_step shift) (keycodes ks) s1
      in s2\<lparr>prev_keys := keycodes ks\<rparr>)"

definition keyboard_init :: "kbd \<Rightarrow> kbd" where
  "keyboard_init s = s\<lparr>buf_head := 0, buf_tail := 0, caps := False, user_cb := False,
     prev_keys := replicate 6 0\<rparr>"

definition keyboard_haschar :: "kbd \<Rightarrow> bool" where
  "keyboard_haschar s = (buf_head s \<noteq> buf_tail s)"

definition keyboard_getchar :: "kbd \<Rightarrow> kbd \<times> u8" where
  "keyboard_getchar s = (if \<not> keyboard_haschar s then (s, 0)
     else (s\<lparr>buf_tail := (buf_tail s + 1) mod KBD_BUF_SIZE\<rparr>, kbuf s ! buf_tail s))"

section \<open>The buffer as a FIFO\<close>

definition kbd_items :: "kbd \<Rightarrow> bytes" where
  "kbd_items s = ring_items KBD_BUF_SIZE (kbuf s) (buf_tail s)
     (ring_count KBD_BUF_SIZE (buf_tail s) (buf_head s))"

definition kbd_inv :: "kbd \<Rightarrow> bool" where
  "kbd_inv s \<longleftrightarrow> length (kbuf s) = KBD_BUF_SIZE \<and> buf_head s < KBD_BUF_SIZE \<and> buf_tail s < KBD_BUF_SIZE"

definition kbd_push :: "kbd \<Rightarrow> u8 \<Rightarrow> kbd \<times> bool" where
  "kbd_push s c = (buf_push c s, (buf_head s + 1) mod KBD_BUF_SIZE \<noteq> buf_tail s)"

definition kbd_pop :: "kbd \<Rightarrow> kbd \<times> u8 option" where
  "kbd_pop s = (if keyboard_haschar s then case keyboard_getchar s of (s', c) \<Rightarrow> (s', Some c)
     else (s, None))"

lemma length_kbd_items: "length (kbd_items s) < 256"
  by (simp add: kbd_items_def KBD_BUF_SIZE_def ring_count_bound)

lemma kbd_room_iff:
  assumes "kbd_inv s"
  shows "(buf_head s + 1) mod KBD_BUF_SIZE \<noteq> buf_tail s \<longleftrightarrow> length (kbd_items s) < 255"
proof -
  have b: "buf_tail s < KBD_BUF_SIZE" "buf_head s < KBD_BUF_SIZE" using assms by (auto simp: kbd_inv_def)
  show ?thesis
    using ring_count_push(2) [OF b] ring_count_full [OF b]
    by (auto simp: kbd_items_def KBD_BUF_SIZE_def)
qed

lemma buf_push_inv: "kbd_inv s \<Longrightarrow> kbd_inv (buf_push c s)"
  by (simp add: kbd_inv_def buf_push_def Let_def KBD_BUF_SIZE_def)

lemma buf_push_items:
  assumes inv: "kbd_inv s"
  shows "kbd_items (buf_push c s) = (if length (kbd_items s) < 255 then kbd_items s @ [c] else kbd_items s)"
proof (cases "(buf_head s + 1) mod KBD_BUF_SIZE \<noteq> buf_tail s")
  case True
  have b: "buf_tail s < KBD_BUF_SIZE" "buf_head s < KBD_BUF_SIZE" "length (kbuf s) = KBD_BUF_SIZE"
    using inv by (auto simp: kbd_inv_def)
  show ?thesis
    using True kbd_room_iff [OF inv] ring_count_push(1) [OF b(1,2) True] ring_count_head [OF b(1,2)] b(3)
      ring_items_write [of "ring_count KBD_BUF_SIZE (buf_tail s) (buf_head s)" KBD_BUF_SIZE "kbuf s"
        "buf_head s" "buf_tail s" c] ring_count_bound [of KBD_BUF_SIZE "buf_tail s" "buf_head s"]
    by (simp add: kbd_items_def buf_push_def Let_def KBD_BUF_SIZE_def)
next
  case False
  with kbd_room_iff [OF inv] show ?thesis by (simp add: buf_push_def Let_def)
qed

lemma kbd_pop_items:
  assumes inv: "kbd_inv s"
  shows "case kbd_items s of [] \<Rightarrow> kbd_pop s = (s, None)
    | x # xs \<Rightarrow> \<exists>s'. kbd_pop s = (s', Some x) \<and> kbd_inv s' \<and> kbd_items s' = xs"
proof -
  have b: "buf_tail s < KBD_BUF_SIZE" "buf_head s < KBD_BUF_SIZE" using inv by (auto simp: kbd_inv_def)
  show ?thesis
  proof (cases "ring_count KBD_BUF_SIZE (buf_tail s) (buf_head s)")
    case 0
    then have "buf_head s = buf_tail s" using ring_count_0_iff [OF b] by simp
    with 0 show ?thesis by (simp add: kbd_items_def kbd_pop_def keyboard_haschar_def)
  next
    case (Suc n)
    then have "buf_head s \<noteq> buf_tail s" using ring_count_0_iff [OF b] by auto
    then show ?thesis
      using ring_count_pop [OF b Suc] ring_items_Cons [OF b(1), of "kbuf s" n] Suc b inv
      by (simp add: kbd_items_def kbd_pop_def keyboard_haschar_def keyboard_getchar_def kbd_inv_def)
  qed
qed

interpretation kb: fifo kbd_items kbd_inv "\<lambda>_. True" 255 kbd_push kbd_pop
proof unfold_locales
  fix s :: kbd and c x :: u8 and xs
  assume inv: "kbd_inv s"
  show "length (kbd_items s) \<le> 255" using length_kbd_items [of s] by simp
  show "\<exists>s'. kbd_push s c = (s', True) \<and> kbd_inv s' \<and> kbd_items s' = kbd_items s @ [c]"
    if "length (kbd_items s) < 255"
    using that kbd_room_iff [OF inv] buf_push_items [OF inv] buf_push_inv [OF inv]
    by (auto simp: kbd_push_def)
  show "kbd_push s c = (s, False)" if "\<not> length (kbd_items s) < 255"
    using that kbd_room_iff [OF inv] by (auto simp: kbd_push_def buf_push_def)
  show "kbd_pop s = (s, None)" if "kbd_items s = []" using kbd_pop_items [OF inv] that by simp
  show "\<exists>s'. kbd_pop s = (s', Some x) \<and> kbd_inv s' \<and> kbd_items s' = xs" if "kbd_items s = x # xs"
    using kbd_pop_items [OF inv] that by simp
qed

section \<open>What a report types\<close>

definition caps_after :: "kbd \<Rightarrow> u8 list \<Rightarrow> bool" where
  "caps_after s kcs = (if 0x39 \<in> set (prev_keys s) then caps s
     else (caps s \<noteq> odd (length (filter ((=) 0x39) kcs))))"

definition report_chars :: "key_state \<Rightarrow> kbd \<Rightarrow> bytes" where
  "report_chars ks s = filter (\<lambda>c. c \<noteq> 0)
     (map (key_char (modifier ks AND MOD_SHIFT \<noteq> 0) (caps_after s (keycodes ks)))
       (filter (\<lambda>kc. kc \<noteq> 0 \<and> kc \<noteq> 1 \<and> kc \<notin> set (prev_keys s)) (keycodes ks)))"

lemma caps_fold: "fold caps_step kcs s = s\<lparr>caps := caps_after s kcs\<rparr>"
  by (induction kcs arbitrary: s) (auto simp: caps_after_def caps_step_def)

lemma key_fold:
  assumes "kbd_inv s"
  shows "kbd_inv (fold (key_step shift) kcs s) \<and> kbd_items (fold (key_step shift) kcs s) = kbd_items s
    @ take (255 - length (kbd_items s)) (filter (\<lambda>c. c \<noteq> 0) (map (key_char shift (caps s))
       (filter (\<lambda>kc. kc \<noteq> 0 \<and> kc \<noteq> 1 \<and> kc \<notin> set (prev_keys s)) kcs)))"
  using assms
proof (induction kcs arbitrary: s)
  case Nil
  then show ?case by simp
next
  case (Cons kc kcs)
  show ?case
  proof (cases "kc = 0 \<or> kc = 1 \<or> kc \<in> set (prev_keys s) \<or> key_char shift (caps s) kc = 0")
    case True
    then have "key_step shift kc s = s" by (auto simp: key_step_def)
    with Cons True show ?thesis by auto
  next
    case False
    let ?c = "key_char shift (caps s) kc" and ?t = "key_step shift kc s"
    have inv: "kbd_inv ?t" using False Cons.prems buf_push_inv [of s ?c]
      by (auto simp: key_step_def kbd_inv_def Let_def)
    have it: "kbd_items ?t = (if length (kbd_items s) < 255 then kbd_items s @ [?c] else kbd_items s)"
      using False buf_push_items [OF Cons.prems, of ?c]
      by (auto simp: key_step_def kbd_items_def Let_def)
    have "caps ?t = caps s" "prev_keys ?t = prev_keys s"
      by (auto simp: key_step_def buf_push_def Let_def)
    with Cons.IH [OF inv] it False show ?thesis
      by (auto simp: take_Cons' split: if_splits)
  qed
qed

lemma on_keyboard_items:
  assumes "kbd_inv s"
  shows "kbd_inv (on_keyboard ks s) \<and> kbd_items (on_keyboard ks s)
    = kbd_items s @ take (255 - length (kbd_items s)) (report_chars ks s)"
proof -
  let ?s = "s\<lparr>caps := caps_after s (keycodes ks)\<rparr>"
  have "kbd_inv ?s" "kbd_items ?s = kbd_items s" using assms by (auto simp: kbd_inv_def kbd_items_def)
  with key_fold [of ?s "modifier ks AND MOD_SHIFT \<noteq> 0" "keycodes ks"] show ?thesis
    by (simp add: on_keyboard_def caps_fold report_chars_def Let_def kbd_items_def kbd_inv_def)
qed

section \<open>Properties\<close>

definition demo_kbd :: kbd where
  "demo_kbd = keyboard_init \<lparr>kbuf = replicate KBD_BUF_SIZE 0, buf_head = 0, buf_tail = 0, caps = False,
     user_cb = False, prev_keys = [], cb_log = []\<rparr>"

lemma demo_kbd_inv: "kbd_inv demo_kbd" "kbd_items demo_kbd = []"
  by (simp_all add: demo_kbd_def keyboard_init_def kbd_inv_def KBD_BUF_SIZE_def kbd_items_def ring_count_def)

text \<open>
  C36: a report appends to the buffer exactly the characters of the keys that were not down
  in the previous report, in order, as far as there is room; so a report repeated while
  the keys stay down types nothing.
\<close>

theorem keyboard_types_new_keys:
  assumes "kbd_inv s"
  shows "kbd_items (on_keyboard ks s) = kbd_items s @ take (255 - length (kbd_items s)) (report_chars ks s)
    \<and> kbd_items (on_keyboard ks (on_keyboard ks s)) = kbd_items (on_keyboard ks s)"
proof -
  have "filter (\<lambda>kc. kc \<noteq> 0 \<and> kc \<noteq> 1 \<and> kc \<notin> set (keycodes ks)) (keycodes ks) = []"
    by (simp add: filter_empty_conv)
  then have "report_chars ks (on_keyboard ks s) = []"
    by (simp add: report_chars_def on_keyboard_def Let_def)
  with on_keyboard_items [OF assms] on_keyboard_items [of "on_keyboard ks s" ks] show ?thesis
    by (metis assms on_keyboard_items append_Nil2 take_Nil)
qed

lemma demo_report: "report_chars \<lparr>modifier = 2, keycodes = [4, 0x2C, 0, 0, 0, 0]\<rparr> demo_kbd = [65, 32]"
  by (simp add: report_chars_def caps_after_def key_char_def MOD_SHIFT_def HID_SHIFT_MAP_def
    demo_kbd_def keyboard_init_def chars_def nth_append)

theorem keyboard_types_new_keys_witness:
  "kbd_items (on_keyboard \<lparr>modifier = 2, keycodes = [4, 0x2C, 0, 0, 0, 0]\<rparr> demo_kbd) = [65, 32]"
  using keyboard_types_new_keys [OF demo_kbd_inv(1), of "\<lparr>modifier = 2, keycodes = [4, 0x2C, 0, 0, 0, 0]\<rparr>"]
  unfolding demo_report demo_kbd_inv by simp

text \<open>
  C31: the characters read by \<^verbatim>\<open>keyboard_getchar\<close> are the ones typed, in order, over any
  sequence of typed characters and reads.
\<close>

theorem keyboard_fifo:
  assumes "kbd_inv s" "run_queue kbd_push kbd_pop s ops = (s', typed, got)"
  shows "kbd_inv s' \<and> got @ kbd_items s' = kbd_items s @ typed"
  using kb.run_fifo [OF assms(1) _ assms(2)] by (simp add: pushes_valid_def)

theorem keyboard_fifo_witness:
  "\<exists>s'. run_queue kbd_push kbd_pop demo_kbd [Push 97, Push 98, Pop, Pop] = (s', [97, 98], [97, 98])
    \<and> kbd_items s' = []"
proof -
  obtain s' typed got where r: "run_queue kbd_push kbd_pop demo_kbd [Push 97, Push 98, Pop, Pop] = (s', typed, got)"
    by (cases "run_queue kbd_push kbd_pop demo_kbd [Push 97, Push 98, Pop, Pop]")
  have "typed = [97, 98]" "got = [97, 98]"
    using r by (auto simp: demo_kbd_def keyboard_init_def kbd_push_def kbd_pop_def buf_push_def
      keyboard_haschar_def keyboard_getchar_def KBD_BUF_SIZE_def Let_def)
  with keyboard_fifo [OF demo_kbd_inv(1) r] r show ?thesis by (auto simp: demo_kbd_inv)
qed

text \<open>
  With Caps Lock on and Shift held a letter key still types the upper-case letter; the
  branch that would turn it to lower case needs an upper-case letter from the unshifted
  table, and that table has none.
\<close>

lemma caps_shift_table:
  "list_all (\<lambda>n. key_char True True (of_nat n) = key_char True False (of_nat n)
     \<and> 65 \<le> key_char True True (of_nat n) \<and> key_char True True (of_nat n) \<le> 90) [4..<30]"
  by code_simp

lemma caps_shift_stays_upper:
  assumes "4 \<le> unat kc" "unat kc < 30"
  shows "key_char True True kc = key_char True False kc \<and> 65 \<le> key_char True True kc
    \<and> key_char True True kc \<le> 90"
proof -
  have "unat kc \<in> set [4..<30]" using assms by (simp del: upt_rec_numeral)
  with caps_shift_table have "key_char True True (of_nat (unat kc)) = key_char True False (of_nat (unat kc))
     \<and> 65 \<le> key_char True True (of_nat (unat kc)) \<and> key_char True True (of_nat (unat kc)) \<le> 90"
    unfolding list_all_iff by (rule bspec)
  then show ?thesis unfolding of_nat_unat ucast_id .
qed

end
