(* ===== verification/Pmm.thy ===== *)
theory Pmm
  imports Interfaces
begin

unbundle bit_operations_syntax

text \<open>
  The physical page allocator (\<^verbatim>\<open>kernel/pmm.cpp\<close>): one bit per 4 KiB page in an array of
  32768 bytes, set when the page is in use. Page numbers are below \<open>2 ^ 20\<close>, since the
  memory size is a 32-bit number of bytes, and are natural numbers in the loops; the
  counters are machine words. An access past the array is the value \<open>Inl OutOfBounds\<close>.
\<close>

definition PAGE_SIZE :: nat where "PAGE_SIZE = 4096"
definition BITMAP_BYTES :: nat where "BITMAP_BYTES = 1024 * 32"

record pmm =
  bitmap :: bytes
  total_pages :: u32
  used_pages :: u32
  bitmap_size :: u32

section \<open>Operations\<close>

definition bitmap_set :: "nat \<Rightarrow> bytes \<Rightarrow> fault + bytes" where
  "bitmap_set page bm = (if page div 8 < length bm
     then Inr (bm[page div 8 := bm ! (page div 8) OR push_bit (page mod 8) 1]) else Inl OutOfBounds)"

definition bitmap_clear :: "nat \<Rightarrow> bytes \<Rightarrow> fault + bytes" where
  "bitmap_clear page bm = (if page div 8 < length bm
     then Inr (bm[page div 8 := bm ! (page div 8) AND NOT (push_bit (page mod 8) 1)]) else Inl OutOfBounds)"

definition bitmap_test :: "nat \<Rightarrow> bytes \<Rightarrow> fault + bool" where
  "bitmap_test page bm = (if page div 8 < length bm
     then Inr (bm ! (page div 8) AND push_bit (page mod 8) 1 \<noteq> 0) else Inl OutOfBounds)"

text \<open>\<open>kernel_end\<close> is the address the linker script gives the symbol.\<close>

definition pmm_init :: "u32 \<Rightarrow> u32 \<Rightarrow> pmm \<Rightarrow> fault + pmm" where
  "pmm_init kernel_end mem_size s =
     (let total = mem_size div of_nat PAGE_SIZE;
          bsize = total div 8;
          first_free = (kernel_end + of_nat PAGE_SIZE - 1) div of_nat PAGE_SIZE in
      bindE (foldE (\<lambda>i bm. if i < length bm then Inr (bm[i := 0xFF]) else Inl OutOfBounds)
               [0..<unat bsize] (bitmap s)) (\<lambda>bm1.
      bindE (foldE (\<lambda>i (bm, used). bindE (bitmap_clear i bm) (\<lambda>bm'. Inr (bm', used - 1)))
               [unat first_free..<unat total] (bm1, total)) (\<lambda>(bm2, used).
      bindE (foldE bitmap_set [0..<256] bm2) (\<lambda>bm3.
      Inr \<lparr>bitmap = bm3, total_pages = total, used_pages = used, bitmap_size = bsize\<rparr>))))"

text \<open>The search of \<^verbatim>\<open>pmm_alloc\<close> from page \<open>i\<close>, with \<open>n\<close> pages left.\<close>

fun pmm_scan :: "bytes \<Rightarrow> nat \<Rightarrow> nat \<Rightarrow> fault + nat option" where
  "pmm_scan bm i 0 = Inr None"
| "pmm_scan bm i (Suc n) =
     bindE (bitmap_test i bm) (\<lambda>b. if \<not> b then Inr (Some i) else pmm_scan bm (Suc i) n)"

definition pmm_alloc :: "pmm \<Rightarrow> fault + (pmm \<times> u32)" where
  "pmm_alloc s = bindE (pmm_scan (bitmap s) 0 (unat (total_pages s))) (\<lambda>r. case r of
       None \<Rightarrow> Inr (s, 0)
     | Some i \<Rightarrow> bindE (bitmap_set i (bitmap s)) (\<lambda>bm.
         Inr (s\<lparr>bitmap := bm, used_pages := used_pages s + 1\<rparr>, of_nat i * of_nat PAGE_SIZE)))"

definition pmm_free :: "u32 \<Rightarrow> pmm \<Rightarrow> fault + pmm" where
  "pmm_free addr s =
     (let page = unat (addr div of_nat PAGE_SIZE) in
      bindE (bitmap_test page (bitmap s)) (\<lambda>b. if b
        then bindE (bitmap_clear page (bitmap s)) (\<lambda>bm.
          Inr (s\<lparr>bitmap := bm, used_pages := used_pages s - 1\<rparr>))
        else Inr s))"

definition pmm_free_pages :: "pmm \<Rightarrow> u32" where
  "pmm_free_pages s = total_pages s - used_pages s"

definition pmm_used_pages :: "pmm \<Rightarrow> u32" where
  "pmm_used_pages s = used_pages s"

section \<open>The set of pages in use\<close>

definition page_bit :: "bytes \<Rightarrow> nat \<Rightarrow> bool" where
  "page_bit bm p = bit (bm ! (p div 8)) (p mod 8)"

definition pages_used :: "pmm \<Rightarrow> nat set" where
  "pages_used s = {p. p < unat (total_pages s) \<and> page_bit (bitmap s) p}"

definition pmm_inv :: "pmm \<Rightarrow> bool" where
  "pmm_inv s \<longleftrightarrow> length (bitmap s) = BITMAP_BYTES \<and> unat (total_pages s) \<le> 8 * BITMAP_BYTES
     \<and> unat (used_pages s) = card (pages_used s)"

lemma test_bit: "(w :: u8) AND push_bit n 1 \<noteq> 0 \<longleftrightarrow> bit w n"
  by (simp add: and_exp_eq_0_iff_not_bit)

lemma page_eqD: "p div 8 = q div 8 \<Longrightarrow> p mod 8 = q mod (8::nat) \<Longrightarrow> p = q"
  by (metis div_mult_mod_eq)

lemma bitmap_set_spec:
  assumes "p < 8 * length bm"
  shows "\<exists>bm'. bitmap_set p bm = Inr bm' \<and> length bm' = length bm
    \<and> (\<forall>q < 8 * length bm. page_bit bm' q \<longleftrightarrow> q = p \<or> page_bit bm q)"
  using assms
  by (auto simp: bitmap_set_def page_bit_def nth_list_update bit_simps dest: page_eqD)

lemma bitmap_clear_spec:
  assumes "p < 8 * length bm"
  shows "\<exists>bm'. bitmap_clear p bm = Inr bm' \<and> length bm' = length bm
    \<and> (\<forall>q < 8 * length bm. page_bit bm' q \<longleftrightarrow> q \<noteq> p \<and> page_bit bm q)"
  using assms
  by (auto simp: bitmap_clear_def page_bit_def nth_list_update bit_simps dest: page_eqD)

lemma bitmap_test_spec: "p < 8 * length bm \<Longrightarrow> bitmap_test p bm = Inr (page_bit bm p)"
  unfolding bitmap_test_def page_bit_def test_bit by simp

lemma pmm_scan_spec:
  assumes "i + n \<le> 8 * length bm"
  shows "(pmm_scan bm i n = Inr None \<and> (\<forall>p. i \<le> p \<and> p < i + n \<longrightarrow> page_bit bm p))
    \<or> (\<exists>p. pmm_scan bm i n = Inr (Some p) \<and> i \<le> p \<and> p < i + n \<and> \<not> page_bit bm p
        \<and> (\<forall>q. i \<le> q \<and> q < p \<longrightarrow> page_bit bm q))"
  using assms
proof (induction n arbitrary: i)
  case 0
  then show ?case by auto
next
  case (Suc n)
  have t: "bitmap_test i bm = Inr (page_bit bm i)" using Suc.prems by (intro bitmap_test_spec) simp
  show ?case
  proof (cases "page_bit bm i")
    case False
    with t show ?thesis by auto
  next
    case True
    with t have "pmm_scan bm i (Suc n) = pmm_scan bm (Suc i) n" by simp
    moreover have "(\<forall>q. i \<le> q \<and> q < m \<longrightarrow> page_bit bm q) \<longleftrightarrow> (\<forall>q. Suc i \<le> q \<and> q < m \<longrightarrow> page_bit bm q)" for m
      using True by (metis Suc_leD Suc_leI le_neq_implies_less)
    ultimately show ?thesis
      using Suc.IH [of "Suc i"] Suc.prems by (auto dest: Suc_leD)
  qed
qed

lemma pages_used_finite [simp]: "finite (pages_used s)"
  by (simp add: pages_used_def)

lemma pages_used_card: "card (pages_used s) \<le> unat (total_pages s)"
proof -
  have "card (pages_used s) \<le> card {..<unat (total_pages s)}"
    by (intro card_mono) (auto simp: pages_used_def)
  then show ?thesis by simp
qed

lemma page_addr:
  "p < 8 * BITMAP_BYTES \<Longrightarrow> unat (of_nat p * of_nat PAGE_SIZE :: u32) = p * 4096"
  by (simp add: PAGE_SIZE_def BITMAP_BYTES_def unat_mult_lt unat_of_nat32)

text \<open>What an allocation does to the set of pages in use.\<close>

lemma pmm_alloc_spec:
  assumes inv: "pmm_inv s"
  shows "(pmm_alloc s = Inr (s, 0) \<and> pages_used s = {..<unat (total_pages s)})
    \<or> (\<exists>s' p. pmm_alloc s = Inr (s', of_nat p * of_nat PAGE_SIZE) \<and> pmm_inv s'
        \<and> p \<notin> pages_used s \<and> p < unat (total_pages s) \<and> pages_used s' = insert p (pages_used s)
        \<and> total_pages s' = total_pages s \<and> {..<p} \<subseteq> pages_used s)"
proof -
  let ?t = "unat (total_pages s)"
  have len: "0 + ?t \<le> 8 * length (bitmap s)" using inv by (simp add: pmm_inv_def)
  from pmm_scan_spec [OF len] consider
    (none) "pmm_scan (bitmap s) 0 ?t = Inr None" "\<forall>p < ?t. page_bit (bitmap s) p"
  | (some) p where "pmm_scan (bitmap s) 0 ?t = Inr (Some p)" "p < ?t" "\<not> page_bit (bitmap s) p"
      "\<forall>q < p. page_bit (bitmap s) q"
    by auto
  then show ?thesis
  proof cases
    case none
    then have "pages_used s = {..<?t}" by (auto simp: pages_used_def)
    with none show ?thesis by (simp add: pmm_alloc_def)
  next
    case some
    obtain bm where bm: "bitmap_set p (bitmap s) = Inr bm" "length bm = length (bitmap s)"
      "\<forall>q < 8 * length (bitmap s). page_bit bm q \<longleftrightarrow> q = p \<or> page_bit (bitmap s) q"
      using bitmap_set_spec [of p "bitmap s"] some(2) len by auto
    let ?s = "s\<lparr>bitmap := bm, used_pages := used_pages s + 1\<rparr>"
    have u: "pages_used ?s = insert p (pages_used s)" and np: "p \<notin> pages_used s"
      using bm(3) len some(2,3) by (auto simp: pages_used_def)
    then have "card (pages_used s) + 1 \<le> ?t" using pages_used_card [of ?s] by simp
    then have "unat (used_pages s + 1) = card (pages_used s) + 1"
      using inv unat_lt32 [of "total_pages s"] by (simp add: pmm_inv_def unat_plus_one)
    then have "pmm_inv ?s" using inv u np bm(2) by (simp add: pmm_inv_def)
    moreover have "{..<p} \<subseteq> pages_used s" using some by (auto simp: pages_used_def)
    ultimately show ?thesis using some(1,2) bm(1) u np by (auto simp: pmm_alloc_def)
  qed
qed

lemma pmm_free_spec:
  assumes inv: "pmm_inv s" and p: "unat addr div 4096 < unat (total_pages s)"
  shows "\<exists>s'. pmm_free addr s = Inr s' \<and> pmm_inv s' \<and> pages_used s' = pages_used s - {unat addr div 4096}
    \<and> total_pages s' = total_pages s"
proof -
  let ?p = "unat addr div 4096"
  have page: "unat (addr div of_nat PAGE_SIZE) = ?p" by (simp add: PAGE_SIZE_def unat_div_distrib)
  have lt: "?p < 8 * length (bitmap s)" using inv p by (simp add: pmm_inv_def)
  show ?thesis
  proof (cases "page_bit (bitmap s) ?p")
    case False
    then have "pages_used s - {?p} = pages_used s" by (auto simp: pages_used_def)
    with False inv page bitmap_test_spec [OF lt] show ?thesis by (simp add: pmm_free_def)
  next
    case True
    obtain bm where bm: "bitmap_clear ?p (bitmap s) = Inr bm" "length bm = length (bitmap s)"
      "\<forall>q < 8 * length (bitmap s). page_bit bm q \<longleftrightarrow> q \<noteq> ?p \<and> page_bit (bitmap s) q"
      using bitmap_clear_spec [OF lt] by auto
    let ?s = "s\<lparr>bitmap := bm, used_pages := used_pages s - 1\<rparr>"
    have u: "pages_used ?s = pages_used s - {?p}"
      using bm(3) inv by (auto simp: pages_used_def pmm_inv_def)
    have mem: "?p \<in> pages_used s" using True p by (simp add: pages_used_def)
    then have "0 < card (pages_used s)" by (auto simp: card_gt_0_iff)
    then have "1 \<le> used_pages s" using inv by (simp add: pmm_inv_def word_le_nat_alt)
    then have "unat (used_pages s - 1) = card (pages_used s) - 1"
      using inv by (simp add: pmm_inv_def unat_minus_le)
    then have "pmm_inv ?s" using inv u mem bm(2) by (simp add: pmm_inv_def)
    with True u page bm(1) bitmap_test_spec [OF lt] show ?thesis by (simp add: pmm_free_def)
  qed
qed

section \<open>The allocator as a provider of frames\<close>

definition pmm_ok :: "pmm \<Rightarrow> bool" where
  "pmm_ok s \<longleftrightarrow> pmm_inv s \<and> 0 \<in> pages_used s"

definition pmm_frames :: "pmm \<Rightarrow> u32 set" where
  "pmm_frames s = (\<lambda>p. of_nat p * of_nat PAGE_SIZE) ` pages_used s"

definition pmm_take :: "pmm \<Rightarrow> pmm \<times> u32" where
  "pmm_take s = (case pmm_alloc s of Inr r \<Rightarrow> r | Inl _ \<Rightarrow> (s, 0))"

lemma pmm_alloc_take:
  assumes "pmm_inv s"
  shows "pmm_alloc s = Inr (pmm_take s)"
  using pmm_alloc_spec [OF assms] by (elim disjE exE conjE) (simp_all add: pmm_take_def)

lemma page_addr_inj:
  assumes "p < 8 * BITMAP_BYTES" "q < 8 * BITMAP_BYTES"
    and eq: "of_nat p * of_nat PAGE_SIZE = (of_nat q * of_nat PAGE_SIZE :: u32)"
  shows "p = q"
proof -
  have "p * 4096 = unat (of_nat p * of_nat PAGE_SIZE :: u32)" by (rule page_addr [OF assms(1), symmetric])
  also have "\<dots> = unat (of_nat q * of_nat PAGE_SIZE :: u32)" by (simp only: eq)
  also have "\<dots> = q * 4096" by (rule page_addr [OF assms(2)])
  finally show ?thesis by simp
qed

lemma pages_used_lt: "pmm_inv s \<Longrightarrow> p \<in> pages_used s \<Longrightarrow> p < 8 * BITMAP_BYTES"
  by (auto simp: pmm_inv_def pages_used_def)

interpretation pm: frame_allocator pmm_ok pmm_frames pmm_take
proof unfold_locales
  fix s s' :: pmm and a :: u32
  assume ok: "pmm_ok s"
  then have inv: "pmm_inv s" and z: "0 \<in> pages_used s" by (auto simp: pmm_ok_def)
  show "s' = s" if t: "pmm_take s = (s', 0)"
    using pmm_alloc_spec [OF inv]
  proof (elim disjE exE conjE)
    fix t' p
    assume a: "pmm_alloc s = Inr (t', of_nat p * of_nat PAGE_SIZE)"
      and p: "p \<notin> pages_used s" "p < unat (total_pages s)"
    have e: "of_nat p * of_nat PAGE_SIZE = (of_nat 0 * of_nat PAGE_SIZE :: u32)"
      using a t by (simp add: pmm_take_def)
    have "p = 0"
      by (rule page_addr_inj [OF _ _ e]) (use p inv in \<open>simp_all add: pmm_inv_def BITMAP_BYTES_def\<close>)
    with p z show ?thesis by simp
  qed (use t in \<open>simp add: pmm_take_def\<close>)
  assume t: "pmm_take s = (s', a)" "a \<noteq> 0"
  have "\<exists>p. a = of_nat p * of_nat PAGE_SIZE \<and> pmm_inv s' \<and> p \<notin> pages_used s
    \<and> p < unat (total_pages s) \<and> pages_used s' = insert p (pages_used s)"
    using pmm_alloc_spec [OF inv] by (elim disjE exE conjE) (use t in \<open>auto simp: pmm_take_def\<close>)
  then obtain p where p: "a = of_nat p * of_nat PAGE_SIZE" "pmm_inv s'" "p \<notin> pages_used s"
    "p < unat (total_pages s)" "pages_used s' = insert p (pages_used s)" by blast
  then have lt: "p < 8 * BITMAP_BYTES" using inv by (simp add: pmm_inv_def)
  have "a \<notin> pmm_frames s"
  proof
    assume "a \<in> pmm_frames s"
    then obtain q where q: "q \<in> pages_used s" "a = of_nat q * of_nat PAGE_SIZE" by (auto simp: pmm_frames_def)
    have "p = q" by (rule page_addr_inj [OF lt pages_used_lt [OF inv q(1)]]) (simp only: p(1) [symmetric] q(2))
    with p(3) q(1) show False by simp
  qed
  with p z page_addr [OF lt] show "pmm_ok s' \<and> a \<notin> pmm_frames s
    \<and> pmm_frames s' = insert a (pmm_frames s) \<and> unat a mod 4096 = 0"
    by (simp add: pmm_ok_def pmm_frames_def)
qed

section \<open>Initialisation\<close>

lemma fill_loop:
  assumes "n \<le> length bm"
  shows "\<exists>bm'. foldE (\<lambda>i bm. if i < length bm then Inr (bm[i := 0xFF]) else Inl OutOfBounds) [0..<n] bm = Inr bm'
    \<and> length bm' = length bm \<and> (\<forall>i < n. bm' ! i = (0xFF :: u8))"
proof -
  let ?I = "\<lambda>k b. length b = length bm \<and> (\<forall>i < k. b ! i = (0xFF :: u8))"
  have step: "\<exists>s'. (if i < length s then Inr (s[i := 0xFF]) else Inl OutOfBounds) = Inr s' \<and> ?I (Suc i) s'"
    if "0 \<le> i" "i < n" "?I i s" for i s
    using that assms by (auto simp: nth_list_update)
  from foldE_upt_inv [of ?I 0 bm n, OF _ _ step] show ?thesis by auto
qed

lemma clear_loop:
  assumes "lo \<le> hi" "hi \<le> 8 * length bm"
  shows "\<exists>bm'. foldE (\<lambda>i (bm, used). bindE (bitmap_clear i bm) (\<lambda>bm'. Inr (bm', used - 1))) [lo..<hi] (bm, u :: u32)
      = Inr (bm', u - of_nat (hi - lo))
    \<and> length bm' = length bm \<and> (\<forall>q < 8 * length bm. page_bit bm' q \<longleftrightarrow> \<not> (lo \<le> q \<and> q < hi) \<and> page_bit bm q)"
proof -
  let ?I = "\<lambda>k (b, v). length b = length bm \<and> v = u - (of_nat (k - lo) :: u32)
    \<and> (\<forall>q < 8 * length bm. page_bit b q \<longleftrightarrow> \<not> (lo \<le> q \<and> q < k) \<and> page_bit bm q)"
  have step: "\<exists>s'. (case s of (bm, used) \<Rightarrow> bindE (bitmap_clear i bm) (\<lambda>bm'. Inr (bm', used - 1))) = Inr s' \<and> ?I (Suc i) s'"
    if "lo \<le> i" "i < hi" "?I i s" for i s
  proof -
    obtain b v where s: "s = (b, v)" by fastforce
    from that s assms obtain b' where "bitmap_clear i b = Inr b'" "length b' = length b"
      "\<forall>q < 8 * length b. page_bit b' q \<longleftrightarrow> q \<noteq> i \<and> page_bit b q"
      using bitmap_clear_spec [of i b] by auto
    with that s show ?thesis by (auto simp: Suc_diff_le less_Suc_eq)
  qed
  from foldE_upt_inv [of ?I lo "(bm, u)" hi, OF _ assms(1) step] show ?thesis by auto
qed

lemma set_loop:
  assumes "n \<le> 8 * length bm"
  shows "\<exists>bm'. foldE bitmap_set [0..<n] bm = Inr bm' \<and> length bm' = length bm
    \<and> (\<forall>q < 8 * length bm. page_bit bm' q \<longleftrightarrow> q < n \<or> page_bit bm q)"
proof -
  let ?I = "\<lambda>k b. length b = length bm \<and> (\<forall>q < 8 * length bm. page_bit b q \<longleftrightarrow> q < k \<or> page_bit bm q)"
  have step: "\<exists>s'. bitmap_set i s = Inr s' \<and> ?I (Suc i) s'" if "0 \<le> i" "i < n" "?I i s" for i s
    using bitmap_set_spec [of i s] that assms by (auto simp: less_Suc_eq)
  from foldE_upt_inv [of ?I 0 bm n, OF _ _ step] show ?thesis by auto
qed

definition first_free_page :: "u32 \<Rightarrow> nat" where
  "first_free_page kernel_end = (unat kernel_end + 4095) div 4096"

lemma full_byte: "bit (0xFF :: u8) n \<longleftrightarrow> n < 8"
proof -
  have "(0xFF :: u8) = mask 8" by (simp add: mask_eq_exp_minus_1)
  then show ?thesis by (simp only: bit_mask_iff) simp
qed

section \<open>Properties\<close>

text \<open>
  C20: after \<^verbatim>\<open>pmm_init\<close>, for a kernel that ends above 1 MiB inside a memory of at most 1 GiB,
  no access was out of bounds, the counters agree with the bitmap, and the pages in use
  are exactly the ones below the end of the kernel.
\<close>

theorem pmm_init_correct:
  assumes len: "length (bitmap s) = BITMAP_BYTES" and mem: "unat mem \<le> 2 ^ 30"
    and ke: "2 ^ 20 \<le> unat kernel_end" "first_free_page kernel_end \<le> 8 * (unat mem div 32768)"
  shows "\<exists>s'. pmm_init kernel_end mem s = Inr s' \<and> pmm_inv s' \<and> total_pages s' = mem div 4096
    \<and> pages_used s' = {..<first_free_page kernel_end}"
proof -
  let ?t = "unat mem div 4096" and ?f = "first_free_page kernel_end"
  have t: "unat (mem div of_nat PAGE_SIZE) = ?t" "unat (mem div of_nat PAGE_SIZE div 8) = unat mem div 32768"
    by (simp_all add: PAGE_SIZE_def unat_div_distrib div_mult2_eq [symmetric])
  have tb: "?t \<le> 8 * BITMAP_BYTES" "8 * (unat mem div 32768) \<le> ?t" "256 \<le> ?f"
    using mem ke(1) by (auto simp: BITMAP_BYTES_def first_free_page_def div_mult2_eq [of _ 4096 8, simplified])
  have "?f \<le> ?t" using tb ke(2) by linarith
  then have "unat kernel_end + 4095 < 2 ^ 32"
    using mem by (simp add: first_free_page_def)
  then have "unat (kernel_end + 4095) = unat kernel_end + 4095" by (simp add: unat_plus_if)
  then have f: "unat ((kernel_end + of_nat PAGE_SIZE - 1) div of_nat PAGE_SIZE) = ?f"
    by (simp add: PAGE_SIZE_def unat_div_distrib first_free_page_def add_diff_eq [symmetric])
  obtain bm1 where b1: "foldE (\<lambda>i bm. if i < length bm then Inr (bm[i := 0xFF]) else Inl OutOfBounds)
      [0..<unat mem div 32768] (bitmap s) = Inr bm1" "length bm1 = BITMAP_BYTES" "\<forall>i < unat mem div 32768. bm1 ! i = 0xFF"
    using fill_loop [of "unat mem div 32768" "bitmap s"] len tb by (auto simp: BITMAP_BYTES_def)
  obtain bm2 where b2: "foldE (\<lambda>i (bm, used). bindE (bitmap_clear i bm) (\<lambda>bm'. Inr (bm', used - 1))) [?f..<?t]
      (bm1, mem div of_nat PAGE_SIZE) = Inr (bm2, mem div of_nat PAGE_SIZE - of_nat (?t - ?f))"
    "length bm2 = BITMAP_BYTES"
    "\<forall>q < 8 * BITMAP_BYTES. page_bit bm2 q \<longleftrightarrow> \<not> (?f \<le> q \<and> q < ?t) \<and> page_bit bm1 q"
    using clear_loop [OF \<open>?f \<le> ?t\<close>, of bm1 "mem div of_nat PAGE_SIZE"] b1(2) tb by auto
  obtain bm3 where b3: "foldE bitmap_set [0..<256] bm2 = Inr bm3" "length bm3 = BITMAP_BYTES"
    "\<forall>q < 8 * BITMAP_BYTES. page_bit bm3 q \<longleftrightarrow> q < 256 \<or> page_bit bm2 q"
    using set_loop [of 256 bm2] b2(2) by (auto simp: BITMAP_BYTES_def)
  let ?s = "\<lparr>bitmap = bm3, total_pages = mem div of_nat PAGE_SIZE,
    used_pages = mem div of_nat PAGE_SIZE - of_nat (?t - ?f), bitmap_size = mem div of_nat PAGE_SIZE div 8\<rparr>"
  have init: "pmm_init kernel_end mem s = Inr ?s"
    unfolding pmm_init_def Let_def t f b1(1) bindE_simps b2(1) prod.case b3(1) by simp
  have low: "page_bit bm1 q" if "q < ?f" for q
  proof -
    have "q div 8 < unat mem div 32768" using that ke(2) by linarith
    with b1(3) have "bm1 ! (q div 8) = 0xFF" by blast
    then show ?thesis by (simp only: page_bit_def full_byte mod_less_divisor)
  qed
  have used: "pages_used ?s = {..<?f}"
    using b2(3) b3(3) low tb t(1) \<open>?f \<le> ?t\<close> by (auto simp: pages_used_def)
  have d: "unat (of_nat (?t - ?f) :: u32) = ?t - ?f"
    using mem by (intro unat_of_nat32) auto
  then have le: "(of_nat (?t - ?f) :: u32) \<le> mem div of_nat PAGE_SIZE"
    by (simp only: word_le_nat_alt t(1) diff_le_self)
  have "unat (mem div of_nat PAGE_SIZE - of_nat (?t - ?f)) = ?f"
    using \<open>?f \<le> ?t\<close> by (simp only: unat_minus_le [OF le] t(1) d diff_diff_cancel)
  with used b3(2) tb t have "pmm_inv ?s" by (simp add: pmm_inv_def)
  with init used show ?thesis by (auto simp: PAGE_SIZE_def)
qed

definition demo_pmm :: pmm where
  "demo_pmm = \<lparr>bitmap = replicate BITMAP_BYTES 0, total_pages = 0, used_pages = 0, bitmap_size = 0\<rparr>"

theorem pmm_init_correct_witness:
  "\<exists>s'. pmm_init 0x522000 0x2000000 demo_pmm = Inr s' \<and> pmm_inv s' \<and> pages_used s' = {..<1314}"
  using pmm_init_correct [of demo_pmm "0x2000000" "0x522000"]
  by (auto simp: demo_pmm_def first_free_page_def)

text \<open>
  Frames handed out by a run of allocations are distinct, page aligned and were not in
  use before, until the null address reports that memory is exhausted; freeing a frame
  takes exactly it out of use.
\<close>

theorem pmm_frames_fresh:
  assumes "pmm_ok s" "alloc_n pmm_take n s = (s', ps)" "0 \<notin> set ps"
  shows "length ps = n \<and> distinct ps \<and> set ps \<inter> pmm_frames s = {} \<and> pmm_frames s' = pmm_frames s \<union> set ps
    \<and> pmm_ok s'"
  using pm.alloc_n_distinct [OF assms] by blast

definition small_pmm :: pmm where
  "small_pmm = \<lparr>bitmap = 1 # replicate 32767 0, total_pages = 3, used_pages = 1, bitmap_size = 0\<rparr>"

lemma small_pmm_ok: "pmm_ok small_pmm"
proof -
  have t: "unat (total_pages small_pmm) = 3" by (simp add: small_pmm_def)
  have "p = 0 \<or> p = 1 \<or> p = 2" if "p < 3" for p :: nat using that by auto
  then have "pages_used small_pmm = {0}"
    unfolding pages_used_def t by (fastforce simp: small_pmm_def page_bit_def)
  then show ?thesis by (simp add: pmm_ok_def pmm_inv_def) (simp add: small_pmm_def BITMAP_BYTES_def)
qed

lemma pmm_scan_3:
  "pmm_scan bm i 3 = bindE (bitmap_test i bm) (\<lambda>b. if \<not> b then Inr (Some i) else
     bindE (bitmap_test (Suc i) bm) (\<lambda>b. if \<not> b then Inr (Some (Suc i)) else
     bindE (bitmap_test (Suc (Suc i)) bm) (\<lambda>b. if \<not> b then Inr (Some (Suc (Suc i))) else Inr None)))"
  by (simp add: numeral_3_eq_3 cong: if_cong)

theorem pmm_frames_fresh_witness:
  "\<exists>s'. alloc_n pmm_take 2 small_pmm = (s', [4096, 8192]) \<and> pmm_ok s'"
proof -
  obtain s' ps where r: "alloc_n pmm_take 2 small_pmm = (s', ps)" by fastforce
  let ?s1 = "\<lparr>bitmap = 3 # replicate 32767 0, total_pages = 3, used_pages = 2, bitmap_size = 0\<rparr>"
  let ?s2 = "\<lparr>bitmap = 7 # replicate 32767 0, total_pages = 3, used_pages = 3, bitmap_size = 0\<rparr>"
  have "pmm_take small_pmm = (?s1, 4096)" "pmm_take ?s1 = (?s2, 8192)"
    by (simp_all add: pmm_take_def pmm_alloc_def small_pmm_def pmm_scan_3 bitmap_test_def
      bitmap_set_def PAGE_SIZE_def)
  then have "ps = [4096, 8192]"
    using r by (simp add: numeral_2_eq_2)
  with pmm_frames_fresh [OF small_pmm_ok r] r show ?thesis by auto
qed

end
