(* ===== verification/Paging.thy ===== *)
theory Paging
  imports Pmm
begin

unbundle bit_operations_syntax

text \<open>
  Paging (\<^verbatim>\<open>kernel/paging.cpp\<close>): the two-level page tables as the page directory and a store
  of 32-bit words. The code reaches a page table through its physical address, as the
  identity mapping of low memory lets it; the store is indexed by that address. Loading
  CR3, setting CR0 and the TLB flush (inline assembly) have no counterpart: the model is
  the memory the processor walks.
\<close>

definition PAGE_PRESENT :: u32 where "PAGE_PRESENT = 1"
definition PAGE_WRITE :: u32 where "PAGE_WRITE = 2"
definition PAGE_USER :: u32 where "PAGE_USER = 4"

record vm =
  pdir :: "u32 list"
  pmem :: "u32 \<Rightarrow> u32"
  pmm_st :: pmm

section \<open>Operations\<close>

definition pd_idx :: "u32 \<Rightarrow> nat" where
  "pd_idx virt = unat (drop_bit 22 virt)"

definition pt_idx :: "u32 \<Rightarrow> u32" where
  "pt_idx virt = drop_bit 12 virt AND 0x3FF"

definition zero_table :: "u32 \<Rightarrow> (u32 \<Rightarrow> u32) \<Rightarrow> (u32 \<Rightarrow> u32)" where
  "zero_table pt m = fold (\<lambda>i m. m(pt + 4 * of_nat i := 0)) [0..<1024] m"

definition get_or_create_pt :: "nat \<Rightarrow> vm \<Rightarrow> fault + (vm \<times> u32)" where
  "get_or_create_pt i s =
     (if pdir s ! i AND PAGE_PRESENT = 0 then
        bindE (pmm_alloc (pmm_st s)) (\<lambda>(p, pt).
          let s' = s\<lparr>pmm_st := p, pmem := zero_table pt (pmem s),
                     pdir := (pdir s)[i := pt OR PAGE_PRESENT OR PAGE_WRITE OR PAGE_USER]\<rparr>
          in Inr (s', pdir s' ! i AND NOT 0xFFF))
      else Inr (s, pdir s ! i AND NOT 0xFFF))"

text \<open>\<open>low\<close> and \<open>high\<close> are the addresses of the two static tables.\<close>

definition paging_init :: "u32 \<Rightarrow> u32 \<Rightarrow> vm \<Rightarrow> vm" where
  "paging_init low high s =
     (let m1 = fold (\<lambda>i m. m(low + 4 * of_nat i := (of_nat i * 4096) OR PAGE_PRESENT OR PAGE_WRITE)) [0..<1024] (pmem s);
          m2 = fold (\<lambda>i m. m(high + 4 * of_nat i := (0x400000 + of_nat i * 4096) OR PAGE_PRESENT OR PAGE_WRITE)) [0..<1024] m1
      in s\<lparr>pmem := m2, pdir := (replicate 1024 0)
             [0 := low OR PAGE_PRESENT OR PAGE_WRITE, 1 := high OR PAGE_PRESENT OR PAGE_WRITE]\<rparr>)"

definition paging_map :: "u32 \<Rightarrow> u32 \<Rightarrow> u32 \<Rightarrow> vm \<Rightarrow> fault + vm" where
  "paging_map virt phys flags s =
     bindE (get_or_create_pt (pd_idx virt) s) (\<lambda>(s', pt).
       Inr (s'\<lparr>pmem := (pmem s')(pt + 4 * pt_idx virt :=
              (phys AND NOT 0xFFF) OR (flags AND 0xFFF) OR PAGE_PRESENT)\<rparr>))"

definition paging_unmap :: "u32 \<Rightarrow> vm \<Rightarrow> vm" where
  "paging_unmap virt s =
     (if pdir s ! pd_idx virt AND PAGE_PRESENT = 0 then s
      else let pt = pdir s ! pd_idx virt AND NOT 0xFFF in
        s\<lparr>pmem := (pmem s)(pt + 4 * pt_idx virt := 0)\<rparr>)"

definition pages_of :: "u32 \<Rightarrow> nat" where
  "pages_of sz = unat ((sz + 4095) div 4096)"

definition paging_map_region :: "u32 \<Rightarrow> u32 \<Rightarrow> u32 \<Rightarrow> u32 \<Rightarrow> vm \<Rightarrow> fault + vm" where
  "paging_map_region virt phys sz flags s =
     foldE (\<lambda>i. paging_map (virt + of_nat i * 4096) (phys + of_nat i * 4096) flags) [0..<pages_of sz] s"

text \<open>The loop of \<^verbatim>\<open>paging_alloc_region\<close> from page \<open>i\<close>, with \<open>n\<close> pages left.\<close>

fun alloc_region_loop :: "u32 \<Rightarrow> u32 \<Rightarrow> nat \<Rightarrow> nat \<Rightarrow> vm \<Rightarrow> fault + (vm \<times> bool)" where
  "alloc_region_loop virt flags i 0 s = Inr (s, True)"
| "alloc_region_loop virt flags i (Suc n) s =
     bindE (pmm_alloc (pmm_st s)) (\<lambda>(p, phys).
       let s1 = s\<lparr>pmm_st := p\<rparr> in
       if phys = 0 then Inr (s1, False)
       else bindE (paging_map (virt + of_nat i * 4096) phys flags s1)
         (alloc_region_loop virt flags (Suc i) n))"

definition paging_alloc_region :: "u32 \<Rightarrow> u32 \<Rightarrow> u32 \<Rightarrow> vm \<Rightarrow> fault + (vm \<times> bool)" where
  "paging_alloc_region virt sz flags s = alloc_region_loop virt flags 0 (pages_of sz) s"

definition paging_get_physaddr :: "u32 \<Rightarrow> vm \<Rightarrow> u32" where
  "paging_get_physaddr virt s =
     (if pdir s ! pd_idx virt AND PAGE_PRESENT = 0 then 0
      else let pt = pdir s ! pd_idx virt AND NOT 0xFFF; e = pmem s (pt + 4 * pt_idx virt) in
        if e AND PAGE_PRESENT = 0 then 0 else (e AND NOT 0xFFF) + (virt AND 0xFFF))"

definition paging_is_mapped :: "u32 \<Rightarrow> vm \<Rightarrow> bool" where
  "paging_is_mapped virt s = (paging_get_physaddr virt s \<noteq> 0)"

section \<open>Addresses\<close>

text \<open>A page address has its low twelve bits clear.\<close>

definition aligned :: "u32 \<Rightarrow> bool" where
  "aligned a \<longleftrightarrow> a AND NOT 0xFFF = a"

lemma aligned_iff: "aligned a \<longleftrightarrow> unat a mod 4096 = 0"
proof -
  have "unat (a AND NOT 0xFFF) = unat a div 4096 * 4096"
    using unat_and_not_mask [of 12 a] by (simp add: mask_numerals)
  then have "aligned a \<longleftrightarrow> unat a div 4096 * 4096 = unat a" by (simp add: aligned_def word_eq_unat)
  also have "\<dots> \<longleftrightarrow> unat a mod 4096 = 0" by (metis add_cancel_left_right div_mult_mod_eq mod_mult_self2_is_0)
  finally show ?thesis .
qed

lemma aligned_and: "aligned (a AND NOT 0xFFF)"
  by (simp add: aligned_def and.assoc)

lemma pd_idx_div: "pd_idx v = unat v div 2 ^ 22"
  by (simp add: pd_idx_def drop_bit_eq_div unat_div_distrib)

lemma pd_idx_lt: "pd_idx v < 1024"
  using unat_lt32 [of v] by (simp add: pd_idx_div)

lemma pd_idx_page: "pd_idx v = unat (drop_bit 10 (drop_bit 12 v))"
  by (simp add: pd_idx_def drop_bit_drop_bit)

lemma pt_idx_lt: "unat (pt_idx v) < 1024"
  using unat_and_mask [of "drop_bit 12 v" 10] by (simp add: pt_idx_def mask_numerals)

lemma page_eq_iff: "drop_bit 12 v = drop_bit 12 w \<longleftrightarrow> pd_idx v = pd_idx w \<and> pt_idx v = pt_idx w"
proof
  assume e: "drop_bit 12 v = drop_bit 12 w"
  show "pd_idx v = pd_idx w \<and> pt_idx v = pt_idx w"
    unfolding pd_idx_page pt_idx_def e by (rule conjI refl)+
next
  assume e: "pd_idx v = pd_idx w \<and> pt_idx v = pt_idx w"
  let ?v = "drop_bit 12 v" and ?w = "drop_bit 12 w"
  have "drop_bit 10 ?v = drop_bit 10 ?w" using e unfolding pd_idx_page word_eq_unat by (rule conjunct1)
  moreover have "take_bit 10 ?v = take_bit 10 ?w"
    using e by (simp add: pt_idx_def mask_numerals take_bit_eq_mask)
  ultimately show "?v = ?w" by (metis bits_ident)
qed

text \<open>Entries of tables at different page addresses are different words.\<close>

lemma entry_page:
  assumes "aligned a" "unat i < 1024"
  shows "unat (a + 4 * i) div 4096 = unat a div 4096 \<and> unat (a + 4 * i) = unat a + 4 * unat i"
proof -
  have "4096 dvd unat a" using assms(1) by (simp add: aligned_iff mod_eq_0_iff_dvd)
  then obtain k where k: "unat a = 4096 * k" ..
  have i4: "unat (4 * i) = 4 * unat i" using assms(2) by (simp add: unat_mult_lt)
  have "k < 1048576" using k unat_lt32 [of a] by simp
  then have "unat a + 4 * unat i < 2 ^ 32" using k assms(2) by simp
  then have "unat (a + 4 * i) = unat a + 4 * unat i" by (simp add: unat_plus_if i4)
  moreover have "(unat a + 4 * unat i) div 4096 = unat a div 4096"
    using k assms(2) by simp
  ultimately show ?thesis by simp
qed

lemma aligned_eqI: "aligned a \<Longrightarrow> aligned b \<Longrightarrow> unat a div 4096 = unat b div 4096 \<Longrightarrow> a = b"
  by (metis aligned_iff div_mult_mod_eq word_eq_unat)

lemma entry_eq_iff:
  assumes "aligned a" "aligned b" "unat i < 1024" "unat j < 1024"
  shows "a + 4 * i = b + 4 * j \<longleftrightarrow> a = b \<and> i = j"
proof
  assume e: "a + 4 * i = b + 4 * j"
  have "unat a div 4096 = unat (a + 4 * i) div 4096" by (rule entry_page [OF assms(1,3), THEN conjunct1, symmetric])
  also have "\<dots> = unat b div 4096" unfolding e by (rule entry_page [OF assms(2,4), THEN conjunct1])
  finally have ab: "a = b" by (rule aligned_eqI [OF assms(1,2)])
  have "unat a + 4 * unat i = unat (a + 4 * i)" by (rule entry_page [OF assms(1,3), THEN conjunct2, symmetric])
  also have "\<dots> = unat b + 4 * unat j" unfolding e by (rule entry_page [OF assms(2,4), THEN conjunct2])
  finally have "unat a + 4 * unat i = unat b + 4 * unat j" .
  with ab show "a = b \<and> i = j" by (simp add: word_eq_unat)
qed simp

lemma zero_table_eq:
  "zero_table pt m a = (if \<exists>i < 1024. a = pt + 4 * of_nat i then 0 else m a)"
proof -
  have "fold (\<lambda>i m. m(pt + 4 * of_nat i := 0)) [0..<n] m a
      = (if \<exists>i < n. a = pt + 4 * of_nat i then 0 else m a)" for n
    by (induction n) (auto simp: less_Suc_eq)
  then show ?thesis by (simp add: zero_table_def del: upt_rec_numeral)
qed

lemma zero_table_entry: "unat i < 1024 \<Longrightarrow> zero_table pt m (pt + 4 * i) = 0"
  by (auto simp: zero_table_eq intro!: exI [of _ "unat i"])

lemma zero_table_other:
  assumes "aligned a" "aligned pt" "a \<noteq> pt" "unat i < 1024"
  shows "zero_table pt m (a + 4 * i) = m (a + 4 * i)"
proof -
  have "a + 4 * i \<noteq> pt + 4 * of_nat j" if "j < 1024" for j
    using entry_eq_iff [OF assms(1,2,4), of "of_nat j"] assms(3) that by (simp add: unat_of_nat32)
  then show ?thesis by (auto simp: zero_table_eq)
qed

lemma present_entry:
  "((p AND NOT 0xFFF) OR (f AND 0xFFF) OR PAGE_PRESENT) AND PAGE_PRESENT \<noteq> 0"
  "((p AND NOT 0xFFF) OR (f AND 0xFFF) OR PAGE_PRESENT) AND NOT 0xFFF = p AND NOT 0xFFF"
proof -
  have "bit (((p AND NOT 0xFFF) OR (f AND 0xFFF) OR PAGE_PRESENT) AND PAGE_PRESENT) 0"
    by (simp add: PAGE_PRESENT_def bit_simps)
  then show "((p AND NOT 0xFFF) OR (f AND 0xFFF) OR PAGE_PRESENT) AND PAGE_PRESENT \<noteq> 0" by auto
  show "((p AND NOT 0xFFF) OR (f AND 0xFFF) OR PAGE_PRESENT) AND NOT 0xFFF = p AND NOT 0xFFF"
    by (rule bit_word_eqI) (auto simp: mask_numerals PAGE_PRESENT_def bit_simps)
qed

lemma dir_entry:
  assumes "aligned p"
  shows "(p OR PAGE_PRESENT OR PAGE_WRITE OR PAGE_USER) AND PAGE_PRESENT \<noteq> 0"
    "(p OR PAGE_PRESENT OR PAGE_WRITE OR PAGE_USER) AND NOT 0xFFF = p"
proof -
  have "bit ((p OR PAGE_PRESENT OR PAGE_WRITE OR PAGE_USER) AND PAGE_PRESENT) 0"
    by (simp add: PAGE_PRESENT_def bit_simps)
  then show "(p OR PAGE_PRESENT OR PAGE_WRITE OR PAGE_USER) AND PAGE_PRESENT \<noteq> 0" by auto
  have "(PAGE_PRESENT OR PAGE_WRITE OR PAGE_USER) AND NOT 0xFFF = 0"
    by (simp add: PAGE_PRESENT_def PAGE_WRITE_def PAGE_USER_def)
  then have "(p OR PAGE_PRESENT OR PAGE_WRITE OR PAGE_USER) AND NOT 0xFFF = p AND NOT 0xFFF"
    by (simp only: or.assoc and.commute [of _ "NOT 0xFFF"] bit.conj_disj_distrib) simp
  then show "(p OR PAGE_PRESENT OR PAGE_WRITE OR PAGE_USER) AND NOT 0xFFF = p"
    using assms by (simp add: aligned_def)
qed

section \<open>Well-formed page tables\<close>

definition present :: "vm \<Rightarrow> nat \<Rightarrow> bool" where
  "present s i \<longleftrightarrow> pdir s ! i AND PAGE_PRESENT \<noteq> 0"

definition pt_of :: "vm \<Rightarrow> nat \<Rightarrow> u32" where
  "pt_of s i = pdir s ! i AND NOT 0xFFF"

text \<open>The tables of present entries are different frames, all in use.\<close>

definition vm_ok :: "vm \<Rightarrow> bool" where
  "vm_ok s \<longleftrightarrow> length (pdir s) = 1024 \<and> pmm_ok (pmm_st s)
     \<and> (\<forall>i < 1024. present s i \<longrightarrow> pt_of s i \<in> pmm_frames (pmm_st s))
     \<and> (\<forall>i < 1024. \<forall>j < 1024. present s i \<longrightarrow> present s j \<longrightarrow> pt_of s i = pt_of s j \<longrightarrow> i = j)"

lemma physaddr_eq:
  "paging_get_physaddr w s = (if present s (pd_idx w) then
     let e = pmem s (pt_of s (pd_idx w) + 4 * pt_idx w) in
       if e AND PAGE_PRESENT = 0 then 0 else (e AND NOT 0xFFF) + (w AND 0xFFF) else 0)"
  by (simp add: paging_get_physaddr_def present_def pt_of_def)

text \<open>The allocator can still hand out a frame.\<close>

definition has_frame :: "vm \<Rightarrow> bool" where
  "has_frame s \<longleftrightarrow> snd (pmm_take (pmm_st s)) \<noteq> 0"

lemma pmm_ok_alloc: "pmm_ok p \<Longrightarrow> pmm_alloc p = Inr (pmm_take p)"
  by (simp add: pmm_ok_def pmm_alloc_take)

lemma create_physaddr:
  assumes np: "\<not> present s i" and al: "aligned pt" and i: "i < length (pdir s)"
    and dis: "\<forall>j < 1024. present s j \<longrightarrow> pt_of s j \<noteq> pt"
  shows "paging_get_physaddr w (s\<lparr>pmm_st := p, pmem := zero_table pt (pmem s),
      pdir := (pdir s)[i := pt OR PAGE_PRESENT OR PAGE_WRITE OR PAGE_USER]\<rparr>) = paging_get_physaddr w s"
    (is "paging_get_physaddr w ?s = _")
proof (cases "pd_idx w = i")
  case True
  have "pt_of ?s i = pt" using i dir_entry [OF al] by (simp add: pt_of_def)
  then have "pmem ?s (pt_of ?s i + 4 * pt_idx w) = 0" by (simp add: zero_table_entry pt_idx_lt)
  with True np show ?thesis by (simp add: physaddr_eq)
next
  case False
  then have same: "present ?s (pd_idx w) = present s (pd_idx w)" "pt_of ?s (pd_idx w) = pt_of s (pd_idx w)"
    by (auto simp: present_def pt_of_def)
  show ?thesis
  proof (cases "present s (pd_idx w)")
    case False
    with same show ?thesis by (simp add: physaddr_eq)
  next
    case True
    then have "pt_of s (pd_idx w) \<noteq> pt" using dis pd_idx_lt by blast
    moreover have "aligned (pt_of s (pd_idx w))" unfolding pt_of_def by (rule aligned_and)
    ultimately have "pmem ?s (pt_of s (pd_idx w) + 4 * pt_idx w) = pmem s (pt_of s (pd_idx w) + 4 * pt_idx w)"
      using zero_table_other [OF _ al] pt_idx_lt by simp
    with same show ?thesis by (simp add: physaddr_eq)
  qed
qed

lemma get_or_create_ok:
  assumes ok: "vm_ok s" and i: "i < 1024" and fr: "present s i \<or> has_frame s"
  shows "\<exists>s'. get_or_create_pt i s = Inr (s', pt_of s' i) \<and> vm_ok s' \<and> present s' i
    \<and> (\<forall>w. paging_get_physaddr w s' = paging_get_physaddr w s)
    \<and> (s' = s \<or> pmm_st s' = fst (pmm_take (pmm_st s)))"
proof (cases "present s i")
  case True
  with ok show ?thesis by (auto simp: get_or_create_pt_def present_def pt_of_def)
next
  case False
  let ?p = "fst (pmm_take (pmm_st s))" and ?pt = "snd (pmm_take (pmm_st s))"
  have pok: "pmm_ok (pmm_st s)" and len: "length (pdir s) = 1024" using ok by (auto simp: vm_ok_def)
  have take: "pmm_take (pmm_st s) = (?p, ?pt)" by simp
  have nz: "?pt \<noteq> 0" using fr False by (simp add: has_frame_def)
  have new: "pmm_ok ?p" "?pt \<notin> pmm_frames (pmm_st s)" "pmm_frames ?p = insert ?pt (pmm_frames (pmm_st s))"
    "aligned ?pt"
    using pm.alloc_some [OF pok take nz] by (auto simp: aligned_iff)
  let ?s = "s\<lparr>pmm_st := ?p, pmem := zero_table ?pt (pmem s),
    pdir := (pdir s)[i := ?pt OR PAGE_PRESENT OR PAGE_WRITE OR PAGE_USER]\<rparr>"
  have run: "get_or_create_pt i s = Inr (?s, pt_of ?s i)"
    using False pmm_ok_alloc [OF pok] take
    by (simp add: get_or_create_pt_def present_def pt_of_def Let_def split_beta)
  have pi: "present ?s i" "pt_of ?s i = ?pt"
    using i len dir_entry [OF new(4)] by (auto simp: present_def pt_of_def)
  have other: "present ?s j = present s j" "pt_of ?s j = pt_of s j" if "j \<noteq> i" for j
    using that by (auto simp: present_def pt_of_def)
  have fresh: "\<forall>j < 1024. present s j \<longrightarrow> pt_of s j \<noteq> ?pt" using ok new(2) by (auto simp: vm_ok_def)
  have "pt_of ?s j \<in> pmm_frames ?p" if "j < 1024" "present ?s j" for j
    using that pi other ok new(3) by (cases "j = i") (auto simp: vm_ok_def)
  moreover have "j = k" if "j < 1024" "k < 1024" "present ?s j" "present ?s k" "pt_of ?s j = pt_of ?s k" for j k
    using that pi other fresh ok by (cases "j = i"; cases "k = i") (auto simp: vm_ok_def)
  ultimately have "vm_ok ?s" using new(1) len by (simp add: vm_ok_def)
  with run pi create_physaddr [OF False new(4) _ fresh, where p = ?p] len i show ?thesis by auto
qed

text \<open>Writing one entry of a present table changes the translation of one page.\<close>

lemma write_entry_physaddr:
  assumes ok: "vm_ok s" and pr: "present s (pd_idx v)"
  shows "paging_get_physaddr w (s\<lparr>pmem := (pmem s)(pt_of s (pd_idx v) + 4 * pt_idx v := e)\<rparr>)
    = (if drop_bit 12 w = drop_bit 12 v then (if e AND PAGE_PRESENT = 0 then 0 else (e AND NOT 0xFFF) + (w AND 0xFFF))
       else paging_get_physaddr w s)"
    (is "paging_get_physaddr w ?s = _")
proof -
  have same: "present ?s i = present s i" "pt_of ?s i = pt_of s i" for i
    by (auto simp: present_def pt_of_def)
  have al: "aligned (pt_of s i)" for i unfolding pt_of_def by (rule aligned_and)
  have eq: "pt_of s (pd_idx w) + 4 * pt_idx w = pt_of s (pd_idx v) + 4 * pt_idx v
      \<longleftrightarrow> drop_bit 12 w = drop_bit 12 v" if "present s (pd_idx w)"
    unfolding entry_eq_iff [OF al al pt_idx_lt pt_idx_lt] page_eq_iff
    using ok pr that pd_idx_lt by (auto simp: vm_ok_def)
  show ?thesis
  proof (cases "present s (pd_idx w)")
    case True
    with eq [OF True] same pr show ?thesis by (simp add: physaddr_eq [of w ?s] physaddr_eq [of w s] page_eq_iff)
  next
    case False
    with pr have "drop_bit 12 w \<noteq> drop_bit 12 v" by (auto simp: page_eq_iff)
    with False same show ?thesis by (simp add: physaddr_eq)
  qed
qed

lemma write_entry_ok: "vm_ok s \<Longrightarrow> vm_ok (s\<lparr>pmem := m\<rparr>)"
  by (simp add: vm_ok_def present_def pt_of_def)

text \<open>What \<^verbatim>\<open>paging_map\<close> does to every translation.\<close>

definition map_spec :: "u32 \<Rightarrow> u32 \<Rightarrow> vm \<Rightarrow> vm \<Rightarrow> bool" where
  "map_spec v p s s' \<longleftrightarrow> (\<forall>w. paging_get_physaddr w s'
     = (if drop_bit 12 w = drop_bit 12 v then (p AND NOT 0xFFF) + (w AND 0xFFF) else paging_get_physaddr w s))"

lemma paging_map_ok:
  assumes "vm_ok s" "present s (pd_idx v) \<or> has_frame s"
  shows "\<exists>s'. paging_map v p fl s = Inr s' \<and> vm_ok s' \<and> map_spec v p s s'
    \<and> (pmm_st s' = pmm_st s \<or> pmm_st s' = fst (pmm_take (pmm_st s)))"
proof -
  obtain s1 where s1: "get_or_create_pt (pd_idx v) s = Inr (s1, pt_of s1 (pd_idx v))" "vm_ok s1"
    "present s1 (pd_idx v)" "\<forall>w. paging_get_physaddr w s1 = paging_get_physaddr w s"
    "s1 = s \<or> pmm_st s1 = fst (pmm_take (pmm_st s))"
    using get_or_create_ok [OF assms(1) pd_idx_lt assms(2)] by blast
  let ?e = "(p AND NOT 0xFFF) OR (fl AND 0xFFF) OR PAGE_PRESENT"
  let ?s = "s1\<lparr>pmem := (pmem s1)(pt_of s1 (pd_idx v) + 4 * pt_idx v := ?e)\<rparr>"
  have "map_spec v p s ?s"
    unfolding map_spec_def write_entry_physaddr [OF s1(2,3)] using present_entry [of p fl] s1(4) by simp
  moreover have "paging_map v p fl s = Inr ?s" using s1(1) by (simp add: paging_map_def)
  ultimately show ?thesis using write_entry_ok [OF s1(2)] s1(5) by auto
qed

section \<open>Regions\<close>

definition pmm_room :: "pmm \<Rightarrow> nat" where
  "pmm_room p = unat (total_pages p) - card (pages_used p)"

lemma pages_used_sub: "pages_used p \<subseteq> {..<unat (total_pages p)}"
  by (auto simp: pages_used_def)

lemma pmm_take_room:
  assumes "pmm_ok p" "0 < pmm_room p"
  shows "snd (pmm_take p) \<noteq> 0 \<and> pmm_room p = Suc (pmm_room (fst (pmm_take p)))"
proof -
  have inv: "pmm_inv p" using assms(1) by (simp add: pmm_ok_def)
  from pmm_alloc_spec [OF inv] show ?thesis
  proof (elim disjE exE conjE)
    assume "pages_used p = {..<unat (total_pages p)}"
    with assms(2) show ?thesis by (simp add: pmm_room_def)
  next
    fix p' q
    assume a: "pmm_alloc p = Inr (p', of_nat q * of_nat PAGE_SIZE)" "q \<notin> pages_used p"
      "q < unat (total_pages p)" "pages_used p' = insert q (pages_used p)" "total_pages p' = total_pages p"
    have t: "pmm_take p = (p', of_nat q * of_nat PAGE_SIZE)" using a(1) by (simp add: pmm_take_def)
    have "q \<noteq> 0" using a(2) assms(1) unfolding pmm_ok_def by metis
    moreover have "unat (of_nat q * of_nat PAGE_SIZE :: u32) = q * 4096"
      using a(3) inv by (intro page_addr) (simp add: pmm_inv_def)
    ultimately have "(of_nat q * of_nat PAGE_SIZE :: u32) \<noteq> 0"
      by (metis mult_eq_0_iff unat_0 zero_neq_numeral)
    moreover have "Suc (card (pages_used p)) \<le> unat (total_pages p)"
      using pages_used_card [of p'] a by simp
    ultimately show ?thesis using t a by (simp add: pmm_room_def)
  qed
qed

lemma has_frame_room: "vm_ok s \<Longrightarrow> 0 < pmm_room (pmm_st s) \<Longrightarrow> has_frame s"
  using pmm_take_room [of "pmm_st s"] by (simp add: has_frame_def vm_ok_def)

lemma pmm_step_ok:
  assumes ok: "vm_ok s" and room: "0 < pmm_room (pmm_st s)" and t: "pmm_take (pmm_st s) = (p, a)"
  shows "vm_ok (s\<lparr>pmm_st := p\<rparr>) \<and> a \<noteq> 0 \<and> a \<notin> pmm_frames (pmm_st s) \<and> aligned a
    \<and> pmm_frames p = insert a (pmm_frames (pmm_st s)) \<and> pmm_room (pmm_st s) = Suc (pmm_room p)
    \<and> paging_get_physaddr w (s\<lparr>pmm_st := p\<rparr>) = paging_get_physaddr w s"
proof -
  have pok: "pmm_ok (pmm_st s)" using ok by (simp add: vm_ok_def)
  have r: "a \<noteq> 0" "pmm_room (pmm_st s) = Suc (pmm_room p)" using pmm_take_room [OF pok room] t by auto
  with pm.alloc_some [OF pok t] ok show ?thesis
    by (auto simp: vm_ok_def aligned_iff present_def pt_of_def paging_get_physaddr_def)
qed

definition page_no :: "u32 \<Rightarrow> nat \<Rightarrow> u32" where
  "page_no virt i = drop_bit 12 (virt + of_nat i * 4096)"

lemma alloc_region_loop_ok:
  assumes "vm_ok s" "2 * n \<le> pmm_room (pmm_st s)" "inj_on (page_no v) {i..<i + n}"
  shows "\<exists>s' ps. alloc_region_loop v fl i n s = Inr (s', True) \<and> vm_ok s' \<and> length ps = n \<and> distinct ps
    \<and> set ps \<inter> pmm_frames (pmm_st s) = {} \<and> (\<forall>p \<in> set ps. aligned p)
    \<and> (\<forall>k < n. \<forall>w. drop_bit 12 w = page_no v (i + k) \<longrightarrow> paging_get_physaddr w s' = ps ! k + (w AND 0xFFF))
    \<and> (\<forall>w. (\<forall>k < n. drop_bit 12 w \<noteq> page_no v (i + k)) \<longrightarrow> paging_get_physaddr w s' = paging_get_physaddr w s)
    \<and> pmm_frames (pmm_st s) \<union> set ps \<subseteq> pmm_frames (pmm_st s') \<and> pmm_room (pmm_st s) \<le> pmm_room (pmm_st s') + 2 * n"
  using assms
proof (induction n arbitrary: i s)
  case 0
  then show ?case by (intro exI [of _ s] exI [of _ "[]"]) simp
next
  case (Suc n)
  obtain p a where t: "pmm_take (pmm_st s) = (p, a)" by fastforce
  have room: "0 < pmm_room (pmm_st s)" using Suc.prems(2) by simp
  let ?s1 = "s\<lparr>pmm_st := p\<rparr>" and ?v = "v + of_nat i * 4096"
  note st = pmm_step_ok [OF Suc.prems(1) room t]
  have "has_frame ?s1" using st Suc.prems(2) by (intro has_frame_room) auto
  then obtain s2 where s2: "paging_map ?v a fl ?s1 = Inr s2" "vm_ok s2" "map_spec ?v a ?s1 s2"
    "pmm_st s2 = p \<or> pmm_st s2 = fst (pmm_take p)"
    using paging_map_ok [of ?s1 ?v a fl] st by auto
  have pok: "pmm_ok p" using st by (auto simp: vm_ok_def)
  have "pmm_room p = Suc (pmm_room (fst (pmm_take p)))"
    using pmm_take_room [OF pok] st Suc.prems(2) by auto
  then have room2: "2 * n \<le> pmm_room (pmm_st s2)" using s2(4) st Suc.prems(2) by auto
  have sub: "pmm_frames p \<subseteq> pmm_frames (pmm_st s2)"
    using s2(4) pm.alloc_inv [OF pok, of "fst (pmm_take p)" "snd (pmm_take p)"] by auto
  have "inj_on (page_no v) {Suc i..<Suc i + n}" using Suc.prems(3) by (rule inj_on_subset) auto
  from Suc.IH [OF s2(2) room2 this] obtain s' ps where
    run: "alloc_region_loop v fl (Suc i) n s2 = Inr (s', True)" and s': "vm_ok s'"
    and ps: "length ps = n" "distinct ps" "set ps \<inter> pmm_frames (pmm_st s2) = {}" "\<forall>p \<in> set ps. aligned p"
    and hit: "\<And>k w. k < n \<Longrightarrow> drop_bit 12 w = page_no v (Suc i + k) \<Longrightarrow>
      paging_get_physaddr w s' = ps ! k + (w AND 0xFFF)"
    and miss: "\<And>w. (\<forall>k < n. drop_bit 12 w \<noteq> page_no v (Suc i + k)) \<Longrightarrow>
      paging_get_physaddr w s' = paging_get_physaddr w s2"
    and fr: "pmm_frames (pmm_st s2) \<union> set ps \<subseteq> pmm_frames (pmm_st s')"
    and rm: "pmm_room (pmm_st s2) \<le> pmm_room (pmm_st s') + 2 * n" by blast
  have two: "paging_get_physaddr w s2 = (if drop_bit 12 w = page_no v i then a + (w AND 0xFFF)
      else paging_get_physaddr w s)" for w
    using s2(3) st by (simp add: map_spec_def page_no_def aligned_def paging_get_physaddr_def)
  have loop: "alloc_region_loop v fl i (Suc n) s = Inr (s', True)"
    using run s2(1) st t Suc.prems(1) by (simp add: vm_ok_def pmm_ok_alloc Let_def)
  have hits: "paging_get_physaddr w s' = (a # ps) ! k + (w AND 0xFFF)"
    if "k < Suc n" "drop_bit 12 w = page_no v (i + k)" for k w
  proof (cases k)
    case 0
    have "page_no v i \<noteq> page_no v (Suc i + j)" if "j < n" for j
      using inj_onD [OF Suc.prems(3), of i "Suc i + j"] that by auto
    with that 0 miss [of w] two [of w] show ?thesis by simp
  next
    case (Suc j)
    with that hit [of j w] show ?thesis by simp
  qed
  have misses: "paging_get_physaddr w s' = paging_get_physaddr w s"
    if nm: "\<forall>k < Suc n. drop_bit 12 w \<noteq> page_no v (i + k)" for w
  proof -
    have "drop_bit 12 w \<noteq> page_no v i" using nm by (metis add_0_right zero_less_Suc)
    moreover have "\<forall>k < n. drop_bit 12 w \<noteq> page_no v (Suc i + k)" using nm by (metis Suc_less_eq add_Suc_shift)
    ultimately show ?thesis using miss two by simp
  qed
  have "a \<in> pmm_frames (pmm_st s2)" using st sub by auto
  then have "distinct (a # ps)" "set (a # ps) \<inter> pmm_frames (pmm_st s) = {}" "\<forall>p \<in> set (a # ps). aligned p"
    using ps st sub by auto
  moreover have "pmm_frames (pmm_st s) \<union> set (a # ps) \<subseteq> pmm_frames (pmm_st s')" using fr sub st by auto
  moreover have "pmm_room (pmm_st s) \<le> pmm_room (pmm_st s') + 2 * Suc n"
  proof -
    have "pmm_room p \<le> Suc (pmm_room (pmm_st s2))" using \<open>pmm_room p = Suc _\<close> s2(4) by auto
    with rm st show ?thesis by simp
  qed
  ultimately show ?case using loop s' ps(1) hits misses by (intro exI [of _ s'] exI [of _ "a # ps"]) simp
qed

lemma unat_drop12: "unat (drop_bit 12 (x :: u32)) = unat x div 4096"
  by (simp add: drop_bit_eq_div unat_div_distrib)

lemma unat_page_no:
  assumes "unat v + k * 4096 < 2 ^ 32"
  shows "unat (page_no v k) = unat v div 4096 + k"
proof -
  have "unat (of_nat k * 4096 :: u32) = k * 4096" using assms by (simp add: unat_mult_lt unat_of_nat32)
  with assms have a: "unat (v + of_nat k * 4096) = unat v + k * 4096" by (simp add: unat_plus_if)
  have "unat (page_no v k) = (unat v + k * 4096) div 4096" unfolding page_no_def a [symmetric] by (rule unat_drop12)
  then show ?thesis by simp
qed

lemma page_no_inj:
  assumes "unat v + n * 4096 \<le> 2 ^ 32"
  shows "inj_on (page_no v) {0..<n}"
proof (rule inj_onI)
  fix i j
  assume ij: "i \<in> {0..<n}" "j \<in> {0..<n}" "page_no v i = page_no v j"
  have u: "unat (page_no v k) = unat v div 4096 + k" if "k < n" for k
    by (rule unat_page_no) (use that assms in simp)
  have "unat v div 4096 + i = unat (page_no v i)" by (rule u [symmetric]) (use ij in simp)
  also have "\<dots> = unat v div 4096 + j" unfolding ij(3) by (rule u) (use ij in simp)
  finally show "i = j" by simp
qed

lemma zero_frame: "vm_ok s \<Longrightarrow> 0 \<in> pmm_frames (pmm_st s)"
  by (force simp: vm_ok_def pmm_ok_def pmm_frames_def)

lemma alloc_region_ok:
  assumes "vm_ok s" "unat v + unat sz + 4095 < 2 ^ 32" "2 * ((unat sz + 4095) div 4096) \<le> pmm_room (pmm_st s)"
  shows "inj_on (page_no v) {0..<(unat sz + 4095) div 4096}"
    and "\<exists>s' ps. paging_alloc_region v sz fl s = Inr (s', True) \<and> vm_ok s'
    \<and> length ps = (unat sz + 4095) div 4096 \<and> distinct ps \<and> set ps \<inter> pmm_frames (pmm_st s) = {}
    \<and> (\<forall>p \<in> set ps. aligned p)
    \<and> (\<forall>k < (unat sz + 4095) div 4096. \<forall>w. drop_bit 12 w = page_no v k \<longrightarrow> paging_get_physaddr w s' = ps ! k + (w AND 0xFFF))
    \<and> (\<forall>w. (\<forall>k < (unat sz + 4095) div 4096. drop_bit 12 w \<noteq> page_no v k) \<longrightarrow> paging_get_physaddr w s' = paging_get_physaddr w s)
    \<and> pmm_frames (pmm_st s) \<union> set ps \<subseteq> pmm_frames (pmm_st s')
    \<and> pmm_room (pmm_st s) \<le> pmm_room (pmm_st s') + 2 * ((unat sz + 4095) div 4096)"
proof -
  let ?n = "(unat sz + 4095) div 4096"
  have "unat (sz + 4095) = unat sz + 4095" using assms(2) by (simp add: unat_plus_if)
  then have n: "pages_of sz = ?n" by (simp add: pages_of_def unat_div_distrib)
  have "?n * 4096 \<le> unat sz + 4095" by simp
  then have "unat v + ?n * 4096 \<le> 2 ^ 32" using assms(2) by linarith
  then show i: "inj_on (page_no v) {0..<?n}" by (rule page_no_inj)
  from i have "inj_on (page_no v) {0..<0 + ?n}" by simp
  from alloc_region_loop_ok [OF assms(1,3) this, of fl] show "\<exists>s' ps. paging_alloc_region v sz fl s = Inr (s', True) \<and> vm_ok s'
    \<and> length ps = ?n \<and> distinct ps \<and> set ps \<inter> pmm_frames (pmm_st s) = {} \<and> (\<forall>p \<in> set ps. aligned p)
    \<and> (\<forall>k < ?n. \<forall>w. drop_bit 12 w = page_no v k \<longrightarrow> paging_get_physaddr w s' = ps ! k + (w AND 0xFFF))
    \<and> (\<forall>w. (\<forall>k < ?n. drop_bit 12 w \<noteq> page_no v k) \<longrightarrow> paging_get_physaddr w s' = paging_get_physaddr w s)
    \<and> pmm_frames (pmm_st s) \<union> set ps \<subseteq> pmm_frames (pmm_st s')
    \<and> pmm_room (pmm_st s) \<le> pmm_room (pmm_st s') + 2 * ?n"
    unfolding paging_alloc_region_def n by simp
qed

section \<open>Properties\<close>

text \<open>
  C7: \<^verbatim>\<open>paging_map\<close> maps exactly one page. On well-formed page tables, when the page's table
  exists or a frame for it can be had, the call succeeds, keeps the tables well formed,
  and afterwards an address of that page translates into the frame given, at its own offset,
  while every other address translates as before.
\<close>

theorem paging_map_translation:
  assumes "vm_ok s" "present s (pd_idx v) \<or> has_frame s"
  shows "\<exists>s'. paging_map v p fl s = Inr s' \<and> vm_ok s' \<and> (\<forall>w. paging_get_physaddr w s'
     = (if drop_bit 12 w = drop_bit 12 v then (p AND NOT 0xFFF) + (w AND 0xFFF) else paging_get_physaddr w s))"
  using paging_map_ok [OF assms] unfolding map_spec_def by blast

definition demo_vm :: vm where
  "demo_vm = \<lparr>pdir = replicate 1024 0, pmem = (\<lambda>_. 0), pmm_st = small_pmm\<rparr>"

lemma nth_zero_dir: "i < 1024 \<Longrightarrow> replicate 1024 (0 :: u32) ! i = 0"
  by (rule nth_replicate)

lemma demo_vm_ok: "vm_ok demo_vm" "\<not> present demo_vm i \<or> 1024 \<le> i"
  unfolding vm_ok_def demo_vm_def present_def using small_pmm_ok
  by (auto simp: nth_zero_dir not_le)

lemma demo_room: "pmm_room (pmm_st demo_vm) = 2"
proof -
  have "pages_used small_pmm = {0}"
  proof -
    have t: "unat (total_pages small_pmm) = 3" by (simp add: small_pmm_def)
    have "p = 0 \<or> p = 1 \<or> p = 2" if "p < 3" for p :: nat using that by auto
    then show ?thesis unfolding pages_used_def t by (fastforce simp: small_pmm_def page_bit_def)
  qed
  then show ?thesis by (simp add: demo_vm_def pmm_room_def) (simp add: small_pmm_def)
qed

lemma demo_has_frame: "has_frame demo_vm"
  by (rule has_frame_room [OF demo_vm_ok(1)]) (simp add: demo_room)

theorem paging_map_translation_witness:
  "\<exists>s'. paging_map 0x8048000 0x200000 7 demo_vm = Inr s' \<and> paging_get_physaddr 0x8048123 s' = 0x200123"
proof -
  obtain s' where s': "paging_map 0x8048000 0x200000 7 demo_vm = Inr s'"
    and g: "\<forall>w. paging_get_physaddr w s' = (if drop_bit 12 w = drop_bit 12 (0x8048000 :: u32)
      then (0x200000 AND NOT 0xFFF) + (w AND 0xFFF) else paging_get_physaddr w demo_vm)"
    using paging_map_translation [OF demo_vm_ok(1), of "0x8048000" "0x200000" 7] demo_has_frame by blast
  have "paging_get_physaddr 0x8048123 s' = 0x200123" using g [rule_format, of "0x8048123"] by simp
  with s' show ?thesis by blast
qed

text \<open>
  C28: \<^verbatim>\<open>paging_unmap\<close> removes the translation of its page and of no other.
\<close>

theorem paging_unmap_translation:
  assumes "vm_ok s"
  shows "vm_ok (paging_unmap v s) \<and> paging_get_physaddr w (paging_unmap v s)
    = (if drop_bit 12 w = drop_bit 12 v then 0 else paging_get_physaddr w s)"
proof (cases "present s (pd_idx v)")
  case True
  then have "paging_unmap v s = s\<lparr>pmem := (pmem s)(pt_of s (pd_idx v) + 4 * pt_idx v := 0)\<rparr>"
    by (simp add: paging_unmap_def present_def pt_of_def Let_def)
  with write_entry_physaddr [OF assms True, of w 0] write_entry_ok [OF assms] show ?thesis by simp
next
  case False
  then have "paging_unmap v s = s" by (simp add: paging_unmap_def present_def)
  with False assms show ?thesis by (auto simp: page_eq_iff physaddr_eq)
qed

theorem paging_unmap_translation_witness:
  "vm_ok (paging_unmap 0x8048000 demo_vm) \<and> paging_get_physaddr 0x8048123 (paging_unmap 0x8048000 demo_vm) = 0"
  using paging_unmap_translation [OF demo_vm_ok(1), of "0x8048000" "0x8048123"] by simp

text \<open>
  C14: \<^verbatim>\<open>paging_alloc_region\<close> backs a region with memory of its own: with two free frames for
  each page it succeeds, every page of the region translates into a frame that was not in
  use before, no two pages share one, and translations outside the region are unchanged.
\<close>

theorem paging_alloc_region_backed:
  assumes "vm_ok s" "unat v + unat sz + 4095 < 2 ^ 32" "2 * ((unat sz + 4095) div 4096) \<le> pmm_room (pmm_st s)"
  shows "\<exists>s' ps. paging_alloc_region v sz fl s = Inr (s', True) \<and> vm_ok s'
    \<and> length ps = (unat sz + 4095) div 4096 \<and> distinct ps \<and> set ps \<inter> pmm_frames (pmm_st s) = {}
    \<and> (\<forall>k < length ps. \<forall>w. drop_bit 12 w = page_no v k \<longrightarrow> paging_get_physaddr w s' = ps ! k + (w AND 0xFFF))
    \<and> (\<forall>w. (\<forall>k < length ps. drop_bit 12 w \<noteq> page_no v k) \<longrightarrow> paging_get_physaddr w s' = paging_get_physaddr w s)"
proof -
  obtain s' ps where "paging_alloc_region v sz fl s = Inr (s', True)" "vm_ok s'"
    "length ps = (unat sz + 4095) div 4096" "distinct ps" "set ps \<inter> pmm_frames (pmm_st s) = {}"
    "\<forall>k < (unat sz + 4095) div 4096. \<forall>w. drop_bit 12 w = page_no v k \<longrightarrow> paging_get_physaddr w s' = ps ! k + (w AND 0xFFF)"
    "\<forall>w. (\<forall>k < (unat sz + 4095) div 4096. drop_bit 12 w \<noteq> page_no v k) \<longrightarrow> paging_get_physaddr w s' = paging_get_physaddr w s"
    using alloc_region_ok(2) [OF assms, of fl] by (elim exE conjE) blast
  then show ?thesis by (intro exI [of _ s'] exI [of _ ps]) simp
qed

theorem paging_alloc_region_backed_witness:
  "\<exists>s'. paging_alloc_region 0x8048000 100 7 demo_vm = Inr (s', True) \<and> vm_ok s'"
  using paging_alloc_region_backed [OF demo_vm_ok(1), of "0x8048000" 100 7] by (auto simp: demo_room)

text \<open>
  C27: when memory is exhausted and the page's table does not exist, \<^verbatim>\<open>paging_map\<close> does not
  fail: it uses the null pointer as the page table, clears the first page of physical memory,
  writes the entry there and installs a directory entry that points to address 0.
\<close>

theorem paging_map_null_table:
  assumes "vm_ok s" "\<not> present s (pd_idx v)" "\<not> has_frame s"
  shows "\<exists>s'. paging_map v p fl s = Inr s' \<and> pdir s' ! pd_idx v = 7
    \<and> pmem s' (4 * pt_idx v) = (p AND NOT 0xFFF) OR (fl AND 0xFFF) OR PAGE_PRESENT
    \<and> (\<forall>i < 1024. of_nat i \<noteq> pt_idx v \<longrightarrow> pmem s' (4 * of_nat i) = 0)"
proof -
  have len: "pd_idx v < length (pdir s)" and pok: "pmm_ok (pmm_st s)"
    using assms(1) pd_idx_lt by (auto simp: vm_ok_def)
  have al: "aligned 0" by (simp add: aligned_def)
  have z: "zero_table 0 m (4 * i) = 0" if "unat i < 1024" for m i
    using zero_table_entry [OF that, of 0 m] by simp
  have "4 * of_nat i \<noteq> 4 * pt_idx v" if "i < 1024" "of_nat i \<noteq> pt_idx v" for i :: nat
    using entry_eq_iff [OF al al _ pt_idx_lt, of "of_nat i" v] that by (simp add: unat_of_nat32)
  moreover have "unat (of_nat i :: u32) < 1024" if "i < 1024" for i using that by (simp add: unat_of_nat32)
  ultimately show ?thesis
    using assms(2,3) len z pmm_ok_alloc [OF pok]
    by (auto simp: paging_map_def get_or_create_pt_def present_def has_frame_def Let_def split_beta
      PAGE_PRESENT_def PAGE_WRITE_def PAGE_USER_def)
qed

theorem paging_map_null_table_witness:
  "\<exists>s s'. vm_ok s \<and> paging_map 0x8048000 0x200000 7 s = Inr s' \<and> pdir s' ! 32 = 7"
proof -
  let ?p = "\<lparr>bitmap = 1 # replicate 32767 0, total_pages = 1, used_pages = 1, bitmap_size = 0\<rparr> :: pmm"
  let ?s = "\<lparr>pdir = replicate 1024 0, pmem = (\<lambda>_. 0), pmm_st = ?p\<rparr>"
  have "pages_used ?p = {0}" by (auto simp: pages_used_def page_bit_def)
  then have "pmm_ok ?p" by (simp add: pmm_ok_def pmm_inv_def BITMAP_BYTES_def)
  then have ok: "vm_ok ?s" unfolding vm_ok_def present_def by (auto simp: nth_zero_dir)
  have np: "\<not> present ?s (pd_idx 0x8048000)"
    unfolding present_def using nth_zero_dir [OF pd_idx_lt] by simp
  have "pmm_alloc ?p = Inr (?p, 0)"
    using pmm_scan.simps(2) [of "1 # replicate 32767 0" 0 0] by (simp add: pmm_alloc_def bitmap_test_def)
  then have "\<not> has_frame ?s" by (simp add: has_frame_def pmm_take_def)
  from paging_map_null_table [OF ok np this, of "0x200000" 7] obtain s'
    where "paging_map 0x8048000 0x200000 7 ?s = Inr s'" "pdir s' ! pd_idx 0x8048000 = 7" by blast
  moreover have "pd_idx 0x8048000 = 32" by (simp add: pd_idx_def)
  ultimately show ?thesis using ok by metis
qed

end
