(* ===== verification/Scheduler.thy ===== *)
theory Scheduler
  imports HeapProps Paging Ring
begin

text \<open>
  Processes and the round-robin scheduler (\<^verbatim>\<open>kernel/process.h\<close>, \<^verbatim>\<open>kernel/scheduler.cpp\<close>). The
  state holds the process table and what its operations use: the heap the kernel stacks come
  from, the page tables the user stacks are mapped in, the words of the stacks, the timer
  and the stack pointer stored in the TSS. \<^verbatim>\<open>context_switch\<close> is assembly: the model keeps what
  it does to the table, and the stack pointer it saves is the argument \<open>sp\<close> of a switch.
\<close>

definition PROC_MAX :: nat where "PROC_MAX = 16"
definition PROC_STACK_SIZE :: u32 where "PROC_STACK_SIZE = 8192"
definition PROC_NAME_LEN :: nat where "PROC_NAME_LEN = 32"
definition PROC_USER_STACK_SIZE :: u32 where "PROC_USER_STACK_SIZE = 8192"
definition USER_STACK_VIRT_BASE :: u32 where "USER_STACK_VIRT_BASE = 0x10000000"
definition TIME_SLICE :: u32 where "TIME_SLICE = 10"

datatype proc_state = PROC_DEAD | PROC_READY | PROC_RUNNING | PROC_BLOCKED | PROC_SLEEP

record process =
  pid :: u32
  pname :: bytes
  pstate :: proc_state
  esp :: u32
  stack_base :: u32
  sleep_until :: u32
  priority :: u32
  ticks_total :: u32
  ticks_slice :: u32
  is_user :: bool
  user_entry :: u32
  user_stack_virt :: u32
  brk_start :: u32
  brk_curr :: u32

record sched =
  procs :: "process list"
  proc_count :: int
  current_idx :: nat
  initialized :: bool
  next_pid_kernel :: u32
  next_pid_user :: u32
  kheap :: heap
  kvm :: vm
  stack_mem :: "u32 \<Rightarrow> u32"
  pit_now :: u32
  pit_hz :: u32
  tss_esp0 :: u32

definition upd_proc :: "nat \<Rightarrow> (process \<Rightarrow> process) \<Rightarrow> sched \<Rightarrow> sched" where
  "upd_proc i f s = s\<lparr>procs := (procs s)[i := f (procs s ! i)]\<rparr>"

section \<open>Creating processes\<close>

definition alloc_proc :: "sched \<Rightarrow> nat option" where
  "alloc_proc s = find_idx (\<lambda>p. pstate p = PROC_DEAD) (procs s)"

definition scheduler_init :: "sched \<Rightarrow> sched" where
  "scheduler_init s =
     (let s1 = s\<lparr>procs := map (\<lambda>p. p\<lparr>pstate := PROC_DEAD\<rparr>) (procs s),
                 proc_count := 0, current_idx := 0, initialized := True\<rparr>
      in (upd_proc 0 (\<lambda>p. p\<lparr>pid := 0,
             pname := copy_into (pname p) (map of_char ''kernel'' @ [0]),
             pstate := PROC_RUNNING, priority := 1, ticks_total := 0, ticks_slice := 0,
             stack_base := 0, esp := 0\<rparr>) s1)\<lparr>proc_count := 1\<rparr>)"

text \<open>
  The name array after \<^verbatim>\<open>kstrncpy(p->name, name, PROC_NAME_LEN - 1)\<close> and the store of the
  last zero.
\<close>

definition name_array :: "bytes \<Rightarrow> bytes" where
  "name_array nm = take (PROC_NAME_LEN - 1) nm
     @ replicate (PROC_NAME_LEN - min (PROC_NAME_LEN - 1) (length nm)) 0"

text \<open>\<^verbatim>\<open>*--sp = v\<close>.\<close>

definition push :: "u32 \<Rightarrow> u32 \<times> (u32 \<Rightarrow> u32) \<Rightarrow> u32 \<times> (u32 \<Rightarrow> u32)" where
  "push v = (\<lambda>(sp, m). (sp - 4, m(sp - 4 := v)))"

text \<open>
  The address of a slot of the process table (\<open>slot\<close>), of the entry stub (\<open>entry\<close>), of the
  function and its argument are numbers of the linked kernel.
\<close>

definition process_create ::
  "(nat \<Rightarrow> u32) \<Rightarrow> u32 \<Rightarrow> u32 \<Rightarrow> u32 \<Rightarrow> bytes \<Rightarrow> u32 \<Rightarrow> sched \<Rightarrow> (sched \<times> nat option) option" where
  "process_create slot entry fn arg nm prio s = (case alloc_proc s of
     None \<Rightarrow> Some (s, None)
   | Some i \<Rightarrow>
      let s1 = (upd_proc i (\<lambda>p. p\<lparr>pid := next_pid_kernel s, pstate := PROC_READY, priority := prio,
            ticks_total := 0, ticks_slice := 0, sleep_until := 0, is_user := False, user_entry := 0,
            user_stack_virt := 0, pname := name_array nm\<rparr>) s)
            \<lparr>next_pid_kernel := next_pid_kernel s + 1\<rparr>
      in (case kmalloc (kheap s1) PROC_STACK_SIZE of
        None \<Rightarrow> None
      | Some (h, stack) \<Rightarrow>
          if stack = 0 then Some (upd_proc i (\<lambda>p. p\<lparr>pstate := PROC_DEAD\<rparr>) (s1\<lparr>kheap := h\<rparr>), None)
          else let (sp, m) = fold push [arg, fn, slot i, 0, entry, 0, 0, 0, 0]
                     (stack + PROC_STACK_SIZE, stack_mem s1)
            in Some (upd_proc i (\<lambda>p. p\<lparr>stack_base := stack, esp := sp\<rparr>)
                 (s1\<lparr>kheap := h, stack_mem := m, proc_count := proc_count s1 + 1\<rparr>), Some i)))"

definition process_create_user ::
  "(nat \<Rightarrow> u32) \<Rightarrow> u32 \<Rightarrow> u32 \<Rightarrow> bytes \<Rightarrow> u32 \<Rightarrow> sched \<Rightarrow> (fault + (sched \<times> nat option)) option" where
  "process_create_user slot entry uentry nm prio s = (case alloc_proc s of
     None \<Rightarrow> Some (Inr (s, None))
   | Some i \<Rightarrow>
      let id = next_pid_user s;
          s1 = (upd_proc i (\<lambda>p. p\<lparr>pid := id, pstate := PROC_READY, priority := prio,
            ticks_total := 0, ticks_slice := 0, sleep_until := 0, is_user := True, user_entry := uentry,
            brk_start := 0x40000000, brk_curr := 0x40000000, pname := name_array nm\<rparr>) s)
            \<lparr>next_pid_user := next_pid_user s + 1\<rparr>
      in (case kmalloc (kheap s1) PROC_STACK_SIZE of
        None \<Rightarrow> None
      | Some (h, stack) \<Rightarrow>
          if stack = 0 then Some (Inr (upd_proc i (\<lambda>p. p\<lparr>pstate := PROC_DEAD\<rparr>) (s1\<lparr>kheap := h\<rparr>), None))
          else
            let s2 = upd_proc i (\<lambda>p. p\<lparr>stack_base := stack\<rparr>) (s1\<lparr>kheap := h\<rparr>);
                ustack = USER_STACK_VIRT_BASE + id * PROC_USER_STACK_SIZE
            in Some (bindE (paging_alloc_region ustack PROC_USER_STACK_SIZE
                   (PAGE_PRESENT OR PAGE_WRITE OR PAGE_USER) (kvm s2)) (\<lambda>(v, ok).
                 if \<not> ok then
                   Inr (upd_proc i (\<lambda>p. p\<lparr>pstate := PROC_DEAD\<rparr>) (s2\<lparr>kvm := v, kheap := kfree h stack\<rparr>), None)
                 else let (sp, m) = fold push [0, 0, slot i, 0, entry, 0, 0, 0, 0]
                            (stack + PROC_STACK_SIZE, stack_mem s2)
                   in Inr (upd_proc i (\<lambda>p. p\<lparr>user_stack_virt := ustack + PROC_USER_STACK_SIZE, esp := sp\<rparr>)
                        (s2\<lparr>kvm := v, stack_mem := m, proc_count := proc_count s2 + 1\<rparr>), Some i)))))"

section \<open>Switching\<close>

definition do_switch :: "u32 \<Rightarrow> nat \<Rightarrow> sched \<Rightarrow> sched" where
  "do_switch sp next s =
     (if next = current_idx s then s
      else
        let prev = current_idx s;
            s1 = s\<lparr>current_idx := next\<rparr>;
            s2 = (if pstate (procs s1 ! prev) = PROC_RUNNING
                  then upd_proc prev (\<lambda>p. p\<lparr>pstate := PROC_READY\<rparr>) s1 else s1);
            s3 = upd_proc next (\<lambda>p. p\<lparr>pstate := PROC_RUNNING, ticks_slice := 0\<rparr>) s2;
            s4 = s3\<lparr>tss_esp0 := stack_base (procs s3 ! next) + PROC_STACK_SIZE\<rparr>
        in upd_proc prev (\<lambda>p. p\<lparr>esp := sp\<rparr>) s4)"

text \<open>The loop that wakes sleepers.\<close>

definition wake :: "u32 \<Rightarrow> process \<Rightarrow> process" where
  "wake now p = (if pstate p = PROC_SLEEP \<and> now \<ge> sleep_until p then p\<lparr>pstate := PROC_READY\<rparr> else p)"

definition find_next :: "sched \<Rightarrow> sched \<times> nat" where
  "find_next s =
     (let s1 = s\<lparr>procs := map (wake (pit_now s)) (procs s)\<rparr>;
          cur = current_idx s1
      in case find (\<lambda>i. pstate (procs s1 ! ((cur + i) mod PROC_MAX)) = PROC_READY) [1..<PROC_MAX + 1] of
           Some i \<Rightarrow> (s1, (cur + i) mod PROC_MAX)
         | None \<Rightarrow> if pstate (procs s1 ! 0) = PROC_READY \<or> pstate (procs s1 ! 0) = PROC_RUNNING
             then (s1, 0) else (s1, cur))"

definition scheduler_yield :: "u32 \<Rightarrow> sched \<Rightarrow> sched" where
  "scheduler_yield sp s = (let (s1, next) = find_next s in
     if next \<noteq> current_idx s1 then do_switch sp next s1 else s1)"

definition scheduler_tick :: "u32 \<Rightarrow> sched \<Rightarrow> sched" where
  "scheduler_tick sp s =
     (if \<not> initialized s then s
      else
        let s1 = upd_proc (current_idx s) (\<lambda>p. p\<lparr>ticks_total := ticks_total p + 1, ticks_slice := ticks_slice p + 1\<rparr>) s;
            p = procs s1 ! current_idx s1
        in if ticks_slice p \<ge> TIME_SLICE \<or> pstate p = PROC_DEAD \<or> pstate p = PROC_SLEEP \<or> pstate p = PROC_BLOCKED
           then let (s2, next) = find_next s1 in if next \<noteq> current_idx s2 then do_switch sp next s2 else s2
           else s1)"

definition process_exit :: "u32 \<Rightarrow> sched \<Rightarrow> sched" where
  "process_exit sp s = scheduler_yield sp ((upd_proc (current_idx s) (\<lambda>p. p\<lparr>pstate := PROC_DEAD\<rparr>) s)
     \<lparr>proc_count := proc_count s - 1\<rparr>)"

text \<open>The argument is a slot of the table, \<open>None\<close> for the null pointer.\<close>

definition process_block :: "nat option \<Rightarrow> sched \<Rightarrow> sched" where
  "process_block p s = (case p of None \<Rightarrow> s | Some i \<Rightarrow> upd_proc i (\<lambda>p. p\<lparr>pstate := PROC_BLOCKED\<rparr>) s)"

definition process_unblock :: "nat option \<Rightarrow> sched \<Rightarrow> sched" where
  "process_unblock p s = (case p of None \<Rightarrow> s
   | Some i \<Rightarrow> if pstate (procs s ! i) = PROC_BLOCKED then upd_proc i (\<lambda>p. p\<lparr>pstate := PROC_READY\<rparr>) s else s)"

definition process_sleep :: "u32 \<Rightarrow> u32 \<Rightarrow> sched \<Rightarrow> sched" where
  "process_sleep sp ms s = scheduler_yield sp (upd_proc (current_idx s)
     (\<lambda>p. p\<lparr>pstate := PROC_SLEEP, sleep_until := pit_now s + (ms * pit_hz s) div 1000\<rparr>) s)"

definition scheduler_current :: "sched \<Rightarrow> process" where
  "scheduler_current s = procs s ! current_idx s"

definition scheduler_get :: "int \<Rightarrow> sched \<Rightarrow> process option" where
  "scheduler_get i s = (if i < 0 \<or> i \<ge> int PROC_MAX then None else Some (procs s ! nat i))"

definition scheduler_count :: "sched \<Rightarrow> int" where
  "scheduler_count s = proc_count s"

section \<open>The table\<close>

definition sched_inv :: "sched \<Rightarrow> bool" where
  "sched_inv s \<longleftrightarrow> length (procs s) = PROC_MAX \<and> current_idx s < PROC_MAX
     \<and> (\<forall>i < PROC_MAX. pstate (procs s ! i) = PROC_RUNNING \<longrightarrow> i = current_idx s)"

definition ready :: "sched \<Rightarrow> nat \<Rightarrow> bool" where
  "ready s i \<longleftrightarrow> pstate (procs s ! i) = PROC_READY"

text \<open>How many slots lie between the current process and slot \<open>i\<close>, in cyclic order.\<close>

definition waits :: "sched \<Rightarrow> nat \<Rightarrow> nat" where
  "waits s i = ring_count PROC_MAX ((current_idx s + 1) mod PROC_MAX) i"

lemma upd_proc_simps [simp]:
  "current_idx (upd_proc i f s) = current_idx s"
  "length (procs (upd_proc i f s)) = length (procs s)"
  by (simp_all add: upd_proc_def)

lemma upd_proc_nth: "i < length (procs s) \<Longrightarrow>
  procs (upd_proc i f s) ! j = (if j = i then f (procs s ! i) else procs s ! j)"
  by (simp add: upd_proc_def)

lemma wake_state: "pstate (wake now p) = (if pstate p = PROC_SLEEP \<and> now \<ge> sleep_until p then PROC_READY else pstate p)"
  by (simp add: wake_def)

lemma find_upt_Some:
  "find P [1..<Suc n] = Some k \<longleftrightarrow> 1 \<le> k \<and> k \<le> n \<and> P k \<and> (\<forall>j. 1 \<le> j \<and> j < k \<longrightarrow> \<not> P j)"
proof -
  have "find P [1..<Suc n] = Some k
      \<longleftrightarrow> (\<exists>i < n. P (Suc i) \<and> k = Suc i \<and> (\<forall>j < i. \<not> P (Suc j)))"
    by (auto simp: find_Some_iff simp del: upt_Suc)
  also have "\<dots> \<longleftrightarrow> 1 \<le> k \<and> k \<le> n \<and> P k \<and> (\<forall>j. 1 \<le> j \<and> j < k \<longrightarrow> \<not> P j)"
    by (cases k) (auto simp: less_Suc_eq_le Suc_le_eq gr0_conv_Suc)
  finally show ?thesis .
qed

lemma find_next_spec:
  assumes inv: "sched_inv s" and n: "find_next s = (s1, next)"
  shows "s1 = s\<lparr>procs := map (wake (pit_now s)) (procs s)\<rparr> \<and> sched_inv s1 \<and> next < PROC_MAX
    \<and> current_idx s1 = current_idx s \<and> (\<forall>i < PROC_MAX. ready s i \<longrightarrow> ready s1 i)"
proof -
  have s1: "s1 = s\<lparr>procs := map (wake (pit_now s)) (procs s)\<rparr>"
    using n by (auto simp: find_next_def Let_def split: option.splits if_splits)
  have "next < PROC_MAX"
    using n inv by (auto simp: find_next_def Let_def sched_inv_def PROC_MAX_def split: option.splits if_splits)
  with s1 inv show ?thesis by (auto simp: sched_inv_def ready_def wake_state)
qed

text \<open>The slot found is at most as far as any ready slot.\<close>

lemma find_next_nearest:
  assumes inv: "sched_inv s" and n: "find_next s = (s1, next)" and i: "i < PROC_MAX" "ready s i"
  shows "next = i \<or> waits (s1\<lparr>current_idx := next\<rparr>) i < waits s i"
proof -
  let ?c = "current_idx s" and ?d = "Suc (waits s i)"
  let ?P = "\<lambda>j. pstate (procs s1 ! ((?c + j) mod PROC_MAX)) = PROC_READY"
  have c: "?c < PROC_MAX" using inv by (simp add: sched_inv_def)
  note sp = find_next_spec [OF inv n]
  have "((?c + 1) mod PROC_MAX + waits s i) mod PROC_MAX = i"
    unfolding waits_def by (rule ring_count_head) (use i(1) in \<open>auto simp: PROC_MAX_def\<close>)
  then have d: "(?c + ?d) mod PROC_MAX = i" by (simp add: mod_simps)
  have dl: "?d \<le> PROC_MAX" using ring_count_bound [of PROC_MAX "(?c + 1) mod PROC_MAX" i]
    by (simp add: waits_def PROC_MAX_def)
  have "ready s1 i" using sp i by blast
  then have Pd: "?P ?d" unfolding d ready_def .
  obtain k where k: "find ?P [1..<Suc PROC_MAX] = Some k"
  proof (cases "find ?P [1..<Suc PROC_MAX]")
    case None
    have "?d \<in> set [1..<Suc PROC_MAX]" using dl unfolding set_upt by simp
    with None Pd show ?thesis unfolding find_None_iff by blast
  qed
  then have kk: "1 \<le> k" "?P k" "k \<le> ?d" unfolding find_upt_Some using Pd by (auto simp: not_le [symmetric])
  have nx: "next = (?c + k) mod PROC_MAX"
    using n k sp by (auto simp: find_next_def Let_def)
  show ?thesis
  proof (cases "k = ?d")
    case True
    with nx d show ?thesis by simp
  next
    case False
    let ?m = "?d - k - 1"
    have "((next + 1) mod PROC_MAX + ?m) mod PROC_MAX = (?c + k + 1 + ?m) mod PROC_MAX"
      using nx by (simp add: mod_simps)
    also have "?c + k + 1 + ?m = ?c + ?d" using kk False by simp
    also have "(?c + ?d) mod PROC_MAX = i" by (rule d)
    finally have "ring_count PROC_MAX ((next + 1) mod PROC_MAX) i = ?m"
      using dl by (intro ring_count_eqI) (auto simp: PROC_MAX_def)
    then show ?thesis using kk False by (simp add: waits_def)
  qed
qed

lemma do_switch_current: "current_idx (do_switch sp next s) = next"
  by (simp add: do_switch_def Let_def upd_proc_def)

lemma do_switch_state:
  assumes "sched_inv s" "next < PROC_MAX" "next \<noteq> current_idx s"
  shows "pstate (procs (do_switch sp next s) ! i) = (if i = next then PROC_RUNNING
     else if i = current_idx s \<and> pstate (procs s ! i) = PROC_RUNNING then PROC_READY else pstate (procs s ! i))"
    "length (procs (do_switch sp next s)) = PROC_MAX"
  using assms by (auto simp: do_switch_def Let_def upd_proc_def sched_inv_def nth_list_update)

lemma do_switch_inv:
  assumes "sched_inv s" "next < PROC_MAX" "next \<noteq> current_idx s"
  shows "sched_inv (do_switch sp next s)"
  using assms do_switch_state [OF assms] unfolding sched_inv_def do_switch_current by (auto split: if_splits)

text \<open>A reschedule, by \<^verbatim>\<open>scheduler_yield\<close> or by the timer.\<close>

lemma yield_spec:
  assumes inv: "sched_inv s"
  shows "sched_inv (scheduler_yield sp s) \<and> (\<forall>i < PROC_MAX. ready s i \<longrightarrow>
    current_idx (scheduler_yield sp s) = i \<or> waits (scheduler_yield sp s) i < waits s i)"
proof -
  obtain s1 nx where n: "find_next s = (s1, nx)" by fastforce
  note sp1 = find_next_spec [OF inv n]
  have cur: "current_idx (scheduler_yield sp s) = nx"
    using n sp1 by (auto simp: scheduler_yield_def do_switch_current)
  have "sched_inv (scheduler_yield sp s)"
    using n sp1 do_switch_inv [of s1 nx] by (auto simp: scheduler_yield_def)
  moreover have "waits (scheduler_yield sp s) i = waits (s1\<lparr>current_idx := nx\<rparr>) i" for i
    using cur by (simp add: waits_def)
  ultimately show ?thesis using find_next_nearest [OF inv n] cur by metis
qed

section \<open>Runs\<close>

text \<open>
  What happens to the table over time: the running process yields, sleeps or exits, the timer
  ticks, somebody blocks or unblocks a process, time passes. The number of a switch is the
  stack pointer it saves.
\<close>

datatype sched_op =
    Yield u32
  | Tick u32
  | Sleep u32 u32
  | Exit u32
  | Block "nat option"
  | Unblock "nat option"
  | Time u32

fun sched_exec :: "sched_op \<Rightarrow> sched \<Rightarrow> sched" where
  "sched_exec (Yield sp) s = scheduler_yield sp s"
| "sched_exec (Tick sp) s = scheduler_tick sp s"
| "sched_exec (Sleep sp ms) s = process_sleep sp ms s"
| "sched_exec (Exit sp) s = process_exit sp s"
| "sched_exec (Block p) s = process_block p s"
| "sched_exec (Unblock p) s = process_unblock p s"
| "sched_exec (Time t) s = s\<lparr>pit_now := t\<rparr>"

fun reschedules :: "sched_op \<Rightarrow> bool" where
  "reschedules (Yield sp) = True"
| "reschedules (Sleep sp ms) = True"
| "reschedules (Exit sp) = True"
| "reschedules _ = False"

lemma sched_inv_cong:
  "sched_inv s \<Longrightarrow> current_idx t = current_idx s \<Longrightarrow> length (procs t) = length (procs s) \<Longrightarrow>
   (\<And>i. i < PROC_MAX \<Longrightarrow> pstate (procs t ! i) = PROC_RUNNING \<Longrightarrow> pstate (procs s ! i) = PROC_RUNNING) \<Longrightarrow>
   sched_inv t"
  by (simp add: sched_inv_def)

lemma sched_inv_current: "sched_inv s \<Longrightarrow> current_idx s < length (procs s)"
  by (simp add: sched_inv_def)

lemma upd_state_inv:
  assumes "sched_inv s" "\<And>p. pstate (f p) = PROC_RUNNING \<Longrightarrow> pstate p = PROC_RUNNING"
  shows "sched_inv (upd_proc i f s)"
proof (rule sched_inv_cong [OF assms(1)])
  fix j
  assume "pstate (procs (upd_proc i f s) ! j) = PROC_RUNNING"
  with assms(2) show "pstate (procs s ! j) = PROC_RUNNING"
    by (cases "i < length (procs s)"; cases "j = i") (auto simp: upd_proc_def list_update_beyond)
qed simp_all

lemma upd_current_inv:
  assumes "sched_inv s"
  shows "sched_inv (upd_proc (current_idx s) f s)"
  using assms by (auto simp: sched_inv_def upd_proc_def nth_list_update)

lemma tick_alt:
  "scheduler_tick sp s = (if \<not> initialized s then s else
     let s1 = upd_proc (current_idx s) (\<lambda>p. p\<lparr>ticks_total := ticks_total p + 1, ticks_slice := ticks_slice p + 1\<rparr>) s;
         p = procs s1 ! current_idx s1
     in if ticks_slice p \<ge> TIME_SLICE \<or> pstate p = PROC_DEAD \<or> pstate p = PROC_SLEEP \<or> pstate p = PROC_BLOCKED
        then scheduler_yield sp s1 else s1)"
  by (simp add: scheduler_tick_def scheduler_yield_def Let_def)

lemma op_spec:
  assumes inv: "sched_inv s" and i: "i < PROC_MAX" "ready s i" "current_idx s \<noteq> i"
  shows "sched_inv (sched_exec op s) \<and> (current_idx (sched_exec op s) = i \<or>
    waits (sched_exec op s) i + (if reschedules op then 1 else 0) \<le> waits s i)"
proof -
  have yield: "sched_inv (scheduler_yield sp t) \<and> (current_idx (scheduler_yield sp t) = i \<or>
      waits (scheduler_yield sp t) i + 1 \<le> waits s i)"
    if "sched_inv t" "current_idx t = current_idx s" "procs t ! i = procs s ! i" for sp t
  proof -
    have "ready t i" using that i(2) by (simp add: ready_def)
    moreover have "waits t i = waits s i" using that by (simp add: waits_def)
    ultimately show ?thesis using yield_spec [OF that(1), of sp] i(1) by (metis Suc_eq_plus1 Suc_leI)
  qed
  have upd: "sched_inv (upd_proc (current_idx s) f s)" "procs (upd_proc (current_idx s) f s) ! i = procs s ! i" for f
    using upd_current_inv [OF inv] i(3) by (auto simp: upd_proc_def)
  show ?thesis
  proof (cases op)
    case (Yield sp)
    with yield [OF inv] show ?thesis by simp
  next
    case (Tick sp)
    let ?t = "upd_proc (current_idx s) (\<lambda>p. p\<lparr>ticks_total := ticks_total p + 1, ticks_slice := ticks_slice p + 1\<rparr>) s"
    have "waits ?t i = waits s i" by (simp add: waits_def)
    with Tick yield [of ?t sp] upd inv show ?thesis by (auto simp: tick_alt Let_def)
  next
    case (Sleep sp ms)
    with yield [of "upd_proc (current_idx s) f s" for f] upd show ?thesis
      by (simp add: process_sleep_def)
  next
    case (Exit sp)
    let ?t = "(upd_proc (current_idx s) (\<lambda>p. p\<lparr>pstate := PROC_DEAD\<rparr>) s)\<lparr>proc_count := proc_count s - 1\<rparr>"
    have "sched_inv ?t" using upd(1) by (simp add: sched_inv_def)
    with Exit yield [of ?t] upd(2) show ?thesis by (simp add: process_exit_def)
  next
    case (Block p)
    have "sched_inv (process_block p s)"
      using inv by (auto simp: process_block_def intro!: upd_state_inv split: option.splits)
    with Block show ?thesis by (auto simp: process_block_def waits_def split: option.splits)
  next
    case (Unblock p)
    have "sched_inv (process_unblock p s)"
      using inv by (auto simp: process_unblock_def intro!: upd_state_inv split: option.splits)
    with Unblock show ?thesis by (auto simp: process_unblock_def waits_def split: option.splits)
  next
    case (Time t)
    with inv show ?thesis by (simp add: sched_inv_def waits_def)
  qed
qed

definition sched_run :: "sched_op list \<Rightarrow> sched \<Rightarrow> sched" where
  "sched_run ops s = fold sched_exec ops s"

lemma sched_op_inv:
  assumes "sched_inv s"
  shows "sched_inv (sched_exec op s)"
proof -
  have upd: "sched_inv (upd_proc (current_idx s) f s)" for f using upd_current_inv [OF assms] .
  show ?thesis
  proof (cases op)
    case (Exit sp)
    have "sched_inv ((upd_proc (current_idx s) (\<lambda>p. p\<lparr>pstate := PROC_DEAD\<rparr>) s)\<lparr>proc_count := proc_count s - 1\<rparr>)"
      using upd by (simp add: sched_inv_def)
    with Exit yield_spec show ?thesis by (simp add: process_exit_def)
  next
    case (Block p)
    with assms show ?thesis
      by (auto simp: process_block_def intro!: upd_state_inv split: option.splits)
  next
    case (Unblock p)
    with assms show ?thesis
      by (auto simp: process_unblock_def intro!: upd_state_inv split: option.splits)
  next
    case (Time t)
    with assms show ?thesis by (simp add: sched_inv_def)
  qed (use assms upd yield_spec in \<open>auto simp: tick_alt process_sleep_def Let_def\<close>)
qed

lemma sched_run_inv: "sched_inv s \<Longrightarrow> sched_inv (sched_run ops s)"
  unfolding sched_run_def by (induction ops arbitrary: s) (auto intro: sched_op_inv)

text \<open>Process \<open>i\<close> is ready and not running at every point of the run.\<close>

fun starved :: "nat \<Rightarrow> sched_op list \<Rightarrow> sched \<Rightarrow> bool" where
  "starved i [] s \<longleftrightarrow> ready s i \<and> current_idx s \<noteq> i"
| "starved i (op # ops) s \<longleftrightarrow> ready s i \<and> current_idx s \<noteq> i \<and> starved i ops (sched_exec op s)"

lemma starved_waits:
  "sched_inv s \<Longrightarrow> i < PROC_MAX \<Longrightarrow> starved i ops s \<Longrightarrow> length (filter reschedules ops) \<le> waits s i"
proof (induction ops arbitrary: s)
  case (Cons op ops)
  from op_spec [OF Cons.prems(1,2), of op] Cons.prems(3)
  have inv: "sched_inv (sched_exec op s)" and st: "starved i ops (sched_exec op s)"
    and le: "current_idx (sched_exec op s) = i
      \<or> waits (sched_exec op s) i + (if reschedules op then 1 else 0) \<le> waits s i" by auto
  have "current_idx (sched_exec op s) \<noteq> i" using st by (cases ops) auto
  with Cons.IH [OF inv Cons.prems(2) st] le show ?case by auto
qed simp

section \<open>Slots of new processes\<close>

definition live :: "sched \<Rightarrow> nat \<Rightarrow> bool" where
  "live s i \<longleftrightarrow> pstate (procs s ! i) \<noteq> PROC_DEAD"

lemma alloc_proc_dead: "alloc_proc s = Some i \<Longrightarrow> i < length (procs s) \<and> \<not> live s i"
  by (auto simp: alloc_proc_def live_def dest: find_idx_SomeD)

lemma push_simp: "push v (sp, m) = (sp - 4, m(sp - 4 := v))"
  by (simp add: push_def)

text \<open>
  The nine words of a new kernel stack, from the stack pointer up: four registers that
  \<^verbatim>\<open>context_switch\<close> pops, the address it returns to, and what that function finds as its
  return address and arguments.
\<close>

lemma fold_push_frame:
  assumes "fold push [a, b, c, d, e, 0, 0, 0, 0] (tp, m) = (sp, m')"
  shows "sp = tp - 36 \<and> map m' [tp - 36, tp - 32, tp - 28, tp - 24, tp - 20, tp - 16, tp - 12, tp - 8, tp - 4]
    = [0, 0, 0, 0, e, d, c, b, a]"
proof -
  have "sp = tp - 36" "m' = m(tp - 4 := a, tp - 8 := b, tp - 12 := c, tp - 16 := d, tp - 20 := e,
      tp - 24 := 0, tp - 28 := 0, tp - 32 := 0, tp - 36 := 0)"
    using assms by (auto simp: push_simp)
  then show ?thesis by simp
qed

section \<open>Properties\<close>

definition dead_process :: process where
  "dead_process = \<lparr>pid = 0, pname = replicate 32 0, pstate = PROC_DEAD, esp = 0, stack_base = 0, sleep_until = 0,
     priority = 0, ticks_total = 0, ticks_slice = 0, is_user = False, user_entry = 0, user_stack_virt = 0,
     brk_start = 0, brk_curr = 0\<rparr>"

text \<open>The table after \<open>scheduler_init\<close>, with one more process that is ready.\<close>

definition demo_sched :: sched where
  "demo_sched = upd_proc 1 (\<lambda>p. p\<lparr>pstate := PROC_READY\<rparr>) (scheduler_init
     \<lparr>procs = replicate 16 dead_process, proc_count = 0, current_idx = 0, initialized = False,
      next_pid_kernel = 1, next_pid_user = 1, kheap = demo_heap, kvm = demo_vm, stack_mem = (\<lambda>_. 0),
      pit_now = 0, pit_hz = 1000, tss_esp0 = 0\<rparr>)"

lemma demo_sched_state: "i < 16 \<Longrightarrow> pstate (procs demo_sched ! i)
    = (if i = 0 then PROC_RUNNING else if i = 1 then PROC_READY else PROC_DEAD)"
  by (simp add: demo_sched_def scheduler_init_def upd_proc_def nth_list_update dead_process_def)

lemma demo_sched_inv: "sched_inv demo_sched" "current_idx demo_sched = 0" "kheap demo_sched = demo_heap"
  using demo_sched_state by (auto simp: sched_inv_def PROC_MAX_def split: if_splits)
    (simp_all add: demo_sched_def scheduler_init_def upd_proc_def)



text \<open>
  In every state the scheduler's operations lead to, the running process is the current
  one: no other process is marked running.
\<close>

theorem scheduler_one_running:
  assumes "sched_inv s" "j < PROC_MAX" "pstate (procs (sched_run ops s) ! j) = PROC_RUNNING"
  shows "j = current_idx (sched_run ops s) \<and> j < length (procs (sched_run ops s))"
  using sched_run_inv [OF assms(1)] assms(2,3) by (auto simp: sched_inv_def)

theorem scheduler_one_running_witness:
  "current_idx (sched_run [] demo_sched) = 0 \<and> 0 < length (procs (sched_run [] demo_sched))"
  using scheduler_one_running [OF demo_sched_inv(1), of 0 "[]"] demo_sched_state [of 0]
  by (simp add: sched_run_def PROC_MAX_def)

text \<open>
  C20: \<^verbatim>\<open>process_create\<close> on a well-formed heap returns. Either it returns the null pointer (no slot
  or no memory), or it takes a slot that was dead, leaves every other slot as it was, makes the
  process ready with a stack of its own from the heap, and lays the stack out so that the first
  switch to it pops four registers, returns into the entry stub, and the stub finds the process,
  the function and its argument as its parameters.
\<close>

theorem process_create_frame:
  assumes heap: "heap_rep (kheap s) cs" "coalesced cs"
  shows "\<exists>s' r. process_create slot entry fn arg nm prio s = Some (s', r) \<and> (case r of
      None \<Rightarrow> proc_count s' = proc_count s
    | Some i \<Rightarrow> i < length (procs s) \<and> \<not> live s i \<and> ready s' i \<and> (\<forall>j. j \<noteq> i \<longrightarrow> procs s' ! j = procs s ! j)
        \<and> proc_count s' = proc_count s + 1
        \<and> (\<exists>cs' k. heap_rep (kheap s') cs' \<and> coalesced cs' \<and> 8192 \<le> k
            \<and> (unat (stack_base (procs s' ! i)), k) \<in> set (used_blocks (unat (heap_start (kheap s))) cs'))
        \<and> (let tp = stack_base (procs s' ! i) + 8192 in esp (procs s' ! i) = tp - 36
            \<and> map (stack_mem s') [tp - 36, tp - 32, tp - 28, tp - 24, tp - 20, tp - 16, tp - 12, tp - 8, tp - 4]
              = [0, 0, 0, 0, entry, 0, slot i, fn, arg]))"
proof (cases "alloc_proc s")
  case None
  then show ?thesis by (simp add: process_create_def)
next
  case (Some i)
  then have i: "i < length (procs s)" "\<not> live s i" using alloc_proc_dead by auto
  have n: "PROC_STACK_SIZE \<noteq> 0" "unat PROC_STACK_SIZE + 7 < 2 ^ 32" by (auto simp: PROC_STACK_SIZE_def)
  from kmalloc_block [OF heap n] consider
    (fail) "kmalloc (kheap s) PROC_STACK_SIZE = Some (kheap s, 0)"
  | (ok) h p k cs' where "kmalloc (kheap s) PROC_STACK_SIZE = Some (h, p)" "p \<noteq> 0" "heap_rep h cs'" "coalesced cs'"
      "8192 \<le> k" "(unat p, k) \<in> set (used_blocks (unat (heap_start (kheap s))) cs')"
    by (auto simp: PROC_STACK_SIZE_def)
  then show ?thesis
  proof cases
    case fail
    with Some show ?thesis by (simp add: process_create_def Let_def upd_proc_def)
  next
    case ok
    obtain sp m where f: "fold push [arg, fn, slot i, 0, entry, 0, 0, 0, 0] (p + PROC_STACK_SIZE, stack_mem s) = (sp, m)"
      by fastforce
    note fr = fold_push_frame [OF f]
    let ?p = "(procs s ! i)\<lparr>pid := next_pid_kernel s, pstate := PROC_READY, priority := prio,
      ticks_total := 0, ticks_slice := 0, sleep_until := 0, is_user := False, user_entry := 0,
      user_stack_virt := 0, pname := name_array nm, stack_base := p, esp := sp\<rparr>"
    let ?s = "s\<lparr>procs := (procs s)[i := ?p], next_pid_kernel := next_pid_kernel s + 1, kheap := h,
      stack_mem := m, proc_count := proc_count s + 1\<rparr>"
    have run: "process_create slot entry fn arg nm prio s = Some (?s, Some i)"
      using Some ok(1,2) f i(1) by (simp add: process_create_def Let_def upd_proc_def del: fold.simps)
    have "ready ?s i" "stack_base (procs ?s ! i) = p" "esp (procs ?s ! i) = sp"
      using i(1) by (simp_all add: ready_def)
    moreover have "\<exists>cs' k. heap_rep (kheap ?s) cs' \<and> coalesced cs' \<and> 8192 \<le> k
        \<and> (unat p, k) \<in> set (used_blocks (unat (heap_start (kheap s))) cs')" using ok(3-6) by auto
    ultimately show ?thesis using run i fr
      by (intro exI [of _ ?s] exI [of _ "Some i"]) (simp add: Let_def PROC_STACK_SIZE_def)
  qed
qed

theorem process_create_frame_witness:
  "\<exists>s' r. process_create (\<lambda>i. 0x300000 + of_nat i * 108) 0x100500 0x100600 7 [97] 5 demo_sched = Some (s', r)"
  using process_create_frame [of demo_sched "[(4076, True)]" "\<lambda>i. 0x300000 + of_nat i * 108" "0x100500" "0x100600" 7 "[97]" 5]
    demo_heap_rep by (auto simp: demo_sched_inv)

end
