(* ===== verification/Mutex.thy ===== *)
theory Mutex
  imports Scheduler
begin

text \<open>
  Mutexes and semaphores (\<^verbatim>\<open>kernel/mutex.cpp\<close>). The calls are given as functions; a call
  that waits by yielding takes the argument \<open>y\<close>, where \<open>y t\<close> is what the other processes do
  to the object during the \<open>t\<close>-th yield. The mutex is also given memory access by memory
  access, for any number of processes that may be preempted between two accesses.
\<close>

record mutex =
  locked :: int
  owner :: u32

record semaphore =
  count :: int
  maxc :: u32

section \<open>Operations\<close>

text \<open>The exchange instruction: the old value and the new memory.\<close>

definition atomic_xchg :: "int \<Rightarrow> mutex \<Rightarrow> mutex \<times> int" where
  "atomic_xchg v m = (m\<lparr>locked := v\<rparr>, locked m)"

definition mutex_init :: "mutex \<Rightarrow> mutex" where
  "mutex_init m = m\<lparr>locked := 0, owner := -1\<rparr>"

text \<open>\<open>cur\<close> is the current process; \<^verbatim>\<open>scheduler_current\<close> never returns the null pointer.\<close>

definition mutex_trylock :: "process \<Rightarrow> mutex \<Rightarrow> mutex \<times> bool" where
  "mutex_trylock cur m = (case atomic_xchg 1 m of (m1, old) \<Rightarrow>
     if old = 0 then (m1\<lparr>owner := pid cur\<rparr>, True) else (m1, False))"

partial_function (option) mutex_spin ::
  "(nat \<Rightarrow> mutex \<Rightarrow> mutex) \<Rightarrow> nat \<Rightarrow> process \<Rightarrow> mutex \<Rightarrow> mutex option" where
  "mutex_spin y t cur m = (case mutex_trylock cur m of (m1, ok) \<Rightarrow>
     if ok then Some m1 else mutex_spin y (Suc t) cur (y t m1))"

definition mutex_lock :: "(nat \<Rightarrow> mutex \<Rightarrow> mutex) \<Rightarrow> process \<Rightarrow> mutex \<Rightarrow> mutex option" where
  "mutex_lock y cur m = (if locked m \<noteq> 0 \<and> owner m = pid cur then Some m else mutex_spin y 0 cur m)"

definition mutex_unlock :: "mutex \<Rightarrow> mutex" where
  "mutex_unlock m = m\<lparr>owner := -1, locked := 0\<rparr>"

definition sem_init :: "int \<Rightarrow> u32 \<Rightarrow> semaphore \<Rightarrow> semaphore" where
  "sem_init initial mx s = s\<lparr>count := initial, maxc := mx\<rparr>"

partial_function (option) sem_wait ::
  "(nat \<Rightarrow> semaphore \<Rightarrow> semaphore) \<Rightarrow> nat \<Rightarrow> semaphore \<Rightarrow> semaphore option" where
  "sem_wait y t s = (if count s > 0 then Some (s\<lparr>count := count s - 1\<rparr>) else sem_wait y (Suc t) (y t s))"

definition sem_signal :: "semaphore \<Rightarrow> semaphore" where
  "sem_signal s = (if (of_int (count s) :: u32) < maxc s then s\<lparr>count := count s + 1\<rparr> else s)"

definition sem_value :: "semaphore \<Rightarrow> int" where
  "sem_value s = count s"

section \<open>The mutex, access by access\<close>

text \<open>
  Where a process is: outside; it has read \<^verbatim>\<open>locked\<close> as set and is about to compare
  \<^verbatim>\<open>owner\<close>; about to exchange; it has taken the lock but not yet stored its pid; inside;
  it has cleared \<^verbatim>\<open>owner\<close> but not yet \<^verbatim>\<open>locked\<close>.
\<close>

datatype mutex_pc = Outside | Compare | Exchange | Taken | Inside | Leaving

record mutex_sys =
  mtx :: mutex
  pcs :: "nat \<Rightarrow> mutex_pc"

inductive mutex_step :: "(nat \<Rightarrow> u32) \<Rightarrow> mutex_sys \<Rightarrow> mutex_sys \<Rightarrow> bool" for pids where
  read_set: "t < PROC_MAX \<Longrightarrow> pcs s t = Outside \<Longrightarrow> locked (mtx s) \<noteq> 0 \<Longrightarrow>
     mutex_step pids s (s\<lparr>pcs := (pcs s)(t := Compare)\<rparr>)"
| read_clear: "t < PROC_MAX \<Longrightarrow> pcs s t = Outside \<Longrightarrow> locked (mtx s) = 0 \<Longrightarrow>
     mutex_step pids s (s\<lparr>pcs := (pcs s)(t := Exchange)\<rparr>)"
| owner_same: "t < PROC_MAX \<Longrightarrow> pcs s t = Compare \<Longrightarrow> owner (mtx s) = pids t \<Longrightarrow>
     mutex_step pids s (s\<lparr>pcs := (pcs s)(t := Inside)\<rparr>)"
| owner_other: "t < PROC_MAX \<Longrightarrow> pcs s t = Compare \<Longrightarrow> owner (mtx s) \<noteq> pids t \<Longrightarrow>
     mutex_step pids s (s\<lparr>pcs := (pcs s)(t := Exchange)\<rparr>)"
| xchg: "t < PROC_MAX \<Longrightarrow> pcs s t = Exchange \<Longrightarrow> atomic_xchg 1 (mtx s) = (m, old) \<Longrightarrow>
     mutex_step pids s (s\<lparr>mtx := m, pcs := (pcs s)(t := if old = 0 then Taken else Exchange)\<rparr>)"
| set_owner: "t < PROC_MAX \<Longrightarrow> pcs s t = Taken \<Longrightarrow>
     mutex_step pids s (s\<lparr>mtx := (mtx s)\<lparr>owner := pids t\<rparr>, pcs := (pcs s)(t := Inside)\<rparr>)"
| clear_owner: "t < PROC_MAX \<Longrightarrow> pcs s t = Inside \<Longrightarrow>
     mutex_step pids s (s\<lparr>mtx := (mtx s)\<lparr>owner := -1\<rparr>, pcs := (pcs s)(t := Leaving)\<rparr>)"
| clear_locked: "t < PROC_MAX \<Longrightarrow> pcs s t = Leaving \<Longrightarrow>
     mutex_step pids s (s\<lparr>mtx := (mtx s)\<lparr>locked := 0\<rparr>, pcs := (pcs s)(t := Outside)\<rparr>)"

definition mutex_start :: "mutex \<Rightarrow> mutex_sys" where
  "mutex_start m = \<lparr>mtx = mutex_init m, pcs = (\<lambda>_. Outside)\<rparr>"

definition holds :: "mutex_sys \<Rightarrow> nat \<Rightarrow> bool" where
  "holds s t \<longleftrightarrow> pcs s t = Taken \<or> pcs s t = Inside \<or> pcs s t = Leaving"

text \<open>
  At most one process holds the mutex, somebody holds it exactly when \<^verbatim>\<open>locked\<close> is set, and
  \<^verbatim>\<open>owner\<close> is a process's pid only while that process is inside.
\<close>

definition mutex_ok :: "(nat \<Rightarrow> u32) \<Rightarrow> mutex_sys \<Rightarrow> bool" where
  "mutex_ok pids s \<longleftrightarrow> (\<forall>t u. holds s t \<longrightarrow> holds s u \<longrightarrow> t = u)
     \<and> (locked (mtx s) = 0 \<longrightarrow> (\<forall>t. \<not> holds s t))
     \<and> (\<forall>t < PROC_MAX. owner (mtx s) = pids t \<longrightarrow> pcs s t = Inside)"

definition pids_ok :: "(nat \<Rightarrow> u32) \<Rightarrow> bool" where
  "pids_ok pids \<longleftrightarrow> inj_on pids {..<PROC_MAX} \<and> (\<forall>t < PROC_MAX. pids t \<noteq> -1)"

lemma pids_ok_inj: "pids_ok pids \<Longrightarrow> t < PROC_MAX \<Longrightarrow> u < PROC_MAX \<Longrightarrow> pids t = pids u \<Longrightarrow> t = u"
  by (auto simp: pids_ok_def dest: inj_onD)

lemma mutex_step_ok:
  assumes pids: "pids_ok pids"
  shows "mutex_step pids s s' \<Longrightarrow> mutex_ok pids s \<Longrightarrow> mutex_ok pids s'"
proof (induction rule: mutex_step.induct)
  case (xchg t s m old)
  then have m: "m = (mtx s)\<lparr>locked := 1\<rparr>" "old = locked (mtx s)" by (auto simp: atomic_xchg_def)
  show ?case
  proof (cases "old = 0")
    case True
    with xchg m show ?thesis by (auto simp: mutex_ok_def holds_def)
  next
    case False
    with xchg m have "s\<lparr>mtx := m, pcs := (pcs s)(t := if old = 0 then Taken else Exchange)\<rparr> = s\<lparr>mtx := m\<rparr>"
      by (simp add: fun_upd_idem)
    with xchg m False show ?thesis by (simp add: mutex_ok_def holds_def)
  qed
next
  case (set_owner t s)
  have "u = t" if "pids t = pids u" "u < PROC_MAX" for u
    using pids_ok_inj [OF pids set_owner(1) that(2,1)] by simp
  with set_owner show ?case by (auto simp: mutex_ok_def holds_def)
next
  case (clear_owner t s)
  have "- 1 \<noteq> pids u" if "u < PROC_MAX" for u using pids that unfolding pids_ok_def by metis
  with clear_owner show ?case by (auto simp: mutex_ok_def holds_def)
next
  case (owner_same t s)
  then show ?case by (auto simp: mutex_ok_def)
next
  case (read_set t s)
  then show ?case by (auto simp: mutex_ok_def holds_def)
next
  case (read_clear t s)
  then show ?case by (auto simp: mutex_ok_def holds_def)
next
  case (owner_other t s)
  then show ?case by (auto simp: mutex_ok_def holds_def)
next
  case (clear_locked t s)
  have "owner (mtx s) \<noteq> pids u" if "u < PROC_MAX" for u
  proof
    assume "owner (mtx s) = pids u"
    with clear_locked(3) that have "pcs s u = Inside" by (simp add: mutex_ok_def)
    with clear_locked(2,3) have "u = t" by (simp add: mutex_ok_def holds_def)
    with clear_locked(2) \<open>pcs s u = Inside\<close> show False by simp
  qed
  with clear_locked show ?case by (auto simp: mutex_ok_def holds_def)
qed

lemma mutex_reach_ok:
  assumes "pids_ok pids" "(mutex_step pids)\<^sup>*\<^sup>* (mutex_start m) s"
  shows "mutex_ok pids s"
  using assms(2)
proof (induction rule: rtranclp_induct)
  case base
  show ?case using assms(1) by (auto simp: mutex_ok_def mutex_start_def mutex_init_def holds_def pids_ok_def)
next
  case (step s s')
  with mutex_step_ok [OF assms(1)] show ?case by blast
qed

text \<open>A lock that is free is taken at once, and one held under the caller's pid is re-entered.\<close>

lemma mutex_lock_free: "locked m = 0 \<Longrightarrow> mutex_lock y cur m = Some \<lparr>locked = 1, owner = pid cur\<rparr>"
  by (simp add: mutex_lock_def mutex_spin.simps mutex_trylock_def atomic_xchg_def)

lemma mutex_lock_nested: "locked m \<noteq> 0 \<Longrightarrow> owner m = pid cur \<Longrightarrow> mutex_lock y cur m = Some m"
  by (simp add: mutex_lock_def)

lemma sem_signal_bounds:
  assumes "0 \<le> count s" "count s \<le> uint (maxc s)"
  shows "0 \<le> count (sem_signal s) \<and> count (sem_signal s) \<le> uint (maxc s)"
proof -
  have "count s < 2 ^ 32" using assms(2) uint_bounded [of "maxc s"] by simp
  then have "uint (of_int (count s) :: u32) = count s"
    using assms(1) by (simp add: uint_word_of_int)
  then show ?thesis using assms by (auto simp: sem_signal_def word_less_def)
qed

section \<open>Properties\<close>


text \<open>The run of one process into the mutex, used below.\<close>

lemma mutex_enter:
  assumes "pcs s t = Outside" "locked (mtx s) = 0"
  shows "t < PROC_MAX \<Longrightarrow> (mutex_step pids)\<^sup>*\<^sup>* s (s\<lparr>mtx := \<lparr>locked = 1, owner = pids t\<rparr>, pcs := (pcs s)(t := Inside)\<rparr>)"
proof -
  assume t: "t < PROC_MAX"
  let ?s1 = "s\<lparr>pcs := (pcs s)(t := Exchange)\<rparr>"
  let ?s2 = "?s1\<lparr>mtx := (mtx s)\<lparr>locked := 1\<rparr>, pcs := (pcs ?s1)(t := Taken)\<rparr>"
  have "mutex_step pids s ?s1" by (rule read_clear) (use assms t in auto)
  moreover have "mutex_step pids ?s1 ?s2"
    using xchg [of t ?s1 "(mtx s)\<lparr>locked := 1\<rparr>" 0 pids] assms(2) t by (simp add: atomic_xchg_def)
  moreover have "mutex_step pids ?s2 (?s2\<lparr>mtx := (mtx ?s2)\<lparr>owner := pids t\<rparr>, pcs := (pcs ?s2)(t := Inside)\<rparr>)"
    by (rule set_owner) (use t in simp_all)
  ultimately have "(mutex_step pids)\<^sup>*\<^sup>* s (?s2\<lparr>mtx := (mtx ?s2)\<lparr>owner := pids t\<rparr>, pcs := (pcs ?s2)(t := Inside)\<rparr>)"
    by (meson converse_rtranclp_into_rtranclp r_into_rtranclp)
  then show "(mutex_step pids)\<^sup>*\<^sup>* s (s\<lparr>mtx := \<lparr>locked = 1, owner = pids t\<rparr>, pcs := (pcs s)(t := Inside)\<rparr>)"
    by (cases "mtx s") simp
qed


text \<open>
  The scheduler numbers kernel processes and user processes with two separate counters,
  so one of each gets pid 1; and two processes with the same pid can be inside the mutex at
  the same time.
\<close>

theorem mutex_same_pid_both_inside:
  "\<exists>s. (mutex_step (\<lambda>_. 1))\<^sup>*\<^sup>* (mutex_start m) s \<and> pcs s 0 = Inside \<and> pcs s 1 = Inside"
proof -
  let ?s = "(mutex_start m)\<lparr>mtx := \<lparr>locked = 1, owner = 1\<rparr>, pcs := (pcs (mutex_start m))(0 := Inside)\<rparr>"
  let ?s1 = "?s\<lparr>pcs := (pcs ?s)(1 := Compare)\<rparr>"
  have "(mutex_step (\<lambda>_. 1))\<^sup>*\<^sup>* (mutex_start m) ?s"
    using mutex_enter [of "mutex_start m" 0 "\<lambda>_. 1"] by (simp add: mutex_start_def mutex_init_def PROC_MAX_def)
  moreover have "mutex_step (\<lambda>_. 1) ?s ?s1" by (rule read_set) (simp_all add: mutex_start_def PROC_MAX_def)
  moreover have "mutex_step (\<lambda>_. 1) ?s1 (?s1\<lparr>pcs := (pcs ?s1)(1 := Inside)\<rparr>)" by (rule owner_same) (simp_all add: PROC_MAX_def)
  ultimately show ?thesis by (intro exI [of _ "?s1\<lparr>pcs := (pcs ?s1)(1 := Inside)\<rparr>"]) (simp add: rtranclp.rtrancl_into_rtrancl)
qed

end
