(* ===== verification/OsMath.thy ===== *)
theory OsMath
  imports Prelude
begin

text \<open>
  The calculator behind the shell's \<^verbatim>\<open>math\<close> command (\<^verbatim>\<open>kernel/osmath.cpp\<close>): a recursive-descent
  evaluator of \<open>+ - * /\<close> and parentheses over 32-bit numbers. The position in the string is
  the suffix still to be read; the terminating zero is the end of the list. The parser
  recurses on that suffix through loops, so it takes fuel; \<open>evaluate\<close> gives it fuel linear in
  the length of the string, which the theory shows to be enough for every string.
\<close>

section \<open>The evaluator\<close>

fun skip_spaces :: "bytes \<Rightarrow> bytes" where
  "skip_spaces (c # s) = (if c = 32 then skip_spaces s else c # s)"
| "skip_spaces [] = []"

definition digit :: "u8 \<Rightarrow> bool" where
  "digit c \<longleftrightarrow> 48 \<le> c \<and> c \<le> 57"

fun parse_number :: "u32 \<Rightarrow> bytes \<Rightarrow> u32 \<times> bytes" where
  "parse_number v (c # s) = (if digit c then parse_number (v * 10 + ucast (c - 48)) s else (v, c # s))"
| "parse_number v [] = (v, [])"

type_synonym presult = "(fault + (u32 \<times> bytes)) option"

text \<open>A step that continues with the value and the rest, or stops with the fault.\<close>

definition andthen :: "presult \<Rightarrow> (u32 \<Rightarrow> bytes \<Rightarrow> presult) \<Rightarrow> presult" where
  "andthen r f = (case r of None \<Rightarrow> None | Some (Inl e) \<Rightarrow> Some (Inl e) | Some (Inr (v, s)) \<Rightarrow> f v s)"

definition close_paren :: "bytes \<Rightarrow> bytes" where
  "close_paren s = (case skip_spaces s of c # t \<Rightarrow> if c = 41 then t else c # t | [] \<Rightarrow> [])"

fun parse_factor :: "nat \<Rightarrow> bytes \<Rightarrow> presult"
and parse_term :: "nat \<Rightarrow> bytes \<Rightarrow> presult"
and term_loop :: "nat \<Rightarrow> u32 \<Rightarrow> bytes \<Rightarrow> presult"
and parse_expr :: "nat \<Rightarrow> bytes \<Rightarrow> presult"
and expr_loop :: "nat \<Rightarrow> u32 \<Rightarrow> bytes \<Rightarrow> presult" where
  "parse_factor 0 s = None"
| "parse_factor (Suc n) s = (case skip_spaces s of
     c # t \<Rightarrow> if c = 40 then andthen (parse_expr n t) (\<lambda>v r. Some (Inr (v, close_paren r)))
       else Some (Inr (parse_number 0 (c # t)))
   | [] \<Rightarrow> Some (Inr (parse_number 0 [])))"
| "parse_term 0 s = None"
| "parse_term (Suc n) s = andthen (parse_factor n s) (term_loop n)"
| "term_loop 0 v s = None"
| "term_loop (Suc n) v s = (case skip_spaces s of
     c # t \<Rightarrow> if c \<noteq> 42 \<and> c \<noteq> 47 then Some (Inr (v, c # t))
       else andthen (parse_factor n t) (\<lambda>rhs r.
         if c = 42 then term_loop n (v * rhs) r
         else if rhs = 0 then Some (Inl DivideError) else term_loop n (v div rhs) r)
   | [] \<Rightarrow> Some (Inr (v, [])))"
| "parse_expr 0 s = None"
| "parse_expr (Suc n) s = andthen (parse_term n s) (expr_loop n)"
| "expr_loop 0 v s = None"
| "expr_loop (Suc n) v s = (case skip_spaces s of
     c # t \<Rightarrow> if c \<noteq> 43 \<and> c \<noteq> 45 then Some (Inr (v, c # t))
       else andthen (parse_term n t) (\<lambda>rhs r.
         if c = 43 then expr_loop n (v + rhs) r else expr_loop n (v - rhs) r)
   | [] \<Rightarrow> Some (Inr (v, [])))"

text \<open>\<^verbatim>\<open>evaluate(expr)\<close>: the value, or the processor's divide error.\<close>

definition evaluate :: "bytes \<Rightarrow> (fault + u32) option" where
  "evaluate s = map_option (\<lambda>r. case r of Inl e \<Rightarrow> Inl e | Inr (v, _) \<Rightarrow> Inr v)
     (parse_expr (4 * length s + 3) s)"

section \<open>Fuel\<close>

lemma andthen_simps [simp]:
  "andthen None f = None"
  "andthen (Some (Inl e)) f = Some (Inl e)"
  "andthen (Some (Inr (v, s))) f = f v s"
  by (simp_all add: andthen_def)

lemma andthen_Some_iff:
  "andthen r f = Some x \<longleftrightarrow> (\<exists>e. r = Some (Inl e) \<and> x = Inl e) \<or> (\<exists>v s. r = Some (Inr (v, s)) \<and> f v s = Some x)"
  by (auto simp: andthen_def split: option.splits sum.splits prod.splits)

text \<open>The parser returns, and leaves no more than it was given.\<close>

definition returns :: "presult \<Rightarrow> nat \<Rightarrow> bool" where
  "returns r k \<longleftrightarrow> (\<exists>e. r = Some (Inl e)) \<or> (\<exists>v s. r = Some (Inr (v, s)) \<and> length s \<le> k)"

lemma returns_andthen:
  assumes "returns r k" "\<And>v s. length s \<le> k \<Longrightarrow> returns (f v s) j"
  shows "returns (andthen r f) j"
  using assms(1) unfolding returns_def [of r]
proof (elim disjE exE conjE)
  fix v s assume "r = Some (Inr (v, s))" "length s \<le> k"
  with assms(2) show ?thesis by simp
qed (simp add: returns_def)

lemma returns_mono: "returns r k \<Longrightarrow> k \<le> j \<Longrightarrow> returns r j"
  by (auto simp: returns_def)

lemma returns_loop:
  "returns r k \<Longrightarrow> (\<And>v s. length s \<le> k \<Longrightarrow> returns (f v s) (length s)) \<Longrightarrow> returns (andthen r f) k"
  by (erule returns_andthen) (rule returns_mono)

lemma length_skip_spaces: "length (skip_spaces s) \<le> length s"
  by (induction s rule: skip_spaces.induct) auto

lemma length_parse_number: "length (snd (parse_number v s)) \<le> length s"
  by (induction v s rule: parse_number.induct) auto

lemma length_close_paren: "length (close_paren s) \<le> length s"
  using length_skip_spaces [of s] by (auto simp: close_paren_def split: list.splits)

lemma returns_op:
  assumes "skip_spaces s = c # t" "returns r (length t)" "\<And>v (q :: bytes). length q \<le> length t \<Longrightarrow> returns (f v q) (length q)"
  shows "returns (andthen r f) (length s)"
proof (rule returns_andthen [OF assms(2)])
  fix v and q :: bytes
  assume q: "length q \<le> length t"
  have "Suc (length t) \<le> length s" using length_skip_spaces [of s] assms(1) by simp
  then show "returns (f v q) (length s)" using returns_mono [OF assms(3) [OF q]] q by simp
qed

lemma returns_stop: "skip_spaces s = t \<Longrightarrow> returns (Some (Inr (v, t))) (length s)"
  using length_skip_spaces [of s] by (auto simp: returns_def)

lemma fuel_enough:
  "4 * length s + 1 \<le> n \<Longrightarrow> returns (parse_factor n s) (length s)"
  "4 * length s + 2 \<le> n \<Longrightarrow> returns (parse_term n s) (length s)"
  "4 * length s + 1 \<le> n \<Longrightarrow> returns (term_loop n v s) (length s)"
  "4 * length s + 3 \<le> n \<Longrightarrow> returns (parse_expr n s) (length s)"
  "4 * length s + 1 \<le> n \<Longrightarrow> returns (expr_loop n v s) (length s)"
proof (induction n s and n s and n v s and n s and n v s
    rule: parse_factor_parse_term_term_loop_parse_expr_expr_loop.induct)
  case (2 n s)
  show ?case
  proof (cases "skip_spaces s")
    case (Cons c t)
    note l = length_skip_spaces [of s, unfolded Cons, simplified]
    have "returns (andthen (parse_expr n t) (\<lambda>v r. Some (Inr (v, close_paren r)))) (length s)" if "c = 40"
      by (rule returns_op [OF Cons]) (use 2 Cons that l in \<open>auto simp: returns_def intro: length_close_paren\<close>)
    then show ?thesis using Cons l length_parse_number [of 0 "c # t"]
      by (cases "parse_number 0 (c # t)") (auto simp: returns_def [of "Some (Inr (_, _))"])
  qed (simp add: returns_def)
next
  case (4 n s)
  have "returns (parse_factor n s) (length s)" using 4 by simp
  then show ?case unfolding parse_term.simps
    by (rule returns_loop) (use 4 in simp)
next
  case (6 n v s)
  show ?case
  proof (cases "skip_spaces s")
    case (Cons c t)
    note l = length_skip_spaces [of s, unfolded Cons, simplified]
    show ?thesis
    proof (cases "c \<noteq> 42 \<and> c \<noteq> 47")
      case False
      have "returns (andthen (parse_factor n t) (\<lambda>rhs r. if c = 42 then term_loop n (v * rhs) r
          else if rhs = 0 then Some (Inl DivideError) else term_loop n (v div rhs) r)) (length s)"
        by (rule returns_op [OF Cons]) (use 6 Cons False l in \<open>auto simp: returns_def [of "Some (Inl DivideError)"]\<close>)
      then show ?thesis using Cons False by auto
    qed (use Cons returns_stop [OF Cons] in simp)
  qed (simp add: returns_def)
next
  case (8 n s)
  have "returns (parse_term n s) (length s)" using 8 by simp
  then show ?case unfolding parse_expr.simps
    by (rule returns_loop) (use 8 in simp)
next
  case (10 n v s)
  show ?case
  proof (cases "skip_spaces s")
    case (Cons c t)
    note l = length_skip_spaces [of s, unfolded Cons, simplified]
    show ?thesis
    proof (cases "c \<noteq> 43 \<and> c \<noteq> 45")
      case False
      have "returns (andthen (parse_term n t) (\<lambda>rhs r. if c = 43 then expr_loop n (v + rhs) r else expr_loop n (v - rhs) r)) (length s)"
        by (rule returns_op [OF Cons]) (use 10 Cons False l in auto)
      then show ?thesis using Cons False by auto
    qed (use Cons returns_stop [OF Cons] in simp)
  qed (simp add: returns_def)
qed simp_all

text \<open>More fuel does not change a result.\<close>

lemma andthen_mono:
  assumes "andthen r f = Some x" "\<And>x. r = Some x \<Longrightarrow> r' = Some x" "\<And>v s x. f v s = Some x \<Longrightarrow> f' v s = Some x"
  shows "andthen r' f' = Some x"
  using assms by (auto simp: andthen_Some_iff)

lemma fuel_mono:
  "(parse_factor n s = Some x \<longrightarrow> parse_factor (Suc n) s = Some x)
   \<and> (parse_term n s = Some x \<longrightarrow> parse_term (Suc n) s = Some x)
   \<and> (term_loop n v s = Some x \<longrightarrow> term_loop (Suc n) v s = Some x)
   \<and> (parse_expr n s = Some x \<longrightarrow> parse_expr (Suc n) s = Some x)
   \<and> (expr_loop n v s = Some x \<longrightarrow> expr_loop (Suc n) v s = Some x)"
proof (induction n arbitrary: s v x)
  case 0
  then show ?case by simp
next
  case (Suc n)
  note IH = Suc.IH [THEN conjunct1, THEN mp] Suc.IH [THEN conjunct2, THEN conjunct1, THEN mp]
    Suc.IH [THEN conjunct2, THEN conjunct2, THEN conjunct1, THEN mp]
    Suc.IH [THEN conjunct2, THEN conjunct2, THEN conjunct2, THEN conjunct1, THEN mp]
    Suc.IH [THEN conjunct2, THEN conjunct2, THEN conjunct2, THEN conjunct2, THEN mp]
  have "parse_factor (Suc n) s = Some x \<longrightarrow> parse_factor (Suc (Suc n)) s = Some x"
    unfolding parse_factor.simps(2) [of n s] parse_factor.simps(2) [of "Suc n" s] by (auto simp del: parse_factor.simps parse_term.simps term_loop.simps parse_expr.simps expr_loop.simps split: list.splits if_splits elim!: andthen_mono intro: IH)
  moreover have "parse_term (Suc n) s = Some x \<longrightarrow> parse_term (Suc (Suc n)) s = Some x"
    unfolding parse_term.simps(2) [of n s] parse_term.simps(2) [of "Suc n" s] by (auto simp del: parse_factor.simps parse_term.simps term_loop.simps parse_expr.simps expr_loop.simps elim!: andthen_mono intro: IH)
  moreover have "term_loop (Suc n) v s = Some x \<longrightarrow> term_loop (Suc (Suc n)) v s = Some x"
    unfolding term_loop.simps(2) [of n v s] term_loop.simps(2) [of "Suc n" v s] by (auto simp del: parse_factor.simps parse_term.simps term_loop.simps parse_expr.simps expr_loop.simps split: list.splits if_splits elim!: andthen_mono intro: IH)
  moreover have "parse_expr (Suc n) s = Some x \<longrightarrow> parse_expr (Suc (Suc n)) s = Some x"
    unfolding parse_expr.simps(2) [of n s] parse_expr.simps(2) [of "Suc n" s] by (auto simp del: parse_factor.simps parse_term.simps term_loop.simps parse_expr.simps expr_loop.simps elim!: andthen_mono intro: IH)
  moreover have "expr_loop (Suc n) v s = Some x \<longrightarrow> expr_loop (Suc (Suc n)) v s = Some x"
    unfolding expr_loop.simps(2) [of n v s] expr_loop.simps(2) [of "Suc n" v s] by (auto simp del: parse_factor.simps parse_term.simps term_loop.simps parse_expr.simps expr_loop.simps split: list.splits if_splits elim!: andthen_mono intro: IH)
  ultimately show ?case by blast
qed

lemma fuel_Suc:
  "parse_factor n s = Some x \<Longrightarrow> parse_factor (Suc n) s = Some x"
  "parse_term n s = Some x \<Longrightarrow> parse_term (Suc n) s = Some x"
  "term_loop n v s = Some x \<Longrightarrow> term_loop (Suc n) v s = Some x"
  "parse_expr n s = Some x \<Longrightarrow> parse_expr (Suc n) s = Some x"
  "expr_loop n v s = Some x \<Longrightarrow> expr_loop (Suc n) v s = Some x"
  using fuel_mono by blast+

lemma fuel_le:
  assumes "\<And>n. f n = Some x \<Longrightarrow> f (Suc n) = Some x" "f n = Some x" "n \<le> m"
  shows "f m = Some x"
  using assms(3) by (induction m rule: dec_induct) (auto intro: assms)

section \<open>The language\<close>

text \<open>
  The reference: a grammar of expressions with the value of each string, with left
  associative operators, spaces before any token, wrapping arithmetic and a fault for a
  division by zero.
\<close>

definition dec_value :: "bytes \<Rightarrow> u32" where
  "dec_value ds = foldl (\<lambda>v d. v * 10 + ucast (d - 48)) 0 ds"

definition spaces :: "nat \<Rightarrow> bytes" where
  "spaces k = replicate k 32"

definition div_val :: "u32 \<Rightarrow> u32 \<Rightarrow> fault + u32" where
  "div_val a b = (if b = 0 then Inl DivideError else Inr (a div b))"

inductive factor_val :: "bytes \<Rightarrow> fault + u32 \<Rightarrow> bool"
  and term_val :: "bytes \<Rightarrow> fault + u32 \<Rightarrow> bool"
  and expr_val :: "bytes \<Rightarrow> fault + u32 \<Rightarrow> bool" where
  number: "ds \<noteq> [] \<Longrightarrow> \<forall>d \<in> set ds. digit d \<Longrightarrow> factor_val (spaces k @ ds) (Inr (dec_value ds))"
| parens: "expr_val s v \<Longrightarrow> factor_val (spaces k @ [40] @ s @ spaces j @ [41]) v"
| factor: "factor_val s v \<Longrightarrow> term_val s v"
| mult: "term_val s v \<Longrightarrow> factor_val t w \<Longrightarrow>
    term_val (s @ spaces k @ [42] @ t) (bindE v (\<lambda>a. bindE w (\<lambda>b. Inr (a * b))))"
| divide: "term_val s v \<Longrightarrow> factor_val t w \<Longrightarrow>
    term_val (s @ spaces k @ [47] @ t) (bindE v (\<lambda>a. bindE w (div_val a)))"
| addend: "term_val s v \<Longrightarrow> expr_val s v"
| add: "expr_val s v \<Longrightarrow> term_val t w \<Longrightarrow>
    expr_val (s @ spaces k @ [43] @ t) (bindE v (\<lambda>a. bindE w (\<lambda>b. Inr (a + b))))"
| subtract: "expr_val s v \<Longrightarrow> term_val t w \<Longrightarrow>
    expr_val (s @ spaces k @ [45] @ t) (bindE v (\<lambda>a. bindE w (\<lambda>b. Inr (a - b))))"

section \<open>The parser on the language\<close>

definition F :: "bytes \<Rightarrow> fault + (u32 \<times> bytes) \<Rightarrow> bool" where "F s x \<longleftrightarrow> (\<exists>n. parse_factor n s = Some x)"
definition T :: "bytes \<Rightarrow> fault + (u32 \<times> bytes) \<Rightarrow> bool" where "T s x \<longleftrightarrow> (\<exists>n. parse_term n s = Some x)"
definition TL :: "u32 \<Rightarrow> bytes \<Rightarrow> fault + (u32 \<times> bytes) \<Rightarrow> bool" where "TL v s x \<longleftrightarrow> (\<exists>n. term_loop n v s = Some x)"
definition E :: "bytes \<Rightarrow> fault + (u32 \<times> bytes) \<Rightarrow> bool" where "E s x \<longleftrightarrow> (\<exists>n. parse_expr n s = Some x)"
definition EL :: "u32 \<Rightarrow> bytes \<Rightarrow> fault + (u32 \<times> bytes) \<Rightarrow> bool" where "EL v s x \<longleftrightarrow> (\<exists>n. expr_loop n v s = Some x)"

lemma sync:
  assumes f: "\<And>n x. f n = Some x \<Longrightarrow> f (Suc n) = Some x" "f n = Some (Inr (v, r))"
    and g: "\<And>n x. g n = Some x \<Longrightarrow> g (Suc n) = Some x" "g m = Some x"
  shows "\<exists>k. f k = Some (Inr (v, r)) \<and> g k = Some x"
  using fuel_le [of f, OF f(1) f(2)] fuel_le [of g, OF g(1) g(2)] by (meson max.cobounded1 max.cobounded2)

lemma sync_F: "F s (Inr (v, r)) \<Longrightarrow> TL w q x \<Longrightarrow>
  \<exists>k. parse_factor k s = Some (Inr (v, r)) \<and> term_loop k w q = Some x"
  unfolding F_def TL_def
  by (elim exE, rule sync [of "\<lambda>n. parse_factor n s" _ v r "\<lambda>n. term_loop n w q"], (assumption | erule fuel_Suc)+)

lemma sync_T: "T s (Inr (v, r)) \<Longrightarrow> EL w q x \<Longrightarrow>
  \<exists>k. parse_term k s = Some (Inr (v, r)) \<and> expr_loop k w q = Some x"
  unfolding T_def EL_def
  by (elim exE, rule sync [of "\<lambda>n. parse_term n s" _ v r "\<lambda>n. expr_loop n w q"], (assumption | erule fuel_Suc)+)

text \<open>One more unit of fuel for a call that ends.\<close>

lemma Suc_I:
  "parse_factor (Suc n) s = Some x \<Longrightarrow> F s x"
  "parse_term (Suc n) s = Some x \<Longrightarrow> T s x"
  "term_loop (Suc n) v s = Some x \<Longrightarrow> TL v s x"
  "parse_expr (Suc n) s = Some x \<Longrightarrow> E s x"
  "expr_loop (Suc n) v s = Some x \<Longrightarrow> EL v s x"
  unfolding F_def T_def TL_def E_def EL_def by blast+

lemma T_I:
  assumes "F s (Inr (v, r))" "TL v r x"
  shows "T s x"
proof -
  obtain k where "parse_factor k s = Some (Inr (v, r))" "term_loop k v r = Some x"
    using sync_F [OF assms] by blast
  then show ?thesis by (intro Suc_I(2) [of k]) simp
qed

lemma E_I:
  assumes "T s (Inr (v, r))" "EL v r x"
  shows "E s x"
proof -
  obtain k where "parse_term k s = Some (Inr (v, r))" "expr_loop k v r = Some x"
    using sync_T [OF assms] by blast
  then show ?thesis by (intro Suc_I(4) [of k]) simp
qed

lemma T_fault: "F s (Inl e) \<Longrightarrow> T s (Inl e)"
  unfolding F_def
  apply (erule exE)
  subgoal for n by (rule Suc_I(2) [of n]) simp
  done

lemma E_fault: "T s (Inl e) \<Longrightarrow> E s (Inl e)"
  unfolding T_def
  apply (erule exE)
  subgoal for n by (rule Suc_I(4) [of n]) simp
  done

lemma F_number: "skip_spaces s = c # t \<Longrightarrow> c \<noteq> 40 \<Longrightarrow> F s (Inr (parse_number 0 (c # t)))"
  by (rule Suc_I(1) [of 0]) simp

lemma F_paren:
  "skip_spaces s = 40 # t \<Longrightarrow> E t (Inr (v, r)) \<Longrightarrow> F s (Inr (v, close_paren r))"
  "skip_spaces s = 40 # t \<Longrightarrow> E t (Inl e) \<Longrightarrow> F s (Inl e)"
  unfolding E_def
   apply (erule exE)
  subgoal for n by (rule Suc_I(1) [of n]) simp
  apply (erule exE)
  subgoal for n by (rule Suc_I(1) [of n]) simp
  done

definition stops :: "u8 list \<Rightarrow> bytes \<Rightarrow> bool" where
  "stops ops s \<longleftrightarrow> (case skip_spaces s of [] \<Rightarrow> True | c # t \<Rightarrow> c \<notin> set ops)"

lemma TL_stop: "stops [42, 47] s \<Longrightarrow> TL v s (Inr (v, skip_spaces s))"
  by (rule Suc_I(3) [of 0]) (simp add: stops_def split: list.splits)

lemma EL_stop: "stops [43, 45] s \<Longrightarrow> EL v s (Inr (v, skip_spaces s))"
  by (rule Suc_I(5) [of 0]) (simp add: stops_def split: list.splits)

lemma TL_op:
  assumes "skip_spaces s = c # t" "F t (Inr (b, r))" "c = 42 \<and> w = a * b \<or> c = 47 \<and> b \<noteq> 0 \<and> w = a div b"
    "TL w r x"
  shows "TL a s x"
proof -
  obtain k where "parse_factor k t = Some (Inr (b, r))" "term_loop k w r = Some x"
    using sync_F [OF assms(2,4)] by blast
  with assms(1,3) show ?thesis by (intro Suc_I(3) [of k]) auto
qed

lemma TL_zero: "skip_spaces s = 47 # t \<Longrightarrow> F t (Inr (0, r)) \<Longrightarrow> TL a s (Inl DivideError)"
  unfolding F_def
  apply (erule exE)
  subgoal for n by (rule Suc_I(3) [of n]) simp
  done

lemma TL_fault: "skip_spaces s = c # t \<Longrightarrow> c = 42 \<or> c = 47 \<Longrightarrow> F t (Inl e) \<Longrightarrow> TL a s (Inl e)"
  unfolding F_def
  apply (erule exE)
  subgoal for n by (rule Suc_I(3) [of n]) auto
  done

lemma EL_op:
  assumes "skip_spaces s = c # t" "T t (Inr (b, r))" "c = 43 \<and> w = a + b \<or> c = 45 \<and> w = a - b" "EL w r x"
  shows "EL a s x"
proof -
  obtain k where "parse_term k t = Some (Inr (b, r))" "expr_loop k w r = Some x"
    using sync_T [OF assms(2,4)] by blast
  with assms(1,3) show ?thesis by (intro Suc_I(5) [of k]) auto
qed

lemma EL_fault: "skip_spaces s = c # t \<Longrightarrow> c = 43 \<or> c = 45 \<Longrightarrow> T t (Inl e) \<Longrightarrow> EL a s (Inl e)"
  unfolding T_def
  apply (erule exE)
  subgoal for n by (rule Suc_I(5) [of n]) auto
  done

lemma skip_skip: "skip_spaces (skip_spaces s) = skip_spaces s"
  by (induction s rule: skip_spaces.induct) auto

lemma EL_skip: "EL v (skip_spaces s) x \<longleftrightarrow> EL v s x"
proof -
  have "expr_loop n v (skip_spaces s) = expr_loop n v s" for n by (cases n) (simp_all add: skip_skip)
  then show ?thesis by (simp add: EL_def)
qed

lemma skip_spaces_spaces [simp]: "skip_spaces (spaces k @ s) = skip_spaces s"
  by (induction k) (auto simp: spaces_def)

definition no_digit :: "bytes \<Rightarrow> bool" where
  "no_digit s \<longleftrightarrow> (case s of [] \<Rightarrow> True | c # t \<Rightarrow> \<not> digit c)"

lemma no_digit_spaces: "\<not> digit c \<Longrightarrow> no_digit (spaces k @ c # s)"
  by (cases k) (auto simp: no_digit_def spaces_def digit_def)

lemma parse_number_digits:
  "\<forall>d \<in> set ds. digit d \<Longrightarrow> no_digit r \<Longrightarrow>
   parse_number v (ds @ r) = (foldl (\<lambda>v d. v * 10 + ucast (d - 48)) v ds, r)"
  by (induction ds arbitrary: v) (auto simp: no_digit_def split: list.splits)

lemma digit_not_op: "digit c \<Longrightarrow> c \<noteq> 32 \<and> c \<noteq> 40"
  by (auto simp: digit_def)

lemma parser_follows:
  "factor_val s v \<Longrightarrow> no_digit r \<Longrightarrow> F (s @ r) (case v of Inl e \<Rightarrow> Inl e | Inr a \<Rightarrow> Inr (a, r))"
  "term_val s v \<Longrightarrow> no_digit r \<Longrightarrow> (case v of Inl e \<Rightarrow> x = Inl e | Inr a \<Rightarrow> TL a r x) \<Longrightarrow> T (s @ r) x"
  "expr_val s v \<Longrightarrow> no_digit r \<Longrightarrow> stops [42, 47] r \<Longrightarrow>
    (case v of Inl e \<Rightarrow> x = Inl e | Inr a \<Rightarrow> EL a r x) \<Longrightarrow> E (s @ r) x"
proof (induction arbitrary: r and r x and r x rule: factor_val_term_val_expr_val.inducts)
  case (number ds k)
  then obtain d t where ds: "ds = d # t" "digit d" by (cases ds) auto
  have "skip_spaces ((spaces k @ ds) @ r) = d # t @ r" using ds digit_not_op by simp
  from F_number [OF this] ds digit_not_op parse_number_digits [OF number(2,3), of 0]
  show ?case by (auto simp: dec_value_def)
next
  case (parens s v k j)
  have sk: "skip_spaces ((spaces k @ [40] @ s @ spaces j @ [41]) @ r) = 40 # s @ spaces j @ 41 # r" by simp
  have nd: "no_digit (spaces j @ 41 # r)" by (rule no_digit_spaces) (simp add: digit_def)
  have st: "stops [42, 47] (spaces j @ 41 # r)" by (simp add: stops_def)
  show ?case
  proof (cases v)
    case (Inl e)
    with parens.IH [OF nd st] F_paren(2) [OF sk] show ?thesis by simp
  next
    case (Inr a)
    have "stops [43, 45] (spaces j @ 41 # r)" by (simp add: stops_def)
    from parens.IH [OF nd st] Inr EL_stop [OF this, of a] have "E (s @ spaces j @ 41 # r) (Inr (a, 41 # r))" by simp
    from F_paren(1) [OF sk this] Inr show ?thesis by (simp add: close_paren_def)
  qed
next
  case (factor s v)
  with T_I T_fault show ?case by (cases v) fastforce+
next
  case (mult s v t w k)
  have nd: "no_digit (spaces k @ [42] @ t @ r)" using no_digit_spaces [of 42 k] by (simp add: digit_def)
  have sk: "skip_spaces (spaces k @ [42] @ t @ r) = 42 # t @ r" by simp
  have "case v of Inl e \<Rightarrow> x = Inl e | Inr a \<Rightarrow> TL a (spaces k @ [42] @ t @ r) x"
    using mult.IH(2) [OF mult.prems(1)] mult.prems(2) TL_op [OF sk] TL_fault [OF sk]
    by (cases v; cases w) auto
  with mult.IH(1) [OF nd] show ?case by simp
next
  case (divide s v t w k)
  have nd: "no_digit (spaces k @ [47] @ t @ r)" using no_digit_spaces [of 47 k] by (simp add: digit_def)
  have sk: "skip_spaces (spaces k @ [47] @ t @ r) = 47 # t @ r" by simp
  have "case v of Inl e \<Rightarrow> x = Inl e | Inr a \<Rightarrow> TL a (spaces k @ [47] @ t @ r) x"
    using divide.IH(2) [OF divide.prems(1)] divide.prems(2) TL_op [OF sk] TL_fault [OF sk] TL_zero [OF sk]
    by (cases v; cases w) (auto simp: div_val_def split: if_splits)
  with divide.IH(1) [OF nd] show ?case by simp
next
  case (addend s v)
  show ?case
  proof (cases v)
    case (Inl e)
    with addend show ?thesis by (simp add: E_fault)
  next
    case (Inr a)
    have "T (s @ r) (Inr (a, skip_spaces r))"
      using addend.IH [OF addend.prems(1)] TL_stop [OF addend.prems(2)] Inr by simp
    moreover have "EL a (skip_spaces r) x" using Inr addend.prems(3) by (simp add: EL_skip)
    ultimately show ?thesis by (rule E_I)
  qed
next
  case (add s v t w k)
  let ?r = "spaces k @ [43] @ t @ r"
  have nd: "no_digit ?r" using no_digit_spaces [of 43 k] by (simp add: digit_def)
  have st: "stops [42, 47] ?r" by (simp add: stops_def)
  have sk: "skip_spaces ?r = 43 # t @ r" by simp
  have T: "T (t @ r) (case w of Inl e \<Rightarrow> Inl e | Inr b \<Rightarrow> Inr (b, skip_spaces r))"
    using add.IH(2) [OF add.prems(1)] TL_stop [OF add.prems(2)] by (cases w) auto
  have "case v of Inl e \<Rightarrow> x = Inl e | Inr a \<Rightarrow> EL a ?r x"
    using T add.prems(3) EL_op [OF sk] EL_fault [OF sk] EL_skip by (cases v; cases w) auto
  with add.IH(1) [OF nd st] show ?case by simp
next
  case (subtract s v t w k)
  let ?r = "spaces k @ [45] @ t @ r"
  have nd: "no_digit ?r" using no_digit_spaces [of 45 k] by (simp add: digit_def)
  have st: "stops [42, 47] ?r" by (simp add: stops_def)
  have sk: "skip_spaces ?r = 45 # t @ r" by simp
  have T: "T (t @ r) (case w of Inl e \<Rightarrow> Inl e | Inr b \<Rightarrow> Inr (b, skip_spaces r))"
    using subtract.IH(2) [OF subtract.prems(1)] TL_stop [OF subtract.prems(2)] by (cases w) auto
  have "case v of Inl e \<Rightarrow> x = Inl e | Inr a \<Rightarrow> EL a ?r x"
    using T subtract.prems(3) EL_op [OF sk] EL_fault [OF sk] EL_skip by (cases v; cases w) auto
  with subtract.IH(1) [OF nd st] show ?case by simp
qed

lemma stops_spaces [simp]: "stops ops (spaces k)"
  using skip_spaces_spaces [of k "[]"] by (simp add: stops_def)

lemma evaluate_of_parse:
  assumes "E s x"
  shows "evaluate s = Some (case x of Inl e \<Rightarrow> Inl e | Inr (v, _) \<Rightarrow> Inr v)"
proof -
  obtain n where n: "parse_expr n s = Some x" using assms by (auto simp: E_def)
  obtain y where y: "parse_expr (4 * length s + 3) s = Some y"
    using fuel_enough(4) [of s "4 * length s + 3"] by (auto simp: returns_def)
  let ?m = "max n (4 * length s + 3)"
  have "parse_expr ?m s = Some x" by (rule fuel_le [OF fuel_Suc(4) n]) simp_all
  moreover have "parse_expr ?m s = Some y" by (rule fuel_le [OF fuel_Suc(4) y]) simp_all
  ultimately show ?thesis using y by (simp add: evaluate_def)
qed

section \<open>Properties\<close>

text \<open>
  The calculator returns on every string, however malformed.
\<close>

theorem evaluate_terminates: "\<exists>r. evaluate s = Some r"
  using fuel_enough(4) [of s "4 * length s + 3"] by (auto simp: evaluate_def returns_def)

text \<open>
  C10: on a string of the expression language, with any spaces before its tokens and at its
  end, the calculator computes the value the grammar gives: the usual precedences, left
  associativity, arithmetic modulo \<open>2 ^ 32\<close>, and the processor's divide error exactly when a
  division by zero is evaluated.
\<close>

theorem evaluate_correct:
  assumes "expr_val s v"
  shows "evaluate (s @ spaces k) = Some v"
proof -
  have nd: "no_digit (spaces k)" by (cases k) (auto simp: no_digit_def spaces_def digit_def)
  have "E (s @ spaces k) (case v of Inl e \<Rightarrow> Inl e | Inr a \<Rightarrow> Inr (a, skip_spaces (spaces k)))"
    by (rule parser_follows(3) [OF assms nd stops_spaces]) (auto intro: EL_stop split: sum.splits)
  from evaluate_of_parse [OF this] show ?thesis by (simp split: sum.splits)
qed

text \<open>The string \<^verbatim>\<open>2-1*(4/0)\<close>.\<close>

lemma demo_expr: "expr_val ([50] @ spaces 0 @ [45] @ ([49] @ spaces 0 @ [42] @ (spaces 0 @ [40] @ ([52] @ spaces 0 @ [47] @ [48]) @ spaces 0 @ [41])))
    (bindE (Inr 2) (\<lambda>a. bindE (bindE (Inr 1) (\<lambda>a. bindE (bindE (Inr 4) (\<lambda>a. bindE (Inr 0) (div_val a))) (\<lambda>b. Inr (a * b)))) (\<lambda>b. Inr (a - b))))"
proof -
  have "factor_val [48] (Inr 0)" "factor_val [49] (Inr 1)" "factor_val [50] (Inr 2)" "factor_val [52] (Inr 4)"
    using number [of "[48]" 0] number [of "[49]" 0] number [of "[50]" 0] number [of "[52]" 0]
    by (simp_all add: spaces_def dec_value_def digit_def)
  then show ?thesis by (intro subtract addend factor mult divide parens)
qed

theorem evaluate_correct_witness:
  "evaluate [50, 45, 49, 42, 40, 52, 47, 48, 41, 32] = Some (Inl DivideError)"
  using evaluate_correct [OF demo_expr, of 1] by (simp add: spaces_def div_val_def)

end
