(* ===== verification/Fat32.thy ===== *)
theory Fat32
  imports HeapProps "HOL-Library.Monad_Syntax"
begin

unbundle bit_operations_syntax

text \<open>
  The FAT32 file system (\<^verbatim>\<open>kernel/fat32.cpp\<close>) on a disk of 512-byte sectors. The state is the
  file's static variables, the disk and the heap the buffers come from. An access to a
  sector of \<open>bad\<close> fails and transfers nothing, as \<^verbatim>\<open>ata_read_sectors\<close> and
  \<^verbatim>\<open>ata_write_sectors\<close> do for one sector. The result \<open>None\<close> means that the call does not
  return: it follows a cyclic chain of clusters or divides by zero. Structures that are laid
  over a sector (\<^verbatim>\<open>Fat32BPB\<close>, \<^verbatim>\<open>Fat32DirEntry\<close>, \<^verbatim>\<open>Fat32LFNEntry\<close>) are read and written at their
  byte offsets.
\<close>

definition FAT32_OK :: int where "FAT32_OK = 0"
definition FAT32_ERR_IO :: int where "FAT32_ERR_IO = -1"
definition FAT32_ERR_NOENT :: int where "FAT32_ERR_NOENT = -2"
definition FAT32_ERR_NOTDIR :: int where "FAT32_ERR_NOTDIR = -3"
definition FAT32_ERR_ISDIR :: int where "FAT32_ERR_ISDIR = -4"
definition FAT32_ERR_NOSPACE :: int where "FAT32_ERR_NOSPACE = -5"
definition FAT32_ERR_EXIST :: int where "FAT32_ERR_EXIST = -6"
definition FAT32_ERR_INVAL :: int where "FAT32_ERR_INVAL = -7"

definition ATTR_VOLUME_ID :: u8 where "ATTR_VOLUME_ID = 0x08"
definition ATTR_DIRECTORY :: u8 where "ATTR_DIRECTORY = 0x10"
definition ATTR_ARCHIVE :: u8 where "ATTR_ARCHIVE = 0x20"
definition ATTR_LFN :: u8 where "ATTR_LFN = 0x0F"
definition FAT32_MAX_NAME :: nat where "FAT32_MAX_NAME = 256"
definition FAT32_EOF :: u32 where "FAT32_EOF = 0x0FFFFFFF"

record fat_entry =
  fname :: bytes
  fattr :: u8
  fcluster :: u32
  fsize :: u32
  fdir_cluster :: u32
  fdir_index :: u32

record fat =
  mounted :: bool
  fat_start_lba :: u32
  fat_size_sectors :: u32
  data_start_lba :: u32
  root_cluster :: u32
  sectors_per_clust :: u32
  bytes_per_clust :: u32
  fat_cache :: bytes
  fat_cache_lba :: u32
  fat_cache_dirty :: bool
  sectors :: "u32 \<Rightarrow> bytes"
  bad :: "u32 \<Rightarrow> bool"
  disk_present :: bool
  sector_count :: u32
  fheap :: heap

section \<open>The disk and the FAT\<close>

definition ata_read :: "u32 \<Rightarrow> fat \<Rightarrow> bytes option" where
  "ata_read lba s = (if \<not> disk_present s \<or> bad s lba then None else Some (sectors s lba))"

definition ata_write :: "u32 \<Rightarrow> bytes \<Rightarrow> fat \<Rightarrow> fat option" where
  "ata_write lba b s = (if \<not> disk_present s \<or> bad s lba then None
     else Some (s\<lparr>sectors := (sectors s)(lba := b)\<rparr>))"

definition cluster_to_lba :: "u32 \<Rightarrow> fat \<Rightarrow> u32" where
  "cluster_to_lba c s = data_start_lba s + (c - 2) * sectors_per_clust s"

definition fat_flush_cache :: "fat \<Rightarrow> fat \<times> bool" where
  "fat_flush_cache s = (if \<not> fat_cache_dirty s then (s, True)
     else case ata_write (fat_cache_lba s) (fat_cache s) s of
       None \<Rightarrow> (s, False)
     | Some s' \<Rightarrow> (s'\<lparr>fat_cache_dirty := False\<rparr>, True))"

definition fat_read_sector :: "u32 \<Rightarrow> fat \<Rightarrow> fat \<times> bool" where
  "fat_read_sector lba s = (if fat_cache_lba s = lba then (s, True)
     else case fat_flush_cache s of (s1, ok) \<Rightarrow>
       if \<not> ok then (s1, False)
       else case ata_read lba s1 of
         None \<Rightarrow> (s1, False)
       | Some b \<Rightarrow> (s1\<lparr>fat_cache := b, fat_cache_lba := lba\<rparr>, True))"

definition fat_get :: "u32 \<Rightarrow> fat \<Rightarrow> fat \<times> u32" where
  "fat_get c s =
     (let off = c * 4; lba = fat_start_lba s + off div 512; i = unat (off mod 512) in
      case fat_read_sector lba s of (s1, ok) \<Rightarrow>
        if \<not> ok then (s1, 0) else (s1, get32 (fat_cache s1) i AND 0x0FFFFFFF))"

text \<open>The cache after the four stores of \<^verbatim>\<open>fat_set\<close>: the top four bits stay.\<close>

definition put_fat :: "bytes \<Rightarrow> nat \<Rightarrow> u32 \<Rightarrow> bytes" where
  "put_fat b i v = (let old_hi = push_bit 24 (ucast (b ! (i + 3)) AND 0xF0 :: u32) in
     b[i := ucast v, i + 1 := ucast (drop_bit 8 v), i + 2 := ucast (drop_bit 16 v),
       i + 3 := ucast (drop_bit 24 v OR drop_bit 24 old_hi)])"

definition fat_set_copy :: "u32 \<Rightarrow> u32 \<Rightarrow> u32 \<Rightarrow> fat \<Rightarrow> fat \<times> bool" where
  "fat_set_copy n c v s =
     (let off = c * 4; lba = fat_start_lba s + n * fat_size_sectors s + off div 512;
          i = unat (off mod 512) in
      case fat_read_sector lba s of (s1, ok) \<Rightarrow>
        if \<not> ok then (s1, False)
        else fat_flush_cache (s1\<lparr>fat_cache := put_fat (fat_cache s1) i v, fat_cache_dirty := True\<rparr>))"

definition fat_set :: "u32 \<Rightarrow> u32 \<Rightarrow> fat \<Rightarrow> fat \<times> bool" where
  "fat_set c value s =
     (let v = value AND 0x0FFFFFFF in
      case fat_set_copy 0 c v s of (s1, ok) \<Rightarrow> if \<not> ok then (s1, False) else fat_set_copy 1 c v s1)"

text \<open>The search for a free cluster from \<open>c\<close> on, with \<open>n\<close> clusters left.\<close>

fun alloc_scan :: "nat \<Rightarrow> u32 \<Rightarrow> fat \<Rightarrow> fat \<times> u32" where
  "alloc_scan 0 c s = (s, 0)"
| "alloc_scan (Suc n) c s = (case fat_get c s of (s1, v) \<Rightarrow>
     if v = 0 then (fst (fat_set c FAT32_EOF s1), c) else alloc_scan n (c + 1) s1)"

definition fat_alloc_cluster :: "fat \<Rightarrow> (fat \<times> u32) option" where
  "fat_alloc_cluster s = (if sectors_per_clust s = 0 then None
     else Some (alloc_scan (unat (sector_count s div sectors_per_clust s) - 2) 2 s))"

partial_function (option) fat_free_chain :: "u32 \<Rightarrow> fat \<Rightarrow> fat option" where
  "fat_free_chain start s =
     (if start \<ge> 2 \<and> start < FAT32_EOF then
        case fat_get start s of (s1, next) \<Rightarrow> fat_free_chain next (fst (fat_set start 0 s1))
      else Some s)"

fun read_sectors :: "nat \<Rightarrow> u32 \<Rightarrow> fat \<Rightarrow> bytes option" where
  "read_sectors 0 lba s = Some []"
| "read_sectors (Suc n) lba s = (case ata_read lba s of None \<Rightarrow> None
   | Some b \<Rightarrow> map_option ((@) b) (read_sectors n (lba + 1) s))"

definition cluster_read :: "u32 \<Rightarrow> fat \<Rightarrow> bytes option" where
  "cluster_read c s = read_sectors (unat (sectors_per_clust s)) (cluster_to_lba c s) s"

text \<open>Sectors written before a failing one stay written.\<close>

fun write_sectors :: "nat \<Rightarrow> u32 \<Rightarrow> bytes \<Rightarrow> fat \<Rightarrow> fat \<times> bool" where
  "write_sectors 0 lba b s = (s, True)"
| "write_sectors (Suc n) lba b s = (case ata_write lba (take 512 b) s of
     None \<Rightarrow> (s, False) | Some s' \<Rightarrow> write_sectors n (lba + 1) (drop 512 b) s')"

definition cluster_write :: "u32 \<Rightarrow> bytes \<Rightarrow> fat \<Rightarrow> fat \<times> bool" where
  "cluster_write c b s = write_sectors (unat (sectors_per_clust s)) (cluster_to_lba c s) b s"

section \<open>Names\<close>

definition ucs2_to_ascii :: "u16 \<Rightarrow> u8" where
  "ucs2_to_ascii c = (if 0x20 \<le> c \<and> c \<le> 0x7E then ucast (c AND 0xFF) else 95)"

text \<open>The thirteen characters of a long-name record, in the order they are read.\<close>

definition lfn_units :: "bytes \<Rightarrow> u16 list" where
  "lfn_units e = map (get16 e) [1, 3, 5, 7, 9, 14, 16, 18, 20, 22, 24, 28, 30]"

text \<open>The copy into \<open>out\<close>, which stops at a terminator or when the buffer is full.\<close>

fun lfn_copy :: "nat \<Rightarrow> u16 list \<Rightarrow> bytes" where
  "lfn_copy room [] = []"
| "lfn_copy room (c # cs) = (if room = 0 \<or> c = 0xFFFF \<or> c = 0 then []
     else ucs2_to_ascii c # lfn_copy (room - 1) cs)"

definition lfn_collect :: "bytes list \<Rightarrow> nat \<Rightarrow> bytes" where
  "lfn_collect es out_size = lfn_copy (out_size - 1) (concat (map lfn_units (rev es)))"

text \<open>A directory record is 32 bytes: the name in bytes 0 to 7, the extension in 8 to 10.\<close>

definition parse_83_name :: "bytes \<Rightarrow> bytes" where
  "parse_83_name e = takeWhile (\<lambda>c. c \<noteq> 32) (take 8 e)
     @ (if e ! 8 \<noteq> 32 then 46 # takeWhile (\<lambda>c. c \<noteq> 32) (take 3 (drop 8 e)) else [])"

definition upper :: "u8 \<Rightarrow> u8" where
  "upper c = (if 97 \<le> c \<and> c \<le> 122 then c - 32 else c)"

text \<open>The text before the last dot and the text after it.\<close>

fun split_dot :: "bytes \<Rightarrow> (bytes \<times> bytes) option" where
  "split_dot [] = None"
| "split_dot (c # cs) = (case split_dot cs of
     Some (a, b) \<Rightarrow> Some (c # a, b)
   | None \<Rightarrow> if c = 46 then Some ([], cs) else None)"

definition pad :: "nat \<Rightarrow> bytes \<Rightarrow> bytes" where
  "pad n cs = map upper (take n cs) @ replicate (n - length cs) 32"

definition make_83 :: "bytes \<Rightarrow> bytes \<times> bytes" where
  "make_83 name = (case split_dot name of
     Some (a, b) \<Rightarrow> (pad 8 a, pad 3 b)
   | None \<Rightarrow> (pad 8 name, pad 3 []))"

fun kstricmp :: "bytes \<Rightarrow> bytes \<Rightarrow> int" where
  "kstricmp (a # as) (b # bs) =
     (if upper a \<noteq> upper b then sint (upper a) - sint (upper b) else kstricmp as bs)"
| "kstricmp (a # as) [] = uint a"
| "kstricmp [] (b # bs) = - uint b"
| "kstricmp [] [] = 0"

section \<open>Buffers\<close>

text \<open>
  An operation runs in \<open>fat \<Rightarrow> (fat \<times> 'a) option\<close>. \<open>with_buf\<close> is the frame most of them
  share: a cluster buffer from \<^verbatim>\<open>kmalloc\<close>, the error \<open>fail\<close> when there is none, and \<^verbatim>\<open>kfree\<close>
  of the buffer on every return.
\<close>

definition with_buf :: "'a \<Rightarrow> (fat \<Rightarrow> (fat \<times> 'a) option) \<Rightarrow> fat \<Rightarrow> (fat \<times> 'a) option" where
  "with_buf fail body s = do {
     (h, p) \<leftarrow> kmalloc (fheap s) (bytes_per_clust s);
     if p = 0 then Some (s\<lparr>fheap := h\<rparr>, fail)
     else do {
       (s', r) \<leftarrow> body (s\<lparr>fheap := h\<rparr>);
       Some (s'\<lparr>fheap := kfree (fheap s') p\<rparr>, r)
     }
   }"

definition patch :: "nat \<Rightarrow> bytes \<Rightarrow> bytes \<Rightarrow> bytes" where
  "patch i new b = take i b @ new @ drop (i + length new) b"

section \<open>Mounting\<close>

text \<open>The boot sector is at sector 0 or, behind a partition table, where its first entry says.\<close>

definition boot_sector :: "fat \<Rightarrow> (u32 \<times> bytes) option" where
  "boot_sector s = do {
     b \<leftarrow> ata_read 0 s;
     if b ! 510 \<noteq> 0x55 \<or> b ! 511 \<noteq> 0xAA then None
     else if b ! 450 \<in> {0x0B, 0x0C, 0x1B, 0x1C} then do {
       b' \<leftarrow> ata_read (get32 b 454) s;
       Some (get32 b 454, b')
     }
     else Some (0, b)
   }"

definition fat32_init :: "fat \<Rightarrow> fat \<times> bool" where
  "fat32_init s0 =
     (let s = s0\<lparr>mounted := False\<rparr> in
      case boot_sector s of
        None \<Rightarrow> (s, False)
      | Some (base, b) \<Rightarrow>
          if get16 b 11 \<noteq> 512 \<or> b ! 16 = 0 \<or> get32 b 36 = 0 then (s, False)
          else
            let start = base + ucast (get16 b 14) in
            (s\<lparr>sectors_per_clust := ucast (b ! 13), bytes_per_clust := ucast (b ! 13) * 512,
               fat_start_lba := start, fat_size_sectors := get32 b 36,
               data_start_lba := start + ucast (b ! 16) * get32 b 36,
               root_cluster := get32 b 44, fat_cache_lba := 0xFFFFFFFF,
               fat_cache_dirty := False, mounted := True\<rparr>, True))"

definition dir_start :: "u32 \<Rightarrow> fat \<Rightarrow> u32" where
  "dir_start d s = (if d \<noteq> 0 then d else root_cluster s)"

section \<open>Reading directories\<close>

text \<open>
  The scan of one cluster's records: the entry asked for, the end of the directory, or the
  counters and the pending long-name records to go on with.
\<close>

datatype scan = Found fat_entry | DirEnd | More u32 u32 "bytes list"

definition entry_of :: "bytes \<Rightarrow> bytes list \<Rightarrow> u32 \<Rightarrow> u32 \<Rightarrow> fat_entry" where
  "entry_of e lfn d raw =
     \<lparr>fname = (if lfn \<noteq> [] then lfn_collect lfn FAT32_MAX_NAME else takeWhile (\<lambda>c. c \<noteq> 0) (parse_83_name e)),
      fattr = e ! 11, fcluster = push_bit 16 (ucast (get16 e 20)) OR ucast (get16 e 26),
      fsize = get32 e 28, fdir_cluster = d, fdir_index = raw\<rparr>"

fun scan_entries :: "u32 \<Rightarrow> u32 \<Rightarrow> bytes list \<Rightarrow> u32 \<Rightarrow> u32 \<Rightarrow> bytes list \<Rightarrow> scan" where
  "scan_entries d index [] ei raw lfn = More ei raw lfn"
| "scan_entries d index (e # es) ei raw lfn =
     (if e ! 0 = 0 then DirEnd
      else if e ! 0 = 0xE5 then scan_entries d index es ei (raw + 1) []
      else if e ! 11 = ATTR_LFN then
        scan_entries d index es ei (raw + 1) (if length lfn < 20 then lfn @ [e] else lfn)
      else if e ! 11 AND ATTR_VOLUME_ID \<noteq> 0 then scan_entries d index es ei (raw + 1) []
      else if ei = index then Found (entry_of e lfn d raw)
      else scan_entries d index es (ei + 1) (raw + 1) [])"

definition records :: "bytes \<Rightarrow> fat \<Rightarrow> bytes list" where
  "records b s = map (\<lambda>i. take 32 (drop (32 * i) b)) [0..<unat (bytes_per_clust s div 32)]"

partial_function (option) readdir_loop ::
  "u32 \<Rightarrow> u32 \<Rightarrow> u32 \<Rightarrow> u32 \<Rightarrow> u32 \<Rightarrow> bytes list \<Rightarrow> fat \<Rightarrow> (fat \<times> (int + fat_entry)) option" where
  "readdir_loop d index cur ei raw lfn s =
     (if cur < FAT32_EOF \<and> 2 \<le> cur then
        (case cluster_read cur s of
           None \<Rightarrow> Some (s, Inl FAT32_ERR_IO)
         | Some b \<Rightarrow>
            (case scan_entries d index (records b s) ei raw lfn of
               Found e \<Rightarrow> Some (s, Inr e)
             | DirEnd \<Rightarrow> Some (s, Inl FAT32_ERR_NOENT)
             | More ei' raw' lfn' \<Rightarrow>
                (case fat_get cur s of (s1, c) \<Rightarrow> readdir_loop d index c ei' raw' lfn' s1)))
      else Some (s, Inl FAT32_ERR_NOENT))"

definition fat32_readdir :: "u32 \<Rightarrow> u32 \<Rightarrow> fat \<Rightarrow> (fat \<times> (int + fat_entry)) option" where
  "fat32_readdir d index s =
     (if \<not> mounted s then Some (s, Inl FAT32_ERR_INVAL)
      else with_buf (Inl FAT32_ERR_IO) (readdir_loop d index (dir_start d s) 0 0 []) s)"

definition dot_name :: "bytes \<Rightarrow> bool" where
  "dot_name n \<longleftrightarrow> n = [46] \<or> n = [46, 46]"

partial_function (option) find_loop ::
  "u32 \<Rightarrow> bytes \<Rightarrow> u32 \<Rightarrow> fat \<Rightarrow> (fat \<times> (int + fat_entry)) option" where
  "find_loop d name i s = do {
     (s1, r) \<leftarrow> fat32_readdir d i s;
     (case r of
        Inl x \<Rightarrow> Some (s1, Inl x)
      | Inr e \<Rightarrow> if \<not> dot_name (fname e) \<and> kstricmp (fname e) name = 0 then Some (s1, Inr e)
                else find_loop d name (i + 1) s1)
   }"

definition fat32_find :: "u32 \<Rightarrow> bytes \<Rightarrow> fat \<Rightarrow> (fat \<times> (int + fat_entry)) option" where
  "fat32_find d name s = find_loop d name 0 s"

text \<open>
  The entry \<open>e\<close> the walk over a path has reached is the caller's uninitialised stack slot
  until a component has been found.
\<close>

partial_function (option) resolve_loop ::
  "u32 \<Rightarrow> fat_entry \<Rightarrow> bytes \<Rightarrow> fat \<Rightarrow> (fat \<times> (int + fat_entry)) option" where
  "resolve_loop cur e path s =
     (let p = dropWhile (\<lambda>c. c = 47) path;
          comp = takeWhile (\<lambda>c. c \<noteq> 47) (take 255 p);
          rest = drop (length comp) p in
      if p = [] then Some (s, Inr e)
      else if comp = [46] then resolve_loop cur e rest s
      else if comp = [46, 46] then resolve_loop (root_cluster s) e rest s
      else do {
        (s1, r) \<leftarrow> fat32_find cur comp s;
        (case r of
           Inl x \<Rightarrow> Some (s1, Inl x)
         | Inr e' \<Rightarrow> resolve_loop (dir_start (fcluster e') s1) e' rest s1)
      })"

definition fat32_resolve :: "fat_entry \<Rightarrow> bytes \<Rightarrow> fat \<Rightarrow> (fat \<times> (int + fat_entry)) option" where
  "fat32_resolve junk path s =
     (if path = [] then Some (s, Inl FAT32_ERR_INVAL)
      else if path = [47] then
        Some (s, Inr \<lparr>fname = [47], fattr = ATTR_DIRECTORY, fcluster = root_cluster s, fsize = 0,
                      fdir_cluster = 0, fdir_index = 0\<rparr>)
      else resolve_loop (root_cluster s) junk path s)"

section \<open>Reading files\<close>

text \<open>The cluster \<open>n\<close> links after \<open>c\<close>, stopping at the end mark.\<close>

fun walk :: "nat \<Rightarrow> u32 \<Rightarrow> fat \<Rightarrow> fat \<times> u32" where
  "walk 0 c s = (s, c)"
| "walk (Suc n) c s = (if c < FAT32_EOF then case fat_get c s of (s1, c1) \<Rightarrow> walk n c1 s1
     else (s, c))"

text \<open>The result is the return value and the bytes stored into the caller's buffer.\<close>

partial_function (option) read_loop ::
  "u32 \<Rightarrow> u32 \<Rightarrow> u32 \<Rightarrow> bytes \<Rightarrow> fat \<Rightarrow> (fat \<times> int \<times> bytes) option" where
  "read_loop sz c off acc s =
     (if 0 < sz \<and> 2 \<le> c \<and> c < FAT32_EOF then
        (case cluster_read c s of
           None \<Rightarrow> Some (s, FAT32_ERR_IO, acc)
         | Some b \<Rightarrow>
            (let avail = bytes_per_clust s - off;
                 m = (if sz < avail then sz else avail);
                 acc' = acc @ take (unat m) (drop (unat off) b) in
             case fat_get c s of (s1, c1) \<Rightarrow> read_loop (sz - m) c1 0 acc' s1))
      else Some (s, sint (of_nat (length acc) :: u32), acc))"

definition fat32_read :: "fat_entry \<Rightarrow> u32 \<Rightarrow> u32 \<Rightarrow> fat \<Rightarrow> (fat \<times> int \<times> bytes) option" where
  "fat32_read e off sz s =
     (if \<not> mounted s then Some (s, FAT32_ERR_INVAL, [])
      else if fattr e AND ATTR_DIRECTORY \<noteq> 0 then Some (s, FAT32_ERR_ISDIR, [])
      else if fsize e \<le> off then Some (s, 0, [])
      else
        let sz' = (if fsize e < off + sz then fsize e - off else sz) in
        if sz' = 0 then Some (s, 0, [])
        else with_buf (FAT32_ERR_IO, []) (\<lambda>s.
          case walk (unat (off div bytes_per_clust s)) (fcluster e) s of
            (s1, c) \<Rightarrow> read_loop sz' c (off mod bytes_per_clust s) [] s1) s)"

section \<open>Writing files\<close>

text \<open>
  The cluster holding a directory record and its index there; \<open>None\<close> inside is the
  \<^verbatim>\<open>NOENT\<close> of a chain that ends early. The division by the records of a cluster faults when
  a cluster has no sectors.
\<close>

fun dir_walk :: "nat \<Rightarrow> u32 \<Rightarrow> fat \<Rightarrow> fat \<times> u32 option" where
  "dir_walk 0 c s = (s, Some c)"
| "dir_walk (Suc n) c s = (case fat_get c s of (s1, c1) \<Rightarrow>
     if c1 < 2 \<or> FAT32_EOF \<le> c1 then (s1, None) else dir_walk n c1 s1)"

definition edit_record ::
  "u32 \<Rightarrow> u32 \<Rightarrow> (nat \<Rightarrow> bytes \<Rightarrow> bytes) \<Rightarrow> fat \<Rightarrow> (fat \<times> int) option" where
  "edit_record d raw f s =
     (let epc = bytes_per_clust s div 32 in
      if epc = 0 then None
      else case dir_walk (unat (raw div epc)) (dir_start d s) s of
        (s1, None) \<Rightarrow> Some (s1, FAT32_ERR_NOENT)
      | (s1, Some c) \<Rightarrow> with_buf FAT32_ERR_IO (\<lambda>s.
          case cluster_read c s of
            None \<Rightarrow> Some (s, FAT32_ERR_IO)
          | Some b \<Rightarrow> (case cluster_write c (f (32 * unat (raw mod epc)) b) s of
              (s2, ok) \<Rightarrow> Some (s2, if ok then FAT32_OK else FAT32_ERR_IO))) s1)"

definition update_dir_entry :: "fat_entry \<Rightarrow> fat \<Rightarrow> (fat \<times> int) option" where
  "update_dir_entry e s = edit_record (fdir_cluster e) (fdir_index e) (\<lambda>i b.
     patch (i + 28) (bytes32 (fsize e)) (patch (i + 26) (bytes16 (ucast (fcluster e)))
       (patch (i + 20) (bytes16 (ucast (drop_bit 16 (fcluster e)))) b))) s"

text \<open>The successor of a cluster, a new one linked behind it when the chain ends there.\<close>

definition next_or_new :: "u32 \<Rightarrow> fat \<Rightarrow> (fat \<times> u32) option" where
  "next_or_new c s =
     (case fat_get c s of (s1, n) \<Rightarrow>
        if FAT32_EOF \<le> n \<or> n < 2 then do {
          (s2, k) \<leftarrow> fat_alloc_cluster s1;
          Some (if k = 0 then (s2, 0) else (fst (fat_set c k s2), k))
        }
        else Some (s1, n))"

fun extend_walk :: "nat \<Rightarrow> u32 \<Rightarrow> fat \<Rightarrow> (fat \<times> u32) option" where
  "extend_walk 0 c s = Some (s, c)"
| "extend_walk (Suc n) c s = do {
     (s1, k) \<leftarrow> next_or_new c s;
     if k = 0 then Some (s1, 0) else extend_walk n k s1
   }"

text \<open>The bytes written so far come back, or \<open>None\<close> after an error of the disk. Reading past the
  end of \<open>buf\<close> is the outer \<open>None\<close>.\<close>

partial_function (option) write_loop ::
  "u32 \<Rightarrow> u32 \<Rightarrow> bytes \<Rightarrow> u32 \<Rightarrow> u32 \<Rightarrow> fat \<Rightarrow> (fat \<times> u32 option) option" where
  "write_loop c off buf written remaining s =
     (if remaining = 0 then Some (s, Some written)
      else case cluster_read c s of
        None \<Rightarrow> Some (s, None)
      | Some b \<Rightarrow>
         (let avail = bytes_per_clust s - off;
              m = (if remaining < avail then remaining else avail) in
          if length buf < unat written + unat m then None
          else case cluster_write c (patch (unat off) (take (unat m) (drop (unat written) buf)) b) s of
            (s1, ok) \<Rightarrow>
              if \<not> ok then Some (s1, None)
              else if remaining - m = 0 then Some (s1, Some (written + m))
              else do {
                (s2, k) \<leftarrow> next_or_new c s1;
                if k = 0 then Some (s2, Some (written + m))
                else write_loop k 0 buf (written + m) (remaining - m) s2
              }))"

definition fat32_write ::
  "fat_entry \<Rightarrow> bytes \<Rightarrow> u32 \<Rightarrow> u32 \<Rightarrow> fat \<Rightarrow> (fat \<times> fat_entry \<times> int) option" where
  "fat32_write e0 buf off sz s0 =
     (if \<not> mounted s0 then Some (s0, e0, FAT32_ERR_INVAL)
      else if fattr e0 AND ATTR_DIRECTORY \<noteq> 0 then Some (s0, e0, FAT32_ERR_ISDIR)
      else with_buf (e0, FAT32_ERR_IO) (\<lambda>s. do {
        (s, e) \<leftarrow> (if fcluster e0 \<noteq> 0 then Some (s, e0)
          else do {
            (s, c) \<leftarrow> fat_alloc_cluster s;
            let e = e0\<lparr>fcluster := c\<rparr>;
            if c = 0 then Some (s, e) else map_option (\<lambda>(s, r). (s, e)) (update_dir_entry e s)
          });
        if fcluster e = 0 then Some (s, e0, FAT32_ERR_NOSPACE)
        else do {
          (s, c) \<leftarrow> extend_walk (unat (off div bytes_per_clust s)) (fcluster e) s;
          if c = 0 then Some (s, e, FAT32_ERR_NOSPACE)
          else do {
            (s, w) \<leftarrow> write_loop c (off mod bytes_per_clust s) buf 0 sz s;
            (case w of
               None \<Rightarrow> Some (s, e, FAT32_ERR_IO)
             | Some n \<Rightarrow> do {
                 let e = e\<lparr>fsize := (if fsize e < off + n then off + n else fsize e)\<rparr>;
                 (s, r) \<leftarrow> update_dir_entry e s;
                 Some (s, e, sint n)
               })
          }
        }
      }) s0)"

section \<open>Creating, removing and renaming\<close>

definition dir_record :: "bytes \<Rightarrow> u8 \<Rightarrow> u32 \<Rightarrow> u32 \<Rightarrow> bytes" where
  "dir_record name attr cluster sz =
     fst (make_83 name) @ snd (make_83 name) @ [attr, 0, 0] @ bytes16 0 @ bytes16 0x5821
       @ bytes16 0x5821 @ bytes16 (ucast (drop_bit 16 cluster)) @ bytes16 0 @ bytes16 0x5821
       @ bytes16 (ucast cluster) @ bytes32 sz"

definition free_record :: "bytes list \<Rightarrow> nat option" where
  "free_record es = find_idx (\<lambda>e. e ! 0 = 0 \<or> e ! 0 = 0xE5) es"

partial_function (option) write_dir_loop ::
  "u32 \<Rightarrow> u32 \<Rightarrow> bytes \<Rightarrow> fat \<Rightarrow> (fat \<times> (int + u32)) option" where
  "write_dir_loop cur raw rec s =
     (if \<not> (2 \<le> cur \<and> cur < FAT32_EOF) then Some (s, Inl FAT32_ERR_NOSPACE)
      else case cluster_read cur s of
        None \<Rightarrow> Some (s, Inl FAT32_ERR_IO)
      | Some b \<Rightarrow>
         (case free_record (records b s) of
            Some i \<Rightarrow> (case cluster_write cur (patch (32 * i) rec b) s of
              (s1, ok) \<Rightarrow> Some (s1, if ok then Inr (raw + of_nat i) else Inl FAT32_ERR_IO))
          | None \<Rightarrow>
             (case fat_get cur s of (s1, n) \<Rightarrow>
                if FAT32_EOF \<le> n \<or> n < 2 then do {
                  (s2, k) \<leftarrow> fat_alloc_cluster s1;
                  if k = 0 then Some (s2, Inl FAT32_ERR_NOSPACE)
                  else case cluster_write k (replicate (unat (bytes_per_clust s)) 0) s2 of
                    (s3, ok) \<Rightarrow> write_dir_loop k (raw + bytes_per_clust s div 32) rec
                      (fst (fat_set cur k s3))
                }
                else write_dir_loop n (raw + bytes_per_clust s div 32) rec s1)))"

definition write_dir_entry ::
  "u32 \<Rightarrow> bytes \<Rightarrow> u8 \<Rightarrow> u32 \<Rightarrow> u32 \<Rightarrow> fat \<Rightarrow> (fat \<times> (int + u32)) option" where
  "write_dir_entry d name attr cluster sz s =
     with_buf (Inl FAT32_ERR_IO) (write_dir_loop (dir_start d s) 0 (dir_record name attr cluster sz)) s"

definition new_entry :: "bytes \<Rightarrow> u8 \<Rightarrow> u32 \<Rightarrow> u32 \<Rightarrow> u32 \<Rightarrow> fat_entry" where
  "new_entry name attr c d raw =
     \<lparr>fname = name, fattr = attr, fcluster = c, fsize = 0, fdir_cluster = d, fdir_index = raw\<rparr>"

definition fat32_create :: "u32 \<Rightarrow> bytes \<Rightarrow> fat \<Rightarrow> (fat \<times> (int + fat_entry)) option" where
  "fat32_create d name s =
     (if \<not> mounted s then Some (s, Inl FAT32_ERR_INVAL)
      else do {
        (s1, r) \<leftarrow> fat32_find d name s;
        if \<not> isl r then Some (s1, Inl FAT32_ERR_EXIST)
        else do {
          (s2, w) \<leftarrow> write_dir_entry d name ATTR_ARCHIVE 0 0 s1;
          Some (s2, map_sum id (new_entry name ATTR_ARCHIVE 0 d) w)
        }
      })"

text \<open>The first cluster of a new directory: the records of ``.'' and ``..'', then zeros.\<close>

definition dot_record :: "bytes \<Rightarrow> u32 \<Rightarrow> bytes" where
  "dot_record name c = name @ replicate (11 - length name) 32 @ [ATTR_DIRECTORY] @ replicate 8 0
     @ bytes16 (ucast (drop_bit 16 c)) @ replicate 4 0 @ bytes16 (ucast c) @ replicate 4 0"

definition mkdir_cluster :: "u32 \<Rightarrow> u32 \<Rightarrow> u32 \<Rightarrow> bytes" where
  "mkdir_cluster sz c parent =
     patch 32 (dot_record [46, 46] parent) (patch 0 (dot_record [46] c) (replicate (unat sz) 0))"

definition fat32_mkdir :: "u32 \<Rightarrow> bytes \<Rightarrow> fat \<Rightarrow> (fat \<times> (int + fat_entry)) option" where
  "fat32_mkdir d name s =
     (if \<not> mounted s then Some (s, Inl FAT32_ERR_INVAL)
      else do {
        (s1, r) \<leftarrow> fat32_find d name s;
        if \<not> isl r then Some (s1, Inl FAT32_ERR_EXIST)
        else do {
          (s2, c) \<leftarrow> fat_alloc_cluster s1;
          if c = 0 then Some (s2, Inl FAT32_ERR_NOSPACE)
          else do {
            (s3, ok) \<leftarrow> with_buf False (\<lambda>s. Some (fst (cluster_write c
                (mkdir_cluster (bytes_per_clust s) c (dir_start d s)) s), True)) s2;
            if \<not> ok then Some (fst (fat_set c 0 s3), Inl FAT32_ERR_IO)
            else do {
              (s4, w) \<leftarrow> write_dir_entry d name ATTR_DIRECTORY c 0 s3;
              (case w of
                 Inl x \<Rightarrow> map_option (\<lambda>s5. (s5, Inl x)) (fat_free_chain c s4)
               | Inr raw \<Rightarrow> Some (s4, Inr (new_entry name ATTR_DIRECTORY c d raw)))
            }
          }
        }
      })"

definition mark_deleted :: "u32 \<Rightarrow> u32 \<Rightarrow> fat \<Rightarrow> (fat \<times> int) option" where
  "mark_deleted d raw s = edit_record d raw (\<lambda>i b. b[i := 0xE5]) s"

definition fat32_unlink :: "fat_entry \<Rightarrow> fat \<Rightarrow> (fat \<times> int) option" where
  "fat32_unlink e s =
     (if \<not> mounted s then Some (s, FAT32_ERR_INVAL)
      else if fattr e AND ATTR_DIRECTORY \<noteq> 0 then Some (s, FAT32_ERR_ISDIR)
      else do {
        s1 \<leftarrow> fat_free_chain (fcluster e) s;
        mark_deleted (fdir_cluster e) (fdir_index e) s1
      })"

text \<open>The return value of the search for a child, and \<open>NOENT\<close> when there is none.\<close>

partial_function (option) rmdir_loop :: "u32 \<Rightarrow> u32 \<Rightarrow> fat \<Rightarrow> (fat \<times> int) option" where
  "rmdir_loop c i s = do {
     (s1, r) \<leftarrow> fat32_readdir c i s;
     (case r of
        Inl x \<Rightarrow> Some (s1, x)
      | Inr e \<Rightarrow> if dot_name (fname e) then rmdir_loop c (i + 1) s1 else Some (s1, FAT32_ERR_EXIST))
   }"

definition fat32_rmdir :: "fat_entry \<Rightarrow> fat \<Rightarrow> (fat \<times> int) option" where
  "fat32_rmdir e s =
     (if \<not> mounted s then Some (s, FAT32_ERR_INVAL)
      else if fattr e AND ATTR_DIRECTORY = 0 then Some (s, FAT32_ERR_NOTDIR)
      else do {
        (s1, r) \<leftarrow> rmdir_loop (fcluster e) 0 s;
        if r \<noteq> FAT32_ERR_NOENT then Some (s1, r)
        else do {
          s2 \<leftarrow> fat_free_chain (fcluster e) s1;
          mark_deleted (fdir_cluster e) (fdir_index e) s2
        }
      })"

definition fat32_rename :: "fat_entry \<Rightarrow> u32 \<Rightarrow> bytes \<Rightarrow> fat \<Rightarrow> (fat \<times> fat_entry \<times> int) option" where
  "fat32_rename e d name s =
     (if \<not> mounted s then Some (s, e, FAT32_ERR_INVAL)
      else do {
        (s1, w) \<leftarrow> write_dir_entry d name (fattr e) (fcluster e) (fsize e) s;
        (case w of
           Inl x \<Rightarrow> Some (s1, e, x)
         | Inr raw \<Rightarrow> do {
             (s2, r) \<leftarrow> mark_deleted (fdir_cluster e) (fdir_index e) s1;
             Some (s2, if r = FAT32_OK then e\<lparr>fname := name, fdir_cluster := d, fdir_index := raw\<rparr>
                       else e, r)
           })
      })"

end
