(* ===== verification/FatProps.thy ===== *)
theory FatProps
  imports Fat32
begin

unbundle bit_operations_syntax

text \<open>
  The table of a FAT32 volume as a function from clusters to their successors, what
  \<^verbatim>\<open>fat_get\<close>, \<^verbatim>\<open>fat_set\<close>, the allocation and the release of a chain do to that function, and
  the contents of a file as the concatenation of its clusters.
\<close>

section \<open>The table as a function\<close>

definition fat_limit :: "fat \<Rightarrow> nat" where
  "fat_limit s = 128 * unat (fat_size_sectors s)"

definition fatv :: "fat \<Rightarrow> u32 \<Rightarrow> u32" where
  "fatv s c = get32 (sectors s (fat_start_lba s + c * 4 div 512)) (unat (c * 4 mod 512)) AND 0x0FFFFFFF"

text \<open>
  A volume whose disk answers, whose two tables fit below the last sector number, and whose
  cached sector is what the disk holds.
\<close>

definition fat_good :: "fat \<Rightarrow> bool" where
  "fat_good s \<longleftrightarrow> disk_present s \<and> (\<forall>l. \<not> bad s l) \<and> (\<forall>l. length (sectors s l) = 512)
     \<and> \<not> fat_cache_dirty s
     \<and> (fat_cache_lba s \<noteq> 0xFFFFFFFF \<longrightarrow> fat_cache s = sectors s (fat_cache_lba s))
     \<and> unat (fat_start_lba s) + 2 * unat (fat_size_sectors s) < 0xFFFFFFFF
     \<and> unat (fat_size_sectors s) \<le> 2 ^ 21"

text \<open>The same volume up to what the cache holds.\<close>

definition same_disk :: "fat \<Rightarrow> fat \<Rightarrow> bool" where
  "same_disk s s' \<longleftrightarrow> s' = s\<lparr>fat_cache := fat_cache s', fat_cache_lba := fat_cache_lba s'\<rparr>"

lemma same_disk_refl [simp]: "same_disk s s" by (simp add: same_disk_def)

lemma same_disk_trans: "same_disk s t \<Longrightarrow> same_disk t u \<Longrightarrow> same_disk s u"
  unfolding same_disk_def by (cases s, cases t, cases u) simp

lemma same_diskD:
  assumes "same_disk s t"
  shows "sectors t = sectors s" "fat_start_lba t = fat_start_lba s"
    "fat_size_sectors t = fat_size_sectors s" "bad t = bad s" "disk_present t = disk_present s"
    "sector_count t = sector_count s" "sectors_per_clust t = sectors_per_clust s"
    "bytes_per_clust t = bytes_per_clust s" "data_start_lba t = data_start_lba s"
    "root_cluster t = root_cluster s" "mounted t = mounted s" "fheap t = fheap s"
    "fat_cache_dirty t = fat_cache_dirty s"
  using assms unfolding same_disk_def by (cases s, cases t, simp)+

lemma same_disk_fatv [simp]: "same_disk s t \<Longrightarrow> fatv t = fatv s"
  by (simp add: fun_eq_iff fatv_def same_diskD)

lemma same_disk_limit [simp]: "same_disk s t \<Longrightarrow> fat_limit t = fat_limit s"
  by (simp add: fat_limit_def same_diskD)

text \<open>Where a cluster's entry is: the sector and the byte inside it, without wrap-around.\<close>

lemma entry_place:
  fixes c :: u32
  assumes "fat_good s" "unat c < fat_limit s"
  shows "unat (c * 4 div 512) = unat c div 128" "unat (c * 4 mod 512) = 4 * (unat c mod 128)"
    "unat c div 128 < unat (fat_size_sectors s)"
proof -
  have lim: "unat c < 2 ^ 28" using assms by (auto simp: fat_good_def fat_limit_def)
  have m: "unat (c * 4) = 4 * unat c"
    using lim by (subst unat_mult_lt) simp_all
  show "unat (c * 4 div 512) = unat c div 128" by (simp add: unat_div m)
  show "unat (c * 4 mod 512) = 4 * (unat c mod 128)" 
    using mult_mod_right [of 4 "unat c" 128] by (simp add: unat_mod m)
  show "unat c div 128 < unat (fat_size_sectors s)"
    using assms(2) by (auto simp: fat_limit_def less_mult_imp_div_less mult.commute)
qed

lemma read_sector_good:
  assumes "fat_good s" "lba \<noteq> 0xFFFFFFFF"
  shows "\<exists>s'. fat_read_sector lba s = (s', True) \<and> same_disk s s' \<and> fat_good s'
    \<and> fat_cache s' = sectors s lba \<and> fat_cache_lba s' = lba"
  using assms
  by (auto simp: fat_read_sector_def fat_flush_cache_def ata_read_def fat_good_def same_disk_def)

text \<open>A sector below the end of the second table is not the mark of an empty cache.\<close>

lemma table_lba:
  assumes "fat_good s" "k < 2 * unat (fat_size_sectors s)" "unat d = k"
  shows "unat (fat_start_lba s + d) = unat (fat_start_lba s) + k" "fat_start_lba s + d \<noteq> 0xFFFFFFFF"
proof -
  have b: "unat (fat_start_lba s) + k < 0xFFFFFFFF" using assms(1,2) by (simp add: fat_good_def)
  show u: "unat (fat_start_lba s + d) = unat (fat_start_lba s) + k"
    using b assms(3) by (simp add: unat_plus_if)
  show "fat_start_lba s + d \<noteq> 0xFFFFFFFF"
  proof
    assume "fat_start_lba s + d = 0xFFFFFFFF"
    then have "unat (fat_start_lba s + d) = unat (0xFFFFFFFF :: u32)" by (rule arg_cong)
    with u b show False by simp
  qed
qed

lemma fat_get_good:
  assumes "fat_good s" "unat c < fat_limit s"
  shows "\<exists>s'. fat_get c s = (s', fatv s c) \<and> same_disk s s' \<and> fat_good s'"
proof -
  let ?l = "fat_start_lba s + c * 4 div 512"
  have "?l \<noteq> 0xFFFFFFFF"
    using table_lba(2) [OF assms(1) _ entry_place(1) [OF assms]] entry_place(3) [OF assms] by simp
  from read_sector_good [OF assms(1) this] show ?thesis
    by (auto simp: fat_get_def fatv_def Let_def)
qed

section \<open>Storing an entry\<close>

lemma length_put_fat [simp]: "length (put_fat b i v) = length b"
  by (simp add: put_fat_def Let_def)

lemma fat_mask: "(0x0FFFFFFF :: u32) = mask 28"
  by (simp add: mask_eq_exp_minus_1)

lemma mask_F0: "(0xF0 :: u32) = push_bit 4 (mask 4)"
  by (simp add: mask_eq_exp_minus_1 push_bit_eq_mult)

lemma get32_put_fat_same:
  assumes "i + 3 < length b"
  shows "get32 (put_fat b i v) i AND 0x0FFFFFFF = v AND 0x0FFFFFFF"
proof (rule bit_word_eqI)
  fix n assume n: "n < LENGTH(32)"
  have b0: "put_fat b i v ! i = ucast v" "put_fat b i v ! (i + 1) = ucast (drop_bit 8 v)"
    "put_fat b i v ! (i + 2) = ucast (drop_bit 16 v)"
    "put_fat b i v ! (i + 3) = ucast (drop_bit 24 v OR drop_bit 24 (push_bit 24
       (ucast (b ! (i + 3)) AND 0xF0 :: u32)))"
    using assms by (simp_all add: put_fat_def Let_def nth_list_update)
  consider "n < 8" | "8 \<le> n" "n < 16" | "16 \<le> n" "n < 24" | "24 \<le> n" "n < 28" | "28 \<le> n" by linarith
  then show "bit (get32 (put_fat b i v) i AND 0x0FFFFFFF) n = bit (v AND 0x0FFFFFFF) n"
  proof cases
    case 1
    then show ?thesis using b0(1) by (simp add: bit_and_iff get32_bit bit_simps)
  next
    case 2
    then have "n div 8 = 1" "n mod 8 = n - 8" "n - 8 < 8" by presburger+
    with 2 b0(2) show ?thesis by (simp add: bit_and_iff get32_bit bit_simps)
  next
    case 3
    then have "n div 8 = 2" "n mod 8 = n - 16" "n - 16 < 8" by presburger+
    with 3 b0(3) show ?thesis by (simp add: bit_and_iff get32_bit bit_simps)
  next
    case 4
    then have "n div 8 = 3" "n mod 8 = n - 24" "n - 24 < 8" by presburger+
    with 4 b0(4) show ?thesis by (simp add: bit_and_iff get32_bit bit_simps mask_F0)
  next
    case 5
    then show ?thesis by (simp add: bit_and_iff fat_mask bit_mask_iff)
  qed
qed

lemma get32_cong:
  "(\<And>k. k < 4 \<Longrightarrow> a ! (i + k) = b ! (i + k)) \<Longrightarrow> get32 a i = get32 b i"
  by (rule bit_word_eqI) (simp add: get32_bit div_less_iff_less_mult)

lemma get32_put_fat_other:
  assumes "i + 4 \<le> j \<or> j + 4 \<le> i"
  shows "get32 (put_fat b i v) j = get32 b j"
  by (rule get32_cong) (use assms in \<open>auto simp: put_fat_def Let_def nth_list_update\<close>)

lemma set_copy_good:
  assumes "fat_good s" "unat c < fat_limit s" "n = 0 \<or> n = 1"
  defines "l \<equiv> fat_start_lba s + n * fat_size_sectors s + c * 4 div 512"
  shows "\<exists>s'. fat_set_copy n c v s = (s', True) \<and> fat_good s'
    \<and> same_disk (s\<lparr>sectors := (sectors s)(l := put_fat (sectors s l) (unat (c * 4 mod 512)) v)\<rparr>) s'"
proof -
  have "unat (n * fat_size_sectors s) = unat n * unat (fat_size_sectors s)"
    using assms(1,3) by auto
  moreover have "unat n * unat (fat_size_sectors s) + unat c div 128 < 2 * unat (fat_size_sectors s)"
    using assms(3) entry_place(3) [OF assms(1,2)] by auto
  moreover have "unat (fat_size_sectors s) \<le> 2 ^ 21" using assms(1) by (simp add: fat_good_def)
  ultimately have "unat (n * fat_size_sectors s + c * 4 div 512) < 2 * unat (fat_size_sectors s)"
    using entry_place(1) [OF assms(1,2)] by (subst unat_plus_if) simp_all
  from table_lba(2) [OF assms(1) this refl] have "l \<noteq> 0xFFFFFFFF" by (simp add: l_def add.assoc)
  from read_sector_good [OF assms(1) this] obtain t where t: "fat_read_sector l s = (t, True)"
    "same_disk s t" "fat_good t" "fat_cache t = sectors s l" "fat_cache_lba t = l" by blast
  with \<open>l \<noteq> 0xFFFFFFFF\<close> show ?thesis
    by (auto simp: fat_set_copy_def Let_def l_def [symmetric] fat_flush_cache_def ata_write_def
        fat_good_def same_disk_def)
qed

text \<open>
  What \<^verbatim>\<open>fat_set\<close> does to the volume: the entry changes in the first table, other entries stay,
  and nothing outside the two tables is touched.
\<close>

definition table_step :: "fat \<Rightarrow> (u32 \<Rightarrow> u32) \<Rightarrow> fat \<Rightarrow> bool" where
  "table_step s f s' \<longleftrightarrow> fat_good s' \<and> (\<forall>x. unat x < fat_limit s \<longrightarrow> fatv s' x = f x)
     \<and> (\<exists>m. same_disk (s\<lparr>sectors := m\<rparr>) s'
          \<and> (\<forall>l. unat l < unat (fat_start_lba s)
               \<or> unat (fat_start_lba s) + 2 * unat (fat_size_sectors s) \<le> unat l \<longrightarrow> m l = sectors s l))"

lemma table_stepD:
  assumes "table_step s f s'"
  shows "fat_good s'" "unat x < fat_limit s \<Longrightarrow> fatv s' x = f x"
    "unat (fat_start_lba s) + 2 * unat (fat_size_sectors s) \<le> unat l \<Longrightarrow> sectors s' l = sectors s l"
    "fat_start_lba s' = fat_start_lba s" "fat_size_sectors s' = fat_size_sectors s"
    "sector_count s' = sector_count s" "sectors_per_clust s' = sectors_per_clust s"
    "bytes_per_clust s' = bytes_per_clust s" "data_start_lba s' = data_start_lba s"
    "root_cluster s' = root_cluster s" "mounted s' = mounted s" "fheap s' = fheap s"
    "fat_limit s' = fat_limit s" "bad s' = bad s" "disk_present s' = disk_present s"
  using assms unfolding table_step_def by (auto dest: same_diskD simp: fat_limit_def)

lemma table_step_same:
  assumes "same_disk s s'" "fat_good s'"
  shows "table_step s (fatv s) s'"
  using assms unfolding table_step_def
  by (intro conjI exI [of _ "sectors s"]) simp_all

lemma table_step_trans:
  assumes a: "table_step s f t" and b: "table_step t g u"
  shows "table_step s g u"
proof -
  obtain m n where m: "same_disk (s\<lparr>sectors := m\<rparr>) t"
    "\<forall>l. unat l < unat (fat_start_lba s)
      \<or> unat (fat_start_lba s) + 2 * unat (fat_size_sectors s) \<le> unat l \<longrightarrow> m l = sectors s l"
    and n: "same_disk (t\<lparr>sectors := n\<rparr>) u"
    "\<forall>l. unat l < unat (fat_start_lba s)
      \<or> unat (fat_start_lba s) + 2 * unat (fat_size_sectors s) \<le> unat l \<longrightarrow> n l = sectors t l"
    using a b table_stepD(4,5) [OF a] unfolding table_step_def by metis
  have st: "sectors t = m" using same_diskD(1) [OF m(1)] by simp
  have "same_disk (s\<lparr>sectors := n\<rparr>) u"
    using m(1) n(1) unfolding same_disk_def by (cases s, cases t, cases u) simp
  moreover have "\<forall>l. unat l < unat (fat_start_lba s)
      \<or> unat (fat_start_lba s) + 2 * unat (fat_size_sectors s) \<le> unat l \<longrightarrow> n l = sectors s l"
    using m(2) n(2) by (simp add: st)
  moreover have "fat_good u" "\<forall>x. unat x < fat_limit s \<longrightarrow> fatv u x = g x"
    using b table_stepD(13) [OF a] unfolding table_step_def by simp_all
  ultimately show ?thesis unfolding table_step_def by blast
qed

lemma table_step_cong:
  "table_step s f t \<Longrightarrow> (\<And>x. unat x < fat_limit s \<Longrightarrow> f x = g x) \<Longrightarrow> table_step s g t"
  unfolding table_step_def by simp

text \<open>Two entries in different places do not overlap.\<close>

lemma entry_apart:
  fixes c x :: u32
  assumes "fat_good s" "unat c < fat_limit s" "unat x < fat_limit s" "x \<noteq> c"
    and eq: "fat_start_lba s + c * 4 div 512 = fat_start_lba s + x * 4 div 512"
  shows "unat (c * 4 mod 512) + 4 \<le> unat (x * 4 mod 512)
    \<or> unat (x * 4 mod 512) + 4 \<le> unat (c * 4 mod 512)"
proof -
  have "unat (c * 4 div 512) = unat (x * 4 div 512)"
    using arg_cong [OF eq, of "\<lambda>w. w - fat_start_lba s"] by simp
  then have d: "unat c div 128 = unat x div 128"
    using entry_place(1) [OF assms(1)] assms(2,3) by simp
  have "unat c \<noteq> unat x" using assms(4) by (simp add: word_unat_eq_iff)
  then have "unat c mod 128 \<noteq> unat x mod 128"
    using d div_mult_mod_eq [of "unat c" 128] div_mult_mod_eq [of "unat x" 128] by metis
  then show ?thesis
    using entry_place(2) [OF assms(1)] assms(2,3) by fastforce
qed

lemma fatv_update_first:
  fixes c x :: u32
  assumes "fat_good s" "unat c < fat_limit s" "unat x < fat_limit s"
    and m: "m (fat_start_lba s + c * 4 div 512)
      = put_fat (sectors s (fat_start_lba s + c * 4 div 512)) (unat (c * 4 mod 512)) v"
    "\<And>l. unat l < unat (fat_start_lba s) + unat (fat_size_sectors s) \<Longrightarrow>
       l \<noteq> fat_start_lba s + c * 4 div 512 \<Longrightarrow> m l = sectors s l"
  shows "fatv (s\<lparr>sectors := m\<rparr>) x = (if x = c then v AND 0x0FFFFFFF else fatv s x)"
proof -
  have len: "length (sectors s l) = 512" for l using assms(1) by (simp add: fat_good_def)
  have i: "unat (c * 4 mod 512) + 3 < 512" using entry_place(2) [OF assms(1,2)] by simp
  show ?thesis
  proof (cases "fat_start_lba s + c * 4 div 512 = fat_start_lba s + x * 4 div 512")
    case True
    show ?thesis
    proof (cases "x = c")
      case True
      then show ?thesis using i by (simp add: fatv_def m(1) get32_put_fat_same len)
    next
      case False
      from entry_apart [OF assms(1-3) False True] have
        "get32 (put_fat (sectors s (fat_start_lba s + c * 4 div 512)) (unat (c * 4 mod 512)) v)
          (unat (x * 4 mod 512)) = get32 (sectors s (fat_start_lba s + c * 4 div 512)) (unat (x * 4 mod 512))"
        by (rule get32_put_fat_other)
      with False True m(1) show ?thesis by (simp add: fatv_def)
    qed
  next
    case False
    have "unat (fat_start_lba s + x * 4 div 512) < unat (fat_start_lba s) + unat (fat_size_sectors s)"
      using table_lba(1) [OF assms(1) _ entry_place(1) [OF assms(1,3)]] entry_place(3) [OF assms(1,3)] by simp
    with False m(2) have "m (fat_start_lba s + x * 4 div 512) = sectors s (fat_start_lba s + x * 4 div 512)"
      by metis
    with False show ?thesis by (auto simp: fatv_def)
  qed
qed

lemma fat_set_good:
  assumes "fat_good s" "unat c < fat_limit s"
  shows "\<exists>s'. fat_set c v s = (s', True)
    \<and> table_step s ((fatv s)(c := v AND 0x0FFFFFFF)) s'"
proof -
  let ?v = "v AND 0x0FFFFFFF" and ?i = "unat (c * 4 mod 512)"
  let ?l0 = "fat_start_lba s + c * 4 div 512" and ?l1 = "fat_start_lba s + fat_size_sectors s + c * 4 div 512"
  obtain s1 where s1: "fat_set_copy 0 c ?v s = (s1, True)" "fat_good s1"
    "same_disk (s\<lparr>sectors := (sectors s)(?l0 := put_fat (sectors s ?l0) ?i ?v)\<rparr>) s1"
    using set_copy_good [OF assms, of 0 ?v] by auto
  note d1 = same_diskD [OF s1(3), simplified]
  have lim1: "unat c < fat_limit s1" using assms(2) d1 by (simp add: fat_limit_def)
  obtain s2 where s2: "fat_set_copy 1 c ?v s1 = (s2, True)" "fat_good s2"
    "same_disk (s1\<lparr>sectors := (sectors s1)(?l1 := put_fat (sectors s1 ?l1) ?i ?v)\<rparr>) s2"
    using set_copy_good [OF s1(2) lim1, of 1 ?v] d1 by auto
  define m where "m = (sectors s1)(?l1 := put_fat (sectors s1 ?l1) ?i ?v)"
  have sd: "same_disk (s\<lparr>sectors := m\<rparr>) s2"
    using s1(3) s2(3) unfolding m_def [symmetric] same_disk_def by (cases s, cases s1, cases s2) simp
  have e: "unat c div 128 < unat (fat_size_sectors s)" by (rule entry_place(3) [OF assms])
  have u0: "unat ?l0 = unat (fat_start_lba s) + unat c div 128"
    using table_lba(1) [OF assms(1) _ entry_place(1) [OF assms]] e by simp
  have sz: "unat (fat_size_sectors s) \<le> 2 ^ 21" using assms(1) by (simp add: fat_good_def)
  have u1: "unat ?l1 = unat (fat_start_lba s) + (unat (fat_size_sectors s) + unat c div 128)"
    unfolding add.assoc
    by (rule table_lba(1) [OF assms(1)])
      (use e sz entry_place(1) [OF assms] in \<open>simp_all add: unat_plus_if\<close>)
  have ne: "?l1 \<noteq> ?l0" using u0 u1 e by (metis add.left_commute add_left_cancel less_nat_zero_code add.right_neutral)
  have fv: "fatv s2 x = ((fatv s)(c := ?v)) x" if "unat x < fat_limit s" for x
  proof -
    have "fatv s2 x = fatv (s\<lparr>sectors := m\<rparr>) x" using sd by simp
    also have "\<dots> = (if x = c then ?v AND 0x0FFFFFFF else fatv s x)"
      by (rule fatv_update_first [OF assms that])
        (use ne u1 in \<open>auto simp: m_def d1(1)\<close>)
    finally show ?thesis by (simp add: and.assoc)
  qed
  have out: "\<forall>l. unat l < unat (fat_start_lba s)
      \<or> unat (fat_start_lba s) + 2 * unat (fat_size_sectors s) \<le> unat l \<longrightarrow> m l = sectors s l"
    using u0 u1 e by (auto simp: m_def d1(1))
  have "fat_set c v s = (s2, True)"
    using s1(1) s2(1) by (simp add: fat_set_def Let_def)
  with s2(2) fv sd out show ?thesis unfolding table_step_def by blast
qed

section \<open>Chains\<close>

text \<open>The clusters of a chain, in order, up to the first number that is not a cluster.\<close>

fun is_chain :: "(u32 \<Rightarrow> u32) \<Rightarrow> u32 \<Rightarrow> u32 list \<Rightarrow> bool" where
  "is_chain f c [] \<longleftrightarrow> \<not> (2 \<le> c \<and> c < FAT32_EOF)"
| "is_chain f c (x # xs) \<longleftrightarrow> c = x \<and> 2 \<le> x \<and> x < FAT32_EOF \<and> is_chain f (f x) xs"

lemma is_chain_unique: "is_chain f c xs \<Longrightarrow> is_chain f c ys \<Longrightarrow> xs = ys"
proof (induction xs arbitrary: c ys)
  case Nil
  then show ?case by (cases ys) auto
next
  case (Cons x xs)
  then show ?case by (cases ys) auto
qed

lemma is_chain_append: "is_chain f c (xs @ y # ys) \<Longrightarrow> is_chain f y (y # ys)"
  by (induction xs arbitrary: c) auto

text \<open>A chain that ends visits no cluster twice.\<close>

lemma is_chain_distinct: "is_chain f c xs \<Longrightarrow> distinct xs"
proof (induction xs arbitrary: c)
  case (Cons x xs)
  have "x \<notin> set xs"
  proof
    assume "x \<in> set xs"
    then obtain ys zs where d: "xs = ys @ x # zs" by (auto simp: in_set_conv_decomp)
    have "is_chain f x (x # zs)"
      by (rule is_chain_append [of f c "x # ys"]) (use Cons.prems d in simp)
    moreover have "is_chain f x (x # xs)" using Cons.prems by simp
    ultimately have "zs = xs" using is_chain_unique by blast
    with d have "length zs = length (ys @ x # zs)" by simp
    then show False by simp
  qed
  with Cons show ?case by auto
qed simp

lemma is_chain_cong: "(\<And>x. x \<in> set xs \<Longrightarrow> f x = g x) \<Longrightarrow> is_chain f c xs = is_chain g c xs"
  by (induction xs arbitrary: c) auto

lemma free_chain_good:
  assumes "fat_good s" "is_chain (fatv s) c xs" "\<forall>x \<in> set xs. unat x < fat_limit s"
  shows "\<exists>s'. fat_free_chain c s = Some s'
    \<and> table_step s (\<lambda>x. if x \<in> set xs then 0 else fatv s x) s'"
  using assms
proof (induction xs arbitrary: c s)
  case Nil
  then show ?case
    using table_step_same [OF same_disk_refl Nil.prems(1)] fat_free_chain.simps [of c s] by auto
next
  case (Cons x xs)
  have c: "c = x" "2 \<le> x" "x < FAT32_EOF" "is_chain (fatv s) (fatv s x) xs" "unat x < fat_limit s"
    using Cons.prems by simp_all
  obtain s1 where s1: "fat_get x s = (s1, fatv s x)" "same_disk s s1" "fat_good s1"
    using fat_get_good [OF Cons.prems(1) c(5)] by blast
  have "unat x < fat_limit s1" using s1(2) c(5) by simp
  from fat_set_good [OF s1(3) this, of 0] obtain s2 where
    s2: "fat_set x 0 s1 = (s2, True)" "table_step s1 ((fatv s1)(x := 0)) s2" by auto
  have t2: "table_step s ((fatv s)(x := 0)) s2"
    using table_step_trans [OF table_step_same [OF s1(2,3)] s2(2)] s1(2) by simp
  note d2 = table_stepD [OF t2]
  have nx: "x \<notin> set xs" using is_chain_distinct [OF Cons.prems(2)] by simp
  have lim: "\<forall>y \<in> set xs. unat y < fat_limit s2" using Cons.prems(3) d2(13) by simp
  have "is_chain (fatv s2) (fatv s x) xs"
    using c(4) is_chain_cong [of xs "fatv s2" "fatv s"] d2(2) nx Cons.prems(3) by fastforce
  from Cons.IH [OF d2(1) this lim] obtain s' where
    s': "fat_free_chain (fatv s x) s2 = Some s'"
    "table_step s2 (\<lambda>y. if y \<in> set xs then 0 else fatv s2 y) s'" by blast
  have "fat_free_chain c s = Some s'"
    using c(1-3) s1(1) s2(1) s'(1) by (subst fat_free_chain.simps) simp
  moreover have "table_step s (\<lambda>y. if y \<in> set (x # xs) then 0 else fatv s y) s'"
    by (rule table_step_cong [OF table_step_trans [OF t2 s'(2)]]) (use c(5) in \<open>auto simp: d2(2)\<close>)
  ultimately show ?case by blast
qed

section \<open>Allocation\<close>

lemma alloc_scan_good:
  assumes "fat_good s" "unat c + n \<le> fat_limit s"
  shows "(\<forall>k < n. fatv s (c + of_nat k) \<noteq> 0) \<and> (\<exists>s'. alloc_scan n c s = (s', 0) \<and> table_step s (fatv s) s')
    \<or> (\<exists>k s'. k < n \<and> fatv s (c + of_nat k) = 0 \<and> (\<forall>j < k. fatv s (c + of_nat j) \<noteq> 0)
        \<and> alloc_scan n c s = (s', c + of_nat k)
        \<and> table_step s ((fatv s)(c + of_nat k := FAT32_EOF)) s')"
  using assms
proof (induction n arbitrary: c s)
  case 0
  then show ?case using table_step_same [OF same_disk_refl] by simp
next
  case (Suc n)
  have lc: "unat c < fat_limit s" using Suc.prems(2) by simp
  obtain s1 where s1: "fat_get c s = (s1, fatv s c)" "same_disk s s1" "fat_good s1"
    using fat_get_good [OF Suc.prems(1) lc] by blast
  have t1: "table_step s (fatv s) s1" by (rule table_step_same [OF s1(2,3)])
  have lc1: "unat c < fat_limit s1" using lc s1(2) by simp
  show ?case
  proof (cases "fatv s c = 0")
    case True
    obtain s2 where s2: "fat_set c FAT32_EOF s1 = (s2, True)"
      "table_step s1 ((fatv s1)(c := FAT32_EOF AND 0x0FFFFFFF)) s2"
      using fat_set_good [OF s1(3) lc1] by blast
    then have "table_step s ((fatv s)(c := FAT32_EOF)) s2"
      using table_step_trans [OF t1 s2(2)] s1(2) by (simp add: FAT32_EOF_def)
    with True s1(1) s2(1) show ?thesis by (intro disjI2 exI [of _ 0] exI [of _ s2]) (simp add: fun_upd_def)
  next
    case False
    have uc: "unat (c + 1) = unat c + 1"
      using lc Suc.prems(1) by (intro unat_plus_one) (auto simp: fat_limit_def fat_good_def)
    then have "unat (c + 1) + n \<le> fat_limit s1" using Suc.prems(2) s1(2) by simp
    note ih = Suc.IH [OF s1(3) this]
    have sh: "c + 1 + of_nat j = c + of_nat (Suc j)" for j by simp
    have run: "alloc_scan (Suc n) c s = alloc_scan n (c + 1) s1" using s1(1) False by simp
    from ih show ?thesis
    proof (elim disjE exE conjE)
      fix s' assume a: "\<forall>k < n. fatv s1 (c + 1 + of_nat k) \<noteq> 0" "alloc_scan n (c + 1) s1 = (s', 0)"
        "table_step s1 (fatv s1) s'"
      have "\<forall>k < Suc n. fatv s (c + of_nat k) \<noteq> 0"
        using a(1) False s1(2) unfolding sh by (auto simp: less_Suc_eq_0_disj)
      moreover have "table_step s (fatv s) s'" using table_step_trans [OF t1 a(3)] s1(2) by simp
      ultimately show ?thesis using run a(2) by metis
    next
      fix k s' assume a: "k < n" "fatv s1 (c + 1 + of_nat k) = 0" "\<forall>j < k. fatv s1 (c + 1 + of_nat j) \<noteq> 0"
        "alloc_scan n (c + 1) s1 = (s', c + 1 + of_nat k)"
        "table_step s1 ((fatv s1)(c + 1 + of_nat k := FAT32_EOF)) s'"
      have "\<forall>j < Suc k. fatv s (c + of_nat j) \<noteq> 0"
        using a(3) False s1(2) unfolding sh by (auto simp: less_Suc_eq_0_disj)
      moreover have "table_step s ((fatv s)(c + of_nat (Suc k) := FAT32_EOF)) s'"
        using table_step_trans [OF t1 a(5)] s1(2) by (simp add: algebra_simps)
      moreover have "fatv s (c + of_nat (Suc k)) = 0" using a(2) s1(2) by (simp add: algebra_simps)
      moreover have "alloc_scan (Suc n) c s = (s', c + of_nat (Suc k))"
        using run a(4) by (simp add: algebra_simps)
      ultimately show ?thesis using a(1)
        by (intro disjI2 exI [of _ "Suc k"] exI [of _ s']) (simp add: fun_upd_def)
    qed
  qed
qed

text \<open>The clusters the search looks at.\<close>

definition scanned :: "fat \<Rightarrow> u32 \<Rightarrow> bool" where
  "scanned s c \<longleftrightarrow> 2 \<le> c \<and> c < sector_count s div sectors_per_clust s"

lemma scanned_iff:
  fixes m :: u32
  shows "(2 \<le> c \<and> c < m) \<longleftrightarrow> (\<exists>k < unat m - 2. c = 2 + of_nat k)"
proof
  assume "2 \<le> c \<and> c < m"
  then have "2 \<le> unat c" "unat c < unat m" by (simp_all add: word_le_nat_alt word_less_nat_alt)
  then have "c = 2 + of_nat (unat c - 2)" "unat c - 2 < unat m - 2"
    by (simp_all add: of_nat_diff)
  then show "\<exists>k < unat m - 2. c = 2 + of_nat k" by blast
next
  assume "\<exists>k < unat m - 2. c = 2 + of_nat k"
  then obtain k where k: "k < unat m - 2" "c = 2 + of_nat k" by blast
  have "k < 2 ^ 32" using k(1) unat_lt32 [of m] by simp
  then have "unat c = 2 + k"
    using k unat_lt32 [of m] by (simp add: unat_of_nat32 unat_plus_if)
  with k show "2 \<le> c \<and> c < m" by (simp add: word_le_nat_alt word_less_nat_alt)
qed

lemma alloc_good:
  assumes g: "fat_good s" and spc: "sectors_per_clust s \<noteq> 0"
    and lim: "unat (sector_count s div sectors_per_clust s) \<le> fat_limit s" "2 \<le> fat_limit s"
  shows "(\<forall>c. scanned s c \<longrightarrow> fatv s c \<noteq> 0)
      \<and> (\<exists>s'. fat_alloc_cluster s = Some (s', 0) \<and> table_step s (fatv s) s')
    \<or> (\<exists>c s'. scanned s c \<and> fatv s c = 0 \<and> fat_alloc_cluster s = Some (s', c)
        \<and> table_step s ((fatv s)(c := FAT32_EOF)) s')"
proof -
  let ?m = "sector_count s div sectors_per_clust s"
  have "unat (2 :: u32) + (unat ?m - 2) \<le> fat_limit s" using lim by simp
  from alloc_scan_good [OF g this] show ?thesis
    unfolding scanned_def scanned_iff
    by (elim disjE exE conjE) (use spc in \<open>auto simp: fat_alloc_cluster_def\<close>)
qed

section \<open>The contents of a file\<close>

definition cluster_bytes :: "fat \<Rightarrow> u32 \<Rightarrow> bytes" where
  "cluster_bytes s c = concat (map (\<lambda>i. sectors s (cluster_to_lba c s + of_nat i))
     [0..<unat (sectors_per_clust s)])"

definition file_data :: "fat \<Rightarrow> u32 list \<Rightarrow> bytes" where
  "file_data s cs = concat (map (cluster_bytes s) cs)"

text \<open>A mounted volume: a cluster has at least one sector and its size in bytes is right.\<close>

definition geometry :: "fat \<Rightarrow> bool" where
  "geometry s \<longleftrightarrow> mounted s \<and> 0 < unat (sectors_per_clust s) \<and> unat (sectors_per_clust s) < 256
     \<and> bytes_per_clust s = sectors_per_clust s * 512"

lemma geometry_bytes: "geometry s \<Longrightarrow> unat (bytes_per_clust s) = unat (sectors_per_clust s) * 512"
  by (auto simp: geometry_def unat_mult_lt)

lemma read_sectors_good:
  "fat_good s \<Longrightarrow> read_sectors n l s = Some (concat (map (\<lambda>i. sectors s (l + of_nat i)) [0..<n]))"
proof (induction n arbitrary: l)
  case (Suc n)
  have "ata_read l s = Some (sectors s l)" using Suc.prems by (simp add: ata_read_def fat_good_def)
  with Suc show ?case
    by (simp add: upt_conv_Cons map_Suc_upt [symmetric] o_def algebra_simps del: upt_Suc)
qed simp

lemma cluster_read_good: "fat_good s \<Longrightarrow> cluster_read c s = Some (cluster_bytes s c)"
  by (simp add: cluster_read_def read_sectors_good cluster_bytes_def)

lemma length_cluster_bytes:
  assumes "fat_good s" "geometry s"
  shows "length (cluster_bytes s c) = unat (bytes_per_clust s)"
proof -
  have "length (concat (map (\<lambda>i. sectors s (l + of_nat i)) [0..<n])) = n * 512" for n l
    using assms(1) by (induction n) (simp_all add: fat_good_def)
  then show ?thesis by (simp add: cluster_bytes_def geometry_bytes [OF assms(2)])
qed

lemma length_file_data:
  "fat_good s \<Longrightarrow> geometry s \<Longrightarrow> length (file_data s cs) = length cs * unat (bytes_per_clust s)"
  by (induction cs) (simp_all add: file_data_def length_cluster_bytes)

lemma same_disk_bytes: "same_disk s t \<Longrightarrow> cluster_bytes t = cluster_bytes s"
  by (simp add: fun_eq_iff cluster_bytes_def cluster_to_lba_def same_diskD)

lemma same_disk_geometry: "same_disk s t \<Longrightarrow> geometry t = geometry s"
  by (simp add: geometry_def same_diskD)

lemma read_loop_good:
  assumes "fat_good s" "geometry s" "is_chain (fatv s) c cs" "\<forall>x \<in> set cs. unat x < fat_limit s"
    and "unat off < unat (bytes_per_clust s)" "unat off + unat sz \<le> length cs * unat (bytes_per_clust s)"
  shows "\<exists>s'. same_disk s s' \<and> read_loop sz c off acc s
    = Some (s', sint (of_nat (length acc + unat sz) :: u32), acc @ take (unat sz) (drop (unat off) (file_data s cs)))"
  using assms
proof (induction cs arbitrary: c off sz acc s)
  case Nil
  then have "sz = 0" by (simp add: unat_eq_zero)
  then show ?case by (subst read_loop.simps) auto
next
  case (Cons x cs)
  note len = length_cluster_bytes [OF Cons.prems(1,2)]
  let ?bpc = "bytes_per_clust s"
  have c: "c = x" "2 \<le> x" "x < FAT32_EOF" "is_chain (fatv s) (fatv s x) cs" "unat x < fat_limit s"
    using Cons.prems by simp_all
  show ?case
  proof (cases "sz = 0")
    case True
    then show ?thesis by (subst read_loop.simps) auto
  next
    case False
    obtain s1 where s1: "fat_get x s = (s1, fatv s x)" "same_disk s s1" "fat_good s1"
      using fat_get_good [OF Cons.prems(1) c(5)] by blast
    define m where "m = (if sz < ?bpc - off then sz else ?bpc - off)"
    have av: "unat (?bpc - off) = unat ?bpc - unat off"
      using Cons.prems(5) by (intro unat_minus_le) (simp add: word_le_nat_alt)
    have m: "unat m = min (unat sz) (unat ?bpc - unat off)"
      unfolding m_def by (simp add: av word_less_nat_alt min_def)
    have sm: "unat (sz - m) = unat sz - unat m"
      using m by (intro unat_minus_le) (simp add: word_le_nat_alt)
    have run: "read_loop sz c off acc s
        = read_loop (sz - m) (fatv s x) 0 (acc @ take (unat m) (drop (unat off) (cluster_bytes s x))) s1"
      using False c s1(1) cluster_read_good [OF Cons.prems(1)]
      by (subst read_loop.simps) (simp add: m_def Let_def word_neq_0_conv)
    have g1: "geometry s1" "bytes_per_clust s1 = ?bpc" "fatv s1 = fatv s" "fat_limit s1 = fat_limit s"
      "file_data s1 cs = file_data s cs"
      using s1(2) Cons.prems(2) same_disk_bytes [OF s1(2)]
      by (simp_all add: same_disk_geometry same_diskD file_data_def)
    have ch: "is_chain (fatv s1) (fatv s x) cs" "\<forall>y \<in> set cs. unat y < fat_limit s1"
      using c(4) Cons.prems(4) g1 by simp_all
    have z: "unat (0 :: u32) < unat (bytes_per_clust s1)" using Cons.prems(5) g1(2) by simp
    have le: "unat (0 :: u32) + unat (sz - m) \<le> length cs * unat (bytes_per_clust s1)"
      using Cons.prems(6) sm m g1(2) Cons.prems(5) by (simp add: min_def split: if_splits)
    from Cons.IH [OF s1(3) g1(1) ch z le,
        of "acc @ take (unat m) (drop (unat off) (cluster_bytes s x))"] obtain s' where s': "same_disk s1 s'"
      "read_loop (sz - m) (fatv s x) 0 (acc @ take (unat m) (drop (unat off) (cluster_bytes s x))) s1
       = Some (s', sint (of_nat (length (acc @ take (unat m) (drop (unat off) (cluster_bytes s x)))
            + unat (sz - m)) :: u32),
          (acc @ take (unat m) (drop (unat off) (cluster_bytes s x))) @ take (unat (sz - m)) (file_data s cs))"
      unfolding g1(5) by auto
    have tk: "take (unat sz) (drop (unat off) (file_data s (x # cs)))
        = take (unat m) (drop (unat off) (cluster_bytes s x)) @ take (unat (sz - m)) (file_data s cs)"
      using Cons.prems(5) by (auto simp: file_data_def len sm m min_def)
    have lt: "length (take (unat m) (drop (unat off) (cluster_bytes s x))) + unat (sz - m) = unat sz"
      using m sm by (simp add: len min_def)
    have eq: "length (acc @ take (unat m) (drop (unat off) (cluster_bytes s x))) + unat (sz - m)
        = length acc + unat sz" using lt by (simp only: length_append add.assoc)
    show ?thesis
      unfolding run s'(2) [unfolded eq] tk append_assoc
      using same_disk_trans [OF s1(2) s'(1)] by blast
  qed
qed

lemma walk_good:
  assumes "fat_good s" "is_chain (fatv s) c cs" "\<forall>x \<in> set cs. unat x < fat_limit s" "n < length cs"
  shows "\<exists>s'. walk n c s = (s', cs ! n) \<and> same_disk s s' \<and> fat_good s'
    \<and> is_chain (fatv s) (cs ! n) (drop n cs)"
  using assms
proof (induction n arbitrary: c cs s)
  case 0
  then show ?case by (cases cs) (auto intro: exI [of _ s])
next
  case (Suc n)
  then obtain x xs where cs: "cs = x # xs" by (cases cs) auto
  have c: "c = x" "x < FAT32_EOF" "is_chain (fatv s) (fatv s x) xs" "unat x < fat_limit s"
    using Suc.prems cs by simp_all
  obtain s1 where s1: "fat_get x s = (s1, fatv s x)" "same_disk s s1" "fat_good s1"
    using fat_get_good [OF Suc.prems(1) c(4)] by blast
  have "is_chain (fatv s1) (fatv s x) xs" "\<forall>y \<in> set xs. unat y < fat_limit s1" "n < length xs"
    using c(3) Suc.prems(3,4) cs s1(2) by simp_all
  from Suc.IH [OF s1(3) this] obtain s' where "walk n (fatv s x) s1 = (s', xs ! n)" "same_disk s1 s'"
    "fat_good s'" "is_chain (fatv s1) (xs ! n) (drop n xs)" by blast
  then show ?case using c(1,2) s1 cs same_disk_trans by auto
qed

section \<open>Buffers\<close>

definition has_buffer :: "fat \<Rightarrow> chunk list \<Rightarrow> bool" where
  "has_buffer s hs \<longleftrightarrow> heap_rep (fheap s) hs \<and> coalesced hs
     \<and> (\<exists>c \<in> set hs. fits (unat (round8 (bytes_per_clust s))) c)"

lemma buffer_good:
  assumes "geometry s" "has_buffer s hs"
  shows "\<exists>h p. kmalloc (fheap s) (bytes_per_clust s) = Some (h, p) \<and> p \<noteq> 0 \<and> heap_rep (kfree h p) hs"
proof -
  have b: "bytes_per_clust s \<noteq> 0" "unat (bytes_per_clust s) + 7 < 2 ^ 32"
    using assms(1) geometry_bytes [OF assms(1)] by (auto simp: geometry_def)
  from kmalloc_block [OF _ _ b] assms(2) obtain h p where
    "kmalloc (fheap s) (bytes_per_clust s) = Some (h, p)" "p \<noteq> 0"
    unfolding has_buffer_def by meson
  with kfree_undoes_kmalloc [OF _ _ b(1)] assms(2) show ?thesis unfolding has_buffer_def by blast
qed

lemma cluster_bytes_heap [simp]: "cluster_bytes (s\<lparr>fheap := h\<rparr>) = cluster_bytes s"
  by (simp add: fun_eq_iff cluster_bytes_def cluster_to_lba_def)

lemma heap_irrelevant [simp]:
  "fat_good (s\<lparr>fheap := h\<rparr>) = fat_good s" "geometry (s\<lparr>fheap := h\<rparr>) = geometry s"
  "fatv (s\<lparr>fheap := h\<rparr>) = fatv s" "fat_limit (s\<lparr>fheap := h\<rparr>) = fat_limit s"
  "file_data (s\<lparr>fheap := h\<rparr>) cs = file_data s cs"
  by (simp_all add: fat_good_def geometry_def fun_eq_iff fatv_def fat_limit_def file_data_def)

lemma with_buf_good:
  assumes "geometry s" "has_buffer s hs"
    and "\<And>h. \<exists>s'. body (s\<lparr>fheap := h\<rparr>) = Some (s', r) \<and> fheap s' = h \<and> Q s' \<and> (\<forall>k. Q (s'\<lparr>fheap := k\<rparr>))"
  shows "\<exists>s'. with_buf fail body s = Some (s', r) \<and> heap_rep (fheap s') hs \<and> Q s'"
proof -
  obtain h p where h: "kmalloc (fheap s) (bytes_per_clust s) = Some (h, p)" "p \<noteq> 0"
    "heap_rep (kfree h p) hs" using buffer_good [OF assms(1,2)] by blast
  obtain s' where "body (s\<lparr>fheap := h\<rparr>) = Some (s', r)" "fheap s' = h" "\<forall>k. Q (s'\<lparr>fheap := k\<rparr>)"
    using assms(3) by blast
  with h show ?thesis by (simp add: with_buf_def)
qed

lemma file_data_drop:
  assumes "fat_good s" "geometry s" "k \<le> length cs" "n = k * unat (bytes_per_clust s) + j"
  shows "drop n (file_data s cs) = drop j (file_data s (drop k cs))"
proof -
  have "file_data s cs = file_data s (take k cs) @ file_data s (drop k cs)"
    using arg_cong [OF append_take_drop_id [of k cs], of "file_data s"]
    by (simp add: file_data_def flip: concat_append map_append)
  moreover have "length (file_data s (take k cs)) = k * unat (bytes_per_clust s)"
    using assms(3) by (simp add: length_file_data [OF assms(1,2)])
  ultimately show ?thesis unfolding assms(4) by simp
qed

text \<open>The walk to the cluster of an offset and the copies from there.\<close>

lemma read_body_good:
  assumes g: "fat_good s" "geometry s"
    and ch: "is_chain (fatv s) c cs" "\<forall>x \<in> set cs. unat x < fat_limit s"
    and sz: "unat off + unat m \<le> length cs * unat (bytes_per_clust s)" "0 < m"
  shows "\<exists>s'. (case walk (unat (off div bytes_per_clust s)) c s of
        (s1, c) \<Rightarrow> read_loop m c (off mod bytes_per_clust s) [] s1)
     = Some (s', sint m, take (unat m) (drop (unat off) (file_data s cs))) \<and> fheap s' = fheap s \<and> sectors s' = sectors s"
proof -
  let ?b = "unat (bytes_per_clust s)"
  let ?k = "unat off div ?b"
  let ?r = "off mod bytes_per_clust s"
  have b0: "0 < ?b" using geometry_bytes [OF g(2)] g(2) by (simp add: geometry_def)
  have off: "unat off = ?k * ?b + unat ?r" by (simp add: unat_mod)
  have "0 < unat m" using sz(2) by (simp add: word_less_nat_alt)
  then have k: "?k < length cs" using sz(1) b0 by (simp add: less_mult_imp_div_less)
  obtain s1 where s1: "walk ?k c s = (s1, cs ! ?k)" "same_disk s s1" "fat_good s1"
    "is_chain (fatv s) (cs ! ?k) (drop ?k cs)" using walk_good [OF g(1) ch k] by blast
  have s1g: "geometry s1" "is_chain (fatv s1) (cs ! ?k) (drop ?k cs)"
    "\<forall>x \<in> set (drop ?k cs). unat x < fat_limit s1" "bytes_per_clust s1 = bytes_per_clust s"
    using s1(2,4) g ch same_disk_geometry [OF s1(2)] by (auto simp: same_diskD dest: in_set_dropD)
  have o1: "unat ?r < unat (bytes_per_clust s1)" using b0 s1g(4) by (simp add: unat_mod)
  have o2: "unat ?r + unat m \<le> length (drop ?k cs) * unat (bytes_per_clust s1)"
    using off sz(1) k s1g(4) by (simp add: diff_mult_distrib)
  have fd: "file_data s1 (drop ?k cs) = file_data s (drop ?k cs)"
    using same_disk_bytes [OF s1(2)] by (simp add: file_data_def)
  obtain s2 where s2: "same_disk s1 s2"
    "read_loop m (cs ! ?k) ?r [] s1 = Some (s2, sint m, take (unat m) (drop (unat ?r) (file_data s (drop ?k cs))))"
    using read_loop_good [OF s1(3) s1g(1,2,3) o1 o2, of "[]"] fd by auto
  have "fheap s2 = fheap s" "sectors s2 = sectors s"
    using same_diskD(12) [OF s1(2)] same_diskD(12) [OF s2(1)] same_diskD(1) [OF s1(2)] same_diskD(1) [OF s2(1)] by simp_all
  with s1(1) s2(2) show ?thesis
    by (simp add: unat_div file_data_drop [OF g less_imp_le [OF k] off])
qed

lemma read_file_good:
  assumes g: "fat_good s" "geometry s" "has_buffer s hs" "fattr e AND ATTR_DIRECTORY = 0"
    and ch: "is_chain (fatv s) (fcluster e) cs" "\<forall>x \<in> set cs. unat x < fat_limit s"
    and sz: "unat (fsize e) \<le> length cs * unat (bytes_per_clust s)" "unat (fsize e) < 2 ^ 31"
    "unat off + unat n < 2 ^ 32"
  defines "d \<equiv> take (unat n) (drop (unat off) (take (unat (fsize e)) (file_data s cs)))"
  shows "\<exists>s'. fat32_read e off n s = Some (s', int (length d), d)
    \<and> heap_rep (fheap s') hs \<and> sectors s' = sectors s"
proof -
  have mo: "mounted s" using g(2) by (simp add: geometry_def)
  define m where "m = (if fsize e < off + n then fsize e - off else n)"
  have uo: "unat (off + n) = unat off + unat n" using sz(3) by (simp add: unat_plus_if)
  show ?thesis
  proof (cases "fsize e \<le> off \<or> m = 0")
    case True
    then have "d = []" by (auto simp: d_def m_def word_le_nat_alt split: if_splits)
    moreover have "fat32_read e off n s = Some (s, 0, [])"
      using True mo g(4) by (auto simp: fat32_read_def m_def Let_def)
    ultimately show ?thesis using g(3) by (simp add: has_buffer_def)
  next
    case False
    then have lt: "unat off < unat (fsize e)" by (simp add: word_le_nat_alt not_le)
    have um: "unat m = min (unat n) (unat (fsize e) - unat off)"
      using False uo lt by (auto simp: m_def word_less_nat_alt unat_minus_le word_le_nat_alt min_def)
    have d: "d = take (unat m) (drop (unat off) (file_data s cs))"
      using um by (simp add: d_def drop_take min.commute)
    have mz: "unat off + unat m \<le> length cs * unat (bytes_per_clust s)" "0 < m"
      using um sz(1) lt False by (simp_all add: word_neq_0_conv)
    have "unat m < 2 ^ 31" using um sz(2) by simp
    then have si: "sint m = int (length d)"
      using mz(1) by (simp add: d length_file_data [OF g(1,2)] sint_small32)
    have body: "\<exists>s'. (\<lambda>t. case walk (unat (off div bytes_per_clust t)) (fcluster e) t of
            (s1, c) \<Rightarrow> read_loop m c (off mod bytes_per_clust t) [] s1) (s\<lparr>fheap := h\<rparr>)
         = Some (s', int (length d), d) \<and> fheap s' = h \<and> sectors s' = sectors s
         \<and> (\<forall>k. sectors (s'\<lparr>fheap := k\<rparr>) = sectors s)" for h
      using read_body_good [of "s\<lparr>fheap := h\<rparr>" "fcluster e" cs off m] g(1,2) ch mz by (simp add: si d)
    have "fat32_read e off n s = with_buf (FAT32_ERR_IO, []) (\<lambda>s.
          case walk (unat (off div bytes_per_clust s)) (fcluster e) s of
            (s1, c) \<Rightarrow> read_loop m c (off mod bytes_per_clust s) [] s1) s"
      using False mo g(4) by (simp add: fat32_read_def m_def Let_def)
    with with_buf_good [OF g(2,3) body] show ?thesis by simp
  qed
qed

section \<open>Names\<close>

lemma upper_zero: "upper c = 0 \<longleftrightarrow> c = 0"
proof
  assume u: "upper c = 0"
  show "c = 0"
  proof (cases "97 \<le> c \<and> c \<le> 122")
    case True
    then have "c = 32" using u by (simp add: upper_def)
    with True show ?thesis by simp
  qed (use u in \<open>auto simp: upper_def\<close>)
qed (simp add: upper_def)

text \<open>Strings match exactly when they are equal up to the case of their letters.\<close>

lemma kstricmp_zero:
  "0 \<notin> set a \<Longrightarrow> 0 \<notin> set b \<Longrightarrow> kstricmp a b = 0 \<longleftrightarrow> map upper a = map upper b"
  by (induction a b rule: kstricmp.induct) (auto simp: uint_0_iff dest: signed_word_eqI)

lemma upper_idem [simp]: "upper (upper c) = upper c"
proof (cases "97 \<le> c \<and> c \<le> 122")
  case True
  then have "upper c = c - 32" by (simp add: upper_def)
  moreover have "\<not> 97 \<le> c - 32"
    using True by (simp add: word_le_nat_alt unat_minus_le) linarith
  ultimately show ?thesis by (simp add: upper_def)
qed (auto simp: upper_def)

lemma upper_space: "upper c = 32 \<longleftrightarrow> c = 32"
proof
  assume u: "upper c = 32"
  show "c = 32"
  proof (cases "97 \<le> c \<and> c \<le> 122")
    case True
    then have "c = 32 + 32" using u by (simp add: upper_def eq_diff_eq [symmetric] diff_eq_eq)
    with True show ?thesis by simp
  qed (use u in \<open>auto simp: upper_def\<close>)
qed (simp add: upper_def)

text \<open>A name of the short form: a base of at most eight characters, one dot, an extension of at most three.\<close>

lemma split_dot_append: "46 \<notin> set ext \<Longrightarrow> split_dot (base @ 46 # ext) = Some (base, ext)"
proof (induction base)
  case Nil
  have "split_dot ext = None" using Nil by (induction ext) auto
  then show ?case by simp
qed simp

lemma split_dot_None: "split_dot n = None \<longleftrightarrow> 46 \<notin> set n"
  by (induction n) (auto split: option.splits prod.splits)

lemma takeWhile_pad:
  assumes "length cs \<le> n" "32 \<notin> set cs"
  shows "takeWhile (\<lambda>c. c \<noteq> 32) (pad n cs) = map upper cs"
proof -
  have "takeWhile (\<lambda>c. c \<noteq> 32) (map upper cs @ replicate (n - length cs) 32)
      = map upper cs @ takeWhile (\<lambda>c. c \<noteq> 32) (replicate (n - length cs) 32)"
    by (rule takeWhile_append2) (use assms(2) in \<open>auto simp: upper_space\<close>)
  then show ?thesis using assms(1) by (simp add: pad_def takeWhile_replicate)
qed

lemma length_pad [simp]: "length (pad n cs) = n"
  by (simp add: pad_def)

lemma length_dir_record [simp]: "length (dir_record n a c z) = 32"
  by (simp add: dir_record_def make_83_def bytes16_def bytes32_def split: option.splits)

lemma parse_dir_record:
  "parse_83_name (dir_record n a c z) =
     (let (b, e) = make_83 n in takeWhile (\<lambda>x. x \<noteq> 32) b
        @ (if e ! 0 \<noteq> 32 then 46 # takeWhile (\<lambda>x. x \<noteq> 32) e else []))"
proof -
  have l: "length (fst (make_83 n)) = 8" "length (snd (make_83 n)) = 3"
    by (simp_all add: make_83_def split: option.splits)
  then have "dir_record n a c z ! 8 = snd (make_83 n) ! 0"
    by (simp add: dir_record_def nth_append)
  with l show ?thesis
    by (simp add: parse_83_name_def dir_record_def case_prod_beta)
qed

lemma short_name_back:
  assumes b: "length base \<le> 8" "32 \<notin> set base" "0 < length base"
    and e: "length ext \<le> 3" "32 \<notin> set ext" "46 \<notin> set ext" "0 < length ext"
  shows "parse_83_name (dir_record (base @ 46 # ext) a c z) = map upper (base @ 46 # ext)"
proof -
  obtain x xs where x: "ext = x # xs" using e(4) by (cases ext) auto
  have "pad 3 ext ! 0 \<noteq> 32" using e(1,2) x by (auto simp: pad_def upper_space)
  then show ?thesis
    using b e by (simp add: parse_dir_record make_83_def split_dot_append takeWhile_pad upper_def)
qed

lemma length_parse_dir_record: "length (parse_83_name (dir_record n a c z)) \<le> 12"
proof -
  have l: "length (fst (make_83 n)) = 8" "length (snd (make_83 n)) = 3"
    by (simp_all add: make_83_def split: option.splits)
  have "length (takeWhile (\<lambda>x. x \<noteq> 32) (fst (make_83 n))) \<le> 8"
    "length (takeWhile (\<lambda>x. x \<noteq> 32) (snd (make_83 n))) \<le> 3"
    using length_takeWhile_le [of _ "fst (make_83 n)"] length_takeWhile_le [of _ "snd (make_83 n)"] l
    by simp_all
  then show ?thesis by (simp add: parse_dir_record case_prod_beta)
qed

lemma parse_dir_record_nonzero:
  assumes "0 \<notin> set n"
  shows "0 \<notin> set (parse_83_name (dir_record n a c z))"
proof -
  have p: "0 \<notin> set (pad k cs)" if "0 \<notin> set cs" for k cs
    using that by (auto simp: pad_def upper_zero dest!: in_set_takeD)
  have "0 \<notin> set a \<and> 0 \<notin> set b" if "split_dot n = Some (a, b)" for a b
    using that assms by (induction n arbitrary: a b) (auto split: option.splits prod.splits if_splits)
  then have "0 \<notin> set (fst (make_83 n)) \<and> 0 \<notin> set (snd (make_83 n))"
    using p assms by (auto simp: make_83_def split: option.splits)
  then show ?thesis by (auto simp: parse_dir_record case_prod_beta dest!: set_takeWhileD)
qed

section \<open>Properties\<close>

text \<open>
  The volume of the witnesses: one sector per table, the root directory in cluster 2, a
  file of two clusters in 3 and 4, the other clusters free.
\<close>

definition demo_table :: bytes where
  "demo_table = concat (map bytes32 [0x0FFFFFF8, 0x0FFFFFFF, 0x0FFFFFFF, 4, 0x0FFFFFFF]) @ replicate 492 0"

definition demo_fat :: fat where
  "demo_fat = \<lparr>mounted = True, fat_start_lba = 32, fat_size_sectors = 1, data_start_lba = 34,
     root_cluster = 2, sectors_per_clust = 1, bytes_per_clust = 512, fat_cache = [],
     fat_cache_lba = 0xFFFFFFFF, fat_cache_dirty = False,
     sectors = (\<lambda>l. if l = 32 \<or> l = 33 then demo_table else if l = 35 then replicate 512 65
       else if l = 36 then replicate 512 66 else replicate 512 0),
     bad = (\<lambda>_. False), disk_present = True, sector_count = 64, fheap = demo_heap\<rparr>"

lemma demo_fat_good: "fat_good demo_fat" "geometry demo_fat" "fat_limit demo_fat = 128"
  by (simp_all add: demo_fat_def fat_good_def geometry_def fat_limit_def demo_table_def bytes32_def)

lemma demo_fatv: "fatv demo_fat 3 = 4" "fatv demo_fat 4 = FAT32_EOF" "fatv demo_fat 5 = 0"
  by (simp_all add: fatv_def demo_fat_def demo_table_def bytes32_def get32_def nth_append FAT32_EOF_def)

lemma demo_chain: "is_chain (fatv demo_fat) 3 [3, 4]"
  by (simp add: demo_fatv) (simp add: FAT32_EOF_def)

text \<open>
  C31: storing an entry of the table and reading it back. \<^verbatim>\<open>fat_set\<close> on a cluster of the volume
  succeeds, the entry then reads as the low 28 bits stored, every other entry reads as
  before, and no sector outside the two tables changes.
\<close>

theorem fat_set_get:
  assumes "fat_good s" "unat c < fat_limit s"
  shows "\<exists>s'. fat_set c v s = (s', True)
    \<and> snd (fat_get c s') = v AND 0x0FFFFFFF
    \<and> (\<forall>x. unat x < fat_limit s \<longrightarrow> x \<noteq> c \<longrightarrow> snd (fat_get x s') = snd (fat_get x s))
    \<and> (\<forall>l. unat (fat_start_lba s) + 2 * unat (fat_size_sectors s) \<le> unat l \<longrightarrow> sectors s' l = sectors s l)"
proof -
  obtain s' where s': "fat_set c v s = (s', True)" "table_step s ((fatv s)(c := v AND 0x0FFFFFFF)) s'"
    using fat_set_good [OF assms] by blast
  have get: "snd (fat_get x s) = fatv s x" "snd (fat_get x s') = fatv s' x" if "unat x < fat_limit s" for x
    using fat_get_good [OF assms(1) that] fat_get_good [of s' x] table_stepD(1,13) [OF s'(2)] that by auto
  show ?thesis
    using s' get assms(2) table_stepD(2,3) [OF s'(2)] by (intro exI [of _ s']) simp
qed

theorem fat_set_get_witness:
  "\<exists>s'. fat_set 5 0x3 demo_fat = (s', True) \<and> snd (fat_get 5 s') = 0x3"
  using fat_set_get [OF demo_fat_good(1), of 5 3] by (auto simp: demo_fat_good(3))



text \<open>
  C33: allocation. \<^verbatim>\<open>fat_alloc_cluster\<close> returns: either no cluster it scans is free and the
  table stays as it was, or it returns a free cluster, which becomes a chain of its own while
  every other entry stays.
\<close>

theorem fat_alloc_cluster_correct:
  assumes "fat_good s" "sectors_per_clust s \<noteq> 0"
    "unat (sector_count s div sectors_per_clust s) \<le> fat_limit s" "2 \<le> fat_limit s"
  shows "(\<exists>s'. fat_alloc_cluster s = Some (s', 0) \<and> (\<forall>c. scanned s c \<longrightarrow> fatv s c \<noteq> 0)
        \<and> (\<forall>x. unat x < fat_limit s \<longrightarrow> fatv s' x = fatv s x))
    \<or> (\<exists>c s'. fat_alloc_cluster s = Some (s', c) \<and> scanned s c \<and> fatv s c = 0
        \<and> (\<forall>x. unat x < fat_limit s \<longrightarrow> fatv s' x = (if x = c then FAT32_EOF else fatv s x)))"
  using alloc_good [OF assms] by (elim disjE exE conjE) (auto dest!: table_stepD(2))

theorem fat_alloc_cluster_correct_witness:
  "\<exists>c s'. fat_alloc_cluster demo_fat = Some (s', c) \<and> fatv demo_fat c = 0 \<and> fatv s' 3 = 4"
proof -
  have "scanned demo_fat 5" by (simp add: scanned_def demo_fat_def)
  then have n: "\<not> (\<forall>c. scanned demo_fat c \<longrightarrow> fatv demo_fat c \<noteq> 0)" using demo_fatv(3) by blast
  have pre: "sectors_per_clust demo_fat \<noteq> 0"
    "unat (sector_count demo_fat div sectors_per_clust demo_fat) \<le> fat_limit demo_fat" "2 \<le> fat_limit demo_fat"
    unfolding demo_fat_good(3) by (simp_all add: demo_fat_def)
  from fat_alloc_cluster_correct [OF demo_fat_good(1) pre] n obtain c s' where
    c: "fat_alloc_cluster demo_fat = Some (s', c)" "fatv demo_fat c = 0"
    "\<forall>x. unat x < fat_limit demo_fat \<longrightarrow> fatv s' x = (if x = c then FAT32_EOF else fatv demo_fat x)"
    by blast
  then have "c \<noteq> 3" using demo_fatv(1) by auto
  with c demo_fatv(1) demo_fat_good(3) have "fatv s' 3 = 4" by (auto dest!: spec [of _ 3])
  with c show ?thesis by blast
qed


lemma demo_buffer: "has_buffer demo_fat [(4076, True)]"
  using demo_heap_rep by (simp add: has_buffer_def demo_fat_def fits_def unat_round8)


text \<open>
  Names. The record of a file created with a name of the short form (a base of at most
  eight characters, one dot, an extension of at most three) reads back as that name in upper
  case, so a lookup matches it exactly when the two names agree up to case.
\<close>

theorem short_name_lookup:
  assumes "name = base @ 46 # ext" "base \<noteq> []" "length base \<le> 8" "ext \<noteq> []" "length ext \<le> 3"
    "32 \<notin> set name" "46 \<notin> set ext" "0 \<notin> set name" "0 \<notin> set other"
  shows "parse_83_name (dir_record name attr c z) = map upper name
    \<and> (kstricmp (parse_83_name (dir_record name attr c z)) other = 0 \<longleftrightarrow> map upper name = map upper other)"
proof -
  have p: "parse_83_name (dir_record name attr c z) = map upper name"
    unfolding assms(1) by (rule short_name_back) (use assms in auto)
  have "0 \<notin> set (map upper name)" using assms(8) by (auto simp: upper_zero)
  from kstricmp_zero [OF this assms(9)] show ?thesis unfolding p by (simp add: o_def)
qed

theorem short_name_lookup_witness:
  "kstricmp (parse_83_name (dir_record [97, 46, 98] 0x20 0 0)) [65, 46, 66] = 0"
  using short_name_lookup [of "[97, 46, 98]" "[97]" "[98]" "[65, 46, 66]" "0x20" 0 0]
  by (simp add: upper_def)

text \<open>
  A file created with a name longer than twelve characters is stored under a truncated
  name: no lookup of the name it was created with matches its record, so creating it a
  second time does not notice the first file.
\<close>

theorem long_name_lost:
  assumes "0 \<notin> set name" "12 < length name"
  shows "kstricmp (parse_83_name (dir_record name attr c z)) name \<noteq> 0"
proof
  assume "kstricmp (parse_83_name (dir_record name attr c z)) name = 0"
  then have "map upper (parse_83_name (dir_record name attr c z)) = map upper name"
    using kstricmp_zero [OF parse_dir_record_nonzero [OF assms(1)] assms(1)] by simp
  then have "length (parse_83_name (dir_record name attr c z)) = length name" by (rule map_eq_imp_length_eq)
  with length_parse_dir_record [of name attr c z] assms(2) show False by simp
qed

theorem long_name_lost_witness:
  "kstricmp (parse_83_name (dir_record (replicate 13 97) 0x20 0 0)) (replicate 13 97) \<noteq> 0"
  by (rule long_name_lost) simp_all

end
