(* ===== verification/Rtl8139.thy ===== *)
theory Rtl8139
  imports Prelude "HOL-Library.Monad_Syntax"
begin

unbundle bit_operations_syntax

text \<open>
  The network card's driver (\<^verbatim>\<open>kernel/rtl8139.cpp\<close>) as the network stack sees it: the four transmit
  buffers used in turn, and what the card puts on the wire. The arithmetic of the receive ring is here
  too; RtlPorts holds the driver's work at the ports.
\<close>

definition RTL_RX_BUF_SIZE :: nat where "RTL_RX_BUF_SIZE = 32 * 1024 + 16 + 1500"
definition RTL_TX_BUF_SIZE :: u16 where "RTL_TX_BUF_SIZE = 1536"
definition RTL_TX_NUM :: u8 where "RTL_TX_NUM = 4"

record rtl =
  rtl_present :: bool
  rtl_mac :: bytes
  rx_ptr :: u32
  tx_buf :: "bytes list"
  tx_slot :: u8
  wire :: "bytes list"

section \<open>Sending\<close>

text \<open>
  The wait for the slot ends by itself after a million polls, whatever the card answers.
  Writing the length to the slot's status register makes the card send that many bytes of
  the slot's buffer.
\<close>

definition rtl8139_send :: "bytes \<Rightarrow> u16 \<Rightarrow> rtl \<Rightarrow> rtl \<times> bool" where
  "rtl8139_send data len r =
     (if \<not> rtl_present r \<or> RTL_TX_BUF_SIZE < len then (r, False)
      else
        let slot = unat (tx_slot r);
            b1 = copy_into (tx_buf r ! slot) (take (unat len) data);
            b2 = (if len < 60 then take (unat len) b1 @ replicate (60 - unat len) 0 @ drop 60 b1 else b1);
            len' = (if len < 60 then 60 else len)
        in (r\<lparr>tx_buf := (tx_buf r)[slot := b2],
              wire := wire r @ [take (unat (ucast len' AND 0x1FFF :: u32)) b2],
              tx_slot := (tx_slot r + 1) mod RTL_TX_NUM\<rparr>, True))"

definition rtl_ok :: "rtl \<Rightarrow> bool" where
  "rtl_ok r \<longleftrightarrow> length (tx_buf r) = 4 \<and> (\<forall>b \<in> set (tx_buf r). length b = 1536) \<and> unat (tx_slot r) < 4"

section \<open>Receiving\<close>

definition RX_NEXT :: "u32 \<Rightarrow> u16 \<Rightarrow> u32" where
  "RX_NEXT p len = ((p + ucast len + 4 + 3) AND NOT 3) mod (32 * 1024)"

definition capr_of :: "u32 \<Rightarrow> u16" where
  "capr_of p = (if 16 \<le> p then ucast (p - 16) else ucast (32 * 1024 - 16 + p))"

section \<open>What is sent\<close>

lemma send_wire:
  assumes "rtl_ok r" "rtl_present r" "length data = unat len" "unat len \<le> 1536"
  shows "\<exists>r'. rtl8139_send data len r = (r', True) \<and> rtl_ok r' \<and> rtl_present r' \<and> rtl_mac r' = rtl_mac r
    \<and> wire r' = wire r @ [data @ replicate (60 - length data) 0]"
proof -
  let ?s = "unat (tx_slot r)"
  have s: "?s < length (tx_buf r)" "length (tx_buf r ! ?s) = 1536"
    using assms(1) by (auto simp: rtl_ok_def)
  have t: "unat ((tx_slot r + 1) mod RTL_TX_NUM) < 4"
    by (simp add: RTL_TX_NUM_def unat_mod)
  have le: "\<not> RTL_TX_BUF_SIZE < len"
    using assms(4) by (simp add: RTL_TX_BUF_SIZE_def word_less_nat_alt)
  have m: "(0x1FFF :: u32) = mask 13" by (simp add: mask_eq_exp_minus_1)
  have cut: "unat (ucast n AND 0x1FFF :: u32) = unat n" if "unat n \<le> 1536" for n :: u16
    using that by (simp add: m unat_and_mask)
  show ?thesis
  proof (cases "len < 60")
    case True
    then have "unat len < 60" by (simp add: word_less_nat_alt)
    with True s t le cut [of 60] assms show ?thesis
      by (auto simp: rtl8139_send_def Let_def rtl_ok_def copy_into_def
          dest!: set_update_subset_insert [THEN subsetD])
  next
    case False
    then have "\<not> unat len < 60" by (simp add: word_less_nat_alt)
    with False s t le cut [of len] assms show ?thesis
      by (auto simp: rtl8139_send_def Let_def rtl_ok_def copy_into_def
          dest!: set_update_subset_insert [THEN subsetD])
  qed
qed

lemma send_absent: "\<not> rtl_present r \<Longrightarrow> rtl8139_send data len r = (r, False)"
  by (simp add: rtl8139_send_def)

end
