(* ===== verification/NetIp.thy ===== *)
theory NetIp
  imports HeapProps Rtl8139 NetQueue Interfaces
begin

unbundle bit_operations_syntax

text \<open>
  The lower half of the network stack (\<^verbatim>\<open>kernel/net.cpp\<close>, \<^verbatim>\<open>kernel/net.h\<close>): byte orders, the
  internet checksum, addresses as text, the ARP cache, and the frames that ARP, ICMP and UDP
  send. Addresses are kept as the code keeps them, in network byte order in a \<^verbatim>\<open>uint32_t\<close>.
  A received packet is the caller's whole buffer from the header on, with the length as a
  separate number, because a header's length field may exceed what was received. The result
  \<open>None\<close> means that the call does not return or touches memory outside its buffers.
\<close>

section \<open>Byte order and checksum\<close>

definition htons :: "u16 \<Rightarrow> u16" where
  "htons v = drop_bit 8 v OR push_bit 8 v"

definition htonl :: "u32 \<Rightarrow> u32" where
  "htonl v = (drop_bit 24 v AND 0xFF) OR (drop_bit 8 v AND 0xFF00)
     OR (push_bit 8 v AND 0xFF0000) OR (push_bit 24 v AND 0xFF000000)"

fun sum16 :: "bytes \<Rightarrow> u32 \<Rightarrow> u32" where
  "sum16 (a # b # r) s = sum16 r (s + ucast (get16 [a, b] 0))"
| "sum16 [a] s = s + ucast a"
| "sum16 [] s = s"

lemma high_part: "unat (drop_bit 16 s :: u32) = unat s div 65536"
  by (simp add: unat_drop_bit_eq drop_bit_eq_div unat_div)

lemma high_part_nonzero: "drop_bit 16 s \<noteq> (0 :: u32) \<Longrightarrow> unat s div 65536 \<noteq> 0"
  unfolding high_part [symmetric] by (simp only: unat_eq_zero not_False_eq_True)

lemma fold_decreases:
  assumes "drop_bit 16 s \<noteq> (0 :: u32)"
  shows "unat ((s AND 0xFFFF) + drop_bit 16 s) < unat s"
    "unat ((s AND 0xFFFF) + drop_bit 16 s) = unat s mod 65536 + unat s div 65536"
proof -
  have m: "(0xFFFF :: u32) = mask 16" by (simp add: mask_eq_exp_minus_1)
  note d = high_part [of s]
  have a: "unat (s AND 0xFFFF) = unat s mod 65536" by (simp add: m unat_and_mask)
  have "unat s div 65536 < 65536" using unat_lt32 [of s] by simp
  then show e: "unat ((s AND 0xFFFF) + drop_bit 16 s) = unat s mod 65536 + unat s div 65536"
    using a d by (subst unat_plus_if) simp_all
  have "unat s div 65536 \<noteq> 0" by (rule high_part_nonzero [OF assms])
  then show "unat ((s AND 0xFFFF) + drop_bit 16 s) < unat s" 
    unfolding e using div_mult_mod_eq [of "unat s" 65536] by linarith
qed

function fold16 :: "u32 \<Rightarrow> u32" where
  "fold16 s = (if drop_bit 16 s = 0 then s else fold16 ((s AND 0xFFFF) + drop_bit 16 s))"
  by pat_completeness auto

termination by (relation "measure unat") (simp_all add: fold_decreases(1))

declare fold16.simps [simp del]

definition ip_checksum :: "bytes \<Rightarrow> u16" where
  "ip_checksum d = NOT (ucast (fold16 (sum16 d 0)))"

section \<open>Addresses as text\<close>

fun ip_octet :: "u32 \<Rightarrow> bytes \<Rightarrow> u32 \<times> bytes" where
  "ip_octet v [] = (v, [])"
| "ip_octet v (c # s) = (if 48 \<le> c \<and> c \<le> 57 then ip_octet (v * 10 + ucast (c - 48)) s else (v, c # s))"

definition skip_dot :: "bytes \<Rightarrow> bytes" where
  "skip_dot s = (case s of c # r \<Rightarrow> if c = 46 then r else s | [] \<Rightarrow> [])"

fun ip_octets :: "nat \<Rightarrow> u32 \<Rightarrow> bytes \<Rightarrow> u32" where
  "ip_octets 0 r s = r"
| "ip_octets (Suc n) r s = (case ip_octet 0 s of (v, s') \<Rightarrow>
     ip_octets n (push_bit 8 r OR (v AND 0xFF)) (skip_dot s'))"

definition ip_from_str :: "bytes \<Rightarrow> u32" where
  "ip_from_str s = htonl (ip_octets 4 0 s)"

definition octet_str :: "u8 \<Rightarrow> bytes" where
  "octet_str v = (if 100 \<le> v then [48 + v div 100, 48 + (v mod 100) div 10, 48 + (v mod 100) mod 10]
     else if 10 \<le> v then [48 + v div 10, 48 + v mod 10] else [48 + v])"

definition ip_to_str :: "u32 \<Rightarrow> bytes" where
  "ip_to_str ip = (let h = htonl ip in
     octet_str (ucast (drop_bit 24 h)) @ [46] @ octet_str (ucast (drop_bit 16 h)) @ [46]
       @ octet_str (ucast (drop_bit 8 h)) @ [46] @ octet_str (ucast h))"

section \<open>The ARP cache\<close>

definition ARP_CACHE_SIZE :: nat where "ARP_CACHE_SIZE = 16"

record arp_entry =
  aip :: u32
  amac :: bytes
  avalid :: bool

record net =
  my_ip :: u32
  gateway_ip :: u32
  netmask :: u32
  my_mac :: bytes
  arp_cache :: "arp_entry list"
  ip_id :: u16
  tcp_ip_id :: u16
  nic :: rtl
  nheap :: heap

definition arp_find :: "u32 \<Rightarrow> arp_entry list \<Rightarrow> nat option" where
  "arp_find ip c = find_idx (\<lambda>e. avalid e \<and> aip e = ip) c"

definition arp_cache_store :: "u32 \<Rightarrow> bytes \<Rightarrow> arp_entry list \<Rightarrow> arp_entry list" where
  "arp_cache_store ip mac c =
     (case arp_find ip c of
        Some i \<Rightarrow> c[i := (c ! i)\<lparr>amac := mac\<rparr>]
      | None \<Rightarrow>
         (case find_idx (\<lambda>e. \<not> avalid e) c of
            Some i \<Rightarrow> c[i := (c ! i)\<lparr>aip := ip, amac := mac, avalid := True\<rparr>]
          | None \<Rightarrow> c[0 := (c ! 0)\<lparr>aip := ip, amac := mac, avalid := True\<rparr>]))"

definition net_arp_lookup :: "arp_entry list \<Rightarrow> u32 \<Rightarrow> bytes option" where
  "net_arp_lookup c ip = map_option (\<lambda>i. amac (c ! i)) (arp_find ip c)"

section \<open>Frames\<close>

definition ETH_TYPE_IP :: u16 where "ETH_TYPE_IP = 0x0800"
definition ETH_TYPE_ARP :: u16 where "ETH_TYPE_ARP = 0x0806"
definition ARP_OP_REQUEST :: u16 where "ARP_OP_REQUEST = 1"
definition ARP_OP_REPLY :: u16 where "ARP_OP_REPLY = 2"
definition IP_PROTO_ICMP :: u8 where "IP_PROTO_ICMP = 1"
definition IP_PROTO_TCP :: u8 where "IP_PROTO_TCP = 6"
definition IP_PROTO_UDP :: u8 where "IP_PROTO_UDP = 17"

definition broadcast :: bytes where "broadcast = replicate 6 0xFF"

definition eth_frame :: "bytes \<Rightarrow> bytes \<Rightarrow> u16 \<Rightarrow> bytes \<Rightarrow> bytes" where
  "eth_frame dst src type body = dst @ src @ bytes16 (htons type) @ body"

definition arp_packet :: "u16 \<Rightarrow> bytes \<Rightarrow> u32 \<Rightarrow> bytes \<Rightarrow> u32 \<Rightarrow> bytes" where
  "arp_packet opcode smac sip tmac tip =
     bytes16 (htons 1) @ bytes16 (htons 0x0800) @ [6, 4] @ bytes16 (htons opcode)
       @ smac @ bytes32 sip @ tmac @ bytes32 tip"

definition send_on :: "bytes \<Rightarrow> net \<Rightarrow> net \<times> bool" where
  "send_on f n = (case rtl8139_send f (of_nat (length f)) (nic n) of (r, ok) \<Rightarrow> (n\<lparr>nic := r\<rparr>, ok))"

definition net_arp_request :: "u32 \<Rightarrow> net \<Rightarrow> net" where
  "net_arp_request target n = fst (send_on (eth_frame broadcast (my_mac n) ETH_TYPE_ARP
     (arp_packet ARP_OP_REQUEST (my_mac n) (my_ip n) (replicate 6 0) target)) n)"

definition arp_reply :: "bytes \<Rightarrow> net \<Rightarrow> net" where
  "arp_reply req n =
     (let smac = take 6 (drop 8 req); sip = get32 req 14 in
      fst (send_on (eth_frame smac (my_mac n) ETH_TYPE_ARP
        (arp_packet ARP_OP_REPLY (my_mac n) (my_ip n) smac sip)) n))"

definition handle_arp :: "bytes \<Rightarrow> u16 \<Rightarrow> net \<Rightarrow> net" where
  "handle_arp data len n =
     (if len < 28 then n
      else
        let n1 = n\<lparr>arp_cache := arp_cache_store (get32 data 14) (take 6 (drop 8 data)) (arp_cache n)\<rparr> in
        if htons (get16 data 6) = ARP_OP_REQUEST \<and> get32 data 24 = my_ip n then arp_reply data n1 else n1)"

text \<open>An IP header of 20 bytes; the checksum is computed with its own field zero.\<close>

definition ip_fields :: "u16 \<Rightarrow> u16 \<Rightarrow> u16 \<Rightarrow> u8 \<Rightarrow> u32 \<Rightarrow> u32 \<Rightarrow> u16 \<Rightarrow> bytes" where
  "ip_fields tot ident flags proto src dst ck =
     [0x45, 0] @ bytes16 (htons tot) @ bytes16 (htons ident) @ bytes16 (htons flags) @ [64, proto]
       @ bytes16 ck @ bytes32 src @ bytes32 dst"

definition ip_header :: "u16 \<Rightarrow> u16 \<Rightarrow> u16 \<Rightarrow> u8 \<Rightarrow> u32 \<Rightarrow> u32 \<Rightarrow> bytes" where
  "ip_header tot ident flags proto src dst =
     ip_fields tot ident flags proto src dst (ip_checksum (ip_fields tot ident flags proto src dst 0))"

text \<open>
  A frame in a buffer from the heap: without a buffer nothing is sent; the frame is handed to
  the card and the buffer freed.
\<close>

definition with_pkt :: "u16 \<Rightarrow> (net \<Rightarrow> (net \<times> bytes) option) \<Rightarrow> net \<Rightarrow> (net \<times> bool) option" where
  "with_pkt sz build n = do {
     (h, p) \<leftarrow> kmalloc (nheap n) (ucast sz);
     if p = 0 then Some (n\<lparr>nheap := h\<rparr>, False)
     else do {
       (n1, f) \<leftarrow> build (n\<lparr>nheap := h\<rparr>);
       if length f \<noteq> unat sz then None
       else case send_on f n1 of (n2, ok) \<Rightarrow> Some (n2\<lparr>nheap := kfree (nheap n2) p\<rparr>, ok)
     }
   }"

definition dst_mac :: "u32 \<Rightarrow> net \<Rightarrow> bytes" where
  "dst_mac ip n = (case net_arp_lookup (arp_cache n) ip of Some m \<Rightarrow> m | None \<Rightarrow> broadcast)"

definition icmp_reply :: "bytes \<Rightarrow> u16 \<Rightarrow> bytes" where
  "icmp_reply data len =
     (let body = take 4 (drop 4 data) @ take (unat (len - 8)) (drop 8 data) in
      [0, 0] @ bytes16 (ip_checksum ([0, 0, 0, 0] @ body)) @ body)"

definition handle_icmp :: "u32 \<Rightarrow> bytes \<Rightarrow> u16 \<Rightarrow> net \<Rightarrow> net option" where
  "handle_icmp src data len n =
     (if len < 8 then Some n
      else if data ! 0 \<noteq> 8 then Some n
      else map_option fst (with_pkt (14 + (20 + len)) (\<lambda>n.
        if length data < unat len then None
        else Some (n\<lparr>ip_id := ip_id n + 1\<rparr>,
          eth_frame (dst_mac src n) (my_mac n) ETH_TYPE_IP
            (ip_header (20 + len) (ip_id n) 0 IP_PROTO_ICMP (my_ip n) src @ icmp_reply data len))) n))"

definition next_hop :: "u32 \<Rightarrow> net \<Rightarrow> u32" where
  "next_hop dst n = (if dst AND netmask n \<noteq> my_ip n AND netmask n then gateway_ip n else dst)"

definition net_udp_send :: "u32 \<Rightarrow> u16 \<Rightarrow> u16 \<Rightarrow> bytes \<Rightarrow> net \<Rightarrow> (net \<times> bool) option" where
  "net_udp_send dst sport dport data n =
     (let udp_len = 8 + of_nat (length data) in
      with_pkt (14 + (20 + udp_len)) (\<lambda>n.
        Some (n\<lparr>ip_id := ip_id n + 1\<rparr>,
          eth_frame (dst_mac (next_hop dst n) n) (my_mac n) ETH_TYPE_IP
            (ip_header (20 + udp_len) (ip_id n) 0 IP_PROTO_UDP (my_ip n) dst
              @ bytes16 (htons sport) @ bytes16 (htons dport) @ bytes16 (htons udp_len) @ bytes16 0
              @ data))) n)"

section \<open>Checksums verify\<close>

text \<open>Folding keeps the residue modulo 65535 and is zero only for zero.\<close>

lemma fold16_spec:
  "unat (fold16 s) < 65536 \<and> unat (fold16 s) mod 65535 = unat s mod 65535 \<and> (fold16 s = 0 \<longleftrightarrow> s = 0)"
proof (induction s rule: fold16.induct)
  case (1 s)
  note d = high_part [of s]
  show ?case
  proof (cases "drop_bit 16 s = 0")
    case True
    then have "unat s div 65536 = 0" using d by simp
    then have "unat s < 65536" by simp
    moreover have "fold16 s = s" using True by (subst fold16.simps) simp
    ultimately show ?thesis by simp
  next
    case False
    let ?t = "(s AND 0xFFFF) + drop_bit 16 s"
    have t: "unat ?t = unat s mod 65536 + unat s div 65536" by (rule fold_decreases(2) [OF False])
    have "unat s div 65536 \<noteq> 0" by (rule high_part_nonzero [OF False])
    then have nz: "?t \<noteq> 0" "s \<noteq> 0" using t by auto
    have "unat s = 65535 * (unat s div 65536) + unat ?t"
      unfolding t using div_mult_mod_eq [of "unat s" 65536] by linarith
    then have m: "unat ?t mod 65535 = unat s mod 65535"
      using mod_mult_self4 [of 65535 "unat s div 65536" "unat ?t"] by simp
    have f: "fold16 s = fold16 ?t" using False by (subst fold16.simps) simp
    from 1 [OF False] m nz show ?thesis unfolding f by simp
  qed
qed

text \<open>The sum of the 16-bit words as a natural number; it fits while the data is short.\<close>

fun words_of :: "bytes \<Rightarrow> nat" where
  "words_of (a # b # r) = unat (get16 [a, b] 0) + words_of r"
| "words_of [a] = unat a"
| "words_of [] = 0"

lemma words_of_bound: "words_of d \<le> 65535 * length d"
proof (induction d rule: words_of.induct)
  case (1 a b r)
  have "unat (get16 [a, b] 0) < 65536" using unsigned_less [of "get16 [a, b] 0"] by simp
  with 1 show ?case by simp
next
  case (2 a)
  have "unat a < 256" using unsigned_less [of a] by simp
  then show ?case by simp
qed simp

lemma sum16_words:
  "unat s + words_of d < 2 ^ 32 \<Longrightarrow> unat (sum16 d s) = unat s + words_of d"
proof (induction d s rule: sum16.induct)
  case (1 a b r s)
  have "unat (s + ucast (get16 [a, b] 0)) = unat s + unat (get16 [a, b] 0)"
    using 1(2) by (subst unat_plus_if) simp_all
  with 1 show ?case by simp
next
  case (2 a s)
  then show ?case by (simp add: unat_plus_if)
qed simp

lemma words_of_append: "even (length a) \<Longrightarrow> words_of (a @ b) = words_of a + words_of b"
  by (induction a rule: words_of.induct) simp_all

lemma get16_bytes16: "get16 (bytes16 w) 0 = w"
proof (rule bit_word_eqI)
  fix n assume n: "n < LENGTH(16)"
  show "bit (get16 (bytes16 w) 0) n = bit w n"
    using n by (cases "n < 8") (auto simp: get16_def bytes16_def bit_simps)
qed

lemma words_of_bytes16: "words_of (bytes16 w) = unat w"
  using get16_bytes16 [of w] by (simp add: bytes16_def)

text \<open>
  Data with its own checksum in place sums to a multiple of 65535, so a receiver that
  recomputes the checksum gets zero.
\<close>

lemma checksum_in_place:
  assumes len: "length a + length b < 60000" and ev: "even (length a)"
  shows "ip_checksum (a @ bytes16 (ip_checksum (a @ bytes16 0 @ b)) @ b) = 0"
proof -
  let ?w = "words_of a + words_of b"
  have z: "words_of (bytes16 0) = 0" by (simp add: words_of_bytes16)
  have w0: "words_of (a @ bytes16 0 @ b) = ?w"
    by (simp only: words_of_append [OF ev] words_of_append [of "bytes16 0", simplified] z)
  have bd: "?w < 65535 * 60000"
    using words_of_bound [of a] words_of_bound [of b] len by simp
  define s where "s = sum16 (a @ bytes16 0 @ b) 0"
  have s: "unat s = ?w" using sum16_words [of 0 "a @ bytes16 0 @ b"] bd w0 by (simp add: s_def)
  define f where "f = fold16 s"
  have f: "unat f < 65536" "unat f mod 65535 = ?w mod 65535" "f = 0 \<longleftrightarrow> s = 0"
    using fold16_spec [of s] s by (simp_all add: f_def)
  define c where "c = ip_checksum (a @ bytes16 0 @ b)"
  have uf: "unat (ucast f :: u16) = unat f"
    using f(1) by (simp add: unsigned_ucast_eq take_bit_nat_eq_self)
  have m1: "unat (- 1 :: u16) = 65535" by (simp add: unsigned_minus_1_eq_mask mask_eq_exp_minus_1)
  have "c = NOT (ucast f)" by (simp add: c_def ip_checksum_def f_def s_def)
  then have "c = - 1 - ucast f" by (simp add: not_eq_complement)
  then have uc: "unat c = 65535 - unat f"
    using uf f(1) by (simp add: unat_minus_le m1)
  define t where "t = sum16 (a @ bytes16 c @ b) 0"
  have "words_of (a @ bytes16 c @ b) = ?w + unat c"
    by (simp only: words_of_append [OF ev] words_of_append [of "bytes16 c", simplified] words_of_bytes16)
  then have t: "unat t = ?w + (65535 - unat f)"
    using sum16_words [of 0 "a @ bytes16 c @ b"] bd uc by (simp add: t_def)
  have "unat t mod 65535 = 0"
  proof -
    have "unat f \<le> ?w"
    proof (cases "unat f = 65535")
      case True
      then have "s \<noteq> 0" using f(3) by auto
      then have "unat s \<noteq> 0" by (simp only: unat_eq_zero not_False_eq_True)
      then have "?w mod 65535 = 0" "?w \<noteq> 0" using f(2) s True by simp_all
      then show ?thesis using True by auto
    next
      case False
      then have "unat f = ?w mod 65535" using f by simp
      then show ?thesis by simp
    qed
    moreover have "(?w - unat f) mod 65535 = 0"
      using f(2) \<open>unat f \<le> ?w\<close> by (metis mod_eq_dvd_iff_nat dvd_imp_mod_0)
    moreover have "unat t = (?w - unat f) + 65535"
      using t f(1) \<open>unat f \<le> ?w\<close> by simp
    ultimately show ?thesis by (simp only: mod_add_self2)
  qed
  moreover have "t \<noteq> 0"
  proof
    assume "t = 0"
    then have "?w = 0" "unat f = 65535" using t f(1) by auto
    then show False using f(3) s by (auto simp: unat_eq_zero)
  qed
  ultimately have k: "unat (fold16 t) < 65536" "unat (fold16 t) mod 65535 = 0" "fold16 t \<noteq> 0"
    using fold16_spec [of t] by simp_all
  have "unat (fold16 t) = 65535"
  proof (rule ccontr)
    assume "unat (fold16 t) \<noteq> 65535"
    then have "unat (fold16 t) < 65535" using k(1) by simp
    then have "unat (fold16 t) = 0" using k(2) by simp
    with k(3) show False by (simp only: unat_eq_zero)
  qed
  then have "ucast (fold16 t) = (- 1 :: u16)"
    by (simp add: word_eq_unat unsigned_ucast_eq take_bit_nat_eq_self m1)
  then have "ip_checksum (a @ bytes16 c @ b) = 0"
    unfolding ip_checksum_def t_def [symmetric] by simp
  then show ?thesis unfolding c_def .
qed

lemma length_ip_fields [simp]: "length (ip_fields tot ident flags proto src dst ck) = 20"
  by (simp add: ip_fields_def)

lemma ip_header_checks: "ip_checksum (ip_header tot ident flags proto src dst) = 0"
proof -
  let ?a = "[0x45, 0] @ bytes16 (htons tot) @ bytes16 (htons ident) @ bytes16 (htons flags) @ [64, proto]"
  let ?b = "bytes32 src @ bytes32 dst"
  have "ip_fields tot ident flags proto src dst ck = ?a @ bytes16 ck @ ?b" for ck
    by (simp add: ip_fields_def)
  with checksum_in_place [of ?a ?b] show ?thesis by (simp add: ip_header_def)
qed

lemma icmp_reply_checks:
  assumes "length data < 50000"
  shows "ip_checksum (icmp_reply data len) = 0"
proof -
  let ?b = "take 4 (drop 4 data) @ take (unat (len - 8)) (drop 8 data)"
  have z: "[0, 0, 0, 0] = [0, 0] @ bytes16 0" by (simp add: bytes16_def)
  have "length [0, 0 :: u8] + length ?b < 60000" using assms by simp
  from checksum_in_place [OF this] show ?thesis
    unfolding icmp_reply_def Let_def z by simp
qed

section \<open>Addresses round trip\<close>

lemma numeral_bytes:
  "(0xFF :: u32) = mask 8" "(0xFF00 :: u32) = push_bit 8 (mask 8)"
  "(0xFF0000 :: u32) = push_bit 16 (mask 8)" "(0xFF000000 :: u32) = push_bit 24 (mask 8)"
  by (simp_all add: mask_eq_exp_minus_1 push_bit_eq_mult)

lemma htonl_bit:
  "n < 32 \<Longrightarrow> bit (htonl v) n \<longleftrightarrow> bit v (if n < 8 then 24 + n else if n < 16 then 8 + n
     else if n < 24 then n - 8 else n - 24)"
  unfolding htonl_def numeral_bytes by (auto simp: bit_simps)

lemma htonl_htonl [simp]: "htonl (htonl v) = v"
proof (rule bit_word_eqI)
  fix n assume n: "n < LENGTH(32)"
  then consider "n < 8" | "8 \<le> n" "n < 16" | "16 \<le> n" "n < 24" | "24 \<le> n" "n < 32" by fastforce
  then show "bit (htonl (htonl v)) n = bit v n"
    by cases (auto simp: htonl_bit)
qed

lemma htons_htons [simp]: "htons (htons v) = v"
proof (rule bit_word_eqI)
  fix n assume n: "n < LENGTH(16)"
  then show "bit (htons (htons v)) n = bit v n"
    by (cases "n < 8") (auto simp: htons_def bit_simps dest: bit_imp_le_length)
qed

lemma digit_in_range:
  fixes x :: u8
  assumes "unat x < 10"
  shows "48 \<le> 48 + x" "48 + x \<le> 57"
proof -
  have "unat (48 + x) = 48 + unat x" using assms by (simp add: unat_plus_if)
  then show "48 \<le> 48 + x" "48 + x \<le> 57" using assms by (simp_all add: word_le_nat_alt)
qed

lemma ip_octet_digit: "unat x < 10 \<Longrightarrow> ip_octet a ((48 + x) # s) = ip_octet (a * 10 + ucast x) s"
  using digit_in_range [of x] by simp

definition no_digit_first :: "bytes \<Rightarrow> bool" where
  "no_digit_first s \<longleftrightarrow> (case s of [] \<Rightarrow> True | c # _ \<Rightarrow> \<not> (48 \<le> c \<and> c \<le> 57))"

lemma ip_octet_stop: "no_digit_first s \<Longrightarrow> ip_octet a s = (a, s)"
  by (cases s) (auto simp: no_digit_first_def)

lemma tens: "n div 100 * 10 + n mod 100 div 10 = (n :: nat) div 10"
proof -
  have "n div 100 = n div 10 div 10" using div_mult2_eq [of n 10 10] by simp
  moreover have "n mod 100 div 10 = n div 10 mod 10" using mod_mult2_eq [of n 10 10] by simp
  ultimately show ?thesis by simp
qed

lemma ip_octet_str:
  assumes "no_digit_first s"
  shows "ip_octet 0 (octet_str v @ s) = (ucast v, s)"
proof -
  have v: "unat v < 256" using unsigned_less [of v] by simp
  have d: "unat (v div 100) = unat v div 100" "unat (v mod 100) = unat v mod 100"
    "unat ((v mod 100) div 10) = unat v mod 100 div 10" "unat ((v mod 100) mod 10) = unat v mod 100 mod 10"
    "unat (v div 10) = unat v div 10" "unat (v mod 10) = unat v mod 10"
    by (simp_all add: unat_div unat_mod)
  have e: "unat ((a :: u32) * 10 + ucast (x :: u8)) = unat a * 10 + unat x" if "unat a \<le> 25" for a x
  proof -
    have "unat (a * 10) = unat a * 10" using that by (subst unat_mult_lt) simp_all
    moreover have "unat x < 256" using unsigned_less [of x] by simp
    ultimately show ?thesis using that by (subst unat_plus_if) simp_all
  qed
  consider "100 \<le> v" | "10 \<le> v" "\<not> 100 \<le> v" | "\<not> 10 \<le> v" by auto
  then show ?thesis
  proof cases
    case 1
    have r: "unat (v div 100) < 10" "unat ((v mod 100) div 10) < 10" "unat ((v mod 100) mod 10) < 10"
      using v less_mult_imp_div_less [of "unat v mod 100" 10 10] unfolding d by simp_all
    let ?a1 = "0 * 10 + ucast (v div 100) :: u32"
    let ?a2 = "?a1 * 10 + ucast ((v mod 100) div 10)"
    have "unat ?a1 = unat v div 100" using e [of 0 "v div 100"] d by simp
    then have "unat ?a2 = unat v div 100 * 10 + unat v mod 100 div 10"
      using e [of ?a1] d v by simp
    also have "\<dots> = unat v div 10" by (rule tens)
    finally have a2: "unat ?a2 = unat v div 10" .
    have "unat v mod 100 mod 10 = unat v mod 10" by (rule mod_mod_cancel) simp
    then have "unat (?a2 * 10 + ucast ((v mod 100) mod 10)) = unat v div 10 * 10 + unat v mod 10"
      using e [of ?a2 "(v mod 100) mod 10"] a2 v unfolding d by linarith
    then have "unat (?a2 * 10 + ucast ((v mod 100) mod 10)) = unat v" by simp
    then have "?a2 * 10 + ucast ((v mod 100) mod 10) = ucast v" by (simp add: word_eq_unat)
    with 1 r show ?thesis by (simp add: octet_str_def ip_octet_digit ip_octet_stop [OF assms] del: ip_octet.simps)
  next
    case 2
    then have l: "unat v < 100" by (simp add: word_le_nat_alt)
    have r: "unat (v div 10) < 10" "unat (v mod 10) < 10" using l d by simp_all
    let ?a1 = "0 * 10 + ucast (v div 10) :: u32"
    have "unat ?a1 = unat v div 10" using e [of 0 "v div 10"] d by simp
    then have "unat (?a1 * 10 + ucast (v mod 10)) = unat v" using e [of ?a1] d l by simp
    then have "?a1 * 10 + ucast (v mod 10) = ucast v" by (simp add: word_eq_unat)
    with 2 r show ?thesis by (simp add: octet_str_def ip_octet_digit ip_octet_stop [OF assms] del: ip_octet.simps)
  next
    case 3
    then have "unat v < 10" "\<not> 100 \<le> v" by (auto simp: word_le_nat_alt)
    with 3 show ?thesis by (simp add: octet_str_def ip_octet_digit ip_octet_stop [OF assms] del: ip_octet.simps)
  qed
qed

lemma octets_join:
  fixes h :: u32
  shows "push_bit 8 (push_bit 8 (push_bit 8 (push_bit 8 0 OR (ucast (ucast (drop_bit 24 h) :: u8) AND 0xFF))
      OR (ucast (ucast (drop_bit 16 h) :: u8) AND 0xFF)) OR (ucast (ucast (drop_bit 8 h) :: u8) AND 0xFF))
    OR (ucast (ucast h :: u8) AND 0xFF) = h" (is "?l = h")
proof (rule bit_word_eqI)
  fix n assume n: "n < LENGTH(32)"
  then consider "n < 8" | "8 \<le> n" "n < 16" | "16 \<le> n" "n < 24" | "24 \<le> n" "n < 32" by fastforce
  then show "bit ?l n = bit h n"
    unfolding numeral_bytes by cases (auto simp: bit_simps)
qed

lemma ip_text_round_trip: "ip_from_str (ip_to_str ip) = ip"
proof -
  let ?h = "htonl ip"
  have nd: "no_digit_first (46 # s)" "no_digit_first []" for s
    by (simp_all add: no_digit_first_def)
  have "ip_octets (Suc (Suc (Suc (Suc 0)))) 0 (ip_to_str ip) = ?h"
    using octets_join [of ?h]
    by (simp add: ip_to_str_def Let_def ip_octet_str nd skip_dot_def
        ip_octet_str [of "[]", simplified] del: push_bit_of_0 cong: if_cong)
  then show ?thesis by (simp add: ip_from_str_def eval_nat_numeral)
qed

section \<open>The ARP cache is a cache\<close>

text \<open>Sixteen entries, no address twice among the valid ones.\<close>

definition arp_ok :: "arp_entry list \<Rightarrow> bool" where
  "arp_ok c \<longleftrightarrow> length c = ARP_CACHE_SIZE
     \<and> (\<forall>i < 16. \<forall>j < 16. avalid (c ! i) \<longrightarrow> avalid (c ! j) \<longrightarrow> aip (c ! i) = aip (c ! j) \<longrightarrow> i = j)"

lemma arp_ok_length: "arp_ok c \<Longrightarrow> length c = 16"
  by (simp add: arp_ok_def ARP_CACHE_SIZE_def)

lemma arp_lookup_iff:
  assumes "arp_ok c"
  shows "net_arp_lookup c ip = Some m \<longleftrightarrow> (\<exists>i < 16. avalid (c ! i) \<and> aip (c ! i) = ip \<and> amac (c ! i) = m)"
proof
  assume "net_arp_lookup c ip = Some m"
  then obtain i where "arp_find ip c = Some i" "m = amac (c ! i)" by (auto simp: net_arp_lookup_def)
  then show "\<exists>i < 16. avalid (c ! i) \<and> aip (c ! i) = ip \<and> amac (c ! i) = m"
    using arp_ok_length [OF assms] by (auto simp: arp_find_def find_idx_Some_iff)
next
  assume "\<exists>i < 16. avalid (c ! i) \<and> aip (c ! i) = ip \<and> amac (c ! i) = m"
  then obtain i where i: "i < 16" "avalid (c ! i)" "aip (c ! i) = ip" "amac (c ! i) = m" by blast
  have "arp_find ip c \<noteq> None"
    using i arp_ok_length [OF assms] by (auto simp: arp_find_def find_idx_None_iff all_set_conv_all_nth)
  then obtain k where k: "arp_find ip c = Some k" by blast
  then have "k < 16" "avalid (c ! k)" "aip (c ! k) = ip"
    using arp_ok_length [OF assms] by (auto simp: arp_find_def find_idx_Some_iff)
  then have "k = i" using i assms unfolding arp_ok_def by blast
  with k i show "net_arp_lookup c ip = Some m" by (simp add: net_arp_lookup_def)
qed

text \<open>A slot for a new or known address: the slot where the store writes.\<close>

lemma arp_store_slot:
  assumes "arp_ok c"
  obtains i where "i < 16" "arp_cache_store ip mac c = c[i := (c ! i)\<lparr>aip := ip, amac := mac, avalid := True\<rparr>]"
    "\<forall>j < 16. j \<noteq> i \<longrightarrow> avalid (c ! j) \<longrightarrow> aip (c ! j) \<noteq> ip"
    "avalid (c ! i) \<and> aip (c ! i) = ip \<or> \<not> avalid (c ! i) \<or> i = 0"
proof -
  note len = arp_ok_length [OF assms]
  show ?thesis
  proof (cases "arp_find ip c")
    case (Some i)
    then have i: "i < 16" "avalid (c ! i)" "aip (c ! i) = ip"
      using len by (auto simp: arp_find_def find_idx_Some_iff)
    have "(c ! i)\<lparr>amac := mac\<rparr> = (c ! i)\<lparr>aip := ip, amac := mac, avalid := True\<rparr>" using i by simp
    then have "arp_cache_store ip mac c = c[i := (c ! i)\<lparr>aip := ip, amac := mac, avalid := True\<rparr>]"
      using Some by (simp only: arp_cache_store_def option.case)
    moreover have "\<forall>j < 16. j \<noteq> i \<longrightarrow> avalid (c ! j) \<longrightarrow> aip (c ! j) \<noteq> ip"
      using i assms unfolding arp_ok_def by blast
    ultimately show ?thesis using that [of i] i by blast
  next
    case None
    then have n: "\<forall>j < 16. avalid (c ! j) \<longrightarrow> aip (c ! j) \<noteq> ip"
      using len by (auto simp: arp_find_def find_idx_None_iff all_set_conv_all_nth)
    show ?thesis
    proof (cases "find_idx (\<lambda>e. \<not> avalid e) c")
      case (Some i)
      then have "i < 16" "\<not> avalid (c ! i)" using len by (auto simp: find_idx_Some_iff)
      with n Some None show ?thesis using that [of i] by (simp add: arp_cache_store_def)
    next
      case None2: None
      with n None show ?thesis using that [of 0] by (simp add: arp_cache_store_def)
    qed
  qed
qed

lemma arp_store_lookup:
  assumes "arp_ok c"
  shows "arp_ok (arp_cache_store ip mac c)"
    "net_arp_lookup (arp_cache_store ip mac c) ip = Some mac"
    "ip' \<noteq> ip \<Longrightarrow> net_arp_lookup (arp_cache_store ip mac c) ip' = net_arp_lookup c ip'
      \<or> net_arp_lookup (arp_cache_store ip mac c) ip' = None"
proof -
  note len = arp_ok_length [OF assms]
  obtain i where i: "i < 16"
    "arp_cache_store ip mac c = c[i := (c ! i)\<lparr>aip := ip, amac := mac, avalid := True\<rparr>]"
    "\<forall>j < 16. j \<noteq> i \<longrightarrow> avalid (c ! j) \<longrightarrow> aip (c ! j) \<noteq> ip" by (rule arp_store_slot [OF assms, of ip mac])
  let ?c = "c[i := (c ! i)\<lparr>aip := ip, amac := mac, avalid := True\<rparr>]"
  have nth: "?c ! j = (if j = i then (c ! i)\<lparr>aip := ip, amac := mac, avalid := True\<rparr> else c ! j)"
    if "j < 16" for j using that len by (simp add: nth_list_update)
  have ok: "arp_ok ?c"
    unfolding arp_ok_def
  proof (intro conjI allI impI)
    show "length ?c = ARP_CACHE_SIZE" using assms by (simp add: arp_ok_def)
    fix j k assume "j < (16 :: nat)" "k < (16 :: nat)" "avalid (?c ! j)" "avalid (?c ! k)" "aip (?c ! j) = aip (?c ! k)"
    then show "j = k"
      using i(3) assms unfolding arp_ok_def by (auto simp: nth split: if_splits)
  qed
  then show "arp_ok (arp_cache_store ip mac c)" by (simp add: i(2))
  show "net_arp_lookup (arp_cache_store ip mac c) ip = Some mac"
    unfolding i(2) arp_lookup_iff [OF ok] by (rule exI [of _ i]) (simp add: i(1) nth)
  show "net_arp_lookup (arp_cache_store ip mac c) ip' = net_arp_lookup c ip'
      \<or> net_arp_lookup (arp_cache_store ip mac c) ip' = None" if ne: "ip' \<noteq> ip"
  proof (cases "net_arp_lookup ?c ip'")
    case (Some m)
    then obtain j where j: "j < 16" "avalid (?c ! j)" "aip (?c ! j) = ip'" "amac (?c ! j) = m"
      unfolding arp_lookup_iff [OF ok] by blast
    then have "j \<noteq> i" using ne by (auto simp: nth)
    then have "net_arp_lookup c ip' = Some m"
      using j unfolding arp_lookup_iff [OF assms] by (auto simp: nth)
    with Some i(2) show ?thesis by simp
  qed (simp add: i(2))
qed

interpretation ac: cache arp_ok "\<lambda>_. True" net_arp_lookup arp_cache_store
proof unfold_locales
  fix t k v
  assume "arp_ok t"
  then show "arp_ok (arp_cache_store k v t)" "net_arp_lookup (arp_cache_store k v t) k = Some v"
    by (rule arp_store_lookup)+
qed (rule arp_store_lookup(3))

section \<open>What goes on the wire\<close>

text \<open>A card that is there, buffers from a heap with room for one packet.\<close>

definition net_ok :: "net \<Rightarrow> chunk list \<Rightarrow> bool" where
  "net_ok n hs \<longleftrightarrow> rtl_ok (nic n) \<and> rtl_present (nic n) \<and> heap_rep (nheap n) hs \<and> coalesced hs
     \<and> (\<exists>c \<in> set hs. fits 1600 c) \<and> length (my_mac n) = 6 \<and> arp_ok (arp_cache n)
     \<and> (\<forall>e \<in> set (arp_cache n). length (amac e) = 6)"

lemma dst_mac_length: "net_ok n hs \<Longrightarrow> length (dst_mac ip n) = 6"
  by (auto simp: net_ok_def dst_mac_def broadcast_def net_arp_lookup_def arp_find_def find_idx_Some_iff
      split: option.splits)

lemma with_pkt_sends:
  assumes ok: "net_ok n hs" and sz: "0 < unat sz" "unat sz \<le> 1536"
    and build: "\<And>h. \<exists>n1. build (n\<lparr>nheap := h\<rparr>) = Some (n1\<lparr>nheap := h\<rparr>, f) \<and> nic n1 = nic n \<and> P n1"
    and len: "length f = unat sz"
  shows "\<exists>n'. with_pkt sz build n = Some (n', True) \<and> heap_rep (nheap n') hs
    \<and> wire (nic n') = wire (nic n) @ [f @ replicate (60 - length f) 0] \<and> rtl_ok (nic n')
    \<and> (\<exists>n1 h r. n' = n1\<lparr>nheap := h, nic := r\<rparr> \<and> P n1)"
proof -
  have s: "ucast sz \<noteq> (0 :: u32)" "unat (ucast sz :: u32) + 7 < 2 ^ 32"
    using sz by (auto simp: word_eq_unat)
  have "unat (round8 (ucast sz)) \<le> 1600" using s sz by (simp add: unat_round8)
  then have fit: "\<exists>c \<in> set hs. fits (unat (round8 (ucast sz))) c"
    using ok by (fastforce simp: net_ok_def fits_def)
  obtain h p where h: "kmalloc (nheap n) (ucast sz) = Some (h, p)" "p \<noteq> 0"
    using kmalloc_block [OF _ _ s] ok fit unfolding net_ok_def by meson
  then have free: "heap_rep (kfree h p) hs"
    using kfree_undoes_kmalloc [OF _ _ s(1)] ok unfolding net_ok_def by blast
  obtain n1 where n1: "build (n\<lparr>nheap := h\<rparr>) = Some (n1\<lparr>nheap := h\<rparr>, f)" "nic n1 = nic n" "P n1"
    using build by blast
  have "unat (of_nat (length f) :: u16) = length f" using len sz by (intro unat_of_nat_lt) simp
  then obtain r where r: "rtl8139_send f (of_nat (length f)) (nic n) = (r, True)" "rtl_ok r"
    "wire r = wire (nic n) @ [f @ replicate (60 - length f) 0]"
    using send_wire [of "nic n" f "of_nat (length f)"] ok len sz by (auto simp: net_ok_def)
  have "with_pkt sz build n = Some (n1\<lparr>nheap := kfree h p, nic := r\<rparr>, True)"
    using h n1 r len by (simp add: with_pkt_def send_on_def)
  with free r n1(3) show ?thesis by (intro exI [of _ "n1\<lparr>nheap := kfree h p, nic := r\<rparr>"]) auto
qed

text \<open>Without a card, or without room in the heap, a packet is not sent, but the call returns.\<close>

definition heap_ok :: "net \<Rightarrow> chunk list \<Rightarrow> bool" where
  "heap_ok n hs \<longleftrightarrow> heap_rep (nheap n) hs \<and> coalesced hs \<and> length (my_mac n) = 6
     \<and> (\<forall>e \<in> set (arp_cache n). length (amac e) = 6)"

lemma dst_mac_length6: "heap_ok n hs \<Longrightarrow> length (dst_mac ip n) = 6"
  by (auto simp: heap_ok_def dst_mac_def broadcast_def net_arp_lookup_def arp_find_def find_idx_Some_iff
      split: option.splits)

lemma with_pkt_returns:
  assumes ok: "heap_ok n hs" and sz: "0 < sz"
    and build: "\<And>h. \<exists>n1 f. build (n\<lparr>nheap := h\<rparr>) = Some (n1, f) \<and> length f = unat sz \<and> nheap n1 = h
      \<and> my_mac n1 = my_mac n \<and> arp_cache n1 = arp_cache n"
  shows "\<exists>n' b. with_pkt sz build n = Some (n', b) \<and> heap_ok n' hs"
proof -
  have s: "ucast sz \<noteq> (0 :: u32)" "unat (ucast sz :: u32) + 7 < 2 ^ 32"
    using sz unat_lt16 [of sz] by (auto simp: word_eq_unat word_less_nat_alt)
  from kmalloc_block [OF _ _ s] ok consider "kmalloc (nheap n) (ucast sz) = Some (nheap n, 0)"
    | h p where "kmalloc (nheap n) (ucast sz) = Some (h, p)" "p \<noteq> 0"
    unfolding heap_ok_def by meson
  then show ?thesis
  proof cases
    case 1
    then have "with_pkt sz build n = Some (n\<lparr>nheap := nheap n\<rparr>, False)" by (simp add: with_pkt_def)
    moreover have "heap_ok (n\<lparr>nheap := nheap n\<rparr>) hs" using ok by simp
    ultimately show ?thesis by blast
  next
    case 2
    have free: "heap_rep (kfree h p) hs"
      using kfree_undoes_kmalloc [OF _ _ s(1) 2] ok unfolding heap_ok_def by blast
    obtain n1 f where n1: "build (n\<lparr>nheap := h\<rparr>) = Some (n1, f)" "length f = unat sz" "nheap n1 = h"
      "my_mac n1 = my_mac n" "arp_cache n1 = arp_cache n" using build by blast
    obtain r b where "rtl8139_send f (of_nat (length f)) (nic n1) = (r, b)" by fastforce
    then show ?thesis using 2 n1 free ok by (simp add: with_pkt_def send_on_def heap_ok_def)
  qed
qed

end
