(* ===== verification/Pit.thy ===== *)
theory Pit
  imports Prelude
begin

unbundle bit_operations_syntax

text \<open>
  The interval timer (\<^verbatim>\<open>kernel/pit.cpp\<close>) and the waiting loops of the drivers built on it: a
  loop runs until a condition holds or the uptime reaches a deadline, and halts in between.
  What the interrupts do to the state during the \<open>i\<close>-th halt is the parameter \<open>env i\<close>.
\<close>

section \<open>The timer\<close>

record pit =
  pit_tick_count :: u32
  pit_frequency :: u32

definition PIT_BASE_FREQ :: u32 where "PIT_BASE_FREQ = 1193182"

text \<open>The bytes sent to the timer's ports; dividing by a zero frequency is a fault.\<close>

definition pit_init :: "u32 \<Rightarrow> pit \<Rightarrow> fault + (pit \<times> (u16 \<times> u8) list)" where
  "pit_init f p =
     (if f = 0 then Inl DivideError
      else let d = PIT_BASE_FREQ div f in
        Inr (p\<lparr>pit_frequency := f\<rparr>,
          [(0x43, 0x36), (0x40, ucast (d AND 0xFF)), (0x40, ucast (drop_bit 8 d AND 0xFF))]))"

definition pit_tick :: "pit \<Rightarrow> pit" where
  "pit_tick p = p\<lparr>pit_tick_count := pit_tick_count p + 1\<rparr>"

definition pit_uptime_ms :: "pit \<Rightarrow> u32" where
  "pit_uptime_ms p = pit_tick_count p * 1000 div pit_frequency p"

definition pit_uptime_sec :: "pit \<Rightarrow> u32" where
  "pit_uptime_sec p = pit_tick_count p div pit_frequency p"

definition sleep_ticks :: "u32 \<Rightarrow> pit \<Rightarrow> u32" where
  "sleep_ticks ms p =
     (let t = (ms div 1000) * pit_frequency p + (ms mod 1000) * pit_frequency p div 1000
      in if t = 0 then 1 else t)"

text \<open>
  \<^verbatim>\<open>pit_sleep_ms\<close> spins while timer interrupts arrive: \<open>n i\<close> of them during the \<open>i\<close>-th turn.
\<close>

partial_function (option) sleep_loop :: "(nat \<Rightarrow> nat) \<Rightarrow> u32 \<Rightarrow> u32 \<Rightarrow> nat \<Rightarrow> pit \<Rightarrow> pit option" where
  "sleep_loop n start t i p =
     (if pit_tick_count p - start < t then sleep_loop n start t (Suc i) ((pit_tick ^^ n i) p)
      else Some p)"

definition pit_sleep_ms :: "(nat \<Rightarrow> nat) \<Rightarrow> u32 \<Rightarrow> pit \<Rightarrow> pit option" where
  "pit_sleep_ms n ms p =
     (if ms = 0 then Some p else sleep_loop n (pit_tick_count p) (sleep_ticks ms p) 0 p)"

definition pit_sleep :: "(nat \<Rightarrow> nat) \<Rightarrow> u32 \<Rightarrow> pit \<Rightarrow> pit option" where
  "pit_sleep n s p = pit_sleep_ms n (s * 1000) p"

section \<open>Waiting for a condition\<close>

partial_function (option) wait_until ::
  "('s \<Rightarrow> u32) \<Rightarrow> ('s \<Rightarrow> bool) \<Rightarrow> (nat \<Rightarrow> 's \<Rightarrow> 's) \<Rightarrow> u32 \<Rightarrow> nat \<Rightarrow> 's \<Rightarrow> 's option" where
  "wait_until now stop env deadline i s =
     (if now s < deadline \<and> \<not> stop s then wait_until now stop env deadline (Suc i) (env i s)
      else Some s)"

text \<open>The state after the first \<open>n\<close> halts.\<close>

fun after :: "(nat \<Rightarrow> 's \<Rightarrow> 's) \<Rightarrow> nat \<Rightarrow> nat \<Rightarrow> 's \<Rightarrow> 's" where
  "after env i 0 s = s"
| "after env i (Suc n) s = after env (Suc i) n (env i s)"

lemma wait_until_result:
  assumes "wait_until now stop env d i s = Some t"
  shows "(\<not> now t < d \<or> stop t) \<and> (\<exists>n. t = after env i n s
    \<and> (\<forall>k < n. now (after env i k s) < d \<and> \<not> stop (after env i k s)))"
  using assms
proof (induction rule: wait_until.raw_induct [rotated 1, consumes 1, case_names step])
  case (step f now stop env d i s t)
  show ?case
  proof (cases "now s < d \<and> \<not> stop s")
    case True
    with step(2) have "f now stop env d (Suc i) (env i s) = Some t" by simp
    from step(1) [OF this] obtain n where n: "\<not> now t < d \<or> stop t" "t = after env (Suc i) n (env i s)"
      "\<forall>k < n. now (after env (Suc i) k (env i s)) < d \<and> \<not> stop (after env (Suc i) k (env i s))" by blast
    have "\<forall>k < Suc n. now (after env i k s) < d \<and> \<not> stop (after env i k s)"
      using n(3) True by (auto simp: less_Suc_eq_0_disj)
    with n show ?thesis by (intro conjI exI [of _ "Suc n"]) simp_all
  next
    case False
    with step(2) show ?thesis by (intro conjI exI [of _ 0]) auto
  qed
qed

lemma wait_until_ends:
  "\<not> now (after env i n s) < d \<or> stop (after env i n s) \<Longrightarrow> \<exists>t. wait_until now stop env d i s = Some t"
proof (induction n arbitrary: i s)
  case 0
  then show ?case by (subst wait_until.simps) auto
next
  case (Suc n)
  then show ?case by (subst wait_until.simps) simp
qed

lemma wait_until_hangs:
  assumes "\<And>s. now s < d" "\<And>n. \<not> stop (after env i n s)"
  shows "wait_until now stop env d i s = None"
proof (rule ccontr)
  assume "wait_until now stop env d i s \<noteq> None"
  then obtain t where "wait_until now stop env d i s = Some t" by blast
  from wait_until_result [OF this] assms show False by auto
qed

section \<open>The uptime wraps\<close>

lemma uptime_bound:
  assumes "pit_frequency p = 1000"
  shows "pit_uptime_ms p \<le> 4294967"
proof -
  have "unat (pit_tick_count p * 1000) div 1000 \<le> 4294967"
    using unat_lt32 [of "pit_tick_count p * 1000"] by simp
  then show ?thesis using assms by (simp add: pit_uptime_ms_def word_le_nat_alt unat_div)
qed

lemma funpow_tick: "pit_tick_count ((pit_tick ^^ n) p) = pit_tick_count p + of_nat n"
  by (induction n) (simp_all add: pit_tick_def algebra_simps)

end
