(* ===== verification/Tcp.thy ===== *)
theory Tcp
  imports NetIp Pit
begin

unbundle bit_operations_syntax

text \<open>
  TCP (\<^verbatim>\<open>kernel/tcp.cpp\<close>, \<^verbatim>\<open>kernel/tcp.h\<close>): eight sockets, each with a 8192-byte receive ring
  and one unacknowledged segment kept for retransmission. \<open>uptime\<close> is what \<^verbatim>\<open>pit_uptime_ms\<close>
  reads. An operation that waits takes as a parameter what the interrupts do to the state
  during each halt. The result \<open>None\<close> means that the call does not return or reads outside
  the received packet.
\<close>

section \<open>State\<close>

definition TCP_FIN :: u8 where "TCP_FIN = 0x01"
definition TCP_SYN :: u8 where "TCP_SYN = 0x02"
definition TCP_RST :: u8 where "TCP_RST = 0x04"
definition TCP_PSH :: u8 where "TCP_PSH = 0x08"
definition TCP_ACK :: u8 where "TCP_ACK = 0x10"

lemmas tcp_flags = TCP_FIN_def TCP_SYN_def TCP_RST_def TCP_PSH_def TCP_ACK_def

datatype tcp_state =
  TCP_CLOSED | TCP_SYN_SENT | TCP_ESTABLISHED | TCP_FIN_WAIT_1 | TCP_FIN_WAIT_2
  | TCP_CLOSE_WAIT | TCP_LAST_ACK | TCP_TIME_WAIT

definition TCP_MAX_SOCKETS :: nat where "TCP_MAX_SOCKETS = 8"
definition TCP_RECV_BUF :: u32 where "TCP_RECV_BUF = 8192"
definition RECV_N :: nat where "RECV_N = 8192"
definition TCP_RETX_BUF :: u16 where "TCP_RETX_BUF = 2048"
definition TCP_MSS :: u16 where "TCP_MSS = 1460"
definition TCP_RETX_TIMEOUT_MS :: u32 where "TCP_RETX_TIMEOUT_MS = 1000"
definition TCP_MAX_RETX :: u8 where "TCP_MAX_RETX = 6"
definition TCP_TIMEWAIT_MS :: u32 where "TCP_TIMEWAIT_MS = 4000"

record tcpsock =
  st :: tcp_state
  retx_count :: u8
  local_port :: u16
  remote_port :: u16
  remote_ip :: u32
  snd_nxt :: u32
  snd_una :: u32
  rcv_nxt :: u32
  retx_buf :: bytes
  retx_len :: u16
  retx_flags :: u8
  retx_seq :: u32
  retx_deadline :: u32
  recv_buf :: bytes
  recv_head :: u32
  recv_tail :: u32
  recv_len :: u32
  timewait_deadline :: u32
  used :: bool

definition zero_sock :: tcpsock where
  "zero_sock = \<lparr>st = TCP_CLOSED, retx_count = 0, local_port = 0, remote_port = 0, remote_ip = 0,
     snd_nxt = 0, snd_una = 0, rcv_nxt = 0, retx_buf = replicate 2048 0, retx_len = 0,
     retx_flags = 0, retx_seq = 0, retx_deadline = 0, recv_buf = replicate 8192 0,
     recv_head = 0, recv_tail = 0, recv_len = 0, timewait_deadline = 0, used = False\<rparr>"

record tcp =
  socks :: "tcpsock list"
  next_port :: u16
  uptime :: u32
  tnet :: net

definition put_sock :: "nat \<Rightarrow> tcpsock \<Rightarrow> tcp \<Rightarrow> tcp" where
  "put_sock i s t = t\<lparr>socks := (socks t)[i := s]\<rparr>"

definition tcp_init :: "tcp \<Rightarrow> tcp" where
  "tcp_init t = t\<lparr>socks := replicate TCP_MAX_SOCKETS zero_sock\<rparr>"

definition alloc_sock :: "tcp \<Rightarrow> tcp \<times> nat option" where
  "alloc_sock t = (case find_idx (\<lambda>s. \<not> used s) (socks t) of
     None \<Rightarrow> (t, None)
   | Some i \<Rightarrow> (put_sock i (zero_sock\<lparr>used := True\<rparr>) t, Some i))"

definition free_sock :: "tcpsock \<Rightarrow> tcpsock" where
  "free_sock s = s\<lparr>st := TCP_CLOSED, used := False\<rparr>"

definition bump_port :: "u16 \<Rightarrow> u16" where
  "bump_port p = (if 65535 \<le> p then 49152 else p + 1)"

fun next_ephemeral :: "nat \<Rightarrow> tcp \<Rightarrow> tcp \<times> u16" where
  "next_ephemeral 0 t = (t\<lparr>next_port := next_port t + 1\<rparr>, next_port t)"
| "next_ephemeral (Suc n) t =
     (let p = next_port t; t1 = t\<lparr>next_port := bump_port p\<rparr> in
      if \<exists>s \<in> set (socks t). used s \<and> local_port s = p then next_ephemeral n t1 else (t1, p))"

text \<open>Sequence numbers compare by the sign of their difference.\<close>

definition seq_gt :: "u32 \<Rightarrow> u32 \<Rightarrow> bool" where "seq_gt a b \<longleftrightarrow> 0 < sint (a - b)"
definition seq_gte :: "u32 \<Rightarrow> u32 \<Rightarrow> bool" where "seq_gte a b \<longleftrightarrow> 0 \<le> sint (a - b)"

section \<open>Sending segments\<close>

definition chksum :: "bytes \<Rightarrow> u16" where
  "chksum d = NOT (ucast (fold16 (sum16 d 0)))"

definition tcp_cksum :: "u32 \<Rightarrow> u32 \<Rightarrow> bytes \<Rightarrow> u16" where
  "tcp_cksum src dst seg =
     NOT (ucast (fold16 (sum16 seg
       (sum16 (bytes32 src @ bytes32 dst @ [0, 6] @ bytes16 (htons (of_nat (length seg)))) 0))))"

definition tcp_fields :: "tcpsock \<Rightarrow> u8 \<Rightarrow> u16 \<Rightarrow> bytes \<Rightarrow> bytes" where
  "tcp_fields s flags ck payload =
     bytes16 (htons (local_port s)) @ bytes16 (htons (remote_port s)) @ bytes32 (htonl (snd_nxt s))
       @ bytes32 (if flags AND TCP_ACK \<noteq> 0 then htonl (rcv_nxt s) else 0)
       @ [0x50, flags] @ bytes16 (htons (ucast TCP_RECV_BUF)) @ bytes16 ck @ bytes16 0 @ payload"

definition tcp_segment :: "u32 \<Rightarrow> tcpsock \<Rightarrow> u8 \<Rightarrow> bytes \<Rightarrow> bytes" where
  "tcp_segment src s flags payload =
     tcp_fields s flags (tcp_cksum src (remote_ip s) (tcp_fields s flags 0 payload)) payload"

definition tcp_packet :: "tcpsock \<Rightarrow> u8 \<Rightarrow> bytes \<Rightarrow> net \<Rightarrow> bytes" where
  "tcp_packet s flags payload n =
     (let tot = 20 + (20 + of_nat (length payload)) in
      eth_frame (dst_mac (remote_ip s) n) (my_mac n) ETH_TYPE_IP
        (ip_header tot (tcp_ip_id n) 0x4000 IP_PROTO_TCP (my_ip n) (remote_ip s)
          @ tcp_segment (my_ip n) s flags payload))"

text \<open>The bookkeeping of a segment that was handed to the card.\<close>

definition seg_advance :: "u8 \<Rightarrow> bytes \<Rightarrow> u32" where
  "seg_advance flags payload = ucast (of_nat (length payload) :: u16)
     + (if flags AND TCP_SYN \<noteq> 0 then 1 else 0) + (if flags AND TCP_FIN \<noteq> 0 then 1 else 0)"

definition save_segment :: "u8 \<Rightarrow> bytes \<Rightarrow> u32 \<Rightarrow> tcpsock \<Rightarrow> tcpsock" where
  "save_segment flags payload now s =
     (let pl = of_nat (length payload) :: u16; copy = (if pl < TCP_RETX_BUF then pl else TCP_RETX_BUF) in
      s\<lparr>retx_seq := snd_nxt s, retx_flags := flags,
        retx_buf := copy_into (retx_buf s) (take (unat copy) payload), retx_len := copy,
        retx_count := 0, retx_deadline := now + TCP_RETX_TIMEOUT_MS\<rparr>)"

definition tcp_send_raw ::
  "u8 \<Rightarrow> bytes \<Rightarrow> bool \<Rightarrow> tcpsock \<Rightarrow> tcp \<Rightarrow> (tcp \<times> tcpsock \<times> bool) option" where
  "tcp_send_raw flags payload save s t = do {
     (n, ok) \<leftarrow> with_pkt (14 + (20 + (20 + of_nat (length payload))))
       (\<lambda>n. Some (n\<lparr>tcp_ip_id := tcp_ip_id n + 1\<rparr>, tcp_packet s flags payload n)) (tnet t);
     (let t' = t\<lparr>tnet := n\<rparr>;
          s1 = (if save \<and> 0 < seg_advance flags payload then save_segment flags payload (uptime t) s else s)
      in Some (if ok then (t', s1\<lparr>snd_nxt := snd_nxt s + seg_advance flags payload\<rparr>, True) else (t', s, False)))
   }"

definition tcp_send_ack :: "tcpsock \<Rightarrow> tcp \<Rightarrow> (tcp \<times> tcpsock) option" where
  "tcp_send_ack s t = map_option (\<lambda>(t, s, ok). (t, s)) (tcp_send_raw TCP_ACK [] False s t)"

definition tcp_send_rst_for :: "u32 \<Rightarrow> u16 \<Rightarrow> u16 \<Rightarrow> u32 \<Rightarrow> tcp \<Rightarrow> tcp option" where
  "tcp_send_rst_for dst dport sport seq t =
     map_option fst (tcp_send_raw TCP_RST [] False
       (zero_sock\<lparr>remote_ip := dst, local_port := sport, remote_port := dport, snd_nxt := seq\<rparr>) t)"

section \<open>Timers\<close>

definition do_retransmit :: "tcpsock \<Rightarrow> tcp \<Rightarrow> (tcp \<times> tcpsock) option" where
  "do_retransmit s t =
     (if retx_len s = 0 \<and> retx_flags s AND (TCP_SYN OR TCP_FIN) = 0 then Some (t, s)
      else
        let s1 = s\<lparr>retx_count := retx_count s + 1\<rparr> in
        if TCP_MAX_RETX < retx_count s1 then Some (t, free_sock s1)
        else do {
          (t2, s2, ok) \<leftarrow> tcp_send_raw (retx_flags s1) (take (unat (retx_len s1)) (retx_buf s1)) False
             (s1\<lparr>snd_nxt := retx_seq s1\<rparr>) t;
          (let to = push_bit (unat (retx_count s2)) TCP_RETX_TIMEOUT_MS;
               to' = (if 32000 < to then 32000 else to)
           in Some (t2, s2\<lparr>retx_deadline := uptime t2 + to'\<rparr>))
        })"

definition tick_sock :: "u32 \<Rightarrow> tcpsock \<Rightarrow> tcp \<Rightarrow> (tcp \<times> tcpsock) option" where
  "tick_sock now s t =
     (if \<not> used s then Some (t, s)
      else if st s = TCP_TIME_WAIT then
        Some (t, if timewait_deadline s \<le> now then free_sock s else s)
      else if retx_deadline s \<noteq> 0 \<and> retx_deadline s \<le> now then
        (if seq_gt (snd_nxt s) (snd_una s) then do_retransmit s t
         else Some (t, s\<lparr>retx_deadline := 0\<rparr>))
      else Some (t, s))"

fun tick_from :: "nat list \<Rightarrow> u32 \<Rightarrow> tcp \<Rightarrow> tcp option" where
  "tick_from [] now t = Some t"
| "tick_from (i # is) now t = do {
     (t1, s) \<leftarrow> tick_sock now (socks t ! i) t;
     tick_from is now (put_sock i s t1)
   }"

definition tcp_tick :: "tcp \<Rightarrow> tcp option" where
  "tcp_tick t = tick_from [0..<TCP_MAX_SOCKETS] (uptime t) t"

section \<open>Receiving segments\<close>

text \<open>
  What the established and half-closed states do with data that is next in sequence: as much
  as there is room for is stored and acknowledged.
\<close>

definition data_copy :: "u16 \<Rightarrow> tcpsock \<Rightarrow> u16" where
  "data_copy pay_len s =
     (let space = TCP_RECV_BUF - recv_len s in
      if ucast pay_len < space then pay_len else ucast space)"

definition store_data :: "bytes \<Rightarrow> tcpsock \<Rightarrow> tcpsock" where
  "store_data d s = (case ring_put RECV_N (recv_buf s) (unat (recv_head s)) d of (buf, h) \<Rightarrow>
     s\<lparr>recv_buf := buf, recv_head := of_nat h, recv_len := recv_len s + of_nat (length d),
       rcv_nxt := rcv_nxt s + of_nat (length d)\<rparr>)"

definition take_data :: "bytes \<Rightarrow> u16 \<Rightarrow> u32 \<Rightarrow> tcpsock \<Rightarrow> (tcpsock \<times> bool) option" where
  "take_data payload pay_len seq s =
     (if 0 < pay_len \<and> seq = rcv_nxt s then
        let n = unat (data_copy pay_len s) in
        if length payload < n then None else Some (store_data (take n payload) s, True)
      else Some (s, False))"

definition ack_step :: "u8 \<Rightarrow> u32 \<Rightarrow> tcpsock \<Rightarrow> tcpsock" where
  "ack_step flags ack s =
     (if flags AND TCP_ACK \<noteq> 0 \<and> seq_gt ack (snd_una s) \<and> seq_gte (snd_nxt s) ack then
        if ack = snd_nxt s then s\<lparr>snd_una := ack, retx_deadline := 0, retx_len := 0, retx_count := 0\<rparr>
        else s\<lparr>snd_una := ack\<rparr>
      else s)"

definition enter_time_wait :: "tcpsock \<Rightarrow> tcp \<Rightarrow> (tcp \<times> tcpsock) option" where
  "enter_time_wait s t = do {
     (t1, s1) \<leftarrow> tcp_send_ack (s\<lparr>rcv_nxt := rcv_nxt s + 1\<rparr>) t;
     Some (t1, s1\<lparr>st := TCP_TIME_WAIT, timewait_deadline := uptime t1 + TCP_TIMEWAIT_MS\<rparr>)
   }"

definition rx_syn_sent :: "u8 \<Rightarrow> u32 \<Rightarrow> u32 \<Rightarrow> tcpsock \<Rightarrow> tcp \<Rightarrow> (tcp \<times> tcpsock) option" where
  "rx_syn_sent flags seq ack s t =
     (if flags AND (TCP_SYN OR TCP_ACK) = TCP_SYN OR TCP_ACK then
        if ack \<noteq> snd_nxt s then
          map_option (\<lambda>t. (t, free_sock s))
            (tcp_send_rst_for (remote_ip s) (remote_port s) (local_port s) ack t)
        else tcp_send_ack (s\<lparr>rcv_nxt := seq + 1, snd_una := ack, st := TCP_ESTABLISHED, retx_deadline := 0\<rparr>) t
      else Some (t, s))"

definition rx_established ::
  "u8 \<Rightarrow> u32 \<Rightarrow> bytes \<Rightarrow> u16 \<Rightarrow> tcpsock \<Rightarrow> tcp \<Rightarrow> (tcp \<times> tcpsock) option" where
  "rx_established flags seq payload pay_len s t = do {
     (s1, stored) \<leftarrow> take_data payload pay_len seq s;
     (t2, s2) \<leftarrow> (if stored then tcp_send_ack s1 t else Some (t, s1));
     if flags AND TCP_FIN \<noteq> 0 then do {
       (t3, s3) \<leftarrow> tcp_send_ack (s2\<lparr>rcv_nxt := rcv_nxt s2 + 1\<rparr>) t2;
       (t4, s4, ok) \<leftarrow> tcp_send_raw (TCP_FIN OR TCP_ACK) [] True (s3\<lparr>st := TCP_LAST_ACK\<rparr>) t3;
       Some (t4, s4)
     }
     else Some (t2, s2)
   }"

definition rx_fin_wait_1 :: "u8 \<Rightarrow> tcpsock \<Rightarrow> tcp \<Rightarrow> (tcp \<times> tcpsock) option" where
  "rx_fin_wait_1 flags s t =
     (let s1 = (if flags AND TCP_ACK \<noteq> 0 then s\<lparr>st := TCP_FIN_WAIT_2\<rparr> else s) in
      if flags AND TCP_FIN \<noteq> 0 then enter_time_wait s1 t else Some (t, s1))"

definition rx_fin_wait_2 ::
  "u8 \<Rightarrow> u32 \<Rightarrow> bytes \<Rightarrow> u16 \<Rightarrow> tcpsock \<Rightarrow> tcp \<Rightarrow> (tcp \<times> tcpsock) option" where
  "rx_fin_wait_2 flags seq payload pay_len s t = do {
     (s1, stored) \<leftarrow> take_data payload pay_len seq s;
     if flags AND TCP_FIN \<noteq> 0 then enter_time_wait s1 t else Some (t, s1)
   }"

definition rx_time_wait :: "u8 \<Rightarrow> tcpsock \<Rightarrow> tcp \<Rightarrow> (tcp \<times> tcpsock) option" where
  "rx_time_wait flags s t = (if flags AND TCP_FIN \<noteq> 0 then enter_time_wait s t else Some (t, s))"

definition rx_state ::
  "u8 \<Rightarrow> u32 \<Rightarrow> u32 \<Rightarrow> bytes \<Rightarrow> u16 \<Rightarrow> tcpsock \<Rightarrow> tcp \<Rightarrow> (tcp \<times> tcpsock) option" where
  "rx_state flags seq ack payload pay_len s t =
     (case st s of
        TCP_SYN_SENT \<Rightarrow> rx_syn_sent flags seq ack s t
      | TCP_ESTABLISHED \<Rightarrow> rx_established flags seq payload pay_len s t
      | TCP_FIN_WAIT_1 \<Rightarrow> rx_fin_wait_1 flags s t
      | TCP_FIN_WAIT_2 \<Rightarrow> rx_fin_wait_2 flags seq payload pay_len s t
      | TCP_LAST_ACK \<Rightarrow> Some (t, if flags AND TCP_ACK \<noteq> 0 then free_sock s else s)
      | TCP_TIME_WAIT \<Rightarrow> rx_time_wait flags s t
      | _ \<Rightarrow> Some (t, s))"

definition matches :: "u32 \<Rightarrow> u16 \<Rightarrow> u16 \<Rightarrow> tcpsock \<Rightarrow> bool" where
  "matches ip rport lport s \<longleftrightarrow> used s \<and> st s \<noteq> TCP_CLOSED \<and> remote_ip s = ip
     \<and> remote_port s = rport \<and> local_port s = lport"

text \<open>The header's fields, at their offsets; \<open>seg\<close> is the receive buffer from the segment on.\<close>

definition tcp_receive :: "u32 \<Rightarrow> bytes \<Rightarrow> u16 \<Rightarrow> tcp \<Rightarrow> tcp option" where
  "tcp_receive src seg len t =
     (let hdr = drop_bit 4 (seg ! 12) * 4;
          sport = htons (get16 seg 0); dport = htons (get16 seg 2);
          seq = htonl (get32 seg 4); ack = htonl (get32 seg 8); flags = seg ! 13;
          payload = drop (unat hdr) seg; pay_len = len - ucast hdr in
      if len < 20 then Some t
      else if hdr < 20 \<or> len < ucast hdr then Some t
      else case find_idx (matches src sport dport) (socks t) of
        None \<Rightarrow> if flags AND TCP_RST = 0 then tcp_send_rst_for src sport dport ack t else Some t
      | Some i \<Rightarrow>
          if flags AND TCP_RST \<noteq> 0 then Some (put_sock i (free_sock (socks t ! i)) t)
          else do {
            (t1, s1) \<leftarrow> rx_state flags seq ack payload pay_len (ack_step flags ack (socks t ! i)) t;
            Some (put_sock i s1 t1)
          })"

section \<open>Operations of the client\<close>

definition connect_sock :: "u32 \<Rightarrow> u16 \<Rightarrow> u16 \<Rightarrow> u32 \<Rightarrow> tcpsock \<Rightarrow> tcpsock" where
  "connect_sock ip port lport now s =
     (let iss = (now * 7919 XOR push_bit 16 (ucast lport)) XOR 0xDEAD0000 in
      s\<lparr>remote_ip := ip, local_port := lport, remote_port := port, snd_nxt := iss, snd_una := iss,
        st := TCP_SYN_SENT\<rparr>)"

definition tcp_connect ::
  "(nat \<Rightarrow> tcp \<Rightarrow> tcp) \<Rightarrow> u32 \<Rightarrow> u16 \<Rightarrow> u32 \<Rightarrow> tcp \<Rightarrow> (tcp \<times> nat option) option" where
  "tcp_connect env ip port timeout t =
     (case alloc_sock t of
        (t1, None) \<Rightarrow> Some (t1, None)
      | (t1, Some i) \<Rightarrow>
         (case next_ephemeral 16384 t1 of (t2, lport) \<Rightarrow> do {
            (t3, s, ok) \<leftarrow> tcp_send_raw TCP_SYN [] True
               (connect_sock ip port lport (uptime t2) (socks t2 ! i)) t2;
            if \<not> ok then Some (put_sock i (free_sock s) t3, None)
            else do {
              t4 \<leftarrow> wait_until uptime
                 (\<lambda>t. st (socks t ! i) = TCP_ESTABLISHED \<or> \<not> used (socks t ! i) \<or> st (socks t ! i) = TCP_CLOSED)
                 env (uptime t3 + timeout) 0 (put_sock i s t3);
              Some (if st (socks t4 ! i) = TCP_ESTABLISHED then (t4, Some i)
                    else (put_sock i (free_sock (socks t4 ! i)) t4, None))
            }
          }))"

definition sock_at :: "int \<Rightarrow> tcp \<Rightarrow> (nat \<times> tcpsock) option" where
  "sock_at k t = (if k < 0 \<or> int TCP_MAX_SOCKETS \<le> k then None else Some (nat k, socks t ! nat k))"

text \<open>The result is the number of bytes handed to the network, or -1.\<close>

partial_function (option) send_chunks ::
  "(nat \<Rightarrow> nat \<Rightarrow> tcp \<Rightarrow> tcp) \<Rightarrow> nat \<Rightarrow> nat \<Rightarrow> bytes \<Rightarrow> u16 \<Rightarrow> tcp \<Rightarrow> (tcp \<times> int) option" where
  "send_chunks env k i data sent t =
     (let len = of_nat (length data) :: u16 in
      if len \<le> sent then Some (t, uint sent)
      else
        let chunk = (if TCP_MSS < len - sent then TCP_MSS else len - sent) in do {
          (t1, s, ok) \<leftarrow> tcp_send_raw (TCP_ACK OR TCP_PSH)
             (take (unat chunk) (drop (unat sent) data)) True (socks t ! i) t;
          if \<not> ok then Some (put_sock i s t1, if 0 < sent then uint sent else -1)
          else
            let sent' = sent + chunk; deadline = uptime t1 + TCP_RETX_TIMEOUT_MS * 3 in do {
              t2 \<leftarrow> wait_until uptime
                 (\<lambda>t. snd_una (socks t ! i) = snd_nxt (socks t ! i) \<or> \<not> used (socks t ! i))
                 (env k) deadline 0 (put_sock i s t1);
              if uptime t2 < deadline \<and> snd_una (socks t2 ! i) \<noteq> snd_nxt (socks t2 ! i)
              then Some (t2, if 0 < sent' then uint sent' else -1)
              else send_chunks env (Suc k) i data sent' t2
            }
        })"

definition tcp_send :: "(nat \<Rightarrow> nat \<Rightarrow> tcp \<Rightarrow> tcp) \<Rightarrow> int \<Rightarrow> bytes \<Rightarrow> tcp \<Rightarrow> (tcp \<times> int) option" where
  "tcp_send env k data t =
     (case sock_at k t of
        None \<Rightarrow> Some (t, -1)
      | Some (i, s) \<Rightarrow>
          if \<not> used s \<or> st s \<noteq> TCP_ESTABLISHED then Some (t, -1) else send_chunks env 0 i data 0 t)"

definition recv_sock :: "u16 \<Rightarrow> tcpsock \<Rightarrow> tcpsock \<times> bytes" where
  "recv_sock maxlen s =
     (let n = ucast (if recv_len s < ucast maxlen then recv_len s else ucast maxlen) :: u16 in
      case ring_get RECV_N (recv_buf s) (unat (recv_tail s)) (unat n) of (bs, p) \<Rightarrow>
        (s\<lparr>recv_tail := of_nat p, recv_len := recv_len s - ucast n\<rparr>, bs))"

text \<open>The return value and the bytes copied to the caller.\<close>

definition tcp_recv :: "int \<Rightarrow> u16 \<Rightarrow> tcp \<Rightarrow> tcp \<times> int \<times> bytes" where
  "tcp_recv k maxlen t =
     (case sock_at k t of
        None \<Rightarrow> (t, -1, [])
      | Some (i, s) \<Rightarrow>
          if \<not> used s then (t, -1, [])
          else if recv_len s = 0 then (t, 0, [])
          else case recv_sock maxlen s of (s', bs) \<Rightarrow> (put_sock i s' t, int (length bs), bs))"

definition tcp_recv_wait ::
  "(nat \<Rightarrow> tcp \<Rightarrow> tcp) \<Rightarrow> int \<Rightarrow> u16 \<Rightarrow> u32 \<Rightarrow> tcp \<Rightarrow> (tcp \<times> int \<times> bytes) option" where
  "tcp_recv_wait env k maxlen timeout t =
     (case sock_at k t of
        None \<Rightarrow> Some (t, -1, [])
      | Some (i, s) \<Rightarrow>
          if \<not> used s then Some (t, -1, [])
          else do {
            t1 \<leftarrow> wait_until uptime
               (\<lambda>t. let s = socks t ! i in 0 < recv_len s \<or> \<not> used s
                  \<or> st s \<in> {TCP_CLOSE_WAIT, TCP_LAST_ACK, TCP_CLOSED, TCP_TIME_WAIT})
               env (uptime t + timeout) 0 t;
            Some (tcp_recv k maxlen t1)
          })"

definition tcp_close :: "(nat \<Rightarrow> tcp \<Rightarrow> tcp) \<Rightarrow> int \<Rightarrow> tcp \<Rightarrow> tcp option" where
  "tcp_close env k t =
     (case sock_at k t of
        None \<Rightarrow> Some t
      | Some (i, s) \<Rightarrow>
          if \<not> used s then Some t
          else do {
            t1 \<leftarrow> (if st s = TCP_ESTABLISHED then do {
                (t1, s1, ok) \<leftarrow> tcp_send_raw (TCP_FIN OR TCP_ACK) [] True (s\<lparr>st := TCP_FIN_WAIT_1\<rparr>) t;
                wait_until uptime
                  (\<lambda>t. let s = socks t ! i in \<not> used s \<or> st s = TCP_TIME_WAIT \<or> st s = TCP_CLOSED)
                  env (uptime t1 + 4000) 0 (put_sock i s1 t1)
              } else Some t);
            Some (if st (socks t1 ! i) \<noteq> TCP_TIME_WAIT then put_sock i (free_sock (socks t1 ! i)) t1 else t1)
          })"

definition tcp_state_of :: "int \<Rightarrow> tcp \<Rightarrow> tcp_state" where
  "tcp_state_of k t = (case sock_at k t of None \<Rightarrow> TCP_CLOSED
     | Some (i, s) \<Rightarrow> if used s then st s else TCP_CLOSED)"

end
