(* ===== verification/TcpProps.thy ===== *)
theory TcpProps
  imports Tcp
begin

unbundle bit_operations_syntax

text \<open>
  What TCP promises: the bytes a client receives are a prefix of the peer's stream whatever
  the network does, sockets move only along the edges of the protocol's state machine, a
  silent peer costs a bounded number of retransmissions, and every segment's checksum
  verifies.
\<close>

section \<open>The receive ring\<close>

definition sock_ok :: "tcpsock \<Rightarrow> bool" where
  "sock_ok s \<longleftrightarrow> length (recv_buf s) = RECV_N \<and> unat (recv_tail s) < RECV_N \<and> unat (recv_len s) \<le> RECV_N
     \<and> unat (recv_head s) = (unat (recv_tail s) + unat (recv_len s)) mod RECV_N"

definition sock_data :: "tcpsock \<Rightarrow> bytes" where
  "sock_data s = ring_items RECV_N (recv_buf s) (unat (recv_tail s)) (unat (recv_len s))"

text \<open>The part of a socket that reception and the state machine use.\<close>

definition rx_view ::
  "tcpsock \<Rightarrow> tcp_state \<times> bool \<times> (u32 \<times> u16 \<times> u16) \<times> (bytes \<times> u32 \<times> u32 \<times> u32) \<times> u32" where
  "rx_view s = (st s, used s, (remote_ip s, remote_port s, local_port s),
     (recv_buf s, recv_head s, recv_tail s, recv_len s), rcv_nxt s)"

lemma rx_viewD:
  assumes "rx_view s' = rx_view s"
  shows "st s' = st s" "used s' = used s" "rcv_nxt s' = rcv_nxt s" "sock_ok s' = sock_ok s"
    "sock_data s' = sock_data s" "matches a b c s' = matches a b c s"
    "remote_ip s' = remote_ip s" "remote_port s' = remote_port s" "local_port s' = local_port s"
  using assms by (auto simp: rx_view_def sock_ok_def sock_data_def matches_def)

lemma store_data_ok:
  assumes ok: "sock_ok s" and room: "unat (recv_len s) + length d \<le> RECV_N"
  shows "sock_ok (store_data d s)" "sock_data (store_data d s) = sock_data s @ d"
    "rcv_nxt (store_data d s) = rcv_nxt s + of_nat (length d)" "st (store_data d s) = st s"
    "used (store_data d s) = used s" "remote_ip (store_data d s) = remote_ip s"
    "remote_port (store_data d s) = remote_port s" "local_port (store_data d s) = local_port s"
proof -
  obtain buf h where r: "ring_put RECV_N (recv_buf s) (unat (recv_head s)) d = (buf, h)" by fastforce
  have N: "0 < RECV_N" "RECV_N < 2 ^ 32" by (simp_all add: RECV_N_def)
  from ring_put_spec [OF room _ _ N(1) r, of "unat (recv_tail s)"] ok
  have p: "ring_items RECV_N buf (unat (recv_tail s)) (unat (recv_len s) + length d)
      = ring_items RECV_N (recv_buf s) (unat (recv_tail s)) (unat (recv_len s)) @ d"
    "h = (unat (recv_tail s) + unat (recv_len s) + length d) mod RECV_N" "length buf = RECV_N"
    by (auto simp: sock_ok_def)
  have h: "unat (of_nat h :: u32) = h"
    using less_trans [OF _ N(2), of h] mod_less_divisor [OF N(1)] p(2) by (intro unat_of_nat32) simp
  have l: "unat (recv_len s + of_nat (length d)) = unat (recv_len s) + length d"
  proof -
    have "unat (of_nat (length d) :: u32) = length d" using room N by (intro unat_of_nat32) simp
    then show ?thesis using room N by (subst unat_plus_if) simp_all
  qed
  show "sock_ok (store_data d s)" "sock_data (store_data d s) = sock_data s @ d"
    "rcv_nxt (store_data d s) = rcv_nxt s + of_nat (length d)" "st (store_data d s) = st s"
    "used (store_data d s) = used s" "remote_ip (store_data d s) = remote_ip s"
    "remote_port (store_data d s) = remote_port s" "local_port (store_data d s) = local_port s"
    using ok room p h l r by (simp_all add: sock_ok_def sock_data_def store_data_def add.assoc)
qed

lemma unat_data_copy:
  assumes "sock_ok s"
  shows "unat (data_copy n s) = min (unat n) (RECV_N - unat (recv_len s))"
proof -
  have l: "recv_len s \<le> TCP_RECV_BUF" "unat (recv_len s) \<le> 8192"
    using assms by (simp_all add: sock_ok_def RECV_N_def TCP_RECV_BUF_def word_le_nat_alt)
  then have sp: "unat (TCP_RECV_BUF - recv_len s) = 8192 - unat (recv_len s)"
    by (simp add: unat_minus_le TCP_RECV_BUF_def)
  then have "unat (ucast (TCP_RECV_BUF - recv_len s) :: u16) = 8192 - unat (recv_len s)"
    by (simp add: unsigned_ucast_eq take_bit_nat_eq_self)
  with sp show ?thesis by (auto simp: data_copy_def Let_def word_less_nat_alt RECV_N_def min_def)
qed

lemma recv_sock_ok:
  assumes ok: "sock_ok s" and r: "recv_sock m s = (s', bs)"
  shows "sock_ok s'" "bs @ sock_data s' = sock_data s" "rcv_nxt s' = rcv_nxt s" "st s' = st s"
    "used s' = used s" "remote_ip s' = remote_ip s" "remote_port s' = remote_port s"
    "local_port s' = local_port s" "length bs = min (unat (recv_len s)) (unat m)"
proof -
  let ?n = "ucast (if recv_len s < ucast m then recv_len s else ucast m) :: u16"
  have N: "0 < RECV_N" "RECV_N < 2 ^ 32" by (simp_all add: RECV_N_def)
  have n: "unat ?n = min (unat (recv_len s)) (unat m)"
  proof (cases "recv_len s < ucast m")
    case True
    then have "unat (recv_len s) < unat m" by (simp add: word_less_nat_alt)
    moreover have "unat m < 65536" using unsigned_less [of m] by simp
    ultimately show ?thesis using True by (simp add: unsigned_ucast_eq take_bit_nat_eq_self)
  next
    case False
    then have "\<not> unat (recv_len s) < unat m" by (simp add: word_less_nat_alt)
    moreover have "unat m < 65536" using unsigned_less [of m] by simp
    moreover have "(ucast (ucast m :: u32) :: u16) = m" by (rule bit_word_eqI) (auto simp: bit_simps)
    ultimately show ?thesis using False by simp
  qed
  obtain p where g: "ring_get RECV_N (recv_buf s) (unat (recv_tail s)) (unat ?n) = (bs, p)"
    and s': "s' = s\<lparr>recv_tail := of_nat p, recv_len := recv_len s - ucast ?n\<rparr>"
    using r by (auto simp: recv_sock_def Let_def split: prod.splits)
  from ring_get_spec [OF _ _ g, of "unat (recv_len s)"] ok n
  have q: "bs = take (unat ?n) (sock_data s)" "p = (unat (recv_tail s) + unat ?n) mod RECV_N"
    "ring_items RECV_N (recv_buf s) p (unat (recv_len s) - unat ?n) = drop (unat ?n) (sock_data s)"
    by (auto simp: sock_ok_def sock_data_def)
  have "p < RECV_N" using mod_less_divisor [OF N(1)] q(2) by simp
  with less_trans [OF this N(2)] have p: "unat (of_nat p :: u32) = p" "p < RECV_N"
    by (simp_all add: unat_of_nat32)
  have l: "unat (recv_len s - ucast ?n) = unat (recv_len s) - unat ?n"
    using n by (intro trans [OF unat_minus_le]) (simp_all add: word_le_nat_alt)
  have hd: "unat (recv_head s) = (p + (unat (recv_len s) - unat ?n)) mod RECV_N"
  proof -
    have "(p + (unat (recv_len s) - unat ?n)) mod RECV_N
        = (unat (recv_tail s) + unat ?n + (unat (recv_len s) - unat ?n)) mod RECV_N"
      unfolding q(2) by (simp add: mod_add_left_eq)
    then show ?thesis using ok n by (simp add: sock_ok_def)
  qed
  show "sock_ok s'" using ok p l hd n by (auto simp: s' sock_ok_def)
  show "bs @ sock_data s' = sock_data s" using q p l by (simp add: s' sock_data_def [of s'] sock_data_def)
  show "length bs = min (unat (recv_len s)) (unat m)" using q(1) n by (simp add: sock_data_def)
qed (use r in \<open>auto simp: recv_sock_def Let_def split: prod.splits\<close>)

section \<open>What sending leaves alone\<close>

lemma send_raw_view:
  assumes "tcp_send_raw f p sv s t = Some (t', s', ok)"
  shows "rx_view s' = rx_view s" "socks t' = socks t" "uptime t' = uptime t"
    "timewait_deadline s' = timewait_deadline s"
  using assms
  by (auto simp: tcp_send_raw_def rx_view_def save_segment_def Let_def split: bind_splits if_splits prod.splits)

lemma send_ack_view:
  assumes "tcp_send_ack s t = Some (t', s')"
  shows "rx_view s' = rx_view s" "socks t' = socks t" "uptime t' = uptime t"
proof -
  obtain ok where "tcp_send_raw TCP_ACK [] False s t = Some (t', s', ok)"
    using assms by (auto simp: tcp_send_ack_def)
  from send_raw_view [OF this] show "rx_view s' = rx_view s" "socks t' = socks t" "uptime t' = uptime t"
    by simp_all
qed

lemma send_rst_view:
  assumes "tcp_send_rst_for a b c d t = Some t'"
  shows "socks t' = socks t" "uptime t' = uptime t"
proof -
  obtain s ok where "tcp_send_raw TCP_RST [] False
      (zero_sock\<lparr>remote_ip := a, local_port := c, remote_port := b, snd_nxt := d\<rparr>) t = Some (t', s, ok)"
    using assms by (auto simp: tcp_send_rst_for_def)
  from send_raw_view [OF this] show "socks t' = socks t" "uptime t' = uptime t" by simp_all
qed

lemma ack_step_view: "rx_view (ack_step f a s) = rx_view s"
  by (simp add: ack_step_def rx_view_def)

section \<open>The edges of the state machine\<close>

text \<open>Where a received segment or a timer can take a socket.\<close>

inductive tcp_edge :: "tcp_state \<Rightarrow> tcp_state \<Rightarrow> bool" where
  same: "tcp_edge a a"
| drop_conn: "tcp_edge a TCP_CLOSED"
| opened: "tcp_edge TCP_SYN_SENT TCP_ESTABLISHED"
| peer_closes: "tcp_edge TCP_ESTABLISHED TCP_LAST_ACK"
| fin_acked: "tcp_edge TCP_FIN_WAIT_1 TCP_FIN_WAIT_2"
| both_close: "tcp_edge TCP_FIN_WAIT_1 TCP_TIME_WAIT"
| peer_done: "tcp_edge TCP_FIN_WAIT_2 TCP_TIME_WAIT"

inductive_simps to_close_wait: "tcp_edge a TCP_CLOSE_WAIT"
inductive_simps to_syn_sent: "tcp_edge a TCP_SYN_SENT"

definition taking_data :: "tcp_state \<Rightarrow> bool" where
  "taking_data a \<longleftrightarrow> a \<in> {TCP_ESTABLISHED, TCP_FIN_WAIT_1, TCP_FIN_WAIT_2}"

text \<open>
  A segment's payload fits a stream \<open>S\<close> whose first byte has the sequence number \<open>start\<close>: it is
  the part of the stream its sequence number says.
\<close>

definition in_stream :: "bytes \<Rightarrow> u32 \<Rightarrow> u32 \<Rightarrow> bytes \<Rightarrow> u16 \<Rightarrow> bool" where
  "in_stream S start seq payload n \<longleftrightarrow>
     (\<exists>o'. seq = start + of_nat o' \<and> o' + unat n \<le> length S
       \<and> take (unat n) payload = take (unat n) (drop o' S))"

text \<open>
  The bytes \<open>out\<close> delivered so far and the ring are a prefix of the stream; a socket that still
  takes data expects the byte after it.
\<close>

definition str_inv :: "bytes \<Rightarrow> u32 \<Rightarrow> bytes \<Rightarrow> tcpsock \<Rightarrow> bool" where
  "str_inv S start out s \<longleftrightarrow> sock_ok s \<and> st s \<noteq> TCP_SYN_SENT
     \<and> (\<exists>k \<le> length S. out @ sock_data s = take k S \<and> (taking_data (st s) \<longrightarrow> rcv_nxt s = start + of_nat k))"

lemma str_inv_view: "rx_view s' = rx_view s \<Longrightarrow> str_inv S start out s' = str_inv S start out s"
  using rx_viewD [of s' s] by (simp add: str_inv_def)

lemma str_inv_closing:
  assumes "str_inv S start out s" "sock_ok s' = sock_ok s" "sock_data s' = sock_data s"
    "\<not> taking_data (st s')" "st s' \<noteq> TCP_SYN_SENT"
  shows "str_inv S start out s'"
  using assms unfolding str_inv_def by auto

lemma take_data_str:
  assumes inv: "str_inv S start out s" and op: "taking_data (st s)" and S: "length S < 2 ^ 32"
    and seg: "in_stream S start seq payload n" and td: "take_data payload n seq s = Some (s', b)"
  shows "str_inv S start out s'" "st s' = st s" "used s' = used s" "remote_ip s' = remote_ip s"
    "remote_port s' = remote_port s" "local_port s' = local_port s"
proof -
  have "str_inv S start out s' \<and> st s' = st s \<and> used s' = used s \<and> remote_ip s' = remote_ip s
    \<and> remote_port s' = remote_port s \<and> local_port s' = local_port s"
  proof (cases "0 < n \<and> seq = rcv_nxt s")
    case False
    with td inv show ?thesis by (auto simp: take_data_def)
  next
    case True
    obtain k where k: "k \<le> length S" "out @ sock_data s = take k S" "rcv_nxt s = start + of_nat k"
      "sock_ok s" "st s \<noteq> TCP_SYN_SENT" using inv op unfolding str_inv_def by blast
    obtain off where off: "seq = start + of_nat off" "off + unat n \<le> length S"
      "take (unat n) payload = take (unat n) (drop off S)" using seg unfolding in_stream_def by blast
    have "(of_nat off :: u32) = of_nat k" using True k(3) off(1) by simp
    then have eq: "off = k" using of_nat_inj32 [of off k] off(2) k(1) S by simp
    define m where "m = unat (data_copy n s)"
    have m: "m \<le> unat n" "unat (recv_len s) + m \<le> RECV_N"
      using unat_data_copy [OF k(4), of n] k(4) by (auto simp: m_def sock_ok_def min_def)
    have s': "s' = store_data (take m payload) s" "m \<le> length payload"
      using td True by (auto simp: take_data_def m_def Let_def split: if_splits)
    have d: "take m payload = take m (drop k S)"
      using arg_cong [OF off(3), of "take m"] m(1) eq by (simp add: min_absorb1)
    have l: "length (take m payload) = m" using s'(2) by simp
    note st = store_data_ok [OF k(4), of "take m payload"]
    have "out @ sock_data s' = take (k + m) S"
      using k(2) st(2) m(2) l d s'(1) by (simp add: take_add)
    moreover have "rcv_nxt s' = start + of_nat (k + m)"
      using k(3) st(3) m(2) l s'(1) by simp
    moreover have "k + m \<le> length S" using off(2) eq m(1) by simp
    ultimately show ?thesis
      using st(1,4-8) m(2) l s'(1) k(5) unfolding str_inv_def by auto
  qed
  then show "str_inv S start out s'" "st s' = st s" "used s' = used s" "remote_ip s' = remote_ip s"
    "remote_port s' = remote_port s" "local_port s' = local_port s" by blast+
qed

text \<open>
  What every handler keeps of the socket and of the others, in one predicate, so that the
  cases of the dispatch share it.
\<close>

definition kept :: "tcpsock \<Rightarrow> tcp \<Rightarrow> tcpsock \<Rightarrow> tcp \<Rightarrow> bool" where
  "kept s t s' t' \<longleftrightarrow> socks t' = socks t \<and> tcp_edge (st s) (st s') \<and> (used s' \<longrightarrow> used s)
     \<and> remote_ip s' = remote_ip s \<and> remote_port s' = remote_port s \<and> local_port s' = local_port s"

lemma ack_kept:
  assumes "tcp_send_ack s t = Some (t', s')"
  shows "kept s t s' t'" "sock_ok s' = sock_ok s" "sock_data s' = sock_data s" "rcv_nxt s' = rcv_nxt s"
    "st s' = st s"
  using send_ack_view [OF assms] rx_viewD [of s' s] by (auto simp: kept_def intro: tcp_edge.same)

lemma free_kept: "kept s t (free_sock s) t"
  by (simp add: kept_def free_sock_def tcp_edge.drop_conn)

lemma time_wait_kept:
  assumes "enter_time_wait s t = Some (t', s')"
  shows "st s' = TCP_TIME_WAIT" "socks t' = socks t" "used s' = used s" "remote_ip s' = remote_ip s"
    "remote_port s' = remote_port s" "local_port s' = local_port s" "sock_ok s' = sock_ok s"
    "sock_data s' = sock_data s"
proof -
  obtain s1 where s1: "tcp_send_ack (s\<lparr>rcv_nxt := rcv_nxt s + 1\<rparr>) t = Some (t', s1)"
    "s' = s1\<lparr>st := TCP_TIME_WAIT, timewait_deadline := uptime t' + TCP_TIMEWAIT_MS\<rparr>"
    using assms by (auto simp: enter_time_wait_def split: bind_splits)
  note v = send_ack_view [OF s1(1)]
  show "st s' = TCP_TIME_WAIT" "socks t' = socks t" "used s' = used s" "remote_ip s' = remote_ip s"
    "remote_port s' = remote_port s" "local_port s' = local_port s" "sock_ok s' = sock_ok s"
    "sock_data s' = sock_data s"
    using v rx_viewD [OF v(1)] s1(2) by (simp_all add: sock_ok_def sock_data_def)
qed

lemma take_data_kept:
  assumes "take_data payload n seq s = Some (s', b)"
  shows "st s' = st s" "used s' = used s" "remote_ip s' = remote_ip s"
    "remote_port s' = remote_port s" "local_port s' = local_port s"
  using assms
  by (auto simp: take_data_def store_data_def Let_def split: if_splits prod.splits)

lemma rx_established_view:
  assumes "rx_established flags seq payload n s t = Some (t', s')"
  obtains s1 b where "take_data payload n seq s = Some (s1, b)" "socks t' = socks t"
    "flags AND TCP_FIN = 0 \<longrightarrow> rx_view s' = rx_view s1"
    "flags AND TCP_FIN \<noteq> 0 \<longrightarrow> st s' = TCP_LAST_ACK \<and> sock_ok s' = sock_ok s1 \<and> sock_data s' = sock_data s1
       \<and> used s' = used s1 \<and> remote_ip s' = remote_ip s1 \<and> remote_port s' = remote_port s1
       \<and> local_port s' = local_port s1"
proof -
  obtain s1 b where a: "take_data payload n seq s = Some (s1, b)"
    using assms by (auto simp: rx_established_def split: bind_splits)
  obtain t2 s2 where b: "(if b then tcp_send_ack s1 t else Some (t, s1)) = Some (t2, s2)"
    using assms a by (auto simp: rx_established_def split: bind_splits)
  have v2: "rx_view s2 = rx_view s1" "socks t2 = socks t"
    using b send_ack_view by (auto split: if_splits)
  show ?thesis
  proof (cases "flags AND TCP_FIN = 0")
    case True
    then have "t' = t2" "s' = s2" using assms a b by (auto simp: rx_established_def)
    with True a v2 that show ?thesis by simp
  next
    case False
    obtain t3 s3 where c: "tcp_send_ack (s2\<lparr>rcv_nxt := rcv_nxt s2 + 1\<rparr>) t2 = Some (t3, s3)"
      using assms a b False by (auto simp: rx_established_def split: bind_splits)
    obtain ok where d: "tcp_send_raw (TCP_FIN OR TCP_ACK) [] True (s3\<lparr>st := TCP_LAST_ACK\<rparr>) t3 = Some (t', s', ok)"
      using assms a b c False by (auto simp: rx_established_def split: bind_splits)
    note v3 = send_ack_view [OF c] and v4 = send_raw_view [OF d]
    have "st s' = TCP_LAST_ACK" "sock_ok s' = sock_ok s1" "sock_data s' = sock_data s1" "used s' = used s1"
      "remote_ip s' = remote_ip s1" "remote_port s' = remote_port s1" "local_port s' = local_port s1"
      using v2(1) v3(1) v4(1) by (auto simp: rx_view_def sock_ok_def sock_data_def)
    with False a v2(2) v3(2) v4(2) that show ?thesis by simp
  qed
qed

lemma rx_fin_wait_1_view:
  assumes "rx_fin_wait_1 flags s t = Some (t', s')"
  shows "socks t' = socks t" "st s' \<in> {st s, TCP_FIN_WAIT_2, TCP_TIME_WAIT}" "used s' = used s"
    "remote_ip s' = remote_ip s" "remote_port s' = remote_port s" "local_port s' = local_port s"
    "sock_ok s' = sock_ok s" "sock_data s' = sock_data s" "st s' \<noteq> TCP_TIME_WAIT \<Longrightarrow> rcv_nxt s' = rcv_nxt s"
  using assms time_wait_kept [of "if flags AND TCP_ACK \<noteq> 0 then s\<lparr>st := TCP_FIN_WAIT_2\<rparr> else s" t t' s']
  by (auto simp: rx_fin_wait_1_def Let_def sock_ok_def sock_data_def split: if_splits)

lemma rx_fin_wait_2_view:
  assumes "rx_fin_wait_2 flags seq payload n s t = Some (t', s')"
  obtains s1 b where "take_data payload n seq s = Some (s1, b)" "socks t' = socks t"
    "flags AND TCP_FIN = 0 \<longrightarrow> s' = s1"
    "flags AND TCP_FIN \<noteq> 0 \<longrightarrow> st s' = TCP_TIME_WAIT \<and> sock_ok s' = sock_ok s1 \<and> sock_data s' = sock_data s1
       \<and> used s' = used s1 \<and> remote_ip s' = remote_ip s1 \<and> remote_port s' = remote_port s1
       \<and> local_port s' = local_port s1"
proof -
  obtain s1 b where a: "take_data payload n seq s = Some (s1, b)"
    using assms by (auto simp: rx_fin_wait_2_def split: bind_splits)
  show ?thesis
  proof (cases "flags AND TCP_FIN = 0")
    case True
    then show ?thesis using that [of s1 b] a assms by (auto simp: rx_fin_wait_2_def)
  next
    case False
    then have "enter_time_wait s1 t = Some (t', s')" using a assms by (simp add: rx_fin_wait_2_def)
    from time_wait_kept [OF this] that [of s1 b] a False show ?thesis by simp
  qed
qed

lemma rx_syn_sent_view:
  assumes "rx_syn_sent flags seq ack s t = Some (t', s')"
  shows "socks t' = socks t" "st s' \<in> {st s, TCP_CLOSED, TCP_ESTABLISHED}" "used s' \<Longrightarrow> used s"
    "remote_ip s' = remote_ip s" "remote_port s' = remote_port s" "local_port s' = local_port s"
proof -
  have "socks t' = socks t \<and> st s' \<in> {st s, TCP_CLOSED, TCP_ESTABLISHED} \<and> (used s' \<longrightarrow> used s)
    \<and> remote_ip s' = remote_ip s \<and> remote_port s' = remote_port s \<and> local_port s' = local_port s"
  proof (cases "flags AND (TCP_SYN OR TCP_ACK) = TCP_SYN OR TCP_ACK")
    case True
    show ?thesis
    proof (cases "ack = snd_nxt s")
      case ack: True
      then have "tcp_send_ack (s\<lparr>rcv_nxt := seq + 1, snd_una := ack, st := TCP_ESTABLISHED, retx_deadline := 0\<rparr>) t
          = Some (t', s')" using True assms by (simp add: rx_syn_sent_def)
      from send_ack_view [OF this] show ?thesis by (auto simp: rx_view_def)
    next
      case ack: False
      then obtain t1 where "tcp_send_rst_for (remote_ip s) (remote_port s) (local_port s) ack t = Some t1"
        "t' = t1" "s' = free_sock s" using True assms by (auto simp: rx_syn_sent_def)
      then show ?thesis using send_rst_view(1) by (auto simp: free_sock_def)
    qed
  next
    case False
    then show ?thesis using assms by (auto simp: rx_syn_sent_def split: if_splits)
  qed
  then show "socks t' = socks t" "st s' \<in> {st s, TCP_CLOSED, TCP_ESTABLISHED}" "used s' \<Longrightarrow> used s"
    "remote_ip s' = remote_ip s" "remote_port s' = remote_port s" "local_port s' = local_port s" by blast+
qed

lemma rx_time_wait_view:
  assumes "rx_time_wait flags s t = Some (t', s')" "st s = TCP_TIME_WAIT"
  shows "socks t' = socks t" "st s' = TCP_TIME_WAIT" "used s' = used s"
    "remote_ip s' = remote_ip s" "remote_port s' = remote_port s" "local_port s' = local_port s"
    "sock_ok s' = sock_ok s" "sock_data s' = sock_data s"
  using assms time_wait_kept [of s t t' s'] by (auto simp: rx_time_wait_def split: if_splits)

text \<open>The dispatch on the state: every branch keeps the socket's addresses and follows an edge.\<close>

lemma rx_state_kept:
  assumes "rx_state flags seq ack payload n s t = Some (t', s')"
  shows "kept s t s' t'"
proof (cases "st s")
  case TCP_SYN_SENT
  then have "rx_syn_sent flags seq ack s t = Some (t', s')" using assms by (simp add: rx_state_def)
  from rx_syn_sent_view [OF this] TCP_SYN_SENT show ?thesis
    by (auto simp: kept_def intro: tcp_edge.intros)
next
  case TCP_ESTABLISHED
  then have "rx_established flags seq payload n s t = Some (t', s')" using assms by (simp add: rx_state_def)
  then obtain s1 b where v: "take_data payload n seq s = Some (s1, b)" "socks t' = socks t"
    "flags AND TCP_FIN = 0 \<longrightarrow> rx_view s' = rx_view s1"
    "flags AND TCP_FIN \<noteq> 0 \<longrightarrow> st s' = TCP_LAST_ACK \<and> sock_ok s' = sock_ok s1 \<and> sock_data s' = sock_data s1
       \<and> used s' = used s1 \<and> remote_ip s' = remote_ip s1 \<and> remote_port s' = remote_port s1
       \<and> local_port s' = local_port s1" by (rule rx_established_view)
  show ?thesis
  proof (cases "flags AND TCP_FIN = 0")
    case True
    then show ?thesis using v take_data_kept [OF v(1)] rx_viewD [of s' s1]
      by (simp add: kept_def tcp_edge.same)
  next
    case False
    then show ?thesis using v take_data_kept [OF v(1)] TCP_ESTABLISHED
      by (simp add: kept_def tcp_edge.peer_closes)
  qed
next
  case TCP_FIN_WAIT_1
  then have "rx_fin_wait_1 flags s t = Some (t', s')" using assms by (simp add: rx_state_def)
  from rx_fin_wait_1_view [OF this] TCP_FIN_WAIT_1 show ?thesis
    by (auto simp: kept_def intro: tcp_edge.intros)
next
  case TCP_FIN_WAIT_2
  then have "rx_fin_wait_2 flags seq payload n s t = Some (t', s')" using assms by (simp add: rx_state_def)
  then obtain s1 b where v: "take_data payload n seq s = Some (s1, b)" "socks t' = socks t"
    "flags AND TCP_FIN = 0 \<longrightarrow> s' = s1"
    "flags AND TCP_FIN \<noteq> 0 \<longrightarrow> st s' = TCP_TIME_WAIT \<and> sock_ok s' = sock_ok s1 \<and> sock_data s' = sock_data s1
       \<and> used s' = used s1 \<and> remote_ip s' = remote_ip s1 \<and> remote_port s' = remote_port s1
       \<and> local_port s' = local_port s1" by (rule rx_fin_wait_2_view)
  then show ?thesis using take_data_kept [OF v(1)] TCP_FIN_WAIT_2
    by (cases "flags AND TCP_FIN = 0") (auto simp: kept_def intro: tcp_edge.intros)
next
  case TCP_TIME_WAIT
  then have "rx_time_wait flags s t = Some (t', s')" using assms by (simp add: rx_state_def)
  from rx_time_wait_view [OF this TCP_TIME_WAIT] TCP_TIME_WAIT show ?thesis
    by (simp add: kept_def tcp_edge.same)
next
  case TCP_LAST_ACK
  then show ?thesis using assms free_kept [of s t]
    by (auto simp: rx_state_def kept_def intro: tcp_edge.same split: if_splits)
qed (use assms in \<open>auto simp: rx_state_def kept_def intro: tcp_edge.same\<close>)

lemma take_data_sock_ok:
  assumes "take_data payload n seq s = Some (s', b)" "sock_ok s"
  shows "sock_ok s'"
proof (cases "0 < n \<and> seq = rcv_nxt s")
  case True
  let ?m = "unat (data_copy n s)"
  have "unat (recv_len s) + ?m \<le> RECV_N"
    using unat_data_copy [OF assms(2), of n] assms(2) by (auto simp: sock_ok_def min_def)
  moreover have "s' = store_data (take ?m payload) s" "?m \<le> length payload"
    using assms(1) True by (auto simp: take_data_def Let_def split: if_splits)
  ultimately show ?thesis using store_data_ok(1) [OF assms(2)] by simp
qed (use assms in \<open>auto simp: take_data_def\<close>)

lemma rx_state_sock_ok:
  assumes rx: "rx_state flags seq ack payload n s t = Some (t', s')" and ok: "sock_ok s"
  shows "sock_ok s'"
proof (cases "st s")
  case TCP_SYN_SENT
  let ?s = "s\<lparr>rcv_nxt := seq + 1, snd_una := ack, st := TCP_ESTABLISHED, retx_deadline := 0\<rparr>"
  have "s' = s \<or> s' = free_sock s \<or> tcp_send_ack ?s t = Some (t', s')"
    using rx TCP_SYN_SENT by (auto simp: rx_state_def rx_syn_sent_def split: if_splits)
  then show ?thesis
  proof (elim disjE)
    assume "tcp_send_ack ?s t = Some (t', s')"
    from rx_viewD(4) [OF send_ack_view(1) [OF this]] ok show ?thesis by (simp add: sock_ok_def)
  qed (use ok in \<open>simp_all add: free_sock_def sock_ok_def\<close>)
next
  case TCP_ESTABLISHED
  then have "rx_established flags seq payload n s t = Some (t', s')" using rx by (simp add: rx_state_def)
  then obtain s1 b where v: "take_data payload n seq s = Some (s1, b)"
    "flags AND TCP_FIN = 0 \<longrightarrow> rx_view s' = rx_view s1"
    "flags AND TCP_FIN \<noteq> 0 \<longrightarrow> st s' = TCP_LAST_ACK \<and> sock_ok s' = sock_ok s1 \<and> sock_data s' = sock_data s1
       \<and> used s' = used s1 \<and> remote_ip s' = remote_ip s1 \<and> remote_port s' = remote_port s1
       \<and> local_port s' = local_port s1" by (rule rx_established_view)
  then show ?thesis using take_data_sock_ok [OF v(1) ok] rx_viewD(4) [of s' s1] by blast
next
  case TCP_FIN_WAIT_1
  then have "rx_fin_wait_1 flags s t = Some (t', s')" using rx by (simp add: rx_state_def)
  from rx_fin_wait_1_view(7) [OF this] ok show ?thesis by simp
next
  case TCP_FIN_WAIT_2
  then have "rx_fin_wait_2 flags seq payload n s t = Some (t', s')" using rx by (simp add: rx_state_def)
  then obtain s1 b where v: "take_data payload n seq s = Some (s1, b)"
    "flags AND TCP_FIN = 0 \<longrightarrow> s' = s1"
    "flags AND TCP_FIN \<noteq> 0 \<longrightarrow> st s' = TCP_TIME_WAIT \<and> sock_ok s' = sock_ok s1 \<and> sock_data s' = sock_data s1
       \<and> used s' = used s1 \<and> remote_ip s' = remote_ip s1 \<and> remote_port s' = remote_port s1
       \<and> local_port s' = local_port s1" by (rule rx_fin_wait_2_view)
  then show ?thesis using take_data_sock_ok [OF v(1) ok] by blast
next
  case TCP_TIME_WAIT
  then have "rx_time_wait flags s t = Some (t', s')" using rx by (simp add: rx_state_def)
  from rx_time_wait_view(7) [OF this TCP_TIME_WAIT] ok show ?thesis by simp
qed (use rx ok in \<open>auto simp: rx_state_def free_sock_def sock_ok_def split: if_splits\<close>)

lemma rx_state_str:
  assumes inv: "str_inv S start out s" and S: "length S < 2 ^ 32"
    and seg: "in_stream S start seq payload n"
    and rx: "rx_state flags seq ack payload n s t = Some (t', s')"
  shows "str_inv S start out s'"
proof (cases "st s")
  case TCP_SYN_SENT
  with inv show ?thesis by (simp add: str_inv_def)
next
  case TCP_ESTABLISHED
  then have "rx_established flags seq payload n s t = Some (t', s')" using rx by (simp add: rx_state_def)
  then obtain s1 b where v: "take_data payload n seq s = Some (s1, b)" "socks t' = socks t"
    "flags AND TCP_FIN = 0 \<longrightarrow> rx_view s' = rx_view s1"
    "flags AND TCP_FIN \<noteq> 0 \<longrightarrow> st s' = TCP_LAST_ACK \<and> sock_ok s' = sock_ok s1 \<and> sock_data s' = sock_data s1
       \<and> used s' = used s1 \<and> remote_ip s' = remote_ip s1 \<and> remote_port s' = remote_port s1
       \<and> local_port s' = local_port s1" by (rule rx_established_view)
  have i1: "str_inv S start out s1"
    by (rule take_data_str [OF inv _ S seg v(1)]) (simp add: TCP_ESTABLISHED taking_data_def)
  show ?thesis
  proof (cases "flags AND TCP_FIN = 0")
    case True
    then show ?thesis using v(3) i1 str_inv_view by blast
  next
    case False
    then show ?thesis using v(4) by (intro str_inv_closing [OF i1]) (auto simp: taking_data_def)
  qed
next
  case TCP_FIN_WAIT_1
  then have "rx_fin_wait_1 flags s t = Some (t', s')" using rx by (simp add: rx_state_def)
  from rx_fin_wait_1_view [OF this] TCP_FIN_WAIT_1 inv show ?thesis
    by (auto simp: str_inv_def taking_data_def)
next
  case TCP_FIN_WAIT_2
  then have "rx_fin_wait_2 flags seq payload n s t = Some (t', s')" using rx by (simp add: rx_state_def)
  then obtain s1 b where v: "take_data payload n seq s = Some (s1, b)" "socks t' = socks t"
    "flags AND TCP_FIN = 0 \<longrightarrow> s' = s1"
    "flags AND TCP_FIN \<noteq> 0 \<longrightarrow> st s' = TCP_TIME_WAIT \<and> sock_ok s' = sock_ok s1 \<and> sock_data s' = sock_data s1
       \<and> used s' = used s1 \<and> remote_ip s' = remote_ip s1 \<and> remote_port s' = remote_port s1
       \<and> local_port s' = local_port s1" by (rule rx_fin_wait_2_view)
  have i1: "str_inv S start out s1"
    by (rule take_data_str [OF inv _ S seg v(1)]) (simp add: TCP_FIN_WAIT_2 taking_data_def)
  show ?thesis
  proof (cases "flags AND TCP_FIN = 0")
    case True
    then show ?thesis using v(3) i1 by simp
  next
    case False
    then show ?thesis using v(4) by (intro str_inv_closing [OF i1]) (auto simp: taking_data_def)
  qed
next
  case TCP_TIME_WAIT
  then have "rx_time_wait flags s t = Some (t', s')" using rx by (simp add: rx_state_def)
  from rx_time_wait_view [OF this TCP_TIME_WAIT] inv show ?thesis
    by (intro str_inv_closing [OF inv]) (auto simp: taking_data_def)
next
  case TCP_LAST_ACK
  have "str_inv S start out (free_sock s)"
    by (rule str_inv_closing [OF inv]) (simp_all add: free_sock_def sock_ok_def sock_data_def taking_data_def)
  with TCP_LAST_ACK inv rx show ?thesis by (auto simp: rx_state_def split: if_splits)
qed (use inv rx in \<open>auto simp: rx_state_def\<close>)

section \<open>Whole segments and timers\<close>

definition seg_hdr :: "bytes \<Rightarrow> u8" where "seg_hdr seg = drop_bit 4 (seg ! 12) * 4"

definition seg_valid :: "bytes \<Rightarrow> u16 \<Rightarrow> bool" where
  "seg_valid seg len \<longleftrightarrow> 20 \<le> len \<and> 20 \<le> seg_hdr seg \<and> ucast (seg_hdr seg) \<le> len"

definition seg_for :: "u32 \<Rightarrow> bytes \<Rightarrow> tcpsock \<Rightarrow> bool" where
  "seg_for src seg s \<longleftrightarrow> matches src (htons (get16 seg 0)) (htons (get16 seg 2)) s"

lemma receive_valid:
  assumes "seg_valid seg len"
  shows "tcp_receive src seg len t =
    (case find_idx (matches src (htons (get16 seg 0)) (htons (get16 seg 2))) (socks t) of
        None \<Rightarrow> if seg ! 13 AND TCP_RST = 0
          then tcp_send_rst_for src (htons (get16 seg 0)) (htons (get16 seg 2)) (htonl (get32 seg 8)) t
          else Some t
      | Some i \<Rightarrow>
          if seg ! 13 AND TCP_RST \<noteq> 0 then Some (put_sock i (free_sock (socks t ! i)) t)
          else do {
            (t1, s1) \<leftarrow> rx_state (seg ! 13) (htonl (get32 seg 4)) (htonl (get32 seg 8))
               (drop (unat (seg_hdr seg)) seg) (len - ucast (seg_hdr seg))
               (ack_step (seg ! 13) (htonl (get32 seg 8)) (socks t ! i)) t;
            Some (put_sock i s1 t1)
          })"
proof -
  have "\<not> len < 20" "\<not> (seg_hdr seg < 20 \<or> len < ucast (seg_hdr seg))"
    using assms by (auto simp: seg_valid_def)
  then show ?thesis
    unfolding tcp_receive_def seg_hdr_def [symmetric] Let_def by (simp only: if_False)
qed

lemma receive_cases:
  assumes "tcp_receive src seg len t = Some t'"
  obtains (none) "socks t' = socks t"
  | (one) i s' where "i < length (socks t)" "seg_valid seg len" "seg_for src seg (socks t ! i)"
      "socks t' = (socks t)[i := s']"
      "s' = free_sock (socks t ! i) \<or> (\<exists>t1. rx_state (seg ! 13) (htonl (get32 seg 4)) (htonl (get32 seg 8))
         (drop (unat (seg_hdr seg)) seg) (len - ucast (seg_hdr seg))
         (ack_step (seg ! 13) (htonl (get32 seg 8)) (socks t ! i)) t = Some (t1, s'))"
proof (cases "seg_valid seg len")
  case False
  have "t' = t"
  proof (cases "len < 20")
    case False
    then have "seg_hdr seg < 20 \<or> len < ucast (seg_hdr seg)"
      using \<open>\<not> seg_valid seg len\<close> by (auto simp: seg_valid_def)
    with False show ?thesis using assms by (simp add: tcp_receive_def Let_def seg_hdr_def)
  qed (use assms in \<open>simp add: tcp_receive_def\<close>)
  then show ?thesis using none by simp
next
  case True
  let ?f = "find_idx (matches src (htons (get16 seg 0)) (htons (get16 seg 2))) (socks t)"
  show ?thesis
  proof (cases ?f)
    case None
    then have "t' = t \<or> (\<exists>a b c d. tcp_send_rst_for a b c d t = Some t')"
      using assms unfolding receive_valid [OF True] by (auto split: if_splits)
    then show ?thesis using none send_rst_view(1) by auto
  next
    case (Some i)
    then have i: "i < length (socks t)" "seg_for src seg (socks t ! i)"
      by (auto simp: find_idx_Some_iff seg_for_def)
    have run: "(if seg ! 13 AND TCP_RST \<noteq> 0 then Some (put_sock i (free_sock (socks t ! i)) t)
        else do {
          (t1, s1) \<leftarrow> rx_state (seg ! 13) (htonl (get32 seg 4)) (htonl (get32 seg 8))
             (drop (unat (seg_hdr seg)) seg) (len - ucast (seg_hdr seg))
             (ack_step (seg ! 13) (htonl (get32 seg 8)) (socks t ! i)) t;
          Some (put_sock i s1 t1)
        }) = Some t'"
      using Some assms unfolding receive_valid [OF True] by simp
    show ?thesis
    proof (cases "seg ! 13 AND TCP_RST \<noteq> 0")
      case rst: True
      then have "socks t' = (socks t)[i := free_sock (socks t ! i)]" using run by (auto simp: put_sock_def)
      then show ?thesis using one i \<open>seg_valid seg len\<close> by blast
    next
      case False
      then obtain t1 s1 where r: "rx_state (seg ! 13) (htonl (get32 seg 4)) (htonl (get32 seg 8))
             (drop (unat (seg_hdr seg)) seg) (len - ucast (seg_hdr seg))
             (ack_step (seg ! 13) (htonl (get32 seg 8)) (socks t ! i)) t = Some (t1, s1)"
        "t' = put_sock i s1 t1" using run by (auto split: bind_splits)
      moreover have "socks t1 = socks t" using rx_state_kept [OF r(1)] by (simp add: kept_def)
      ultimately have "socks t' = (socks t)[i := s1]" by (simp add: put_sock_def)
      then show ?thesis using one i \<open>seg_valid seg len\<close> r(1) by blast
    qed
  qed
qed

lemma receive_edges:
  assumes "tcp_receive src seg len t = Some t'"
  shows "length (socks t') = length (socks t)"
    "i < length (socks t) \<Longrightarrow> tcp_edge (st (socks t ! i)) (st (socks t' ! i))
       \<and> (used (socks t' ! i) \<longrightarrow> used (socks t ! i)) \<and> remote_ip (socks t' ! i) = remote_ip (socks t ! i)
       \<and> remote_port (socks t' ! i) = remote_port (socks t ! i) \<and> local_port (socks t' ! i) = local_port (socks t ! i)"
proof -
  have "length (socks t') = length (socks t) \<and> (i < length (socks t) \<longrightarrow> tcp_edge (st (socks t ! i)) (st (socks t' ! i))
       \<and> (used (socks t' ! i) \<longrightarrow> used (socks t ! i)) \<and> remote_ip (socks t' ! i) = remote_ip (socks t ! i)
       \<and> remote_port (socks t' ! i) = remote_port (socks t ! i) \<and> local_port (socks t' ! i) = local_port (socks t ! i))"
    using assms
  proof (cases rule: receive_cases)
    case none
    then show ?thesis by (simp add: tcp_edge.same)
  next
    case (one k s')
    have "kept (socks t ! k) t s' t \<or> (\<exists>t1. kept (ack_step (seg ! 13) (htonl (get32 seg 8)) (socks t ! k)) t s' t1)"
      using one(5) rx_state_kept free_kept by blast
    then show ?thesis
      using one(1,4) rx_viewD [OF ack_step_view [of "seg ! 13" "htonl (get32 seg 8)" "socks t ! k"]]
      by (cases "i = k") (auto simp: kept_def tcp_edge.same)
  qed
  then show "length (socks t') = length (socks t)"
    "i < length (socks t) \<Longrightarrow> tcp_edge (st (socks t ! i)) (st (socks t' ! i))
       \<and> (used (socks t' ! i) \<longrightarrow> used (socks t ! i)) \<and> remote_ip (socks t' ! i) = remote_ip (socks t ! i)
       \<and> remote_port (socks t' ! i) = remote_port (socks t ! i) \<and> local_port (socks t' ! i) = local_port (socks t ! i)"
    by blast+
qed

text \<open>A timer leaves what was received alone; it may drop the connection.\<close>

definition ticked :: "tcpsock \<Rightarrow> tcpsock \<Rightarrow> bool" where
  "ticked s s' \<longleftrightarrow> (st s' = st s \<or> st s' = TCP_CLOSED) \<and> (used s' \<longrightarrow> used s)
     \<and> rcv_nxt s' = rcv_nxt s \<and> sock_ok s' = sock_ok s \<and> sock_data s' = sock_data s
     \<and> remote_ip s' = remote_ip s \<and> remote_port s' = remote_port s \<and> local_port s' = local_port s"

lemma ticked_refl: "ticked s s" by (simp add: ticked_def)

lemma ticked_trans: "ticked a b \<Longrightarrow> ticked b c \<Longrightarrow> ticked a c"
  by (auto simp: ticked_def)

lemma ticked_view: "rx_view s' = rx_view s \<Longrightarrow> ticked s s'"
  using rx_viewD [of s' s] by (simp add: ticked_def)

lemma ticked_free: "ticked s (free_sock s)"
  by (simp add: ticked_def free_sock_def sock_ok_def sock_data_def)

lemma retransmit_ticked:
  assumes "do_retransmit s t = Some (t', s')"
  shows "ticked s s' \<and> socks t' = socks t \<and> uptime t' = uptime t"
proof -
  let ?s = "s\<lparr>retx_count := retx_count s + 1\<rparr>"
  have v: "rx_view ?s = rx_view s" "rx_view (?s\<lparr>snd_nxt := retx_seq s\<rparr>) = rx_view s"
    by (simp_all add: rx_view_def)
  consider "t' = t" "s' = s" | "t' = t" "s' = free_sock ?s"
    | s2 ok d where "tcp_send_raw (retx_flags s) (take (unat (retx_len s)) (retx_buf s)) False
         (?s\<lparr>snd_nxt := retx_seq s\<rparr>) t = Some (t', s2, ok)" "s' = s2\<lparr>retx_deadline := d\<rparr>"
    using assms by (auto simp: do_retransmit_def Let_def split: if_splits bind_splits)
  then show ?thesis
  proof cases
    case 1
    then show ?thesis by (simp add: ticked_refl)
  next
    case 2
    then show ?thesis using ticked_trans [OF ticked_view [OF v(1)] ticked_free] by simp
  next
    case 3
    have "rx_view s' = rx_view s2" using 3(2) by (simp add: rx_view_def)
    then have "rx_view s' = rx_view s" using send_raw_view(1) [OF 3(1)] v(2) by simp
    then show ?thesis using ticked_view send_raw_view(2,3) [OF 3(1)] by blast
  qed
qed

lemma tick_sock_ticked:
  assumes "tick_sock now s t = Some (t', s')"
  shows "ticked s s' \<and> socks t' = socks t \<and> uptime t' = uptime t"
proof -
  have z: "rx_view (s\<lparr>retx_deadline := 0\<rparr>) = rx_view s" by (simp add: rx_view_def)
  have c: "(t', s') = (t, s) \<or> (t', s') = (t, free_sock s) \<or> do_retransmit s t = Some (t', s')
    \<or> (t', s') = (t, s\<lparr>retx_deadline := 0\<rparr>)"
    using assms unfolding tick_sock_def by (simp split: if_splits)
  from c show ?thesis
  proof (elim disjE)
    assume "do_retransmit s t = Some (t', s')"
    then show ?thesis by (rule retransmit_ticked)
  qed (simp_all add: ticked_refl ticked_free ticked_view [OF z])
qed

lemma tick_from_ticked:
  "tick_from is now t = Some t' \<Longrightarrow> \<forall>i \<in> set is. i < length (socks t) \<Longrightarrow>
   length (socks t') = length (socks t) \<and> (\<forall>i < length (socks t). ticked (socks t ! i) (socks t' ! i))"
proof (induction "is" arbitrary: t)
  case Nil
  then show ?case by (simp add: ticked_refl)
next
  case (Cons k ks)
  obtain t1 s where s: "tick_sock now (socks t ! k) t = Some (t1, s)"
    "tick_from ks now (put_sock k s t1) = Some t'"
    using Cons.prems(1) by (auto split: bind_splits)
  note tk = tick_sock_ticked [OF s(1)]
  have p: "socks (put_sock k s t1) = (socks t)[k := s]" using tk by (simp add: put_sock_def)
  have "\<forall>i \<in> set ks. i < length (socks (put_sock k s t1))" using Cons.prems(2) p by simp
  from Cons.IH [OF s(2) this] p have ih: "length (socks t') = length (socks t)"
    "\<forall>i < length (socks t). ticked ((socks t)[k := s] ! i) (socks t' ! i)" by simp_all
  show ?case
  proof (intro conjI allI impI ih(1))
    fix i assume i: "i < length (socks t)"
    show "ticked (socks t ! i) (socks t' ! i)"
    proof (cases "i = k")
      case True
      then have "ticked s (socks t' ! i)" using ih(2) i by force
      then show ?thesis using True tk ticked_trans by blast
    next
      case False
      then have "(socks t)[k := s] ! i = socks t ! i" by simp
      then show ?thesis using ih(2) i by auto
    qed
  qed
qed

section \<open>Runs\<close>

text \<open>
  What can happen to an open connection: segments arrive, the client reads, time passes. The
  run returns the bytes the reads on socket \<open>i\<close> delivered.
\<close>

datatype tcp_event = Segment u32 bytes u16 | Read u16 | Tick u32

fun tcp_run :: "nat \<Rightarrow> tcp_event list \<Rightarrow> tcp \<Rightarrow> (tcp \<times> bytes) option" where
  "tcp_run i [] t = Some (t, [])"
| "tcp_run i (Segment src seg len # es) t = do { t1 \<leftarrow> tcp_receive src seg len t; tcp_run i es t1 }"
| "tcp_run i (Read m # es) t = (case tcp_recv (int i) m t of (t1, _, bs) \<Rightarrow>
     map_option (\<lambda>(t2, out). (t2, bs @ out)) (tcp_run i es t1))"
| "tcp_run i (Tick now # es) t = do { t1 \<leftarrow> tcp_tick (t\<lparr>uptime := now\<rparr>); tcp_run i es t1 }"

text \<open>Every valid segment addressed to the connection carries a part of the peer's stream.\<close>

definition honest :: "bytes \<Rightarrow> u32 \<Rightarrow> tcpsock \<Rightarrow> tcp_event \<Rightarrow> bool" where
  "honest S start s e = (case e of
     Segment src seg len \<Rightarrow>
       seg_valid seg len \<and> src = remote_ip s \<and> htons (get16 seg 0) = remote_port s
         \<and> htons (get16 seg 2) = local_port s
       \<longrightarrow> in_stream S start (htonl (get32 seg 4)) (drop (unat (seg_hdr seg)) seg) (len - ucast (seg_hdr seg))
   | _ \<Rightarrow> True)"

definition same_peer :: "tcpsock \<Rightarrow> tcpsock \<Rightarrow> bool" where
  "same_peer s s' \<longleftrightarrow> remote_ip s' = remote_ip s \<and> remote_port s' = remote_port s \<and> local_port s' = local_port s"

lemma honest_same_peer: "same_peer s s' \<Longrightarrow> honest S start s' e = honest S start s e"
  by (auto simp: same_peer_def honest_def split: tcp_event.splits)

lemma receive_str:
  assumes rx: "tcp_receive src seg len t = Some t'" and i: "i < length (socks t)"
    and inv: "str_inv S start out (socks t ! i)" and S: "length S < 2 ^ 32"
    and hon: "honest S start (socks t ! i) (Segment src seg len)"
  shows "str_inv S start out (socks t' ! i)"
  using rx
proof (cases rule: receive_cases)
  case none
  with inv show ?thesis by simp
next
  case (one k s')
  show ?thesis
  proof (cases "k = i")
    case False
    with one(4) inv show ?thesis by simp
  next
    case True
    let ?s = "ack_step (seg ! 13) (htonl (get32 seg 8)) (socks t ! i)"
    have in_s: "in_stream S start (htonl (get32 seg 4)) (drop (unat (seg_hdr seg)) seg) (len - ucast (seg_hdr seg))"
      using hon one(2,3) True by (simp add: honest_def seg_for_def matches_def)
    have inv2: "str_inv S start out ?s" using inv str_inv_view [OF ack_step_view] by blast
    have "str_inv S start out s'"
      using one(5)
    proof
      assume "s' = free_sock (socks t ! k)"
      then show ?thesis
        using True by (intro str_inv_closing [OF inv])
          (simp_all add: free_sock_def sock_ok_def sock_data_def taking_data_def)
    next
      assume "\<exists>t1. rx_state (seg ! 13) (htonl (get32 seg 4)) (htonl (get32 seg 8))
         (drop (unat (seg_hdr seg)) seg) (len - ucast (seg_hdr seg))
         (ack_step (seg ! 13) (htonl (get32 seg 8)) (socks t ! k)) t = Some (t1, s')"
      then show ?thesis using rx_state_str [OF inv2 S in_s] True by blast
    qed
    then show ?thesis using one(1,4) True by simp
  qed
qed

lemma tick_str:
  assumes "tcp_tick t = Some t'" "length (socks t) = TCP_MAX_SOCKETS" "i < length (socks t)"
    "str_inv S start out (socks t ! i)"
  shows "str_inv S start out (socks t' ! i) \<and> same_peer (socks t ! i) (socks t' ! i)
    \<and> length (socks t') = length (socks t)"
proof -
  have "ticked (socks t ! i) (socks t' ! i)" "length (socks t') = length (socks t)"
    using tick_from_ticked [of "[0..<TCP_MAX_SOCKETS]"] assms(1-3) by (auto simp: tcp_tick_def)
  then show ?thesis using assms(4)
    by (auto simp: ticked_def same_peer_def str_inv_def taking_data_def)
qed

lemma recv_str:
  assumes i: "i < TCP_MAX_SOCKETS" "length (socks t) = TCP_MAX_SOCKETS"
    and r: "tcp_recv (int i) m t = (t', n, bs)" and inv: "str_inv S start out (socks t ! i)"
  shows "str_inv S start (out @ bs) (socks t' ! i) \<and> same_peer (socks t ! i) (socks t' ! i)
    \<and> length (socks t') = length (socks t)"
proof (cases "used (socks t ! i) \<and> recv_len (socks t ! i) \<noteq> 0")
  case False
  then have "t' = t" "bs = []" using r i by (auto simp: tcp_recv_def sock_at_def split: if_splits)
  with inv show ?thesis by (simp add: same_peer_def)
next
  case True
  obtain s' where s': "recv_sock m (socks t ! i) = (s', bs)" "t' = put_sock i s' t"
    using True r i by (auto simp: tcp_recv_def sock_at_def split: prod.splits)
  have ok: "sock_ok (socks t ! i)" using inv by (simp add: str_inv_def)
  note v = recv_sock_ok [OF ok s'(1)]
  have "str_inv S start (out @ bs) s'"
    using inv v unfolding str_inv_def by auto
  with v s'(2) i show ?thesis by (simp add: put_sock_def same_peer_def)
qed

lemma tcp_run_str:
  assumes "tcp_run i es t = Some (t', bs)" "i < TCP_MAX_SOCKETS" "length (socks t) = TCP_MAX_SOCKETS"
    "str_inv S start out (socks t ! i)" "length S < 2 ^ 32" "\<forall>e \<in> set es. honest S start (socks t ! i) e"
  shows "str_inv S start (out @ bs) (socks t' ! i)"
  using assms
proof (induction es arbitrary: t out bs)
  case Nil
  then show ?case by simp
next
  case (Cons e es)
  note S = Cons.prems(5)
  have step: ?case
    if t1: "tcp_run i es t1 = Some (t', bs2)" "bs = bs1 @ bs2" "str_inv S start (out @ bs1) (socks t1 ! i)"
      "same_peer (socks t ! i) (socks t1 ! i)" "length (socks t1) = length (socks t)" for t1 bs1 bs2
  proof -
    have "\<forall>e \<in> set es. honest S start (socks t1 ! i) e"
      using Cons.prems(6) honest_same_peer [OF t1(4)] by simp
    from Cons.IH [OF t1(1) Cons.prems(2) _ t1(3) S this] t1(2,5) Cons.prems(3) show ?thesis by simp
  qed
  show ?case
  proof (cases e)
    case (Segment src seg len)
    obtain t1 where t1: "tcp_receive src seg len t = Some t1" "tcp_run i es t1 = Some (t', bs)"
      using Cons.prems(1) Segment by (auto split: bind_splits)
    have i: "i < length (socks t)" using Cons.prems(2,3) by simp
    have "str_inv S start out (socks t1 ! i)"
      by (rule receive_str [OF t1(1) i Cons.prems(4) S]) (use Cons.prems(6) Segment in simp)
    then show ?thesis
      using step [OF t1(2), of "[]"] receive_edges [OF t1(1)] i by (simp add: same_peer_def)
  next
    case (Read m)
    obtain t1 n bs1 where r: "tcp_recv (int i) m t = (t1, n, bs1)" using prod_cases3 by blast
    then obtain bs2 where b: "tcp_run i es t1 = Some (t', bs2)" "bs = bs1 @ bs2"
      using Cons.prems(1) Read by auto
    from recv_str [OF Cons.prems(2,3) r Cons.prems(4)] step [OF b] show ?thesis by simp
  next
    case (Tick now)
    obtain t1 where t1: "tcp_tick (t\<lparr>uptime := now\<rparr>) = Some t1" "tcp_run i es t1 = Some (t', bs)"
      using Cons.prems(1) Tick by (auto split: bind_splits)
    have "str_inv S start out (socks t1 ! i) \<and> same_peer (socks t ! i) (socks t1 ! i)
        \<and> length (socks t1) = length (socks t)"
      using tick_str [OF t1(1)] Cons.prems(2,3,4) by simp
    then show ?thesis using step [OF t1(2), of "[]"] by simp
  qed
qed

lemma tcp_run_edges:
  assumes "tcp_run i es t = Some (t', bs)" "length (socks t) = TCP_MAX_SOCKETS" "j < TCP_MAX_SOCKETS"
    "st (socks t' ! j) = TCP_CLOSE_WAIT"
  shows "st (socks t ! j) = TCP_CLOSE_WAIT"
  using assms
proof (induction i es t arbitrary: bs rule: tcp_run.induct)
  case (2 i src seg len es t)
  obtain t1 where t1: "tcp_receive src seg len t = Some t1" "tcp_run i es t1 = Some (t', bs)"
    using 2(2) by (auto split: bind_splits)
  from 2(1) [OF t1] receive_edges [OF t1(1)] 2(3-5) have "st (socks t1 ! j) = TCP_CLOSE_WAIT" by simp
  then show ?case using receive_edges(2) [OF t1(1), of j] 2(3,4) to_close_wait by auto
next
  case (3 i m es t)
  obtain t1 n bs1 where r: "tcp_recv (int i) m t = (t1, n, bs1)" using prod_cases3 by blast
  then obtain bs2 where b: "tcp_run i es t1 = Some (t', bs2)" using 3(2) by auto
  have "length (socks t1) = length (socks t) \<and> st (socks t1 ! j) = st (socks t ! j)"
    using r 3(3,4) by (auto simp: tcp_recv_def sock_at_def put_sock_def recv_sock_def nth_list_update Let_def
        split: option.splits if_splits prod.splits)
  with 3(1) [OF r [symmetric] refl b] 3(3-5) show ?case by simp
next
  case (4 i now es t)
  obtain t1 where t1: "tcp_tick (t\<lparr>uptime := now\<rparr>) = Some t1" "tcp_run i es t1 = Some (t', bs)"
    using 4(2) by (auto split: bind_splits)
  have tk: "length (socks t1) = length (socks t)" "ticked (socks t ! j) (socks t1 ! j)"
    using tick_from_ticked [of "[0..<TCP_MAX_SOCKETS]" _ "t\<lparr>uptime := now\<rparr>" t1] t1(1) 4(3,4)
    by (auto simp: tcp_tick_def)
  from 4(1) [OF t1] tk(1) 4(3-5) have "st (socks t1 ! j) = TCP_CLOSE_WAIT" by simp
  with tk(2) show ?case by (auto simp: ticked_def)
qed simp

section \<open>Every reception returns\<close>

text \<open>The segment kept for retransmission fits its buffer.\<close>

definition retx_ok :: "tcpsock \<Rightarrow> bool" where
  "retx_ok s \<longleftrightarrow> length (retx_buf s) = 2048 \<and> unat (retx_len s) \<le> 2048"

definition tcp_ok :: "tcp \<Rightarrow> chunk list \<Rightarrow> bool" where
  "tcp_ok t hs \<longleftrightarrow> heap_ok (tnet t) hs \<and> length (socks t) = TCP_MAX_SOCKETS
     \<and> (\<forall>s \<in> set (socks t). retx_ok s)"

lemma length_packet:
  assumes "heap_ok n hs" "length payload < 60000"
  shows "length (tcp_packet s flags payload n) = unat (14 + (20 + (20 + of_nat (length payload) :: u16)))"
proof -
  have l: "unat (of_nat (length payload) :: u16) = length payload" using assms(2) by (intro unat_of_nat_lt) simp
  have "unat (14 + (20 + (20 + of_nat (length payload) :: u16))) = 54 + length payload"
    using l assms(2) by (simp add: unat_plus_if)
  then show ?thesis
    using dst_mac_length6 [OF assms(1)] assms(1)
    by (simp add: tcp_packet_def Let_def eth_frame_def ip_header_def tcp_segment_def tcp_fields_def heap_ok_def)
qed

lemma send_raw_returns:
  assumes ok: "heap_ok (tnet t) hs" and len: "length payload \<le> 2048" and r: "retx_ok s"
  shows "\<exists>t' s' b. tcp_send_raw flags payload sv s t = Some (t', s', b) \<and> heap_ok (tnet t') hs \<and> retx_ok s'"
proof -
  have pos: "(0 :: u16) < 14 + (20 + (20 + of_nat (length payload)))"
  proof -
    have "unat (of_nat (length payload) :: u16) = length payload" using len by (intro unat_of_nat_lt) simp
    then have "unat (14 + (20 + (20 + of_nat (length payload) :: u16))) = 54 + length payload"
      using len by (simp add: unat_plus_if)
    then show ?thesis by (simp add: word_less_nat_alt)
  qed
  have hp: "heap_ok (tnet t\<lparr>nheap := nheap (tnet t)\<rparr>) hs" using ok by simp
  have "\<exists>n' b. with_pkt (14 + (20 + (20 + of_nat (length payload))))
       (\<lambda>n. Some (n\<lparr>tcp_ip_id := tcp_ip_id n + 1\<rparr>, tcp_packet s flags payload n)) (tnet t) = Some (n', b)
       \<and> heap_ok n' hs"
  proof (rule with_pkt_returns [OF ok pos])
    fix h
    have "length (tcp_packet s flags payload (tnet t\<lparr>nheap := h\<rparr>))
        = length (tcp_packet s flags payload (tnet t))"
      by (simp add: tcp_packet_def Let_def dst_mac_def eth_frame_def ip_header_def tcp_segment_def tcp_fields_def)
    then show "\<exists>n1 f. Some (tnet t\<lparr>nheap := h\<rparr>\<lparr>tcp_ip_id := tcp_ip_id (tnet t\<lparr>nheap := h\<rparr>) + 1\<rparr>,
        tcp_packet s flags payload (tnet t\<lparr>nheap := h\<rparr>)) = Some (n1, f)
        \<and> length f = unat (14 + (20 + (20 + of_nat (length payload) :: u16))) \<and> nheap n1 = h
        \<and> my_mac n1 = my_mac (tnet t) \<and> arp_cache n1 = arp_cache (tnet t)"
      using length_packet [OF ok] len by simp
  qed
  then obtain n' b where w: "with_pkt (14 + (20 + (20 + of_nat (length payload))))
       (\<lambda>n. Some (n\<lparr>tcp_ip_id := tcp_ip_id n + 1\<rparr>, tcp_packet s flags payload n)) (tnet t) = Some (n', b)"
    "heap_ok n' hs" by blast
  have rs: "retx_ok (save_segment flags payload now s)" for now
  proof -
    have l: "unat (of_nat (length payload) :: u16) = length payload" using len by (intro unat_of_nat_lt) simp
    have "unat (if of_nat (length payload) < TCP_RETX_BUF then of_nat (length payload) else TCP_RETX_BUF :: u16) \<le> 2048"
      using l len by (simp add: TCP_RETX_BUF_def)
    then show ?thesis using r by (simp add: retx_ok_def save_segment_def Let_def)
  qed
  have rv: "retx_ok (x\<lparr>snd_nxt := v\<rparr>) = retx_ok x" for x v by (simp add: retx_ok_def)
  have ra: "retx_ok ((if sv \<and> 0 < seg_advance flags payload then save_segment flags payload (uptime t) s else s)
      \<lparr>snd_nxt := snd_nxt s + seg_advance flags payload\<rparr>)"
    unfolding rv using r rs [of "uptime t"] by simp
  show ?thesis
  proof (cases b)
    case True
    have "tcp_send_raw flags payload sv s t = Some (t\<lparr>tnet := n'\<rparr>,
      (if sv \<and> 0 < seg_advance flags payload then save_segment flags payload (uptime t) s else s)
      \<lparr>snd_nxt := snd_nxt s + seg_advance flags payload\<rparr>, True)"
      unfolding tcp_send_raw_def w(1) using True by (simp add: Let_def)
    moreover have "heap_ok (tnet (t\<lparr>tnet := n'\<rparr>)) hs" using w(2) by simp
    ultimately show ?thesis using ra by blast
  next
    case False
    have "tcp_send_raw flags payload sv s t = Some (t\<lparr>tnet := n'\<rparr>, s, False)"
      unfolding tcp_send_raw_def w(1) using False by (simp add: Let_def)
    moreover have "heap_ok (tnet (t\<lparr>tnet := n'\<rparr>)) hs" using w(2) by simp
    ultimately show ?thesis using r by blast
  qed
qed

lemma send_ack_returns:
  assumes "heap_ok (tnet t) hs" "retx_ok s"
  shows "\<exists>t' s'. tcp_send_ack s t = Some (t', s') \<and> heap_ok (tnet t') hs \<and> retx_ok s'"
  using send_raw_returns [OF assms(1) _ assms(2), of "[]" TCP_ACK False] by (auto simp: tcp_send_ack_def)

lemma retx_ok_upd [simp]:
  "retx_ok (s\<lparr>rcv_nxt := a\<rparr>) = retx_ok s" "retx_ok (s\<lparr>st := b\<rparr>) = retx_ok s"
  "retx_ok (s\<lparr>timewait_deadline := c\<rparr>) = retx_ok s" "retx_ok (s\<lparr>retx_deadline := c\<rparr>) = retx_ok s"
  "retx_ok (s\<lparr>snd_una := c\<rparr>) = retx_ok s" "retx_ok (s\<lparr>snd_nxt := c\<rparr>) = retx_ok s"
  "retx_ok (s\<lparr>retx_count := d\<rparr>) = retx_ok s" "retx_ok (free_sock s) = retx_ok s"
  "retx_ok (store_data bs s) = retx_ok s" "retx_ok s \<Longrightarrow> retx_ok (ack_step f e s)" "retx_ok zero_sock"
  by (auto simp: retx_ok_def free_sock_def store_data_def ack_step_def zero_sock_def split: prod.splits)

lemma time_wait_returns:
  assumes "heap_ok (tnet t) hs" "retx_ok s"
  shows "\<exists>t' s'. enter_time_wait s t = Some (t', s') \<and> heap_ok (tnet t') hs \<and> retx_ok s'"
proof -
  obtain t1 s1 where "tcp_send_ack (s\<lparr>rcv_nxt := rcv_nxt s + 1\<rparr>) t = Some (t1, s1)"
    "heap_ok (tnet t1) hs" "retx_ok s1"
    using send_ack_returns [OF assms(1), of "s\<lparr>rcv_nxt := rcv_nxt s + 1\<rparr>"] assms(2) by auto
  then show ?thesis by (simp add: enter_time_wait_def)
qed

lemma take_data_returns:
  assumes "sock_ok s" "retx_ok s" "unat n \<le> length payload"
  shows "\<exists>s' b. take_data payload n seq s = Some (s', b) \<and> retx_ok s'"
  using unat_data_copy [OF assms(1), of n] assms(2,3) by (auto simp: take_data_def Let_def)

lemma rst_returns:
  assumes "heap_ok (tnet t) hs"
  shows "\<exists>t'. tcp_send_rst_for a b c d t = Some t' \<and> heap_ok (tnet t') hs"
proof -
  have "retx_ok (zero_sock\<lparr>remote_ip := a, local_port := c, remote_port := b, snd_nxt := d\<rparr>)"
    by (simp add: retx_ok_def zero_sock_def)
  from send_raw_returns [OF assms _ this, of "[]" TCP_RST False] show ?thesis
    by (auto simp: tcp_send_rst_for_def)
qed

lemma rx_state_returns:
  assumes ok: "heap_ok (tnet t) hs" "retx_ok s" "sock_ok s" and n: "unat n \<le> length payload"
  shows "\<exists>t' s'. rx_state flags seq ack payload n s t = Some (t', s') \<and> heap_ok (tnet t') hs \<and> retx_ok s'"
proof (cases "st s")
  case TCP_SYN_SENT
  show ?thesis
  proof (cases "flags AND (TCP_SYN OR TCP_ACK) = TCP_SYN OR TCP_ACK")
    case True
    show ?thesis
      using TCP_SYN_SENT True rst_returns [OF ok(1), of "remote_ip s" "remote_port s" "local_port s" ack] ok(2)
        send_ack_returns [OF ok(1), of "s\<lparr>rcv_nxt := seq + 1, snd_una := ack, st := TCP_ESTABLISHED, retx_deadline := 0\<rparr>"]
      by (auto simp: rx_state_def rx_syn_sent_def)
  qed (use TCP_SYN_SENT ok in \<open>simp add: rx_state_def rx_syn_sent_def\<close>)
next
  case TCP_ESTABLISHED
  obtain s1 b where s1: "take_data payload n seq s = Some (s1, b)" "retx_ok s1"
    using take_data_returns [OF ok(3,2) n] by blast
  obtain t2 s2 where s2: "(if b then tcp_send_ack s1 t else Some (t, s1)) = Some (t2, s2)"
    "heap_ok (tnet t2) hs" "retx_ok s2" using send_ack_returns [OF ok(1) s1(2)] ok(1) s1(2) by (cases b) auto
  obtain t3 s3 where s3: "tcp_send_ack (s2\<lparr>rcv_nxt := rcv_nxt s2 + 1\<rparr>) t2 = Some (t3, s3)"
    "heap_ok (tnet t3) hs" "retx_ok s3"
    using send_ack_returns [OF s2(2), of "s2\<lparr>rcv_nxt := rcv_nxt s2 + 1\<rparr>"] s2(3) by auto
  obtain t4 s4 c where s4: "tcp_send_raw (TCP_FIN OR TCP_ACK) [] True (s3\<lparr>st := TCP_LAST_ACK\<rparr>) t3 = Some (t4, s4, c)"
    "heap_ok (tnet t4) hs" "retx_ok s4"
    using send_raw_returns [OF s3(2), of "[]" "s3\<lparr>st := TCP_LAST_ACK\<rparr>" "TCP_FIN OR TCP_ACK" True] s3(3)
    by auto
  show ?thesis using TCP_ESTABLISHED s1 s2 s3 s4 by (simp add: rx_state_def rx_established_def)
next
  case TCP_FIN_WAIT_1
  let ?s = "if flags AND TCP_ACK \<noteq> 0 then s\<lparr>st := TCP_FIN_WAIT_2\<rparr> else s"
  have "retx_ok ?s" using ok(2) by simp
  from time_wait_returns [OF ok(1) this] ok TCP_FIN_WAIT_1 show ?thesis
    by (simp add: rx_state_def rx_fin_wait_1_def Let_def)
next
  case TCP_FIN_WAIT_2
  obtain s1 b where s1: "take_data payload n seq s = Some (s1, b)" "retx_ok s1"
    using take_data_returns [OF ok(3,2) n] by blast
  from time_wait_returns [OF ok(1) s1(2)] s1 TCP_FIN_WAIT_2 ok show ?thesis
    by (auto simp: rx_state_def rx_fin_wait_2_def)
next
  case TCP_TIME_WAIT
  from time_wait_returns [OF ok(1,2)] TCP_TIME_WAIT ok show ?thesis
    by (auto simp: rx_state_def rx_time_wait_def)
qed (use ok in \<open>auto simp: rx_state_def\<close>)

lemma receive_returns:
  assumes ok: "tcp_ok t hs" and so: "\<forall>s \<in> set (socks t). sock_ok s" and len: "unat len \<le> length seg"
  shows "\<exists>t'. tcp_receive src seg len t = Some t' \<and> tcp_ok t' hs"
proof (cases "seg_valid seg len")
  case False
  have "tcp_receive src seg len t = Some t"
  proof (cases "len < 20")
    case False
    then have "seg_hdr seg < 20 \<or> len < ucast (seg_hdr seg)"
      using \<open>\<not> seg_valid seg len\<close> by (auto simp: seg_valid_def)
    with False show ?thesis by (simp add: tcp_receive_def Let_def seg_hdr_def)
  qed (simp add: tcp_receive_def)
  with ok show ?thesis by simp
next
  case True
  have h: "heap_ok (tnet t) hs" using ok by (simp add: tcp_ok_def)
  show ?thesis
  proof (cases "find_idx (matches src (htons (get16 seg 0)) (htons (get16 seg 2))) (socks t)")
    case None
    obtain t1 where t1: "tcp_send_rst_for src (htons (get16 seg 0)) (htons (get16 seg 2)) (htonl (get32 seg 8)) t = Some t1"
      "heap_ok (tnet t1) hs" using rst_returns [OF h] by blast
    then have "tcp_ok t1 hs" using ok send_rst_view(1) [OF t1(1)] by (simp add: tcp_ok_def)
    with None t1 ok show ?thesis unfolding receive_valid [OF True] by simp
  next
    case (Some i)
    then have i: "i < length (socks t)" by (simp add: find_idx_Some_iff)
    then have r: "retx_ok (socks t ! i)" "sock_ok (socks t ! i)" using ok so by (auto simp: tcp_ok_def)
    let ?s = "ack_step (seg ! 13) (htonl (get32 seg 8)) (socks t ! i)"
    have n: "unat (len - ucast (seg_hdr seg)) \<le> length (drop (unat (seg_hdr seg)) seg)"
      using True len by (simp add: seg_valid_def unat_minus_le)
    have so': "sock_ok ?s" using r(2) rx_viewD(4) [OF ack_step_view] by simp
    obtain t1 s1 where s1: "rx_state (seg ! 13) (htonl (get32 seg 4)) (htonl (get32 seg 8))
        (drop (unat (seg_hdr seg)) seg) (len - ucast (seg_hdr seg)) ?s t = Some (t1, s1)"
      "heap_ok (tnet t1) hs" "retx_ok s1"
      using rx_state_returns [OF h _ so' n] r(1) by (metis retx_ok_upd(10))
    have k: "socks t1 = socks t" using rx_state_kept [OF s1(1)] by (simp add: kept_def)
    have "tcp_ok (put_sock i s1 t1) hs" "tcp_ok (put_sock i (free_sock (socks t ! i)) t) hs"
      using ok s1(2,3) k r(1) h all_set_update [of "socks t" retx_ok s1 i]
        all_set_update [of "socks t" retx_ok "free_sock (socks t ! i)" i]
      by (simp_all add: tcp_ok_def put_sock_def)
    with Some s1(1) show ?thesis unfolding receive_valid [OF True] by (simp split: if_splits)
  qed
qed

lemma receive_sock_ok:
  assumes "tcp_receive src seg len t = Some t'" "\<forall>s \<in> set (socks t). sock_ok s"
  shows "\<forall>s \<in> set (socks t'). sock_ok s"
  using assms(1)
proof (cases rule: receive_cases)
  case none
  with assms(2) show ?thesis by simp
next
  case (one i s')
  have i: "sock_ok (socks t ! i)" using one(1) assms(2) by simp
  have "sock_ok s'"
    using one(5)
  proof
    assume "s' = free_sock (socks t ! i)"
    with i show ?thesis by (simp add: free_sock_def sock_ok_def)
  next
    assume "\<exists>t1. rx_state (seg ! 13) (htonl (get32 seg 4)) (htonl (get32 seg 8))
         (drop (unat (seg_hdr seg)) seg) (len - ucast (seg_hdr seg))
         (ack_step (seg ! 13) (htonl (get32 seg 8)) (socks t ! i)) t = Some (t1, s')"
    then show ?thesis using rx_state_sock_ok i rx_viewD(4) [OF ack_step_view] by blast
  qed
  with one(4) assms(2) show ?thesis using set_update_subset_insert [of "socks t" i s'] by auto
qed

lemma retransmit_returns:
  assumes ok: "heap_ok (tnet t) hs" "retx_ok s"
  shows "\<exists>t' s'. do_retransmit s t = Some (t', s') \<and> heap_ok (tnet t') hs \<and> retx_ok s'"
proof -
  let ?s = "s\<lparr>retx_count := retx_count s + 1, snd_nxt := retx_seq s\<rparr>"
  have "length (take (unat (retx_len s)) (retx_buf s)) \<le> 2048" "retx_ok ?s"
    using ok(2) by (simp_all add: retx_ok_def)
  from send_raw_returns [OF ok(1) this, of "retx_flags s" False] obtain t2 s2 b where
    s2: "tcp_send_raw (retx_flags s) (take (unat (retx_len s)) (retx_buf s)) False ?s t = Some (t2, s2, b)"
    "heap_ok (tnet t2) hs" "retx_ok s2" by blast
  then show ?thesis using ok by (simp add: do_retransmit_def Let_def)
qed

lemma tick_sock_returns:
  assumes "heap_ok (tnet t) hs" "retx_ok s"
  shows "\<exists>t' s'. tick_sock now s t = Some (t', s') \<and> heap_ok (tnet t') hs \<and> retx_ok s'"
  using retransmit_returns [OF assms] assms by (simp add: tick_sock_def)

lemma tick_from_returns:
  assumes "tcp_ok t hs" "\<forall>i \<in> set is. i < length (socks t)"
  shows "\<exists>t'. tick_from is now t = Some t' \<and> tcp_ok t' hs"
  using assms
proof (induction "is" arbitrary: t)
  case (Cons k ks)
  have k: "heap_ok (tnet t) hs" "retx_ok (socks t ! k)" using Cons.prems by (auto simp: tcp_ok_def)
  obtain t1 s1 where s1: "tick_sock now (socks t ! k) t = Some (t1, s1)" "heap_ok (tnet t1) hs" "retx_ok s1"
    using tick_sock_returns [OF k] by blast
  have "socks t1 = socks t" using tick_sock_ticked [OF s1(1)] by simp
  then have "tcp_ok (put_sock k s1 t1) hs" "\<forall>i \<in> set ks. i < length (socks (put_sock k s1 t1))"
    using Cons.prems s1(2,3) set_update_subset_insert [of "socks t" k s1] by (auto simp: tcp_ok_def put_sock_def)
  from Cons.IH [OF this] s1(1) show ?case by simp
qed simp

lemma tick_sock_ok:
  assumes "tcp_tick t = Some t'" "length (socks t) = TCP_MAX_SOCKETS" "\<forall>s \<in> set (socks t). sock_ok s"
  shows "\<forall>s \<in> set (socks t'). sock_ok s"
proof -
  have "length (socks t') = length (socks t)" "\<forall>i < length (socks t). ticked (socks t ! i) (socks t' ! i)"
    using tick_from_ticked [of "[0..<TCP_MAX_SOCKETS]"] assms(1,2) by (auto simp: tcp_tick_def)
  with assms(3) show ?thesis by (auto simp: all_set_conv_all_nth ticked_def)
qed

definition readable :: "tcp_event \<Rightarrow> bool" where
  "readable e = (case e of Segment src seg len \<Rightarrow> unat len \<le> length seg | _ \<Rightarrow> True)"

lemma tcp_run_returns:
  assumes "tcp_ok t hs" "\<forall>s \<in> set (socks t). sock_ok s" "i < TCP_MAX_SOCKETS" "\<forall>e \<in> set es. readable e"
  shows "\<exists>t' bs. tcp_run i es t = Some (t', bs)"
  using assms
proof (induction es arbitrary: t)
  case (Cons e es)
  have len: "length (socks t) = TCP_MAX_SOCKETS" using Cons.prems(1) by (simp add: tcp_ok_def)
  have es: "\<forall>e \<in> set es. readable e" using Cons.prems(4) by simp
  show ?case
  proof (cases e)
    case (Segment src seg l)
    then have "unat l \<le> length seg" using Cons.prems(4) by (simp add: readable_def)
    from receive_returns [OF Cons.prems(1,2) this, of src] obtain t1 where
      t1: "tcp_receive src seg l t = Some t1" "tcp_ok t1 hs" by blast
    from Cons.IH [OF t1(2) receive_sock_ok [OF t1(1) Cons.prems(2)] Cons.prems(3) es] t1(1) Segment
    show ?thesis by auto
  next
    case (Read m)
    obtain t1 n bs1 where r: "tcp_recv (int i) m t = (t1, n, bs1)" using prod_cases3 by blast
    have "t1 = t \<or> (\<exists>s'. t1 = put_sock i s' t \<and> sock_ok s' \<and> retx_ok s')"
    proof (cases "used (socks t ! i) \<and> recv_len (socks t ! i) \<noteq> 0")
      case False
      then show ?thesis using r Cons.prems(3) by (auto simp: tcp_recv_def sock_at_def split: if_splits)
    next
      case True
      obtain s' where s': "recv_sock m (socks t ! i) = (s', bs1)" "t1 = put_sock i s' t"
        using True r Cons.prems(3) by (auto simp: tcp_recv_def sock_at_def split: prod.splits)
      have "sock_ok (socks t ! i)" "retx_ok (socks t ! i)"
        using Cons.prems(1-3) len by (auto simp: tcp_ok_def)
      then have "sock_ok s'" "retx_ok s'" using recv_sock_ok(1) [OF _ s'(1)] s'(1)
        by (auto simp: recv_sock_def Let_def retx_ok_def split: prod.splits)
      with s' show ?thesis by blast
    qed
    then have "tcp_ok t1 hs" "\<forall>s \<in> set (socks t1). sock_ok s"
      using Cons.prems(1,2) all_set_update [of "socks t" retx_ok _ i] all_set_update [of "socks t" sock_ok _ i]
      by (auto simp: tcp_ok_def put_sock_def)
    from Cons.IH [OF this Cons.prems(3) es] r Read show ?thesis by auto
  next
    case (Tick now)
    have ok: "tcp_ok (t\<lparr>uptime := now\<rparr>) hs" using Cons.prems(1) by (simp add: tcp_ok_def)
    have "\<forall>i \<in> set [0..<TCP_MAX_SOCKETS]. i < length (socks (t\<lparr>uptime := now\<rparr>))" using len by simp
    from tick_from_returns [OF ok this] obtain t1 where
      t1: "tcp_tick (t\<lparr>uptime := now\<rparr>) = Some t1" "tcp_ok t1 hs" by (auto simp: tcp_tick_def)
    have "\<forall>s \<in> set (socks t1). sock_ok s" using tick_sock_ok [OF t1(1)] Cons.prems(2) len by simp
    from Cons.IH [OF t1(2) this Cons.prems(3) es] t1(1) Tick show ?thesis by auto
  qed
qed simp

section \<open>Checksums of segments\<close>

lemma sum16_append: "even (length a) \<Longrightarrow> sum16 (a @ b) s = sum16 b (sum16 a s)"
  by (induction a s rule: sum16.induct) simp_all

lemma segment_checks:
  assumes "length payload \<le> 2048"
  shows "tcp_cksum src (remote_ip s) (tcp_segment src s flags payload) = 0"
proof -
  let ?n = "20 + length payload"
  let ?ps = "bytes32 src @ bytes32 (remote_ip s) @ [0, 6] @ bytes16 (htons (of_nat ?n))"
  let ?a = "bytes16 (htons (local_port s)) @ bytes16 (htons (remote_port s)) @ bytes32 (htonl (snd_nxt s))
       @ bytes32 (if flags AND TCP_ACK \<noteq> 0 then htonl (rcv_nxt s) else 0)
       @ [0x50, flags] @ bytes16 (htons (ucast TCP_RECV_BUF))"
  let ?b = "bytes16 0 @ payload"
  have f: "tcp_fields s flags ck payload = ?a @ bytes16 ck @ ?b" for ck by (simp add: tcp_fields_def)
  have ln: "length (tcp_fields s flags ck payload) = ?n" for ck by (simp add: tcp_fields_def)
  have c: "tcp_cksum src (remote_ip s) seg = ip_checksum (?ps @ seg)" if "length seg = ?n" for seg
    unfolding tcp_cksum_def ip_checksum_def that by (subst (2) sum16_append) simp_all
  have "length (?ps @ ?a) + length ?b < 60000" "even (length (?ps @ ?a))" using assms by simp_all
  from checksum_in_place [OF this] have
    "ip_checksum ((?ps @ ?a) @ bytes16 (ip_checksum ((?ps @ ?a) @ bytes16 0 @ ?b)) @ ?b) = 0" .
  then show ?thesis
    unfolding tcp_segment_def c [OF ln] unfolding f append_assoc .
qed

section \<open>Properties\<close>

text \<open>
  C1: reliable, in-order delivery. Let every segment of the connection carry the part of the
  peer's stream that its sequence number says, and let segments be lost, repeated, reordered
  and mixed with segments of other connections, resets, timer ticks and reads in any way.
  Then the kernel gets through the whole run, and the bytes the client has read, followed by
  those waiting in the receive ring, are a prefix of the peer's stream.
\<close>

theorem tcp_stream_prefix:
  assumes "tcp_ok t hs" "\<forall>s \<in> set (socks t). sock_ok s" "i < TCP_MAX_SOCKETS"
    and "st (socks t ! i) = TCP_ESTABLISHED" "rcv_nxt (socks t ! i) = start" "recv_len (socks t ! i) = 0"
    and "length S < 2 ^ 32" "\<forall>e \<in> set es. readable e \<and> honest S start (socks t ! i) e"
  shows "\<exists>t' bs k. tcp_run i es t = Some (t', bs) \<and> bs @ sock_data (socks t' ! i) = take k S"
proof -
  obtain t' bs where r: "tcp_run i es t = Some (t', bs)"
    using tcp_run_returns [OF assms(1-3)] assms(8) by blast
  have len: "length (socks t) = TCP_MAX_SOCKETS" using assms(1) by (simp add: tcp_ok_def)
  then have "sock_ok (socks t ! i)" using assms(2,3) by simp
  then have "str_inv S start [] (socks t ! i)"
    using assms(4-6) by (auto simp: str_inv_def sock_data_def intro: exI [of _ 0])
  from tcp_run_str [OF r assms(3) len this assms(7)] assms(8)
  have "str_inv S start bs (socks t' ! i)" by simp
  with r show ?thesis by (auto simp: str_inv_def)
qed

text \<open>The state of the witnesses: one open connection.\<close>

definition demo_net :: net where
  "demo_net = \<lparr>my_ip = 0x0F02000A, gateway_ip = 0x0202000A, netmask = 0x00FFFFFF, my_mac = [1, 2, 3, 4, 5, 6],
     arp_cache = replicate 16 \<lparr>aip = 0, amac = replicate 6 0, avalid = False\<rparr>, ip_id = 1, tcp_ip_id = 0x6000,
     nic = \<lparr>rtl_present = True, rtl_mac = [1, 2, 3, 4, 5, 6], rx_ptr = 0, tx_buf = replicate 4 (replicate 1536 0),
            tx_slot = 0, wire = []\<rparr>, nheap = demo_heap\<rparr>"

definition demo_sock :: tcpsock where
  "demo_sock = zero_sock\<lparr>used := True, st := TCP_ESTABLISHED, remote_ip := 7, remote_port := 80,
     local_port := 49152, rcv_nxt := 1000\<rparr>"

definition demo_tcp :: tcp where
  "demo_tcp = \<lparr>socks = demo_sock # replicate 7 zero_sock, next_port = 49153, uptime = 5, tnet = demo_net\<rparr>"

text \<open>A segment of port 80 to port 49152 with the sequence number 1000 and the bytes 65, 66.\<close>

definition demo_seg :: bytes where
  "demo_seg = [0, 80, 192, 0, 0, 0, 3, 232, 0, 0, 0, 0, 80, 24, 32, 0, 0, 0, 0, 0, 65, 66]"

lemma demo_tcp_ok: "tcp_ok demo_tcp [(4076, True)]" "\<forall>s \<in> set (socks demo_tcp). sock_ok s"
  using demo_heap_rep
  by (simp_all add: tcp_ok_def demo_tcp_def demo_net_def heap_ok_def TCP_MAX_SOCKETS_def retx_ok_def demo_sock_def
      zero_sock_def sock_ok_def RECV_N_def)

lemma demo_seg_fields: "get32 demo_seg 4 = 0xE8030000" "htonl (0xE8030000) = 1000"
  "seg_hdr demo_seg = 20" "length demo_seg = 22"
  by (simp_all add: demo_seg_def get32_def htonl_def seg_hdr_def)

theorem tcp_stream_prefix_witness:
  "\<exists>t' bs k. tcp_run 0 [Segment 7 demo_seg 22, Read 10, Tick 9] demo_tcp = Some (t', bs)
     \<and> bs @ sock_data (socks t' ! 0) = take k [65, 66]"
proof -
  have "in_stream [65, 66] 1000 1000 [65, 66] 2"
    by (auto simp: in_stream_def intro!: exI [of _ 0])
  then have "in_stream [65, 66] 1000 (htonl (get32 demo_seg 4)) (drop (unat (seg_hdr demo_seg)) demo_seg)
      (22 - ucast (seg_hdr demo_seg))"
    unfolding demo_seg_fields(1-3) by (simp add: demo_seg_def)
  then have "\<forall>e \<in> set [Segment 7 demo_seg 22, Read 10, Tick 9]. readable e \<and> honest [65, 66] 1000 (socks demo_tcp ! 0) e"
    by (simp add: readable_def honest_def demo_seg_fields(4))
  from tcp_stream_prefix [OF demo_tcp_ok _ _ _ _ _ this] show ?thesis
    by (simp add: TCP_MAX_SOCKETS_def demo_tcp_def demo_sock_def zero_sock_def)
qed

text \<open>
  C13: the protocol's state machine. A received segment, whatever it is, moves every socket
  along an edge of the machine (open, close by the peer, close by us, drop) and never marks
  a free socket as used or changes whom a socket talks to; no run of segments, reads and
  ticks ever brings a socket into the state \<^verbatim>\<open>CLOSE_WAIT\<close>.
\<close>

theorem tcp_state_machine:
  assumes "length (socks t) = TCP_MAX_SOCKETS" "j < TCP_MAX_SOCKETS"
    and "tcp_receive src seg len t = Some t'" "tcp_run i es t = Some (t'', bs)"
  shows "tcp_edge (st (socks t ! j)) (st (socks t' ! j)) \<and> (used (socks t' ! j) \<longrightarrow> used (socks t ! j))
    \<and> remote_ip (socks t' ! j) = remote_ip (socks t ! j)
    \<and> (st (socks t'' ! j) = TCP_CLOSE_WAIT \<longrightarrow> st (socks t ! j) = TCP_CLOSE_WAIT)"
  using receive_edges(2) [OF assms(3)] tcp_run_edges [OF assms(4,1,2)] assms(1,2) by simp

theorem tcp_state_machine_witness:
  "\<exists>t'. tcp_receive 7 demo_seg 22 demo_tcp = Some t' \<and> tcp_edge TCP_ESTABLISHED (st (socks t' ! 0))"
proof -
  have l: "unat (22 :: u16) \<le> length demo_seg" by (simp add: demo_seg_fields)
  obtain t' where t': "tcp_receive 7 demo_seg 22 demo_tcp = Some t'"
    using receive_returns [OF demo_tcp_ok l] by blast
  have "length (socks demo_tcp) = TCP_MAX_SOCKETS" "0 < TCP_MAX_SOCKETS"
    by (simp_all add: demo_tcp_def TCP_MAX_SOCKETS_def)
  from tcp_state_machine [OF this t', of 0 "[]"] t' show ?thesis
    by (simp add: demo_tcp_def demo_sock_def)
qed

text \<open>
  Checksums. The checksum of every segment the kernel builds verifies: the receiver's
  sum over the pseudo header and the segment, with the checksum in place, is zero.
\<close>

theorem tcp_segment_verifies:
  assumes "length payload \<le> 2048"
  shows "tcp_cksum src (remote_ip s) (tcp_segment src s flags payload) = 0"
  by (rule segment_checks [OF assms])

theorem tcp_segment_verifies_witness:
  "tcp_cksum 1 (remote_ip demo_sock) (tcp_segment 1 demo_sock TCP_ACK [1, 2, 3]) = 0"
  by (rule tcp_segment_verifies) simp

end
