(* ===== verification/UdpListen.thy ===== *)
theory UdpListen
  imports NetIp
begin

unbundle bit_operations_syntax

text \<open>
  UDP listeners (\<^verbatim>\<open>kernel/udp_listen.cpp\<close>): four of them, each a ring of sixteen packets that
  the receive callback fills and \<^verbatim>\<open>udpl_recv\<close> empties. A listener is a bounded FIFO of fifteen
  packets, interpreted here as the \<open>fifo\<close> interface. Registering the callback with the UDP
  layer is in the theory of the whole stack.
\<close>

definition UDPL_BUF_DEPTH :: u32 where "UDPL_BUF_DEPTH = 16"
definition UDPL_PKT_MAX :: u16 where "UDPL_PKT_MAX = 512"
definition UDPL_MAX :: nat where "UDPL_MAX = 4"

record udp_packet =
  usrc_ip :: u32
  usrc_port :: u16
  udata :: bytes
  ulen :: u16

record listener =
  lport :: u16
  lused :: bool
  lslots :: "udp_packet list"
  lhead :: u32
  ltail :: u32

definition udpl_next :: "u32 \<Rightarrow> u32" where
  "udpl_next i = (i + 1) AND (UDPL_BUF_DEPTH - 1)"

definition fill_udp :: "u32 \<Rightarrow> u16 \<Rightarrow> bytes \<Rightarrow> u16 \<Rightarrow> udp_packet \<Rightarrow> udp_packet" where
  "fill_udp ip port data len p =
     (let copy = (if len < UDPL_PKT_MAX then len else UDPL_PKT_MAX) in
      p\<lparr>usrc_ip := ip, usrc_port := port, udata := copy_into (udata p) (take (unat copy) data), ulen := copy\<rparr>)"

definition make_callback :: "u32 \<Rightarrow> u16 \<Rightarrow> bytes \<Rightarrow> u16 \<Rightarrow> listener \<Rightarrow> listener" where
  "make_callback ip port data len l =
     (if \<not> lused l then l
      else let nxt = udpl_next (lhead l) in
        if nxt = ltail l then l
        else l\<lparr>lslots := (lslots l)[unat (lhead l) := fill_udp ip port data len (lslots l ! unat (lhead l))],
               lhead := nxt\<rparr>)"

definition open_listener :: "u16 \<Rightarrow> listener \<Rightarrow> listener" where
  "open_listener port l = l\<lparr>lport := port, lhead := 0, ltail := 0, lused := True\<rparr>"

definition recv_listener :: "listener \<Rightarrow> listener \<times> udp_packet option" where
  "recv_listener l =
     (if \<not> lused l then (l, None)
      else if lhead l = ltail l then (l, None)
      else (l\<lparr>ltail := udpl_next (ltail l)\<rparr>, Some (lslots l ! unat (ltail l))))"

definition udpl_recv :: "int \<Rightarrow> listener list \<Rightarrow> listener list \<times> udp_packet option" where
  "udpl_recv h ls =
     (if h < 0 \<or> int UDPL_MAX \<le> h then (ls, None)
      else case recv_listener (ls ! nat h) of (l, r) \<Rightarrow> (ls[nat h := l], r))"

section \<open>A listener is a FIFO\<close>

definition packet_of :: "udp_packet \<Rightarrow> u32 \<times> u16 \<times> bytes" where
  "packet_of p = (usrc_ip p, usrc_port p, take (unat (ulen p)) (udata p))"

definition lst_count :: "listener \<Rightarrow> nat" where
  "lst_count l = ring_count 16 (unat (ltail l)) (unat (lhead l))"

definition lst_items :: "listener \<Rightarrow> (u32 \<times> u16 \<times> bytes) list" where
  "lst_items l = map packet_of (ring_items 16 (lslots l) (unat (ltail l)) (lst_count l))"

definition lst_inv :: "listener \<Rightarrow> bool" where
  "lst_inv l \<longleftrightarrow> lused l \<and> length (lslots l) = 16 \<and> unat (lhead l) < 16 \<and> unat (ltail l) < 16
     \<and> (\<forall>p \<in> set (lslots l). length (udata p) = 512)"

definition dgram_ok :: "u32 \<times> u16 \<times> bytes \<Rightarrow> bool" where
  "dgram_ok d \<longleftrightarrow> length (snd (snd d)) \<le> 512"

definition lst_push :: "listener \<Rightarrow> u32 \<times> u16 \<times> bytes \<Rightarrow> listener \<times> bool" where
  "lst_push l d = (case d of (ip, port, data) \<Rightarrow>
     (let l' = make_callback ip port data (of_nat (length data)) l in (l', lhead l' \<noteq> lhead l)))"

definition lst_pop :: "listener \<Rightarrow> listener \<times> (u32 \<times> u16 \<times> bytes) option" where
  "lst_pop l = (case recv_listener l of (l', r) \<Rightarrow> (l', map_option packet_of r))"

lemma unat_udpl_next:
  assumes "unat i < 16"
  shows "unat (udpl_next i) = (unat i + 1) mod 16"
proof -
  have "(UDPL_BUF_DEPTH - 1 :: u32) = mask 4" by (simp add: UDPL_BUF_DEPTH_def mask_eq_exp_minus_1)
  moreover have "unat (i + 1) = unat i + 1" using assms by (intro unat_plus_one) simp
  ultimately show ?thesis by (simp add: udpl_next_def unat_and_mask)
qed

lemma fill_udp_packet:
  assumes "length data \<le> 512"
  shows "packet_of (fill_udp ip port data (of_nat (length data)) p) = (ip, port, data)"
    "length (udata p) = 512 \<Longrightarrow> length (udata (fill_udp ip port data (of_nat (length data)) p)) = 512"
proof -
  have l: "unat (of_nat (length data) :: u16) = length data" using assms by (intro unat_of_nat_lt) simp
  have c: "unat (if of_nat (length data) < UDPL_PKT_MAX then of_nat (length data) else UDPL_PKT_MAX :: u16) = length data"
    using l assms by (auto simp: UDPL_PKT_MAX_def word_less_nat_alt)
  show "packet_of (fill_udp ip port data (of_nat (length data)) p) = (ip, port, data)"
    using c by (simp add: packet_of_def fill_udp_def Let_def copy_into_def)
  show "length (udata p) = 512 \<Longrightarrow> length (udata (fill_udp ip port data (of_nat (length data)) p)) = 512"
    using c assms by (simp add: fill_udp_def Let_def copy_into_def)
qed

lemma lst_full_iff:
  assumes "lst_inv l"
  shows "udpl_next (lhead l) = ltail l \<longleftrightarrow> lst_count l = 15"
proof -
  have b: "unat (ltail l) < 16" "unat (lhead l) < 16" using assms by (simp_all add: lst_inv_def)
  have "udpl_next (lhead l) = ltail l \<longleftrightarrow> (unat (lhead l) + 1) mod 16 = unat (ltail l)"
    using unat_udpl_next [OF b(2)] by (metis word_unat_eq_iff)
  moreover have "lst_count l = 15" if "(unat (lhead l) + 1) mod 16 = unat (ltail l)"
    using ring_count_full [OF b that] by (simp add: lst_count_def)
  moreover have "lst_count l \<noteq> 15" if n: "(unat (lhead l) + 1) mod 16 \<noteq> unat (ltail l)"
    using ring_count_push [OF b n] ring_count_bound [of 16 "unat (ltail l)" "(unat (lhead l) + 1) mod 16"]
    by (simp add: lst_count_def)
  ultimately show ?thesis by blast
qed

lemma lst_push_room:
  assumes inv: "lst_inv l" and d: "dgram_ok d" and room: "lst_count l < 15"
  shows "\<exists>l'. lst_push l d = (l', True) \<and> lst_inv l' \<and> lst_items l' = lst_items l @ [d]"
proof -
  obtain ip port data where dd: "d = (ip, port, data)" by (cases d) auto
  have b: "unat (ltail l) < 16" "unat (lhead l) < 16" "length (lslots l) = 16" "lused l"
    using inv by (simp_all add: lst_inv_def)
  have ne: "udpl_next (lhead l) \<noteq> ltail l" using lst_full_iff [OF inv] room by simp
  then have ne': "(unat (lhead l) + 1) mod 16 \<noteq> unat (ltail l)"
    using unat_udpl_next [OF b(2)] by (metis word_unat_eq_iff)
  let ?p = "fill_udp ip port data (of_nat (length data)) (lslots l ! unat (lhead l))"
  let ?l = "l\<lparr>lslots := (lslots l)[unat (lhead l) := ?p], lhead := udpl_next (lhead l)\<rparr>"
  have len: "length data \<le> 512" using d dd by (simp add: dgram_ok_def)
  have hd: "unat (lhead l) = (unat (ltail l) + lst_count l) mod 16"
    using ring_count_head [OF b(1,2)] by (simp add: lst_count_def)
  have c: "lst_count ?l = Suc (lst_count l)"
    using ring_count_push [OF b(1,2) ne'] unat_udpl_next [OF b(2)] by (simp add: lst_count_def)
  have "ring_items 16 ((lslots l)[unat (lhead l) := ?p]) (unat (ltail l)) (Suc (lst_count l))
      = ring_items 16 (lslots l) (unat (ltail l)) (lst_count l) @ [?p]"
    using room b hd by (intro ring_items_write) simp_all
  then have it: "lst_items ?l = lst_items l @ [d]"
    using c fill_udp_packet(1) [OF len] dd by (simp add: lst_items_def)
  have "length (udata ?p) = 512" using fill_udp_packet(2) [OF len] inv b by (simp add: lst_inv_def)
  then have iv: "lst_inv ?l"
    using inv unat_udpl_next [OF b(2)] all_set_update [of "lslots l" "\<lambda>p. length (udata p) = 512" ?p]
    by (simp add: lst_inv_def)
  have "udpl_next (lhead l) \<noteq> lhead l"
  proof
    assume "udpl_next (lhead l) = lhead l"
    then have "(unat (lhead l) + 1) mod 16 = unat (lhead l)" using unat_udpl_next [OF b(2)] by simp
    then show False using b(2) by presburger
  qed
  then have "lst_push l d = (?l, True)"
    using ne b(4) dd by (simp add: lst_push_def make_callback_def Let_def)
  with it iv show ?thesis by blast
qed

lemma lst_pop_item:
  assumes inv: "lst_inv l" and it: "lst_items l = x # xs"
  shows "\<exists>l'. lst_pop l = (l', Some x) \<and> lst_inv l' \<and> lst_items l' = xs"
proof -
  have b: "unat (ltail l) < 16" "unat (lhead l) < 16" "lused l" using inv by (simp_all add: lst_inv_def)
  obtain n where n: "lst_count l = Suc n" using it by (cases "lst_count l") (auto simp: lst_items_def)
  then have ne: "lhead l \<noteq> ltail l"
    using ring_count_0_iff [OF b(1,2)] by (auto simp: lst_count_def)
  let ?l = "l\<lparr>ltail := udpl_next (ltail l)\<rparr>"
  have c: "lst_count ?l = n"
    using ring_count_pop [OF b(1,2), of n] n unat_udpl_next [OF b(1)] by (simp add: lst_count_def)
  have "lst_items l = packet_of (lslots l ! unat (ltail l)) # lst_items ?l"
    using ring_items_Cons [OF b(1), of "lslots l" n] n c unat_udpl_next [OF b(1)] by (simp add: lst_items_def)
  then have "packet_of (lslots l ! unat (ltail l)) = x" "lst_items ?l = xs" using it by simp_all
  moreover have "lst_inv ?l" using inv unat_udpl_next [OF b(1)] by (simp add: lst_inv_def)
  ultimately show ?thesis using ne b(3) by (simp add: lst_pop_def recv_listener_def)
qed

interpretation ul: fifo lst_items lst_inv dgram_ok 15 lst_push lst_pop
proof unfold_locales
  fix q x
  assume q: "lst_inv q" "dgram_ok x"
  have le: "length (lst_items q) = lst_count q" by (simp add: lst_items_def)
  show "\<exists>q'. lst_push q x = (q', True) \<and> lst_inv q' \<and> lst_items q' = lst_items q @ [x]"
    if "length (lst_items q) < 15" using lst_push_room [OF q] that le by simp
  show "lst_push q x = (q, False)" if "\<not> length (lst_items q) < 15"
  proof -
    have "lst_count q < 16" by (simp add: lst_count_def ring_count_bound)
    then have "udpl_next (lhead q) = ltail q" using lst_full_iff [OF q(1)] that le by simp
    then show ?thesis by (cases x) (simp add: lst_push_def make_callback_def Let_def)
  qed
next
  fix q
  assume q: "lst_inv q"
  then have b: "unat (ltail q) < 16" "unat (lhead q) < 16" by (simp_all add: lst_inv_def)
  show "lst_pop q = (q, None)" if "lst_items q = []"
  proof -
    have "lst_count q = 0" using that by (simp add: lst_items_def ring_items_def)
    then have "unat (lhead q) = unat (ltail q)" using ring_count_0_iff [OF b] by (simp add: lst_count_def)
    then have "lhead q = ltail q" by (simp add: word_unat_eq_iff)
    then show ?thesis by (simp add: lst_pop_def recv_listener_def)
  qed
  show "length (lst_items q) \<le> 15"
    using ring_count_bound [of 16 "unat (ltail q)" "unat (lhead q)"] by (simp add: lst_items_def lst_count_def)
next
  fix q x xs
  assume "lst_inv q" "lst_items q = x # xs"
  then show "\<exists>q'. lst_pop q = (q', Some x) \<and> lst_inv q' \<and> lst_items q' = xs" by (rule lst_pop_item)
qed

end
