(* ===== verification/Dns.thy ===== *)
theory Dns
  imports NetIp
begin

unbundle bit_operations_syntax

text \<open>
  The name resolver (\<^verbatim>\<open>kernel/dns.cpp\<close>): its cache with deadlines, names in the wire format,
  the answer a response gives, and the receive callback. Strings are byte lists without the
  terminating zero. Positions in a packet are natural numbers: a response is at most 512 bytes,
  so the code's 16-bit positions do not wrap. Sending the query and waiting, which need the
  whole stack, are in the theory of the stack.
\<close>

section \<open>State\<close>

definition DNS_PORT :: u16 where "DNS_PORT = 53"
definition DNS_MAX_NAME :: nat where "DNS_MAX_NAME = 253"
definition DNS_CACHE_SIZE :: nat where "DNS_CACHE_SIZE = 16"
definition DNS_TIMEOUT_MS :: u32 where "DNS_TIMEOUT_MS = 3000"
definition DNS_MAX_RETRIES :: nat where "DNS_MAX_RETRIES = 3"
definition DNS_TYPE_A :: u16 where "DNS_TYPE_A = 1"
definition DNS_FLAG_QR :: u16 where "DNS_FLAG_QR = push_bit 15 1"
definition DNS_FLAG_RD :: u16 where "DNS_FLAG_RD = push_bit 8 1"
definition DNS_RCODE_MASK :: u16 where "DNS_RCODE_MASK = 0x000F"

record dns_entry =
  dname :: bytes
  dip :: u32
  ddeadline :: u32
  dvalid :: bool

record dns =
  dns_server :: u32
  dnext_id :: u16
  dcache :: "dns_entry list"
  waiting :: bool
  wait_id :: u16
  resp_buf :: bytes
  resp_len :: u16

definition dns_init :: "u32 \<Rightarrow> dns \<Rightarrow> dns" where
  "dns_init server d = d\<lparr>dns_server := server, dnext_id := 0x1337,
     dcache := map (\<lambda>e. e\<lparr>dvalid := False\<rparr>) (dcache d)\<rparr>"

section \<open>The cache\<close>

text \<open>A lookup drops the expired entries it passes on its way.\<close>

fun cache_lookup :: "u32 \<Rightarrow> bytes \<Rightarrow> dns_entry list \<Rightarrow> dns_entry list \<times> u32 option" where
  "cache_lookup now name [] = ([], None)"
| "cache_lookup now name (e # es) =
     (if \<not> dvalid e then (case cache_lookup now name es of (es', r) \<Rightarrow> (e # es', r))
      else if ddeadline e \<le> now then
        (case cache_lookup now name es of (es', r) \<Rightarrow> (e\<lparr>dvalid := False\<rparr> # es', r))
      else if dname e = name then (e # es, Some (dip e))
      else (case cache_lookup now name es of (es', r) \<Rightarrow> (e # es', r)))"

fun pick_slot :: "nat \<Rightarrow> nat \<Rightarrow> u32 \<Rightarrow> dns_entry list \<Rightarrow> nat" where
  "pick_slot i slot oldest [] = slot"
| "pick_slot i slot oldest (e # es) =
     (if \<not> dvalid e then i
      else if ddeadline e < oldest then pick_slot (Suc i) i (ddeadline e) es
      else pick_slot (Suc i) slot oldest es)"

definition clamp_ttl :: "u32 \<Rightarrow> u32" where
  "clamp_ttl t = (let t1 = (if t < 30 then 30 else t) in if 300 < t1 then 300 else t1)"

definition cache_store :: "u32 \<Rightarrow> bytes \<Rightarrow> u32 \<Rightarrow> u32 \<Rightarrow> dns_entry list \<Rightarrow> dns_entry list" where
  "cache_store now name ip ttl c =
     (let slot = pick_slot 0 0 0xFFFFFFFF c in
      c[slot := \<lparr>dname = take DNS_MAX_NAME name, dip = ip, ddeadline = now + clamp_ttl ttl * 1000,
                 dvalid = True\<rparr>])"

definition dns_cache_count :: "u32 \<Rightarrow> dns_entry list \<Rightarrow> nat" where
  "dns_cache_count now c = length (filter (\<lambda>e. dvalid e \<and> now < ddeadline e) c)"

definition dns_cache_get :: "int \<Rightarrow> dns_entry list \<Rightarrow> dns_entry option" where
  "dns_cache_get i c = (if i < 0 \<or> int DNS_CACHE_SIZE \<le> i then None else Some (c ! nat i))"

definition dns_cache_flush :: "dns_entry list \<Rightarrow> dns_entry list" where
  "dns_cache_flush c = map (\<lambda>e. e\<lparr>dvalid := False\<rparr>) c"

section \<open>Names on the wire\<close>

text \<open>The bytes before the first dot; the length of a label is kept in one byte.\<close>

definition label_size :: "bytes \<Rightarrow> u8" where
  "label_size p = of_nat (length (takeWhile (\<lambda>c. c \<noteq> 46) p))"

lemma unat_label_size: "unat (label_size p) \<le> length p"
proof -
  have "unat (label_size p) \<le> length (takeWhile (\<lambda>c. c \<noteq> 46) p)"
    by (simp add: label_size_def unat_of_nat take_bit_nat_eq_self take_bit_nat_less_eq_self)
  then show ?thesis using length_takeWhile_le [of _ p] by (rule order_trans)
qed

function encode_name :: "bytes \<Rightarrow> bytes" where
  "encode_name p =
     (if p = [] then [0]
      else
        let n = label_size p; r = drop (unat n) p in
        if n = 0 \<or> 63 < n then [0]
        else n # take (unat n) p @ encode_name (if r \<noteq> [] \<and> hd r = 46 then tl r else r))"
  by pat_completeness auto

termination
proof (relation "measure length", simp_all add: Let_def, goal_cases)
  case (1 p)
  then have "0 < unat (label_size p)" by (simp add: word_neq_0_conv unat_gt_0)
  then have "length (drop (unat (label_size p)) p) < length p" using 1(1) by simp
  then show ?case by (auto intro: le_less_trans)
qed

declare encode_name.simps [simp del]

text \<open>
  Decoding follows compression pointers, at most ten of them. \<open>endp\<close> is where the name ended
  in the packet, once a pointer was followed; \<open>acc\<close> is the output so far.
\<close>

function decode_from ::
  "bytes \<Rightarrow> nat \<Rightarrow> nat \<Rightarrow> nat \<Rightarrow> nat \<Rightarrow> nat option \<Rightarrow> bytes \<Rightarrow> (nat \<times> bytes) option" where
  "decode_from pkt lim omax pos jumps endp acc =
     (if lim \<le> pos then None
      else
        let len = pkt ! pos in
        if len = 0 then
          Some (case endp of Some e \<Rightarrow> e | None \<Rightarrow> pos + 1,
                if acc \<noteq> [] \<and> last acc = 46 then butlast acc else acc)
        else if len AND 0xC0 = 0xC0 then
          (if lim \<le> pos + 1 then None
           else
             let ptr = unat (push_bit 8 (ucast (len AND 0x3F)) OR ucast (pkt ! (pos + 1)) :: u16);
                 endp' = (case endp of None \<Rightarrow> Some (pos + 2) | Some e \<Rightarrow> Some e) in
             if 10 < jumps + 1 then None
             else decode_from pkt lim omax ptr (jumps + 1) endp' acc)
        else if lim < pos + 1 + unat len then None
        else if omax \<le> length acc + unat len + 1 then None
        else decode_from pkt lim omax (pos + 1 + unat len) jumps endp
               (acc @ take (unat len) (drop (pos + 1) pkt) @ [46]))"
  by pat_completeness auto

termination
  by (relation "measures [\<lambda>(pkt, lim, omax, pos, jumps, endp, acc). 11 - jumps,
                          \<lambda>(pkt, lim, omax, pos, jumps, endp, acc). lim - pos]") auto

declare decode_from.simps [simp del]

definition decode_name :: "bytes \<Rightarrow> nat \<Rightarrow> nat \<Rightarrow> nat \<Rightarrow> (nat \<times> bytes) option" where
  "decode_name pkt lim off omax = decode_from pkt lim omax off 0 None []"

section \<open>Responses\<close>

definition be16 :: "bytes \<Rightarrow> nat \<Rightarrow> u16" where
  "be16 b i = push_bit 8 (ucast (b ! i)) OR ucast (b ! (i + 1))"

definition be32 :: "bytes \<Rightarrow> nat \<Rightarrow> u32" where
  "be32 b i = push_bit 24 (ucast (b ! i)) OR push_bit 16 (ucast (b ! (i + 1)))
     OR push_bit 8 (ucast (b ! (i + 2))) OR ucast (b ! (i + 3))"

fun skip_questions :: "nat \<Rightarrow> bytes \<Rightarrow> nat \<Rightarrow> nat \<Rightarrow> nat option" where
  "skip_questions 0 pkt lim pos = Some pos"
| "skip_questions (Suc n) pkt lim pos =
     (case decode_name pkt lim pos (DNS_MAX_NAME + 1) of
        None \<Rightarrow> None
      | Some (nx, _) \<Rightarrow> if lim < nx + 4 then None else skip_questions n pkt lim (nx + 4))"

fun scan_answers :: "nat \<Rightarrow> bytes \<Rightarrow> nat \<Rightarrow> nat \<Rightarrow> u32" where
  "scan_answers 0 pkt lim pos = 0"
| "scan_answers (Suc n) pkt lim pos =
     (if lim \<le> pos then 0
      else case decode_name pkt lim pos (DNS_MAX_NAME + 1) of
        None \<Rightarrow> 0
      | Some (p, _) \<Rightarrow>
          if lim < p + 10 then 0
          else
            let rtype = be16 pkt p; rdlen = be16 pkt (p + 8); q = p + 10 in
            if lim < q + unat rdlen then 0
            else if rtype = DNS_TYPE_A \<and> rdlen = 4 then htonl (be32 pkt q)
            else scan_answers n pkt lim (q + unat rdlen))"

definition parse_response :: "bytes \<Rightarrow> nat \<Rightarrow> u32" where
  "parse_response pkt lim =
     (if lim < 12 then 0
      else
        let flags = htons (get16 pkt 2); ancount = htons (get16 pkt 6); qdcount = htons (get16 pkt 4) in
        if flags AND DNS_RCODE_MASK \<noteq> 0 then 0
        else if ancount = 0 then 0
        else case skip_questions (unat qdcount) pkt lim 12 of
          None \<Rightarrow> 0
        | Some pos \<Rightarrow> scan_answers (unat ancount) pkt lim pos)"

text \<open>
  The receive callback. \<open>data\<close> is the receive buffer from the payload on; a length field that
  exceeds it makes the code read outside the buffer.
\<close>

definition dns_udp_callback :: "u32 \<Rightarrow> bytes \<Rightarrow> u16 \<Rightarrow> dns \<Rightarrow> dns option" where
  "dns_udp_callback src data len d =
     (if src \<noteq> dns_server d then Some d
      else if \<not> waiting d then Some d
      else if len < 12 \<or> 512 < len then Some d
      else if length data < unat len then None
      else if htons (get16 data 0) \<noteq> wait_id d then Some d
      else if htons (get16 data 2) AND DNS_FLAG_QR = 0 then Some d
      else Some (d\<lparr>resp_buf := copy_into (resp_buf d) (take (unat len) data), resp_len := len,
                   waiting := False\<rparr>))"

section \<open>Queries\<close>

text \<open>
  The query packet is built in a buffer of 512 bytes; a name that does not fit writes past it,
  which is \<open>None\<close> here.
\<close>

definition dns_query :: "u16 \<Rightarrow> bytes \<Rightarrow> bytes option" where
  "dns_query qid name =
     (let q = bytes16 (htons qid) @ bytes16 (htons DNS_FLAG_RD) @ bytes16 (htons 1) @ replicate 6 0
                @ encode_name name @ [0, 1, 0, 1] in
      if length q \<le> 512 then Some q else None)"

fun dots_and_digits :: "bytes \<Rightarrow> nat \<Rightarrow> nat option" where
  "dots_and_digits [] n = Some n"
| "dots_and_digits (c # s) n =
     (if c = 46 then dots_and_digits s (Suc n)
      else if c < 48 \<or> 57 < c then None
      else dots_and_digits s n)"

definition looks_like_ip :: "bytes \<Rightarrow> bool" where
  "looks_like_ip s = (dots_and_digits s 0 = Some 3)"

section \<open>Names survive the wire\<close>

fun dotted :: "bytes list \<Rightarrow> bytes" where
  "dotted [] = []"
| "dotted [l] = l"
| "dotted (l # ls) = l @ 46 # dotted ls"

definition label_ok :: "bytes \<Rightarrow> bool" where
  "label_ok l \<longleftrightarrow> l \<noteq> [] \<and> length l \<le> 63 \<and> 46 \<notin> set l"

definition wire_name :: "bytes list \<Rightarrow> bytes" where
  "wire_name ls = concat (map (\<lambda>l. of_nat (length l) # l) ls) @ [0]"

definition undotted :: "bytes list \<Rightarrow> bytes" where
  "undotted ls = concat (map (\<lambda>l. l @ [46]) ls)"

lemma wire_name_simps [simp]:
  "wire_name [] = [0]"
  "wire_name (l # ls) = of_nat (length l) # l @ wire_name ls"
  by (simp_all add: wire_name_def)

lemma undotted_simps [simp]: "undotted [] = []" "undotted (l # ls) = l @ 46 # undotted ls"
  by (simp_all add: undotted_def)

lemma undotted_dotted: "ls \<noteq> [] \<Longrightarrow> undotted ls = dotted ls @ [46]"
  by (induction ls rule: dotted.induct) simp_all

lemma unat_label_length: "label_ok l \<Longrightarrow> unat (of_nat (length l) :: u8) = length l"
  by (rule unat_of_nat_lt) (simp add: label_ok_def)

lemma takeWhile_label: "46 \<notin> set l \<Longrightarrow> takeWhile (\<lambda>c. c \<noteq> 46) (l @ 46 # s) = l"
  "46 \<notin> set l \<Longrightarrow> takeWhile (\<lambda>c. c \<noteq> 46) l = l"
  by (auto simp: takeWhile_tail takeWhile_eq_all_conv)

lemma encode_label:
  assumes "label_ok l" "s = l \<and> rest = [] \<or> s = l @ 46 # rest"
  shows "encode_name s = of_nat (length l) # l @ encode_name rest"
proof -
  have "takeWhile (\<lambda>c. c \<noteq> 46) s = l" using assms by (metis takeWhile_label label_ok_def)
  then have n: "label_size s = of_nat (length l)" by (simp add: label_size_def)
  have u: "unat (label_size s) = length l" using unat_label_length [OF assms(1)] n by simp
  have ne: "s \<noteq> []" "label_size s \<noteq> 0" "\<not> 63 < label_size s"
    using assms u by (auto simp: label_ok_def word_less_nat_alt)
  have "encode_name s = label_size s # take (length l) s @
      encode_name (if drop (length l) s \<noteq> [] \<and> hd (drop (length l) s) = 46
                   then tl (drop (length l) s) else drop (length l) s)"
    using ne u by (subst encode_name.simps) (simp add: Let_def)
  with assms(2) n show ?thesis by auto
qed

lemma encode_dotted: "\<forall>l \<in> set ls. label_ok l \<Longrightarrow> encode_name (dotted ls) = wire_name ls"
proof (induction ls rule: dotted.induct)
  case 1
  then show ?case by (simp add: encode_name.simps)
next
  case (2 l)
  then show ?case using encode_label [of l l "[]"] by (simp add: encode_name.simps [of "[]"])
next
  case (3 l m ls)
  then show ?case using encode_label [of l "dotted (l # m # ls)" "dotted (m # ls)"] by simp
qed

lemma short_label_no_pointer:
  assumes "unat (n :: u8) \<le> 63"
  shows "n AND 0xC0 \<noteq> 0xC0"
proof -
  have "(0xC0 :: u8) = NOT (mask 6)" by (simp add: mask_eq_exp_minus_1)
  moreover have "drop_bit 6 n = 0"
  proof -
    have "unat (drop_bit 6 n) = unat n div 64" by (simp add: drop_bit_eq_div unat_div)
    then have "unat (drop_bit 6 n) = 0" using assms by simp
    then show ?thesis by (simp only: unat_eq_zero)
  qed
  ultimately have "n AND 0xC0 = 0" by (simp only: and_not_mask) simp
  then show ?thesis by simp
qed

text \<open>Decoding one label, and the zero byte that ends a name.\<close>

lemma decode_end:
  assumes "pos < lim" "pkt ! pos = 0"
  shows "decode_from pkt lim omax pos jumps endp acc =
    Some (case endp of Some e \<Rightarrow> e | None \<Rightarrow> pos + 1, if acc \<noteq> [] \<and> last acc = 46 then butlast acc else acc)"
  using assms by (subst decode_from.simps) (simp add: Let_def)

lemma decode_label:
  assumes "label_ok l" "pkt ! pos = of_nat (length l)" "take (length l) (drop (pos + 1) pkt) = l"
    and "pos + 1 + length l \<le> lim" "length acc + length l + 1 < omax"
  shows "decode_from pkt lim omax pos jumps endp acc =
    decode_from pkt lim omax (pos + 1 + length l) jumps endp (acc @ l @ [46])"
proof -
  note u = unat_label_length [OF assms(1)]
  have "pkt ! pos \<noteq> 0" "pkt ! pos AND 0xC0 \<noteq> 0xC0"
    using assms(1,2) u short_label_no_pointer [of "pkt ! pos"] by (auto simp: label_ok_def)
  with assms u show ?thesis by (subst decode_from.simps) (simp add: Let_def)
qed

lemma decode_wire:
  assumes "\<forall>l \<in> set ls. label_ok l" "pkt = pre @ wire_name ls @ post"
    and "length pre + length (wire_name ls) \<le> lim" "length acc + length (undotted ls) < omax"
  shows "decode_from pkt lim omax (length pre) jumps endp acc =
    Some (case endp of Some e \<Rightarrow> e | None \<Rightarrow> length pre + length (wire_name ls),
          if acc @ undotted ls \<noteq> [] \<and> last (acc @ undotted ls) = 46 then butlast (acc @ undotted ls)
          else acc @ undotted ls)"
  using assms
proof (induction ls arbitrary: pre acc)
  case Nil
  then show ?case using decode_end [of "length pre" lim pkt] by (simp add: nth_append cong: option.case_cong)
next
  case (Cons l ls)
  have l: "label_ok l" using Cons.prems(1) by simp
  have p: "pkt = (pre @ of_nat (length l) # l) @ wire_name ls @ post" using Cons.prems(2) by simp
  have n: "length (pre @ of_nat (length l) # l) = length pre + 1 + length l" by simp
  have "decode_from pkt lim omax (length pre) jumps endp acc =
      decode_from pkt lim omax (length pre + 1 + length l) jumps endp (acc @ l @ [46])"
    using Cons.prems by (intro decode_label [OF l]) (auto simp: nth_append)
  also have "\<dots> = Some (case endp of Some e \<Rightarrow> e | None \<Rightarrow> length pre + length (wire_name (l # ls)),
      if acc @ undotted (l # ls) \<noteq> [] \<and> last (acc @ undotted (l # ls)) = 46
      then butlast (acc @ undotted (l # ls)) else acc @ undotted (l # ls))"
    using Cons.IH [OF _ p, of "acc @ l @ [46]"] Cons.prems(1,3,4) unfolding n
    by (simp split: option.split cong: option.case_cong)
  finally show ?case .
qed

definition host_ok :: "bytes list \<Rightarrow> bool" where
  "host_ok ls \<longleftrightarrow> ls \<noteq> [] \<and> (\<forall>l \<in> set ls. label_ok l) \<and> length (dotted ls) \<le> 252"

lemma decode_host:
  assumes "host_ok ls" "pkt = pre @ wire_name ls @ post" "length pre + length (wire_name ls) \<le> lim"
  shows "decode_from pkt lim 254 (length pre) jumps endp [] =
    Some (case endp of Some e \<Rightarrow> e | None \<Rightarrow> length pre + length (wire_name ls), dotted ls)"
proof -
  have "undotted ls = dotted ls @ [46]" using assms(1) by (simp add: host_ok_def undotted_dotted)
  with decode_wire [OF _ assms(2,3), of "[]" 254 jumps endp] assms(1) show ?thesis
    by (simp add: host_ok_def)
qed

text \<open>A pointer to an earlier name.\<close>

lemma decode_pointer:
  assumes "pkt ! pos = 0xC0" "pos + 1 < lim" "jumps < 10"
  shows "decode_from pkt lim omax pos jumps endp acc =
    decode_from pkt lim omax (unat (pkt ! (pos + 1))) (jumps + 1)
      (case endp of None \<Rightarrow> Some (pos + 2) | Some e \<Rightarrow> Some e) acc"
  using assms by (subst decode_from.simps) (simp add: Let_def)

section \<open>Responses are understood\<close>

text \<open>
  A resource record: its name, written out or as the usual pointer to the question, its type,
  class, time to live and data.
\<close>

record rr =
  rr_name :: "bytes list option"
  rr_type :: u16
  rr_class :: u16
  rr_ttl :: u32
  rr_data :: bytes

definition name_field :: "bytes list option \<Rightarrow> bytes" where
  "name_field nm = (case nm of None \<Rightarrow> [0xC0, 12] | Some ls \<Rightarrow> wire_name ls)"

definition rr_bytes :: "rr \<Rightarrow> bytes" where
  "rr_bytes r = name_field (rr_name r) @ bytes16 (htons (rr_type r)) @ bytes16 (htons (rr_class r))
     @ bytes32 (htonl (rr_ttl r)) @ bytes16 (htons (of_nat (length (rr_data r)))) @ rr_data r"

definition rr_ok :: "rr \<Rightarrow> bool" where
  "rr_ok r \<longleftrightarrow> (case rr_name r of None \<Rightarrow> True | Some ls \<Rightarrow> host_ok ls) \<and> length (rr_data r) < 65536"

definition is_address :: "rr \<Rightarrow> bool" where
  "is_address r \<longleftrightarrow> rr_type r = DNS_TYPE_A \<and> length (rr_data r) = 4"

lemma be16_at: "be16 (pre @ bytes16 (htons w) @ post) (length pre) = w"
proof (rule bit_word_eqI)
  fix n assume "n < LENGTH(16)"
  then show "bit (be16 (pre @ bytes16 (htons w) @ post) (length pre)) n = bit w n"
    by (cases "n < 8")
       (auto simp: be16_def bytes16_def htons_def nth_append bit_simps dest: bit_imp_le_length)
qed

lemma htonl_be32: "htonl (be32 b i) = get32 b i"
proof (rule bit_word_eqI)
  fix n assume "n < LENGTH(32)"
  then consider "n < 8" | "8 \<le> n" "n < 16" | "16 \<le> n" "n < 24" | "24 \<le> n" "n < 32" by fastforce
  then show "bit (htonl (be32 b i)) n = bit (get32 b i) n"
  proof cases
    case 1
    then show ?thesis by (auto simp: htonl_bit be32_def get32_def bit_simps dest: bit_imp_le_length)
  next
    case 2
    then show ?thesis by (auto simp: htonl_bit be32_def get32_def bit_simps dest: bit_imp_le_length)
  next
    case 3
    then show ?thesis by (auto simp: htonl_bit be32_def get32_def bit_simps dest: bit_imp_le_length)
  next
    case 4
    then show ?thesis by (auto simp: htonl_bit be32_def get32_def bit_simps dest: bit_imp_le_length)
  qed
qed

lemma get32_at: "4 \<le> length d \<Longrightarrow> get32 (pre @ d @ post) (length pre) = get32 d 0"
proof -
  assume l: "4 \<le> length d"
  have n: "(pre @ d @ post) ! (length pre + i) = d ! i" if "i < 4" for i
    using that l by (simp add: nth_append)
  show ?thesis using n [of 0] n [of 1] n [of 2] n [of 3] by (simp add: get32_def numeral_2_eq_2)
qed

lemma get16_at: "get16 (pre @ bytes16 w @ post) (length pre) = w"
  using get16_bytes16 [of w] by (simp add: get16_def bytes16_def nth_append)

text \<open>The question the pointers refer to: the name at offset 12.\<close>

definition question_at :: "bytes list \<Rightarrow> bytes \<Rightarrow> nat \<Rightarrow> bool" where
  "question_at hs pkt lim \<longleftrightarrow> host_ok hs \<and> (\<exists>pre post. length pre = 12 \<and> pkt = pre @ wire_name hs @ post)
     \<and> 12 + length (wire_name hs) \<le> lim"

lemma decode_field:
  assumes q: "question_at hs pkt lim" and nm: "case nm of None \<Rightarrow> True | Some ls \<Rightarrow> host_ok ls"
    and pkt: "pkt = pre @ name_field nm @ post" "length pre + length (name_field nm) \<le> lim"
  shows "\<exists>nm'. decode_name pkt lim (length pre) 254 = Some (length pre + length (name_field nm), nm')"
proof (cases nm)
  case (Some ls)
  then show ?thesis
    using decode_host [OF _ _ _, of ls pkt pre post lim] nm pkt by (simp add: decode_name_def name_field_def)
next
  case None
  then have p: "pkt ! length pre = 0xC0" "pkt ! (length pre + 1) = 12" "length pre + 1 < lim"
    "length (name_field nm) = 2"
    using pkt by (simp_all add: name_field_def nth_append)
  obtain pre0 post0 where h: "host_ok hs" "length pre0 = 12" "pkt = pre0 @ wire_name hs @ post0"
    "12 + length (wire_name hs) \<le> lim" using q by (auto simp: question_at_def)
  have "decode_name pkt lim (length pre) 254 = decode_from pkt lim 254 12 1 (Some (length pre + 2)) []"
    using decode_pointer [OF p(1,3), of 0] p(2) by (simp add: decode_name_def)
  also have "\<dots> = Some (length pre + 2, dotted hs)"
    using decode_host [OF h(1,3), of lim 1 "Some (length pre + 2)"] h(2,4) by simp
  finally show ?thesis using p(4) by simp
qed

lemma length_rr_bytes: "length (rr_bytes r) = length (name_field (rr_name r)) + 10 + length (rr_data r)"
  by (simp add: rr_bytes_def)

lemma scan_rr:
  assumes q: "question_at hs pkt lim" and r: "rr_ok r"
    and pkt: "pkt = pre @ rr_bytes r @ post" "length pre + length (rr_bytes r) \<le> lim"
  shows "scan_answers (Suc n) pkt lim (length pre) =
    (if is_address r then get32 (rr_data r) 0 else scan_answers n pkt lim (length pre + length (rr_bytes r)))"
proof -
  let ?nf = "name_field (rr_name r)" and ?rd = "of_nat (length (rr_data r)) :: u16"
  let ?h = "bytes16 (htons (rr_type r)) @ bytes16 (htons (rr_class r)) @ bytes32 (htonl (rr_ttl r))"
  let ?p = "length pre + length ?nf"
  have nm: "case rr_name r of None \<Rightarrow> True | Some ls \<Rightarrow> host_ok ls" using r by (simp add: rr_ok_def)
  have "length pre + length ?nf \<le> lim" using pkt(2) by (simp add: length_rr_bytes)
  with decode_field [OF q nm, of pre] pkt obtain nm' where
    d: "decode_name pkt lim (length pre) 254 = Some (?p, nm')"
    by (auto simp: rr_bytes_def)
  have e1: "pkt = (pre @ ?nf) @ bytes16 (htons (rr_type r))
      @ (bytes16 (htons (rr_class r)) @ bytes32 (htonl (rr_ttl r)) @ bytes16 (htons ?rd) @ rr_data r @ post)"
    and e2: "pkt = (pre @ ?nf @ ?h) @ bytes16 (htons ?rd) @ (rr_data r @ post)"
    and e3: "pkt = (pre @ ?nf @ ?h @ bytes16 (htons ?rd)) @ rr_data r @ post"
    using pkt(1) by (simp_all add: rr_bytes_def)
  have t: "be16 pkt ?p = rr_type r"
    using be16_at [of "pre @ ?nf" "rr_type r"] by (subst e1) simp
  have l: "be16 pkt (?p + 8) = ?rd"
    using be16_at [of "pre @ ?nf @ ?h" ?rd] by (subst e2) (simp add: add.assoc)
  have u: "unat ?rd = length (rr_data r)" using r by (intro unat_of_nat_lt) (simp add: rr_ok_def)
  have g: "get32 pkt (?p + 10) = get32 (rr_data r) 0" if "length (rr_data r) = 4"
    using get32_at [of "rr_data r" "pre @ ?nf @ ?h @ bytes16 (htons ?rd)" post] that
    by (subst e3) (simp add: add.assoc)
  have b: "length pre < lim" "\<not> lim < ?p + 10" "\<not> lim < ?p + 10 + unat ?rd"
    using pkt(2) u by (simp_all add: length_rr_bytes)
  have a: "is_address r \<longleftrightarrow> rr_type r = DNS_TYPE_A \<and> ?rd = 4"
    using u by (auto simp: is_address_def word_eq_unat)
  have "scan_answers (Suc n) pkt lim (length pre) =
      (if is_address r then htonl (be32 pkt (?p + 10)) else scan_answers n pkt lim (?p + 10 + unat ?rd))"
    using d b t l a by (simp add: DNS_MAX_NAME_def Let_def)
  then show ?thesis
    using g u by (simp add: htonl_be32 is_address_def length_rr_bytes add.assoc)
qed

declare scan_answers.simps(2) [simp del]

lemma scan_rrs:
  assumes "question_at hs pkt lim" "\<forall>r \<in> set rs. rr_ok r"
    and "pkt = pre @ concat (map rr_bytes rs) @ post" "length pre + length (concat (map rr_bytes rs)) \<le> lim"
  shows "scan_answers (length rs) pkt lim (length pre) =
    (case find is_address rs of None \<Rightarrow> 0 | Some r \<Rightarrow> get32 (rr_data r) 0)"
  using assms(2-4)
proof (induction rs arbitrary: pre)
  case Nil
  then show ?case by simp
next
  case (Cons r rs)
  have e: "pkt = pre @ rr_bytes r @ (concat (map rr_bytes rs) @ post)"
    "pkt = (pre @ rr_bytes r) @ concat (map rr_bytes rs) @ post" using Cons.prems(2) by simp_all
  have "length pre + length (rr_bytes r) \<le> lim" using Cons.prems(3) by simp
  from scan_rr [OF assms(1) _ e(1) this, of "length rs"] Cons.IH [OF _ e(2)] Cons.prems(1,3)
  show ?case by simp
qed

text \<open>A response to a query for the host \<open>hs\<close>, with the answers \<open>rs\<close>.\<close>

definition response :: "u16 \<Rightarrow> u16 \<Rightarrow> bytes list \<Rightarrow> rr list \<Rightarrow> bytes \<Rightarrow> bytes" where
  "response ident flags hs rs extra =
     bytes16 (htons ident) @ bytes16 (htons flags) @ bytes16 (htons 1) @ bytes16 (htons (of_nat (length rs)))
       @ replicate 4 0 @ wire_name hs @ [0, 1, 0, 1] @ concat (map rr_bytes rs) @ extra"

lemma length_rrs: "length rs \<le> length (concat (map rr_bytes rs))"
  by (induction rs) (auto simp: length_rr_bytes)

lemma parse_response_answers:
  assumes h: "host_ok hs" and rs: "\<forall>r \<in> set rs. rr_ok r" and f: "flags AND DNS_RCODE_MASK = 0"
    and len: "length (response ident flags hs rs extra) \<le> 512"
  shows "parse_response (response ident flags hs rs extra) (length (response ident flags hs rs extra)) =
    (case find is_address rs of None \<Rightarrow> 0 | Some r \<Rightarrow> get32 (rr_data r) 0)"
proof -
  let ?p = "response ident flags hs rs extra" and ?n = "of_nat (length rs) :: u16"
  let ?l = "length (response ident flags hs rs extra)"
  let ?hd = "bytes16 (htons ident) @ bytes16 (htons flags) @ bytes16 (htons 1) @ bytes16 (htons ?n) @ replicate 4 0"
  have l: "?l = 12 + length (wire_name hs) + 4 + length (concat (map rr_bytes rs)) + length extra"
    by (simp add: response_def)
  have u: "unat ?n = length rs"
    using len length_rrs [of rs] l by (intro unat_of_nat_lt) simp
  have q: "question_at hs ?p ?l"
    unfolding question_at_def
  proof (intro conjI exI)
    show "length ?hd = 12" by simp
    show "?p = ?hd @ wire_name hs @ ([0, 1, 0, 1] @ concat (map rr_bytes rs) @ extra)" by (simp add: response_def)
  qed (use h l in simp_all)
  have dn: "decode_name ?p ?l 12 254 = Some (12 + length (wire_name hs), dotted hs)"
    using decode_host [OF h, of ?p ?hd "[0, 1, 0, 1] @ concat (map rr_bytes rs) @ extra" ?l 0 None] l
    by (simp add: decode_name_def response_def)
  have sq: "skip_questions 1 ?p ?l 12 = Some (16 + length (wire_name hs))"
    using dn l by (simp add: DNS_MAX_NAME_def)
  have "?p = (?hd @ wire_name hs @ [0, 1, 0, 1]) @ concat (map rr_bytes rs) @ extra" by (simp add: response_def)
  from scan_rrs [OF q rs this] l
  have sc: "scan_answers (length rs) ?p ?l (16 + length (wire_name hs)) =
    (case find is_address rs of None \<Rightarrow> 0 | Some r \<Rightarrow> get32 (rr_data r) 0)" by (simp add: add.commute)
  have g: "htons (get16 ?p 2) = flags" "htons (get16 ?p 6) = ?n" "htons (get16 ?p 4) = 1"
    by (simp_all add: response_def get16_def bytes16_def htons_htons [unfolded htons_def]
        get16_bytes16 [unfolded get16_def bytes16_def, simplified])
  show ?thesis
  proof (cases "rs = []")
    case True
    then show ?thesis using g u by (simp add: parse_response_def Let_def)
  next
    case False
    then have "?n \<noteq> 0" using u by auto
    moreover have "\<not> ?l < 12" using l by simp
    ultimately show ?thesis
      using g f sq sc u unfolding parse_response_def Let_def by simp
  qed
qed

section \<open>The cache answers what it was told\<close>

definition live :: "u32 \<Rightarrow> dns_entry \<Rightarrow> bool" where
  "live now e \<longleftrightarrow> dvalid e \<and> now < ddeadline e"

lemma lookup_clean:
  assumes "cache_lookup now name c = (c', None)"
  shows "\<forall>e \<in> set c'. dvalid e \<longrightarrow> dname e \<noteq> name"
  using assms by (induction now name c arbitrary: c' rule: cache_lookup.induct)
    (auto split: if_splits prod.splits)

lemma length_lookup: "length (fst (cache_lookup now name c)) = length c"
  by (induction c) (auto split: prod.splits)

lemma lookup_stored:
  assumes "\<forall>e \<in> set c. dvalid e \<longrightarrow> dname e \<noteq> name" "i < length c" "live now x" "dname x = name"
  shows "snd (cache_lookup now name (c[i := x])) = Some (dip x)"
  using assms(1,2)
proof (induction c arbitrary: i)
  case Nil
  then show ?case by simp
next
  case (Cons e c)
  then show ?case using assms(3,4) by (cases i) (auto simp: live_def case_prod_beta)
qed

lemma lookup_from:
  "snd (cache_lookup now name c) = Some v \<Longrightarrow> \<exists>e \<in> set c. live now e \<and> dname e = name \<and> dip e = v"
  by (induction now name c rule: cache_lookup.induct)
     (auto simp: live_def split: if_splits prod.splits)

lemma pick_slot_bound: "pick_slot i slot old es = slot \<or> pick_slot i slot old es < i + length es"
proof (induction i slot old es rule: pick_slot.induct)
  case (1 i slot old)
  then show ?case by simp
next
  case (2 i slot old e es)
  then show ?case by (cases "dvalid e"; cases "ddeadline e < old") auto
qed

lemma pick_slot_lt: "c \<noteq> [] \<Longrightarrow> pick_slot 0 0 old c < length c"
  using pick_slot_bound [of 0 0 old c] by auto

lemma clamp_ttl_bound: "unat (clamp_ttl t * 1000) \<le> 300000" "30000 \<le> unat (clamp_ttl t * 1000)"
proof -
  have "30 \<le> unat (clamp_ttl t)" "unat (clamp_ttl t) \<le> 300"
    by (auto simp: clamp_ttl_def Let_def word_less_nat_alt)
  moreover have "unat (clamp_ttl t * 1000) = unat (clamp_ttl t) * 1000"
    using calculation(2) by (subst unat_mult_lt) simp_all
  ultimately show "unat (clamp_ttl t * 1000) \<le> 300000" "30000 \<le> unat (clamp_ttl t * 1000)" by simp_all
qed

section \<open>Properties\<close>

text \<open>
  Host names on the wire. For every host name of nonempty labels of at most 63 characters,
  252 characters in all, decoding the encoded name, wherever it stands in a packet, gives the
  name back and the position behind it.
\<close>

theorem dns_name_round_trip:
  assumes "host_ok ls"
    and "pkt = pre @ encode_name (dotted ls) @ post"
  shows "decode_name pkt (length pkt) (length pre) (DNS_MAX_NAME + 1) =
    Some (length pre + length (encode_name (dotted ls)), dotted ls)"
  using decode_host [OF assms(1), of pkt pre post "length pkt" 0 None] assms
  by (simp add: host_ok_def encode_dotted decode_name_def DNS_MAX_NAME_def)

theorem dns_name_round_trip_witness:
  "decode_name [9, 9, 2, 97, 98, 1, 99, 0, 7] 9 2 (DNS_MAX_NAME + 1) = Some (8, [97, 98, 46, 99])"
proof -
  have h: "host_ok [[97, 98], [99]]" by (simp add: host_ok_def label_ok_def)
  then have "encode_name (dotted [[97, 98], [99]]) = [2, 97, 98, 1, 99, 0]"
    by (subst encode_dotted) (simp_all add: host_ok_def)
  with dns_name_round_trip [OF h refl, of "[9, 9]" "[7]"] show ?thesis by (simp add: eval_nat_numeral)
qed

text \<open>
  C22: answers are understood. From a successful response that fits the 512-byte buffer, repeats
  the question and carries any list of resource records, aliases and records of other types
  before the address included, the resolver takes the address of the first address record, and
  reports failure when there is none.
\<close>

theorem dns_parse_response:
  assumes "host_ok hs" "\<forall>r \<in> set rs. rr_ok r" "flags AND DNS_RCODE_MASK = 0"
    and "pkt = response ident flags hs rs extra" "length pkt \<le> 512"
  shows "parse_response pkt (length pkt) =
    (case find is_address rs of None \<Rightarrow> 0 | Some r \<Rightarrow> get32 (rr_data r) 0)"
  using parse_response_answers [OF assms(1-3)] assms(4,5) by simp

definition demo_alias :: rr where
  "demo_alias = \<lparr>rr_name = None, rr_type = 5, rr_class = 1, rr_ttl = 60, rr_data = wire_name [[99]]\<rparr>"

definition demo_address :: rr where
  "demo_address = \<lparr>rr_name = Some [[99]], rr_type = 1, rr_class = 1, rr_ttl = 60, rr_data = [10, 0, 2, 2]\<rparr>"

theorem dns_parse_response_witness:
  "\<exists>pkt. parse_response pkt (length pkt) = 0x0202000A"
proof -
  let ?pkt = "response 1 0x8180 [[97]] [demo_alias, demo_address] []"
  have "parse_response ?pkt (length ?pkt) =
    (case find is_address [demo_alias, demo_address] of None \<Rightarrow> 0 | Some r \<Rightarrow> get32 (rr_data r) 0)"
    by (rule dns_parse_response [of "[[97]]" _ "0x8180" _ 1 "[]"])
       (simp_all add: host_ok_def label_ok_def rr_ok_def demo_alias_def demo_address_def DNS_RCODE_MASK_def
         response_def rr_bytes_def name_field_def)
  also have "\<dots> = 0x0202000A"
    by code_simp
  finally show ?thesis by blast
qed

text \<open>
  The name cache. After a lookup that missed and a store, the stored address is found until
  its deadline, which is between 30 and 300 seconds away, and an answer for any other name comes
  from an unexpired entry the cache already had.
\<close>

theorem dns_cache_hit:
  assumes "cache_lookup now1 name c = (c1, None)" "c \<noteq> []" "length name \<le> DNS_MAX_NAME"
    and "unat now2 < 2 ^ 32 - 300000" "now3 < now2 + clamp_ttl ttl * 1000"
  shows "snd (cache_lookup now3 name (cache_store now2 name ip ttl c1)) = Some ip
    \<and> 30000 \<le> unat ((now2 + clamp_ttl ttl * 1000) - now2)
    \<and> (\<forall>other v. other \<noteq> name \<longrightarrow> snd (cache_lookup now3 other (cache_store now2 name ip ttl c1)) = Some v
         \<longrightarrow> (\<exists>e \<in> set c1. live now3 e \<and> dname e = other \<and> dip e = v))"
proof -
  have "c1 \<noteq> []" using assms(1,2) length_lookup [of now1 name c] by auto
  then have s: "pick_slot 0 0 0xFFFFFFFF c1 < length c1" by (rule pick_slot_lt)
  let ?x = "\<lparr>dname = name, dip = ip, ddeadline = now2 + clamp_ttl ttl * 1000, dvalid = True\<rparr>"
  have st: "cache_store now2 name ip ttl c1 = c1[pick_slot 0 0 0xFFFFFFFF c1 := ?x]"
    using assms(3) by (simp add: cache_store_def)
  have "snd (cache_lookup now3 name (cache_store now2 name ip ttl c1)) = Some ip"
    unfolding st using lookup_stored [OF lookup_clean [OF assms(1)] s, of now3 ?x] assms(5)
    by (simp add: live_def)
  moreover have "\<exists>e \<in> set c1. live now3 e \<and> dname e = other \<and> dip e = v"
    if "other \<noteq> name" "snd (cache_lookup now3 other (cache_store now2 name ip ttl c1)) = Some v" for other v
  proof -
    from lookup_from [OF that(2)] obtain e where
      "e \<in> set (c1[pick_slot 0 0 0xFFFFFFFF c1 := ?x])" "live now3 e" "dname e = other" "dip e = v"
      unfolding st by blast
    with that(1) set_update_subset_insert [of c1 _ ?x] show ?thesis by fastforce
  qed
  ultimately show ?thesis using clamp_ttl_bound(2) [of ttl] by simp
qed

theorem dns_cache_hit_witness:
  "snd (cache_lookup 5000 [97] (cache_store 10 [97] 42 60
     [\<lparr>dname = [], dip = 0, ddeadline = 0, dvalid = False\<rparr>])) = Some 42"
proof -
  let ?c = "[\<lparr>dname = [], dip = 0, ddeadline = 0, dvalid = False\<rparr>]"
  have "(5000 :: u32) < 10 + clamp_ttl 60 * 1000" by (simp add: clamp_ttl_def)
  from dns_cache_hit [OF _ _ _ _ this, of 0 "[97]" ?c ?c 42] show ?thesis by (simp add: DNS_MAX_NAME_def)
qed

end
