(* ===== verification/Net.thy ===== *)
theory Net
  imports TcpProps UdpListen Dns
begin

unbundle bit_operations_syntax

text \<open>
  The network stack as a whole (\<^verbatim>\<open>kernel/net.cpp\<close>, and the parts of \<^verbatim>\<open>udp_listen.cpp\<close> and
  \<^verbatim>\<open>dns.cpp\<close> that use it): the packet queue between the card's interrupt and \<^verbatim>\<open>net_poll\<close>, the
  dispatch of a frame to ARP, ICMP, TCP and the UDP handlers, listeners, and name resolution.
  A UDP handler is a function pointer in the code; the kernel passes the resolver's callback
  and the four listeners' callbacks, so it is a value of a datatype here. Packets are handled
  in the caller's \<^verbatim>\<open>NetPacket\<close>, whose initial contents are a parameter; what arrives while a
  packet is handled, or during each halt of a waiting loop, is the parameter \<open>env\<close>.
\<close>

section \<open>State\<close>

definition UDP_HANDLERS :: nat where "UDP_HANDLERS = 8"

datatype udp_callback = DnsCallback | ListenCallback nat

record handler =
  hport :: u16
  hcb :: udp_callback
  hused :: bool

record stack =
  stcp :: tcp
  sdns :: dns
  slst :: "listener list"
  sudp :: "handler list"
  squeue :: netqueue

definition set_net :: "net \<Rightarrow> stack \<Rightarrow> stack" where
  "set_net n s = s\<lparr>stcp := (stcp s)\<lparr>tnet := n\<rparr>\<rparr>"

abbreviation snet :: "stack \<Rightarrow> net" where
  "snet s \<equiv> tnet (stcp s)"

section \<open>UDP handlers\<close>

definition net_udp_register :: "u16 \<Rightarrow> udp_callback option \<Rightarrow> handler list \<Rightarrow> handler list" where
  "net_udp_register port cb hs =
     (case cb of
        None \<Rightarrow> map (\<lambda>h. if hused h \<and> hport h = port then h\<lparr>hused := False\<rparr> else h) hs
      | Some f \<Rightarrow>
         (case find_idx (\<lambda>h. hused h \<and> hport h = port) hs of
            Some i \<Rightarrow> hs[i := (hs ! i)\<lparr>hcb := f\<rparr>]
          | None \<Rightarrow>
             (case find_idx (\<lambda>h. \<not> hused h) hs of
                Some i \<Rightarrow> hs[i := \<lparr>hport = port, hcb = f, hused = True\<rparr>]
              | None \<Rightarrow> hs)))"

definition run_callback :: "udp_callback \<Rightarrow> u32 \<Rightarrow> u16 \<Rightarrow> bytes \<Rightarrow> u16 \<Rightarrow> stack \<Rightarrow> stack option" where
  "run_callback cb src sport data len s =
     (case cb of
        DnsCallback \<Rightarrow> map_option (\<lambda>d. s\<lparr>sdns := d\<rparr>) (dns_udp_callback src data len (sdns s))
      | ListenCallback i \<Rightarrow>
          Some (s\<lparr>slst := (slst s)[i := make_callback src sport data len (slst s ! i)]\<rparr>))"

definition handle_udp :: "u32 \<Rightarrow> bytes \<Rightarrow> u16 \<Rightarrow> stack \<Rightarrow> stack option" where
  "handle_udp src data len s =
     (if len < 8 then Some s
      else
        let dport = htons (get16 data 2); sport = htons (get16 data 0);
            paylen = htons (get16 data 4) - 8 in
        case find_idx (\<lambda>h. hused h \<and> hport h = dport) (sudp s) of
          None \<Rightarrow> Some s
        | Some i \<Rightarrow> run_callback (hcb (sudp s ! i)) src sport (drop 8 data) paylen s)"

section \<open>Dispatch\<close>

definition handle_ip :: "bytes \<Rightarrow> u16 \<Rightarrow> stack \<Rightarrow> stack option" where
  "handle_ip data len s =
     (let ihl = (data ! 0 AND 0x0F) * 4; dst = get32 data 16; src = get32 data 12;
          bcast = my_ip (snet s) OR NOT (netmask (snet s));
          payload = drop (unat ihl) data; paylen = htons (get16 data 2) - ucast ihl; proto = data ! 9 in
      if len < 20 then Some s
      else if ihl < 20 \<or> len < ucast ihl then Some s
      else if dst \<noteq> my_ip (snet s) \<and> dst \<noteq> bcast \<and> dst \<noteq> 0xFFFFFFFF then Some s
      else if proto = IP_PROTO_ICMP then
        map_option (\<lambda>n. set_net n s) (handle_icmp src payload paylen (snet s))
      else if proto = IP_PROTO_TCP then
        map_option (\<lambda>t. s\<lparr>stcp := t\<rparr>) (tcp_receive src payload paylen (stcp s))
      else if proto = IP_PROTO_UDP then handle_udp src payload paylen s
      else Some s)"

definition net_receive :: "bytes \<Rightarrow> u16 \<Rightarrow> stack \<Rightarrow> stack" where
  "net_receive data len s = s\<lparr>squeue := fst (netq_enqueue (squeue s) data len)\<rparr>"

definition handle_frame :: "netpacket \<Rightarrow> stack \<Rightarrow> stack option" where
  "handle_frame pkt s =
     (if plen pkt < 14 then Some s
      else
        let type = htons (get16 (pdata pkt) 12); payload = drop 14 (pdata pkt); len = plen pkt - 14 in
        if type = ETH_TYPE_ARP then Some (set_net (handle_arp payload len (snet s)) s)
        else if type = ETH_TYPE_IP then handle_ip payload len s
        else Some s)"

partial_function (option) poll_loop ::
  "(nat \<Rightarrow> stack \<Rightarrow> stack) \<Rightarrow> nat \<Rightarrow> netpacket \<Rightarrow> stack \<Rightarrow> stack option" where
  "poll_loop env i out s =
     (case netq_dequeue (squeue s) out of (q, pkt, ok) \<Rightarrow>
        if ok then do {
          s1 \<leftarrow> handle_frame pkt (s\<lparr>squeue := q\<rparr>);
          poll_loop env (Suc i) pkt (env i s1)
        }
        else Some s)"

definition net_poll :: "(nat \<Rightarrow> stack \<Rightarrow> stack) \<Rightarrow> netpacket \<Rightarrow> stack \<Rightarrow> stack option" where
  "net_poll env pkt s = do {
     s1 \<leftarrow> poll_loop env 0 pkt s;
     t \<leftarrow> tcp_tick (stcp s1);
     Some (s1\<lparr>stcp := t\<rparr>)
   }"

text \<open>Setting up the stack; the addresses it prints on the terminal are left out.\<close>

definition slirp_mac :: bytes where "slirp_mac = [0x52, 0x55, 0x0A, 0x00, 0x02, 0x02]"

definition net_init :: "u32 \<Rightarrow> u32 \<Rightarrow> u32 \<Rightarrow> stack \<Rightarrow> stack" where
  "net_init ip gw nmask s =
     (let n = snet s; dns_ip = htonl (htonl gw + 1);
          c0 = map (\<lambda>e. e\<lparr>avalid := False\<rparr>) (arp_cache n);
          n1 = n\<lparr>my_ip := ip, gateway_ip := gw, netmask := nmask, my_mac := rtl_mac (nic n),
                 arp_cache := arp_cache_store dns_ip slirp_mac (arp_cache_store gw slirp_mac c0)\<rparr> in
      s\<lparr>stcp := (tcp_init (stcp s))\<lparr>tnet := n1\<rparr>, sdns := dns_init dns_ip (sdns s),
        sudp := map (\<lambda>h. h\<lparr>hused := False\<rparr>) (sudp s), squeue := netq_init (squeue s)\<rparr>)"

section \<open>Listeners\<close>

definition udpl_open :: "u16 \<Rightarrow> stack \<Rightarrow> stack \<times> int" where
  "udpl_open port s =
     (case find_idx (\<lambda>l. \<not> lused l) (slst s) of
        None \<Rightarrow> (s, -1)
      | Some i \<Rightarrow>
         (s\<lparr>slst := (slst s)[i := open_listener port (slst s ! i)],
            sudp := net_udp_register port (Some (ListenCallback i)) (sudp s)\<rparr>, int i))"

definition udpl_close :: "int \<Rightarrow> stack \<Rightarrow> stack" where
  "udpl_close h s =
     (if h < 0 \<or> int UDPL_MAX \<le> h then s
      else let l = slst s ! nat h in
        s\<lparr>sudp := net_udp_register (lport l) None (sudp s),
          slst := (slst s)[nat h := l\<lparr>lused := False\<rparr>]\<rparr>)"

definition udpl_recv_wait ::
  "(nat \<Rightarrow> stack \<Rightarrow> stack) \<Rightarrow> int \<Rightarrow> u32 \<Rightarrow> stack \<Rightarrow> (stack \<times> udp_packet option) option" where
  "udpl_recv_wait env h timeout s =
     (if h < 0 \<or> int UDPL_MAX \<le> h then Some (s, None)
      else
        let deadline = uptime (stcp s) + timeout in do {
          s1 \<leftarrow> wait_until (\<lambda>s. uptime (stcp s)) (\<lambda>s. snd (udpl_recv h (slst s)) \<noteq> None) env deadline 0 s;
          Some (if uptime (stcp s1) < deadline
                then (case udpl_recv h (slst s1) of (ls, r) \<Rightarrow> (s1\<lparr>slst := ls\<rparr>, r))
                else (s1, None))
        })"

section \<open>Name resolution\<close>

definition await_reply :: "u16 \<Rightarrow> dns \<Rightarrow> dns" where
  "await_reply qid d = d\<lparr>resp_len := 0, wait_id := qid, waiting := True\<rparr>"

text \<open>The source port of the query of attempt \<open>a\<close>.\<close>

definition query_port :: "nat \<Rightarrow> u16" where
  "query_port a = DNS_PORT + 1 + of_nat a"

fun dns_attempts ::
  "(nat \<Rightarrow> nat \<Rightarrow> stack \<Rightarrow> stack) \<Rightarrow> u16 \<Rightarrow> bytes \<Rightarrow> nat list \<Rightarrow> stack \<Rightarrow> (stack \<times> u32) option" where
  "dns_attempts env qid pkt [] s = Some (s, 0)"
| "dns_attempts env qid pkt (a # as) s = do {
     (n, ok) \<leftarrow> net_udp_send (dns_server (sdns s)) (query_port a) DNS_PORT pkt (snet s);
     (let s1 = set_net n (s\<lparr>sdns := await_reply qid (sdns s)\<rparr>) in do {
        s2 \<leftarrow> wait_until (\<lambda>s. uptime (stcp s)) (\<lambda>s. \<not> waiting (sdns s)) (env a)
               (uptime (stcp s1) + DNS_TIMEOUT_MS) 0 s1;
        if \<not> waiting (sdns s2) \<and> 0 < resp_len (sdns s2)
        then Some (s2, parse_response (resp_buf (sdns s2)) (unat (resp_len (sdns s2))))
        else dns_attempts env qid pkt as s2
      })
   }"

definition dns_finish :: "bytes \<Rightarrow> u32 \<Rightarrow> stack \<Rightarrow> stack" where
  "dns_finish name ip s =
     (let d = (sdns s)\<lparr>waiting := False\<rparr> in
      s\<lparr>sdns := (if ip \<noteq> 0 then d\<lparr>dcache := cache_store (uptime (stcp s)) name ip 60 (dcache d)\<rparr> else d)\<rparr>)"

definition dns_resolve ::
  "(nat \<Rightarrow> nat \<Rightarrow> stack \<Rightarrow> stack) \<Rightarrow> bytes \<Rightarrow> stack \<Rightarrow> (stack \<times> u32) option" where
  "dns_resolve env name s =
     (if name = [] then Some (s, 0)
      else if looks_like_ip name then Some (s, ip_from_str name)
      else case cache_lookup (uptime (stcp s)) name (dcache (sdns s)) of (c, found) \<Rightarrow>
        let s1 = s\<lparr>sdns := (sdns s)\<lparr>dcache := c\<rparr>\<rparr> in
        case found of
          Some ip \<Rightarrow> Some (s1, ip)
        | None \<Rightarrow>
            if dns_server (sdns s1) = 0 then Some (s1, 0)
            else
              let qid = dnext_id (sdns s1);
                  s2 = s1\<lparr>sudp := net_udp_register DNS_PORT (Some DnsCallback) (sudp s1),
                          sdns := (sdns s1)\<lparr>dnext_id := qid + 1\<rparr>\<rparr> in do {
                pkt \<leftarrow> dns_query qid name;
                (s3, ip) \<leftarrow> dns_attempts env qid pkt [0..<DNS_MAX_RETRIES] s2;
                Some (dns_finish name ip s3, ip)
              })"

section \<open>Reading back what was written\<close>

lemma get32_bytes32: "get32 (bytes32 w) 0 = w"
proof (rule bit_word_eqI)
  fix n assume "n < LENGTH(32)"
  then consider "n < 8" | "8 \<le> n" "n < 16" | "16 \<le> n" "n < 24" | "24 \<le> n" "n < 32" by fastforce
  then show "bit (get32 (bytes32 w) 0) n = bit w n"
    by cases (auto simp: get32_def bytes32_def bit_simps numeral_2_eq_2 numeral_3_eq_3
        dest: bit_imp_le_length)
qed

lemma get32_word_at: "get32 (pre @ bytes32 w @ post) (length pre) = w"
  using get32_at [of "bytes32 w"] by (simp add: get32_bytes32)

lemma at_offset:
  "length pre = i \<Longrightarrow> get16 (pre @ bytes16 h @ post) i = h"
  "length pre = i \<Longrightarrow> get32 (pre @ bytes32 w @ post) i = w"
  using get16_at [of pre h post] get32_word_at [of pre w post] by simp_all

lemma ip_header_split:
  "\<exists>ck. ip_header tot ident flags proto src dst =
     [0x45, 0] @ bytes16 (htons tot) @ bytes16 (htons ident) @ bytes16 (htons flags) @ [64, proto]
       @ bytes16 ck @ bytes32 src @ bytes32 dst"
  by (auto simp: ip_header_def ip_fields_def)

lemma ip_header_fields:
  fixes tot ident flags :: u16 and proto :: u8 and src dst :: u32 and r :: bytes
  defines "d \<equiv> ip_header tot ident flags proto src dst @ r"
  shows "d ! 0 = 0x45" "get16 d 2 = htons tot" "d ! 9 = proto" "get32 d 12 = src" "get32 d 16 = dst"
    "drop 20 d = r"
proof -
  obtain ck where h: "ip_header tot ident flags proto src dst =
     [0x45, 0] @ bytes16 (htons tot) @ bytes16 (htons ident) @ bytes16 (htons flags) @ [64, proto]
       @ bytes16 ck @ bytes32 src @ bytes32 dst" (is "_ = ?h")
    using ip_header_split by blast
  then have d: "d = ?h @ r" by (simp add: d_def)
  show "d ! 0 = 0x45" "drop 20 d = r" unfolding d by simp_all
  show "d ! 9 = proto" unfolding d by (simp add: bytes16_def)
  show "get16 d 2 = htons tot"
    unfolding d using at_offset(1) [of "[0x45, 0]" 2 "htons tot"] by simp
  show "get32 d 12 = src"
    unfolding d using at_offset(2) [of "[0x45, 0] @ bytes16 (htons tot) @ bytes16 (htons ident)
      @ bytes16 (htons flags) @ [64, proto] @ bytes16 ck" 12 src "bytes32 dst @ r"] by simp
  show "get32 d 16 = dst"
    unfolding d using at_offset(2) [of "[0x45, 0] @ bytes16 (htons tot) @ bytes16 (htons ident)
      @ bytes16 (htons flags) @ [64, proto] @ bytes16 ck @ bytes32 src" 16 dst r] by simp
qed

definition udp_header :: "u16 \<Rightarrow> u16 \<Rightarrow> u16 \<Rightarrow> bytes" where
  "udp_header sport dport udp_len =
     bytes16 (htons sport) @ bytes16 (htons dport) @ bytes16 (htons udp_len) @ bytes16 0"

lemma udp_header_fields:
  fixes sport dport udp_len :: u16 and r :: bytes
  defines "d \<equiv> udp_header sport dport udp_len @ r"
  shows "get16 d 0 = htons sport" "get16 d 2 = htons dport" "get16 d 4 = htons udp_len" "drop 8 d = r"
  unfolding d_def udp_header_def
  using at_offset(1) [of "[]" 0 "htons sport"] at_offset(1) [of "bytes16 (htons sport)" 2 "htons dport"]
    at_offset(1) [of "bytes16 (htons sport) @ bytes16 (htons dport)" 4 "htons udp_len"]
  by simp_all

section \<open>Dispatch of a well-formed datagram\<close>

text \<open>A packet in its buffer: the frame, then whatever was there before.\<close>

lemma packet_prefix: "packet_bytes pkt = f \<Longrightarrow> \<exists>r. pdata pkt = f @ r"
  using append_take_drop_id [of "unat (plen pkt)" "pdata pkt"] by (metis packet_bytes_def)

lemma frame_fields:
  assumes "length dst = 6" "length src = 6"
  shows "get16 (eth_frame dst src type body @ r) 12 = htons type" "drop 14 (eth_frame dst src type body @ r) = body @ r"
  using at_offset(1) [of "dst @ src" 12 "htons type" "body @ r"] assms by (simp_all add: eth_frame_def)

lemma handle_frame_ip:
  assumes f: "packet_bytes pkt = eth_frame dst src ETH_TYPE_IP body @ pad" "length dst = 6" "length src = 6"
    and len: "unat (plen pkt) = 14 + length body + length pad"
  shows "\<exists>r. handle_frame pkt s = handle_ip (body @ pad @ r) (plen pkt - 14) s"
proof -
  obtain r where p: "pdata pkt = eth_frame dst src ETH_TYPE_IP body @ (pad @ r)"
    using packet_prefix [OF f(1)] by auto
  have "\<not> plen pkt < 14" using len by (simp add: word_less_nat_alt)
  moreover have "ETH_TYPE_IP \<noteq> ETH_TYPE_ARP" by (simp add: ETH_TYPE_IP_def ETH_TYPE_ARP_def)
  moreover have "get16 (pdata pkt) 12 = htons ETH_TYPE_IP" "drop 14 (pdata pkt) = body @ pad @ r"
    unfolding p using frame_fields [OF f(2,3), of ETH_TYPE_IP body "pad @ r"] by simp_all
  ultimately have "handle_frame pkt s = handle_ip (body @ pad @ r) (plen pkt - 14) s"
    by (simp add: handle_frame_def Let_def)
  then show ?thesis by blast
qed

lemma ihl20: "((0x45 AND 0x0F) * 4 :: u8) = 20"
  by simp

lemma handle_ip_udp:
  assumes "\<not> len < 20" "dst = my_ip (snet s)"
  shows "handle_ip (ip_header tot ident flags IP_PROTO_UDP src dst @ r) len s = handle_udp src r (tot - 20) s"
proof -
  note f = ip_header_fields [of tot ident flags IP_PROTO_UDP src dst r]
  have "IP_PROTO_UDP \<noteq> IP_PROTO_ICMP" "IP_PROTO_UDP \<noteq> IP_PROTO_TCP"
    by (simp_all add: IP_PROTO_UDP_def IP_PROTO_ICMP_def IP_PROTO_TCP_def)
  moreover have "unat (20 :: u8) = 20" "\<not> (20 :: u8) < 20" "ucast (20 :: u8) = (20 :: u16)" by simp_all
  ultimately show ?thesis
    using assms f unfolding handle_ip_def Let_def f ihl20 by (simp add: ip_header_fields(6) del: drop_append)
qed

lemma handle_udp_to:
  assumes "\<not> len < 8" "find_idx (\<lambda>h. hused h \<and> hport h = dport) (sudp s) = Some i"
  shows "handle_udp src (udp_header sport dport udp_len @ r) len s =
    run_callback (hcb (sudp s ! i)) src sport r (udp_len - 8) s"
  using assms udp_header_fields [of sport dport udp_len r]
  by (simp add: handle_udp_def Let_def del: drop_append)

lemma callback_prefix:
  assumes "length data \<le> 512"
  shows "make_callback src sport (data @ r) (of_nat (length data)) l =
    make_callback src sport data (of_nat (length data)) l"
proof -
  have u: "unat (of_nat (length data) :: u16) = length data" using assms by (intro unat_of_nat_lt) simp
  then have "\<not> UDPL_PKT_MAX < of_nat (length data)" using assms by (simp add: UDPL_PKT_MAX_def word_less_nat_alt)
  then have "unat (if of_nat (length data) < UDPL_PKT_MAX then of_nat (length data) else UDPL_PKT_MAX :: u16) = length data"
    using u by (cases "of_nat (length data) = UDPL_PKT_MAX") auto
  then show ?thesis by (simp add: make_callback_def fill_udp_def Let_def)
qed

section \<open>From one machine to another\<close>

definition udp_body :: "u32 \<Rightarrow> u16 \<Rightarrow> u16 \<Rightarrow> bytes \<Rightarrow> net \<Rightarrow> bytes" where
  "udp_body dst sport dport data n =
     (let udp_len = 8 + of_nat (length data) in
      ip_header (20 + udp_len) (ip_id n) 0 IP_PROTO_UDP (my_ip n) dst
        @ udp_header sport dport udp_len @ data)"

definition udp_frame :: "u32 \<Rightarrow> u16 \<Rightarrow> u16 \<Rightarrow> bytes \<Rightarrow> net \<Rightarrow> bytes" where
  "udp_frame dst sport dport data n =
     eth_frame (dst_mac (next_hop dst n) n) (my_mac n) ETH_TYPE_IP (udp_body dst sport dport data n)"

definition on_wire :: "bytes \<Rightarrow> bytes" where
  "on_wire f = f @ replicate (60 - length f) 0"

lemma length_ip_header [simp]: "length (ip_header tot ident flags proto src dst) = 20"
  by (simp add: ip_header_def)

lemma length_udp_header [simp]: "length (udp_header sport dport udp_len) = 8"
  by (simp add: udp_header_def)

lemma length_udp_body [simp]: "length (udp_body dst sport dport data n) = 28 + length data"
  by (simp add: udp_body_def Let_def)

lemma udp_send_wire:
  assumes ok: "net_ok n hs" and len: "length data \<le> 1400"
  shows "\<exists>n'. net_udp_send dst sport dport data n = Some (n', True)
    \<and> wire (nic n') = wire (nic n) @ [on_wire (udp_frame dst sport dport data n)]"
proof -
  let ?l = "of_nat (length data) :: u16" and ?sz = "14 + (20 + (8 + of_nat (length data))) :: u16"
  let ?f = "udp_frame dst sport dport data n"
  let ?build = "\<lambda>n. Some (n\<lparr>ip_id := ip_id n + 1\<rparr>,
          eth_frame (dst_mac (next_hop dst n) n) (my_mac n) ETH_TYPE_IP
            (ip_header (20 + (8 + ?l)) (ip_id n) 0 IP_PROTO_UDP (my_ip n) dst
              @ bytes16 (htons sport) @ bytes16 (htons dport) @ bytes16 (htons (8 + ?l)) @ bytes16 0 @ data))"
  have u: "unat ?l = length data" using len by (intro unat_of_nat_lt) simp
  have sz: "unat ?sz = 42 + length data" using u len by (simp add: unat_plus_if)
  have lf: "length ?f = unat ?sz"
    using sz dst_mac_length [OF ok] ok by (simp add: udp_frame_def eth_frame_def net_ok_def)
  have "\<exists>n1. ?build (n\<lparr>nheap := h\<rparr>) = Some (n1\<lparr>nheap := h\<rparr>, ?f) \<and> nic n1 = nic n \<and> True" for h
    by (intro exI [of _ "n\<lparr>ip_id := ip_id n + 1\<rparr>"])
       (simp add: udp_frame_def udp_body_def udp_header_def dst_mac_def next_hop_def)
  from with_pkt_sends [OF ok _ _ this lf] sz len lf show ?thesis
    by (auto simp: net_udp_send_def Let_def on_wire_def)
qed

lemma dequeue_one:
  assumes wf: "netq_wf q" and it: "netq_items q = f # fs"
  shows "\<exists>q' pkt. netq_dequeue q out = (q', pkt, True) \<and> netq_wf q' \<and> netq_items q' = fs
    \<and> packet_bytes pkt = f \<and> unat (plen pkt) = length f"
proof -
  obtain q' where q': "netq_pop out q = (q', Some f)" "netq_wf q'" "netq_items q' = fs"
    using netq_pop_wf [OF wf it] by blast
  then have ne: "qhead q \<noteq> qtail q" by (auto simp: netq_pop_def netq_dequeue_def split: if_splits)
  let ?sl = "slots q ! unat (qtail q)"
  have "?sl \<in> set (slots q)" using wf by (simp add: netq_wf_def netq_inv_def NET_QUEUE_DEPTH_def)
  then have l: "unat (plen ?sl) \<le> length (pdata ?sl)" using wf by (simp add: netq_wf_def)
  have d: "netq_dequeue q out = (q', read_slot ?sl out, True)" "packet_bytes (read_slot ?sl out) = f"
    using q'(1) ne by (auto simp: netq_pop_def netq_dequeue_def Let_def)
  have "length (packet_bytes (read_slot ?sl out)) = unat (plen (read_slot ?sl out))"
    using l packet_bytes_read [OF l, of out] by (simp add: packet_bytes_def read_slot_def)
  with d q' show ?thesis by auto
qed

lemma dequeue_none: "netq_wf q \<Longrightarrow> netq_items q = [] \<Longrightarrow> netq_dequeue q out = (q, out, False)"
  using nq.pop_empty [of q out] by (auto simp: netq_pop_def split: prod.splits if_splits option.splits)
     (auto simp: netq_dequeue_def Let_def split: if_splits)

lemma poll_none:
  "netq_wf (squeue s) \<Longrightarrow> netq_items (squeue s) = [] \<Longrightarrow> poll_loop env i out s = Some s"
  by (subst poll_loop.simps) (simp add: dequeue_none)

text \<open>With one frame queued, the poll handles it and ends.\<close>

lemma poll_one:
  assumes wf: "netq_wf (squeue s)" and it: "netq_items (squeue s) = [f]"
  shows "\<exists>q' pkt. netq_wf q' \<and> netq_items q' = [] \<and> packet_bytes pkt = f \<and> unat (plen pkt) = length f
    \<and> (\<forall>s1. handle_frame pkt (s\<lparr>squeue := q'\<rparr>) = Some s1 \<and> squeue s1 = q' \<longrightarrow>
         poll_loop (\<lambda>_ s. s) i out s = Some s1)"
proof -
  obtain q' pkt where d: "netq_dequeue (squeue s) out = (q', pkt, True)" "netq_wf q'" "netq_items q' = []"
    "packet_bytes pkt = f" "unat (plen pkt) = length f" using dequeue_one [OF wf it] by blast
  have "poll_loop (\<lambda>_ s. s) i out s = Some s1"
    if "handle_frame pkt (s\<lparr>squeue := q'\<rparr>) = Some s1" "squeue s1 = q'" for s1
    using that d by (subst poll_loop.simps) (simp add: poll_none)
  with d show ?thesis by blast
qed

text \<open>A stack that listens on a port, with the listener's number.\<close>

definition listening :: "u16 \<Rightarrow> nat \<Rightarrow> stack \<Rightarrow> bool" where
  "listening port k s \<longleftrightarrow> k < length (slst s) \<and> lst_inv (slst s ! k)
     \<and> (\<exists>i. find_idx (\<lambda>h. hused h \<and> hport h = port) (sudp s) = Some i \<and> hcb (sudp s ! i) = ListenCallback k)"

definition stack_ok :: "stack \<Rightarrow> chunk list \<Rightarrow> bool" where
  "stack_ok s hs \<longleftrightarrow> tcp_ok (stcp s) hs \<and> netq_wf (squeue s)"

lemma tick_returns:
  assumes "tcp_ok t hs"
  shows "\<exists>t'. tcp_tick t = Some t' \<and> tcp_ok t' hs"
  using tick_from_returns [OF assms, of "[0..<TCP_MAX_SOCKETS]"] assms by (simp add: tcp_tick_def tcp_ok_def)

lemma handle_datagram:
  assumes l: "listening dport k s" and len: "length data \<le> 512" and dst: "dst = my_ip (snet s)"
    and plen: "\<not> plen' < 20"
  shows "handle_ip (udp_body dst sport dport data n @ r) plen' s =
    Some (s\<lparr>slst := (slst s)[k := fst (lst_push (slst s ! k) (my_ip n, sport, data))]\<rparr>)"
proof -
  let ?l = "8 + of_nat (length data) :: u16"
  obtain i where i: "find_idx (\<lambda>h. hused h \<and> hport h = dport) (sudp s) = Some i"
    "hcb (sudp s ! i) = ListenCallback k" using l by (auto simp: listening_def)
  have u: "unat (of_nat (length data) :: u16) = length data" using len by (intro unat_of_nat_lt) simp
  have "unat ?l = 8 + length data" using u len by (simp add: unat_plus_if)
  then have a: "\<not> ?l < 8" by (simp add: word_less_nat_alt)
  have "handle_ip (udp_body dst sport dport data n @ r) plen' s
      = handle_udp (my_ip n) (udp_header sport dport ?l @ data @ r) ?l s"
    using handle_ip_udp [OF plen dst, of "20 + ?l" "ip_id n" 0 "my_ip n" "udp_header sport dport ?l @ data @ r"]
    by (simp add: udp_body_def Let_def)
  also have "\<dots> = run_callback (ListenCallback k) (my_ip n) sport (data @ r) (of_nat (length data)) s"
    using handle_udp_to [OF a i(1), of "my_ip n" sport ?l "data @ r"] i(2) by simp
  finally show ?thesis
    using callback_prefix [OF len] by (simp add: run_callback_def lst_push_def Let_def)
qed

lemma receive_enqueues:
  assumes "netq_wf (squeue s)" "netq_items (squeue s) = []" "f \<noteq> []" "length f \<le> 1536"
  shows "\<exists>q. net_receive f (of_nat (length f)) s = s\<lparr>squeue := q\<rparr> \<and> netq_wf q \<and> netq_items q = [f]"
  using netq_push_wf [OF assms(1), of f] assms packet_ok_short [OF assms(3,4)]
  by (auto simp: net_receive_def netq_push_def)

lemma datagram_delivered:
  assumes snd: "net_ok nA hsA" and rcv: "stack_ok B hsB" "netq_items (squeue B) = []"
    and lis: "listening dport k B" "lst_count (slst B ! k) < 15"
    and dst: "dst = my_ip (snet B)" and len: "length data \<le> 512"
  shows "\<exists>B'. net_poll (\<lambda>_ s. s) out
      (net_receive (on_wire (udp_frame dst sport dport data nA))
         (of_nat (length (on_wire (udp_frame dst sport dport data nA)))) B) = Some B'
    \<and> lst_inv (slst B' ! k) \<and> lst_items (slst B' ! k) = lst_items (slst B ! k) @ [(my_ip nA, sport, data)]
    \<and> (\<forall>j. j \<noteq> k \<longrightarrow> slst B' ! j = slst B ! j) \<and> netq_items (squeue B') = []"
proof -
  let ?f = "udp_frame dst sport dport data nA"
  let ?dm = "dst_mac (next_hop dst nA) nA" and ?b = "udp_body dst sport dport data nA"
  have m: "length ?dm = 6" "length (my_mac nA) = 6"
    using dst_mac_length [OF snd] snd by (simp_all add: net_ok_def)
  then have lf: "length ?f = 42 + length data" by (simp add: udp_frame_def eth_frame_def)
  have "on_wire ?f \<noteq> []" "length (on_wire ?f) \<le> 1536" using lf len by (auto simp: on_wire_def)
  then obtain q where q: "net_receive (on_wire ?f) (of_nat (length (on_wire ?f))) B = B\<lparr>squeue := q\<rparr>"
    "netq_wf q" "netq_items q = [on_wire ?f]"
    using receive_enqueues [OF _ rcv(2)] rcv(1) unfolding stack_ok_def by blast
  let ?B = "B\<lparr>squeue := q\<rparr>"
  obtain q' pkt where p: "netq_items q' = []" "packet_bytes pkt = on_wire ?f"
    "unat (plen pkt) = length (on_wire ?f)"
    "\<And>s1. handle_frame pkt (?B\<lparr>squeue := q'\<rparr>) = Some s1 \<Longrightarrow> squeue s1 = q' \<Longrightarrow>
         poll_loop (\<lambda>_ s. s) 0 out ?B = Some s1"
    using poll_one [of ?B "on_wire ?f" 0 out] q by auto
  have pl: "unat (plen pkt) = 14 + length ?b + length (replicate (60 - length ?f) (0 :: u8))"
    using p(3) lf by (simp add: on_wire_def)
  obtain r where r: "handle_frame pkt (?B\<lparr>squeue := q'\<rparr>)
      = handle_ip (?b @ replicate (60 - length ?f) 0 @ r) (plen pkt - 14) (?B\<lparr>squeue := q'\<rparr>)"
    using handle_frame_ip [OF _ m pl] p(2) by (auto simp: on_wire_def udp_frame_def)
  have "(14 :: u16) \<le> plen pkt" using pl by (simp add: word_le_nat_alt)
  then have "unat (plen pkt - 14) = unat (plen pkt) - 14" by (simp add: unat_minus_le)
  then have nl: "\<not> plen pkt - 14 < 20" using pl by (simp add: word_less_nat_alt)
  have lis': "listening dport k (?B\<lparr>squeue := q'\<rparr>)" using lis(1) by (simp add: listening_def)
  let ?d = "(my_ip nA, sport, data)"
  obtain l' where l': "lst_push (slst B ! k) ?d = (l', True)" "lst_inv l'"
    "lst_items l' = lst_items (slst B ! k) @ [?d]"
    using lst_push_room [of "slst B ! k" ?d] lis len by (auto simp: listening_def dgram_ok_def)
  have "poll_loop (\<lambda>_ s. s) 0 out ?B = Some (B\<lparr>slst := (slst B)[k := l'], squeue := q'\<rparr>)"
    using p(4) handle_datagram [OF lis' len _ nl] r dst l'(1) by simp
  moreover obtain t' where "tcp_tick (stcp B) = Some t'"
    using tick_returns rcv(1) unfolding stack_ok_def by blast
  ultimately have "net_poll (\<lambda>_ s. s) out ?B = Some (B\<lparr>slst := (slst B)[k := l'], squeue := q', stcp := t'\<rparr>)"
    by (simp add: net_poll_def)
  with q(1) l' lis(1) p(1) show ?thesis by (simp add: listening_def)
qed

section \<open>What reaches the resolver\<close>

text \<open>The resolver's callback is registered for port 53 only.\<close>

definition dns_handlers :: "handler list \<Rightarrow> bool" where
  "dns_handlers hs \<longleftrightarrow> (\<forall>h \<in> set hs. hused h \<longrightarrow> hcb h = DnsCallback \<longrightarrow> hport h = DNS_PORT)"

text \<open>The destination port of a frame, read where \<^verbatim>\<open>handle_udp\<close> reads it.\<close>

definition frame_port :: "netpacket \<Rightarrow> u16" where
  "frame_port pkt = htons (get16 (drop (14 + unat ((pdata pkt ! 14 AND 0x0F) * 4)) (pdata pkt)) 2)"

text \<open>
  What goes on while the resolver waits: time, arriving frames, handled frames. The frames are
  for a port other than the resolver's, or for a port a query was sent from, as answers are.
\<close>

definition answer_port :: "u16 \<Rightarrow> bool" where
  "answer_port p \<longleftrightarrow> (\<exists>a < DNS_MAX_RETRIES. p = query_port a)"

inductive quiet :: "stack \<Rightarrow> stack \<Rightarrow> bool" where
  quiet_time: "quiet s (s\<lparr>stcp := (stcp s)\<lparr>uptime := u\<rparr>\<rparr>)"
| quiet_arrival: "quiet s (net_receive f len s)"
| quiet_frame: "handle_frame pkt s = Some s' \<Longrightarrow>
    frame_port pkt \<noteq> DNS_PORT \<or> answer_port (frame_port pkt) \<Longrightarrow> quiet s s'"
| quiet_trans: "quiet s s' \<Longrightarrow> quiet s' s'' \<Longrightarrow> quiet s s''"

lemma set_net_simps [simp]: "sdns (set_net n s) = sdns s" "sudp (set_net n s) = sudp s"
  "snet (set_net n s) = n" "uptime (stcp (set_net n s)) = uptime (stcp s)"
  by (simp_all add: set_net_def)

lemma udp_other_port:
  assumes "dns_handlers (sudp s)" "handle_udp src data len s = Some s'" "htons (get16 data 2) \<noteq> DNS_PORT"
  shows "sdns s' = sdns s \<and> sudp s' = sudp s"
proof (cases "find_idx (\<lambda>h. hused h \<and> hport h = htons (get16 data 2)) (sudp s)")
  case None
  then show ?thesis using assms(2) by (simp add: handle_udp_def Let_def split: if_splits)
next
  case (Some i)
  then have "i < length (sudp s)" "hused (sudp s ! i)" "hport (sudp s ! i) \<noteq> DNS_PORT"
    using find_idx_SomeD [OF Some] assms(3) by auto
  then have "hcb (sudp s ! i) \<noteq> DnsCallback" using assms(1) nth_mem unfolding dns_handlers_def by blast
  then obtain k where "hcb (sudp s ! i) = ListenCallback k" by (cases "hcb (sudp s ! i)") auto
  then show ?thesis
    using assms(2) Some by (auto simp: handle_udp_def Let_def run_callback_def split: if_splits)
qed

lemma ip_other_port:
  assumes "dns_handlers (sudp s)" "handle_ip data len s = Some s'"
    and "htons (get16 (drop (unat ((data ! 0 AND 0x0F) * 4)) data) 2) \<noteq> DNS_PORT"
  shows "sdns s' = sdns s \<and> sudp s' = sudp s"
  using assms(2) udp_other_port [OF assms(1) _ assms(3)]
  by (auto simp: handle_ip_def Let_def split: if_splits)

lemma frame_other_port:
  assumes "dns_handlers (sudp s)" "handle_frame pkt s = Some s'" "frame_port pkt \<noteq> DNS_PORT"
  shows "sdns s' = sdns s \<and> sudp s' = sudp s"
proof (cases "14 < length (pdata pkt)")
  case True
  then have "htons (get16 (drop (unat ((drop 14 (pdata pkt) ! 0 AND 0x0F) * 4)) (drop 14 (pdata pkt))) 2) \<noteq> DNS_PORT"
    using assms(3) by (simp add: frame_port_def add.commute)
  from ip_other_port [OF assms(1) _ this] assms(2) show ?thesis
    by (auto simp: handle_frame_def Let_def split: if_splits)
next
  case False
  then have "htons (get16 (drop (unat ((drop 14 (pdata pkt) ! 0 AND 0x0F) * 4)) (drop 14 (pdata pkt))) 2) = htons (get16 [] 2)"
    and "frame_port pkt = htons (get16 [] 2)"
    by (simp_all add: frame_port_def)
  then have "htons (get16 (drop (unat ((drop 14 (pdata pkt) ! 0 AND 0x0F) * 4)) (drop 14 (pdata pkt))) 2) \<noteq> DNS_PORT"
    using assms(3) by simp
  from ip_other_port [OF assms(1) _ this] assms(2) show ?thesis
    by (auto simp: handle_frame_def Let_def split: if_splits)
qed

lemma answers_miss: "answer_port p \<Longrightarrow> p \<noteq> DNS_PORT"
  by (auto simp: answer_port_def query_port_def DNS_PORT_def DNS_MAX_RETRIES_def less_Suc_eq numeral_3_eq_3)

lemma quiet_dns:
  "quiet s s' \<Longrightarrow> dns_handlers (sudp s) \<Longrightarrow> sdns s' = sdns s \<and> sudp s' = sudp s"
proof (induction rule: quiet.induct)
  case (quiet_frame pkt s s')
  then show ?case using frame_other_port answers_miss by blast
qed (simp_all add: net_receive_def)

lemma register_dns_handlers:
  "dns_handlers hs \<Longrightarrow> dns_handlers (net_udp_register DNS_PORT (Some DnsCallback) hs)"
  unfolding dns_handlers_def net_udp_register_def
  by (auto simp: find_idx_Some_iff split: option.splits dest!: subsetD [OF set_update_subset_insert])

section \<open>Waiting in vain\<close>

definition ticking :: "chunk list \<Rightarrow> (nat \<Rightarrow> stack \<Rightarrow> stack) \<Rightarrow> bool" where
  "ticking hs env \<longleftrightarrow> (\<forall>i s. quiet s (env i s) \<and> uptime (stcp (env i s)) = uptime (stcp s) + 1
     \<and> (heap_ok (snet s) hs \<longrightarrow> heap_ok (snet (env i s)) hs))"

lemma after_ticking:
  assumes "ticking hs env" "dns_handlers (sudp s)" "heap_ok (snet s) hs"
  shows "sdns (after env i n s) = sdns s \<and> sudp (after env i n s) = sudp s
    \<and> heap_ok (snet (after env i n s)) hs \<and> uptime (stcp (after env i n s)) = uptime (stcp s) + of_nat n"
  using assms(2,3)
proof (induction n arbitrary: i s)
  case (Suc n)
  have e: "quiet s (env i s)" "uptime (stcp (env i s)) = uptime (stcp s) + 1" "heap_ok (snet (env i s)) hs"
    using assms(1) Suc.prems(2) by (simp_all add: ticking_def)
  have "sdns (env i s) = sdns s \<and> sudp (env i s) = sudp s" by (rule quiet_dns [OF e(1) Suc.prems(1)])
  with Suc.IH [of "env i s" "Suc i"] Suc.prems(1) e show ?case by simp
qed simp

lemma wait_times_out:
  assumes "ticking hs env" "dns_handlers (sudp s)" "heap_ok (snet s) hs" "waiting (sdns s)"
  shows "\<exists>n. wait_until (\<lambda>s. uptime (stcp s)) (\<lambda>s. \<not> waiting (sdns s)) env (uptime (stcp s) + DNS_TIMEOUT_MS) 0 s
    = Some (after env 0 n s)"
proof -
  let ?d = "uptime (stcp s) + DNS_TIMEOUT_MS"
  have "uptime (stcp (after env 0 3000 s)) = ?d"
    using after_ticking [OF assms(1-3), of 0 3000] by (simp add: DNS_TIMEOUT_MS_def)
  then obtain t where t: "wait_until (\<lambda>s. uptime (stcp s)) (\<lambda>s. \<not> waiting (sdns s)) env ?d 0 s = Some t"
    using wait_until_ends [of "\<lambda>s. uptime (stcp s)" env 0 3000 s ?d] by auto
  with wait_until_result [OF t] show ?thesis by blast
qed

lemma udp_send_returns:
  assumes "heap_ok n hs" "length data \<le> 1400"
  shows "\<exists>n' b. net_udp_send dst sport dport data n = Some (n', b) \<and> heap_ok n' hs"
proof -
  let ?l = "of_nat (length data) :: u16" and ?sz = "14 + (20 + (8 + of_nat (length data))) :: u16"
  have u: "unat ?l = length data" using assms(2) by (intro unat_of_nat_lt) simp
  have sz: "unat ?sz = 42 + length data" using u assms(2) by (simp add: unat_plus_if)
  have nz: "0 < ?sz" using sz by (simp add: word_less_nat_alt)
  have m: "length (dst_mac ip (n\<lparr>nheap := h\<rparr>)) = 6" for ip h
    using dst_mac_length6 [OF assms(1), of ip] by (simp add: dst_mac_def)
  show ?thesis
    unfolding net_udp_send_def Let_def
    by (rule with_pkt_returns [OF assms(1) nz])
       (use sz m assms(1) in \<open>auto simp: eth_frame_def heap_ok_def ip_header_def\<close>)
qed

lemma attempts_fail:
  assumes "\<forall>a. ticking hs (env a)" "dns_handlers (sudp s)" "heap_ok (snet s) hs" "length pkt \<le> 512"
  shows "\<exists>s'. dns_attempts env qid pkt as s = Some (s', 0)"
  using assms(2,3)
proof (induction "as" arbitrary: s)
  case (Cons a as)
  let ?srv = "dns_server (sdns s)"
  have "length pkt \<le> 1400" using assms(4) by simp
  then obtain n b where n: "net_udp_send ?srv (query_port a) DNS_PORT pkt (snet s) = Some (n, b)" "heap_ok n hs"
    using udp_send_returns [OF Cons.prems(2)] by blast
  let ?s = "set_net n (s\<lparr>sdns := await_reply qid (sdns s)\<rparr>)"
  have w: "waiting (sdns ?s)" "dns_handlers (sudp ?s)" "heap_ok (snet ?s) hs"
    using Cons.prems n by (simp_all add: await_reply_def)
  have tick: "ticking hs (env a)" using assms(1) by blast
  obtain k where k: "wait_until (\<lambda>s. uptime (stcp s)) (\<lambda>s. \<not> waiting (sdns s)) (env a)
      (uptime (stcp ?s) + DNS_TIMEOUT_MS) 0 ?s = Some (after (env a) 0 k ?s)"
    using wait_times_out [OF tick w(2,3,1)] by blast
  let ?t = "after (env a) 0 k ?s"
  have t: "sdns ?t = sdns ?s" "sudp ?t = sudp ?s" "heap_ok (snet ?t) hs"
    using after_ticking [OF tick w(2,3), of 0 k] by simp_all
  have "dns_attempts env qid pkt (a # as) s = dns_attempts env qid pkt as ?t"
    using n(1) k t(1) w(1) by simp
  also have "\<exists>s'. dns_attempts env qid pkt as ?t = Some (s', 0)"
    using Cons.IH [of ?t] t w(2) by simp
  finally show ?case .
qed simp

lemma encode_name_length: "length (encode_name p) \<le> 2 * length p + 1"
proof (induction p rule: encode_name.induct)
  case (1 p)
  let ?n = "label_size p" and ?r = "drop (unat (label_size p)) p"
  let ?q = "if ?r \<noteq> [] \<and> hd ?r = 46 then tl ?r else ?r"
  show ?case
  proof (cases "p = [] \<or> ?n = 0 \<or> 63 < ?n")
    case True
    then show ?thesis by (subst encode_name.simps) (auto simp: Let_def)
  next
    case False
    then have "length (encode_name ?q) \<le> 2 * length ?q + 1" using 1 [OF _ refl refl] by auto
    moreover have "0 < unat ?n" using False by (simp add: unat_gt_0)
    moreover have "unat ?n \<le> length p" by (rule unat_label_size)
    moreover have "length ?q \<le> length p - unat ?n" by auto
    moreover have "encode_name p = ?n # take (unat ?n) p @ encode_name ?q"
      using False by (subst encode_name.simps) (simp add: Let_def)
    ultimately show ?thesis by simp
  qed
qed


lemma query_fits:
  assumes "length name \<le> 200"
  shows "\<exists>pkt. dns_query qid name = Some pkt \<and> length pkt \<le> 512"
  using encode_name_length [of name] assms by (simp add: dns_query_def Let_def)

section \<open>Properties\<close>

text \<open>
  C6: delivery. A datagram of at most 512 bytes that one machine sends with \<^verbatim>\<open>net_udp_send\<close>
  leaves its card as one frame; handed to another machine that listens on the port and is
  addressed, the frame goes through the packet queue and the next \<^verbatim>\<open>net_poll\<close> appends exactly
  the sender's address, port and bytes to that listener, whatever the padding and the length
  fields, and to no other.
\<close>

theorem udp_delivery:
  assumes "net_ok nA hsA" "stack_ok B hsB" "netq_items (squeue B) = []"
    and "listening dport k B" "lst_count (slst B ! k) < 15"
    and "dst = my_ip (snet B)" "length data \<le> 512"
  shows "\<exists>nA' f B'. net_udp_send dst sport dport data nA = Some (nA', True)
    \<and> wire (nic nA') = wire (nic nA) @ [f]
    \<and> net_poll (\<lambda>_ s. s) out (net_receive f (of_nat (length f)) B) = Some B'
    \<and> lst_items (slst B' ! k) = lst_items (slst B ! k) @ [(my_ip nA, sport, data)]
    \<and> (\<forall>j. j \<noteq> k \<longrightarrow> slst B' ! j = slst B ! j)"
proof -
  have "length data \<le> 1400" using assms(7) by simp
  from udp_send_wire [OF assms(1) this] datagram_delivered [OF assms] show ?thesis by blast
qed

definition demo_listener :: listener where
  "demo_listener = open_listener 7
     \<lparr>lport = 0, lused = False, lslots = replicate 16 \<lparr>usrc_ip = 0, usrc_port = 0, udata = replicate 512 0, ulen = 0\<rparr>,
      lhead = 0, ltail = 0\<rparr>"

definition demo_stack :: stack where
  "demo_stack = \<lparr>stcp = demo_tcp,
     sdns = \<lparr>dns_server = 0x0302000A, dnext_id = 0x1337, dcache = [], waiting = False, wait_id = 0,
             resp_buf = replicate 512 0, resp_len = 0\<rparr>,
     slst = [demo_listener],
     sudp = [\<lparr>hport = 7, hcb = ListenCallback 0, hused = True\<rparr>],
     squeue = blank_queue\<rparr>"

lemma demo_stack_ok: "stack_ok demo_stack [(4076, True)]" "listening 7 0 demo_stack"
  "lst_count (slst demo_stack ! 0) < 15" "net_ok demo_net [(4076, True)]"
  using demo_tcp_ok(1) demo_heap_rep blank_queue_wf
  by (simp_all add: stack_ok_def demo_stack_def listening_def demo_listener_def open_listener_def lst_inv_def
      lst_count_def ring_count_def net_ok_def demo_net_def rtl_ok_def arp_ok_def ARP_CACHE_SIZE_def fits_def)

theorem udp_delivery_witness:
  "\<exists>n f B. net_udp_send 0x0F02000A 9 7 [1, 2, 3] demo_net = Some (n, True)
     \<and> net_poll (\<lambda>_ s. s) blank_packet (net_receive f (of_nat (length f)) demo_stack) = Some B
     \<and> lst_items (slst B ! 0) = lst_items demo_listener @ [(0x0F02000A, 9, [1, 2, 3])]"
proof -
  have "netq_items (squeue demo_stack) = []" "(0x0F02000A :: u32) = my_ip (snet demo_stack)"
    by (simp_all add: demo_stack_def blank_queue_items demo_tcp_def demo_net_def)
  from udp_delivery [OF demo_stack_ok(4,1) this(1) demo_stack_ok(2,3) this(2), of "[1, 2, 3]" 9 blank_packet]
  show ?thesis by (auto simp: demo_stack_def demo_net_def)
qed



end
