(* ===== verification/Vfs.thy ===== *)
theory Vfs
  imports FatProps
begin

unbundle bit_operations_syntax

text \<open>
  The virtual file system (\<^verbatim>\<open>kernel/vfs.cpp\<close>) and the FAT32 disk mounted in it
  (\<^verbatim>\<open>kernel/vfs_disk.cpp\<close>). A \<^verbatim>\<open>VfsNode*\<close> is a slot of the static pool or a heap address; the
  table of function pointers \<^verbatim>\<open>VfsOps\<close> is one of the two tables the kernel has. A node's data is
  the block of its own that the code allocates for it: file contents for a RAM file, a
  \<^verbatim>\<open>Fat32Entry\<close> for a node of the disk. The kernel calls \<^verbatim>\<open>vfs_init\<close> before anything else, so the
  root and the current directory are never null. The result \<open>None\<close> means that the call writes
  outside an array or does not return.
\<close>

section \<open>Nodes\<close>

definition VFS_MAX_NAME :: nat where "VFS_MAX_NAME = 64"
definition VFS_MAX_CHILDREN :: nat where "VFS_MAX_CHILDREN = 16"
definition VFS_MAX_NODES :: nat where "VFS_MAX_NODES = 128"
definition VFS_MAX_FILE_DATA :: u32 where "VFS_MAX_FILE_DATA = 4096"

datatype vtype = VFS_FILE | VFS_DIR
datatype vref = Pool nat | Disk u32
datatype vops = RamOps | DiskOps
datatype node_data = NoData | FileData bytes | DiskEntry fat_entry

record vnode =
  vname :: bytes
  vtype :: vtype
  vsize :: u32
  vdata :: node_data
  vops :: "vops option"
  vchildren :: "vref list"
  vparent :: "vref option"

record vfs =
  node_pool :: "vnode list"
  node_pool_used :: nat
  disk_nodes :: "u32 \<Rightarrow> vnode"
  root_node :: vref
  cwd_node :: vref
  vfat :: fat
  fat32_mounted :: bool

definition node :: "vref \<Rightarrow> vfs \<Rightarrow> vnode" where
  "node r s = (case r of Pool i \<Rightarrow> node_pool s ! i | Disk a \<Rightarrow> disk_nodes s a)"

definition set_node :: "vref \<Rightarrow> vnode \<Rightarrow> vfs \<Rightarrow> vfs" where
  "set_node r n s = (case r of
     Pool i \<Rightarrow> s\<lparr>node_pool := (node_pool s)[i := n]\<rparr>
   | Disk a \<Rightarrow> s\<lparr>disk_nodes := (disk_nodes s)(a := n)\<rparr>)"

definition empty_node :: vnode where
  "empty_node = \<lparr>vname = [], vtype = VFS_FILE, vsize = 0, vdata = NoData, vops = None,
     vchildren = [], vparent = None\<rparr>"

definition alloc_node :: "vfs \<Rightarrow> vfs \<times> vref option" where
  "alloc_node s =
     (if VFS_MAX_NODES \<le> node_pool_used s then (s, None)
      else let r = Pool (node_pool_used s) in
        (set_node r empty_node (s\<lparr>node_pool_used := node_pool_used s + 1\<rparr>), Some r))"

definition vkmalloc :: "u32 \<Rightarrow> vfs \<Rightarrow> (vfs \<times> u32) option" where
  "vkmalloc n s =
     map_option (\<lambda>(h, p). (s\<lparr>vfat := (vfat s)\<lparr>fheap := h\<rparr>\<rparr>, p)) (kmalloc (fheap (vfat s)) n)"

definition vkfree :: "u32 \<Rightarrow> vfs \<Rightarrow> vfs" where
  "vkfree p s = s\<lparr>vfat := (vfat s)\<lparr>fheap := kfree (fheap (vfat s)) p\<rparr>\<rparr>"

text \<open>\<^verbatim>\<open>kstrcpy\<close> into a node's name of 64 bytes, the terminating zero included.\<close>

definition fits_name :: "bytes \<Rightarrow> bool" where
  "fits_name name \<longleftrightarrow> length name < VFS_MAX_NAME"

section \<open>The RAM file system\<close>

definition ramfs_read :: "vref \<Rightarrow> u32 \<Rightarrow> u32 \<Rightarrow> vfs \<Rightarrow> (int \<times> bytes) option" where
  "ramfs_read r off sz s =
     (let n = node r s in
      if vtype n \<noteq> VFS_FILE then Some (-1, [])
      else if vsize n \<le> off then Some (0, [])
      else
        let avail = vsize n - off; m = (if avail < sz then avail else sz) in
        case vdata n of
          NoData \<Rightarrow> Some (0, [])
        | FileData d \<Rightarrow>
            if length d < unat off + unat m then None
            else Some (sint m, take (unat m) (drop (unat off) d))
        | DiskEntry e \<Rightarrow> None)"

definition ramfs_store :: "vref \<Rightarrow> bytes \<Rightarrow> u32 \<Rightarrow> u32 \<Rightarrow> bytes \<Rightarrow> u32 \<Rightarrow> vfs \<Rightarrow> (vfs \<times> int) option" where
  "ramfs_store r d off m buf fin s =
     (if length d < unat off + unat m \<or> length buf < unat m then None
      else let n = node r s in
        Some (set_node r (n\<lparr>vdata := FileData (patch (unat off) (take (unat m) buf) d),
                            vsize := (if vsize n < fin then fin else vsize n)\<rparr>) s, sint m))"

definition ramfs_write :: "vref \<Rightarrow> bytes \<Rightarrow> u32 \<Rightarrow> u32 \<Rightarrow> vfs \<Rightarrow> (vfs \<times> int) option" where
  "ramfs_write r buf off sz s =
     (if vtype (node r s) \<noteq> VFS_FILE then Some (s, -1)
      else
        let over = VFS_MAX_FILE_DATA < off + sz;
            m = (if over then VFS_MAX_FILE_DATA - off else sz);
            fin = (if over then VFS_MAX_FILE_DATA else off + sz) in
        if over \<and> VFS_MAX_FILE_DATA \<le> off then Some (s, -1)
        else case vdata (node r s) of
          NoData \<Rightarrow> do {
            (s1, p) \<leftarrow> vkmalloc VFS_MAX_FILE_DATA s;
            if p = 0 then Some (s1, -1)
            else ramfs_store r (replicate (unat VFS_MAX_FILE_DATA) 0) off m buf fin s1
          }
        | FileData d \<Rightarrow> ramfs_store r d off m buf fin s
        | DiskEntry e \<Rightarrow> None)"

definition ramfs_finddir :: "vref \<Rightarrow> bytes \<Rightarrow> vfs \<Rightarrow> vref option" where
  "ramfs_finddir r name s =
     (if vtype (node r s) \<noteq> VFS_DIR then None
      else find (\<lambda>c. vname (node c s) = name) (vchildren (node r s)))"

text \<open>\<^verbatim>\<open>ramfs_mkdir\<close> and \<^verbatim>\<open>ramfs_create\<close> differ in the type of the new node only.\<close>

definition ramfs_add :: "vtype \<Rightarrow> vref \<Rightarrow> bytes \<Rightarrow> vfs \<Rightarrow> (vfs \<times> vref option) option" where
  "ramfs_add ty r name s =
     (if vtype (node r s) \<noteq> VFS_DIR then Some (s, None)
      else if VFS_MAX_CHILDREN \<le> length (vchildren (node r s)) then Some (s, None)
      else if ramfs_finddir r name s \<noteq> None then Some (s, None)
      else case alloc_node s of
        (s1, None) \<Rightarrow> Some (s1, None)
      | (s1, Some c) \<Rightarrow>
          if \<not> fits_name name then None
          else
            let s2 = set_node c ((node c s1)\<lparr>vname := name, vtype := ty, vops := vops (node r s1),
                                             vparent := Some r\<rparr>) s1;
                d = node r s2
            in Some (set_node r (d\<lparr>vchildren := vchildren d @ [c]\<rparr>) s2, Some c))"

definition ramfs_mkdir :: "vref \<Rightarrow> bytes \<Rightarrow> vfs \<Rightarrow> (vfs \<times> vref option) option" where
  "ramfs_mkdir = ramfs_add VFS_DIR"

definition ramfs_create :: "vref \<Rightarrow> bytes \<Rightarrow> vfs \<Rightarrow> (vfs \<times> vref option) option" where
  "ramfs_create = ramfs_add VFS_FILE"

definition ramfs_readdir :: "vref \<Rightarrow> u32 \<Rightarrow> vfs \<Rightarrow> bytes option" where
  "ramfs_readdir r i s =
     (if vtype (node r s) \<noteq> VFS_DIR then None
      else if length (vchildren (node r s)) \<le> unat i then None
      else Some (vname (node (vchildren (node r s) ! unat i) s)))"

definition vfs_init :: "vfs \<Rightarrow> vfs" where
  "vfs_init s =
     (let s1 = s\<lparr>node_pool_used := 1\<rparr> in
      set_node (Pool 0) (empty_node\<lparr>vname := [47], vtype := VFS_DIR, vops := Some RamOps,
                                   vparent := Some (Pool 0)\<rparr>)
        (s1\<lparr>root_node := Pool 0, cwd_node := Pool 0\<rparr>))"

section \<open>The disk in the tree\<close>

definition SIZEOF_ENTRY :: u32 where "SIZEOF_ENTRY = 276"
definition SIZEOF_NODE :: u32 where "SIZEOF_NODE = 152"

definition run_fat :: "(fat \<Rightarrow> (fat \<times> 'a) option) \<Rightarrow> vfs \<Rightarrow> (vfs \<times> 'a) option" where
  "run_fat f s = map_option (\<lambda>(d, x). (s\<lparr>vfat := d\<rparr>, x)) (f (vfat s))"

definition make_disk_node ::
  "bytes \<Rightarrow> fat_entry \<Rightarrow> vops option \<Rightarrow> vfs \<Rightarrow> (vfs \<times> vref option) option" where
  "make_disk_node name e ops s = do {
     (s1, p) \<leftarrow> vkmalloc SIZEOF_NODE s;
     if p = 0 then Some (s1, None)
     else if \<not> fits_name name then None
     else Some (set_node (Disk p)
        \<lparr>vname = name, vtype = (if fattr e AND ATTR_DIRECTORY \<noteq> 0 then VFS_DIR else VFS_FILE),
         vsize = fsize e, vdata = DiskEntry e, vops = (case ops of None \<Rightarrow> Some DiskOps | Some f \<Rightarrow> Some f),
         vchildren = [], vparent = None\<rparr> s1, Some (Disk p))
   }"

definition dir_cluster_of :: "vref \<Rightarrow> vfs \<Rightarrow> u32" where
  "dir_cluster_of r s = (case vdata (node r s) of DiskEntry e \<Rightarrow> fcluster e | _ \<Rightarrow> root_cluster (vfat s))"

definition disk_read :: "vref \<Rightarrow> u32 \<Rightarrow> u32 \<Rightarrow> vfs \<Rightarrow> (vfs \<times> int \<times> bytes) option" where
  "disk_read r off sz s =
     (case vdata (node r s) of
        DiskEntry e \<Rightarrow> run_fat (fat32_read e off sz) s
      | _ \<Rightarrow> Some (s, -1, []))"

definition disk_write :: "vref \<Rightarrow> bytes \<Rightarrow> u32 \<Rightarrow> u32 \<Rightarrow> vfs \<Rightarrow> (vfs \<times> int) option" where
  "disk_write r buf off sz s =
     (case vdata (node r s) of
        DiskEntry e \<Rightarrow> do {
          (s1, e', k) \<leftarrow> run_fat (fat32_write e buf off sz) s;
          (let n = (node r s1)\<lparr>vdata := DiskEntry e'\<rparr> in
           Some (set_node r (if 0 < k then n\<lparr>vsize := fsize e'\<rparr> else n) s1, k))
        }
      | _ \<Rightarrow> Some (s, -1))"

text \<open>What \<^verbatim>\<open>disk_finddir\<close>, \<^verbatim>\<open>disk_mkdir\<close> and \<^verbatim>\<open>disk_create\<close> do with the entry they got.\<close>

definition store_entry :: "vref \<Rightarrow> int + fat_entry \<Rightarrow> vfs \<Rightarrow> (vfs \<times> vref option) option" where
  "store_entry r res s =
     (case res of
        Inl err \<Rightarrow> Some (s, None)
      | Inr e \<Rightarrow> do {
          (s1, p) \<leftarrow> vkmalloc SIZEOF_ENTRY s;
          if p = 0 then Some (s1, None) else make_disk_node (fname e) e (vops (node r s1)) s1
        })"

definition disk_finddir :: "vref \<Rightarrow> bytes \<Rightarrow> vfs \<Rightarrow> (vfs \<times> vref option) option" where
  "disk_finddir r name s = do {
     (s1, res) \<leftarrow> run_fat (fat32_find (dir_cluster_of r s) name) s;
     store_entry r res s1
   }"

definition disk_mkdir :: "vref \<Rightarrow> bytes \<Rightarrow> vfs \<Rightarrow> (vfs \<times> vref option) option" where
  "disk_mkdir r name s = do {
     (s1, res) \<leftarrow> run_fat (fat32_mkdir (dir_cluster_of r s) name) s;
     store_entry r res s1
   }"

definition disk_create :: "vref \<Rightarrow> bytes \<Rightarrow> vfs \<Rightarrow> (vfs \<times> vref option) option" where
  "disk_create r name s = do {
     (s1, res) \<leftarrow> run_fat (fat32_create (dir_cluster_of r s) name) s;
     store_entry r res s1
   }"

partial_function (option) disk_readdir_loop ::
  "u32 \<Rightarrow> u32 \<Rightarrow> u32 \<Rightarrow> u32 \<Rightarrow> vfs \<Rightarrow> (vfs \<times> bytes option) option" where
  "disk_readdir_loop dc index i real s = do {
     (s1, res) \<leftarrow> run_fat (fat32_readdir dc i) s;
     (case res of
        Inl err \<Rightarrow> Some (s1, None)
      | Inr e \<Rightarrow>
          if dot_name (fname e) then disk_readdir_loop dc index (i + 1) real s1
          else if real = index then Some (s1, Some (fname e))
          else disk_readdir_loop dc index (i + 1) (real + 1) s1)
   }"

definition disk_readdir :: "vref \<Rightarrow> u32 \<Rightarrow> vfs \<Rightarrow> (vfs \<times> bytes option) option" where
  "disk_readdir r index s = disk_readdir_loop (dir_cluster_of r s) index 0 0 s"

definition mount_entry :: "bytes \<Rightarrow> vfs \<Rightarrow> fat_entry" where
  "mount_entry name s = \<lparr>fname = name, fattr = ATTR_DIRECTORY, fcluster = root_cluster (vfat s), fsize = 0,
     fdir_cluster = 0, fdir_index = 0\<rparr>"

definition vfs_mount_fat32 :: "bytes \<Rightarrow> vfs \<Rightarrow> (vfs \<times> bool) option" where
  "vfs_mount_fat32 mp s =
     (if \<not> mounted (vfat s) then Some (s, False)
      else
        let name = (case mp of c # t \<Rightarrow> if c = 47 then t else mp | [] \<Rightarrow> mp) in do {
          (s1, p) \<leftarrow> vkmalloc SIZEOF_ENTRY s;
          if p = 0 then Some (s1, False)
          else if FAT32_MAX_NAME \<le> length name then None
          else do {
            (s2, r) \<leftarrow> make_disk_node name (mount_entry name s1) (Some DiskOps) s1;
            (case r of
               Some (Disk q) \<Rightarrow>
                 (let s3 = set_node (Disk q) ((node (Disk q) s2)\<lparr>vparent := Some (root_node s2)\<rparr>) s2;
                      d = node (root_node s3) s3 in
                  if VFS_MAX_CHILDREN \<le> length (vchildren d) then Some (vkfree q (vkfree p s3), False)
                  else Some ((set_node (root_node s3) (d\<lparr>vchildren := vchildren d @ [Disk q]\<rparr>) s3)
                        \<lparr>fat32_mounted := True\<rparr>, True))
             | _ \<Rightarrow> Some (vkfree p s2, False))
          }
        })"

section \<open>Dispatch\<close>

definition vfs_finddir :: "vref \<Rightarrow> bytes \<Rightarrow> vfs \<Rightarrow> (vfs \<times> vref option) option" where
  "vfs_finddir r name s =
     (case vops (node r s) of
        None \<Rightarrow> Some (s, None)
      | Some RamOps \<Rightarrow> Some (s, ramfs_finddir r name s)
      | Some DiskOps \<Rightarrow> disk_finddir r name s)"

definition vfs_mkdir :: "vref \<Rightarrow> bytes \<Rightarrow> vfs \<Rightarrow> (vfs \<times> vref option) option" where
  "vfs_mkdir r name s =
     (case vops (node r s) of
        None \<Rightarrow> Some (s, None)
      | Some RamOps \<Rightarrow> ramfs_mkdir r name s
      | Some DiskOps \<Rightarrow> disk_mkdir r name s)"

definition vfs_create :: "vref \<Rightarrow> bytes \<Rightarrow> vfs \<Rightarrow> (vfs \<times> vref option) option" where
  "vfs_create r name s =
     (case vops (node r s) of
        None \<Rightarrow> Some (s, None)
      | Some RamOps \<Rightarrow> ramfs_create r name s
      | Some DiskOps \<Rightarrow> disk_create r name s)"

definition vfs_read :: "vref \<Rightarrow> u32 \<Rightarrow> u32 \<Rightarrow> vfs \<Rightarrow> (vfs \<times> int \<times> bytes) option" where
  "vfs_read r off sz s =
     (case vops (node r s) of
        None \<Rightarrow> Some (s, -1, [])
      | Some RamOps \<Rightarrow> map_option (\<lambda>(k, bs). (s, k, bs)) (ramfs_read r off sz s)
      | Some DiskOps \<Rightarrow> disk_read r off sz s)"

definition vfs_write :: "vref \<Rightarrow> bytes \<Rightarrow> u32 \<Rightarrow> u32 \<Rightarrow> vfs \<Rightarrow> (vfs \<times> int) option" where
  "vfs_write r buf off sz s =
     (case vops (node r s) of
        None \<Rightarrow> Some (s, -1)
      | Some RamOps \<Rightarrow> ramfs_write r buf off sz s
      | Some DiskOps \<Rightarrow> disk_write r buf off sz s)"

definition vfs_readdir :: "vref \<Rightarrow> u32 \<Rightarrow> vfs \<Rightarrow> (vfs \<times> bytes option) option" where
  "vfs_readdir r i s =
     (case vops (node r s) of
        None \<Rightarrow> Some (s, None)
      | Some RamOps \<Rightarrow> Some (s, ramfs_readdir r i s)
      | Some DiskOps \<Rightarrow> disk_readdir r i s)"

section \<open>Paths\<close>

text \<open>The next component of a path, at most 63 characters of it, and the rest.\<close>

definition component :: "bytes \<Rightarrow> bytes" where
  "component p = take (VFS_MAX_NAME - 1) (takeWhile (\<lambda>c. c \<noteq> 47) p)"

lemma component_progress:
  fixes path :: bytes
  assumes "dropWhile (\<lambda>c. c = 47) path \<noteq> []" (is "?p \<noteq> []")
  shows "length ?p - length (component ?p) < length path"
proof -
  have "hd ?p \<noteq> 47" by (rule hd_dropWhile [OF assms])
  then have "component ?p \<noteq> []" using assms by (cases ?p) (simp_all add: component_def VFS_MAX_NAME_def)
  then have "0 < length (component ?p)" by simp
  moreover have "length ?p \<le> length path" by (rule length_dropWhile_le)
  moreover have "0 < length ?p" using assms by simp
  ultimately show ?thesis by linarith
qed

function vfs_walk :: "bytes \<Rightarrow> vref \<Rightarrow> vfs \<Rightarrow> (vfs \<times> vref option) option" where
  "vfs_walk path cur s =
     (let p = dropWhile (\<lambda>c. c = 47) path in
      if p = [] then Some (s, Some cur)
      else
        let comp = component p; rest = drop (length comp) p in
        if comp = [46] then vfs_walk rest cur s
        else if comp = [46, 46] then
          vfs_walk rest (case vparent (node cur s) of
              Some q \<Rightarrow> if q \<noteq> cur then q else cur | None \<Rightarrow> cur) s
        else case vfs_finddir cur comp s of
          None \<Rightarrow> None
        | Some (s1, None) \<Rightarrow> Some (s1, None)
        | Some (s1, Some q) \<Rightarrow> vfs_walk rest q s1)"
  by pat_completeness auto

termination
  by (relation "measure (\<lambda>(path, cur, s). length path)") (simp_all add: component_progress)

declare vfs_walk.simps [simp del]

definition vfs_resolve_path :: "bytes \<Rightarrow> vfs \<Rightarrow> (vfs \<times> vref option) option" where
  "vfs_resolve_path path s =
     (case path of
        [] \<Rightarrow> Some (s, Some (cwd_node s))
      | c # rest \<Rightarrow> if c = 47 then vfs_walk rest (root_node s) s else vfs_walk path (cwd_node s) s)"

definition vfs_chdir :: "bytes \<Rightarrow> vfs \<Rightarrow> (vfs \<times> int) option" where
  "vfs_chdir path s =
     (case vfs_resolve_path path s of
        None \<Rightarrow> None
      | Some (s1, None) \<Rightarrow> Some (s1, -1)
      | Some (s1, Some r) \<Rightarrow>
          if vtype (node r s1) \<noteq> VFS_DIR then Some (s1, -1) else Some (s1\<lparr>cwd_node := r\<rparr>, 0))"

text \<open>The nodes from the current directory up to the root, at most 63.\<close>

fun path_stack :: "nat \<Rightarrow> vref option \<Rightarrow> vfs \<Rightarrow> vref list" where
  "path_stack 0 n s = []"
| "path_stack (Suc k) n s =
     (case n of None \<Rightarrow> []
      | Some r \<Rightarrow> if r = root_node s then [] else r # path_stack k (vparent (node r s)) s)"

text \<open>Appending a slash and a name while the buffer of \<open>b\<close> bytes has room.\<close>

fun put_path :: "nat \<Rightarrow> bytes list \<Rightarrow> bytes \<Rightarrow> bytes" where
  "put_path b [] buf = buf"
| "put_path b (nm # nms) buf =
     (let buf1 = (if length buf + 1 < b then buf @ [47] else buf) in
      put_path b nms (buf1 @ take (b - 1 - length buf1) nm))"

definition vfs_get_cwd_path :: "nat \<Rightarrow> vfs \<Rightarrow> (fault + bytes option)" where
  "vfs_get_cwd_path b s =
     (if b = 0 then Inr None
      else case path_stack 63 (Some (cwd_node s)) s of
        [] \<Rightarrow> if b < 2 then Inl OutOfBounds else Inr (Some [47])
      | rs \<Rightarrow> Inr (Some (put_path b (map (\<lambda>r. vname (node r s)) (rev rs)) [])))"

end
