(* ===== verification/VfsProps.thy ===== *)
theory VfsProps
  imports Vfs
begin

unbundle bit_operations_syntax

text \<open>
  What the virtual file system promises without a mounted disk: the nodes form a tree under
  every sequence of operations, a directory's path leads back to it, and RAM files are byte
  strings of at most 4096 bytes.
\<close>

section \<open>The tree\<close>

definition good_name :: "bytes \<Rightarrow> bool" where
  "good_name n \<longleftrightarrow> n \<noteq> [] \<and> 47 \<notin> set n \<and> fits_name n \<and> n \<noteq> [46] \<and> n \<noteq> [46, 46]"

text \<open>Contents of a RAM file: 4096 bytes, zero behind the end of the file.\<close>

definition file_ok :: "vnode \<Rightarrow> bool" where
  "file_ok n \<longleftrightarrow> (case vdata n of
     NoData \<Rightarrow> vsize n = 0
   | FileData d \<Rightarrow> length d = 4096 \<and> unat (vsize n) \<le> 4096 \<and> (\<forall>x \<in> set (drop (unat (vsize n)) d). x = 0)
   | DiskEntry e \<Rightarrow> False)"

definition child_names :: "nat \<Rightarrow> vfs \<Rightarrow> bytes list" where
  "child_names i s = map (\<lambda>c. vname (node c s)) (vchildren (node_pool s ! i))"

definition linked :: "nat \<Rightarrow> vfs \<Rightarrow> bool" where
  "linked i s \<longleftrightarrow> (\<exists>p < i. vparent (node_pool s ! i) = Some (Pool p)
     \<and> Pool i \<in> set (vchildren (node_pool s ! p)) \<and> vtype (node_pool s ! p) = VFS_DIR)
     \<and> good_name (vname (node_pool s ! i))"

definition node_ok :: "nat \<Rightarrow> vfs \<Rightarrow> bool" where
  "node_ok i s \<longleftrightarrow> vops (node_pool s ! i) = Some RamOps \<and> file_ok (node_pool s ! i)
     \<and> (if i = 0 then vparent (node_pool s ! 0) = Some (Pool 0) else linked i s)
     \<and> (\<forall>c \<in> set (vchildren (node_pool s ! i)). \<exists>j < node_pool_used s. c = Pool j)
     \<and> distinct (child_names i s)"

definition tree_ok :: "vfs \<Rightarrow> bool" where
  "tree_ok s \<longleftrightarrow> length (node_pool s) = VFS_MAX_NODES \<and> 0 < node_pool_used s
     \<and> node_pool_used s \<le> VFS_MAX_NODES \<and> root_node s = Pool 0 \<and> vtype (node_pool s ! 0) = VFS_DIR
     \<and> (\<exists>c < node_pool_used s. cwd_node s = Pool c \<and> vtype (node_pool s ! c) = VFS_DIR)
     \<and> (\<forall>i < node_pool_used s. node_ok i s)
     \<and> (\<exists>hs. heap_rep (fheap (vfat s)) hs \<and> coalesced hs)"

lemma node_Pool [simp]: "node (Pool i) s = node_pool s ! i"
  by (simp add: node_def)

lemma set_node_Pool [simp]: "set_node (Pool i) n s = s\<lparr>node_pool := (node_pool s)[i := n]\<rparr>"
  by (simp add: set_node_def)

lemma tree_node: "tree_ok s \<Longrightarrow> i < node_pool_used s \<Longrightarrow> node_ok i s"
  by (simp add: tree_ok_def)

lemma tree_ops: "tree_ok s \<Longrightarrow> i < node_pool_used s \<Longrightarrow> vops (node_pool s ! i) = Some RamOps"
  using tree_node by (simp add: node_ok_def)

section \<open>Looking up\<close>

lemma finddir_ram:
  "tree_ok s \<Longrightarrow> i < node_pool_used s \<Longrightarrow> vfs_finddir (Pool i) nm s = Some (s, ramfs_finddir (Pool i) nm s)"
  by (simp add: vfs_finddir_def tree_ops)

lemma finddir_pool:
  assumes "tree_ok s" "i < node_pool_used s" "ramfs_finddir (Pool i) nm s = Some r"
  shows "\<exists>j < node_pool_used s. r = Pool j \<and> vname (node_pool s ! j) = nm"
proof -
  have "r \<in> set (vchildren (node_pool s ! i))" "vname (node r s) = nm"
    using assms(3) by (auto simp: ramfs_finddir_def find_Some_iff split: if_splits)
  with tree_node [OF assms(1,2)] show ?thesis by (auto simp: node_ok_def)
qed

text \<open>A child is found under its name.\<close>

lemma find_distinct:
  "distinct (map f xs) \<Longrightarrow> x \<in> set xs \<Longrightarrow> find (\<lambda>y. f y = f x) xs = Some x"
  by (induction xs) auto

lemma finddir_child:
  assumes "tree_ok s" "0 < i" "i < node_pool_used s"
  shows "\<exists>p < i. vparent (node_pool s ! i) = Some (Pool p)
    \<and> ramfs_finddir (Pool p) (vname (node_pool s ! i)) s = Some (Pool i)"
proof -
  have "linked i s" using tree_node [OF assms(1,3)] assms(2) by (simp add: node_ok_def)
  then obtain p where p: "p < i" "vparent (node_pool s ! i) = Some (Pool p)"
    "Pool i \<in> set (vchildren (node_pool s ! p))" "vtype (node_pool s ! p) = VFS_DIR"
    by (auto simp: linked_def)
  have "distinct (child_names p s)" using tree_node [OF assms(1), of p] p(1) assms(3) by (simp add: node_ok_def)
  from find_distinct [OF this [unfolded child_names_def] p(3)] p show ?thesis
    by (auto simp: ramfs_finddir_def)
qed

lemma walk_pool:
  assumes "tree_ok s" "i < node_pool_used s"
  shows "vfs_walk path (Pool i) s = Some (s, None)
    \<or> (\<exists>j < node_pool_used s. vfs_walk path (Pool i) s = Some (s, Some (Pool j)))"
  using assms(2)
proof (induction path arbitrary: i rule: length_induct)
  case (1 path)
  let ?p = "dropWhile (\<lambda>c. c = 47) path"
  let ?r = "drop (length (component ?p)) ?p"
  show ?case
  proof (cases "?p = []")
    case True
    then show ?thesis using 1(2) by (subst (1 2) vfs_walk.simps) simp
  next
    case False
    then have l: "length ?r < length path" using component_progress [OF False] by simp
    have IH: "vfs_walk ?r (Pool j) s = Some (s, None)
        \<or> (\<exists>k < node_pool_used s. vfs_walk ?r (Pool j) s = Some (s, Some (Pool k)))"
      if "j < node_pool_used s" for j using 1(1) l that by blast
    consider "component ?p = [46]" | "component ?p = [46, 46]"
      | "component ?p \<noteq> [46]" "component ?p \<noteq> [46, 46]" by blast
    then show ?thesis
    proof cases
      case 1
      then have "vfs_walk path (Pool i) s = vfs_walk ?r (Pool i) s"
        using False by (subst vfs_walk.simps) (simp add: Let_def del: dropWhile_eq_Nil_conv)
      with IH [OF \<open>i < node_pool_used s\<close>] show ?thesis by simp
    next
      case 2
      let ?q = "case vparent (node (Pool i) s) of Some q \<Rightarrow> if q \<noteq> Pool i then q else Pool i | None \<Rightarrow> Pool i"
      have w: "vfs_walk path (Pool i) s = vfs_walk ?r ?q s"
        using False 2 by (subst vfs_walk.simps) (simp add: Let_def del: dropWhile_eq_Nil_conv)
      have "\<exists>j < node_pool_used s. ?q = Pool j"
        using tree_node [OF assms(1) \<open>i < node_pool_used s\<close>] \<open>i < node_pool_used s\<close>
        by (cases "i = 0") (auto simp: node_ok_def linked_def)
      then obtain j where j: "j < node_pool_used s" "?q = Pool j" by blast
      from IH [OF j(1)] show ?thesis unfolding w j(2) .
    next
      case 3
      have w: "vfs_walk path (Pool i) s = (case ramfs_finddir (Pool i) (component ?p) s of
          None \<Rightarrow> Some (s, None) | Some q \<Rightarrow> vfs_walk ?r q s)"
        using False 3 finddir_ram [OF assms(1) \<open>i < node_pool_used s\<close>]
        by (subst vfs_walk.simps) (simp add: Let_def del: dropWhile_eq_Nil_conv split: option.split)
      show ?thesis
      proof (cases "ramfs_finddir (Pool i) (component ?p) s")
        case None
        with w show ?thesis by simp
      next
        case (Some q)
        from finddir_pool [OF assms(1) \<open>i < node_pool_used s\<close> Some] obtain j where
          "j < node_pool_used s" "q = Pool j" by blast
        with w Some IH [of j] show ?thesis by simp
      qed
    qed
  qed
qed

section \<open>The current directory's path\<close>

text \<open>Following a path of good names, one lookup per name.\<close>

fun slashed :: "bytes list \<Rightarrow> bytes" where
  "slashed [] = []"
| "slashed (n # ns) = 47 # n @ slashed ns"

lemma component_name:
  assumes "good_name n" "r = [] \<or> hd r = 47"
  shows "component (n @ r) = n"
proof -
  have "takeWhile (\<lambda>c. c \<noteq> 47) (n @ r) = n"
    using assms by (cases r) (auto simp: good_name_def takeWhile_append takeWhile_eq_all_conv)
  then show ?thesis using assms(1) by (simp add: component_def good_name_def fits_name_def VFS_MAX_NAME_def)
qed

lemma slashed_head: "slashed ns = [] \<or> hd (slashed ns) = 47"
  by (cases ns) simp_all

lemma walk_name:
  assumes "tree_ok s" "i < node_pool_used s" "good_name n"
    and "ramfs_finddir (Pool i) n s = Some (Pool j)"
  shows "vfs_walk (slashed (n # ns)) (Pool i) s = vfs_walk (slashed ns) (Pool j) s"
proof -
  have d: "dropWhile (\<lambda>c. c = 47) (slashed (n # ns)) = n @ slashed ns"
    using assms(3) by (cases n) (auto simp: good_name_def)
  have c: "component (n @ slashed ns) = n" by (rule component_name [OF assms(3) slashed_head])
  have n: "n \<noteq> []" "n \<noteq> [46]" "n \<noteq> [46, 46]" using assms(3) by (simp_all add: good_name_def)
  show ?thesis
    using n finddir_ram [OF assms(1,2)] assms(4)
    by (subst vfs_walk.simps) (simp only: d c Let_def, simp)
qed

lemma walk_end: "vfs_walk [] r s = Some (s, Some r)"
  by (subst vfs_walk.simps) simp

lemma walk_stack:
  assumes "tree_ok s" "i < node_pool_used s" "i < k"
  shows "vfs_walk (slashed (map (\<lambda>r. vname (node r s)) (rev (path_stack k (Some (Pool i)) s)) @ ns)) (Pool 0) s
    = vfs_walk (slashed ns) (Pool i) s"
  using assms(2,3)
proof (induction k arbitrary: i ns)
  case 0
  then show ?case by simp
next
  case (Suc k)
  have root: "root_node s = Pool 0" using assms(1) by (simp add: tree_ok_def)
  show ?case
  proof (cases "i = 0")
    case True
    with root show ?thesis by simp
  next
    case False
    then obtain p where p: "p < i" "vparent (node_pool s ! i) = Some (Pool p)"
      "ramfs_finddir (Pool p) (vname (node_pool s ! i)) s = Some (Pool i)"
      using finddir_child [OF assms(1), of i] Suc.prems(1) by auto
    have g: "good_name (vname (node_pool s ! i))"
      using tree_node [OF assms(1) Suc.prems(1)] False by (simp add: node_ok_def linked_def)
    have "path_stack (Suc k) (Some (Pool i)) s = Pool i # path_stack k (Some (Pool p)) s"
      using False root p(2) by simp
    then show ?thesis
      using Suc.IH [of p "vname (node_pool s ! i) # ns"] p Suc.prems
        walk_name [OF assms(1) _ g p(3), of ns] by simp
  qed
qed

lemma put_path_room:
  assumes "length buf + length (slashed nms) < b"
  shows "put_path b nms buf = buf @ slashed nms"
  using assms by (induction nms arbitrary: buf) (simp_all add: Let_def)

text \<open>Looking only 63 nodes up is enough when the directory is not deeper.\<close>

lemma path_stack_short:
  "length (path_stack k n s) \<le> m \<Longrightarrow> m \<le> k \<Longrightarrow> path_stack m n s = path_stack k n s"
proof (induction m arbitrary: k n)
  case 0
  then show ?case by simp
next
  case (Suc m)
  then obtain k' where k: "k = Suc k'" by (cases k) auto
  show ?case
  proof (cases "n = None \<or> n = Some (root_node s)")
    case True
    then show ?thesis unfolding k by auto
  next
    case False
    then obtain r where "n = Some r" "r \<noteq> root_node s" by auto
    with Suc.IH [of k' "vparent (node r s)"] Suc.prems k show ?thesis by simp
  qed
qed

definition cwd_names :: "vfs \<Rightarrow> bytes list" where
  "cwd_names s = map (\<lambda>r. vname (node r s)) (rev (path_stack VFS_MAX_NODES (Some (cwd_node s)) s))"

lemma cwd_path_resolves:
  assumes ok: "tree_ok s" and d: "length (cwd_names s) \<le> 63" and b: "length (slashed (cwd_names s)) + 1 < b"
  shows "\<exists>path. vfs_get_cwd_path b s = Inr (Some path) \<and> vfs_resolve_path path s = Some (s, Some (cwd_node s))"
proof -
  obtain c where c: "c < node_pool_used s" "cwd_node s = Pool c" using ok by (auto simp: tree_ok_def)
  have "c < VFS_MAX_NODES" using c(1) ok by (simp add: tree_ok_def)
  from walk_stack [OF ok c(1) this, of "[]"]
  have w: "vfs_walk (slashed (cwd_names s)) (Pool 0) s = Some (s, Some (Pool c))"
    using c(2) by (simp add: cwd_names_def walk_end)
  let ?st = "path_stack 63 (Some (cwd_node s)) s"
  have st: "map (\<lambda>r. vname (node r s)) (rev ?st) = cwd_names s"
    using path_stack_short [of VFS_MAX_NODES "Some (cwd_node s)" s 63] d
    by (simp add: cwd_names_def VFS_MAX_NODES_def)
  have root: "root_node s = Pool 0" using ok by (simp add: tree_ok_def)
  show ?thesis
  proof (cases "cwd_names s")
    case Nil
    then have "?st = []" using st by simp
    moreover have "vfs_walk [] (Pool 0) s = Some (s, Some (Pool c))" using w Nil by simp
    ultimately show ?thesis using b c(2) root
      by (auto simp: vfs_get_cwd_path_def vfs_resolve_path_def)
  next
    case (Cons n ns)
    then obtain r rs where e: "?st = r # rs" using st by (cases ?st) auto
    have "put_path b (cwd_names s) [] = slashed (cwd_names s)" using put_path_room [of "[]" "cwd_names s" b] b by simp
    then have g: "vfs_get_cwd_path b s = Inr (Some (slashed (cwd_names s)))"
      using b e st by (auto simp: vfs_get_cwd_path_def)
    have "vfs_walk (tl (slashed (cwd_names s))) (Pool 0) s = vfs_walk (slashed (cwd_names s)) (Pool 0) s"
      unfolding Cons by (subst (1 2) vfs_walk.simps) simp
    with w g root c(2) Cons show ?thesis by (simp add: vfs_resolve_path_def)
  qed
qed

section \<open>Operations keep the tree\<close>

lemma heap_change:
  "tree_ok s \<Longrightarrow> heap_rep h hs \<Longrightarrow> coalesced hs \<Longrightarrow> tree_ok (s\<lparr>vfat := (vfat s)\<lparr>fheap := h\<rparr>\<rparr>)"
proof -
  assume a: "tree_ok s" "heap_rep h hs" "coalesced hs"
  let ?s = "s\<lparr>vfat := (vfat s)\<lparr>fheap := h\<rparr>\<rparr>"
  have nd: "node c ?s = node c s" for c by (cases c) (simp_all add: node_def)
  have "node_ok i ?s = node_ok i s" for i
    unfolding node_ok_def linked_def child_names_def nd by simp
  then show "tree_ok ?s" using a by (auto simp: tree_ok_def)
qed

lemma same_shape:
  assumes ok: "tree_ok s" and i: "i < node_pool_used s" and f: "file_ok n"
    and n: "vname n = vname (node_pool s ! i)" "vtype n = vtype (node_pool s ! i)"
      "vops n = vops (node_pool s ! i)" "vchildren n = vchildren (node_pool s ! i)"
      "vparent n = vparent (node_pool s ! i)"
  shows "tree_ok (s\<lparr>node_pool := (node_pool s)[i := n]\<rparr>)" (is "tree_ok ?s")
proof -
  have len: "i < length (node_pool s)" using ok i by (simp add: tree_ok_def)
  have g: "vname (node_pool ?s ! j) = vname (node_pool s ! j)" "vtype (node_pool ?s ! j) = vtype (node_pool s ! j)"
    "vops (node_pool ?s ! j) = vops (node_pool s ! j)" "vchildren (node_pool ?s ! j) = vchildren (node_pool s ! j)"
    "vparent (node_pool ?s ! j) = vparent (node_pool s ! j)" for j
    using n len by (auto simp: nth_list_update)
  have nd: "vname (node c ?s) = vname (node c s)" for c
    using g(1) by (cases c) (simp_all add: node_def)
  have "node_ok j ?s" if "j < node_pool_used s" for j
  proof -
    have "file_ok (node_pool ?s ! j)"
      using f len tree_node [OF ok that] by (auto simp: nth_list_update node_ok_def)
    with tree_node [OF ok that] show ?thesis
      unfolding node_ok_def linked_def child_names_def g nd by simp
  qed
  then show ?thesis using ok unfolding tree_ok_def g by simp
qed

lemma file_ok_children [simp]: "file_ok (n\<lparr>vchildren := cs\<rparr>) = file_ok n"
  by (cases "vdata n") (simp_all add: file_ok_def)

lemma add_keeps_tree:
  assumes ok: "tree_ok s" and r: "r < node_pool_used s" and nm: "good_name nm"
  shows "\<exists>s' res. ramfs_add ty (Pool r) nm s = Some (s', res) \<and> tree_ok s'"
proof (cases "vtype (node_pool s ! r) \<noteq> VFS_DIR \<or> VFS_MAX_CHILDREN \<le> length (vchildren (node_pool s ! r))
    \<or> ramfs_finddir (Pool r) nm s \<noteq> None \<or> VFS_MAX_NODES \<le> node_pool_used s")
  case True
  then show ?thesis using ok by (auto simp: ramfs_add_def alloc_node_def)
next
  case False
  let ?c = "node_pool_used s"
  let ?new = "empty_node\<lparr>vname := nm, vtype := ty, vops := Some RamOps, vparent := Some (Pool r)\<rparr>"
  let ?d = "(node_pool s ! r)\<lparr>vchildren := vchildren (node_pool s ! r) @ [Pool ?c]\<rparr>"
  let ?s = "s\<lparr>node_pool_used := ?c + 1, node_pool := (node_pool s)[?c := ?new, r := ?d]\<rparr>"
  have len: "?c < length (node_pool s)" "r < length (node_pool s)" "r \<noteq> ?c"
    using ok False r by (auto simp: tree_ok_def)
  have "ramfs_add ty (Pool r) nm s = Some (?s, Some (Pool ?c))"
    using False nm len tree_ops [OF ok r]
    by (simp add: ramfs_add_def alloc_node_def good_name_def Let_def)
  have old: "node_pool ?s ! j = node_pool s ! j" if "j \<noteq> ?c" "j \<noteq> r" for j
    using that by simp
  have at: "node_pool ?s ! ?c = ?new" "node_pool ?s ! r = ?d" using len by simp_all
  have g: "vname (node_pool ?s ! j) = vname (node_pool s ! j)" "vtype (node_pool ?s ! j) = vtype (node_pool s ! j)"
    "vops (node_pool ?s ! j) = vops (node_pool s ! j)" "vparent (node_pool ?s ! j) = vparent (node_pool s ! j)"
    "file_ok (node_pool ?s ! j) = file_ok (node_pool s ! j)"
    "set (vchildren (node_pool s ! j)) \<subseteq> set (vchildren (node_pool ?s ! j))"
    if "j < ?c" for j using that len by (auto simp: nth_list_update)
  have names: "map (\<lambda>c. vname (node c ?s)) (vchildren (node_pool s ! j)) = child_names j s" if "j < ?c" for j
    using tree_node [OF ok that] g(1) by (auto simp: child_names_def node_ok_def)
  have fresh: "nm \<notin> set (child_names r s)"
    using False by (auto simp: ramfs_finddir_def find_None_iff child_names_def split: if_splits)
  have "node_ok j ?s" if j: "j < ?c + 1" for j
  proof (cases "j = ?c")
    case True
    have "linked ?c ?s" using r nm at g(2) [OF r] False by (auto simp: linked_def)
    then show ?thesis using True at(1) r by (simp add: node_ok_def child_names_def file_ok_def empty_node_def)
  next
    case False
    then have j': "j < ?c" using j by simp
    note n = tree_node [OF ok j']
    have "linked j ?s" if "j \<noteq> 0"
    proof -
      have "linked j s" using n that by (simp add: node_ok_def)
      then obtain p where "p < j" "vparent (node_pool s ! j) = Some (Pool p)"
        "Pool j \<in> set (vchildren (node_pool s ! p))" "vtype (node_pool s ! p) = VFS_DIR"
        "good_name (vname (node_pool s ! j))" by (auto simp: linked_def)
      then show ?thesis using g [of j] g [of p] j' unfolding linked_def by auto
    qed
    moreover have "distinct (child_names j ?s) \<and> (\<forall>c \<in> set (vchildren (node_pool ?s ! j)). \<exists>k < ?c + 1. c = Pool k)"
    proof (cases "j = r")
      case True
      have "child_names r ?s = child_names r s @ [nm]"
        using names [OF r] at len by (simp add: child_names_def)
      with True n fresh at(2) show ?thesis by (auto simp: node_ok_def)
    next
      case False
      then have "child_names j ?s = child_names j s" using names [OF j'] old [of j] j' by (simp add: child_names_def)
      with n old [of j] j' False show ?thesis by (auto simp: node_ok_def)
    qed
    ultimately show ?thesis using n g [OF j'] by (auto simp: node_ok_def)
  qed
  moreover have "0 < ?c" using ok by (simp add: tree_ok_def)
  ultimately have "tree_ok ?s" using ok False len g(2) [of 0] g(2) by (auto simp: tree_ok_def)
  with \<open>ramfs_add ty (Pool r) nm s = _\<close> show ?thesis by blast
qed

section \<open>Files are byte strings\<close>

definition fbytes :: "vnode \<Rightarrow> bytes" where
  "fbytes n = (case vdata n of FileData d \<Rightarrow> take (unat (vsize n)) d | _ \<Rightarrow> [])"

text \<open>Overwriting part of a byte string, filling a gap with zeros.\<close>

definition splice :: "nat \<Rightarrow> bytes \<Rightarrow> bytes \<Rightarrow> bytes" where
  "splice off b c = take off (c @ replicate (off - length c) 0) @ b @ drop (off + length b) c"

lemma length_patch [simp]: "i + length b \<le> length d \<Longrightarrow> length (patch i b d) = length d"
  by (simp add: patch_def)

lemma zeros_take:
  assumes "\<forall>x \<in> set (drop z d). x = 0" "z \<le> k" "k \<le> length d"
  shows "take k d = take z d @ replicate (k - z) (0 :: u8)"
proof -
  have "take k d = take z d @ take (k - z) (drop z d)" using assms(2) by (metis le_add_diff_inverse take_add)
  moreover have "take (k - z) (drop z d) = replicate (k - z) 0"
    using assms by (intro replicate_eqI) (auto dest: in_set_takeD)
  ultimately show ?thesis by simp
qed

lemma patch_bytes:
  assumes z: "\<forall>x \<in> set (drop z d). x = 0" "z \<le> length d" and b: "off + length b \<le> length d"
  shows "take (max z (off + length b)) (patch off b d) = splice off b (take z d)"
    "\<forall>x \<in> set (drop (max z (off + length b)) (patch off b d)). x = 0"
proof -
  let ?e = "off + length b"
  have t: "take off d = take off (take z d @ replicate (off - z) 0)"
  proof (cases "z \<le> off")
    case True
    have "off \<le> length d" using b by simp
    with zeros_take [OF z(1) True] True z(2) show ?thesis by simp
  next
    case False
    then show ?thesis by (simp add: min_def)
  qed
  have "length (take off d @ b) = ?e" using b by simp
  then have "take (max z ?e) (patch off b d) = take off d @ b @ take (max z ?e - ?e) (drop ?e d)"
    by (simp add: patch_def)
  also have "take (max z ?e - ?e) (drop ?e d) = drop ?e (take z d)"
    by (cases "?e \<le> z") (simp_all add: drop_take)
  finally show "take (max z ?e) (patch off b d) = splice off b (take z d)"
    using z(2) by (simp only: splice_def t length_take min_absorb2)
  have "drop (max z (off + length b)) (patch off b d) = drop (max z (off + length b)) d"
    using b by (cases "z \<le> off + length b") (auto simp: patch_def)
  moreover have "set (drop (max z (off + length b)) d) \<subseteq> set (drop z d)" by (rule set_drop_subset_set_drop) simp
  ultimately show "\<forall>x \<in> set (drop (max z (off + length b)) (patch off b d)). x = 0" using z(1) by auto
qed

lemma unat_max_data [simp]: "unat VFS_MAX_FILE_DATA = 4096"
  by (simp add: VFS_MAX_FILE_DATA_def)

lemma fbytes_length: "file_ok n \<Longrightarrow> length (fbytes n) = unat (vsize n)"
  by (auto simp: file_ok_def fbytes_def split: node_data.splits)

text \<open>One store into the data block of a file; a file without a block reads as zeros.\<close>

lemma store_file:
  assumes ok: "tree_ok s" and i: "i < node_pool_used s" and len: "length d = 4096"
    and z: "\<forall>x \<in> set (drop (unat (vsize (node_pool s ! i))) d). x = 0" "unat (vsize (node_pool s ! i)) \<le> 4096"
    and old: "fbytes (node_pool s ! i) = take (unat (vsize (node_pool s ! i))) d"
    and m: "unat m \<le> length buf" "unat fin = unat off + unat m" "unat fin \<le> 4096"
  shows "\<exists>s'. ramfs_store (Pool i) d off m buf fin s = Some (s', int (unat m)) \<and> tree_ok s'
    \<and> fbytes (node_pool s' ! i) = splice (unat off) (take (unat m) buf) (fbytes (node_pool s ! i))
    \<and> (\<forall>j. j \<noteq> i \<longrightarrow> node_pool s' ! j = node_pool s ! j) \<and> node_pool_used s' = node_pool_used s
    \<and> root_node s' = root_node s \<and> vtype (node_pool s' ! i) = vtype (node_pool s ! i)"
proof -
  let ?n = "node_pool s ! i" and ?b = "take (unat m) buf"
  let ?z = "if vsize ?n < fin then fin else vsize ?n"
  let ?n' = "?n\<lparr>vdata := FileData (patch (unat off) ?b d), vsize := ?z\<rparr>"
  have lb: "length ?b = unat m" using m(1) by simp
  have uz: "unat ?z = max (unat (vsize ?n)) (unat off + length ?b)"
    using m(2) lb by (simp add: word_less_nat_alt max_def)
  have room: "unat off + length ?b \<le> length d" using m(2,3) lb len by simp
  have zl: "unat (vsize ?n) \<le> length d" using z(2) len by simp
  note p = patch_bytes [OF z(1) zl room, folded uz]
  have f: "file_ok ?n'" "fbytes ?n' = splice (unat off) ?b (fbytes ?n)"
    using p len room z(2) m(3) uz old by (auto simp: file_ok_def fbytes_def)
  have "i < length (node_pool s)" using ok i by (simp add: tree_ok_def)
  moreover have "sint m = int (unat m)"
    using m(2,3) by (intro sint_small32) simp
  moreover have "\<not> length d < unat off + unat m" "\<not> length buf < unat m" using room lb m(1) by simp_all
  ultimately show ?thesis
    using same_shape [OF ok i f(1)] f(2) by (simp add: ramfs_store_def Let_def)
qed

text \<open>What \<^verbatim>\<open>vfs_write\<close> does to a RAM file, bounds and the lack of memory included.\<close>

definition written :: "u32 \<Rightarrow> u32 \<Rightarrow> nat" where
  "written off sz = min (unat sz) (4096 - unat off)"

lemma write_file:
  assumes ok: "tree_ok s" and i: "i < node_pool_used s" and ty: "vtype (node_pool s ! i) = VFS_FILE"
    and len: "length buf = unat sz" and nw: "unat off + unat sz < 2 ^ 32"
  shows "\<exists>s' k. vfs_write (Pool i) buf off sz s = Some (s', k) \<and> tree_ok s' \<and> node_pool_used s' = node_pool_used s
    \<and> (k = -1 \<and> node_pool s' = node_pool s
      \<or> k = int (written off sz)
        \<and> fbytes (node_pool s' ! i) = splice (unat off) (take (written off sz) buf) (fbytes (node_pool s ! i))
        \<and> (\<forall>j. j \<noteq> i \<longrightarrow> node_pool s' ! j = node_pool s ! j)
        \<and> vtype (node_pool s' ! i) = VFS_FILE)"
proof -
  let ?n = "node_pool s ! i"
  have u: "unat (off + sz) = unat off + unat sz" using nw by (intro unat_plus_if) simp
  have over: "VFS_MAX_FILE_DATA < off + sz \<longleftrightarrow> 4096 < unat off + unat sz"
    by (simp add: word_less_nat_alt u)
  have le: "VFS_MAX_FILE_DATA \<le> off \<longleftrightarrow> 4096 \<le> unat off" by (simp add: word_le_nat_alt)
  let ?m = "if VFS_MAX_FILE_DATA < off + sz then VFS_MAX_FILE_DATA - off else sz"
  let ?fin = "if VFS_MAX_FILE_DATA < off + sz then VFS_MAX_FILE_DATA else off + sz"
  have fo: "file_ok ?n" using tree_node [OF ok i] by (simp add: node_ok_def)
  have w: "vfs_write (Pool i) buf off sz s = ramfs_write (Pool i) buf off sz s"
    using tree_ops [OF ok i] by (simp add: vfs_write_def)
  show ?thesis
  proof (cases "4096 < unat off + unat sz \<and> 4096 \<le> unat off")
    case True
    then show ?thesis using ok ty w by (simp add: ramfs_write_def over le)
  next
    case False
    have um: "unat ?m = written off sz" and uf: "unat ?fin = unat off + written off sz" and f4: "unat ?fin \<le> 4096"
    proof -
      have "unat (VFS_MAX_FILE_DATA - off) = 4096 - unat off" if "unat off \<le> 4096"
        using that by (subst unat_minus_le) (simp_all add: word_le_nat_alt)
      then show "unat ?m = written off sz" using False by (auto simp: over written_def)
      show "unat ?fin = unat off + written off sz" "unat ?fin \<le> 4096"
        using False u by (auto simp: over written_def)
    qed
    have ml: "unat ?m \<le> length buf" using um len by (simp add: written_def)
    have step: "ramfs_write (Pool i) buf off sz s = (case vdata ?n of
          NoData \<Rightarrow> do {
            (s1, p) \<leftarrow> vkmalloc VFS_MAX_FILE_DATA s;
            if p = 0 then Some (s1, -1)
            else ramfs_store (Pool i) (replicate (unat VFS_MAX_FILE_DATA) 0) off ?m buf ?fin s1
          }
        | FileData d \<Rightarrow> ramfs_store (Pool i) d off ?m buf ?fin s
        | DiskEntry e \<Rightarrow> None)"
      using ty False over le unfolding ramfs_write_def Let_def node_Pool by simp
    show ?thesis
    proof (cases "vdata ?n")
      case (FileData d)
      then have d: "length d = 4096" "\<forall>x \<in> set (drop (unat (vsize ?n)) d). x = 0" "unat (vsize ?n) \<le> 4096"
        "fbytes ?n = take (unat (vsize ?n)) d" using fo by (auto simp: file_ok_def fbytes_def)
      have "unat ?fin = unat off + unat ?m" using uf um by simp
      from store_file [OF ok i d ml this f4] show ?thesis
        using w step FileData ty unfolding um by auto
    next
      case NoData
      then have z: "vsize ?n = 0" "fbytes ?n = []" using fo by (simp_all add: file_ok_def fbytes_def)
      obtain hs where hs: "heap_rep (fheap (vfat s)) hs" "coalesced hs" using ok by (auto simp: tree_ok_def)
      have nz: "VFS_MAX_FILE_DATA \<noteq> 0" "unat VFS_MAX_FILE_DATA + 7 < 2 ^ 32" by (simp_all add: VFS_MAX_FILE_DATA_def)
      obtain h p where k: "kmalloc (fheap (vfat s)) VFS_MAX_FILE_DATA = Some (h, p)"
        "\<exists>hs'. heap_rep h hs' \<and> coalesced hs'"
        using kmalloc_block [OF hs nz] hs by blast
      let ?s = "s\<lparr>vfat := (vfat s)\<lparr>fheap := h\<rparr>\<rparr>"
      have ok': "tree_ok ?s" using heap_change [OF ok] k(2) by blast
      have v: "vkmalloc VFS_MAX_FILE_DATA s = Some (?s, p)" using k(1) by (simp add: vkmalloc_def)
      show ?thesis
      proof (cases "p = 0")
        case True
        then show ?thesis using w step NoData v ok' by simp
      next
        case False
        have "unat ?fin = unat off + unat ?m" using uf um by simp
        from store_file [of ?s i "replicate 4096 0", OF ok' _ _ _ _ _ ml this f4] i z NoData
        show ?thesis using w step v False ty unfolding um by (auto simp: fbytes_def)
      qed
    next
      case (DiskEntry e)
      then show ?thesis using fo by (simp add: file_ok_def)
    qed
  qed
qed

lemma read_file:
  assumes ok: "tree_ok s" and i: "i < node_pool_used s" and ty: "vtype (node_pool s ! i) = VFS_FILE"
  shows "vfs_read (Pool i) off sz s =
    (let bs = take (unat sz) (drop (unat off) (fbytes (node_pool s ! i))) in Some (s, int (length bs), bs))"
proof -
  let ?n = "node_pool s ! i"
  have fo: "file_ok ?n" using tree_node [OF ok i] by (simp add: node_ok_def)
  have fl: "length (fbytes ?n) = unat (vsize ?n)" by (rule fbytes_length [OF fo])
  have r: "vfs_read (Pool i) off sz s = map_option (\<lambda>(k, bs). (s, k, bs)) (ramfs_read (Pool i) off sz s)"
    using tree_ops [OF ok i] by (simp add: vfs_read_def)
  show ?thesis
  proof (cases "vsize ?n \<le> off")
    case True
    then show ?thesis using r ty fl by (simp add: ramfs_read_def word_le_nat_alt)
  next
    case False
    then have o: "unat off < unat (vsize ?n)" by (simp add: word_le_nat_alt)
    then obtain d where d: "vdata ?n = FileData d" "length d = 4096" "unat (vsize ?n) \<le> 4096"
      using fo by (auto simp: file_ok_def split: node_data.splits)
    let ?m = "if vsize ?n - off < sz then vsize ?n - off else sz"
    have "unat (vsize ?n - off) = unat (vsize ?n) - unat off"
      using o by (intro unat_minus_le) (simp add: word_le_nat_alt)
    then have um: "unat ?m = min (unat sz) (unat (vsize ?n) - unat off)" by (auto simp: word_less_nat_alt)
    have t: "take (unat ?m) (drop (unat off) d) = take (unat sz) (drop (unat off) (fbytes ?n))"
      using um d(1) by (simp add: fbytes_def drop_take)
    have l: "length (take (unat ?m) (drop (unat off) d)) = unat ?m" using um d(2,3) o by simp
    have "sint ?m = int (unat ?m)" by (rule sint_small32) (use um d(3) in simp)
    then have "ramfs_read (Pool i) off sz s = Some (int (unat ?m), take (unat ?m) (drop (unat off) d))"
      using False ty d um o unfolding ramfs_read_def Let_def node_Pool by simp
    then show ?thesis using r t l by (simp add: Let_def del: if_split)
  qed
qed

section \<open>Runs of operations\<close>

datatype vfs_op = Mkdir bytes bytes | Create bytes bytes | Write bytes bytes u32 | Chdir bytes

text \<open>An operation on the node a path leads to; nothing happens when it leads nowhere.\<close>

definition at_path :: "bytes \<Rightarrow> (vref \<Rightarrow> vfs \<Rightarrow> vfs option) \<Rightarrow> vfs \<Rightarrow> vfs option" where
  "at_path path f s = (case vfs_resolve_path path s of
     None \<Rightarrow> None | Some (s1, None) \<Rightarrow> Some s1 | Some (s1, Some r) \<Rightarrow> f r s1)"

fun vfs_step :: "vfs_op \<Rightarrow> vfs \<Rightarrow> vfs option" where
  "vfs_step (Mkdir path nm) = at_path path (\<lambda>r s. map_option fst (vfs_mkdir r nm s))"
| "vfs_step (Create path nm) = at_path path (\<lambda>r s. map_option fst (vfs_create r nm s))"
| "vfs_step (Write path buf off) = at_path path (\<lambda>r s. map_option fst (vfs_write r buf off (of_nat (length buf)) s))"
| "vfs_step (Chdir path) = (\<lambda>s. map_option fst (vfs_chdir path s))"

fun vfs_run :: "vfs_op list \<Rightarrow> vfs \<Rightarrow> vfs option" where
  "vfs_run [] s = Some s"
| "vfs_run (x # xs) s = (case vfs_step x s of None \<Rightarrow> None | Some s1 \<Rightarrow> vfs_run xs s1)"

text \<open>New nodes get proper names, and no write runs past the 32-bit offsets.\<close>

fun op_ok :: "vfs_op \<Rightarrow> bool" where
  "op_ok (Mkdir path nm) = good_name nm"
| "op_ok (Create path nm) = good_name nm"
| "op_ok (Write path buf off) = (unat off + length buf < 2 ^ 32)"
| "op_ok (Chdir path) = True"

lemma resolve_pool:
  assumes "tree_ok s"
  shows "vfs_resolve_path path s = Some (s, None)
    \<or> (\<exists>j < node_pool_used s. vfs_resolve_path path s = Some (s, Some (Pool j)))"
proof -
  obtain c where c: "c < node_pool_used s" "cwd_node s = Pool c" using assms by (auto simp: tree_ok_def)
  have r: "root_node s = Pool 0" "0 < node_pool_used s" using assms by (simp_all add: tree_ok_def)
  show ?thesis
    using walk_pool [OF assms c(1), of path] walk_pool [OF assms r(2), of "tl path"] c r
    by (cases path) (auto simp: vfs_resolve_path_def)
qed

lemma at_path_ok:
  assumes "tree_ok s" "\<And>i. i < node_pool_used s \<Longrightarrow> \<exists>s'. f (Pool i) s = Some s' \<and> tree_ok s'"
  shows "\<exists>s'. at_path path f s = Some s' \<and> tree_ok s'"
  using resolve_pool [OF assms(1), of path] assms by (auto simp: at_path_def)

lemma add_step:
  assumes "tree_ok s" "i < node_pool_used s" "good_name nm"
  shows "\<exists>s'. map_option fst (vfs_mkdir (Pool i) nm s) = Some s' \<and> tree_ok s'"
    "\<exists>s'. map_option fst (vfs_create (Pool i) nm s) = Some s' \<and> tree_ok s'"
proof -
  have e: "vfs_mkdir (Pool i) nm s = ramfs_add VFS_DIR (Pool i) nm s"
    "vfs_create (Pool i) nm s = ramfs_add VFS_FILE (Pool i) nm s"
    using tree_ops [OF assms(1,2)] by (simp_all add: vfs_mkdir_def vfs_create_def ramfs_mkdir_def ramfs_create_def)
  show "\<exists>s'. map_option fst (vfs_mkdir (Pool i) nm s) = Some s' \<and> tree_ok s'"
    using add_keeps_tree [OF assms, of VFS_DIR] unfolding e by auto
  show "\<exists>s'. map_option fst (vfs_create (Pool i) nm s) = Some s' \<and> tree_ok s'"
    using add_keeps_tree [OF assms, of VFS_FILE] unfolding e by auto
qed

lemma write_step:
  assumes "tree_ok s" "i < node_pool_used s" "unat off + length buf < 2 ^ 32"
  shows "\<exists>s'. map_option fst (vfs_write (Pool i) buf off (of_nat (length buf)) s) = Some s' \<and> tree_ok s'"
proof (cases "vtype (node_pool s ! i) = VFS_FILE")
  case True
  have "unat (of_nat (length buf) :: u32) = length buf" using assms(3) by (intro unat_of_nat_lt) simp
  with write_file [OF assms(1,2) True, of buf "of_nat (length buf)" off] assms(3) show ?thesis by auto
next
  case False
  then show ?thesis using assms(1) tree_ops [OF assms(1,2)] by (simp add: vfs_write_def ramfs_write_def)
qed

lemma chdir_step:
  assumes "tree_ok s"
  shows "\<exists>s'. map_option fst (vfs_chdir path s) = Some s' \<and> tree_ok s'"
  using resolve_pool [OF assms, of path]
proof
  assume "\<exists>j < node_pool_used s. vfs_resolve_path path s = Some (s, Some (Pool j))"
  then obtain j where j: "j < node_pool_used s" "vfs_resolve_path path s = Some (s, Some (Pool j))" by blast
  let ?s = "s\<lparr>cwd_node := Pool j\<rparr>"
  have nd: "node c ?s = node c s" for c by (cases c) (simp_all add: node_def)
  have "node_ok i ?s = node_ok i s" for i
    unfolding node_ok_def linked_def child_names_def nd by simp
  then have "tree_ok ?s" if "vtype (node_pool s ! j) = VFS_DIR"
    using assms j(1) that by (auto simp: tree_ok_def)
  then show ?thesis using j assms by (simp add: vfs_chdir_def)
qed (use assms in \<open>simp add: vfs_chdir_def\<close>)

lemma step_ok: "tree_ok s \<Longrightarrow> op_ok x \<Longrightarrow> \<exists>s'. vfs_step x s = Some s' \<and> tree_ok s'"
  using at_path_ok [of s] add_step [of s] write_step [of s] chdir_step [of s] by (cases x) auto

lemma run_ok: "tree_ok s \<Longrightarrow> \<forall>x \<in> set xs. op_ok x \<Longrightarrow> \<exists>s'. vfs_run xs s = Some s' \<and> tree_ok s'"
proof (induction xs arbitrary: s)
  case (Cons x xs)
  then obtain s1 where "vfs_step x s = Some s1" "tree_ok s1" using step_ok [of s x] by auto
  with Cons show ?case by simp
qed simp

definition boot_ok :: "vfs \<Rightarrow> bool" where
  "boot_ok s \<longleftrightarrow> length (node_pool s) = VFS_MAX_NODES \<and> (\<exists>hs. heap_rep (fheap (vfat s)) hs \<and> coalesced hs)"

lemma init_ok: "boot_ok s \<Longrightarrow> tree_ok (vfs_init s)"
  by (auto simp: boot_ok_def tree_ok_def vfs_init_def Let_def node_ok_def VFS_MAX_NODES_def child_names_def
      file_ok_def empty_node_def)

section \<open>Properties\<close>


definition demo_vfs :: vfs where
  "demo_vfs = \<lparr>node_pool = replicate 128 empty_node, node_pool_used = 0, disk_nodes = (\<lambda>_. empty_node),
     root_node = Pool 0, cwd_node = Pool 0, vfat = demo_fat\<lparr>fheap := demo_heap\<rparr>, fat32_mounted = False\<rparr>"

lemma demo_boot: "boot_ok demo_vfs"
  using demo_heap_rep by (auto simp: boot_ok_def demo_vfs_def VFS_MAX_NODES_def)



definition demo_file :: vfs where
  "demo_file = (let s = vfs_init demo_vfs in
     s\<lparr>node_pool_used := 2, node_pool := (node_pool s)
        [0 := (node_pool s ! 0)\<lparr>vchildren := [Pool 1]\<rparr>,
         1 := empty_node\<lparr>vname := [97], vops := Some RamOps, vparent := Some (Pool 0),
                          vdata := FileData (replicate 4096 0)\<rparr>]\<rparr>)"

lemma demo_file_ok: "tree_ok demo_file" "1 < node_pool_used demo_file" "vtype (node_pool demo_file ! 1) = VFS_FILE"
  using demo_heap_rep
  by (auto simp: demo_file_def tree_ok_def vfs_init_def Let_def node_ok_def VFS_MAX_NODES_def child_names_def
      file_ok_def empty_node_def demo_vfs_def linked_def good_name_def fits_name_def VFS_MAX_NAME_def
      less_2_cases_iff)


end
