(* ===== verification/Elf.thy ===== *)
theory Elf
  imports Paging
begin

unbundle bit_operations_syntax

text \<open>
  The ELF loader (\<^verbatim>\<open>kernel/elf_loader.cpp\<close>, \<^verbatim>\<open>kernel/elf_loader.h\<close>) on memory as the processor
  sees it: the page tables and the bytes of physical memory, which the loader reaches through
  the tables. An access to an address nothing is mapped at, and a read outside the file's
  buffer, are the fault \<open>OutOfBounds\<close>. The page tables' own frames are kept apart in the model
  of paging, so segments are written to the other frames.
\<close>

section \<open>Memory through the page tables\<close>

record machine =
  mvm :: vm
  phys :: "u32 \<Rightarrow> u8"

definition load_byte :: "machine \<Rightarrow> u32 \<Rightarrow> u8" where
  "load_byte m v = phys m (paging_get_physaddr v (mvm m))"

fun write_virt :: "u32 \<Rightarrow> bytes \<Rightarrow> machine \<Rightarrow> fault + machine" where
  "write_virt v [] m = Inr m"
| "write_virt v (b # bs) m =
     (let p = paging_get_physaddr v (mvm m) in
      if p = 0 then Inl OutOfBounds
      else write_virt (v + 1) bs (m\<lparr>phys := (phys m)(p := b)\<rparr>))"

section \<open>The file's headers\<close>

definition ELF_MAGIC :: u32 where "ELF_MAGIC = 0x464C457F"
definition ET_EXEC :: u16 where "ET_EXEC = 2"
definition EM_386 :: u16 where "EM_386 = 3"
definition PT_LOAD :: u32 where "PT_LOAD = 1"
definition PF_W :: u32 where "PF_W = 2"

definition SIZEOF_EHDR :: u32 where "SIZEOF_EHDR = 52"
definition SIZEOF_PHDR :: u32 where "SIZEOF_PHDR = 32"

definition e_type :: "bytes \<Rightarrow> u16" where "e_type d = get16 d 16"
definition e_machine :: "bytes \<Rightarrow> u16" where "e_machine d = get16 d 18"
definition e_entry :: "bytes \<Rightarrow> u32" where "e_entry d = get32 d 24"
definition e_phoff :: "bytes \<Rightarrow> u32" where "e_phoff d = get32 d 28"
definition e_phentsize :: "bytes \<Rightarrow> u16" where "e_phentsize d = get16 d 42"
definition e_phnum :: "bytes \<Rightarrow> u16" where "e_phnum d = get16 d 44"

record phdr =
  p_type :: u32
  p_offset :: u32
  p_vaddr :: u32
  p_filesz :: u32
  p_memsz :: u32
  p_flags :: u32

definition read_phdr :: "bytes \<Rightarrow> nat \<Rightarrow> fault + phdr" where
  "read_phdr d i =
     (let o' = unat (e_phoff d + of_nat i * ucast (e_phentsize d)) in
      if length d < o' + 32 then Inl OutOfBounds
      else Inr \<lparr>p_type = get32 d o', p_offset = get32 d (o' + 4), p_vaddr = get32 d (o' + 8),
                p_filesz = get32 d (o' + 16), p_memsz = get32 d (o' + 20), p_flags = get32 d (o' + 24)\<rparr>)"

record elf_result =
  elf_ok :: bool
  elf_entry :: u32
  load_base :: u32
  load_end :: u32

definition align_down :: "u32 \<Rightarrow> u32 \<Rightarrow> u32" where
  "align_down v a = v AND NOT (a - 1)"

definition align_up :: "u32 \<Rightarrow> u32 \<Rightarrow> u32" where
  "align_up v a = (v + a - 1) AND NOT (a - 1)"

definition loadable :: "phdr \<Rightarrow> bool" where
  "loadable ph \<longleftrightarrow> p_type ph = PT_LOAD \<and> p_memsz ph \<noteq> 0"

section \<open>Loading\<close>

text \<open>The first pass: the lowest and the highest address.\<close>

definition span_step :: "bytes \<Rightarrow> nat \<Rightarrow> elf_result \<Rightarrow> fault + elf_result" where
  "span_step d i res = bindE (read_phdr d i) (\<lambda>ph.
     if \<not> loadable ph then Inr res
     else
       let lo = align_down (p_vaddr ph) 4096; hi = align_up (p_vaddr ph + p_memsz ph) 4096 in
       Inr (res\<lparr>load_base := (if lo < load_base res then lo else load_base res),
                load_end := (if load_end res < hi then hi else load_end res)\<rparr>))"

text \<open>The second pass for one segment; \<open>False\<close> is the early return.\<close>

definition seg_flags :: "phdr \<Rightarrow> u32" where
  "seg_flags ph = (PAGE_PRESENT OR PAGE_USER) OR (if p_flags ph AND PF_W \<noteq> 0 then PAGE_WRITE else 0)"

definition copy_file :: "bytes \<Rightarrow> u32 \<Rightarrow> phdr \<Rightarrow> machine \<Rightarrow> fault + (machine \<times> bool)" where
  "copy_file d sz ph m =
     (if p_filesz ph = 0 then Inr (m, True)
      else if sz < p_offset ph + p_filesz ph then Inr (m, False)
      else if length d < unat (p_offset ph) + unat (p_filesz ph) then Inl OutOfBounds
      else bindE (write_virt (p_vaddr ph) (take (unat (p_filesz ph)) (drop (unat (p_offset ph)) d)) m)
             (\<lambda>m1. Inr (m1, True)))"

definition zero_bss :: "phdr \<Rightarrow> machine \<Rightarrow> fault + machine" where
  "zero_bss ph m =
     (if p_filesz ph < p_memsz ph
      then write_virt (p_vaddr ph + p_filesz ph) (replicate (unat (p_memsz ph - p_filesz ph)) 0) m
      else Inr m)"

definition load_segment :: "bytes \<Rightarrow> u32 \<Rightarrow> phdr \<Rightarrow> machine \<Rightarrow> fault + (machine \<times> bool)" where
  "load_segment d sz ph m =
     (if \<not> loadable ph then Inr (m, True)
      else
        let page_base = align_down (p_vaddr ph) 4096;
            page_end = align_up (p_vaddr ph + p_memsz ph) 4096 in
        bindE (paging_alloc_region page_base (page_end - page_base) (seg_flags ph) (mvm m)) (\<lambda>(v, ok).
          let m1 = m\<lparr>mvm := v\<rparr> in
          if \<not> ok then Inr (m1, False)
          else bindE (copy_file d sz ph m1) (\<lambda>(m2, ok).
            if \<not> ok then Inr (m2, False)
            else bindE (zero_bss ph m2) (\<lambda>m3. Inr (m3, True)))))"

fun load_segments :: "bytes \<Rightarrow> u32 \<Rightarrow> nat list \<Rightarrow> machine \<Rightarrow> fault + (machine \<times> bool)" where
  "load_segments d sz [] m = Inr (m, True)"
| "load_segments d sz (i # is) m =
     bindE (read_phdr d i) (\<lambda>ph.
       bindE (load_segment d sz ph m) (\<lambda>(m1, ok).
         if ok then load_segments d sz is m1 else Inr (m1, False)))"

definition no_result :: elf_result where
  "no_result = \<lparr>elf_ok = False, elf_entry = 0, load_base = 0xFFFFFFFF, load_end = 0\<rparr>"

definition elf_load :: "bytes \<Rightarrow> u32 \<Rightarrow> machine \<Rightarrow> fault + (machine \<times> elf_result)" where
  "elf_load d sz m =
     (if sz < SIZEOF_EHDR then Inr (m, no_result)
      else if get32 d 0 \<noteq> ELF_MAGIC then Inr (m, no_result)
      else if e_type d \<noteq> ET_EXEC then Inr (m, no_result)
      else if e_machine d \<noteq> EM_386 then Inr (m, no_result)
      else if e_phnum d = 0 then Inr (m, no_result)
      else if sz < e_phoff d + ucast (e_phnum d) * SIZEOF_PHDR then Inr (m, no_result)
      else bindE (foldE (span_step d) [0..<unat (e_phnum d)] no_result) (\<lambda>res.
        if load_base res = 0xFFFFFFFF then Inr (m, res)
        else bindE (load_segments d sz [0..<unat (e_phnum d)] m) (\<lambda>(m1, ok).
          Inr (m1, if ok then res\<lparr>elf_ok := True, elf_entry := e_entry d\<rparr> else res))))"

section \<open>Pages with frames of their own\<close>

text \<open>
  The pages \<open>P\<close> are backed by distinct frames in use, none of them frame 0.
\<close>

definition backed_by :: "(u32 \<Rightarrow> u32) \<Rightarrow> u32 set \<Rightarrow> vm \<Rightarrow> bool" where
  "backed_by fr P s \<longleftrightarrow> inj_on fr P \<and> fr ` P \<subseteq> pmm_frames (pmm_st s) - {0} \<and> (\<forall>p \<in> P. aligned (fr p))
     \<and> (\<forall>w. drop_bit 12 w \<in> P \<longrightarrow> paging_get_physaddr w s = fr (drop_bit 12 w) + (w AND 0xFFF))"

definition backed :: "u32 set \<Rightarrow> vm \<Rightarrow> bool" where
  "backed P s \<longleftrightarrow> (\<exists>fr. backed_by fr P s)"

lemma backed_empty: "backed {} s"
  by (auto simp: backed_def backed_by_def)

text \<open>A page address plus an offset determines both.\<close>

lemma offset_lt: "unat (w AND 0xFFF :: u32) < 4096"
  using unat_and_mask [of w 12] by (simp add: mask_numerals)

lemma page_offset_split:
  assumes "aligned f"
  shows "unat (f + (w AND 0xFFF)) = unat f + unat (w AND 0xFFF)"
    "unat (f + (w AND 0xFFF)) div 4096 = unat f div 4096" "unat (f + (w AND 0xFFF)) mod 4096 = unat (w AND 0xFFF)"
proof -
  obtain k where k: "unat f = 4096 * k" using assms by (auto simp: aligned_iff mod_eq_0_iff_dvd elim!: dvdE)
  have "k < 1048576" using k unat_lt32 [of f] by simp
  then have "unat f + unat (w AND 0xFFF) < 2 ^ 32" using k offset_lt [of w] by simp
  then show u: "unat (f + (w AND 0xFFF)) = unat f + unat (w AND 0xFFF)" by (simp add: unat_plus_if)
  show "unat (f + (w AND 0xFFF)) div 4096 = unat f div 4096" "unat (f + (w AND 0xFFF)) mod 4096 = unat (w AND 0xFFF)"
    unfolding u k using offset_lt [of w] by simp_all
qed

lemma address_split: "drop_bit 12 w = drop_bit 12 (w' :: u32) \<Longrightarrow> w AND 0xFFF = w' AND 0xFFF \<Longrightarrow> w = w'"
  by (metis bits_ident mask_numerals(3) take_bit_eq_mask)

lemma backed_inj:
  assumes "backed_by fr P s" "drop_bit 12 w \<in> P" "drop_bit 12 w' \<in> P"
    and "paging_get_physaddr w s = paging_get_physaddr w' s"
  shows "w = w'"
proof -
  let ?f = "fr (drop_bit 12 w)" and ?f' = "fr (drop_bit 12 w')"
  have a: "aligned ?f" "aligned ?f'" "?f + (w AND 0xFFF) = ?f' + (w' AND 0xFFF)"
    using assms by (auto simp: backed_by_def)
  have "unat ?f div 4096 = unat ?f' div 4096" "unat (w AND 0xFFF) = unat (w' AND 0xFFF)"
    using page_offset_split [OF a(1), of w] page_offset_split [OF a(2), of w'] a(3) by metis+
  then have "?f = ?f'" "w AND 0xFFF = w' AND 0xFFF"
    using aligned_eqI [OF a(1,2)] by (simp_all add: word_eq_unat)
  with assms(1-3) have "drop_bit 12 w = drop_bit 12 w'" by (auto simp: backed_by_def dest: inj_onD)
  from address_split [OF this \<open>w AND 0xFFF = w' AND 0xFFF\<close>] show ?thesis .
qed

lemma backed_nonzero:
  assumes "backed_by fr P s" "drop_bit 12 w \<in> P"
  shows "paging_get_physaddr w s \<noteq> 0"
proof -
  have f: "aligned (fr (drop_bit 12 w))" "fr (drop_bit 12 w) \<noteq> 0"
    "paging_get_physaddr w s = fr (drop_bit 12 w) + (w AND 0xFFF)" using assms by (auto simp: backed_by_def)
  then have "unat (fr (drop_bit 12 w)) \<noteq> 0" by (simp add: unat_eq_zero)
  then have "unat (paging_get_physaddr w s) \<noteq> 0" using page_offset_split(1) [OF f(1), of w] f(3) by simp
  then show ?thesis by (simp only: unat_eq_zero not_False_eq_True)
qed

text \<open>Fresh pages are added to the backed ones.\<close>

lemma alloc_backs:
  assumes vm: "vm_ok s" and bk: "backed_by fr P s" and fit: "unat v + unat sz + 4095 < 2 ^ 32"
    and room: "2 * n \<le> pmm_room (pmm_st s)" and n: "n = (unat sz + 4095) div 4096"
    and dis: "P \<inter> page_no v ` {0..<n} = {}"
  shows "\<exists>s' fr'. paging_alloc_region v sz fl s = Inr (s', True) \<and> vm_ok s'
    \<and> backed_by fr' (P \<union> page_no v ` {0..<n}) s'
    \<and> (\<forall>w. drop_bit 12 w \<in> P \<longrightarrow> paging_get_physaddr w s' = paging_get_physaddr w s)
    \<and> pmm_room (pmm_st s) \<le> pmm_room (pmm_st s') + 2 * n"
proof -
  note inj = alloc_region_ok(1) [OF vm fit room [unfolded n], folded n]
  obtain s' ps where run: "paging_alloc_region v sz fl s = Inr (s', True)" "vm_ok s'"
    and ps: "length ps = n" "distinct ps" "set ps \<inter> pmm_frames (pmm_st s) = {}" "\<forall>p \<in> set ps. aligned p"
    and hit: "\<And>k w. k < n \<Longrightarrow> drop_bit 12 w = page_no v k \<Longrightarrow> paging_get_physaddr w s' = ps ! k + (w AND 0xFFF)"
    and miss: "\<And>w. (\<forall>k < n. drop_bit 12 w \<noteq> page_no v k) \<Longrightarrow> paging_get_physaddr w s' = paging_get_physaddr w s"
    and fs: "pmm_frames (pmm_st s) \<union> set ps \<subseteq> pmm_frames (pmm_st s')"
    and rm: "pmm_room (pmm_st s) \<le> pmm_room (pmm_st s') + 2 * n"
    using alloc_region_ok(2) [OF vm fit room [unfolded n], of fl, folded n] by (elim exE conjE) blast
  let ?Q = "page_no v ` {0..<n}"
  define g where "g p = (if p \<in> P then fr p else ps ! inv_into {0..<n} (page_no v) p)" for p
  have gP: "g p = fr p" if "p \<in> P" for p using that by (simp add: g_def)
  have gQ: "g (page_no v k) = ps ! k" if "k < n" for k
    using that dis inv_into_f_f [OF inj, of k] by (auto simp: g_def)
  have same: "paging_get_physaddr w s' = paging_get_physaddr w s" if "drop_bit 12 w \<in> P" for w
    using that dis by (intro miss) auto
  have imP: "g ` P = fr ` P" using gP by auto
  have imQ: "g ` ?Q \<subseteq> set ps" using gQ ps(1) by auto
  have frP: "fr ` P \<subseteq> pmm_frames (pmm_st s) - {0}" using bk by (simp add: backed_by_def)
  have "inj_on g P" using bk gP by (auto simp: backed_by_def inj_on_def)
  moreover have "inj_on g ?Q" using gQ ps(1,2) by (auto simp: inj_on_def nth_eq_iff_index_eq)
  moreover have "g ` P \<inter> g ` ?Q = {}" using imP imQ frP ps(3) by blast
  ultimately have "inj_on g (P \<union> ?Q)" by (auto simp: inj_on_Un)
  moreover have "g ` (P \<union> ?Q) \<subseteq> pmm_frames (pmm_st s') - {0}"
  proof -
    have "g ` P \<subseteq> pmm_frames (pmm_st s') - {0}" unfolding imP using frP fs by auto
    moreover have "g ` ?Q \<subseteq> pmm_frames (pmm_st s') - {0}" using imQ ps(3) fs zero_frame [OF vm] by blast
    ultimately show ?thesis by (simp only: image_Un Un_subset_iff)
  qed
  moreover have "aligned (g p)" if "p \<in> P \<union> ?Q" for p using that bk gP gQ ps(1,4) by (auto simp: backed_by_def)
  moreover have "paging_get_physaddr w s' = g (drop_bit 12 w) + (w AND 0xFFF)" if "drop_bit 12 w \<in> P \<union> ?Q" for w
    using that
  proof
    assume "drop_bit 12 w \<in> P"
    with same [OF this] gP [OF this] bk show ?thesis by (simp add: backed_by_def)
  next
    assume "drop_bit 12 w \<in> ?Q"
    then obtain k where "k < n" "drop_bit 12 w = page_no v k" by auto
    with hit [OF this] gQ show ?thesis by simp
  qed
  ultimately have "backed_by g (P \<union> ?Q) s'" by (auto simp: backed_by_def)
  with run same rm show ?thesis by blast
qed

section \<open>Writing through the tables\<close>

lemma unat_pred: "x \<noteq> 0 \<Longrightarrow> unat (x :: u32) = Suc (unat (x - 1))"
  using unat_gt_0 [of x] unat_minus_le [of 1 x] by (simp add: word_le_nat_alt)

lemma write_virt_ok:
  assumes "backed_by fr P (mvm m)" "\<forall>k < length bs. drop_bit 12 (v + of_nat k) \<in> P" "length bs < 2 ^ 32"
  shows "\<exists>m'. write_virt v bs m = Inr m' \<and> mvm m' = mvm m
    \<and> (\<forall>w. drop_bit 12 w \<in> P \<longrightarrow>
         load_byte m' w = (if unat (w - v) < length bs then bs ! unat (w - v) else load_byte m w))"
  using assms
proof (induction bs arbitrary: v m)
  case Nil
  then show ?case by simp
next
  case (Cons b bs)
  let ?p = "paging_get_physaddr v (mvm m)" and ?m = "m\<lparr>phys := (phys m)(paging_get_physaddr v (mvm m) := b)\<rparr>"
  have vP: "drop_bit 12 v \<in> P" using Cons.prems(2) [rule_format, of 0] by simp
  have nz: "?p \<noteq> 0" by (rule backed_nonzero [OF Cons.prems(1) vP])
  have "drop_bit 12 ((v + 1) + of_nat k) \<in> P" if "k < length bs" for k
    using Cons.prems(2) [rule_format, of "Suc k"] that by (simp add: add.assoc)
  then obtain m' where m': "write_virt (v + 1) bs ?m = Inr m'" "mvm m' = mvm m"
    "\<And>w. drop_bit 12 w \<in> P \<Longrightarrow> load_byte m' w =
      (if unat (w - (v + 1)) < length bs then bs ! unat (w - (v + 1)) else load_byte ?m w)"
    using Cons.IH [of ?m "v + 1"] Cons.prems(1,3) by auto
  have one: "load_byte ?m w = (if w = v then b else load_byte m w)" if "drop_bit 12 w \<in> P" for w
    using backed_inj [OF Cons.prems(1) that vP] by (auto simp: load_byte_def)
  have "load_byte m' w = (if unat (w - v) < length (b # bs) then (b # bs) ! unat (w - v) else load_byte m w)"
    if w: "drop_bit 12 w \<in> P" for w
  proof (cases "w = v")
    case True
    have "unat (- 1 :: u32) = 2 ^ 32 - 1" by (simp add: unsigned_minus_1_eq_mask mask_eq_exp_minus_1)
    then have "\<not> unat (v - (v + 1)) < length bs" using Cons.prems(3) by simp
    then show ?thesis using m'(3) [OF w] one [OF w] True by simp
  next
    case False
    then have "unat (w - v) = Suc (unat (w - (v + 1)))" using unat_pred [of "w - v"] by (simp add: diff_diff_eq)
    then show ?thesis using m'(3) [OF w] one [OF w] False by simp
  qed
  with nz m'(1,2) show ?case by (simp add: Let_def)
qed

section \<open>Segments\<close>

text \<open>The pages a segment touches.\<close>

definition seg_pages :: "phdr \<Rightarrow> u32 set" where
  "seg_pages ph = {p. unat (p_vaddr ph) div 4096 \<le> unat p
     \<and> unat p < (unat (p_vaddr ph) + unat (p_memsz ph) + 4095) div 4096}"

definition seg_count :: "phdr \<Rightarrow> nat" where
  "seg_count ph = (unat (p_vaddr ph) + unat (p_memsz ph) + 4095) div 4096 - unat (p_vaddr ph) div 4096"

definition seg_ok :: "bytes \<Rightarrow> u32 \<Rightarrow> phdr \<Rightarrow> bool" where
  "seg_ok d sz ph \<longleftrightarrow> unat (p_vaddr ph) + unat (p_memsz ph) + 8192 < 2 ^ 32
     \<and> unat (p_filesz ph) \<le> unat (p_memsz ph) \<and> unat (p_offset ph) + unat (p_filesz ph) \<le> unat sz"

text \<open>The byte of the segment at offset \<open>k\<close>: from the file, then zeros.\<close>

definition seg_byte :: "bytes \<Rightarrow> phdr \<Rightarrow> nat \<Rightarrow> u8" where
  "seg_byte d ph k = (if k < unat (p_filesz ph) then d ! (unat (p_offset ph) + k) else 0)"

definition seg_loaded :: "bytes \<Rightarrow> phdr \<Rightarrow> machine \<Rightarrow> bool" where
  "seg_loaded d ph m \<longleftrightarrow> (\<forall>k < unat (p_memsz ph). load_byte m (p_vaddr ph + of_nat k) = seg_byte d ph k)"

lemma unat_align_down: "unat (align_down v 4096) = unat v div 4096 * 4096"
  using unat_and_not_mask [of 12 v] by (simp add: align_down_def mask_numerals)

lemma unat_align_up:
  assumes "unat v + 4095 < 2 ^ 32"
  shows "unat (align_up v 4096) = (unat v + 4095) div 4096 * 4096"
proof -
  have "unat (v + 4095) = unat v + 4095" using assms by (simp add: unat_plus_if)
  moreover have "v + 4096 - 1 = v + 4095" by simp
  ultimately show ?thesis using unat_and_not_mask [of 12 "v + 4095"]
    by (simp add: align_up_def mask_numerals add.commute)
qed

lemma seg_region:
  assumes "seg_ok d sz ph"
  defines "lo \<equiv> align_down (p_vaddr ph) 4096" and "hi \<equiv> align_up (p_vaddr ph + p_memsz ph) 4096"
  shows "(unat (hi - lo) + 4095) div 4096 = seg_count ph" "unat lo + unat (hi - lo) + 4095 < 2 ^ 32"
    "page_no lo ` {0..<seg_count ph} = seg_pages ph"
proof -
  let ?v = "unat (p_vaddr ph)" and ?e = "unat (p_vaddr ph) + unat (p_memsz ph)"
  have b: "?e + 8192 < 2 ^ 32" using assms(1) by (simp add: seg_ok_def)
  have ue: "unat (p_vaddr ph + p_memsz ph) = ?e" using b by (intro unat_plus_if) simp
  have l: "unat lo = ?v div 4096 * 4096" by (simp add: lo_def unat_align_down)
  have h: "unat hi = (?e + 4095) div 4096 * 4096" using b by (simp add: hi_def unat_align_up ue)
  have le: "?v div 4096 \<le> (?e + 4095) div 4096" by (intro div_le_mono) simp
  then have ul: "unat lo \<le> unat hi" unfolding l h by (rule mult_le_mono1)
  then have d: "unat (hi - lo) = unat hi - unat lo" by (intro unat_minus_le) (simp add: word_le_nat_alt)
  then have dd: "unat (hi - lo) = seg_count ph * 4096"
    unfolding l h seg_count_def by (simp add: diff_mult_distrib)
  then show "(unat (hi - lo) + 4095) div 4096 = seg_count ph" by simp
  have hb: "unat hi \<le> ?e + 4095" unfolding h by simp
  then show "unat lo + unat (hi - lo) + 4095 < 2 ^ 32" using d ul b by simp
  have p: "unat (page_no lo k) = ?v div 4096 + k" if "k < seg_count ph" for k
  proof -
    have "k * 4096 \<le> unat (hi - lo)" using that unfolding dd by simp
    then have "unat lo + k * 4096 < 2 ^ 32" using d ul hb b by simp
    from unat_page_no [OF this] show ?thesis unfolding l by simp
  qed
  show "page_no lo ` {0..<seg_count ph} = seg_pages ph"
  proof (intro equalityI subsetI)
    fix q assume "q \<in> page_no lo ` {0..<seg_count ph}"
    then obtain k where "k < seg_count ph" "q = page_no lo k" by auto
    then show "q \<in> seg_pages ph" using p [of k] by (simp add: seg_pages_def seg_count_def)
  next
    fix q assume "q \<in> seg_pages ph"
    then have q: "?v div 4096 \<le> unat q" "unat q < (?e + 4095) div 4096" by (simp_all add: seg_pages_def)
    then have k: "unat q - ?v div 4096 < seg_count ph" by (simp add: seg_count_def)
    have "q = page_no lo (unat q - ?v div 4096)" using p [OF k] q(1) by (simp add: word_eq_unat)
    with k show "q \<in> page_no lo ` {0..<seg_count ph}" by (intro image_eqI) simp_all
  qed
qed

lemma seg_address:
  assumes "seg_ok d sz ph" "k < unat (p_memsz ph)"
  shows "drop_bit 12 (p_vaddr ph + of_nat k) \<in> seg_pages ph" "unat (p_vaddr ph + of_nat k) = unat (p_vaddr ph) + k"
proof -
  have b: "unat (p_vaddr ph) + unat (p_memsz ph) + 8192 < 2 ^ 32" using assms(1) by (simp add: seg_ok_def)
  have "unat (of_nat k :: u32) = k" using assms(2) b by (intro unat_of_nat_lt) simp
  then show u: "unat (p_vaddr ph + of_nat k) = unat (p_vaddr ph) + k"
    using assms(2) b by (simp add: unat_plus_if)
  have "unat (p_vaddr ph) div 4096 \<le> (unat (p_vaddr ph) + k) div 4096" by (intro div_le_mono) simp
  moreover have "(unat (p_vaddr ph) + k) div 4096 < (unat (p_vaddr ph) + unat (p_memsz ph) + 4095) div 4096"
  proof -
    have "(unat (p_vaddr ph) + k) div 4096 < (unat (p_vaddr ph) + k + 4096) div 4096" by simp
    also have "\<dots> \<le> (unat (p_vaddr ph) + unat (p_memsz ph) + 4095) div 4096"
      using assms(2) by (intro div_le_mono) simp
    finally show ?thesis .
  qed
  ultimately show "drop_bit 12 (p_vaddr ph + of_nat k) \<in> seg_pages ph"
    by (simp add: seg_pages_def unat_drop12 u)
qed

text \<open>Writing inside a segment whose pages are backed touches no page outside it.\<close>

lemma write_segment:
  assumes bk: "backed_by fr (P \<union> seg_pages ph) (mvm m)" and dis: "seg_pages ph \<inter> P = {}"
    and sg: "seg_ok d sz ph" and len: "a + length bs \<le> unat (p_memsz ph)"
  shows "\<exists>m'. write_virt (p_vaddr ph + of_nat a) bs m = Inr m' \<and> mvm m' = mvm m
    \<and> (\<forall>k < unat (p_memsz ph). load_byte m' (p_vaddr ph + of_nat k)
        = (if a \<le> k \<and> k < a + length bs then bs ! (k - a) else load_byte m (p_vaddr ph + of_nat k)))
    \<and> (\<forall>w. drop_bit 12 w \<in> P \<longrightarrow> load_byte m' w = load_byte m w)"
proof -
  let ?v = "p_vaddr ph"
  have lt: "length bs < 2 ^ 32" "a < 2 ^ 32" using len unat_lt32 [of "p_memsz ph"] by simp_all
  have pg: "drop_bit 12 (?v + of_nat a + of_nat k) \<in> seg_pages ph" if "k < length bs" for k
    using seg_address(1) [OF sg, of "a + k"] that len by (simp add: add.assoc)
  obtain m' where m': "write_virt (?v + of_nat a) bs m = Inr m'" "mvm m' = mvm m"
    "\<And>w. drop_bit 12 w \<in> P \<union> seg_pages ph \<Longrightarrow> load_byte m' w =
      (if unat (w - (?v + of_nat a)) < length bs then bs ! unat (w - (?v + of_nat a)) else load_byte m w)"
    using write_virt_ok [OF bk _ lt(1), of "?v + of_nat a"] pg by blast
  have "load_byte m' (?v + of_nat k) = (if a \<le> k \<and> k < a + length bs then bs ! (k - a) else load_byte m (?v + of_nat k))"
    if k: "k < unat (p_memsz ph)" for k
  proof -
    have k32: "k < 2 ^ 32" using k unat_lt32 [of "p_memsz ph"] by simp
    have d: "?v + of_nat k - (?v + of_nat a) = of_nat k - (of_nat a :: u32)" by simp
    have "(unat (of_nat k - (of_nat a :: u32)) < length bs) = (a \<le> k \<and> k < a + length bs)
      \<and> (a \<le> k \<longrightarrow> unat (of_nat k - (of_nat a :: u32)) = k - a)"
      using len lt(2) k32 unat_lt32 [of "p_memsz ph"]
      by (auto simp: unat_sub_if' unat_of_nat32)
    then show ?thesis using m'(3) [of "?v + of_nat k"] seg_address(1) [OF sg k] d by auto
  qed
  moreover have "load_byte m' w = load_byte m w" if w: "drop_bit 12 w \<in> P" for w
  proof -
    have "\<not> unat (w - (?v + of_nat a)) < length bs"
    proof
      assume "unat (w - (?v + of_nat a)) < length bs"
      from pg [OF this] have "drop_bit 12 w \<in> seg_pages ph" by simp
      with w dis show False by blast
    qed
    with m'(3) w show ?thesis by simp
  qed
  ultimately show ?thesis using m'(1,2) by blast
qed

lemma load_segment_ok:
  assumes vm: "vm_ok (mvm m)" and bk: "backed_by fr P (mvm m)" and sg: "seg_ok d sz ph" and ld: "loadable ph"
    and dis: "seg_pages ph \<inter> P = {}" and room: "2 * seg_count ph \<le> pmm_room (pmm_st (mvm m))"
    and len: "length d = unat sz"
  shows "\<exists>m' fr'. load_segment d sz ph m = Inr (m', True) \<and> vm_ok (mvm m')
    \<and> backed_by fr' (P \<union> seg_pages ph) (mvm m') \<and> seg_loaded d ph m'
    \<and> (\<forall>w. drop_bit 12 w \<in> P \<longrightarrow> load_byte m' w = load_byte m w)
    \<and> pmm_room (pmm_st (mvm m)) \<le> pmm_room (pmm_st (mvm m')) + 2 * seg_count ph"
proof -
  let ?lo = "align_down (p_vaddr ph) 4096" and ?hi = "align_up (p_vaddr ph + p_memsz ph) 4096"
  let ?v = "p_vaddr ph" and ?fs = "unat (p_filesz ph)" and ?ms = "unat (p_memsz ph)" and ?off = "unat (p_offset ph)"
  note rg = seg_region [OF sg]
  have f: "?fs \<le> ?ms" "?off + ?fs \<le> unat sz" using sg by (auto simp: seg_ok_def)
  obtain s' fr' where al: "paging_alloc_region ?lo (?hi - ?lo) (seg_flags ph) (mvm m) = Inr (s', True)"
    and s': "vm_ok s'" "backed_by fr' (P \<union> seg_pages ph) s'"
      "\<forall>w. drop_bit 12 w \<in> P \<longrightarrow> paging_get_physaddr w s' = paging_get_physaddr w (mvm m)"
      "pmm_room (pmm_st (mvm m)) \<le> pmm_room (pmm_st s') + 2 * seg_count ph"
    using alloc_backs [OF vm bk rg(2) room rg(1) [symmetric], of "seg_flags ph"] dis unfolding rg(3) by blast
  let ?m1 = "m\<lparr>mvm := s'\<rparr>"
  define bs where "bs = take ?fs (drop ?off d)"
  have old: "load_byte ?m1 w = load_byte m w" if "drop_bit 12 w \<in> P" for w
    using s'(3) that by (simp add: load_byte_def)
  have lb: "length bs = ?fs" using f(2) len by (simp add: bs_def)
  have "?off + ?fs < 2 ^ 32" using f(2) unat_lt32 [of sz] by simp
  then have nw: "unat (p_offset ph + p_filesz ph) = ?off + ?fs" by (simp add: unat_plus_if)
  obtain m2 where m2: "write_virt ?v bs ?m1 = Inr m2" "mvm m2 = s'"
    "\<forall>k < ?ms. load_byte m2 (?v + of_nat k) = (if k < ?fs then bs ! k else load_byte ?m1 (?v + of_nat k))"
    "\<forall>w. drop_bit 12 w \<in> P \<longrightarrow> load_byte m2 w = load_byte ?m1 w"
    using write_segment [of fr' P ph ?m1 d sz 0 bs] s'(2) dis sg f(1) lb by auto
  have copy: "copy_file d sz ph ?m1 = Inr (m2, True)"
  proof (cases "p_filesz ph = 0")
    case True
    then show ?thesis using m2(1) by (simp add: copy_file_def bs_def)
  next
    case False
    have "\<not> sz < p_offset ph + p_filesz ph" using f(2) nw by (simp add: word_less_nat_alt)
    then show ?thesis using False m2(1) f(2) len by (simp add: copy_file_def bs_def)
  qed
  let ?zs = "replicate (?ms - ?fs) (0 :: u8)"
  obtain m3 where m3: "write_virt (?v + of_nat ?fs) ?zs m2 = Inr m3" "mvm m3 = s'"
    "\<forall>k < ?ms. load_byte m3 (?v + of_nat k)
      = (if ?fs \<le> k \<and> k < ?ms then ?zs ! (k - ?fs) else load_byte m2 (?v + of_nat k))"
    "\<forall>w. drop_bit 12 w \<in> P \<longrightarrow> load_byte m3 w = load_byte m2 w"
    using write_segment [of fr' P ph m2 d sz ?fs ?zs] s'(2) m2(2) dis sg f(1) by auto
  have zero: "zero_bss ph m2 = Inr m3"
  proof (cases "p_filesz ph < p_memsz ph")
    case True
    then have "unat (p_memsz ph - p_filesz ph) = ?ms - ?fs" by (intro unat_minus_le) simp
    with True m3(1) show ?thesis by (simp add: zero_bss_def)
  next
    case False
    then have "?ms \<le> ?fs" by (simp add: word_less_nat_alt)
    with False m3(1) show ?thesis by (simp add: zero_bss_def)
  qed
  have "load_segment d sz ph m = Inr (m3, True)"
    using ld al copy zero by (simp add: load_segment_def Let_def)
  moreover have "seg_loaded d ph m3"
    unfolding seg_loaded_def seg_byte_def using m3(3) m2(3) f len by (auto simp: bs_def)
  moreover have "\<forall>w. drop_bit 12 w \<in> P \<longrightarrow> load_byte m3 w = load_byte m w" using m3(4) m2(4) old by simp
  ultimately show ?thesis using s' m3(2) by blast
qed

section \<open>Executables\<close>

text \<open>The program headers of a file whose table lies inside it.\<close>

definition ph_at :: "bytes \<Rightarrow> nat \<Rightarrow> phdr" where
  "ph_at d i = projr (read_phdr d i)"

definition segs_of :: "bytes \<Rightarrow> nat list \<Rightarrow> phdr list" where
  "segs_of d is = filter loadable (map (ph_at d) is)"

fun pages_disjoint :: "phdr list \<Rightarrow> bool" where
  "pages_disjoint [] = True"
| "pages_disjoint (ph # phs) = ((\<forall>q \<in> set phs. seg_pages ph \<inter> seg_pages q = {}) \<and> pages_disjoint phs)"

definition elf_header_ok :: "bytes \<Rightarrow> u32 \<Rightarrow> bool" where
  "elf_header_ok d sz \<longleftrightarrow> length d = unat sz \<and> 52 \<le> length d \<and> get32 d 0 = ELF_MAGIC \<and> e_type d = ET_EXEC
     \<and> e_machine d = EM_386 \<and> e_phnum d \<noteq> 0 \<and> e_phentsize d = 32
     \<and> unat (e_phoff d) + unat (e_phnum d) * 32 \<le> length d"

definition elf_valid :: "bytes \<Rightarrow> u32 \<Rightarrow> bool" where
  "elf_valid d sz \<longleftrightarrow> elf_header_ok d sz
     \<and> (let phs = segs_of d [0..<unat (e_phnum d)] in
          phs \<noteq> [] \<and> (\<forall>ph \<in> set phs. seg_ok d sz ph) \<and> pages_disjoint phs)"

lemma read_phdr_ok:
  assumes "elf_header_ok d sz" "i < unat (e_phnum d)"
  shows "read_phdr d i = Inr (ph_at d i)"
proof -
  let ?n = "unat (e_phnum d)"
  have b: "unat (e_phoff d) + ?n * 32 \<le> unat sz" "length d = unat sz" "e_phentsize d = 32"
    using assms(1) by (auto simp: elf_header_ok_def)
  have "unat (e_phoff d) + i * 32 + 32 \<le> unat (e_phoff d) + ?n * 32" using assms(2) by simp
  then have le: "unat (e_phoff d) + i * 32 + 32 \<le> unat sz" using b(1) by simp
  then have lt: "unat (e_phoff d) + i * 32 < 2 ^ 32" using unat_lt32 [of sz] by simp
  have "unat (of_nat i * ucast (e_phentsize d) :: u32) = i * 32"
    using lt by (simp add: b(3) unat_mult_lt unat_of_nat32)
  then have "unat (e_phoff d + of_nat i * ucast (e_phentsize d)) = unat (e_phoff d) + i * 32"
    using lt by (simp add: unat_plus_if)
  then have "\<not> length d < unat (e_phoff d + of_nat i * ucast (e_phentsize d)) + 32" using le b(2) by simp
  then show ?thesis by (simp add: ph_at_def read_phdr_def Let_def)
qed

lemma load_segments_ok:
  assumes "\<forall>i \<in> set is. read_phdr d i = Inr (ph_at d i)" "length d = unat sz"
    and "vm_ok (mvm m)" "backed_by fr P (mvm m)"
    and "\<forall>ph \<in> set (segs_of d is). seg_ok d sz ph \<and> seg_pages ph \<inter> P = {}" "pages_disjoint (segs_of d is)"
    and "2 * sum_list (map seg_count (segs_of d is)) \<le> pmm_room (pmm_st (mvm m))"
  shows "\<exists>m'. load_segments d sz is m = Inr (m', True) \<and> vm_ok (mvm m')
    \<and> (\<forall>ph \<in> set (segs_of d is). seg_loaded d ph m')
    \<and> (\<forall>w. drop_bit 12 w \<in> P \<longrightarrow> load_byte m' w = load_byte m w)"
  using assms
proof (induction "is" arbitrary: m fr P)
  case Nil
  then show ?case by (simp add: segs_of_def)
next
  case (Cons i "is")
  let ?ph = "ph_at d i"
  have rd: "read_phdr d i = Inr ?ph" using Cons.prems(1) by simp
  show ?case
  proof (cases "loadable ?ph")
    case False
    then have "segs_of d (i # is) = segs_of d is" by (simp add: segs_of_def)
    with Cons.IH [OF _ Cons.prems(2-4)] Cons.prems False rd show ?thesis by (simp add: load_segment_def)
  next
    case True
    then have sg: "segs_of d (i # is) = ?ph # segs_of d is" by (simp add: segs_of_def)
    have ph: "seg_ok d sz ?ph" "seg_pages ?ph \<inter> P = {}" "2 * seg_count ?ph \<le> pmm_room (pmm_st (mvm m))"
      using Cons.prems(5,7) unfolding sg by auto
    obtain m1 fr1 where m1: "load_segment d sz ?ph m = Inr (m1, True)" "vm_ok (mvm m1)"
      "backed_by fr1 (P \<union> seg_pages ?ph) (mvm m1)" "seg_loaded d ?ph m1"
      "\<forall>w. drop_bit 12 w \<in> P \<longrightarrow> load_byte m1 w = load_byte m w"
      "pmm_room (pmm_st (mvm m)) \<le> pmm_room (pmm_st (mvm m1)) + 2 * seg_count ?ph"
      using load_segment_ok [OF Cons.prems(3,4) ph(1) True ph(2,3) Cons.prems(2)] by blast
    have "\<forall>q \<in> set (segs_of d is). seg_ok d sz q \<and> seg_pages q \<inter> (P \<union> seg_pages ?ph) = {}"
      using Cons.prems(5,6) unfolding sg by auto
    moreover have "2 * sum_list (map seg_count (segs_of d is)) \<le> pmm_room (pmm_st (mvm m1))"
      using Cons.prems(7) m1(6) unfolding sg by simp
    ultimately obtain m' where m': "load_segments d sz is m1 = Inr (m', True)" "vm_ok (mvm m')"
      "\<forall>q \<in> set (segs_of d is). seg_loaded d q m'"
      "\<forall>w. drop_bit 12 w \<in> P \<union> seg_pages ?ph \<longrightarrow> load_byte m' w = load_byte m1 w"
      using Cons.IH [OF _ Cons.prems(2) m1(2,3)] Cons.prems(1,6) sg by auto
    have "seg_loaded d ?ph m'" using m1(4) m'(4) seg_address(1) [OF ph(1)] by (simp add: seg_loaded_def)
    then show ?thesis using rd m1(1,5) m' sg by auto
  qed
qed

text \<open>The first pass covers every segment.\<close>

lemma span_ok:
  assumes "\<forall>i \<in> set is. read_phdr d i = Inr (ph_at d i)"
  shows "\<exists>r'. foldE (span_step d) is r = Inr r' \<and> elf_ok r' = elf_ok r \<and> elf_entry r' = elf_entry r
    \<and> load_base r' \<le> load_base r \<and> load_end r \<le> load_end r'
    \<and> (\<forall>ph \<in> set (segs_of d is). load_base r' \<le> align_down (p_vaddr ph) 4096
         \<and> align_up (p_vaddr ph + p_memsz ph) 4096 \<le> load_end r')"
  using assms
proof (induction "is" arbitrary: r)
  case Nil
  then show ?case by (simp add: segs_of_def)
next
  case (Cons i "is")
  have rd: "read_phdr d i = Inr (ph_at d i)" using Cons.prems by simp
  have "\<exists>r1. span_step d i r = Inr r1 \<and> elf_ok r1 = elf_ok r \<and> elf_entry r1 = elf_entry r
    \<and> load_base r1 \<le> load_base r \<and> load_end r \<le> load_end r1
    \<and> (loadable (ph_at d i) \<longrightarrow> load_base r1 \<le> align_down (p_vaddr (ph_at d i)) 4096
       \<and> align_up (p_vaddr (ph_at d i) + p_memsz (ph_at d i)) 4096 \<le> load_end r1)"
    unfolding span_step_def rd by (cases "loadable (ph_at d i)") (auto simp: Let_def not_less)
  then obtain r1 where r1: "span_step d i r = Inr r1" "elf_ok r1 = elf_ok r" "elf_entry r1 = elf_entry r"
    "load_base r1 \<le> load_base r" "load_end r \<le> load_end r1"
    "loadable (ph_at d i) \<Longrightarrow> load_base r1 \<le> align_down (p_vaddr (ph_at d i)) 4096
       \<and> align_up (p_vaddr (ph_at d i) + p_memsz (ph_at d i)) 4096 \<le> load_end r1" by blast
  from Cons.IH [of r1] Cons.prems obtain r' where "foldE (span_step d) is r1 = Inr r'" "elf_ok r' = elf_ok r1"
    "elf_entry r' = elf_entry r1" "load_base r' \<le> load_base r1" "load_end r1 \<le> load_end r'"
    "\<forall>ph \<in> set (segs_of d is). load_base r' \<le> align_down (p_vaddr ph) 4096
         \<and> align_up (p_vaddr ph + p_memsz ph) 4096 \<le> load_end r'" by auto
  with r1 show ?case by (fastforce simp: segs_of_def)
qed

lemma seg_span:
  assumes "seg_ok d sz ph"
  shows "align_down (p_vaddr ph) 4096 \<le> p_vaddr ph" "align_down (p_vaddr ph) 4096 \<noteq> 0xFFFFFFFF"
    "unat (p_vaddr ph) + unat (p_memsz ph) \<le> unat (align_up (p_vaddr ph + p_memsz ph) 4096)"
proof -
  let ?e = "unat (p_vaddr ph) + unat (p_memsz ph)"
  have b: "?e + 8192 < 2 ^ 32" using assms by (simp add: seg_ok_def)
  have ue: "unat (p_vaddr ph + p_memsz ph) = ?e" using b by (intro unat_plus_if) simp
  show le: "align_down (p_vaddr ph) 4096 \<le> p_vaddr ph" by (simp add: word_le_nat_alt unat_align_down)
  then have "unat (align_down (p_vaddr ph) 4096) < 2 ^ 32 - 1" using b by (simp add: word_le_nat_alt)
  then show "align_down (p_vaddr ph) 4096 \<noteq> 0xFFFFFFFF" by auto
  show "?e \<le> unat (align_up (p_vaddr ph + p_memsz ph) 4096)"
    using b by (simp add: unat_align_up ue)
qed

section \<open>Properties\<close>

text \<open>
  C15: the loader puts the program's image in place. A valid executable, whose segments lie in
  the file and share no page, loads when two frames are free for each page: the result names
  the entry point and an address range that covers every segment, the page tables stay well
  formed, and every byte of every segment's memory, read through them after the whole load, is
  the file's byte, or zero past the part the file holds.
\<close>

theorem elf_load_image:
  assumes "elf_valid d sz" "vm_ok (mvm m)"
    and "2 * sum_list (map seg_count (segs_of d [0..<unat (e_phnum d)])) \<le> pmm_room (pmm_st (mvm m))"
  shows "\<exists>m' r. elf_load d sz m = Inr (m', r) \<and> elf_ok r \<and> elf_entry r = e_entry d \<and> vm_ok (mvm m')
    \<and> (\<forall>ph \<in> set (segs_of d [0..<unat (e_phnum d)]). seg_loaded d ph m'
         \<and> load_base r \<le> p_vaddr ph \<and> unat (p_vaddr ph) + unat (p_memsz ph) \<le> unat (load_end r))"
proof -
  let ?is = "[0..<unat (e_phnum d)]"
  have hd: "elf_header_ok d sz" and ne: "segs_of d ?is \<noteq> []" and pd: "pages_disjoint (segs_of d ?is)"
    and sg: "\<And>ph. ph \<in> set (segs_of d ?is) \<Longrightarrow> seg_ok d sz ph"
    using assms(1) by (auto simp: elf_valid_def Let_def)
  have rd: "\<forall>i \<in> set ?is. read_phdr d i = Inr (ph_at d i)" using read_phdr_ok [OF hd] by simp
  obtain r where r: "foldE (span_step d) ?is no_result = Inr r"
    and cover: "\<And>ph. ph \<in> set (segs_of d ?is) \<Longrightarrow> load_base r \<le> align_down (p_vaddr ph) 4096
      \<and> align_up (p_vaddr ph + p_memsz ph) 4096 \<le> load_end r"
    using span_ok [OF rd] by blast
  obtain m' where m': "load_segments d sz ?is m = Inr (m', True)" "vm_ok (mvm m')"
    "\<forall>ph \<in> set (segs_of d ?is). seg_loaded d ph m'"
    using load_segments_ok [OF rd _ assms(2) _ _ pd assms(3), of sz "\<lambda>_. 0" "{}"] sg hd
    by (auto simp: backed_by_def elf_header_ok_def)
  obtain ph where ph: "ph \<in> set (segs_of d ?is)" using ne by (cases "segs_of d ?is") auto
  have nb: "load_base r \<noteq> 0xFFFFFFFF"
  proof
    assume e: "load_base r = 0xFFFFFFFF"
    have "load_base r \<le> align_down (p_vaddr ph) 4096" using cover [OF ph] by blast
    then have "align_down (p_vaddr ph) 4096 = 0xFFFFFFFF" unfolding e
      using unat_lt32 [of "align_down (p_vaddr ph) 4096"] by (simp add: word_le_nat_alt word_eq_unat)
    with seg_span(2) [OF sg [OF ph]] show False ..
  qed
  have b: "length d = unat sz" "52 \<le> unat sz" "unat (e_phoff d) + unat (e_phnum d) * 32 \<le> unat sz"
    using hd by (auto simp: elf_header_ok_def)
  have "unat (ucast (e_phnum d) * SIZEOF_PHDR :: u32) = unat (e_phnum d) * 32"
    using b(3) unat_lt32 [of sz] by (simp add: SIZEOF_PHDR_def unat_mult_lt unsigned_ucast_eq)
  then have "unat (e_phoff d + ucast (e_phnum d) * SIZEOF_PHDR) = unat (e_phoff d) + unat (e_phnum d) * 32"
    using b(3) unat_lt32 [of sz] by (simp add: unat_plus_if)
  then have "\<not> sz < SIZEOF_EHDR" "\<not> sz < e_phoff d + ucast (e_phnum d) * SIZEOF_PHDR"
    using b by (simp_all add: word_less_nat_alt SIZEOF_EHDR_def)
  then have "elf_load d sz m = Inr (m', r\<lparr>elf_ok := True, elf_entry := e_entry d\<rparr>)"
    using hd r nb m'(1) by (simp add: elf_load_def elf_header_ok_def)
  moreover have "load_base r \<le> p_vaddr q \<and> unat (p_vaddr q) + unat (p_memsz q) \<le> unat (load_end r)"
    if "q \<in> set (segs_of d ?is)" for q
    using seg_span [OF sg [OF that]] cover [OF that] by (auto simp: word_le_nat_alt)
  ultimately show ?thesis using m' by (intro exI [of _ m'] exI [of _ "r\<lparr>elf_ok := True, elf_entry := e_entry d\<rparr>"]) simp
qed

text \<open>A file of one segment at \<open>0x8048000\<close>: four bytes in the file, eight in memory.\<close>

definition demo_elf :: bytes where
  "demo_elf = [0x7F, 0x45, 0x4C, 0x46] @ replicate 12 0 @ [2, 0, 3, 0, 1, 0, 0, 0, 0, 0x80, 4, 8, 52, 0, 0, 0]
     @ replicate 10 0 @ [32, 0, 1, 0] @ replicate 6 0
     @ [1, 0, 0, 0, 84, 0, 0, 0, 0, 0x80, 4, 8, 0, 0, 0, 0, 4, 0, 0, 0, 8, 0, 0, 0, 7, 0, 0, 0, 0, 16, 0, 0]
     @ [11, 22, 33, 44]"

definition demo_ph :: phdr where
  "demo_ph = \<lparr>p_type = 1, p_offset = 84, p_vaddr = 0x8048000, p_filesz = 4, p_memsz = 8, p_flags = 7\<rparr>"

lemma demo_elf_get: "length demo_elf = 88" "get32 demo_elf 0 = 0x464C457F" "get16 demo_elf 16 = 2" "get16 demo_elf 18 = 3"
  "get32 demo_elf 24 = 0x8048000" "get32 demo_elf 28 = 52" "get16 demo_elf 42 = 32" "get16 demo_elf 44 = 1"
  "get32 demo_elf 52 = 1" "get32 demo_elf 56 = 84" "get32 demo_elf 60 = 0x8048000" "get32 demo_elf 68 = 4"
  "get32 demo_elf 72 = 8" "get32 demo_elf 76 = 7" "demo_elf ! 86 = 33"
  by (simp_all add: demo_elf_def get16_def get32_def nth_append)

lemmas demo_elf_fields = demo_elf_get e_type_def e_machine_def e_entry_def e_phoff_def e_phentsize_def e_phnum_def

lemma demo_elf_header: "elf_header_ok demo_elf 88"
  by (simp add: elf_header_ok_def demo_elf_fields ELF_MAGIC_def ET_EXEC_def EM_386_def)

lemma demo_elf_segs: "e_phnum demo_elf = 1" "segs_of demo_elf [0..<1] = [demo_ph]"
proof -
  show "e_phnum demo_elf = 1" by (simp add: demo_elf_fields)
  have "ph_at demo_elf 0 = demo_ph" by (simp add: ph_at_def read_phdr_def demo_elf_fields demo_ph_def)
  moreover have "loadable demo_ph" by (simp add: loadable_def demo_ph_def PT_LOAD_def)
  ultimately show "segs_of demo_elf [0..<1] = [demo_ph]" by (simp add: segs_of_def)
qed

lemma demo_elf_valid: "elf_valid demo_elf 88"
proof -
  have "unat (e_phnum demo_elf) = 1" by (simp add: demo_elf_segs(1))
  moreover have "seg_ok demo_elf 88 demo_ph" by (simp add: seg_ok_def demo_ph_def)
  ultimately show ?thesis unfolding elf_valid_def Let_def
    by (simp add: demo_elf_header demo_elf_segs(2) [simplified])
qed

theorem elf_load_image_witness:
  "\<exists>m' r. elf_load demo_elf 88 \<lparr>mvm = demo_vm, phys = \<lambda>_. 0xCC\<rparr> = Inr (m', r) \<and> elf_entry r = 0x8048000
    \<and> load_byte m' 0x8048002 = 33 \<and> load_byte m' 0x8048006 = 0"
proof -
  let ?m = "\<lparr>mvm = demo_vm, phys = \<lambda>_. 0xCC\<rparr>"
  have n: "unat (e_phnum demo_elf) = 1" by (simp add: demo_elf_segs(1))
  have c: "seg_count demo_ph = 1" by (simp add: seg_count_def demo_ph_def)
  obtain m' r where r: "elf_load demo_elf 88 ?m = Inr (m', r)" "elf_entry r = e_entry demo_elf"
    and l: "seg_loaded demo_elf demo_ph m'"
    using elf_load_image [OF demo_elf_valid, of ?m] demo_vm_ok(1) demo_room
    unfolding n demo_elf_segs(2) by (auto simp: c)
  have lt: "2 < unat (p_memsz demo_ph)" "6 < unat (p_memsz demo_ph)" by (simp_all add: demo_ph_def)
  have "load_byte m' (p_vaddr demo_ph + of_nat 2) = seg_byte demo_elf demo_ph 2"
    "load_byte m' (p_vaddr demo_ph + of_nat 6) = seg_byte demo_elf demo_ph 6"
    using l lt unfolding seg_loaded_def by blast+
  moreover have "seg_byte demo_elf demo_ph 2 = 33" "seg_byte demo_elf demo_ph 6 = 0"
    by (simp_all add: seg_byte_def demo_ph_def demo_elf_get)
  moreover have "e_entry demo_elf = 0x8048000" by (simp add: demo_elf_fields)
  ultimately show ?thesis using r by (intro exI [of _ m'] exI [of _ r]) (simp add: demo_ph_def)
qed

end
