(* ===== verification/Syscall.thy ===== *)
theory Syscall
  imports VfsProps Elf Scheduler KNumber
begin

unbundle bit_operations_syntax

text \<open>
  System calls (\<^verbatim>\<open>kernel/syscall.cpp\<close>) and the shell's \<^verbatim>\<open>exec\<close> command
  (\<^verbatim>\<open>kernel/shell_exec.cpp\<close>): where processes, paging, the heap, the file system and the ELF
  loader meet. A process' memory is reached through the page tables; an access to an address
  nothing is mapped at ends the model's run (\<open>None\<close>), as does a write outside an array and a
  call that does not return. The kernel has one heap: the file system runs on the heap the
  scheduler's state holds. The terminal appears as the list of the calls made on it.
\<close>

section \<open>The kernel's state\<close>

definition MAX_FD :: nat where "MAX_FD = 32"

record fd_entry =
  fd_used :: bool
  fd_node :: vref
  fd_off :: u32

datatype term_call = PutChar u8 | FgColor nat | ResetColor

record kern =
  ksched :: sched
  kvfs :: vfs
  kphys :: "u32 \<Rightarrow> u8"
  fds :: "fd_entry list"
  current_brk :: u32
  console :: "term_call list"

definition kmach :: "kern \<Rightarrow> machine" where
  "kmach s = \<lparr>mvm = kvm (ksched s), phys = kphys s\<rparr>"

definition set_mach :: "machine \<Rightarrow> kern \<Rightarrow> kern" where
  "set_mach m s = s\<lparr>ksched := (ksched s)\<lparr>kvm := mvm m\<rparr>, kphys := phys m\<rparr>"

definition set_heap :: "heap \<Rightarrow> kern \<Rightarrow> kern" where
  "set_heap h s = s\<lparr>ksched := (ksched s)\<lparr>kheap := h\<rparr>\<rparr>"

text \<open>The file system as it runs in the kernel, on the kernel's heap.\<close>

definition the_vfs :: "kern \<Rightarrow> vfs" where
  "the_vfs s = (kvfs s)\<lparr>vfat := (vfat (kvfs s))\<lparr>fheap := kheap (ksched s)\<rparr>\<rparr>"

definition set_vfs :: "vfs \<Rightarrow> kern \<Rightarrow> kern" where
  "set_vfs v s = set_heap (fheap (vfat v)) (s\<lparr>kvfs := v\<rparr>)"

definition value_of :: "fault + 'a \<Rightarrow> 'a option" where
  "value_of r = (case r of Inl e \<Rightarrow> None | Inr x \<Rightarrow> Some x)"

definition say :: "term_call list \<Rightarrow> kern \<Rightarrow> kern" where
  "say cs s = s\<lparr>console := console s @ cs\<rparr>"

definition put_calls :: "bytes \<Rightarrow> term_call list" where
  "put_calls bs = map PutChar bs"

section \<open>A process' memory\<close>

text \<open>The bytes from an address on that can be read, at most \<open>n\<close>.\<close>

fun user_bytes :: "u32 \<Rightarrow> nat \<Rightarrow> machine \<Rightarrow> bytes" where
  "user_bytes v 0 m = []"
| "user_bytes v (Suc n) m =
     (if paging_is_mapped v (mvm m) then load_byte m v # user_bytes (v + 1) n m else [])"

partial_function (option) user_string :: "u32 \<Rightarrow> machine \<Rightarrow> bytes option" where
  "user_string v m =
     (if \<not> paging_is_mapped v (mvm m) then None
      else if load_byte m v = 0 then Some []
      else do { bs \<leftarrow> user_string (v + 1) m; Some (load_byte m v # bs) })"

definition user_path :: "u32 \<Rightarrow> machine \<Rightarrow> bytes option" where
  "user_path v m = (if v = 0 then Some [] else user_string v m)"

definition store_user :: "u32 \<Rightarrow> bytes \<Rightarrow> kern \<Rightarrow> kern option" where
  "store_user v bs s = map_option (\<lambda>m. set_mach m s) (value_of (write_virt v bs (kmach s)))"

text \<open>What follows the last slash of a path.\<close>

definition last_component :: "bytes \<Rightarrow> bytes" where
  "last_component path = fold (\<lambda>c acc. if c = 47 then [] else acc @ [c]) path []"

section \<open>File descriptors\<close>

definition alloc_fd :: "vref \<Rightarrow> kern \<Rightarrow> kern \<times> u32" where
  "alloc_fd r s =
     (case find (\<lambda>i. \<not> fd_used (fds s ! i)) [3..<MAX_FD] of
        None \<Rightarrow> (s, -1)
      | Some i \<Rightarrow> (s\<lparr>fds := (fds s)[i := \<lparr>fd_used = True, fd_node = r, fd_off = 0\<rparr>]\<rparr>, of_nat i))"

text \<open>\<^verbatim>\<open>fd < MAX_FD && fd_table[fd].used\<close>.\<close>

definition fd_open :: "u32 \<Rightarrow> kern \<Rightarrow> bool" where
  "fd_open fd s \<longleftrightarrow> unat fd < MAX_FD \<and> fd_used (fds s ! unat fd)"

definition advance :: "u32 \<Rightarrow> int \<Rightarrow> kern \<Rightarrow> kern" where
  "advance fd r s =
     (let e = fds s ! unat fd in
      if 0 < r then s\<lparr>fds := (fds s)[unat fd := e\<lparr>fd_off := fd_off e + of_int r\<rparr>]\<rparr> else s)"

fun print_user :: "u32 \<Rightarrow> nat \<Rightarrow> kern \<Rightarrow> kern \<times> bool" where
  "print_user v 0 s = (s, True)"
| "print_user v (Suc n) s =
     (if \<not> paging_is_mapped v (kvm (ksched s)) then (s, False)
      else print_user (v + 1) n (say [PutChar (load_byte (kmach s) v)] s))"

definition sys_write :: "u32 \<Rightarrow> u32 \<Rightarrow> u32 \<Rightarrow> kern \<Rightarrow> (kern \<times> u32) option" where
  "sys_write fd buf len0 s =
     (let len = (if 65536 < len0 then 65536 else len0) in
      if fd = 1 \<or> fd = 2 then
        (case print_user buf (unat len) s of (s1, ok) \<Rightarrow> Some (s1, if ok then len else -1))
      else if fd_open fd s then
        let e = fds s ! unat fd in do {
          (v, r) \<leftarrow> vfs_write (fd_node e) (user_bytes buf (unat len) (kmach s)) (fd_off e) len (the_vfs s);
          Some (advance fd r (set_vfs v s), of_int r)
        }
      else Some (s, -1))"

definition sys_read :: "u32 \<Rightarrow> u32 \<Rightarrow> u32 \<Rightarrow> kern \<Rightarrow> (kern \<times> u32) option" where
  "sys_read fd buf len s =
     (if fd = 0 then Some (s, -1)
      else if fd_open fd s then
        let e = fds s ! unat fd in do {
          (v, r, bs) \<leftarrow> vfs_read (fd_node e) (fd_off e) len (the_vfs s);
          s1 \<leftarrow> store_user buf bs (set_vfs v s);
          Some (advance fd r s1, of_int r)
        }
      else Some (s, -1))"

definition sys_open :: "u32 \<Rightarrow> u32 \<Rightarrow> kern \<Rightarrow> (kern \<times> u32) option" where
  "sys_open path_addr flags s = do {
     path \<leftarrow> user_path path_addr (kmach s);
     (v, r) \<leftarrow> vfs_resolve_path path (the_vfs s);
     (v, r) \<leftarrow> (if r = None \<and> flags AND 0x40 \<noteq> 0
               then vfs_create (cwd_node v) (last_component path) v else Some (v, r));
     (case r of
        None \<Rightarrow> Some (set_vfs v s, -1)
      | Some n \<Rightarrow> Some (alloc_fd n (set_vfs v s)))
   }"

definition sys_close :: "u32 \<Rightarrow> kern \<Rightarrow> kern \<times> u32" where
  "sys_close fd s =
     (if fd < 3 \<or> \<not> fd_open fd s then (s, -1)
      else (s\<lparr>fds := (fds s)[unat fd := (fds s ! unat fd)\<lparr>fd_used := False\<rparr>]\<rparr>, 0))"

section \<open>Processes and memory\<close>

definition sys_exit :: "u32 \<Rightarrow> kern \<Rightarrow> kern \<times> u32" where
  "sys_exit sp s = (s\<lparr>ksched := process_exit sp (ksched s)\<rparr>, 0)"

definition sys_getpid :: "kern \<Rightarrow> u32" where
  "sys_getpid s = pid (scheduler_current (ksched s))"

definition sys_nanosleep :: "u32 \<Rightarrow> u32 \<Rightarrow> kern \<Rightarrow> (kern \<times> u32) option" where
  "sys_nanosleep sp ts s =
     (if ts = 0 then Some (s, -1)
      else
        let bs = user_bytes ts 8 (kmach s) in
        if length bs < 8 then None
        else let ms = get32 bs 0 * 1000 + get32 bs 4 div 1000000 in
          Some (if 0 < ms then s\<lparr>ksched := process_sleep sp ms (ksched s)\<rparr> else s, 0))"

definition set_brk :: "u32 \<Rightarrow> kern \<Rightarrow> kern" where
  "set_brk b s = s\<lparr>ksched := upd_proc (current_idx (ksched s)) (\<lambda>p. p\<lparr>brk_curr := b\<rparr>) (ksched s)\<rparr>"

definition page_up :: "u32 \<Rightarrow> u32" where
  "page_up a = (a + 4095) AND NOT 4095"

definition sys_brk :: "u32 \<Rightarrow> kern \<Rightarrow> (kern \<times> u32) option" where
  "sys_brk addr s =
     (let p = scheduler_current (ksched s) in
      if addr = 0 then Some (s, brk_curr p)
      else if addr < brk_start p then Some (s, brk_curr p)
      else if brk_curr p < addr \<and> page_up (brk_curr p) < page_up addr then do {
        (v, ok) \<leftarrow> value_of (paging_alloc_region (page_up (brk_curr p)) (page_up addr - page_up (brk_curr p))
                     (PAGE_PRESENT OR PAGE_WRITE OR PAGE_USER) (kvm (ksched s)));
        (let s1 = s\<lparr>ksched := (ksched s)\<lparr>kvm := v\<rparr>\<rparr> in
         if \<not> ok then Some (s1, brk_curr p) else Some (set_brk addr s1, addr))
      }
      else Some (set_brk addr s, addr))"

definition sys_mmap2 :: "u32 \<Rightarrow> kern \<Rightarrow> (kern \<times> u32) option" where
  "sys_mmap2 len s = do {
     (h, p) \<leftarrow> kmalloc (kheap (ksched s)) len;
     Some (set_heap h s, if p \<noteq> 0 then p else -1)
   }"

definition sys_munmap :: "u32 \<Rightarrow> kern \<Rightarrow> kern \<times> u32" where
  "sys_munmap addr s = (set_heap (kfree (kheap (ksched s)) addr) s, 0)"

definition uts_fields :: "(u32 \<times> string) list" where
  "uts_fields = [(0, ''SabakaOS''), (65, ''sabaka''), (130, ''0.2.0''), (195, ''#1 SMP''), (260, ''i686'')]"

fun store_fields :: "u32 \<Rightarrow> (u32 \<times> string) list \<Rightarrow> kern \<Rightarrow> kern option" where
  "store_fields buf [] s = Some s"
| "store_fields buf ((off, str) # fs) s = do {
     s1 \<leftarrow> store_user (buf + off) (map of_char str @ [0]) s;
     store_fields buf fs s1
   }"

definition sys_uname :: "u32 \<Rightarrow> kern \<Rightarrow> (kern \<times> u32) option" where
  "sys_uname buf s =
     (if buf = 0 then Some (s, -1) else map_option (\<lambda>s1. (s1, 0)) (store_fields buf uts_fields s))"

section \<open>Running a program\<close>

text \<open>
  \<^verbatim>\<open>if (node->data) node->size = ((Fat32Entry*)node->data)->size\<close>: the size of the FAT32 entry lies at
  offset 264 of the structure, which in a RAM file is data.
\<close>

definition entry_size :: "vref \<Rightarrow> vfs \<Rightarrow> vfs" where
  "entry_size r v =
     (let n = node r v in
      case vdata n of
        NoData \<Rightarrow> v
      | FileData d \<Rightarrow> set_node r (n\<lparr>vsize := get32 d 264\<rparr>) v
      | DiskEntry e \<Rightarrow> set_node r (n\<lparr>vsize := fsize e\<rparr>) v)"

text \<open>
  The program's file, read into a buffer from the heap that is freed after loading: a
  message for an error, or the number of bytes read and the result of loading them.
\<close>

datatype exec_error = NotFound | EmptyFile | NoMemory | ReadError

definition load_program ::
  "(int \<Rightarrow> u32 \<Rightarrow> bool) \<Rightarrow> bytes \<Rightarrow> kern \<Rightarrow> (kern \<times> (exec_error + elf_result)) option" where
  "load_program complete path s = do {
     (v, r) \<leftarrow> vfs_resolve_path path (the_vfs s);
     (case r of
        None \<Rightarrow> Some (set_vfs v s, Inl NotFound)
      | Some n \<Rightarrow>
          if vtype (node n v) \<noteq> VFS_FILE then Some (set_vfs v s, Inl NotFound)
          else
            let v1 = entry_size n v; sz = vsize (node n v1) in
            if sz = 0 then Some (set_vfs v1 s, Inl EmptyFile)
            else do {
              (v2, buf) \<leftarrow> vkmalloc sz v1;
              if buf = 0 then Some (set_vfs v2 s, Inl NoMemory)
              else do {
                (v3, k, bs) \<leftarrow> vfs_read n 0 sz v2;
                if \<not> complete k sz then Some (set_vfs (vkfree buf v3) s, Inl ReadError)
                else do {
                  (m, res) \<leftarrow> value_of (elf_load bs (of_int k) (kmach s));
                  Some (set_vfs (vkfree buf v3) (set_mach m s), Inr res)
                }
              }
            })
   }"

definition start_program ::
  "(nat \<Rightarrow> u32) \<Rightarrow> u32 \<Rightarrow> elf_result \<Rightarrow> bytes \<Rightarrow> kern \<Rightarrow> (kern \<times> nat option) option" where
  "start_program slot entry res path s = do {
     r \<leftarrow> process_create_user slot entry (elf_entry res) (last_component path) 5 (ksched s);
     (c, p) \<leftarrow> value_of r;
     (case p of
        None \<Rightarrow> Some (s\<lparr>ksched := c\<rparr>, None)
      | Some i \<Rightarrow> Some (s\<lparr>ksched := upd_proc i (\<lambda>p. p\<lparr>brk_start := load_end res, brk_curr := load_end res\<rparr>) c\<rparr>, Some i))
   }"

definition msg :: "string \<Rightarrow> term_call list" where
  "msg str = put_calls (map of_char str)"

definition newline :: "term_call list" where
  "newline = [PutChar 10]"

definition sys_execve :: "(nat \<Rightarrow> u32) \<Rightarrow> u32 \<Rightarrow> u32 \<Rightarrow> kern \<Rightarrow> (kern \<times> u32) option" where
  "sys_execve slot entry path_addr s =
     (if path_addr = 0 then Some (s, -1)
      else do {
        path \<leftarrow> user_string path_addr (kmach s);
        (s1, res) \<leftarrow> load_program (\<lambda>k sz. 0 < k \<and> of_int k = sz) path s;
        (case res of
           Inl NotFound \<Rightarrow> Some (say (msg ''[execve] file not found: '' @ put_calls path @ newline) s1, -1)
         | Inl e \<Rightarrow> Some (s1, -1)
         | Inr elf \<Rightarrow>
             if \<not> elf_ok elf then Some (say (msg ''[execve] ELF load failed'' @ newline) s1, -1)
             else do {
               (s2, p) \<leftarrow> start_program slot entry elf path s1;
               (case p of
                  None \<Rightarrow> Some (say (msg ''[execve] process_create_user failed'' @ newline) s2, -1)
                | Some i \<Rightarrow> Some (s2, pid (procs (ksched s2) ! i)))
             })
      })"

definition in_color :: "nat \<Rightarrow> term_call list \<Rightarrow> term_call list" where
  "in_color c ts = [FgColor c] @ ts @ [ResetColor]"

text \<open>The command's arguments, the command's name first.\<close>

definition cmd_exec :: "(nat \<Rightarrow> u32) \<Rightarrow> u32 \<Rightarrow> bytes list \<Rightarrow> kern \<Rightarrow> kern option" where
  "cmd_exec slot entry argv s =
     (if length argv < 2 then
        Some (say (msg ''Usage: exec <path>'' @ newline @ msg ''  Example: exec /disk/bin/hello'' @ newline) s)
      else let path = argv ! 1 in do {
        (s1, res) \<leftarrow> load_program (\<lambda>k sz. 0 < k) path s;
        (case res of
           Inl NotFound \<Rightarrow> Some (say (in_color 12 (msg ''exec: not found: '' @ put_calls path @ newline)) s1)
         | Inl EmptyFile \<Rightarrow> Some (say (in_color 12 (msg ''exec: file is empty'' @ newline)) s1)
         | Inl NoMemory \<Rightarrow> Some (say (msg ''exec: out of memory'' @ newline) s1)
         | Inl ReadError \<Rightarrow> Some (say (msg ''exec: read error'' @ newline) s1)
         | Inr elf \<Rightarrow>
             if \<not> elf_ok elf then
               Some (say (in_color 12 (msg ''exec: not a valid ELF32 executable'' @ newline)) s1)
             else do {
               (s2, p) \<leftarrow> start_program slot entry elf path s1;
               (case p of
                  None \<Rightarrow> Some (say (in_color 12 (msg ''exec: failed to create process'' @ newline)) s2)
                | Some i \<Rightarrow> Some (say (in_color 10 (msg ''exec: started '' @ [PutChar 39]
                    @ put_calls (last_component path) @ [PutChar 39] @ msg '' pid=''
                    @ put_calls (udec (pid (procs (ksched s2) ! i))) @ newline)) s2))
             })
      })"

section \<open>Dispatch\<close>

record registers =
  eax :: u32
  ebx :: u32
  ecx :: u32
  edx :: u32

definition syscall_dispatch ::
  "(nat \<Rightarrow> u32) \<Rightarrow> u32 \<Rightarrow> u32 \<Rightarrow> registers \<Rightarrow> kern \<Rightarrow> (kern \<times> u32) option" where
  "syscall_dispatch slot entry sp regs s =
     (let num = eax regs; a = ebx regs; b = ecx regs; c = edx regs in
      if num = 1 then Some (sys_exit sp s)
      else if num = 3 then sys_read a b c s
      else if num = 4 then sys_write a b c s
      else if num = 5 then sys_open a b s
      else if num = 6 then Some (sys_close a s)
      else if num = 20 then Some (s, sys_getpid s)
      else if num = 162 then sys_nanosleep sp a s
      else if num = 45 then sys_brk a s
      else if num = 192 then sys_mmap2 b s
      else if num = 91 then Some (sys_munmap a s)
      else if num = 122 then sys_uname a s
      else if num = 11 then sys_execve slot entry a s
      else Some (s, -38))"

definition syscall_init :: "kern \<Rightarrow> kern" where
  "syscall_init s = s\<lparr>fds := map (\<lambda>e. e\<lparr>fd_used := False\<rparr>) (fds s), current_brk := 0x06000000\<rparr>"

end
