(* ===== verification/SyscallProps.thy ===== *)
theory SyscallProps
  imports Syscall
begin

unbundle bit_operations_syntax

text \<open>
  What programs can rely on when they call the kernel: file descriptors, the file system behind
  them and a process' memory work together.
\<close>

section \<open>Frames of the kernel's operations\<close>

lemma set_vfs_frame [simp]:
  "kmach (set_vfs v s) = kmach s" "the_vfs (set_vfs v s) = v" "fds (set_vfs v s) = fds s"
  "kvm (ksched (set_vfs v s)) = kvm (ksched s)" "kphys (set_vfs v s) = kphys s"
  by (simp_all add: set_vfs_def set_heap_def kmach_def the_vfs_def)

lemma set_mach_frame [simp]:
  "kmach (set_mach m s) = m" "the_vfs (set_mach m s) = the_vfs s" "fds (set_mach m s) = fds s"
  by (simp_all add: set_mach_def kmach_def the_vfs_def)

lemma fds_frame [simp]:
  "kmach (s\<lparr>fds := f\<rparr>) = kmach s" "the_vfs (s\<lparr>fds := f\<rparr>) = the_vfs s"
  by (simp_all add: kmach_def the_vfs_def)

lemma advance_frame [simp]:
  "kmach (advance fd r s) = kmach s" "the_vfs (advance fd r s) = the_vfs s"
  "length (fds (advance fd r s)) = length (fds s)"
  by (simp_all add: advance_def Let_def)

section \<open>Reading a process' memory\<close>

definition buffer_in :: "u32 set \<Rightarrow> u32 \<Rightarrow> nat \<Rightarrow> bool" where
  "buffer_in P v n \<longleftrightarrow> (\<forall>k < n. drop_bit 12 (v + of_nat k) \<in> P)"

lemma buffer_in_Suc: "buffer_in P v (Suc n) \<Longrightarrow> drop_bit 12 v \<in> P \<and> buffer_in P (v + 1) n"
proof -
  assume h: "buffer_in P v (Suc n)"
  have "drop_bit 12 (v + 1 + of_nat k) \<in> P" if "k < n" for k
    using h [unfolded buffer_in_def, rule_format, of "Suc k"] that by (simp add: add.assoc)
  moreover have "drop_bit 12 v \<in> P" using h [unfolded buffer_in_def, rule_format, of 0] by simp
  ultimately show ?thesis by (simp add: buffer_in_def)
qed

lemma user_bytes_backed:
  assumes "backed_by fr P (mvm m)" "buffer_in P v n"
  shows "user_bytes v n m = map (\<lambda>k. load_byte m (v + of_nat k)) [0..<n]"
  using assms(2)
proof (induction n arbitrary: v)
  case 0
  then show ?case by simp
next
  case (Suc n)
  have b: "drop_bit 12 v \<in> P" "buffer_in P (v + 1) n" using buffer_in_Suc [OF Suc.prems] by auto
  have "paging_is_mapped v (mvm m)" using backed_nonzero [OF assms(1) b(1)] by (simp add: paging_is_mapped_def)
  moreover have "map (\<lambda>k. load_byte m (v + of_nat k)) [0..<Suc n]
      = load_byte m v # map (\<lambda>k. load_byte m (v + 1 + of_nat k)) [0..<n]"
    by (simp only: upt_conv_Cons zero_less_Suc list.map map_Suc_upt [symmetric] map_map) (simp add: comp_def add.assoc)
  ultimately show ?case using Suc.IH [OF b(2)] by simp
qed

lemma store_user_backed:
  assumes "backed_by fr P (kvm (ksched s))" "buffer_in P v (length bs)" "length bs < 2 ^ 32"
  shows "\<exists>m. store_user v bs s = Some (set_mach m s)
    \<and> (\<forall>k < length bs. load_byte m (v + of_nat k) = bs ! k)"
proof -
  have "backed_by fr P (mvm (kmach s))" using assms(1) by (simp add: kmach_def)
  from write_virt_ok [OF this assms(2) [unfolded buffer_in_def] assms(3)] obtain m where
    m: "write_virt v bs (kmach s) = Inr m"
      "\<And>w. drop_bit 12 w \<in> P \<Longrightarrow> load_byte m w = (if unat (w - v) < length bs then bs ! unat (w - v) else load_byte (kmach s) w)"
    by blast
  have "load_byte m (v + of_nat k) = bs ! k" if "k < length bs" for k
    using m(2) [of "v + of_nat k"] assms(2,3) that by (simp add: buffer_in_def unat_of_nat32)
  with m(1) show ?thesis by (auto simp: store_user_def value_of_def)
qed

section \<open>Paths of one component\<close>

lemma last_component_name: "47 \<notin> set nm \<Longrightarrow> last_component nm = nm"
proof -
  have "47 \<notin> set nm \<Longrightarrow> fold (\<lambda>c acc. if c = 47 then [] else acc @ [c]) nm acc = acc @ nm" for acc
    by (induction nm arbitrary: acc) auto
  from this [of "[]"] show "47 \<notin> set nm \<Longrightarrow> last_component nm = nm" by (simp add: last_component_def)
qed

lemma resolve_name:
  assumes "tree_ok v" "good_name nm" "cwd_node v = Pool c" "c < node_pool_used v"
  shows "vfs_resolve_path nm v = Some (v, ramfs_finddir (Pool c) nm v)"
proof -
  have g: "nm \<noteq> []" "47 \<notin> set nm" "nm \<noteq> [46]" "nm \<noteq> [46, 46]" using assms(2) by (auto simp: good_name_def)
  have "hd nm \<noteq> 47" using g(1,2) by (cases nm) auto
  note n = g(1) this g(3,4)
  then have "vfs_resolve_path nm v = vfs_walk nm (Pool c) v"
    using assms(3) by (auto simp: vfs_resolve_path_def split: list.split)
  moreover have "dropWhile (\<lambda>c. c = 47) nm = nm" using n by (cases nm) auto
  moreover have "component nm = nm" using component_name [OF assms(2), of "[]"] by simp
  ultimately show ?thesis
    using n finddir_ram [OF assms(1,4), of nm]
    by (subst (asm) vfs_walk.simps) (auto simp: Let_def walk_end split: option.split)
qed

section \<open>Operations on the tree\<close>

text \<open>A new file is found under its name.\<close>

lemma create_found:
  assumes ok: "tree_ok v" and c: "c < node_pool_used v" and nm: "good_name nm"
    and cr: "vfs_create (Pool c) nm v = Some (v1, Some q)"
  shows "tree_ok v1 \<and> cwd_node v1 = cwd_node v \<and> (\<exists>j < node_pool_used v1. q = Pool j)
    \<and> ramfs_finddir (Pool c) nm v1 = Some q"
proof -
  let ?u = "node_pool_used v"
  have add: "ramfs_add VFS_FILE (Pool c) nm v = Some (v1, Some q)"
    using cr tree_ops [OF ok c] by (simp add: vfs_create_def ramfs_create_def)
  then have ok1: "tree_ok v1" using add_keeps_tree [OF ok c nm, of VFS_FILE] by simp
  have v1: "q = Pool ?u" "node_pool_used v1 = ?u + 1" "cwd_node v1 = cwd_node v"
    "vname (node_pool v1 ! ?u) = nm" "vparent (node_pool v1 ! ?u) = Some (Pool c)"
    using add c ok by (auto simp: ramfs_add_def alloc_node_def Let_def tree_ok_def split: if_splits)
  from finddir_child [OF ok1, of ?u] v1 c show ?thesis using ok1 by auto
qed

text \<open>Writing leaves names and shape alone.\<close>

definition same_names :: "vfs \<Rightarrow> vfs \<Rightarrow> bool" where
  "same_names v v1 \<longleftrightarrow> cwd_node v1 = cwd_node v \<and> node_pool_used v1 = node_pool_used v
     \<and> (\<forall>j. vname (node_pool v1 ! j) = vname (node_pool v ! j) \<and> vtype (node_pool v1 ! j) = vtype (node_pool v ! j)
          \<and> vchildren (node_pool v1 ! j) = vchildren (node_pool v ! j))"

lemma same_names_refl [simp]: "same_names v v"
  by (simp add: same_names_def)

lemma store_names:
  "ramfs_store (Pool i) d off m buf fin v = Some (v1, k) \<Longrightarrow> same_names v v1"
  by (cases "i < length (node_pool v)")
    (auto simp: ramfs_store_def same_names_def Let_def nth_list_update list_update_beyond not_less split: if_splits)

lemma write_names:
  assumes "vops (node_pool v ! i) = Some RamOps" "vfs_write (Pool i) buf off sz v = Some (v1, k)"
  shows "same_names v v1"
proof -
  have w: "ramfs_write (Pool i) buf off sz v = Some (v1, k)" using assms by (simp add: vfs_write_def)
  have heap: "same_names v1' v2 \<Longrightarrow> vkmalloc n v = Some (v1', p) \<Longrightarrow> same_names v v2" for n v1' v2 p
    by (auto simp: vkmalloc_def same_names_def)
  have refl: "vkmalloc n v = Some (v2, p) \<Longrightarrow> same_names v v2" for n v2 p
    by (auto simp: vkmalloc_def same_names_def)
  from w show ?thesis
    unfolding ramfs_write_def Let_def node_Pool
    by (auto simp: refl bind_eq_Some_conv split: if_splits node_data.splits dest!: store_names dest: heap)
qed

lemma names_finddir:
  assumes "tree_ok v" "c < node_pool_used v" "same_names v v1"
  shows "ramfs_finddir (Pool c) nm v1 = ramfs_finddir (Pool c) nm v"
proof -
  have "vname (node x v1) = vname (node x v)" if "x \<in> set (vchildren (node_pool v ! c))" for x
    using tree_node [OF assms(1,2)] that assms(3) by (auto simp: node_ok_def same_names_def)
  then have "find (\<lambda>x. vname (node x v1) = nm) (vchildren (node_pool v ! c))
    = find (\<lambda>x. vname (node x v) = nm) (vchildren (node_pool v ! c))" by (intro find_cong) simp_all
  with assms(3) show ?thesis by (simp add: ramfs_finddir_def same_names_def)
qed

section \<open>Descriptors\<close>

lemma alloc_fd_some:
  assumes "length (fds s) = MAX_FD" "alloc_fd r s = (s1, fd)" "fd \<noteq> - 1"
  shows "\<exists>i. 3 \<le> i \<and> i < MAX_FD \<and> fd = of_nat i \<and> unat fd = i \<and> \<not> fd_used (fds s ! i)
    \<and> s1 = s\<lparr>fds := (fds s)[i := \<lparr>fd_used = True, fd_node = r, fd_off = 0\<rparr>]\<rparr>"
proof -
  obtain i where i: "find (\<lambda>i. \<not> fd_used (fds s ! i)) [3..<MAX_FD] = Some i"
    using assms(2,3) by (auto simp: alloc_fd_def split: option.splits)
  then have "3 \<le> i" "i < MAX_FD" "\<not> fd_used (fds s ! i)" by (auto simp: find_Some_iff)
  moreover have "unat (of_nat i :: u32) = i" using \<open>i < MAX_FD\<close> by (intro unat_of_nat32) (simp add: MAX_FD_def)
  ultimately show ?thesis using assms(2) i by (auto simp: alloc_fd_def)
qed

lemma alloc_fd_free:
  assumes "3 \<le> i" "i < MAX_FD" "\<not> fd_used (fds s ! i)"
  shows "snd (alloc_fd r s) \<noteq> - 1"
proof -
  have "find (\<lambda>i. \<not> fd_used (fds s ! i)) [3..<MAX_FD] \<noteq> None" using assms by (auto simp: find_None_iff)
  then obtain j where j: "find (\<lambda>i. \<not> fd_used (fds s ! i)) [3..<MAX_FD] = Some j" by blast
  then have "j < MAX_FD" by (auto simp: find_Some_iff)
  then have "unat (of_nat j :: u32) < 32" by (simp add: MAX_FD_def unat_of_nat32)
  moreover have "\<not> unat (- 1 :: u32) < 32" by (simp add: unsigned_minus_1_eq_mask mask_eq_exp_minus_1)
  ultimately have "(of_nat j :: u32) \<noteq> - 1" by metis
  with j show ?thesis by (simp add: alloc_fd_def)
qed

section \<open>Opening\<close>

definition named :: "u32 \<Rightarrow> bytes \<Rightarrow> kern \<Rightarrow> bool" where
  "named a nm s \<longleftrightarrow> a \<noteq> 0 \<and> user_string a (kmach s) = Some nm \<and> good_name nm"

lemma named_path: "named a nm s \<Longrightarrow> user_path a (kmach s) = Some nm"
  by (simp add: named_def user_path_def)

lemma tree_cwd: "tree_ok v \<Longrightarrow> \<exists>c < node_pool_used v. cwd_node v = Pool c"
  by (auto simp: tree_ok_def)

lemma open_found:
  assumes "tree_ok (the_vfs s)" "named a nm s" "cwd_node (the_vfs s) = Pool c" "c < node_pool_used (the_vfs s)"
    and "ramfs_finddir (Pool c) nm (the_vfs s) = Some r"
  shows "sys_open a flags s = Some (alloc_fd r (set_vfs (the_vfs s) s))"
  using resolve_name [OF assms(1) _ assms(3,4), of nm] assms(2,5) named_path [OF assms(2)]
  by (simp add: sys_open_def named_def)

lemma open_ok:
  assumes ok: "tree_ok (the_vfs s)" and len: "length (fds s) = MAX_FD" and nm: "named a nm s"
    and op: "sys_open a flags s = Some (s1, fd)" and fd: "fd \<noteq> -1"
  shows "\<exists>c j i v. tree_ok v \<and> cwd_node v = Pool c \<and> c < node_pool_used v \<and> j < node_pool_used v
    \<and> ramfs_finddir (Pool c) nm v = Some (Pool j)
    \<and> 3 \<le> i \<and> i < MAX_FD \<and> unat fd = i \<and> \<not> fd_used (fds s ! i)
    \<and> s1 = (set_vfs v s)\<lparr>fds := (fds s)[i := \<lparr>fd_used = True, fd_node = Pool j, fd_off = 0\<rparr>]\<rparr>"
proof -
  let ?v = "the_vfs s"
  obtain c where c: "c < node_pool_used ?v" "cwd_node ?v = Pool c" using tree_cwd [OF ok] by blast
  have g: "good_name nm" "47 \<notin> set nm" using nm by (auto simp: named_def good_name_def)
  have r: "vfs_resolve_path nm ?v = Some (?v, ramfs_finddir (Pool c) nm ?v)"
    by (rule resolve_name [OF ok g(1) c(2,1)])
  have "\<exists>v q. tree_ok v \<and> cwd_node v = Pool c \<and> c < node_pool_used v \<and> (\<exists>j < node_pool_used v. q = Pool j)
      \<and> ramfs_finddir (Pool c) nm v = Some q \<and> alloc_fd q (set_vfs v s) = (s1, fd)"
  proof (cases "ramfs_finddir (Pool c) nm ?v")
    case (Some q)
    with finddir_pool [OF ok c(1) Some] open_found [OF ok nm c(2,1) Some] op ok c show ?thesis
      by (intro exI [of _ ?v] exI [of _ q]) auto
  next
    case None
    then obtain v q where cr: "vfs_create (Pool c) nm ?v = Some (v, Some q)" "alloc_fd q (set_vfs v s) = (s1, fd)"
      using op fd r named_path [OF nm] c(2) last_component_name [OF g(2)]
      by (auto simp: sys_open_def bind_eq_Some_conv split: if_splits option.splits)
    have "node_pool_used ?v \<le> node_pool_used v"
      using cr(1) tree_ops [OF ok c(1)]
      by (auto simp: vfs_create_def ramfs_create_def ramfs_add_def alloc_node_def Let_def split: if_splits)
    with create_found [OF ok c(1) g(1) cr(1)] cr(2) c show ?thesis
      by (intro exI [of _ v] exI [of _ q]) auto
  qed
  then obtain v q j where v: "tree_ok v" "cwd_node v = Pool c" "c < node_pool_used v" "j < node_pool_used v" "q = Pool j"
    "ramfs_finddir (Pool c) nm v = Some q" "alloc_fd q (set_vfs v s) = (s1, fd)" by blast
  from alloc_fd_some [OF _ v(7) fd] len obtain i where "3 \<le> i" "i < MAX_FD" "unat fd = i" "\<not> fd_used (fds s ! i)"
    "s1 = (set_vfs v s)\<lparr>fds := (fds s)[i := \<lparr>fd_used = True, fd_node = q, fd_off = 0\<rparr>]\<rparr>" by auto
  with v show ?thesis by blast
qed

section \<open>The program break\<close>

lemma page_up_align: "page_up a = align_up a 4096"
  by (simp add: page_up_def align_up_def add.commute)

lemma unat_page_up: "unat a + 4095 < 2 ^ 32 \<Longrightarrow> unat (page_up a) = (unat a + 4095) div 4096 * 4096"
  unfolding page_up_align by (rule unat_align_up)

text \<open>The pages of a page-aligned region.\<close>

lemma region_page:
  assumes "unat v = 4096 * a" "unat v + 4096 * n < 2 ^ 32"
  shows "(\<exists>k < n. drop_bit 12 w = page_no v k) \<longleftrightarrow> unat v \<le> unat w \<and> unat w < unat v + 4096 * n"
proof -
  have p: "unat (page_no v k) = a + k" if "k < n" for k
    using unat_page_no [of v k] that assms by simp
  have "(\<exists>k < n. drop_bit 12 w = page_no v k) \<longleftrightarrow> (\<exists>k < n. unat w div 4096 = a + k)"
    using p by (auto simp: word_eq_unat unat_drop12)
  also have "\<dots> \<longleftrightarrow> a \<le> unat w div 4096 \<and> unat w div 4096 < a + n"
    using le_Suc_ex [of a "unat w div 4096"] by auto
  also have "\<dots> \<longleftrightarrow> unat v \<le> unat w \<and> unat w < unat v + 4096 * n"
    unfolding assms(1) by (simp add: less_eq_div_iff_mult_less_eq div_less_iff_less_mult algebra_simps)
  finally show ?thesis .
qed

lemma fresh_mapped:
  assumes "vm_ok s" "f \<notin> pmm_frames (pmm_st s)" "aligned f"
  shows "f + (w AND 0xFFF) \<noteq> 0"
proof -
  have "f \<noteq> 0" using zero_frame [OF assms(1)] assms(2) by auto
  then have "unat f \<noteq> 0" by (simp add: unat_eq_zero)
  then have "unat (f + (w AND 0xFFF)) \<noteq> 0" using page_offset_split(1) [OF assms(3), of w] by simp
  then show ?thesis by (simp only: unat_eq_zero not_False_eq_True)
qed

section \<open>An open file\<close>

text \<open>What a write, a close and a read do to a descriptor that is open on file \<open>j\<close> of the tree.\<close>

definition open_at :: "u32 \<Rightarrow> nat \<Rightarrow> kern \<Rightarrow> bool" where
  "open_at fd j s \<longleftrightarrow> 3 \<le> unat fd \<and> unat fd < MAX_FD \<and> length (fds s) = MAX_FD
     \<and> fds s ! unat fd = \<lparr>fd_used = True, fd_node = Pool j, fd_off = 0\<rparr>"

lemma open_at_simps:
  assumes "open_at fd j s"
  shows "fd_open fd s" "\<not> fd < 3" "fd \<noteq> 0" "fd \<noteq> 1" "fd \<noteq> 2" "fds s ! unat fd = \<lparr>fd_used = True, fd_node = Pool j, fd_off = 0\<rparr>"
  using assms by (auto simp: open_at_def fd_open_def word_less_nat_alt)

lemma write_open:
  assumes o: "open_at fd j s" and t: "tree_ok (the_vfs s)" "j < node_pool_used (the_vfs s)"
    and bs: "user_bytes v (unat n) (kmach s) = bs" "length bs = unat n" "unat n \<le> 4096"
    and wr: "sys_write fd v n s = Some (s2, r)" "r \<noteq> -1"
  shows "r = n \<and> (\<exists>t2. s2 = advance fd (int (unat n)) (set_vfs t2 s) \<and> tree_ok t2 \<and> same_names (the_vfs s) t2
     \<and> vtype (node_pool t2 ! j) = VFS_FILE \<and> take (unat n) (fbytes (node_pool t2 ! j)) = bs)"
proof -
  have n64: "\<not> 65536 < n" using bs(3) by (simp add: word_less_nat_alt)
  obtain t2 k where w: "vfs_write (Pool j) bs 0 n (the_vfs s) = Some (t2, k)"
    "s2 = advance fd k (set_vfs t2 s)" "r = of_int k"
    using wr(1) open_at_simps [OF o] n64 bs(1) by (auto simp: sys_write_def Let_def bind_eq_Some_conv)
  have isf: "vtype (node_pool (the_vfs s) ! j) = VFS_FILE"
  proof (rule ccontr)
    assume "\<not> ?thesis"
    then have "k = -1" using w(1) tree_ops [OF t] by (simp add: vfs_write_def ramfs_write_def)
    with w(3) wr(2) show False by simp
  qed
  have wn: "written 0 n = unat n" using bs(3) by (simp add: written_def)
  have "tree_ok t2" "k = int (unat n)" "fbytes (node_pool t2 ! j) = splice 0 bs (fbytes (node_pool (the_vfs s) ! j))"
    "vtype (node_pool t2 ! j) = VFS_FILE"
    using write_file [OF t isf, of bs n 0] bs w wr(2) unfolding wn by auto
  then show ?thesis using w(2,3) write_names [OF tree_ops [OF t] w(1)] bs(2) by (auto simp: splice_def Let_def)
qed

lemma close_open:
  assumes "open_at fd j s0" "s = advance fd k (set_vfs t s0)"
  shows "the_vfs (fst (sys_close fd s)) = t \<and> kmach (fst (sys_close fd s)) = kmach s0
     \<and> length (fds (fst (sys_close fd s))) = MAX_FD \<and> \<not> fd_used (fds (fst (sys_close fd s)) ! unat fd)"
  using assms open_at_simps [OF assms(1)]
  by (auto simp: open_at_def sys_close_def fd_open_def advance_def Let_def word_less_nat_alt)

lemma read_open:
  assumes o: "open_at fd j s" and t: "tree_ok (the_vfs s)" "j < node_pool_used (the_vfs s)" "vtype (node_pool (the_vfs s) ! j) = VFS_FILE"
    and bs: "take (unat n) (fbytes (node_pool (the_vfs s) ! j)) = bs" "length bs = unat n"
    and mem: "backed_by fr P (kvm (ksched s))" "buffer_in P w (unat n)"
  shows "\<exists>s4. sys_read fd w n s = Some (s4, n) \<and> (\<forall>k < unat n. load_byte (kmach s4) (w + of_nat k) = bs ! k)"
proof -
  have rd: "vfs_read (Pool j) 0 n (the_vfs s) = Some (the_vfs s, int (unat n), bs)"
    using read_file [OF t, of 0 n] bs by (simp add: Let_def)
  obtain m where m: "store_user w bs (set_vfs (the_vfs s) s) = Some (set_mach m (set_vfs (the_vfs s) s))"
    "\<forall>k < length bs. load_byte m (w + of_nat k) = bs ! k"
    using store_user_backed [of fr P "set_vfs (the_vfs s) s" w bs] mem bs(2) unat_lt32 [of n] by auto
  let ?s4 = "advance fd (int (unat n)) (set_mach m (set_vfs (the_vfs s) s))"
  have "sys_read fd w n s = Some (?s4, of_int (int (unat n)))"
    using open_at_simps [OF o] rd m(1) by (simp add: sys_read_def Let_def)
  then show ?thesis using m(2) bs(2) by (auto intro!: exI [of _ ?s4])
qed

section \<open>Properties\<close>

text \<open>
  C3: files across system calls. A program opens a file by name with the flag that creates it,
  writes up to 4096 bytes from its memory, closes it, opens the name again and reads into
  another buffer of its memory: when the first open and the write do not report an error, the
  write takes every byte, the second open succeeds, the read returns as many bytes, and the
  second buffer holds what the first one held.
\<close>

theorem file_round_trip:
  assumes ok: "tree_ok (the_vfs s)" and len: "length (fds s) = MAX_FD" and nm: "named a nm s"
    and mem: "backed_by fr P (kvm (ksched s))" "buffer_in P v (unat n)" "buffer_in P w (unat n)" "unat n \<le> 4096"
    and op: "sys_open a 0x40 s = Some (s1, fd)" "fd \<noteq> -1"
    and wr: "sys_write fd v n s1 = Some (s2, r)" "r \<noteq> -1"
  shows "r = n \<and> (\<exists>s3 fd' s4. sys_open a 0 (fst (sys_close fd s2)) = Some (s3, fd') \<and> fd' \<noteq> -1
    \<and> sys_read fd' w n s3 = Some (s4, n)
    \<and> (\<forall>k < unat n. load_byte (kmach s4) (w + of_nat k) = load_byte (kmach s) (v + of_nat k)))"
proof -
  obtain c j i t where t: "tree_ok t" "cwd_node t = Pool c" "c < node_pool_used t" "j < node_pool_used t"
    "ramfs_finddir (Pool c) nm t = Some (Pool j)"
    and i: "3 \<le> i" "i < MAX_FD" "unat fd = i" "\<not> fd_used (fds s ! i)"
    and s1: "s1 = (set_vfs t s)\<lparr>fds := (fds s)[i := \<lparr>fd_used = True, fd_node = Pool j, fd_off = 0\<rparr>]\<rparr>"
    using open_ok [OF ok len nm op] by blast
  define bs where "bs = map (\<lambda>k. load_byte (kmach s) (v + of_nat k)) [0..<unat n]"
  have bk: "backed_by fr P (mvm (kmach s))" using mem(1) by (simp add: kmach_def)
  have ub: "user_bytes v (unat n) (kmach s) = bs" "length bs = unat n"
    using user_bytes_backed [OF bk mem(2)] by (simp_all add: bs_def)
  have o1: "open_at fd j s1" using i len by (simp add: open_at_def s1)
  obtain t2 where w: "r = n" "s2 = advance fd (int (unat n)) (set_vfs t2 s1)" "tree_ok t2" "same_names t t2"
    "vtype (node_pool t2 ! j) = VFS_FILE" "take (unat n) (fbytes (node_pool t2 ! j)) = bs"
    using write_open [OF o1 _ _ _ ub(2) mem(4) wr] t(1,4) ub(1) by (auto simp: s1)
  have c2: "cwd_node t2 = Pool c" "c < node_pool_used t2" "j < node_pool_used t2"
    using t(2-4) w(4) by (simp_all add: same_names_def)
  have fd2: "ramfs_finddir (Pool c) nm t2 = Some (Pool j)" using names_finddir [OF t(1,3) w(4)] t(5) by simp
  let ?s = "fst (sys_close fd s2)"
  have cl: "the_vfs ?s = t2" "kmach ?s = kmach s" "length (fds ?s) = MAX_FD" "\<not> fd_used (fds ?s ! i)"
    using close_open [OF o1 w(2)] i(3) by (simp_all add: s1)
  have nm2: "named a nm ?s" using nm by (simp add: named_def cl(2))
  obtain s3 fd' where op3: "alloc_fd (Pool j) (set_vfs t2 ?s) = (s3, fd')" by fastforce
  have o3: "sys_open a 0 ?s = Some (s3, fd')"
    using open_found [of ?s a nm c "Pool j" 0] cl(1) w(3) nm2 c2 fd2 op3 by simp
  have ne: "fd' \<noteq> -1" using alloc_fd_free [OF i(1,2), of "set_vfs t2 ?s" "Pool j"] cl(4) op3 by simp
  from alloc_fd_some [OF _ op3 ne] cl have s3: "open_at fd' j s3" "kmach s3 = kmach s" "the_vfs s3 = t2"
    by (auto simp: open_at_def)
  have "kvm (ksched s3) = kvm (ksched s)" using s3(2) by (simp add: kmach_def)
  then obtain s4 where "sys_read fd' w n s3 = Some (s4, n)" "\<forall>k < unat n. load_byte (kmach s4) (w + of_nat k) = bs ! k"
    using read_open [OF s3(1) _ _ _ _ ub(2) _ mem(3)] w c2(3) s3(3) mem(1) by auto
  then show ?thesis using o3 ne w(1) by (auto simp: bs_def)
qed

text \<open>A program with one page at \<open>0x8048000\<close> that holds the name \<open>a\<close> and two bytes.\<close>

definition demo_kern :: "machine \<Rightarrow> kern" where
  "demo_kern m = \<lparr>ksched = demo_sched\<lparr>kheap := fheap (vfat demo_file), kvm := mvm m\<rparr>, kvfs = demo_file, kphys = phys m,
     fds = replicate 32 \<lparr>fd_used = False, fd_node = Pool 0, fd_off = 0\<rparr>, current_brk = 0, console = []\<rparr>"

lemma demo_memory:
  "\<exists>m fr. backed_by fr {0x8048} (mvm m) \<and> load_byte m 0x8048000 = 97 \<and> load_byte m 0x8048001 = 0
     \<and> load_byte m 0x8048002 = 11 \<and> load_byte m 0x8048003 = 22"
proof -
  have e: "backed_by (\<lambda>_. 0) {} demo_vm" by (simp add: backed_by_def)
  have n: "1 = (unat (4096 :: u32) + 4095) div 4096" by simp
  have pg: "page_no 0x8048000 ` {0..<1} = {0x8048}" by (simp add: page_no_def)
  obtain s fr where s: "backed_by fr {0x8048} s"
    using alloc_backs [OF demo_vm_ok(1) e _ _ n, of "0x8048000" 7]
    unfolding pg by (auto simp: demo_room)
  have b: "\<forall>k < length [97, 0, 11, 22 :: u8]. drop_bit 12 (0x8048000 + of_nat k :: u32) \<in> {0x8048}"
  proof (intro allI impI)
    fix k
    assume "k < length [97, 0, 11, 22 :: u8]"
    then have "k = 0 \<or> k = 1 \<or> k = 2 \<or> k = 3" by auto
    then show "drop_bit 12 (0x8048000 + of_nat k :: u32) \<in> {0x8048}" by auto
  qed
  obtain m where m: "mvm m = s" "\<And>w. drop_bit 12 w \<in> {0x8048} \<Longrightarrow> load_byte m w =
      (if unat (w - 0x8048000) < 4 then [97, 0, 11, 22] ! unat (w - 0x8048000) else 0)"
    using write_virt_ok [of fr "{0x8048}" "\<lparr>mvm = s, phys = \<lambda>_. 0\<rparr>" "[97, 0, 11, 22]" "0x8048000", OF _ b] s
    by (auto simp: load_byte_def)
  show ?thesis using s m(1) m(2) [of "0x8048000"] m(2) [of "0x8048001"] m(2) [of "0x8048002"] m(2) [of "0x8048003"]
    by (intro exI [of _ m] exI [of _ fr]) simp
qed

theorem file_round_trip_witness:
  "\<exists>s s3 s4 fd. sys_open 0x8048000 0 s = Some (s3, fd) \<and> sys_read fd 0x8048010 2 s3 = Some (s4, 2)
     \<and> load_byte (kmach s4) 0x8048011 = 22"
proof -
  obtain m fr where m: "backed_by fr {0x8048} (mvm m)" "load_byte m 0x8048000 = 97" "load_byte m 0x8048001 = 0"
    "load_byte m 0x8048002 = 11" "load_byte m 0x8048003 = 22" using demo_memory by blast
  let ?s = "demo_kern m"
  have km: "kmach ?s = m" by (simp add: demo_kern_def kmach_def)
  have tv: "the_vfs ?s = demo_file" by (simp add: demo_kern_def the_vfs_def)
  have ok: "tree_ok (the_vfs ?s)" unfolding tv by (rule demo_file_ok)
  have len: "length (fds ?s) = MAX_FD" by (simp add: demo_kern_def MAX_FD_def)
  have mp: "paging_is_mapped 0x8048000 (mvm m)" "paging_is_mapped 0x8048001 (mvm m)"
    using backed_nonzero [OF m(1)] by (simp_all add: paging_is_mapped_def)
  have str: "user_string 0x8048000 m = Some [97]"
    using mp m(2,3) by (subst user_string.simps, simp) (subst user_string.simps, simp)
  have nm: "named 0x8048000 [97] ?s"
    using str by (simp add: named_def km good_name_def fits_name_def VFS_MAX_NAME_def)
  have bf: "buffer_in {0x8048} 0x8048002 (unat (2 :: u32))" "buffer_in {0x8048} 0x8048010 (unat (2 :: u32))"
    by (auto simp: buffer_in_def less_2_cases_iff)
  have fd: "ramfs_finddir (Pool 0) [97] (the_vfs ?s) = Some (Pool 1)"
    unfolding tv by (simp add: ramfs_finddir_def demo_file_def vfs_init_def Let_def demo_vfs_def empty_node_def)
  have cw: "cwd_node (the_vfs ?s) = Pool 0" "0 < node_pool_used (the_vfs ?s)"
    unfolding tv by (simp_all add: demo_file_def vfs_init_def Let_def)
  have free: "find (\<lambda>i. \<not> fd_used (fds ?s ! i)) [3..<MAX_FD] = Some 3"
    by (simp add: demo_kern_def MAX_FD_def upt_rec)
  obtain s1 where s1: "s1 = (set_vfs demo_file ?s)\<lparr>fds := (fds ?s)[3 := \<lparr>fd_used = True, fd_node = Pool 1, fd_off = 0\<rparr>]\<rparr>"
    "sys_open 0x8048000 0x40 ?s = Some (s1, 3)"
    using open_found [OF ok nm cw fd, of "0x40"] free by (simp add: alloc_fd_def tv)
  have bk: "backed_by fr {0x8048} (kvm (ksched ?s))" using m(1) by (simp add: demo_kern_def)
  have ub: "user_bytes 0x8048002 2 m = [11, 22]"
    using user_bytes_backed [OF m(1) bf(1)] m(4,5) by (simp add: upt_conv_Cons)
  have wf: "vfs_write (Pool 1) [11, 22] 0 2 demo_file = Some (v, k) \<Longrightarrow> k = 2" for v k
    by (auto simp: vfs_write_def ramfs_write_def ramfs_store_def demo_file_def vfs_init_def Let_def demo_vfs_def
        empty_node_def VFS_MAX_FILE_DATA_def)
  obtain v k where vk: "vfs_write (Pool 1) [11, 22] 0 2 demo_file = Some (v, k)"
    using write_file [OF demo_file_ok, of "[11, 22]" 2 0] by auto
  have w: "sys_write 3 0x8048002 2 s1 = Some (advance 3 2 (set_vfs v s1), 2)"
    using vk wf [OF vk] ub len by (simp add: sys_write_def s1(1) fd_open_def MAX_FD_def km)
  obtain s3 fd' s4 where r: "sys_open 0x8048000 0 (fst (sys_close 3 (advance 3 2 (set_vfs v s1)))) = Some (s3, fd')"
    "sys_read fd' 0x8048010 2 s3 = Some (s4, 2)"
    "\<forall>k < unat (2 :: u32). load_byte (kmach s4) (0x8048010 + of_nat k) = load_byte (kmach ?s) (0x8048002 + of_nat k)"
    using file_round_trip [OF ok len nm bk bf _ s1(2) _ w] by auto
  from r(3) [rule_format, of 1] have "load_byte (kmach s4) 0x8048011 = 22" by (simp add: km m(5))
  with r(1,2) show ?thesis by blast
qed

text \<open>
  C36: growing the heap of a process. When the new break lies above the old one and two frames are
  free for each new page, \<^verbatim>\<open>sys_brk\<close> returns the new break and records it, the page tables stay
  well formed, every address from the old break's page end up to the new break is mapped, and
  the translations outside the new pages stay as they were.
\<close>

theorem sys_brk_grows:
  fixes s :: kern
  defines "p \<equiv> scheduler_current (ksched s)"
  assumes vm: "vm_ok (kvm (ksched s))" and idx: "current_idx (ksched s) < length (procs (ksched s))"
    and ad: "addr \<noteq> 0" "brk_start p \<le> addr" "brk_curr p \<le> addr" "unat addr + 8191 < 2 ^ 32"
    and room: "2 * ((unat (page_up addr) - unat (page_up (brk_curr p))) div 4096) \<le> pmm_room (pmm_st (kvm (ksched s)))"
  shows "\<exists>s1. sys_brk addr s = Some (s1, addr) \<and> brk_curr (scheduler_current (ksched s1)) = addr
    \<and> vm_ok (kvm (ksched s1))
    \<and> (\<forall>w. page_up (brk_curr p) \<le> w \<longrightarrow> w < addr \<longrightarrow> paging_is_mapped w (kvm (ksched s1)))
    \<and> (\<forall>w. w < page_up (brk_curr p) \<or> page_up addr \<le> w \<longrightarrow>
         paging_get_physaddr w (kvm (ksched s1)) = paging_get_physaddr w (kvm (ksched s)))"
proof -
  let ?v = "kvm (ksched s)" and ?lo = "page_up (brk_curr p)" and ?hi = "page_up addr"
  let ?a = "(unat (brk_curr p) + 4095) div 4096" and ?b = "(unat addr + 4095) div 4096"
  have le: "unat (brk_curr p) \<le> unat addr" using ad(3) by (simp add: word_le_nat_alt)
  have lo: "unat ?lo = ?a * 4096" and hi: "unat ?hi = ?b * 4096"
    using le ad(4) by (intro unat_page_up; simp)+
  have "?a \<le> ?b" using le by (intro div_le_mono) simp
  then have lh: "unat ?lo \<le> unat ?hi" unfolding lo hi by (rule mult_le_mono1)
  have ha: "unat addr \<le> unat ?hi" "unat ?hi \<le> unat addr + 4095" unfolding hi by simp_all
  have brk: "brk_curr (scheduler_current (ksched (set_brk addr t))) = addr" if "length (procs (ksched t)) = length (procs (ksched s))"
    "current_idx (ksched t) = current_idx (ksched s)" for t
    using that idx by (simp add: set_brk_def scheduler_current_def upd_proc_nth)
  show ?thesis
  proof (cases "brk_curr p < addr \<and> ?lo < ?hi")
    case False
    then have "brk_curr p = addr \<or> unat ?hi \<le> unat ?lo"
      using ad(3) by (auto simp: not_less word_le_nat_alt [of ?hi ?lo])
    then have "?hi \<le> ?lo" by (auto simp: word_le_nat_alt)
    then have "\<not> (?lo \<le> w \<and> w < addr)" for w using ha by (auto simp: word_le_nat_alt word_less_nat_alt)
    moreover have "sys_brk addr s = Some (set_brk addr s, addr)"
      using False ad(1,2) unfolding sys_brk_def Let_def p_def [symmetric] by auto
    ultimately show ?thesis using brk [of s] vm by (auto simp: set_brk_def upd_proc_def)
  next
    case True
    have d: "unat (?hi - ?lo) = unat ?hi - unat ?lo" using lh by (intro unat_minus_le) (simp add: word_le_nat_alt)
    let ?n = "?b - ?a"
    have d2: "unat (?hi - ?lo) = 4096 * ?n" unfolding d lo hi by (simp add: diff_mult_distrib)
    then have n: "(unat (?hi - ?lo) + 4095) div 4096 = ?n" by simp
    have fit: "unat ?lo + unat (?hi - ?lo) + 4095 < 2 ^ 32" using d lh ha ad(4) by simp
    have rm: "2 * ((unat (?hi - ?lo) + 4095) div 4096) \<le> pmm_room (pmm_st ?v)"
      using room unfolding n d [symmetric] d2 by simp
    obtain v' ps where run: "paging_alloc_region ?lo (?hi - ?lo) (PAGE_PRESENT OR PAGE_WRITE OR PAGE_USER) ?v = Inr (v', True)"
      and ok: "vm_ok v'" and ps: "length ps = ?n" "set ps \<inter> pmm_frames (pmm_st ?v) = {}" "\<forall>q \<in> set ps. aligned q"
      and hit: "\<And>k w. k < ?n \<Longrightarrow> drop_bit 12 w = page_no ?lo k \<Longrightarrow> paging_get_physaddr w v' = ps ! k + (w AND 0xFFF)"
      and miss: "\<And>w. (\<forall>k < ?n. drop_bit 12 w \<noteq> page_no ?lo k) \<Longrightarrow> paging_get_physaddr w v' = paging_get_physaddr w ?v"
      using alloc_region_ok(2) [OF vm fit rm, of "PAGE_PRESENT OR PAGE_WRITE OR PAGE_USER"] unfolding n
      by (elim exE conjE) blast
    have end_hi: "unat ?lo + 4096 * ?n = unat ?hi" using d d2 lh by simp
    have pg: "(\<exists>k < ?n. drop_bit 12 w = page_no ?lo k) \<longleftrightarrow> ?lo \<le> w \<and> w < ?hi" for w
      using region_page [of ?lo ?a ?n w] lo end_hi unat_lt32 [of ?hi]
      by (simp add: word_le_nat_alt word_less_nat_alt mult.commute)
    have "paging_is_mapped w v'" if "?lo \<le> w" "w < addr" for w
    proof -
      have "w < ?hi" using that(2) ha(1) by (simp add: word_less_nat_alt)
      with that(1) have "\<exists>k < ?n. drop_bit 12 w = page_no ?lo k" unfolding pg by (rule conjI)
      then obtain k where k: "k < ?n" "drop_bit 12 w = page_no ?lo k" by (elim exE conjE)
      have "ps ! k \<in> set ps" using k(1) ps(1) by simp
      then show ?thesis using fresh_mapped [OF vm, of "ps ! k" w] ps(2,3) hit [OF k]
        by (auto simp: paging_is_mapped_def)
    qed
    moreover have "paging_get_physaddr w v' = paging_get_physaddr w ?v" if "w < ?lo \<or> ?hi \<le> w" for w
    proof (rule miss)
      have "\<not> (?lo \<le> w \<and> w < ?hi)" using that by (meson leD)
      with pg [of w] show "\<forall>k < ?n. drop_bit 12 w \<noteq> page_no ?lo k" by blast
    qed
    moreover have "sys_brk addr s = Some (set_brk addr (s\<lparr>ksched := (ksched s)\<lparr>kvm := v'\<rparr>\<rparr>), addr)"
    proof -
      have "\<not> addr < brk_start p" using ad(2) by (rule leD)
      then show ?thesis using True ad(1) run by (simp add: sys_brk_def Let_def p_def [symmetric] value_of_def)
    qed
    ultimately show ?thesis using brk [of "s\<lparr>ksched := (ksched s)\<lparr>kvm := v'\<rparr>\<rparr>"] ok
      by (auto simp: set_brk_def upd_proc_def)
  qed
qed

theorem sys_brk_grows_witness:
  "\<exists>s1. sys_brk 0x40000010 (set_brk 0x40000000 (demo_kern \<lparr>mvm = demo_vm, phys = \<lambda>_. 0\<rparr>)) = Some (s1, 0x40000010)
     \<and> paging_is_mapped 0x4000000F (kvm (ksched s1))"
proof -
  let ?s = "set_brk 0x40000000 (demo_kern \<lparr>mvm = demo_vm, phys = \<lambda>_. 0\<rparr>)"
  have v: "kvm (ksched ?s) = demo_vm" by (simp add: demo_kern_def set_brk_def upd_proc_def)
  have p: "brk_start (scheduler_current (ksched ?s)) = 0" "brk_curr (scheduler_current (ksched ?s)) = 0x40000000"
    "current_idx (ksched ?s) < length (procs (ksched ?s))"
    by (simp_all add: demo_kern_def demo_sched_def scheduler_init_def upd_proc_def scheduler_current_def
        dead_process_def set_brk_def)
  have u: "page_up 0x40000000 = 0x40000000" "page_up 0x40000010 = 0x40001000" by (simp_all add: page_up_def)
  show ?thesis
    using sys_brk_grows [of ?s "0x40000010"] v demo_vm_ok(1) demo_room p(3) unfolding p(1,2) u by auto
qed

end
