(* ===== verification/Gfx.thy ===== *)
theory Gfx
  imports Heap "HOL-Library.Signed_Division"
begin

unbundle bit_operations_syntax

text \<open>
  Colours, rectangles and surfaces (\<^verbatim>\<open>graphics/gfx_types.h\<close>, \<^verbatim>\<open>graphics/surface.h\<close>,
  \<^verbatim>\<open>graphics/surface.cpp\<close>). Coordinates are integers: the source computes them in \<^verbatim>\<open>int\<close>, whose
  overflow is undefined in C++. Pixel memory is a store of 32-bit cells indexed by their byte
  address; rows start at multiples of four, as all surfaces of the kernel do. Surfaces may
  share memory.
\<close>

section \<open>Colours\<close>

type_synonym color = u32

definition color_rgb :: "u8 \<Rightarrow> u8 \<Rightarrow> u8 \<Rightarrow> color" where
  "color_rgb r g b = 0xFF000000 OR push_bit 16 (ucast r) OR push_bit 8 (ucast g) OR ucast b"

definition color_rgba :: "u8 \<Rightarrow> u8 \<Rightarrow> u8 \<Rightarrow> u8 \<Rightarrow> color" where
  "color_rgba r g b a = push_bit 24 (ucast a) OR push_bit 16 (ucast r) OR push_bit 8 (ucast g) OR ucast b"

definition color_r :: "color \<Rightarrow> u8" where "color_r c = ucast (drop_bit 16 c AND 0xFF)"
definition color_g :: "color \<Rightarrow> u8" where "color_g c = ucast (drop_bit 8 c AND 0xFF)"
definition color_b :: "color \<Rightarrow> u8" where "color_b c = ucast (c AND 0xFF)"
definition color_a :: "color \<Rightarrow> u8" where "color_a c = ucast (drop_bit 24 c AND 0xFF)"

definition blend_channel :: "u32 \<Rightarrow> u8 \<Rightarrow> u8 \<Rightarrow> u8" where
  "blend_channel a s d = ucast ((ucast s * a + ucast d * (255 - a)) div 255 :: u32)"

definition color_blend :: "color \<Rightarrow> color \<Rightarrow> color" where
  "color_blend src dst =
     (let a = ucast (color_a src) :: u32 in
      if a = 0xFF then src
      else if a = 0 then dst
      else color_rgb (blend_channel a (color_r src) (color_r dst)) (blend_channel a (color_g src) (color_g dst))
             (blend_channel a (color_b src) (color_b dst)))"

section \<open>Points and rectangles\<close>

record point =
  pt_x :: int
  pt_y :: int

record extent =
  ext_w :: int
  ext_h :: int

record rect =
  rx :: int
  ry :: int
  rw :: int
  rh :: int

definition Rect :: "int \<Rightarrow> int \<Rightarrow> int \<Rightarrow> int \<Rightarrow> rect" where
  "Rect x y w h = \<lparr>rx = x, ry = y, rw = w, rh = h\<rparr>"

definition Point :: "int \<Rightarrow> int \<Rightarrow> point" where
  "Point x y = \<lparr>pt_x = x, pt_y = y\<rparr>"

definition point_add :: "point \<Rightarrow> point \<Rightarrow> point" where
  "point_add p q = Point (pt_x p + pt_x q) (pt_y p + pt_y q)"

definition point_sub :: "point \<Rightarrow> point \<Rightarrow> point" where
  "point_sub p q = Point (pt_x p - pt_x q) (pt_y p - pt_y q)"

definition extent_empty :: "extent \<Rightarrow> bool" where
  "extent_empty s \<longleftrightarrow> ext_w s \<le> 0 \<or> ext_h s \<le> 0"

definition right :: "rect \<Rightarrow> int" where "right r = rx r + rw r"
definition bottom :: "rect \<Rightarrow> int" where "bottom r = ry r + rh r"

definition rect_empty :: "rect \<Rightarrow> bool" where
  "rect_empty r \<longleftrightarrow> rw r \<le> 0 \<or> rh r \<le> 0"

definition contains :: "rect \<Rightarrow> int \<Rightarrow> int \<Rightarrow> bool" where
  "contains r x y \<longleftrightarrow> rx r \<le> x \<and> x < rx r + rw r \<and> ry r \<le> y \<and> y < ry r + rh r"

definition intersect :: "rect \<Rightarrow> rect \<Rightarrow> rect" where
  "intersect a b =
     (let lx = (if rx b < rx a then rx a else rx b);
          ly = (if ry b < ry a then ry a else ry b);
          right' = (if right a < right b then right a else right b);
          bottom' = (if bottom a < bottom b then bottom a else bottom b)
      in if right' \<le> lx \<or> bottom' \<le> ly then Rect 0 0 0 0 else Rect lx ly (right' - lx) (bottom' - ly))"

definition unite :: "rect \<Rightarrow> rect \<Rightarrow> rect" where
  "unite a b =
     (if rect_empty a then b
      else if rect_empty b then a
      else
        let lx = (if rx a < rx b then rx a else rx b);
            ly = (if ry a < ry b then ry a else ry b);
            right' = (if right b < right a then right a else right b);
            bottom' = (if bottom b < bottom a then bottom a else bottom b)
        in Rect lx ly (right' - lx) (bottom' - ly))"

definition translated :: "int \<Rightarrow> int \<Rightarrow> rect \<Rightarrow> rect" where
  "translated dx dy r = Rect (rx r + dx) (ry r + dy) (rw r) (rh r)"

definition top_left :: "rect \<Rightarrow> point" where "top_left r = Point (rx r) (ry r)"
definition top_right :: "rect \<Rightarrow> point" where "top_right r = Point (rx r + rw r) (ry r)"
definition bottom_left :: "rect \<Rightarrow> point" where "bottom_left r = Point (rx r) (ry r + rh r)"
definition bottom_right :: "rect \<Rightarrow> point" where "bottom_right r = Point (rx r + rw r) (ry r + rh r)"
definition center :: "rect \<Rightarrow> point" where "center r = Point (rx r + rw r sdiv 2) (ry r + rh r sdiv 2)"
definition rect_size :: "rect \<Rightarrow> extent" where "rect_size r = \<lparr>ext_w = rw r, ext_h = rh r\<rparr>"

datatype align = Left | Center | Right

section \<open>Surfaces\<close>

type_synonym pixels = "int \<Rightarrow> color"

record surface =
  spix :: int
  swidth :: int
  sheight :: int
  spitch :: int
  sowned :: bool

definition surface_from_ptr :: "int \<Rightarrow> int \<Rightarrow> int \<Rightarrow> int \<Rightarrow> surface" where
  "surface_from_ptr p w h pitch = \<lparr>spix = p, swidth = w, sheight = h, spitch = pitch, sowned = False\<rparr>"

text \<open>\<^verbatim>\<open>kmemset\<close> and \<^verbatim>\<open>kmemcpy\<close> of \<open>n\<close> cells.\<close>

definition clear_cells :: "int \<Rightarrow> nat \<Rightarrow> pixels \<Rightarrow> pixels" where
  "clear_cells p n m = fold (\<lambda>i m. m(p + 4 * int i := 0)) [0..<n] m"

definition copy_cells :: "int \<Rightarrow> int \<Rightarrow> int \<Rightarrow> pixels \<Rightarrow> pixels" where
  "copy_cells d s n m = fold (\<lambda>i m. m(d + 4 * i := m (s + 4 * i))) [0..n - 1] m"

definition surface_create :: "int \<Rightarrow> int \<Rightarrow> heap \<Rightarrow> pixels \<Rightarrow> (heap \<times> pixels \<times> surface) option" where
  "surface_create w h hp m =
     (let n = word_of_int (w * h * 4) :: u32 in
      map_option (\<lambda>(hp1, p).
          (hp1, if p \<noteq> 0 then clear_cells (uint p) (unat n div 4) m else m,
           \<lparr>spix = uint p, swidth = w, sheight = h, spitch = w * 4, sowned = True\<rparr>))
        (kmalloc hp n))"

definition surface_free :: "surface \<Rightarrow> heap \<Rightarrow> heap \<times> surface" where
  "surface_free s hp =
     (if sowned s \<and> spix s \<noteq> 0 then (kfree hp (word_of_int (spix s)), s\<lparr>spix := 0, sowned := False\<rparr>)
      else (hp, s\<lparr>sowned := False\<rparr>))"

definition surface_row :: "surface \<Rightarrow> int \<Rightarrow> int" where
  "surface_row s y = spix s + y * spitch s"

definition cell :: "surface \<Rightarrow> int \<Rightarrow> int \<Rightarrow> int" where
  "cell s x y = surface_row s y + 4 * x"

definition inside :: "surface \<Rightarrow> int \<Rightarrow> int \<Rightarrow> bool" where
  "inside s x y \<longleftrightarrow> \<not> (x < 0 \<or> y < 0 \<or> swidth s \<le> x \<or> sheight s \<le> y)"

definition surface_get :: "surface \<Rightarrow> int \<Rightarrow> int \<Rightarrow> pixels \<Rightarrow> color" where
  "surface_get s x y m = (if \<not> inside s x y then 0 else m (cell s x y))"

definition surface_set :: "surface \<Rightarrow> int \<Rightarrow> int \<Rightarrow> color \<Rightarrow> pixels \<Rightarrow> pixels" where
  "surface_set s x y c m = (if \<not> inside s x y then m else m(cell s x y := c))"

text \<open>The clipping of \<^verbatim>\<open>surface_blit_rect\<close>: the source rectangle and the target's corner.\<close>

definition blit_clip :: "surface \<Rightarrow> surface \<Rightarrow> int \<Rightarrow> int \<Rightarrow> rect \<Rightarrow> int \<times> int \<times> rect" where
  "blit_clip dst src dx dy sr =
     (let (dx, sr) = (if rx sr < 0 then (dx - rx sr, sr\<lparr>rw := rw sr + rx sr, rx := 0\<rparr>) else (dx, sr));
          (dy, sr) = (if ry sr < 0 then (dy - ry sr, sr\<lparr>rh := rh sr + ry sr, ry := 0\<rparr>) else (dy, sr));
          sr = (if swidth src < right sr then sr\<lparr>rw := swidth src - rx sr\<rparr> else sr);
          sr = (if sheight src < bottom sr then sr\<lparr>rh := sheight src - ry sr\<rparr> else sr);
          (dx, sr) = (if dx < 0 then (0, sr\<lparr>rx := rx sr - dx, rw := rw sr + dx\<rparr>) else (dx, sr));
          (dy, sr) = (if dy < 0 then (0, sr\<lparr>ry := ry sr - dy, rh := rh sr + dy\<rparr>) else (dy, sr));
          sr = (if swidth dst < dx + rw sr then sr\<lparr>rw := swidth dst - dx\<rparr> else sr);
          sr = (if sheight dst < dy + rh sr then sr\<lparr>rh := sheight dst - dy\<rparr> else sr)
      in (dx, dy, sr))"

definition surface_blit_rect :: "surface \<Rightarrow> int \<Rightarrow> int \<Rightarrow> surface \<Rightarrow> rect \<Rightarrow> pixels \<Rightarrow> pixels" where
  "surface_blit_rect dst dx0 dy0 src sr0 m =
     (let (dx, dy, sr) = blit_clip dst src dx0 dy0 sr0 in
      if rw sr \<le> 0 \<or> rh sr \<le> 0 then m
      else fold (\<lambda>row. copy_cells (cell dst dx (dy + row)) (cell src (rx sr) (ry sr + row)) (rw sr))
             [0..rh sr - 1] m)"

definition surface_blit :: "surface \<Rightarrow> int \<Rightarrow> int \<Rightarrow> surface \<Rightarrow> pixels \<Rightarrow> pixels" where
  "surface_blit dst dx dy src = surface_blit_rect dst dx dy src (Rect 0 0 (swidth src) (sheight src))"

definition surface_blit_alpha :: "surface \<Rightarrow> int \<Rightarrow> int \<Rightarrow> surface \<Rightarrow> pixels \<Rightarrow> pixels" where
  "surface_blit_alpha dst dx dy src m =
     (let (sx, w, dx) = (if dx < 0 then (- dx, swidth src + dx, 0) else (0, swidth src, dx));
          (sy, h, dy) = (if dy < 0 then (- dy, sheight src + dy, 0) else (0, sheight src, dy));
          w = (if swidth dst < dx + w then swidth dst - dx else w);
          h = (if sheight dst < dy + h then sheight dst - dy else h)
      in if w \<le> 0 \<or> h \<le> 0 then m
         else fold (\<lambda>row. fold (\<lambda>col m. m(cell dst (dx + col) (dy + row) :=
                color_blend (m (cell src (sx + col) (sy + row))) (m (cell dst (dx + col) (dy + row))))) [0..w - 1])
              [0..h - 1] m)"

text \<open>A scaled copy; the division by the target's size happens inside the loops only.\<close>

definition surface_scale :: "surface \<Rightarrow> surface \<Rightarrow> pixels \<Rightarrow> pixels" where
  "surface_scale dst src m =
     (if swidth src = 0 \<or> sheight src = 0 then m
      else fold (\<lambda>dy. fold (\<lambda>dx m. m(cell dst dx dy :=
             m (cell src (dx * swidth src sdiv swidth dst) (dy * sheight src sdiv sheight dst))))
             [0..swidth dst - 1]) [0..sheight dst - 1] m)"

end
