(* ===== verification/Painter.thy ===== *)
theory Painter
  imports Gfx
begin

unbundle bit_operations_syntax

text \<open>
  The font and the painter (\<^verbatim>\<open>graphics/font.cpp\<close>, \<^verbatim>\<open>graphics/painter.h\<close>,
  \<^verbatim>\<open>graphics/painter.cpp\<close>) and the screen with its back buffer (\<^verbatim>\<open>graphics/gfx.cpp\<close>). An
  operation of the painter takes the pixel memory to the pixel memory; the painter's own
  fields are set by record updates. The rounding of the floats of \<^verbatim>\<open>fill_triangle\<close> is an argument
  of its model. The line's loop has no bound in the code and is a partial function.
\<close>

section \<open>The font\<close>

definition FONT_W :: int where "FONT_W = 8"
definition FONT_H :: int where "FONT_H = 16"

definition FONT_DATA :: "u8 list list" where
  "FONT_DATA = [
    [0, 0, 0, 0, 0, 0, 0, 0, 0, 0, 0, 0, 0, 0, 0, 0],
    [0, 0, 24, 60, 60, 60, 24, 24, 24, 0, 24, 24, 0, 0, 0, 0],
    [0, 99, 99, 99, 34, 0, 0, 0, 0, 0, 0, 0, 0, 0, 0, 0],
    [0, 0, 0, 54, 54, 127, 54, 54, 127, 54, 54, 0, 0, 0, 0, 0],
    [0, 12, 12, 62, 99, 97, 96, 62, 3, 67, 99, 62, 12, 12, 0, 0],
    [0, 0, 0, 0, 0, 97, 99, 6, 12, 24, 51, 99, 0, 0, 0, 0],
    [0, 0, 28, 54, 54, 28, 110, 59, 51, 51, 51, 110, 0, 0, 0, 0],
    [0, 6, 12, 24, 0, 0, 0, 0, 0, 0, 0, 0, 0, 0, 0, 0],
    [0, 0, 12, 24, 48, 48, 48, 48, 48, 48, 24, 12, 0, 0, 0, 0],
    [0, 0, 24, 12, 6, 6, 6, 6, 6, 6, 12, 24, 0, 0, 0, 0],
    [0, 0, 0, 0, 0, 54, 28, 127, 28, 54, 0, 0, 0, 0, 0, 0],
    [0, 0, 0, 0, 0, 24, 24, 126, 24, 24, 0, 0, 0, 0, 0, 0],
    [0, 0, 0, 0, 0, 0, 0, 0, 0, 24, 24, 12, 0, 0, 0, 0],
    [0, 0, 0, 0, 0, 0, 0, 126, 0, 0, 0, 0, 0, 0, 0, 0],
    [0, 0, 0, 0, 0, 0, 0, 0, 0, 0, 24, 24, 0, 0, 0, 0],
    [0, 0, 0, 0, 3, 6, 12, 24, 48, 96, 0, 0, 0, 0, 0, 0],
    [0, 0, 62, 99, 103, 111, 123, 115, 99, 99, 99, 62, 0, 0, 0, 0],
    [0, 0, 12, 28, 60, 12, 12, 12, 12, 12, 12, 63, 0, 0, 0, 0],
    [0, 0, 62, 99, 3, 6, 12, 24, 48, 97, 99, 127, 0, 0, 0, 0],
    [0, 0, 62, 99, 3, 3, 30, 3, 3, 3, 99, 62, 0, 0, 0, 0],
    [0, 0, 6, 14, 30, 54, 102, 102, 127, 6, 6, 15, 0, 0, 0, 0],
    [0, 0, 127, 96, 96, 96, 126, 3, 3, 99, 115, 62, 0, 0, 0, 0],
    [0, 0, 28, 48, 96, 96, 126, 99, 99, 99, 99, 62, 0, 0, 0, 0],
    [0, 0, 127, 99, 3, 6, 12, 12, 24, 24, 24, 24, 0, 0, 0, 0],
    [0, 0, 62, 99, 99, 99, 62, 99, 99, 99, 99, 62, 0, 0, 0, 0],
    [0, 0, 62, 99, 99, 99, 63, 3, 3, 6, 12, 56, 0, 0, 0, 0],
    [0, 0, 0, 0, 24, 24, 0, 0, 0, 24, 24, 0, 0, 0, 0, 0],
    [0, 0, 0, 0, 24, 24, 0, 0, 0, 24, 24, 12, 0, 0, 0, 0],
    [0, 0, 0, 6, 12, 24, 48, 96, 48, 24, 12, 6, 0, 0, 0, 0],
    [0, 0, 0, 0, 0, 0, 126, 0, 0, 126, 0, 0, 0, 0, 0, 0],
    [0, 0, 0, 96, 48, 24, 12, 6, 12, 24, 48, 96, 0, 0, 0, 0],
    [0, 0, 62, 99, 99, 3, 6, 12, 12, 0, 12, 12, 0, 0, 0, 0],
    [0, 0, 62, 99, 99, 111, 107, 107, 110, 96, 96, 62, 0, 0, 0, 0],
    [0, 0, 8, 28, 54, 99, 99, 127, 99, 99, 99, 99, 0, 0, 0, 0],
    [0, 0, 126, 51, 51, 51, 62, 51, 51, 51, 51, 126, 0, 0, 0, 0],
    [0, 0, 30, 51, 97, 96, 96, 96, 96, 97, 51, 30, 0, 0, 0, 0],
    [0, 0, 124, 54, 51, 51, 51, 51, 51, 51, 54, 124, 0, 0, 0, 0],
    [0, 0, 127, 51, 49, 52, 60, 52, 48, 49, 51, 127, 0, 0, 0, 0],
    [0, 0, 127, 51, 49, 52, 60, 52, 48, 48, 48, 120, 0, 0, 0, 0],
    [0, 0, 30, 51, 97, 96, 96, 111, 99, 99, 55, 29, 0, 0, 0, 0],
    [0, 0, 99, 99, 99, 99, 127, 99, 99, 99, 99, 99, 0, 0, 0, 0],
    [0, 0, 60, 24, 24, 24, 24, 24, 24, 24, 24, 60, 0, 0, 0, 0],
    [0, 0, 15, 6, 6, 6, 6, 6, 6, 102, 102, 60, 0, 0, 0, 0],
    [0, 0, 115, 51, 54, 54, 60, 54, 54, 51, 51, 115, 0, 0, 0, 0],
    [0, 0, 120, 48, 48, 48, 48, 48, 48, 49, 51, 127, 0, 0, 0, 0],
    [0, 0, 99, 119, 127, 127, 107, 99, 99, 99, 99, 99, 0, 0, 0, 0],
    [0, 0, 99, 115, 123, 127, 111, 103, 99, 99, 99, 99, 0, 0, 0, 0],
    [0, 0, 28, 54, 99, 99, 99, 99, 99, 99, 54, 28, 0, 0, 0, 0],
    [0, 0, 126, 51, 51, 51, 62, 48, 48, 48, 48, 120, 0, 0, 0, 0],
    [0, 0, 62, 99, 99, 99, 99, 99, 99, 107, 111, 62, 6, 0, 0, 0],
    [0, 0, 126, 51, 51, 51, 62, 54, 54, 51, 51, 115, 0, 0, 0, 0],
    [0, 0, 62, 99, 99, 48, 28, 6, 3, 99, 99, 62, 0, 0, 0, 0],
    [0, 0, 126, 90, 24, 24, 24, 24, 24, 24, 24, 60, 0, 0, 0, 0],
    [0, 0, 99, 99, 99, 99, 99, 99, 99, 99, 99, 62, 0, 0, 0, 0],
    [0, 0, 99, 99, 99, 99, 99, 99, 99, 54, 28, 8, 0, 0, 0, 0],
    [0, 0, 99, 99, 99, 99, 107, 107, 127, 119, 99, 65, 0, 0, 0, 0],
    [0, 0, 99, 99, 54, 54, 28, 28, 54, 54, 99, 99, 0, 0, 0, 0],
    [0, 0, 102, 102, 102, 102, 60, 24, 24, 24, 24, 60, 0, 0, 0, 0],
    [0, 0, 127, 99, 67, 6, 12, 24, 48, 97, 99, 127, 0, 0, 0, 0],
    [0, 0, 60, 48, 48, 48, 48, 48, 48, 48, 48, 60, 0, 0, 0, 0],
    [0, 0, 0, 96, 48, 24, 12, 6, 3, 0, 0, 0, 0, 0, 0, 0],
    [0, 0, 60, 12, 12, 12, 12, 12, 12, 12, 12, 60, 0, 0, 0, 0],
    [8, 28, 54, 99, 0, 0, 0, 0, 0, 0, 0, 0, 0, 0, 0, 0],
    [0, 0, 0, 0, 0, 0, 0, 0, 0, 0, 0, 255, 0, 0, 0, 0],
    [24, 12, 6, 0, 0, 0, 0, 0, 0, 0, 0, 0, 0, 0, 0, 0],
    [0, 0, 0, 0, 0, 62, 3, 3, 63, 99, 99, 63, 0, 0, 0, 0],
    [0, 0, 112, 48, 48, 62, 51, 51, 51, 51, 51, 110, 0, 0, 0, 0],
    [0, 0, 0, 0, 0, 62, 99, 96, 96, 96, 99, 62, 0, 0, 0, 0],
    [0, 0, 14, 6, 6, 62, 102, 102, 102, 102, 102, 59, 0, 0, 0, 0],
    [0, 0, 0, 0, 0, 62, 99, 99, 127, 96, 96, 62, 0, 0, 0, 0],
    [0, 0, 28, 54, 48, 48, 124, 48, 48, 48, 48, 120, 0, 0, 0, 0],
    [0, 0, 0, 0, 0, 59, 102, 102, 102, 62, 6, 102, 60, 0, 0, 0],
    [0, 0, 112, 48, 48, 54, 59, 51, 51, 51, 51, 115, 0, 0, 0, 0],
    [0, 0, 12, 12, 0, 28, 12, 12, 12, 12, 12, 30, 0, 0, 0, 0],
    [0, 0, 6, 6, 0, 14, 6, 6, 6, 6, 6, 102, 60, 0, 0, 0],
    [0, 0, 112, 48, 48, 51, 54, 60, 54, 51, 51, 115, 0, 0, 0, 0],
    [0, 0, 28, 12, 12, 12, 12, 12, 12, 12, 12, 30, 0, 0, 0, 0],
    [0, 0, 0, 0, 0, 118, 127, 107, 107, 107, 107, 99, 0, 0, 0, 0],
    [0, 0, 0, 0, 0, 110, 51, 51, 51, 51, 51, 51, 0, 0, 0, 0],
    [0, 0, 0, 0, 0, 62, 99, 99, 99, 99, 99, 62, 0, 0, 0, 0],
    [0, 0, 0, 0, 0, 110, 51, 51, 51, 62, 48, 48, 120, 0, 0, 0],
    [0, 0, 0, 0, 0, 59, 102, 102, 102, 62, 6, 6, 15, 0, 0, 0],
    [0, 0, 0, 0, 0, 110, 59, 51, 48, 48, 48, 120, 0, 0, 0, 0],
    [0, 0, 0, 0, 0, 62, 99, 56, 14, 3, 99, 62, 0, 0, 0, 0],
    [0, 0, 8, 24, 24, 126, 24, 24, 24, 24, 26, 12, 0, 0, 0, 0],
    [0, 0, 0, 0, 0, 99, 99, 99, 99, 99, 99, 63, 0, 0, 0, 0],
    [0, 0, 0, 0, 0, 99, 99, 99, 99, 54, 28, 8, 0, 0, 0, 0],
    [0, 0, 0, 0, 0, 99, 99, 107, 107, 127, 54, 54, 0, 0, 0, 0],
    [0, 0, 0, 0, 0, 99, 54, 28, 28, 54, 99, 99, 0, 0, 0, 0],
    [0, 0, 0, 0, 0, 102, 102, 102, 60, 24, 48, 96, 0, 0, 0, 0],
    [0, 0, 0, 0, 0, 127, 102, 12, 24, 48, 99, 127, 0, 0, 0, 0],
    [0, 0, 14, 24, 24, 24, 112, 24, 24, 24, 24, 14, 0, 0, 0, 0],
    [0, 0, 24, 24, 24, 24, 0, 24, 24, 24, 24, 24, 0, 0, 0, 0],
    [0, 0, 112, 24, 24, 24, 14, 24, 24, 24, 24, 112, 0, 0, 0, 0],
    [0, 0, 0, 110, 59, 0, 0, 0, 0, 0, 0, 0, 0, 0, 0, 0]]"

definition FONT_UNKNOWN :: "u8 list" where
  "FONT_UNKNOWN = [0, 0x7E, 0x42, 0x42, 0x42, 0x42, 0x42, 0x42, 0x42, 0x42, 0x42, 0x7E, 0, 0, 0, 0]"

definition font_glyph :: "u8 \<Rightarrow> u8 list" where
  "font_glyph c = (let idx = uint c - 0x20 in
     if idx < 0 \<or> 95 \<le> idx then FONT_UNKNOWN else FONT_DATA ! nat idx)"

definition font_str_width :: "bytes \<Rightarrow> int" where
  "font_str_width s = fold (\<lambda>c w. w + FONT_W) s 0"

section \<open>The painter\<close>

record painter =
  ptarget :: surface
  clip :: rect
  pcolor :: color
  pbg :: color
  transparent_bg :: bool

definition PALETTE_WHITE :: color where "PALETTE_WHITE = 0xFFF2F2F2"
definition PALETTE_BLACK :: color where "PALETTE_BLACK = 0xFF0D0D0D"

definition painter_begin :: "surface \<Rightarrow> painter" where
  "painter_begin s = \<lparr>ptarget = s, clip = Rect 0 0 (swidth s) (sheight s), pcolor = PALETTE_WHITE,
     pbg = PALETTE_BLACK, transparent_bg = False\<rparr>"

definition set_clip :: "rect \<Rightarrow> painter \<Rightarrow> painter" where
  "set_clip r p = p\<lparr>clip := intersect (clip p) r\<rparr>"

definition reset_clip :: "painter \<Rightarrow> painter" where
  "reset_clip p = p\<lparr>clip := Rect 0 0 (swidth (ptarget p)) (sheight (ptarget p))\<rparr>"

definition outside_clip :: "painter \<Rightarrow> int \<Rightarrow> int \<Rightarrow> bool" where
  "outside_clip p x y \<longleftrightarrow> x < rx (clip p) \<or> y < ry (clip p) \<or> right (clip p) \<le> x \<or> bottom (clip p) \<le> y"

definition plot :: "painter \<Rightarrow> int \<Rightarrow> int \<Rightarrow> pixels \<Rightarrow> pixels" where
  "plot p x y m = (if outside_clip p x y then m else surface_set (ptarget p) x y (pcolor p) m)"

definition plot_blend :: "painter \<Rightarrow> int \<Rightarrow> int \<Rightarrow> pixels \<Rightarrow> pixels" where
  "plot_blend p x y m =
     (if outside_clip p x y then m
      else surface_set (ptarget p) x y (color_blend (pcolor p) (surface_get (ptarget p) x y m)) m)"

definition put_pixel :: "painter \<Rightarrow> int \<Rightarrow> int \<Rightarrow> pixels \<Rightarrow> pixels" where
  "put_pixel = plot"

section \<open>Lines and rectangles\<close>

definition draw_hline :: "painter \<Rightarrow> int \<Rightarrow> int \<Rightarrow> int \<Rightarrow> pixels \<Rightarrow> pixels" where
  "draw_hline p x y len m =
     (if len \<le> 0 then m
      else if y < ry (clip p) \<or> bottom (clip p) \<le> y then m
      else
        let x0 = (if x < rx (clip p) then rx (clip p) else x);
            x1 = (if right (clip p) < x + len then right (clip p) else x + len)
        in if x1 \<le> x0 then m
           else fold (\<lambda>i m. m(surface_row (ptarget p) y + 4 * i := pcolor p)) [x0..x1 - 1] m)"

definition draw_vline :: "painter \<Rightarrow> int \<Rightarrow> int \<Rightarrow> int \<Rightarrow> pixels \<Rightarrow> pixels" where
  "draw_vline p x y len m =
     (if len \<le> 0 then m
      else if x < rx (clip p) \<or> right (clip p) \<le> x then m
      else
        let y0 = (if y < ry (clip p) then ry (clip p) else y);
            y1 = (if bottom (clip p) < y + len then bottom (clip p) else y + len)
        in fold (\<lambda>i m. m(surface_row (ptarget p) i + 4 * x := pcolor p)) [y0..y1 - 1] m)"

partial_function (option) line_loop ::
  "painter \<Rightarrow> int \<Rightarrow> int \<Rightarrow> int \<Rightarrow> int \<Rightarrow> int \<Rightarrow> int \<Rightarrow> int \<Rightarrow> int \<Rightarrow> int \<Rightarrow> pixels \<Rightarrow> pixels option" where
  "line_loop p dx dy sx sy x1 y1 err x0 y0 m =
     (let m = plot p x0 y0 m in
      if x0 = x1 \<and> y0 = y1 then Some m
      else
        let e2 = 2 * err;
            (err, x0) = (if dy \<le> e2 then (err + dy, x0 + sx) else (err, x0));
            (err, y0) = (if e2 \<le> dx then (err + dx, y0 + sy) else (err, y0))
        in line_loop p dx dy sx sy x1 y1 err x0 y0 m)"

definition draw_line :: "painter \<Rightarrow> int \<Rightarrow> int \<Rightarrow> int \<Rightarrow> int \<Rightarrow> pixels \<Rightarrow> pixels option" where
  "draw_line p x0 y0 x1 y1 m =
     (let dx = (if x0 < x1 then x1 - x0 else x0 - x1);
          dy = - (if y0 < y1 then y1 - y0 else y0 - y1);
          sx = (if x0 < x1 then 1 else -1);
          sy = (if y0 < y1 then 1 else -1)
      in line_loop p dx dy sx sy x1 y1 (dx + dy) x0 y0 m)"

definition draw_rect :: "painter \<Rightarrow> rect \<Rightarrow> pixels \<Rightarrow> pixels" where
  "draw_rect p r m =
     draw_vline p (right r - 1) (ry r) (rh r) (draw_vline p (rx r) (ry r) (rh r)
       (draw_hline p (rx r) (bottom r - 1) (rw r) (draw_hline p (rx r) (ry r) (rw r) m)))"

definition fill_rect :: "painter \<Rightarrow> rect \<Rightarrow> pixels \<Rightarrow> pixels" where
  "fill_rect p r m =
     (let cr = intersect (clip p) r in
      if rect_empty cr then m
      else fold (\<lambda>row. fold (\<lambda>col m. m(cell (ptarget p) (rx cr) row + 4 * col := pcolor p)) [0..rw cr - 1])
             [ry cr..bottom cr - 1] m)"

section \<open>Circles and rounded corners\<close>

text \<open>The midpoint loop with the body \<open>f\<close>.\<close>

function circle_loop :: "(int \<Rightarrow> int \<Rightarrow> pixels \<Rightarrow> pixels) \<Rightarrow> int \<Rightarrow> int \<Rightarrow> int \<Rightarrow> pixels \<Rightarrow> pixels" where
  "circle_loop f x y d m =
     (if x \<le> y then
        if d < 0 then circle_loop f (x + 1) y (d + (2 * x + 3)) (f x y m)
        else circle_loop f (x + 1) (y - 1) (d + (2 * (x - y) + 5)) (f x y m)
      else m)"
  by pat_completeness auto
termination
  by (relation "measure (\<lambda>(f, x, y, d, m). nat (y - x + 1))") auto

declare circle_loop.simps [simp del]

definition octants :: "painter \<Rightarrow> int \<Rightarrow> int \<Rightarrow> int \<Rightarrow> int \<Rightarrow> pixels \<Rightarrow> pixels" where
  "octants p cx cy x y m =
     fold (\<lambda>(a, b). put_pixel p a b)
       [(cx + x, cy + y), (cx - x, cy + y), (cx + x, cy - y), (cx - x, cy - y),
        (cx + y, cy + x), (cx - y, cy + x), (cx + y, cy - x), (cx - y, cy - x)] m"

definition plot_circle_points :: "painter \<Rightarrow> int \<Rightarrow> int \<Rightarrow> int \<Rightarrow> int \<Rightarrow> bool \<Rightarrow> pixels \<Rightarrow> pixels" where
  "plot_circle_points p cx cy x y fill m =
     (if fill then
        let m1 = draw_hline p (cx - x) (cy - y) (2 * x + 1) m in
        if y \<noteq> 0 then draw_hline p (cx - x) (cy + y) (2 * x + 1) m1 else m1
      else octants p cx cy x y m)"

definition draw_circle :: "painter \<Rightarrow> int \<Rightarrow> int \<Rightarrow> int \<Rightarrow> pixels \<Rightarrow> pixels" where
  "draw_circle p cx cy r = circle_loop (octants p cx cy) 0 r (1 - r)"

definition fill_circle :: "painter \<Rightarrow> int \<Rightarrow> int \<Rightarrow> int \<Rightarrow> pixels \<Rightarrow> pixels" where
  "fill_circle p cx cy r = circle_loop (\<lambda>x y m.
     draw_hline p (cx - x) (cy + y) (2 * x + 1) (draw_hline p (cx - x) (cy - y) (2 * x + 1)
       (draw_hline p (cx - y) (cy + x) (2 * y + 1) (draw_hline p (cx - y) (cy - x) (2 * y + 1) m))))
     0 r (1 - r)"

text \<open>The eight pixels of a corner, in the order of the lambda \<^verbatim>\<open>corner\<close>.\<close>

definition corner :: "painter \<Rightarrow> int \<Rightarrow> int \<Rightarrow> int \<Rightarrow> pixels \<Rightarrow> pixels" where
  "corner p rad cx cy = circle_loop (\<lambda>x y m. fold (\<lambda>(a, b). put_pixel p a b)
       [(cx + x, cy - y), (cx - x, cy - y), (cx + x, cy + y), (cx - x, cy + y),
        (cx + y, cy - x), (cx - y, cy - x), (cx + y, cy + x), (cx - y, cy + x)] m) 0 rad (1 - rad)"

definition draw_rounded_rect :: "painter \<Rightarrow> rect \<Rightarrow> int \<Rightarrow> pixels \<Rightarrow> pixels" where
  "draw_rounded_rect p r rad m =
     (if rad \<le> 0 then draw_rect p r m
      else
        let cx0 = rx r + rad; cy0 = ry r + rad; cx1 = right r - 1 - rad; cy1 = bottom r - 1 - rad;
            m = draw_hline p (rx r + rad) (ry r) (rw r - 2 * rad) m;
            m = draw_hline p (rx r + rad) (bottom r - 1) (rw r - 2 * rad) m;
            m = draw_vline p (rx r) (ry r + rad) (rh r - 2 * rad) m;
            m = draw_vline p (right r - 1) (ry r + rad) (rh r - 2 * rad) m
        in corner p rad cx1 cy1 (corner p rad cx0 cy1 (corner p rad cx1 cy0 (corner p rad cx0 cy0 m))))"

text \<open>
  A quarter of the filled corners: \<open>qx\<close> is negative for the left ones, and the rows lie at
  \<open>qy\<close> times the offset.
\<close>

definition fill_corner :: "painter \<Rightarrow> int \<Rightarrow> int \<Rightarrow> int \<Rightarrow> int \<Rightarrow> int \<Rightarrow> pixels \<Rightarrow> pixels" where
  "fill_corner p rad cx cy qx qy = circle_loop (\<lambda>x y m.
     draw_hline p (if qx < 0 then cx - x else cx) (cy + qy * y) x
       (draw_hline p (if qx < 0 then cx - y else cx) (cy + qy * x) y m)) 0 rad (1 - rad)"

definition fill_rounded_rect :: "painter \<Rightarrow> rect \<Rightarrow> int \<Rightarrow> pixels \<Rightarrow> pixels" where
  "fill_rounded_rect p r rad m =
     (if rad \<le> 0 then fill_rect p r m
      else
        let m = fill_rect p (Rect (rx r) (ry r + rad) (rw r) (rh r - 2 * rad)) m;
            m = fill_rect p (Rect (rx r + rad) (ry r) (rw r - 2 * rad) rad) m;
            m = fill_rect p (Rect (rx r + rad) (bottom r - rad) (rw r - 2 * rad) rad) m;
            cx0 = rx r + rad; cy0 = ry r + rad; cx1 = right r - 1 - rad; cy1 = bottom r - 1 - rad
        in fill_corner p rad cx1 cy1 1 1 (fill_corner p rad cx0 cy1 (-1) 1
             (fill_corner p rad cx1 cy0 1 (-1) (fill_corner p rad cx0 cy0 (-1) (-1) m))))"

definition draw_triangle ::
  "painter \<Rightarrow> int \<Rightarrow> int \<Rightarrow> int \<Rightarrow> int \<Rightarrow> int \<Rightarrow> int \<Rightarrow> pixels \<Rightarrow> pixels option" where
  "draw_triangle p x0 y0 x1 y1 x2 y2 m =
     Option.bind (draw_line p x0 y0 x1 y1 m) (\<lambda>m.
       Option.bind (draw_line p x1 y1 x2 y2 m) (draw_line p x2 y2 x0 y0))"

text \<open>\<open>lerp a b n d\<close> is the C++ expression \<^verbatim>\<open>(int)(a + (b - a) * ((float)n / d))\<close>. Its rounding is the
  compiler's choice (the kernel is built for a processor that computes floats in wider registers), so it is
  an argument.\<close>

type_synonym lerp = "int \<Rightarrow> int \<Rightarrow> int \<Rightarrow> int \<Rightarrow> int"

definition by_height :: "int \<times> int \<Rightarrow> int \<times> int \<Rightarrow> int \<times> int \<Rightarrow> (int \<times> int) \<times> (int \<times> int) \<times> (int \<times> int)" where
  "by_height a b c =
     (let (a, b) = (if snd a > snd b then (b, a) else (a, b));
          (a, c) = (if snd a > snd c then (c, a) else (a, c));
          (b, c) = (if snd b > snd c then (c, b) else (b, c))
      in (a, b, c))"

definition triangle_row ::
  "lerp \<Rightarrow> painter \<Rightarrow> int \<times> int \<Rightarrow> int \<times> int \<Rightarrow> int \<times> int \<Rightarrow> int \<Rightarrow> pixels \<Rightarrow> pixels" where
  "triangle_row lerp p a b c y m =
     (let second_half = y \<ge> snd b;
          seg_h = (if second_half then snd c - snd b else snd b - snd a);
          seg_h = (if seg_h = 0 then 1 else seg_h);
          ax = lerp (fst a) (fst c) (y - snd a) (snd c - snd a);
          bx = (if second_half then lerp (fst b) (fst c) (y - snd b) seg_h else lerp (fst a) (fst b) (y - snd a) seg_h);
          (ax, bx) = (if ax > bx then (bx, ax) else (ax, bx))
      in draw_hline p ax y (bx - ax + 1) m)"

definition fill_triangle ::
  "lerp \<Rightarrow> painter \<Rightarrow> int \<Rightarrow> int \<Rightarrow> int \<Rightarrow> int \<Rightarrow> int \<Rightarrow> int \<Rightarrow> pixels \<Rightarrow> pixels" where
  "fill_triangle lerp p x0 y0 x1 y1 x2 y2 m =
     (let (a, b, c) = by_height (x0, y0) (x1, y1) (x2, y2)
      in if snd c - snd a = 0 then m else fold (triangle_row lerp p a b c) [snd a..snd c] m)"

section \<open>Gradients\<close>

definition mix :: "u8 \<Rightarrow> u8 \<Rightarrow> int \<Rightarrow> u8" where
  "mix a b t = word_of_int (uint a + (uint b - uint a) * t sdiv 255)"

definition mix_color :: "color \<Rightarrow> color \<Rightarrow> int \<Rightarrow> color" where
  "mix_color a b t = color_rgb (mix (color_r a) (color_r b) t) (mix (color_g a) (color_g b) t)
     (mix (color_b a) (color_b b) t)"

definition fill_rect_gradient_v :: "painter \<Rightarrow> rect \<Rightarrow> color \<Rightarrow> color \<Rightarrow> pixels \<Rightarrow> pixels" where
  "fill_rect_gradient_v p r col0 col1 m =
     (let cr = intersect (clip p) r in
      if rect_empty cr \<or> rh r = 0 then m
      else fold (\<lambda>row. let c = mix_color col0 col1 ((row - ry r) * 255 sdiv rh r) in
             fold (\<lambda>col m. m(cell (ptarget p) (rx cr) row + 4 * col := c)) [0..rw cr - 1])
           [ry cr..bottom cr - 1] m)"

definition fill_rect_gradient_h :: "painter \<Rightarrow> rect \<Rightarrow> color \<Rightarrow> color \<Rightarrow> pixels \<Rightarrow> pixels" where
  "fill_rect_gradient_h p r left right' m =
     (let cr = intersect (clip p) r in
      if rect_empty cr \<or> rw r = 0 then m
      else fold (\<lambda>row. fold (\<lambda>col m. m(cell (ptarget p) col row :=
               mix_color left right' ((col - rx r) * 255 sdiv rw r))) [rx cr..right cr - 1])
           [ry cr..bottom cr - 1] m)"

section \<open>Text\<close>

definition draw_char :: "painter \<Rightarrow> int \<Rightarrow> int \<Rightarrow> u8 \<Rightarrow> pixels \<Rightarrow> pixels" where
  "draw_char p x y c m =
     fold (\<lambda>row. let bits = font_glyph c ! nat row in
         fold (\<lambda>col m.
             if ucast bits AND drop_bit (nat col) (0x80 :: u32) \<noteq> 0 then plot p (x + col) (y + row) m
             else if \<not> transparent_bg p then plot (p\<lparr>pcolor := pbg p\<rparr>) (x + col) (y + row) m
             else m) [0..FONT_W - 1])
       [0..FONT_H - 1] m"

function tab_loop :: "painter \<Rightarrow> int \<Rightarrow> int \<Rightarrow> int \<Rightarrow> pixels \<Rightarrow> pixels \<times> int" where
  "tab_loop p tab cx y m =
     (if cx < tab then
        tab_loop p tab (cx + FONT_W) y
          (if \<not> transparent_bg p then draw_char (p\<lparr>pcolor := pbg p\<rparr>) cx y 32 m else m)
      else (m, cx))"
  by pat_completeness auto
termination
  by (relation "measure (\<lambda>(p, tab, cx, y, m). nat (tab - cx))") (auto simp: FONT_W_def)

declare tab_loop.simps [simp del]

fun draw_text_loop :: "painter \<Rightarrow> int \<Rightarrow> int \<Rightarrow> int \<Rightarrow> bytes \<Rightarrow> pixels \<Rightarrow> pixels" where
  "draw_text_loop p x cx y [] m = m"
| "draw_text_loop p x cx y (c # s) m =
     (if c = 10 then draw_text_loop p x x (y + FONT_H) s m
      else if c = 9 then
        (case tab_loop p (((cx - x) sdiv FONT_W sdiv 4 + 1) * 4 * FONT_W + x) cx y m of
           (m, cx) \<Rightarrow> draw_text_loop p x cx y s m)
      else draw_text_loop p x (cx + FONT_W) y s (draw_char p cx y c m))"

definition draw_text :: "painter \<Rightarrow> int \<Rightarrow> int \<Rightarrow> bytes \<Rightarrow> pixels \<Rightarrow> pixels" where
  "draw_text p x y s = draw_text_loop p x x y s"

definition draw_text_aligned :: "painter \<Rightarrow> rect \<Rightarrow> bytes \<Rightarrow> align \<Rightarrow> pixels \<Rightarrow> pixels" where
  "draw_text_aligned p r s al =
     (let tw = int (length s) * FONT_W;
          y = ry r + (rh r - FONT_H) sdiv 2;
          x = (if al = Center then rx r + (rw r - tw) sdiv 2 else if al = Right then right r - tw else rx r)
      in draw_text (set_clip r p) x y s)"

section \<open>Copying surfaces\<close>

definition painter_blit :: "painter \<Rightarrow> int \<Rightarrow> int \<Rightarrow> surface \<Rightarrow> pixels \<Rightarrow> pixels" where
  "painter_blit p x y src = surface_blit (ptarget p) x y src"

definition painter_blit_rect :: "painter \<Rightarrow> int \<Rightarrow> int \<Rightarrow> surface \<Rightarrow> rect \<Rightarrow> pixels \<Rightarrow> pixels" where
  "painter_blit_rect p x y src sr = surface_blit_rect (ptarget p) x y src sr"

definition painter_blit_alpha :: "painter \<Rightarrow> int \<Rightarrow> int \<Rightarrow> surface \<Rightarrow> pixels \<Rightarrow> pixels" where
  "painter_blit_alpha p x y src = surface_blit_alpha (ptarget p) x y src"

section \<open>The screen\<close>

record gfx =
  g_screen :: surface
  g_back :: surface
  g_painter :: painter
  g_ready :: bool

text \<open>The frame buffer's state is what \<^verbatim>\<open>kernel/fb.cpp\<close> reports.\<close>

definition gfx_init :: "bool \<Rightarrow> u32 \<Rightarrow> u32 \<Rightarrow> u32 \<Rightarrow> heap \<Rightarrow> pixels \<Rightarrow> gfx \<Rightarrow> (heap \<times> pixels \<times> gfx) option" where
  "gfx_init available addr w h hp m g =
     (if \<not> available then Some (hp, m, g)
      else
        let screen = surface_from_ptr (uint addr) (sint w) (sint h) (sint w * 4) in
        map_option (\<lambda>(hp1, m1, b).
            let back = (if spix b = 0 then screen\<lparr>sowned := False\<rparr> else b) in
            (hp1, m1, \<lparr>g_screen = screen, g_back = back, g_painter = painter_begin back, g_ready = True\<rparr>))
          (surface_create (sint w) (sint h) hp m))"

definition gfx_painter :: "gfx \<Rightarrow> gfx" where
  "gfx_painter g = g\<lparr>g_painter := painter_begin (g_back g)\<rparr>"

definition gfx_flip :: "gfx \<Rightarrow> pixels \<Rightarrow> pixels" where
  "gfx_flip g m =
     (if \<not> g_ready g then m
      else if spix (g_back g) = spix (g_screen g) then m
      else surface_blit (g_screen g) 0 0 (g_back g) m)"

definition gfx_flip_rect :: "gfx \<Rightarrow> rect \<Rightarrow> pixels \<Rightarrow> pixels" where
  "gfx_flip_rect g r m =
     (if \<not> g_ready g then m
      else if spix (g_back g) = spix (g_screen g) then m
      else surface_blit_rect (g_screen g) (rx r) (ry r) (g_back g) r m)"

end
