(* ===== verification/Windows.thy ===== *)
theory Windows
  imports Painter
begin

unbundle bit_operations_syntax

text \<open>
  Windows and the mouse cursor (\<^verbatim>\<open>kernel/graphics.cpp\<close>, \<^verbatim>\<open>kernel/graphics.h\<close>): the table of
  windows, each with a surface of its own for its client area, the frame drawn around it on the
  screen's back buffer, and the cursor that saves the pixels it covers.
\<close>

definition TITLEBAR_H :: int where "TITLEBAR_H = 28"
definition BORDER_W :: int where "BORDER_W = 1"
definition MAX_WINDOWS :: nat where "MAX_WINDOWS = 16"

record window =
  bounds :: rect
  title :: bytes
  visible :: bool
  focused :: bool
  backbuf :: surface
  win_pen :: painter

record desktop =
  windows :: "window list"
  win_count :: nat
  desk_ready :: bool
  screen_of :: gfx
  cursor_bg :: "color list"
  cursor_px :: int
  cursor_py :: int

definition TitlebarActive :: color where "TitlebarActive = 0xFF2D2D3F"
definition TitlebarInactive :: color where "TitlebarInactive = 0xFF1A1A28"
definition TitleText :: color where "TitleText = 0xFFCDD6F4"
definition TitleTextDim :: color where "TitleTextDim = 0xFF6C7086"
definition Border :: color where "Border = 0xFF44475A"
definition BorderFocused :: color where "BorderFocused = 0xFFBD93F9"
definition ClientBg :: color where "ClientBg = 0xFF1E1E2E"
definition BtnClose :: color where "BtnClose = 0xFFFF5F57"
definition BtnMin :: color where "BtnMin = 0xFFFFBD2E"
definition BtnMax :: color where "BtnMax = 0xFF28C840"

section \<open>Windows\<close>

text \<open>A null pointer is \<open>None\<close>; ids are the caller's \<^verbatim>\<open>int\<close>s.\<close>

definition get_window :: "desktop \<Rightarrow> int \<Rightarrow> nat option" where
  "get_window s i = (if i < 0 \<or> int (win_count s) \<le> i then None else Some (nat i))"

definition client_rect :: "window \<Rightarrow> rect" where
  "client_rect w = Rect (rx (bounds w) + BORDER_W) (ry (bounds w) + TITLEBAR_H)
     (rw (bounds w) - BORDER_W * 2) (rh (bounds w) - TITLEBAR_H - BORDER_W)"

definition shadow :: "painter \<Rightarrow> rect \<Rightarrow> pixels \<Rightarrow> pixels" where
  "shadow p b m = fold (\<lambda>i. draw_rect (p\<lparr>pcolor := color_rgba 0 0 0 (word_of_int (40 - i * 8))\<rparr>)
      (Rect (rx b - i) (ry b - i) (rw b + i * 2) (rh b + i * 2))) [1..4] m"

definition draw_chrome :: "gfx \<Rightarrow> window \<Rightarrow> pixels \<Rightarrow> gfx \<times> pixels" where
  "draw_chrome g w m =
     (let p = g_painter (gfx_painter g);
          b = bounds w;
          m = shadow p b m;
          frame = (if focused w then BorderFocused else Border);
          m = draw_rect (p\<lparr>pcolor := frame\<rparr>) b m;
          tbar = Rect (rx b + BORDER_W) (ry b + BORDER_W) (rw b - BORDER_W * 2) (TITLEBAR_H - BORDER_W);
          tb = (if focused w then TitlebarActive else TitlebarInactive);
          tb_top = color_rgba (color_r tb + 15) (color_g tb + 15) (color_b tb + 15) 255;
          m = fill_rect_gradient_v p tbar tb_top tb m;
          m = draw_hline (p\<lparr>pcolor := frame\<rparr>) (rx b + BORDER_W) (ry b + TITLEBAR_H - 1) (rw b - BORDER_W * 2) m;
          cy = ry b + TITLEBAR_H sdiv 2;
          cx = rx b + 14;
          m = fill_circle (p\<lparr>pcolor := BtnClose\<rparr>) cx cy 6 m;
          m = fill_circle (p\<lparr>pcolor := BtnMin\<rparr>) (cx + 20) cy 6 m;
          m = fill_circle (p\<lparr>pcolor := BtnMax\<rparr>) (cx + 40) cy 6 m;
          p' = p\<lparr>pcolor := (if focused w then TitleText else TitleTextDim)\<rparr>;
          m = draw_text_aligned (p'\<lparr>transparent_bg := True\<rparr>) tbar (title w) Center m
      in (g\<lparr>g_painter := p'\<lparr>transparent_bg := False\<rparr>\<rparr>, m))"

definition blit_client :: "gfx \<Rightarrow> window \<Rightarrow> pixels \<Rightarrow> pixels" where
  "blit_client g w m =
     (if spix (backbuf w) = 0 then m
      else surface_blit (g_back g) (rx (client_rect w)) (ry (client_rect w)) (backbuf w) m)"

definition graphics_init :: "desktop \<Rightarrow> desktop" where
  "graphics_init s = s\<lparr>win_count := 0, desk_ready := True\<rparr>"

definition win_create ::
  "int \<Rightarrow> int \<Rightarrow> int \<Rightarrow> int \<Rightarrow> bytes \<Rightarrow> desktop \<Rightarrow> heap \<Rightarrow> pixels \<Rightarrow> (desktop \<times> heap \<times> pixels \<times> int) option" where
  "win_create x y w h name s hp m =
     (if MAX_WINDOWS \<le> win_count s then Some (s, hp, m, -1)
      else
        let i = win_count s;
            win = (windows s ! i)\<lparr>bounds := Rect x y w h, visible := True, focused := (i = 0), title := take 63 name\<rparr>;
            cr = client_rect win
        in map_option (\<lambda>(hp1, m1, b).
             let p = (painter_begin b)\<lparr>pcolor := ClientBg\<rparr> in
             (s\<lparr>windows := (windows s)[i := win\<lparr>backbuf := b, win_pen := p\<rparr>], win_count := i + 1\<rparr>, hp1,
              fill_rect p (Rect 0 0 (rw cr) (rh cr)) m1, int i))
           (surface_create (rw cr) (rh cr) hp m))"

definition on_window :: "int \<Rightarrow> (window \<Rightarrow> window) \<Rightarrow> desktop \<Rightarrow> desktop" where
  "on_window i f s = (case get_window s i of None \<Rightarrow> s | Some k \<Rightarrow> s\<lparr>windows := (windows s)[k := f (windows s ! k)]\<rparr>)"

definition win_destroy :: "int \<Rightarrow> desktop \<Rightarrow> heap \<Rightarrow> desktop \<times> heap" where
  "win_destroy i s hp =
     (case get_window s i of
        None \<Rightarrow> (s, hp)
      | Some k \<Rightarrow>
          (case surface_free (backbuf (windows s ! k)) hp of
             (hp1, b) \<Rightarrow> (on_window i (\<lambda>w. w\<lparr>backbuf := b, visible := False\<rparr>) s, hp1)))"

definition win_show :: "int \<Rightarrow> desktop \<Rightarrow> desktop" where
  "win_show i = on_window i (visible_update (\<lambda>_. True))"

definition win_hide :: "int \<Rightarrow> desktop \<Rightarrow> desktop" where
  "win_hide i = on_window i (visible_update (\<lambda>_. False))"

definition win_focus :: "int \<Rightarrow> desktop \<Rightarrow> desktop" where
  "win_focus i s = s\<lparr>windows := map (\<lambda>(k, w). if k < win_count s then w\<lparr>focused := (int k = i)\<rparr> else w)
     (enumerate 0 (windows s))\<rparr>"

definition win_move :: "int \<Rightarrow> int \<Rightarrow> int \<Rightarrow> desktop \<Rightarrow> desktop" where
  "win_move i x y = on_window i (\<lambda>w. w\<lparr>bounds := (bounds w)\<lparr>rx := x, ry := y\<rparr>\<rparr>)"

definition win_painter :: "int \<Rightarrow> desktop \<Rightarrow> desktop \<times> painter" where
  "win_painter i s =
     (case get_window s i of
        None \<Rightarrow> let g = gfx_painter (screen_of s) in (s\<lparr>screen_of := g\<rparr>, g_painter g)
      | Some k \<Rightarrow> let p = painter_begin (backbuf (windows s ! k)) in (on_window i (\<lambda>w. w\<lparr>win_pen := p\<rparr>) s, p))"

definition paint_window :: "window \<Rightarrow> desktop \<Rightarrow> pixels \<Rightarrow> desktop \<times> pixels" where
  "paint_window w s m = (case draw_chrome (screen_of s) w m of (g, m1) \<Rightarrow> (s\<lparr>screen_of := g\<rparr>, blit_client g w m1))"

definition win_flush :: "int \<Rightarrow> desktop \<Rightarrow> pixels \<Rightarrow> desktop \<times> pixels" where
  "win_flush i s m =
     (case get_window s i of
        None \<Rightarrow> (s, m)
      | Some k \<Rightarrow>
          let w = windows s ! k in
          if \<not> visible w then (s, m)
          else (case paint_window w s m of
            (s1, m1) \<Rightarrow> (s1, gfx_flip_rect (screen_of s1) (unite (translated (-5) (-5) (bounds w)) (bounds w)) m1)))"

definition win_flush_all :: "desktop \<Rightarrow> pixels \<Rightarrow> desktop \<times> pixels" where
  "win_flush_all s m =
     (case fold (\<lambda>i (s, m). let w = windows s ! i in if \<not> visible w then (s, m) else paint_window w s m)
        [0..<win_count s] (s, m) of
        (s1, m1) \<Rightarrow> (s1, gfx_flip (screen_of s1) m1))"

section \<open>The cursor\<close>

definition CW :: nat where "CW = 11"
definition CH :: nat where "CH = 18"

definition CURSOR_SHAPE :: "nat list list" where
  "CURSOR_SHAPE = [
    [2, 0, 0, 0, 0, 0, 0, 0, 0, 0, 0],
    [2, 2, 0, 0, 0, 0, 0, 0, 0, 0, 0],
    [2, 1, 2, 0, 0, 0, 0, 0, 0, 0, 0],
    [2, 1, 1, 2, 0, 0, 0, 0, 0, 0, 0],
    [2, 1, 1, 1, 2, 0, 0, 0, 0, 0, 0],
    [2, 1, 1, 1, 1, 2, 0, 0, 0, 0, 0],
    [2, 1, 1, 1, 1, 1, 2, 0, 0, 0, 0],
    [2, 1, 1, 1, 1, 1, 1, 2, 0, 0, 0],
    [2, 1, 1, 1, 1, 1, 1, 1, 2, 0, 0],
    [2, 1, 1, 1, 1, 1, 1, 1, 1, 2, 0],
    [2, 1, 1, 1, 1, 1, 1, 1, 1, 1, 2],
    [2, 1, 1, 1, 1, 1, 2, 2, 2, 2, 2],
    [2, 1, 1, 2, 1, 1, 2, 0, 0, 0, 0],
    [2, 1, 2, 0, 2, 1, 1, 2, 0, 0, 0],
    [2, 2, 0, 0, 2, 1, 1, 2, 0, 0, 0],
    [2, 0, 0, 0, 0, 2, 1, 1, 2, 0, 0],
    [0, 0, 0, 0, 0, 2, 1, 1, 2, 0, 0],
    [0, 0, 0, 0, 0, 0, 2, 2, 0, 0, 0]]"

text \<open>A loop over the cursor's pixels that skips those outside the buffer.\<close>

definition cursor_loop :: "surface \<Rightarrow> int \<Rightarrow> int \<Rightarrow> (nat \<Rightarrow> nat \<Rightarrow> int \<Rightarrow> pixels \<Rightarrow> pixels) \<Rightarrow> pixels \<Rightarrow> pixels" where
  "cursor_loop buf x y f m =
     fold (\<lambda>row m.
         let sy = y + int row in
         if sy < 0 \<or> sheight buf \<le> sy then m
         else fold (\<lambda>col m.
             let sx = x + int col in
             if sx < 0 \<or> swidth buf \<le> sx then m else f row col (cell buf sx sy) m) [0..<CW] m)
       [0..<CH] m"

definition cursor_hide :: "desktop \<Rightarrow> pixels \<Rightarrow> desktop \<times> pixels" where
  "cursor_hide s m =
     (if cursor_px s < 0 then (s, m)
      else
        let m1 = cursor_loop (g_back (screen_of s)) (cursor_px s) (cursor_py s)
              (\<lambda>row col a m. m(a := cursor_bg s ! (row * CW + col))) m
        in (s\<lparr>cursor_px := -1\<rparr>,
            gfx_flip_rect (screen_of s) (Rect (cursor_px s) (cursor_py s) (int CW) (int CH)) m1))"

definition cursor_save :: "surface \<Rightarrow> int \<Rightarrow> int \<Rightarrow> pixels \<Rightarrow> color list" where
  "cursor_save scr x y m =
     concat (map (\<lambda>row. map (\<lambda>col.
        let sx = x + int col; sy = y + int row in
        if 0 \<le> sx \<and> sx < swidth scr \<and> 0 \<le> sy \<and> sy < sheight scr then m (cell scr sx sy) else 0) [0..<CW]) [0..<CH])"

definition cursor_shape_at :: "nat \<Rightarrow> nat \<Rightarrow> int \<Rightarrow> pixels \<Rightarrow> pixels" where
  "cursor_shape_at row col a m =
     (let p = CURSOR_SHAPE ! row ! col in
      if p = 1 then m(a := 0xFFFFFFFF) else if p = 2 then m(a := 0xFF000000) else m)"

definition cursor_draw :: "int \<Rightarrow> int \<Rightarrow> desktop \<Rightarrow> pixels \<Rightarrow> desktop \<times> pixels" where
  "cursor_draw x y s0 m0 =
     (case cursor_hide s0 m0 of
        (s, m) \<Rightarrow>
          let scr = g_back (screen_of s);
              m1 = cursor_loop scr x y cursor_shape_at m
          in (s\<lparr>cursor_bg := cursor_save scr x y m, cursor_px := x, cursor_py := y\<rparr>,
              gfx_flip_rect (screen_of s) (Rect x y (int CW) (int CH)) m1))"

end
