(* ===== verification/GfxProps.thy ===== *)
theory GfxProps
  imports Painter
begin

unbundle bit_operations_syntax

text \<open>
  What the drawing operations paint. Every operation in one colour is characterised by the set
  of points it asks for: exactly the cells of those points that lie in the clip rectangle get
  the colour. Lines and circles are the points nearest to the ideal line and circle.
\<close>

section \<open>Rectangles and cells\<close>

lemma rect_simps [simp]:
  "rx (Rect x y w h) = x" "ry (Rect x y w h) = y" "rw (Rect x y w h) = w" "rh (Rect x y w h) = h"
  by (simp_all add: Rect_def)

lemma intersect_contains: "contains (intersect a b) x y \<longleftrightarrow> contains a x y \<and> contains b x y"
  by (auto simp: intersect_def contains_def Let_def right_def bottom_def)

definition surface_ok :: "surface \<Rightarrow> bool" where
  "surface_ok s \<longleftrightarrow> 0 \<le> swidth s \<and> 0 \<le> sheight s \<and> 4 * swidth s \<le> spitch s"

lemma mult_small_zero:
  fixes a k b :: int
  assumes "a * k = b" "\<bar>b\<bar> < k"
  shows "a = 0"
proof (rule ccontr)
  assume "a \<noteq> 0"
  then have "1 \<le> \<bar>a\<bar>" by simp
  moreover have k: "0 \<le> k" using assms(2) abs_ge_zero [of b] by linarith
  ultimately have "1 * k \<le> \<bar>a\<bar> * k" by (rule mult_right_mono)
  also have "\<dots> = \<bar>b\<bar>" unfolding assms(1) [symmetric] abs_mult using k by simp
  finally show False using assms(2) by simp
qed

lemma cell_eq_iff:
  assumes "surface_ok s" "inside s x y" "inside s x' y'"
  shows "cell s x y = cell s x' y' \<longleftrightarrow> x = x' \<and> y = y'"
proof
  assume e: "cell s x y = cell s x' y'"
  then have "(y - y') * spitch s = 4 * (x' - x)" by (simp add: cell_def surface_row_def algebra_simps)
  moreover have "\<bar>4 * (x' - x)\<bar> < spitch s" using assms by (auto simp: inside_def surface_ok_def)
  ultimately have "y - y' = 0" by (rule mult_small_zero)
  with e show "x = x' \<and> y = y'" by (simp add: cell_def)
qed simp

section \<open>Points painted in one colour\<close>

definition clip_ok :: "painter \<Rightarrow> bool" where
  "clip_ok p \<longleftrightarrow> (\<forall>x y. contains (clip p) x y \<longrightarrow> inside (ptarget p) x y)"

definition clip_cell :: "painter \<Rightarrow> (int \<times> int) set \<Rightarrow> int \<Rightarrow> bool" where
  "clip_cell p S c \<longleftrightarrow> (\<exists>(x, y) \<in> S. contains (clip p) x y \<and> c = cell (ptarget p) x y)"

definition drawn :: "painter \<Rightarrow> (int \<times> int) set \<Rightarrow> pixels \<Rightarrow> pixels" where
  "drawn p S m = (\<lambda>c. if clip_cell p S c then pcolor p else m c)"

lemma drawn_empty [simp]: "drawn p {} m = m"
  by (simp add: drawn_def clip_cell_def)

lemma clip_cell_Un: "clip_cell p (S \<union> T) c \<longleftrightarrow> clip_cell p S c \<or> clip_cell p T c"
  by (auto simp: clip_cell_def)

lemma drawn_drawn: "drawn p S (drawn p T m) = drawn p (S \<union> T) m"
  by (auto simp: drawn_def clip_cell_Un)

lemma drawn_cong: "(\<And>c. clip_cell p S c \<longleftrightarrow> clip_cell p T c) \<Longrightarrow> drawn p S m = drawn p T m"
  by (simp add: drawn_def)

lemma outside_iff: "outside_clip p x y \<longleftrightarrow> \<not> contains (clip p) x y"
  by (auto simp: outside_clip_def contains_def right_def bottom_def)

lemma plot_drawn: "clip_ok p \<Longrightarrow> plot p x y m = drawn p {(x, y)} m"
  by (auto simp: plot_def outside_iff drawn_def clip_cell_def surface_set_def clip_ok_def)

lemma fold_drawn:
  assumes "\<And>i m. i \<in> set xs \<Longrightarrow> f i m = drawn p (S i) m"
  shows "fold f xs m = drawn p (\<Union>i \<in> set xs. S i) m"
  using assms by (induction xs arbitrary: m) (simp_all add: drawn_drawn Un_commute)

lemma hline_drawn:
  assumes "clip_ok p"
  shows "draw_hline p x y len m = drawn p ({x..<x + len} \<times> {y}) m"
proof
  fix a
  let ?w = "{max x (rx (clip p))..<min (x + len) (right (clip p))}"
  have cl: "clip_cell p ({x..<x + len} \<times> {y}) a \<longleftrightarrow>
      ry (clip p) \<le> y \<and> y < bottom (clip p) \<and> a \<in> (\<lambda>i. cell (ptarget p) i y) ` ?w"
    by (auto simp: clip_cell_def contains_def right_def bottom_def)
  have w: "{(if x < rx (clip p) then rx (clip p) else x)..(if right (clip p) < x + len then right (clip p) else x + len) - 1} = ?w"
    by auto
  show "draw_hline p x y len m a = drawn p ({x..<x + len} \<times> {y}) m a"
    unfolding draw_hline_def drawn_def cl Let_def
    by (auto simp: fold_write w cell_def surface_row_def)
qed

lemma vline_drawn:
  assumes "clip_ok p"
  shows "draw_vline p x y len m = drawn p ({x} \<times> {y..<y + len}) m"
proof
  fix a
  let ?w = "{max y (ry (clip p))..<min (y + len) (bottom (clip p))}"
  have cl: "clip_cell p ({x} \<times> {y..<y + len}) a \<longleftrightarrow>
      rx (clip p) \<le> x \<and> x < right (clip p) \<and> a \<in> (\<lambda>i. cell (ptarget p) x i) ` ?w"
    by (auto simp: clip_cell_def contains_def right_def bottom_def)
  have w: "{(if y < ry (clip p) then ry (clip p) else y)..(if bottom (clip p) < y + len then bottom (clip p) else y + len) - 1} = ?w"
    by auto
  show "draw_vline p x y len m a = drawn p ({x} \<times> {y..<y + len}) m a"
    unfolding draw_vline_def drawn_def cl Let_def
    by (auto simp: fold_write w cell_def)
qed

lemma fill_drawn:
  assumes "clip_ok p"
  shows "fill_rect p r m = drawn p {(x, y). contains r x y} m"
proof (cases "rect_empty (intersect (clip p) r)")
  case True
  then have "\<not> (contains (clip p) x y \<and> contains r x y)" for x y
    unfolding intersect_contains [symmetric] by (auto simp: rect_empty_def contains_def)
  then have "\<not> clip_cell p {(x, y). contains r x y} c" for c by (auto simp: clip_cell_def)
  with True show ?thesis by (simp add: fill_rect_def drawn_def)
next
  case False
  let ?cr = "intersect (clip p) r"
  let ?S = "\<lambda>row. {rx ?cr..<right ?cr} \<times> {row}"
  have row: "fold (\<lambda>col m. m(cell (ptarget p) (rx ?cr) row + 4 * col := pcolor p)) [0..rw ?cr - 1] m = drawn p (?S row) m"
    if "row \<in> set [ry ?cr..bottom ?cr - 1]" for row m
  proof
    fix a
    have in_clip: "contains (clip p) x row" if "rx ?cr \<le> x" "x < right ?cr" for x
    proof -
      have "contains ?cr x row" using that \<open>row \<in> _\<close> by (simp add: contains_def right_def bottom_def)
      then show ?thesis by (simp add: intersect_contains)
    qed
    have "a \<in> (\<lambda>col. cell (ptarget p) (rx ?cr) row + 4 * col) ` {0..rw ?cr - 1} \<longleftrightarrow> clip_cell p (?S row) a" (is "?l = ?r")
    proof
      assume ?l
      then obtain col where "0 \<le> col" "col \<le> rw ?cr - 1" "a = cell (ptarget p) (rx ?cr + col) row"
        by (auto simp: cell_def)
      then show ?r using in_clip [of "rx ?cr + col"] by (auto simp: clip_cell_def right_def)
    next
      assume ?r
      then obtain x where x: "rx ?cr \<le> x" "x < right ?cr" "a = cell (ptarget p) x row" by (auto simp: clip_cell_def)
      then have "x - rx ?cr \<in> {0..rw ?cr - 1}" "a = cell (ptarget p) (rx ?cr) row + 4 * (x - rx ?cr)"
        by (auto simp: right_def cell_def)
      then show ?l by blast
    qed
    then show "fold (\<lambda>col m. m(cell (ptarget p) (rx ?cr) row + 4 * col := pcolor p)) [0..rw ?cr - 1] m a = drawn p (?S row) m a"
      by (simp add: fold_write drawn_def)
  qed
  have "fill_rect p r m = drawn p (\<Union>row \<in> set [ry ?cr..bottom ?cr - 1]. ?S row) m"
    using False by (simp only: fill_rect_def Let_def if_False fold_drawn [OF row])
  also have "\<dots> = drawn p {(x, y). contains r x y} m"
  proof (rule drawn_cong)
    fix c
    have "(\<Union>row \<in> set [ry ?cr..bottom ?cr - 1]. ?S row) = {(x, y). contains ?cr x y}"
      by (auto simp: contains_def right_def bottom_def)
    then show "clip_cell p (\<Union>row \<in> set [ry ?cr..bottom ?cr - 1]. ?S row) c \<longleftrightarrow> clip_cell p {(x, y). contains r x y} c"
      by (auto simp: intersect_contains clip_cell_def)
  qed
  finally show ?thesis .
qed

section \<open>Lines\<close>

text \<open>
  The offsets \<open>(a, b)\<close> from the start nearest to the line with the slope \<open>h / w\<close>: in the longer
  direction one for each step, at most half a pixel off.
\<close>

definition near_line :: "int \<Rightarrow> int \<Rightarrow> int \<Rightarrow> int \<Rightarrow> bool" where
  "near_line w h a b \<longleftrightarrow> (if h \<le> w then - w < 2 * (b * w - a * h) \<and> 2 * (b * w - a * h) \<le> w
     else - h \<le> 2 * (b * w - a * h) \<and> 2 * (b * w - a * h) < h)"

lemma half_open_unique:
  fixes b b' w t :: int
  assumes "- w < 2 * (b * w - t)" "2 * (b * w - t) \<le> w" "- w < 2 * (b' * w - t)" "2 * (b' * w - t) \<le> w"
  shows "b = b'"
proof -
  have "(b - b') * w = b * w - b' * w" by (rule left_diff_distrib)
  moreover have "\<bar>b * w - b' * w\<bar> < w" using assms by (simp add: abs_less_iff)
  ultimately have "b - b' = 0" by (rule mult_small_zero)
  then show ?thesis by simp
qed

lemma near_line_unique:
  "0 < w \<Longrightarrow> h \<le> w \<Longrightarrow> near_line w h a b \<Longrightarrow> near_line w h a b' \<Longrightarrow> b' = b"
  "0 \<le> w \<Longrightarrow> w < h \<Longrightarrow> near_line w h a b \<Longrightarrow> near_line w h a' b \<Longrightarrow> a' = a"
  using half_open_unique [of w b' "a * h" b] half_open_unique [of h a' "b * w" a] by (auto simp: near_line_def algebra_simps)

text \<open>A loop \<open>L\<close> that draws one point \<open>f i j\<close> for each step of \<open>i\<close> up to \<open>n\<close>.\<close>

lemma walk_drawn:
  fixes i n :: int
  assumes ok: "clip_ok p"
    and stop: "\<And>j m. N n j \<Longrightarrow> L n j m = Some (plot p (fst (f n j)) (snd (f n j)) m)"
    and step: "\<And>i j m. i < n \<Longrightarrow> N i j \<Longrightarrow> \<exists>k. N (i + 1) k \<and> L i j m = L (i + 1) k (plot p (fst (f i j)) (snd (f i j)) m)"
    and uniq: "\<And>i j k. N i j \<Longrightarrow> N i k \<Longrightarrow> k = j"
  shows "i \<le> n \<Longrightarrow> N i j \<Longrightarrow> L i j m = Some (drawn p {f i' j' | i' j'. i \<le> i' \<and> i' \<le> n \<and> N i' j'} m)"
proof (induction "nat (n - i)" arbitrary: i j m)
  case 0
  then have e: "i = n" by simp
  with 0 have n: "N n j" by simp
  have "{f i' j' | i' j'. n \<le> i' \<and> i' \<le> n \<and> N i' j'} = {f n j}"
  proof (intro equalityI subsetI)
    fix q assume "q \<in> {f i' j' | i' j'. n \<le> i' \<and> i' \<le> n \<and> N i' j'}"
    then obtain i' j' where q: "q = f i' j'" "n \<le> i'" "i' \<le> n" "N i' j'" by blast
    then have "i' = n" by simp
    with q uniq [OF n] show "q \<in> {f n j}" by blast
  qed (use n in blast)
  then show ?case using stop [OF n, of m] plot_drawn [OF ok, of "fst (f n j)" "snd (f n j)" m] by (simp add: e)
next
  case (Suc d)
  let ?S = "\<lambda>i. {f i' j' | i' j'. i \<le> i' \<and> i' \<le> n \<and> N i' j'}"
  have lt: "i < n" using Suc by simp
  obtain k where k: "N (i + 1) k" "L i j m = L (i + 1) k (plot p (fst (f i j)) (snd (f i j)) m)"
    using step [OF lt Suc.prems(2)] by blast
  have "?S i = insert (f i j) (?S (i + 1))"
  proof (intro equalityI subsetI)
    fix q assume "q \<in> ?S i"
    then obtain i' j' where "q = f i' j'" "i \<le> i'" "i' \<le> n" "N i' j'" by blast
    moreover have "i' = i \<or> i + 1 \<le> i'" using \<open>i \<le> i'\<close> by auto
    ultimately show "q \<in> insert (f i j) (?S (i + 1))" using uniq [OF Suc.prems(2)] by blast
  qed (use Suc.prems in force)
  then show ?case
    using Suc.hyps(1) [of "i + 1" k "plot p (fst (f i j)) (snd (f i j)) m"] Suc.hyps(2) lt k plot_drawn [OF ok, of "fst (f i j)" "snd (f i j)" m]
    by (simp add: drawn_drawn)
qed

lemma line_loop_x:
  assumes ok: "clip_ok p" and w: "0 < w" "0 \<le> h" "h \<le> w" and s: "sx \<in> {1, -1}" "sy \<in> {1, -1}"
    and a: "a \<le> w" and n: "near_line w h a b"
  shows "line_loop p w (- h) sx sy (x0 + sx * w) (y0 + sy * h) (w - h + (b * w - a * h)) (x0 + sx * a) (y0 + sy * b) m
    = Some (drawn p {(x0 + sx * a', y0 + sy * b') | a' b'. a \<le> a' \<and> a' \<le> w \<and> near_line w h a' b'} m)"
proof (rule walk_drawn [where N = "near_line w h" and f = "\<lambda>a b. (x0 + sx * a, y0 + sy * b)", OF ok _ _ _ a n])
  fix j m
  assume "near_line w h w j"
  then have "j = h" using near_line_unique(1) [of w h w h] w by (simp add: near_line_def)
  then show "line_loop p w (- h) sx sy (x0 + sx * w) (y0 + sy * h) (w - h + (j * w - w * h)) (x0 + sx * w) (y0 + sy * j) m
      = Some (plot p (fst (x0 + sx * w, y0 + sy * j)) (snd (x0 + sx * w, y0 + sy * j)) m)"
    by (subst line_loop.simps) simp
next
  fix a b m
  assume aw: "a < w" and n: "near_line w h a b"
  define d where "d = b * w - a * h"
  have d: "- w < 2 * d" "2 * d \<le> w" using n w by (simp_all add: near_line_def d_def)
  have x: "- h \<le> 2 * (w - h + d)" using d(1) w by simp
  define b1 where "b1 = (if 2 * (w - h + d) \<le> w then b + 1 else b)"
  have b1w: "b1 * w = (if 2 * (w - h + d) \<le> w then b * w + w else b * w)" by (simp add: b1_def algebra_simps)
  have near1: "near_line w h (a + 1) b1"
    using d w b1w unfolding near_line_def by (auto simp: d_def algebra_simps)
  have err: "(if 2 * (w - h + d) \<le> w then w - h + d + - h + w else w - h + d + - h) = w - h + (b1 * w - (a + 1) * h)"
    using b1w by (simp add: d_def algebra_simps)
  have ne: "x0 + sx * a \<noteq> x0 + sx * w" using aw s(1) by auto
  have "line_loop p w (- h) sx sy (x0 + sx * w) (y0 + sy * h) (w - h + d) (x0 + sx * a) (y0 + sy * b) m
      = line_loop p w (- h) sx sy (x0 + sx * w) (y0 + sy * h) (w - h + (b1 * w - (a + 1) * h))
          (x0 + sx * (a + 1)) (y0 + sy * b1) (plot p (x0 + sx * a) (y0 + sy * b) m)"
    using ne x unfolding err [symmetric] by (subst line_loop.simps) (simp add: Let_def b1_def distrib_left add.assoc)
  with near1 show "\<exists>k. near_line w h (a + 1) k \<and>
      line_loop p w (- h) sx sy (x0 + sx * w) (y0 + sy * h) (w - h + (b * w - a * h)) (x0 + sx * a) (y0 + sy * b) m
      = line_loop p w (- h) sx sy (x0 + sx * w) (y0 + sy * h) (w - h + (k * w - (a + 1) * h)) (x0 + sx * (a + 1)) (y0 + sy * k)
          (plot p (fst (x0 + sx * a, y0 + sy * b)) (snd (x0 + sx * a, y0 + sy * b)) m)"
    unfolding d_def by auto
qed (rule near_line_unique(1) [OF w(1,3)])

lemma line_loop_y:
  assumes ok: "clip_ok p" and w: "0 \<le> w" "w < h" and s: "sx \<in> {1, -1}" "sy \<in> {1, -1}"
    and b: "b \<le> h" and n: "near_line w h a b"
  shows "line_loop p w (- h) sx sy (x0 + sx * w) (y0 + sy * h) (w - h + (b * w - a * h)) (x0 + sx * a) (y0 + sy * b) m
    = Some (drawn p {(x0 + sx * a', y0 + sy * b') | a' b'. b \<le> b' \<and> b' \<le> h \<and> near_line w h a' b'} m)"
proof -
  have "line_loop p w (- h) sx sy (x0 + sx * w) (y0 + sy * h) (w - h + (b * w - a * h)) (x0 + sx * a) (y0 + sy * b) m
    = Some (drawn p {(x0 + sx * a', y0 + sy * b') | b' a'. b \<le> b' \<and> b' \<le> h \<and> near_line w h a' b'} m)"
  proof (rule walk_drawn [where N = "\<lambda>b a. near_line w h a b" and f = "\<lambda>b a. (x0 + sx * a, y0 + sy * b)", OF ok _ _ _ b n])
    fix j m
    assume "near_line w h j h"
    then have "j = w" using near_line_unique(2) [of w h w h] w by (simp add: near_line_def)
    then show "line_loop p w (- h) sx sy (x0 + sx * w) (y0 + sy * h) (w - h + (h * w - j * h)) (x0 + sx * j) (y0 + sy * h) m
        = Some (plot p (fst (x0 + sx * j, y0 + sy * h)) (snd (x0 + sx * j, y0 + sy * h)) m)"
      by (subst line_loop.simps) simp
  next
    fix b a m
    assume bh: "b < h" and n: "near_line w h a b"
    define d where "d = b * w - a * h"
    have d: "- h \<le> 2 * d" "2 * d < h" using n w by (simp_all add: near_line_def d_def)
    have y: "2 * (w - h + d) \<le> w" using d(2) w by simp
    define a1 where "a1 = (if - h \<le> 2 * (w - h + d) then a + 1 else a)"
    have a1h: "a1 * h = (if - h \<le> 2 * (w - h + d) then a * h + h else a * h)" by (simp add: a1_def algebra_simps)
    have near1: "near_line w h a1 (b + 1)"
      using d w a1h unfolding near_line_def by (auto simp: d_def algebra_simps)
    have err: "(if - h \<le> 2 * (w - h + d) then w - h + d + - h else w - h + d) + w = w - h + ((b + 1) * w - a1 * h)"
      using a1h by (simp add: d_def algebra_simps)
    have ne: "y0 + sy * b \<noteq> y0 + sy * h" using bh s(2) by auto
    have "line_loop p w (- h) sx sy (x0 + sx * w) (y0 + sy * h) (w - h + d) (x0 + sx * a) (y0 + sy * b) m
        = line_loop p w (- h) sx sy (x0 + sx * w) (y0 + sy * h) (w - h + ((b + 1) * w - a1 * h))
            (x0 + sx * a1) (y0 + sy * (b + 1)) (plot p (x0 + sx * a) (y0 + sy * b) m)"
      using ne y unfolding err [symmetric] by (subst line_loop.simps) (simp add: Let_def a1_def distrib_left add.assoc)
    with near1 show "\<exists>k. near_line w h k (b + 1) \<and>
        line_loop p w (- h) sx sy (x0 + sx * w) (y0 + sy * h) (w - h + (b * w - a * h)) (x0 + sx * a) (y0 + sy * b) m
        = line_loop p w (- h) sx sy (x0 + sx * w) (y0 + sy * h) (w - h + ((b + 1) * w - k * h)) (x0 + sx * k) (y0 + sy * (b + 1))
            (plot p (fst (x0 + sx * a, y0 + sy * b)) (snd (x0 + sx * a, y0 + sy * b)) m)"
      unfolding d_def by auto
  qed (rule near_line_unique(2) [OF w])
  moreover have "{(x0 + sx * a', y0 + sy * b') | b' a'. b \<le> b' \<and> b' \<le> h \<and> near_line w h a' b'}
      = {(x0 + sx * a', y0 + sy * b') | a' b'. b \<le> b' \<and> b' \<le> h \<and> near_line w h a' b'}" by blast
  ultimately show ?thesis by simp
qed

text \<open>The pixels of the line between two points.\<close>

definition line_points :: "int \<Rightarrow> int \<Rightarrow> int \<Rightarrow> int \<Rightarrow> (int \<times> int) set" where
  "line_points x0 y0 x1 y1 =
     (let w = \<bar>x1 - x0\<bar>; h = \<bar>y1 - y0\<bar>; sx = (if x0 < x1 then 1 else -1); sy = (if y0 < y1 then 1 else -1) in
      if w = 0 \<and> h = 0 then {(x0, y0)}
      else {(x0 + sx * a, y0 + sy * b) | a b. 0 \<le> a \<and> a \<le> w \<and> 0 \<le> b \<and> b \<le> h \<and> near_line w h a b})"

text \<open>Points near the line that lie between the ends in one direction do so in the other.\<close>

lemma near_between:
  fixes a b w h :: int
  assumes "- w < 2 * (b * w - a * h)" "2 * (b * w - a * h) \<le> w" "0 \<le> a" "a \<le> w" "0 \<le> h" "h \<le> w" "0 < w"
  shows "0 \<le> b \<and> b \<le> h"
proof -
  have "0 \<le> a * h" "a * h \<le> w * h" using assms by (simp_all add: mult_right_mono)
  then have "- w < 2 * (b * w)" "2 * (b * w) \<le> w + 2 * (h * w)" using assms(1,2) by (simp_all add: mult.commute)
  then have "(- 1) * w < (2 * b) * w" "(2 * b) * w \<le> (1 + 2 * h) * w" by (simp_all add: algebra_simps)
  then have "- 1 < 2 * b" "2 * b \<le> 1 + 2 * h" using assms(7) by (simp_all only: mult_less_cancel_right_pos mult_le_cancel_right_pos)
  then show ?thesis by simp
qed

lemma near_between_y:
  fixes a b w h :: int
  assumes "- h \<le> 2 * (b * w - a * h)" "2 * (b * w - a * h) < h" "0 \<le> b" "b \<le> h" "0 \<le> w" "w < h"
  shows "0 \<le> a \<and> a \<le> w"
  using near_between [of h a b w] assms by (simp add: algebra_simps)

lemma draw_line_drawn:
  assumes ok: "clip_ok p"
  shows "draw_line p x0 y0 x1 y1 m = Some (drawn p (line_points x0 y0 x1 y1) m)"
proof -
  define w h where "w = \<bar>x1 - x0\<bar>" and "h = \<bar>y1 - y0\<bar>"
  define sx sy :: int where "sx = (if x0 < x1 then 1 else -1)" and "sy = (if y0 < y1 then 1 else -1)"
  have nn: "0 \<le> w" "0 \<le> h" by (simp_all add: w_def h_def)
  have s: "sx \<in> {1, -1}" "sy \<in> {1, -1}" by (simp_all add: sx_def sy_def)
  have e: "x1 = x0 + sx * w" "y1 = y0 + sy * h" by (auto simp: sx_def sy_def w_def h_def)
  have wh: "(if x0 < x1 then x1 - x0 else x0 - x1) = w" "(if y0 < y1 then y1 - y0 else y0 - y1) = h"
    by (auto simp: w_def h_def)
  have run: "draw_line p x0 y0 x1 y1 m = line_loop p w (- h) sx sy x1 y1 (w - h) x0 y0 m"
    unfolding draw_line_def wh Let_def sx_def sy_def by simp
  have pts: "line_points x0 y0 x1 y1 = (if w = 0 \<and> h = 0 then {(x0, y0)}
      else {(x0 + sx * a, y0 + sy * b) | a b. 0 \<le> a \<and> a \<le> w \<and> 0 \<le> b \<and> b \<le> h \<and> near_line w h a b})"
    unfolding line_points_def Let_def w_def h_def sx_def sy_def ..
  consider "w = 0" "h = 0" | "h \<le> w" "0 < w" | "w < h" using nn by linarith
  then show ?thesis
  proof cases
    case 1
    then have "x1 = x0" "y1 = y0" by (simp_all add: w_def h_def)
    then show ?thesis unfolding run pts using 1 plot_drawn [OF ok] by (subst line_loop.simps) simp
  next
    case 2
    have S: "{(x0 + sx * a, y0 + sy * b) | a b. 0 \<le> a \<and> a \<le> w \<and> 0 \<le> b \<and> b \<le> h \<and> near_line w h a b}
      = {(x0 + sx * a, y0 + sy * b) | a b. 0 \<le> a \<and> a \<le> w \<and> near_line w h a b}"
      using near_between [of w _ _ h] 2 nn unfolding near_line_def by fastforce
    have "near_line w h 0 0" using 2 by (simp add: near_line_def)
    from line_loop_x [OF ok 2(2) nn(2) 2(1) s _ this, of x0 y0 m] 2 nn show ?thesis
      unfolding run pts S e [symmetric] by auto
  next
    case 3
    have S: "{(x0 + sx * a, y0 + sy * b) | a b. 0 \<le> a \<and> a \<le> w \<and> 0 \<le> b \<and> b \<le> h \<and> near_line w h a b}
      = {(x0 + sx * a, y0 + sy * b) | a b. 0 \<le> b \<and> b \<le> h \<and> near_line w h a b}"
      using near_between_y [of h _ w] 3 nn unfolding near_line_def by fastforce
    have "near_line w h 0 0" using 3 nn by (simp add: near_line_def)
    from line_loop_y [OF ok nn(1) 3 s _ this, of x0 y0 m] 3 nn show ?thesis
      unfolding run pts S e [symmetric] by auto
  qed
qed

section \<open>Circles\<close>

text \<open>The offset nearest to the circle of radius \<open>r\<close> in its column, for the flat octant.\<close>

definition near_circle :: "int \<Rightarrow> int \<Rightarrow> int \<Rightarrow> bool" where
  "near_circle r x y \<longleftrightarrow> x * x + y * y - y < r * r \<and> r * r \<le> x * x + y * y + y"

lemma near_circle_unique:
  assumes "near_circle r x y" "near_circle r x y'" "0 \<le> y" "0 \<le> y'"
  shows "y = y'"
proof (rule ccontr)
  have step: False if "near_circle r x y" "near_circle r x y'" "0 \<le> y" "y < y'" for y y'
  proof -
    have "y + 1 \<le> y'" "0 \<le> y'" using that by simp_all
    then have "(y + 1) * y \<le> y' * (y' - 1)" using that by (intro mult_mono) simp_all
    then have "y * y + y \<le> y' * y' - y'" by (simp add: algebra_simps)
    with that(1,2) show False unfolding near_circle_def by linarith
  qed
  assume "y \<noteq> y'"
  with step [of y y'] step [of y' y] assms show False by linarith
qed

text \<open>Beyond the diagonal no point of the octant is left.\<close>

lemma octant_over:
  assumes "r * r \<le> x * x + y * y + y" "0 \<le> x" "y < x" "- 1 \<le> y" "x \<le> a" "a \<le> b" "near_circle r a b"
  shows False
proof -
  have "(y + 1) * y \<le> x * (x - 1)"
  proof (cases "y = - 1")
    case True
    then show ?thesis using assms(2) by (cases "x = 0") simp_all
  next
    case False
    then show ?thesis using assms(2-4) by (intro mult_mono) simp_all
  qed
  moreover have "x * (x - 1) \<le> b * (b - 1)"
  proof (cases "x = 0")
    case True
    then show ?thesis using assms(5,6) by (cases "b = 0") simp_all
  next
    case False
    then show ?thesis using assms(2,5,6) by (intro mult_mono) simp_all
  qed
  moreover have "x * x \<le> a * a" using assms(2,5) by (intro mult_mono) simp_all
  ultimately have "y * y + y + x * x \<le> b * b - b + a * a" by (simp add: algebra_simps)
  with assms(1,7) show False unfolding near_circle_def by linarith
qed

definition octant :: "int \<Rightarrow> int \<Rightarrow> (int \<times> int) set" where
  "octant r x = {(a, b). x \<le> a \<and> a \<le> b \<and> near_circle r a b}"

lemma octant_step:
  assumes "0 \<le> x" "x \<le> y" "near_circle r x y"
  shows "octant r x = insert (x, y) (octant r (x + 1))"
proof -
  have "(x, b) \<in> octant r x \<longleftrightarrow> b = y" for b
  proof
    assume "(x, b) \<in> octant r x"
    then have "x \<le> b" "near_circle r x b" by (simp_all add: octant_def)
    then show "b = y" by (intro near_circle_unique [OF _ assms(3)]) (use assms(1,2) in linarith)+
  qed (use assms(2,3) in \<open>simp add: octant_def\<close>)
  moreover have "(a, b) \<in> octant r x \<longleftrightarrow> (a, b) \<in> octant r (x + 1)" if "a \<noteq> x" for a b
    using that by (auto simp: octant_def)
  moreover have "(x, b) \<notin> octant r (x + 1)" for b by (simp add: octant_def)
  ultimately have "(a, b) \<in> octant r x \<longleftrightarrow> (a, b) \<in> insert (x, y) (octant r (x + 1))" for a b
    by (cases "a = x") simp_all
  then show ?thesis by auto
qed

lemma circle_loop_drawn:
  assumes f: "\<And>x y m. f x y m = drawn p (F (x, y)) m"
    and d: "d = (x + 1) * (x + 1) + y * y - y - r * r" and x: "0 \<le> x"
    and lo: "x \<le> y \<Longrightarrow> x * x + y * y - y < r * r" and hi: "r * r \<le> x * x + y * y + y" and y: "- 1 \<le> y"
  shows "circle_loop f x y d m = drawn p (\<Union> (F ` octant r x)) m"
  using assms
proof (induction f x y d m rule: circle_loop.induct)
  case (1 f x y d m)
  show ?case
  proof (cases "x \<le> y")
    case False
    then have "octant r x = {}" using octant_over [OF 1(7,5) _ 1(8)] by (auto simp: octant_def)
    then show ?thesis using False by (subst circle_loop.simps) simp
  next
    case True
    have lo: "x * x + y * y - y < r * r" using 1(6) True by simp
    have S: "octant r x = insert (x, y) (octant r (x + 1))"
      using octant_step [OF 1(5) True] lo 1(7) by (simp add: near_circle_def)
    show ?thesis
    proof (cases "d < 0")
      case neg: True
      have "circle_loop f (x + 1) y (d + (2 * x + 3)) (f x y m) = drawn p (\<Union> (F ` octant r (x + 1))) (f x y m)"
        by (rule 1(1) [OF True neg 1(3)]) (use 1(4,5,7,8) neg in \<open>simp_all add: algebra_simps\<close>)
      then show ?thesis using True neg by (subst circle_loop.simps) (simp add: S 1(3) drawn_drawn Un_commute)
    next
      case pos: False
      have "circle_loop f (x + 1) (y - 1) (d + (2 * (x - y) + 5)) (f x y m) = drawn p (\<Union> (F ` octant r (x + 1))) (f x y m)"
        by (rule 1(2) [OF True pos 1(3)]) (use 1(4,5,7,8) pos lo True in \<open>simp_all add: algebra_simps\<close>)
      then show ?thesis using True pos by (subst circle_loop.simps) (simp add: S 1(3) drawn_drawn Un_commute)
    qed
  qed
qed

definition circle_points :: "int \<Rightarrow> int \<Rightarrow> int \<Rightarrow> (int \<times> int) set" where
  "circle_points cx cy r = {(x, y). near_circle r (min \<bar>x - cx\<bar> \<bar>y - cy\<bar>) (max \<bar>x - cx\<bar> \<bar>y - cy\<bar>)}"

definition mirrored :: "int \<Rightarrow> int \<Rightarrow> int \<times> int \<Rightarrow> (int \<times> int) set" where
  "mirrored cx cy = (\<lambda>(x, y). {(cx + x, cy + y), (cx - x, cy + y), (cx + x, cy - y), (cx - x, cy - y),
        (cx + y, cy + x), (cx - y, cy + x), (cx + y, cy - x), (cx - y, cy - x)})"

lemma mirrored_mem:
  "(a, b) \<in> mirrored cx cy (x, y) \<longleftrightarrow>
     (a = cx + x \<or> a = cx - x) \<and> (b = cy + y \<or> b = cy - y) \<or>
     (a = cx + y \<or> a = cx - y) \<and> (b = cy + x \<or> b = cy - x)"
  unfolding mirrored_def by (simp only: prod.case insert_iff empty_iff prod.inject) blast

lemma at_distance: "0 \<le> x \<Longrightarrow> a = c + x \<or> a = c - x \<longleftrightarrow> \<bar>a - c\<bar> = x" for x :: int
  by arith

lemma mirrored_iff:
  assumes xy: "0 \<le> x" "x \<le> y"
  shows "(a, b) \<in> mirrored cx cy (x, y) \<longleftrightarrow>
     x = min \<bar>a - cx\<bar> \<bar>b - cy\<bar> \<and> y = max \<bar>a - cx\<bar> \<bar>b - cy\<bar>"
proof -
  have "0 \<le> y" using xy by simp
  have "A = x \<and> B = y \<or> A = y \<and> B = x \<longleftrightarrow> x = min A B \<and> y = max A B" for A B :: int
    using xy by (auto simp: min_def max_def)
  then show ?thesis unfolding mirrored_mem at_distance [OF xy(1)] at_distance [OF \<open>0 \<le> y\<close>] .
qed

lemma mirrored_octant: "\<Union> (mirrored cx cy ` octant r 0) = circle_points cx cy r"
proof -
  have "(a, b) \<in> \<Union> (mirrored cx cy ` octant r 0) \<longleftrightarrow> (a, b) \<in> circle_points cx cy r" for a b
  proof
    assume "(a, b) \<in> \<Union> (mirrored cx cy ` octant r 0)"
    then obtain x y where "0 \<le> x" "x \<le> y" "near_circle r x y" "(a, b) \<in> mirrored cx cy (x, y)"
      by (auto simp: octant_def)
    then show "(a, b) \<in> circle_points cx cy r" by (simp add: mirrored_iff circle_points_def)
  next
    let ?q = "(min \<bar>a - cx\<bar> \<bar>b - cy\<bar>, max \<bar>a - cx\<bar> \<bar>b - cy\<bar>)"
    assume "(a, b) \<in> circle_points cx cy r"
    then have "?q \<in> octant r 0" by (simp add: octant_def circle_points_def)
    moreover have "(a, b) \<in> mirrored cx cy ?q" by (subst mirrored_iff) simp_all
    ultimately show "(a, b) \<in> \<Union> (mirrored cx cy ` octant r 0)" by blast
  qed
  then show ?thesis by auto
qed

lemma octants_drawn: "clip_ok p \<Longrightarrow> octants p cx cy x y m = drawn p (mirrored cx cy (x, y)) m"
  by (simp add: octants_def put_pixel_def plot_drawn drawn_drawn mirrored_def insert_commute)

lemma draw_circle_drawn:
  assumes "clip_ok p" "1 \<le> r"
  shows "draw_circle p cx cy r m = drawn p (circle_points cx cy r) m"
  unfolding draw_circle_def mirrored_octant [symmetric]
  by (rule circle_loop_drawn) (use assms in \<open>simp_all add: octants_drawn\<close>)

text \<open>The rows of a filled circle reach as far as its outline.\<close>

definition disc_points :: "int \<Rightarrow> int \<Rightarrow> int \<Rightarrow> (int \<times> int) set" where
  "disc_points cx cy r = {(x, y). \<exists>a \<ge> \<bar>x - cx\<bar>. (cx + a, y) \<in> circle_points cx cy r}"

definition rows :: "int \<Rightarrow> int \<Rightarrow> int \<times> int \<Rightarrow> (int \<times> int) set" where
  "rows cx cy = (\<lambda>(x, y). {cx - x..<cx - x + (2 * x + 1)} \<times> {cy + y} \<union> {cx - x..<cx - x + (2 * x + 1)} \<times> {cy - y}
     \<union> {cx - y..<cx - y + (2 * y + 1)} \<times> {cy + x} \<union> {cx - y..<cx - y + (2 * y + 1)} \<times> {cy - x})"

lemma rows_iff:
  "0 \<le> x \<Longrightarrow> x \<le> y \<Longrightarrow> (a, b) \<in> rows cx cy (x, y) \<longleftrightarrow> (\<exists>a' \<ge> \<bar>a - cx\<bar>. (cx + a', b) \<in> mirrored cx cy (x, y))"
proof
  assume "0 \<le> x" "x \<le> y" "(a, b) \<in> rows cx cy (x, y)"
  then have "\<bar>a - cx\<bar> \<le> x \<and> (cx + x, b) \<in> mirrored cx cy (x, y) \<or> \<bar>a - cx\<bar> \<le> y \<and> (cx + y, b) \<in> mirrored cx cy (x, y)"
    by (auto simp: rows_def mirrored_def)
  then show "\<exists>a' \<ge> \<bar>a - cx\<bar>. (cx + a', b) \<in> mirrored cx cy (x, y)" by blast
next
  assume "0 \<le> x" "x \<le> y" "\<exists>a' \<ge> \<bar>a - cx\<bar>. (cx + a', b) \<in> mirrored cx cy (x, y)"
  then show "(a, b) \<in> rows cx cy (x, y)" by (auto simp: rows_def mirrored_def)
qed

lemma rows_octant: "\<Union> (rows cx cy ` octant r 0) = disc_points cx cy r"
proof -
  have "(a, b) \<in> \<Union> (rows cx cy ` octant r 0) \<longleftrightarrow> (a, b) \<in> disc_points cx cy r" for a b
  proof -
    have "(a, b) \<in> \<Union> (rows cx cy ` octant r 0) \<longleftrightarrow>
        (\<exists>q \<in> octant r 0. \<exists>a' \<ge> \<bar>a - cx\<bar>. (cx + a', b) \<in> mirrored cx cy q)"
      using rows_iff unfolding octant_def by fastforce
    also have "\<dots> \<longleftrightarrow> (\<exists>a' \<ge> \<bar>a - cx\<bar>. (cx + a', b) \<in> \<Union> (mirrored cx cy ` octant r 0))" by blast
    finally show ?thesis unfolding mirrored_octant disc_points_def by simp
  qed
  then show ?thesis by auto
qed

lemma fill_circle_drawn:
  assumes "clip_ok p" "1 \<le> r"
  shows "fill_circle p cx cy r m = drawn p (disc_points cx cy r) m"
  unfolding fill_circle_def rows_octant [symmetric]
  by (rule circle_loop_drawn) (use assms in \<open>simp_all add: hline_drawn drawn_drawn rows_def Un_ac\<close>)

section \<open>Copying\<close>

text \<open>Clipping a copy in one direction: the start in the target, the start in the source, the length.\<close>

definition clip1 :: "int \<Rightarrow> int \<Rightarrow> int \<Rightarrow> int \<Rightarrow> int \<Rightarrow> int \<times> int \<times> int" where
  "clip1 dlen slen d s n =
     (let (d, s, n) = (if s < 0 then (d - s, 0, n + s) else (d, s, n));
          n = (if slen < s + n then slen - s else n);
          (d, s, n) = (if d < 0 then (0, s - d, n + d) else (d, s, n));
          n = (if dlen < d + n then dlen - d else n)
      in (d, s, n))"

lemma clip1_offset: "clip1 dlen slen d s n = (d', s', n') \<Longrightarrow> s' - d' = s - d"
  by (auto simp: clip1_def Let_def split: if_splits)

lemma clip1_range:
  assumes "clip1 dlen slen d s n = (d', s', n')"
  shows "d' \<le> x \<and> x < d' + n' \<longleftrightarrow>
    0 \<le> x \<and> x < dlen \<and> s \<le> x - d + s \<and> x - d + s < s + n \<and> 0 \<le> x - d + s \<and> x - d + s < slen"
  using assms by (auto simp: clip1_def Let_def split: if_splits)

lemma blit_clip_clip1:
  "blit_clip dst src dx dy sr =
     (case clip1 (swidth dst) (swidth src) dx (rx sr) (rw sr) of (dx', x, w) \<Rightarrow>
      case clip1 (sheight dst) (sheight src) dy (ry sr) (rh sr) of (dy', y, h) \<Rightarrow> (dx', dy', Rect x y w h))"
  by (cases sr) (simp add: blit_clip_def clip1_def Let_def right_def bottom_def Rect_def)

definition apart :: "surface \<Rightarrow> surface \<Rightarrow> bool" where
  "apart s t \<longleftrightarrow> (\<forall>x y x' y'. inside s x y \<longrightarrow> inside t x' y' \<longrightarrow> cell s x y \<noteq> cell t x' y')"

lemma copy_block:
  fixes dst src :: surface and dx dy sx sy w h :: int and m :: pixels
  assumes ok: "surface_ok dst" and ap: "apart dst src"
    and inn: "\<forall>i j. 0 \<le> i \<and> i < w \<and> 0 \<le> j \<and> j < h \<longrightarrow> inside dst (dx + i) (dy + j) \<and> inside src (sx + i) (sy + j)"
  defines "M \<equiv> fold (\<lambda>row. copy_cells (cell dst dx (dy + row)) (cell src sx (sy + row)) w) [0..h - 1] m"
  shows "0 \<le> i \<Longrightarrow> i < w \<Longrightarrow> 0 \<le> j \<Longrightarrow> j < h \<Longrightarrow> M (cell dst (dx + i) (dy + j)) = m (cell src (sx + i) (sy + j))"
    and "(\<And>i j. 0 \<le> i \<Longrightarrow> i < w \<Longrightarrow> 0 \<le> j \<Longrightarrow> j < h \<Longrightarrow> c \<noteq> cell dst (dx + i) (dy + j)) \<Longrightarrow> M c = m c"
proof -
  let ?f = "\<lambda>(j, i). cell dst (dx + i) (dy + j)" and ?g = "\<lambda>(j, i). cell src (sx + i) (sy + j)"
  let ?l = "concat (map (\<lambda>r. map (Pair r) [0..w - 1]) [0..h - 1])"
  have set: "set ?l = {0..h - 1} \<times> {0..w - 1}" by auto
  have inj: "inj_on ?f (set ?l)"
  proof (rule inj_onI, clarify)
    fix j i j' i'
    assume q: "(j, i) \<in> set ?l" "(j', i') \<in> set ?l" "cell dst (dx + i) (dy + j) = cell dst (dx + i') (dy + j')"
    have "inside dst (dx + i) (dy + j)" "inside dst (dx + i') (dy + j')" using q(1,2) inn unfolding set by simp_all
    from cell_eq_iff [OF ok this] q(3) show "j = j' \<and> i = i'" by simp
  qed
  have dis: "?f ` set ?l \<inter> ?g ` set ?l = {}"
    using inn ap unfolding set apart_def by fastforce
  have M: "M = fold (\<lambda>q m. m(?f q := m (?g q))) ?l m"
  proof -
    have e: "copy_cells (cell dst dx (dy + row)) (cell src sx (sy + row)) w
        = fold (\<lambda>i m. m(cell dst (dx + i) (dy + row) := m (cell src (sx + i) (sy + row)))) [0..w - 1]" for row
      by (simp add: copy_cells_def fun_eq_iff cell_def algebra_simps)
    show ?thesis unfolding M_def e fold_nested by (simp add: case_prod_unfold)
  qed
  note C = fold_copy [OF inj dis, folded M]
  show "M (cell dst (dx + i) (dy + j)) = m (cell src (sx + i) (sy + j))" if "0 \<le> i" "i < w" "0 \<le> j" "j < h"
    using C [of "(j, i)" m] that unfolding M set by simp
  show "M c = m c" if "\<And>i j. 0 \<le> i \<Longrightarrow> i < w \<Longrightarrow> 0 \<le> j \<Longrightarrow> j < h \<Longrightarrow> c \<noteq> cell dst (dx + i) (dy + j)"
  proof -
    have "c \<notin> ?f ` set ?l"
    proof
      assume "c \<in> ?f ` set ?l"
      then obtain j i where "(j, i) \<in> set ?l" "c = cell dst (dx + i) (dy + j)" by fast
      with that [of i j] show False unfolding set by simp
    qed
    then show ?thesis using C [of undefined m c] unfolding M by simp
  qed
qed

lemma blit_spec:
  fixes dst src :: surface and dx dy :: int and sr :: rect and m :: pixels
  assumes ok: "surface_ok dst" "apart dst src"
  defines "M \<equiv> surface_blit_rect dst dx dy src sr m"
  shows "inside dst x y \<Longrightarrow> M (cell dst x y) =
      (if contains sr (x - dx + rx sr) (y - dy + ry sr) \<and> inside src (x - dx + rx sr) (y - dy + ry sr)
       then m (cell src (x - dx + rx sr) (y - dy + ry sr)) else m (cell dst x y))"
    and "(\<And>x y. inside dst x y \<Longrightarrow> c \<noteq> cell dst x y) \<Longrightarrow> M c = m c"
proof -
  obtain dx' sx w where X: "clip1 (swidth dst) (swidth src) dx (rx sr) (rw sr) = (dx', sx, w)" by (metis prod_cases3)
  obtain dy' sy h where Y: "clip1 (sheight dst) (sheight src) dy (ry sr) (rh sr) = (dy', sy, h)" by (metis prod_cases3)
  have clip: "blit_clip dst src dx dy sr = (dx', dy', Rect sx sy w h)" by (simp add: blit_clip_clip1 X Y)
  have off: "sx = dx' - dx + rx sr" "sy = dy' - dy + ry sr" using clip1_offset [OF X] clip1_offset [OF Y] by simp_all
  have range: "(dx' \<le> x \<and> x < dx' + w) \<and> (dy' \<le> y \<and> y < dy' + h) \<longleftrightarrow> inside dst x y \<and>
      contains sr (x - dx + rx sr) (y - dy + ry sr) \<and> inside src (x - dx + rx sr) (y - dy + ry sr)" for x y
    unfolding clip1_range [OF X] clip1_range [OF Y] inside_def contains_def by auto
  have ij: "inside dst (dx' + i) (dy' + j) \<and> inside src (sx + i) (sy + j)" if "0 \<le> i" "i < w" "0 \<le> j" "j < h" for i j
  proof -
    have e: "sx + i = dx' + i - dx + rx sr" "sy + j = dy' + j - dy + ry sr" using off by simp_all
    show ?thesis using range [of "dx' + i" "dy' + j"] that unfolding e by simp
  qed
  then have inn: "\<forall>i j. 0 \<le> i \<and> i < w \<and> 0 \<le> j \<and> j < h \<longrightarrow>
      inside dst (dx' + i) (dy' + j) \<and> inside src (sx + i) (sy + j)" by blast
  have M: "M = fold (\<lambda>row. copy_cells (cell dst dx' (dy' + row)) (cell src sx (sy + row)) w) [0..h - 1] m"
  proof (cases "w \<le> 0 \<or> h \<le> 0")
    case True
    moreover have "fold (\<lambda>row m. m) xs m = m" for xs :: "int list" by (induction xs) simp_all
    moreover have "copy_cells d s w = (\<lambda>m. m)" if "w \<le> 0" for d s using that by (simp add: copy_cells_def fun_eq_iff)
    ultimately show ?thesis using True by (auto simp: M_def surface_blit_rect_def clip)
  next
    case False
    then show ?thesis by (simp add: M_def surface_blit_rect_def clip)
  qed
  note B = copy_block [OF ok inn, where m = m, folded M]
  show "M c = m c" if "\<And>x y. inside dst x y \<Longrightarrow> c \<noteq> cell dst x y"
    by (rule B(2)) (use that ij in blast)+
  assume ins: "inside dst x y"
  let ?x = "x - dx + rx sr" and ?y = "y - dy + ry sr"
  show "M (cell dst x y) = (if contains sr ?x ?y \<and> inside src ?x ?y then m (cell src ?x ?y) else m (cell dst x y))"
  proof (cases "(dx' \<le> x \<and> x < dx' + w) \<and> (dy' \<le> y \<and> y < dy' + h)")
    case True
    then have "M (cell dst (dx' + (x - dx')) (dy' + (y - dy'))) = m (cell src (sx + (x - dx')) (sy + (y - dy')))"
      by (intro B(1)) simp_all
    then show ?thesis using True range [of x y] off by (simp add: algebra_simps)
  next
    case False
    have "cell dst x y \<noteq> cell dst (dx' + i) (dy' + j)" if "0 \<le> i" "i < w" "0 \<le> j" "j < h" for i j
      using cell_eq_iff [OF ok(1) ins conjunct1 [OF ij [OF that]]] that False by auto
    then have "M (cell dst x y) = m (cell dst x y)" by (rule B(2))
    then show ?thesis using False range [of x y] ins by auto
  qed
qed

section \<open>Programs of drawing operations\<close>

text \<open>The operations that honour the clip rectangle, and the painter's settings.\<close>

datatype draw_op =
    Pixel int int | Blend int int | HLine int int int | VLine int int int | Line int int int int
  | Frame rect | Fill rect | Rounded rect int | FillRounded rect int | Circle int int int | Disc int int int
  | Triangle int int int int int int | FilledTriangle lerp int int int int int int
  | GradientV rect color color | GradientH rect color color
  | Glyph int int u8 | Text int int bytes | TextIn rect bytes align
  | SetClip rect | SetColor color | SetBg color bool

fun draw_step :: "draw_op \<Rightarrow> painter \<times> pixels \<Rightarrow> (painter \<times> pixels) option" where
  "draw_step (Pixel x y) (p, m) = Some (p, put_pixel p x y m)"
| "draw_step (Blend x y) (p, m) = Some (p, plot_blend p x y m)"
| "draw_step (HLine x y n) (p, m) = Some (p, draw_hline p x y n m)"
| "draw_step (VLine x y n) (p, m) = Some (p, draw_vline p x y n m)"
| "draw_step (Line a b c d) (p, m) = map_option (Pair p) (draw_line p a b c d m)"
| "draw_step (Frame r) (p, m) = Some (p, draw_rect p r m)"
| "draw_step (Fill r) (p, m) = Some (p, fill_rect p r m)"
| "draw_step (Rounded r k) (p, m) = Some (p, draw_rounded_rect p r k m)"
| "draw_step (FillRounded r k) (p, m) = Some (p, fill_rounded_rect p r k m)"
| "draw_step (Circle x y r) (p, m) = Some (p, draw_circle p x y r m)"
| "draw_step (Disc x y r) (p, m) = Some (p, fill_circle p x y r m)"
| "draw_step (Triangle a b c d e f) (p, m) = map_option (Pair p) (draw_triangle p a b c d e f m)"
| "draw_step (FilledTriangle l a b c d e f) (p, m) = Some (p, fill_triangle l p a b c d e f m)"
| "draw_step (GradientV r c d) (p, m) = Some (p, fill_rect_gradient_v p r c d m)"
| "draw_step (GradientH r c d) (p, m) = Some (p, fill_rect_gradient_h p r c d m)"
| "draw_step (Glyph x y c) (p, m) = Some (p, draw_char p x y c m)"
| "draw_step (Text x y s) (p, m) = Some (p, draw_text p x y s m)"
| "draw_step (TextIn r s al) (p, m) = Some (p, draw_text_aligned p r s al m)"
| "draw_step (SetClip r) (p, m) = Some (set_clip r p, m)"
| "draw_step (SetColor c) (p, m) = Some (p\<lparr>pcolor := c\<rparr>, m)"
| "draw_step (SetBg c b) (p, m) = Some (p\<lparr>pbg := c, transparent_bg := b\<rparr>, m)"

fun draw_run :: "draw_op list \<Rightarrow> painter \<times> pixels \<Rightarrow> (painter \<times> pixels) option" where
  "draw_run [] s = Some s"
| "draw_run (i # is) s = Option.bind (draw_step i s) (draw_run is)"

section \<open>Every operation stays in the clip rectangle\<close>

definition in_clip :: "painter \<Rightarrow> int \<Rightarrow> bool" where
  "in_clip p c \<longleftrightarrow> (\<exists>x y. contains (clip p) x y \<and> c = cell (ptarget p) x y)"

definition stays :: "painter \<Rightarrow> (pixels \<Rightarrow> pixels) \<Rightarrow> bool" where
  "stays p f \<longleftrightarrow> (\<forall>m c. \<not> in_clip p c \<longrightarrow> f m c = m c)"

lemma clip_ok_update [simp]:
  "clip_ok (p\<lparr>pcolor := c\<rparr>) = clip_ok p" "clip_ok (p\<lparr>pbg := c\<rparr>) = clip_ok p" "clip_ok (p\<lparr>transparent_bg := b\<rparr>) = clip_ok p"
  by (simp_all add: clip_ok_def)

lemma in_clip_update [simp]:
  "in_clip (p\<lparr>pcolor := c\<rparr>) = in_clip p" "in_clip (p\<lparr>pbg := c\<rparr>) = in_clip p" "in_clip (p\<lparr>transparent_bg := b\<rparr>) = in_clip p"
  by (simp_all add: in_clip_def fun_eq_iff)

lemma stays_update [simp]:
  "stays (p\<lparr>pcolor := c\<rparr>) = stays p" "stays (p\<lparr>pbg := c\<rparr>) = stays p" "stays (p\<lparr>transparent_bg := b\<rparr>) = stays p"
  by (simp_all add: stays_def fun_eq_iff)

lemma in_clip_set_clip: "in_clip (set_clip r p) c \<Longrightarrow> in_clip p c"
  by (auto simp: in_clip_def set_clip_def intersect_contains)

lemma clip_ok_set_clip: "clip_ok p \<Longrightarrow> clip_ok (set_clip r p)"
  by (simp add: clip_ok_def set_clip_def intersect_contains)

lemma staysD: "stays p f \<Longrightarrow> \<not> in_clip p c \<Longrightarrow> f m c = m c"
  by (simp add: stays_def)

lemma stays_drawn: "(\<And>m. f m = drawn p S m) \<Longrightarrow> stays p f"
  by (auto simp: stays_def drawn_def clip_cell_def in_clip_def)

lemma stays_id: "stays p (\<lambda>m. m)"
  by (simp add: stays_def)

lemma stays_comp: "stays p f \<Longrightarrow> stays p g \<Longrightarrow> stays p (\<lambda>m. f (g m))"
  by (simp add: stays_def)

lemma stays_fold: "(\<And>i. i \<in> set xs \<Longrightarrow> stays p (f i)) \<Longrightarrow> stays p (fold f xs)"
  by (induction xs) (simp_all add: stays_def)

lemma stays_fold2: "(\<And>i. i \<in> set xs \<Longrightarrow> stays p (f i)) \<Longrightarrow> stays p (\<lambda>m. fold f xs m)"
  by (rule stays_fold)

lemma stays_circle_loop:
  assumes "\<And>x y. stays p (f x y)"
  shows "stays p (circle_loop f x y d)"
proof -
  have "\<not> in_clip p c \<Longrightarrow> circle_loop f x y d m c = m c" for c m
    using assms
  proof (induction f x y d m rule: circle_loop.induct)
    case (1 f x y d m)
    have "f x y m c = m c" using 1(3,4) by (intro staysD)
    then show ?case using 1 by (subst circle_loop.simps) simp
  qed
  then show ?thesis by (simp add: stays_def)
qed

lemma stays_set_clip: "stays (set_clip r p) f \<Longrightarrow> stays p f"
  using in_clip_set_clip by (fastforce simp: stays_def)

lemma stays_write: "in_clip p a \<Longrightarrow> stays p (\<lambda>m. m(a := v m))"
  by (auto simp: stays_def)

lemma stays_plot: "clip_ok p \<Longrightarrow> stays p (plot p x y)"
  by (rule stays_drawn) (rule plot_drawn)

lemma stays_put_pixel: "clip_ok p \<Longrightarrow> stays p (put_pixel p x y)"
  by (simp add: put_pixel_def stays_plot)

lemma stays_plot_blend: "clip_ok p \<Longrightarrow> stays p (plot_blend p x y)"
  by (auto simp: stays_def plot_blend_def outside_iff surface_set_def in_clip_def)

lemma stays_hline: "clip_ok p \<Longrightarrow> stays p (draw_hline p x y n)"
  by (rule stays_drawn) (rule hline_drawn)

lemma stays_vline: "clip_ok p \<Longrightarrow> stays p (draw_vline p x y n)"
  by (rule stays_drawn) (rule vline_drawn)

lemma stays_fill: "clip_ok p \<Longrightarrow> stays p (fill_rect p r)"
  by (rule stays_drawn) (rule fill_drawn)

lemmas stay = stays_hline [THEN staysD] stays_vline [THEN staysD] stays_fill [THEN staysD]

lemma stays_draw_rect: "clip_ok p \<Longrightarrow> stays p (draw_rect p r)"
  by (simp add: stays_def draw_rect_def stay)

lemma stays_draw_circle: "clip_ok p \<Longrightarrow> stays p (draw_circle p x y r)"
  unfolding draw_circle_def octants_def by (intro stays_circle_loop stays_fold2) (auto intro: stays_put_pixel)

lemma stays_fill_circle: "clip_ok p \<Longrightarrow> stays p (fill_circle p x y r)"
  unfolding fill_circle_def by (intro stays_circle_loop) (simp add: stays_def stay)

lemma stays_corner: "clip_ok p \<Longrightarrow> stays p (corner p k x y)"
  unfolding corner_def by (intro stays_circle_loop stays_fold2) (auto intro: stays_put_pixel)

lemma stays_fill_corner: "clip_ok p \<Longrightarrow> stays p (fill_corner p k x y a b)"
  unfolding fill_corner_def by (intro stays_circle_loop) (simp add: stays_def stay)

lemma stays_fill_triangle: "clip_ok p \<Longrightarrow> stays p (fill_triangle l p a b c d e f)"
proof -
  assume ok: "clip_ok p"
  have "stays p (triangle_row l p u v w y)" for u v w y
    using stay(1) [OF ok] by (simp add: stays_def triangle_row_def Let_def case_prod_beta)
  then have "stays p (\<lambda>m. fold (triangle_row l p u v w) ys m)" for u v w ys by (rule stays_fold2)
  then show ?thesis by (simp add: stays_def fill_triangle_def case_prod_beta)
qed

lemma stays_rounded: "clip_ok p \<Longrightarrow> stays p (draw_rounded_rect p r k)"
  by (simp add: stays_def draw_rounded_rect_def Let_def stay stays_draw_rect [THEN staysD] stays_corner [THEN staysD])

lemma stays_fill_rounded: "clip_ok p \<Longrightarrow> stays p (fill_rounded_rect p r k)"
  by (simp add: stays_def fill_rounded_rect_def Let_def stay stays_fill_corner [THEN staysD])

lemma stays_gradient_v: "stays p (fill_rect_gradient_v p r c d)"
proof -
  let ?cr = "intersect (clip p) r"
  have w: "stays p (\<lambda>m. m(cell (ptarget p) (rx ?cr) row + 4 * col := k))"
    if "row \<in> set [ry ?cr..bottom ?cr - 1]" "col \<in> set [0..rw ?cr - 1]" for row col k
  proof (rule stays_write)
    have "contains ?cr (rx ?cr + col) row" using that by (auto simp: contains_def bottom_def)
    moreover have "cell (ptarget p) (rx ?cr) row + 4 * col = cell (ptarget p) (rx ?cr + col) row" by (simp add: cell_def)
    ultimately show "in_clip p (cell (ptarget p) (rx ?cr) row + 4 * col)"
      unfolding intersect_contains in_clip_def by metis
  qed
  have "stays p (fold (\<lambda>row. let k = mix_color c d ((row - ry r) * 255 sdiv rh r) in
             fold (\<lambda>col m. m(cell (ptarget p) (rx ?cr) row + 4 * col := k)) [0..rw ?cr - 1])
           [ry ?cr..bottom ?cr - 1])"
    unfolding Let_def by (intro stays_fold w)
  then show ?thesis by (simp add: fill_rect_gradient_v_def stays_def Let_def)
qed

lemma stays_gradient_h: "stays p (fill_rect_gradient_h p r c d)"
proof -
  let ?cr = "intersect (clip p) r"
  have w: "stays p (\<lambda>m. m(cell (ptarget p) col row := k))"
    if "row \<in> set [ry ?cr..bottom ?cr - 1]" "col \<in> set [rx ?cr..right ?cr - 1]" for row col k
  proof (rule stays_write)
    have "contains ?cr col row" using that by (auto simp: contains_def bottom_def right_def)
    then show "in_clip p (cell (ptarget p) col row)" unfolding intersect_contains in_clip_def by blast
  qed
  have "stays p (fold (\<lambda>row. fold (\<lambda>col m. m(cell (ptarget p) col row :=
               mix_color c d ((col - rx r) * 255 sdiv rw r))) [rx ?cr..right ?cr - 1])
           [ry ?cr..bottom ?cr - 1])"
    by (intro stays_fold w)
  then show ?thesis by (simp add: fill_rect_gradient_h_def stays_def Let_def)
qed

lemma stays_draw_char:
  assumes "clip_ok p"
  shows "stays p (draw_char p x y c)"
proof -
  have "stays p (\<lambda>m. if b then plot p i j m else if t then plot (p\<lparr>pcolor := k\<rparr>) i j m else m)" for b t i j k
    using stays_plot [OF assms, of i j] stays_plot [of "p\<lparr>pcolor := k\<rparr>" i j] assms by (simp add: stays_def)
  then show ?thesis unfolding draw_char_def Let_def by (intro stays_fold2 stays_fold)
qed

lemma stays_tab_loop: "clip_ok p \<Longrightarrow> \<not> in_clip p c \<Longrightarrow> fst (tab_loop p tab cx y m) c = m c"
proof (induction p tab cx y m rule: tab_loop.induct)
  case (1 p tab cx y m)
  have "stays p (draw_char (p\<lparr>pcolor := pbg p\<rparr>) cx y 32)"
    using stays_draw_char [of "p\<lparr>pcolor := pbg p\<rparr>" cx y 32] 1(2) by simp
  from staysD [OF this 1(3)] 1 show ?case by (subst tab_loop.simps) simp
qed

lemma stays_draw_text: "clip_ok p \<Longrightarrow> stays p (draw_text p x y s)"
proof -
  assume ok: "clip_ok p"
  have "\<not> in_clip p c \<Longrightarrow> draw_text_loop p x cx y s m c = m c" for c cx m
  proof (induction s arbitrary: cx y m)
    case (Cons a s)
    then show ?case
      using stays_tab_loop [OF ok, of c] staysD [OF stays_draw_char [OF ok], of c]
      by (auto simp: Let_def split: prod.split) (metis fst_conv)
  qed simp
  then show ?thesis by (simp add: stays_def draw_text_def)
qed

lemma stays_text_aligned:
  assumes "clip_ok p"
  shows "stays p (draw_text_aligned p r s al)"
proof (rule stays_set_clip [of r])
  show "stays (set_clip r p) (draw_text_aligned p r s al)"
    unfolding draw_text_aligned_def Let_def
    by (simp add: stays_def stays_draw_text [THEN staysD] clip_ok_set_clip assms)
qed

definition clip_step :: "painter \<times> pixels \<Rightarrow> painter \<times> pixels \<Rightarrow> bool" where
  "clip_step = (\<lambda>(p, m) (q, n). clip_ok q \<and> ptarget q = ptarget p \<and>
     (\<forall>c. in_clip q c \<longrightarrow> in_clip p c) \<and> (\<forall>c. \<not> in_clip p c \<longrightarrow> n c = m c))"

lemma draw_step_clip:
  assumes ok: "clip_ok p"
  shows "\<exists>t. draw_step i (p, m) = Some t \<and> clip_step (p, m) t"
proof -
  have op: "clip_step (p, m) (p, f m)" if "stays p f" for f using that ok by (simp add: clip_step_def stays_def)
  have line: "\<exists>n. draw_line p a b c d m = Some n \<and> clip_step (p, k) (p, n)" if "clip_step (p, k) (p, m)" for a b c d m k
    using that ok by (auto simp: draw_line_drawn clip_step_def drawn_def clip_cell_def in_clip_def)
  have self: "clip_step (p, m) (p, m)" using ok by (simp add: clip_step_def)
  show ?thesis
  proof (cases i)
    case (Line a b c d)
    then show ?thesis using line [OF self, of a b c d] by auto
  next
    case (Triangle a b c d e f)
    obtain m1 where 1: "draw_line p a b c d m = Some m1" "clip_step (p, m) (p, m1)" using line [OF self] by blast
    obtain m2 where 2: "draw_line p c d e f m1 = Some m2" "clip_step (p, m) (p, m2)" using line [OF 1(2)] by blast
    obtain m3 where 3: "draw_line p e f a b m2 = Some m3" "clip_step (p, m) (p, m3)" using line [OF 2(2)] by blast
    show ?thesis using Triangle 1 2 3 by (simp add: draw_triangle_def)
  next
    case (SetClip r)
    then show ?thesis using clip_ok_set_clip [OF ok, of r] in_clip_set_clip by (auto simp: clip_step_def) (simp add: set_clip_def)
  next
    case (SetColor c)
    then show ?thesis using ok by (simp add: clip_step_def)
  next
    case (SetBg c b)
    then show ?thesis using ok by (simp add: clip_step_def)
  qed (use ok in \<open>auto simp: clip_step_def intro!: op stays_put_pixel stays_plot_blend stays_hline stays_vline stays_draw_rect
        stays_fill stays_fill_triangle stays_rounded stays_fill_rounded stays_draw_circle stays_fill_circle stays_gradient_v stays_gradient_h
        stays_draw_char stays_draw_text stays_text_aligned simp del: clip_step_def\<close>)
qed

lemma clip_step_trans: "clip_step s t \<Longrightarrow> clip_step t u \<Longrightarrow> clip_step s u"
  by (cases s; cases t; cases u) (fastforce simp: clip_step_def)

lemma draw_run_clip:
  "clip_ok p \<Longrightarrow> \<exists>t. draw_run is (p, m) = Some t \<and> clip_step (p, m) t"
proof (induction "is" arbitrary: p m)
  case (Cons i "is")
  obtain q n where 1: "draw_step i (p, m) = Some (q, n)" "clip_step (p, m) (q, n)"
    using draw_step_clip [OF Cons.prems, of i m] by auto
  then have "clip_ok q" by (simp add: clip_step_def)
  from Cons.IH [OF this, of n] 1 show ?case using clip_step_trans by auto
qed (simp add: clip_step_def)

section \<open>Properties\<close>

definition demo_surface :: surface where
  "demo_surface = surface_from_ptr 1000 4 3 20"

definition demo_source :: surface where
  "demo_source = surface_from_ptr 5000 2 2 8"

definition demo_painter :: painter where
  "demo_painter = painter_begin demo_surface"

lemma demo_ok: "clip_ok demo_painter" "surface_ok demo_surface" "apart demo_surface demo_source"
  by (auto simp: demo_painter_def demo_surface_def demo_source_def painter_begin_def surface_from_ptr_def clip_ok_def
      contains_def inside_def surface_ok_def apart_def cell_def surface_row_def)

text \<open>C25: Bresenham's loop, which the code writes with no bound, returns on every pair of end points, and paints exactly the
  cells of the clip rectangle that lie within half a pixel of the ideal line along its shorter direction; every
  other cell of memory keeps its value.\<close>

theorem line_is_exact:
  assumes "clip_ok p"
  shows "draw_line p x0 y0 x1 y1 m = Some (drawn p (line_points x0 y0 x1 y1) m)"
  using assms by (rule draw_line_drawn)

theorem line_is_exact_witness:
  "draw_line demo_painter 0 0 3 1 (\<lambda>_. 0) = Some (drawn demo_painter (line_points 0 0 3 1) (\<lambda>_. 0))"
  by (rule line_is_exact [OF demo_ok(1)])

text \<open>C38: The midpoint circle of a positive radius paints, in the clip rectangle, exactly the cells whose offsets from the
  centre satisfy the midpoint inequality, on all eight octants; a filled circle paints exactly the rows between the
  outline's cells. The running decision variable of the code never drifts from the exact distance.\<close>

theorem circle_is_exact:
  assumes "clip_ok p" "1 \<le> r"
  shows "draw_circle p cx cy r m = drawn p (circle_points cx cy r) m \<and>
    fill_circle p cx cy r m = drawn p (disc_points cx cy r) m"
  using assms by (simp add: draw_circle_drawn fill_circle_drawn)

theorem circle_is_exact_witness:
  "draw_circle demo_painter 1 1 2 (\<lambda>_. 0) = drawn demo_painter (circle_points 1 1 2) (\<lambda>_. 0) \<and>
   fill_circle demo_painter 1 1 2 (\<lambda>_. 0) = drawn demo_painter (disc_points 1 1 2) (\<lambda>_. 0)"
  by (rule circle_is_exact [OF demo_ok(1)]) simp



text \<open>C26: Copying a rectangle between surfaces that share no cell, with any offsets and any rectangle, negative ones included:
  each pixel of the target that the unclipped copy would reach from a pixel of the source inside the rectangle gets
  that pixel, every other pixel of the target and every cell outside it is unchanged. The four clipping steps of the
  code lose no pixel and admit none.\<close>

theorem blit_copies_exactly:
  assumes "surface_ok dst" "apart dst src"
  shows "(\<forall>x y. inside dst x y \<longrightarrow> surface_get dst x y (surface_blit_rect dst dx dy src sr m) =
      (let sx = x - dx + rx sr; sy = y - dy + ry sr in
       if contains sr sx sy \<and> inside src sx sy then surface_get src sx sy m else surface_get dst x y m)) \<and>
    (\<forall>c. (\<forall>x y. inside dst x y \<longrightarrow> c \<noteq> cell dst x y) \<longrightarrow> surface_blit_rect dst dx dy src sr m c = m c)"
  using blit_spec [OF assms] by (auto simp: surface_get_def Let_def)

theorem blit_copies_exactly_witness:
  "surface_get demo_surface 0 2 (surface_blit_rect demo_surface (-1) 1 demo_source (Rect 0 (-1) 9 9) (\<lambda>c. word_of_int c)) = 5004"
proof -
  have "surface_get demo_surface 0 2 (surface_blit_rect demo_surface (-1) 1 demo_source (Rect 0 (-1) 9 9) (\<lambda>c. word_of_int c))
      = surface_get demo_source 1 0 (\<lambda>c. word_of_int c)"
    using conjunct1 [OF blit_copies_exactly [OF demo_ok(2,3), of "-1" 1 "Rect 0 (-1) 9 9" "\<lambda>c. word_of_int c"], rule_format, of 0 2]
    by (simp add: demo_surface_def demo_source_def surface_from_ptr_def inside_def contains_def Let_def)
  then show ?thesis by (simp add: demo_source_def surface_from_ptr_def surface_get_def inside_def cell_def surface_row_def)
qed

end
