(* ===== verification/WindowsProps.thy ===== *)
theory WindowsProps
  imports Windows GfxProps
begin

unbundle bit_operations_syntax

text \<open>The cursor puts back what it covered, wherever it has been.\<close>

section \<open>The cursor's loop\<close>

lemma fold_same [simp]: "fold (\<lambda>i m. m) xs m = m"
  by (induction xs) simp_all

lemma fold_cond_write:
  assumes "inj_on g {q \<in> set qs. P q}"
  shows "q \<in> set qs \<Longrightarrow> P q \<Longrightarrow> fold (\<lambda>q m. if P q then m(g q := v q) else m) qs m (g q) = v q"
    and "(\<And>q. q \<in> set qs \<Longrightarrow> P q \<Longrightarrow> a \<noteq> g q) \<Longrightarrow> fold (\<lambda>q m. if P q then m(g q := v q) else m) qs m a = m a"
proof -
  have miss: "fold (\<lambda>q m. if P q then m(g q := v q) else m) qs m a = m a" if "\<And>q. q \<in> set qs \<Longrightarrow> P q \<Longrightarrow> a \<noteq> g q" for qs m a
    using that by (induction qs arbitrary: m) auto
  show "(\<And>q. q \<in> set qs \<Longrightarrow> P q \<Longrightarrow> a \<noteq> g q) \<Longrightarrow> fold (\<lambda>q m. if P q then m(g q := v q) else m) qs m a = m a"
    by (rule miss)
  show "q \<in> set qs \<Longrightarrow> P q \<Longrightarrow> fold (\<lambda>q m. if P q then m(g q := v q) else m) qs m (g q) = v q"
    using assms
  proof (induction qs arbitrary: m)
    case (Cons p qs)
    have inj: "inj_on g {q \<in> set qs. P q}" using Cons.prems(3) by (rule inj_on_subset) auto
    show ?case
    proof (cases "q \<in> set qs")
      case True
      then show ?thesis using Cons.IH [OF _ Cons.prems(2) inj] by simp
    next
      case False
      then have q: "q = p" using Cons.prems(1) by simp
      have "g q \<noteq> g r" if "r \<in> set qs" "P r" for r
        using that False Cons.prems by (auto simp: inj_on_def q)
      then show ?thesis using miss [of qs "g q"] q Cons.prems(2) by simp
    qed
  qed simp
qed

abbreviation cursor_cells :: "(nat \<times> nat) list" where
  "cursor_cells \<equiv> concat (map (\<lambda>r. map (Pair r) [0..<CW]) [0..<CH])"

lemma set_cursor_cells: "(r, c) \<in> set cursor_cells \<longleftrightarrow> r < CH \<and> c < CW"
  by (auto simp: image_iff)

lemma cursor_loop_flat:
  "cursor_loop buf x y f m = fold (\<lambda>(r, c) m. if inside buf (x + int c) (y + int r)
     then f r c (cell buf (x + int c) (y + int r)) m else m) cursor_cells m"
proof -
  have row: "(let sy = y + int row in if sy < 0 \<or> sheight buf \<le> sy then m
         else fold (\<lambda>col m. let sx = x + int col in
             if sx < 0 \<or> swidth buf \<le> sx then m else f row col (cell buf sx sy) m) [0..<CW] m) =
      fold (\<lambda>c m. if inside buf (x + int c) (y + int row) then f row c (cell buf (x + int c) (y + int row)) m else m) [0..<CW] m"
    for row m
  proof (cases "y + int row < 0 \<or> sheight buf \<le> y + int row")
    case True
    then have "\<not> inside buf (x + int c) (y + int row)" for c by (auto simp: inside_def)
    then show ?thesis using True by simp
  next
    case False
    then have "inside buf (x + int c) (y + int row) \<longleftrightarrow> \<not> (x + int c < 0 \<or> swidth buf \<le> x + int c)" for c
      by (auto simp: inside_def)
    moreover have "(\<lambda>col m. let sx = x + int col in if sx < 0 \<or> swidth buf \<le> sx then m else f row col (cell buf sx (y + int row)) m) =
        (\<lambda>c m. if \<not> (x + int c < 0 \<or> swidth buf \<le> x + int c) then f row c (cell buf (x + int c) (y + int row)) m else m)"
      by (auto simp: Let_def fun_eq_iff)
    ultimately show ?thesis using False by (simp add: Let_def)
  qed
  show ?thesis unfolding cursor_loop_def row fold_nested ..
qed

definition covered :: "surface \<Rightarrow> int \<Rightarrow> int \<Rightarrow> int \<Rightarrow> nat \<Rightarrow> nat \<Rightarrow> bool" where
  "covered buf x y a r c \<longleftrightarrow> r < CH \<and> c < CW \<and> inside buf (x + int c) (y + int r) \<and> a = cell buf (x + int c) (y + int r)"

lemma cursor_loop_write:
  fixes x y :: int and v :: "nat \<Rightarrow> nat \<Rightarrow> color"
  assumes "surface_ok buf"
  defines "M \<equiv> cursor_loop buf x y (\<lambda>r c a m. m(a := v r c))"
  shows "covered buf x y a r c \<Longrightarrow> M m a = v r c" and "(\<And>r c. \<not> covered buf x y a r c) \<Longrightarrow> M m a = m a"
proof -
  let ?P = "\<lambda>(r, c). inside buf (x + int c) (y + int r)" and ?g = "\<lambda>(r, c). cell buf (x + int c) (y + int r)"
  have M: "M m = fold (\<lambda>q m. if ?P q then m(?g q := (case q of (r, c) \<Rightarrow> v r c)) else m) cursor_cells m"
    unfolding M_def cursor_loop_flat by (rule fold_cong) (auto simp: fun_eq_iff)
  have inj: "inj_on ?g {q \<in> set cursor_cells. ?P q}"
  proof (rule inj_onI, clarify)
    fix r c r' c'
    assume "inside buf (x + int c) (y + int r)" "inside buf (x + int c') (y + int r')"
      "cell buf (x + int c) (y + int r) = cell buf (x + int c') (y + int r')"
    with cell_eq_iff [OF assms(1)] show "r = r' \<and> c = c'" by simp
  qed
  note W = fold_cond_write [OF inj]
  show "M m a = v r c" if "covered buf x y a r c"
  proof -
    have "(r, c) \<in> set cursor_cells" "?P (r, c)" "a = ?g (r, c)"
      using that by (simp_all add: covered_def set_cursor_cells del: set_concat)
    then show ?thesis unfolding M using W(1) [of "(r, c)" "\<lambda>q. case q of (r, c) \<Rightarrow> v r c"] by (simp del: set_concat)
  qed
  show "M m a = m a" if "\<And>r c. \<not> covered buf x y a r c"
    unfolding M
  proof (rule W(2))
    fix q assume "q \<in> set cursor_cells" "?P q"
    then show "a \<noteq> ?g q" using that [of "fst q" "snd q"] set_cursor_cells [of "fst q" "snd q"]
      by (simp add: covered_def case_prod_unfold del: set_concat)
  qed
qed

lemma cursor_shape_frame:
  assumes "\<And>r c. \<not> covered buf x y a r c"
  shows "cursor_loop buf x y cursor_shape_at m a = m a"
proof -
  have "fold (\<lambda>(r, c) m. if inside buf (x + int c) (y + int r)
     then cursor_shape_at r c (cell buf (x + int c) (y + int r)) m else m) qs m a = m a" if "set qs \<subseteq> set cursor_cells" for qs
    using that
  proof (induction qs arbitrary: m)
    case (Cons q qs)
    obtain r c where q: "q = (r, c)" by fastforce
    then have "r < CH" "c < CW" using Cons.prems set_cursor_cells [of r c] by (simp_all del: set_concat)
    then have "(if inside buf (x + int c) (y + int r) then cursor_shape_at r c (cell buf (x + int c) (y + int r)) m else m) a = m a" for m
      using assms [of r c] by (auto simp: covered_def cursor_shape_at_def Let_def)
    then show ?case using Cons q by simp
  qed simp
  then show ?thesis by (simp add: cursor_loop_flat)
qed

lemma length_blocks: "length (concat (map (\<lambda>r. map (h r) [0..<n]) [0..<k])) = k * n"
  by (induction k) simp_all

lemma nth_blocks:
  "r < k \<Longrightarrow> c < n \<Longrightarrow> concat (map (\<lambda>r. map (h r) [0..<n]) [0..<k]) ! (r * n + c) = h r c"
proof (induction k)
  case (Suc k)
  show ?case
  proof (cases "r = k")
    case True
    then show ?thesis using Suc.prems by (simp add: nth_append length_blocks del: length_concat)
  next
    case False
    then have "r < k" using Suc.prems by simp
    then have "(r + 1) * n \<le> k * n" by (intro mult_le_mono1) simp
    then have "r * n + c < k * n" using Suc.prems by simp
    then show ?thesis using Suc.IH [OF \<open>r < k\<close> Suc.prems(2)] by (simp add: nth_append length_blocks del: length_concat)
  qed
qed simp

lemma cursor_save_covered:
  assumes "covered buf x y a r c"
  shows "cursor_save buf x y m ! (r * CW + c) = m a"
proof -
  have "cursor_save buf x y m ! (r * CW + c) = (let sx = x + int c; sy = y + int r in
      if 0 \<le> sx \<and> sx < swidth buf \<and> 0 \<le> sy \<and> sy < sheight buf then m (cell buf sx sy) else 0)"
    unfolding cursor_save_def by (rule nth_blocks) (use assms in \<open>simp_all add: covered_def\<close>)
  then show ?thesis using assms by (auto simp: covered_def inside_def)
qed

section \<open>Hiding and moving the cursor\<close>

definition desk_ok :: "gfx \<Rightarrow> bool" where
  "desk_ok g \<longleftrightarrow> surface_ok (g_back g) \<and> surface_ok (g_screen g) \<and>
     (spix (g_back g) \<noteq> spix (g_screen g) \<longrightarrow> apart (g_screen g) (g_back g))"

text \<open>The cells of the screen, when it is not the back buffer itself.\<close>

definition shown :: "gfx \<Rightarrow> int \<Rightarrow> bool" where
  "shown g a \<longleftrightarrow> spix (g_back g) \<noteq> spix (g_screen g) \<and>
     (\<exists>x y. inside (g_screen g) x y \<and> a = cell (g_screen g) x y)"

lemma flip_frame:
  assumes "desk_ok g" "\<not> shown g a"
  shows "gfx_flip_rect g r m a = m a"
proof (cases "spix (g_back g) = spix (g_screen g)")
  case False
  then show ?thesis using assms blit_spec(2) [of "g_screen g" "g_back g" a]
    by (auto simp: gfx_flip_rect_def desk_ok_def shown_def)
qed (simp add: gfx_flip_rect_def)

definition under_cursor :: "desktop \<Rightarrow> pixels \<Rightarrow> pixels" where
  "under_cursor s m =
     (if cursor_px s < 0 then m
      else cursor_loop (g_back (screen_of s)) (cursor_px s) (cursor_py s) (\<lambda>row col a m. m(a := cursor_bg s ! (row * CW + col))) m)"

lemma hide_under:
  assumes "desk_ok (screen_of s)"
  shows "\<exists>s1 m1. cursor_hide s m = (s1, m1) \<and> screen_of s1 = screen_of s \<and> cursor_px s1 < 0 \<and>
    (\<forall>a. \<not> shown (screen_of s) a \<longrightarrow> m1 a = under_cursor s m a)"
  using flip_frame [OF assms] by (simp add: cursor_hide_def under_cursor_def Let_def)

lemma draw_under:
  assumes ok: "desk_ok (screen_of s)" and x: "0 \<le> x"
  shows "\<exists>s1 m1. cursor_draw x y s m = (s1, m1) \<and> screen_of s1 = screen_of s \<and>
    (\<forall>a. \<not> shown (screen_of s) a \<longrightarrow> under_cursor s1 m1 a = under_cursor s m a)"
proof -
  obtain s0 m0 where h: "cursor_hide s m = (s0, m0)" "screen_of s0 = screen_of s"
    "\<And>a. \<not> shown (screen_of s) a \<Longrightarrow> m0 a = under_cursor s m a"
    using hide_under [OF ok, of m] by blast
  let ?g = "screen_of s" and ?b = "g_back (screen_of s)"
  let ?m1 = "gfx_flip_rect ?g (Rect x y (int CW) (int CH)) (cursor_loop ?b x y cursor_shape_at m0)"
  let ?s1 = "s0\<lparr>cursor_bg := cursor_save ?b x y m0, cursor_px := x, cursor_py := y\<rparr>"
  have run: "cursor_draw x y s m = (?s1, ?m1)" using h by (simp add: cursor_draw_def Let_def)
  have sb: "surface_ok ?b" using ok by (simp add: desk_ok_def)
  have "under_cursor ?s1 ?m1 a = m0 a" if a: "\<not> shown ?g a" for a
  proof -
    have u: "under_cursor ?s1 ?m1 = cursor_loop ?b x y (\<lambda>r c a m. m(a := cursor_save ?b x y m0 ! (r * CW + c))) ?m1"
      using x h(2) by (simp add: under_cursor_def)
    show ?thesis
    proof (cases "\<exists>r c. covered ?b x y a r c")
      case True
      then obtain r c where rc: "covered ?b x y a r c" by blast
      show ?thesis unfolding u cursor_loop_write(1) [OF sb rc] by (rule cursor_save_covered [OF rc])
    next
      case False
      then have n: "\<And>r c. \<not> covered ?b x y a r c" by blast
      show ?thesis unfolding u cursor_loop_write(2) [OF sb n]
        using flip_frame [OF ok a] cursor_shape_frame [OF n] by simp
    qed
  qed
  then show ?thesis using run h by auto
qed

fun cursor_moves :: "(int \<times> int) list \<Rightarrow> desktop \<times> pixels \<Rightarrow> desktop \<times> pixels" where
  "cursor_moves [] t = t"
| "cursor_moves ((x, y) # ps) (s, m) = cursor_moves ps (cursor_draw x y s m)"

lemma moves_under:
  assumes "desk_ok (screen_of s)" "\<forall>(x, y) \<in> set ps. 0 \<le> x"
  shows "\<exists>s1 m1. cursor_moves ps (s, m) = (s1, m1) \<and> screen_of s1 = screen_of s \<and>
    (\<forall>a. \<not> shown (screen_of s) a \<longrightarrow> under_cursor s1 m1 a = under_cursor s m a)"
  using assms
proof (induction ps arbitrary: s m)
  case (Cons p ps)
  obtain x y where p: "p = (x, y)" by fastforce
  obtain s1 m1 where 1: "cursor_draw x y s m = (s1, m1)" "screen_of s1 = screen_of s"
    "\<forall>a. \<not> shown (screen_of s) a \<longrightarrow> under_cursor s1 m1 a = under_cursor s m a"
    using draw_under [of s x y m] Cons.prems p by auto
  then show ?case using Cons.IH [of s1 m1] Cons.prems p by auto
qed simp

section \<open>Properties\<close>

text \<open>However the cursor is moved over non-negative columns, partly or wholly outside the back buffer included, hiding it
  leaves every cell of memory outside the screen as it was before it first appeared: windows under the cursor
  are never damaged. (When the back buffer is the screen itself this includes the screen.)\<close>

theorem cursor_restores:
  assumes "desk_ok (screen_of s)" "cursor_px s < 0" "\<forall>(x, y) \<in> set ps. 0 \<le> x"
    and "cursor_moves ps (s, m) = (s1, m1)" "cursor_hide s1 m1 = (s2, m2)"
  shows "cursor_px s2 < 0 \<and> screen_of s2 = screen_of s \<and> (\<forall>a. \<not> shown (screen_of s) a \<longrightarrow> m2 a = m a)"
proof -
  have 1: "screen_of s1 = screen_of s" "\<forall>a. \<not> shown (screen_of s) a \<longrightarrow> under_cursor s1 m1 a = m a"
    using moves_under [OF assms(1,3), of m] assms(2,4) by (auto simp: under_cursor_def)
  then show ?thesis using hide_under [of s1 m1] assms(1,5) by auto
qed

definition demo_desk :: desktop where
  "demo_desk = \<lparr>windows = [], win_count = 0, desk_ready = True,
     screen_of = \<lparr>g_screen = surface_from_ptr 90000 20 9 80, g_back = surface_from_ptr 1000 20 9 80,
       g_painter = painter_begin (surface_from_ptr 1000 20 9 80), g_ready = True\<rparr>,
     cursor_bg = replicate 198 0, cursor_px = -1, cursor_py = -1\<rparr>"

lemma demo_desk_ok: "desk_ok (screen_of demo_desk)"
  by (auto simp: demo_desk_def desk_ok_def surface_ok_def surface_from_ptr_def apart_def inside_def cell_def surface_row_def)

theorem cursor_restores_witness:
  "case cursor_moves [(3, -2), (15, 4)] (demo_desk, \<lambda>c. word_of_int c) of
     (s1, m1) \<Rightarrow> snd (cursor_hide s1 m1) 1044 = 1044"
proof -
  obtain s1 m1 where 1: "cursor_moves [(3, -2), (15, 4)] (demo_desk, \<lambda>c. word_of_int c) = (s1, m1)" by fastforce
  obtain s2 m2 where 2: "cursor_hide s1 m1 = (s2, m2)" by fastforce
  have "cursor_px demo_desk < 0" "\<forall>(x, y) \<in> set [(3, -2), (15, 4)]. 0 \<le> (x :: int)" by (simp_all add: demo_desk_def)
  from cursor_restores [OF demo_desk_ok this 1 2]
  have "\<forall>a. \<not> shown (screen_of demo_desk) a \<longrightarrow> m2 a = word_of_int a" by simp
  moreover have "\<not> shown (screen_of demo_desk) 1044"
    by (auto simp: shown_def demo_desk_def surface_from_ptr_def cell_def surface_row_def inside_def)
  ultimately show ?thesis using 1 2 by simp
qed

end
