(* ===== verification/Ports.thy ===== *)
theory Ports
  imports Prelude "HOL-Library.State_Monad"
begin

text \<open>
  Port input and output (the inline assembly \<^verbatim>\<open>outb\<close>, \<^verbatim>\<open>inb\<close>, \<^verbatim>\<open>outw\<close>, \<^verbatim>\<open>inw\<close>,
  \<^verbatim>\<open>outl\<close>, \<^verbatim>\<open>inl\<close> of the drivers). The devices behind the ports are a state \<open>'d\<close> and a record of
  what an access does to it; a driver's routine is a program of the state monad over \<open>'d\<close>.
\<close>

record 'd io =
  outb :: "u16 \<Rightarrow> u8 \<Rightarrow> ('d, unit) state"
  inb :: "u16 \<Rightarrow> ('d, u8) state"
  outw :: "u16 \<Rightarrow> u16 \<Rightarrow> ('d, unit) state"
  inw :: "u16 \<Rightarrow> ('d, u16) state"
  outl :: "u16 \<Rightarrow> u32 \<Rightarrow> ('d, unit) state"
  inl :: "u16 \<Rightarrow> ('d, u32) state"

abbreviation (input) done_with :: "'a \<Rightarrow> ('d, 'a) state" where
  "done_with \<equiv> State_Monad.return"

definition when_io :: "bool \<Rightarrow> ('d, unit) state \<Rightarrow> ('d, unit) state" where
  "when_io b p = (if b then p else State_Monad.return ())"

fun each_io :: "('x \<Rightarrow> ('d, unit) state) \<Rightarrow> 'x list \<Rightarrow> ('d, unit) state" where
  "each_io f [] = State_Monad.return ()"
| "each_io f (x # xs) = do { f x; each_io f xs }"

fun collect_io :: "('x \<Rightarrow> ('d, 'y) state) \<Rightarrow> 'x list \<Rightarrow> ('d, 'y list) state" where
  "collect_io f [] = State_Monad.return []"
| "collect_io f (x # xs) = do { y \<leftarrow> f x; ys \<leftarrow> collect_io f xs; State_Monad.return (y # ys) }"

text \<open>The first element whose probe gives an answer, as in a loop with an early return.\<close>

fun first_io :: "('x \<Rightarrow> ('d, 'y option) state) \<Rightarrow> 'x list \<Rightarrow> ('d, 'y option) state" where
  "first_io f [] = State_Monad.return None"
| "first_io f (x # xs) = do {
     r \<leftarrow> f x;
     (case r of None \<Rightarrow> first_io f xs | Some y \<Rightarrow> State_Monad.return (Some y)) }"

text \<open>A bounded polling loop: the answer of the first probe that decides, \<open>d\<close> when none does.\<close>

fun poll_io :: "nat \<Rightarrow> ('d, 'y option) state \<Rightarrow> 'y \<Rightarrow> ('d, 'y) state" where
  "poll_io 0 probe d = State_Monad.return d"
| "poll_io (Suc n) probe d = do {
     r \<leftarrow> probe;
     (case r of None \<Rightarrow> poll_io n probe d | Some y \<Rightarrow> State_Monad.return y) }"

lemma run_each_append: "run_state (each_io f (xs @ ys)) s = run_state (each_io f ys) (snd (run_state (each_io f xs) s))"
  by (induction xs arbitrary: s) (simp_all split: prod.split)

end
