(* ===== verification/Fb.thy ===== *)
theory Fb
  imports Ports Painter
begin

unbundle bit_operations_syntax

text \<open>
  The frame buffer (\<^verbatim>\<open>kernel/fb.cpp\<close>, \<^verbatim>\<open>kernel/fb.h\<close>): finding it through the Bochs adapter's
  ports or the boot loader's record, and drawing at 16, 24 and 32 bits per pixel in byte
  memory. Coordinates are the \<^verbatim>\<open>int\<close>s of the source; where the source casts them to
  \<^verbatim>\<open>uint32_t\<close> the definitions convert them to words, and addresses wrap.
\<close>

type_synonym vram = "u32 \<Rightarrow> u8"

record framebuffer =
  s_fb :: u32
  s_pitch :: u32
  s_width :: u32
  s_height :: u32
  s_bpp :: u8
  s_ready :: bool

text \<open>The fields of the boot loader's record that the kernel reads.\<close>

record multiboot =
  mb_flags :: u32
  framebuffer_addr :: "64 word"
  framebuffer_pitch :: u32
  framebuffer_width :: u32
  framebuffer_height :: u32
  framebuffer_bpp :: u8
  framebuffer_type :: u8

section \<open>Finding the frame buffer\<close>

definition bga_write :: "'d io \<Rightarrow> u16 \<Rightarrow> u16 \<Rightarrow> ('d, unit) state" where
  "bga_write d index v = do { outw d 0x01CE index; outw d 0x01CF v }"

definition bga_read :: "'d io \<Rightarrow> u16 \<Rightarrow> ('d, u16) state" where
  "bga_read d index = do { outw d 0x01CE index; inw d 0x01CF }"

definition bga_detect :: "'d io \<Rightarrow> ('d, bool) state" where
  "bga_detect d = do { i \<leftarrow> bga_read d 0; done_with (0xB0C0 \<le> i \<and> i \<le> 0xB0CF) }"

definition bga_set_mode :: "'d io \<Rightarrow> u16 \<Rightarrow> u16 \<Rightarrow> u16 \<Rightarrow> ('d, bool) state" where
  "bga_set_mode d w h bpp = do {
     bga_write d 4 0;
     bga_write d 1 w;
     bga_write d 2 h;
     bga_write d 3 bpp;
     bga_write d 6 w;
     bga_write d 7 h;
     bga_write d 8 0;
     bga_write d 9 0;
     bga_write d 4 (0x01 OR 0x40);
     w' \<leftarrow> bga_read d 1;
     if w' = w then do { h' \<leftarrow> bga_read d 2; done_with (h' = h) } else done_with False
   }"

definition lfb_probe :: "'d io \<Rightarrow> nat \<times> nat \<Rightarrow> ('d, u32 option) state" where
  "lfb_probe d = (\<lambda>(bus, dev). do {
     let addr = 0x80000000 OR push_bit 16 (of_nat bus) OR push_bit 11 (of_nat dev);
     outl d 0xCF8 addr;
     vd \<leftarrow> inl d 0xCFC;
     if vd = 0x11111234 then do {
       outl d 0xCF8 (addr OR 0x10);
       bar0 \<leftarrow> inl d 0xCFC;
       done_with (Some (bar0 AND 0xFFFFFFF0))
     } else done_with None
   })"

definition pci_find_bga_lfb :: "'d io \<Rightarrow> ('d, u32) state" where
  "pci_find_bga_lfb d = do {
     r \<leftarrow> first_io (lfb_probe d) (List.product [0..<8] [0..<32]);
     done_with (case r of None \<Rightarrow> 0 | Some lfb \<Rightarrow> lfb)
   }"

definition fb_from_multiboot :: "multiboot option \<Rightarrow> framebuffer \<Rightarrow> bool \<times> framebuffer" where
  "fb_from_multiboot mbi f =
     (case mbi of
        None \<Rightarrow> (False, f)
      | Some b \<Rightarrow>
          if mb_flags b AND push_bit 12 1 = 0 then (False, f)
          else if framebuffer_type b = 0 then (False, f)
          else if framebuffer_bpp b \<noteq> 32 \<and> framebuffer_bpp b \<noteq> 24 \<and> framebuffer_bpp b \<noteq> 16 then (False, f)
          else if framebuffer_width b < 320 \<or> framebuffer_height b < 200 then (False, f)
          else (True, \<lparr>s_fb = ucast (framebuffer_addr b), s_pitch = framebuffer_pitch b, s_width = framebuffer_width b,
                  s_height = framebuffer_height b, s_bpp = framebuffer_bpp b, s_ready = True\<rparr>))"

definition fb_init :: "'d io \<Rightarrow> multiboot option \<Rightarrow> framebuffer \<Rightarrow> ('d, bool \<times> framebuffer) state" where
  "fb_init d mbi f = do {
     found \<leftarrow> bga_detect d;
     ok \<leftarrow> (if found then bga_set_mode d 1024 768 32 else done_with False);
     if ok then do {
       lfb \<leftarrow> pci_find_bga_lfb d;
       done_with (True, \<lparr>s_fb = (if lfb = 0 then 0xE0000000 else lfb), s_pitch = 1024 * 4, s_width = 1024, s_height = 768,
         s_bpp = 32, s_ready = True\<rparr>)
     } else done_with (fb_from_multiboot mbi f)
   }"

definition fb_size_bytes :: "framebuffer \<Rightarrow> u32" where
  "fb_size_bytes f = s_pitch f * s_height f"

section \<open>Pixels\<close>

definition rgb :: "u8 \<Rightarrow> u8 \<Rightarrow> u8 \<Rightarrow> u32" where
  "rgb r g b = push_bit 16 (ucast r) OR push_bit 8 (ucast g) OR ucast b"

definition pixel_addr :: "framebuffer \<Rightarrow> int \<Rightarrow> int \<Rightarrow> u32" where
  "pixel_addr f x y = s_fb f + word_of_int y * s_pitch f + word_of_int x * ucast (s_bpp f div 8)"

text \<open>The bytes of a pixel, in the order of their addresses.\<close>

definition pixel_bytes :: "framebuffer \<Rightarrow> u32 \<Rightarrow> bytes" where
  "pixel_bytes f c =
     (let r = ucast (drop_bit 16 c) :: u8; g = ucast (drop_bit 8 c) :: u8; b = ucast c :: u8 in
      if s_bpp f = 32 then [b, g, r, 0]
      else if s_bpp f = 24 then [b, g, r]
      else if s_bpp f = 16 then
        let px = push_bit 11 (ucast (drop_bit 3 r)) OR push_bit 5 (ucast (drop_bit 2 g)) OR ucast (drop_bit 3 b) :: u16
        in [ucast (px AND 0xFF), ucast (drop_bit 8 px)]
      else [])"

definition put_bytes :: "u32 \<Rightarrow> bytes \<Rightarrow> vram \<Rightarrow> vram" where
  "put_bytes p bs m = (\<lambda>a. if unat (a - p) < length bs then bs ! unat (a - p) else m a)"

definition put :: "framebuffer \<Rightarrow> int \<Rightarrow> int \<Rightarrow> u32 \<Rightarrow> vram \<Rightarrow> vram" where
  "put f x y c = put_bytes (pixel_addr f x y) (pixel_bytes f c)"

definition fb_put_pixel :: "framebuffer \<Rightarrow> int \<Rightarrow> int \<Rightarrow> u32 \<Rightarrow> vram \<Rightarrow> vram" where
  "fb_put_pixel f x y c m =
     (if \<not> s_ready f then m
      else if s_width f \<le> word_of_int x \<or> s_height f \<le> word_of_int y then m
      else put f x y c m)"

text \<open>The ends \<open>x + w\<close> and \<open>y + h\<close> are compared with the size as unsigned words.\<close>

definition fb_fill_rect :: "framebuffer \<Rightarrow> int \<Rightarrow> int \<Rightarrow> int \<Rightarrow> int \<Rightarrow> u32 \<Rightarrow> vram \<Rightarrow> vram" where
  "fb_fill_rect f x y w h c m =
     (if \<not> s_ready f then m
      else
        let x1 = (if x < 0 then 0 else x);
            y1 = (if y < 0 then 0 else y);
            x2 = (if s_width f < word_of_int (x + w) then sint (s_width f) else x + w);
            y2 = (if s_height f < word_of_int (y + h) then sint (s_height f) else y + h)
        in fold (\<lambda>row. fold (\<lambda>col. put f col row c) [x1..x2 - 1]) [y1..y2 - 1] m)"

definition fb_draw_hline :: "framebuffer \<Rightarrow> int \<Rightarrow> int \<Rightarrow> int \<Rightarrow> u32 \<Rightarrow> vram \<Rightarrow> vram" where
  "fb_draw_hline f x y len c = fb_fill_rect f x y len 1 c"

definition fb_draw_vline :: "framebuffer \<Rightarrow> int \<Rightarrow> int \<Rightarrow> int \<Rightarrow> u32 \<Rightarrow> vram \<Rightarrow> vram" where
  "fb_draw_vline f x y len c = fb_fill_rect f x y 1 len c"

definition fb_draw_rect :: "framebuffer \<Rightarrow> int \<Rightarrow> int \<Rightarrow> int \<Rightarrow> int \<Rightarrow> u32 \<Rightarrow> vram \<Rightarrow> vram" where
  "fb_draw_rect f x y w h c m =
     fb_draw_vline f (x + w - 1) y h c (fb_draw_vline f x y h c
       (fb_draw_hline f x (y + h - 1) w c (fb_draw_hline f x y w c m)))"

section \<open>Text\<close>

definition FB_FONT_W :: int where "FB_FONT_W = 8"
definition FB_FONT_H :: int where "FB_FONT_H = 16"

text \<open>The table is the painter's, number for number.\<close>

definition FONT :: "u8 list list" where "FONT = FONT_DATA"

definition fb_glyph :: "u8 \<Rightarrow> u8 list" where
  "fb_glyph c = (let idx = uint c - 0x20; idx = (if idx < 0 \<or> 95 \<le> idx then 0 else idx) in FONT ! nat idx)"

definition glyph_bit :: "u8 \<Rightarrow> int \<Rightarrow> bool" where
  "glyph_bit bits col \<longleftrightarrow> ucast bits AND drop_bit (nat col) (0x80 :: u32) \<noteq> 0"

definition fb_draw_char :: "framebuffer \<Rightarrow> int \<Rightarrow> int \<Rightarrow> u8 \<Rightarrow> u32 \<Rightarrow> u32 \<Rightarrow> vram \<Rightarrow> vram" where
  "fb_draw_char f x y c fg bg m =
     (if \<not> s_ready f then m
      else fold (\<lambda>row. let bits = fb_glyph c ! nat row in
             fold (\<lambda>col m.
                 let color = (if glyph_bit bits col then fg else bg); px = x + col; py = y + row in
                 if word_of_int px < s_width f \<and> word_of_int py < s_height f then put f px py color m else m)
               [0..FB_FONT_W - 1])
             [0..FB_FONT_H - 1] m)"

fun draw_str_loop :: "framebuffer \<Rightarrow> int \<Rightarrow> int \<Rightarrow> bytes \<Rightarrow> u32 \<Rightarrow> u32 \<Rightarrow> vram \<Rightarrow> vram" where
  "draw_str_loop f cx y [] fg bg m = m"
| "draw_str_loop f cx y (c # s) fg bg m = draw_str_loop f (cx + FB_FONT_W) y s fg bg (fb_draw_char f cx y c fg bg m)"

definition fb_draw_str :: "framebuffer \<Rightarrow> int \<Rightarrow> int \<Rightarrow> bytes \<Rightarrow> u32 \<Rightarrow> u32 \<Rightarrow> vram \<Rightarrow> vram" where
  "fb_draw_str f x y s fg bg m = (if \<not> s_ready f then m else draw_str_loop f x y s fg bg m)"

definition draw_glyph_on :: "framebuffer \<Rightarrow> int \<Rightarrow> int \<Rightarrow> u8 \<Rightarrow> u32 \<Rightarrow> vram \<Rightarrow> vram" where
  "draw_glyph_on f x y c fg m =
     fold (\<lambda>row. let bits = fb_glyph c ! nat row in
         fold (\<lambda>col m.
             if glyph_bit bits col then
               let px = x + col; py = y + row in
               if word_of_int px < s_width f \<and> word_of_int py < s_height f then put f px py fg m else m
             else m) [0..FB_FONT_W - 1])
       [0..FB_FONT_H - 1] m"

fun transparent_loop :: "framebuffer \<Rightarrow> int \<Rightarrow> int \<Rightarrow> bytes \<Rightarrow> u32 \<Rightarrow> vram \<Rightarrow> vram" where
  "transparent_loop f cx y [] fg m = m"
| "transparent_loop f cx y (c # s) fg m = transparent_loop f (cx + FB_FONT_W) y s fg (draw_glyph_on f cx y c fg m)"

definition fb_draw_str_transparent :: "framebuffer \<Rightarrow> int \<Rightarrow> int \<Rightarrow> bytes \<Rightarrow> u32 \<Rightarrow> vram \<Rightarrow> vram" where
  "fb_draw_str_transparent f x y s fg m = (if \<not> s_ready f then m else transparent_loop f x y s fg m)"

section \<open>Scrolling\<close>

definition copy_bytes :: "u32 \<Rightarrow> u32 \<Rightarrow> nat \<Rightarrow> vram \<Rightarrow> vram" where
  "copy_bytes dst src n m = fold (\<lambda>i m. m(dst + of_nat i := m (src + of_nat i))) [0..<n] m"

definition fb_scroll_region :: "framebuffer \<Rightarrow> int \<Rightarrow> int \<Rightarrow> int \<Rightarrow> int \<Rightarrow> int \<Rightarrow> u32 \<Rightarrow> vram \<Rightarrow> vram" where
  "fb_scroll_region f x y w h lines c m =
     (if \<not> s_ready f \<or> lines \<le> 0 then m
      else
        let px_lines = lines * FB_FONT_H in
        if h \<le> px_lines then fb_fill_rect f x y w h c m
        else
          let bpb = s_bpp f div 8;
              src_y = y + px_lines;
              dst_y = y;
              copy_rows = h - px_lines;
              m1 = fold (\<lambda>row.
                  let src = s_fb f + word_of_int (src_y + row) * s_pitch f + word_of_int x * ucast bpb;
                      dst = s_fb f + word_of_int (dst_y + row) * s_pitch f + word_of_int x * ucast bpb
                  in copy_bytes dst src (unat (word_of_int w * ucast bpb :: u32)))
                [0..copy_rows - 1] m
          in fb_fill_rect f x (y + copy_rows) w px_lines c m1)"

end
