(* ===== verification/Terminal.thy ===== *)
theory Terminal
  imports Fb KString
begin

unbundle bit_operations_syntax

text \<open>
  The terminal (\<^verbatim>\<open>kernel/terminal.cpp\<close>, \<^verbatim>\<open>kernel/terminal.h\<close>): output to the text screen or to
  the frame buffer, and the line editor with its history. The text screen is indexed by cell,
  80 to a row; writes outside the 25 rows are kept. The command callback is a parameter that may do anything to
  the terminal. A string in a buffer ends at its first zero byte.
\<close>

definition VGA_COLS :: int where "VGA_COLS = 80"
definition VGA_TERM_START :: int where "VGA_TERM_START = 3"
definition VGA_TERM_END :: int where "VGA_TERM_END = 24"
definition INPUT_MAX :: nat where "INPUT_MAX = 256"
definition HIST_MAX :: nat where "HIST_MAX = 16"

definition Color_Black :: u32 where "Color_Black = 0x0D0D0D"
definition Color_White :: u32 where "Color_White = 0xF2F2F2"
definition Color_Red :: u32 where "Color_Red = 0xFF5555"
definition Color_Green :: u32 where "Color_Green = 0x50FA7B"
definition Color_Yellow :: u32 where "Color_Yellow = 0xF1FA8C"
definition Color_Blue :: u32 where "Color_Blue = 0xBD93F9"
definition Color_Cyan :: u32 where "Color_Cyan = 0x8BE9FD"
definition Color_Magenta :: u32 where "Color_Magenta = 0xFF79C6"
definition Color_Orange :: u32 where "Color_Orange = 0xFFB86C"
definition Color_Prompt :: u32 where "Color_Prompt = 0x8BE9FD"
definition Color_PromptAt :: u32 where "Color_PromptAt = 0xF2F2F2"
definition Color_PromptHost :: u32 where "Color_PromptHost = 0x50FA7B"
definition Color_PromptPath :: u32 where "Color_PromptPath = 0x8BE9FD"
definition Color_PromptArrow :: u32 where "Color_PromptArrow = 0xBD93F9"
definition Color_Input :: u32 where "Color_Input = 0xF2F2F2"
definition Color_Cursor :: u32 where "Color_Cursor = 0xF1FA8C"

record terminal =
  tdev :: framebuffer
  tvram :: vram
  tvga :: "int \<Rightarrow> u16"
  cur_fg :: u32
  cur_bg :: u32
  vga_row :: int
  vga_col :: int
  fb_term_x :: int
  fb_term_y :: int
  fb_term_w :: int
  fb_term_h :: int
  fb_cx :: int
  fb_cy :: int
  input_buf :: bytes
  input_len :: nat
  input_pos :: nat
  history :: "bytes list"
  hist_count :: nat
  hist_idx :: int
  vga_prompt_row :: int
  vga_prompt_col :: int
  fb_prompt_cx :: int
  fb_prompt_cy :: int
  prompt_path :: bytes

abbreviation fb_available :: "terminal \<Rightarrow> bool" where
  "fb_available t \<equiv> s_ready (tdev t)"

definition on_vram :: "(framebuffer \<Rightarrow> vram \<Rightarrow> vram) \<Rightarrow> terminal \<Rightarrow> terminal" where
  "on_vram f t = t\<lparr>tvram := f (tdev t) (tvram t)\<rparr>"

section \<open>Text mode\<close>

text \<open>The character is signed: one above 127 fills the attribute with ones.\<close>

definition vga_entry :: "u8 \<Rightarrow> u8 \<Rightarrow> u8 \<Rightarrow> u16" where
  "vga_entry c fg bg = scast c OR push_bit 8 (push_bit 4 (ucast bg) OR ucast fg)"

definition rgb_to_vga :: "u32 \<Rightarrow> u8" where
  "rgb_to_vga c =
     (if c = Color_White then 15
      else if c = Color_Green then 10
      else if c = Color_Yellow then 14
      else if c = Color_Cyan then 11
      else if c = Color_Red then 12
      else if c = Color_Magenta then 13
      else if c = Color_Blue then 9
      else if c = Color_Orange then 14
      else 7)"

definition set_vga :: "int \<Rightarrow> int \<Rightarrow> u16 \<Rightarrow> (int \<Rightarrow> u16) \<Rightarrow> (int \<Rightarrow> u16)" where
  "set_vga r c v m = m(r * VGA_COLS + c := v)"

definition vga_scroll :: "(int \<Rightarrow> u16) \<Rightarrow> (int \<Rightarrow> u16)" where
  "vga_scroll m =
     fold (\<lambda>c. set_vga (VGA_TERM_END - 1) c (vga_entry 32 15 0)) [0..VGA_COLS - 1]
       (fold (\<lambda>r. fold (\<lambda>c m. set_vga r c (m ((r + 1) * VGA_COLS + c)) m) [0..VGA_COLS - 1])
          [VGA_TERM_START..VGA_TERM_END - 1 - 1] m)"

definition vga_show_cursor :: "bool \<Rightarrow> terminal \<Rightarrow> terminal" where
  "vga_show_cursor on t =
     (if vga_row t < VGA_TERM_END then
        t\<lparr>tvga := set_vga (vga_row t) (vga_col t) (vga_entry (if on then 95 else 32) 14 0) (tvga t)\<rparr>
      else t)"

definition vga_newline :: "terminal \<Rightarrow> terminal" where
  "vga_newline t =
     (let t1 = t\<lparr>vga_col := 0, vga_row := vga_row t + 1\<rparr> in
      if VGA_TERM_END \<le> vga_row t1 then t1\<lparr>tvga := vga_scroll (tvga t1), vga_row := VGA_TERM_END - 1\<rparr> else t1)"

function vga_tab :: "int \<Rightarrow> u8 \<Rightarrow> terminal \<Rightarrow> terminal" where
  "vga_tab tab fg t =
     (if vga_col t < tab \<and> vga_col t < VGA_COLS - 1 then
        vga_tab tab fg (t\<lparr>tvga := set_vga (vga_row t) (vga_col t) (vga_entry 32 fg 0) (tvga t), vga_col := vga_col t + 1\<rparr>)
      else t)"
  by pat_completeness auto
termination
  by (relation "measure (\<lambda>(tab, fg, t). nat (tab - vga_col t))") auto

declare vga_tab.simps [simp del]

section \<open>Frame buffer mode\<close>

definition fb_show_cursor :: "bool \<Rightarrow> terminal \<Rightarrow> terminal" where
  "fb_show_cursor on t =
     on_vram (\<lambda>f. fb_fill_rect f (fb_term_x t + fb_cx t) (fb_term_y t + fb_cy t + FB_FONT_H - 3) FB_FONT_W 3
       (if on then Color_Cursor else Color_Black)) t"

definition fb_newline :: "terminal \<Rightarrow> terminal" where
  "fb_newline t =
     (let t1 = t\<lparr>fb_cx := 0, fb_cy := fb_cy t + FB_FONT_H\<rparr> in
      if fb_term_h t1 < fb_cy t1 + FB_FONT_H then
        (on_vram (\<lambda>f. fb_scroll_region f (fb_term_x t1) (fb_term_y t1) (fb_term_w t1) (fb_term_h t1) 1 Color_Black) t1)
          \<lparr>fb_cy := fb_term_h t1 - FB_FONT_H\<rparr>
      else t1)"

definition draw_at_cursor :: "u8 \<Rightarrow> terminal \<Rightarrow> terminal" where
  "draw_at_cursor c t =
     (on_vram (\<lambda>f. fb_draw_char f (fb_term_x t + fb_cx t) (fb_term_y t + fb_cy t) c (cur_fg t) (cur_bg t)) t)
       \<lparr>fb_cx := fb_cx t + FB_FONT_W\<rparr>"

function fb_tab :: "int \<Rightarrow> terminal \<Rightarrow> terminal" where
  "fb_tab tab t =
     (if fb_cx t < tab \<and> fb_cx t + FB_FONT_W \<le> fb_term_w t then fb_tab tab (draw_at_cursor 32 t) else t)"
  by pat_completeness auto
termination
  by (relation "measure (\<lambda>(tab, t). nat (tab - fb_cx t))") (auto simp: draw_at_cursor_def FB_FONT_W_def)

declare fb_tab.simps [simp del]

definition terminal_putchar :: "u8 \<Rightarrow> terminal \<Rightarrow> terminal" where
  "terminal_putchar c t =
     (if fb_available t then
        if fb_term_w t = 0 then t
        else
          let t1 = fb_show_cursor False t;
              t2 = (if c = 10 then fb_newline t1
                    else if c = 9 then fb_tab ((fb_cx t1 sdiv FB_FONT_W sdiv 4 + 1) * 4 * FB_FONT_W) t1
                    else
                      let t' = draw_at_cursor c t1 in
                      if fb_term_w t' < fb_cx t' + FB_FONT_W then fb_newline t' else t')
          in fb_show_cursor True t2
      else
        let t1 = vga_show_cursor False t;
            fg = rgb_to_vga (cur_fg t1);
            t2 = (if c = 10 then vga_newline t1
                  else if c = 9 then vga_tab ((vga_col t1 sdiv 4 + 1) * 4) fg t1
                  else
                    let t' = t1\<lparr>tvga := set_vga (vga_row t1) (vga_col t1) (vga_entry c fg 0) (tvga t1), vga_col := vga_col t1 + 1\<rparr> in
                    if VGA_COLS \<le> vga_col t' then vga_newline t' else t')
        in vga_show_cursor True t2)"

definition terminal_puts :: "bytes \<Rightarrow> terminal \<Rightarrow> terminal" where
  "terminal_puts = fold terminal_putchar"

definition terminal_newline :: "terminal \<Rightarrow> terminal" where
  "terminal_newline = terminal_putchar 10"

text \<open>The text that \<^verbatim>\<open>kuitoa\<close> and \<^verbatim>\<open>kitoa\<close> leave in the buffer.\<close>

definition uint_text :: "u32 \<Rightarrow> int \<Rightarrow> bytes" where
  "uint_text n base =
     (if base < 2 \<or> 16 < base then [63] else if n = 0 then [48] else rev (uitoa_tmp n (word_of_int base)))"

definition terminal_put_uint :: "u32 \<Rightarrow> int \<Rightarrow> terminal \<Rightarrow> terminal" where
  "terminal_put_uint n b = terminal_puts (uint_text n b)"

definition terminal_put_int :: "u32 \<Rightarrow> terminal \<Rightarrow> terminal" where
  "terminal_put_int n = terminal_puts (if sint n < 0 then 45 # uint_text (- n) 10 else uint_text n 10)"

definition vga_pal :: "u32 list" where
  "vga_pal = [Color_Black, 0x0000AA, Color_Green, Color_Cyan, Color_Red, Color_Magenta, 0xAA5500, 0xAAAAAA,
     0x555555, Color_Blue, Color_Green, Color_Cyan, Color_Red, Color_Magenta, Color_Yellow, Color_White]"

definition terminal_set_color_fg :: "u8 \<Rightarrow> terminal \<Rightarrow> terminal" where
  "terminal_set_color_fg i t = t\<lparr>cur_fg := (if i < 16 then vga_pal ! unat i else Color_White)\<rparr>"

definition terminal_reset_color :: "terminal \<Rightarrow> terminal" where
  "terminal_reset_color t = t\<lparr>cur_fg := Color_White, cur_bg := Color_Black\<rparr>"

definition terminal_clear :: "terminal \<Rightarrow> terminal" where
  "terminal_clear t =
     (if fb_available t then
        (on_vram (\<lambda>f. fb_fill_rect f (fb_term_x t) (fb_term_y t) (fb_term_w t) (fb_term_h t) Color_Black) t)\<lparr>fb_cx := 0, fb_cy := 0\<rparr>
      else
        t\<lparr>tvga := fold (\<lambda>r. fold (\<lambda>c. set_vga r c (vga_entry 32 15 0)) [0..VGA_COLS - 1]) [VGA_TERM_START..VGA_TERM_END - 1] (tvga t),
          vga_row := VGA_TERM_START, vga_col := 0\<rparr>)"

definition terminal_init :: "terminal \<Rightarrow> terminal" where
  "terminal_init t =
     (if fb_available t then
        t\<lparr>fb_term_x := 0, fb_term_y := 28, fb_term_w := sint (s_width (tdev t)), fb_term_h := sint (s_height (tdev t)) - 28,
          fb_cx := 0, fb_cy := 0\<rparr>
      else terminal_clear t)"

section \<open>The line editor\<close>

definition cstr :: "bytes \<Rightarrow> bytes" where
  "cstr b = takeWhile (\<lambda>c. c \<noteq> 0) b"

definition copy_str :: "bytes \<Rightarrow> bytes \<Rightarrow> bytes" where
  "copy_str dst src = copy_into dst (cstr src @ [0])"

definition terminal_set_prompt_path :: "bytes \<Rightarrow> terminal \<Rightarrow> terminal" where
  "terminal_set_prompt_path p t = t\<lparr>prompt_path := copy_into (prompt_path t) (take 255 p @ [0])\<rparr>"

definition show_cursor :: "bool \<Rightarrow> terminal \<Rightarrow> terminal" where
  "show_cursor on t = (if fb_available t then fb_show_cursor on t else vga_show_cursor on t)"

definition str :: "string \<Rightarrow> bytes" where "str s = map of_char s"

definition in_fg :: "u32 \<Rightarrow> bytes \<Rightarrow> terminal \<Rightarrow> terminal" where
  "in_fg c s t = terminal_puts s (t\<lparr>cur_fg := c\<rparr>)"

definition print_prompt :: "terminal \<Rightarrow> terminal" where
  "print_prompt t =
     (let t = show_cursor False t;
          t = in_fg Color_Prompt (str ''sabaka'') t;
          t = in_fg Color_PromptAt (str ''@'') t;
          t = in_fg Color_PromptHost (str ''SabakaOS'') t;
          t = in_fg Color_White (str '': '') t;
          t = in_fg Color_PromptPath (str ''~'') t;
          t = (if prompt_path t ! 0 = 47 \<and> prompt_path t ! 1 \<noteq> 0 then terminal_puts (cstr (prompt_path t)) t else t);
          t = in_fg Color_PromptArrow (str '' > '') t
      in t\<lparr>cur_fg := Color_Input\<rparr>)"

text \<open>A walk over the cells of the input line from the prompt on, in either mode.\<close>

definition fb_cells :: "(int \<Rightarrow> int \<Rightarrow> u8 \<Rightarrow> vram \<Rightarrow> vram) \<Rightarrow> bytes \<Rightarrow> terminal \<Rightarrow> int \<times> int \<times> vram" where
  "fb_cells f s t =
     fold (\<lambda>c (px, py, m).
         let m = f px py c m; px = px + FB_FONT_W in
         if fb_term_x t + fb_term_w t < px + FB_FONT_W then (fb_term_x t, py + FB_FONT_H, m) else (px, py, m))
       s (fb_term_x t + fb_prompt_cx t, fb_term_y t + fb_prompt_cy t, tvram t)"

definition vga_cells :: "(u8 \<Rightarrow> u16) \<Rightarrow> bytes \<Rightarrow> terminal \<Rightarrow> int \<times> int \<times> (int \<Rightarrow> u16)" where
  "vga_cells f s t =
     fold (\<lambda>ch (r, c, m).
         let m = set_vga r c (f ch) m; c = c + 1 in
         if VGA_COLS \<le> c then (r + 1, 0, m) else (r, c, m))
       s (vga_prompt_row t, vga_prompt_col t, tvga t)"

function erase_loop :: "framebuffer \<Rightarrow> int \<Rightarrow> int \<Rightarrow> int \<Rightarrow> vram \<Rightarrow> vram" where
  "erase_loop f end_x erase py m =
     (if erase + FB_FONT_W \<le> end_x then
        erase_loop f end_x (erase + FB_FONT_W) py (fb_fill_rect f erase py FB_FONT_W FB_FONT_H Color_Black m)
      else m)"
  by pat_completeness auto
termination
  by (relation "measure (\<lambda>(f, end_x, erase, py, m). nat (end_x - erase))") (auto simp: FB_FONT_W_def)

declare erase_loop.simps [simp del]

text \<open>Wrapping the cursor's column never ends on a terminal of no width.\<close>

partial_function (option) fb_wrap :: "int \<Rightarrow> int \<Rightarrow> int \<Rightarrow> (int \<times> int) option" where
  "fb_wrap w cx cy = (if w < cx + FB_FONT_W then fb_wrap w (cx - w) (cy + FB_FONT_H) else Some (cx, cy))"

function vga_wrap :: "int \<Rightarrow> int \<Rightarrow> int \<times> int" where
  "vga_wrap r c = (if VGA_COLS \<le> c then vga_wrap (r + 1) (c - VGA_COLS) else (r, c))"
  by pat_completeness auto
termination
  by (relation "measure (\<lambda>(r, c). nat c)") (auto simp: VGA_COLS_def)

declare vga_wrap.simps [simp del]

definition input_redraw_fb :: "terminal \<Rightarrow> terminal option" where
  "input_redraw_fb t0 =
     (let t = fb_show_cursor False t0;
          (px, py, m) = fb_cells (\<lambda>px py c. fb_draw_char (tdev t) px py c Color_Input Color_Black) (take (input_len t) (input_buf t)) t;
          m = erase_loop (tdev t) (fb_term_x t + fb_term_w t) px py m
      in map_option (\<lambda>(cx, cy). fb_show_cursor True (t\<lparr>tvram := m, fb_cx := cx, fb_cy := cy\<rparr>))
           (fb_wrap (fb_term_w t) (fb_prompt_cx t + int (input_pos t) * FB_FONT_W) (fb_prompt_cy t)))"

definition input_redraw_vga :: "terminal \<Rightarrow> terminal" where
  "input_redraw_vga t0 =
     (let t = vga_show_cursor False t0;
          (r, c, m) = vga_cells (\<lambda>ch. vga_entry ch 10 0) (take (input_len t) (input_buf t)) t;
          m = fold (\<lambda>fc. set_vga r fc (vga_entry 32 15 0)) [c..VGA_COLS - 1] m;
          (row, col) = vga_wrap (vga_prompt_row t) (vga_prompt_col t + int (input_pos t))
      in vga_show_cursor True (t\<lparr>tvga := m, vga_row := row, vga_col := col\<rparr>))"

definition input_redraw :: "terminal \<Rightarrow> terminal option" where
  "input_redraw t = (if fb_available t then input_redraw_fb t else Some (input_redraw_vga t))"

definition input_clear_line :: "terminal \<Rightarrow> terminal" where
  "input_clear_line t =
     (let t1 = (if fb_available t then
            t\<lparr>tvram := snd (snd (fb_cells (\<lambda>px py c. fb_fill_rect (tdev t) px py FB_FONT_W FB_FONT_H Color_Black)
               (take (input_len t) (input_buf t)) t))\<rparr>
          else
            t\<lparr>tvga := snd (snd (vga_cells (\<lambda>ch. vga_entry 32 15 0) (take (input_len t) (input_buf t)) t))\<rparr>)
      in t1\<lparr>input_len := 0, input_pos := 0\<rparr>)"

definition start_input :: "terminal \<Rightarrow> terminal" where
  "start_input t0 =
     (let t = print_prompt (t0\<lparr>input_len := 0, input_pos := 0, hist_idx := -1, input_buf := replicate INPUT_MAX 0\<rparr>) in
      if fb_available t then fb_show_cursor True (t\<lparr>fb_prompt_cx := fb_cx t, fb_prompt_cy := fb_cy t\<rparr>)
      else vga_show_cursor True (t\<lparr>vga_prompt_row := vga_row t, vga_prompt_col := vga_col t\<rparr>))"

definition terminal_reply_input :: "terminal \<Rightarrow> terminal" where
  "terminal_reply_input = start_input"

section \<open>Keys\<close>

definition load_input :: "bytes \<Rightarrow> terminal \<Rightarrow> terminal" where
  "load_input b t = t\<lparr>input_buf := b, input_len := length (cstr b), input_pos := length (cstr b)\<rparr>"

definition key_up :: "terminal \<Rightarrow> terminal option" where
  "key_up t =
     (if 0 < hist_count t then
        let i = (if hist_idx t = -1 then int (hist_count t) - 1 else if 0 < hist_idx t then hist_idx t - 1 else hist_idx t);
            t1 = input_clear_line (t\<lparr>hist_idx := i\<rparr>)
        in input_redraw (load_input (copy_str (input_buf t1) (history t1 ! nat i)) t1)
      else Some t)"

definition key_down :: "terminal \<Rightarrow> terminal option" where
  "key_down t =
     (if hist_idx t \<noteq> -1 then
        let i = hist_idx t + 1;
            t1 = input_clear_line (t\<lparr>hist_idx := i\<rparr>);
            t2 = (if i < int (hist_count t1) then load_input (copy_str (input_buf t1) (history t1 ! nat i)) t1
                  else load_input (replicate INPUT_MAX 0) (t1\<lparr>hist_idx := -1\<rparr>))
        in input_redraw t2
      else Some t)"

text \<open>The history's last slot is also the one that makes it move.\<close>

definition remember :: "terminal \<Rightarrow> terminal" where
  "remember t =
     (if 0 < input_len t then
        let (i, n) = (if hist_count t < HIST_MAX then (hist_count t, hist_count t + 1) else (HIST_MAX - 1, hist_count t));
            h = (if i = HIST_MAX - 1 then fold (\<lambda>i h. h[i := copy_str (h ! i) (h ! (i + 1))]) [0..<HIST_MAX - 1] (history t)
                 else history t)
        in t\<lparr>history := h[i := copy_str (h ! i) (input_buf t)], hist_count := n\<rparr>
      else t)"

definition key_enter :: "(bytes \<Rightarrow> terminal \<Rightarrow> terminal) option \<Rightarrow> terminal \<Rightarrow> terminal" where
  "key_enter execute_cb t =
     (let t1 = terminal_newline (show_cursor False t);
          t2 = remember (t1\<lparr>input_buf := (input_buf t1)[input_len t1 := 0]\<rparr>);
          t3 = (case execute_cb of None \<Rightarrow> t2 | Some f \<Rightarrow> f (cstr (input_buf t2)) t2)
      in start_input t3)"

definition key_backspace :: "terminal \<Rightarrow> terminal option" where
  "key_backspace t =
     (if 0 < input_pos t then
        let b = fold (\<lambda>i b. b[i := b ! (i + 1)]) [input_pos t - 1..<input_len t - 1] (input_buf t) in
        input_redraw (t\<lparr>input_buf := b[input_len t - 1 := 0], input_len := input_len t - 1, input_pos := input_pos t - 1\<rparr>)
      else Some t)"

definition key_text :: "u8 \<Rightarrow> terminal \<Rightarrow> terminal option" where
  "key_text c t =
     (if input_len t < INPUT_MAX - 1 then
        let b = fold (\<lambda>i b. b[i := b ! (i - 1)]) (rev [input_pos t + 1..<input_len t + 1]) (input_buf t);
            b = b[input_pos t := c]
        in input_redraw (t\<lparr>input_buf := b[input_len t + 1 := 0], input_len := input_len t + 1, input_pos := input_pos t + 1\<rparr>)
      else Some t)"

definition terminal_on_key :: "(bytes \<Rightarrow> terminal \<Rightarrow> terminal) option \<Rightarrow> u8 \<Rightarrow> terminal \<Rightarrow> terminal option" where
  "terminal_on_key execute_cb c t =
     (if c = 17 then key_up t
      else if c = 18 then key_down t
      else if c = 10 then Some (key_enter execute_cb t)
      else if c = 8 then key_backspace t
      else if 32 \<le> c \<and> c < 127 then key_text c t
      else Some t)"

end
