(* ===== verification/FbProps.thy ===== *)
theory FbProps
  imports Fb GfxProps
begin

unbundle bit_operations_syntax

text \<open>
  Drawing on the frame buffer: the bytes of the pixels lie apart in memory, so filling,
  text and scrolling are described by what they do to each pixel.
\<close>

section \<open>Addresses of pixels\<close>

definition pixel_size :: "framebuffer \<Rightarrow> nat" where
  "pixel_size f = unat (s_bpp f) div 8"

definition fb_ok :: "framebuffer \<Rightarrow> bool" where
  "fb_ok f \<longleftrightarrow> s_ready f \<and> s_bpp f \<in> {16, 24, 32} \<and> unat (s_width f) < 2 ^ 31 \<and> unat (s_height f) < 2 ^ 31 \<and>
     unat (s_width f) * pixel_size f \<le> unat (s_pitch f) \<and>
     unat (s_fb f) + unat (s_height f) * unat (s_pitch f) \<le> 2 ^ 32"

definition on_fb :: "framebuffer \<Rightarrow> int \<Rightarrow> int \<Rightarrow> bool" where
  "on_fb f x y \<longleftrightarrow> 0 \<le> x \<and> x < uint (s_width f) \<and> 0 \<le> y \<and> y < uint (s_height f)"

definition byte_addr :: "framebuffer \<Rightarrow> int \<Rightarrow> int \<Rightarrow> nat \<Rightarrow> u32" where
  "byte_addr f x y k = pixel_addr f x y + of_nat k"

lemma pixel_size_cases: "fb_ok f \<Longrightarrow> pixel_size f \<in> {2, 3, 4}"
  by (auto simp: fb_ok_def pixel_size_def)

lemma size_word: "fb_ok f \<Longrightarrow> ucast (s_bpp f div 8) = (of_nat (pixel_size f) :: u32)"
  by (auto simp: fb_ok_def pixel_size_def)

lemma length_pixel_bytes: "fb_ok f \<Longrightarrow> length (pixel_bytes f c) = pixel_size f"
  by (auto simp: fb_ok_def pixel_size_def pixel_bytes_def Let_def)

lemma row_fits:
  assumes "fb_ok f"
  shows "uint (s_width f) * int (pixel_size f) \<le> uint (s_pitch f)"
proof -
  have "int (unat (s_width f) * pixel_size f) \<le> int (unat (s_pitch f))" using assms by (simp only: fb_ok_def of_nat_le_iff)
  then show ?thesis by simp
qed

lemma in_row:
  assumes "fb_ok f" "on_fb f x y" "k < pixel_size f"
  shows "0 \<le> x * int (pixel_size f) + int k" "x * int (pixel_size f) + int k < uint (s_pitch f)"
proof -
  have "(x + 1) * int (pixel_size f) \<le> uint (s_width f) * int (pixel_size f)"
    using assms(2) by (intro mult_right_mono) (simp_all add: on_fb_def)
  with row_fits [OF assms(1)] assms(3) show "x * int (pixel_size f) + int k < uint (s_pitch f)" by (simp add: algebra_simps)
  show "0 \<le> x * int (pixel_size f) + int k" using assms(2) by (simp add: on_fb_def)
qed

lemma uint_byte_addr:
  assumes ok: "fb_ok f" and on: "on_fb f x y" and k: "k < pixel_size f"
  shows "uint (byte_addr f x y k) = uint (s_fb f) + y * uint (s_pitch f) + x * int (pixel_size f) + int k"
proof -
  let ?v = "uint (s_fb f) + y * uint (s_pitch f) + x * int (pixel_size f) + int k"
  have v: "byte_addr f x y k = word_of_int ?v"
    by (simp add: byte_addr_def pixel_addr_def size_word [OF ok])
  have x: "0 \<le> x" "x + 1 \<le> uint (s_width f)" and y: "0 \<le> y" "y + 1 \<le> uint (s_height f)" using on by (simp_all add: on_fb_def)
  have all: "uint (s_fb f) + uint (s_height f) * uint (s_pitch f) \<le> 2 ^ 32"
  proof -
    have "int (unat (s_fb f) + unat (s_height f) * unat (s_pitch f)) \<le> int (2 ^ 32)" using ok by (simp only: fb_ok_def of_nat_le_iff)
    then show ?thesis by simp
  qed
  note col = in_row(2) [OF ok on k]
  have "(y + 1) * uint (s_pitch f) \<le> uint (s_height f) * uint (s_pitch f)" using y by (intro mult_right_mono) simp_all
  with col have "?v < 2 ^ 32" using all by (simp add: algebra_simps)
  moreover have "0 \<le> ?v" using x y by simp
  ultimately show ?thesis unfolding v uint_word_of_int by (intro mod_pos_pos_trivial) simp_all
qed

lemma byte_addr_inj:
  assumes ok: "fb_ok f" and on: "on_fb f x y" "on_fb f x' y'" and k: "k < pixel_size f" "k' < pixel_size f"
  shows "byte_addr f x y k = byte_addr f x' y' k' \<longleftrightarrow> x = x' \<and> y = y' \<and> k = k'"
proof
  assume e: "byte_addr f x y k = byte_addr f x' y' k'"
  let ?n = "int (pixel_size f)" and ?p = "uint (s_pitch f)"
  from arg_cong [OF e, of uint]
  have eq: "y * ?p + x * ?n + int k = y' * ?p + x' * ?n + int k'"
    by (simp add: uint_byte_addr [OF ok on(1) k(1)] uint_byte_addr [OF ok on(2) k(2)])
  have "y = y'"
  proof -
    have "(y - y') * ?p = (x' * ?n + int k') - (x * ?n + int k)" using eq by (simp add: algebra_simps)
    then have "y - y' = 0" by (rule mult_small_zero) (use in_row [OF ok on(1) k(1)] in_row [OF ok on(2) k(2)] in linarith)
    then show ?thesis by simp
  qed
  moreover have "x = x'"
  proof -
    have "(x - x') * ?n = int k' - int k" using eq \<open>y = y'\<close> by (simp add: algebra_simps)
    then have "x - x' = 0" by (rule mult_small_zero) (use k in linarith)
    then show ?thesis by simp
  qed
  ultimately show "x = x' \<and> y = y' \<and> k = k'" using eq by simp
qed simp

lemma put_bytes_addr: "put_bytes p bs m (p + of_nat k) = (if k < length bs then bs ! k else m (p + of_nat k))"
  if "k < 2 ^ 32" "length bs < 2 ^ 32"
  using that by (simp add: put_bytes_def unat_of_nat32)

text \<open>The byte of a pixel, and the addresses outside all pixels.\<close>

definition off_screen :: "framebuffer \<Rightarrow> u32 \<Rightarrow> bool" where
  "off_screen f a \<longleftrightarrow> (\<forall>x y k. on_fb f x y \<longrightarrow> k < pixel_size f \<longrightarrow> a \<noteq> byte_addr f x y k)"

lemma put_bytes_miss:
  assumes "\<And>k. k < length bs \<Longrightarrow> a \<noteq> p + of_nat k"
  shows "put_bytes p bs m a = m a"
  using assms [of "unat (a - p)"] by (auto simp: put_bytes_def)

lemma put_byte:
  assumes "fb_ok f" "on_fb f x y" "on_fb f x' y'" "k < pixel_size f"
  shows "put f x y c m (byte_addr f x' y' k) = (if x' = x \<and> y' = y then pixel_bytes f c ! k else m (byte_addr f x' y' k))"
proof -
  have n: "pixel_size f < 2 ^ 32" using pixel_size_cases [OF assms(1)] by auto
  have e: "byte_addr f x' y' k = pixel_addr f x y + of_nat j \<longleftrightarrow> x' = x \<and> y' = y \<and> k = j" if "j < pixel_size f" for j
    using byte_addr_inj [OF assms(1,3,2,4) that] by (simp add: byte_addr_def)
  show ?thesis
  proof (cases "x' = x \<and> y' = y")
    case True
    then have "put f x y c m (byte_addr f x' y' k) = put_bytes (pixel_addr f x y) (pixel_bytes f c) m (pixel_addr f x y + of_nat k)"
      by (simp add: put_def byte_addr_def)
    then show ?thesis using True assms(4) n by (simp add: put_bytes_addr length_pixel_bytes [OF assms(1)])
  next
    case False
    have "put_bytes (pixel_addr f x y) (pixel_bytes f c) m (byte_addr f x' y' k) = m (byte_addr f x' y' k)"
      by (rule put_bytes_miss) (use False e in \<open>auto simp: length_pixel_bytes [OF assms(1)]\<close>)
    then show ?thesis using False by (auto simp: put_def)
  qed
qed

lemma put_off:
  assumes "fb_ok f" "on_fb f x y" "off_screen f a"
  shows "put f x y c m a = m a"
  unfolding put_def
  by (rule put_bytes_miss) (use assms in \<open>auto simp: off_screen_def byte_addr_def length_pixel_bytes\<close>)

section \<open>Filling\<close>

lemma fold_put:
  assumes ok: "fb_ok f" and on: "\<And>x y. (y, x) \<in> set qs \<Longrightarrow> on_fb f x y"
  shows "on_fb f x y \<Longrightarrow> k < pixel_size f \<Longrightarrow> fold (\<lambda>(y, x). put f x y c) qs m (byte_addr f x y k) =
      (if (y, x) \<in> set qs then pixel_bytes f c ! k else m (byte_addr f x y k))"
    and "off_screen f a \<Longrightarrow> fold (\<lambda>(y, x). put f x y c) qs m a = m a"
proof -
  show "fold (\<lambda>(y, x). put f x y c) qs m (byte_addr f x y k) =
      (if (y, x) \<in> set qs then pixel_bytes f c ! k else m (byte_addr f x y k))" if "on_fb f x y" "k < pixel_size f"
    using on
  proof (induction qs arbitrary: m)
    case (Cons q qs)
    obtain b a where q: "q = (b, a)" by fastforce
    have "on_fb f a b" using Cons.prems [of b a] q by simp
    from put_byte [OF ok this that] Cons show ?case by (auto simp: q)
  qed simp
  show "fold (\<lambda>(y, x). put f x y c) qs m a = m a" if "off_screen f a"
    using on
  proof (induction qs arbitrary: m)
    case (Cons q qs)
    obtain b d where q: "q = (b, d)" by fastforce
    have "on_fb f d b" using Cons.prems [of b d] q by simp
    from put_off [OF ok this that] Cons show ?case by (simp add: q)
  qed simp
qed

lemma fill_byte:
  assumes ok: "fb_ok f" and xw: "0 \<le> x + w" "x + w < 2 ^ 31" and yh: "0 \<le> y + h" "y + h < 2 ^ 31"
  shows "on_fb f x' y' \<Longrightarrow> k < pixel_size f \<Longrightarrow> fb_fill_rect f x y w h c m (byte_addr f x' y' k) =
      (if x \<le> x' \<and> x' < x + w \<and> y \<le> y' \<and> y' < y + h then pixel_bytes f c ! k else m (byte_addr f x' y' k))"
    and "off_screen f a \<Longrightarrow> fb_fill_rect f x y w h c m a = m a"
proof -
  define x1 y1 where "x1 = (if x < 0 then 0 else x)" and "y1 = (if y < 0 then 0 else y)"
  define x2 where "x2 = (if s_width f < word_of_int (x + w) then sint (s_width f) else x + w)"
  define y2 where "y2 = (if s_height f < word_of_int (y + h) then sint (s_height f) else y + h)"
  have clamp: "(if v < word_of_int e then sint v else e) = min (uint v) e"
    if "0 \<le> e" "e < 2 ^ 31" "unat v < 2 ^ 31" for v :: u32 and e
  proof -
    have "uint (word_of_int e :: u32) = e" using that(1,2) by (simp add: uint_word_of_int)
    moreover have "sint v = uint v" using sint_small32 [OF that(3)] by simp
    ultimately show ?thesis by (simp add: word_less_def min_def)
  qed
  have x2: "x2 = min (uint (s_width f)) (x + w)" and y2: "y2 = min (uint (s_height f)) (y + h)"
  proof -
    have W: "unat (s_width f) < 2 ^ 31" "unat (s_height f) < 2 ^ 31" using ok by (simp_all add: fb_ok_def)
    show "x2 = min (uint (s_width f)) (x + w)" unfolding x2_def by (rule clamp [OF xw W(1)])
    show "y2 = min (uint (s_height f)) (y + h)" unfolding y2_def by (rule clamp [OF yh W(2)])
  qed
  let ?qs = "concat (map (\<lambda>r. map (Pair r) [x1..x2 - 1]) [y1..y2 - 1])"
  have set: "(r, c) \<in> set ?qs \<longleftrightarrow> x1 \<le> c \<and> c < x2 \<and> y1 \<le> r \<and> r < y2" for r c by (auto simp: image_iff)
  have on: "on_fb f c r" if "(r, c) \<in> set ?qs" for c r
    using that unfolding set by (auto simp: on_fb_def x1_def y1_def x2 y2 split: if_splits)
  have run: "fb_fill_rect f x y w h c m = fold (\<lambda>(r, q). put f q r c) ?qs m"
    using ok by (simp add: fb_fill_rect_def fb_ok_def x1_def y1_def x2_def y2_def fold_nested)
  show "off_screen f a \<Longrightarrow> fb_fill_rect f x y w h c m a = m a" unfolding run by (rule fold_put(2) [OF ok on])
  assume i: "on_fb f x' y'" "k < pixel_size f"
  have "(y', x') \<in> set ?qs \<longleftrightarrow> x \<le> x' \<and> x' < x + w \<and> y \<le> y' \<and> y' < y + h"
    using i(1) unfolding set by (auto simp: x1_def y1_def x2 y2 on_fb_def)
  then show "fb_fill_rect f x y w h c m (byte_addr f x' y' k) =
      (if x \<le> x' \<and> x' < x + w \<and> y \<le> y' \<and> y' < y + h then pixel_bytes f c ! k else m (byte_addr f x' y' k))"
    unfolding run by (subst fold_put(1) [OF ok on i]) simp_all
qed

section \<open>Scrolling\<close>

lemma row_bytes:
  assumes "fb_ok f"
  shows "pixel_addr f x y + of_nat i = byte_addr f (x + int (i div pixel_size f)) y (i mod pixel_size f)"
proof -
  have "of_nat (i div pixel_size f) * of_nat (pixel_size f) + of_nat (i mod pixel_size f) = (of_nat i :: u32)"
    by (metis div_mult_mod_eq of_nat_add of_nat_mult)
  then show ?thesis
    by (simp add: byte_addr_def pixel_addr_def size_word [OF assms] algebra_simps)
qed

lemma copy_row:
  assumes ok: "fb_ok f" and x: "0 \<le> x" "0 \<le> w" "x + w \<le> uint (s_width f)"
    and y: "0 \<le> d" "d < uint (s_height f)" "0 \<le> s" "s < uint (s_height f)" "d \<noteq> s"
  defines "M \<equiv> copy_bytes (pixel_addr f x d) (pixel_addr f x s) (nat w * pixel_size f)"
  shows "on_fb f x' y' \<Longrightarrow> k < pixel_size f \<Longrightarrow> M m (byte_addr f x' y' k) =
      (if y' = d \<and> x \<le> x' \<and> x' < x + w then m (byte_addr f x' s k) else m (byte_addr f x' y' k))"
    and "off_screen f a \<Longrightarrow> M m a = m a"
proof -
  let ?n = "pixel_size f"
  let ?f = "\<lambda>i. byte_addr f (x + int (i div ?n)) d (i mod ?n)" and ?g = "\<lambda>i. byte_addr f (x + int (i div ?n)) s (i mod ?n)"
  have n: "0 < ?n" using pixel_size_cases [OF ok] by auto
  have M: "M m = fold (\<lambda>i m. m(?f i := m (?g i))) [0..<nat w * ?n] m" for m
    by (simp add: M_def copy_bytes_def row_bytes [OF ok])
  have dv: "int (i div ?n) < w" if "i < nat w * ?n" for i
  proof -
    have "i div ?n < nat w" using that n by (simp add: less_mult_imp_div_less)
    then show ?thesis by simp
  qed
  have on: "on_fb f (x + int (i div ?n)) d" "on_fb f (x + int (i div ?n)) s" if "i \<in> set [0..<nat w * ?n]" for i
    using dv [of i] that x y by (simp_all add: on_fb_def)
  have inj: "inj_on ?f (set [0..<nat w * ?n])"
  proof (rule inj_onI)
    fix i j assume ij: "i \<in> set [0..<nat w * ?n]" "j \<in> set [0..<nat w * ?n]" "?f i = ?f j"
    then have "i div ?n = j div ?n" "i mod ?n = j mod ?n"
      using byte_addr_inj [OF ok on(1) [OF ij(1)] on(1) [OF ij(2)], of "i mod ?n" "j mod ?n"] n by simp_all
    then show "i = j" by (metis div_mult_mod_eq)
  qed
  have dis: "?f ` set [0..<nat w * ?n] \<inter> ?g ` set [0..<nat w * ?n] = {}"
  proof -
    have "?f i \<noteq> ?g j" if "i \<in> set [0..<nat w * ?n]" "j \<in> set [0..<nat w * ?n]" for i j
      using byte_addr_inj [OF ok on(1) [OF that(1)] on(2) [OF that(2)], of "i mod ?n" "j mod ?n"] n y(5) by simp
    then show ?thesis by blast
  qed
  note C = fold_copy [OF inj dis]
  show "M m a = m a" if "off_screen f a"
  proof -
    have "a \<noteq> ?f i" if "i \<in> set [0..<nat w * ?n]" for i
      using \<open>off_screen f a\<close> on(1) [OF that] n by (simp add: off_screen_def)
    then have "a \<notin> ?f ` set [0..<nat w * ?n]" by blast
    then show ?thesis unfolding M using C [where a = a] by blast
  qed
  assume i: "on_fb f x' y'" "k < ?n"
  show "M m (byte_addr f x' y' k) = (if y' = d \<and> x \<le> x' \<and> x' < x + w then m (byte_addr f x' s k) else m (byte_addr f x' y' k))"
  proof (cases "y' = d \<and> x \<le> x' \<and> x' < x + w")
    case True
    let ?i = "nat (x' - x) * ?n + k"
    have q: "?i div ?n = nat (x' - x)" "?i mod ?n = k" using i(2) by simp_all
    have "nat (x' - x) + 1 \<le> nat w" using True by linarith
    then have "(nat (x' - x) + 1) * ?n \<le> nat w * ?n" by (rule mult_le_mono1)
    then have "?i \<in> set [0..<nat w * ?n]" using i(2) by simp
    then have "M m (?f ?i) = m (?g ?i)" unfolding M using C [where i = ?i] by blast
    then show ?thesis using True i(2) by (simp add: q)
  next
    case False
    have "byte_addr f x' y' k \<noteq> ?f j" if j: "j \<in> set [0..<nat w * ?n]" for j
      using byte_addr_inj [OF ok i(1) on(1) [OF j] i(2), of "j mod ?n"] n dv [of j] j False by auto
    then have "byte_addr f x' y' k \<notin> ?f ` set [0..<nat w * ?n]" by blast
    then show ?thesis unfolding M using C [where a = "byte_addr f x' y' k"] False by auto
  qed
qed

lemma row_length:
  assumes ok: "fb_ok f" and w: "0 \<le> w" "w \<le> uint (s_width f)"
  shows "unat (word_of_int w * ucast (s_bpp f div 8) :: u32) = nat w * pixel_size f"
proof -
  have "w * int (pixel_size f) \<le> uint (s_width f) * int (pixel_size f)" using w by (intro mult_right_mono) simp_all
  also have "\<dots> \<le> uint (s_pitch f)" by (rule row_fits [OF ok])
  also have "\<dots> < 2 ^ 32" using uint_lt2p [of "s_pitch f"] by simp
  finally have lt: "w * int (pixel_size f) < 2 ^ 32" .
  have "word_of_int w * ucast (s_bpp f div 8) = (word_of_int (w * int (pixel_size f)) :: u32)"
    by (simp add: size_word [OF ok])
  moreover have "uint (word_of_int (w * int (pixel_size f)) :: u32) = w * int (pixel_size f)"
    unfolding uint_word_of_int by (intro mod_pos_pos_trivial) (use w lt in simp_all)
  ultimately have "uint (word_of_int w * ucast (s_bpp f div 8) :: u32) = w * int (pixel_size f)" by simp
  then show ?thesis using w by (simp add: nat_mult_distrib flip: nat_uint_eq)
qed

lemma scroll_rows:
  assumes ok: "fb_ok f" and x: "0 \<le> x" "0 \<le> w" "x + w \<le> uint (s_width f)"
    and y: "0 \<le> y" "y + h \<le> uint (s_height f)" and L: "0 < L"
  defines "F \<equiv> \<lambda>row. copy_bytes (pixel_addr f x (y + row)) (pixel_addr f x (y + L + row)) (nat w * pixel_size f)"
  shows "int n + L \<le> h \<Longrightarrow> (\<forall>x' y' k. on_fb f x' y' \<longrightarrow> k < pixel_size f \<longrightarrow>
      fold F [0..int n - 1] m (byte_addr f x' y' k) =
        (if x \<le> x' \<and> x' < x + w \<and> y \<le> y' \<and> y' < y + int n then m (byte_addr f x' (y' + L) k) else m (byte_addr f x' y' k))) \<and>
    (\<forall>a. off_screen f a \<longrightarrow> fold F [0..int n - 1] m a = m a)"
proof (induction n)
  case (Suc n)
  have up: "[0..int (Suc n) - 1] = [0..int n - 1] @ [int n]" using upto_rec2 [of 0 "int n"] by simp
  have d: "0 \<le> y + int n" "y + int n < uint (s_height f)" "0 \<le> y + L + int n" "y + L + int n < uint (s_height f)" "y + int n \<noteq> y + L + int n"
    using Suc.prems y L by linarith+
  note R = copy_row [OF ok x d, folded F_def]
  let ?M = "fold F [0..int n - 1] m"
  have IH: "on_fb f x' y' \<Longrightarrow> k < pixel_size f \<Longrightarrow> ?M (byte_addr f x' y' k) =
      (if x \<le> x' \<and> x' < x + w \<and> y \<le> y' \<and> y' < y + int n then m (byte_addr f x' (y' + L) k) else m (byte_addr f x' y' k))"
    "off_screen f a \<Longrightarrow> ?M a = m a" for x' y' k a
    using Suc by auto
  show ?case unfolding up
  proof (intro conjI allI impI)
    fix x' y' k assume i: "on_fb f x' y'" "k < pixel_size f"
    have src: "on_fb f x' (y + L + int n)" using i d by (simp add: on_fb_def)
    have step: "F (int n) ?M (byte_addr f x' y' k) =
        (if y' = y + int n \<and> x \<le> x' \<and> x' < x + w then ?M (byte_addr f x' (y + L + int n) k) else ?M (byte_addr f x' y' k))"
      using R(1) [OF i] by (simp add: F_def)
    show "fold F ([0..int n - 1] @ [int n]) m (byte_addr f x' y' k) =
        (if x \<le> x' \<and> x' < x + w \<and> y \<le> y' \<and> y' < y + int (Suc n) then m (byte_addr f x' (y' + L) k) else m (byte_addr f x' y' k))"
    proof (cases "y' = y + int n \<and> x \<le> x' \<and> x' < x + w")
      case True
      have "?M (byte_addr f x' (y + L + int n) k) = m (byte_addr f x' (y + L + int n) k)" using IH(1) [OF src i(2)] L by simp
      moreover have "y + L + int n = y' + L" using True by simp
      ultimately show ?thesis using True step y(1) by (simp add: add.commute add.left_commute)
    next
      case False
      then show ?thesis using step IH(1) [OF i] by auto
    qed
  next
    fix a assume "off_screen f a"
    then show "fold F ([0..int n - 1] @ [int n]) m a = m a" using R(2) IH(2) by (simp add: F_def)
  qed
qed auto

lemma scroll_byte:
  fixes x y w h lines :: int and c :: u32
  assumes ok: "fb_ok f" and x: "0 \<le> x" "0 \<le> w" "x + w \<le> uint (s_width f)"
    and y: "0 \<le> y" "0 \<le> h" "y + h \<le> uint (s_height f)" and l: "0 < lines"
  defines "M \<equiv> fb_scroll_region f x y w h lines c"
  shows "on_fb f x' y' \<Longrightarrow> k < pixel_size f \<Longrightarrow> M m (byte_addr f x' y' k) =
      (if x \<le> x' \<and> x' < x + w \<and> y \<le> y' \<and> y' < y + h then
         if y' + 16 * lines < y + h then m (byte_addr f x' (y' + 16 * lines) k) else pixel_bytes f c ! k
       else m (byte_addr f x' y' k))"
    and "off_screen f a \<Longrightarrow> M m a = m a"
proof -
  let ?L = "lines * FB_FONT_H"
  have L: "?L = 16 * lines" "0 < ?L" using l by (simp_all add: FB_FONT_H_def)
  have "int (unat (s_width f)) < int (2 ^ 31)" "int (unat (s_height f)) < int (2 ^ 31)"
    using ok by (simp_all only: fb_ok_def of_nat_less_iff)
  then have W: "uint (s_width f) < 2 ^ 31" "uint (s_height f) < 2 ^ 31" by simp_all
  have r: "s_ready f" using ok by (simp add: fb_ok_def)
  let ?F = "\<lambda>row. copy_bytes (pixel_addr f x (y + row)) (pixel_addr f x (y + ?L + row)) (nat w * pixel_size f)"
  have run: "M m = fb_fill_rect f x (y + (h - ?L)) w ?L c (fold ?F [0..h - ?L - 1] m)" if "\<not> h \<le> ?L"
    using that r l row_length [OF ok, of w] x by (simp add: M_def fb_scroll_region_def pixel_addr_def Let_def)
  have n: "int (nat (h - ?L)) = h - ?L" if "\<not> h \<le> ?L" using that by simp
  note S = scroll_rows [OF ok x y(1,3) L(2), where n = "nat (h - ?L)" and m = m]
  show "M m (byte_addr f x' y' k) = (if x \<le> x' \<and> x' < x + w \<and> y \<le> y' \<and> y' < y + h then
         if y' + 16 * lines < y + h then m (byte_addr f x' (y' + 16 * lines) k) else pixel_bytes f c ! k
       else m (byte_addr f x' y' k))" if i: "on_fb f x' y'" "k < pixel_size f"
  proof (cases "h \<le> ?L")
    case True
    then have "M m = fb_fill_rect f x y w h c m" using r l by (simp add: M_def fb_scroll_region_def Let_def)
    then show ?thesis using fill_byte(1) [OF ok _ _ _ _ i, of x w y h c m] x y W True by (simp add: L(1))
  next
    case False
    have s: "fold ?F [0..h - ?L - 1] m (byte_addr f x' y' k) =
        (if x \<le> x' \<and> x' < x + w \<and> y \<le> y' \<and> y' < y + (h - ?L) then m (byte_addr f x' (y' + ?L) k) else m (byte_addr f x' y' k))"
      using S i n [OF False] by simp
    have t: "M m (byte_addr f x' y' k) = (if x \<le> x' \<and> x' < x + w \<and> y + (h - ?L) \<le> y' \<and> y' < y + h then pixel_bytes f c ! k
        else fold ?F [0..h - ?L - 1] m (byte_addr f x' y' k))"
      unfolding run [OF False] using fill_byte(1) [OF ok _ _ _ _ i, of x w "y + (h - ?L)" ?L c] x y W by simp
    show ?thesis unfolding t s using l False by (auto simp: L(1))
  qed
  show "M m a = m a" if off: "off_screen f a"
  proof (cases "h \<le> ?L")
    case True
    then have "M m = fb_fill_rect f x y w h c m" using r l by (simp add: M_def fb_scroll_region_def Let_def)
    then show ?thesis using fill_byte(2) [OF ok _ _ _ _ off, of x w y h c m] x y W by simp
  next
    case False
    show ?thesis unfolding run [OF False]
      using fill_byte(2) [OF ok _ _ _ _ off, of x w "y + (h - ?L)" ?L c] S off n [OF False] x y W by simp
  qed
qed

section \<open>Properties\<close>

definition demo_fb :: framebuffer where
  "demo_fb = \<lparr>s_fb = 0xE0000000, s_pitch = 4096, s_width = 1024, s_height = 768, s_bpp = 32, s_ready = True\<rparr>"

lemma demo_fb_ok: "fb_ok demo_fb"
  by (simp add: demo_fb_def fb_ok_def pixel_size_def)

text \<open>C28: Scrolling a region of a frame buffer with 16, 24 or 32 bits per pixel: inside the region every pixel that has one
  below it, the given number of text lines further down, takes that pixel's bytes, and the others take the fill
  colour's; all other pixels, and all memory that belongs to no pixel, are unchanged. The copy runs over
  overlapping memory row by row.\<close>

theorem scroll_moves_lines_up:
  assumes "fb_ok f" "0 \<le> x" "0 \<le> w" "x + w \<le> uint (s_width f)" "0 \<le> y" "0 \<le> h" "y + h \<le> uint (s_height f)" "0 < lines"
  shows "(\<forall>x' y' k. on_fb f x' y' \<longrightarrow> k < pixel_size f \<longrightarrow> fb_scroll_region f x y w h lines c m (byte_addr f x' y' k) =
      (if x \<le> x' \<and> x' < x + w \<and> y \<le> y' \<and> y' < y + h then
         if y' + 16 * lines < y + h then m (byte_addr f x' (y' + 16 * lines) k) else pixel_bytes f c ! k
       else m (byte_addr f x' y' k))) \<and>
    (\<forall>a. off_screen f a \<longrightarrow> fb_scroll_region f x y w h lines c m a = m a)"
  using scroll_byte [OF assms] by blast

theorem scroll_moves_lines_up_witness:
  "fb_scroll_region demo_fb 0 28 1024 740 1 0 (\<lambda>a. ucast (drop_bit 12 a)) (byte_addr demo_fb 5 30 2) = ucast (drop_bit 12 (byte_addr demo_fb 5 46 2))"
proof -
  have "on_fb demo_fb 5 30" "2 < pixel_size demo_fb" by (simp_all add: on_fb_def demo_fb_def pixel_size_def)
  then show ?thesis
    using conjunct1 [OF scroll_moves_lines_up [OF demo_fb_ok, of 0 1024 28 740 1 0 "\<lambda>a. ucast (drop_bit 12 a)"], rule_format, of 5 30 2]
    by (simp add: demo_fb_def)
qed

end
