(* ===== verification/TerminalProps.thy ===== *)
theory TerminalProps
  imports Terminal FbProps Syscall
begin

unbundle bit_operations_syntax

text \<open>
  The terminal's line editor refines an abstract editor of a line and a list of remembered
  lines, and output stays below the header in both modes.
\<close>

section \<open>What output leaves alone\<close>

definition same_edit :: "terminal \<Rightarrow> terminal \<Rightarrow> bool" where
  "same_edit t t' \<longleftrightarrow> tdev t' = tdev t \<and> fb_term_w t' = fb_term_w t \<and> input_buf t' = input_buf t \<and> input_len t' = input_len t \<and>
     input_pos t' = input_pos t \<and> history t' = history t \<and> hist_count t' = hist_count t \<and> hist_idx t' = hist_idx t"

lemma same_edit_refl [simp]: "same_edit t t"
  by (simp add: same_edit_def)

lemma same_edit_trans: "same_edit t u \<Longrightarrow> same_edit u v \<Longrightarrow> same_edit t v"
  by (simp add: same_edit_def)

lemma same_edit_screen [simp]:
  "same_edit t (t\<lparr>tvram := m\<rparr>)" "same_edit t (t\<lparr>tvga := v\<rparr>)" "same_edit t (t\<lparr>vga_row := i\<rparr>)" "same_edit t (t\<lparr>vga_col := i\<rparr>)"
  "same_edit t (t\<lparr>fb_cx := i\<rparr>)" "same_edit t (t\<lparr>fb_cy := i\<rparr>)" "same_edit t (t\<lparr>cur_fg := c\<rparr>)"
  by (simp_all add: same_edit_def)

lemma edit_vga_cursor: "same_edit t (vga_show_cursor on t)"
  by (simp add: vga_show_cursor_def)

lemma edit_fb_cursor: "same_edit t (fb_show_cursor on t)"
  by (simp add: fb_show_cursor_def on_vram_def)

lemma edit_show_cursor: "same_edit t (show_cursor on t)"
  by (simp add: show_cursor_def edit_vga_cursor edit_fb_cursor)

lemma edit_vga_newline: "same_edit t (vga_newline t)"
  by (simp add: vga_newline_def Let_def same_edit_def)

lemma edit_fb_newline: "same_edit t (fb_newline t)"
  by (simp add: fb_newline_def Let_def same_edit_def on_vram_def)

lemma edit_draw: "same_edit t (draw_at_cursor c t)"
  by (simp add: draw_at_cursor_def same_edit_def on_vram_def)

lemma edit_vga_tab: "same_edit t (vga_tab tab fg t)"
proof (induction tab fg t rule: vga_tab.induct)
  case (1 tab fg t)
  show ?case
  proof (cases "vga_col t < tab \<and> vga_col t < VGA_COLS - 1")
    case True
    let ?t = "t\<lparr>tvga := set_vga (vga_row t) (vga_col t) (vga_entry 32 fg 0) (tvga t), vga_col := vga_col t + 1\<rparr>"
    have "same_edit t ?t" by (simp add: same_edit_def)
    then have "same_edit t (vga_tab tab fg ?t)" using 1 [OF True] by (rule same_edit_trans)
    then show ?thesis using True by (subst vga_tab.simps) simp
  next
    case False
    show ?thesis by (subst vga_tab.simps) (simp only: False if_False same_edit_refl)
  qed
qed

lemma edit_fb_tab: "same_edit t (fb_tab tab t)"
proof (induction tab t rule: fb_tab.induct)
  case (1 tab t)
  show ?case
  proof (cases "fb_cx t < tab \<and> fb_cx t + FB_FONT_W \<le> fb_term_w t")
    case True
    have "same_edit t (fb_tab tab (draw_at_cursor 32 t))" using edit_draw 1 [OF True] by (rule same_edit_trans)
    then show ?thesis using True by (subst fb_tab.simps) simp
  next
    case False
    show ?thesis by (subst fb_tab.simps) (simp only: False if_False same_edit_refl)
  qed
qed

lemma edit_putchar: "same_edit t (terminal_putchar c t)"
proof (cases "fb_available t")
  case True
  let ?t1 = "fb_show_cursor False t"
  have "same_edit ?t1 (if c = 10 then fb_newline ?t1
                    else if c = 9 then fb_tab ((fb_cx ?t1 sdiv FB_FONT_W sdiv 4 + 1) * 4 * FB_FONT_W) ?t1
                    else
                      let t' = draw_at_cursor c ?t1 in
                      if fb_term_w t' < fb_cx t' + FB_FONT_W then fb_newline t' else t')" (is "same_edit _ ?t2")
    using same_edit_trans [OF edit_draw edit_fb_newline] by (simp add: edit_fb_newline edit_fb_tab edit_draw Let_def)
  then have "same_edit t (fb_show_cursor True ?t2)" using edit_fb_cursor by (blast intro: same_edit_trans)
  then show ?thesis using True by (simp add: terminal_putchar_def Let_def)
next
  case False
  let ?t1 = "vga_show_cursor False t"
  have put: "same_edit ?t1 (?t1\<lparr>tvga := v, vga_col := i\<rparr>)" for v i by (simp add: same_edit_def)
  have "same_edit ?t1 (if c = 10 then vga_newline ?t1
                  else if c = 9 then vga_tab ((vga_col ?t1 sdiv 4 + 1) * 4) (rgb_to_vga (cur_fg ?t1)) ?t1
                  else
                    let t' = ?t1\<lparr>tvga := set_vga (vga_row ?t1) (vga_col ?t1) (vga_entry c (rgb_to_vga (cur_fg ?t1)) 0) (tvga ?t1), vga_col := vga_col ?t1 + 1\<rparr> in
                    if VGA_COLS \<le> vga_col t' then vga_newline t' else t')" (is "same_edit _ ?t2")
    using same_edit_trans [OF put edit_vga_newline] put by (simp add: edit_vga_newline edit_vga_tab Let_def)
  then have "same_edit t (vga_show_cursor True ?t2)" using edit_vga_cursor by (blast intro: same_edit_trans)
  then show ?thesis using False by (simp add: terminal_putchar_def Let_def)
qed

lemma edit_puts: "same_edit t (terminal_puts s t)"
  by (induction s arbitrary: t) (auto simp: terminal_puts_def intro: same_edit_trans [OF edit_putchar])

lemma edit_in_fg: "same_edit t (in_fg c s t)"
  unfolding in_fg_def by (rule same_edit_trans [OF _ edit_puts]) simp

lemma edit_prompt: "same_edit t (print_prompt t)"
proof -
  have path: "same_edit t (if b then terminal_puts s t else t)" for b s t by (simp add: edit_puts)
  have last: "same_edit t (t\<lparr>cur_fg := c\<rparr>)" for t c by simp
  show ?thesis unfolding print_prompt_def Let_def
    by (rule same_edit_trans [OF _ last], rule same_edit_trans [OF _ edit_in_fg], rule same_edit_trans [OF _ path],
        (rule same_edit_trans [OF _ edit_in_fg])+, rule edit_show_cursor)
qed

section \<open>The abstract editor\<close>

record editor =
  line :: bytes
  past :: "bytes list"
  recalled :: int

text \<open>
  Remembering a line: the sixteenth one drops the oldest and leaves an empty line before
  itself; from then on the oldest is dropped.
\<close>

definition push_line :: "bytes \<Rightarrow> bytes list \<Rightarrow> bytes list" where
  "push_line l h =
     (if l = [] then h
      else if length h < 15 then h @ [l]
      else if length h = 15 then tl h @ [[], l]
      else tl h @ [l])"

definition editor_key :: "u8 \<Rightarrow> editor \<Rightarrow> editor" where
  "editor_key c e =
     (if c = 17 then
        if past e = [] then e
        else
          let i = (if recalled e = -1 then int (length (past e)) - 1 else if 0 < recalled e then recalled e - 1 else recalled e)
          in e\<lparr>line := past e ! nat i, recalled := i\<rparr>
      else if c = 18 then
        if recalled e = -1 then e
        else if recalled e + 1 < int (length (past e)) then e\<lparr>line := past e ! nat (recalled e + 1), recalled := recalled e + 1\<rparr>
        else e\<lparr>line := [], recalled := -1\<rparr>
      else if c = 10 then \<lparr>line = [], past = push_line (line e) (past e), recalled = -1\<rparr>
      else if c = 8 then e\<lparr>line := butlast (line e)\<rparr>
      else if 32 \<le> c \<and> c < 127 \<and> length (line e) < 255 then e\<lparr>line := line e @ [c]\<rparr>
      else e)"

definition editor_of :: "terminal \<Rightarrow> editor" where
  "editor_of t = \<lparr>line = take (input_len t) (input_buf t), past = map cstr (take (hist_count t) (history t)), recalled = hist_idx t\<rparr>"

definition buffer_ok :: "bytes \<Rightarrow> bool" where
  "buffer_ok b \<longleftrightarrow> length b = 256 \<and> 0 \<in> set b"

definition edit_ok :: "terminal \<Rightarrow> bool" where
  "edit_ok t \<longleftrightarrow> length (input_buf t) = 256 \<and> input_len t < 256 \<and> input_pos t = input_len t \<and>
     0 \<notin> set (take (input_len t) (input_buf t)) \<and> input_buf t ! input_len t = 0 \<and>
     length (history t) = 16 \<and> (\<forall>b \<in> set (history t). buffer_ok b) \<and> hist_count t \<le> 16 \<and>
     (\<forall>i. hist_count t \<le> i \<longrightarrow> i < 16 \<longrightarrow> cstr (history t ! i) = []) \<and> -1 \<le> hist_idx t \<and> hist_idx t < int (hist_count t)"

lemma edit_ok_same: "same_edit t t' \<Longrightarrow> edit_ok t' = edit_ok t"
  by (simp add: same_edit_def edit_ok_def)

lemma editor_of_same: "same_edit t t' \<Longrightarrow> editor_of t' = editor_of t"
  by (simp add: same_edit_def editor_of_def)

section \<open>Strings in buffers\<close>

lemma cstr_split: "0 \<notin> set s \<Longrightarrow> cstr (s @ 0 # r) = s"
  unfolding cstr_def by (subst takeWhile_append2) auto

lemma takeWhile_shorter: "x \<in> set xs \<Longrightarrow> \<not> P x \<Longrightarrow> length (takeWhile P xs) < length xs"
  by (induction xs) auto

lemma cstr_length: "buffer_ok b \<Longrightarrow> length (cstr b) < 256"
  unfolding buffer_ok_def cstr_def using takeWhile_shorter [of 0 b "\<lambda>c. c \<noteq> 0"] by simp

lemma zero_not_in_cstr: "0 \<notin> set (cstr b)"
  by (auto simp: cstr_def dest: set_takeWhileD)

lemma copy_str_eq: "copy_str d b = cstr b @ 0 # drop (length (cstr b) + 1) d"
  by (simp add: copy_str_def copy_into_def)

lemma cstr_copy_str: "cstr (copy_str d b) = cstr b"
  unfolding copy_str_eq by (rule cstr_split) (rule zero_not_in_cstr)

lemma copy_str_ok: "length d = 256 \<Longrightarrow> buffer_ok b \<Longrightarrow> buffer_ok (copy_str d b)"
  using cstr_length [of b] by (simp add: buffer_ok_def copy_str_eq)

lemma cstr_take: "n < length b \<Longrightarrow> b ! n = 0 \<Longrightarrow> 0 \<notin> set (take n b) \<Longrightarrow> cstr b = take n b"
  using cstr_split [of "take n b" "drop (Suc n) b"] id_take_nth_drop [of n b] by simp

lemma loaded:
  assumes "length d = 256" "buffer_ok b"
  shows "length (copy_str d b) = 256" "length (cstr b) < 256" "take (length (cstr b)) (copy_str d b) = cstr b"
    "copy_str d b ! length (cstr b) = 0" "0 \<notin> set (cstr b)"
  using assms cstr_length [OF assms(2)] by (simp_all add: copy_str_eq zero_not_in_cstr)

section \<open>Redrawing\<close>

lemma fb_wrap_some: "0 < w \<Longrightarrow> \<exists>r. fb_wrap w cx cy = Some r"
proof (induction "nat (cx + 8 - w)" arbitrary: cx cy rule: less_induct)
  case less
  show ?case
  proof (cases "w < cx + FB_FONT_W")
    case True
    then have "nat (cx - w + 8 - w) < nat (cx + 8 - w)" using less.prems by (simp add: FB_FONT_W_def)
    from less.hyps [OF this less.prems, of "cy + FB_FONT_H"] show ?thesis using True by (subst fb_wrap.simps) simp
  qed (subst fb_wrap.simps, simp)
qed

definition drawable :: "terminal \<Rightarrow> bool" where
  "drawable t \<longleftrightarrow> (fb_available t \<longrightarrow> 0 < fb_term_w t)"

lemma drawable_same: "same_edit t t' \<Longrightarrow> drawable t' = drawable t"
  by (simp add: same_edit_def drawable_def)

lemma redraw:
  assumes "drawable t"
  shows "\<exists>t'. input_redraw t = Some t' \<and> same_edit t t'"
proof (cases "fb_available t")
  case True
  let ?t = "fb_show_cursor False t"
  have w: "0 < fb_term_w ?t" using assms True edit_fb_cursor [of t False] by (simp add: drawable_def same_edit_def)
  obtain px py m where c: "fb_cells (\<lambda>px py c. fb_draw_char (tdev ?t) px py c Color_Input Color_Black)
      (take (input_len ?t) (input_buf ?t)) ?t = (px, py, m)" by (metis prod_cases3)
  obtain cx cy where r: "fb_wrap (fb_term_w ?t) (fb_prompt_cx ?t + int (input_pos ?t) * FB_FONT_W) (fb_prompt_cy ?t) = Some (cx, cy)"
    using fb_wrap_some [OF w] by fast
  let ?u = "?t\<lparr>tvram := erase_loop (tdev ?t) (fb_term_x ?t + fb_term_w ?t) px py m, fb_cx := cx, fb_cy := cy\<rparr>"
  have "same_edit ?t ?u" by (simp add: same_edit_def)
  then have "same_edit t (fb_show_cursor True ?u)" using edit_fb_cursor by (blast intro: same_edit_trans)
  then show ?thesis using True c r by (simp add: input_redraw_def input_redraw_fb_def Let_def)
next
  case False
  have "same_edit t (input_redraw_vga t)"
  proof -
    have "same_edit t (vga_show_cursor True ((vga_show_cursor False t)\<lparr>tvga := v, vga_row := r, vga_col := c\<rparr>))" for v r c
    proof -
      have "same_edit (vga_show_cursor False t) ((vga_show_cursor False t)\<lparr>tvga := v, vga_row := r, vga_col := c\<rparr>)"
        by (simp add: same_edit_def)
      from same_edit_trans [OF edit_vga_cursor same_edit_trans [OF this edit_vga_cursor]] show ?thesis .
    qed
    then show ?thesis unfolding input_redraw_vga_def Let_def by (simp split: prod.split)
  qed
  then show ?thesis using False by (simp add: input_redraw_def)
qed

lemma clear_line:
  "tdev (input_clear_line t) = tdev t" "fb_term_w (input_clear_line t) = fb_term_w t"
  "input_buf (input_clear_line t) = input_buf t" "history (input_clear_line t) = history t"
  "hist_count (input_clear_line t) = hist_count t" "hist_idx (input_clear_line t) = hist_idx t"
  by (simp_all add: input_clear_line_def Let_def)

section \<open>Keys against the abstract editor\<close>

lemma same_edit_simps:
  assumes "same_edit t t'"
  shows "tdev t' = tdev t" "fb_term_w t' = fb_term_w t" "input_buf t' = input_buf t" "input_len t' = input_len t"
    "input_pos t' = input_pos t" "history t' = history t" "hist_count t' = hist_count t" "hist_idx t' = hist_idx t"
  using assms by (simp_all add: same_edit_def)

lemma edit_okD:
  assumes "edit_ok t"
  shows "length (input_buf t) = 256" "input_len t < 256" "input_pos t = input_len t"
    "cstr (input_buf t) = take (input_len t) (input_buf t)" "length (history t) = 16"
    "i < 16 \<Longrightarrow> buffer_ok (history t ! i)" "hist_count t \<le> 16" "input_buf t ! input_len t = 0"
    "hist_count t \<le> i \<Longrightarrow> i < 16 \<Longrightarrow> cstr (history t ! i) = []" "0 \<notin> set (take (input_len t) (input_buf t))"
  using assms cstr_take [of "input_len t" "input_buf t"] nth_mem [of i "history t"] by (auto simp: edit_ok_def)

text \<open>An operation changes the editor and then redraws.\<close>

lemma redrawn:
  assumes "edit_ok u" "drawable u" "editor_of u = e"
  shows "\<exists>t'. input_redraw u = Some t' \<and> edit_ok t' \<and> drawable t' \<and> editor_of t' = e"
  using redraw [OF assms(2)] edit_ok_same editor_of_same drawable_same assms by metis

lemma char_key:
  assumes ok: "edit_ok t" "drawable t" and c: "32 \<le> c"
  shows "\<exists>t'. key_text c t = Some t' \<and> edit_ok t' \<and> drawable t' \<and>
    editor_of t' = (if length (line (editor_of t)) < 255 then (editor_of t)\<lparr>line := line (editor_of t) @ [c]\<rparr> else editor_of t)"
proof (cases "input_len t < 255")
  case True
  let ?b = "(input_buf t)[input_len t := c, input_len t + 1 := 0]"
  let ?u = "t\<lparr>input_buf := ?b, input_len := input_len t + 1, input_pos := input_len t + 1\<rparr>"
  note d = edit_okD [OF ok(1)]
  have c0: "c \<noteq> 0" using c by auto
  have b: "take (input_len t + 1) ?b = take (input_len t) (input_buf t) @ [c]"
    using True d(1) by (simp add: take_Suc_conv_app_nth)
  have "edit_ok ?u" using ok(1) True b d(1,10) c0 by (simp add: edit_ok_def)
  moreover have "drawable ?u" using ok(2) by (simp add: drawable_def)
  moreover have "editor_of ?u = (editor_of t)\<lparr>line := line (editor_of t) @ [c]\<rparr>" using b by (simp add: editor_of_def)
  moreover have "key_text c t = input_redraw ?u" using True d(3) by (simp add: key_text_def INPUT_MAX_def)
  ultimately show ?thesis using redrawn [of ?u] True d(1) by (simp add: editor_of_def)
next
  case False
  then show ?thesis using ok edit_okD(1) [OF ok(1)] by (simp add: key_text_def INPUT_MAX_def editor_of_def)
qed

lemma backspace_key:
  assumes ok: "edit_ok t" "drawable t"
  shows "\<exists>t'. key_backspace t = Some t' \<and> edit_ok t' \<and> drawable t' \<and>
    editor_of t' = (editor_of t)\<lparr>line := butlast (line (editor_of t))\<rparr>"
proof (cases "input_len t = 0")
  case True
  then show ?thesis using ok edit_okD(3) [OF ok(1)] by (simp add: key_backspace_def editor_of_def)
next
  case False
  let ?n = "input_len t - 1"
  let ?u = "t\<lparr>input_buf := (input_buf t)[?n := 0], input_len := ?n, input_pos := ?n\<rparr>"
  note d = edit_okD [OF ok(1)]
  have n: "?n < length (input_buf t)" "?n < 256" using d(1,2) by simp_all
  have b: "take ?n ((input_buf t)[?n := 0]) = butlast (take (input_len t) (input_buf t))"
    using False d(1,2) by (simp add: butlast_take)
  have z: "0 \<notin> set (butlast (take (input_len t) (input_buf t)))" using d(10) by (meson in_set_butlastD)
  have "edit_ok ?u" using ok(1) n b z d(1) by (simp add: edit_ok_def)
  moreover have "drawable ?u" using ok(2) by (simp add: drawable_def)
  moreover have "editor_of ?u = (editor_of t)\<lparr>line := butlast (line (editor_of t))\<rparr>" using b by (simp add: editor_of_def)
  moreover have "key_backspace t = input_redraw ?u" using False d(3) by (simp add: key_backspace_def)
  ultimately show ?thesis using redrawn [of ?u] by simp
qed

lemma cstr_zeros [simp]: "cstr (replicate n 0) = []"
  by (cases n) (simp_all add: cstr_def)

text \<open>A remembered line is put into the cleared input line.\<close>

lemma recall_key:
  assumes ok: "edit_ok t" "drawable t" and i: "0 \<le> i" "i < int (hist_count t)"
  defines "u \<equiv> input_clear_line (t\<lparr>hist_idx := i\<rparr>)"
  shows "\<exists>t'. input_redraw (load_input (copy_str (input_buf u) (history u ! nat i)) u) = Some t' \<and> edit_ok t' \<and> drawable t' \<and>
    editor_of t' = (editor_of t)\<lparr>line := past (editor_of t) ! nat i, recalled := i\<rparr>"
proof -
  note d = edit_okD [OF ok(1)]
  have ni: "nat i < 16" "nat i < hist_count t" using i d(7) by linarith+
  have u: "input_buf u = input_buf t" "history u = history t" "hist_count u = hist_count t" "hist_idx u = i" "tdev u = tdev t"
    "fb_term_w u = fb_term_w t" by (simp_all add: u_def clear_line)
  let ?h = "history t ! nat i"
  let ?v = "load_input (copy_str (input_buf t) ?h) u"
  note l = loaded [OF d(1) d(6) [OF ni(1)]]
  have c: "cstr (copy_str (input_buf t) ?h) = cstr ?h" by (rule cstr_copy_str)
  have "edit_ok ?v" using ok(1) l i c by (simp add: edit_ok_def load_input_def u)
  moreover have "drawable ?v" using ok(2) by (simp add: drawable_def load_input_def u)
  moreover have "editor_of ?v = (editor_of t)\<lparr>line := past (editor_of t) ! nat i, recalled := i\<rparr>"
    using l(3) ni d(5) by (simp add: editor_of_def load_input_def u c)
  ultimately show ?thesis using redrawn [of ?v] by (simp add: u)
qed

lemma up_key:
  assumes ok: "edit_ok t" "drawable t"
  shows "\<exists>t'. key_up t = Some t' \<and> edit_ok t' \<and> drawable t' \<and> editor_of t' = editor_key 17 (editor_of t)"
proof (cases "hist_count t = 0")
  case True
  then show ?thesis using ok by (simp add: key_up_def editor_key_def editor_of_def)
next
  case False
  define i where "i = (if hist_idx t = -1 then int (hist_count t) - 1 else if 0 < hist_idx t then hist_idx t - 1 else hist_idx t)"
  note d = edit_okD [OF ok(1)]
  have r: "0 \<le> i" "i < int (hist_count t)" using False ok(1) by (auto simp: edit_ok_def i_def)
  let ?u = "input_clear_line (t\<lparr>hist_idx := i\<rparr>)"
  have k: "key_up t = input_redraw (load_input (copy_str (input_buf ?u) (history ?u ! nat i)) ?u)"
    unfolding key_up_def Let_def i_def using False by simp
  have p: "length (past (editor_of t)) = hist_count t" "recalled (editor_of t) = hist_idx t"
    using d(5,7) by (simp_all add: editor_of_def)
  then have "past (editor_of t) \<noteq> []" using False by auto
  then have "editor_key 17 (editor_of t) = (editor_of t)\<lparr>line := past (editor_of t) ! nat i, recalled := i\<rparr>"
    unfolding editor_key_def Let_def i_def using p by simp
  then show ?thesis unfolding k using recall_key [OF ok r] by simp
qed

lemma down_key:
  assumes ok: "edit_ok t" "drawable t"
  shows "\<exists>t'. key_down t = Some t' \<and> edit_ok t' \<and> drawable t' \<and> editor_of t' = editor_key 18 (editor_of t)"
proof (cases "hist_idx t = -1")
  case True
  then show ?thesis using ok by (simp add: key_down_def editor_key_def editor_of_def)
next
  case nz: False
  note d = edit_okD [OF ok(1)]
  have cnt: "hist_count (input_clear_line u) = hist_count u" for u by (rule clear_line)
  let ?u = "input_clear_line (t\<lparr>hist_idx := hist_idx t + 1\<rparr>)"
  have p: "length (past (editor_of t)) = hist_count t" "recalled (editor_of t) = hist_idx t"
    using d(5,7) by (simp_all add: editor_of_def)
  show ?thesis
  proof (cases "hist_idx t + 1 < int (hist_count t)")
    case True
    have "0 \<le> hist_idx t + 1" using ok(1) nz by (simp add: edit_ok_def)
    note R = recall_key [OF ok this True]
    have k: "key_down t = input_redraw (load_input (copy_str (input_buf ?u) (history ?u ! nat (hist_idx t + 1))) ?u)"
      using nz True by (simp add: key_down_def Let_def cnt)
    have "editor_key 18 (editor_of t) = (editor_of t)\<lparr>line := past (editor_of t) ! nat (hist_idx t + 1), recalled := hist_idx t + 1\<rparr>"
      using p nz True by (simp add: editor_key_def)
    then show ?thesis unfolding k using R by simp
  next
    case False
    let ?v = "load_input (replicate INPUT_MAX 0) (?u\<lparr>hist_idx := -1\<rparr>)"
    have "edit_ok ?v" using ok(1) by (simp add: edit_ok_def load_input_def clear_line INPUT_MAX_def)
    moreover have "drawable ?v" using ok(2) by (simp add: drawable_def load_input_def clear_line)
    moreover have "editor_of ?v = (editor_of t)\<lparr>line := [], recalled := -1\<rparr>" by (simp add: editor_of_def load_input_def clear_line)
    moreover have "editor_key 18 (editor_of t) = (editor_of t)\<lparr>line := [], recalled := -1\<rparr>" using p nz False by (simp add: editor_key_def)
    moreover have "key_down t = input_redraw ?v" using nz False by (simp add: key_down_def Let_def cnt)
    ultimately show ?thesis using redrawn [of ?v] by simp
  qed
qed

section \<open>Remembering lines\<close>

lemma shifted:
  assumes "length h = 16" "\<forall>b \<in> set h. buffer_ok b"
  defines "H \<equiv> \<lambda>n. fold (\<lambda>i h. h[i := copy_str (h ! i) (h ! (i + 1))]) [0..<n] h"
  shows "n \<le> 15 \<Longrightarrow> length (H n) = 16 \<and> (\<forall>b \<in> set (H n). buffer_ok b) \<and> (\<forall>i < n. cstr (H n ! i) = cstr (h ! (i + 1))) \<and>
    (\<forall>i \<ge> n. H n ! i = h ! i)"
proof (induction n)
  case 0
  then show ?case using assms by (simp add: H_def)
next
  case (Suc n)
  then have IH: "length (H n) = 16" "\<forall>b \<in> set (H n). buffer_ok b" "\<forall>i < n. cstr (H n ! i) = cstr (h ! (i + 1))" "\<forall>i \<ge> n. H n ! i = h ! i"
    by simp_all
  have step: "H (Suc n) = (H n)[n := copy_str (H n ! n) (H n ! (n + 1))]" by (simp add: H_def)
  have "buffer_ok (H n ! n)" "buffer_ok (H n ! (n + 1))" using IH(1,2) Suc.prems by simp_all
  then have "buffer_ok (copy_str (H n ! n) (H n ! (n + 1)))" by (intro copy_str_ok) (simp_all add: buffer_ok_def)
  then have "\<forall>b \<in> set (H (Suc n)). buffer_ok b" unfolding step using IH(2) by (auto dest!: set_update_subset_insert [THEN subsetD])
  moreover have "cstr (H (Suc n) ! i) = cstr (h ! (i + 1))" if "i < Suc n" for i
    unfolding step using that IH Suc.prems by (cases "i = n") (simp_all add: cstr_copy_str)
  moreover have "H (Suc n) ! i = h ! i" if "i \<ge> Suc n" for i unfolding step using that IH(4) by simp
  ultimately show ?case using IH(1) by (simp add: step)
qed

lemma remember_ok:
  assumes ok: "edit_ok t"
  defines "u \<equiv> remember t"
  shows "length (history u) = 16" "\<forall>b \<in> set (history u). buffer_ok b" "hist_count u \<le> 16"
    "\<forall>i. hist_count u \<le> i \<longrightarrow> i < 16 \<longrightarrow> cstr (history u ! i) = []"
    "map cstr (take (hist_count u) (history u)) = push_line (cstr (input_buf t)) (map cstr (take (hist_count t) (history t)))"
    "input_buf u = input_buf t" "tdev u = tdev t" "fb_term_w u = fb_term_w t"
proof -
  note d = edit_okD [OF ok]
  let ?h = "history t" and ?n = "hist_count t"
  have bh: "\<forall>b \<in> set ?h. buffer_ok b" using ok by (simp add: edit_ok_def)
  have bi: "buffer_ok (input_buf t)" using d(1,2,8) nth_mem [of "input_len t" "input_buf t"] by (auto simp: buffer_ok_def)
  let ?i = "if ?n < 16 then ?n else 15" and ?m = "if ?n < 16 then ?n + 1 else ?n"
  let ?g = "if ?i = 15 then fold (\<lambda>i h. h[i := copy_str (h ! i) (h ! (i + 1))]) [0..<15] ?h else ?h"
  let ?k = "?g[?i := copy_str (?g ! ?i) (input_buf t)]"
  have u: "u = (if 0 < input_len t then t\<lparr>history := ?k, hist_count := ?m\<rparr> else t)"
    by (auto simp: u_def remember_def Let_def HIST_MAX_def)
  show "input_buf u = input_buf t" "tdev u = tdev t" "fb_term_w u = fb_term_w t" by (simp_all add: u)
  have S: "length ?g = 16" "\<forall>b \<in> set ?g. buffer_ok b"
    "\<And>i. i < 16 \<Longrightarrow> cstr (?g ! i) = (if ?i = 15 \<and> i < 15 then cstr (?h ! (i + 1)) else cstr (?h ! i))"
    using shifted [OF d(5) bh, of 15] d(5) bh by (auto simp: not_less)
  have i16: "?i < 16" by simp
  have "buffer_ok (copy_str (?g ! ?i) (input_buf t))"
    by (intro copy_str_ok bi) (use S(1,2) i16 nth_mem [of ?i ?g] in \<open>simp add: buffer_ok_def\<close>)
  then have K: "length ?k = 16" "\<forall>b \<in> set ?k. buffer_ok b"
    using S(1,2) by (auto dest!: set_update_subset_insert [THEN subsetD])
  have Ki: "cstr (?k ! i) = (if i = ?i then cstr (input_buf t) else cstr (?g ! i))" if "i < 16" for i
    using that S(1) by (cases "i = ?i") (simp_all add: cstr_copy_str)
  show "length (history u) = 16" "\<forall>b \<in> set (history u). buffer_ok b" "hist_count u \<le> 16" using K d(5,7) bh by (simp_all add: u)
  show "\<forall>i. hist_count u \<le> i \<longrightarrow> i < 16 \<longrightarrow> cstr (history u ! i) = []"
    using Ki S(3) d(7,9) by (auto simp: u)
  show "map cstr (take (hist_count u) (history u)) = push_line (cstr (input_buf t)) (map cstr (take ?n ?h))"
  proof (cases "0 < input_len t")
    case False
    then show ?thesis using d(4) by (simp add: u push_line_def)
  next
    case True
    then have ne: "cstr (input_buf t) \<noteq> []" using d(1,4) by auto
    have len: "length (map cstr (take ?m ?k)) = ?m" using K(1) d(7) by simp
    have P: "length (map cstr (take ?n ?h)) = ?n" using d(5,7) by simp
    have "map cstr (take ?m ?k) = push_line (cstr (input_buf t)) (map cstr (take ?n ?h))"
    proof (rule nth_equalityI)
      show "length (map cstr (take ?m ?k)) = length (push_line (cstr (input_buf t)) (map cstr (take ?n ?h)))"
        unfolding len using ne P d(7) by (auto simp: push_line_def)
      fix j assume "j < length (map cstr (take ?m ?k))"
      then have j: "j < ?m" "j < 16" using len d(7) by (simp_all split: if_splits)
      then have l: "map cstr (take ?m ?k) ! j = cstr (?k ! j)" using K(1) by simp
      consider "?n < 15" | "?n = 15" | "?n = 16" using d(7) by linarith
      then show "map cstr (take ?m ?k) ! j = push_line (cstr (input_buf t)) (map cstr (take ?n ?h)) ! j"
      proof cases
        case 1
        then show ?thesis unfolding l Ki [OF j(2)] using ne P j(1) d(5) by (auto simp: push_line_def nth_append S(3))
      next
        case 2
        consider "j < 14" | "j = 14" | "j = 15" using j(2) by linarith
        then show ?thesis unfolding l Ki [OF j(2)] S(3) [OF j(2)]
          by cases (use 2 ne P d(5) d(9) [of 15] in \<open>simp_all add: push_line_def nth_append nth_tl\<close>)
      next
        case 3
        then show ?thesis unfolding l Ki [OF j(2)] S(3) [OF j(2)] using ne P j(2) d(5)
          by (auto simp: push_line_def nth_append nth_tl)
      qed
    qed
    then show ?thesis using True by (simp add: u)
  qed
qed

section \<open>Entering a line\<close>

lemma start_input_ok:
  assumes "length (history t) = 16" "\<forall>b \<in> set (history t). buffer_ok b" "hist_count t \<le> 16"
    "\<forall>i. hist_count t \<le> i \<longrightarrow> i < 16 \<longrightarrow> cstr (history t ! i) = []"
  shows "edit_ok (start_input t)"
    "editor_of (start_input t) = \<lparr>line = [], past = map cstr (take (hist_count t) (history t)), recalled = -1\<rparr>"
    "tdev (start_input t) = tdev t" "fb_term_w (start_input t) = fb_term_w t"
proof -
  let ?t = "t\<lparr>input_len := 0, input_pos := 0, hist_idx := -1, input_buf := replicate INPUT_MAX 0\<rparr>"
  have e: "same_edit ?t (start_input t)"
  proof -
    have "same_edit (print_prompt ?t) (fb_show_cursor True ((print_prompt ?t)\<lparr>fb_prompt_cx := a, fb_prompt_cy := b\<rparr>))" for a b
      by (rule same_edit_trans [OF _ edit_fb_cursor]) (simp add: same_edit_def)
    moreover have "same_edit (print_prompt ?t) (vga_show_cursor True ((print_prompt ?t)\<lparr>vga_prompt_row := a, vga_prompt_col := b\<rparr>))" for a b
      by (rule same_edit_trans [OF _ edit_vga_cursor]) (simp add: same_edit_def)
    ultimately show ?thesis unfolding start_input_def Let_def using edit_prompt by (simp add: same_edit_trans [OF edit_prompt])
  qed
  have "edit_ok ?t" using assms by (simp add: edit_ok_def INPUT_MAX_def)
  then show "edit_ok (start_input t)" using edit_ok_same [OF e] by simp
  have "editor_of ?t = \<lparr>line = [], past = map cstr (take (hist_count t) (history t)), recalled = -1\<rparr>"
    by (simp add: editor_of_def)
  then show "editor_of (start_input t) = \<lparr>line = [], past = map cstr (take (hist_count t) (history t)), recalled = -1\<rparr>"
    using editor_of_same [OF e] by simp
  show "tdev (start_input t) = tdev t" "fb_term_w (start_input t) = fb_term_w t" using same_edit_simps(1,2) [OF e] by simp_all
qed

definition prints_only :: "(bytes \<Rightarrow> terminal \<Rightarrow> terminal) option \<Rightarrow> bool" where
  "prints_only cb \<longleftrightarrow> (\<forall>f l t. cb = Some f \<longrightarrow> same_edit t (f l t))"

lemma enter_key:
  assumes ok: "edit_ok t" "drawable t" and cb: "prints_only cb"
  shows "\<exists>u. key_enter cb t = start_input (case cb of None \<Rightarrow> u | Some f \<Rightarrow> f (line (editor_of t)) u) \<and>
    edit_ok (key_enter cb t) \<and> drawable (key_enter cb t) \<and> editor_of (key_enter cb t) = editor_key 10 (editor_of t)"
proof -
  let ?t = "terminal_newline (show_cursor False t)"
  have e: "same_edit t ?t" unfolding terminal_newline_def using edit_show_cursor edit_putchar by (rule same_edit_trans)
  note es = same_edit_simps [OF e]
  note d = edit_okD [OF ok(1)]
  have okt: "edit_ok ?t" using edit_ok_same [OF e] ok(1) by simp
  have same: "?t\<lparr>input_buf := (input_buf ?t)[input_len ?t := 0]\<rparr> = ?t"
  proof -
    have "(input_buf ?t)[input_len ?t := 0] = input_buf ?t" using d(8) es(3,4) list_update_id [of "input_buf t" "input_len t"] by simp
    then show ?thesis by simp
  qed
  let ?u = "remember ?t"
  note R = remember_ok [OF okt]
  let ?v = "case cb of None \<Rightarrow> ?u | Some f \<Rightarrow> f (line (editor_of t)) ?u"
  have l: "cstr (input_buf ?u) = line (editor_of t)" using R(6) es d(4) by (simp add: editor_of_def)
  have run: "key_enter cb t = start_input ?v" unfolding key_enter_def Let_def same l ..
  have v: "same_edit ?u ?v" using cb by (auto simp: prints_only_def split: option.split)
  note vs = same_edit_simps [OF v]
  have s: "edit_ok (start_input ?v)"
    "editor_of (start_input ?v) = \<lparr>line = [], past = map cstr (take (hist_count ?v) (history ?v)), recalled = -1\<rparr>"
    "tdev (start_input ?v) = tdev ?v" "fb_term_w (start_input ?v) = fb_term_w ?v"
    by (intro start_input_ok; use R(1-4) vs in simp)+
  have "drawable (start_input ?v)" using ok(2) s(3,4) vs R(7,8) es by (simp add: drawable_def)
  moreover have "editor_of (start_input ?v) = editor_key 10 (editor_of t)"
    using s(2) R(5) vs es d(4) by (simp add: editor_key_def editor_of_def)
  ultimately show ?thesis using run s(1) by auto
qed


section \<open>Output in text mode\<close>

definition text_ok :: "terminal \<Rightarrow> bool" where
  "text_ok t \<longleftrightarrow> 3 \<le> vga_row t \<and> vga_row t < 24 \<and> 0 \<le> vga_col t \<and> vga_col t < 80"

text \<open>The cells of the header and of what lies below the terminal's rows.\<close>

definition text_margin :: "int \<Rightarrow> bool" where
  "text_margin i \<longleftrightarrow> i < 3 * 80 \<or> 24 * 80 \<le> i"

definition text_step :: "terminal \<Rightarrow> terminal \<Rightarrow> bool" where
  "text_step t t' \<longleftrightarrow> tdev t' = tdev t \<and> text_ok t' \<and> (\<forall>i. text_margin i \<longrightarrow> tvga t' i = tvga t i)"

lemma text_step_trans: "text_step t u \<Longrightarrow> text_step u v \<Longrightarrow> text_step t v"
  by (simp add: text_step_def)

lemma set_vga_margin: "3 \<le> r \<Longrightarrow> r < 24 \<Longrightarrow> 0 \<le> c \<Longrightarrow> c < 80 \<Longrightarrow> text_margin i \<Longrightarrow> set_vga r c v m i = m i"
  by (auto simp: set_vga_def text_margin_def VGA_COLS_def)

lemma fold_keep: "(\<And>x m. x \<in> set xs \<Longrightarrow> f x m a = m a) \<Longrightarrow> fold f xs m a = m a"
  by (induction xs arbitrary: m) simp_all

lemma scroll_margin: "text_margin i \<Longrightarrow> vga_scroll m i = m i"
proof -
  assume i: "text_margin i"
  have row: "fold (\<lambda>c m. set_vga r c (g c m) m) [0..VGA_COLS - 1] m i = m i" if "3 \<le> r" "r < 24" for r g m
    by (rule fold_keep, rule set_vga_margin [OF that _ _ i]) (auto simp: VGA_COLS_def)
  have "fold (\<lambda>r. fold (\<lambda>c m. set_vga r c (m ((r + 1) * VGA_COLS + c)) m) [0..VGA_COLS - 1])
      [VGA_TERM_START..VGA_TERM_END - 1 - 1] m i = m i"
    by (rule fold_keep, rule row) (auto simp: VGA_TERM_START_def VGA_TERM_END_def)
  then show ?thesis unfolding vga_scroll_def by (subst row) (simp_all add: VGA_TERM_END_def)
qed

lemma text_cursor: "text_ok t \<Longrightarrow> text_step t (vga_show_cursor on t)"
  by (auto simp: vga_show_cursor_def text_step_def text_ok_def set_vga_margin)

lemma text_newline:
  "3 \<le> vga_row t \<Longrightarrow> vga_row t < 24 \<Longrightarrow> text_step t (vga_newline t)"
  by (auto simp: vga_newline_def text_step_def text_ok_def VGA_TERM_END_def scroll_margin Let_def)

lemma text_put:
  assumes "text_ok t" "vga_col t + 1 < 80"
  shows "text_step t (t\<lparr>tvga := set_vga (vga_row t) (vga_col t) v (tvga t), vga_col := vga_col t + 1\<rparr>)"
  using assms by (simp add: text_step_def text_ok_def set_vga_margin)

lemma text_tab: "text_ok t \<Longrightarrow> text_step t (vga_tab tab fg t)"
proof (induction tab fg t rule: vga_tab.induct)
  case (1 tab fg t)
  show ?case
  proof (cases "vga_col t < tab \<and> vga_col t < VGA_COLS - 1")
    case True
    have s: "text_step t (t\<lparr>tvga := set_vga (vga_row t) (vga_col t) (vga_entry 32 fg 0) (tvga t), vga_col := vga_col t + 1\<rparr>)"
      using 1(2) True by (intro text_put) (simp_all add: VGA_COLS_def)
    then have "text_step t (vga_tab tab fg (t\<lparr>tvga := set_vga (vga_row t) (vga_col t) (vga_entry 32 fg 0) (tvga t), vga_col := vga_col t + 1\<rparr>))"
      using 1(1) [OF True] by (intro text_step_trans [OF s]) (simp add: text_step_def)
    then show ?thesis using True by (subst vga_tab.simps) simp
  next
    case False
    have "text_step t t" using 1(2) by (simp add: text_step_def)
    then show ?thesis by (subst vga_tab.simps) (simp only: False if_False)
  qed
qed

lemma text_putchar:
  assumes "text_ok t" "\<not> fb_available t"
  shows "text_step t (terminal_putchar c t)"
proof -
  let ?t1 = "vga_show_cursor False t" and ?fg = "rgb_to_vga (cur_fg (vga_show_cursor False t))"
  let ?p = "?t1\<lparr>tvga := set_vga (vga_row ?t1) (vga_col ?t1) (vga_entry c ?fg 0) (tvga ?t1), vga_col := vga_col ?t1 + 1\<rparr>"
  have 1: "text_step t ?t1" by (rule text_cursor [OF assms(1)])
  then have ok1: "text_ok ?t1" by (simp add: text_step_def)
  have put: "text_step ?t1 (if VGA_COLS \<le> vga_col ?p then vga_newline ?p else ?p)"
  proof (cases "vga_col ?t1 + 1 < 80")
    case True
    then show ?thesis using text_put [OF ok1 True] by (simp add: VGA_COLS_def)
  next
    case False
    have "text_step ?p (vga_newline ?p)" using ok1 by (intro text_newline) (simp_all add: text_ok_def)
    moreover have "tvga ?p i = tvga ?t1 i" if "text_margin i" for i using that ok1 by (simp add: set_vga_margin text_ok_def)
    ultimately show ?thesis using False by (simp add: text_step_def VGA_COLS_def)
  qed
  have nl: "text_step ?t1 (vga_newline ?t1)" using ok1 by (intro text_newline) (simp_all add: text_ok_def)
  have 2: "text_step ?t1 (if c = 10 then vga_newline ?t1 else if c = 9 then vga_tab ((vga_col ?t1 sdiv 4 + 1) * 4) ?fg ?t1
      else if VGA_COLS \<le> vga_col ?p then vga_newline ?p else ?p)" (is "text_step _ ?t2")
    using put nl text_tab [OF ok1] by simp
  then have "text_ok ?t2" by (simp add: text_step_def)
  then have "text_step t (vga_show_cursor True ?t2)" using text_step_trans [OF text_step_trans [OF 1 2]] text_cursor by blast
  then show ?thesis unfolding terminal_putchar_def Let_def by (simp only: assms(2) if_False)
qed

section \<open>Output on the frame buffer\<close>

text \<open>The addresses of the pixels above a row, and those of no pixel.\<close>

definition over_row :: "framebuffer \<Rightarrow> int \<Rightarrow> u32 \<Rightarrow> bool" where
  "over_row f y a \<longleftrightarrow> off_screen f a \<or> (\<exists>x' y' k. on_fb f x' y' \<and> y' < y \<and> k < pixel_size f \<and> a = byte_addr f x' y' k)"

lemma put_above: "fb_ok f \<Longrightarrow> on_fb f x y \<Longrightarrow> over_row f y a \<Longrightarrow> put f x y c m a = m a"
  by (auto simp: over_row_def put_off put_byte)

lemma above_mono: "over_row f y a \<Longrightarrow> y \<le> y' \<Longrightarrow> over_row f y' a"
  unfolding over_row_def using order_less_le_trans by blast

lemma fill_above:
  assumes "fb_ok f" "over_row f y a" "0 \<le> x + w" "x + w < 2 ^ 31" "0 \<le> y + h" "y + h < 2 ^ 31"
  shows "fb_fill_rect f x y w h c m a = m a"
  using assms(2) fill_byte [OF assms(1,3-6)] by (auto simp: over_row_def)

lemma scroll_above:
  assumes "fb_ok f" "over_row f y a" "0 \<le> x" "0 \<le> w" "x + w \<le> uint (s_width f)" "0 \<le> y" "0 \<le> h" "y + h \<le> uint (s_height f)" "0 < n"
  shows "fb_scroll_region f x y w h n c m a = m a"
  using assms(2) scroll_byte [OF assms(1,3-9)] by (auto simp: over_row_def)

lemma char_above:
  assumes ok: "fb_ok f" and a: "over_row f y a" and x: "0 \<le> x" "x + 8 < 2 ^ 31" and y: "0 \<le> y" "y + 16 < 2 ^ 31"
  shows "fb_draw_char f x y c fg bg m a = m a"
proof -
  have p: "(if word_of_int px < s_width f \<and> word_of_int py < s_height f then put f px py k m else m) a = m a"
    if "0 \<le> px" "px < 2 ^ 31" "y \<le> py" "py < 2 ^ 31" for px py k m
  proof (cases "word_of_int px < s_width f \<and> word_of_int py < s_height f")
    case True
    have "uint (word_of_int px :: u32) = px" "uint (word_of_int py :: u32) = py"
      unfolding uint_word_of_int using that y by (auto intro!: mod_pos_pos_trivial)
    then have "on_fb f px py" using True that y by (simp add: on_fb_def word_less_def)
    then show ?thesis using put_above [OF ok _ above_mono [OF a that(3)]] True by simp
  next
    case False
    show ?thesis by (simp only: False if_False)
  qed
  show ?thesis
  proof (cases "s_ready f")
    case True
    show ?thesis unfolding fb_draw_char_def Let_def FB_FONT_W_def FB_FONT_H_def
      by (simp only: True not_True_eq_False if_False, rule fold_keep, rule fold_keep, rule p) (use x y in auto)
  qed (simp add: fb_draw_char_def)
qed

definition screen_ok :: "terminal \<Rightarrow> bool" where
  "screen_ok t \<longleftrightarrow> fb_ok (tdev t) \<and> uint (s_width (tdev t)) \<le> 2 ^ 30 \<and> uint (s_height (tdev t)) \<le> 2 ^ 30 \<and>
     fb_term_x t = 0 \<and> fb_term_y t = 28 \<and> fb_term_w t = uint (s_width (tdev t)) \<and> fb_term_h t = uint (s_height (tdev t)) - 28 \<and>
     16 \<le> fb_term_h t \<and> 0 \<le> fb_cx t \<and> 0 \<le> fb_cy t \<and> fb_cy t \<le> fb_term_h t - 16"

definition screen_step :: "terminal \<Rightarrow> terminal \<Rightarrow> bool" where
  "screen_step t t' \<longleftrightarrow> tdev t' = tdev t \<and> screen_ok t' \<and> (fb_cx t \<le> fb_term_w t \<longrightarrow> fb_cx t' \<le> fb_term_w t') \<and>
     (\<forall>a. over_row (tdev t) 28 a \<longrightarrow> tvram t' a = tvram t a)"

lemma screen_step_trans: "screen_step t u \<Longrightarrow> screen_step u v \<Longrightarrow> screen_step t v"
  by (simp add: screen_step_def)

lemma screen_vram:
  assumes "screen_ok t" "\<And>a. over_row (tdev t) 28 a \<Longrightarrow> f (tdev t) (tvram t) a = tvram t a"
  shows "screen_step t (on_vram f t)"
  using assms by (simp add: screen_step_def on_vram_def screen_ok_def)

lemma screen_cursor:
  assumes "screen_ok t" "fb_cx t \<le> fb_term_w t"
  shows "screen_step t (fb_show_cursor on t)"
  unfolding fb_show_cursor_def
  by (rule screen_vram [OF assms(1)], rule fill_above [OF _ above_mono])
     (use assms in \<open>auto simp: screen_ok_def FB_FONT_H_def FB_FONT_W_def\<close>)

lemma screen_newline:
  assumes "screen_ok t" "0 \<le> fb_cx t"
  shows "screen_step t (fb_newline t) \<and> fb_cx (fb_newline t) \<le> fb_term_w (fb_newline t)"
proof -
  let ?t = "t\<lparr>fb_cx := 0, fb_cy := fb_cy t + FB_FONT_H\<rparr>"
  have w: "0 \<le> fb_term_w t" using assms by (simp add: screen_ok_def)
  show ?thesis
  proof (cases "fb_term_h t < fb_cy t + FB_FONT_H + FB_FONT_H")
    case True
    have "fb_scroll_region (tdev t) (fb_term_x t) (fb_term_y t) (fb_term_w t) (fb_term_h t) 1 Color_Black (tvram t) a = tvram t a"
      if "over_row (tdev t) 28 a" for a
      by (rule scroll_above) (use assms that in \<open>auto simp: screen_ok_def\<close>)
    then show ?thesis using True assms w by (simp add: fb_newline_def Let_def screen_step_def on_vram_def screen_ok_def FB_FONT_H_def)
  next
    case False
    then show ?thesis using assms w by (simp add: fb_newline_def Let_def screen_step_def screen_ok_def FB_FONT_H_def)
  qed
qed

lemma screen_draw:
  assumes "screen_ok t" "fb_cx t \<le> fb_term_w t"
  shows "tdev (draw_at_cursor c t) = tdev t" "screen_ok (draw_at_cursor c t)" "fb_cx (draw_at_cursor c t) = fb_cx t + 8"
    "fb_term_w (draw_at_cursor c t) = fb_term_w t" "over_row (tdev t) 28 a \<Longrightarrow> tvram (draw_at_cursor c t) a = tvram t a"
proof -
  show "tvram (draw_at_cursor c t) a = tvram t a" if "over_row (tdev t) 28 a"
    unfolding draw_at_cursor_def on_vram_def
    using char_above [OF _ above_mono [OF that], of "fb_term_y t + fb_cy t" "fb_term_x t + fb_cx t" c "cur_fg t" "cur_bg t" "tvram t"] assms
    by (simp add: screen_ok_def)
qed (use assms in \<open>simp_all add: draw_at_cursor_def on_vram_def screen_ok_def FB_FONT_W_def\<close>)

lemma screen_tab: "screen_ok t \<Longrightarrow> fb_cx t \<le> fb_term_w t \<Longrightarrow> screen_step t (fb_tab tab t)"
proof (induction tab t rule: fb_tab.induct)
  case (1 tab t)
  show ?case
  proof (cases "fb_cx t < tab \<and> fb_cx t + FB_FONT_W \<le> fb_term_w t")
    case True
    note d = screen_draw [OF 1(2,3), where c = 32]
    have w: "fb_cx (draw_at_cursor 32 t) \<le> fb_term_w (draw_at_cursor 32 t)" using True d by (simp add: FB_FONT_W_def)
    have "screen_step t (draw_at_cursor 32 t)" using d w by (simp add: screen_step_def)
    then have "screen_step t (fb_tab tab (draw_at_cursor 32 t))" using 1(1) [OF True d(2) w] by (rule screen_step_trans)
    then show ?thesis using True by (subst fb_tab.simps) simp
  next
    case False
    have "screen_step t t" using 1(2) by (simp add: screen_step_def)
    then show ?thesis by (subst fb_tab.simps) (simp only: False if_False)
  qed
qed

lemma screen_putchar:
  assumes ok: "screen_ok t" "fb_cx t \<le> fb_term_w t"
  shows "screen_step t (terminal_putchar c t)"
proof (cases "fb_term_w t = 0")
  case True
  then show ?thesis using ok by (simp add: terminal_putchar_def screen_step_def screen_ok_def fb_ok_def)
next
  case False
  let ?t1 = "fb_show_cursor False t" and ?d = "draw_at_cursor c (fb_show_cursor False t)"
  have 1: "screen_step t ?t1" by (rule screen_cursor [OF ok])
  have ok1: "screen_ok ?t1" "fb_cx ?t1 \<le> fb_term_w ?t1" using 1 ok by (simp_all add: screen_step_def)
  note d = screen_draw [OF ok1, where c = c]
  have put: "screen_step ?t1 (if fb_term_w ?d < fb_cx ?d + FB_FONT_W then fb_newline ?d else ?d)"
  proof (cases "fb_term_w ?d < fb_cx ?d + FB_FONT_W")
    case True
    have "0 \<le> fb_cx ?d" using d(2) by (simp add: screen_ok_def)
    from screen_newline [OF d(2) this] show ?thesis using True d by (simp add: screen_step_def)
  next
    case False
    then show ?thesis using d by (simp add: screen_step_def FB_FONT_W_def)
  qed
  have nl: "screen_step ?t1 (fb_newline ?t1)" using screen_newline [OF ok1(1)] ok1(1) by (simp add: screen_ok_def)
  have 2: "screen_step ?t1 (if c = 10 then fb_newline ?t1
      else if c = 9 then fb_tab ((fb_cx ?t1 sdiv FB_FONT_W sdiv 4 + 1) * 4 * FB_FONT_W) ?t1
      else if fb_term_w ?d < fb_cx ?d + FB_FONT_W then fb_newline ?d else ?d)" (is "screen_step _ ?t2")
    using put nl screen_tab [OF ok1] by simp
  then have "screen_ok ?t2" "fb_cx ?t2 \<le> fb_term_w ?t2" using ok1(2) unfolding screen_step_def by blast+
  from screen_step_trans [OF screen_step_trans [OF 1 2] screen_cursor [OF this]]
  have "screen_step t (fb_show_cursor True ?t2)" .
  moreover have "fb_available t" using ok(1) by (simp add: screen_ok_def fb_ok_def)
  ultimately show ?thesis unfolding terminal_putchar_def Let_def by (simp only: False if_True if_False)
qed

definition output_ok :: "terminal \<Rightarrow> bool" where
  "output_ok t \<longleftrightarrow> (if fb_available t then screen_ok t \<and> fb_cx t \<le> fb_term_w t else text_ok t)"

lemma puts_confined:
  assumes "output_ok t"
  shows "tdev (terminal_puts s t) = tdev t \<and> output_ok (terminal_puts s t) \<and>
    (if fb_available t then \<forall>a. over_row (tdev t) 28 a \<longrightarrow> tvram (terminal_puts s t) a = tvram t a
     else \<forall>i. text_margin i \<longrightarrow> tvga (terminal_puts s t) i = tvga t i)"
  using assms
proof (induction s arbitrary: t)
  case (Cons c s)
  have run: "terminal_puts (c # s) t = terminal_puts s (terminal_putchar c t)" by (simp add: terminal_puts_def)
  show ?case
  proof (cases "fb_available t")
    case True
    then have "screen_step t (terminal_putchar c t)" using Cons.prems by (intro screen_putchar) (simp_all add: output_ok_def)
    then show ?thesis using Cons.IH [of "terminal_putchar c t"] Cons.prems True unfolding run
      by (simp add: screen_step_def output_ok_def)
  next
    case False
    then have "text_step t (terminal_putchar c t)" using Cons.prems by (intro text_putchar) (simp_all add: output_ok_def)
    then show ?thesis using Cons.IH [of "terminal_putchar c t"] Cons.prems False unfolding run
      by (simp add: text_step_def output_ok_def)
  qed
qed (simp add: terminal_puts_def)

text \<open>The calls that system calls and commands make on the terminal.\<close>

fun perform :: "term_call \<Rightarrow> terminal \<Rightarrow> terminal" where
  "perform (PutChar c) t = terminal_putchar c t"
| "perform (FgColor n) t = terminal_set_color_fg (of_nat n) t"
| "perform ResetColor t = terminal_reset_color t"

lemma output_ok_colour [simp]:
  "output_ok (t\<lparr>cur_fg := c\<rparr>) = output_ok t" "output_ok (t\<lparr>cur_bg := c\<rparr>) = output_ok t"
  by (simp_all add: output_ok_def screen_ok_def text_ok_def)

lemma perform_confined:
  assumes "output_ok t"
  shows "tdev (perform c t) = tdev t \<and> output_ok (perform c t) \<and>
    (if fb_available t then \<forall>a. over_row (tdev t) 28 a \<longrightarrow> tvram (perform c t) a = tvram t a
     else \<forall>i. text_margin i \<longrightarrow> tvga (perform c t) i = tvga t i)"
proof (cases c)
  case (PutChar x)
  have e: "terminal_puts [x] t = terminal_putchar x t" by (simp add: terminal_puts_def)
  show ?thesis using puts_confined [OF assms, of "[x]"] unfolding e PutChar perform.simps .
qed (use assms in \<open>simp_all add: terminal_set_color_fg_def terminal_reset_color_def\<close>)

lemma terminal_init_ok:
  assumes "fb_ok (tdev t)" "uint (s_width (tdev t)) \<le> 2 ^ 30" "44 \<le> uint (s_height (tdev t))" "uint (s_height (tdev t)) \<le> 2 ^ 30"
  shows "output_ok (terminal_init t)"
proof -
  have "sint w = uint w" if "uint w \<le> 2 ^ 30" for w :: u32
  proof -
    have "int (unat w) < int (2 ^ 31)" using that by simp
    then have "unat w < 2 ^ 31" by (simp only: of_nat_less_iff)
    from sint_small32 [OF this] show ?thesis by simp
  qed
  then show ?thesis using assms by (simp add: terminal_init_def output_ok_def screen_ok_def fb_ok_def)
qed

lemma terminal_init_text: "\<not> fb_available t \<Longrightarrow> output_ok (terminal_init t)"
  by (simp add: terminal_init_def terminal_clear_def output_ok_def text_ok_def VGA_TERM_START_def)


section \<open>Properties\<close>

text \<open>C18: The line editor with its 256-byte buffers, loops that shift characters, positions and history slots is an editor of
  a line and a list of remembered lines: every key has a result, keeps the buffers well formed and does to the abstract
  editor what the abstract editor does on that key; the command callback is called on Enter with exactly the line,
  which is then remembered. (Remembering the sixteenth line loses the oldest one and leaves an empty line.)\<close>

theorem terminal_edits_lines:
  assumes "edit_ok t" "drawable t" "prints_only cb"
  shows "\<exists>t'. terminal_on_key cb c t = Some t' \<and> edit_ok t' \<and> drawable t' \<and> editor_of t' = editor_key c (editor_of t) \<and>
    (c = 10 \<longrightarrow> (\<exists>u. t' = start_input (case cb of None \<Rightarrow> u | Some f \<Rightarrow> f (line (editor_of t)) u)))"
proof -
  consider "c = 17" | "c = 18" | "c = 10" | "c = 8" | "32 \<le> c" "c < 127" | "c \<noteq> 17" "c \<noteq> 18" "c \<noteq> 10" "c \<noteq> 8" "\<not> (32 \<le> c \<and> c < 127)"
    by blast
  then show ?thesis
  proof cases
    case 1
    then show ?thesis using up_key [OF assms(1,2)] by (simp add: terminal_on_key_def)
  next
    case 2
    then show ?thesis using down_key [OF assms(1,2)] by (simp add: terminal_on_key_def)
  next
    case 3
    then show ?thesis using enter_key [OF assms] by (auto simp: terminal_on_key_def)
  next
    case 4
    then show ?thesis using backspace_key [OF assms(1,2)] by (simp add: terminal_on_key_def editor_key_def)
  next
    case 5
    then have "c \<noteq> 17" "c \<noteq> 18" "c \<noteq> 10" "c \<noteq> 8" by auto
    then show ?thesis using char_key [OF assms(1,2) 5(1)] 5 by (simp add: terminal_on_key_def editor_key_def)
  next
    case 6
    then show ?thesis using assms by (auto simp: terminal_on_key_def editor_key_def)
  qed
qed

definition demo_term :: terminal where
  "demo_term = \<lparr>tdev = \<lparr>s_fb = 0, s_pitch = 0, s_width = 0, s_height = 0, s_bpp = 0, s_ready = False\<rparr>,
     tvram = (\<lambda>_. 0), tvga = (\<lambda>_. 0), cur_fg = 0, cur_bg = 0, vga_row = 3, vga_col = 0, fb_term_x = 0, fb_term_y = 0,
     fb_term_w = 0, fb_term_h = 0, fb_cx = 0, fb_cy = 0, input_buf = replicate 256 0, input_len = 0, input_pos = 0,
     history = replicate 16 (replicate 256 0), hist_count = 0, hist_idx = -1, vga_prompt_row = 3, vga_prompt_col = 0,
     fb_prompt_cx = 0, fb_prompt_cy = 0, prompt_path = replicate 256 0\<rparr>"

lemma demo_term_ok: "edit_ok demo_term" "drawable demo_term" "prints_only None"
  by (simp_all add: demo_term_def edit_ok_def drawable_def prints_only_def buffer_ok_def)

theorem terminal_edits_lines_witness:
  "\<exists>t'. terminal_on_key None 65 demo_term = Some t' \<and> edit_ok t' \<and> line (editor_of t') = [65]"
  using terminal_edits_lines [OF demo_term_ok, of 65] by (auto simp: editor_key_def editor_of_def demo_term_def)

text \<open>Whatever is printed, in either mode, with wrapping, tabs, line breaks and scrolling, the terminal keeps its cursor in
  its area and never touches the header: on the frame buffer no byte of the pixels above row 28 and no memory
  outside the pixels changes; on the text screen no cell outside rows 3 to 23 does.\<close>

theorem terminal_output_confined:
  assumes "output_ok t"
  shows "output_ok (fold perform cs t) \<and>
    (if fb_available t then \<forall>a. over_row (tdev t) 28 a \<longrightarrow> tvram (fold perform cs t) a = tvram t a
     else \<forall>i. text_margin i \<longrightarrow> tvga (fold perform cs t) i = tvga t i)"
proof -
  have "tdev (fold perform cs t) = tdev t \<and> output_ok (fold perform cs t) \<and>
    (if fb_available t then \<forall>a. over_row (tdev t) 28 a \<longrightarrow> tvram (fold perform cs t) a = tvram t a
     else \<forall>i. text_margin i \<longrightarrow> tvga (fold perform cs t) i = tvga t i)"
    using assms
  proof (induction cs arbitrary: t)
    case (Cons c cs)
    then show ?case using perform_confined [OF Cons.prems, of c] Cons.IH [of "perform c t"] by (simp split: if_splits)
  qed simp
  then show ?thesis by blast
qed

theorem terminal_output_confined_witness:
  "tvga (fold perform [FgColor 10, PutChar 72, PutChar 10, PutChar 9] demo_term) 239 = 0"
  using terminal_output_confined [of demo_term "[FgColor 10, PutChar 72, PutChar 10, PutChar 9]"]
  by (simp add: output_ok_def text_ok_def text_margin_def demo_term_def)

end
