(* ===== verification/Descriptors.thy ===== *)
theory Descriptors
  imports Ports
begin

unbundle bit_operations_syntax

text \<open>
  The processor's tables: segment descriptors (\<^verbatim>\<open>kernel/gdt.cpp\<close>, \<^verbatim>\<open>kernel/gdt.h\<close>), the task
  state segment (\<^verbatim>\<open>kernel/tss.cpp\<close>) and interrupt gates with the interrupt controllers' set-up
  (\<^verbatim>\<open>kernel/idt.cpp\<close>). The addresses of the tables and of the assembly stubs are parameters;
  loading the tables into the processor is assembly. How the processor reads a descriptor is the
  reference the tables are checked against.
\<close>

section \<open>Segment descriptors\<close>

record gdt_entry =
  limit_low :: u16
  base_low :: u16
  base_middle :: u8
  access :: u8
  granularity :: u8
  base_high :: u8

record table_pointer =
  tp_limit :: u16
  tp_base :: u32

definition GDT_ACCESS_PRESENT :: u8 where "GDT_ACCESS_PRESENT = 0x80"
definition GDT_ACCESS_RING0 :: u8 where "GDT_ACCESS_RING0 = 0x00"
definition GDT_ACCESS_RING3 :: u8 where "GDT_ACCESS_RING3 = 0x60"
definition GDT_ACCESS_DESCRIPTOR :: u8 where "GDT_ACCESS_DESCRIPTOR = 0x10"
definition GDT_ACCESS_EXECUTABLE :: u8 where "GDT_ACCESS_EXECUTABLE = 0x08"
definition GDT_ACCESS_RW :: u8 where "GDT_ACCESS_RW = 0x02"
definition GDT_GRAN_4K :: u8 where "GDT_GRAN_4K = 0x80"
definition GDT_GRAN_32BIT :: u8 where "GDT_GRAN_32BIT = 0x40"
definition GDT_GRAN_LIMIT_HIGH :: u8 where "GDT_GRAN_LIMIT_HIGH = 0x0F"
definition SEL_USER_CODE :: u16 where "SEL_USER_CODE = 0x23"
definition SEL_USER_DATA :: u16 where "SEL_USER_DATA = 0x2B"
definition GDT_KERNEL_CODE :: u16 where "GDT_KERNEL_CODE = 0x08"
definition GDT_KERNEL_DATA :: u16 where "GDT_KERNEL_DATA = 0x10"
definition GDT_TSS_SEGMENT :: u16 where "GDT_TSS_SEGMENT = 0x18"

definition gdt_entry_of :: "u32 \<Rightarrow> u32 \<Rightarrow> u8 \<Rightarrow> u8 \<Rightarrow> gdt_entry" where
  "gdt_entry_of base limit acc gran =
     \<lparr>limit_low = ucast (limit AND 0xFFFF), base_low = ucast (base AND 0xFFFF),
      base_middle = ucast (drop_bit 16 base AND 0xFF), access = acc,
      granularity = (ucast (drop_bit 16 limit) AND 0x0F) OR (gran AND 0xF0),
      base_high = ucast (drop_bit 24 base AND 0xFF)\<rparr>"

definition gdt_set_entry :: "nat \<Rightarrow> u32 \<Rightarrow> u32 \<Rightarrow> u8 \<Rightarrow> u8 \<Rightarrow> gdt_entry list \<Rightarrow> gdt_entry list" where
  "gdt_set_entry i base limit acc gran g = g[i := gdt_entry_of base limit acc gran]"

definition gdt_set_tss_entry :: "u32 \<Rightarrow> u32 \<Rightarrow> gdt_entry list \<Rightarrow> gdt_entry list" where
  "gdt_set_tss_entry base limit g = g[3 :=
     \<lparr>limit_low = ucast (limit AND 0xFFFF), base_low = ucast (base AND 0xFFFF),
      base_middle = ucast (drop_bit 16 base AND 0xFF), access = 0x89,
      granularity = ucast (drop_bit 16 limit) AND 0x0F,
      base_high = ucast (drop_bit 24 base AND 0xFF)\<rparr>]"

definition gdt_init :: "u32 \<Rightarrow> gdt_entry list \<Rightarrow> table_pointer \<times> gdt_entry list" where
  "gdt_init gdt_addr g =
     (let code = GDT_ACCESS_DESCRIPTOR OR GDT_ACCESS_EXECUTABLE OR GDT_ACCESS_RW;
          data = GDT_ACCESS_DESCRIPTOR OR GDT_ACCESS_RW;
          flat = GDT_GRAN_4K OR GDT_GRAN_32BIT OR GDT_GRAN_LIMIT_HIGH;
          g = gdt_set_entry 0 0 0 0 0 g;
          g = gdt_set_entry 1 0 0xFFFFF (GDT_ACCESS_PRESENT OR GDT_ACCESS_RING0 OR code) flat g;
          g = gdt_set_entry 2 0 0xFFFFF (GDT_ACCESS_PRESENT OR GDT_ACCESS_RING0 OR data) flat g;
          g = gdt_set_entry 3 0 0 0 0 g;
          g = gdt_set_entry 4 0 0xFFFFF (GDT_ACCESS_PRESENT OR GDT_ACCESS_RING3 OR code) flat g;
          g = gdt_set_entry 5 0 0xFFFFF (GDT_ACCESS_PRESENT OR GDT_ACCESS_RING3 OR data) flat g;
          g = gdt_set_entry 6 0 0 0 0 g
      in (\<lparr>tp_limit = 8 * 7 - 1, tp_base = gdt_addr\<rparr>, g))"

section \<open>The task state segment\<close>

text \<open>The fields the kernel sets; the others are cleared.\<close>

record tss =
  esp0 :: u32
  ss0 :: u32
  iomap_base :: u16
  tss_rest :: bytes

definition sizeof_TSS :: nat where "sizeof_TSS = 104"

definition tss_init :: "u32 \<Rightarrow> tss \<Rightarrow> gdt_entry list \<Rightarrow> tss \<times> gdt_entry list" where
  "tss_init tss_addr t g =
     (\<lparr>esp0 = 0, ss0 = 0x10, iomap_base = of_nat sizeof_TSS, tss_rest = replicate (length (tss_rest t)) 0\<rparr>,
      gdt_set_tss_entry tss_addr (of_nat sizeof_TSS - 1) g)"

definition tss_set_kernel_stack :: "u32 \<Rightarrow> tss \<Rightarrow> tss" where
  "tss_set_kernel_stack esp t = t\<lparr>esp0 := esp\<rparr>"

section \<open>Interrupt gates\<close>

record idt_entry =
  offset_low :: u16
  selector :: u16
  idt_zero :: u8
  type_attr :: u8
  offset_high :: u16

definition IDT_GATE_INTERRUPT :: u8 where "IDT_GATE_INTERRUPT = 0x8E"
definition IDT_GATE_SYSCALL :: u8 where "IDT_GATE_SYSCALL = 0xEE"

definition idt_set_gate :: "nat \<Rightarrow> u32 \<Rightarrow> u16 \<Rightarrow> u8 \<Rightarrow> idt_entry list \<Rightarrow> idt_entry list" where
  "idt_set_gate num base sel flags t = t[num :=
     \<lparr>offset_low = ucast (base AND 0xFFFF), selector = sel, idt_zero = 0, type_attr = flags,
      offset_high = ucast (drop_bit 16 base AND 0xFFFF)\<rparr>]"

definition io_wait :: "'d io \<Rightarrow> ('d, unit) state" where
  "io_wait d = outb d 0x80 0"

definition pic_remap :: "'d io \<Rightarrow> ('d, unit) state" where
  "pic_remap d = do {
     each_io (\<lambda>(p, v). do { outb d p v; io_wait d })
       [(0x20, 0x11), (0xA0, 0x11), (0x21, 0x20), (0xA1, 0x28), (0x21, 0x04), (0xA1, 0x02), (0x21, 0x01), (0xA1, 0x01)];
     outb d 0x21 0;
     outb d 0xA1 0
   }"

text \<open>The stubs: \<open>isr 0\<close> to \<open>isr 31\<close> and \<open>isr 128\<close>, \<open>irq 0\<close> to \<open>irq 15\<close>.\<close>

definition idt_init ::
  "'d io \<Rightarrow> u32 \<Rightarrow> (nat \<Rightarrow> u32) \<Rightarrow> (nat \<Rightarrow> u32) \<Rightarrow> idt_entry list \<Rightarrow> ('d, table_pointer \<times> idt_entry list) state" where
  "idt_init d idt_addr isr irq t = do {
     pic_remap d;
     let t = fold (\<lambda>i. idt_set_gate i 0 0 0) [0..<256] t;
     let t = fold (\<lambda>i. idt_set_gate i (isr i) 0x08 IDT_GATE_INTERRUPT) [0..<32] t;
     let t = fold (\<lambda>i. idt_set_gate (32 + i) (irq i) 0x08 IDT_GATE_INTERRUPT) [0..<16] t;
     let t = idt_set_gate 0x80 (isr 128) 0x08 IDT_GATE_SYSCALL t;
     done_with (\<lparr>tp_limit = 8 * 256 - 1, tp_base = idt_addr\<rparr>, t)
   }"

section \<open>Dispatching interrupts\<close>

text \<open>The calls \<^verbatim>\<open>irq_handler\<close> makes for an interrupt number, in their order.\<close>

datatype irq_call = SyscallDispatch | PitTick | SchedulerTick | NetworkIrq | UsbIrq | EndOfInterrupt u16

definition irq_handler :: "u8 \<Rightarrow> u32 \<Rightarrow> irq_call list" where
  "irq_handler uhci_irq int_no =
     (if int_no = 0x80 then [SyscallDispatch]
      else
        (if int_no = 32 then [PitTick, SchedulerTick] else []) @
        (if int_no = 43 then [NetworkIrq] else []) @
        (if int_no = 32 + ucast uhci_irq then [UsbIrq] else []) @
        (if 40 \<le> int_no \<or> int_no = 34 then [EndOfInterrupt 0xA0] else []) @
        [EndOfInterrupt 0x20])"

section \<open>How the processor reads the tables\<close>

definition seg_base :: "gdt_entry \<Rightarrow> u32" where
  "seg_base e = push_bit 24 (ucast (base_high e)) OR push_bit 16 (ucast (base_middle e)) OR ucast (base_low e)"

definition seg_limit :: "gdt_entry \<Rightarrow> u32" where
  "seg_limit e =
     (let raw = push_bit 16 (ucast (granularity e AND 0x0F)) OR ucast (limit_low e) in
      if granularity e AND 0x80 \<noteq> 0 then push_bit 12 raw OR 0xFFF else raw)"

definition seg_present :: "gdt_entry \<Rightarrow> bool" where
  "seg_present e \<longleftrightarrow> access e AND 0x80 \<noteq> 0"

definition seg_dpl :: "gdt_entry \<Rightarrow> u8" where
  "seg_dpl e = drop_bit 5 (access e) AND 3"

datatype seg_kind = CodeSeg bool | DataSeg bool | SystemSeg u8

definition seg_kind :: "gdt_entry \<Rightarrow> seg_kind" where
  "seg_kind e =
     (if access e AND 0x10 = 0 then SystemSeg (access e AND 0x0F)
      else if access e AND 0x08 \<noteq> 0 then CodeSeg (access e AND 0x02 \<noteq> 0)
      else DataSeg (access e AND 0x02 \<noteq> 0))"

definition select :: "gdt_entry list \<Rightarrow> u16 \<Rightarrow> gdt_entry" where
  "select g sel = g ! unat (drop_bit 3 sel)"

definition gate_target :: "idt_entry \<Rightarrow> u32" where
  "gate_target e = push_bit 16 (ucast (offset_high e)) OR ucast (offset_low e)"

lemma masks: "(0xFF :: u32) = mask 8" "(0xFFFF :: u32) = mask 16"
  by (simp_all add: mask_eq_exp_minus_1)

lemma seg_base_of:
  "push_bit 24 (ucast (ucast (drop_bit 24 b AND 0xFF) :: u8)) OR push_bit 16 (ucast (ucast (drop_bit 16 b AND 0xFF) :: u8))
     OR ucast (ucast (b AND 0xFFFF) :: u16) = (b :: u32)" (is "?l = _")
proof (rule bit_word_eqI)
  fix n assume "n < LENGTH(32)"
  consider "n < 16" | "16 \<le> n" "n < 24" | "24 \<le> n" by linarith
  then show "bit ?l n = bit b n"
    unfolding masks using \<open>n < LENGTH(32)\<close> by cases (auto simp: bit_simps)
qed

lemma gate_target_of:
  "push_bit 16 (ucast (ucast (drop_bit 16 b AND 0xFFFF) :: u16)) OR ucast (ucast (b AND 0xFFFF) :: u16) = (b :: u32)"
  unfolding masks by (rule bit_word_eqI) (auto simp: bit_simps)

lemma gdt_all:
  fixes ta ga :: u32 and t :: tss
  assumes "length g = 7"
  defines "G \<equiv> snd (tss_init ta t (snd (gdt_init ga g)))"
  shows "G ! 1 = gdt_entry_of 0 0xFFFFF 0x9A 0xCF" "G ! 2 = gdt_entry_of 0 0xFFFFF 0x92 0xCF"
    "G ! 4 = gdt_entry_of 0 0xFFFFF 0xFA 0xCF" "G ! 5 = gdt_entry_of 0 0xFFFFF 0xF2 0xCF"
    "G ! 3 = \<lparr>limit_low = 103, base_low = ucast (ta AND 0xFFFF), base_middle = ucast (drop_bit 16 ta AND 0xFF), access = 0x89,
        granularity = 0, base_high = ucast (drop_bit 24 ta AND 0xFF)\<rparr>"
    "length G = 7"
  using assms(1)
  by (simp_all add: G_def tss_init_def gdt_init_def gdt_set_entry_def gdt_set_tss_entry_def Let_def sizeof_TSS_def
      GDT_ACCESS_PRESENT_def GDT_ACCESS_RING0_def GDT_ACCESS_RING3_def GDT_ACCESS_DESCRIPTOR_def GDT_ACCESS_EXECUTABLE_def
      GDT_ACCESS_RW_def GDT_GRAN_4K_def GDT_GRAN_32BIT_def GDT_GRAN_LIMIT_HIGH_def)

lemma flat_entry:
  "seg_base (gdt_entry_of 0 0xFFFFF a 0xCF) = 0" "seg_limit (gdt_entry_of 0 0xFFFFF a 0xCF) = 0xFFFFFFFF"
  "access (gdt_entry_of b l a g) = a"
  by (simp_all add: gdt_entry_of_def seg_base_def seg_limit_def)

definition plain_segment :: "gdt_entry \<Rightarrow> seg_kind \<Rightarrow> u8 \<Rightarrow> bool" where
  "plain_segment e k dpl \<longleftrightarrow> seg_present e \<and> seg_base e = 0 \<and> seg_limit e = 0xFFFFFFFF \<and> seg_kind e = k \<and> seg_dpl e = dpl"

section \<open>Properties\<close>

text \<open>C30: After the tables are set up, every selector the kernel uses names a segment of the right type as the processor
  reads it: the kernel's and the users' code and data segments are present, flat over four gigabytes and of ring 0 and ring
  3, the requested privilege of the user selectors is 3, and the task segment is an available 32-bit one with the
  address and size of the kernel's task state.\<close>

theorem segments_typed:
  assumes "length g = 7"
  shows "let G = snd (tss_init ta t (snd (gdt_init ga g))) in
    plain_segment (select G GDT_KERNEL_CODE) (CodeSeg True) 0 \<and> plain_segment (select G GDT_KERNEL_DATA) (DataSeg True) 0 \<and>
    plain_segment (select G SEL_USER_CODE) (CodeSeg True) 3 \<and> plain_segment (select G SEL_USER_DATA) (DataSeg True) 3 \<and>
    SEL_USER_CODE AND 3 = 3 \<and> SEL_USER_DATA AND 3 = 3 \<and>
    seg_present (select G GDT_TSS_SEGMENT) \<and> seg_kind (select G GDT_TSS_SEGMENT) = SystemSeg 9 \<and>
    seg_base (select G GDT_TSS_SEGMENT) = ta \<and> seg_limit (select G GDT_TSS_SEGMENT) = of_nat sizeof_TSS - 1"
proof -
  let ?G = "snd (tss_init ta t (snd (gdt_init ga g)))"
  note G = gdt_all [OF assms, of ta t ga]
  have s: "select ?G GDT_KERNEL_CODE = ?G ! 1" "select ?G GDT_KERNEL_DATA = ?G ! 2" "select ?G GDT_TSS_SEGMENT = ?G ! 3"
    "select ?G SEL_USER_CODE = ?G ! 4" "select ?G SEL_USER_DATA = ?G ! 5"
    by (simp_all add: select_def GDT_KERNEL_CODE_def GDT_KERNEL_DATA_def GDT_TSS_SEGMENT_def SEL_USER_CODE_def SEL_USER_DATA_def)
  show ?thesis
    unfolding Let_def s G
    by (simp add: plain_segment_def flat_entry seg_present_def seg_kind_def seg_dpl_def SEL_USER_CODE_def SEL_USER_DATA_def sizeof_TSS_def
        seg_limit_def [of "\<lparr>limit_low = _, base_low = _, base_middle = _, access = _, granularity = _, base_high = _\<rparr>"])
      (simp add: seg_base_def seg_base_of)
qed

theorem segments_typed_witness:
  "seg_base (select (snd (tss_init 0x123456 \<lparr>esp0 = 1, ss0 = 2, iomap_base = 3, tss_rest = []\<rparr>
      (snd (gdt_init 0x1000 (replicate 7 \<lparr>limit_low = 9, base_low = 9, base_middle = 9, access = 9, granularity = 9, base_high = 9\<rparr>)))))
     GDT_TSS_SEGMENT) = 0x123456"
  using segments_typed [of "replicate 7 \<lparr>limit_low = 9, base_low = 9, base_middle = 9, access = 9, granularity = 9, base_high = 9\<rparr>"
      "0x123456" "\<lparr>esp0 = 1, ss0 = 2, iomap_base = 3, tss_rest = []\<rparr>" "0x1000"]
  by (simp add: Let_def)

end
