(* ===== verification/Mouse.thy ===== *)
theory Mouse
  imports Ports "HOL-Library.Signed_Division"
begin

unbundle bit_operations_syntax

text \<open>
  The pointer (\<^verbatim>\<open>kernel/mouse.cpp\<close>, \<^verbatim>\<open>kernel/mouse.h\<close>): absolute reports of the tablet scaled to
  the screen, with the edges of the buttons. The callback is run by the caller on the state the report leaves.
\<close>

record tablet =
  tab_x :: u16
  tab_y :: u16
  tab_buttons :: u8
  tab_wheel :: u8

record mouse_state =
  m_x :: int
  m_y :: int
  m_dx :: int
  m_dy :: int
  m_left :: bool
  m_right :: bool
  m_middle :: bool
  left_click :: bool
  right_click :: bool
  middle_click :: bool
  scroll :: u8

record mouse =
  ms :: mouse_state
  screen_w :: int
  screen_h :: int
  prev_l :: bool
  prev_r :: bool
  prev_m :: bool

definition HID_COORD_MAX :: u32 where "HID_COORD_MAX = 0x7FFF"

text \<open>The product wraps at 32 bits before the division.\<close>

definition scale :: "u16 \<Rightarrow> int \<Rightarrow> int" where
  "scale v n = sint (ucast v * word_of_int n div (HID_COORD_MAX + 1) :: u32)"

definition clamp_to :: "int \<Rightarrow> int \<Rightarrow> int" where
  "clamp_to n v = (let v = (if v < 0 then 0 else v) in if n \<le> v then n - 1 else v)"

definition on_tablet :: "tablet \<Rightarrow> mouse \<Rightarrow> mouse" where
  "on_tablet t m =
     (let nx = clamp_to (screen_w m) (scale (tab_x t) (screen_w m));
          ny = clamp_to (screen_h m) (scale (tab_y t) (screen_h m));
          l = tab_buttons t AND 1 \<noteq> 0; r = tab_buttons t AND 2 \<noteq> 0; md = tab_buttons t AND 4 \<noteq> 0
      in m\<lparr>ms := \<lparr>m_x = nx, m_y = ny, m_dx = nx - m_x (ms m), m_dy = ny - m_y (ms m),
            m_left = l, m_right = r, m_middle = md,
            left_click = (l \<and> \<not> prev_l m), right_click = (r \<and> \<not> prev_r m), middle_click = (md \<and> \<not> prev_m m),
            scroll = tab_wheel t\<rparr>,
           prev_l := l, prev_r := r, prev_m := md\<rparr>)"

definition mouse_init :: "int \<Rightarrow> int \<Rightarrow> mouse \<Rightarrow> mouse" where
  "mouse_init sw sh m = m\<lparr>screen_w := sw, screen_h := sh,
     ms := \<lparr>m_x = sw sdiv 2, m_y = sh sdiv 2, m_dx = 0, m_dy = 0, m_left = False, m_right = False, m_middle = False,
       left_click = False, right_click = False, middle_click = False, scroll = 0\<rparr>\<rparr>"

definition mouse_read :: "mouse \<Rightarrow> mouse \<times> mouse_state" where
  "mouse_read m = (m\<lparr>ms := (ms m)\<lparr>left_click := False, right_click := False, middle_click := False,
     scroll := 0, m_dx := 0, m_dy := 0\<rparr>\<rparr>, ms m)"

definition mouse_set_bounds :: "int \<Rightarrow> int \<Rightarrow> mouse \<Rightarrow> mouse" where
  "mouse_set_bounds w h m = m\<lparr>screen_w := w, screen_h := h\<rparr>"

lemma clamp_to_range: "0 < n \<Longrightarrow> 0 \<le> clamp_to n v \<and> clamp_to n v < n"
  by (simp add: clamp_to_def Let_def)

end
