(* ===== verification/Pointer.thy ===== *)
theory Pointer
  imports Mouse WindowsProps
begin

text \<open>
  The mouse drives the cursor (the callback \<^verbatim>\<open>kernel_main\<close> installs in \<^verbatim>\<open>kernel/kernel.cpp\<close>): every
  report of the tablet moves the cursor to the pointer's new position.
\<close>

definition pointer_report :: "tablet \<Rightarrow> mouse \<times> desktop \<times> pixels \<Rightarrow> mouse \<times> desktop \<times> pixels" where
  "pointer_report t = (\<lambda>(m, s, px). let m = on_tablet t m in (m, cursor_draw (m_x (ms m)) (m_y (ms m)) s px))"

definition pointer_reports :: "tablet list \<Rightarrow> mouse \<times> desktop \<times> pixels \<Rightarrow> mouse \<times> desktop \<times> pixels" where
  "pointer_reports = fold pointer_report"

definition pointer_in_screen :: "mouse \<Rightarrow> bool" where
  "pointer_in_screen m \<longleftrightarrow> 0 \<le> m_x (ms m) \<and> m_x (ms m) < screen_w m \<and> 0 \<le> m_y (ms m) \<and> m_y (ms m) < screen_h m"

lemma on_tablet_range:
  assumes "0 < screen_w m" "0 < screen_h m"
  shows "pointer_in_screen (on_tablet t m)" "screen_w (on_tablet t m) = screen_w m" "screen_h (on_tablet t m) = screen_h m"
  using assms clamp_to_range by (simp_all add: pointer_in_screen_def on_tablet_def Let_def)

text \<open>The positions the reports lead to.\<close>

fun positions :: "tablet list \<Rightarrow> mouse \<Rightarrow> (int \<times> int) list" where
  "positions [] m = []"
| "positions (t # ts) m = (m_x (ms (on_tablet t m)), m_y (ms (on_tablet t m))) # positions ts (on_tablet t m)"

lemma positions_nonneg: "0 < screen_w m \<Longrightarrow> 0 < screen_h m \<Longrightarrow> \<forall>(x, y) \<in> set (positions ts m). 0 \<le> x"
proof (induction ts arbitrary: m)
  case (Cons t ts)
  note r = on_tablet_range [OF Cons.prems, of t]
  show ?case using Cons.IH [of "on_tablet t m"] r Cons.prems by (simp add: pointer_in_screen_def)
qed simp

lemma reports_moves:
  "pointer_reports ts (m, s, px) = (fold on_tablet ts m, cursor_moves (positions ts m) (s, px))"
proof (induction ts arbitrary: m s px)
  case (Cons t ts)
  obtain s1 p1 where "cursor_draw (m_x (ms (on_tablet t m))) (m_y (ms (on_tablet t m))) s px = (s1, p1)" by fastforce
  then show ?case using Cons.IH [of "on_tablet t m" s1 p1] by (simp add: pointer_reports_def pointer_report_def Let_def)
qed (simp add: pointer_reports_def)

lemma reports_in_screen:
  "0 < screen_w m \<Longrightarrow> 0 < screen_h m \<Longrightarrow> ts \<noteq> [] \<Longrightarrow> pointer_in_screen (fold on_tablet ts m)"
proof (induction ts arbitrary: m)
  case (Cons t ts)
  note r = on_tablet_range [OF Cons.prems(1,2), of t]
  show ?case using Cons.IH [of "on_tablet t m"] r Cons.prems by (cases "ts = []") simp_all
qed simp

section \<open>Properties\<close>

text \<open>C29: Whatever reports the tablet sends, coordinates outside its declared range included, the pointer is on the screen
  after each of them, and hiding the cursor at the end leaves all memory outside the screen as it was before the
  first.\<close>

theorem pointer_leaves_no_trace:
  assumes "0 < screen_w m" "0 < screen_h m" "ts \<noteq> []" "desk_ok (screen_of s)" "cursor_px s < 0"
    and "pointer_reports ts (m, s, px) = (m1, s1, px1)" "cursor_hide s1 px1 = (s2, px2)"
  shows "pointer_in_screen m1 \<and> cursor_px s2 < 0 \<and> (\<forall>a. \<not> shown (screen_of s) a \<longrightarrow> px2 a = px a)"
proof -
  have m1: "m1 = fold on_tablet ts m" and mv: "cursor_moves (positions ts m) (s, px) = (s1, px1)"
    using assms(6) unfolding reports_moves by simp_all
  obtain s3 p3 where u: "cursor_moves (positions ts m) (s, px) = (s3, p3)" "screen_of s3 = screen_of s"
    "\<forall>a. \<not> shown (screen_of s) a \<longrightarrow> under_cursor s3 p3 a = under_cursor s px a"
    using moves_under [OF assms(4) positions_nonneg [OF assms(1,2)], of ts px] by blast
  have e: "s3 = s1" "p3 = px1" using u(1) mv by simp_all
  have "desk_ok (screen_of s1)" using assms(4) u(2) e by simp
  from hide_under [OF this, of px1] show ?thesis
    using reports_in_screen [OF assms(1-3)] assms(5,7) u(2,3) unfolding e m1 by (auto simp: under_cursor_def)
qed

definition demo_mouse :: mouse where
  "demo_mouse = mouse_init 20 9 \<lparr>ms = \<lparr>m_x = 0, m_y = 0, m_dx = 0, m_dy = 0, m_left = False, m_right = False, m_middle = False,
       left_click = False, right_click = False, middle_click = False, scroll = 0\<rparr>,
     screen_w = 0, screen_h = 0, prev_l = False, prev_r = False, prev_m = False\<rparr>"

theorem pointer_leaves_no_trace_witness:
  "case pointer_reports [\<lparr>tab_x = 0xFFFF, tab_y = 3, tab_buttons = 1, tab_wheel = 0\<rparr>, \<lparr>tab_x = 0x4000, tab_y = 0x7000, tab_buttons = 0, tab_wheel = 0\<rparr>]
      (demo_mouse, demo_desk, \<lambda>c. word_of_int c) of
     (m1, s1, px1) \<Rightarrow> pointer_in_screen m1 \<and> snd (cursor_hide s1 px1) 1044 = 1044"
proof -
  let ?ts = "[\<lparr>tab_x = 0xFFFF, tab_y = 3, tab_buttons = 1, tab_wheel = 0\<rparr>, \<lparr>tab_x = 0x4000, tab_y = 0x7000, tab_buttons = 0, tab_wheel = 0\<rparr>] :: tablet list"
  obtain m1 s1 px1 where 1: "pointer_reports ?ts (demo_mouse, demo_desk, \<lambda>c. word_of_int c) = (m1, s1, px1)" by (metis prod_cases3)
  obtain s2 px2 where 2: "cursor_hide s1 px1 = (s2, px2)" by fastforce
  have "0 < screen_w demo_mouse" "0 < screen_h demo_mouse" "?ts \<noteq> []" "cursor_px demo_desk < 0"
    by (simp_all add: demo_mouse_def mouse_init_def demo_desk_def)
  from pointer_leaves_no_trace [OF this(1-3) demo_desk_ok this(4) 1 2]
  have "pointer_in_screen m1" "\<forall>a. \<not> shown (screen_of demo_desk) a \<longrightarrow> px2 a = word_of_int a" by simp_all
  moreover have "\<not> shown (screen_of demo_desk) 1044"
    by (auto simp: shown_def demo_desk_def surface_from_ptr_def cell_def surface_row_def inside_def)
  ultimately show ?thesis using 1 2 by simp
qed

end
