(* ===== verification/Pci.thy ===== *)
theory Pci
  imports Ports
begin

unbundle bit_operations_syntax

text \<open>
  The PCI bus (\<^verbatim>\<open>kernel/pci.cpp\<close>, \<^verbatim>\<open>kernel/pci.h\<close>): configuration space through the address and
  data ports, and the searches over it. The hypothesis on the devices is the bus' documented
  behaviour: writing the address port selects a register, the data port reads or writes it.
\<close>

record pci_device =
  pci_bus :: u8
  pci_dev :: u8
  pci_func :: u8
  vendor :: u16
  device_id :: u16
  class_code :: u8
  sub_class :: u8
  prog_if :: u8
  pci_found :: bool

definition PCI_ADDR :: u16 where "PCI_ADDR = 0xCF8"
definition PCI_DATA :: u16 where "PCI_DATA = 0xCFC"

definition pci_address :: "u8 \<Rightarrow> u8 \<Rightarrow> u8 \<Rightarrow> u8 \<Rightarrow> u32" where
  "pci_address bus dev func off =
     push_bit 31 1 OR push_bit 16 (ucast bus) OR push_bit 11 (ucast dev) OR push_bit 8 (ucast func) OR (ucast off AND 0xFC)"

definition pci_read32 :: "'d io \<Rightarrow> u8 \<Rightarrow> u8 \<Rightarrow> u8 \<Rightarrow> u8 \<Rightarrow> ('d, u32) state" where
  "pci_read32 d bus dev func off = do { outl d PCI_ADDR (pci_address bus dev func off); inl d PCI_DATA }"

definition pci_write32 :: "'d io \<Rightarrow> u8 \<Rightarrow> u8 \<Rightarrow> u8 \<Rightarrow> u8 \<Rightarrow> u32 \<Rightarrow> ('d, unit) state" where
  "pci_write32 d bus dev func off v = do { outl d PCI_ADDR (pci_address bus dev func off); outl d PCI_DATA v }"

definition half_shift :: "u8 \<Rightarrow> nat" where
  "half_shift off = unat (off AND 2) * 8"

definition pci_write16 :: "'d io \<Rightarrow> u8 \<Rightarrow> u8 \<Rightarrow> u8 \<Rightarrow> u8 \<Rightarrow> u16 \<Rightarrow> ('d, unit) state" where
  "pci_write16 d bus dev func off v = do {
     dword \<leftarrow> pci_read32 d bus dev func (off AND 0xFC);
     let m = push_bit (half_shift off) 0xFFFF;
     pci_write32 d bus dev func (off AND 0xFC) ((dword AND NOT m) OR push_bit (half_shift off) (ucast v))
   }"

definition pci_read16 :: "'d io \<Rightarrow> u8 \<Rightarrow> u8 \<Rightarrow> u8 \<Rightarrow> u8 \<Rightarrow> ('d, u16) state" where
  "pci_read16 d bus dev func off = do {
     dword \<leftarrow> pci_read32 d bus dev func (off AND 0xFC);
     done_with (ucast (drop_bit (half_shift off) dword))
   }"

definition pci_read8 :: "'d io \<Rightarrow> u8 \<Rightarrow> u8 \<Rightarrow> u8 \<Rightarrow> u8 \<Rightarrow> ('d, u8) state" where
  "pci_read8 d bus dev func off = do {
     dword \<leftarrow> pci_read32 d bus dev func (off AND 0xFC);
     done_with (ucast (drop_bit (unat (off AND 3) * 8) dword))
   }"

definition pci_fill :: "'d io \<Rightarrow> u8 \<Rightarrow> u8 \<Rightarrow> u8 \<Rightarrow> ('d, pci_device) state" where
  "pci_fill d bus dev func = do {
     i \<leftarrow> pci_read32 d bus dev func 0x00;
     cls \<leftarrow> pci_read32 d bus dev func 0x08;
     done_with \<lparr>pci_bus = bus, pci_dev = dev, pci_func = func, vendor = ucast (i AND 0xFFFF), device_id = ucast (drop_bit 16 i),
       class_code = ucast (drop_bit 24 cls), sub_class = ucast (drop_bit 16 cls), prog_if = ucast (drop_bit 8 cls), pci_found = True\<rparr>
   }"

definition NOT_FOUND :: pci_device where
  "NOT_FOUND = \<lparr>pci_bus = 0, pci_dev = 0, pci_func = 0, vendor = 0, device_id = 0, class_code = 0, sub_class = 0, prog_if = 0, pci_found = False\<rparr>"

definition or_not_found :: "pci_device option \<Rightarrow> pci_device" where
  "or_not_found r = (case r of None \<Rightarrow> NOT_FOUND | Some p \<Rightarrow> p)"

definition id_probe :: "'d io \<Rightarrow> u16 \<Rightarrow> u16 \<Rightarrow> u8 \<times> u8 \<Rightarrow> ('d, pci_device option) state" where
  "id_probe d ven dev_id = (\<lambda>(bus, dev). do {
     i \<leftarrow> pci_read32 d bus dev 0 0x00;
     if i AND 0xFFFF \<noteq> ucast ven then done_with None
     else if drop_bit 16 i \<noteq> ucast dev_id then done_with None
     else do { p \<leftarrow> pci_fill d bus dev 0; done_with (Some p) }
   })"

definition pci_slots :: "(u8 \<times> u8) list" where
  "pci_slots = concat (map (\<lambda>bus. map (\<lambda>dev. (of_nat bus, of_nat dev)) [0..<32]) [0..<8])"

definition pci_find :: "'d io \<Rightarrow> u16 \<Rightarrow> u16 \<Rightarrow> ('d, pci_device) state" where
  "pci_find d ven dev_id = do { r \<leftarrow> first_io (id_probe d ven dev_id) pci_slots; done_with (or_not_found r) }"

definition class_probe :: "'d io \<Rightarrow> u8 \<Rightarrow> u8 \<Rightarrow> u8 \<Rightarrow> u8 \<times> u8 \<times> u8 \<Rightarrow> ('d, pci_device option) state" where
  "class_probe d cc sc pi = (\<lambda>(bus, dev, func). do {
     i \<leftarrow> pci_read32 d bus dev func 0x00;
     if i AND 0xFFFF = 0xFFFF then done_with None
     else do {
       cls \<leftarrow> pci_read32 d bus dev func 0x08;
       if ucast (drop_bit 24 cls) \<noteq> cc then done_with None
       else if ucast (drop_bit 16 cls) \<noteq> sc then done_with None
       else if pi \<noteq> 0xFF \<and> ucast (drop_bit 8 cls) \<noteq> pi then done_with None
       else do { p \<leftarrow> pci_fill d bus dev func; done_with (Some p) }
     }
   })"

definition pci_functions :: "(u8 \<times> u8 \<times> u8) list" where
  "pci_functions = concat (map (\<lambda>(bus, dev). map (\<lambda>func. (bus, dev, of_nat func)) [0..<8]) pci_slots)"

definition pci_find_class :: "'d io \<Rightarrow> u8 \<Rightarrow> u8 \<Rightarrow> u8 \<Rightarrow> ('d, pci_device) state" where
  "pci_find_class d cc sc pi = do { r \<leftarrow> first_io (class_probe d cc sc pi) pci_functions; done_with (or_not_found r) }"

definition pci_enable :: "'d io \<Rightarrow> pci_device \<Rightarrow> ('d, unit) state" where
  "pci_enable d p = do {
     cmd \<leftarrow> pci_read32 d (pci_bus p) (pci_dev p) (pci_func p) 0x04;
     pci_write32 d (pci_bus p) (pci_dev p) (pci_func p) 0x04 (cmd OR (1 OR push_bit 1 1 OR push_bit 2 1))
   }"

definition pci_bar_addr :: "'d io \<Rightarrow> pci_device \<Rightarrow> u8 \<Rightarrow> ('d, u32) state" where
  "pci_bar_addr d p i = do {
     bar \<leftarrow> pci_read32 d (pci_bus p) (pci_dev p) (pci_func p) (0x10 + i * 4);
     done_with (if bar AND 1 \<noteq> 0 then bar AND NOT 0x3 else bar AND NOT 0xF)
   }"

definition pci_bar_is_io :: "'d io \<Rightarrow> pci_device \<Rightarrow> u8 \<Rightarrow> ('d, bool) state" where
  "pci_bar_is_io d p i = do {
     bar \<leftarrow> pci_read32 d (pci_bus p) (pci_dev p) (pci_func p) (0x10 + i * 4);
     done_with (bar AND 1 \<noteq> 0)
   }"

definition pci_irq_line :: "'d io \<Rightarrow> pci_device \<Rightarrow> ('d, u8) state" where
  "pci_irq_line d p = pci_read8 d (pci_bus p) (pci_dev p) (pci_func p) 0x3C"

section \<open>The configuration space\<close>

text \<open>\<open>cfg s a\<close> is the register selected by the address \<open>a\<close> in the state \<open>s\<close>; \<open>sel\<close> is the address port.\<close>

definition config_space :: "'d io \<Rightarrow> ('d \<Rightarrow> u32 \<Rightarrow> u32) \<Rightarrow> ('d \<Rightarrow> u32) \<Rightarrow> bool" where
  "config_space d cfg sel \<longleftrightarrow>
     (\<forall>a s. sel (snd (run_state (outl d PCI_ADDR a) s)) = a \<and> cfg (snd (run_state (outl d PCI_ADDR a) s)) = cfg s) \<and>
     (\<forall>s. fst (run_state (inl d PCI_DATA) s) = cfg s (sel s) \<and> cfg (snd (run_state (inl d PCI_DATA) s)) = cfg s) \<and>
     (\<forall>v s. cfg (snd (run_state (outl d PCI_DATA v) s)) = (cfg s)(sel s := v))"

lemma config_spaceD:
  assumes "config_space d cfg sel"
  shows "sel (snd (run_state (outl d PCI_ADDR a) s)) = a" "cfg (snd (run_state (outl d PCI_ADDR a) s)) = cfg s"
    "fst (run_state (inl d PCI_DATA) s) = cfg s (sel s)" "cfg (snd (run_state (inl d PCI_DATA) s)) = cfg s"
    "cfg (snd (run_state (outl d PCI_DATA v) s)) = (cfg s)(sel s := v)"
  using assms by (simp_all only: config_space_def)

lemma read32:
  assumes "config_space d cfg sel"
  shows "\<exists>s'. run_state (pci_read32 d bus dev func off) s = (cfg s (pci_address bus dev func off), s') \<and> cfg s' = cfg s"
  by (rule exI [of _ "snd (run_state (inl d PCI_DATA) (snd (run_state (outl d PCI_ADDR (pci_address bus dev func off)) s)))"])
     (simp add: pci_read32_def case_prod_unfold prod_eq_iff config_spaceD [OF assms])

lemma write32:
  assumes "config_space d cfg sel"
  shows "\<exists>s'. run_state (pci_write32 d bus dev func off v) s = ((), s') \<and> cfg s' = (cfg s)(pci_address bus dev func off := v)"
  by (rule exI [of _ "snd (run_state (outl d PCI_DATA v) (snd (run_state (outl d PCI_ADDR (pci_address bus dev func off)) s)))"])
     (simp add: pci_write32_def case_prod_unfold prod_eq_iff config_spaceD [OF assms])

section \<open>Searching the bus\<close>

fun first_some :: "('x \<Rightarrow> 'y option) \<Rightarrow> 'x list \<Rightarrow> 'y option" where
  "first_some r [] = None"
| "first_some r (x # xs) = (case r x of None \<Rightarrow> first_some r xs | Some y \<Rightarrow> Some y)"

lemma first_some_find: "first_some (\<lambda>x. if P x then Some (g x) else None) xs = map_option g (List.find P xs)"
  by (induction xs) simp_all

lemma run_first_io:
  assumes "\<And>x s. view s = C \<Longrightarrow> \<exists>s'. run_state (f x) s = (r x, s') \<and> view s' = C" and "view s = C"
  shows "\<exists>s'. run_state (first_io f xs) s = (first_some r xs, s') \<and> view s' = C"
  using assms(2)
proof (induction xs arbitrary: s)
  case (Cons x xs)
  obtain s1 where 1: "run_state (f x) s = (r x, s1)" "view s1 = C" using assms(1) [OF Cons.prems] by blast
  then show ?case using Cons.IH [OF 1(2)] by (cases "r x") simp_all
qed simp

definition device_at :: "(u32 \<Rightarrow> u32) \<Rightarrow> u8 \<times> u8 \<times> u8 \<Rightarrow> pci_device" where
  "device_at c = (\<lambda>(bus, dev, func).
     let i = c (pci_address bus dev func 0); cls = c (pci_address bus dev func 8) in
     \<lparr>pci_bus = bus, pci_dev = dev, pci_func = func, vendor = ucast (i AND 0xFFFF), device_id = ucast (drop_bit 16 i),
       class_code = ucast (drop_bit 24 cls), sub_class = ucast (drop_bit 16 cls), prog_if = ucast (drop_bit 8 cls), pci_found = True\<rparr>)"

definition in_class :: "(u32 \<Rightarrow> u32) \<Rightarrow> u8 \<Rightarrow> u8 \<Rightarrow> u8 \<Rightarrow> u8 \<times> u8 \<times> u8 \<Rightarrow> bool" where
  "in_class c cc sc pi q \<longleftrightarrow> vendor (device_at c q) \<noteq> 0xFFFF \<and> class_code (device_at c q) = cc \<and>
     sub_class (device_at c q) = sc \<and> (pi = 0xFF \<or> prog_if (device_at c q) = pi)"

lemma fill_device:
  assumes "config_space d cfg sel" "cfg s = C"
  shows "\<exists>s'. run_state (pci_fill d bus dev func) s = (device_at C (bus, dev, func), s') \<and> cfg s' = C"
proof -
  obtain s1 where 1: "run_state (pci_read32 d bus dev func 0) s = (C (pci_address bus dev func 0), s1)" "cfg s1 = C"
    using read32 [OF assms(1), of bus dev func 0 s] assms(2) by auto
  obtain s2 where 2: "run_state (pci_read32 d bus dev func 8) s1 = (C (pci_address bus dev func 8), s2)" "cfg s2 = C"
    using read32 [OF assms(1), of bus dev func 8 s1] 1(2) by auto
  show ?thesis using 1 2 by (simp add: pci_fill_def device_at_def Let_def)
qed

lemma low_half: "(i :: u32) AND 0xFFFF = 0xFFFF \<longleftrightarrow> (ucast (i AND 0xFFFF) :: u16) = 0xFFFF"
proof -
  have m: "(0xFFFF :: u32) = mask 16" by (simp add: mask_eq_exp_minus_1)
  have "ucast (ucast (i AND 0xFFFF) :: u16) = i AND 0xFFFF" 
    unfolding m by (rule bit_word_eqI) (auto simp: bit_simps)
  moreover have "(ucast (0xFFFF :: u32) :: u16) = 0xFFFF" "(ucast (0xFFFF :: u16) :: u32) = 0xFFFF" by simp_all
  ultimately show ?thesis by metis
qed

lemma class_probe_run:
  assumes cs: "config_space d cfg sel" and C: "cfg s = C"
  shows "\<exists>s'. run_state (class_probe d cc sc pi q) s = (if in_class C cc sc pi q then Some (device_at C q) else None, s') \<and> cfg s' = C"
proof -
  obtain bus dev func where q: "q = (bus, dev, func)" by (metis prod_cases3)
  obtain s1 where 1: "run_state (pci_read32 d bus dev func 0) s = (C (pci_address bus dev func 0), s1)" "cfg s1 = C"
    using read32 [OF cs, of bus dev func 0 s] C by auto
  obtain s2 where 2: "run_state (pci_read32 d bus dev func 8) s1 = (C (pci_address bus dev func 8), s2)" "cfg s2 = C"
    using read32 [OF cs, of bus dev func 8 s1] 1(2) by auto
  obtain s3 where 3: "run_state (pci_fill d bus dev func) s2 = (device_at C q, s3)" "cfg s3 = C"
    using fill_device [OF cs 2(2)] unfolding q by blast
  show ?thesis
    using 1 2 3 low_half [of "C (pci_address bus dev func 0)"]
    by (auto simp: class_probe_def q in_class_def device_at_def Let_def split: if_splits)
qed

section \<open>Properties\<close>


text \<open>A bus with its registers and the selected address.\<close>

definition demo_bus :: "((u32 \<Rightarrow> u32) \<times> u32) io" where
  "demo_bus = \<lparr>outb = (\<lambda>_ _. State_Monad.return ()), inb = (\<lambda>_. State_Monad.return 0),
     outw = (\<lambda>_ _. State_Monad.return ()), inw = (\<lambda>_. State_Monad.return 0),
     outl = (\<lambda>p v. State (\<lambda>(c, a). ((), if p = PCI_ADDR then (c, v) else (c(a := v), a)))),
     inl = (\<lambda>p. State (\<lambda>(c, a). (c a, (c, a))))\<rparr>"

lemma demo_bus_config: "config_space demo_bus fst snd"
  by (simp add: config_space_def demo_bus_def PCI_ADDR_def PCI_DATA_def split: prod.split)


end
