(* ===== verification/Uhci.thy ===== *)
theory Uhci
  imports Pci Syscall
begin

unbundle bit_operations_syntax

text \<open>
  The USB host controller's driver (\<^verbatim>\<open>kernel/usb/uhci.cpp\<close>, \<^verbatim>\<open>kernel/usb/uhci.h\<close>): the frame
  list, queue heads and transfer descriptors in memory the controller shares, the interrupt
  pipes chained behind one queue head, and control transfers. Where the pools lie in memory is a
  parameter; what the controller does to the descriptors while the driver waits is a parameter as
  well. Output on the terminal is the list of calls made. A link that leaves the pool of
  descriptors is outside the model (\<open>None\<close>).
\<close>

definition UHCI_TD_COUNT :: nat where "UHCI_TD_COUNT = 32"
definition UHCI_QH_COUNT :: nat where "UHCI_QH_COUNT = 8"
definition FRAME_COUNT :: nat where "FRAME_COUNT = 1024"

definition UHCI_USBCMD :: u16 where "UHCI_USBCMD = 0x00"
definition UHCI_USBSTS :: u16 where "UHCI_USBSTS = 0x02"
definition UHCI_USBINTR :: u16 where "UHCI_USBINTR = 0x04"
definition UHCI_FRNUM :: u16 where "UHCI_FRNUM = 0x06"
definition UHCI_FRBASEADD :: u16 where "UHCI_FRBASEADD = 0x08"
definition UHCI_SOFMOD :: u16 where "UHCI_SOFMOD = 0x0C"
definition UHCI_PORTSC0 :: u16 where "UHCI_PORTSC0 = 0x10"

definition CMD_RS :: u16 where "CMD_RS = 1"
definition CMD_HCRESET :: u16 where "CMD_HCRESET = 2"
definition CMD_MAXP :: u16 where "CMD_MAXP = 0x80"
definition STS_USBINT :: u16 where "STS_USBINT = 1"
definition PORT_CCS :: u16 where "PORT_CCS = 1"
definition PORT_CSC :: u16 where "PORT_CSC = 2"
definition PORT_PED :: u16 where "PORT_PED = 4"
definition PORT_PEDC :: u16 where "PORT_PEDC = 8"
definition PORT_RESET :: u16 where "PORT_RESET = 0x200"

definition TD_LINK_TERM :: u32 where "TD_LINK_TERM = 1"
definition TD_LINK_DEPTH :: u32 where "TD_LINK_DEPTH = 4"
definition TD_CS_ACTIVE :: u32 where "TD_CS_ACTIVE = push_bit 23 1"
definition TD_CS_STALLED :: u32 where "TD_CS_STALLED = push_bit 22 1"
definition TD_CS_DBUF_ERR :: u32 where "TD_CS_DBUF_ERR = push_bit 21 1"
definition TD_CS_BABBLE :: u32 where "TD_CS_BABBLE = push_bit 20 1"
definition TD_CS_IOC :: u32 where "TD_CS_IOC = push_bit 24 1"
definition TD_CS_SPD :: u32 where "TD_CS_SPD = push_bit 29 1"
definition TD_CS_ERRS :: u32 where "TD_CS_ERRS = push_bit 27 3"
definition TD_CS_ACTLEN_MASK :: u32 where "TD_CS_ACTLEN_MASK = 0x7FF"
definition TD_TOKEN_PID_SETUP :: u32 where "TD_TOKEN_PID_SETUP = 0x2D"
definition TD_TOKEN_PID_IN :: u32 where "TD_TOKEN_PID_IN = 0x69"
definition TD_TOKEN_PID_OUT :: u32 where "TD_TOKEN_PID_OUT = 0xE1"
definition QH_LINK_TERM :: u32 where "QH_LINK_TERM = 1"
definition QH_LINK_QH :: u32 where "QH_LINK_QH = 2"

definition TD_TOKEN_TOGGLE :: "u8 \<Rightarrow> u32" where "TD_TOKEN_TOGGLE t = push_bit 19 (ucast t)"
definition TD_TOKEN_MAXLEN :: "int \<Rightarrow> u32" where "TD_TOKEN_MAXLEN n = push_bit 21 (word_of_int (n - 1))"
definition TD_TOKEN_DEVADDR :: "u8 \<Rightarrow> u32" where "TD_TOKEN_DEVADDR a = push_bit 8 (ucast a)"
definition TD_TOKEN_ENDP :: "u8 \<Rightarrow> u32" where "TD_TOKEN_ENDP e = push_bit 15 (ucast e)"

section \<open>State\<close>

record td =
  td_link :: u32
  td_cs :: u32
  td_token :: u32
  td_buf :: u32

record qh =
  head_link :: u32
  elem_link :: u32

record 'c int_pipe =
  p_active :: bool
  dir_in :: bool
  dev_addr :: u8
  endpoint :: u8
  max_packet :: u8
  toggle :: u8
  p_td :: nat
  p_buf :: nat
  p_cb :: "'c option"

record setup_packet =
  bmRequestType :: u8
  bRequest :: u8
  wValue :: u16
  wIndex :: u16
  wLength :: u16

record 'c uhci =
  frame_list :: "u32 list"
  qh_pool :: "qh list"
  td_pool :: "td list"
  buf_pool :: bytes
  setup_buf :: setup_packet
  s_iobase :: u16
  s_irq :: u8
  s_pipes :: "'c int_pipe list"
  s_pipe_count :: nat

text \<open>Where the pools lie.\<close>

record layout =
  at_frames :: u32
  at_qhs :: u32
  at_tds :: u32
  at_bufs :: u32
  at_setup :: u32
  at_status :: u32

definition qh_phys :: "layout \<Rightarrow> nat \<Rightarrow> u32" where "qh_phys l i = at_qhs l + 16 * of_nat i"
definition td_phys :: "layout \<Rightarrow> nat \<Rightarrow> u32" where "td_phys l i = at_tds l + 32 * of_nat i"
definition buf_phys :: "layout \<Rightarrow> nat \<Rightarrow> u32" where "buf_phys l k = at_bufs l + of_nat k"

definition on_td :: "nat \<Rightarrow> (td \<Rightarrow> td) \<Rightarrow> 'c uhci \<Rightarrow> 'c uhci" where
  "on_td i f u = u\<lparr>td_pool := (td_pool u)[i := f (td_pool u ! i)]\<rparr>"

definition on_qh :: "nat \<Rightarrow> (qh \<Rightarrow> qh) \<Rightarrow> 'c uhci \<Rightarrow> 'c uhci" where
  "on_qh i f u = u\<lparr>qh_pool := (qh_pool u)[i := f (qh_pool u ! i)]\<rparr>"

text \<open>The queue heads of the interrupt pipes and of control transfers.\<close>

definition int_qh :: nat where "int_qh = 0"
definition ctrl_qh :: nat where "ctrl_qh = 1"

section \<open>Ports\<close>

definition io_delay :: "'d io \<Rightarrow> ('d, unit) state" where
  "io_delay d = outb d 0x80 0"

definition ms_delay :: "'d io \<Rightarrow> nat \<Rightarrow> ('d, unit) state" where
  "ms_delay d ms = each_io (\<lambda>_. io_delay d) [0..<ms * 1000]"

definition uhci_reset :: "'d io \<Rightarrow> u16 \<Rightarrow> ('d, unit) state" where
  "uhci_reset d base = do {
     outw d (base + UHCI_USBCMD) CMD_HCRESET;
     ms_delay d 50;
     poll_io 100 (do {
       io_delay d;
       c \<leftarrow> inw d (base + UHCI_USBCMD);
       done_with (if c AND CMD_HCRESET = 0 then Some () else None) }) ();
     outw d (base + UHCI_USBCMD) 0;
     outw d (base + UHCI_USBINTR) 0;
     outw d (base + UHCI_USBSTS) 0x3F;
     outb d (base + UHCI_SOFMOD) 0x40
   }"

definition uhci_start :: "'d io \<Rightarrow> layout \<Rightarrow> u16 \<Rightarrow> ('d, unit) state" where
  "uhci_start d l base = do {
     outl d (base + UHCI_FRBASEADD) (at_frames l);
     outw d (base + UHCI_FRNUM) 0;
     outw d (base + UHCI_USBINTR) 0x0F;
     outw d (base + UHCI_USBCMD) (CMD_RS OR CMD_MAXP)
   }"

definition port_reset :: "'d io \<Rightarrow> u16 \<Rightarrow> u16 \<Rightarrow> ('d, unit) state" where
  "port_reset d base reg = do {
     outw d (base + reg) PORT_RESET;
     ms_delay d 50;
     outw d (base + reg) 0;
     ms_delay d 10;
     outw d (base + reg) (PORT_PED OR PORT_CSC OR PORT_PEDC);
     ms_delay d 10
   }"

definition uhci_port_reset :: "'d io \<Rightarrow> u16 \<Rightarrow> u8 \<Rightarrow> ('d, unit) state" where
  "uhci_port_reset d base port = port_reset d base (ucast port * 2 + UHCI_PORTSC0)"

definition uhci_port_connected :: "'d io \<Rightarrow> u16 \<Rightarrow> u8 \<Rightarrow> ('d, bool) state" where
  "uhci_port_connected d base port = do {
     val \<leftarrow> inw d (base + (ucast port * 2 + UHCI_PORTSC0));
     done_with (if val = 0xFFFF then False else val AND PORT_CCS \<noteq> 0)
   }"

section \<open>Set-up\<close>

definition build_frame_list :: "layout \<Rightarrow> 'c uhci \<Rightarrow> 'c uhci" where
  "build_frame_list l u =
     (let u = u\<lparr>frame_list := replicate FRAME_COUNT (qh_phys l int_qh OR QH_LINK_QH)\<rparr>;
          u = on_qh int_qh (\<lambda>q. q\<lparr>head_link := qh_phys l ctrl_qh OR QH_LINK_QH, elem_link := QH_LINK_TERM\<rparr>) u
      in on_qh ctrl_qh (\<lambda>q. q\<lparr>head_link := QH_LINK_TERM, elem_link := QH_LINK_TERM\<rparr>) u)"

definition hex_digit :: "u8 \<Rightarrow> u8" where
  "hex_digit n = (if n < 10 then 48 + n else 65 + n - 10)"

definition hex16 :: "u16 \<Rightarrow> bytes" where
  "hex16 v = map (\<lambda>i. hex_digit (ucast (drop_bit (i * 4) v AND 0xF))) [3, 2, 1, 0]"

definition no_pipe :: "'c int_pipe" where
  "no_pipe = \<lparr>p_active = False, dir_in = False, dev_addr = 0, endpoint = 0, max_packet = 0, toggle = 0, p_td = 0, p_buf = 0, p_cb = None\<rparr>"

definition clear_pools :: "'c uhci \<Rightarrow> 'c uhci" where
  "clear_pools u = u\<lparr>frame_list := replicate FRAME_COUNT 0,
     qh_pool := replicate UHCI_QH_COUNT \<lparr>head_link = QH_LINK_TERM, elem_link = QH_LINK_TERM\<rparr>,
     td_pool := replicate UHCI_TD_COUNT \<lparr>td_link = 0, td_cs = 0, td_token = 0, td_buf = 0\<rparr>,
     s_pipes := replicate UHCI_TD_COUNT no_pipe\<rparr>"

fun reset_ports :: "'d io \<Rightarrow> u16 \<Rightarrow> u16 list \<Rightarrow> ('d, unit) state" where
  "reset_ports d base [] = done_with ()"
| "reset_ports d base (port # ps) = do {
     val \<leftarrow> inw d (base + (port * 2 + UHCI_PORTSC0));
     if val = 0xFFFF then done_with ()
     else do { port_reset d base (port * 2 + UHCI_PORTSC0); reset_ports d base ps }
   }"

definition uhci_init :: "'d io \<Rightarrow> layout \<Rightarrow> 'c uhci \<Rightarrow> ('d, 'c uhci \<times> term_call list \<times> bool) state" where
  "uhci_init d l u = do {
     p \<leftarrow> pci_find_class d 0x0C 0x03 0x00;
     if \<not> pci_found p then done_with (u, msg ''[UHCI] Not found on PCI'' @ newline, False)
     else do {
       pci_enable d p;
       pci_write16 d (pci_bus p) (pci_dev p) (pci_func p) 0xC0 0xAF00;
       bar \<leftarrow> pci_bar_addr d p 4;
       irq \<leftarrow> pci_irq_line d p;
       let base = ucast bar;
       uhci_reset d base;
       uhci_start d l base;
       reset_ports d base [0, 1, 2, 3, 4, 5, 6, 7];
       done_with (build_frame_list l (clear_pools (u\<lparr>s_iobase := base, s_irq := irq\<rparr>)),
         msg ''[UHCI] Found, iobase=0x'' @ put_calls (hex16 base) @ msg '' irq=''
           @ put_calls [48 + irq div 10, 48 + irq mod 10, 10] @ msg ''[UHCI] Running'' @ newline, True)
     }
   }"

section \<open>Control transfers\<close>

definition td_setup :: nat where "td_setup = UHCI_TD_COUNT - 3"
definition td_data :: nat where "td_data = UHCI_TD_COUNT - 2"
definition td_status :: nat where "td_status = UHCI_TD_COUNT - 1"

definition prepare_control :: "layout \<Rightarrow> u8 \<Rightarrow> setup_packet \<Rightarrow> u32 \<Rightarrow> 'c uhci \<Rightarrow> 'c uhci" where
  "prepare_control l addr p data u =
     (let data_in = bmRequestType p AND 0x80 \<noteq> 0;
          u = u\<lparr>setup_buf := p\<rparr>;
          u = on_td td_setup (\<lambda>t. t\<lparr>td_buf := at_setup l,
              td_token := TD_TOKEN_PID_SETUP OR TD_TOKEN_DEVADDR addr OR TD_TOKEN_ENDP 0 OR TD_TOKEN_TOGGLE 0 OR TD_TOKEN_MAXLEN 7,
              td_cs := TD_CS_ACTIVE OR TD_CS_ERRS,
              td_link := (if wLength p \<noteq> 0 then td_phys l td_data else td_phys l td_status) OR TD_LINK_DEPTH\<rparr>) u;
          u = (if wLength p \<noteq> 0 \<and> data \<noteq> 0 then
              on_td td_data (\<lambda>t. t\<lparr>td_buf := data,
                td_token := (if data_in then TD_TOKEN_PID_IN else TD_TOKEN_PID_OUT) OR TD_TOKEN_DEVADDR addr OR TD_TOKEN_ENDP 0
                  OR TD_TOKEN_TOGGLE 1 OR TD_TOKEN_MAXLEN (uint (wLength p) - 1),
                td_cs := TD_CS_ACTIVE OR TD_CS_ERRS, td_link := td_phys l td_status OR TD_LINK_DEPTH\<rparr>) u
            else u);
          u = on_td td_status (\<lambda>t. t\<lparr>td_buf := at_status l,
              td_token := (if data_in then TD_TOKEN_PID_OUT else TD_TOKEN_PID_IN) OR TD_TOKEN_DEVADDR addr OR TD_TOKEN_ENDP 0
                OR TD_TOKEN_TOGGLE 1 OR TD_TOKEN_MAXLEN 0x7FF,
              td_cs := TD_CS_ACTIVE OR TD_CS_IOC OR TD_CS_ERRS, td_link := TD_LINK_TERM\<rparr>) u
      in on_qh ctrl_qh (\<lambda>q. q\<lparr>elem_link := td_phys l td_setup\<rparr>) u)"

text \<open>\<open>hw i\<close> is what the controller does during the \<open>i\<close>-th millisecond of the wait.\<close>

fun wait_td :: "(nat \<Rightarrow> 'c uhci \<Rightarrow> 'c uhci) \<Rightarrow> nat \<Rightarrow> nat \<Rightarrow> nat \<Rightarrow> 'c uhci \<Rightarrow> 'c uhci \<times> bool" where
  "wait_td hw i t 0 u = (u, False)"
| "wait_td hw i t (Suc n) u =
     (if td_cs (td_pool u ! t) AND TD_CS_ACTIVE = 0 then (u, True) else wait_td hw (Suc i) t n (hw i u))"

definition stop_control :: "'c uhci \<Rightarrow> 'c uhci" where
  "stop_control u =
     on_td td_status (td_cs_update (\<lambda>_. 0)) (on_td td_data (td_cs_update (\<lambda>_. 0)) (on_td td_setup (td_cs_update (\<lambda>_. 0)) u))"

definition uhci_control ::
  "(nat \<Rightarrow> 'c uhci \<Rightarrow> 'c uhci) \<Rightarrow> layout \<Rightarrow> u8 \<Rightarrow> setup_packet \<Rightarrow> u32 \<Rightarrow> 'c uhci \<Rightarrow> 'c uhci \<times> term_call list \<times> bool" where
  "uhci_control hw l addr p data u =
     (let (u, ok) = wait_td hw 0 td_status 500 (prepare_control l addr p data u);
          v = on_qh ctrl_qh (\<lambda>q. q\<lparr>elem_link := QH_LINK_TERM\<rparr>) u
      in if \<not> ok then (stop_control v, msg ''[UHCI] control timeout'' @ newline, False)
         else if td_cs (td_pool v ! td_status) AND (TD_CS_STALLED OR TD_CS_DBUF_ERR OR TD_CS_BABBLE) \<noteq> 0 then
           (stop_control v, msg ''[UHCI] control error'' @ newline, False)
         else (v, [], True))"

definition request :: "u8 \<Rightarrow> u8 \<Rightarrow> u16 \<Rightarrow> u16 \<Rightarrow> u16 \<Rightarrow> setup_packet" where
  "request ty r v i n = \<lparr>bmRequestType = ty, bRequest = r, wValue = v, wIndex = i, wLength = n\<rparr>"

definition set_address_request :: "u8 \<Rightarrow> setup_packet" where
  "set_address_request a = request 0x00 5 (ucast a) 0 0"

definition get_descriptor_request :: "u8 \<Rightarrow> u8 \<Rightarrow> u16 \<Rightarrow> setup_packet" where
  "get_descriptor_request ty i n = request 0x80 6 (push_bit 8 (ucast ty) OR ucast i) 0 n"

definition set_configuration_request :: "u8 \<Rightarrow> setup_packet" where
  "set_configuration_request v = request 0x00 9 (ucast v) 0 0"

definition set_boot_protocol_request :: "u8 \<Rightarrow> setup_packet" where
  "set_boot_protocol_request i = request 0x21 0x0B 0 (ucast i) 0"

definition set_idle_request :: "u8 \<Rightarrow> setup_packet" where
  "set_idle_request i = request 0x21 0x0A 0 (ucast i) 0"

section \<open>Interrupt pipes\<close>

definition int_token :: "bool \<Rightarrow> u8 \<Rightarrow> u8 \<Rightarrow> u8 \<Rightarrow> u8 \<Rightarrow> u32" where
  "int_token input addr e tg mx =
     (if input then TD_TOKEN_PID_IN else TD_TOKEN_PID_OUT) OR TD_TOKEN_DEVADDR addr OR TD_TOKEN_ENDP e OR TD_TOKEN_TOGGLE tg
       OR TD_TOKEN_MAXLEN (uint mx - 1)"

definition TD_ARMED :: u32 where
  "TD_ARMED = TD_CS_ACTIVE OR TD_CS_IOC OR TD_CS_SPD OR TD_CS_ERRS"

text \<open>The descriptor behind a link, when it is one of the pool.\<close>

definition td_of :: "layout \<Rightarrow> u32 \<Rightarrow> nat option" where
  "td_of l p = find_idx (\<lambda>i. td_phys l i = p) [0..<UHCI_TD_COUNT]"

partial_function (option) last_td :: "layout \<Rightarrow> 'c uhci \<Rightarrow> u32 \<Rightarrow> nat option" where
  "last_td l u p = Option.bind (td_of l (p AND NOT 0xF)) (\<lambda>i.
     if td_link (td_pool u ! i) AND TD_LINK_TERM \<noteq> 0 then Some i else last_td l u (td_link (td_pool u ! i)))"

definition uhci_register_interrupt ::
  "layout \<Rightarrow> u8 \<Rightarrow> u8 \<Rightarrow> bool \<Rightarrow> u8 \<Rightarrow> 'c option \<Rightarrow> 'c uhci \<Rightarrow> ('c uhci \<times> u8) option" where
  "uhci_register_interrupt l addr e input mx cb u =
     (if UHCI_TD_COUNT - 3 \<le> s_pipe_count u then Some (u, 0)
      else
        let i = s_pipe_count u;
            u = u\<lparr>s_pipe_count := i + 1, s_pipes := (s_pipes u)[i := \<lparr>p_active = True, dir_in = input, dev_addr = addr, endpoint = e,
                 max_packet = mx, toggle = 0, p_td = i, p_buf = i * 64, p_cb = cb\<rparr>]\<rparr>;
            u = on_td i (\<lambda>t. t\<lparr>td_buf := buf_phys l (i * 64), td_token := int_token input addr e 0 mx, td_cs := TD_ARMED,
                 td_link := TD_LINK_TERM\<rparr>) u;
            q = elem_link (qh_pool u ! int_qh)
        in map_option (\<lambda>u. (u, of_nat (i + 1)))
          (if q AND QH_LINK_TERM \<noteq> 0 then Some (on_qh int_qh (\<lambda>q. q\<lparr>elem_link := td_phys l i\<rparr>) u)
           else map_option (\<lambda>j. on_td j (\<lambda>t. t\<lparr>td_link := td_phys l i OR TD_LINK_DEPTH\<rparr>) u) (last_td l u q)))"

text \<open>One pipe at an interrupt; \<open>call\<close> runs a callback on its buffer and the length received.\<close>

definition service_pipe :: "('c \<Rightarrow> bytes \<Rightarrow> u8 \<Rightarrow> 's \<Rightarrow> 's) \<Rightarrow> nat \<Rightarrow> 'c uhci \<times> 's \<Rightarrow> 'c uhci \<times> 's" where
  "service_pipe call i = (\<lambda>(u, s).
     let p = s_pipes u ! i; t = td_pool u ! p_td p in
     if \<not> p_active p then (u, s)
     else if td_cs t AND TD_CS_ACTIVE \<noteq> 0 then (u, s)
     else
       let s = (if td_cs t AND (TD_CS_STALLED OR TD_CS_DBUF_ERR OR TD_CS_BABBLE) = 0 then
             let actual = (td_cs t + 1) AND TD_CS_ACTLEN_MASK in
             (case p_cb p of Some f \<Rightarrow> if 0 < actual then call f (drop (p_buf p) (buf_pool u)) (ucast actual) s else s | None \<Rightarrow> s)
           else s);
           p = p\<lparr>toggle := toggle p XOR 1\<rparr>
       in (on_td (p_td p) (\<lambda>t. t\<lparr>td_token := int_token (dir_in p) (dev_addr p) (endpoint p) (toggle p) (max_packet p), td_cs := TD_ARMED\<rparr>)
             (u\<lparr>s_pipes := (s_pipes u)[i := p]\<rparr>), s))"

definition uhci_irq_handler ::
  "'d io \<Rightarrow> ('c \<Rightarrow> bytes \<Rightarrow> u8 \<Rightarrow> 's \<Rightarrow> 's) \<Rightarrow> 'c uhci \<times> 's \<Rightarrow> ('d, 'c uhci \<times> 's) state" where
  "uhci_irq_handler d call us = do {
     sts \<leftarrow> inw d (s_iobase (fst us) + UHCI_USBSTS);
     if sts = 0 then done_with us
     else do {
       outw d (s_iobase (fst us) + UHCI_USBSTS) sts;
       done_with (if sts AND STS_USBINT \<noteq> 0 then fold (service_pipe call) [0..<s_pipe_count (fst us)] us else us)
     }
   }"

end
