(* ===== verification/UhciProps.thy ===== *)
theory UhciProps
  imports Uhci
begin

unbundle bit_operations_syntax

text \<open>
  The schedule of interrupt pipes: the descriptors the controller reaches from the interrupt
  queue head are exactly those of the registered pipes, in the order of registration, and the
  walk of \<open>uhci_register_interrupt\<close> to the end of the chain terminates.
\<close>

section \<open>Addresses and links\<close>

definition aligned_tds :: "layout \<Rightarrow> bool" where
  "aligned_tds l \<longleftrightarrow> at_tds l AND 0xF = 0"

lemma low_bits_zero: "(w :: u32) AND 0xF = 0 \<longleftrightarrow> take_bit 4 w = 0"
proof -
  have "(0xF :: u32) = mask 4" by (simp add: mask_numeral)
  then show ?thesis by (simp add: take_bit_eq_mask)
qed

lemma take_bit_4_unat: "take_bit 4 (w :: u32) = 0 \<longleftrightarrow> unat w mod 16 = 0"
proof -
  have "take_bit 4 w = 0 \<longleftrightarrow> unat (take_bit 4 w) = 0" by (simp add: unat_eq_0)
  also have "unat (take_bit 4 w) = unat w mod 16" by (simp only: unsigned_take_bit_eq) (simp add: take_bit_eq_mod)
  finally show ?thesis .
qed

lemma td_phys_low: "aligned_tds l \<Longrightarrow> take_bit 4 (td_phys l i) = 0"
proof -
  assume "aligned_tds l"
  then have a: "unat (at_tds l) mod 16 = 0" by (simp add: aligned_tds_def low_bits_zero take_bit_4_unat)
  have u: "unat (x + y) mod 16 = (unat x mod 16 + unat y) mod 16" for x y :: u32
  proof -
    have "unat (x + y) mod 16 = (unat x + unat y) mod 4294967296 mod 16" by (simp add: unat_word_ariths)
    also have "\<dots> = (unat x + unat y) mod 16" by (rule mod_mod_cancel) simp
    finally show ?thesis by (simp add: mod_simps)
  qed
  have m: "(0 + k) mod 16 = (0 :: nat)" if "k = 32 * i mod 4294967296" for k
  proof -
    have "32 * i mod 4294967296 mod 16 = 32 * i mod (16 :: nat)" by (rule mod_mod_cancel) simp
    then show ?thesis unfolding that by simp
  qed
  have "unat (32 * of_nat i :: u32) = unat (of_nat (32 * i) :: u32)" by simp
  also have "\<dots> = 32 * i mod 4294967296"
    by (simp only: unsigned_of_nat take_bit_eq_mod) simp
  finally have "unat (32 * of_nat i :: u32) = 32 * i mod 4294967296" .
  from m [OF this] show ?thesis by (simp only: take_bit_4_unat td_phys_def u a)
qed

lemma and_1_zero: "(w :: u32) AND 1 = 0 \<longleftrightarrow> \<not> bit w 0"
  by (simp add: and_one_eq bit_0 even_iff_mod_2_eq_zero)

lemma td_phys_bit: "aligned_tds l \<Longrightarrow> n < 4 \<Longrightarrow> \<not> bit (td_phys l i) n"
  using td_phys_low [of l i] by (metis bit_0_eq bit_take_bit_iff bot_apply bot_bool_def)

lemma td_phys_term: "aligned_tds l \<Longrightarrow> td_phys l i AND 1 = 0"
  using td_phys_bit [of l 0 i] by (simp only: and_1_zero) simp

lemma depth_bits: "TD_LINK_DEPTH = push_bit 2 1"
  by (simp add: TD_LINK_DEPTH_def)

lemma td_link_term: "aligned_tds l \<Longrightarrow> (td_phys l i OR TD_LINK_DEPTH) AND 1 = 0"
  using td_phys_bit [of l 0 i] by (simp only: and_1_zero bit_or_iff depth_bits bit_push_bit_iff) simp

lemma strip_bits: "bit ((w :: u32) AND NOT 0xF) n \<longleftrightarrow> bit w n \<and> 4 \<le> n"
proof -
  have m: "(0xF :: u32) = mask 4" by (simp add: mask_numeral)
  show ?thesis unfolding m by (auto simp: bit_and_iff bit_not_iff bit_mask_iff dest: bit_imp_le_length)
qed

lemma td_phys_strip: "aligned_tds l \<Longrightarrow> td_phys l i AND NOT 0xF = td_phys l i"
  using td_phys_bit by (intro bit_word_eqI) (simp only: strip_bits, metis not_le)

lemma td_link_strip: "aligned_tds l \<Longrightarrow> (td_phys l i OR TD_LINK_DEPTH) AND NOT 0xF = td_phys l i"
proof (rule bit_word_eqI)
  fix n assume a: "aligned_tds l"
  have "\<not> bit TD_LINK_DEPTH n" if "4 \<le> n" using that by (simp only: depth_bits bit_push_bit_iff bit_1_iff) simp
  then show "bit ((td_phys l i OR TD_LINK_DEPTH) AND NOT 0xF) n = bit (td_phys l i) n"
    using td_phys_bit [OF a, of n i] by (simp only: strip_bits bit_or_iff) (metis not_le)
qed

lemma td_phys_inj:
  assumes "i < UHCI_TD_COUNT" "j < UHCI_TD_COUNT" "td_phys l i = td_phys l j"
  shows "i = j"
proof -
  have "unat (32 * of_nat i :: u32) = 32 * i" if "i < 32" for i
    using that by (simp add: unat_word_ariths unat_of_nat)
  moreover have "(32 * of_nat i :: u32) = 32 * of_nat j" using assms(3) by (simp add: td_phys_def)
  ultimately show ?thesis using assms by (metis UHCI_TD_COUNT_def mult_left_cancel zero_neq_numeral)
qed

lemma td_of_phys: "i < UHCI_TD_COUNT \<Longrightarrow> td_of l (td_phys l i) = Some i"
  unfolding td_of_def find_idx_Some_iff using td_phys_inj [of _ i l] by (auto dest: less_trans)

section \<open>The chain\<close>

text \<open>What the controller reaches from a link, following at most \<open>k\<close> of them.\<close>

fun td_chain :: "nat \<Rightarrow> layout \<Rightarrow> 'c uhci \<Rightarrow> u32 \<Rightarrow> nat list option" where
  "td_chain k l u p = (if p AND TD_LINK_TERM \<noteq> 0 then Some [] else
     (case k of 0 \<Rightarrow> None
      | Suc k \<Rightarrow> Option.bind (td_of l (p AND NOT 0xF)) (\<lambda>i. map_option ((#) i) (td_chain k l u (td_link (td_pool u ! i))))))"

declare td_chain.simps [simp del]

text \<open>The invariant of the schedule: pipe \<open>i\<close> owns descriptor \<open>i\<close> and buffer \<open>i\<close>, and the links
  chain the descriptors in order.\<close>

definition link_at :: "layout \<Rightarrow> nat \<Rightarrow> nat \<Rightarrow> u32" where
  "link_at l n i = (if Suc i < n then td_phys l (Suc i) OR TD_LINK_DEPTH else TD_LINK_TERM)"

definition owns :: "'c int_pipe \<Rightarrow> nat \<Rightarrow> bool" where
  "owns p i \<longleftrightarrow> p_active p \<and> p_td p = i \<and> p_buf p = i * 64"

definition sched_ok :: "layout \<Rightarrow> 'c uhci \<Rightarrow> bool" where
  "sched_ok l u \<longleftrightarrow>
     s_pipe_count u \<le> UHCI_TD_COUNT - 3 \<and> length (td_pool u) = UHCI_TD_COUNT \<and> length (s_pipes u) = UHCI_TD_COUNT
     \<and> length (qh_pool u) = UHCI_QH_COUNT
     \<and> elem_link (qh_pool u ! int_qh) = (if s_pipe_count u = 0 then QH_LINK_TERM else td_phys l 0)
     \<and> (\<forall>i < s_pipe_count u. owns (s_pipes u ! i) i \<and> td_link (td_pool u ! i) = link_at l (s_pipe_count u) i)"

lemma sched_link:
  "sched_ok l u \<Longrightarrow> i < s_pipe_count u \<Longrightarrow> td_link (td_pool u ! i) = link_at l (s_pipe_count u) i"
  by (simp add: sched_ok_def)

lemma chain_from:
  assumes "aligned_tds l" "sched_ok l u" "i < s_pipe_count u" "s_pipe_count u - i \<le> k"
      "p = td_phys l i \<or> p = td_phys l i OR TD_LINK_DEPTH"
  shows "td_chain k l u p = Some [i..<s_pipe_count u]"
  using assms
proof (induction k arbitrary: i p)
  case 0
  then show ?case by simp
next
  case (Suc k)
  have b: "i < UHCI_TD_COUNT" using Suc.prems by (simp add: sched_ok_def UHCI_TD_COUNT_def)
  have p: "p AND TD_LINK_TERM = 0" "p AND NOT 0xF = td_phys l i"
    using Suc.prems td_phys_term td_link_term td_phys_strip td_link_strip by (auto simp: TD_LINK_TERM_def)
  have s: "td_chain (Suc k) l u p = map_option ((#) i) (td_chain k l u (link_at l (s_pipe_count u) i))"
    using p b Suc.prems by (subst td_chain.simps) (simp add: td_of_phys sched_link)
  show ?case
  proof (cases "Suc i < s_pipe_count u")
    case True
    then have "td_chain k l u (link_at l (s_pipe_count u) i) = Some [Suc i..<s_pipe_count u]"
      using Suc.prems by (intro Suc.IH) (auto simp: link_at_def)
    with s Suc.prems show ?thesis by (simp add: upt_conv_Cons)
  next
    case False
    with Suc.prems have "s_pipe_count u = Suc i" by simp
    with s show ?thesis by (simp add: link_at_def td_chain.simps TD_LINK_TERM_def)
  qed
qed

lemma chain_all:
  assumes "aligned_tds l" "sched_ok l u" "s_pipe_count u \<le> k"
  shows "td_chain k l u (elem_link (qh_pool u ! int_qh)) = Some [0..<s_pipe_count u]"
proof (cases "s_pipe_count u = 0")
  case True
  with assms show ?thesis by (simp add: sched_ok_def td_chain.simps TD_LINK_TERM_def QH_LINK_TERM_def)
next
  case False
  with assms show ?thesis by (intro chain_from) (auto simp: sched_ok_def)
qed

lemma last_td_found:
  assumes "aligned_tds l" "n \<le> UHCI_TD_COUNT" "\<forall>j < n. td_link (td_pool u ! j) = link_at l n j" "i < n"
      "p = td_phys l i \<or> p = td_phys l i OR TD_LINK_DEPTH"
  shows "last_td l u p = Some (n - 1)"
  using assms
proof (induction "n - i" arbitrary: i p)
  case 0
  then show ?case by simp
next
  case (Suc k)
  have b: "i < UHCI_TD_COUNT" "td_link (td_pool u ! i) = link_at l n i" using Suc.prems by simp_all
  have p: "p AND NOT 0xF = td_phys l i"
    using Suc.prems td_phys_strip td_link_strip by auto
  show ?case
  proof (cases "Suc i < n")
    case True
    have "last_td l u p = last_td l u (td_phys l (Suc i) OR TD_LINK_DEPTH)"
      using p b True Suc.prems(1) td_link_term
      by (subst last_td.simps) (simp add: td_of_phys link_at_def TD_LINK_TERM_def)
    also have "\<dots> = Some (n - 1)" using Suc True by (intro Suc.hyps(1) [of "Suc i"]) auto
    finally show ?thesis .
  next
    case False
    with Suc.prems have "n = Suc i" by simp
    with p b show ?thesis
      by (subst last_td.simps) (simp add: td_of_phys link_at_def TD_LINK_TERM_def)
  qed
qed

section \<open>The operations keep the schedule\<close>

lemma on_td_simps [simp]:
  "s_pipe_count (on_td i f u) = s_pipe_count u"
  "s_pipes (on_td i f u) = s_pipes u"
  "qh_pool (on_td i f u) = qh_pool u"
  "td_pool (on_td i f u) = (td_pool u)[i := f (td_pool u ! i)]"
  by (simp_all add: on_td_def)

lemma on_qh_simps [simp]:
  "s_pipe_count (on_qh i g u) = s_pipe_count u"
  "s_pipes (on_qh i g u) = s_pipes u"
  "td_pool (on_qh i g u) = td_pool u"
  "qh_pool (on_qh i g u) = (qh_pool u)[i := g (qh_pool u ! i)]"
  by (simp_all add: on_qh_def)

lemma on_td_sched:
  assumes "sched_ok l u" "s_pipe_count u \<le> i \<or> (\<forall>t. td_link (f t) = td_link t)"
  shows "sched_ok l (on_td i f u)"
proof -
  have "td_link ((td_pool u)[i := f (td_pool u ! i)] ! j) = td_link (td_pool u ! j)" if "j < s_pipe_count u" for j
    using assms(2) that by (cases "i < length (td_pool u)"; cases "i = j") (auto simp: list_update_beyond)
  with assms(1) show ?thesis by (auto simp: sched_ok_def)
qed

lemma on_qh_sched: "sched_ok l u \<Longrightarrow> i \<noteq> int_qh \<Longrightarrow> sched_ok l (on_qh i g u)"
  by (simp add: sched_ok_def)

lemma sched_build:
  "s_pipe_count u = 0 \<Longrightarrow> sched_ok l (build_frame_list l (clear_pools u))"
  by (simp add: sched_ok_def build_frame_list_def clear_pools_def int_qh_def ctrl_qh_def UHCI_QH_COUNT_def UHCI_TD_COUNT_def)

lemma count_build: "s_pipe_count (build_frame_list l (clear_pools u)) = s_pipe_count u"
  by (simp add: build_frame_list_def clear_pools_def)

lemma register_full:
  "UHCI_TD_COUNT - 3 \<le> s_pipe_count u \<Longrightarrow> uhci_register_interrupt l a e b mx cb u = Some (u, 0)"
  by (simp add: uhci_register_interrupt_def)

definition new_pipe :: "u8 \<Rightarrow> u8 \<Rightarrow> bool \<Rightarrow> u8 \<Rightarrow> 'c option \<Rightarrow> nat \<Rightarrow> 'c int_pipe" where
  "new_pipe a e b mx cb i = \<lparr>p_active = True, dir_in = b, dev_addr = a, endpoint = e, max_packet = mx, toggle = 0,
     p_td = i, p_buf = i * 64, p_cb = cb\<rparr>"

definition td_body :: "td \<Rightarrow> u32 \<times> u32 \<times> u32" where
  "td_body t = (td_cs t, td_token t, td_buf t)"

lemma td_body_link: "map td_body (ts[k := (ts ! k)\<lparr>td_link := x\<rparr>]) = map td_body ts"
proof (cases "k < length ts")
  case True
  have "td_body ((ts ! k)\<lparr>td_link := x\<rparr>) = map td_body ts ! k" using True by (simp add: td_body_def)
  then show ?thesis by (simp only: map_update list_update_id)
qed (simp add: list_update_beyond)

text \<open>What a registration leaves: the new pipe and its descriptor in the next cell, and the chain
  lengthened by one link at its end.\<close>

lemma register_step:
  assumes "aligned_tds l" "sched_ok l u" "s_pipe_count u < UHCI_TD_COUNT - 3"
  obtains u' where "uhci_register_interrupt l a e b mx cb u = Some (u', of_nat (Suc (s_pipe_count u)))"
    and "sched_ok l u'" and "s_pipe_count u' = Suc (s_pipe_count u)"
    and "s_pipes u' = (s_pipes u)[s_pipe_count u := new_pipe a e b mx cb (s_pipe_count u)]"
    and "map td_body (td_pool u') = (map td_body (td_pool u))
      [s_pipe_count u := (TD_ARMED, int_token b a e 0 mx, buf_phys l (s_pipe_count u * 64))]"
proof -
  define n where "n = s_pipe_count u"
  define v where "v = on_td n (\<lambda>t. t\<lparr>td_buf := buf_phys l (n * 64), td_token := int_token b a e 0 mx, td_cs := TD_ARMED,
      td_link := TD_LINK_TERM\<rparr>) (u\<lparr>s_pipe_count := n + 1, s_pipes := (s_pipes u)[n := new_pipe a e b mx cb n]\<rparr>)"
  have r: "uhci_register_interrupt l a e b mx cb u = map_option (\<lambda>u. (u, of_nat (Suc n)))
      (if elem_link (qh_pool u ! int_qh) AND QH_LINK_TERM \<noteq> 0 then Some (on_qh int_qh (\<lambda>q. q\<lparr>elem_link := td_phys l n\<rparr>) v)
       else map_option (\<lambda>j. on_td j (\<lambda>t. t\<lparr>td_link := td_phys l n OR TD_LINK_DEPTH\<rparr>) v) (last_td l v (elem_link (qh_pool u ! int_qh))))"
    using assms(3) by (simp add: uhci_register_interrupt_def Let_def v_def n_def new_pipe_def)
  have n: "n < UHCI_TD_COUNT" "Suc n \<le> UHCI_TD_COUNT - 3" using assms(3) by (simp_all add: n_def UHCI_TD_COUNT_def)
  have bv: "map td_body (td_pool v) = (map td_body (td_pool u))[n := (TD_ARMED, int_token b a e 0 mx, buf_phys l (n * 64))]"
    by (simp add: v_def map_update td_body_def)
  show thesis
  proof (cases "n = 0")
    case True
    with assms(2) have q: "elem_link (qh_pool u ! int_qh) AND QH_LINK_TERM \<noteq> 0" by (simp add: sched_ok_def n_def QH_LINK_TERM_def)
    have "sched_ok l (on_qh int_qh (\<lambda>q. q\<lparr>elem_link := td_phys l n\<rparr>) v)"
      using assms(2) True n by (simp add: sched_ok_def v_def n_def link_at_def owns_def new_pipe_def int_qh_def UHCI_QH_COUNT_def)
    with r q show thesis by (intro that [of "on_qh int_qh (\<lambda>q. q\<lparr>elem_link := td_phys l n\<rparr>) v"]) (simp_all add: bv [unfolded n_def], simp_all add: v_def n_def)
  next
    case False
    have e: "elem_link (qh_pool u ! int_qh) = td_phys l 0" using assms(2) False by (simp add: sched_ok_def n_def)
    have q: "elem_link (qh_pool u ! int_qh) AND QH_LINK_TERM = 0" using td_phys_term [OF assms(1)] by (simp add: e QH_LINK_TERM_def)
    have "\<forall>j < n. td_link (td_pool v ! j) = link_at l n j" using assms(2) n by (auto simp: sched_ok_def v_def n_def)
    then have "last_td l v (td_phys l 0) = Some (n - 1)"
      using False n by (intro last_td_found [OF assms(1)]) auto
    then have r': "uhci_register_interrupt l a e b mx cb u
        = Some (on_td (n - 1) (\<lambda>t. t\<lparr>td_link := td_phys l n OR TD_LINK_DEPTH\<rparr>) v, of_nat (Suc n))"
      using r q by (simp add: e)
    have lk: "td_link ((td_pool v)[n - 1 := (td_pool v ! (n - 1))\<lparr>td_link := td_phys l n OR TD_LINK_DEPTH\<rparr>] ! i) = link_at l (Suc n) i"
        if "i < Suc n" for i
      using assms(2) n False that unfolding sched_ok_def
      by (cases "i = n"; cases "i = n - 1") (auto simp: v_def n_def nth_list_update link_at_def)
    have "sched_ok l (on_td (n - 1) (\<lambda>t. t\<lparr>td_link := td_phys l n OR TD_LINK_DEPTH\<rparr>) v)"
      using assms(2) n False lk by (auto simp: sched_ok_def v_def n_def owns_def new_pipe_def nth_list_update)
    moreover have "map td_body ((td_pool v)[n - 1 := (td_pool v ! (n - 1))\<lparr>td_link := x\<rparr>]) = map td_body (td_pool v)" for x
      by (rule td_body_link)
    ultimately show thesis by (intro that [OF r' [unfolded n_def]]) (simp_all add: bv [unfolded n_def], simp_all add: v_def n_def)
  qed
qed


section \<open>Sequences of registrations\<close>

record 'c pipe_args =
  a_addr :: u8
  a_endp :: u8
  a_in :: bool
  a_max :: u8
  a_cb :: "'c option"

fun register_all :: "layout \<Rightarrow> 'c pipe_args list \<Rightarrow> 'c uhci \<Rightarrow> ('c uhci \<times> u8 list) option" where
  "register_all l [] u = Some (u, [])"
| "register_all l (k # ks) u =
     Option.bind (uhci_register_interrupt l (a_addr k) (a_endp k) (a_in k) (a_max k) (a_cb k) u)
       (\<lambda>(u, h). map_option (\<lambda>(u, hs). (u, h # hs)) (register_all l ks u))"

definition pipe_of :: "'c pipe_args \<Rightarrow> nat \<Rightarrow> 'c int_pipe" where
  "pipe_of k i = new_pipe (a_addr k) (a_endp k) (a_in k) (a_max k) (a_cb k) i"

definition body_of :: "layout \<Rightarrow> 'c pipe_args \<Rightarrow> nat \<Rightarrow> u32 \<times> u32 \<times> u32" where
  "body_of l k i = (TD_ARMED, int_token (a_in k) (a_addr k) (a_endp k) 0 (a_max k), buf_phys l (i * 64))"

definition handle :: "nat \<Rightarrow> u8" where
  "handle i = (if i < UHCI_TD_COUNT - 3 then of_nat (i + 1) else 0)"

definition registered :: "layout \<Rightarrow> 'c pipe_args list \<Rightarrow> 'c uhci \<Rightarrow> bool" where
  "registered l ks u \<longleftrightarrow> sched_ok l u \<and> s_pipe_count u = min (UHCI_TD_COUNT - 3) (length ks)
     \<and> (\<forall>i < s_pipe_count u. s_pipes u ! i = pipe_of (ks ! i) i \<and> td_body (td_pool u ! i) = body_of l (ks ! i) i)"

lemma registered_step:
  assumes "aligned_tds l" "registered l ks u"
  obtains u' where "uhci_register_interrupt l (a_addr k) (a_endp k) (a_in k) (a_max k) (a_cb k) u = Some (u', handle (length ks))"
    and "registered l (ks @ [k]) u'"
proof (cases "length ks < UHCI_TD_COUNT - 3")
  case True
  with assms have n: "s_pipe_count u = length ks" "sched_ok l u" by (simp_all add: registered_def)
  obtain u' where r: "uhci_register_interrupt l (a_addr k) (a_endp k) (a_in k) (a_max k) (a_cb k) u = Some (u', of_nat (Suc (s_pipe_count u)))"
    and s: "sched_ok l u'" and c: "s_pipe_count u' = Suc (s_pipe_count u)"
    and p: "s_pipes u' = (s_pipes u)[s_pipe_count u := new_pipe (a_addr k) (a_endp k) (a_in k) (a_max k) (a_cb k) (s_pipe_count u)]"
    and b: "map td_body (td_pool u') = (map td_body (td_pool u))[s_pipe_count u := (TD_ARMED, int_token (a_in k) (a_addr k) (a_endp k) 0 (a_max k), buf_phys l (s_pipe_count u * 64))]"
    using True n(1) by (rule_tac register_step [OF assms(1) n(2), of "a_addr k" "a_endp k" "a_in k" "a_max k" "a_cb k"]) simp_all
  have len: "length (td_pool u) = UHCI_TD_COUNT" "length (s_pipes u) = UHCI_TD_COUNT" "length (td_pool u') = UHCI_TD_COUNT"
    using n(2) s by (simp_all add: sched_ok_def)
  have "td_body (td_pool u' ! i) = body_of l ((ks @ [k]) ! i) i" if "i < Suc (length ks)" for i
  proof -
    have "td_body (td_pool u' ! i) = map td_body (td_pool u') ! i" using that True len by (simp add: UHCI_TD_COUNT_def)
    then show ?thesis unfolding b using that True n(1) len assms(2)
      by (auto simp: registered_def nth_list_update nth_append body_of_def UHCI_TD_COUNT_def)
  qed
  moreover have "s_pipes u' ! i = pipe_of ((ks @ [k]) ! i) i" if "i < Suc (length ks)" for i
    unfolding p using that True n(1) len assms(2)
    by (auto simp: registered_def nth_list_update nth_append pipe_of_def UHCI_TD_COUNT_def)
  ultimately have "registered l (ks @ [k]) u'" using s c n(1) True by (simp add: registered_def)
  with r n(1) True show thesis by (intro that) (simp_all add: handle_def)
next
  case False
  with assms(2) have "uhci_register_interrupt l (a_addr k) (a_endp k) (a_in k) (a_max k) (a_cb k) u = Some (u, handle (length ks))"
    by (simp add: register_full registered_def handle_def)
  moreover have "registered l (ks @ [k]) u" using assms(2) False by (auto simp: registered_def nth_append)
  ultimately show thesis by (rule that)
qed

lemma registered_all:
  assumes "aligned_tds l" "registered l ks u"
  shows "\<exists>u'. register_all l js u = Some (u', map handle [length ks..<length ks + length js]) \<and> registered l (ks @ js) u'"
  using assms(2)
proof (induction js arbitrary: ks u)
  case Nil
  then show ?case by simp
next
  case (Cons j js)
  obtain v where v: "uhci_register_interrupt l (a_addr j) (a_endp j) (a_in j) (a_max j) (a_cb j) u = Some (v, handle (length ks))"
      "registered l (ks @ [j]) v"
    using registered_step [OF assms(1) Cons.prems] by blast
  from Cons.IH [OF v(2)] obtain w where
      "register_all l js v = Some (w, map handle [Suc (length ks)..<Suc (length ks + length js)])" "registered l (ks @ j # js) w" by auto
  moreover have "map handle [length ks..<length ks + length (j # js)]
      = handle (length ks) # map handle [Suc (length ks)..<Suc (length ks + length js)]"
    by (subst upt_conv_Cons) (simp_all del: upt_Suc)
  ultimately show ?case using v(1) by (simp del: upt_Suc)
qed

lemma registered_build:
  "s_pipe_count u = 0 \<Longrightarrow> registered l [] (build_frame_list l (clear_pools u))"
  by (simp add: registered_def sched_build count_build)

section \<open>Interrupts\<close>

lemma service_pipe_sched:
  assumes "sched_ok l u" "i < s_pipe_count u"
  shows "sched_ok l (fst (service_pipe call i (u, s))) \<and> s_pipe_count (fst (service_pipe call i (u, s))) = s_pipe_count u"
proof -
  have "owns (s_pipes u ! i) i" using assms by (simp add: sched_ok_def)
  then have "sched_ok l (u\<lparr>s_pipes := (s_pipes u)[i := (s_pipes u ! i)\<lparr>toggle := x\<rparr>]\<rparr>)" for x
    using assms by (auto simp: sched_ok_def nth_list_update owns_def)
  then show ?thesis using assms
    by (auto simp: service_pipe_def Let_def intro!: on_td_sched)
qed

lemma irq_keeps_sched:
  assumes "sched_ok l u" "xs \<subseteq> {..<s_pipe_count u}" "set is = xs"
  shows "sched_ok l (fst (fold (service_pipe call) is (u, s)))
     \<and> s_pipe_count (fst (fold (service_pipe call) is (u, s))) = s_pipe_count u"
  using assms
proof (induction "is" arbitrary: u s xs)
  case Nil
  then show ?case by simp
next
  case (Cons i js)
  from Cons.prems have "i < s_pipe_count u" by auto
  note k = service_pipe_sched [OF Cons.prems(1) this, of call s]
  obtain v t where v: "service_pipe call i (u, s) = (v, t)" by fastforce
  from Cons.IH [of v "set js" t] k Cons.prems show ?case by (auto simp: v)
qed

section \<open>Properties\<close>

text \<open>C24: After any sequence of registrations on the frame list \<open>uhci_init\<close> builds, every call
  returns (the walk to the end of the chain terminates), the handles are 1, 2, ... up to the
  capacity and 0 from then on, and the controller reaches from the queue head of the interrupt
  pipes exactly the descriptors of the registered pipes in the order of registration, each armed
  with the token and buffer of its pipe. Assumes the pool of descriptors aligned to 16 bytes.\<close>

theorem uhci_pipes_chained:
  assumes "aligned_tds l" "s_pipe_count u = 0" and n: "n = min (UHCI_TD_COUNT - 3) (length ks)"
  shows "\<exists>u'. register_all l ks (build_frame_list l (clear_pools u)) = Some (u', map handle [0..<length ks])
    \<and> s_pipe_count u' = n
    \<and> td_chain n l u' (elem_link (qh_pool u' ! int_qh)) = Some [0..<n]
    \<and> (\<forall>i < n. s_pipes u' ! i = pipe_of (ks ! i) i \<and> td_body (td_pool u' ! i) = body_of l (ks ! i) i)"
proof -
  obtain u' where u: "register_all l ks (build_frame_list l (clear_pools u)) = Some (u', map handle [0..<length ks])"
      "registered l ks u'"
    using registered_all [OF assms(1) registered_build [OF assms(2)], of ks] by auto
  then have c: "s_pipe_count u' = n" "sched_ok l u'" by (simp_all add: registered_def n)
  from chain_all [OF assms(1) c(2), of n] c u show ?thesis by (auto simp: registered_def)
qed

definition demo_layout :: layout where
  "demo_layout = \<lparr>at_frames = 0x100000, at_qhs = 0x102000, at_tds = 0x103000, at_bufs = 0x104000, at_setup = 0x105000, at_status = 0x105008\<rparr>"

definition demo_uhci :: "nat uhci" where
  "demo_uhci = \<lparr>frame_list = [], qh_pool = [], td_pool = [], buf_pool = [],
     setup_buf = \<lparr>bmRequestType = 0, bRequest = 0, wValue = 0, wIndex = 0, wLength = 0\<rparr>,
     s_iobase = 0xC000, s_irq = 11, s_pipes = [], s_pipe_count = 0\<rparr>"

lemma uhci_pipes_chained_witness:
  "\<exists>u'. register_all demo_layout (replicate 2 \<lparr>a_addr = 1, a_endp = 1, a_in = True, a_max = 8, a_cb = Some 0\<rparr>)
       (build_frame_list demo_layout (clear_pools demo_uhci)) = Some (u', map handle [0..<2])
    \<and> td_chain 2 demo_layout u' (elem_link (qh_pool u' ! int_qh)) = Some [0..<2]"
  using uhci_pipes_chained [of demo_layout demo_uhci 2 "replicate 2 \<lparr>a_addr = 1, a_endp = 1, a_in = True, a_max = 8, a_cb = Some 0\<rparr>"]
  by (auto simp: aligned_tds_def demo_layout_def demo_uhci_def UHCI_TD_COUNT_def)

end
