(* ===== verification/Hid.thy ===== *)
theory Hid
  imports Keyboard Mouse UhciProps
begin

unbundle bit_operations_syntax

text \<open>
  USB input devices (\<^verbatim>\<open>kernel/usb/hid.cpp\<close>, \<^verbatim>\<open>kernel/usb/hid.h\<close>): the reports of tablet and
  keyboard, the scan of a configuration's descriptors for the interrupt endpoints of its HID
  interfaces, and the enumeration of the ports. A read past the array of 256 bytes that holds
  the configuration is the fault \<open>OutOfBounds\<close>. The host controller's functions are a record of
  programs of the state monad.
\<close>

section \<open>Reports\<close>

definition on_tablet_report :: "(tablet \<Rightarrow> 's \<Rightarrow> 's) option \<Rightarrow> bytes \<Rightarrow> u8 \<Rightarrow> 's \<Rightarrow> 's" where
  "on_tablet_report cb d len s = (if len < 6 then s else
     (case cb of None \<Rightarrow> s
      | Some f \<Rightarrow> f \<lparr>tab_x = ucast (d ! 1) OR push_bit 8 (ucast (d ! 2)),
          tab_y = ucast (d ! 3) OR push_bit 8 (ucast (d ! 4)),
          tab_buttons = d ! 0 AND 0x07, tab_wheel = d ! 5\<rparr> s))"

definition on_keyboard_report :: "(key_state \<Rightarrow> 's \<Rightarrow> 's) option \<Rightarrow> bytes \<Rightarrow> u8 \<Rightarrow> 's \<Rightarrow> 's" where
  "on_keyboard_report cb d len s = (if len < 8 then s else
     (case cb of None \<Rightarrow> s
      | Some f \<Rightarrow> f \<lparr>modifier = d ! 0, keycodes = map (\<lambda>i. d ! (2 + i)) [0..<6]\<rparr> s))"

section \<open>Descriptors\<close>

record found_iface =
  iface_num :: u8
  protocol :: u8
  endp_addr :: u8
  endp_in :: bool
  f_max_packet :: u8
  f_interval :: u8

definition no_iface :: found_iface where
  "no_iface = \<lparr>iface_num = 0, protocol = 0, endp_addr = 0, endp_in = False, f_max_packet = 0, f_interval = 0\<rparr>"

definition cfg_cell :: "bytes \<Rightarrow> nat \<Rightarrow> fault + u8" where
  "cfg_cell b i = (if i < length b then Inr (b ! i) else Inl OutOfBounds)"

text \<open>The variables of the scan: position, interface under construction, and the ones found.\<close>

record cfg_scan =
  at_byte :: nat
  cur :: found_iface
  in_hid :: bool
  ifaces :: "found_iface list"

definition see_iface :: "bytes \<Rightarrow> cfg_scan \<Rightarrow> fault + cfg_scan" where
  "see_iface b s =
     bindE (cfg_cell b (at_byte s + 5)) (\<lambda>cls.
       if cls = 3 then
         bindE (cfg_cell b (at_byte s + 2)) (\<lambda>num. bindE (cfg_cell b (at_byte s + 7)) (\<lambda>pr.
           Inr (s\<lparr>in_hid := True, cur := no_iface\<lparr>iface_num := num, protocol := pr\<rparr>\<rparr>)))
       else Inr (s\<lparr>in_hid := False\<rparr>))"

definition see_endpoint :: "bytes \<Rightarrow> cfg_scan \<Rightarrow> fault + cfg_scan" where
  "see_endpoint b s =
     bindE (cfg_cell b (at_byte s + 3)) (\<lambda>attr.
       if attr AND 3 = 3 then
         bindE (cfg_cell b (at_byte s + 2)) (\<lambda>ad. bindE (cfg_cell b (at_byte s + 4)) (\<lambda>lo.
         bindE (cfg_cell b (at_byte s + 5)) (\<lambda>hi. bindE (cfg_cell b (at_byte s + 6)) (\<lambda>iv.
           let mps = ucast lo OR push_bit 8 (ucast hi) :: u16;
               c = (cur s)\<lparr>endp_addr := ad AND 0x0F, endp_in := (ad AND 0x80 \<noteq> 0), f_max_packet := ucast (mps AND 0xFF), f_interval := iv\<rparr>
           in Inr (s\<lparr>cur := c, ifaces := ifaces s @ [c], in_hid := False\<rparr>)))))
       else Inr s)"

text \<open>One round of the loop; \<open>None\<close> leaves it.\<close>

definition scan_round :: "bytes \<Rightarrow> nat \<Rightarrow> nat \<Rightarrow> cfg_scan \<Rightarrow> fault + cfg_scan option" where
  "scan_round b tot mx s =
     (if \<not> (at_byte s < tot \<and> length (ifaces s) < mx) then Inr None else
      bindE (cfg_cell b (at_byte s)) (\<lambda>len. bindE (cfg_cell b (at_byte s + 1)) (\<lambda>ty.
        if len < 2 then Inr None else
        bindE (if ty = 4 then see_iface b s else if ty = 5 \<and> in_hid s then see_endpoint b s else Inr s)
          (\<lambda>s'. Inr (Some (s'\<lparr>at_byte := at_byte s + unat len\<rparr>))))))"

lemma scan_round_moves: "scan_round b tot mx s = Inr (Some s') \<Longrightarrow> at_byte s < tot \<and> at_byte s + 2 \<le> at_byte s'"
  by (auto simp: scan_round_def bindE_Inr_iff word_less_nat_alt split: if_splits)

function scan_from :: "bytes \<Rightarrow> nat \<Rightarrow> nat \<Rightarrow> cfg_scan \<Rightarrow> fault + found_iface list" where
  "scan_from b tot mx s =
     (case scan_round b tot mx s of
        Inl e \<Rightarrow> Inl e
      | Inr None \<Rightarrow> Inr (ifaces s)
      | Inr (Some s') \<Rightarrow> scan_from b tot mx s')"
  by pat_completeness auto
termination
  by (relation "measure (\<lambda>(b, tot, mx, s). tot - at_byte s)") (use scan_round_moves in force)+

declare scan_from.simps [simp del]

definition parse_config :: "bytes \<Rightarrow> u16 \<Rightarrow> nat \<Rightarrow> fault + found_iface list" where
  "parse_config b tot mx =
     scan_from b (unat tot) mx \<lparr>at_byte = 0, cur = no_iface, in_hid = False, ifaces = []\<rparr>"

section \<open>Enumeration\<close>

datatype report = TabletReport | KeyboardReport

record 'h hostc =
  hc_connected :: "u8 \<Rightarrow> ('h, bool) state"
  hc_port_reset :: "u8 \<Rightarrow> ('h, unit) state"
  hc_get :: "u8 \<Rightarrow> u8 \<Rightarrow> u8 \<Rightarrow> bytes \<Rightarrow> u16 \<Rightarrow> ('h, bytes \<times> bool) state"
  hc_set_address :: "u8 \<Rightarrow> ('h, bool) state"
  hc_set_configuration :: "u8 \<Rightarrow> u8 \<Rightarrow> ('h, bool) state"
  hc_boot_protocol :: "u8 \<Rightarrow> u8 \<Rightarrow> ('h, bool) state"
  hc_set_idle :: "u8 \<Rightarrow> u8 \<Rightarrow> ('h, bool) state"
  hc_register :: "u8 \<Rightarrow> u8 \<Rightarrow> bool \<Rightarrow> u8 \<Rightarrow> u8 \<Rightarrow> report \<Rightarrow> ('h, u8) state"
  hc_sleep_ms :: "u32 \<Rightarrow> ('h, unit) state"
  hc_puts :: "string \<Rightarrow> ('h, unit) state"

record hid =
  desc_buf :: bytes
  next_addr :: u8

definition register_iface :: "'h hostc \<Rightarrow> u8 \<Rightarrow> found_iface \<Rightarrow> ('h, unit) state" where
  "register_iface c addr f = do {
     _ \<leftarrow> hc_boot_protocol c addr (iface_num f);
     _ \<leftarrow> hc_set_idle c addr (iface_num f);
     (if protocol f = 2 \<or> protocol f = 1 then do {
        h \<leftarrow> hc_register c addr (endp_addr f) (endp_in f) (f_max_packet f) (f_interval f)
          (if protocol f = 2 then TabletReport else KeyboardReport);
        (if h \<noteq> 0 then do {
           hc_puts c ''[HID] registered '';
           hc_puts c (if protocol f = 2 then ''tablet/mouse'' else ''keyboard'');
           hc_puts c [CHR 0x0A] }
         else done_with ()) }
      else do {
        hc_puts c (''[HID] unknown protocol, trying as tablet'' @ [CHR 0x0A]);
        h \<leftarrow> hc_register c addr (endp_addr f) (endp_in f) (f_max_packet f) (f_interval f) TabletReport;
        (if h \<noteq> 0 then hc_puts c (''[HID] registered as tablet (fallback)'' @ [CHR 0x0A]) else done_with ()) })
   }"

definition hid_fail :: "'h hostc \<Rightarrow> string \<Rightarrow> hid \<Rightarrow> ('h, hid \<times> (fault + bool)) state" where
  "hid_fail c m h = do { hc_puts c (m @ [CHR 0x0A]); done_with (h, Inr False) }"

definition configure :: "'h hostc \<Rightarrow> u8 \<Rightarrow> u16 \<Rightarrow> hid \<Rightarrow> ('h, hid \<times> (fault + bool)) state" where
  "configure c addr tot h =
     (case parse_config (desc_buf h) tot 4 of
        Inl e \<Rightarrow> done_with (h, Inl e)
      | Inr fs \<Rightarrow>
         if fs = [] then hid_fail c ''[HID] no HID boot ifaces found'' h
         else do {
           ok \<leftarrow> hc_set_configuration c addr (desc_buf h ! 5);
           (if \<not> ok then hid_fail c ''[HID] set config failed'' h
            else do { each_io (register_iface c addr) fs; done_with (h, Inr True) }) })"

definition enumerate_device :: "'h hostc \<Rightarrow> hid \<Rightarrow> ('h, hid \<times> (fault + bool)) state" where
  "enumerate_device c h = do {
     (b, ok) \<leftarrow> hc_get c 0 0x01 0 (desc_buf h) 8;
     let h = h\<lparr>desc_buf := b\<rparr>;
     if \<not> ok then hid_fail c ''[HID] get device desc failed'' h
     else do {
       let addr = next_addr h;
       let h = h\<lparr>next_addr := addr + 1\<rparr>;
       ok \<leftarrow> hc_set_address c addr;
       if \<not> ok then hid_fail c ''[HID] set address failed'' h
       else do {
         hc_sleep_ms c 10;
         (b, ok) \<leftarrow> hc_get c addr 0x01 0 (desc_buf h) 18;
         let h = h\<lparr>desc_buf := b\<rparr>;
         if \<not> ok then hid_fail c ''[HID] get full device desc failed'' h
         else do {
           (b, ok) \<leftarrow> hc_get c addr 0x02 0 (desc_buf h) 9;
           let h = h\<lparr>desc_buf := b\<rparr>;
           if \<not> ok then hid_fail c ''[HID] get config desc failed'' h
           else do {
             let tot = ucast (b ! 2) OR push_bit 8 (ucast (b ! 3));
             let tot = (if (256 :: u16) < tot then 256 else tot);
             (b, ok) \<leftarrow> hc_get c addr 0x02 0 (desc_buf h) tot;
             let h = h\<lparr>desc_buf := b\<rparr>;
             if \<not> ok then hid_fail c ''[HID] get full config failed'' h
             else configure c addr tot h
           } } } } }"

fun hid_ports :: "'h hostc \<Rightarrow> u8 list \<Rightarrow> bool \<Rightarrow> hid \<Rightarrow> ('h, hid \<times> (fault + bool)) state" where
  "hid_ports c [] ok h = done_with (h, Inr ok)"
| "hid_ports c (port # ps) ok h = do {
     there \<leftarrow> hc_connected c port;
     if \<not> there then hid_ports c ps ok h
     else do {
       hc_puts c ''[HID] Device on port '';
       hc_puts c [char_of (unat (48 + port))];
       hc_puts c [CHR 0x0A];
       hc_port_reset c port;
       hc_sleep_ms c 100;
       (h, r) \<leftarrow> enumerate_device c h;
       (case r of Inl e \<Rightarrow> done_with (h, Inl e) | Inr b \<Rightarrow> hid_ports c ps (b \<or> ok) h)
     } }"

definition hid_init :: "'h hostc \<Rightarrow> hid \<Rightarrow> ('h, hid \<times> (fault + bool)) state" where
  "hid_init c h = do {
     hc_puts c (''[HID] Enumerating USB devices...'' @ [CHR 0x0A]);
     hid_ports c [0, 1, 2, 3, 4, 5, 6, 7] False h
   }"

end
