(* ===== verification/HidProps.thy ===== *)
theory HidProps
  imports Hid
begin

unbundle bit_operations_syntax

text \<open>
  What the scan of a configuration finds, against a reading of the descriptors as a list: of
  every interface of class HID the first interrupt endpoint before the next interface.
\<close>

section \<open>Descriptors and their bytes\<close>

datatype usb_desc =
    Iface (i_num: u8) (i_class: u8) (i_proto: u8) (i_alt: u8) (i_eps: u8) (i_sub: u8) (i_str: u8)
  | Endp (e_addr: u8) (e_attr: u8) (e_mps: u16) (e_interval: u8)
  | Other (o_type: u8) (o_body: bytes)

fun encode :: "usb_desc \<Rightarrow> bytes" where
  "encode (Iface n c p alt eps sub st) = [9, 4, n, alt, eps, c, sub, p, st]"
| "encode (Endp a at mps iv) = [7, 5, a, at, ucast mps, ucast (drop_bit 8 mps), iv]"
| "encode (Other ty body) = of_nat (2 + length body) # ty # body"

fun desc_ok :: "usb_desc \<Rightarrow> bool" where
  "desc_ok (Other ty body) \<longleftrightarrow> length body < 254 \<and> ty \<noteq> 4 \<and> ty \<noteq> 5"
| "desc_ok _ \<longleftrightarrow> True"

fun is_iface :: "usb_desc \<Rightarrow> bool" where
  "is_iface (Iface _ _ _ _ _ _ _) = True"
| "is_iface _ = False"

fun int_endpoint :: "usb_desc \<Rightarrow> bool" where
  "int_endpoint (Endp a at mps iv) \<longleftrightarrow> at AND 3 = 3"
| "int_endpoint _ = False"

definition pair_up :: "usb_desc \<Rightarrow> usb_desc \<Rightarrow> found_iface" where
  "pair_up i e = \<lparr>iface_num = i_num i, protocol = i_proto i, endp_addr = e_addr e AND 0x0F, endp_in = (e_addr e AND 0x80 \<noteq> 0),
     f_max_packet = ucast (e_mps e AND 0xFF), f_interval = e_interval e\<rparr>"

text \<open>The interrupt endpoint an interface takes from the descriptors that follow it.\<close>

definition own_endpoint :: "usb_desc list \<Rightarrow> usb_desc option" where
  "own_endpoint ds = find int_endpoint (takeWhile (\<lambda>d. \<not> is_iface d) ds)"

fun hid_ifaces :: "usb_desc list \<Rightarrow> found_iface list" where
  "hid_ifaces [] = []"
| "hid_ifaces (d # ds) =
     (if is_iface d \<and> i_class d = 3 then map (pair_up d) (case own_endpoint ds of None \<Rightarrow> [] | Some e \<Rightarrow> [e]) else [])
     @ hid_ifaces ds"

text \<open>The interfaces still to be found when \<open>p\<close> says which interface is waiting for its endpoint.\<close>

definition rest_ifaces :: "found_iface option \<Rightarrow> usb_desc list \<Rightarrow> found_iface list" where
  "rest_ifaces p ds = (case p of None \<Rightarrow> [] | Some c \<Rightarrow>
      (case own_endpoint ds of None \<Rightarrow> []
       | Some e \<Rightarrow> [c\<lparr>endp_addr := e_addr e AND 0x0F, endp_in := (e_addr e AND 0x80 \<noteq> 0),
            f_max_packet := ucast (e_mps e AND 0xFF), f_interval := e_interval e\<rparr>])) @ hid_ifaces ds"

lemma rest_iface:
  "rest_ifaces p (Iface n c pr alt eps sub st # ds)
   = rest_ifaces (if c = 3 then Some (no_iface\<lparr>iface_num := n, protocol := pr\<rparr>) else None) ds"
  by (simp add: rest_ifaces_def own_endpoint_def pair_up_def no_iface_def split: option.split)

lemma rest_endpoint:
  "rest_ifaces p (Endp a at mps iv # ds) = (if at AND 3 = 3 then
     (case p of None \<Rightarrow> [] | Some c \<Rightarrow> [c\<lparr>endp_addr := a AND 0x0F, endp_in := (a AND 0x80 \<noteq> 0),
        f_max_packet := ucast (mps AND 0xFF), f_interval := iv\<rparr>]) @ rest_ifaces None ds
     else rest_ifaces p ds)"
  by (simp add: rest_ifaces_def own_endpoint_def split: option.split)

lemma rest_other: "rest_ifaces p (Other ty body # ds) = rest_ifaces p ds"
  by (simp add: rest_ifaces_def own_endpoint_def split: option.split)

section \<open>The scan\<close>

definition pending :: "cfg_scan \<Rightarrow> found_iface option" where
  "pending s = (if in_hid s then Some (cur s) else None)"

lemma pending_at [simp]: "pending (s\<lparr>at_byte := i\<rparr>) = pending s"
  by (simp add: pending_def)

lemma cell_append:
  "cfg_cell (xs @ ys) (length xs + i) = cfg_cell ys i"
  "cfg_cell (xs @ ys) (Suc (length xs)) = cfg_cell ys 1"
  "cfg_cell (xs @ ys) (Suc (Suc (length xs))) = cfg_cell ys 2"
  "cfg_cell (xs @ ys) (length xs) = cfg_cell ys 0"
  by (simp_all add: cfg_cell_def nth_append)

lemma cell_Cons:
  "cfg_cell (y # ys) 0 = Inr y"
  "cfg_cell (y # ys) (Suc 0) = cfg_cell ys 0"
  "cfg_cell (y # ys) (numeral k) = cfg_cell ys (pred_numeral k)"
  by (simp_all add: cfg_cell_def)

lemma halves: "ucast (ucast (w :: u16) :: u8) OR push_bit 8 (ucast (ucast (drop_bit 8 w) :: u8)) = w"
  by (rule bit_word_eqI) (auto simp: bit_simps)

definition after_desc :: "usb_desc \<Rightarrow> cfg_scan \<Rightarrow> cfg_scan" where
  "after_desc d s = (case d of
     Iface n c p alt eps sub st \<Rightarrow>
       (if c = 3 then s\<lparr>in_hid := True, cur := no_iface\<lparr>iface_num := n, protocol := p\<rparr>\<rparr> else s\<lparr>in_hid := False\<rparr>)
   | Endp a at mps iv \<Rightarrow>
       (if in_hid s \<and> at AND 3 = 3 then
          let c = (cur s)\<lparr>endp_addr := a AND 0x0F, endp_in := (a AND 0x80 \<noteq> 0), f_max_packet := ucast (mps AND 0xFF), f_interval := iv\<rparr>
          in s\<lparr>cur := c, ifaces := ifaces s @ [c], in_hid := False\<rparr>
        else s)
   | Other ty body \<Rightarrow> s)"

lemma after_desc_at [simp]: "at_byte (after_desc d s) = at_byte s"
  by (simp add: after_desc_def Let_def split: usb_desc.split)

lemma scan_round_desc:
  assumes "desc_ok d" "at_byte s = length xs" "length xs < tot" "length (ifaces s) < mx"
  shows "scan_round (xs @ encode d @ ys) tot mx s
    = Inr (Some ((after_desc d s)\<lparr>at_byte := length xs + length (encode d)\<rparr>))"
proof (cases d)
  case (Iface n c p alt eps sub st)
  with assms show ?thesis
    by (simp add: cell_append cell_Cons scan_round_def see_iface_def after_desc_def)
next
  case (Endp a at mps iv)
  with assms show ?thesis
    using halves [of mps] by (simp add: cell_append cell_Cons scan_round_def see_endpoint_def after_desc_def Let_def)
next
  case (Other ty body)
  have u: "unat (of_nat (2 + length body) :: u8) = 2 + length body"
    using assms(1) Other by (simp only: unsigned_of_nat take_bit_eq_mod) simp
  have "\<not> (of_nat (2 + length body) :: u8) < 2" unfolding word_less_nat_alt u by simp
  with assms Other u show ?thesis
    by (simp add: cell_append cell_Cons scan_round_def after_desc_def)
qed

lemma rest_after:
  "length (ifaces s) < mx \<Longrightarrow>
   take mx (ifaces (after_desc d s) @ rest_ifaces (pending (after_desc d s)) ds) = take mx (ifaces s @ rest_ifaces (pending s) (d # ds))"
  by (cases d) (auto simp: after_desc_def pending_def rest_iface rest_endpoint rest_other Let_def)

lemma scan_all:
  assumes "list_all desc_ok ds" "at_byte s = length xs" "tot = length (xs @ concat (map encode ds))" "length (ifaces s) \<le> mx"
  shows "scan_from (xs @ concat (map encode ds) @ ys) tot mx s = Inr (take mx (ifaces s @ rest_ifaces (pending s) ds))"
  using assms
proof (induction ds arbitrary: xs s)
  case Nil
  then show ?case
    by (subst scan_from.simps) (simp add: scan_round_def rest_ifaces_def own_endpoint_def split: option.split)
next
  case (Cons d ds)
  show ?case
  proof (cases "length (ifaces s) < mx")
    case False
    with Cons.prems show ?thesis by (subst scan_from.simps) (simp add: scan_round_def)
  next
    case True
    have e: "0 < length (encode d)" by (cases d) simp_all
    let ?s = "(after_desc d s)\<lparr>at_byte := length xs + length (encode d)\<rparr>"
    have r: "scan_round (xs @ encode d @ concat (map encode ds) @ ys) tot mx s = Inr (Some ?s)"
      using Cons.prems True e by (intro scan_round_desc) auto
    have "scan_from (xs @ concat (map encode (d # ds)) @ ys) tot mx s
        = scan_from ((xs @ encode d) @ concat (map encode ds) @ ys) tot mx ?s"
      using r by (subst scan_from.simps) simp
    also have "\<dots> = Inr (take mx (ifaces ?s @ rest_ifaces (pending ?s) ds))"
    proof (rule Cons.IH)
      show "length (ifaces ?s) \<le> mx" using True by (cases d) (auto simp: after_desc_def Let_def)
    qed (use Cons.prems in auto)
    also have "\<dots> = Inr (take mx (ifaces s @ rest_ifaces (pending s) (d # ds)))"
      using rest_after [OF True, of d ds] by (simp del: take_append)
    finally show ?thesis .
  qed
qed

text \<open>The scan up to a position, whatever follows.\<close>

definition after_descs :: "usb_desc list \<Rightarrow> cfg_scan \<Rightarrow> cfg_scan" where
  "after_descs ds s = fold (\<lambda>d s. (after_desc d s)\<lparr>at_byte := at_byte s + length (encode d)\<rparr>) ds s"

lemma scan_reaches:
  assumes "list_all desc_ok ds" "at_byte s = length xs" "length (xs @ concat (map encode ds)) \<le> tot" "length (ifaces s) + length ds < mx"
  shows "scan_from (xs @ concat (map encode ds) @ ys) tot mx s = scan_from (xs @ concat (map encode ds) @ ys) tot mx (after_descs ds s)
    \<and> at_byte (after_descs ds s) = length (xs @ concat (map encode ds)) \<and> length (ifaces (after_descs ds s)) < mx"
  using assms
proof (induction ds arbitrary: xs s)
  case Nil
  then show ?case by (simp add: after_descs_def)
next
  case (Cons d ds)
  have e: "0 < length (encode d)" by (cases d) simp_all
  let ?s = "(after_desc d s)\<lparr>at_byte := length xs + length (encode d)\<rparr>"
  have r: "scan_round (xs @ encode d @ concat (map encode ds) @ ys) tot mx s = Inr (Some ?s)"
  proof (rule scan_round_desc)
    show "length xs < tot" using Cons.prems(3) e by (simp del: length_greater_0_conv)
  qed (use Cons.prems in auto)
  have n: "length (ifaces (after_desc d s)) \<le> Suc (length (ifaces s))"
    by (cases d) (simp_all add: after_desc_def Let_def)
  have a: "after_descs (d # ds) s = after_descs ds ?s" using Cons.prems(2) by (simp add: after_descs_def)
  have "scan_from (xs @ concat (map encode (d # ds)) @ ys) tot mx s = scan_from ((xs @ encode d) @ concat (map encode ds) @ ys) tot mx ?s"
    using r by (subst scan_from.simps) simp
  with Cons.IH [of ?s "xs @ encode d"] Cons.prems n show ?case unfolding a by simp
qed

section \<open>Properties\<close>

text \<open>C23: On a configuration given by a list of descriptors (interfaces, endpoints and any others
  of fewer than 256 bytes), followed in the buffer by anything, \<open>parse_config\<close> terminates without a
  fault and finds, in order and up to the limit, of every interface of class HID the first
  interrupt endpoint that comes before the next interface, with the interface's number and
  protocol and the endpoint's address, direction, packet size (its low byte) and interval.\<close>

theorem parse_config_correct:
  assumes "list_all desc_ok ds" "unat tot = length (concat (map encode ds))"
  shows "parse_config (concat (map encode ds) @ stale) tot mx = Inr (take mx (hid_ifaces ds))"
  using scan_all [OF assms(1), of "\<lparr>at_byte = 0, cur = no_iface, in_hid = False, ifaces = []\<rparr>" "[]" "unat tot" mx stale] assms(2)
  by (simp add: parse_config_def pending_def rest_ifaces_def)

definition demo_config :: "usb_desc list" where
  "demo_config = [Other 2 [34, 0, 1, 1, 0, 0xA0, 50], Iface 0 3 2 0 1 0 0, Other 0x21 [1, 0, 0, 1, 0x22, 74, 0],
     Endp 0x81 3 8 4, Endp 0x82 3 8 4, Iface 1 8 80 0 1 6 0, Endp 0x83 3 8 4]"

lemma parse_config_correct_witness:
  "parse_config (concat (map encode demo_config) @ [0, 0]) 57 4
   = Inr [\<lparr>iface_num = 0, protocol = 2, endp_addr = 1, endp_in = True, f_max_packet = 8, f_interval = 4\<rparr>]"
  using parse_config_correct [of demo_config 57 "[0, 0]" 4]
  by (simp add: demo_config_def own_endpoint_def pair_up_def)



end
