(* ===== verification/ShellParse.thy ===== *)
theory ShellParse
  imports Syscall
begin

text \<open>
  The shell's front end (\<^verbatim>\<open>kernel/shell.cpp\<close>, \<^verbatim>\<open>kernel/shell.h\<close>): splitting a line into
  arguments, the table of commands and the dispatch. Lines and arguments are byte lists without
  their terminating zero. The commands themselves are a parameter here; Shell and ShellDisk define them.
\<close>

definition SHELL_MAX_ARGS :: nat where "SHELL_MAX_ARGS = 16"
definition SHELL_ARG_LEN :: nat where "SHELL_ARG_LEN = 64"
definition CMD_MAX :: nat where "CMD_MAX = 64"

section \<open>Arguments\<close>

text \<open>The loop indices of the code are the rest of the line and the room left in the argument.\<close>

fun skip_blanks :: "bytes \<Rightarrow> bytes" where
  "skip_blanks [] = []"
| "skip_blanks (c # s) = (if c = 32 then skip_blanks s else c # s)"

fun take_arg :: "bool \<Rightarrow> nat \<Rightarrow> bytes \<Rightarrow> bytes \<times> bytes" where
  "take_arg quoted 0 s = ([], s)"
| "take_arg quoted (Suc n) [] = ([], [])"
| "take_arg quoted (Suc n) (c # s) =
     (if quoted \<and> c = 34 then ([], s)
      else if \<not> quoted \<and> c = 32 then ([], c # s)
      else case take_arg quoted n s of (a, r) \<Rightarrow> (c # a, r))"

lemma skip_blanks_length: "length (skip_blanks s) \<le> length s"
  by (induction s) simp_all

lemma take_arg_length: "take_arg q n s = (a, r) \<Longrightarrow> length a + length r \<le> length s \<and> length a \<le> n"
proof (induction q n s arbitrary: a r rule: take_arg.induct)
  case (3 q n c s)
  then show ?case by (fastforce split: if_splits prod.splits)
qed auto

lemma take_arg_unquoted:
  "take_arg False (Suc n) (c # s) = (a, r) \<Longrightarrow> c \<noteq> 32 \<Longrightarrow> length r < length (c # s)"
  using take_arg_length [of False n s] by (auto split: prod.splits)

lemma skip_blanks_head: "skip_blanks s = c # r \<Longrightarrow> c \<noteq> 32"
  by (induction s) (auto split: if_splits)

lemma parse_shrinks:
  assumes "skip_blanks line \<noteq> []"
    and "take_arg (hd (skip_blanks line) = 34) (SHELL_ARG_LEN - 1) (if hd (skip_blanks line) = 34 then tl (skip_blanks line) else skip_blanks line) = (a, r)"
  shows "length r < length line"
proof -
  obtain c s where s: "skip_blanks line = c # s" using assms(1) by (cases "skip_blanks line") auto
  have l: "Suc (length s) \<le> length line" using skip_blanks_length [of line] by (simp add: s)
  have n: "SHELL_ARG_LEN - Suc 0 = Suc 62" by (simp add: SHELL_ARG_LEN_def)
  show ?thesis
  proof (cases "c = 34")
    case True
    with assms(2) s have "length a + length r \<le> length s" using take_arg_length by simp
    with l show ?thesis by simp
  next
    case False
    have "take_arg False (Suc 62) (c # s) = (a, r)" using assms(2) s False by (simp add: n del: take_arg.simps)
    from take_arg_unquoted [OF this skip_blanks_head [OF s]] l show ?thesis by simp
  qed
qed

function parse_from :: "nat \<Rightarrow> bytes \<Rightarrow> bytes list" where
  "parse_from n line =
     (let s = skip_blanks line in
      if n = 0 \<or> s = [] then []
      else
        let quoted = (hd s = 34); (a, r) = take_arg quoted (SHELL_ARG_LEN - 1) (if quoted then tl s else s)
        in if a \<noteq> [] then a # parse_from (n - 1) r else parse_from n r)"
  by pat_completeness auto
termination
  by (relation "measure (length \<circ> snd)") (simp, (simp, metis parse_shrinks One_nat_def)+)

declare parse_from.simps [simp del]

definition shell_parse :: "bytes \<Rightarrow> bytes list" where
  "shell_parse line = parse_from SHELL_MAX_ARGS line"

section \<open>Commands\<close>

datatype shell_cmd = Cmd_help | Cmd_clear | Cmd_echo | Cmd_mem | Cmd_version | Cmd_ls | Cmd_pwd | Cmd_cd | Cmd_mkdir
  | Cmd_touch | Cmd_cat | Cmd_write | Cmd_uptime | Cmd_sleep | Cmd_reboot | Cmd_halt | Cmd_hexdump | Cmd_spawn | Cmd_kill
  | Cmd_ps | Cmd_dog | Cmd_dogsay | Cmd_math | Cmd_env_get | Cmd_env_set | Cmd_env_unset
  | Cmd_cp | Cmd_rm | Cmd_mv | Cmd_disk | Cmd_exec
  | Cmd_ifconfig | Cmd_ping | Cmd_udpsend | Cmd_netstat | Cmd_arp | Cmd_wget | Cmd_tcpconnect | Cmd_nslookup | Cmd_dnscache
  | Cmd_udplisten | Cmd_wgetd

record shell_command =
  c_name :: bytes
  c_help :: bytes
  c_fn :: shell_cmd

definition shell_register :: "string \<Rightarrow> string \<Rightarrow> shell_cmd \<Rightarrow> shell_command list \<Rightarrow> shell_command list" where
  "shell_register nm help fn cs =
     (if CMD_MAX \<le> length cs then cs else cs @ [\<lparr>c_name = map of_char nm, c_help = map of_char help, c_fn = fn\<rparr>])"

definition register_in_turn :: "(string \<times> string \<times> shell_cmd) list \<Rightarrow> shell_command list \<Rightarrow> shell_command list" where
  "register_in_turn = fold (\<lambda>(n, h, f). shell_register n h f)"

definition shell_disk_register :: "shell_command list \<Rightarrow> shell_command list" where
  "shell_disk_register = register_in_turn
     [(''cp'', ''cp <src> <dst>       Copy file'', Cmd_cp),
      (''rm'', ''rm [-r] <path>       Remove file/dir'', Cmd_rm),
      (''mv'', ''mv <src> <dst>       Move/rename file'', Cmd_mv),
      (''disk'', ''disk                 Show disk info'', Cmd_disk)]"

definition shell_exec_register :: "shell_command list \<Rightarrow> shell_command list" where
  "shell_exec_register = register_in_turn [(''exec'', ''exec <path>  Run ELF binary from disk'', Cmd_exec)]"

definition shell_net_register :: "shell_command list \<Rightarrow> shell_command list" where
  "shell_net_register = register_in_turn
     [(''ifconfig'', ''ifconfig              Show network info'', Cmd_ifconfig),
      (''ping'', ''ping <ip>             Send ICMP echo'', Cmd_ping),
      (''udpsend'', ''udpsend <ip> <p> <m>  Send UDP packet'', Cmd_udpsend),
      (''netstat'', ''netstat               Network status'', Cmd_netstat),
      (''arp'', ''arp                   Show ARP cache'', Cmd_arp),
      (''wget'', ''wget <ip> <p> <path>  HTTP GET request'', Cmd_wget),
      (''tcpconnect'', ''tcpconnect <ip> <p>   Raw TCP connect+recv'', Cmd_tcpconnect),
      (''nslookup'', ''nslookup <host>       DNS resolve'', Cmd_nslookup),
      (''dnscache'', ''dnscache              Show DNS cache'', Cmd_dnscache),
      (''udplisten'', ''udplisten <p> [sec]   Listen on UDP port'', Cmd_udplisten),
      (''wgetd'', ''wgetd <host> <p> <path> HTTP GET with DNS'', Cmd_wgetd)]"

definition shell_init :: "shell_command list \<Rightarrow> shell_command list" where
  "shell_init cs = shell_net_register (shell_exec_register (shell_disk_register (register_in_turn
     [(''help'', ''Show this help'', Cmd_help),
      (''clear'', ''Clear terminal'', Cmd_clear),
      (''echo'', ''Print arguments'', Cmd_echo),
      (''mem'', ''Memory statistics'', Cmd_mem),
      (''version'', ''OS version info'', Cmd_version),
      (''ls'', ''List directory'', Cmd_ls),
      (''pwd'', ''Print working directory'', Cmd_pwd),
      (''cd'', ''Change directory'', Cmd_cd),
      (''mkdir'', ''Create directory'', Cmd_mkdir),
      (''touch'', ''Create empty file'', Cmd_touch),
      (''cat'', ''Print file contents'', Cmd_cat),
      (''write'', ''write <file> <text>'', Cmd_write),
      (''uptime'', ''Show system uptime'', Cmd_uptime),
      (''sleep'', ''sleep <ms>'', Cmd_sleep),
      (''reboot'', ''Reboot the system'', Cmd_reboot),
      (''halt'', ''Halt the system'', Cmd_halt),
      (''hexdump'', ''hexdump <addr> <size>'', Cmd_hexdump),
      (''spawn'', ''spawn <name>'', Cmd_spawn),
      (''kill'', ''kill <pid>'', Cmd_kill),
      (''ps'', ''List processes'', Cmd_ps),
      (''dog'', ''Shows a dog'', Cmd_dog),
      (''dogsay'', ''dogsay <message>'', Cmd_dogsay),
      (''math'', ''Math operations'', Cmd_math),
      (''eget'', ''Get env variable'', Cmd_env_get),
      (''eset'', ''Set env variable'', Cmd_env_set),
      (''eunset'', ''Unset env variable'', Cmd_env_unset)] cs)))"

text \<open>\<open>run\<close> executes a command's function on the arguments, \<open>tell\<close> makes calls on the terminal.\<close>

definition shell_execute ::
  "(shell_cmd \<Rightarrow> bytes list \<Rightarrow> 's \<Rightarrow> 's option) \<Rightarrow> (term_call list \<Rightarrow> 's \<Rightarrow> 's) \<Rightarrow> shell_command list \<Rightarrow> bytes \<Rightarrow> 's \<Rightarrow> 's option" where
  "shell_execute run tell cs line s =
     (if skip_blanks line = [] then Some s
      else
        let args = shell_parse line in
        if args = [] then Some s
        else case find (\<lambda>c. c_name c = args ! 0) cs of
          Some c \<Rightarrow> run (c_fn c) args s
        | None \<Rightarrow> Some (tell (in_color 12 (msg ''Unknown command: '' @ put_calls (args ! 0)
            @ msg ''  (type '' @ [PutChar 39] @ msg ''help'' @ [PutChar 39] @ msg '' for list)'' @ newline)) s))"

section \<open>What the parser accepts\<close>

lemma parse_from_bounds: "length (parse_from n line) \<le> n \<and> (\<forall>a \<in> set (parse_from n line). 0 < length a \<and> length a < SHELL_ARG_LEN)"
proof (induction n line rule: parse_from.induct)
  case (1 n line)
  let ?s = "skip_blanks line"
  show ?case
  proof (cases "n = 0 \<or> ?s = []")
    case True
    then show ?thesis by (subst (1 2) parse_from.simps) simp
  next
    case False
    obtain a r where t: "take_arg (hd ?s = 34) (SHELL_ARG_LEN - 1) (if hd ?s = 34 then tl ?s else ?s) = (a, r)" by fastforce
    have l: "length a < SHELL_ARG_LEN" using take_arg_length [OF t] by (simp add: SHELL_ARG_LEN_def)
    have e: "parse_from n line = (if a \<noteq> [] then a # parse_from (n - 1) r else parse_from n r)"
      using False t by (subst parse_from.simps) (simp add: Let_def)
    show ?thesis
    proof (cases "a = []")
      case True
      have "length (parse_from n r) \<le> n \<and> (\<forall>a \<in> set (parse_from n r). 0 < length a \<and> length a < SHELL_ARG_LEN)"
        using False t True by (intro "1.IH"(2) [OF refl _ refl refl, of a r]) (auto simp: Let_def)
      with e True show ?thesis by simp
    next
      case a: False
      have "length (parse_from (n - 1) r) \<le> n - 1 \<and> (\<forall>a \<in> set (parse_from (n - 1) r). 0 < length a \<and> length a < SHELL_ARG_LEN)"
        using False t a by (intro "1.IH"(1) [OF refl _ refl refl, of a r]) (auto simp: Let_def)
      with e a l False show ?thesis by auto
    qed
  qed
qed

section \<open>Written lines\<close>

text \<open>An argument as a user writes it, in quotes when it holds a blank; before each any number of
  blanks, at least one between two.\<close>

definition render_arg :: "bytes \<Rightarrow> bytes" where
  "render_arg a = (if 32 \<in> set a then 34 # a @ [34] else a)"

fun render_line :: "(nat \<times> bytes) list \<Rightarrow> bytes" where
  "render_line [] = []"
| "render_line ((k, a) # ps) = replicate k 32 @ render_arg a @ (if ps = [] then [] else 32 # render_line ps)"

text \<open>A quoted argument must leave room for its closing quote in the array.\<close>

definition arg_ok :: "bytes \<Rightarrow> bool" where
  "arg_ok a \<longleftrightarrow> a \<noteq> [] \<and> 34 \<notin> set a \<and> length a < (if 32 \<in> set a then SHELL_ARG_LEN - 1 else SHELL_ARG_LEN)"

lemma take_plain:
  "32 \<notin> set a \<Longrightarrow> length a \<le> n \<Longrightarrow> r = [] \<or> hd r = 32 \<Longrightarrow> take_arg False n (a @ r) = (a, r)"
proof (induction a arbitrary: n)
  case Nil
  then show ?case by (cases n; cases r) auto
next
  case (Cons c a)
  then show ?case by (cases n) auto
qed

lemma take_quoted: "34 \<notin> set a \<Longrightarrow> length a < n \<Longrightarrow> take_arg True n (a @ 34 # r) = (a, r)"
proof (induction a arbitrary: n)
  case Nil
  then show ?case by (cases n) auto
next
  case (Cons c a)
  then show ?case by (cases n) auto
qed

lemma skip_replicate: "skip_blanks (replicate k 32 @ s) = skip_blanks s"
  by (induction k) simp_all

lemma skip_stop: "s \<noteq> [] \<Longrightarrow> hd s \<noteq> 32 \<Longrightarrow> skip_blanks s = s"
  by (cases s) simp_all

lemma parse_one:
  assumes "arg_ok a" "r = [] \<or> hd r = 32"
  shows "parse_from (Suc n) (replicate k 32 @ render_arg a @ r) = a # parse_from n r"
proof (cases "32 \<in> set a")
  case True
  have sk: "skip_blanks (replicate k 32 @ render_arg a @ r) = 34 # a @ 34 # r" using True by (simp add: skip_replicate render_arg_def)
  have "take_arg True (SHELL_ARG_LEN - 1) (a @ 34 # r) = (a, r)" using assms(1) True by (intro take_quoted) (simp_all add: arg_ok_def)
  then show ?thesis using assms(1) by (subst parse_from.simps) (simp add: sk Let_def arg_ok_def)
next
  case False
  have h: "a \<noteq> []" "hd a \<noteq> 32" "hd a \<noteq> 34" using assms(1) False by (auto simp: arg_ok_def hd_in_set dest: hd_in_set)
  have sk: "skip_blanks (replicate k 32 @ render_arg a @ r) = a @ r"
    using False h by (simp add: skip_replicate render_arg_def skip_stop)
  have "take_arg False (SHELL_ARG_LEN - 1) (a @ r) = (a, r)" using assms False by (intro take_plain) (auto simp: arg_ok_def)
  then show ?thesis using h by (subst parse_from.simps) (simp add: sk Let_def)
qed

lemma parse_blank_head: "parse_from n (32 # s) = parse_from n s"
  by (subst (1 2) parse_from.simps) simp

lemma parse_render:
  "\<forall>(k, a) \<in> set ps. arg_ok a \<Longrightarrow> length ps \<le> n \<Longrightarrow> parse_from n (render_line ps) = map snd ps"
proof (induction ps arbitrary: n)
  case Nil
  show ?case by (subst parse_from.simps) simp
next
  case (Cons p ps)
  obtain k a where p: "p = (k, a)" by fastforce
  obtain m where m: "n = Suc m" using Cons.prems(2) by (cases n) auto
  have ih: "parse_from m (render_line ps) = map snd ps" using Cons by (simp add: m)
  have nil: "parse_from m [] = []" by (subst parse_from.simps) simp
  show ?case
    using parse_one [of a "if ps = [] then [] else 32 # render_line ps" m k] Cons.prems ih nil
    by (cases "ps = []") (auto simp: p m parse_blank_head)
qed

lemma skip_nonempty: "\<exists>c \<in> set s. c \<noteq> 32 \<Longrightarrow> skip_blanks s \<noteq> []"
  by (induction s) auto

lemma render_nonempty: "arg_ok a \<Longrightarrow> skip_blanks (render_line ((k, a) # ps)) \<noteq> []"
  by (rule skip_nonempty) (cases a; auto simp: arg_ok_def render_arg_def)

section \<open>The table of commands\<close>

lemma commands_distinct: "distinct (map c_name (shell_init []))"
  by code_simp

lemma command_names_ok: "list_all (arg_ok \<circ> c_name) (shell_init [])"
  by code_simp

lemma find_command:
  "distinct (map c_name cs) \<Longrightarrow> c \<in> set cs \<Longrightarrow> find (\<lambda>x. c_name x = c_name c) cs = Some c"
  by (induction cs) auto

section \<open>Properties\<close>

text \<open>Whatever the line, parsing it terminates with at most sixteen arguments, none empty and
  each short enough to leave room for its terminating zero.\<close>

theorem shell_parse_bounds:
  "length (shell_parse line) \<le> SHELL_MAX_ARGS \<and> (\<forall>a. a \<in> set (shell_parse line) \<longrightarrow> 0 < length a \<and> length a < SHELL_ARG_LEN)"
  using parse_from_bounds [of SHELL_MAX_ARGS line] by (simp add: shell_parse_def)

lemma shell_parse_bounds_witness:
  "length (shell_parse [101, 32, 34, 34, 97]) \<le> 16 \<and> shell_parse [101, 32, 34, 34, 97] \<noteq> []"
proof -
  have "shell_parse [101, 32, 34, 34, 97] = [[101], [97]]" by code_simp
  then show ?thesis using shell_parse_bounds [of "[101, 32, 34, 34, 97]"] by (simp add: SHELL_MAX_ARGS_def)
qed

text \<open>C19: Every command \<open>shell_init\<close> registers can be reached: for the line of its name and any
  arguments, each quoted when it holds a blank and with any blanks between them, \<open>shell_execute\<close>
  runs that command's function on exactly those arguments and nothing else.\<close>

theorem shell_runs_command:
  assumes "c \<in> set (shell_init [])" "\<forall>(k, a) \<in> set ps. arg_ok a" "length ps < SHELL_MAX_ARGS"
  shows "shell_execute run tell (shell_init []) (render_line ((k, c_name c) # ps)) s = run (c_fn c) (c_name c # map snd ps) s"
proof -
  have n: "arg_ok (c_name c)" using assms(1) command_names_ok by (simp add: list_all_iff)
  then have p: "shell_parse (render_line ((k, c_name c) # ps)) = c_name c # map snd ps"
    unfolding shell_parse_def using assms(2,3) by (subst parse_render) auto
  show ?thesis
    using find_command [OF commands_distinct assms(1)] render_nonempty [OF n]
    by (simp add: shell_execute_def Let_def p del: render_line.simps)
qed

lemma shell_runs_command_witness:
  "shell_execute (\<lambda>f args s. Some (f, args)) (\<lambda>_ s. s) (shell_init []) [101, 99, 104, 111, 32, 34, 97, 32, 98, 34] (Cmd_help, [])
   = Some (Cmd_echo, [[101, 99, 104, 111], [97, 32, 98]])"
proof -
  let ?c = "\<lparr>c_name = [101, 99, 104, 111], c_help = map of_char ''Print arguments'', c_fn = Cmd_echo\<rparr>"
  have "shell_init [] ! 2 = ?c" "2 < length (shell_init [])" by code_simp+
  then have "?c \<in> set (shell_init [])" by (metis nth_mem)
  from shell_runs_command [OF this, of "[(0, [97, 32, 98])]" "\<lambda>f args s. Some (f, args)" "\<lambda>_ s. s" 0 "(Cmd_help, [])"]
  show ?thesis by (simp add: arg_ok_def SHELL_ARG_LEN_def SHELL_MAX_ARGS_def render_arg_def)
qed

end
