(* ===== verification/Shell.thy ===== *)
theory Shell
  imports ShellParse TerminalProps EnvVars OsMath Pit Keyboard
begin

unbundle bit_operations_syntax

text \<open>
  The shell's commands (\<^verbatim>\<open>kernel/shell.cpp\<close>), each on the state of the components it calls.
  What a command does outside the model (reading an argument that was not given, a null string, an
  unmapped address, or waiting for ever) is \<open>None\<close>. While a command waits, interrupts move the
  timer and the keyboard as the parameters say; what other processes do meanwhile is not modelled.
\<close>

section \<open>The machine\<close>

datatype power = PowerOn | Rebooting | Halted

record sys =
  kern :: kern
  screen_term :: terminal
  keys :: kbd
  envs :: env
  smem :: mem
  cmds :: "shell_command list"
  power :: power

text \<open>Numbers of the linked kernel: where a process' slot, the entry stubs, the test process and the arguments lie; and
  what interrupts do during the turns of a wait.\<close>

record params =
  p_slot :: "nat \<Rightarrow> u32"
  p_entry :: u32
  p_user_entry :: u32
  p_counter :: u32
  p_args :: u32
  p_ticks :: "nat \<Rightarrow> nat"
  p_keys :: "nat \<Rightarrow> kbd \<Rightarrow> kbd"

definition tell :: "term_call list \<Rightarrow> sys \<Rightarrow> sys" where
  "tell cs s = s\<lparr>screen_term := fold perform cs (screen_term s)\<rparr>"

definition the_pit :: "sys \<Rightarrow> pit" where
  "the_pit s = \<lparr>pit_tick_count = pit_now (ksched (kern s)), pit_frequency = pit_hz (ksched (kern s))\<rparr>"

definition set_pit :: "pit \<Rightarrow> sys \<Rightarrow> sys" where
  "set_pit p s = s\<lparr>kern := (kern s)\<lparr>ksched := (ksched (kern s))\<lparr>pit_now := pit_tick_count p\<rparr>\<rparr>\<rparr>"

definition with_vfs :: "(vfs \<Rightarrow> (vfs \<times> 'a) option) \<Rightarrow> sys \<Rightarrow> (sys \<times> 'a) option" where
  "with_vfs f s = map_option (\<lambda>(v, x). (s\<lparr>kern := set_vfs v (kern s)\<rparr>, x)) (f (the_vfs (kern s)))"

definition put_num :: "u32 \<Rightarrow> term_call list" where
  "put_num n = put_calls (uint_text n 10)"

definition put_pad :: "int \<Rightarrow> u8 \<Rightarrow> term_call list" where
  "put_pad n c = replicate (nat n) (PutChar c)"

text \<open>The arguments as they lie in memory.\<close>

definition arg_addr :: "params \<Rightarrow> nat \<Rightarrow> u32" where
  "arg_addr P i = p_args P + 4 + 64 * of_nat i"

definition put_args :: "params \<Rightarrow> bytes list \<Rightarrow> mem \<Rightarrow> mem" where
  "put_args P argv m = fold (\<lambda>(i, a) m. write_bytes m (arg_addr P i) (a @ [0])) (zip [0..<length argv] argv) m"

section \<open>Help, text and statistics\<close>

definition HELP_PAGE_SIZE :: nat where "HELP_PAGE_SIZE = 16"

definition help_row :: "shell_command \<Rightarrow> term_call list" where
  "help_row c = [FgColor 10] @ msg ''  '' @ put_calls (c_name c) @ [ResetColor]
     @ put_pad (12 - int (length (c_name c))) 32 @ [FgColor 7] @ put_calls (c_help c) @ [ResetColor] @ newline"

partial_function (option) keyboard_wait_key :: "(nat \<Rightarrow> kbd \<Rightarrow> kbd) \<Rightarrow> nat \<Rightarrow> kbd \<Rightarrow> (kbd \<times> u8) option" where
  "keyboard_wait_key env i k =
     (if keyboard_haschar k then Some (keyboard_getchar k) else keyboard_wait_key env (Suc i) (env i k))"

definition more_prompt :: "params \<Rightarrow> sys \<Rightarrow> sys option" where
  "more_prompt P s = do {
     let s = tell ([FgColor 14] @ msg ''-- More (Any key) --'' @ newline @ [ResetColor]) s;
     p \<leftarrow> pit_sleep (p_ticks P) 1 (the_pit s);
     (k, _) \<leftarrow> keyboard_wait_key (p_keys P) 0 (keys s);
     Some ((set_pit p s)\<lparr>keys := k\<rparr>)
   }"

fun help_rows :: "params \<Rightarrow> nat \<Rightarrow> shell_command list \<Rightarrow> sys \<Rightarrow> sys option" where
  "help_rows P n [] s = Some s"
| "help_rows P n (c # cs) s =
     (let s = tell (help_row c) s in
      if HELP_PAGE_SIZE \<le> n + 1 \<and> cs \<noteq> [] then Option.bind (more_prompt P s) (help_rows P 0 cs)
      else help_rows P (n + 1) cs s)"

definition cmd_help :: "params \<Rightarrow> bytes list \<Rightarrow> sys \<Rightarrow> sys option" where
  "cmd_help P argv s =
     (if length argv < 2 then
        help_rows P 0 (cmds s)
          (tell (in_color 11 (msg ''Available commands (Press any key for next page):'' @ newline)) s)
      else Some (case find (\<lambda>c. c_name c = argv ! 1) (cmds s) of
          None \<Rightarrow> s
        | Some c \<Rightarrow> tell ([FgColor 11] @ newline @ msg ''Help for '' @ [FgColor 10] @ put_calls (c_name c) @ [ResetColor]
            @ msg '': '' @ [ResetColor] @ put_calls (c_help c) @ newline) s))"

definition cmd_clear :: "sys \<Rightarrow> sys" where
  "cmd_clear s = s\<lparr>screen_term := terminal_clear (screen_term s)\<rparr>"

definition echo_calls :: "bytes list \<Rightarrow> term_call list" where
  "echo_calls as = concat (map (\<lambda>(i, a). (if 0 < i then [PutChar 32] else []) @ put_calls a) (zip [0..<length as] as))"

definition cmd_echo :: "bytes list \<Rightarrow> sys \<Rightarrow> sys" where
  "cmd_echo argv = tell (echo_calls (tl argv) @ newline)"

definition mem_row :: "string \<Rightarrow> u32 \<Rightarrow> term_call list" where
  "mem_row what n = msg what @ put_num n @ msg '' KB'' @ newline"

definition cmd_mem :: "sys \<Rightarrow> sys option" where
  "cmd_mem s = do {
     let pm = pmm_st (kvm (ksched (kern s)));
     let h = kheap (ksched (kern s));
     let fr = pmm_free_pages pm * 4;
     let us = pmm_used_pages pm * 4;
     hfree \<leftarrow> heap_free h;
     Some (tell (in_color 14 (msg ''Memory information:'' @ newline)
       @ mem_row ''  Physical  total: '' (fr + us)
       @ in_color 10 (mem_row ''  Physical  free:  '' fr)
       @ in_color 12 (mem_row ''  Physical  used:  '' us)
       @ mem_row ''  Heap      total: '' (heap_total h div 1024)
       @ in_color 10 (mem_row ''  Heap      free:  '' (hfree div 1024))
       @ in_color 12 (mem_row ''  Heap      used:  '' (heap_used h div 1024))) s)
   }"

definition cmd_version :: "sys \<Rightarrow> sys" where
  "cmd_version = tell (in_color 11 (msg ''SabakaOS v0.0.7'' @ newline)
     @ msg ''  Arch:    x86 32-bit Protected Mode'' @ newline @ msg ''  Display: VGA text 80x25'' @ newline
     @ msg ''  Memory:  PMM + Paging + Heap'' @ newline @ msg ''  Input:   PS/2 Keyboard IRQ1'' @ newline
     @ msg ''  Shell:   SabakaShell v1.0'' @ newline)"

definition cmd_uptime :: "sys \<Rightarrow> sys" where
  "cmd_uptime s =
     (let ms = pit_uptime_ms (the_pit s); sec = ms div 1000; mn = sec div 60; hr = mn div 60
      in tell (in_color 14 (msg ''Uptime: '') @ put_num hr @ msg ''h '' @ put_num (mn mod 60) @ msg ''m '' @ put_num (sec mod 60)
           @ msg ''s ('' @ put_num ms @ msg '' ms)'' @ newline) s)"

definition cmd_sleep :: "params \<Rightarrow> bytes list \<Rightarrow> sys \<Rightarrow> sys option" where
  "cmd_sleep P argv s =
     (if length argv < 2 then Some (tell (msg ''Usage: sleep <milliseconds>'' @ newline) s)
      else do {
        n \<leftarrow> katoi (smem s) (arg_addr P 1);
        p \<leftarrow> pit_sleep_ms (p_ticks P) n (the_pit s);
        Some (set_pit p s)
      })"

section \<open>Directories and files\<close>

definition ls_row :: "bool \<Rightarrow> bytes \<Rightarrow> term_call list" where
  "ls_row dir nm = (if dir then in_color 14 (put_calls nm @ msg ''/'') else in_color 15 (put_calls nm)) @ newline"

partial_function (option) ls_loop :: "vref \<Rightarrow> u32 \<Rightarrow> vfs \<Rightarrow> (vfs \<times> term_call list) option" where
  "ls_loop d i v = do {
     (v, r) \<leftarrow> vfs_readdir d i v;
     (case r of None \<Rightarrow> Some (v, [])
      | Some nm \<Rightarrow> do {
          (v, ch) \<leftarrow> vfs_finddir d nm v;
          (w, cs) \<leftarrow> ls_loop d (i + 1) v;
          Some (w, ls_row (case ch of None \<Rightarrow> False | Some n \<Rightarrow> vtype (node n v) = VFS_DIR) nm @ cs)
        })
   }"

definition ls_calls :: "bytes list \<Rightarrow> vfs \<Rightarrow> (vfs \<times> term_call list) option" where
  "ls_calls argv v = do {
     (v, r) \<leftarrow> (if 2 \<le> length argv then vfs_resolve_path (argv ! 1) v else Some (v, Some (cwd_node v)));
     (case r of
        None \<Rightarrow> Some (v, msg ''ls: no such directory'' @ newline)
      | Some d \<Rightarrow> if vtype (node d v) \<noteq> VFS_DIR then Some (v, msg ''ls: not a directory'' @ newline) else ls_loop d 0 v)
   }"

definition then_tell :: "(vfs \<Rightarrow> (vfs \<times> term_call list) option) \<Rightarrow> sys \<Rightarrow> sys option" where
  "then_tell f s = map_option (\<lambda>(s, cs). tell cs s) (with_vfs f s)"

definition cmd_ls :: "bytes list \<Rightarrow> sys \<Rightarrow> sys option" where
  "cmd_ls argv = then_tell (ls_calls argv)"

definition cwd_path :: "vfs \<Rightarrow> bytes option" where
  "cwd_path v = Option.bind (value_of (vfs_get_cwd_path 256 v)) (\<lambda>p. p)"

definition cmd_pwd :: "sys \<Rightarrow> sys option" where
  "cmd_pwd s = map_option (\<lambda>p. tell (put_calls p @ newline) s) (cwd_path (the_vfs (kern s)))"

definition cmd_cd :: "bytes list \<Rightarrow> sys \<Rightarrow> sys option" where
  "cmd_cd argv s = do {
     (s, r) \<leftarrow> with_vfs (vfs_chdir (if 2 \<le> length argv then argv ! 1 else [47])) s;
     (if r \<noteq> 0 then Some (tell (msg ''cd: no such directory'' @ newline) s)
      else do {
        p \<leftarrow> cwd_path (the_vfs (kern s));
        Some (s\<lparr>screen_term := terminal_set_prompt_path p (screen_term s)\<rparr>)
      })
   }"

definition make_calls :: "(vref \<Rightarrow> bytes \<Rightarrow> vfs \<Rightarrow> (vfs \<times> vref option) option) \<Rightarrow> string \<Rightarrow> bytes list \<Rightarrow> vfs \<Rightarrow> (vfs \<times> term_call list) option" where
  "make_calls op nm argv v =
     (if length argv < 2 then Some (v, msg ''Usage: '' @ msg nm @ msg '' <name>'' @ newline)
      else do {
        (v, r) \<leftarrow> op (cwd_node v) (argv ! 1) v;
        Some (v, if r = None then msg nm @ msg '': failed (exists or no space)'' @ newline else [])
      })"

definition cmd_mkdir :: "bytes list \<Rightarrow> sys \<Rightarrow> sys option" where
  "cmd_mkdir argv = then_tell (make_calls vfs_mkdir ''mkdir'' argv)"

definition cmd_touch :: "bytes list \<Rightarrow> sys \<Rightarrow> sys option" where
  "cmd_touch argv = then_tell (make_calls vfs_create ''touch'' argv)"

text \<open>The chunks of a file, with whether the last byte was a line break.\<close>

partial_function (option) cat_loop :: "vref \<Rightarrow> u32 \<Rightarrow> bool \<Rightarrow> vfs \<Rightarrow> (vfs \<times> bool \<times> term_call list) option" where
  "cat_loop r off nl v =
     (if vsize (node r v) \<le> off then Some (v, nl, [])
      else
        let rem = vsize (node r v) - off in do {
          (v, k, bs) \<leftarrow> vfs_read r off (if 512 < rem then 512 else rem) v;
          (if k \<le> 0 then Some (v, nl, [])
           else do {
             (w, l, cs) \<leftarrow> cat_loop r (off + of_int k) (bs ! (nat k - 1) = 10) v;
             Some (w, l, put_calls (cstr (take (nat k) bs)) @ cs)
           })
        })"

definition cat_calls :: "bytes list \<Rightarrow> vfs \<Rightarrow> (vfs \<times> term_call list) option" where
  "cat_calls argv v =
     (if length argv < 2 then Some (v, msg ''Usage: cat <path>'' @ newline)
      else do {
        (v, r) \<leftarrow> vfs_resolve_path (argv ! 1) v;
        (case r of
           None \<Rightarrow> Some (v, msg ''cat: no such file'' @ newline)
         | Some n \<Rightarrow>
             if vtype (node n v) \<noteq> VFS_FILE then Some (v, msg ''cat: not a file'' @ newline)
             else
               let v = entry_size n v in
               if vsize (node n v) = 0 then Some (v, msg ''(empty)'' @ newline)
               else do {
                 (v, l, cs) \<leftarrow> cat_loop n 0 False v;
                 Some (v, cs @ (if l then [] else newline))
               })
      })"

definition cmd_cat :: "bytes list \<Rightarrow> sys \<Rightarrow> sys option" where
  "cmd_cat argv = then_tell (cat_calls argv)"

text \<open>The words joined in an array of \<open>VFS_MAX_FILE_DATA\<close> bytes, with room for a line break and a zero.\<close>

definition TEXT_ROOM :: nat where "TEXT_ROOM = unat VFS_MAX_FILE_DATA - 2"

fun write_text :: "bool \<Rightarrow> bytes list \<Rightarrow> bytes \<Rightarrow> bytes" where
  "write_text first [] t = t"
| "write_text first (w # ws) t =
     (if length t < TEXT_ROOM then
        (let t = (if first then t else t @ [32]) in write_text False ws (t @ take (TEXT_ROOM - length t) w))
      else t)"

definition dir_part :: "bytes \<Rightarrow> bytes" where
  "dir_part path = take (length path - length (last_component path) - 1) path"

definition parent_dir :: "bytes \<Rightarrow> vfs \<Rightarrow> (vfs \<times> vref option) option" where
  "parent_dir path v =
     (if 47 \<notin> set path then Some (v, Some (cwd_node v))
      else if dir_part path = [] then Some (v, Some (root_node v))
      else vfs_resolve_path (dir_part path) v)"

text \<open>The file to write, created when there is none: a message or the file.\<close>

definition write_target :: "bytes \<Rightarrow> vfs \<Rightarrow> (vfs \<times> (string + vref)) option" where
  "write_target path v = do {
     (v, r) \<leftarrow> vfs_resolve_path path v;
     (case r of
        Some n \<Rightarrow> Some (v, Inr n)
      | None \<Rightarrow> do {
          (v, d) \<leftarrow> parent_dir path v;
          (case d of
             None \<Rightarrow> Some (v, Inl ''write: directory not found'')
           | Some d \<Rightarrow> do {
               (v, n) \<leftarrow> vfs_create d (last_component path) v;
               Some (v, case n of None \<Rightarrow> Inl ''write: cannot create file'' | Some n \<Rightarrow> Inr n)
             })
        })
   }"

definition write_calls :: "bytes list \<Rightarrow> vfs \<Rightarrow> (vfs \<times> term_call list) option" where
  "write_calls argv v =
     (if length argv < 3 then Some (v, msg ''Usage: write <path> <text>'' @ newline)
      else do {
        (v, t) \<leftarrow> write_target (argv ! 1) v;
        (case t of
           Inl m \<Rightarrow> Some (v, msg m @ newline)
         | Inr n \<Rightarrow>
             if vtype (node n v) \<noteq> VFS_FILE then Some (v, msg ''write: not a file'' @ newline)
             else
               let text = write_text True (drop 2 argv) [] @ [10] in do {
                 (v, k) \<leftarrow> vfs_write n text 0 (of_nat (length text)) v;
                 Some (entry_size n v, if k < 0 then in_color 12 (msg ''write: disk write failed'' @ newline) else [])
               })
      })"

definition cmd_write :: "bytes list \<Rightarrow> sys \<Rightarrow> sys option" where
  "cmd_write argv = then_tell (write_calls argv)"

section \<open>Memory\<close>

definition hex_step :: "u8 \<Rightarrow> u32 \<Rightarrow> u32" where
  "hex_step c a =
     (let a = push_bit 4 a in
      if 48 \<le> c \<and> c \<le> 57 then a + (ucast c - 48)
      else if 97 \<le> c \<and> c \<le> 102 then a + (ucast c - 97 + 10)
      else if 65 \<le> c \<and> c \<le> 70 then a + (ucast c - 65 + 10)
      else a)"

definition hex_number :: "bytes \<Rightarrow> u32" where
  "hex_number s =
     (let s = (if 2 \<le> length s \<and> s ! 0 = 48 \<and> (s ! 1 = 120 \<or> s ! 1 = 88) then drop 2 s else s)
      in fold hex_step s 0)"

definition dump_row :: "u32 \<Rightarrow> bytes \<Rightarrow> term_call list" where
  "dump_row a bs =
     in_color 8 (put_pad (8 - int (length (uint_text a 16))) 48 @ put_calls (uint_text a 16) @ msg '':  '')
     @ concat (map (\<lambda>b. (if length (uint_text (ucast b) 16) < 2 then [PutChar 48] else []) @ put_calls (uint_text (ucast b) 16) @ [PutChar 32]) bs)
     @ msg '' |'' @ in_color 10 (map (\<lambda>b. PutChar (if 32 \<le> b \<and> b < 127 then b else 46)) bs) @ msg ''|'' @ newline"

text \<open>The rows of \<open>n\<close> bytes from \<open>a\<close> on, sixteen a row; \<open>None\<close> when one of them is not mapped.\<close>

function dump_rows :: "machine \<Rightarrow> u32 \<Rightarrow> nat \<Rightarrow> term_call list option" where
  "dump_rows m a n =
     (if n = 0 then Some []
      else
        let k = min 16 n; bs = user_bytes a k m in
        if length bs < k then None else map_option (\<lambda>cs. dump_row a bs @ cs) (dump_rows m (a + 16) (n - k)))"
  by pat_completeness auto
termination by (relation "measure (\<lambda>(m, a, n). n)") (auto simp: min_def)

declare dump_rows.simps [simp del]

definition cmd_hexdump :: "params \<Rightarrow> bytes list \<Rightarrow> sys \<Rightarrow> sys option" where
  "cmd_hexdump P argv s =
     (if length argv < 3 then Some (tell (msg ''Usage: hexdump <addr_hex> <size>'' @ newline) s)
      else do {
        n \<leftarrow> katoi (smem s) (arg_addr P 2);
        cs \<leftarrow> dump_rows (kmach (kern s)) (hex_number (argv ! 1)) (unat (if 256 < n then 256 else n));
        Some (tell cs s)
      })"

section \<open>Processes\<close>

fun proc_state_str :: "proc_state \<Rightarrow> string" where
  "proc_state_str PROC_RUNNING = ''RUN  ''"
| "proc_state_str PROC_READY = ''READY''"
| "proc_state_str PROC_BLOCKED = ''BLOCK''"
| "proc_state_str PROC_SLEEP = ''SLEEP''"
| "proc_state_str PROC_DEAD = ''DEAD ''"

definition right_num :: "nat \<Rightarrow> u32 \<Rightarrow> term_call list" where
  "right_num w n = put_pad (int w - int (length (uint_text n 10))) 32 @ put_num n"

definition ps_row :: "process \<Rightarrow> term_call list" where
  "ps_row p =
     right_num 4 (pid p) @ [PutChar 32]
     @ in_color (if pstate p = PROC_RUNNING then 10 else 7) (msg (proc_state_str (pstate p))) @ msg ''  ''
     @ right_num 3 (priority p) @ msg ''  '' @ right_num 8 (ticks_total p) @ msg ''  ''
     @ in_color 11 (put_calls (cstr (pname p))) @ newline"

definition cmd_ps :: "sys \<Rightarrow> sys" where
  "cmd_ps s = tell (in_color 14 (msg ''PID  STATE  PRI  TICKS     NAME'' @ newline @ msg ''---  -----  ---  --------  --------'' @ newline)
     @ concat (map (\<lambda>i. case scheduler_get (int i) (ksched (kern s)) of
          None \<Rightarrow> [] | Some p \<Rightarrow> if pstate p = PROC_DEAD then [] else ps_row p) [0..<PROC_MAX])) s"

definition kill_pid :: "u32 \<Rightarrow> sys \<Rightarrow> sys" where
  "kill_pid n s =
     (if n = 0 then tell (in_color 12 (msg ''Cannot kill kernel process (pid 0)'' @ newline)) s
      else case find (\<lambda>i. case scheduler_get (int i) (ksched (kern s)) of None \<Rightarrow> False
               | Some p \<Rightarrow> pid p = n \<and> pstate p \<noteq> PROC_DEAD) [0..<PROC_MAX] of
        Some i \<Rightarrow> tell (in_color 10 (msg ''Killed process '' @ put_calls (cstr (pname (procs (ksched (kern s)) ! i))) @ newline))
            (s\<lparr>kern := (kern s)\<lparr>ksched := upd_proc i (\<lambda>p. p\<lparr>pstate := PROC_DEAD\<rparr>) (ksched (kern s))\<rparr>\<rparr>)
      | None \<Rightarrow> tell (in_color 12 (msg ''No process with pid '' @ put_num n @ newline)) s)"

definition cmd_kill :: "params \<Rightarrow> bytes list \<Rightarrow> sys \<Rightarrow> sys option" where
  "cmd_kill P argv s =
     (if length argv < 2 then Some (tell (msg ''Usage: kill <pid>'' @ newline) s)
      else map_option (\<lambda>n. kill_pid n s) (katoi (smem s) (arg_addr P 1)))"

definition cmd_spawn :: "params \<Rightarrow> bytes list \<Rightarrow> sys \<Rightarrow> sys option" where
  "cmd_spawn P argv s =
     (if length argv < 2 then
        Some (tell (msg ''Usage: spawn <name>'' @ newline @ msg ''  Spawns a test counter process'' @ newline) s)
      else do {
        (c, r) \<leftarrow> process_create (p_slot P) (p_entry P) (p_counter P) 0 (argv ! 1) 5 (ksched (kern s));
        let s = s\<lparr>kern := (kern s)\<lparr>ksched := c\<rparr>\<rparr>;
        Some (tell (case r of
            Some i \<Rightarrow> in_color 10 (msg ''Spawned: '' @ put_calls (cstr (pname (procs c ! i))) @ msg '' (pid ''
                @ put_num (pid (procs c ! i)) @ msg '')'' @ newline)
          | None \<Rightarrow> in_color 12 (msg ''Failed to spawn process'' @ newline)) s)
      })"

section \<open>The rest\<close>

definition dog :: "term_call list" where
  "dog = newline @ msg ''      __      _'' @ newline @ msg ''    o'' @ [PutChar 39, PutChar 39] @ msg '')}____//'' @ newline
     @ msg ''     `_/      )'' @ newline @ msg ''     (_(_/-(_/'' @ newline"

definition cmd_dog :: "sys \<Rightarrow> sys" where
  "cmd_dog = tell dog"

definition cmd_dogsay :: "bytes list \<Rightarrow> sys \<Rightarrow> sys" where
  "cmd_dogsay argv =
     (let message = (if 1 < length argv then argv ! 1 else map of_char ''Woof!''); n = int (length message) + 2
      in tell (msg '' '' @ put_pad n 95 @ newline @ msg ''< '' @ put_calls message @ msg '' >'' @ newline
           @ msg '' '' @ put_pad n 32 @ msg '' '' @ dog))"

function u32_to_str :: "u32 \<Rightarrow> bytes" where
  "u32_to_str v = (if v div 10 = 0 then [] else u32_to_str (v div 10)) @ [48 + ucast (v mod 10)]"
  by pat_completeness auto
termination
proof (relation "measure unat", simp)
  fix v :: u32
  assume "v div 10 \<noteq> 0"
  then have "unat (v div 10) \<noteq> 0" by (simp add: unat_eq_0)
  then show "(v div 10, v) \<in> measure unat" by (simp add: unat_div)
qed

declare u32_to_str.simps [simp del]

definition cmd_math :: "bytes list \<Rightarrow> sys \<Rightarrow> sys option" where
  "cmd_math argv s =
     (if length argv < 2 then None
      else map_option (\<lambda>n. tell (put_calls (u32_to_str n) @ newline) s) (Option.bind (evaluate (argv ! 1)) value_of))"

definition cmd_env_set :: "params \<Rightarrow> bytes list \<Rightarrow> sys \<Rightarrow> sys option" where
  "cmd_env_set P argv s =
     (if length argv < 3 then None
      else map_option (\<lambda>e. s\<lparr>envs := e\<rparr>) (Option.bind (env_set (smem s) (arg_addr P 1) (arg_addr P 2) (envs s)) value_of))"

definition cmd_env_unset :: "params \<Rightarrow> bytes list \<Rightarrow> sys \<Rightarrow> sys option" where
  "cmd_env_unset P argv s =
     (if length argv < 2 then None
      else map_option (\<lambda>e. s\<lparr>envs := e\<rparr>) (env_unset (smem s) (arg_addr P 1) (envs s)))"

partial_function (option) mem_string :: "mem \<Rightarrow> u32 \<Rightarrow> bytes option" where
  "mem_string m a = (if m a = 0 then Some [] else do { t \<leftarrow> mem_string m (a + 1); Some (m a # t) })"

definition cmd_env_get :: "params \<Rightarrow> bytes list \<Rightarrow> sys \<Rightarrow> sys option" where
  "cmd_env_get P argv s =
     (if length argv < 2 then None
      else do {
        a \<leftarrow> env_get (smem s) (arg_addr P 1) (envs s);
        (if a = 0 then None else map_option (\<lambda>t. tell (put_calls t @ newline) s) (mem_string (smem s) a))
      })"

definition cmd_reboot :: "sys \<Rightarrow> sys" where
  "cmd_reboot s = (tell (in_color 12 (msg ''Rebooting...'' @ newline)) s)\<lparr>power := Rebooting\<rparr>"

definition cmd_halt :: "sys \<Rightarrow> sys" where
  "cmd_halt s = (tell (in_color 12 (msg ''System halted. Goodbye.'' @ newline)) s)\<lparr>power := Halted\<rparr>"

text \<open>The program loader makes its calls on the kernel's console; they reach the terminal here.\<close>

definition run_exec :: "params \<Rightarrow> bytes list \<Rightarrow> sys \<Rightarrow> sys option" where
  "run_exec P argv s =
     map_option (\<lambda>k. tell (console k) (s\<lparr>kern := k\<lparr>console := []\<rparr>\<rparr>))
       (cmd_exec (p_slot P) (p_user_entry P) argv ((kern s)\<lparr>console := []\<rparr>))"

text \<open>\<open>other\<close> runs the commands of the other files.\<close>

definition run_cmd :: "params \<Rightarrow> (shell_cmd \<Rightarrow> bytes list \<Rightarrow> sys \<Rightarrow> sys option) \<Rightarrow> shell_cmd \<Rightarrow> bytes list \<Rightarrow> sys \<Rightarrow> sys option" where
  "run_cmd P other c argv s0 =
     (let s = s0\<lparr>smem := put_args P argv (smem s0)\<rparr> in
      case c of
        Cmd_help \<Rightarrow> cmd_help P argv s
      | Cmd_clear \<Rightarrow> Some (cmd_clear s)
      | Cmd_echo \<Rightarrow> Some (cmd_echo argv s)
      | Cmd_mem \<Rightarrow> cmd_mem s
      | Cmd_version \<Rightarrow> Some (cmd_version s)
      | Cmd_ls \<Rightarrow> cmd_ls argv s
      | Cmd_pwd \<Rightarrow> cmd_pwd s
      | Cmd_cd \<Rightarrow> cmd_cd argv s
      | Cmd_mkdir \<Rightarrow> cmd_mkdir argv s
      | Cmd_touch \<Rightarrow> cmd_touch argv s
      | Cmd_cat \<Rightarrow> cmd_cat argv s
      | Cmd_write \<Rightarrow> cmd_write argv s
      | Cmd_uptime \<Rightarrow> Some (cmd_uptime s)
      | Cmd_sleep \<Rightarrow> cmd_sleep P argv s
      | Cmd_reboot \<Rightarrow> Some (cmd_reboot s)
      | Cmd_halt \<Rightarrow> Some (cmd_halt s)
      | Cmd_hexdump \<Rightarrow> cmd_hexdump P argv s
      | Cmd_spawn \<Rightarrow> cmd_spawn P argv s
      | Cmd_kill \<Rightarrow> cmd_kill P argv s
      | Cmd_ps \<Rightarrow> Some (cmd_ps s)
      | Cmd_dog \<Rightarrow> Some (cmd_dog s)
      | Cmd_dogsay \<Rightarrow> Some (cmd_dogsay argv s)
      | Cmd_math \<Rightarrow> cmd_math argv s
      | Cmd_env_get \<Rightarrow> cmd_env_get P argv s
      | Cmd_env_set \<Rightarrow> cmd_env_set P argv s
      | Cmd_env_unset \<Rightarrow> cmd_env_unset P argv s
      | Cmd_exec \<Rightarrow> run_exec P argv s
      | _ \<Rightarrow> other c argv s)"

end
