(* ===== verification/ShellProps.thy ===== *)
theory ShellProps
  imports Shell
begin

text \<open>
  The shell's commands and the terminal: whatever command runs, the text it writes stays in the
  terminal's area.
\<close>

section \<open>Steps of the terminal\<close>

definition term_kept :: "terminal \<Rightarrow> terminal \<Rightarrow> bool" where
  "term_kept t t' \<longleftrightarrow> (output_ok t \<longrightarrow> tdev t' = tdev t \<and> output_ok t' \<and>
     (if fb_available t then \<forall>a. over_row (tdev t) 28 a \<longrightarrow> tvram t' a = tvram t a
      else \<forall>i. text_margin i \<longrightarrow> tvga t' i = tvga t i))"

lemma term_kept_refl [simp]: "term_kept t t"
  by (simp add: term_kept_def)

lemma term_kept_trans: "term_kept t u \<Longrightarrow> term_kept u v \<Longrightarrow> term_kept t v"
  by (auto simp: term_kept_def split: if_splits)

lemma term_kept_perform: "term_kept t (perform c t)"
  using perform_confined [of t c] by (auto simp: term_kept_def)

lemma term_kept_fold: "term_kept t (fold perform cs t)"
  by (induction cs arbitrary: t) (auto intro: term_kept_trans term_kept_perform)

lemma term_kept_clear: "term_kept t (terminal_clear t)"
proof (cases "fb_available t")
  case True
  have "tvram (terminal_clear t) a = tvram t a" if "screen_ok t" "over_row (tdev t) 28 a" for a
    using True that fill_above [of "tdev t" 28 a "fb_term_x t" "fb_term_w t" "fb_term_h t"]
    by (simp add: terminal_clear_def on_vram_def screen_ok_def)
  moreover have "screen_ok t \<Longrightarrow> screen_ok (terminal_clear t) \<and> fb_cx (terminal_clear t) \<le> fb_term_w (terminal_clear t)"
    using True by (simp add: terminal_clear_def on_vram_def screen_ok_def)
  ultimately show ?thesis using True by (simp add: term_kept_def output_ok_def terminal_clear_def on_vram_def)
next
  case False
  have row: "fold (\<lambda>c. set_vga r c v) [0..VGA_COLS - 1] m i = m i" if "text_margin i" "3 \<le> r" "r < 24" for r m i v
    by (rule fold_keep, rule set_vga_margin [OF that(2,3) _ _ that(1)]) (auto simp: VGA_COLS_def)
  have "fold (\<lambda>r. fold (\<lambda>c. set_vga r c v) [0..VGA_COLS - 1]) [VGA_TERM_START..VGA_TERM_END - 1] m i = m i" if "text_margin i" for m i v
    by (rule fold_keep, rule row [OF that]) (auto simp: VGA_TERM_START_def VGA_TERM_END_def)
  then show ?thesis using False by (simp add: term_kept_def output_ok_def terminal_clear_def text_ok_def VGA_TERM_START_def)
qed

lemma term_kept_prompt: "term_kept t (terminal_set_prompt_path p t)"
  by (simp add: term_kept_def terminal_set_prompt_path_def output_ok_def screen_ok_def text_ok_def)

section \<open>Steps of the machine\<close>

definition term_stays :: "sys \<Rightarrow> sys \<Rightarrow> bool" where
  "term_stays s s' \<longleftrightarrow> term_kept (screen_term s) (screen_term s')"

lemma term_stays_refl [simp]: "term_stays s s"
  by (simp add: term_stays_def)

lemma term_stays_trans: "term_stays s u \<Longrightarrow> term_stays u v \<Longrightarrow> term_stays s v"
  unfolding term_stays_def by (rule term_kept_trans)

lemma term_stays_tell [simp]: "term_stays s (tell cs s)"
  by (simp add: term_stays_def tell_def term_kept_fold)

lemma term_stays_fields [simp]:
  "term_stays s (s\<lparr>kern := k\<rparr>)" "term_stays s (s\<lparr>keys := ks\<rparr>)" "term_stays s (s\<lparr>envs := e\<rparr>)" "term_stays s (s\<lparr>smem := m\<rparr>)" "term_stays s (s\<lparr>power := p\<rparr>)"
  "term_stays s (set_pit q s)"
  by (simp_all add: term_stays_def set_pit_def)

lemma term_stays_after:
  "term_stays s u \<Longrightarrow> term_stays s (tell cs u)" "term_stays s u \<Longrightarrow> term_stays s (u\<lparr>power := p\<rparr>)" "term_stays s u \<Longrightarrow> term_stays s (u\<lparr>keys := ks\<rparr>)"
  "term_stays s u \<Longrightarrow> term_stays s (set_pit q u)"
  by (blast intro: term_stays_trans term_stays_tell term_stays_fields)+

lemma with_vfs_stays: "with_vfs f s = Some (s', x) \<Longrightarrow> term_stays s s'"
  by (auto simp: with_vfs_def)

lemma then_tell_stays: "then_tell f s = Some s' \<Longrightarrow> term_stays s s'"
  by (auto simp: then_tell_def intro: term_stays_after with_vfs_stays)

named_theorems commands "the definitions of the commands"

lemmas [commands] = cmd_echo_def cmd_mem_def cmd_version_def cmd_uptime_def cmd_sleep_def cmd_ls_def cmd_pwd_def
  cmd_mkdir_def cmd_touch_def cmd_cat_def cmd_write_def cmd_hexdump_def cmd_ps_def cmd_kill_def cmd_dog_def cmd_dogsay_def
  cmd_math_def cmd_env_get_def cmd_env_set_def cmd_env_unset_def cmd_reboot_def cmd_halt_def

lemma more_stays: "more_prompt P s = Some s' \<Longrightarrow> term_stays s s'"
  by (auto simp: more_prompt_def Let_def bind_eq_Some_conv intro!: term_stays_after)

lemma help_rows_stays: "help_rows P n cs s = Some s' \<Longrightarrow> term_stays s s'"
proof (induction P n cs s arbitrary: s' rule: help_rows.induct)
  case (1 P n s)
  then show ?case by simp
next
  case (2 P n c cs s)
  let ?t = "tell (help_row c) s"
  show ?case
  proof (cases "HELP_PAGE_SIZE \<le> n + 1 \<and> cs \<noteq> []")
    case True
    then obtain u where u: "more_prompt P ?t = Some u" "help_rows P 0 cs u = Some s'"
      using "2.prems" by (auto simp: Let_def bind_eq_Some_conv)
    have "term_stays u s'" using "2.IH"(1) [OF refl True] u by blast
    with more_stays [OF u(1)] show ?thesis using term_stays_tell term_stays_trans by blast
  next
    case False
    then have "help_rows P (n + 1) cs ?t = Some s'" using "2.prems" by (auto simp: Let_def split: if_splits)
    with "2.IH"(2) [OF refl False] show ?thesis using term_stays_tell term_stays_trans by blast
  qed
qed

lemma help_stays: "cmd_help P argv s = Some s' \<Longrightarrow> term_stays s s'"
  by (auto simp: cmd_help_def split: if_splits option.splits dest!: help_rows_stays intro: term_stays_trans [OF term_stays_tell])

lemma prompt_stays [simp]: "term_stays s (s\<lparr>screen_term := terminal_set_prompt_path p (screen_term s)\<rparr>)"
  by (simp add: term_stays_def term_kept_prompt)

lemma cd_stays:
  assumes "cmd_cd argv s = Some s'"
  shows "term_stays s s'"
proof -
  from assms obtain u r where u: "with_vfs (vfs_chdir (if 2 \<le> length argv then argv ! 1 else [47])) s = Some (u, r)"
    and "s' = tell (msg ''cd: no such directory'' @ newline) u \<or> (\<exists>p. s' = u\<lparr>screen_term := terminal_set_prompt_path p (screen_term u)\<rparr>)"
    by (auto simp: cmd_cd_def bind_eq_Some_conv split: if_splits)
  then have "term_stays u s'" using term_stays_tell prompt_stays by metis
  with with_vfs_stays [OF u] show ?thesis by (rule term_stays_trans)
qed

lemma spawn_stays: "cmd_spawn P argv s = Some s' \<Longrightarrow> term_stays s s'"
  by (auto simp: cmd_spawn_def Let_def bind_eq_Some_conv split: if_splits option.splits intro!: term_stays_after)

lemma kill_stays: "term_stays s (kill_pid n s)"
  by (auto simp: kill_pid_def split: option.splits intro!: term_stays_after)

lemma exec_stays: "run_exec P argv s = Some s' \<Longrightarrow> term_stays s s'"
  by (auto simp: run_exec_def intro!: term_stays_after)

lemma clear_stays [simp]: "term_stays s (cmd_clear s)"
  by (simp add: cmd_clear_def term_stays_def term_kept_clear)

lemma run_cmd_stays:
  assumes "run_cmd P other c argv s = Some s'" "\<And>c s s'. other c argv s = Some s' \<Longrightarrow> term_stays s s'"
  shows "term_stays s s'"
proof -
  let ?s = "s\<lparr>smem := put_args P argv (smem s)\<rparr>"
  have "term_stays ?s s'"
    using assms(1) unfolding run_cmd_def Let_def
    by (cases c) (auto simp: commands Let_def bind_eq_Some_conv split: if_splits
        intro: term_stays_after then_tell_stays help_stays cd_stays spawn_stays kill_stays exec_stays assms(2))
  then show ?thesis using term_stays_fields(4) term_stays_trans by blast
qed

end
