(* ===== verification/ShellDisk.thy ===== *)
theory ShellDisk
  imports ShellProps SyscallProps
begin

unbundle bit_operations_syntax

text \<open>
  The shell's commands on files of the disk (\<^verbatim>\<open>kernel/shell_disk.cpp\<close>): copying, removing, moving
  and the disk's state. Texts outside ASCII are their bytes. A node of the RAM file system whose
  data the code reads as a FAT32 entry is outside the model (\<open>None\<close>), as is a name too long for the node's array.
\<close>

definition print_err :: "bytes \<Rightarrow> term_call list" where
  "print_err m = in_color 12 (put_calls m @ newline)"

definition print_ok :: "bytes \<Rightarrow> term_call list" where
  "print_ok m = in_color 10 (put_calls m @ newline)"

definition path_basename :: "bytes \<Rightarrow> bytes" where
  "path_basename path = last_component path"

text \<open>The path up to and with its last slash.\<close>

definition up_to_base :: "bytes \<Rightarrow> bytes" where
  "up_to_base path = take (length path - length (path_basename path)) path"

text \<open>The FAT32 entry behind a node: none, or one, or data of another kind.\<close>

definition fat_entry_of :: "vref \<Rightarrow> vfs \<Rightarrow> fat_entry option option" where
  "fat_entry_of r v = (case vdata (node r v) of NoData \<Rightarrow> Some None | DiskEntry e \<Rightarrow> Some (Some e) | FileData _ \<Rightarrow> None)"

section \<open>Copying\<close>

partial_function (option) cp_loop :: "vref \<Rightarrow> vref \<Rightarrow> u32 \<Rightarrow> vfs \<Rightarrow> (vfs \<times> term_call list) option" where
  "cp_loop src dst off v = do {
     (v, n, bs) \<leftarrow> vfs_read src off 512 v;
     (if n \<le> 0 then Some (v, [])
      else do {
        (v, w) \<leftarrow> vfs_write dst bs off (of_int n) v;
        (if w \<noteq> n then Some (v, print_err (str ''cp: write error'')) else cp_loop src dst (off + of_int n) v)
      })
   }"

text \<open>The directory and name to copy to.\<close>

definition cp_parent :: "bytes \<Rightarrow> vfs \<Rightarrow> (vfs \<times> vref option \<times> bytes) option" where
  "cp_parent dst_path v =
     (if up_to_base dst_path = [] then Some (v, Some (cwd_node v), path_basename dst_path)
      else do {
        (v, p) \<leftarrow> vfs_resolve_path (up_to_base dst_path) v;
        Some (v, p, path_basename dst_path)
      })"

definition cp_target :: "bytes \<Rightarrow> bytes \<Rightarrow> vfs \<Rightarrow> (vfs \<times> vref option \<times> bytes) option" where
  "cp_target src_path dst_path v = do {
     (v, d) \<leftarrow> vfs_resolve_path dst_path v;
     (case d of
        Some n \<Rightarrow>
          if vtype (node n v) = VFS_DIR then Some (v, Some n, path_basename src_path)
          else cp_parent dst_path v
      | None \<Rightarrow> cp_parent dst_path v)
   }"

definition copy_into_dir :: "vref \<Rightarrow> vref \<Rightarrow> bytes \<Rightarrow> vfs \<Rightarrow> (vfs \<times> term_call list) option" where
  "copy_into_dir src parent name v = do {
     (v, d) \<leftarrow> vfs_create parent name v;
     (case d of
        None \<Rightarrow> Some (v, print_err (str ''cp: cannot create destination file''))
      | Some dst \<Rightarrow> do {
          (v, buf) \<leftarrow> vkmalloc 512 v;
          (if buf = 0 then Some (v, print_err (str ''cp: out of memory''))
           else do {
             (v, cs) \<leftarrow> cp_loop src dst 0 v;
             let v = vkfree buf v;
             Some (set_node dst ((node dst v)\<lparr>vsize := vsize (node src v)\<rparr>) v, cs @ print_ok (str ''cp: done''))
           })
        })
   }"

definition cp_calls :: "bytes list \<Rightarrow> vfs \<Rightarrow> (vfs \<times> term_call list) option" where
  "cp_calls argv v =
     (if length argv < 3 then Some (v, print_err (str ''Usage: cp <src> <dst>''))
      else do {
        (v, r) \<leftarrow> vfs_resolve_path (argv ! 1) v;
        (case r of
           None \<Rightarrow> Some (v, print_err (str ''cp: source not found''))
         | Some src \<Rightarrow>
             if vtype (node src v) = VFS_DIR then Some (v, print_err (str ''cp: source is a directory''))
             else do {
               (v, d, name) \<leftarrow> cp_target (argv ! 1) (argv ! 2) v;
               (case d of
                  None \<Rightarrow> Some (v, print_err (str ''cp: destination directory not found''))
                | Some parent \<Rightarrow>
                    if vtype (node parent v) \<noteq> VFS_DIR then Some (v, print_err (str ''cp: destination directory not found''))
                    else copy_into_dir src parent name v)
             })
      })"

section \<open>Removing\<close>

partial_function (option) rm_children :: "vref \<Rightarrow> u32 \<Rightarrow> vfs \<Rightarrow> vfs option" where
  "rm_children d i v = do {
     (v, nm) \<leftarrow> vfs_readdir d i v;
     (case nm of
        None \<Rightarrow> Some v
      | Some name \<Rightarrow> do {
          (v, ch) \<leftarrow> vfs_finddir d name v;
          v \<leftarrow> (case ch of
             None \<Rightarrow> Some v
           | Some n \<Rightarrow>
               if vtype (node n v) = VFS_FILE then
                 (case fat_entry_of n v of
                    None \<Rightarrow> None
                  | Some None \<Rightarrow> Some v
                  | Some (Some e) \<Rightarrow> map_option fst (run_fat (fat32_unlink e) v))
               else Some v);
          rm_children d (i + 1) v
        })
   }"

definition rm_entry :: "(fat_entry \<Rightarrow> fat \<Rightarrow> (fat \<times> int) option) \<Rightarrow> bytes \<Rightarrow> bytes \<Rightarrow> vref \<Rightarrow> vfs \<Rightarrow> (vfs \<times> term_call list) option" where
  "rm_entry del err done r v = do {
     e \<leftarrow> fat_entry_of r v;
     (case e of
        None \<Rightarrow> Some (v, print_ok done)
      | Some e \<Rightarrow> do {
          (v, k) \<leftarrow> run_fat (del e) v;
          Some (v, if k \<noteq> FAT32_OK then print_err err else print_ok done)
        })
   }"

text \<open>The messages in Russian: what the usage says, "rm -r: name a directory", "rm: this is a directory. Use rm -r".\<close>

definition RM_USAGE :: bytes where "RM_USAGE = [85, 115, 97, 103, 101, 58, 32, 114, 109, 32, 60, 112, 97, 116, 104, 62, 32, 32, 40, 208, 184, 208, 187, 208, 184, 32, 114, 109, 32, 45, 114, 32, 60, 100, 105, 114, 62, 32, 208, 180, 208, 187, 209, 143, 32, 208, 180, 208, 184, 209, 128, 208, 181, 208, 186, 209, 130, 208, 190, 209, 128, 208, 184, 208, 185, 41]"
definition RM_NAME_DIR :: bytes where "RM_NAME_DIR = [114, 109, 32, 45, 114, 58, 32, 209, 131, 208, 186, 208, 176, 208, 182, 208, 184, 32, 208, 180, 208, 184, 209, 128, 208, 181, 208, 186, 209, 130, 208, 190, 209, 128, 208, 184, 209, 142]"
definition RM_IS_DIR :: bytes where "RM_IS_DIR = [114, 109, 58, 32, 209, 141, 209, 130, 208, 190, 32, 208, 180, 208, 184, 209, 128, 208, 181, 208, 186, 209, 130, 208, 190, 209, 128, 208, 184, 209, 143, 46, 32, 208, 152, 209, 129, 208, 191, 208, 190, 208, 187, 209, 140, 208, 183, 209, 131, 208, 185, 32, 114, 109, 32, 45, 114]"
definition MV_DISK_ONLY :: bytes where "MV_DISK_ONLY = [109, 118, 58, 32, 209, 130, 208, 190, 208, 187, 209, 140, 208, 186, 208, 190, 32, 100, 105, 115, 107, 45, 209, 132, 208, 176, 208, 185, 208, 187, 209, 139, 32, 208, 188, 208, 190, 208, 182, 208, 189, 208, 190, 32, 208, 191, 208, 181, 209, 128, 208, 181, 208, 188, 208, 181, 209, 137, 208, 176, 209, 130, 209, 140]"

definition rm_calls :: "bytes list \<Rightarrow> vfs \<Rightarrow> (vfs \<times> term_call list) option" where
  "rm_calls argv v =
     (if length argv < 2 then Some (v, print_err RM_USAGE)
      else if argv ! 1 = str ''-r'' \<and> length argv < 3 then Some (v, print_err RM_NAME_DIR)
      else
        let recursive = (argv ! 1 = str ''-r''); target = (if recursive then argv ! 2 else argv ! 1) in do {
          (v, r) \<leftarrow> vfs_resolve_path target v;
          (case r of
             None \<Rightarrow> Some (v, print_err (str ''rm: not found''))
           | Some n \<Rightarrow>
               if vtype (node n v) = VFS_DIR then
                 if \<not> recursive then Some (v, print_err RM_IS_DIR)
                 else do {
                   v \<leftarrow> rm_children n 0 v;
                   rm_entry fat32_rmdir (str ''rm -r: directory not empty or error'') (str ''rm: removed directory'') n v
                 }
               else rm_entry fat32_unlink (str ''rm: error deleting file'') (str ''rm: removed'') n v)
        })"

section \<open>Moving\<close>

definition cluster_behind :: "vref \<Rightarrow> vfs \<Rightarrow> u32 option" where
  "cluster_behind r v = map_option (\<lambda>e. case e of Some e \<Rightarrow> fcluster e | None \<Rightarrow> root_cluster (vfat v)) (fat_entry_of r v)"

text \<open>The directory's cluster and the name to move to, the cluster missing when there is no such directory.\<close>

definition mv_parent :: "fat_entry \<Rightarrow> bytes \<Rightarrow> vfs \<Rightarrow> (vfs \<times> u32 option \<times> bytes) option" where
  "mv_parent e dst_path v =
     (if up_to_base dst_path = [] then Some (v, Some (fdir_cluster e), path_basename dst_path)
      else do {
        (v, p) \<leftarrow> vfs_resolve_path (up_to_base dst_path) v;
        (case p of
           None \<Rightarrow> Some (v, None, path_basename dst_path)
         | Some n \<Rightarrow>
             if vtype (node n v) \<noteq> VFS_DIR then Some (v, None, path_basename dst_path)
             else do { c \<leftarrow> cluster_behind n v; Some (v, Some c, path_basename dst_path) })
      })"

definition mv_target :: "fat_entry \<Rightarrow> bytes \<Rightarrow> bytes \<Rightarrow> vfs \<Rightarrow> (vfs \<times> u32 option \<times> bytes) option" where
  "mv_target e src_path dst_path v = do {
     (v, d) \<leftarrow> vfs_resolve_path dst_path v;
     (case d of
        Some n \<Rightarrow>
          if vtype (node n v) = VFS_DIR then do { c \<leftarrow> cluster_behind n v; Some (v, Some c, path_basename src_path) }
          else mv_parent e dst_path v
      | None \<Rightarrow> mv_parent e dst_path v)
   }"

definition mv_calls :: "bytes list \<Rightarrow> vfs \<Rightarrow> (vfs \<times> term_call list) option" where
  "mv_calls argv v =
     (if length argv < 3 then Some (v, print_err (str ''Usage: mv <src> <dst>''))
      else do {
        (v, r) \<leftarrow> vfs_resolve_path (argv ! 1) v;
        (case r of
           None \<Rightarrow> Some (v, print_err (str ''mv: source not found''))
         | Some src \<Rightarrow> do {
             en \<leftarrow> fat_entry_of src v;
             (case en of
                None \<Rightarrow> Some (v, print_err MV_DISK_ONLY)
              | Some e \<Rightarrow> do {
                  (v, c, name) \<leftarrow> mv_target e (argv ! 1) (argv ! 2) v;
                  (case c of
                     None \<Rightarrow> Some (v, print_err (str ''mv: destination directory not found''))
                   | Some cl \<Rightarrow> do {
                       (v, e', k) \<leftarrow> run_fat (fat32_rename e cl name) v;
                       (let v = set_node src ((node src v)\<lparr>vdata := DiskEntry e'\<rparr>) v in
                        if k \<noteq> FAT32_OK then Some (v, print_err (str ''mv: error''))
                        else if \<not> fits_name name then None
                        else Some (set_node src ((node src v)\<lparr>vname := name\<rparr>) v, print_ok (str ''mv: done'')))
                     })
                })
           })
      })"

section \<open>The disk's state\<close>

text \<open>The number of sectors the drive reported is a parameter.\<close>

definition disk_calls :: "u32 \<Rightarrow> vfs \<Rightarrow> (vfs \<times> term_call list) option" where
  "disk_calls nsec v =
     Some (v, if \<not> disk_present (vfat v) then print_err (str ''disk: ATA disk not found'')
       else in_color 11 (msg ''=== ATA Disk ==='' @ newline) @ msg ''Status:  '' @ msg ''present'' @ newline
         @ msg ''Sectors: '' @ put_num nsec @ newline
         @ msg ''Size:    '' @ put_num (nsec div 2) @ msg '' KB ('' @ put_num (nsec div 2048) @ msg '' MB)'' @ newline
         @ msg ''FAT32:   '' @ msg (if mounted (vfat v) then ''mounted at /disk'' else ''not mounted'') @ newline
         @ msg ''VFS:     '' @ msg (if fat32_mounted v then ''disk mounted in VFS'' else ''not in VFS'') @ newline)"

section \<open>All commands on files\<close>

definition cmd_cp :: "bytes list \<Rightarrow> sys \<Rightarrow> sys option" where
  "cmd_cp argv = then_tell (cp_calls argv)"

definition cmd_rm :: "bytes list \<Rightarrow> sys \<Rightarrow> sys option" where
  "cmd_rm argv = then_tell (rm_calls argv)"

definition cmd_mv :: "bytes list \<Rightarrow> sys \<Rightarrow> sys option" where
  "cmd_mv argv = then_tell (mv_calls argv)"

definition cmd_disk :: "u32 \<Rightarrow> sys \<Rightarrow> sys option" where
  "cmd_disk nsec = then_tell (disk_calls nsec)"

definition run_disk :: "u32 \<Rightarrow> (shell_cmd \<Rightarrow> bytes list \<Rightarrow> sys \<Rightarrow> sys option) \<Rightarrow> shell_cmd \<Rightarrow> bytes list \<Rightarrow> sys \<Rightarrow> sys option" where
  "run_disk nsec other c argv s =
     (case c of
        Cmd_cp \<Rightarrow> cmd_cp argv s
      | Cmd_rm \<Rightarrow> cmd_rm argv s
      | Cmd_mv \<Rightarrow> cmd_mv argv s
      | Cmd_disk \<Rightarrow> cmd_disk nsec s
      | _ \<Rightarrow> other c argv s)"

section \<open>The terminal\<close>

lemma run_disk_stays:
  "run_disk n other c argv s = Some s' \<Longrightarrow> (\<And>c argv s s'. other c argv s = Some s' \<Longrightarrow> term_stays s s') \<Longrightarrow> term_stays s s'"
  by (cases c) (auto simp: run_disk_def cmd_cp_def cmd_rm_def cmd_mv_def cmd_disk_def intro: then_tell_stays)

end
