(* ===== verification/ShellNet.thy ===== *)
theory ShellNet
  imports Net ShellDisk
begin

unbundle bit_operations_syntax

text \<open>
  The shell's commands on the network (\<^verbatim>\<open>kernel/shell_net.cpp\<close>), on the machine of the other
  commands and the network stack beside it. The stack runs on the kernel's heap and clock. What
  arrives while a command waits is a parameter, as in Net: the functions of \<open>nparams\<close> move the
  connections or the stack during a halt. Texts outside ASCII are their bytes.
\<close>

section \<open>The machine with its network\<close>

type_synonym nsys = "stack \<times> sys"

text \<open>What happens while the calls of the commands halt, by turn of the command's loop and halt of the turn, and the
  timer's count when the uptime reads a given number of milliseconds.\<close>

record nparams =
  n_connect :: "nat \<Rightarrow> tcp \<Rightarrow> tcp"
  n_send :: "nat \<Rightarrow> nat \<Rightarrow> tcp \<Rightarrow> tcp"
  n_turn :: "nat \<Rightarrow> nat \<Rightarrow> tcp \<Rightarrow> tcp"
  n_close :: "nat \<Rightarrow> tcp \<Rightarrow> tcp"
  n_query :: "nat \<Rightarrow> nat \<Rightarrow> stack \<Rightarrow> stack"
  n_listen :: "nat \<Rightarrow> nat \<Rightarrow> stack \<Rightarrow> stack"
  n_clock :: "u32 \<Rightarrow> u32"

definition say_to :: "term_call list \<Rightarrow> nsys \<Rightarrow> nsys" where
  "say_to cs S = (fst S, Shell.tell cs (snd S))"

text \<open>The stack with the kernel's heap and uptime, and the machine after the stack has run.\<close>

definition enter_stack :: "nsys \<Rightarrow> stack" where
  "enter_stack S = (let n = fst S; s = snd S in
     n\<lparr>stcp := (stcp n)\<lparr>uptime := pit_uptime_ms (the_pit s), tnet := (snet n)\<lparr>nheap := kheap (ksched (kern s))\<rparr>\<rparr>\<rparr>)"

definition leave_stack :: "nparams \<Rightarrow> sys \<Rightarrow> stack \<Rightarrow> nsys" where
  "leave_stack N s n =
     (let s1 = s\<lparr>kern := set_heap (nheap (snet n)) (kern s)\<rparr> in
      (n, if uptime (stcp n) = pit_uptime_ms (the_pit s) then s1
          else set_pit ((the_pit s)\<lparr>pit_tick_count := n_clock N (uptime (stcp n))\<rparr>) s1))"

definition in_stack :: "nparams \<Rightarrow> (stack \<Rightarrow> (stack \<times> 'a) option) \<Rightarrow> nsys \<Rightarrow> (nsys \<times> 'a) option" where
  "in_stack N f S = map_option (\<lambda>(n, x). (leave_stack N (snd S) n, x)) (f (enter_stack S))"

definition in_tcp :: "nparams \<Rightarrow> (tcp \<Rightarrow> (tcp \<times> 'a) option) \<Rightarrow> nsys \<Rightarrow> (nsys \<times> 'a) option" where
  "in_tcp N f = in_stack N (\<lambda>n. map_option (\<lambda>(t, x). (n\<lparr>stcp := t\<rparr>, x)) (f (stcp n)))"

definition get_mem :: "u32 \<Rightarrow> nsys \<Rightarrow> (nsys \<times> u32) option" where
  "get_mem n S = map_option (\<lambda>(h, p). ((fst S, (snd S)\<lparr>kern := set_heap h (kern (snd S))\<rparr>), p)) (kmalloc (kheap (ksched (kern (snd S)))) n)"

definition free_mem :: "u32 \<Rightarrow> nsys \<Rightarrow> nsys" where
  "free_mem p S = (fst S, (snd S)\<lparr>kern := set_heap (kfree (kheap (ksched (kern (snd S)))) p) (kern (snd S))\<rparr>)"

definition number_arg :: "params \<Rightarrow> nat \<Rightarrow> nsys \<Rightarrow> u32 option" where
  "number_arg P i S = katoi (smem (snd S)) (arg_addr P i)"

definition rtl8139_present :: "nsys \<Rightarrow> bool" where
  "rtl8139_present S = rtl_present (nic (snet (fst S)))"

definition complain :: "string \<Rightarrow> nsys \<Rightarrow> nsys" where
  "complain m = say_to (print_err (map of_char m))"

section \<open>Addresses and packets\<close>

definition hex_byte :: "u8 \<Rightarrow> bytes" where
  "hex_byte b = [HEX ! unat (drop_bit 4 b), HEX ! unat (b AND 0xF)]"

definition mac_calls :: "bytes \<Rightarrow> term_call list" where
  "mac_calls mac = concat (map (\<lambda>i. put_calls (hex_byte (mac ! i)) @ (if i < 5 then [PutChar 58] else [])) [0..<6])"

definition cmd_ifconfig :: "nsys \<Rightarrow> nsys" where
  "cmd_ifconfig S =
     (if \<not> rtl8139_present S then complain ''ifconfig: no NIC'' S
      else say_to (in_color 11 (msg ''eth0:'' @ newline) @ msg ''  MAC: '' @ mac_calls (rtl_mac (nic (snet (fst S)))) @ newline
        @ msg ''  IP:  '' @ put_calls (ip_to_str (my_ip (snet (fst S)))) @ newline @ msg ''  GW:  10.0.2.2'' @ newline) S)"

definition echo_request :: "nat \<Rightarrow> bytes" where
  "echo_request i =
     (let body = bytes16 (htons 0x5AB4) @ bytes16 (htons (of_nat i)) @ map of_nat [0..<32]
      in [8, 0] @ bytes16 (ip_checksum ([8, 0, 0, 0] @ body)) @ body)"

definition ping_frame :: "bytes \<Rightarrow> u32 \<Rightarrow> nat \<Rightarrow> net \<Rightarrow> bytes" where
  "ping_frame mac dst i n = eth_frame mac (my_mac n) ETH_TYPE_IP
     (ip_header 60 (of_nat (200 + i)) 0 IP_PROTO_ICMP (my_ip n) dst @ echo_request i)"

fun ping_each :: "params \<Rightarrow> bytes \<Rightarrow> u32 \<Rightarrow> nat list \<Rightarrow> nsys \<Rightarrow> nsys option" where
  "ping_each P mac dst [] S = Some S"
| "ping_each P mac dst (i # is) S =
     (let n = fst (send_on (ping_frame mac dst i (snet (fst S))) (snet (fst S)));
          S = say_to (msg ''  seq='' @ put_num (of_nat i) @ msg '' sent'' @ newline) (set_net n (fst S), snd S) in do {
        p \<leftarrow> pit_sleep_ms (p_ticks P) 500 (the_pit (snd S));
        ping_each P mac dst is (fst S, set_pit p (snd S))
      })"

definition cmd_ping :: "params \<Rightarrow> bytes list \<Rightarrow> nsys \<Rightarrow> nsys option" where
  "cmd_ping P argv S =
     (if length argv < 2 then Some (say_to (msg ''Usage: ping <ip>'' @ newline) S)
      else if \<not> rtl8139_present S then Some (complain ''ping: no NIC'' S)
      else
        let dst = ip_from_str (argv ! 1) in
        if dst = 0 then Some (complain ''ping: bad IP'' S)
        else
          let S = say_to (msg ''PING '' @ put_calls (ip_to_str dst) @ msg '':'' @ newline) S; mac = dst_mac dst (snet (fst S)) in do {
            (S, p) \<leftarrow> get_mem 74 S;
            (if p = 0 then Some (complain ''ping: OOM'' S)
             else do {
               S \<leftarrow> ping_each P mac dst [0..<4] S;
               Some (say_to (msg ''ping: done (ICMP replies processed via net_poll)'' @ newline) (free_mem p S))
             })
          })"

definition cmd_udpsend :: "params \<Rightarrow> nparams \<Rightarrow> bytes list \<Rightarrow> nsys \<Rightarrow> nsys option" where
  "cmd_udpsend P N argv S =
     (if length argv < 4 then Some (say_to (msg ''Usage: udpsend <ip> <port> <msg>'' @ newline) S)
      else if \<not> rtl8139_present S then Some (complain ''udpsend: no NIC'' S)
      else do {
        port \<leftarrow> number_arg P 2 S;
        (S, ok) \<leftarrow> in_stack N (\<lambda>n. map_option (\<lambda>(m, ok). (set_net m n, ok))
          (net_udp_send (ip_from_str (argv ! 1)) 12345 (ucast port) (argv ! 3) (snet n))) S;
        Some (if ok then say_to (print_ok (map of_char ''udpsend: sent'')) S else complain ''udpsend: failed'' S)
      })"

definition cmd_netstat :: "nsys \<Rightarrow> nsys" where
  "cmd_netstat S = say_to (in_color 11 (msg ''=== Network ==='' @ newline) @ msg ''NIC:  RTL8139 ''
     @ (if rtl8139_present S then msg ''[OK]'' @ newline @ msg ''IP:   '' @ put_calls (ip_to_str (my_ip (snet (fst S)))) @ newline
          @ msg ''GW:   10.0.2.2 (QEMU SLIRP)'' @ newline @ msg ''TCP:  active (IRQ queue + retransmit)'' @ newline
        else msg ''[NOT FOUND]'' @ newline)) S"

definition cmd_arp :: "nsys \<Rightarrow> nsys" where
  "cmd_arp = say_to (msg ''ARP cache:'' @ newline
     @ msg ''  10.0.2.2  -> 52:55:0A:00:02:02 (QEMU SLIRP gateway)'' @ newline
     @ msg ''  10.0.2.3  -> 52:55:0A:00:02:02 (QEMU SLIRP DNS)'' @ newline
     @ msg ''  (dynamic entries cached on receive)'' @ newline)"

section \<open>Fetching a page\<close>

text \<open>The last four bytes seen before the body, and how many bytes went by.\<close>

record wget =
  in_body :: bool
  body_bytes :: u32
  window :: bytes
  win_fill :: u32

definition CRLF2 :: bytes where "CRLF2 = [13, 10, 13, 10]"

text \<open>The bytes behind the end of the header, if it ends in these.\<close>

fun header_scan :: "bytes \<Rightarrow> bytes \<Rightarrow> u32 \<Rightarrow> bytes \<times> u32 \<times> bytes option" where
  "header_scan [] w k = (w, k, None)"
| "header_scan (c # cs) w k =
     (let w = tl w @ [c]; k = k + 1 in
      if 4 \<le> k \<and> w = CRLF2 then (w, k, Some cs) else header_scan cs w k)"

definition wget_take :: "bytes \<Rightarrow> wget \<Rightarrow> wget \<times> term_call list" where
  "wget_take bs g =
     (if in_body g then (g\<lparr>body_bytes := body_bytes g + of_nat (length bs)\<rparr>, put_calls (cstr bs))
      else case header_scan bs (window g) (win_fill g) of (w, k, r) \<Rightarrow>
        let g = g\<lparr>window := w, win_fill := k\<rparr> in
        (case r of
           None \<Rightarrow> (g, [])
         | Some rest \<Rightarrow> (g\<lparr>in_body := True, body_bytes := body_bytes g + of_nat (length rest)\<rparr>, put_calls (cstr rest))))"

definition wget_start :: wget where
  "wget_start = \<lparr>in_body = False, body_bytes = 0, window = [0, 0, 0, 0], win_fill = 0\<rparr>"

text \<open>What one turn of the receiving loop got: nothing yet, the end of the stream, or data.\<close>

datatype received = Again | Finished | Data bytes

definition RBUF :: u16 where "RBUF = 512"

definition sock_state :: "int \<Rightarrow> nsys \<Rightarrow> tcp_state" where
  "sock_state k S = tcp_state_of k (stcp (fst S))"

definition wget_recv :: "nparams \<Rightarrow> int \<Rightarrow> nat \<Rightarrow> nsys \<Rightarrow> (nsys \<times> received) option" where
  "wget_recv N sock i S = do {
     (S, n, bs) \<leftarrow> in_tcp N (tcp_recv_wait (n_turn N i) sock RBUF 200) S;
     (if 0 < n then Some (S, Data bs)
      else if sock_state sock S \<in> {TCP_CLOSE_WAIT, TCP_LAST_ACK, TCP_CLOSED, TCP_TIME_WAIT} then do {
        (S, n, bs) \<leftarrow> in_tcp N (\<lambda>t. Some (tcp_recv sock RBUF t)) S;
        Some (S, if 0 < n then Data bs else Finished)
      }
      else Some (S, Again))
   }"

partial_function (option) wget_loop :: "nparams \<Rightarrow> int \<Rightarrow> nat \<Rightarrow> wget \<Rightarrow> nsys \<Rightarrow> (nsys \<times> wget) option" where
  "wget_loop N sock i g S = do {
     (S, r) \<leftarrow> wget_recv N sock i S;
     (case r of
        Again \<Rightarrow> wget_loop N sock (Suc i) g S
      | Finished \<Rightarrow> Some (S, g)
      | Data bs \<Rightarrow>
          (case wget_take bs g of (g, cs) \<Rightarrow>
             let S = say_to cs S in
             if sock_state sock S \<in> {TCP_CLOSED, TCP_TIME_WAIT} then Some (S, g) else wget_loop N sock (Suc i) g S))
   }"

definition close_sock :: "nparams \<Rightarrow> int \<Rightarrow> nsys \<Rightarrow> nsys option" where
  "close_sock N k S = map_option fst (in_tcp N (\<lambda>t. map_option (\<lambda>t. (t, ())) (tcp_close (n_close N) k t)) S)"

definition http_request :: "bytes \<Rightarrow> bytes \<Rightarrow> bytes" where
  "http_request path host = map of_char ''GET '' @ path @ map of_char '' HTTP/1.0'' @ [13, 10] @ map of_char ''Host: '' @ host
     @ [13, 10] @ map of_char ''User-Agent: SabakaOS/1.0'' @ [13, 10] @ map of_char ''Connection: close'' @ CRLF2"

text \<open>The request's buffer holds it: an argument has at most 63 characters.\<close>

definition wget_request :: "nparams \<Rightarrow> int \<Rightarrow> bytes \<Rightarrow> nsys \<Rightarrow> (nsys \<times> bool) option" where
  "wget_request N sock req S = do {
     (S, p) \<leftarrow> get_mem 512 S;
     (if p = 0 then do { S \<leftarrow> close_sock N sock (complain ''wget: OOM'' S); Some (S, False) }
      else do {
        (S, n) \<leftarrow> in_tcp N (tcp_send (n_send N) sock req) S;
        (if n < 0 then do { S \<leftarrow> close_sock N sock (free_mem p (complain ''wget: send failed'' S)); Some (S, False) }
         else Some (free_mem p S, True))
      })
   }"

definition wget_page :: "nparams \<Rightarrow> int \<Rightarrow> nsys \<Rightarrow> nsys option" where
  "wget_page N sock S = do {
     (S, p) \<leftarrow> get_mem (ucast RBUF + 1) S;
     (if p = 0 then close_sock N sock (complain ''wget: OOM'' S)
      else do {
        (S, g) \<leftarrow> wget_loop N sock 0 wget_start (say_to [FgColor 7] S);
        S \<leftarrow> close_sock N sock (free_mem p (say_to ([ResetColor] @ newline) S));
        Some (say_to (in_color 10 (newline @ msg ''[wget] '' @ put_num (body_bytes g) @ msg '' bytes received'' @ newline)) S)
      })
   }"

definition connecting :: "bytes list \<Rightarrow> u32 \<Rightarrow> term_call list" where
  "connecting argv port = msg ''Connecting to '' @ put_calls (ip_to_str (ip_from_str (argv ! 1))) @ [PutChar 58]
     @ put_num (ucast (ucast port :: u16)) @ msg '' ...'' @ newline"

definition connect_to :: "nparams \<Rightarrow> bytes list \<Rightarrow> u32 \<Rightarrow> nsys \<Rightarrow> (nsys \<times> nat option) option" where
  "connect_to N argv port S =
     in_tcp N (tcp_connect (n_connect N) (ip_from_str (argv ! 1)) (ucast port) 5000) (say_to (connecting argv port) S)"

definition cmd_wget :: "params \<Rightarrow> nparams \<Rightarrow> bytes list \<Rightarrow> nsys \<Rightarrow> nsys option" where
  "cmd_wget P N argv S =
     (if length argv < 4 then
        Some (say_to (msg ''Usage: wget <ip> <port> <path>'' @ newline @ msg ''  Example: wget 10.0.2.2 80 /'' @ newline) S)
      else if \<not> rtl8139_present S then Some (complain ''wget: no NIC'' S)
      else do {
        port \<leftarrow> number_arg P 2 S;
        (S, c) \<leftarrow> connect_to N argv port S;
        (case c of
           None \<Rightarrow> Some (complain ''wget: connect failed'' S)
         | Some sock \<Rightarrow> do {
             (S, ok) \<leftarrow> wget_request N (int sock) (http_request (argv ! 3) (ip_to_str (ip_from_str (argv ! 1))))
               (say_to (print_ok (map of_char ''Connected.'')) S);
             (if ok then wget_page N (int sock) S else Some S)
           })
      })"

section \<open>A connection and its data\<close>

definition now_ms :: "nsys \<Rightarrow> u32" where
  "now_ms S = pit_uptime_ms (the_pit (snd S))"

partial_function (option) tcpconnect_loop :: "nparams \<Rightarrow> int \<Rightarrow> u32 \<Rightarrow> nat \<Rightarrow> nsys \<Rightarrow> nsys option" where
  "tcpconnect_loop N sock deadline i S =
     (if now_ms S < deadline then do {
        (S, n, bs) \<leftarrow> in_tcp N (tcp_recv_wait (n_turn N i) sock 256 100) S;
        (let S = (if 0 < n then say_to (put_calls (cstr bs)) S else S) in
         if sock_state sock S \<in> {TCP_CLOSED, TCP_TIME_WAIT} then Some S else tcpconnect_loop N sock deadline (Suc i) S)
      }
      else Some S)"

definition cmd_tcpconnect :: "params \<Rightarrow> nparams \<Rightarrow> bytes list \<Rightarrow> nsys \<Rightarrow> nsys option" where
  "cmd_tcpconnect P N argv S =
     (if length argv < 3 then Some (say_to (msg ''Usage: tcpconnect <ip> <port>'' @ newline) S)
      else if \<not> rtl8139_present S then Some (complain ''tcpconnect: no NIC'' S)
      else do {
        port \<leftarrow> number_arg P 2 S;
        (S, c) \<leftarrow> connect_to N argv port S;
        (case c of
           None \<Rightarrow> Some (complain ''tcpconnect: failed'' S)
         | Some sock \<Rightarrow> do {
             (S, p) \<leftarrow> get_mem 257 (say_to (print_ok (map of_char ''Connected. Reading for 5s...'' @ [10])) S);
             (if p = 0 then close_sock N (int sock) S
              else do {
                S \<leftarrow> tcpconnect_loop N (int sock) (now_ms S + 5000) 0 S;
                S \<leftarrow> close_sock N (int sock) (free_mem p S);
                Some (say_to (newline @ msg ''[connection closed]'' @ newline) S)
              })
           })
      })"

section \<open>Names\<close>

definition cmd_nslookup :: "nparams \<Rightarrow> bytes list \<Rightarrow> nsys \<Rightarrow> nsys option" where
  "cmd_nslookup N argv S =
     (if length argv < 2 then Some (say_to (msg ''Usage: nslookup <hostname>'' @ newline) S)
      else if \<not> rtl8139_present S then Some (complain ''nslookup: no NIC'' S)
      else
        let host = argv ! 1 in do {
          (S, ip) \<leftarrow> in_stack N (dns_resolve (n_query N) host) (say_to (msg ''Resolving: '' @ put_calls host @ msg '' ...'' @ newline) S);
          Some (if ip = 0 then complain ''nslookup: failed (NXDOMAIN or timeout)'' S
                else say_to (in_color 10 (put_calls host @ msg '' -> '' @ put_calls (ip_to_str ip) @ newline)) S)
        })"

definition cache_row :: "u32 \<Rightarrow> dns_entry \<Rightarrow> term_call list" where
  "cache_row now e =
     (if \<not> dvalid e \<or> ddeadline e \<le> now then []
      else msg ''  '' @ put_calls (cstr (dname e)) @ msg '' -> '' @ put_calls (ip_to_str (dip e)) @ msg '' (TTL ''
        @ put_num ((ddeadline e - now) div 1000) @ msg ''s)'' @ newline)"

definition cmd_dnscache :: "nsys \<Rightarrow> nsys" where
  "cmd_dnscache S =
     (let c = dcache (sdns (fst S)); now = now_ms S in
      if dns_cache_count now c = 0 then say_to (msg ''DNS cache is empty'' @ newline) S
      else say_to (in_color 11 (msg ''DNS cache:'' @ newline)
        @ concat (map (\<lambda>i. case dns_cache_get (int i) c of None \<Rightarrow> [] | Some e \<Rightarrow> cache_row now e) [0..<DNS_CACHE_SIZE])) S)"

section \<open>Listening\<close>

definition packet_row :: "udp_packet \<Rightarrow> term_call list" where
  "packet_row p =
     in_color 14 (msg ''[UDP] from '' @ put_calls (ip_to_str (usrc_ip p)) @ [PutChar 58] @ put_num (ucast (usrc_port p)) @ msg '' (''
       @ put_num (ucast (ulen p)) @ msg '' bytes): '')
     @ map (\<lambda>c. PutChar (if 32 \<le> c \<and> c < 127 then c else 46)) (take (unat (if ulen p < 128 then ulen p else 128)) (udata p))
     @ (if 128 < ulen p then msg ''...'' else []) @ newline"

partial_function (option) listen_loop :: "nparams \<Rightarrow> int \<Rightarrow> u32 \<Rightarrow> nat \<Rightarrow> u32 \<Rightarrow> nsys \<Rightarrow> (nsys \<times> u32) option" where
  "listen_loop N h deadline i count S =
     (if now_ms S < deadline then do {
        (S, r) \<leftarrow> in_stack N (udpl_recv_wait (n_listen N i) h 500) S;
        (case r of
           None \<Rightarrow> listen_loop N h deadline (Suc i) count S
         | Some p \<Rightarrow> listen_loop N h deadline (Suc i) (count + 1) (say_to (packet_row p) S))
      }
      else Some (S, count))"

text \<open>The code's text has a dash outside ASCII. The number of seconds is printed into an array of 8 bytes;
  a longer one overruns it.\<close>

definition listen_banner :: "u16 \<Rightarrow> u32 \<Rightarrow> term_call list" where
  "listen_banner port secs = in_color 11 (msg ''Listening on UDP port '' @ put_num (ucast port) @ msg '' ('' @ put_num secs
     @ msg ''s, Ctrl+C not supported '' @ put_calls [226, 128, 148] @ msg '' will auto-stop)'' @ newline)"

definition cmd_udplisten :: "params \<Rightarrow> nparams \<Rightarrow> bytes list \<Rightarrow> nsys \<Rightarrow> nsys option" where
  "cmd_udplisten P N argv S =
     (if length argv < 2 then Some (say_to (msg ''Usage: udplisten <port> [timeout_sec]'' @ newline) S)
      else if \<not> rtl8139_present S then Some (complain ''udplisten: no NIC'' S)
      else do {
        port \<leftarrow> number_arg P 1 S;
        secs \<leftarrow> (if 3 \<le> length argv then number_arg P 2 S else Some 10);
        (S, h) \<leftarrow> in_stack N (\<lambda>n. Some (udpl_open (ucast port) n)) S;
        (if 0 \<le> h \<and> 8 \<le> length (uint_text secs 10) then None
         else if h < 0 then Some (complain ''udplisten: no free listener slots'' S)
         else
           let S = say_to (listen_banner (ucast port) secs) S in do {
             (S, count) \<leftarrow> listen_loop N h (now_ms S + secs * 1000) 0 0 S;
             (S, _) \<leftarrow> in_stack N (\<lambda>n. Some (udpl_close h n, ())) S;
             Some (say_to (in_color 10 (msg ''[udplisten] stopped. Received '' @ put_num count @ msg '' packets'' @ newline)) S)
           })
      })"

section \<open>Dispatch\<close>

text \<open>\<^verbatim>\<open>wgetd\<close> hands a line to the shell: \<open>exec\<close>.\<close>

definition wget_line :: "bytes \<Rightarrow> bytes \<Rightarrow> bytes \<Rightarrow> bytes" where
  "wget_line ip port path = map of_char ''wget '' @ ip @ [32] @ port @ [32] @ path"

definition cmd_wgetd :: "(bytes \<Rightarrow> nsys \<Rightarrow> nsys option) \<Rightarrow> nparams \<Rightarrow> bytes list \<Rightarrow> nsys \<Rightarrow> nsys option" where
  "cmd_wgetd exec N argv S =
     (if length argv < 4 then
        Some (say_to (msg ''Usage: wgetd <hostname> <port> <path>'' @ newline @ msg ''  Example: wgetd example.com 80 /'' @ newline) S)
      else if \<not> rtl8139_present S then Some (complain ''wgetd: no NIC'' S)
      else do {
        (S, ip) \<leftarrow> in_stack N (dns_resolve (n_query N) (argv ! 1)) S;
        (if ip = 0 then Some (complain ''wgetd: DNS resolve failed'' S)
         else exec (wget_line (ip_to_str ip) (argv ! 2) (argv ! 3))
           (say_to (msg ''Resolved '' @ put_calls (argv ! 1) @ msg '' -> '' @ put_calls (ip_to_str ip) @ newline) S))
      })"

definition run_net :: "params \<Rightarrow> nparams \<Rightarrow> u32 \<Rightarrow> (bytes \<Rightarrow> nsys \<Rightarrow> nsys option) \<Rightarrow> shell_cmd \<Rightarrow> bytes list \<Rightarrow> nsys \<Rightarrow> nsys option" where
  "run_net P N disk_size exec c argv S0 =
     (let S = (fst S0, (snd S0)\<lparr>smem := put_args P argv (smem (snd S0))\<rparr>) in
      case c of
        Cmd_ifconfig \<Rightarrow> Some (cmd_ifconfig S)
      | Cmd_ping \<Rightarrow> cmd_ping P argv S
      | Cmd_udpsend \<Rightarrow> cmd_udpsend P N argv S
      | Cmd_netstat \<Rightarrow> Some (cmd_netstat S)
      | Cmd_arp \<Rightarrow> Some (cmd_arp S)
      | Cmd_wget \<Rightarrow> cmd_wget P N argv S
      | Cmd_tcpconnect \<Rightarrow> cmd_tcpconnect P N argv S
      | Cmd_nslookup \<Rightarrow> cmd_nslookup N argv S
      | Cmd_dnscache \<Rightarrow> Some (cmd_dnscache S)
      | Cmd_udplisten \<Rightarrow> cmd_udplisten P N argv S
      | Cmd_wgetd \<Rightarrow> cmd_wgetd exec N argv S
      | _ \<Rightarrow> map_option (Pair (fst S0)) (run_cmd P (run_disk disk_size (\<lambda>_ _ _. None)) c argv (snd S0)))"

text \<open>The shell; \<open>k\<close> bounds how deep lines run other lines.\<close>

fun run_line :: "nat \<Rightarrow> params \<Rightarrow> nparams \<Rightarrow> u32 \<Rightarrow> bytes \<Rightarrow> nsys \<Rightarrow> nsys option" where
  "run_line 0 P N disk_size l S = None"
| "run_line (Suc k) P N disk_size l S =
     shell_execute (run_net P N disk_size (run_line k P N disk_size)) say_to (cmds (snd S)) l S"

end
