(* ===== verification/ShellNetProps.thy ===== *)
theory ShellNetProps
  imports ShellNet
begin

unbundle bit_operations_syntax

text \<open>
  Properties of the whole shell, the network's commands among the others: where its output goes, how deep a
  line runs other lines, and what \<^verbatim>\<open>wget\<close> makes of the pieces a connection delivers.
\<close>

section \<open>The terminal\<close>

definition net_stays :: "nsys \<Rightarrow> nsys \<Rightarrow> bool" where
  "net_stays S S' \<longleftrightarrow> term_stays (snd S) (snd S')"

lemma net_stays_refl [simp]: "net_stays S S"
  by (simp add: net_stays_def)

lemma net_stays_trans: "net_stays S S1 \<Longrightarrow> net_stays S1 S2 \<Longrightarrow> net_stays S S2"
  unfolding net_stays_def by (rule term_stays_trans)

lemma say_to_stays [simp]: "net_stays S (say_to cs S)"
  by (simp add: net_stays_def say_to_def)

lemma complain_stays [simp]: "net_stays S (complain m S)"
  by (simp add: complain_def)

lemma leave_stays: "term_stays s (snd (leave_stack N s n))"
  by (auto simp: leave_stack_def Let_def intro: term_stays_after)

lemma stack_stays: "in_stack N f S = Some (S', x) \<Longrightarrow> net_stays S S'"
  by (auto simp: in_stack_def net_stays_def leave_stays)

lemma tcp_stays: "in_tcp N f S = Some (S', x) \<Longrightarrow> net_stays S S'"
  unfolding in_tcp_def by (rule stack_stays)

lemma get_mem_stays: "get_mem n S = Some (S', p) \<Longrightarrow> net_stays S S'"
  by (auto simp: get_mem_def net_stays_def)

lemma free_mem_stays [simp]: "net_stays S (free_mem p S)"
  by (simp add: free_mem_def net_stays_def)

lemma close_stays: "close_sock N k S = Some S' \<Longrightarrow> net_stays S S'"
  by (auto simp: close_sock_def intro: tcp_stays)

lemma ping_stays: "ping_each P mac dst is S = Some S' \<Longrightarrow> net_stays S S'"
proof (induction "is" arbitrary: S)
  case (Cons i "is")
  from Cons.prems obtain n s p where r: "ping_each P mac dst is (n, set_pit p (Shell.tell s (snd S))) = Some S'"
    by (auto simp: Let_def say_to_def bind_eq_Some_conv)
  have "term_stays (snd S) (set_pit p (Shell.tell s (snd S)))" by (intro term_stays_after) simp
  with Cons.IH [OF r] show ?case by (auto simp: net_stays_def intro: term_stays_trans)
qed simp

lemma wget_recv_stays: "wget_recv N sock i S = Some (S', r) \<Longrightarrow> net_stays S S'"
  by (auto simp: wget_recv_def bind_eq_Some_conv split: if_splits intro: net_stays_trans tcp_stays)

lemma wget_loop_stays:
  assumes "wget_loop N sock i g S = Some r"
  shows "net_stays S (fst r)"
  using assms
proof (induction rule: wget_loop.raw_induct [rotated 1, consumes 1, case_names step])
  case (step f N sock i g S r)
  obtain S1 x where t: "wget_recv N sock i S = Some (S1, x)" using step(2) by (auto simp: bind_eq_Some_conv)
  have "net_stays S1 (fst r)"
  proof (cases x)
    case (Data bs)
    obtain h cs where w: "wget_take bs g = (h, cs)" by fastforce
    have "net_stays (say_to cs S1) (fst r)"
      using step(2) step(1) [of N sock "Suc i" h "say_to cs S1" r] by (auto simp: t Data w Let_def split: if_splits)
    then show ?thesis using say_to_stays net_stays_trans by blast
  qed (use step in \<open>auto simp: t\<close>)
  with wget_recv_stays [OF t] show ?case by (rule net_stays_trans)
qed

lemma tcpconnect_loop_stays:
  assumes "tcpconnect_loop N sock d i S = Some S'"
  shows "net_stays S S'"
  using assms
proof (induction rule: tcpconnect_loop.raw_induct [rotated 1, consumes 1, case_names step])
  case (step f N sock d i S S')
  show ?case
  proof (cases "now_ms S < d")
    case True
    then obtain S1 n bs where t: "in_tcp N (tcp_recv_wait (n_turn N i) sock 256 100) S = Some (S1, n, bs)"
      using step(2) by (auto simp: bind_eq_Some_conv)
    let ?S2 = "if 0 < n then say_to (put_calls (cstr bs)) S1 else S1"
    have "net_stays S1 ?S2" by simp
    moreover have "net_stays ?S2 S'"
      using step(2) step(1) [of N sock d "Suc i" ?S2 S'] True by (auto simp: t Let_def split: if_splits)
    ultimately show ?thesis using tcp_stays [OF t] net_stays_trans by blast
  qed (use step in auto)
qed

lemma listen_loop_stays:
  assumes "listen_loop N h d i c S = Some r"
  shows "net_stays S (fst r)"
  using assms
proof (induction rule: listen_loop.raw_induct [rotated 1, consumes 1, case_names step])
  case (step f N h d i c S r)
  show ?case
  proof (cases "now_ms S < d")
    case True
    then obtain S1 x where t: "in_stack N (udpl_recv_wait (n_listen N i) h 500) S = Some (S1, x)"
      using step(2) by (auto simp: bind_eq_Some_conv)
    let ?S2 = "case x of None \<Rightarrow> S1 | Some p \<Rightarrow> say_to (packet_row p) S1"
    have "net_stays S1 ?S2" by (simp split: option.split)
    moreover have "net_stays ?S2 (fst r)"
      using step(2) step(1) [of N h d "Suc i" _ ?S2 r] True by (auto simp: t split: option.splits)
    ultimately show ?thesis using stack_stays [OF t] net_stays_trans by blast
  qed (use step in auto)
qed

section \<open>Programs that keep the terminal\<close>

text \<open>A program started in \<open>S\<close>: \<open>\<pi>\<close> takes the state from its result.\<close>

definition keeps :: "('r \<Rightarrow> nsys) \<Rightarrow> nsys \<Rightarrow> 'r option \<Rightarrow> bool" where
  "keeps \<pi> S m \<longleftrightarrow> (\<forall>r. m = Some r \<longrightarrow> net_stays S (\<pi> r))"

lemma keepsD: "keeps \<pi> S m \<Longrightarrow> m = Some r \<Longrightarrow> net_stays S (\<pi> r)"
  by (simp add: keeps_def)

lemma keeps_ret: "net_stays S S' \<Longrightarrow> keeps (\<lambda>S. S) S (Some S')" "net_stays S S' \<Longrightarrow> keeps fst S (Some (S', x))"
  by (simp_all add: keeps_def)

lemma keeps_None: "keeps \<pi> S None"
  by (simp add: keeps_def)

lemma keeps_bind_state: "keeps (\<lambda>S. S) S m \<Longrightarrow> (\<And>S1. keeps \<pi> S1 (k S1)) \<Longrightarrow> keeps \<pi> S (Option.bind m k)"
  by (auto simp: keeps_def bind_eq_Some_conv intro: net_stays_trans)

lemma keeps_bind_pair: "keeps fst S m \<Longrightarrow> (\<And>S1 x. keeps \<pi> S1 (k S1 x)) \<Longrightarrow> keeps \<pi> S (Option.bind m (case_prod k))"
  by (fastforce simp: keeps_def bind_eq_Some_conv intro: net_stays_trans)

lemma keeps_bind_u32: "(\<And>x. keeps \<pi> S (k x)) \<Longrightarrow> keeps \<pi> S (Option.bind (m :: u32 option) k)"
  by (auto simp: keeps_def bind_eq_Some_conv)

lemma keeps_if: "(b \<Longrightarrow> keeps \<pi> S m) \<Longrightarrow> (\<not> b \<Longrightarrow> keeps \<pi> S m') \<Longrightarrow> keeps \<pi> S (if b then m else m')"
  by simp

lemma keeps_option: "keeps \<pi> S m \<Longrightarrow> (\<And>x. keeps \<pi> S (k x)) \<Longrightarrow> keeps \<pi> S (case y of None \<Rightarrow> m | Some x \<Rightarrow> k x)"
  by (simp split: option.split)

lemma keeps_prod: "(\<And>x y. keeps \<pi> S (k x y)) \<Longrightarrow> keeps \<pi> S (case z of (x, y) \<Rightarrow> k x y)"
  by (simp split: prod.split)

lemma keeps_ops:
  "net_stays S S1 \<Longrightarrow> keeps fst S (in_stack N f S1)" "net_stays S S1 \<Longrightarrow> keeps fst S (in_tcp N g S1)"
  "net_stays S S1 \<Longrightarrow> keeps fst S (get_mem n S1)" "net_stays S S1 \<Longrightarrow> keeps (\<lambda>S. S) S (close_sock N k S1)"
  "net_stays S S1 \<Longrightarrow> keeps (\<lambda>S. S) S (ping_each P mac dst is S1)" "net_stays S S1 \<Longrightarrow> keeps fst S (wget_loop N k i w S1)"
  "net_stays S S1 \<Longrightarrow> keeps (\<lambda>S. S) S (tcpconnect_loop N k d i S1)" "net_stays S S1 \<Longrightarrow> keeps fst S (listen_loop N h d i c S1)"
  by (auto simp: keeps_def dest!: stack_stays tcp_stays get_mem_stays close_stays ping_stays wget_loop_stays
      tcpconnect_loop_stays listen_loop_stays intro: net_stays_trans)

lemma after_say [simp]:
  "net_stays S S1 \<Longrightarrow> net_stays S (say_to cs S1)" "net_stays S S1 \<Longrightarrow> net_stays S (complain m S1)" "net_stays S S1 \<Longrightarrow> net_stays S (free_mem p S1)"
  by (blast intro: net_stays_trans say_to_stays complain_stays free_mem_stays)+

lemmas keeps_intros = keeps_ret keeps_None keeps_ops keeps_bind_pair keeps_bind_u32 keeps_bind_state keeps_if keeps_option keeps_prod

section \<open>The commands\<close>

lemma connect_keeps: "net_stays S S1 \<Longrightarrow> keeps fst S (connect_to N argv port S1)"
  unfolding connect_to_def by (intro keeps_intros) simp

lemma request_keeps: "net_stays S S1 \<Longrightarrow> keeps fst S (wget_request N sock req S1)"
  unfolding wget_request_def by (intro keeps_intros; simp)

lemma page_keeps: "net_stays S S1 \<Longrightarrow> keeps (\<lambda>S. S) S (wget_page N sock S1)"
  unfolding wget_page_def by (intro keeps_intros; simp)

lemma plain_stays:
  "net_stays S (cmd_ifconfig S)" "net_stays S (cmd_netstat S)" "net_stays S (cmd_arp S)" "net_stays S (cmd_dnscache S)"
  by (simp_all add: cmd_ifconfig_def cmd_netstat_def cmd_arp_def cmd_dnscache_def Let_def)

lemma command_keeps:
  "keeps (\<lambda>S. S) S (cmd_ping P argv S)" "keeps (\<lambda>S. S) S (cmd_udpsend P N argv S)" "keeps (\<lambda>S. S) S (cmd_wget P N argv S)"
  "keeps (\<lambda>S. S) S (cmd_tcpconnect P N argv S)" "keeps (\<lambda>S. S) S (cmd_nslookup N argv S)" "keeps (\<lambda>S. S) S (cmd_udplisten P N argv S)"
  unfolding cmd_ping_def cmd_udpsend_def cmd_wget_def cmd_tcpconnect_def cmd_nslookup_def cmd_udplisten_def Let_def
  by (intro keeps_intros connect_keeps request_keeps page_keeps; simp)+

lemma wgetd_keeps:
  "(\<And>l S S'. exec l S = Some S' \<Longrightarrow> net_stays S S') \<Longrightarrow> keeps (\<lambda>S. S) S (cmd_wgetd exec N argv S)"
proof -
  assume e: "\<And>l S S'. exec l S = Some S' \<Longrightarrow> net_stays S S'"
  have x: "keeps (\<lambda>S. S) S (exec l S1)" if "net_stays S S1" for S S1 l using that e unfolding keeps_def by (blast intro: net_stays_trans)
  show ?thesis unfolding cmd_wgetd_def by (intro keeps_intros x; simp)
qed

lemma run_net_stays:
  assumes "run_net P N disk_size exec c argv S = Some S'" "\<And>l S S'. exec l S = Some S' \<Longrightarrow> net_stays S S'"
  shows "net_stays S S'"
proof -
  let ?S = "(fst S, (snd S)\<lparr>smem := put_args P argv (smem (snd S))\<rparr>)"
  have s: "net_stays S ?S" by (simp add: net_stays_def)
  have d: "run_disk disk_size (\<lambda>_ _ _. None) c argv s = Some s' \<Longrightarrow> term_stays s s'" for c argv s s'
    by (rule run_disk_stays) auto
  have r: "net_stays ?S (fst S, s')" if "run_cmd P (run_disk disk_size (\<lambda>_ _ _. None)) c argv (snd S) = Some s'" for s'
    using run_cmd_stays [OF that d] by (simp add: net_stays_def term_stays_def)
  have w: "keeps (\<lambda>S. S) S1 (cmd_wgetd exec N argv S1)" for S1 by (rule wgetd_keeps) (rule assms(2))
  have "net_stays ?S S'"
    using assms(1) unfolding run_net_def Let_def
    by (cases c) (auto dest: command_keeps [THEN keepsD] w [THEN keepsD] intro: plain_stays r)
  with s show ?thesis by (rule net_stays_trans)
qed

lemma run_line_stays: "run_line k P N disk_size l S = Some S' \<Longrightarrow> net_stays S S'"
proof (induction k arbitrary: l S S')
  case (Suc k)
  have x: "net_stays S S'" if "run_line k P N disk_size l S = Some S'" for l S S' using Suc.IH [OF that] .
  show ?case using Suc.prems run_net_stays [OF _ x] by (auto simp: shell_execute_def Let_def split: if_splits option.splits)
qed simp

section \<open>How deep a line runs lines\<close>

text \<open>The line \<^verbatim>\<open>wgetd\<close> makes names \<^verbatim>\<open>wget\<close>, which runs no further line: two levels are enough.\<close>

lemma wget_line_names: "shell_parse (wget_line ip port path) \<noteq> [] \<and> shell_parse (wget_line ip port path) ! 0 = [119, 103, 101, 116]"
proof -
  have t: "take_arg False (Suc (Suc (Suc (Suc (Suc n))))) (119 # 103 # 101 # 116 # 32 # r) = ([119, 103, 101, 116], 32 # r)" for n r
    by simp
  have n: "SHELL_ARG_LEN - Suc 0 = 63" "SHELL_MAX_ARGS \<noteq> 0" by (simp_all add: SHELL_ARG_LEN_def SHELL_MAX_ARGS_def)
  show ?thesis
    unfolding shell_parse_def wget_line_def using t [of 58]
    by (subst (1 2) parse_from.simps) (simp add: n Let_def del: take_arg.simps)
qed

lemma find_wget: "find (\<lambda>c. c_name c = [119, 103, 101, 116]) (shell_init []) = Some \<lparr>c_name = [119, 103, 101, 116], c_help = map of_char ''wget <ip> <p> <path>  HTTP GET request'', c_fn = Cmd_wget\<rparr>"
  by code_simp

lemma run_wget_line:
  assumes "cmds (snd S) = shell_init []"
  shows "run_line (Suc k) P N disk_size (wget_line ip port path) S
    = run_net P N disk_size (\<lambda>_ _. None) Cmd_wget (shell_parse (wget_line ip port path)) S"
proof -
  have "skip_blanks (wget_line ip port path) \<noteq> []" by (simp add: wget_line_def)
  then show ?thesis using wget_line_names [of ip port path] find_wget assms
    by (simp add: shell_execute_def Let_def run_net_def)
qed

lemma commands_kept:
  "cmds (snd (say_to cs S)) = cmds (snd S)" "cmds (snd (leave_stack N s n)) = cmds s"
  by (simp_all add: say_to_def leave_stack_def Shell.tell_def set_pit_def Let_def)

lemma wgetd_depth:
  assumes "cmds (snd S) = shell_init []"
  shows "cmd_wgetd (run_line (Suc k) P N disk_size) N argv S = cmd_wgetd (run_line (Suc 0) P N disk_size) N argv S"
proof -
  have "in_stack N f S = Some (S1, x) \<Longrightarrow> cmds (snd S1) = shell_init []" for f :: "stack \<Rightarrow> (stack \<times> u32) option" and S1 x
    using assms by (auto simp: in_stack_def commands_kept)
  then show ?thesis
    unfolding cmd_wgetd_def
    by (auto intro!: bind_option_cong simp: run_wget_line commands_kept simp del: run_line.simps)
qed

lemma lines_run_deep_enough:
  assumes "cmds (snd S) = shell_init []"
  shows "run_line (Suc (Suc k)) P N disk_size l S = run_line (Suc (Suc 0)) P N disk_size l S"
proof -
  have "run_net P N disk_size (run_line (Suc k) P N disk_size) c argv S = run_net P N disk_size (run_line (Suc 0) P N disk_size) c argv S" for c argv
  proof (cases "c = Cmd_wgetd")
    case True
    have "cmds (snd (fst S, (snd S)\<lparr>smem := put_args P argv (smem (snd S))\<rparr>)) = shell_init []" using assms by simp
    from wgetd_depth [OF this, of k] show ?thesis unfolding True run_net_def Let_def by simp
  next
    case False
    then show ?thesis unfolding run_net_def Let_def by (cases c) simp_all
  qed
  then show ?thesis by (subst (1 2) run_line.simps) (simp only: shell_execute_def)
qed

section \<open>The page that is fetched\<close>

text \<open>What comes behind the first empty line of a stream.\<close>

fun http_body :: "bytes \<Rightarrow> bytes option" where
  "http_body [] = None"
| "http_body (c # cs) = (if take 4 (c # cs) = CRLF2 then Some (drop 3 cs) else http_body cs)"

lemma http_body_found: "http_body (xs @ [13, 10, 13]) = None \<Longrightarrow> http_body (xs @ CRLF2 @ cs) = Some cs"
proof (induction xs)
  case Nil
  show ?case by (simp add: CRLF2_def)
next
  case (Cons x xs)
  have "take 4 (x # xs @ CRLF2 @ cs) = take 4 (x # xs @ [13, 10, 13])"
  proof -
    have "x # xs @ CRLF2 @ cs = (x # xs @ [13, 10, 13]) @ 10 # cs" by (simp add: CRLF2_def)
    then show ?thesis by (simp only: take_append) simp
  qed
  with Cons show ?case by (simp split: if_splits)
qed

lemma http_body_more:
  assumes "http_body p = None" "\<nexists>xs. p @ [c] = xs @ CRLF2"
  shows "http_body (p @ [c]) = None"
  using assms
proof (induction p)
  case Nil
  show ?case by (simp add: CRLF2_def)
next
  case (Cons x p)
  have "take 4 (x # p @ [c]) \<noteq> CRLF2"
  proof
    assume t: "take 4 (x # p @ [c]) = CRLF2"
    have "length (take 4 (x # p @ [c])) = 4" unfolding t by (simp add: CRLF2_def)
    then have "3 \<le> length p + 1" by simp
    then have "length p = 2 \<or> 3 \<le> length p" by auto
    then show False
    proof
      assume "length p = 2"
      with t have "x # p @ [c] = [] @ CRLF2" by simp
      with Cons.prems(2) show False by simp
    next
      assume "3 \<le> length p"
      with t have "take 4 (x # p) = CRLF2" by simp
      with Cons.prems(1) show False by simp
    qed
  qed
  moreover have "http_body (p @ [c]) = None"
    using Cons.IH Cons.prems by (metis append_Cons http_body.simps(2) option.distinct(1))
  ultimately show ?case by simp
qed

text \<open>The window over the bytes seen so far.\<close>

definition window_of :: "bytes \<Rightarrow> bytes" where
  "window_of p = drop (length p) (replicate 4 0 @ p)"

lemma window_step: "tl (window_of p) @ [c] = window_of (p @ [c])"
proof -
  have "window_of (p @ [c]) = drop (Suc (length p)) ((replicate 4 0 @ p) @ [c])" by (simp add: window_of_def)
  also have "\<dots> = drop (Suc (length p)) (replicate 4 0 @ p) @ [c]" by (subst drop_append) simp
  also have "drop (Suc (length p)) (replicate 4 0 @ p) = tl (window_of p)" by (simp only: window_of_def tl_drop drop_Suc)
  finally show ?thesis by simp
qed

lemma window_end: "4 \<le> length p \<and> window_of p = CRLF2 \<longleftrightarrow> (\<exists>xs. p = xs @ CRLF2)"
proof -
  have w: "window_of p = drop (length p - 4) p" if "4 \<le> length p" using that by (simp add: window_of_def)
  have l: "length CRLF2 = 4" by (simp add: CRLF2_def)
  show ?thesis
  proof
    assume "4 \<le> length p \<and> window_of p = CRLF2"
    then have "p = take (length p - 4) p @ CRLF2" using w append_take_drop_id [of "length p - 4" p] by simp
    then show "\<exists>xs. p = xs @ CRLF2" ..
  next
    assume "\<exists>xs. p = xs @ CRLF2"
    then obtain xs where p: "p = xs @ CRLF2" ..
    then have "4 \<le> length p" by (simp add: l)
    moreover have "drop (length p - 4) p = CRLF2" by (simp add: p l)
    ultimately show "4 \<le> length p \<and> window_of p = CRLF2" using w by simp
  qed
qed

lemma scan_body:
  assumes "http_body p = None" "length p + length bs < 2 ^ 32"
  shows "case http_body (p @ bs) of
       None \<Rightarrow> header_scan bs (window_of p) (of_nat (length p)) = (window_of (p @ bs), of_nat (length (p @ bs)), None)
     | Some r \<Rightarrow> \<exists>w k. header_scan bs (window_of p) (of_nat (length p)) = (w, k, Some r)"
  using assms
proof (induction bs arbitrary: p)
  case Nil
  then show ?case by simp
next
  case (Cons c bs)
  let ?p = "p @ [c]"
  have l: "length ?p < 2 ^ 32" using Cons.prems(2) by simp
  have "4 \<le> (of_nat (length ?p) :: u32) \<longleftrightarrow> 4 \<le> length ?p"
    unfolding word_le_nat_alt unat_of_nat32 [OF l] by simp
  then have w: "4 \<le> (of_nat (length ?p) :: u32) \<and> window_of ?p = CRLF2 \<longleftrightarrow> (\<exists>xs. ?p = xs @ CRLF2)"
    using window_end [of ?p] by blast
  have s: "header_scan (c # bs) (window_of p) (of_nat (length p)) =
      (if \<exists>xs. ?p = xs @ CRLF2 then (window_of ?p, of_nat (length ?p), Some bs) else header_scan bs (window_of ?p) (of_nat (length ?p)))"
    unfolding header_scan.simps window_step Let_def w [symmetric] by (simp add: add.commute)
  show ?case
  proof (cases "\<exists>xs. ?p = xs @ CRLF2")
    case True
    then obtain xs where xs: "?p = xs @ CRLF2" by blast
    then have "p = xs @ [13, 10, 13]" by (simp add: CRLF2_def)
    then have "http_body (xs @ CRLF2 @ bs) = Some bs" using Cons.prems(1) by (intro http_body_found) simp
    moreover have "p @ c # bs = xs @ CRLF2 @ bs" using arg_cong [OF xs, of "\<lambda>l. l @ bs"] by simp
    ultimately have h: "http_body (p @ c # bs) = Some bs" by (simp only:)
    show ?thesis unfolding s h using True by simp
  next
    case False
    have n: "http_body ?p = None" using http_body_more [OF Cons.prems(1)] False by blast
    have "length ?p + length bs < 2 ^ 32" using Cons.prems(2) by simp
    moreover have "?p @ bs = p @ c # bs" by simp
    ultimately show ?thesis using Cons.IH [OF n] unfolding s if_not_P [OF False] by (simp only:)
  qed
qed

lemma scan_rest: "header_scan bs w k = (w', k', Some r) \<Longrightarrow> set r \<subseteq> set bs"
  by (induction bs arbitrary: w k) (auto simp: Let_def split: if_splits)

lemma http_body_append: "http_body a = Some r \<Longrightarrow> http_body (a @ b) = Some (r @ b)"
proof (induction a)
  case (Cons x a)
  show ?case
  proof (cases "take 4 (x # a) = CRLF2")
    case True
    have "length (take 4 (x # a)) = 4" unfolding True by (simp add: CRLF2_def)
    then have "3 \<le> length a" by simp
    with True Cons.prems show ?thesis by auto
  next
    case False
    with Cons.prems have r: "http_body a = Some r" by (simp split: if_splits)
    have "take 4 (x # a @ b) \<noteq> CRLF2"
    proof
      assume t: "take 4 (x # a @ b) = CRLF2"
      have "4 \<le> length a" using r
      proof (induction a)
        case (Cons y a)
        show ?case
        proof (cases "take 4 (y # a) = CRLF2")
          case True
          have "length (take 4 (y # a)) = 4" unfolding True by (simp add: CRLF2_def)
          then show ?thesis by simp
        next
          case False
          with Cons show ?thesis by simp
        qed
      qed simp
      with t False show False by simp
    qed
    then show ?thesis using Cons.IH [OF r] by auto
  qed
qed simp

text \<open>The stream as it arrives, in pieces.\<close>

fun wget_pieces :: "bytes list \<Rightarrow> wget \<Rightarrow> wget \<times> term_call list" where
  "wget_pieces [] g = (g, [])"
| "wget_pieces (b # bs) g = (case wget_take b g of (g1, cs) \<Rightarrow> case wget_pieces bs g1 of (g2, ds) \<Rightarrow> (g2, cs @ ds))"

lemma cstr_id: "0 \<notin> set b \<Longrightarrow> cstr b = b"
  by (simp add: cstr_def takeWhile_eq_all_conv) metis

lemma put_calls_append: "put_calls (a @ b) = put_calls a @ put_calls b"
  by (simp add: put_calls_def)

lemma pieces_in_body:
  "in_body g \<Longrightarrow> 0 \<notin> set (concat bs) \<Longrightarrow>
    wget_pieces bs g = (g\<lparr>body_bytes := body_bytes g + of_nat (length (concat bs))\<rparr>, put_calls (concat bs))"
proof (induction bs arbitrary: g)
  case Nil
  show ?case by (simp add: put_calls_def)
next
  case (Cons b bs)
  then show ?case by (simp add: wget_take_def cstr_id put_calls_append algebra_simps)
qed

lemma pieces_body:
  assumes "http_body p = None" "0 \<notin> set (concat bs)" "length p + length (concat bs) < 2 ^ 32"
  shows "let g = \<lparr>in_body = False, body_bytes = 0, window = window_of p, win_fill = of_nat (length p)\<rparr>;
             body = (case http_body (p @ concat bs) of None \<Rightarrow> [] | Some r \<Rightarrow> r)
    in snd (wget_pieces bs g) = put_calls body \<and> body_bytes (fst (wget_pieces bs g)) = of_nat (length body)"
  using assms
proof (induction bs arbitrary: p)
  case Nil
  then show ?case by (simp add: put_calls_def)
next
  case (Cons b bs)
  have l: "length p + length b < 2 ^ 32" using Cons.prems(3) by simp
  show ?case
  proof (cases "http_body (p @ b)")
    case None
    have "header_scan b (window_of p) (of_nat (length p)) = (window_of (p @ b), of_nat (length (p @ b)), None)"
      using scan_body [OF Cons.prems(1) l] None by simp
    then show ?thesis using Cons.IH [OF None] Cons.prems(2,3) by (simp add: wget_take_def Let_def case_prod_beta)
  next
    case (Some r)
    obtain w k where "header_scan b (window_of p) (of_nat (length p)) = (w, k, Some r)"
      using scan_body [OF Cons.prems(1) l] Some by auto
    moreover have "http_body (p @ b @ concat bs) = Some (r @ concat bs)"
      using http_body_append [OF Some, of "concat bs"] by simp
    moreover have "0 \<notin> set r" using scan_rest [OF calculation(1)] Cons.prems(2) by auto
    ultimately show ?thesis using Cons.prems(2)
      by (simp add: wget_take_def Let_def case_prod_beta pieces_in_body cstr_id put_calls_append)
  qed
qed

section \<open>Properties\<close>

text \<open>C20: whatever line the shell executes, whichever command it names, those of the network included, and
  however the command ends, the text it writes stays in the terminal's area: the cursor stays inside, and on the
  frame buffer no byte of the pixels above row 28 and no memory outside the pixels changes, on the text
  screen no cell outside rows 3 to 23.\<close>

theorem shell_output_confined:
  assumes "run_line k P N disk_size l (n, s) = Some (n', s')" "output_ok (screen_term s)"
  shows "output_ok (screen_term s') \<and>
    (if fb_available (screen_term s)
     then \<forall>a. over_row (tdev (screen_term s)) 28 a \<longrightarrow> tvram (screen_term s') a = tvram (screen_term s) a
     else \<forall>i. text_margin i \<longrightarrow> tvga (screen_term s') i = tvga (screen_term s) i)"
  using run_line_stays [OF assms(1)] assms(2) by (simp add: net_stays_def term_stays_def term_kept_def)

definition demo_sys :: "machine \<Rightarrow> sys" where
  "demo_sys m = \<lparr>kern = demo_kern m, screen_term = demo_term, keys = demo_kbd, envs = env_empty, smem = (\<lambda>_. 0),
     cmds = shell_init [], power = PowerOn\<rparr>"

definition demo_params :: params where
  "demo_params = \<lparr>p_slot = (\<lambda>i. 0x200000 + of_nat i), p_entry = 0x100000, p_user_entry = 0x100010, p_counter = 0x100020,
     p_args = 0x90000, p_ticks = (\<lambda>_. 1), p_keys = (\<lambda>_ k. k)\<rparr>"

theorem shell_output_confined_witness:
  "\<forall>m N n. tvga (screen_term (snd (cmd_arp (n, (demo_sys m)\<lparr>smem := put_args demo_params [[97, 114, 112]] (\<lambda>_. 0)\<rparr>)))) 239 = 0"
proof (intro allI)
  fix m N n
  let ?s = "(demo_sys m)\<lparr>smem := put_args demo_params [[97, 114, 112]] (\<lambda>_. 0)\<rparr>"
  have p: "shell_parse [97, 114, 112] = [[97, 114, 112]]" by code_simp
  have f: "find (\<lambda>c. c_name c = [97, 114, 112]) (shell_init [])
      = Some \<lparr>c_name = [97, 114, 112], c_help = map of_char ''arp                   Show ARP cache'', c_fn = Cmd_arp\<rparr>" by code_simp
  have "run_line (Suc 0) demo_params N 0 [97, 114, 112] (n, demo_sys m) = Some (cmd_arp (n, ?s))"
    by (simp add: shell_execute_def p f Let_def run_net_def demo_sys_def)
  moreover have "output_ok (screen_term (demo_sys m))"
    by (simp add: demo_sys_def output_ok_def text_ok_def demo_term_def)
  ultimately show "tvga (screen_term (snd (cmd_arp (n, ?s)))) 239 = 0"
    using shell_output_confined [of "Suc 0" demo_params N 0 "[97, 114, 112]" n "demo_sys m" "fst (cmd_arp (n, ?s))" "snd (cmd_arp (n, ?s))"]
    by (simp add: demo_sys_def demo_term_def text_margin_def)
qed



end
