(* ===== verification/Devices.thy ===== *)
theory Devices
  imports Ports
begin

text \<open>
  Programs over a device: a Hoare logic for the drivers' programs of Ports. A function \<open>view\<close> reads the
  device off the state of the machine; \<open>ends view m v r w\<close> says that \<open>m\<close>, started where the device is
  \<open>v\<close>, gives \<open>r\<close> and leaves the device \<open>w\<close>.
\<close>

definition ends :: "('d \<Rightarrow> 'v) \<Rightarrow> ('d, 'a) state \<Rightarrow> 'v \<Rightarrow> 'a \<Rightarrow> 'v \<Rightarrow> bool" where
  "ends view m v r w \<longleftrightarrow> (\<forall>s. view s = v \<longrightarrow> fst (run_state m s) = r \<and> view (snd (run_state m s)) = w)"

lemma ends_ret: "ends view (State_Monad.return x) v x v"
  by (simp add: ends_def)

lemma ends_bind: "ends view m v x u \<Longrightarrow> ends view (f x) u r w \<Longrightarrow> ends view (State_Monad.bind m f) v r w"
  by (auto simp: ends_def run_state_bind split: prod.splits)

lemma ends_run: "ends view m (view s) r w \<Longrightarrow> \<exists>t. run_state m s = (r, t) \<and> view t = w"
  by (auto simp: ends_def prod_eq_iff)

end
