(* ===== verification/Ata.thy ===== *)
theory Ata
  imports Devices
begin

unbundle bit_operations_syntax

text \<open>
  The disk driver (\<^verbatim>\<open>kernel/ata.cpp\<close>, \<^verbatim>\<open>kernel/ata.h\<close>): programmed transfers of sectors over the
  ports of the primary channel. A buffer is the list of its 16-bit words. What the drive does is a
  parameter; \<open>is_drive\<close> says that it follows the protocol of reading and writing sectors, with any
  latency shorter than the driver's patience. FAT32's model keeps the disk as a map of sectors;
  this is what that map stands for.
\<close>

section \<open>The driver\<close>

definition ATA_PRIMARY_DATA :: u16 where "ATA_PRIMARY_DATA = 0x1F0"
definition ATA_PRIMARY_SECTOR_CNT :: u16 where "ATA_PRIMARY_SECTOR_CNT = 0x1F2"
definition ATA_PRIMARY_LBA_LO :: u16 where "ATA_PRIMARY_LBA_LO = 0x1F3"
definition ATA_PRIMARY_LBA_MID :: u16 where "ATA_PRIMARY_LBA_MID = 0x1F4"
definition ATA_PRIMARY_LBA_HI :: u16 where "ATA_PRIMARY_LBA_HI = 0x1F5"
definition ATA_PRIMARY_DRIVE_HEAD :: u16 where "ATA_PRIMARY_DRIVE_HEAD = 0x1F6"
definition ATA_PRIMARY_STATUS :: u16 where "ATA_PRIMARY_STATUS = 0x1F7"
definition ATA_PRIMARY_CMD :: u16 where "ATA_PRIMARY_CMD = 0x1F7"
definition ATA_PRIMARY_ALT_STATUS :: u16 where "ATA_PRIMARY_ALT_STATUS = 0x3F6"

definition ATA_STATUS_ERR :: u8 where "ATA_STATUS_ERR = 1"
definition ATA_STATUS_DRQ :: u8 where "ATA_STATUS_DRQ = 8"
definition ATA_STATUS_DF :: u8 where "ATA_STATUS_DF = 32"
definition ATA_STATUS_BSY :: u8 where "ATA_STATUS_BSY = 128"

definition ATA_CMD_READ_SECTORS :: u8 where "ATA_CMD_READ_SECTORS = 0x20"
definition ATA_CMD_WRITE_SECTORS :: u8 where "ATA_CMD_WRITE_SECTORS = 0x30"
definition ATA_CMD_IDENTIFY :: u8 where "ATA_CMD_IDENTIFY = 0xEC"
definition ATA_CMD_FLUSH :: u8 where "ATA_CMD_FLUSH = 0xE7"

lemmas ata_ports = ATA_PRIMARY_DATA_def ATA_PRIMARY_SECTOR_CNT_def ATA_PRIMARY_LBA_LO_def ATA_PRIMARY_LBA_MID_def
  ATA_PRIMARY_LBA_HI_def ATA_PRIMARY_DRIVE_HEAD_def ATA_PRIMARY_STATUS_def ATA_PRIMARY_CMD_def ATA_PRIMARY_ALT_STATUS_def

definition WAIT_CYCLES :: nat where "WAIT_CYCLES = 100000"

record ata =
  s_disk_present :: bool
  s_sector_count :: u32

definition ata_delay400ns :: "'d io \<Rightarrow> ('d, unit) state" where
  "ata_delay400ns d = each_io (\<lambda>_. do { _ \<leftarrow> inb d ATA_PRIMARY_ALT_STATUS; done_with () }) [0..<4]"

definition ata_wait_not_busy :: "'d io \<Rightarrow> ('d, bool) state" where
  "ata_wait_not_busy d = poll_io WAIT_CYCLES (do {
     st \<leftarrow> inb d ATA_PRIMARY_STATUS;
     done_with (if st AND ATA_STATUS_BSY = 0 then Some True else None) }) False"

definition ata_wait_drq :: "'d io \<Rightarrow> ('d, bool) state" where
  "ata_wait_drq d = poll_io WAIT_CYCLES (do {
     st \<leftarrow> inb d ATA_PRIMARY_STATUS;
     done_with (if st AND (ATA_STATUS_ERR OR ATA_STATUS_DF) \<noteq> 0 then Some False
       else if st AND ATA_STATUS_DRQ \<noteq> 0 then Some True else None) }) False"

definition no_disk :: ata where
  "no_disk = \<lparr>s_disk_present = False, s_sector_count = 0\<rparr>"

definition ata_identify :: "'d io \<Rightarrow> ('d, ata \<times> bool) state" where
  "ata_identify d = do {
     ok \<leftarrow> ata_wait_drq d;
     if \<not> ok then done_with (no_disk, False)
     else do {
       ident \<leftarrow> collect_io (\<lambda>_. inw d ATA_PRIMARY_DATA) [0..<256];
       let n = ucast (ident ! 60) OR push_bit 16 (ucast (ident ! 61));
       if n = 0 then done_with (no_disk, False)
       else done_with (\<lparr>s_disk_present = True, s_sector_count = n\<rparr>, True)
     } }"

definition ata_init :: "'d io \<Rightarrow> ('d, ata \<times> bool) state" where
  "ata_init d = do {
     outb d ATA_PRIMARY_DRIVE_HEAD 0xA0;
     ata_delay400ns d;
     ok \<leftarrow> ata_wait_not_busy d;
     if \<not> ok then done_with (no_disk, False)
     else do {
       outb d ATA_PRIMARY_SECTOR_CNT 0;
       outb d ATA_PRIMARY_LBA_LO 0;
       outb d ATA_PRIMARY_LBA_MID 0;
       outb d ATA_PRIMARY_LBA_HI 0;
       outb d ATA_PRIMARY_CMD ATA_CMD_IDENTIFY;
       ata_delay400ns d;
       st \<leftarrow> inb d ATA_PRIMARY_STATUS;
       if st = 0 then done_with (no_disk, False)
       else do {
         ok \<leftarrow> ata_wait_not_busy d;
         if \<not> ok then done_with (no_disk, False)
         else do {
           m \<leftarrow> inb d ATA_PRIMARY_LBA_MID;
           if m \<noteq> 0 then done_with (no_disk, False)
           else do {
             h \<leftarrow> inb d ATA_PRIMARY_LBA_HI;
             if h \<noteq> 0 then done_with (no_disk, False) else ata_identify d
           } } } } }"

definition ata_prepare :: "'d io \<Rightarrow> ata \<Rightarrow> u32 \<Rightarrow> u8 \<Rightarrow> ('d, bool) state" where
  "ata_prepare d a lba count =
     (if \<not> s_disk_present a then done_with False
      else do {
        ok \<leftarrow> ata_wait_not_busy d;
        if \<not> ok then done_with False
        else do {
          outb d ATA_PRIMARY_DRIVE_HEAD (0xE0 OR (ucast (drop_bit 24 lba) AND 0x0F));
          ata_delay400ns d;
          outb d ATA_PRIMARY_SECTOR_CNT count;
          outb d ATA_PRIMARY_LBA_LO (ucast lba);
          outb d ATA_PRIMARY_LBA_MID (ucast (drop_bit 8 lba));
          outb d ATA_PRIMARY_LBA_HI (ucast (drop_bit 16 lba));
          done_with True
        } })"

text \<open>The words read before the first failure, and whether there was none.\<close>

fun read_each :: "'d io \<Rightarrow> nat \<Rightarrow> ('d, u16 list \<times> bool) state" where
  "read_each d 0 = done_with ([], True)"
| "read_each d (Suc n) = do {
     ok \<leftarrow> ata_wait_drq d;
     if \<not> ok then done_with ([], False)
     else do {
       ws \<leftarrow> collect_io (\<lambda>_. inw d ATA_PRIMARY_DATA) [0..<256];
       ata_delay400ns d;
       r \<leftarrow> read_each d n;
       done_with (ws @ fst r, snd r)
     } }"

definition ata_read_sectors :: "'d io \<Rightarrow> ata \<Rightarrow> u32 \<Rightarrow> u8 \<Rightarrow> ('d, u16 list \<times> bool) state" where
  "ata_read_sectors d a lba count = do {
     ok \<leftarrow> ata_prepare d a lba count;
     if \<not> ok then done_with ([], False)
     else do {
       outb d ATA_PRIMARY_CMD ATA_CMD_READ_SECTORS;
       read_each d (unat count)
     } }"

fun write_each :: "'d io \<Rightarrow> nat \<Rightarrow> u16 list \<Rightarrow> ('d, bool) state" where
  "write_each d 0 ws = done_with True"
| "write_each d (Suc n) ws = do {
     ok \<leftarrow> ata_wait_drq d;
     if \<not> ok then done_with False
     else do {
       each_io (outw d ATA_PRIMARY_DATA) (take 256 ws);
       ata_delay400ns d;
       write_each d n (drop 256 ws)
     } }"

definition ata_write_sectors :: "'d io \<Rightarrow> ata \<Rightarrow> u32 \<Rightarrow> u8 \<Rightarrow> u16 list \<Rightarrow> ('d, bool) state" where
  "ata_write_sectors d a lba count ws = do {
     ok \<leftarrow> ata_prepare d a lba count;
     if \<not> ok then done_with False
     else do {
       outb d ATA_PRIMARY_CMD ATA_CMD_WRITE_SECTORS;
       ok \<leftarrow> write_each d (unat count) ws;
       if \<not> ok then done_with False
       else do {
         outb d ATA_PRIMARY_CMD ATA_CMD_FLUSH;
         _ \<leftarrow> ata_wait_not_busy d;
         done_with True
       } } }"

section \<open>A drive\<close>

text \<open>The drive's registers, the sector in its buffer and the sectors still to come; \<open>busy\<close> counts the
  status reads that will still find it busy, at most \<open>lat\<close> after each command and sector.\<close>

record drive =
  r_head :: u8
  r_cnt :: u8
  r_lo :: u8
  r_mid :: u8
  r_hi :: u8
  busy :: nat
  lat :: nat
  pos :: nat
  words :: "u16 list"
  left :: nat
  got :: "u16 list"
  want :: nat
  store :: "nat \<Rightarrow> u16 list"

definition drv_lba :: "drive \<Rightarrow> nat" where
  "drv_lba v = unat (push_bit 24 (ucast (r_head v AND 0x0F)) OR push_bit 16 (ucast (r_hi v))
     OR push_bit 8 (ucast (r_mid v)) OR ucast (r_lo v) :: u32)"

definition drv_count :: "drive \<Rightarrow> nat" where
  "drv_count v = (if r_cnt v = 0 then 256 else unat (r_cnt v))"

definition drv_cmd :: "u8 \<Rightarrow> drive \<Rightarrow> drive" where
  "drv_cmd c v =
     (if c = 0x20 then v\<lparr>pos := drv_lba v, words := store v (drv_lba v), left := drv_count v - 1, busy := lat v\<rparr>
      else if c = 0x30 then v\<lparr>pos := drv_lba v, got := [], want := drv_count v, busy := lat v\<rparr>
      else v\<lparr>busy := lat v\<rparr>)"

definition drv_outb :: "u16 \<Rightarrow> u8 \<Rightarrow> drive \<Rightarrow> drive" where
  "drv_outb p x v =
     (if p = 0x1F2 then v\<lparr>r_cnt := x\<rparr> else if p = 0x1F3 then v\<lparr>r_lo := x\<rparr> else if p = 0x1F4 then v\<lparr>r_mid := x\<rparr>
      else if p = 0x1F5 then v\<lparr>r_hi := x\<rparr> else if p = 0x1F6 then v\<lparr>r_head := x\<rparr> else if p = 0x1F7 then drv_cmd x v else v)"

definition drv_status :: "drive \<Rightarrow> u8" where
  "drv_status v = (if 0 < busy v then 0x80 else if words v \<noteq> [] \<or> 0 < want v then 0x48 else 0x40)"

definition drv_inb :: "u16 \<Rightarrow> drive \<Rightarrow> u8 \<times> drive" where
  "drv_inb p v = (if p = 0x1F7 then (drv_status v, v\<lparr>busy := busy v - 1\<rparr>) else if p = 0x3F6 then (drv_status v, v) else (0, v))"

definition drv_inw :: "drive \<Rightarrow> u16 \<times> drive" where
  "drv_inw v = (case words v of [] \<Rightarrow> (0, v)
     | w # ws \<Rightarrow>
         if ws = [] \<and> 0 < left v then (w, v\<lparr>pos := pos v + 1, words := store v (pos v + 1), left := left v - 1, busy := lat v\<rparr>)
         else (w, v\<lparr>words := ws\<rparr>))"

definition drv_outw :: "u16 \<Rightarrow> drive \<Rightarrow> drive" where
  "drv_outw w v =
     (if want v = 0 then v
      else if length (got v) = 255 then
        v\<lparr>store := (store v)(pos v := got v @ [w]), pos := pos v + 1, want := want v - 1, got := [], busy := lat v\<rparr>
      else v\<lparr>got := got v @ [w]\<rparr>)"

text \<open>\<open>view\<close> reads the drive off the state of the machine.\<close>

definition is_drive :: "'d io \<Rightarrow> ('d \<Rightarrow> drive) \<Rightarrow> bool" where
  "is_drive d view \<longleftrightarrow>
     (\<forall>p x s. view (snd (run_state (outb d p x) s)) = drv_outb p x (view s)) \<and>
     (\<forall>p s. fst (run_state (inb d p) s) = fst (drv_inb p (view s)) \<and> view (snd (run_state (inb d p) s)) = snd (drv_inb p (view s))) \<and>
     (\<forall>s. fst (run_state (inw d 0x1F0) s) = fst (drv_inw (view s)) \<and> view (snd (run_state (inw d 0x1F0) s)) = snd (drv_inw (view s))) \<and>
     (\<forall>x s. view (snd (run_state (outw d 0x1F0 x) s)) = drv_outw x (view s))"

definition sane :: "drive \<Rightarrow> bool" where
  "sane v \<longleftrightarrow> lat v < WAIT_CYCLES \<and> busy v < WAIT_CYCLES \<and> (\<forall>i. length (store v i) = 256)"

section \<open>Programs over a drive\<close>

lemma ends_outb: "is_drive d view \<Longrightarrow> ends view (outb d p x) v () (drv_outb p x v)"
  by (simp add: ends_def is_drive_def)

lemma ends_inb: "is_drive d view \<Longrightarrow> ends view (inb d p) v (fst (drv_inb p v)) (snd (drv_inb p v))"
  by (simp add: ends_def is_drive_def)

lemma ends_inw: "is_drive d view \<Longrightarrow> ends view (inw d ATA_PRIMARY_DATA) v (fst (drv_inw v)) (snd (drv_inw v))"
  by (simp add: ends_def is_drive_def ATA_PRIMARY_DATA_def)

lemma ends_outw: "is_drive d view \<Longrightarrow> ends view (outw d ATA_PRIMARY_DATA x) v () (drv_outw x v)"
  by (simp add: ends_def is_drive_def ATA_PRIMARY_DATA_def)

lemma ends_delay: "is_drive d view \<Longrightarrow> ends view (ata_delay400ns d) v () v"
proof -
  assume a: "is_drive d view"
  have e: "ends view (each_io (\<lambda>_. do { _ \<leftarrow> inb d ATA_PRIMARY_ALT_STATUS; done_with () }) xs) v () v" for xs :: "nat list"
  proof (induction xs)
    case Nil
    show ?case by (simp add: ends_ret)
  next
    case (Cons x xs)
    have "ends view (inb d ATA_PRIMARY_ALT_STATUS) v (drv_status v) v"
      using ends_inb [OF a, of ATA_PRIMARY_ALT_STATUS v] by (simp add: drv_inb_def ATA_PRIMARY_ALT_STATUS_def)
    then have "ends view (do { _ \<leftarrow> inb d ATA_PRIMARY_ALT_STATUS; done_with () }) v () v" by (rule ends_bind) (rule ends_ret)
    then show ?case unfolding each_io.simps by (rule ends_bind) (rule Cons)
  qed
  show ?thesis unfolding ata_delay400ns_def by (rule e)
qed

text \<open>A polling loop over the status register: it ends as soon as the drive is not busy.\<close>

lemma ends_poll:
  assumes "is_drive d view" "busy v < n" "\<And>st. f st = (if st AND 0x80 = (0 :: u8) then Some (g st) else None)"
  shows "ends view (poll_io n (do { st \<leftarrow> inb d ATA_PRIMARY_STATUS; done_with (f st) }) z) v (g (drv_status (v\<lparr>busy := 0\<rparr>))) (v\<lparr>busy := 0\<rparr>)"
  using assms(2)
proof (induction n arbitrary: v)
  case 0
  then show ?case by simp
next
  case (Suc n)
  have i: "ends view (do { st \<leftarrow> inb d ATA_PRIMARY_STATUS; done_with (f st) }) v (f (drv_status v)) (v\<lparr>busy := busy v - 1\<rparr>)"
    using ends_bind [OF ends_inb [OF assms(1), of ATA_PRIMARY_STATUS v], of "\<lambda>st. done_with (f st)" "f (drv_status v)" "v\<lparr>busy := busy v - 1\<rparr>"]
    by (simp add: drv_inb_def ATA_PRIMARY_STATUS_def ends_ret)
  show ?case
  proof (cases "busy v = 0")
    case True
    then have "v\<lparr>busy := 0\<rparr> = v" by simp
    moreover have "f (drv_status v) = Some (g (drv_status v))" using True by (simp add: assms(3) drv_status_def)
    ultimately show ?thesis unfolding poll_io.simps using True
    proof (intro ends_bind [OF i])
    qed (simp add: ends_ret drv_status_def)
  next
    case False
    then have "f (drv_status v) = None" by (simp add: assms(3) drv_status_def)
    moreover have "busy (v\<lparr>busy := busy v - 1\<rparr>) < n" using Suc.prems False by simp
    from Suc.IH [OF this] have "ends view (poll_io n (do { st \<leftarrow> inb d ATA_PRIMARY_STATUS; done_with (f st) }) z) (v\<lparr>busy := busy v - 1\<rparr>)
        (g (drv_status (v\<lparr>busy := 0\<rparr>))) (v\<lparr>busy := 0\<rparr>)" by (simp add: drv_status_def)
    ultimately show ?thesis unfolding poll_io.simps by (intro ends_bind [OF i]) simp
  qed
qed

lemma status_bits:
  "drv_status (v\<lparr>busy := 0\<rparr>) AND (ATA_STATUS_ERR OR ATA_STATUS_DF) = 0"
  "drv_status (v\<lparr>busy := 0\<rparr>) AND ATA_STATUS_DRQ \<noteq> 0 \<longleftrightarrow> words v \<noteq> [] \<or> 0 < want v"
  by (simp_all add: drv_status_def ATA_STATUS_ERR_def ATA_STATUS_DF_def ATA_STATUS_DRQ_def)

lemma ends_not_busy:
  assumes "is_drive d view" "busy v < WAIT_CYCLES"
  shows "ends view (ata_wait_not_busy d) v True (v\<lparr>busy := 0\<rparr>)"
  unfolding ata_wait_not_busy_def
  by (rule ends_poll [OF assms, where g = "\<lambda>_. True"]) (simp add: ATA_STATUS_BSY_def)

text \<open>Waiting for data: while the drive is busy its status shows neither an error nor data.\<close>

lemma ends_drq:
  assumes "is_drive d view" "busy v < WAIT_CYCLES" "words v \<noteq> [] \<or> 0 < want v"
  shows "ends view (ata_wait_drq d) v True (v\<lparr>busy := 0\<rparr>)"
proof -
  define f where "f st = (if st AND (ATA_STATUS_ERR OR ATA_STATUS_DF) \<noteq> 0 then Some False
       else if st AND ATA_STATUS_DRQ \<noteq> 0 then Some True else None)" for st :: u8
  have p: "ends view (poll_io n (do { st \<leftarrow> inb d ATA_PRIMARY_STATUS; done_with (f st) }) False) v True (v\<lparr>busy := 0\<rparr>)"
    if "busy v < n" "words v \<noteq> [] \<or> 0 < want v" for n v
    using that
  proof (induction n arbitrary: v)
    case 0
    then show ?case by simp
  next
    case (Suc n)
    have i: "ends view (do { st \<leftarrow> inb d ATA_PRIMARY_STATUS; done_with (f st) }) v (f (drv_status v)) (v\<lparr>busy := busy v - 1\<rparr>)"
      using ends_bind [OF ends_inb [OF assms(1), of ATA_PRIMARY_STATUS v], of "\<lambda>st. done_with (f st)" "f (drv_status v)" "v\<lparr>busy := busy v - 1\<rparr>"]
      by (simp add: drv_inb_def ATA_PRIMARY_STATUS_def ends_ret)
    show ?case
    proof (cases "busy v = 0")
      case True
      then have v: "v\<lparr>busy := 0\<rparr> = v" by simp
      have "f (drv_status v) = Some True" using Suc.prems status_bits [of v] unfolding v by (simp add: f_def)
      then show ?thesis unfolding poll_io.simps using True by (intro ends_bind [OF i]) (simp add: ends_ret)
    next
      case False
      then have "f (drv_status v) = None"
        by (simp add: f_def drv_status_def ATA_STATUS_ERR_def ATA_STATUS_DF_def ATA_STATUS_DRQ_def)
      moreover have "ends view (poll_io n (do { st \<leftarrow> inb d ATA_PRIMARY_STATUS; done_with (f st) }) False) (v\<lparr>busy := busy v - 1\<rparr>) True (v\<lparr>busy := 0\<rparr>)"
        using Suc.IH [of "v\<lparr>busy := busy v - 1\<rparr>"] Suc.prems False by simp
      ultimately show ?thesis unfolding poll_io.simps by (intro ends_bind [OF i]) simp
    qed
  qed
  show ?thesis using p [OF assms(2,3)] by (simp add: ata_wait_drq_def f_def)
qed

section \<open>Sectors\<close>

definition after_sector :: "drive \<Rightarrow> drive" where
  "after_sector v = (if 0 < left v
     then v\<lparr>pos := pos v + 1, words := store v (pos v + 1), left := left v - 1, busy := lat v\<rparr> else v\<lparr>words := []\<rparr>)"

lemma ends_collect:
  assumes "is_drive d view"
  shows "words v = ws \<Longrightarrow> ws \<noteq> [] \<Longrightarrow> length xs = length ws \<Longrightarrow>
    ends view (collect_io (\<lambda>_. inw d ATA_PRIMARY_DATA) xs) v ws (after_sector v)"
proof (induction ws arbitrary: v xs)
  case Nil
  then show ?case by simp
next
  case (Cons w ws)
  obtain x ys where xs: "xs = x # ys" "length ys = length ws" using Cons.prems(3) by (cases xs) auto
  let ?u = "if ws = [] then after_sector v else v\<lparr>words := ws\<rparr>"
  have i: "ends view (inw d ATA_PRIMARY_DATA) v w ?u"
  proof -
    have "drv_inw v = (w, ?u)" using Cons.prems(1) by (cases "ws = []"; cases "0 < left v") (simp_all add: drv_inw_def after_sector_def)
    with ends_inw [OF assms, of v] show ?thesis by simp
  qed
  have r: "ends view (collect_io (\<lambda>_. inw d ATA_PRIMARY_DATA) ys) ?u ws (after_sector v)"
  proof (cases "ws = []")
    case True
    with xs show ?thesis by (simp add: ends_ret)
  next
    case False
    have "after_sector (v\<lparr>words := ws\<rparr>) = after_sector v" by (simp add: after_sector_def)
    with Cons.IH [of "v\<lparr>words := ws\<rparr>" ys] False xs show ?thesis by simp
  qed
  show ?case unfolding xs collect_io.simps by (rule ends_bind [OF i], rule ends_bind [OF r], rule ends_ret)
qed

lemma ends_read_each:
  assumes "is_drive d view"
  shows "sane v \<Longrightarrow> words v = store v (pos v) \<Longrightarrow> left v = n \<Longrightarrow>
    ends view (read_each d (Suc n)) v (concat (map (store v) [pos v..<pos v + Suc n]), True) (v\<lparr>pos := pos v + n, words := [], left := 0, busy := 0\<rparr>)"
proof (induction n arbitrary: v)
  case 0
  let ?v = "v\<lparr>busy := 0\<rparr>"
  have w: "words ?v \<noteq> []" "length [0..<256] = length (words ?v)" using 0 by (auto simp: sane_def simp flip: length_0_conv)
  have q: "ends view (ata_wait_drq d) v True ?v" using 0 w by (intro ends_drq [OF assms]) (auto simp: sane_def)
  have c: "ends view (collect_io (\<lambda>_. inw d ATA_PRIMARY_DATA) [0..<256]) ?v (store v (pos v)) (v\<lparr>busy := 0, words := []\<rparr>)"
    using ends_collect [OF assms refl w] 0 by (simp add: after_sector_def)
  have e: "v\<lparr>pos := pos v + 0, words := [], left := 0, busy := 0\<rparr> = v\<lparr>busy := 0, words := []\<rparr>" using 0 by simp
  have l: "concat (map (store v) [pos v..<pos v + Suc 0]) = store v (pos v) @ []" by simp
  show ?case unfolding e l read_each.simps
    by (rule ends_bind [OF q]) (simp only: not_True_eq_False if_False, rule ends_bind [OF c], rule ends_bind [OF ends_delay [OF assms]], rule ends_bind [OF ends_ret], simp only: fst_conv snd_conv, rule ends_ret)
next
  case (Suc n)
  let ?v = "v\<lparr>busy := 0\<rparr>"
  let ?u = "v\<lparr>pos := pos v + 1, words := store v (pos v + 1), left := n, busy := lat v\<rparr>"
  have w: "words ?v \<noteq> []" "length [0..<256] = length (words ?v)" using Suc.prems by (auto simp: sane_def simp flip: length_0_conv)
  have q: "ends view (ata_wait_drq d) v True ?v" using Suc.prems w by (intro ends_drq [OF assms]) (auto simp: sane_def)
  have c: "ends view (collect_io (\<lambda>_. inw d ATA_PRIMARY_DATA) [0..<256]) ?v (store v (pos v)) ?u"
    using ends_collect [OF assms refl w] Suc.prems by (simp add: after_sector_def)
  have u: "sane ?u" using Suc.prems(1) by (simp add: sane_def)
  have r: "ends view (read_each d (Suc n)) ?u (concat (map (store v) [pos v + 1..<pos v + 1 + Suc n]), True)
      (v\<lparr>pos := pos v + Suc n, words := [], left := 0, busy := 0\<rparr>)"
    using Suc.IH [OF u] by simp
  have l: "concat (map (store v) [pos v..<pos v + Suc (Suc n)]) = store v (pos v) @ concat (map (store v) [pos v + 1..<pos v + 1 + Suc n])"
    by (subst upt_conv_Cons) simp_all
  show ?case unfolding read_each.simps(2) [of d "Suc n"] l
    by (rule ends_bind [OF q]) (simp only: not_True_eq_False if_False, rule ends_bind [OF c], rule ends_bind [OF ends_delay [OF assms]], rule ends_bind [OF r], simp only: fst_conv snd_conv, rule ends_ret)
qed

text \<open>The registers after \<open>ata_prepare\<close>.\<close>

definition addressed :: "u32 \<Rightarrow> u8 \<Rightarrow> drive \<Rightarrow> drive" where
  "addressed lba count v = v\<lparr>busy := 0, r_head := 0xE0 OR (ucast (drop_bit 24 lba) AND 0x0F), r_cnt := count,
     r_lo := ucast lba, r_mid := ucast (drop_bit 8 lba), r_hi := ucast (drop_bit 16 lba)\<rparr>"

lemma ends_prepare:
  assumes "is_drive d view" "busy v < WAIT_CYCLES" "s_disk_present a"
  shows "ends view (ata_prepare d a lba count) v True (addressed lba count v)"
proof -
  note o = ends_outb [OF assms(1)]
  have p: "ATA_PRIMARY_DRIVE_HEAD = 0x1F6" "ATA_PRIMARY_SECTOR_CNT = 0x1F2" "ATA_PRIMARY_LBA_LO = 0x1F3" "ATA_PRIMARY_LBA_MID = 0x1F4" "ATA_PRIMARY_LBA_HI = 0x1F5"
    by (simp_all add: ata_ports)
  have e: "addressed lba count v = drv_outb ATA_PRIMARY_LBA_HI (ucast (drop_bit 16 lba)) (drv_outb ATA_PRIMARY_LBA_MID (ucast (drop_bit 8 lba))
      (drv_outb ATA_PRIMARY_LBA_LO (ucast lba) (drv_outb ATA_PRIMARY_SECTOR_CNT count
      (drv_outb ATA_PRIMARY_DRIVE_HEAD (0xE0 OR (ucast (drop_bit 24 lba) AND 0x0F)) (v\<lparr>busy := 0\<rparr>)))))"
    by (simp add: addressed_def drv_outb_def p)
  show ?thesis unfolding e ata_prepare_def using assms(3)
    by simp (rule ends_bind [OF ends_not_busy [OF assms(1,2)]], simp, rule ends_bind [OF o], rule ends_bind [OF ends_delay [OF assms(1)]],
      rule ends_bind [OF o], rule ends_bind [OF o], rule ends_bind [OF o], rule ends_bind [OF o], rule ends_ret)
qed

lemma lba_addressed: "lba < 0x10000000 \<Longrightarrow> drv_lba (addressed lba count v) = unat lba"
proof -
  assume "lba < 0x10000000"
  then have u: "unat lba < 2 ^ 28" by (simp add: word_less_nat_alt)
  have "take_bit 28 lba = lba" by (rule word_unat_eq_iff [THEN iffD2]) (simp add: unsigned_take_bit_eq take_bit_nat_eq_self [OF u])
  then have h: "\<not> bit lba n" if "28 \<le> n" for n
    using that bit_take_bit_iff [of 28 lba n] by simp
  have k: "bit (0x0F :: u8) i \<longleftrightarrow> i < 4" for i
  proof -
    have "(0x0F :: u8) = mask 4" by (simp add: mask_numeral)
    then show ?thesis by (simp only: bit_mask_iff) auto
  qed
  have e: "\<not> bit (0xE0 :: u8) i" if "i < 4" for i
  proof -
    have "(0xE0 :: u8) = push_bit 5 7" by simp
    with that show ?thesis by (simp only: bit_push_bit_iff) simp
  qed
  have "push_bit 24 (ucast ((0xE0 OR (ucast (drop_bit 24 lba) AND 0x0F)) AND 0x0F :: u8)) OR push_bit 16 (ucast (ucast (drop_bit 16 lba) :: u8))
      OR push_bit 8 (ucast (ucast (drop_bit 8 lba) :: u8)) OR ucast (ucast lba :: u8) = lba" (is "?l = lba")
  proof (rule bit_word_eqI)
    fix n assume "n < LENGTH(32)"
    then consider "n < 8" | "8 \<le> n" "n < 16" | "16 \<le> n" "n < 24" | "24 \<le> n" "n < 28" | "28 \<le> n" "n < 32" by fastforce
    then show "bit ?l n = bit lba n"
      using h [of n] by cases (simp only: bit_or_iff bit_and_iff bit_push_bit_iff bit_unsigned_iff bit_drop_bit_eq o_apply k, auto dest: e)+
  qed
  then show ?thesis by (simp add: drv_lba_def addressed_def)
qed

section \<open>Writing\<close>

text \<open>The sectors \<open>n\<close> from \<open>p\<close> on hold the words of \<open>ws\<close>, 256 each; the others are as before.\<close>

definition sectors_written :: "(nat \<Rightarrow> u16 list) \<Rightarrow> nat \<Rightarrow> nat \<Rightarrow> u16 list \<Rightarrow> nat \<Rightarrow> u16 list" where
  "sectors_written f p n ws i = (if p \<le> i \<and> i < p + n then take 256 (drop (256 * (i - p)) ws) else f i)"

lemma ends_put:
  assumes "is_drive d view"
  shows "0 < want v \<Longrightarrow> length (got v) + length xs = 256 \<Longrightarrow> xs \<noteq> [] \<Longrightarrow>
    ends view (each_io (outw d ATA_PRIMARY_DATA) xs) v ()
      (v\<lparr>store := (store v)(pos v := got v @ xs), pos := pos v + 1, want := want v - 1, got := [], busy := lat v\<rparr>)"
proof (induction xs arbitrary: v)
  case Nil
  then show ?case by simp
next
  case (Cons x xs)
  show ?case
  proof (cases "xs = []")
    case True
    then have "drv_outw x v = v\<lparr>store := (store v)(pos v := got v @ [x]), pos := pos v + 1, want := want v - 1, got := [], busy := lat v\<rparr>"
      using Cons.prems by (simp add: drv_outw_def)
    with ends_outw [OF assms, of x v] have "ends view (outw d ATA_PRIMARY_DATA x) v ()
      (v\<lparr>store := (store v)(pos v := got v @ [x]), pos := pos v + 1, want := want v - 1, got := [], busy := lat v\<rparr>)" by simp
    then show ?thesis unfolding True each_io.simps by (rule ends_bind) (rule ends_ret)
  next
    case False
    then have "drv_outw x v = v\<lparr>got := got v @ [x]\<rparr>" using Cons.prems by (cases xs) (simp_all add: drv_outw_def)
    with ends_outw [OF assms, of x v] have o: "ends view (outw d ATA_PRIMARY_DATA x) v () (v\<lparr>got := got v @ [x]\<rparr>)" by simp
    have e: "(v\<lparr>got := got v @ [x]\<rparr>)\<lparr>store := (store v)(pos v := (got v @ [x]) @ xs), pos := pos v + 1, want := want v - 1, got := [], busy := lat v\<rparr>
        = v\<lparr>store := (store v)(pos v := got v @ x # xs), pos := pos v + 1, want := want v - 1, got := [], busy := lat v\<rparr>" by simp
    show ?thesis unfolding each_io.simps
      using Cons.IH [of "v\<lparr>got := got v @ [x]\<rparr>"] Cons.prems False e by (intro ends_bind [OF o]) simp
  qed
qed

lemma sectors_written_Suc:
  "sectors_written (f(p := take 256 ws)) (p + 1) n (drop 256 ws) = sectors_written f p (Suc n) ws"
proof
  fix i
  show "sectors_written (f(p := take 256 ws)) (p + 1) n (drop 256 ws) i = sectors_written f p (Suc n) ws i"
  proof (cases "p < i \<and> i < p + Suc n")
    case True
    then have "i - p = Suc (i - (p + 1))" by (simp add: Suc_diff_Suc)
    then have "256 * (i - p) = 256 * (i - (p + 1)) + 256" by simp
    then show ?thesis using True by (simp add: sectors_written_def)
  qed (auto simp: sectors_written_def)
qed

lemma ends_write_each:
  assumes "is_drive d view"
  shows "sane v \<Longrightarrow> got v = [] \<Longrightarrow> want v = n \<Longrightarrow> length ws = 256 * n \<Longrightarrow>
    \<exists>u. ends view (write_each d n ws) v True u \<and> sane u \<and> store u = sectors_written (store v) (pos v) n ws \<and>
      got u = [] \<and> want u = 0 \<and> words u = words v"
proof (induction n arbitrary: v ws)
  case 0
  have "store v = sectors_written (store v) (pos v) 0 ws" by (rule ext) (auto simp: sectors_written_def)
  with 0 show ?case by (auto intro!: exI [of _ v] ends_ret)
next
  case (Suc n)
  let ?v = "v\<lparr>busy := 0\<rparr>"
  let ?u = "?v\<lparr>store := (store v)(pos v := take 256 ws), pos := pos v + 1, want := n, got := [], busy := lat v\<rparr>"
  have q: "ends view (ata_wait_drq d) v True ?v" using Suc.prems by (intro ends_drq [OF assms]) (auto simp: sane_def)
  have x: "length (take 256 ws) = 256" using Suc.prems by simp
  have c: "ends view (each_io (outw d ATA_PRIMARY_DATA) (take 256 ws)) ?v () ?u"
    using ends_put [OF assms, of ?v "take 256 ws"] x Suc.prems by (cases "ws = []") (simp_all del: length_take)
  have u: "sane ?u" using Suc.prems(1) x by (simp add: sane_def)
  obtain w where w: "ends view (write_each d n (drop 256 ws)) ?u True w" "sane w"
      "store w = sectors_written ((store v)(pos v := take 256 ws)) (pos v + 1) n (drop 256 ws)" "got w = []" "want w = 0" "words w = words v"
    using Suc.IH [OF u, of "drop 256 ws"] Suc.prems by (auto simp: fun_upd_def)
  have "ends view (write_each d (Suc n) ws) v True w"
    unfolding write_each.simps
    by (rule ends_bind [OF q]) (simp only: not_True_eq_False if_False, rule ends_bind [OF c], rule ends_bind [OF ends_delay [OF assms]], rule w(1))
  with w show ?case unfolding sectors_written_Suc by blast
qed

text \<open>A drive at rest: no sector in its buffer, none expected.\<close>

definition idle :: "drive \<Rightarrow> bool" where
  "idle v \<longleftrightarrow> sane v \<and> words v = [] \<and> got v = [] \<and> want v = 0"

lemma addressed_simps [simp]:
  "store (addressed lba count v) = store v" "lat (addressed lba count v) = lat v" "words (addressed lba count v) = words v"
  "got (addressed lba count v) = got v" "want (addressed lba count v) = want v" "busy (addressed lba count v) = 0"
  "drv_count (addressed lba count v) = (if count = 0 then 256 else unat count)"
  by (simp_all add: addressed_def drv_count_def)

lemma ends_write_sectors:
  assumes "is_drive d view" "idle v" "s_disk_present a" "lba < 0x10000000" "0 < count" "length ws = 256 * unat count"
  shows "\<exists>u. ends view (ata_write_sectors d a lba count ws) v True u \<and> idle u \<and> store u = sectors_written (store v) (unat lba) (unat count) ws"
proof -
  let ?v = "addressed lba count v"
  let ?c = "drv_cmd 0x30 ?v"
  have p: "ends view (ata_prepare d a lba count) v True ?v" using assms by (intro ends_prepare) (simp_all add: idle_def sane_def)
  have o: "ends view (outb d ATA_PRIMARY_CMD ATA_CMD_WRITE_SECTORS) ?v () ?c"
    using ends_outb [OF assms(1), of ATA_PRIMARY_CMD ATA_CMD_WRITE_SECTORS ?v] by (simp add: drv_outb_def ATA_PRIMARY_CMD_def ATA_CMD_WRITE_SECTORS_def)
  have c: "count \<noteq> 0" using assms(5) by auto
  have f: "sane ?c" "got ?c = []" "want ?c = unat count" "pos ?c = unat lba" "store ?c = store v" "words ?c = []"
    using assms(2) c lba_addressed [OF assms(4)] by (simp_all add: drv_cmd_def idle_def sane_def)
  obtain u where u: "ends view (write_each d (unat count) ws) ?c True u" "sane u" "store u = sectors_written (store v) (unat lba) (unat count) ws"
      "got u = []" "want u = 0" "words u = []"
    using ends_write_each [OF assms(1) f(1,2,3) assms(6)] unfolding f(4,5,6) by blast
  let ?w = "u\<lparr>busy := lat u\<rparr>"
  have g: "ends view (outb d ATA_PRIMARY_CMD ATA_CMD_FLUSH) u () ?w"
    using ends_outb [OF assms(1), of ATA_PRIMARY_CMD ATA_CMD_FLUSH u] by (simp add: drv_outb_def drv_cmd_def ATA_PRIMARY_CMD_def ATA_CMD_FLUSH_def)
  have n: "ends view (ata_wait_not_busy d) ?w True (?w\<lparr>busy := 0\<rparr>)" using u(2) by (intro ends_not_busy [OF assms(1)]) (simp add: sane_def)
  have "ends view (ata_write_sectors d a lba count ws) v True (?w\<lparr>busy := 0\<rparr>)"
    unfolding ata_write_sectors_def
    by (rule ends_bind [OF p]) (simp only: not_True_eq_False if_False, rule ends_bind [OF o], rule ends_bind [OF u(1)],
      simp only: not_True_eq_False if_False, rule ends_bind [OF g], rule ends_bind [OF n], rule ends_ret)
  moreover have "idle (?w\<lparr>busy := 0\<rparr>)" using u by (simp add: idle_def sane_def)
  ultimately show ?thesis using u(3) by (intro exI [of _ "?w\<lparr>busy := 0\<rparr>"]) simp
qed

lemma ends_read_sectors:
  assumes "is_drive d view" "idle v" "s_disk_present a" "lba < 0x10000000" "0 < count"
  shows "\<exists>u. ends view (ata_read_sectors d a lba count) v (concat (map (store v) [unat lba..<unat lba + unat count]), True) u \<and> idle u \<and> store u = store v"
proof -
  let ?v = "addressed lba count v"
  let ?c = "drv_cmd 0x20 ?v"
  have p: "ends view (ata_prepare d a lba count) v True ?v" using assms by (intro ends_prepare) (simp_all add: idle_def sane_def)
  have o: "ends view (outb d ATA_PRIMARY_CMD ATA_CMD_READ_SECTORS) ?v () ?c"
    using ends_outb [OF assms(1), of ATA_PRIMARY_CMD ATA_CMD_READ_SECTORS ?v] by (simp add: drv_outb_def ATA_PRIMARY_CMD_def ATA_CMD_READ_SECTORS_def)
  have c: "count \<noteq> 0" using assms(5) by auto
  then obtain n where n: "unat count = Suc n" by (cases "unat count") (simp_all add: unat_eq_0)
  have f: "sane ?c" "words ?c = store ?c (pos ?c)" "left ?c = n" "pos ?c = unat lba" "store ?c = store v" "got ?c = []" "want ?c = 0"
    using assms(2) c n lba_addressed [OF assms(4)] by (simp_all add: drv_cmd_def idle_def sane_def)
  let ?w = "?c\<lparr>pos := unat lba + n, words := [], left := 0, busy := 0\<rparr>"
  have r: "ends view (read_each d (unat count)) ?c (concat (map (store v) [unat lba..<unat lba + unat count]), True) ?w"
    using ends_read_each [OF assms(1) f(1,2,3)] unfolding f(4,5) n .
  have "ends view (ata_read_sectors d a lba count) v (concat (map (store v) [unat lba..<unat lba + unat count]), True) ?w"
    unfolding ata_read_sectors_def
    by (rule ends_bind [OF p]) (simp only: not_True_eq_False if_False, rule ends_bind [OF o], rule r)
  moreover have "idle ?w" using f by (simp add: idle_def sane_def)
  ultimately show ?thesis using f(5) by (intro exI [of _ ?w]) simp
qed

lemma sectors_written_back:
  "length ws = 256 * n \<Longrightarrow> concat (map (sectors_written f p n ws) [p..<p + n]) = ws"
proof (induction n arbitrary: f p ws)
  case 0
  then show ?case by simp
next
  case (Suc n)
  have "concat (map (sectors_written f p (Suc n) ws) [p..<p + Suc n]) = sectors_written f p (Suc n) ws p @ concat (map (sectors_written f p (Suc n) ws) [p + 1..<p + 1 + n])"
    by (subst upt_conv_Cons) simp_all
  also have "sectors_written f p (Suc n) ws p = take 256 ws" by (simp add: sectors_written_def)
  also have "concat (map (sectors_written f p (Suc n) ws) [p + 1..<p + 1 + n]) = drop 256 ws"
    using Suc.IH [of "drop 256 ws" "f(p := take 256 ws)" "p + 1"] Suc.prems unfolding sectors_written_Suc by simp
  finally show ?case by simp
qed

text \<open>A drive that is there: the state of the machine is the drive itself.\<close>

definition drive_io :: "drive io" where
  "drive_io = \<lparr>outb = (\<lambda>p x. State (\<lambda>v. ((), drv_outb p x v))), inb = (\<lambda>p. State (drv_inb p)),
     outw = (\<lambda>_ x. State (\<lambda>v. ((), drv_outw x v))), inw = (\<lambda>_. State drv_inw),
     outl = (\<lambda>_ _. State_Monad.return ()), inl = (\<lambda>_. State_Monad.return 0)\<rparr>"

lemma drive_io_drive: "is_drive drive_io (\<lambda>v. v)"
  by (simp add: is_drive_def drive_io_def)

definition demo_drive :: drive where
  "demo_drive = \<lparr>r_head = 0, r_cnt = 0, r_lo = 0, r_mid = 0, r_hi = 0, busy = 0, lat = 5, pos = 0, words = [], left = 0,
     got = [], want = 0, store = (\<lambda>_. replicate 256 0)\<rparr>"

section \<open>Properties\<close>

text \<open>C31: over any drive that follows the protocol, with any latency within the driver's patience, a
  write of sectors inside the 28-bit range succeeds, changes exactly the sectors named, and a read of
  the same sectors gives the words written and changes nothing.\<close>

theorem ata_round_trip:
  assumes "is_drive d view" "idle (view s)" "s_disk_present a" "0 < count" "unat lba + unat count \<le> 0x10000000"
    "length ws = 256 * unat count"
  shows "\<exists>s1 s2. run_state (ata_write_sectors d a lba count ws) s = (True, s1) \<and>
    store (view s1) = sectors_written (store (view s)) (unat lba) (unat count) ws \<and>
    run_state (ata_read_sectors d a lba count) s1 = ((ws, True), s2) \<and> store (view s2) = store (view s1)"
proof -
  have "0 < unat count" using assms(4) by (simp add: word_less_nat_alt)
  then have l: "lba < 0x10000000" using assms(5) by (simp add: word_less_nat_alt)
  obtain u where u: "ends view (ata_write_sectors d a lba count ws) (view s) True u" "idle u"
      "store u = sectors_written (store (view s)) (unat lba) (unat count) ws"
    using ends_write_sectors [OF assms(1,2,3) l assms(4,6)] by blast
  obtain w where w: "ends view (ata_read_sectors d a lba count) u (ws, True) w" "store w = store u"
    using ends_read_sectors [OF assms(1) u(2) assms(3) l assms(4)] unfolding u(3) sectors_written_back [OF assms(6)] by blast
  let ?s1 = "snd (run_state (ata_write_sectors d a lba count ws) s)"
  have "fst (run_state (ata_write_sectors d a lba count ws) s) = True" "view ?s1 = u"
    "fst (run_state (ata_read_sectors d a lba count) ?s1) = (ws, True)" "view (snd (run_state (ata_read_sectors d a lba count) ?s1)) = w"
    using u(1) w(1) by (simp_all add: ends_def)
  with u(3) w(2) show ?thesis by (intro exI [of _ ?s1] exI [of _ "snd (run_state (ata_read_sectors d a lba count) ?s1)"]) (simp add: prod_eq_iff)
qed

theorem ata_round_trip_witness:
  "\<exists>s1 s2. run_state (ata_write_sectors drive_io \<lparr>s_disk_present = True, s_sector_count = 9\<rparr> 5 1 (replicate 256 7)) demo_drive = (True, s1) \<and>
    store s1 = sectors_written (store demo_drive) (unat (5 :: u32)) (unat (1 :: u8)) (replicate 256 7) \<and>
    run_state (ata_read_sectors drive_io \<lparr>s_disk_present = True, s_sector_count = 9\<rparr> 5 1) s1 = ((replicate 256 7, True), s2) \<and>
    store s2 = store s1"
  by (rule ata_round_trip [OF drive_io_drive]) (simp_all add: idle_def sane_def demo_drive_def WAIT_CYCLES_def)

end
