(* ===== verification/AtaDisk.thy ===== *)
theory AtaDisk
  imports Ata Fat32
begin

unbundle bit_operations_syntax

text \<open>
  The driver under the file system: FAT32's map of sectors (\<open>ata_read\<close>, \<open>ata_write\<close> of Fat32) is what
  the driver of Ata makes of a drive, one sector at a time. \<open>shows_sectors\<close> relates the two; a run of
  reads and writes has the same answers over both.
\<close>

section \<open>Words and bytes\<close>

definition words_in :: "bytes \<Rightarrow> u16 list" where
  "words_in b = map (\<lambda>i. get16 b (2 * i)) [0..<length b div 2]"

definition bytes_of_words :: "u16 list \<Rightarrow> bytes" where
  "bytes_of_words ws = concat (map bytes16 ws)"

lemma bytes16_get16: "bytes16 (get16 (x # y # b) 0) = [x, y]"
proof -
  have "ucast (get16 (x # y # b) 0) = x" by (rule bit_word_eqI) (auto simp: get16_def bit_simps)
  moreover have "ucast (drop_bit 8 (get16 (x # y # b) 0)) = y" by (rule bit_word_eqI) (auto simp: get16_def bit_simps dest: bit_imp_le_length)
  ultimately show ?thesis by (simp add: bytes16_def)
qed

lemma words_in_Cons: "words_in (x # y # b) = get16 (x # y # b) 0 # words_in b"
proof -
  have "words_in (x # y # b) = get16 (x # y # b) 0 # map (\<lambda>i. get16 (x # y # b) (2 * Suc i)) [0..<length b div 2]"
    unfolding words_in_def by (simp add: upt_conv_Cons map_Suc_upt [symmetric] comp_def del: upt_Suc map_Suc_upt)
  also have "map (\<lambda>i. get16 (x # y # b) (2 * Suc i)) [0..<length b div 2] = words_in b"
    by (simp add: words_in_def get16_def)
  finally show ?thesis .
qed

lemma words_in_bytes: "even (length b) \<Longrightarrow> bytes_of_words (words_in b) = b"
proof (induction b rule: induct_list012)
  case 1
  show ?case by (simp add: words_in_def bytes_of_words_def)
next
  case (2 x)
  then show ?case by simp
next
  case (3 x y b)
  then show ?case by (simp add: words_in_Cons bytes_of_words_def bytes16_get16)
qed

section \<open>Runs of reads and writes\<close>

datatype disk_op = Rd u32 | Wr u32 bytes

fun disk_op_ok :: "disk_op \<Rightarrow> bool" where
  "disk_op_ok (Rd lba) \<longleftrightarrow> lba < 0x10000000"
| "disk_op_ok (Wr lba b) \<longleftrightarrow> lba < 0x10000000 \<and> length b = 512"

text \<open>The answers: the bytes read, nothing for a write, \<open>None\<close> for a call that returns false.\<close>

fun driver_op :: "'d io \<Rightarrow> ata \<Rightarrow> disk_op \<Rightarrow> ('d, bytes option) state" where
  "driver_op d a (Rd lba) = do {
     r \<leftarrow> ata_read_sectors d a lba 1;
     done_with (if snd r then Some (bytes_of_words (fst r)) else None) }"
| "driver_op d a (Wr lba b) = do {
     ok \<leftarrow> ata_write_sectors d a lba 1 (words_in b);
     done_with (if ok then Some [] else None) }"

fun sector_op :: "disk_op \<Rightarrow> fat \<Rightarrow> bytes option \<times> fat" where
  "sector_op (Rd lba) s = (ata_read lba s, s)"
| "sector_op (Wr lba b) s = (case ata_write lba b s of None \<Rightarrow> (None, s) | Some s' \<Rightarrow> (Some [], s'))"

fun sector_ops :: "disk_op list \<Rightarrow> fat \<Rightarrow> bytes option list" where
  "sector_ops [] s = []"
| "sector_ops (x # xs) s = (let (r, s') = sector_op x s in r # sector_ops xs s')"

definition shows_sectors :: "drive \<Rightarrow> fat \<Rightarrow> bool" where
  "shows_sectors v s \<longleftrightarrow> disk_present s \<and> (\<forall>lba < 0x10000000. \<not> bad s lba \<and> sectors s lba = bytes_of_words (store v (unat lba)))"

lemma op_refines:
  assumes "is_drive d view" "s_disk_present a" "idle v" "shows_sectors v s" "disk_op_ok x"
  shows "\<exists>w. ends view (driver_op d a x) v (fst (sector_op x s)) w \<and> idle w \<and> shows_sectors w (snd (sector_op x s))"
proof (cases x)
  case (Rd lba)
  then have l: "lba < 0x10000000" using assms(5) by simp
  obtain u where u: "ends view (ata_read_sectors d a lba 1) v (store v (unat lba), True) u" "idle u" "store u = store v"
    using ends_read_sectors [OF assms(1,3,2) l, of 1] by auto
  have "ata_read lba s = Some (bytes_of_words (store v (unat lba)))" using assms(4) l by (simp add: ata_read_def shows_sectors_def)
  then have "ends view (driver_op d a x) v (fst (sector_op x s)) u"
    unfolding Rd driver_op.simps by (intro ends_bind [OF u(1)]) (simp add: ends_ret)
  with u(2,3) assms(4) show ?thesis unfolding Rd by (auto simp: shows_sectors_def)
next
  case (Wr lba b)
  then have l: "lba < 0x10000000" and b: "length b = 512" using assms(5) by simp_all
  have n: "length (words_in b) = 256" by (simp add: words_in_def b)
  obtain u where u: "ends view (ata_write_sectors d a lba 1 (words_in b)) v True u" "idle u"
      "store u = sectors_written (store v) (unat lba) 1 (words_in b)"
    using ends_write_sectors [OF assms(1,3,2) l, of 1 "words_in b"] n by auto
  have w: "ata_write lba b s = Some (s\<lparr>sectors := (sectors s)(lba := b)\<rparr>)" using assms(4) l by (simp add: ata_write_def shows_sectors_def)
  have "store u (unat l') = (if l' = lba then words_in b else store v (unat l'))" for l'
    unfolding u(3) sectors_written_def using n by (auto simp: word_unat_eq_iff)
  then have "shows_sectors u (s\<lparr>sectors := (sectors s)(lba := b)\<rparr>)"
    using assms(4) by (simp add: shows_sectors_def words_in_bytes b)
  moreover have "ends view (driver_op d a x) v (fst (sector_op x s)) u"
    unfolding Wr driver_op.simps by (intro ends_bind [OF u(1)]) (simp add: ends_ret w)
  ultimately show ?thesis using u(2) unfolding Wr by (auto simp: w)
qed

lemma ops_refine:
  assumes "is_drive d view" "s_disk_present a"
  shows "idle v \<Longrightarrow> shows_sectors v s \<Longrightarrow> list_all disk_op_ok xs \<Longrightarrow> \<exists>w. ends view (collect_io (driver_op d a) xs) v (sector_ops xs s) w"
proof (induction xs arbitrary: v s)
  case Nil
  show ?case by (auto intro: ends_ret)
next
  case (Cons x xs)
  obtain u where u: "ends view (driver_op d a x) v (fst (sector_op x s)) u" "idle u" "shows_sectors u (snd (sector_op x s))"
    using op_refines [OF assms Cons.prems(1,2)] Cons.prems(3) by auto
  obtain w where w: "ends view (collect_io (driver_op d a) xs) u (sector_ops xs (snd (sector_op x s))) w"
    using Cons.IH [OF u(2,3)] Cons.prems(3) by auto
  have "ends view (collect_io (driver_op d a) (x # xs)) v (fst (sector_op x s) # sector_ops xs (snd (sector_op x s))) w"
    unfolding collect_io.simps by (rule ends_bind [OF u(1)], rule ends_bind [OF w], rule ends_ret)
  then show ?case by (auto simp: case_prod_beta)
qed

definition demo_sectors :: fat where
  "demo_sectors = \<lparr>mounted = True, fat_start_lba = 0, fat_size_sectors = 0, data_start_lba = 0, root_cluster = 0, sectors_per_clust = 0,
     bytes_per_clust = 0, fat_cache = [], fat_cache_lba = 0, fat_cache_dirty = False, sectors = (\<lambda>_. replicate 512 0), bad = (\<lambda>_. False),
     disk_present = True, sector_count = 9, fheap = demo_heap\<rparr>"

section \<open>Properties\<close>

text \<open>C32: over a drive that follows the protocol, every run of reads and writes of single sectors through
  the driver has the answers it has over the map of sectors the file system is built on.\<close>

theorem ata_refines_sectors:
  assumes "is_drive d view" "s_disk_present a" "idle (view m)" "shows_sectors (view m) s" "list_all disk_op_ok xs"
  shows "fst (run_state (collect_io (driver_op d a) xs) m) = sector_ops xs s"
  using ops_refine [OF assms] by (auto simp: ends_def)

theorem ata_refines_sectors_witness:
  "fst (run_state (collect_io (driver_op drive_io \<lparr>s_disk_present = True, s_sector_count = 9\<rparr>) [Wr 5 (replicate 512 7), Rd 5, Rd 6]) demo_drive)
     = sector_ops [Wr 5 (replicate 512 7), Rd 5, Rd 6] demo_sectors \<and>
   sector_ops [Wr 5 (replicate 512 7), Rd 5, Rd 6] demo_sectors = [Some [], Some (replicate 512 7), Some (replicate 512 0)]"
proof -
  have z: "bytes_of_words (replicate n 0) = replicate (2 * n) 0" for n
    by (induction n) (simp_all add: bytes_of_words_def bytes16_def)
  have "shows_sectors demo_drive demo_sectors"
    using z [of 256] by (simp add: shows_sectors_def demo_drive_def demo_sectors_def)
  then have "fst (run_state (collect_io (driver_op drive_io \<lparr>s_disk_present = True, s_sector_count = 9\<rparr>) [Wr 5 (replicate 512 7), Rd 5, Rd 6]) demo_drive)
     = sector_ops [Wr 5 (replicate 512 7), Rd 5, Rd 6] demo_sectors"
    by (intro ata_refines_sectors [OF drive_io_drive]) (simp_all add: idle_def sane_def demo_drive_def WAIT_CYCLES_def)
  then show ?thesis by (simp add: demo_sectors_def ata_read_def ata_write_def)
qed

end
