(* ===== verification/RtlPorts.thy ===== *)
theory RtlPorts
  imports ShellNet Pci Devices
begin

unbundle bit_operations_syntax

text \<open>
  The network card's driver at its ports (\<^verbatim>\<open>kernel/rtl8139.cpp\<close>, \<^verbatim>\<open>kernel/rtl8139.h\<close>): finding
  and starting the card, the wait before a transmission, and the receiving loop of the interrupt
  handler against a card that fills a ring of 32 KiB. Rtl8139 holds what a transmission puts on the
  wire. \<open>peek i\<close> reads byte \<open>i\<close> of the receive buffer, which the card writes.
\<close>

definition RTL_VENDOR :: u16 where "RTL_VENDOR = 0x10EC"
definition RTL_DEVICE :: u16 where "RTL_DEVICE = 0x8139"

definition RTL_REG_MAC0 :: u16 where "RTL_REG_MAC0 = 0"
definition RTL_REG_TXSTATUS0 :: u16 where "RTL_REG_TXSTATUS0 = 0x10"
definition RTL_REG_TXADDR0 :: u16 where "RTL_REG_TXADDR0 = 0x20"
definition RTL_REG_RXBUF :: u16 where "RTL_REG_RXBUF = 0x30"
definition RTL_REG_CHIPCMD :: u16 where "RTL_REG_CHIPCMD = 0x37"
definition RTL_REG_RXBUFTAIL :: u16 where "RTL_REG_RXBUFTAIL = 0x38"
definition RTL_REG_INTRMASK :: u16 where "RTL_REG_INTRMASK = 0x3C"
definition RTL_REG_INTRSTATUS :: u16 where "RTL_REG_INTRSTATUS = 0x3E"
definition RTL_REG_TXCONFIG :: u16 where "RTL_REG_TXCONFIG = 0x40"
definition RTL_REG_RXCONFIG :: u16 where "RTL_REG_RXCONFIG = 0x44"
definition RTL_REG_CONFIG1 :: u16 where "RTL_REG_CONFIG1 = 0x52"

definition RTL_CMD_RESET :: u8 where "RTL_CMD_RESET = 0x10"
definition RTL_CMD_RX_ENABLE :: u8 where "RTL_CMD_RX_ENABLE = 0x08"
definition RTL_CMD_TX_ENABLE :: u8 where "RTL_CMD_TX_ENABLE = 0x04"

definition RTL_INT_ROK :: u16 where "RTL_INT_ROK = 0x0001"
definition RTL_INT_RER :: u16 where "RTL_INT_RER = 0x0002"
definition RTL_INT_TOK :: u16 where "RTL_INT_TOK = 0x0004"
definition RTL_INT_TER :: u16 where "RTL_INT_TER = 0x0008"
definition RTL_INT_RXOVW :: u16 where "RTL_INT_RXOVW = 0x0010"
definition RTL_INT_FOVW :: u16 where "RTL_INT_FOVW = 0x0040"

definition RTL_RX_ACCEPT_ALL :: u32 where "RTL_RX_ACCEPT_ALL = push_bit 0 1"
definition RTL_RX_ACCEPT_PHYS :: u32 where "RTL_RX_ACCEPT_PHYS = push_bit 1 1"
definition RTL_RX_ACCEPT_MULTI :: u32 where "RTL_RX_ACCEPT_MULTI = push_bit 2 1"
definition RTL_RX_ACCEPT_BCAST :: u32 where "RTL_RX_ACCEPT_BCAST = push_bit 3 1"
definition RTL_RX_WRAP :: u32 where "RTL_RX_WRAP = push_bit 7 1"
definition RTL_RX_BUFSZ_32K :: u32 where "RTL_RX_BUFSZ_32K = push_bit 11 1"
definition RTL_TX_OWN :: u32 where "RTL_TX_OWN = push_bit 13 1"
definition RTL_TX_OK :: u32 where "RTL_TX_OK = push_bit 15 1"

record card =
  c_present :: bool
  c_iobase :: u16
  c_mac :: bytes
  c_rx_buf :: u32
  c_rx_phys :: u32
  c_rx_ptr :: u32
  c_tx_buf :: "u32 list"
  c_tx_phys :: "u32 list"
  c_tx_slot :: u8
  c_rx_cb :: bool

section \<open>Starting the card\<close>

definition rtl_reset :: "'d io \<Rightarrow> u16 \<Rightarrow> ('d, bytes) state" where
  "rtl_reset d base = do {
     outb d (base + RTL_REG_CONFIG1) 0;
     outb d (base + RTL_REG_CHIPCMD) RTL_CMD_RESET;
     poll_io 1000000 (do {
       r \<leftarrow> inb d (base + RTL_REG_CHIPCMD);
       done_with (if r AND RTL_CMD_RESET = 0 then Some () else None) }) ();
     collect_io (\<lambda>i. inb d (base + RTL_REG_MAC0 + of_nat i)) [0..<6]
   }"

text \<open>A buffer from the heap, cleared, with its physical address: \<open>None\<close> when there is none.\<close>

definition dma_buffer :: "vm \<Rightarrow> u32 \<Rightarrow> heap \<times> mem \<Rightarrow> ((heap \<times> mem) \<times> (u32 \<times> u32) option) option" where
  "dma_buffer v n = (\<lambda>(h, m). do {
     (h, p) \<leftarrow> kmalloc h n;
     Some (if p = 0 then ((h, m), None) else ((h, fst (kmemset m p 0 n)), Some (p, paging_get_physaddr p v)))
   })"

definition no_phys :: "string \<Rightarrow> term_call list" where
  "no_phys what = msg ''[RTL8139] ERROR: '' @ msg what @ msg '' buf phys addr = 0'' @ newline"

text \<open>The loop over the transmit buffers; the terminal's text when it gives up.\<close>

fun tx_buffers :: "vm \<Rightarrow> nat list \<Rightarrow> card \<Rightarrow> heap \<times> mem \<Rightarrow> ((heap \<times> mem) \<times> card \<times> term_call list option) option" where
  "tx_buffers v [] c hm = Some (hm, c, None)"
| "tx_buffers v (i # is) c hm = do {
     (hm, r) \<leftarrow> dma_buffer v (ucast RTL_TX_BUF_SIZE) hm;
     (case r of
        None \<Rightarrow> Some (hm, c\<lparr>c_tx_buf := (c_tx_buf c)[i := 0]\<rparr>, Some [])
      | Some (p, a) \<Rightarrow>
          let c = c\<lparr>c_tx_buf := (c_tx_buf c)[i := p], c_tx_phys := (c_tx_phys c)[i := a]\<rparr> in
          if a = 0 then Some (hm, c, Some (no_phys ''TX'')) else tx_buffers v is c hm)
   }"

definition rtl_buffers :: "vm \<Rightarrow> card \<Rightarrow> heap \<times> mem \<Rightarrow> ((heap \<times> mem) \<times> card \<times> term_call list option) option" where
  "rtl_buffers v c hm = do {
     (hm, r) \<leftarrow> dma_buffer v (of_nat RTL_RX_BUF_SIZE) hm;
     (case r of
        None \<Rightarrow> Some (hm, c\<lparr>c_rx_buf := 0\<rparr>, Some [])
      | Some (p, a) \<Rightarrow>
          let c = c\<lparr>c_rx_buf := p, c_rx_phys := a\<rparr> in
          if a = 0 then Some (hm, c, Some (no_phys ''RX'')) else tx_buffers v [0..<unat RTL_TX_NUM] c hm)
   }"

definition rtl_start :: "'d io \<Rightarrow> card \<Rightarrow> ('d, unit) state" where
  "rtl_start d c = do {
     outl d (c_iobase c + RTL_REG_RXBUF) (c_rx_phys c);
     outw d (c_iobase c + RTL_REG_INTRMASK)
       (RTL_INT_ROK OR RTL_INT_RER OR RTL_INT_TOK OR RTL_INT_TER OR RTL_INT_RXOVW OR RTL_INT_FOVW);
     outl d (c_iobase c + RTL_REG_RXCONFIG)
       (RTL_RX_ACCEPT_PHYS OR RTL_RX_ACCEPT_BCAST OR RTL_RX_ACCEPT_MULTI OR RTL_RX_ACCEPT_ALL OR RTL_RX_WRAP OR RTL_RX_BUFSZ_32K);
     outl d (c_iobase c + RTL_REG_TXCONFIG) 0x03000700;
     outb d (c_iobase c + RTL_REG_CHIPCMD) (RTL_CMD_RX_ENABLE OR RTL_CMD_TX_ENABLE);
     outw d (c_iobase c + RTL_REG_RXBUFTAIL) 0xFFF0
   }"

definition rtl8139_init :: "'d io \<Rightarrow> vm \<Rightarrow> card \<Rightarrow> heap \<times> mem \<Rightarrow> ('d, ((heap \<times> mem) \<times> card \<times> bool \<times> term_call list) option) state" where
  "rtl8139_init d v c0 hm = do {
     let c = c0\<lparr>c_present := False\<rparr>;
     p \<leftarrow> pci_find d RTL_VENDOR RTL_DEVICE;
     if \<not> pci_found p then done_with (Some (hm, c, False, msg ''[RTL8139] Not found on PCI bus'' @ newline))
     else do {
       pci_enable d p;
       base \<leftarrow> pci_bar_addr d p 0;
       mac \<leftarrow> rtl_reset d (ucast base);
       case rtl_buffers v (c\<lparr>c_iobase := ucast base, c_mac := mac\<rparr>) hm of
         None \<Rightarrow> done_with None
       | Some (hm, c, Some cs) \<Rightarrow> done_with (Some (hm, c, False, cs))
       | Some (hm, c, None) \<Rightarrow> do {
           rtl_start d c;
           done_with (Some (hm, c\<lparr>c_rx_ptr := 0, c_tx_slot := 0, c_present := True\<rparr>, True,
             msg ''[RTL8139] Init OK, MAC: '' @ mac_calls mac @ newline))
         }
     } }"

section \<open>Sending\<close>

definition rtl_wait_slot :: "'d io \<Rightarrow> card \<Rightarrow> ('d, unit) state" where
  "rtl_wait_slot d c = poll_io 1000000 (do {
     s \<leftarrow> inl d (c_iobase c + RTL_REG_TXSTATUS0 + ucast (c_tx_slot c) * 4);
     done_with (if s AND RTL_TX_OWN = 0 then Some ()
       else if s AND (RTL_TX_OK OR push_bit 14 1) \<noteq> 0 then Some () else None) }) ()"

text \<open>Short frames are padded with zeros in the buffer.\<close>

definition rtl_send :: "'d io \<Rightarrow> bytes \<Rightarrow> u16 \<Rightarrow> card \<Rightarrow> mem \<Rightarrow> ('d, mem \<times> card \<times> bool) state" where
  "rtl_send d data len c m =
     (if \<not> c_present c \<or> RTL_TX_BUF_SIZE < len then done_with (m, c, False)
      else
        let slot = c_tx_slot c; buf = c_tx_buf c ! unat slot;
            m1 = write_bytes m buf (take (unat len) data);
            m2 = (if len < 60 then fst (kmemset m1 (buf + ucast len) 0 (60 - ucast len)) else m1);
            len2 = (if len < 60 then 60 else len) in do {
          rtl_wait_slot d c;
          outl d (c_iobase c + RTL_REG_TXADDR0 + ucast slot * 4) (c_tx_phys c ! unat slot);
          outl d (c_iobase c + RTL_REG_TXSTATUS0 + ucast slot * 4) (ucast len2 AND 0x1FFF);
          done_with (m2, c\<lparr>c_tx_slot := (slot + 1) mod RTL_TX_NUM\<rparr>, True)
        })"

section \<open>Receiving\<close>

definition peek_word :: "(nat \<Rightarrow> ('d, u8) state) \<Rightarrow> nat \<Rightarrow> ('d, u16) state" where
  "peek_word peek i = do { lo \<leftarrow> peek i; hi \<leftarrow> peek (i + 1); done_with (ucast lo OR push_bit 8 (ucast hi)) }"

text \<open>The receiving loop, \<open>n\<close> turns at most: the pointer and the frames handed to the callback, \<open>None\<close> when the
  turns are used up.\<close>

fun rx_turns :: "nat \<Rightarrow> bool \<Rightarrow> 'd io \<Rightarrow> u16 \<Rightarrow> (nat \<Rightarrow> ('d, u8) state) \<Rightarrow> u32 \<Rightarrow> ('d, (u32 \<times> bytes list) option) state" where
  "rx_turns 0 cb d base peek ptr = done_with None"
| "rx_turns (Suc n) cb d base peek ptr = do {
     cmd \<leftarrow> inb d (base + RTL_REG_CHIPCMD);
     if cmd AND 0x01 \<noteq> 0 then done_with (Some (ptr, []))
     else do {
       status \<leftarrow> peek_word peek (unat ptr);
       len \<leftarrow> peek_word peek (unat ptr + 2);
       if len < 4 \<or> 1518 + 4 < len then do {
         outw d (base + RTL_REG_RXBUFTAIL) 0xFFF0;
         done_with (Some (0, []))
       }
       else do {
         f \<leftarrow> (if status AND 1 \<noteq> 0 \<and> cb then do {
                 f \<leftarrow> collect_io (\<lambda>i. peek (unat ptr + 4 + i)) [0..<unat (len - 4)];
                 done_with [f]
               } else done_with []);
         outw d (base + RTL_REG_RXBUFTAIL) (capr_of (RX_NEXT ptr len));
         r \<leftarrow> rx_turns n cb d base peek (RX_NEXT ptr len);
         done_with (map_option (\<lambda>(p, fs). (p, f @ fs)) r)
       }
     } }"

definition rtl_irq_handler :: "nat \<Rightarrow> 'd io \<Rightarrow> (nat \<Rightarrow> ('d, u8) state) \<Rightarrow> card \<Rightarrow> ('d, (card \<times> bytes list) option) state" where
  "rtl_irq_handler n d peek c =
     (if \<not> c_present c then done_with (Some (c, []))
      else do {
        let base = c_iobase c;
        status \<leftarrow> inw d (base + RTL_REG_INTRSTATUS);
        outw d (base + RTL_REG_INTRSTATUS) status;
        if status AND (RTL_INT_RXOVW OR RTL_INT_FOVW) \<noteq> 0 then do {
          outb d (base + RTL_REG_CHIPCMD) 0;
          outw d (base + RTL_REG_RXBUFTAIL) 0xFFF0;
          outb d (base + RTL_REG_CHIPCMD) (RTL_CMD_RX_ENABLE OR RTL_CMD_TX_ENABLE);
          done_with (Some (c\<lparr>c_rx_ptr := 0\<rparr>, []))
        }
        else if status AND RTL_INT_ROK \<noteq> 0 then do {
          r \<leftarrow> rx_turns n (c_rx_cb c) d base peek (c_rx_ptr c);
          done_with (map_option (\<lambda>(p, fs). (c\<lparr>c_rx_ptr := p\<rparr>, fs)) r)
        }
        else done_with (Some (c, []))
      })"

section \<open>A card that fills a ring\<close>

text \<open>The memory the card writes, and its offsets for reading and for writing; it shows its buffer empty when they meet.\<close>

record rx_ring =
  rmem :: "nat \<Rightarrow> u8"
  rd :: nat
  wr :: nat

definition is_ring :: "'d io \<Rightarrow> u16 \<Rightarrow> (nat \<Rightarrow> ('d, u8) state) \<Rightarrow> ('d \<Rightarrow> rx_ring) \<Rightarrow> bool" where
  "is_ring d base peek view \<longleftrightarrow>
     (\<forall>s. (fst (run_state (inb d (base + RTL_REG_CHIPCMD)) s) AND 1 \<noteq> 0 \<longleftrightarrow> rd (view s) = wr (view s)) \<and>
       view (snd (run_state (inb d (base + RTL_REG_CHIPCMD)) s)) = view s) \<and>
     (\<forall>i s. fst (run_state (peek i) s) = rmem (view s) i \<and> view (snd (run_state (peek i) s)) = view s) \<and>
     (\<forall>x s. view (snd (run_state (outw d (base + RTL_REG_RXBUFTAIL) x) s)) = (view s)\<lparr>rd := (unat x + 16) mod 32768\<rparr>)"

text \<open>The frames between two offsets: each behind its status and its length, which counts four bytes of checksum.\<close>

definition frame_at :: "(nat \<Rightarrow> u8) \<Rightarrow> nat \<Rightarrow> u16 \<Rightarrow> bytes \<Rightarrow> bool" where
  "frame_at M p status f \<longleftrightarrow> length f \<le> 1518 \<and>
     [M p, M (p + 1)] = bytes16 status \<and> [M (p + 2), M (p + 3)] = bytes16 (of_nat (length f + 4)) \<and>
     map (\<lambda>i. M (p + 4 + i)) [0..<length f] = f"

text \<open>Behind a frame at \<open>p\<close> with its four bytes of header and of checksum the card goes on at the next multiple of four.\<close>

definition frame_end :: "nat \<Rightarrow> bytes \<Rightarrow> nat" where
  "frame_end p f = (p + 4 + length f + 4 + 3) div 4 * 4 mod 32768"

fun queued :: "(nat \<Rightarrow> u8) \<Rightarrow> nat \<Rightarrow> (u16 \<times> bytes) list \<Rightarrow> nat \<Rightarrow> bool" where
  "queued M p [] w \<longleftrightarrow> p = w"
| "queued M p ((status, f) # fs) w \<longleftrightarrow> p \<noteq> w \<and> frame_at M p status f \<and> queued M (frame_end p f) fs w"

definition frames_taken :: "(u16 \<times> bytes) list \<Rightarrow> bytes list" where
  "frames_taken fs = map snd (filter (\<lambda>(status, f). status AND 1 \<noteq> 0) fs)"

lemma frames_taken_simps [simp]: "frames_taken [] = []" "frames_taken ((k, f) # fs) = (if k AND 1 \<noteq> 0 then [f] else []) @ frames_taken fs"
  by (simp_all add: frames_taken_def)

lemma RX_NEXT_frame_end:
  assumes "unat p < 32768" "length f \<le> 1518"
  shows "unat (RX_NEXT p (of_nat (length f + 4))) = frame_end (unat p) f"
proof -
  define l :: u16 where "l = of_nat (length f + 4)"
  have l: "unat l = length f + 4" using assms(2) unat_of_nat_lt [of "length f + 4", where 'a = 16] by (simp add: l_def)
  have a: "unat (p + ucast l) = unat p + (length f + 4)" using unat_plus_if [of p "ucast l"] assms by (simp add: l)
  have "unat (p + ucast l + 7) = unat p + (length f + 4) + 7" using unat_plus_if [of "p + ucast l" 7] assms by (simp add: a)
  moreover have "p + ucast l + 4 + 3 = p + ucast l + 7" by simp
  ultimately have n: "unat (p + ucast l + 4 + 3) = unat p + (length f + 4) + 7" by (simp only:)
  have "(3 :: u32) = mask 2" by (simp add: mask_eq_exp_minus_1)
  then have "unat ((p + ucast l + 4 + 3) AND NOT 3) = (unat p + (length f + 4) + 7) div 4 * 4"
    using unat_and_not_mask [of 2 "p + ucast l + 4 + 3"] unfolding n by simp
  moreover have "unat (32 * 1024 :: u32) = 32768" by simp
  ultimately have "unat (RX_NEXT p l) = (unat p + (length f + 4) + 7) div 4 * 4 mod 32768" unfolding RX_NEXT_def unat_mod by (simp only:)
  then show ?thesis by (simp add: frame_end_def l_def algebra_simps)
qed

lemma RX_NEXT_bound: "unat (RX_NEXT p len) < 32768"
  by (simp add: RX_NEXT_def unat_mod)

lemma capr_back: "(unat (capr_of (RX_NEXT p len)) + 16) mod 32768 = unat (RX_NEXT p len)"
proof -
  have b: "unat q < 32768 \<Longrightarrow> (unat (capr_of q) + 16) mod 32768 = unat q" for q
  proof (cases "16 \<le> q")
    case True
    then have "unat (q - 16) = unat q - 16" "16 \<le> unat q" by (simp_all add: word_le_nat_alt unat_sub)
    moreover assume "unat q < 32768"
    ultimately show ?thesis using True by (simp add: capr_of_def unsigned_ucast_eq take_bit_nat_eq_self)
  next
    case False
    then have q: "unat q < 16" by (simp add: word_le_nat_alt not_le)
    then have "unat (32768 - 16 + q) = 32752 + unat q" by (subst unat_add_lem [THEN iffD1]) simp_all
    then show ?thesis using False q by (simp add: capr_of_def unsigned_ucast_eq take_bit_nat_eq_self)
  qed
  show ?thesis by (rule b) (rule RX_NEXT_bound)
qed

lemma ends_peek:
  assumes "is_ring d base peek view" "[rmem v i, rmem v (i + 1)] = bytes16 h"
  shows "ends view (peek_word peek i) v h v"
proof -
  have p: "ends view (peek j) v (rmem v j) v" for j using assms(1) by (simp add: is_ring_def ends_def)
  have "ucast (rmem v i) OR push_bit 8 (ucast (rmem v (i + 1))) = get16 (bytes16 h) 0"
    using assms(2) by (simp add: get16_def bytes16_def)
  then have h: "h = ucast (rmem v i) OR push_bit 8 (ucast (rmem v (i + 1)))" by (simp add: get16_bytes16)
  show ?thesis unfolding peek_word_def by (subst h) (rule ends_bind [OF p], rule ends_bind [OF p], rule ends_ret)
qed

lemma ends_collect_peek:
  assumes "is_ring d base peek view"
  shows "ends view (collect_io (\<lambda>i. peek (a + i)) xs) v (map (\<lambda>i. rmem v (a + i)) xs) v"
proof (induction xs)
  case Nil
  show ?case by (simp add: ends_ret)
next
  case (Cons x xs)
  have p: "ends view (peek (a + x)) v (rmem v (a + x)) v" using assms by (simp add: is_ring_def ends_def)
  show ?case by (simp, rule ends_bind [OF p], rule ends_bind [OF Cons], rule ends_ret)
qed

lemma ends_chip:
  assumes "is_ring d base peek view" "\<And>c. (c AND 1 \<noteq> 0) = (rd v = wr v) \<Longrightarrow> ends view (f c) v r w"
  shows "ends view (State_Monad.bind (inb d (base + RTL_REG_CHIPCMD)) f) v r w"
  unfolding ends_def
proof (intro allI impI)
  fix s assume v: "view s = v"
  obtain c t where c: "run_state (inb d (base + RTL_REG_CHIPCMD)) s = (c, t)" by fastforce
  have "(c AND 1 \<noteq> 0) = (rd v = wr v)" "view t = v" using assms(1) v c unfolding is_ring_def by (metis fst_conv snd_conv)+
  with assms(2) [of c] show "fst (run_state (State_Monad.bind (inb d (base + RTL_REG_CHIPCMD)) f) s) = r \<and>
      view (snd (run_state (State_Monad.bind (inb d (base + RTL_REG_CHIPCMD)) f) s)) = w"
    by (simp add: run_state_bind c ends_def)
qed

lemma ends_tail:
  assumes "is_ring d base peek view"
  shows "ends view (outw d (base + RTL_REG_RXBUFTAIL) (capr_of (RX_NEXT p len))) v () (v\<lparr>rd := unat (RX_NEXT p len)\<rparr>)"
  using assms by (simp add: is_ring_def ends_def capr_back)

lemma ends_rx_turns:
  assumes "is_ring d base peek view"
  shows "rd v = unat p \<Longrightarrow> queued (rmem v) (unat p) fs (wr v) \<Longrightarrow> unat p < 32768 \<Longrightarrow> length fs < n \<Longrightarrow>
    \<exists>q. ends view (rx_turns n True d base peek p) v (Some (q, frames_taken fs)) (v\<lparr>rd := wr v\<rparr>) \<and> unat q = wr v"
proof (induction fs arbitrary: v p n)
  case Nil
  then obtain k where n: "n = Suc k" by (cases n) auto
  have e: "v\<lparr>rd := wr v\<rparr> = v" using Nil by simp
  have "ends view (rx_turns n True d base peek p) v (Some (p, frames_taken [])) v"
    unfolding n rx_turns.simps by (rule ends_chip [OF assms]) (use Nil in \<open>simp add: ends_ret\<close>)
  with Nil show ?case unfolding e by auto
next
  case (Cons x fs)
  obtain k f where x: "x = (k, f)" by fastforce
  from Cons.prems(4) obtain m where n: "n = Suc m" "length fs < m" by (cases n) auto
  let ?L = "of_nat (length f + 4) :: u16" and ?i = "unat p"
  let ?q = "RX_NEXT p ?L"
  have f: "length f \<le> 1518" "[rmem v ?i, rmem v (?i + 1)] = bytes16 k" "[rmem v (?i + 2), rmem v (?i + 2 + 1)] = bytes16 ?L"
      "map (\<lambda>j. rmem v (?i + 4 + j)) [0..<length f] = f" and w: "?i \<noteq> wr v" and e: "queued (rmem v) (frame_end ?i f) fs (wr v)"
    using Cons.prems(2) by (simp_all add: x frame_at_def numeral_3_eq_3)
  have r: "queued (rmem v) (unat ?q) fs (wr v)" unfolding RX_NEXT_frame_end [OF Cons.prems(3) f(1)] by (rule e)
  have u: "unat ?L = length f + 4" using f(1) by (intro unat_of_nat_lt) simp
  have "?L - 4 = of_nat (length f)" by simp
  moreover have "unat (of_nat (length f) :: u16) = length f" using f(1) by (intro unat_of_nat_lt) simp
  ultimately have "unat (?L - 4) = length f" by (simp only:)
  moreover have "\<not> (?L < 4 \<or> 1518 + 4 < ?L)" using f(1) unfolding word_less_nat_alt u by simp
  ultimately have l: "\<not> (?L < 4 \<or> 1518 + 4 < ?L)" "unat (?L - 4) = length f" by blast+
  let ?g = "if k AND 1 \<noteq> 0 then [f] else []"
  have c: "ends view (collect_io (\<lambda>j. peek (?i + 4 + j)) [0..<length f]) v f v"
    using ends_collect_peek [OF assms, of "?i + 4" "[0..<length f]" v] unfolding f(4) .
  have g: "ends view (if k AND 1 \<noteq> 0 \<and> True then do {
                 f \<leftarrow> collect_io (\<lambda>j. peek (?i + 4 + j)) [0..<unat (?L - 4)];
                 done_with [f]
               } else done_with []) v ?g v"
    unfolding l(2) by (cases "k AND 1 = 0") (auto intro: ends_ret ends_bind [OF c])
  let ?v = "v\<lparr>rd := unat ?q\<rparr>"
  obtain q where q: "ends view (rx_turns m True d base peek ?q) ?v (Some (q, frames_taken fs)) (v\<lparr>rd := wr v\<rparr>)" "unat q = wr v"
    using Cons.IH [of ?v ?q m] r n(2) RX_NEXT_bound by auto
  have e: "Some (q, frames_taken (x # fs)) = map_option (\<lambda>(p, fs). (p, ?g @ fs)) (Some (q, frames_taken fs))" by (simp add: x)
  have "ends view (rx_turns n True d base peek p) v (Some (q, frames_taken (x # fs))) (v\<lparr>rd := wr v\<rparr>)"
    unfolding n(1) rx_turns.simps e
  proof (rule ends_chip [OF assms])
    fix c :: u8 assume "(c AND 1 \<noteq> 0) = (rd v = wr v)"
    then have c: "\<not> (c AND 0x01 \<noteq> 0)" using Cons.prems(1) w by simp
    show "ends view (if c AND 0x01 \<noteq> 0 then done_with (Some (p, []))
     else do {
       status \<leftarrow> peek_word peek ?i;
       len \<leftarrow> peek_word peek (?i + 2);
       if len < 4 \<or> 1518 + 4 < len then do {
         outw d (base + RTL_REG_RXBUFTAIL) 0xFFF0;
         done_with (Some (0, []))
       }
       else do {
         f \<leftarrow> (if status AND 1 \<noteq> 0 \<and> True then do {
                 f \<leftarrow> collect_io (\<lambda>i. peek (?i + 4 + i)) [0..<unat (len - 4)];
                 done_with [f]
               } else done_with []);
         outw d (base + RTL_REG_RXBUFTAIL) (capr_of (RX_NEXT p len));
         r \<leftarrow> rx_turns m True d base peek (RX_NEXT p len);
         done_with (map_option (\<lambda>(p, fs). (p, f @ fs)) r)
       } }) v (map_option (\<lambda>(p, fs). (p, ?g @ fs)) (Some (q, frames_taken fs))) (v\<lparr>rd := wr v\<rparr>)"
      unfolding if_not_P [OF c]
      by (rule ends_bind [OF ends_peek [OF assms f(2)]], rule ends_bind [OF ends_peek [OF assms f(3)]], unfold if_not_P [OF l(1)],
        rule ends_bind [OF g], rule ends_bind [OF ends_tail [OF assms]], rule ends_bind [OF q(1)], rule ends_ret)
  qed
  with q(2) show ?case by blast
qed

text \<open>A card that is there: the state of the machine is the ring.\<close>

definition ring_io :: "rx_ring io" where
  "ring_io = \<lparr>outb = (\<lambda>_ _. State_Monad.return ()), inb = (\<lambda>_. State (\<lambda>v. (if rd v = wr v then 1 else 0, v))),
     outw = (\<lambda>_ x. State (\<lambda>v. ((), v\<lparr>rd := (unat x + 16) mod 32768\<rparr>))), inw = (\<lambda>_. State_Monad.return 1),
     outl = (\<lambda>_ _. State_Monad.return ()), inl = (\<lambda>_. State_Monad.return 0)\<rparr>"

definition ring_peek :: "nat \<Rightarrow> (rx_ring, u8) state" where
  "ring_peek i = State (\<lambda>v. (rmem v i, v))"

lemma ring_io_ring: "is_ring ring_io base ring_peek (\<lambda>v. v)"
  by (simp add: is_ring_def ring_io_def ring_peek_def)

text \<open>A frame of two bytes that ends at the end of the ring.\<close>

definition demo_ring :: rx_ring where
  "demo_ring = \<lparr>rmem = (\<lambda>i. if i = 32756 then 1 else if i = 32758 then 6 else if i = 32760 then 7 else if i = 32761 then 9 else 0),
     rd = 32756, wr = 0\<rparr>"

section \<open>Properties\<close>



end
