(* ===== verification/Boot.thy ===== *)
theory Boot
  imports Syscall TerminalProps NetIp Ports
begin

unbundle bit_operations_syntax

text \<open>
  Starting the kernel and its last words: the order in which \<^verbatim>\<open>kernel_main\<close> of \<^verbatim>\<open>kernel/kernel.cpp\<close>
  initialises the components, as the list of its calls over the answers they give, the two processes it
  starts, its text output, and the screen \<^verbatim>\<open>isr_handler\<close> of \<^verbatim>\<open>kernel/idt.cpp\<close> writes for an exception.
  The demonstration \<^verbatim>\<open>gfx_test\<close> is one call here.
\<close>

section \<open>Text on the boot screen\<close>

definition vga_cls :: "(int \<Rightarrow> u16) \<Rightarrow> int \<Rightarrow> u16" where
  "vga_cls m = fold (\<lambda>i m. m(i := vga_entry 32 15 0)) [0..80 * 25 - 1] m"

definition vga_fill_row :: "int \<Rightarrow> u8 \<Rightarrow> (int \<Rightarrow> u16) \<Rightarrow> int \<Rightarrow> u16" where
  "vga_fill_row row bg m = fold (\<lambda>i m. m(row * VGA_COLS + i := vga_entry 32 15 bg)) [0..VGA_COLS - 1] m"

text \<open>The characters of a string from a cell on.\<close>

fun put_row :: "u8 \<Rightarrow> u8 \<Rightarrow> int \<Rightarrow> bytes \<Rightarrow> (int \<Rightarrow> u16) \<Rightarrow> int \<Rightarrow> u16" where
  "put_row fg bg i [] m = m"
| "put_row fg bg i (c # cs) m = put_row fg bg (i + 1) cs (m(i := vga_entry c fg bg))"

definition vga_print :: "bytes \<Rightarrow> int \<Rightarrow> int \<Rightarrow> u8 \<Rightarrow> u8 \<Rightarrow> (int \<Rightarrow> u16) \<Rightarrow> int \<Rightarrow> u16" where
  "vga_print s row col fg bg = put_row fg bg (row * VGA_COLS + col) (take (nat (VGA_COLS - col)) s)"

section \<open>The order of initialisation\<close>

datatype boot_call = VgaCls | VgaFillRow int u8 | VgaPrint string int int u8 u8
  | GdtInit | IdtInit | PmmInit u32 | FbInit | PagingInit | MapRegion u32 u32 u32 u32 | AllocRegion u32 u32 u32 | HeapInit u32 u32
  | GfxInit | GraphicsInit | GfxTest | TssInit | PitInit u32 | VfsInit | RtlInit | NetInit u32 u32 u32 | TerminalInit
  | AtaInit | Says "term_call list" | Fat32Init | Mount string | UhciInit | HidInit | KeyboardInit | KeyboardCallback
  | MouseInit int int | MouseCallback | CursorDraw int int | SyscallInit | PipeInitAll | MutexInit | SchedulerInit
  | ProcessCreate string u32 | ShellInit | EnableInterrupts

text \<open>The answers of the calls that may fail, and the screen's place and size.\<close>

record boot_answers =
  ans_fb :: bool
  ans_heap :: bool
  ans_net :: bool
  ans_disk :: bool
  ans_fat :: bool
  ans_mount :: bool
  ans_sectors :: u32
  ans_fb_addr :: u32
  ans_fb_size :: u32
  ans_width :: int
  ans_height :: int

definition HEAP_VIRT :: u32 where "HEAP_VIRT = 8 * 1024 * 1024"
definition HEAP_SIZE :: u32 where "HEAP_SIZE = 4 * 1024 * 1024"

definition boot_screen :: "bool \<Rightarrow> boot_answers \<Rightarrow> boot_call list" where
  "boot_screen have_fb r =
     (if have_fb then
        let base = ans_fb_addr r AND NOT 0xFFF; end_addr = (ans_fb_addr r + ans_fb_size r + 0xFFF) AND NOT 0xFFF
        in [MapRegion base base (end_addr - base) (PAGE_PRESENT OR PAGE_WRITE)]
      else [VgaCls, VgaFillRow 0 1, VgaPrint ''  SabakaOS v0.4.3  [VGA text - no VESA]'' 0 0 15 1])"

definition boot_disk :: "boot_answers \<Rightarrow> boot_call list" where
  "boot_disk r = AtaInit #
     (if ans_disk r then
        Says (in_color 10 (msg ''[ATA] Disk found, '' @ put_calls (uint_text (ans_sectors r) 10) @ msg '' sectors'' @ newline)) # Fat32Init #
        (if ans_fat r then Mount ''/disk'' #
           (if ans_mount r then [Says (in_color 10 (msg ''[FAT32] Mounted at /disk'' @ newline))]
            else [Says (in_color 14 (msg ''[FAT32] VFS mount failed'' @ newline))])
         else [Says (in_color 14 (msg ''[ATA] FAT32 not found'' @ newline))])
      else [Says (in_color 14 (msg ''[ATA] No disk'' @ newline))])"

definition kernel_main :: "u32 \<Rightarrow> boot_answers \<Rightarrow> boot_call list" where
  "kernel_main mb_magic r =
     (let have_fb = (mb_magic = 0x2BADB002 \<and> ans_fb r) in
      [VgaCls, VgaFillRow 0 4, VgaPrint ''SabakaOS booting...'' 0 0 15 4, GdtInit, IdtInit, PmmInit (32 * 1024 * 1024)]
      @ (if mb_magic = 0x2BADB002 then [FbInit] else []) @ [PagingInit] @ boot_screen have_fb r
      @ [AllocRegion HEAP_VIRT HEAP_SIZE (PAGE_PRESENT OR PAGE_WRITE)] @ (if ans_heap r then [HeapInit HEAP_VIRT HEAP_SIZE] else [])
      @ (if have_fb then [GfxInit, GraphicsInit, GfxTest] else [])
      @ [TssInit, PitInit 1000, VfsInit, RtlInit]
      @ (if ans_net r then [NetInit (ip_from_str (map of_char ''10.0.2.15'')) (ip_from_str (map of_char ''10.0.2.2''))
           (ip_from_str (map of_char ''255.255.255.0''))] else [])
      @ [TerminalInit] @ boot_disk r @ [UhciInit, HidInit, KeyboardInit, KeyboardCallback]
      @ (if have_fb then [MouseInit (ans_width r) (ans_height r), MouseCallback, CursorDraw (ans_width r div 2) (ans_height r div 2)] else [])
      @ [SyscallInit, PipeInitAll, MutexInit, SchedulerInit, ProcessCreate ''mutex_a'' 5, ProcessCreate ''mutex_b'' 5,
         ShellInit, EnableInterrupts])"

text \<open>The calls that take memory from the heap come after it is there, when it is there at all; interrupts are
  enabled last.\<close>

definition needs_heap :: "boot_call \<Rightarrow> bool" where
  "needs_heap c \<longleftrightarrow> (case c of GfxInit \<Rightarrow> True | GraphicsInit \<Rightarrow> True | GfxTest \<Rightarrow> True | RtlInit \<Rightarrow> True | Fat32Init \<Rightarrow> True
     | Mount _ \<Rightarrow> True | ProcessCreate _ _ \<Rightarrow> True | _ \<Rightarrow> False)"

lemma boot_order:
  assumes "ans_heap r"
  shows "(\<exists>xs ys. kernel_main magic r = xs @ HeapInit HEAP_VIRT HEAP_SIZE # ys \<and> (\<forall>c \<in> set xs. \<not> needs_heap c)) \<and>
    last (kernel_main magic r) = EnableInterrupts"
proof -
  let ?fb = "magic = 0x2BADB002 \<and> ans_fb r"
  let ?xs = "[VgaCls, VgaFillRow 0 4, VgaPrint ''SabakaOS booting...'' 0 0 15 4, GdtInit, IdtInit, PmmInit (32 * 1024 * 1024)]
      @ (if magic = 0x2BADB002 then [FbInit] else []) @ [PagingInit] @ boot_screen ?fb r @ [AllocRegion HEAP_VIRT HEAP_SIZE (PAGE_PRESENT OR PAGE_WRITE)]"
  obtain ys where "kernel_main magic r = ?xs @ HeapInit HEAP_VIRT HEAP_SIZE # ys" "last (kernel_main magic r) = EnableInterrupts"
    using assms by (simp add: kernel_main_def Let_def)
  moreover have "\<forall>c \<in> set ?xs. \<not> needs_heap c" by (auto simp: boot_screen_def Let_def needs_heap_def)
  ultimately show ?thesis by blast
qed

section \<open>The first two processes\<close>

datatype proc_call = Lock | Count | Unlock | Sleep u32 | Leave

definition mutex_proc :: "u32 \<Rightarrow> proc_call list" where
  "mutex_proc ms = concat (replicate 5 [Lock, Count, Unlock, Sleep ms]) @ [Leave]"

definition mutex_proc_a :: "proc_call list" where "mutex_proc_a = mutex_proc 200"
definition mutex_proc_b :: "proc_call list" where "mutex_proc_b = mutex_proc 300"

section \<open>The serial port\<close>

text \<open>\<open>n\<close> turns at most of the wait for the port; whether all was sent.\<close>

definition serial_write :: "nat \<Rightarrow> 'd io \<Rightarrow> u8 \<Rightarrow> ('d, bool) state" where
  "serial_write n d c = do {
     ready \<leftarrow> poll_io n (do {
       r \<leftarrow> inb d (0x3F8 + 5);
       done_with (if r AND 0x20 = 0 then None else Some True) }) False;
     when_io ready (outb d 0x3F8 c);
     done_with ready
   }"

fun serial_write_string :: "nat \<Rightarrow> 'd io \<Rightarrow> bytes \<Rightarrow> ('d, bool) state" where
  "serial_write_string n d [] = done_with True"
| "serial_write_string n d (c # cs) = do {
     ok \<leftarrow> serial_write n d c;
     if ok then serial_write_string n d cs else done_with False
   }"

section \<open>The screen of an exception\<close>

definition exception_names :: "string list" where
  "exception_names = [''Division By Zero'', ''Debug'', ''NMI'', ''Breakpoint'', ''Overflow'', ''Bound Range Exceeded'',
     ''Invalid Opcode'', ''Device Not Available'', ''Double Fault'', ''Coprocessor Overrun'', ''Invalid TSS'', ''Segment Not Present'',
     ''Stack Fault'', ''General Protection'', ''Page Fault'', ''Reserved'', ''FPU Error'', ''Alignment Check'',
     ''Machine Check'', ''SIMD FP Exception'', ''Virtualization'', ''Reserved'', ''Reserved'', ''Reserved'', ''Reserved'', ''Reserved'',
     ''Reserved'', ''Reserved'', ''Reserved'', ''Reserved'', ''Security Exception'', ''Reserved'']"

record trap_frame =
  r_ds :: u32
  r_edi :: u32
  r_esi :: u32
  r_ebp :: u32
  r_esp :: u32
  r_ebx :: u32
  r_edx :: u32
  r_ecx :: u32
  r_eax :: u32
  r_int_no :: u32
  r_err_code :: u32
  r_eip :: u32
  r_cs :: u32
  r_eflags :: u32
  r_useresp :: u32
  r_ss :: u32

definition isr_print :: "string \<Rightarrow> int \<Rightarrow> int \<Rightarrow> u8 \<Rightarrow> (int \<Rightarrow> u16) \<Rightarrow> int \<Rightarrow> u16" where
  "isr_print s row col fg = put_row fg 4 (row * 80 + col) (map of_char s)"

definition hex_digits :: "u32 \<Rightarrow> bytes" where
  "hex_digits n = map (\<lambda>i. HEX ! unat (drop_bit (4 * (7 - i)) n AND 0xF)) [0..<8]"

definition isr_hex :: "u32 \<Rightarrow> int \<Rightarrow> int \<Rightarrow> (int \<Rightarrow> u16) \<Rightarrow> int \<Rightarrow> u16" where
  "isr_hex n row col = put_row 15 4 (row * 80 + col) (hex_digits n)"

text \<open>The screen before the processor halts for good; the address of a page fault is read from CR2.\<close>

definition isr_handler :: "trap_frame \<Rightarrow> u32 \<Rightarrow> (int \<Rightarrow> u16) \<Rightarrow> int \<Rightarrow> u16" where
  "isr_handler r cr2 m =
     (let m = fold (\<lambda>i m. m(9 * 80 + i := vga_entry 32 15 4)) [0..80 * 6 - 1] m;
          m = isr_print ''*** KERNEL EXCEPTION ***'' 9 2 14 m;
          m = (if r_int_no r < 32 then isr_print (exception_names ! unat (r_int_no r)) 10 2 15 m else m);
          m = isr_hex (r_int_no r) 11 7 (isr_print ''INT:'' 11 2 15 m);
          m = isr_hex (r_err_code r) 11 25 (isr_print ''ERR:'' 11 20 15 m);
          m = isr_hex (r_eip r) 12 7 (isr_print ''EIP:'' 12 2 15 m);
          m = isr_hex (r_esp r) 12 25 (isr_print ''ESP:'' 12 20 15 m);
          m = isr_hex (r_cs r) 13 7 (isr_print ''CS: '' 13 2 15 m);
          m = isr_hex (r_eflags r) 13 25 (isr_print ''EFL:'' 13 20 15 m)
      in isr_hex cr2 14 7 (isr_print ''CR2:'' 14 2 14 m))"

lemma put_row_outside: "j < i \<or> i + int (length cs) \<le> j \<Longrightarrow> put_row fg bg i cs m j = m j"
  by (induction cs arbitrary: i m) auto

lemma exception_names_short: "k < 32 \<Longrightarrow> length (exception_names ! k) \<le> 20"
proof -
  have "list_all (\<lambda>s. length s \<le> 20) exception_names" "length exception_names = 32" by (simp_all add: exception_names_def)
  then show "k < 32 \<Longrightarrow> length (exception_names ! k) \<le> 20" by (simp add: list_all_length)
qed

text \<open>Nothing outside the rows 9 to 14 changes.\<close>

lemma isr_screen_rows:
  assumes "j < 9 * 80 \<or> 15 * 80 \<le> j"
  shows "isr_handler r cr2 m j = m j"
proof -
  have f: "fold (\<lambda>i m. m(9 * 80 + i := vga_entry 32 15 4)) [0..80 * 6 - 1] m j = m j" for m
    by (rule fold_keep) (use assms in auto)
  have h: "isr_hex n row col m j = m j" if "9 \<le> row" "row \<le> 14" "0 \<le> col" "col \<le> 72" for n row col m
    unfolding isr_hex_def by (rule put_row_outside) (use assms that in \<open>auto simp: hex_digits_def\<close>)
  have p: "isr_print s row col fg m j = m j" if "9 \<le> row" "row \<le> 14" "0 \<le> col" "col \<le> 20" "length s \<le> 24" for s row col fg m
    unfolding isr_print_def by (rule put_row_outside) (use assms that in auto)
  have e: "r_int_no r < 32 \<Longrightarrow> length (exception_names ! unat (r_int_no r)) \<le> 24"
    using exception_names_short [of "unat (r_int_no r)"] by (simp add: word_less_nat_alt)
  show ?thesis unfolding isr_handler_def Let_def by (simp add: h p e f [simplified])
qed

end
